(* ===== verification/Prelude.thy ===== *)
theory Prelude
  imports Main "HOL-Library.AList" "HOL-Library.Char_ord" "HOL-Library.List_Lexorder"
    "HOL-Library.Product_Lexorder" "HOL-Library.Multiset"
begin

text \<open>
  Shared vocabulary of the development: the parts of Go's language and standard library the
  modelled code uses, and the lemma collections its proofs share.

  \<^item> Go strings are byte strings, so they are \<open>string\<close> (a \<open>char\<close> is one byte); \<open>len\<close> is
    \<open>length\<close> and \<open><\<close> is the bytewise lexicographic order.
  \<^item> Go maps are association lists with distinct keys (\<open>gomap\<close>). The order of the list is
    one possible iteration order; statements quantify over the list and thereby over it.
  \<^item> A Go slice is a list; nil and empty slices are both \<open>[]\<close>. A nilable pointer is an
    \<open>option\<close>.
  \<^item> \<open>chunks\<close> splits a byte string the way ranging over a Go string does: one element per
    well-formed UTF-8 sequence, and one per byte that does not start one.
\<close>

section \<open>Lemma collections\<close>

named_theorems gomap_simps \<open>lookups after updates and deletions of Go maps\<close>
named_theorems gate_simps \<open>what a publication gate returns on a value that already passed it\<close>

section \<open>Go maps\<close>

type_synonym ('k, 'v) gomap = "('k \<times> 'v) list"

abbreviation mget :: "('k, 'v) gomap \<Rightarrow> 'k \<Rightarrow> 'v option" where
  "mget \<equiv> map_of"

abbreviation mput :: "'k \<Rightarrow> 'v \<Rightarrow> ('k, 'v) gomap \<Rightarrow> ('k, 'v) gomap" where
  "mput \<equiv> AList.update"

abbreviation mdel :: "'k \<Rightarrow> ('k, 'v) gomap \<Rightarrow> ('k, 'v) gomap" where
  "mdel \<equiv> AList.delete"

abbreviation mkeys :: "('k, 'v) gomap \<Rightarrow> 'k list" where
  "mkeys \<equiv> map fst"

definition gomap_ok :: "('k, 'v) gomap \<Rightarrow> bool" where
  "gomap_ok m \<longleftrightarrow> distinct (mkeys m)"

lemma mget_mput [gomap_simps]: "mget (mput k v m) k' = (if k' = k then Some v else mget m k')"
  by (simp add: update_conv')

lemma mget_mdel [gomap_simps]: "mget (mdel k m) k' = (if k' = k then None else mget m k')"
  by (simp add: delete_conv')

lemma gomap_ok_empty [simp]: "gomap_ok []"
  by (simp add: gomap_ok_def)

lemma gomap_ok_mput [simp]: "gomap_ok m \<Longrightarrow> gomap_ok (mput k v m)"
  by (simp add: gomap_ok_def distinct_update)

lemma gomap_ok_mdel [simp]: "gomap_ok m \<Longrightarrow> gomap_ok (mdel k m)"
  by (simp add: gomap_ok_def distinct_delete)

lemma set_mkeys_mput: "set (mkeys (mput k v m)) = insert k (set (mkeys m))"
  using dom_update[of k v m] by simp

lemma set_mkeys_mdel: "set (mkeys (mdel k m)) = set (mkeys m) - {k}"
  by (simp add: delete_keys del: set_map)

lemma mget_Some_mkeys: "mget m k = Some v \<Longrightarrow> k \<in> set (mkeys m)"
  by (metis domI dom_map_of_conv_image_fst image_set)

lemma mget_None_mkeys: "mget m k = None \<longleftrightarrow> k \<notin> set (mkeys m)"
  by (simp add: map_of_eq_None_iff)

lemma mkeys_mget: "k \<in> set (mkeys m) \<Longrightarrow> \<exists>v. mget m k = Some v"
  by (metis mget_None_mkeys option.exhaust)

lemma mem_iff_mget: "gomap_ok m \<Longrightarrow> (k, v) \<in> set m \<longleftrightarrow> mget m k = Some v"
  by (auto simp: gomap_ok_def dest: map_of_SomeD)

lemma length_mput_new: "mget m k = None \<Longrightarrow> length (mput k v m) = Suc (length m)"
  by (induction m) (auto split: if_splits)

lemma length_mdel: "gomap_ok m \<Longrightarrow> mget m k = Some v \<Longrightarrow> Suc (length (mdel k m)) = length m"
proof (induction m)
  case Nil
  then show ?case by simp
next
  case (Cons p m)
  then show ?case
    by (cases p) (auto simp: gomap_ok_def delete_id split: if_splits)
qed

lemma mget_mset_cong: "mset m = mset m' \<Longrightarrow> gomap_ok m \<Longrightarrow> mget m' = mget m"
proof -
  assume eq: "mset m = mset m'" and ok: "gomap_ok m"
  then have "gomap_ok m'"
    by (metis gomap_ok_def mset_eq_imp_distinct_iff mset_map)
  with ok mset_eq_setD [OF eq] show ?thesis
    by (simp add: gomap_ok_def map_of_inject_set)
qed

section \<open>slices.Sort and slices.Compact\<close>

lemma sorted_remdups_distinct: "sorted xs \<Longrightarrow> distinct (remdups_adj (xs :: 'a :: linorder list))"
  by (induction xs rule: remdups_adj.induct) force+

lemma sorted_remdups_cong:
  "set xs = set ys \<Longrightarrow> remdups_adj (sort xs) = remdups_adj (sort (ys :: 'a :: linorder list))"
  by (rule sorted_distinct_set_unique) (simp_all add: sorted_remdups_distinct)

end
