(* ===== verification/GoStrings.thy ===== *)
theory GoStrings
  imports Prelude
begin

text \<open>
  The string functions of Go's standard library that the modelled code calls, on byte
  strings: UTF-8 segmentation (\<open>chunks\<close>, what \<open>for range\<close> iterates over),
  \<open>strings.TrimSpace\<close>, \<open>strings.ToLower\<close>, \<open>strings.Fields\<close>, \<open>strings.Join\<close>,
  \<open>utf8.ValidString\<close>, \<open>unicode.IsSpace\<close> and \<open>unicode.IsControl\<close>.
  \<open>ToLower\<close> maps ASCII letters and the two non-ASCII code points whose lower case is ASCII
  (U+0130 and U+212A); other non-ASCII letters keep their case. Comparing its result with an
  ASCII word, what almost every caller does, is exact; a name with non-ASCII capitals is the
  one value it lower-cases less than Go does.
\<close>

section \<open>UTF-8 segmentation\<close>

abbreviation byte :: "char \<Rightarrow> nat" where
  "byte c \<equiv> of_char c"

definition is_cont :: "char \<Rightarrow> bool" where
  "is_cont c \<longleftrightarrow> 0x80 \<le> byte c \<and> byte c \<le> 0xBF"

definition second_ok :: "nat \<Rightarrow> char \<Rightarrow> bool" where
  "second_ok b0 c =
     (if b0 = 0xE0 then 0xA0 \<le> byte c \<and> byte c \<le> 0xBF
      else if b0 = 0xED then 0x80 \<le> byte c \<and> byte c \<le> 0x9F
      else if b0 = 0xF0 then 0x90 \<le> byte c \<and> byte c \<le> 0xBF
      else if b0 = 0xF4 then 0x80 \<le> byte c \<and> byte c \<le> 0x8F
      else is_cont c)"

text \<open>The length a lead byte announces (0 for a byte that leads nothing), the condition on the
  bytes after it, and the length of the well-formed UTF-8 sequence at the head of a string: 0
  when there is none, which Go decodes as \<open>utf8.RuneError\<close> of width one.\<close>

definition lead_len :: "nat \<Rightarrow> nat" where
  "lead_len b0 =
     (if b0 < 0x80 then 1 else if b0 < 0xC2 then 0 else if b0 \<le> 0xDF then 2
      else if b0 \<le> 0xEF then 3 else if b0 \<le> 0xF4 then 4 else 0)"

fun tail_ok :: "nat \<Rightarrow> string \<Rightarrow> bool" where
  "tail_ok b0 [] = True"
| "tail_ok b0 (c1 # cs) = (second_ok b0 c1 \<and> list_all is_cont cs)"

definition rune_len :: "string \<Rightarrow> nat" where
  "rune_len s = (case s of [] \<Rightarrow> 0 | c0 # r \<Rightarrow>
     (let n = lead_len (byte c0) in
      if n = 0 \<or> length s < n \<or> \<not> tail_ok (byte c0) (take (n - 1) r) then 0 else n))"

function chunks :: "string \<Rightarrow> string list" where
  "chunks s = (if s = [] then [] else
     take (max 1 (rune_len s)) s # chunks (drop (max 1 (rune_len s)) s))"
  by pat_completeness auto
termination
  by (relation "measure length") auto

declare chunks.simps [simp del]

lemma rune_len_le: "rune_len s \<le> length s"
  by (auto simp: rune_len_def Let_def split: list.splits)

lemma rune_len_append: "rune_len t \<noteq> 0 \<Longrightarrow> rune_len (t @ u) = rune_len t"
  by (cases t) (auto simp: rune_len_def Let_def split: if_splits)

lemma rune_len_take: "rune_len s = k \<Longrightarrow> k \<noteq> 0 \<Longrightarrow> rune_len (take k s) = k"
  by (cases s; cases k) (auto simp: rune_len_def Let_def split: if_splits)

lemma chunks_Nil [simp]: "chunks [] = []"
  by (simp add: chunks.simps)

lemma chunks_nonempty: "s \<noteq> [] \<Longrightarrow> chunks s =
    take (max 1 (rune_len s)) s # chunks (drop (max 1 (rune_len s)) s)"
  by (simp add: chunks.simps)

lemma chunks_eq_Nil [simp]: "chunks s = [] \<longleftrightarrow> s = []"
  by (cases "s = []") (simp_all add: chunks_nonempty)

lemma concat_chunks [simp]: "concat (chunks s) = s"
proof (induction s rule: chunks.induct)
  case (1 s)
  then show ?case by (cases "s = []") (simp_all add: chunks_nonempty)
qed

lemma chunks_prefix_step:
  assumes "s \<noteq> []" and "k = max 1 (rune_len s)" and "drop k s = t @ u"
  shows "chunks (take k s @ t) = take k s # chunks t"
proof -
  have ne: "take k s \<noteq> []" using assms(1,2) by (simp add: max_def)
  have len: "length (take k s) = k" using assms(1,2) rune_len_le[of s]
    by (cases s) (auto simp: max_def)
  have k: "max 1 (rune_len (take k s @ t)) = k"
  proof (cases "rune_len s = 0")
    case True
    have s: "s = (take k s @ t) @ u" using assms(3) append_take_drop_id[of k s] by simp
    have "rune_len (take k s @ t) = 0"
      using rune_len_append[of "take k s @ t" u] s True by metis
    then show ?thesis using True assms(2) by simp
  next
    case False
    then show ?thesis using assms(2)
      by (simp add: rune_len_append rune_len_take max_def)
  qed
  have "take k (take k s @ t) = take k s" and "drop k (take k s @ t) = t"
    using len by simp_all
  with ne k show ?thesis
    by (metis append_is_Nil_conv chunks_nonempty)
qed

lemma chunks_concat_take: "chunks (concat (take n (chunks s))) = take n (chunks s)"
proof (induction s arbitrary: n rule: chunks.induct)
  case (1 s)
  show ?case
  proof (cases "s = [] \<or> n = 0")
    case True
    then show ?thesis by auto
  next
    case False
    then obtain m where s: "s \<noteq> []" and n: "n = Suc m" by (cases n) auto
    let ?k = "max 1 (rune_len s)"
    have IH: "chunks (concat (take m (chunks (drop ?k s)))) = take m (chunks (drop ?k s))"
      using 1 s by simp
    have "drop ?k s = concat (take m (chunks (drop ?k s))) @ concat (drop m (chunks (drop ?k s)))"
      by (metis append_take_drop_id concat_append concat_chunks)
    from chunks_prefix_step [OF s refl this] IH show ?thesis
      using n by (simp add: chunks_nonempty [OF s])
  qed
qed

lemma chunks_concat_drop: "chunks (concat (drop n (chunks s))) = drop n (chunks s)"
proof (induction s arbitrary: n rule: chunks.induct)
  case (1 s)
  then show ?case
    by (cases "s = []"; cases n) (simp_all add: chunks_nonempty del: drop_drop)
qed

lemma chunks_mem_nonempty: "c \<in> set (chunks s) \<Longrightarrow> c \<noteq> []"
proof (induction s rule: chunks.induct)
  case (1 s)
  then show ?case by (cases "s = []") (auto simp: chunks_nonempty)
qed

definition ValidString :: "string \<Rightarrow> bool" where
  "ValidString s = list_all (\<lambda>c. rune_len c \<noteq> 0) (chunks s)"

section \<open>Character classes\<close>

definition space_runes :: "string list" where
  "space_runes =
     [[CHR 0x09], [CHR 0x0A], [CHR 0x0B], [CHR 0x0C], [CHR 0x0D], [CHR 0x20],
      [CHR 0xC2, CHR 0x85], [CHR 0xC2, CHR 0xA0], [CHR 0xE1, CHR 0x9A, CHR 0x80],
      [CHR 0xE2, CHR 0x80, CHR 0x80], [CHR 0xE2, CHR 0x80, CHR 0x81],
      [CHR 0xE2, CHR 0x80, CHR 0x82], [CHR 0xE2, CHR 0x80, CHR 0x83],
      [CHR 0xE2, CHR 0x80, CHR 0x84], [CHR 0xE2, CHR 0x80, CHR 0x85],
      [CHR 0xE2, CHR 0x80, CHR 0x86], [CHR 0xE2, CHR 0x80, CHR 0x87],
      [CHR 0xE2, CHR 0x80, CHR 0x88], [CHR 0xE2, CHR 0x80, CHR 0x89],
      [CHR 0xE2, CHR 0x80, CHR 0x8A], [CHR 0xE2, CHR 0x80, CHR 0xA8],
      [CHR 0xE2, CHR 0x80, CHR 0xA9], [CHR 0xE2, CHR 0x80, CHR 0xAF],
      [CHR 0xE2, CHR 0x81, CHR 0x9F], [CHR 0xE3, CHR 0x80, CHR 0x80]]"

definition IsSpace :: "string \<Rightarrow> bool" where
  "IsSpace c \<longleftrightarrow> c \<in> set space_runes"

definition IsControl :: "string \<Rightarrow> bool" where
  "IsControl c = (case c of
      [a] \<Rightarrow> byte a < 0x20 \<or> byte a = 0x7F
    | [a, b] \<Rightarrow> byte a = 0xC2 \<and> 0x80 \<le> byte b \<and> byte b \<le> 0x9F
    | _ \<Rightarrow> False)"

section \<open>TrimSpace, ToLower, Fields, Join\<close>

definition TrimSpace :: "string \<Rightarrow> string" where
  "TrimSpace s = concat (rev (dropWhile IsSpace (rev (dropWhile IsSpace (chunks s)))))"

lemma dropWhile_eq_drop_length: "dropWhile P xs = drop (length (takeWhile P xs)) xs"
  by (induction xs) auto

lemma rdropWhile_eq_take: "\<exists>n. rev (dropWhile P (rev xs)) = take n xs"
  by (metis dropWhile_eq_drop_length rev_drop rev_rev_ident)

lemma chunks_TrimSpace:
  "chunks (TrimSpace s) = rev (dropWhile IsSpace (rev (dropWhile IsSpace (chunks s))))"
proof -
  let ?d = "dropWhile IsSpace (chunks s)"
  obtain n where n: "rev (dropWhile IsSpace (rev ?d)) = take n ?d"
    using rdropWhile_eq_take by blast
  have "chunks (concat ?d) = ?d"
    by (simp add: dropWhile_eq_drop_length chunks_concat_drop)
  then have "chunks (concat (take n ?d)) = take n ?d"
    by (metis chunks_concat_take)
  then show ?thesis by (simp add: TrimSpace_def n)
qed

lemma dropWhile_eq_self_iff: "dropWhile P xs = xs \<longleftrightarrow> xs = [] \<or> \<not> P (hd xs)"
proof (cases xs)
  case (Cons x ys)
  have "length (dropWhile P ys) \<le> length ys" by (rule length_dropWhile_le)
  with Cons show ?thesis by (auto dest: arg_cong[of _ _ length])
qed simp

lemma dropWhile_take: "dropWhile P xs = xs \<Longrightarrow> dropWhile P (take n xs) = take n xs"
  by (auto simp: dropWhile_eq_self_iff hd_conv_nth nth_Cons')

lemma TrimSpace_idem [simp]: "TrimSpace (TrimSpace s) = TrimSpace s"
proof -
  let ?d = "dropWhile IsSpace (chunks s)"
  obtain n where n: "rev (dropWhile IsSpace (rev ?d)) = take n ?d"
    using rdropWhile_eq_take by blast
  have "dropWhile IsSpace (take n ?d) = take n ?d"
    by (rule dropWhile_take) (rule dropWhile_idem)
  then have "dropWhile IsSpace (rev (dropWhile IsSpace (rev ?d))) = rev (dropWhile IsSpace (rev ?d))"
    by (simp only: n)
  then have "chunks (TrimSpace s) = rev (dropWhile IsSpace (rev (dropWhile IsSpace (chunks (TrimSpace s)))))"
    by (simp add: chunks_TrimSpace)
  then show ?thesis
    by (metis TrimSpace_def concat_chunks)
qed

lemma TrimSpace_Nil [simp]: "TrimSpace [] = []"
  by (simp add: TrimSpace_def)

lemma set_chunks_TrimSpace: "set (chunks (TrimSpace s)) \<subseteq> set (chunks s)"
  by (auto simp: chunks_TrimSpace dest!: set_dropWhileD)

lemma length_TrimSpace: "length (TrimSpace s) \<le> length s"
proof -
  let ?d = "dropWhile IsSpace (chunks s)"
  obtain n where n: "rev (dropWhile IsSpace (rev ?d)) = take n ?d"
    using rdropWhile_eq_take by blast
  have "length (concat (take n ?d)) + length (concat (drop n ?d)) = length (concat ?d)"
    by (metis append_take_drop_id concat_append length_append)
  moreover have "length (concat (takeWhile IsSpace (chunks s))) + length (concat ?d) = length s"
    by (metis concat_append concat_chunks length_append takeWhile_dropWhile_id)
  ultimately show ?thesis by (simp add: TrimSpace_def n)
qed

lemma ValidString_TrimSpace: "ValidString s \<Longrightarrow> ValidString (TrimSpace s)"
  using set_chunks_TrimSpace[of s] by (auto simp: ValidString_def list_all_iff)

definition ContainsControlChar :: "string \<Rightarrow> bool" where
  "ContainsControlChar s = list_ex IsControl (chunks s)"

lemma ContainsControlChar_TrimSpace:
  "ContainsControlChar (TrimSpace s) \<Longrightarrow> ContainsControlChar s"
  using set_chunks_TrimSpace[of s] by (auto simp: ContainsControlChar_def list_ex_iff)

text \<open>What \<open>strings.Builder.WriteRune\<close> writes for one element of a \<open>range\<close> loop: the
  replacement character for a byte that did not decode.\<close>

definition WriteRune :: "string \<Rightarrow> string" where
  "WriteRune c = (if rune_len c = 0 then [CHR 0xEF, CHR 0xBF, CHR 0xBD] else c)"

definition lower_rune :: "string \<Rightarrow> string" where
  "lower_rune c =
     (case c of
        [a] \<Rightarrow> if 65 \<le> byte a \<and> byte a \<le> 90 then [char_of (byte a + 32)] else WriteRune c
      | _ \<Rightarrow> if c = [CHR 0xC4, CHR 0xB0] then ''i''
             else if c = [CHR 0xE2, CHR 0x84, CHR 0xAA] then ''k'' else WriteRune c)"

definition ToLower :: "string \<Rightarrow> string" where
  "ToLower s = concat (map lower_rune (chunks s))"

lemma ToLower_Nil [simp]: "ToLower [] = []"
  by (simp add: ToLower_def)

fun fields_loop :: "string \<Rightarrow> string list \<Rightarrow> string list" where
  "fields_loop acc [] = (if acc = [] then [] else [acc])"
| "fields_loop acc (c # cs) =
     (if IsSpace c then (if acc = [] then fields_loop [] cs else acc # fields_loop [] cs)
      else fields_loop (acc @ c) cs)"

definition Fields :: "string \<Rightarrow> string list" where
  "Fields s = fields_loop [] (chunks s)"

fun Join :: "string list \<Rightarrow> string \<Rightarrow> string" where
  "Join [] sep = []"
| "Join [x] sep = x"
| "Join (x # y # xs) sep = x @ sep @ Join (y # xs) sep"

definition HasPrefix :: "string \<Rightarrow> string \<Rightarrow> bool" where
  "HasPrefix s p \<longleftrightarrow> take (length p) s = p"

definition HasSuffix :: "string \<Rightarrow> string \<Rightarrow> bool" where
  "HasSuffix s p \<longleftrightarrow> length p \<le> length s \<and> drop (length s - length p) s = p"

fun Index :: "string \<Rightarrow> string \<Rightarrow> nat option" where
  "Index [] p = (if p = [] then Some 0 else None)"
| "Index (c # s) p = (if HasPrefix (c # s) p then Some 0 else map_option Suc (Index s p))"

definition Contains :: "string \<Rightarrow> string \<Rightarrow> bool" where
  "Contains s p \<longleftrightarrow> Index s p \<noteq> None"

fun split_on :: "char \<Rightarrow> string \<Rightarrow> string list" where
  "split_on sep [] = [[]]"
| "split_on sep (c # s) =
     (if c = sep then [] # split_on sep s
      else (case split_on sep s of [] \<Rightarrow> [[c]] | t # ts \<Rightarrow> (c # t) # ts))"

lemma split_on_ne [simp]: "split_on sep s \<noteq> []"
  by (induction s) (auto split: list.splits)

lemma split_on_no_sep: "sep \<notin> set s \<Longrightarrow> split_on sep s = [s]"
  by (induction s) auto

lemma split_on_append_sep: "sep \<notin> set s \<Longrightarrow> split_on sep (s @ sep # t) = s # split_on sep t"
  by (induction s) auto

lemma split_on_Join:
  "xs \<noteq> [] \<Longrightarrow> \<forall>x \<in> set xs. sep \<notin> set x \<Longrightarrow> split_on sep (Join xs [sep]) = xs"
proof (induction xs "[sep]" rule: Join.induct)
  case (2 x)
  then show ?case by (simp add: split_on_no_sep)
next
  case (3 x y xs)
  then show ?case using split_on_append_sep [of sep x "Join (y # xs) [sep]"] by simp
qed simp

lemma set_Join: "set (Join fs sep) \<subseteq> \<Union> (set ` set fs) \<union> set sep"
  by (induction fs sep rule: Join.induct) auto

section \<open>ASCII strings\<close>

definition is_ascii :: "string \<Rightarrow> bool" where
  "is_ascii s = list_all (\<lambda>c. byte c < 0x80) s"

lemma chunks_ascii: "is_ascii s \<Longrightarrow> chunks s = map (\<lambda>c. [c]) s"
proof (induction s)
  case (Cons c s)
  then have "rune_len (c # s) = 1"
    by (simp add: is_ascii_def rune_len_def lead_len_def Let_def)
  with Cons show ?case by (simp add: chunks_nonempty is_ascii_def)
qed simp

definition lower_char :: "char \<Rightarrow> char" where
  "lower_char a = (if 65 \<le> byte a \<and> byte a \<le> 90 then char_of (byte a + 32) else a)"

lemma ToLower_ascii: "is_ascii s \<Longrightarrow> ToLower s = map lower_char s"
proof -
  assume a: "is_ascii s"
  have "lower_rune [c] = [lower_char c]" if "c \<in> set s" for c
    using a that by (auto simp: lower_rune_def lower_char_def WriteRune_def rune_len_def
        lead_len_def Let_def is_ascii_def list_all_iff)
  then have "concat (map (\<lambda>c. lower_rune [c]) s) = map lower_char s"
    by (induction s) auto
  with a show ?thesis by (simp add: ToLower_def chunks_ascii comp_def)
qed

lemma is_ascii_append [simp]: "is_ascii (s @ t) \<longleftrightarrow> is_ascii s \<and> is_ascii t"
  by (simp add: is_ascii_def)

text \<open>\<open>isBoundedToken\<close> of \<^verbatim>\<open>external_reference.go\<close>: non-empty, well-formed UTF-8 and free
  of white space and control characters. It is shared by every gate that admits tokens.\<close>

definition isBoundedToken :: "string \<Rightarrow> bool" where
  "isBoundedToken value \<longleftrightarrow> value \<noteq> [] \<and> ValidString value
     \<and> list_all (\<lambda>r. \<not> (IsSpace r \<or> IsControl r)) (chunks value)"

lemma dropWhile_no_space: "list_all (\<lambda>r. \<not> IsSpace r) cs \<Longrightarrow> dropWhile IsSpace cs = cs"
  by (cases cs) auto

lemma isBoundedToken_TrimSpace [gate_simps]: "isBoundedToken s \<Longrightarrow> TrimSpace s = s"
proof -
  assume "isBoundedToken s"
  then have "list_all (\<lambda>r. \<not> IsSpace r) (chunks s)"
    by (simp add: isBoundedToken_def list_all_iff)
  then show ?thesis
    by (simp add: TrimSpace_def dropWhile_no_space list_all_rev)
qed

end
