(* ===== verification/Merge.thy ===== *)
theory Merge
  imports GoStrings "HOL-Library.Word"
begin

text \<open>
  The merge classes of \<^verbatim>\<open>model/merge.go\<close>: \<open>MergeFillGap\<close>, \<open>MergeUnion\<close>,
  \<open>MergeStrongest\<close> and the preallocation hint \<open>mergeCapacity\<close>, with the two contracts the
  rest of the model relies on, stated as locales: \<open>gated_union\<close> (a set assembled through a
  publication gate and deduplicated by a key) and \<open>witness_merge\<close> (a scalar that several
  witnesses state, where arrival order must not matter).
\<close>

section \<open>Scalars that fill gaps\<close>

definition MergeFillGap :: "'a \<Rightarrow> ('a \<Rightarrow> bool) option \<Rightarrow> 'a \<Rightarrow> 'a \<Rightarrow> 'a" where
  "MergeFillGap zero publishable current nxt =
     (let stated = current \<noteq> zero;
          stated = (if stated \<and> (case publishable of None \<Rightarrow> False | Some p \<Rightarrow> \<not> p current)
                    then False else stated)
      in if stated then current
         else if (case publishable of None \<Rightarrow> False | Some p \<Rightarrow> nxt \<noteq> zero \<and> \<not> p nxt) then zero
         else nxt)"

section \<open>Sets assembled through a gate\<close>

text \<open>The loop every set-valued merge runs: gate each element, skip the ones the gate refuses
  and the ones whose key was seen.\<close>

fun dedup_gated :: "('a \<Rightarrow> 'a option) \<Rightarrow> ('a \<Rightarrow> 'k) \<Rightarrow> 'k list \<Rightarrow> 'a list \<Rightarrow> 'a list" where
  "dedup_gated gate key seen [] = []"
| "dedup_gated gate key seen (x # xs) =
     (case gate x of
        None \<Rightarrow> dedup_gated gate key seen xs
      | Some y \<Rightarrow> if key y \<in> set seen then dedup_gated gate key seen xs
                  else y # dedup_gated gate key (key y # seen) xs)"

definition MergeUnion :: "('a \<Rightarrow> string) \<Rightarrow> ('a \<Rightarrow> 'a option) option \<Rightarrow> 'a list \<Rightarrow> 'a list \<Rightarrow> 'a list" where
  "MergeUnion key publishable current nxt =
     (let gate = (case publishable of None \<Rightarrow> Some | Some g \<Rightarrow> g);
          merged = dedup_gated gate key [] (current @ nxt)
      in sort_key key merged)"

lemma dedup_gated_fresh: "y \<in> set (dedup_gated gate key seen xs) \<Longrightarrow> key y \<notin> set seen"
  by (induction xs arbitrary: seen) (fastforce split: option.splits if_splits)+

lemma dedup_gated_distinct: "distinct (map key (dedup_gated gate key seen xs))"
  by (induction xs arbitrary: seen) (auto split: option.splits dest: dedup_gated_fresh)

lemma dedup_gated_mem:
  "y \<in> set (dedup_gated gate key seen xs) \<Longrightarrow> \<exists>x \<in> set xs. gate x = Some y"
  by (induction xs arbitrary: seen) (auto split: option.splits if_splits)

lemma dedup_gated_complete:
  assumes "gate x = Some y" and "x \<in> set xs"
  shows "key y \<in> set seen \<or> key y \<in> key ` set (dedup_gated gate key seen xs)"
  using assms(2)
proof (induction xs arbitrary: seen)
  case (Cons a xs)
  show ?case
  proof (cases "gate a")
    case None
    with Cons assms(1) show ?thesis by auto
  next
    case (Some z)
    with Cons.prems assms(1) Cons.IH [of seen] Cons.IH [of "key z # seen"] show ?thesis
      by (cases "x = a") auto
  qed
qed simp

lemma dedup_gated_id:
  assumes "\<forall>x \<in> set xs. gate x = Some x"
    and "distinct (map key xs)" and "\<forall>x \<in> set xs. key x \<notin> set seen"
  shows "dedup_gated gate key seen xs = xs"
  using assms
proof (induction xs arbitrary: seen)
  case (Cons a xs)
  have "key x \<noteq> key a" if "x \<in> set xs" for x
  proof -
    have "key a \<notin> key ` set xs" using Cons.prems(2) by simp
    with that show ?thesis by (metis imageI)
  qed
  then have "dedup_gated gate key (key a # seen) xs = xs"
    by (intro Cons.IH) (use Cons.prems in auto)
  with Cons.prems show ?case by simp
qed simp

lemma distinct_map_sort_key: "distinct (map f (sort_key g xs)) \<longleftrightarrow> distinct (map f xs)"
  by (metis mset_map mset_sort mset_eq_imp_distinct_iff)

lemma sort_key_cong_set:
  fixes key :: "'a \<Rightarrow> 'k :: linorder"
  assumes "set xs = set ys" and "distinct (map key xs)" and "distinct (map key ys)"
  shows "sort_key key xs = sort_key key ys"
proof (rule map_sorted_distinct_set_unique [where f = key])
  show "inj_on key (set (sort_key key xs) \<union> set (sort_key key ys))"
    using assms by (simp add: distinct_map)
qed (use assms in \<open>simp_all add: distinct_map_sort_key\<close>)

lemma sort_key_sorted_id:
  fixes key :: "'a \<Rightarrow> 'k :: linorder"
  shows "sorted (map key xs) \<Longrightarrow> sort_key key xs = xs"
  by (rule sort_key_id_if_sorted)

text \<open>The contract of a gated set: the gate is a fixed point on what it admits, and on
  admitted values the key tells two of them apart.\<close>

locale gated_union =
  fixes gate :: "'a \<Rightarrow> 'a option" and key :: "'a \<Rightarrow> 'k :: linorder"
  assumes gate_idem: "gate x = Some y \<Longrightarrow> gate y = Some y"
    and key_inj: "gate x = Some x \<Longrightarrow> gate y = Some y \<Longrightarrow> key x = key y \<Longrightarrow> x = y"
begin

lemma dedup_mem_gated: "y \<in> set (dedup_gated gate key seen xs) \<Longrightarrow> gate y = Some y"
  using dedup_gated_mem gate_idem by fastforce

lemma dedup_set: "set (dedup_gated gate key [] xs) = {y. \<exists>x \<in> set xs. gate x = Some y}"
proof (intro equalityI subsetI)
  fix y assume "y \<in> {y. \<exists>x \<in> set xs. gate x = Some y}"
  then obtain x where x: "x \<in> set xs" "gate x = Some y" by blast
  from dedup_gated_complete [of gate x y xs key "[]"] x
  obtain z where z: "z \<in> set (dedup_gated gate key [] xs)" "key y = key z" by auto
  with dedup_mem_gated gate_idem [OF x(2)] key_inj have "y = z" by blast
  with z show "y \<in> set (dedup_gated gate key [] xs)" by simp
qed (use dedup_gated_mem in fast)

definition union_of :: "'a list \<Rightarrow> 'a list" where
  "union_of xs = sort_key key (dedup_gated gate key [] xs)"

lemma set_union_of: "set (union_of xs) = {y. \<exists>x \<in> set xs. gate x = Some y}"
  by (simp add: union_of_def dedup_set)

lemma union_of_sorted: "sorted (map key (union_of xs))"
  by (simp add: union_of_def)

lemma union_of_distinct: "distinct (map key (union_of xs))"
  by (simp add: union_of_def distinct_map_sort_key dedup_gated_distinct)

lemma union_of_gated: "y \<in> set (union_of xs) \<Longrightarrow> gate y = Some y"
  using set_union_of gate_idem by fastforce

lemma union_of_cong:
  assumes "{y. \<exists>x \<in> set xs. gate x = Some y} = {y. \<exists>x \<in> set ys. gate x = Some y}"
  shows "union_of xs = union_of ys"
  unfolding union_of_def
  by (rule sort_key_cong_set) (simp_all add: dedup_set assms dedup_gated_distinct)

lemma union_of_commute: "union_of (xs @ ys) = union_of (ys @ xs)"
  by (rule union_of_cong) auto

lemma union_of_idem: "union_of (union_of xs @ ys) = union_of (xs @ ys)"
  by (rule union_of_cong) (auto simp: set_union_of gate_idem, (blast intro: gate_idem)+)

lemma union_of_idem_right: "union_of (xs @ union_of ys) = union_of (xs @ ys)"
  using union_of_idem union_of_commute by metis

lemma union_of_assoc: "union_of (union_of (xs @ ys) @ zs) = union_of (xs @ union_of (ys @ zs))"
  by (simp add: union_of_idem union_of_idem_right)

lemma union_of_fixed: "union_of (union_of xs) = union_of xs"
  using union_of_idem [of xs "[]"] by simp

end

section \<open>Ordered vocabularies\<close>

definition MergeStrongest :: "'a \<Rightarrow> ('a \<Rightarrow> nat) \<Rightarrow> 'a \<Rightarrow> 'a \<Rightarrow> 'a" where
  "MergeStrongest zero rank current nxt =
     (if nxt = zero then current
      else if current = zero then nxt
      else if rank nxt > rank current then nxt
      else current)"

text \<open>The contract of a scalar that several witnesses state: on its vocabulary the merge is a
  semilattice, so a fold depends neither on the order of the witnesses nor on repetition.\<close>

locale witness_merge =
  fixes merge :: "'a \<Rightarrow> 'a \<Rightarrow> 'a" and vocab :: "'a set"
  assumes closed: "x \<in> vocab \<Longrightarrow> y \<in> vocab \<Longrightarrow> merge x y \<in> vocab"
    and commute: "x \<in> vocab \<Longrightarrow> y \<in> vocab \<Longrightarrow> merge x y = merge y x"
    and assoc: "x \<in> vocab \<Longrightarrow> y \<in> vocab \<Longrightarrow> z \<in> vocab \<Longrightarrow>
                merge (merge x y) z = merge x (merge y z)"
    and idem: "x \<in> vocab \<Longrightarrow> merge x x = x"
begin

lemma fold_closed: "x \<in> vocab \<Longrightarrow> set xs \<subseteq> vocab \<Longrightarrow> foldl merge x xs \<in> vocab"
  by (induction xs arbitrary: x) (auto simp: closed)

lemma merge_fold: "x \<in> vocab \<Longrightarrow> y \<in> vocab \<Longrightarrow> set xs \<subseteq> vocab \<Longrightarrow>
    merge y (foldl merge x xs) = foldl merge (merge y x) xs"
proof (induction xs arbitrary: x)
  case (Cons a xs)
  then show ?case by (simp add: closed assoc)
qed simp

lemma fold_absorb: "x \<in> vocab \<Longrightarrow> set xs \<subseteq> vocab \<Longrightarrow> a \<in> set xs \<Longrightarrow>
    merge a (foldl merge x xs) = foldl merge x xs"
proof (induction xs arbitrary: x)
  case (Cons b xs)
  show ?case
  proof (cases "a = b")
    case True
    with Cons.prems show ?thesis
      by (simp add: merge_fold closed) (metis assoc commute idem)
  next
    case False
    with Cons show ?thesis by (simp add: closed)
  qed
qed simp

lemma fold_subset: "x \<in> vocab \<Longrightarrow> set ys \<subseteq> vocab \<Longrightarrow> set xs \<subseteq> set ys \<Longrightarrow>
    foldl merge (foldl merge x ys) xs = foldl merge x ys"
proof (induction xs)
  case (Cons a xs)
  then have "merge (foldl merge x ys) a = foldl merge x ys"
    using fold_absorb [of x ys a] fold_closed [of x ys] by (metis commute list.set_intros(1) subsetD)
  with Cons show ?case by simp
qed simp

lemma fold_merge_acc: "x \<in> vocab \<Longrightarrow> set xs \<subseteq> vocab \<Longrightarrow> set ys \<subseteq> vocab \<Longrightarrow>
    foldl merge (foldl merge x xs) ys = foldl merge (foldl merge x ys) xs"
proof (induction ys arbitrary: x)
  case (Cons a ys)
  then have x: "merge x a \<in> vocab" and a: "a \<in> vocab" by (auto simp: closed)
  have "merge (foldl merge x xs) a = foldl merge (merge x a) xs"
    using Cons.prems a by (metis commute fold_closed merge_fold)
  with Cons.IH [OF x] Cons.prems show ?case by simp
qed simp

text \<open>Arrival order and repetition do not matter: only the set of witnesses does.\<close>

lemma fold_set_cong: "x \<in> vocab \<Longrightarrow> set xs \<subseteq> vocab \<Longrightarrow> set xs = set ys \<Longrightarrow>
    foldl merge x xs = foldl merge x ys"
  by (metis fold_merge_acc fold_subset order_refl)

end

section \<open>Preallocation hints\<close>

definition maxMergeCapacity :: "64 word" where
  "maxMergeCapacity = 1048576"

definition mergeCapacity :: "64 word \<Rightarrow> 64 word \<Rightarrow> 64 word" where
  "mergeCapacity a b =
     (if a <s maxMergeCapacity then a else maxMergeCapacity)
   + (if b <s maxMergeCapacity then b else maxMergeCapacity)"

end
