(* ===== verification/Library.thy ===== *)
theory Library
  imports GoStrings
begin

text \<open>
  The code the repository calls and does not contain, as one record of functions. Every
  definition that reaches such code takes the record as its first argument, so a statement
  holds for any implementation, or names the documented law it needs.

  \<^item> \<open>url_*\<close>: \<^verbatim>\<open>net/url\<close>; \<open>None\<close> is a parse or decode error.
  \<^item> \<open>idna_*\<close>: \<^verbatim>\<open>golang.org/x/net/idna\<close>, the Lookup profile and the profile with DNS lengths.
  \<^item> \<open>addressPattern\<close>: whether the regular expression of \<^verbatim>\<open>model/contact.go\<close> matches.
  \<^item> \<open>digest_spdx\<close>, \<open>digest_cdx\<close>: the constants spdx/tools-golang and cyclonedx-go declare for
    a canonical algorithm token, empty where the format has none.
  \<^item> \<open>sha256_hex\<close>: the hexadecimal spelling of the first 16 bytes of \<^verbatim>\<open>crypto/sha256\<close>.
  \<^item> \<open>spdx_*\<close>: \<^verbatim>\<open>github.com/github/go-spdx\<close>; \<open>None\<close> is a rejected value or a contained panic.
    \<open>spdx_normalize\<close> is \<open>ValidateAndNormalizeLicensesWithOptions\<close> on one value, \<open>spdx_validate\<close>
    the values \<open>ValidateLicenses\<close> reports invalid, \<open>spdx_active\<close> and \<open>spdx_deprecated\<close> the list
    lookups, \<open>spdx_extract\<close> \<open>ExtractLicenses\<close>.
  \<^item> \<open>spdx_reference_type\<close>, \<open>spdx_category\<close>: the reference-type and category constants of
    \<^verbatim>\<open>spdx/tools-golang\<close>, by the name of the constant; \<open>cdx_reference_types\<close> and
    \<open>cdx_IsBOMLink\<close>, \<open>cdx_BOMLinkVersion\<close>: the reference types and the BOM-Link grammar of
    \<^verbatim>\<open>cyclonedx-go\<close>, and the version \<open>ParseBOMLink\<close> reads (\<open>None\<close> for an error).
  \<^item> \<open>purl_FromString\<close>, \<open>purl_Normalize\<close>, \<open>purl_ToString\<close>: \<^verbatim>\<open>package-url/packageurl-go\<close>;
    \<open>pep440\<close>: the canonical rendering of \<^verbatim>\<open>go-pep440-version\<close>, \<open>None\<close> for an error or a panic.
  \<^item> \<open>cdx_constant\<close>: the string constants of \<^verbatim>\<open>cyclonedx-go\<close>, by the name of the constant;
    \<open>time_RFC3339\<close>: whether \<^verbatim>\<open>time.Parse\<close> accepts a value under the RFC 3339 layout.\<close>

record url =
  Scheme :: string
  Opaque :: string
  User :: "string option"
  Host :: string
  Path :: string
  RawPath :: string
  OmitHost :: bool
  ForceQuery :: bool
  RawQuery :: string
  Fragment :: string
  RawFragment :: string

record qualifier =
  Key :: string
  QValue :: string

record purl =
  PType :: string
  Namespace :: string
  PName :: string
  PVersion :: string
  Qualifiers :: "qualifier list"
  Subpath :: string

record library =
  url_Parse :: "string \<Rightarrow> url option"
  url_String :: "url \<Rightarrow> string"
  url_EscapedPath :: "url \<Rightarrow> string"
  url_PathUnescape :: "string \<Rightarrow> string option"
  url_QueryUnescape :: "string \<Rightarrow> string option"
  idna_Lookup :: "string \<Rightarrow> string option"
  idna_HostLengths :: "string \<Rightarrow> string option"
  addressPattern :: "string \<Rightarrow> bool"
  digest_spdx :: "string \<Rightarrow> string"
  digest_cdx :: "string \<Rightarrow> string"
  sha256_hex :: "string \<Rightarrow> string"
  spdx_normalize :: "string \<Rightarrow> string option"
  spdx_active :: "string \<Rightarrow> string option"
  spdx_deprecated :: "string \<Rightarrow> string option"
  spdx_extract :: "string \<Rightarrow> string list"
  spdx_validate :: "string list \<Rightarrow> string list option"
  spdx_reference_type :: "string \<Rightarrow> string"
  spdx_category :: "string \<Rightarrow> string"
  cdx_reference_types :: "string list"
  cdx_IsBOMLink :: "string \<Rightarrow> bool"
  cdx_BOMLinkVersion :: "string \<Rightarrow> int option"
  purl_FromString :: "string \<Rightarrow> purl option"
  purl_Normalize :: "purl \<Rightarrow> purl option"
  purl_ToString :: "purl \<Rightarrow> string"
  pep440 :: "string \<Rightarrow> string option"
  cdx_constant :: "string \<Rightarrow> string"
  time_RFC3339 :: "string \<Rightarrow> bool"

text \<open>A concrete record, the input the witnesses of the development evaluate at: a library that
  knows no foreign spelling and refuses every URL, host, address and licence.\<close>

definition plain_library :: library where
  "plain_library =
     \<lparr>url_Parse = \<lambda>_. None, url_String = \<lambda>_. [], url_EscapedPath = \<lambda>_. [],
      url_PathUnescape = Some, url_QueryUnescape = Some, idna_Lookup = \<lambda>_. None,
      idna_HostLengths = \<lambda>_. None, addressPattern = \<lambda>_. False, digest_spdx = \<lambda>_. [],
      digest_cdx = \<lambda>_. [], sha256_hex = \<lambda>_. [], spdx_normalize = \<lambda>_. None,
      spdx_active = \<lambda>_. None, spdx_deprecated = \<lambda>_. None, spdx_extract = \<lambda>_. [],
      spdx_validate = Some, spdx_reference_type = \<lambda>_. [], spdx_category = \<lambda>_. [],
      cdx_reference_types = [], cdx_IsBOMLink = \<lambda>_. False,
      cdx_BOMLinkVersion = \<lambda>_. None, purl_FromString = \<lambda>_. None,
      purl_Normalize = \<lambda>_. None, purl_ToString = \<lambda>_. [], pep440 = \<lambda>_. None,
      cdx_constant = id, time_RFC3339 = \<lambda>_. False\<rparr>"

end
