(* ===== verification/Scopes.thy ===== *)
theory Scopes
  imports Merge
begin

text \<open>
  Dependency scopes: the vocabulary and its operations from \<^verbatim>\<open>model/dependency.go\<close>, the
  absence rule of \<^verbatim>\<open>model/scope_filter.go\<close>, and the CycloneDX scalar and carrier of
  \<^verbatim>\<open>model/scope_cyclonedx.go\<close>. A scope is a string, as in the code, so tokens outside the
  vocabulary stay representable.
\<close>

section \<open>The vocabulary\<close>

type_synonym scope = string

abbreviation ScopeUnknown :: scope where "ScopeUnknown \<equiv> []"
abbreviation ScopeRuntime :: scope where "ScopeRuntime \<equiv> ''runtime''"
abbreviation ScopeDevelopment :: scope where "ScopeDevelopment \<equiv> ''development''"

datatype scope_error =
    UnsupportedScope string
  | ScopeSetTooLong nat
  | ScopeSetNotPrintable string
  | ScopeSetEmptyEntry string
  | ScopeSetMalformed string string
  | ScopeSetUnknown string string

abbreviation maxVocabularyTokenLength :: nat where "maxVocabularyTokenLength \<equiv> 64"

definition ParseScope :: "string \<Rightarrow> scope_error + scope" where
  "ParseScope value =
     (let v = ToLower (TrimSpace value)
      in if v = ScopeRuntime then Inr ScopeRuntime
         else if v = ScopeDevelopment then Inr ScopeDevelopment
         else if v = ScopeUnknown then Inr ScopeUnknown
         else Inl (UnsupportedScope value))"

definition MergeScope :: "scope \<Rightarrow> scope \<Rightarrow> scope" where
  "MergeScope current nxt =
     (if nxt = ScopeUnknown then current
      else if current = ScopeUnknown then nxt
      else if current = ScopeRuntime \<or> nxt = ScopeRuntime then ScopeRuntime
      else ScopeDevelopment)"

definition ScopesOf :: "scope list \<Rightarrow> scope list" where
  "ScopesOf scopes =
     foldl (\<lambda>out s. if s = ScopeUnknown then out else if s \<in> set out then out else out @ [s]) [] scopes"

definition scope_vocab :: "scope set" where
  "scope_vocab = {ScopeUnknown, ScopeRuntime, ScopeDevelopment}"

interpretation scope_merge: witness_merge MergeScope scope_vocab
  by unfold_locales (auto simp: scope_vocab_def MergeScope_def)

lemma ScopesOf_append: "ScopesOf (xs @ [s]) =
    (if s = ScopeUnknown \<or> s \<in> set (ScopesOf xs) then ScopesOf xs else ScopesOf xs @ [s])"
  by (simp add: ScopesOf_def)

lemma set_ScopesOf: "set (ScopesOf xs) = set xs - {ScopeUnknown}"
proof (induction xs rule: rev_induct)
  case Nil
  show ?case by (simp add: ScopesOf_def)
next
  case (snoc s xs)
  then show ?case by (auto simp: ScopesOf_append)
qed

lemma distinct_ScopesOf: "distinct (ScopesOf xs)"
proof (induction xs rule: rev_induct)
  case Nil
  show ?case by (simp add: ScopesOf_def)
next
  case (snoc s xs)
  then show ?case by (simp add: ScopesOf_append)
qed

text \<open>\<open>mergeScopeSet\<close> of \<^verbatim>\<open>model/graph.go\<close>: the sorted union without unknown entries.\<close>

definition mergeScopeSet :: "scope list \<Rightarrow> scope list \<Rightarrow> scope list" where
  "mergeScopeSet existing additions = sort (ScopesOf (existing @ additions))"

lemma mergeScopeSet_eq: "mergeScopeSet xs ys = sorted_list_of_set (set xs \<union> set ys - {ScopeUnknown})"
  by (simp add: mergeScopeSet_def distinct_ScopesOf set_ScopesOf flip: sorted_list_of_set_sort_remdups)
     (simp add: sorted_list_of_set_sort_remdups distinct_remdups_id distinct_ScopesOf flip: set_ScopesOf set_append)

lemma set_mergeScopeSet: "set (mergeScopeSet xs ys) = set xs \<union> set ys - {ScopeUnknown}"
  by (simp add: mergeScopeSet_def set_ScopesOf)

lemma mergeScopeSet_commute: "mergeScopeSet xs ys = mergeScopeSet ys xs"
  by (simp add: mergeScopeSet_eq Un_commute)

lemma mergeScopeSet_assoc:
  "mergeScopeSet (mergeScopeSet xs ys) zs = mergeScopeSet xs (mergeScopeSet ys zs)"
  by (simp add: mergeScopeSet_eq[of _ zs] mergeScopeSet_eq[of xs] set_mergeScopeSet)
     (rule arg_cong[where f = sorted_list_of_set], blast)

lemma mergeScopeSet_idem: "mergeScopeSet (mergeScopeSet xs ys) ys = mergeScopeSet xs ys"
  by (simp add: mergeScopeSet_eq[of _ ys] set_mergeScopeSet)
     (rule arg_cong[where f = sorted_list_of_set], blast)

section \<open>Matching a scope set against a requested scope\<close>

definition containsScope :: "scope list \<Rightarrow> scope \<Rightarrow> bool" where
  "containsScope scopes s \<longleftrightarrow> s \<in> set scopes"

definition ScopeSetMatches :: "scope list \<Rightarrow> scope \<Rightarrow> bool" where
  "ScopeSetMatches scopes want =
     (if want = ScopeUnknown then True
      else if want = ScopeRuntime then
        containsScope scopes ScopeRuntime \<or> \<not> containsScope scopes ScopeDevelopment
      else containsScope scopes want)"

section \<open>The CycloneDX scalar\<close>

text \<open>The three scope words of CycloneDX, as \<^verbatim>\<open>model/scope_cyclonedx.go\<close> spells them.\<close>

abbreviation ScopeRequired :: string where "ScopeRequired \<equiv> ''required''"
abbreviation ScopeOptional :: string where "ScopeOptional \<equiv> ''optional''"
abbreviation ScopeExcluded :: string where "ScopeExcluded \<equiv> ''excluded''"

fun CycloneDXScope_loop :: "bool \<Rightarrow> scope list \<Rightarrow> string" where
  "CycloneDXScope_loop found [] = (if found then ScopeExcluded else [])"
| "CycloneDXScope_loop found (s # ss) =
     (if s = ScopeRuntime then ScopeRequired
      else if s = ScopeDevelopment then CycloneDXScope_loop True ss
      else CycloneDXScope_loop found ss)"

definition CycloneDXScope :: "scope list \<Rightarrow> string" where
  "CycloneDXScope scopes = CycloneDXScope_loop False scopes"

text \<open>\<open>None\<close> is Go's nil: a value the mapping cannot read.\<close>

definition ScopesFromCycloneDX :: "string \<Rightarrow> scope list option" where
  "ScopesFromCycloneDX value =
     (let v = ToLower (TrimSpace value)
      in if v = ScopeRequired \<or> v = [] then Some [ScopeRuntime]
         else if v = ScopeOptional \<or> v = ScopeExcluded then Some [ScopeDevelopment]
         else None)"

lemma CycloneDXScope_loop_eq: "CycloneDXScope_loop found ss =
    (if ScopeRuntime \<in> set ss then ScopeRequired
     else if found \<or> ScopeDevelopment \<in> set ss then ScopeExcluded else [])"
  by (induction ss arbitrary: found) auto

lemma CycloneDXScope_eq: "CycloneDXScope ss =
    (if ScopeRuntime \<in> set ss then ScopeRequired
     else if ScopeDevelopment \<in> set ss then ScopeExcluded else [])"
  by (simp add: CycloneDXScope_def CycloneDXScope_loop_eq)

section \<open>The carrier\<close>

definition EncodeScopeSet :: "scope list \<Rightarrow> string" where
  "EncodeScopeSet scopes =
     (let tokens = foldl (\<lambda>tokens s. if s = ScopeUnknown then tokens
                                     else if s \<in> set tokens then tokens else tokens @ [s]) [] scopes
      in if tokens = [] then [] else Join (sort tokens) '','')"

record scope_set_decoding =
  Scopes :: "scope list"
  Unknown :: "string list"

abbreviation maxScopeSetCarrierLength :: nat where "maxScopeSetCarrierLength \<equiv> 256"

definition isPrintableASCII :: "string \<Rightarrow> bool" where
  "isPrintableASCII value = list_all (\<lambda>c. \<not> (byte c < 0x20 \<or> byte c > 0x7e)) value"

definition shape_char :: "char \<Rightarrow> bool" where
  "shape_char r \<longleftrightarrow>
     (97 \<le> byte r \<and> byte r \<le> 122) \<or> (65 \<le> byte r \<and> byte r \<le> 90)
     \<or> (48 \<le> byte r \<and> byte r \<le> 57) \<or> r = CHR ''-'' \<or> r = CHR ''_''"

definition isScopeTokenShaped :: "string \<Rightarrow> bool" where
  "isScopeTokenShaped token \<longleftrightarrow>
     token \<noteq> [] \<and> length token \<le> maxVocabularyTokenLength
     \<and> list_all (\<lambda>r. case r of [a] \<Rightarrow> shape_char a | _ \<Rightarrow> False) (chunks token)"

fun decode_fields :: "string \<Rightarrow> scope_set_decoding \<Rightarrow> string list \<Rightarrow> scope_error + scope_set_decoding" where
  "decode_fields value decoded [] = Inr (decoded\<lparr>Scopes := sort (Scopes decoded)\<rparr>)"
| "decode_fields value decoded (field # rest) =
     (let token = TrimSpace field
      in if token = [] then Inl (ScopeSetEmptyEntry value)
         else case ParseScope token of
             Inr (c # cs) \<Rightarrow>
               decode_fields value
                 (if containsScope (Scopes decoded) (c # cs) then decoded
                  else decoded\<lparr>Scopes := Scopes decoded @ [c # cs]\<rparr>) rest
           | _ \<Rightarrow>
               if \<not> isScopeTokenShaped token then Inl (ScopeSetMalformed value token)
               else (let lowered = ToLower token
                     in decode_fields value
                          (if lowered \<in> set (Unknown decoded) then decoded
                           else decoded\<lparr>Unknown := Unknown decoded @ [lowered]\<rparr>) rest))"

definition DecodeScopeSetLenient :: "string \<Rightarrow> scope_error + scope_set_decoding" where
  "DecodeScopeSetLenient value =
     (if length value > maxScopeSetCarrierLength then Inl (ScopeSetTooLong (length value))
      else if \<not> isPrintableASCII value then Inl (ScopeSetNotPrintable value)
      else (let trimmed = TrimSpace value
            in if trimmed = [] then Inr \<lparr>Scopes = [], Unknown = []\<rparr>
               else decode_fields value \<lparr>Scopes = [], Unknown = []\<rparr> (split_on CHR '','' trimmed)))"

definition DecodeScopeSet :: "string \<Rightarrow> scope_error + scope list" where
  "DecodeScopeSet value =
     (case DecodeScopeSetLenient value of
        Inl e \<Rightarrow> Inl e
      | Inr decoded \<Rightarrow>
          (case Unknown decoded of
             u # _ \<Rightarrow> Inl (ScopeSetUnknown value u)
           | [] \<Rightarrow> Inr (Scopes decoded)))"

definition NormalizeSourceScope :: "string \<Rightarrow> string" where
  "NormalizeSourceScope value =
     (let trimmed = TrimSpace value
      in if trimmed = [] \<or> length trimmed > maxVocabularyTokenLength \<or> \<not> ValidString trimmed then []
         else if list_ex (\<lambda>r. IsSpace r \<or> IsControl r) (chunks trimmed) then []
         else trimmed)"

definition CycloneDXScopeForExport :: "scope list \<Rightarrow> string \<Rightarrow> string" where
  "CycloneDXScopeForExport scopes sourceScope =
     (let projected = CycloneDXScope scopes;
          source = NormalizeSourceScope sourceScope
      in if source = [] then projected
         else (case ScopesFromCycloneDX source of
                 None \<Rightarrow> projected
               | Some derived \<Rightarrow>
                   if EncodeScopeSet derived \<noteq> EncodeScopeSet scopes then projected
                   else ToLower source))"

definition ScopesFromCycloneDXComponent :: "string \<Rightarrow> string \<Rightarrow> scope list option" where
  "ScopesFromCycloneDXComponent s carrier =
     (case DecodeScopeSetLenient carrier of
        Inr decoded \<Rightarrow> if length (Scopes decoded) > 0 then Some (Scopes decoded)
                       else ScopesFromCycloneDX s
      | Inl _ \<Rightarrow> ScopesFromCycloneDX s)"

section \<open>The carrier round trip\<close>

definition known_scope :: "scope \<Rightarrow> bool" where
  "known_scope s \<longleftrightarrow> s = ScopeRuntime \<or> s = ScopeDevelopment"

text \<open>A token some build could have written: shaped like a scope token, in lower case.\<close>

definition carrier_token :: "string \<Rightarrow> bool" where
  "carrier_token s \<longleftrightarrow> isScopeTokenShaped s \<and> ToLower s = s"

lemma EncodeScopeSet_eq: "EncodeScopeSet scopes = Join (sort (ScopesOf scopes)) '',''"
  by (simp add: EncodeScopeSet_def ScopesOf_def Let_def)

lemma shape_char_facts: "shape_char c \<Longrightarrow>
    byte c < 0x80 \<and> \<not> byte c < 0x20 \<and> \<not> byte c > 0x7e \<and> c \<noteq> CHR '','' \<and> \<not> IsSpace [c]"
  by (auto simp: shape_char_def IsSpace_def space_runes_def)

lemma shaped_chars: "isScopeTokenShaped s \<Longrightarrow> s \<noteq> [] \<and> list_all shape_char s"
proof -
  assume sh: "isScopeTokenShaped s"
  have "list_all shape_char (concat cs)" if "list_all (\<lambda>r. case r of [a] \<Rightarrow> shape_char a | _ \<Rightarrow> False) cs" for cs
    using that by (induction cs) (auto split: list.splits)
  from this [of "chunks s"] sh show ?thesis by (simp add: isScopeTokenShaped_def)
qed

lemma shaped_Join:
  "\<forall>t \<in> set ts. list_all shape_char t \<Longrightarrow> list_all (\<lambda>c. shape_char c \<or> c = CHR '','') (Join ts '','')"
  by (induction ts rule: induct_list012) (simp_all add: list_all_iff ball_Un)

lemma shaped_or_comma_TrimSpace:
  assumes "list_all (\<lambda>c. shape_char c \<or> c = CHR '','') s"
  shows "TrimSpace s = s" and "isPrintableASCII s"
proof -
  have sc: "byte c < 0x80 \<and> \<not> byte c < 0x20 \<and> \<not> byte c > 0x7e \<and> \<not> IsSpace [c]" if "c \<in> set s" for c
  proof (cases "shape_char c")
    case True
    then show ?thesis using shape_char_facts by simp
  next
    case False
    with that assms have "c = CHR '',''" unfolding list_all_iff by blast
    then show ?thesis by (simp add: IsSpace_def space_runes_def)
  qed
  then have asc: "is_ascii s" by (simp add: is_ascii_def list_all_iff)
  have "list_all (\<lambda>r. \<not> IsSpace r) (chunks s)"
    using sc by (simp add: chunks_ascii [OF asc] list_all_iff)
  then show "TrimSpace s = s"
    by (simp add: TrimSpace_def dropWhile_no_space list_all_rev)
  show "isPrintableASCII s"
    using sc by (simp add: isPrintableASCII_def list_all_iff)
qed

lemma carrier_token_facts:
  assumes "carrier_token t"
  shows "TrimSpace t = t" and "t \<noteq> []" and "CHR '','' \<notin> set t" and "ToLower t = t"
proof -
  from assms have sh: "t \<noteq> []" "list_all shape_char t" and "ToLower t = t"
    using shaped_chars by (auto simp: carrier_token_def)
  then show "t \<noteq> []" and "ToLower t = t" by simp_all
  show "TrimSpace t = t"
    by (rule shaped_or_comma_TrimSpace) (use sh in \<open>simp add: list_all_iff\<close>)
  show "CHR '','' \<notin> set t"
    using sh by (auto simp: list_all_iff dest: shape_char_facts)
qed

lemma ParseScope_carrier_token:
  "carrier_token t \<Longrightarrow> ParseScope t = (if known_scope t then Inr t else Inl (UnsupportedScope t))"
  using carrier_token_facts [of t] by (auto simp: ParseScope_def Let_def known_scope_def)

lemma decode_fields_tokens:
  assumes "\<forall>t \<in> set ts. carrier_token t" and "distinct ts"
    and "set ts \<inter> set (Scopes d) = {}" and "set ts \<inter> set (Unknown d) = {}"
  shows "decode_fields v d ts =
    Inr \<lparr>Scopes = sort (Scopes d @ filter known_scope ts),
         Unknown = Unknown d @ filter (\<lambda>t. \<not> known_scope t) ts\<rparr>"
  using assms
proof (induction ts arbitrary: d)
  case (Cons t ts)
  obtain c cs where t: "t = c # cs" using Cons.prems(1) carrier_token_facts(2) [of t] by (cases t) auto
  have facts: "TrimSpace t = t" "ToLower t = t" "carrier_token t"
    using Cons.prems(1) carrier_token_facts by auto
  show ?case
  proof (cases "known_scope t")
    case True
    with Cons.prems facts t have "decode_fields v d (t # ts) =
        decode_fields v (d\<lparr>Scopes := Scopes d @ [t]\<rparr>) ts"
      by (simp add: ParseScope_carrier_token containsScope_def)
    moreover have "decode_fields v (d\<lparr>Scopes := Scopes d @ [t]\<rparr>) ts =
        Inr \<lparr>Scopes = sort ((Scopes d @ [t]) @ filter known_scope ts),
             Unknown = Unknown d @ filter (\<lambda>t. \<not> known_scope t) ts\<rparr>"
      using Cons.prems by (subst Cons.IH) auto
    ultimately show ?thesis using True by simp
  next
    case False
    with Cons.prems facts t have "decode_fields v d (t # ts) =
        decode_fields v (d\<lparr>Unknown := Unknown d @ [t]\<rparr>) ts"
      by (auto simp: ParseScope_carrier_token carrier_token_def Let_def)
    moreover have "decode_fields v (d\<lparr>Unknown := Unknown d @ [t]\<rparr>) ts =
        Inr \<lparr>Scopes = sort (Scopes d @ filter known_scope ts),
             Unknown = (Unknown d @ [t]) @ filter (\<lambda>t. \<not> known_scope t) ts\<rparr>"
      using Cons.prems by (subst Cons.IH) auto
    ultimately show ?thesis using False by simp
  qed
qed simp

lemma DecodeScopeSetLenient_EncodeScopeSet':
  assumes tok: "\<forall>s \<in> set scopes. s = ScopeUnknown \<or> carrier_token s"
    and len: "length (EncodeScopeSet scopes) \<le> maxScopeSetCarrierLength"
  shows "DecodeScopeSetLenient (EncodeScopeSet scopes) =
    Inr \<lparr>Scopes = filter known_scope (mergeScopeSet scopes []),
         Unknown = filter (\<lambda>s. \<not> known_scope s) (mergeScopeSet scopes [])\<rparr>"
proof -
  let ?ts = "mergeScopeSet scopes []"
  have enc: "EncodeScopeSet scopes = Join ?ts '',''"
    by (simp add: EncodeScopeSet_eq mergeScopeSet_def)
  have ts: "\<forall>t \<in> set ?ts. carrier_token t" "distinct ?ts" "sorted ?ts"
    using tok by (auto simp: set_ScopesOf mergeScopeSet_def distinct_ScopesOf)
  have sh: "list_all (\<lambda>c. shape_char c \<or> c = CHR '','') (Join ?ts '','')"
    using ts(1) shaped_chars by (intro shaped_Join) (auto simp: carrier_token_def)
  show ?thesis
  proof (cases ?ts)
    case Nil
    then show ?thesis by (simp add: enc DecodeScopeSetLenient_def isPrintableASCII_def)
  next
    case (Cons t us)
    then have ne: "Join ?ts '','' \<noteq> []"
      using ts(1) carrier_token_facts(2) by (cases us) auto
    have split: "split_on CHR '','' (Join ?ts '','') = ?ts"
      using Cons ts(1) carrier_token_facts(3) by (intro split_on_Join) auto
    have "decode_fields (Join ?ts '','') \<lparr>Scopes = [], Unknown = []\<rparr> ?ts =
        Inr \<lparr>Scopes = sort (filter known_scope ?ts), Unknown = filter (\<lambda>t. \<not> known_scope t) ?ts\<rparr>"
      using decode_fields_tokens [OF ts(1,2)] by simp
    with ne len ts(3) shaped_or_comma_TrimSpace [OF sh] split show ?thesis
      by (simp add: enc DecodeScopeSetLenient_def sorted_filter [where f = id, simplified] sort_key_id_if_sorted)
  qed
qed

text \<open>Forward compatibility of the scope carrier: decoding what \<open>EncodeScopeSet\<close> wrote
  returns exactly the known scopes of the set, sorted and deduplicated, and reports every other
  token in \<open>Unknown\<close>, for any tokens a newer build may write (shaped, lower case) within the
  carrier bound.\<close>

lemma DecodeScopeSetLenient_EncodeScopeSet:
  assumes tok: "\<forall>s \<in> set scopes. s = ScopeUnknown \<or> carrier_token s"
    and len: "length (EncodeScopeSet scopes) \<le> maxScopeSetCarrierLength"
  shows "DecodeScopeSetLenient (EncodeScopeSet scopes) =
    Inr \<lparr>Scopes = filter known_scope (mergeScopeSet scopes []),
         Unknown = filter (\<lambda>s. \<not> known_scope s) (mergeScopeSet scopes [])\<rparr>"
  using assms by (rule DecodeScopeSetLenient_EncodeScopeSet')

lemma Join_eq_no_sep: "Join ts [sep] = w \<Longrightarrow> sep \<notin> set w \<Longrightarrow> w \<noteq> [] \<Longrightarrow> ts = [w]"
  by (induction ts rule: induct_list012) auto

lemma NormalizeSourceScope_trimmed: "TrimSpace (NormalizeSourceScope s) = NormalizeSourceScope s"
  by (simp add: NormalizeSourceScope_def Let_def)

lemma CycloneDXScopeForExport_reads_back':
  "ScopesFromCycloneDX (CycloneDXScopeForExport scopes sourceScope) =
     Some [if ScopeSetMatches scopes ScopeRuntime then ScopeRuntime else ScopeDevelopment]"
proof -
  have words: "ScopesFromCycloneDX [] = Some [ScopeRuntime]"
    "ScopesFromCycloneDX ScopeRequired = Some [ScopeRuntime]"
    "ScopesFromCycloneDX ScopeOptional = Some [ScopeDevelopment]"
    "ScopesFromCycloneDX ScopeExcluded = Some [ScopeDevelopment]"
    by code_simp+
  have projected: "ScopesFromCycloneDX (CycloneDXScope scopes) =
      Some [if ScopeSetMatches scopes ScopeRuntime then ScopeRuntime else ScopeDevelopment]"
    by (simp add: CycloneDXScope_eq words ScopeSetMatches_def containsScope_def)
  let ?src = "NormalizeSourceScope sourceScope"
  have kept: ?thesis
    if src: "?src \<noteq> []" and d: "ScopesFromCycloneDX ?src = Some d"
      and eq: "EncodeScopeSet d = EncodeScopeSet scopes" for d
  proof -
    have w: "CycloneDXScopeForExport scopes sourceScope = ToLower ?src"
      using src d eq by (simp add: CycloneDXScopeForExport_def Let_def)
    have v: "ScopesFromCycloneDX ?src = (let v = ToLower ?src in
        if v = ScopeRequired \<or> v = [] then Some [ScopeRuntime]
        else if v = ScopeOptional \<or> v = ScopeExcluded then Some [ScopeDevelopment] else None)"
      by (simp add: ScopesFromCycloneDX_def NormalizeSourceScope_trimmed)
    then have rd: "ScopesFromCycloneDX (ToLower ?src) = Some d"
      using d words by (auto simp: Let_def split: if_splits)
    have d2: "d = [ScopeRuntime] \<or> d = [ScopeDevelopment]"
      using v d by (auto simp: Let_def split: if_splits)
    have "Join (sort (ScopesOf d)) '','' = hd d \<and> CHR '','' \<notin> set (hd d) \<and> hd d \<noteq> []"
      using d2 by (auto simp: ScopesOf_def)
    then have "sort (ScopesOf scopes) = [hd d]"
      using eq Join_eq_no_sep [of "sort (ScopesOf scopes)" "CHR '',''" "hd d"]
      by (simp add: EncodeScopeSet_eq)
    then have "set (ScopesOf scopes) = {hd d}"
      by (metis list.set(1) list.simps(15) set_sort)
    then have mem: "s \<in> set scopes \<longleftrightarrow> s = hd d" if "s \<noteq> ScopeUnknown" for s
      using set_ScopesOf [of scopes] that by (metis Diff_iff singleton_iff)
    show ?thesis
      using d2 mem [of ScopeRuntime] mem [of ScopeDevelopment]
      by (elim disjE) (simp_all add: w rd ScopeSetMatches_def containsScope_def)
  qed
  show ?thesis
    using projected kept
    by (auto simp: CycloneDXScopeForExport_def Let_def split: option.splits if_splits)
qed

text \<open>The scope word an export writes always means what the scope set means: whatever word
  the source document used, reading the exported scalar back yields runtime exactly when a
  runtime view keeps the set, and development otherwise.\<close>

lemma CycloneDXScopeForExport_reads_back:
  "ScopesFromCycloneDX (CycloneDXScopeForExport scopes sourceScope) =
     Some [if ScopeSetMatches scopes ScopeRuntime then ScopeRuntime else ScopeDevelopment]"
  by (rule CycloneDXScopeForExport_reads_back')

lemma vocab_carrier_tokens:
  "set scopes \<subseteq> scope_vocab \<Longrightarrow> \<forall>s \<in> set scopes. s = ScopeUnknown \<or> carrier_token s"
proof -
  have "carrier_token ScopeRuntime" "carrier_token ScopeDevelopment"
    by code_simp+
  then show "set scopes \<subseteq> scope_vocab \<Longrightarrow> ?thesis" by (auto simp: scope_vocab_def)
qed

lemma sorted_distinct_two:
  "sorted xs \<Longrightarrow> distinct xs \<Longrightarrow> set xs \<subseteq> {a, b} \<Longrightarrow> a < b \<Longrightarrow>
     xs \<in> {[], [a], [b], [a, b]}" for a :: "'a :: linorder"
proof (induction xs)
  case (Cons x xs)
  then show ?case by (cases xs) (auto)
qed simp

lemma vocab_merge_cases:
  "set scopes \<subseteq> scope_vocab \<Longrightarrow> mergeScopeSet scopes [] \<in>
     {[], [ScopeDevelopment], [ScopeRuntime], [ScopeDevelopment, ScopeRuntime]}"
proof (rule sorted_distinct_two)
  show "sorted (mergeScopeSet scopes [])" "distinct (mergeScopeSet scopes [])"
    by (simp_all add: mergeScopeSet_def distinct_ScopesOf)
  show "ScopeDevelopment < ScopeRuntime" by code_simp
qed (auto simp: set_mergeScopeSet scope_vocab_def)

text \<open>The scalar and the carrier together round-trip every non-empty scope set of the
  vocabulary exactly, whatever scope word its source document used; a component without any
  scope comes back as runtime, the default CycloneDX assigns to an absent scope.\<close>

lemma component_scopes:
  assumes "set scopes \<subseteq> scope_vocab"
  shows "ScopesFromCycloneDXComponent (CycloneDXScopeForExport scopes sourceScope) (EncodeScopeSet scopes) =
    Some (if mergeScopeSet scopes [] = [] then [ScopeRuntime] else mergeScopeSet scopes [])"
proof -
  let ?m = "mergeScopeSet scopes []"
  note cases = vocab_merge_cases [OF assms]
  have len: "length (EncodeScopeSet scopes) \<le> maxScopeSetCarrierLength"
    using cases by (auto simp: EncodeScopeSet_eq mergeScopeSet_def)
  have known: "filter known_scope ?m = ?m"
    using cases by (auto simp: known_scope_def)
  have dec: "\<exists>u. DecodeScopeSetLenient (EncodeScopeSet scopes) = Inr \<lparr>Scopes = ?m, Unknown = u\<rparr>"
    using DecodeScopeSetLenient_EncodeScopeSet' [OF vocab_carrier_tokens [OF assms] len] known by auto
  have unscoped: "?m = [] \<Longrightarrow> ScopeSetMatches scopes ScopeRuntime"
    using set_mergeScopeSet [of scopes "[]"] by (auto simp: ScopeSetMatches_def containsScope_def)
  show ?thesis
    using dec unscoped CycloneDXScopeForExport_reads_back' [of scopes sourceScope]
    by (auto simp: ScopesFromCycloneDXComponent_def)
qed

end
