(* ===== verification/Digests.thy ===== *)
theory Digests
  imports Merge Library Scopes
begin

text \<open>
  Integrity digests: the algorithm registry, the publication gate and the codec rule of
  \<^verbatim>\<open>model/digest.go\<close>, and \<open>mergeDigestSet\<close> of \<^verbatim>\<open>model/graph.go\<close>, the one place a digest set
  is assembled. The spellings SPDX and CycloneDX use are constants of third-party packages, so
  the registry is a function of the library record.
\<close>

type_synonym digest_algorithm = string
type_synonym digest_subject = string

abbreviation DigestSubjectArtifact :: digest_subject where "DigestSubjectArtifact \<equiv> []"
abbreviation DigestSubjectSourceTree :: digest_subject where "DigestSubjectSourceTree \<equiv> ''source-tree''"
abbreviation DigestSubjectMetadata :: digest_subject where "DigestSubjectMetadata \<equiv> ''metadata''"

record digest =
  Algorithm :: digest_algorithm
  Value :: string
  Subject :: digest_subject

datatype digest_error =
    AlgorithmTooLong nat
  | AlgorithmEmpty
  | UnsupportedAlgorithm string
  | SubjectTooLong nat
  | UnsupportedSubject string
  | ValueEmpty
  | ValueTooLong nat
  | ValueNotUTF8
  | ValueNotToken

section \<open>The registry\<close>

definition canonical_algorithms :: "digest_algorithm list" where
  "canonical_algorithms =
     [''md2'', ''md4'', ''md5'', ''md6'', ''sha1'', ''sha224'', ''sha256'', ''sha384'', ''sha512'',
      ''sha3-256'', ''sha3-384'', ''sha3-512'', ''blake2b-256'', ''blake2b-384'', ''blake2b-512'',
      ''blake3'', ''adler32'', ''streebog-256'', ''streebog-512'']"

record digest_profile =
  canonical :: digest_algorithm
  spdx :: string
  cycloneDX :: string

definition digestAlgorithmProfiles :: "library \<Rightarrow> digest_profile list" where
  "digestAlgorithmProfiles L =
     map (\<lambda>a. \<lparr>canonical = a, spdx = digest_spdx L a, cycloneDX = digest_cdx L a\<rparr>) canonical_algorithms"

abbreviation maxDigestAlgorithmLength :: nat where "maxDigestAlgorithmLength \<equiv> 64"

definition squashDigestAlgorithm :: "string \<Rightarrow> string" where
  "squashDigestAlgorithm value =
     concat (map WriteRune (filter (\<lambda>r. r \<notin> {''-'', ''_'', '' '', ''.''})
       (chunks (ToLower (TrimSpace value)))))"

definition buildDigestAlgorithmIndex :: "library \<Rightarrow> (string, digest_algorithm) gomap" where
  "buildDigestAlgorithmIndex L =
     foldl (\<lambda>index profile.
       foldl (\<lambda>index spelling.
          let squashed = squashDigestAlgorithm spelling
          in if squashed \<noteq> [] then mput squashed (canonical profile) index else index)
         index [canonical profile, spdx profile, cycloneDX profile])
       [] (digestAlgorithmProfiles L)"

definition ParseDigestAlgorithm :: "library \<Rightarrow> string \<Rightarrow> digest_error + digest_algorithm" where
  "ParseDigestAlgorithm L value =
     (if length value > maxDigestAlgorithmLength then Inl (AlgorithmTooLong (length value))
      else (let squashed = squashDigestAlgorithm value
            in if squashed = [] then Inl AlgorithmEmpty
               else (case mget (buildDigestAlgorithmIndex L) squashed of
                       None \<Rightarrow> Inl (UnsupportedAlgorithm value)
                     | Some algorithm \<Rightarrow> Inr algorithm)))"

definition DigestAlgorithms :: "library \<Rightarrow> digest_algorithm list" where
  "DigestAlgorithms L = sort (map canonical (digestAlgorithmProfiles L))"

definition profile_of :: "library \<Rightarrow> digest_algorithm \<Rightarrow> digest_profile option" where
  "profile_of L a = find (\<lambda>profile. canonical profile = a) (digestAlgorithmProfiles L)"

definition DigestAlgorithm_Valid :: "library \<Rightarrow> digest_algorithm \<Rightarrow> bool" where
  "DigestAlgorithm_Valid L a \<longleftrightarrow> profile_of L a \<noteq> None"

definition DigestAlgorithm_SPDXName :: "library \<Rightarrow> digest_algorithm \<Rightarrow> string" where
  "DigestAlgorithm_SPDXName L a = (case profile_of L a of None \<Rightarrow> [] | Some p \<Rightarrow> spdx p)"

definition DigestAlgorithm_CycloneDXName :: "library \<Rightarrow> digest_algorithm \<Rightarrow> string" where
  "DigestAlgorithm_CycloneDXName L a = (case profile_of L a of None \<Rightarrow> [] | Some p \<Rightarrow> cycloneDX p)"

definition ParseDigestSubject :: "string \<Rightarrow> digest_error + digest_subject" where
  "ParseDigestSubject value =
     (if length value > maxVocabularyTokenLength then Inl (SubjectTooLong (length value))
      else (let s = ToLower (TrimSpace value)
            in if s = DigestSubjectArtifact then Inr DigestSubjectArtifact
               else if s = DigestSubjectSourceTree then Inr DigestSubjectSourceTree
               else if s = DigestSubjectMetadata then Inr DigestSubjectMetadata
               else Inl (UnsupportedSubject value)))"

definition DigestSubject_Valid :: "digest_subject \<Rightarrow> bool" where
  "DigestSubject_Valid s = (case ParseDigestSubject s of Inr _ \<Rightarrow> True | Inl _ \<Rightarrow> False)"

section \<open>The gate and the codec\<close>

abbreviation maxDigestValueLength :: nat where "maxDigestValueLength \<equiv> 256"

definition Digest_Validate :: "library \<Rightarrow> digest \<Rightarrow> digest_error option" where
  "Digest_Validate L d =
     (if \<not> DigestAlgorithm_Valid L (Algorithm d) then Some (UnsupportedAlgorithm (Algorithm d))
      else if \<not> DigestSubject_Valid (Subject d) then Some (UnsupportedSubject (Subject d))
      else (let value = TrimSpace (Value d)
            in if value = [] then Some ValueEmpty
               else if length value > maxDigestValueLength then Some (ValueTooLong (length value))
               else if \<not> ValidString value then Some ValueNotUTF8
               else if list_ex (\<lambda>r. IsSpace r \<or> IsControl r) (chunks value) then Some ValueNotToken
               else None))"

definition Digest_Normalized :: "library \<Rightarrow> digest \<Rightarrow> digest option" where
  "Digest_Normalized L d =
     (case ParseDigestAlgorithm L (Algorithm d) of
        Inl _ \<Rightarrow> None
      | Inr algorithm \<Rightarrow>
          (case ParseDigestSubject (Subject d) of
             Inl _ \<Rightarrow> None
           | Inr subject \<Rightarrow>
               (let normalized = \<lparr>Algorithm = algorithm, Value = TrimSpace (Value d), Subject = subject\<rparr>
                in if Digest_Validate L normalized \<noteq> None then None else Some normalized)))"

definition Digest_zero :: digest where
  "Digest_zero = \<lparr>Algorithm = [], Value = [], Subject = []\<rparr>"

definition Digest_UnmarshalJSON :: "library \<Rightarrow> digest \<Rightarrow> digest" where
  "Digest_UnmarshalJSON L wire =
     (case Digest_Normalized L wire of None \<Rightarrow> Digest_zero | Some normalized \<Rightarrow> normalized)"

definition Digest_MarshalJSON :: "library \<Rightarrow> digest \<Rightarrow> digest" where
  "Digest_MarshalJSON L d =
     (case Digest_Normalized L d of None \<Rightarrow> Digest_zero | Some normalized \<Rightarrow> normalized)"

section \<open>The set\<close>

definition digest_sort_key :: "digest \<Rightarrow> string \<times> string \<times> string" where
  "digest_sort_key d = (Algorithm d, Subject d, Value d)"

definition mergeDigestSet :: "library \<Rightarrow> digest list \<Rightarrow> digest list \<Rightarrow> digest list" where
  "mergeDigestSet L existing additions =
     sort_key digest_sort_key (dedup_gated (Digest_Normalized L) id [] (existing @ additions))"

section \<open>The gate is a fixed point\<close>

text \<open>The property \<^verbatim>\<open>digest_test.go\<close> asserts of the libraries' spellings: squashing separators
  makes no registered spelling resolve to another algorithm.\<close>

definition digest_spellings_ok :: "library \<Rightarrow> bool" where
  "digest_spellings_ok L =
     list_all (\<lambda>a. mget (buildDigestAlgorithmIndex L) (squashDigestAlgorithm a) = Some a) canonical_algorithms"

lemma index_range_spellings:
  assumes "\<forall>s a. mget index s = Some a \<longrightarrow> a \<in> A" and "c \<in> A"
  shows "mget (foldl (\<lambda>index spelling. let squashed = squashDigestAlgorithm spelling
          in if squashed \<noteq> [] then mput squashed c index else index) index sps) s = Some a \<Longrightarrow> a \<in> A"
  using assms
proof (induction sps arbitrary: index)
  case (Cons x sps)
  let ?index = "let squashed = squashDigestAlgorithm x
    in if squashed \<noteq> [] then mput squashed c index else index"
  have "\<forall>s a. mget ?index s = Some a \<longrightarrow> a \<in> A"
    using Cons.prems by (simp add: Let_def gomap_simps)
  from Cons.IH [OF _ this Cons.prems(3)] Cons.prems(1) show ?case by simp
qed simp

lemma index_range_profiles:
  assumes "\<forall>s a. mget index s = Some a \<longrightarrow> a \<in> A" and "\<forall>p \<in> set ps. canonical p \<in> A"
  shows "mget (foldl (\<lambda>index profile. foldl (\<lambda>index spelling.
          let squashed = squashDigestAlgorithm spelling
          in if squashed \<noteq> [] then mput squashed (canonical profile) index else index)
         index [canonical profile, spdx profile, cycloneDX profile]) index ps) s = Some a \<Longrightarrow> a \<in> A"
  using assms
proof (induction ps arbitrary: index)
  case (Cons p ps)
  let ?index = "foldl (\<lambda>index spelling. let squashed = squashDigestAlgorithm spelling
          in if squashed \<noteq> [] then mput squashed (canonical p) index else index)
         index [canonical p, spdx p, cycloneDX p]"
  have "\<forall>s a. mget ?index s = Some a \<longrightarrow> a \<in> A"
    using index_range_spellings [OF Cons.prems(2)] Cons.prems(3) by (meson list.set_intros(1))
  from Cons.IH [OF _ this] Cons.prems show ?case
    by (simp only: foldl_Cons list.set) blast
qed simp

lemma index_range: "mget (buildDigestAlgorithmIndex L) s = Some a \<Longrightarrow> a \<in> set canonical_algorithms"
  unfolding buildDigestAlgorithmIndex_def
  by (rule index_range_profiles) (auto simp: digestAlgorithmProfiles_def)

definition digest_token_char :: "char \<Rightarrow> bool" where
  "digest_token_char c \<longleftrightarrow> byte c = 45 \<or> 48 \<le> byte c \<and> byte c \<le> 57 \<or> 97 \<le> byte c \<and> byte c \<le> 122"

lemma squash_token:
  assumes "list_all digest_token_char s"
  shows "squashDigestAlgorithm s = filter (\<lambda>c. byte c \<noteq> 45) s"
proof -
  have ascii: "is_ascii s"
    using assms by (auto simp: is_ascii_def list_all_iff digest_token_char_def)
  have char: "\<not> IsSpace [c] \<and> lower_char c = c \<and> WriteRune [c] = [c]
      \<and> ([c] \<notin> {''-'', ''_'', '' '', ''.''} \<longleftrightarrow> byte c \<noteq> 45)" if "c \<in> set s" for c
  proof -
    have c: "digest_token_char c" using assms that by (simp add: list_all_iff)
    then have "\<not> IsSpace [c]"
      by (auto simp: digest_token_char_def IsSpace_def space_runes_def)
    moreover have "lower_char c = c" "WriteRune [c] = [c]"
      using c by (auto simp: digest_token_char_def lower_char_def WriteRune_def rune_len_def
          lead_len_def Let_def)
    moreover have "[c] \<notin> {''-'', ''_'', '' '', ''.''} \<longleftrightarrow> byte c \<noteq> 45"
    proof -
      have "byte c = byte CHR ''-'' \<longleftrightarrow> c = CHR ''-''" by (rule of_char_eq_iff)
      then have "c = CHR ''-'' \<longleftrightarrow> byte c = 45" by auto
      with c show ?thesis by (auto simp: digest_token_char_def)
    qed
    ultimately show ?thesis by blast
  qed
  have "TrimSpace s = s"
    using char by (simp add: TrimSpace_def chunks_ascii [OF ascii] dropWhile_no_space list_all_rev
        list_all_iff)
  moreover have "ToLower s = s"
    using char by (simp add: ToLower_ascii [OF ascii] map_idI)
  moreover have "concat (map WriteRune (filter (\<lambda>r. r \<notin> {''-'', ''_'', '' '', ''.''}) (map (\<lambda>c. [c]) t)))
      = filter (\<lambda>c. byte c \<noteq> 45) t" if "set t \<subseteq> set s" for t
    using that
  proof (induction t)
    case (Cons c t)
    then have "c \<in> set s" and "set t \<subseteq> set s" by auto
    then show ?case using Cons.IH char [of c] by (simp only: list.map filter.simps) simp
  qed simp
  ultimately show ?thesis
    by (simp add: squashDigestAlgorithm_def chunks_ascii [OF ascii])
qed

lemma canonical_facts: "a \<in> set canonical_algorithms \<Longrightarrow>
    length a \<le> maxDigestAlgorithmLength \<and> squashDigestAlgorithm a \<noteq> []"
proof -
  assume a: "a \<in> set canonical_algorithms"
  have "list_all (\<lambda>a. length a \<le> maxDigestAlgorithmLength \<and> list_all digest_token_char a
      \<and> filter (\<lambda>c. byte c \<noteq> 45) a \<noteq> []) canonical_algorithms"
    by code_simp
  with a have "length a \<le> maxDigestAlgorithmLength" "list_all digest_token_char a"
    "filter (\<lambda>c. byte c \<noteq> 45) a \<noteq> []"
    unfolding list_all_iff by blast+
  then show ?thesis by (simp only: squash_token not_False_eq_True)
qed

lemma ParseDigestAlgorithm_fixed:
  "digest_spellings_ok L \<Longrightarrow> ParseDigestAlgorithm L v = Inr a \<Longrightarrow> ParseDigestAlgorithm L a = Inr a"
  using canonical_facts index_range
  by (fastforce simp: ParseDigestAlgorithm_def digest_spellings_ok_def list_all_iff Let_def
      split: if_splits option.splits)

lemma ParseDigestSubject_fixed: "ParseDigestSubject v = Inr s \<Longrightarrow> ParseDigestSubject s = Inr s"
proof -
  have "ParseDigestSubject DigestSubjectArtifact = Inr DigestSubjectArtifact"
    "ParseDigestSubject DigestSubjectSourceTree = Inr DigestSubjectSourceTree"
    "ParseDigestSubject DigestSubjectMetadata = Inr DigestSubjectMetadata"
    by code_simp+
  then show "ParseDigestSubject v = Inr s \<Longrightarrow> ?thesis"
    by (auto simp: ParseDigestSubject_def [of v] Let_def split: if_splits)
qed

lemma Digest_Normalized_fixed:
  assumes "digest_spellings_ok L" and "Digest_Normalized L d = Some n"
  shows "Digest_Normalized L n = Some n"
proof -
  from assms(2) obtain a s where a: "ParseDigestAlgorithm L (Algorithm d) = Inr a"
    and s: "ParseDigestSubject (Subject d) = Inr s"
    and n: "n = \<lparr>Algorithm = a, Value = TrimSpace (Value d), Subject = s\<rparr>" "Digest_Validate L n = None"
    by (auto simp: Digest_Normalized_def Let_def split: sum.splits if_splits)
  show ?thesis
    using ParseDigestAlgorithm_fixed [OF assms(1) a] ParseDigestSubject_fixed [OF s] n
    by (simp add: Digest_Normalized_def)
qed

lemma gated_union_digests: "digest_spellings_ok L \<Longrightarrow> gated_union (Digest_Normalized L) digest_sort_key"
  by unfold_locales (auto simp: Digest_Normalized_fixed digest_sort_key_def)

lemma dedup_gated_key_cong:
  assumes "\<And>x y. key x = key y \<longleftrightarrow> key' x = key' (y :: 'a)"
  shows "key ` set seen = k \<Longrightarrow> dedup_gated gate key (map key s) xs = dedup_gated gate key' (map key' s) xs"
proof (induction xs arbitrary: s)
  case (Cons x xs)
  have "key y \<in> set (map key s) \<longleftrightarrow> key' y \<in> set (map key' s)" for y s
    using assms by (auto simp: image_iff)
  with Cons show ?case
    by (auto split: option.splits simp del: set_map)
      (metis list.simps(9))
qed simp

lemma digest_key_inj: "digest_sort_key x = digest_sort_key y \<longleftrightarrow> x = y"
  by (auto simp: digest_sort_key_def)

lemma mergeDigestSet_eq: "mergeDigestSet L xs ys =
    gated_union.union_of (Digest_Normalized L) digest_sort_key (xs @ ys)"
  if "digest_spellings_ok L"
  using dedup_gated_key_cong [where key = digest_sort_key and key' = id and s = "[]"
      and gate = "Digest_Normalized L"] digest_key_inj
  by (simp add: mergeDigestSet_def gated_union.union_of_def [OF gated_union_digests [OF that]])

lemma plain_library_spellings: "digest_spellings_ok plain_library"
proof -
  have squash: "list_all (\<lambda>a. squashDigestAlgorithm a = filter (\<lambda>c. byte c \<noteq> 45) a) canonical_algorithms"
  proof -
    have "list_all (list_all digest_token_char) canonical_algorithms" by code_simp
    then show ?thesis by (rule list.pred_mono_strong) (rule squash_token)
  qed
  have profiles: "map_of (rev (map (\<lambda>a. (filter (\<lambda>c. byte c \<noteq> 45) a, a)) canonical_algorithms))
      (filter (\<lambda>c. byte c \<noteq> 45) b) = Some b" if "b \<in> set canonical_algorithms" for b
  proof -
    have "list_all (\<lambda>b. map_of (rev (map (\<lambda>a. (filter (\<lambda>c. byte c \<noteq> 45) a, a)) canonical_algorithms))
      (filter (\<lambda>c. byte c \<noteq> 45) b) = Some b) canonical_algorithms" by code_simp
    with that show ?thesis unfolding list_all_iff by blast
  qed
  have step: "mget (foldl (\<lambda>index profile. foldl (\<lambda>index spelling.
          let squashed = squashDigestAlgorithm spelling
          in if squashed \<noteq> [] then mput squashed (canonical profile) index else index)
         index [canonical profile, spdx profile, cycloneDX profile]) index
         (map (\<lambda>a. \<lparr>canonical = a, spdx = [], cycloneDX = []\<rparr>) as)) s
      = map_of (rev (map (\<lambda>a. (filter (\<lambda>c. byte c \<noteq> 45) a, a)) as) @ index) s"
    if "set as \<subseteq> set canonical_algorithms" for as index s
    using that
  proof (induction as arbitrary: index)
    case (Cons a as)
    then have a: "a \<in> set canonical_algorithms" by simp
    with squash have sq: "squashDigestAlgorithm a = filter (\<lambda>c. byte c \<noteq> 45) a"
      by (simp only: list_all_iff)
    with canonical_facts [OF a] have ne: "filter (\<lambda>c. byte c \<noteq> 45) a \<noteq> []" by simp
    have nil: "squashDigestAlgorithm [] = []" by (simp add: squashDigestAlgorithm_def)
    show ?case
      using Cons.IH [of "mput (filter (\<lambda>c. byte c \<noteq> 45) a) a index"] Cons.prems ne
      by (simp add: sq nil Let_def map_of_append gomap_simps map_add_def split: option.splits)
  qed simp
  show ?thesis
    unfolding digest_spellings_ok_def list_all_iff buildDigestAlgorithmIndex_def
    using step [of canonical_algorithms "[]"] squash profiles
    by (simp add: digestAlgorithmProfiles_def plain_library_def list_all_iff)
qed

section \<open>Properties\<close>

text \<open>A package or artifact claims one set of digests, and the order in which graphs,
  registries and documents are merged does not change it: as long as the registry's spellings do
  not collide, \<open>mergeDigestSet\<close> is commutative, associative and idempotent, and what it returns
  is exactly the digests that pass the publication gate.\<close>

lemma mergeDigestSet_order_independent:
  assumes "digest_spellings_ok L"
  shows "mergeDigestSet L xs ys = mergeDigestSet L ys xs
    \<and> mergeDigestSet L (mergeDigestSet L xs ys) zs = mergeDigestSet L xs (mergeDigestSet L ys zs)
    \<and> mergeDigestSet L (mergeDigestSet L xs ys) ys = mergeDigestSet L xs ys
    \<and> set (mergeDigestSet L xs ys) = {n. \<exists>d \<in> set (xs @ ys). Digest_Normalized L d = Some n}"
proof -
  note gated = gated_union_digests [OF assms]
  show ?thesis
    using gated_union.union_of_commute [OF gated] gated_union.union_of_assoc [OF gated]
      gated_union.union_of_idem [OF gated] gated_union.union_of_idem_right [OF gated]
      gated_union.set_union_of [OF gated] gated_union.union_of_cong [OF gated, of "(xs @ ys) @ ys" "xs @ ys"]
    by (simp add: mergeDigestSet_eq [OF assms])
qed

end
