(* ===== verification/Origins.thy ===== *)
theory Origins
  imports Merge Library
begin

text \<open>
  Published locations, \<^verbatim>\<open>model/origin.go\<close>: the single rule every published URL passes
  (\<open>NormalizeURL\<close> with its three forms), the percent-escape canonicalizer, dependency origins,
  their gate and the first-writer union \<open>MergeOrigins\<close> with supersession. \<open>net/url\<close> parsing
  and printing and the IDNA profiles are the library record; splitting a host from its port is
  modelled here.
\<close>

abbreviation maxPublishedURLLength :: nat where "maxPublishedURLLength \<equiv> 8192"
abbreviation maxOriginRevisionLength :: nat where "maxOriginRevisionLength \<equiv> 128"

datatype URLForm = URLFormArtifact | URLFormRepository | URLFormReference

section \<open>Percent escapes\<close>

definition hex_value :: "char \<Rightarrow> nat option" where
  "hex_value d =
     (if 48 \<le> byte d \<and> byte d \<le> 57 then Some (byte d - 48)
      else if 97 \<le> byte d \<and> byte d \<le> 102 then Some (byte d - 97 + 10)
      else if 65 \<le> byte d \<and> byte d \<le> 70 then Some (byte d - 65 + 10)
      else None)"

definition unhex :: "char \<Rightarrow> char \<Rightarrow> char option" where
  "unhex high low =
     (case hex_value high of None \<Rightarrow> None
      | Some h \<Rightarrow> (case hex_value low of None \<Rightarrow> None
                   | Some l \<Rightarrow> Some (char_of (16 * h + l))))"

definition isUnreservedByte :: "char \<Rightarrow> bool" where
  "isUnreservedByte b \<longleftrightarrow>
     (97 \<le> byte b \<and> byte b \<le> 122) \<or> (65 \<le> byte b \<and> byte b \<le> 90) \<or> (48 \<le> byte b \<and> byte b \<le> 57)
     \<or> byte b = 45 \<or> byte b = 46 \<or> byte b = 95 \<or> byte b = 126"

definition upper_char :: "char \<Rightarrow> char" where
  "upper_char a = (if 97 \<le> byte a \<and> byte a \<le> 122 then char_of (byte a - 32) else a)"

fun escapes_loop :: "string \<Rightarrow> string" where
  "escapes_loop (c # h # l # r) =
     (if c \<noteq> CHR ''%'' then c # escapes_loop (h # l # r)
      else (case unhex h l of
              None \<Rightarrow> c # escapes_loop (h # l # r)
            | Some d \<Rightarrow> if isUnreservedByte d then d # escapes_loop r
                        else CHR ''%'' # upper_char h # upper_char l # escapes_loop r))"
| "escapes_loop r = r"

definition canonicalEscapes :: "string \<Rightarrow> string" where
  "canonicalEscapes path = (if CHR ''%'' \<notin> set path then path else escapes_loop path)"

section \<open>Hosts\<close>

text \<open>\<open>splitHostPort\<close> of \<open>net/url\<close>, behind \<open>URL.Hostname\<close> and \<open>URL.Port\<close>: the port is what
  follows the last colon when only digits do, and the brackets of an IP literal come off.\<close>

definition is_digit :: "char \<Rightarrow> bool" where
  "is_digit c \<longleftrightarrow> 48 \<le> byte c \<and> byte c \<le> 57"

definition after_colon :: "string \<Rightarrow> string option" where
  "after_colon host =
     (if CHR '':'' \<in> set host then Some (rev (takeWhile (\<lambda>c. c \<noteq> CHR '':'') (rev host))) else None)"

definition splitHostPort :: "string \<Rightarrow> string \<times> string" where
  "splitHostPort hostPort =
     (let (host, port) =
        (case after_colon hostPort of
           Some p \<Rightarrow> if list_all is_digit p then (take (length hostPort - length p - 1) hostPort, p)
                     else (hostPort, [])
         | None \<Rightarrow> (hostPort, []))
      in if HasPrefix host ''['' \<and> HasSuffix host '']''
         then (take (length host - 2) (drop 1 host), port) else (host, port))"

definition Hostname :: "url \<Rightarrow> string" where "Hostname u = fst (splitHostPort (Host u))"
definition Port :: "url \<Rightarrow> string" where "Port u = snd (splitHostPort (Host u))"

text \<open>\<open>strconv.Atoi\<close> on a string of digits, and \<open>strconv.Itoa\<close>. A value that overflows Go's
  \<open>int\<close> is above every bound it is compared with.\<close>

definition Atoi_digits :: "string \<Rightarrow> nat" where
  "Atoi_digits s = foldl (\<lambda>n c. 10 * n + (byte c - 48)) 0 s"

fun Itoa :: "nat \<Rightarrow> string" where
  "Itoa n = (if n < 10 then [char_of (48 + n)] else Itoa (n div 10) @ [char_of (48 + n mod 10)])"

declare Itoa.simps [simp del]

definition CanonicalHostname :: "library \<Rightarrow> string \<Rightarrow> string option" where
  "CanonicalHostname L name =
     (case idna_Lookup L name of
        None \<Rightarrow> None
      | Some mapped \<Rightarrow> (case idna_HostLengths L mapped of None \<Rightarrow> None | Some _ \<Rightarrow> Some mapped))"

definition hostToASCII :: "library \<Rightarrow> url \<Rightarrow> string option" where
  "hostToASCII L parsed =
     (let host = Host parsed in
      if host = [] \<or> is_ascii host then Some host
      else if HasPrefix host ''['' then Some host
      else (let name = Hostname parsed;
                port = (if Port parsed \<noteq> [] then CHR '':'' # Port parsed else [])
            in (case CanonicalHostname L name of
                  None \<Rightarrow> None
                | Some mapped \<Rightarrow> Some (mapped @ port))))"

section \<open>The rule every published URL satisfies\<close>

definition normalize_port :: "url \<Rightarrow> url option" where
  "normalize_port parsed =
     (let port = Port parsed in
      if port = [] then Some parsed
      else (let number = Atoi_digits port in
            if number < 1 \<or> number > 65535 then None
            else (let host = Hostname parsed;
                      host = (if HasPrefix (Host parsed) ''['' then ''['' @ host @ '']'' else host)
                  in if Scheme parsed = ''https'' \<and> number = 443 \<or> Scheme parsed = ''http'' \<and> number = 80
                     then Some (parsed\<lparr>Host := host\<rparr>)
                     else Some (parsed\<lparr>Host := host @ '':'' @ Itoa number\<rparr>))))"

definition normalize_query :: "library \<Rightarrow> URLForm \<Rightarrow> url \<Rightarrow> url option" where
  "normalize_query L form parsed =
     (case form of
        URLFormRepository \<Rightarrow> Some (parsed\<lparr>RawQuery := [], ForceQuery := False\<rparr>)
      | URLFormReference \<Rightarrow>
          if url_QueryUnescape L (RawQuery parsed) = None then None
          else if RawQuery parsed \<noteq> [] \<and> \<not> isBoundedToken (RawQuery parsed) then None
          else Some parsed
      | URLFormArtifact \<Rightarrow> if RawQuery parsed \<noteq> [] \<or> ForceQuery parsed then None else Some parsed)"

definition normalize_location :: "library \<Rightarrow> URLForm \<Rightarrow> url \<Rightarrow> url option" where
  "normalize_location L form parsed =
     (let parsed = (if form \<noteq> URLFormReference then parsed\<lparr>Fragment := [], RawFragment := []\<rparr> else parsed) in
      if form \<noteq> URLFormReference \<and> list_all (\<lambda>c. c = CHR ''/'') (Path parsed) then None
      else (case normalize_query L form parsed of
              None \<Rightarrow> None
            | Some parsed \<Rightarrow>
                (let escaped = canonicalEscapes (url_EscapedPath L parsed) in
                 case url_PathUnescape L escaped of
                   None \<Rightarrow> None
                 | Some decodedPath \<Rightarrow> Some (parsed\<lparr>Path := decodedPath, RawPath := escaped\<rparr>))))"

definition normalize_host :: "library \<Rightarrow> url \<Rightarrow> url option" where
  "normalize_host L parsed =
     (if ToLower (Scheme parsed) \<notin> {''http'', ''https''} then None
      else if Hostname parsed = [] \<or> User parsed \<noteq> None then None
      else (let parsed = parsed\<lparr>Scheme := ToLower (Scheme parsed)\<rparr> in
            case hostToASCII L parsed of
              None \<Rightarrow> None
            | Some asciiHost \<Rightarrow> normalize_port (parsed\<lparr>Host := ToLower asciiHost\<rparr>)))"

definition NormalizeURL :: "library \<Rightarrow> string \<Rightarrow> URLForm \<Rightarrow> string option" where
  "NormalizeURL L raw form =
     (let trimmed = TrimSpace raw in
      if trimmed = [] then None
      else if length trimmed > maxPublishedURLLength then None
      else (case url_Parse L trimmed of
              None \<Rightarrow> None
            | Some parsed \<Rightarrow>
                (case normalize_host L parsed of
                   None \<Rightarrow> None
                 | Some parsed \<Rightarrow>
                     (case normalize_location L form parsed of
                        None \<Rightarrow> None
                      | Some parsed \<Rightarrow>
                          (let normalized = url_String L parsed in
                           if normalized = [] then None
                           else if length normalized > maxPublishedURLLength then None
                           else Some normalized)))))"

definition NormalizeOriginURL :: "library \<Rightarrow> string \<Rightarrow> bool \<Rightarrow> string option" where
  "NormalizeOriginURL L raw repository =
     (if repository then NormalizeURL L raw URLFormRepository else NormalizeURL L raw URLFormArtifact)"

section \<open>Origins\<close>

record dependency_origin =
  ArtifactURL :: string
  Repository :: string
  Revision :: string

definition isValidOriginRevision :: "string \<Rightarrow> bool" where
  "isValidOriginRevision revision \<longleftrightarrow>
     revision \<noteq> [] \<and> length revision \<le> maxOriginRevisionLength \<and>
     list_all (\<lambda>c. (97 \<le> byte c \<and> byte c \<le> 122) \<or> (65 \<le> byte c \<and> byte c \<le> 90)
       \<or> (48 \<le> byte c \<and> byte c \<le> 57) \<or> byte c \<in> {46, 95, 45, 43, 47}) revision"

definition pinned_revision :: "string \<Rightarrow> string" where
  "pinned_revision revision =
     (let pinned = TrimSpace revision in if isValidOriginRevision pinned then pinned else [])"

definition ArtifactOrigin :: "library \<Rightarrow> string \<Rightarrow> dependency_origin option" where
  "ArtifactOrigin L rawURL =
     (case NormalizeOriginURL L rawURL False of
        None \<Rightarrow> None
      | Some normalized \<Rightarrow> Some \<lparr>ArtifactURL = normalized, Repository = [], Revision = []\<rparr>)"

definition RepositoryOrigin :: "library \<Rightarrow> string \<Rightarrow> string \<Rightarrow> dependency_origin option" where
  "RepositoryOrigin L rawURL revision =
     (case NormalizeOriginURL L rawURL True of
        None \<Rightarrow> None
      | Some normalized \<Rightarrow>
          Some \<lparr>ArtifactURL = [], Repository = normalized, Revision = pinned_revision revision\<rparr>)"

definition DependencyOrigin_Normalized :: "library \<Rightarrow> dependency_origin \<Rightarrow> dependency_origin option" where
  "DependencyOrigin_Normalized L orig =
     (case NormalizeOriginURL L (ArtifactURL orig) False of
        Some artifact \<Rightarrow> Some \<lparr>ArtifactURL = artifact, Repository = [], Revision = []\<rparr>
      | None \<Rightarrow>
          (case NormalizeOriginURL L (Repository orig) True of
             None \<Rightarrow> None
           | Some repository \<Rightarrow>
               Some \<lparr>ArtifactURL = [], Repository = repository, Revision = pinned_revision (Revision orig)\<rparr>))"

definition DependencyOrigin_Empty :: "library \<Rightarrow> dependency_origin \<Rightarrow> bool" where
  "DependencyOrigin_Empty L orig \<longleftrightarrow> DependencyOrigin_Normalized L orig = None"

text \<open>The codec hooks: what is stored for a decoded wire value, and what is written for a value.\<close>

definition DependencyOrigin_UnmarshalJSON :: "library \<Rightarrow> dependency_origin \<Rightarrow> dependency_origin" where
  "DependencyOrigin_UnmarshalJSON L wire =
     (case DependencyOrigin_Normalized L wire of
        None \<Rightarrow> \<lparr>ArtifactURL = [], Repository = [], Revision = []\<rparr> | Some normalized \<Rightarrow> normalized)"

definition DependencyOrigin_MarshalJSON :: "library \<Rightarrow> dependency_origin \<Rightarrow> dependency_origin" where
  "DependencyOrigin_MarshalJSON L orig =
     (case DependencyOrigin_Normalized L orig of
        Some normalized \<Rightarrow> normalized | None \<Rightarrow> \<lparr>ArtifactURL = [], Repository = [], Revision = []\<rparr>)"

section \<open>The union of two origin lists\<close>

definition originPlaceKey :: "dependency_origin \<Rightarrow> string" where
  "originPlaceKey orig = Repository orig @ [CHR 0x00] @ ArtifactURL orig"

definition origin_key :: "dependency_origin \<Rightarrow> string" where
  "origin_key orig = ArtifactURL orig @ [CHR 0x00] @ Repository orig @ [CHR 0x00] @ Revision orig"

definition dropSupersededOrigins :: "dependency_origin list \<Rightarrow> dependency_origin list" where
  "dropSupersededOrigins origins =
     (if length origins < 2 then origins
      else (let pinned = map originPlaceKey
                  (filter (\<lambda>orig. Revision orig \<noteq> [] \<and> Repository orig \<noteq> []) origins)
            in if pinned = [] then origins
               else filter (\<lambda>orig. \<not> (Revision orig = [] \<and> Repository orig \<noteq> []
                                       \<and> originPlaceKey orig \<in> set pinned)) origins))"

definition MergeOrigins :: "library \<Rightarrow> dependency_origin list \<Rightarrow> dependency_origin list \<Rightarrow> dependency_origin list" where
  "MergeOrigins L existing additions =
     dropSupersededOrigins
       (dedup_gated (DependencyOrigin_Normalized L) origin_key [] (existing @ additions))"

section \<open>Escapes: the canonical spelling names the same path\<close>

text \<open>The reference semantics of RFC 3986 percent-decoding, and the paths it is defined on.\<close>

fun unescape :: "string \<Rightarrow> string option" where
  "unescape (c # h # l # r) =
     (if c \<noteq> CHR ''%'' then map_option ((#) c) (unescape (h # l # r))
      else (case unhex h l of None \<Rightarrow> None | Some d \<Rightarrow> map_option ((#) d) (unescape r)))"
| "unescape r = (if CHR ''%'' \<in> set r then None else Some r)"

lemma plain_head:
  assumes "c \<noteq> CHR ''%''"
  shows "escapes_loop (c # s) = c # escapes_loop s"
    and "unescape (c # s) = map_option ((#) c) (unescape s)"
  using assms by (cases s rule: escapes_loop.cases; simp)+

lemma escapes_loop_plain: "CHR ''%'' \<notin> set s \<Longrightarrow> escapes_loop s = s"
  by (induction s) (auto simp: plain_head)

lemma canonicalEscapes_eq: "canonicalEscapes s = escapes_loop s"
  by (simp add: canonicalEscapes_def escapes_loop_plain)

lemma byte_percent: "byte CHR ''%'' = (37 :: nat)"
  by simp

lemma unreserved_not_percent: "isUnreservedByte d \<Longrightarrow> d \<noteq> CHR ''%''"
  by (rule notI) (simp add: isUnreservedByte_def)

lemma hex_value_upper: "hex_value (upper_char c) = hex_value c"
  by (auto simp: hex_value_def upper_char_def)

lemma unhex_upper: "unhex (upper_char h) (upper_char l) = unhex h l"
  by (simp add: unhex_def hex_value_upper split: option.split)

lemma upper_idem: "upper_char (upper_char c) = upper_char c"
  by (auto simp: upper_char_def)

lemma unescape_escapes_loop: "unescape p \<noteq> None \<Longrightarrow> unescape (escapes_loop p) = unescape p"
proof (induction p rule: escapes_loop.induct)
  case (1 c h l r)
  show ?case
  proof (cases "c = CHR ''%''")
    case True
    with 1 obtain d where d: "unhex h l = Some d" and r: "unescape r \<noteq> None"
      by (auto split: option.splits)
    with 1 True have "unescape (escapes_loop r) = unescape r" by auto
    with True d show ?thesis
      by (auto simp: plain_head unreserved_not_percent unhex_upper)
  next
    case False
    with 1 show ?thesis by (auto simp: plain_head)
  qed
qed auto

lemma escapes_loop_idem: "unescape p \<noteq> None \<Longrightarrow> escapes_loop (escapes_loop p) = escapes_loop p"
proof (induction p rule: escapes_loop.induct)
  case (1 c h l r)
  show ?case
  proof (cases "c = CHR ''%''")
    case True
    with 1 obtain d where d: "unhex h l = Some d" and r: "unescape r \<noteq> None"
      by (auto split: option.splits)
    with 1 True have "escapes_loop (escapes_loop r) = escapes_loop r" by auto
    with True d show ?thesis
      by (auto simp: plain_head unreserved_not_percent unhex_upper upper_idem)
  next
    case False
    with 1 show ?thesis by (auto simp: plain_head)
  qed
qed auto

section \<open>Origin merge\<close>

lemma NormalizeURL_decompose:
  assumes "NormalizeURL L raw form = Some out"
  obtains p h u where "url_Parse L (TrimSpace raw) = Some p" and "normalize_host L p = Some h"
    and "normalize_location L form h = Some u" and "out = url_String L u"
    and "out \<noteq> []" and "length out \<le> maxPublishedURLLength"
  using assms by (auto simp: NormalizeURL_def Let_def split: if_splits option.splits)

lemma normalize_port_fields: "normalize_port p = Some u \<Longrightarrow>
    Scheme u = Scheme p \<and> User u = User p \<and> Fragment u = Fragment p"
  by (auto simp: normalize_port_def Let_def split: if_splits)

lemma normalize_host_safe: "normalize_host L p = Some u \<Longrightarrow>
    Scheme u \<in> {''http'', ''https''} \<and> User u = None"
  by (auto simp: normalize_host_def Let_def split: if_splits option.splits dest!: normalize_port_fields)

lemma normalize_query_fields: "normalize_query L form p = Some u \<Longrightarrow>
    Scheme u = Scheme p \<and> User u = User p \<and> Fragment u = Fragment p \<and> Path u = Path p
    \<and> (form \<noteq> URLFormReference \<longrightarrow> RawQuery u = [] \<and> \<not> ForceQuery u)
    \<and> (form = URLFormReference \<longrightarrow> RawQuery u = [] \<or> isBoundedToken (RawQuery u))"
  by (cases form) (auto simp: normalize_query_def split: if_splits)

lemma normalize_location_safe:
  assumes "normalize_location L form p = Some u"
  shows "Scheme u = Scheme p \<and> User u = User p
    \<and> (form \<noteq> URLFormReference \<longrightarrow> RawQuery u = [] \<and> \<not> ForceQuery u \<and> Fragment u = [])
    \<and> (form = URLFormReference \<longrightarrow> RawQuery u = [] \<or> isBoundedToken (RawQuery u))"
  using assms
  by (auto simp: normalize_location_def Let_def split: if_splits option.splits
      dest!: normalize_query_fields)

lemma plain_head_normalized_origin:
  assumes "DependencyOrigin_Normalized L orig = Some n"
  shows "ArtifactURL n \<noteq> [] \<and> Repository n = [] \<and> Revision n = []
       \<and> NormalizeURL L (ArtifactURL orig) URLFormArtifact = Some (ArtifactURL n)
     \<or> ArtifactURL n = [] \<and> Repository n \<noteq> [] \<and> (Revision n = [] \<or> isValidOriginRevision (Revision n))
       \<and> NormalizeURL L (Repository orig) URLFormRepository = Some (Repository n)"
  using assms
  by (auto simp: DependencyOrigin_Normalized_def NormalizeOriginURL_def pinned_revision_def Let_def
      split: option.splits elim!: NormalizeURL_decompose)

text \<open>What the safety of publication rests on: a normalized URL has no NUL byte (\<open>url.Parse\<close>
  refuses ASCII control characters and \<open>String\<close> writes none).\<close>

definition urls_nul_free :: "library \<Rightarrow> bool" where
  "urls_nul_free L \<longleftrightarrow> (\<forall>raw form out. NormalizeURL L raw form = Some out \<longrightarrow> CHR 0x00 \<notin> set out)"

lemma nul_not_revision: "isValidOriginRevision r \<Longrightarrow> CHR 0x00 \<notin> set r"
  by (auto simp: isValidOriginRevision_def list_all_iff)

lemma append_sep_unique:
  "xs @ c # ys = xs' @ c # ys' \<Longrightarrow> c \<notin> set ys \<Longrightarrow> c \<notin> set ys' \<Longrightarrow> xs = xs' \<and> ys = ys'"
proof (induction xs arbitrary: xs')
  case Nil
  then show ?case by (cases xs') auto
next
  case (Cons x xs)
  show ?case
  proof (cases xs')
    case Nil
    with Cons.prems have "c \<in> set ys'" by auto
    with Cons.prems show ?thesis by simp
  next
    case (Cons x' r)
    with Cons.IH [of r] Cons.prems show ?thesis by simp
  qed
qed

lemma normalized_key_inj:
  assumes "urls_nul_free L"
    and "DependencyOrigin_Normalized L a = Some m" and "DependencyOrigin_Normalized L b = Some n"
    and "origin_key m = origin_key n"
  shows "m = n"
proof -
  have rev: "CHR 0x00 \<notin> set (Revision m)" "CHR 0x00 \<notin> set (Revision n)"
    using plain_head_normalized_origin [OF assms(2)] plain_head_normalized_origin [OF assms(3)]
      nul_not_revision by force+
  have art: "CHR 0x00 \<notin> set (ArtifactURL m)" "CHR 0x00 \<notin> set (ArtifactURL n)"
    using plain_head_normalized_origin [OF assms(2)] plain_head_normalized_origin [OF assms(3)] assms(1)
    unfolding urls_nul_free_def by force+
  have "(ArtifactURL m @ [CHR 0x00] @ Repository m) @ CHR 0x00 # Revision m
      = (ArtifactURL n @ [CHR 0x00] @ Repository n) @ CHR 0x00 # Revision n"
    using assms(4) by (simp add: origin_key_def)
  from append_sep_unique [OF this rev]
  have r: "Revision m = Revision n"
    and ar: "rev (ArtifactURL m @ CHR 0x00 # Repository m) = rev (ArtifactURL n @ CHR 0x00 # Repository n)"
    by simp_all
  then have "rev (Repository m) @ CHR 0x00 # rev (ArtifactURL m) = rev (Repository n) @ CHR 0x00 # rev (ArtifactURL n)"
    by simp
  from append_sep_unique [OF this] art have "Repository m = Repository n" "ArtifactURL m = ArtifactURL n"
    by auto
  with r show ?thesis by simp
qed

lemma remdups_snoc: "remdups (xs @ [y]) = filter (\<lambda>x. x \<noteq> y) (remdups xs) @ [y]"
  by (induction xs) auto

lemma rev_remdups_rev_Cons:
  "rev (remdups (rev (y # ys))) = y # filter (\<lambda>x. x \<noteq> y) (rev (remdups (rev ys)))"
  by (simp add: remdups_snoc rev_filter)

lemma dedup_gated_firsts:
  assumes "\<And>a b m n. gate a = Some m \<Longrightarrow> gate b = Some n \<Longrightarrow> key m = key n \<Longrightarrow> m = n"
    and "\<forall>s \<in> set seen. \<exists>a. gate a = Some s"
  shows "dedup_gated gate key (map key seen) xs =
    filter (\<lambda>y. y \<notin> set seen) (rev (remdups (rev (List.map_filter gate xs))))"
  using assms(2)
proof (induction xs arbitrary: seen)
  case Nil
  then show ?case by (simp add: List.map_filter_def)
next
  case (Cons x xs)
  show ?case
  proof (cases "gate x")
    case None
    with Cons show ?thesis by (simp add: List.map_filter_def)
  next
    case (Some y)
    then have mf: "List.map_filter gate (x # xs) = y # List.map_filter gate xs"
      by (simp add: List.map_filter_def)
    have key: "key y \<in> set (map key seen) \<longleftrightarrow> y \<in> set seen"
      using assms(1) Some Cons.prems by fastforce
    have IH: "dedup_gated gate key (map key (y # seen)) xs =
        filter (\<lambda>z. z \<notin> set (y # seen)) (rev (remdups (rev (List.map_filter gate xs))))"
      by (rule Cons.IH) (use Cons.prems Some in auto)
    show ?thesis
      using Cons.IH [OF Cons.prems] IH Some key
      by (auto simp: mf rev_remdups_rev_Cons simp del: set_map rev.simps intro: filter_cong)
  qed
qed

definition superseded_in :: "dependency_origin list \<Rightarrow> dependency_origin \<Rightarrow> bool" where
  "superseded_in origins orig \<longleftrightarrow> Revision orig = [] \<and> Repository orig \<noteq> []
     \<and> (\<exists>p \<in> set origins. Revision p \<noteq> [] \<and> Repository p = Repository orig)"

lemma dropSupersededOrigins_normalized:
  assumes "\<forall>n \<in> set origins. \<exists>a. DependencyOrigin_Normalized L a = Some n"
  shows "dropSupersededOrigins origins = filter (\<lambda>orig. \<not> superseded_in origins orig) origins"
proof -
  let ?pinned = "map originPlaceKey (filter (\<lambda>orig. Revision orig \<noteq> [] \<and> Repository orig \<noteq> []) origins)"
  have shape: "(Repository n \<noteq> [] \<longrightarrow> ArtifactURL n = []) \<and> (Revision n \<noteq> [] \<longrightarrow> Repository n \<noteq> [])"
    if "n \<in> set origins" for n
    using assms that plain_head_normalized_origin by fastforce
  have sup: "superseded_in origins orig \<longleftrightarrow> Revision orig = [] \<and> Repository orig \<noteq> []
      \<and> originPlaceKey orig \<in> set ?pinned" if o: "orig \<in> set origins" for orig
    using shape [OF o] shape by (fastforce simp: superseded_in_def originPlaceKey_def image_iff)
  show ?thesis
  proof (cases "length origins < 2")
    case True
    then consider "origins = []" | a where "origins = [a]" by (cases origins) auto
    then show ?thesis
      by cases (auto simp: dropSupersededOrigins_def superseded_in_def)
  next
    case False
    show ?thesis
    proof (cases "?pinned = []")
      case True
      then have "\<forall>orig \<in> set origins. \<not> superseded_in origins orig" using sup by simp
      with True show ?thesis
        by (simp add: dropSupersededOrigins_def Let_def filter_True del: map_is_Nil_conv)
    next
      case False
      with \<open>\<not> length origins < 2\<close> show ?thesis
        by (auto simp: dropSupersededOrigins_def Let_def sup simp del: set_map map_is_Nil_conv intro!: filter_cong)
    qed
  qed
qed

section \<open>Properties\<close>

text \<open>Rewriting percent escapes never changes the path a URL names: on every path whose
  escapes are well formed, \<open>canonicalEscapes\<close> decodes to the same bytes, and applying it again
  changes nothing.\<close>

lemma canonicalEscapes_canonical:
  assumes "unescape path = Some decoded"
  shows "unescape (canonicalEscapes path) = Some decoded
    \<and> canonicalEscapes (canonicalEscapes path) = canonicalEscapes path"
  using unescape_escapes_loop [of path] escapes_loop_idem [of path] assms
  by (simp add: canonicalEscapes_eq)

text \<open>C40. The publication gate of URLs: whatever \<open>NormalizeURL\<close> admits is the printed form of a
  parsed URL with scheme http or https and no user information, within the length bound; an
  artifact or repository URL carries neither query nor fragment, and the query of a citation
  is empty or a single token without white space or control characters.\<close>

theorem NormalizeURL_safe:
  assumes "NormalizeURL L raw form = Some out"
  shows "out \<noteq> [] \<and> length out \<le> maxPublishedURLLength \<and>
    (\<exists>u. out = url_String L u \<and> Scheme u \<in> {''http'', ''https''} \<and> User u = None
      \<and> (form \<noteq> URLFormReference \<longrightarrow> RawQuery u = [] \<and> \<not> ForceQuery u \<and> Fragment u = [])
      \<and> (form = URLFormReference \<longrightarrow> RawQuery u = [] \<or> isBoundedToken (RawQuery u)))"
proof -
  from assms obtain p h u where "normalize_host L p = Some h"
    "normalize_location L form h = Some u" "out = url_String L u" "out \<noteq> []"
    "length out \<le> maxPublishedURLLength" by (rule NormalizeURL_decompose)
  with normalize_host_safe [of L p h] normalize_location_safe [of L form h u] show ?thesis
    by (intro conjI exI [of _ u]) simp_all
qed

definition one_url :: url where
  "one_url = \<lparr>Scheme = ''https'', Opaque = [], User = None, Host = ''h'', Path = ''/p'', RawPath = [],
     OmitHost = False, ForceQuery = False, RawQuery = [], Fragment = [], RawFragment = []\<rparr>"

definition one_library :: library where
  "one_library = plain_library\<lparr>url_Parse := \<lambda>s. if s = ''https://h/p'' then Some one_url else None,
     url_String := \<lambda>u. Scheme u @ ''://'' @ Host u @ Path u, url_EscapedPath := Path\<rparr>"

lemma one_library_NormalizeURL: "NormalizeURL one_library ''https://h/p'' URLFormRepository = Some ''https://h/p''"
  by code_simp

theorem NormalizeURL_safe_witness:
  "length ''https://h/p'' \<le> maxPublishedURLLength \<and> (\<exists>u. ''https://h/p'' = url_String one_library u
     \<and> Scheme u \<in> {''http'', ''https''} \<and> User u = None)"
  using NormalizeURL_safe [OF one_library_NormalizeURL] by blast

text \<open>What \<open>MergeOrigins\<close> keeps: the first occurrence of every publishable origin, in arrival
  order, less the repository origins without a revision that another origin pins. The first
  origin of the result is the primary one, so arrival order is content.\<close>

lemma MergeOrigins_spec:
  assumes "urls_nul_free L"
  shows "MergeOrigins L existing additions =
    (let publishable = rev (remdups (rev (List.map_filter (DependencyOrigin_Normalized L) (existing @ additions))))
     in filter (\<lambda>orig. \<not> superseded_in publishable orig) publishable)"
proof -
  let ?S = "rev (remdups (rev (List.map_filter (DependencyOrigin_Normalized L) (existing @ additions))))"
  have "dedup_gated (DependencyOrigin_Normalized L) origin_key [] (existing @ additions) = ?S"
    using dedup_gated_firsts [of "DependencyOrigin_Normalized L" origin_key "[]" "existing @ additions"]
      normalized_key_inj [OF assms] by simp
  moreover have "\<forall>n \<in> set ?S. \<exists>a. DependencyOrigin_Normalized L a = Some n"
    by (auto simp: List.map_filter_def)
  ultimately show ?thesis
    using dropSupersededOrigins_normalized [of ?S] by (simp add: MergeOrigins_def Let_def)
qed

lemma one_library_nul_free: "urls_nul_free one_library"
proof -
  have host: "normalize_host one_library one_url = Some one_url" by code_simp
  have "map_option (url_String one_library) (normalize_location one_library URLFormArtifact one_url) = Some ''https://h/p''"
    "map_option (url_String one_library) (normalize_location one_library URLFormRepository one_url) = Some ''https://h/p''"
    "map_option (url_String one_library) (normalize_location one_library URLFormReference one_url) = Some ''https://h/p''"
    by code_simp+
  then have out: "map_option (url_String one_library) (normalize_location one_library form one_url)
      = Some ''https://h/p''" for form
    by (cases form) simp_all
  have "out = ''https://h/p''" if norm: "NormalizeURL one_library raw form = Some out" for raw form out
  proof -
    from norm obtain p h u where p: "url_Parse one_library (TrimSpace raw) = Some p"
      and h: "normalize_host one_library p = Some h"
      and u: "normalize_location one_library form h = Some u" "out = url_String one_library u"
      by (rule NormalizeURL_decompose)
    have "p = one_url" using p by (simp add: one_library_def split: if_splits)
    with h host have "h = one_url" by simp
    with u out [of form] show ?thesis by simp
  qed
  moreover have "CHR 0x00 \<notin> set ''https://h/p''" by simp
  ultimately show ?thesis unfolding urls_nul_free_def by blast
qed

end
