(* ===== verification/Contacts.thy ===== *)
theory Contacts
  imports Origins
begin

text \<open>
  Parties and free text, \<^verbatim>\<open>model/contact.go\<close>: contact kinds, the gate that keeps email
  addresses out of a contact, the SPDX supplier form and its parser, and the gates of
  multi-line text (\<open>normalizePublishedText\<close>) and of homepages.
\<close>

section \<open>Contact kinds\<close>

type_synonym contact_kind = string

abbreviation ContactKindUnknown :: contact_kind where "ContactKindUnknown \<equiv> []"
abbreviation ContactKindOrganization :: contact_kind where "ContactKindOrganization \<equiv> ''organization''"
abbreviation ContactKindPerson :: contact_kind where "ContactKindPerson \<equiv> ''person''"
abbreviation ContactKindNoAssertion :: contact_kind where "ContactKindNoAssertion \<equiv> ''noassertion''"

abbreviation maxContactKindLength :: nat where "maxContactKindLength \<equiv> 64"
abbreviation maxSPDXContactLength :: nat where "maxSPDXContactLength \<equiv> 1024"
abbreviation maxContactNameLength :: nat where "maxContactNameLength \<equiv> 256"
abbreviation maxDescriptionLength :: nat where "maxDescriptionLength \<equiv> 8192"

datatype contact_kind_error = KindTooLong nat | UnsupportedKind string

definition ParseContactKind :: "string \<Rightarrow> contact_kind_error + contact_kind" where
  "ParseContactKind value =
     (if length value > maxContactKindLength then Inl (KindTooLong (length value))
      else (let k = ToLower (TrimSpace value) in
            if k = [] then Inr ContactKindUnknown
            else if k = ContactKindOrganization then Inr ContactKindOrganization
            else if k = ContactKindPerson then Inr ContactKindPerson
            else if k = ContactKindNoAssertion then Inr ContactKindNoAssertion
            else Inl (UnsupportedKind value)))"

section \<open>Free text\<close>

definition keep_text_rune :: "string \<Rightarrow> bool" where
  "keep_text_rune r \<longleftrightarrow> r \<in> {[CHR 0x0A], [CHR 0x0D], [CHR 0x09]} \<or> \<not> IsControl r"

definition normalizePublishedText :: "string \<Rightarrow> nat \<Rightarrow> string" where
  "normalizePublishedText value limit =
     (let trimmed = TrimSpace value in
      if trimmed = [] \<or> length trimmed > limit then []
      else (let repaired = TrimSpace (concat (map WriteRune (filter keep_text_rune (chunks trimmed))))
            in if length repaired > limit then [] else repaired))"

definition NormalizeDescription :: "string \<Rightarrow> string" where
  "NormalizeDescription value = normalizePublishedText value maxDescriptionLength"

definition NormalizeCopyright :: "string \<Rightarrow> string" where
  "NormalizeCopyright value = normalizePublishedText value maxDescriptionLength"

definition NormalizeHomepage :: "library \<Rightarrow> string \<Rightarrow> string" where
  "NormalizeHomepage L value =
     (case NormalizeURL L value URLFormReference of None \<Rightarrow> [] | Some normalized \<Rightarrow> normalized)"

section \<open>Contacts\<close>

record contact =
  ContactKind :: contact_kind
  ContactName :: string
  ContactURL :: string

definition Contact_zero :: contact where
  "Contact_zero = \<lparr>ContactKind = [], ContactName = [], ContactURL = []\<rparr>"

definition Contact_Empty :: "contact \<Rightarrow> bool" where
  "Contact_Empty c \<longleftrightarrow> ContactKind c = ContactKindUnknown \<and> TrimSpace (ContactName c) = []
     \<and> TrimSpace (ContactURL c) = []"

definition urlCarriesAddress :: "library \<Rightarrow> string \<Rightarrow> bool" where
  "urlCarriesAddress L raw \<longleftrightarrow> addressPattern L raw \<or>
     (case url_QueryUnescape L raw of None \<Rightarrow> False
      | Some decoded \<Rightarrow> decoded \<noteq> raw \<and> addressPattern L decoded)"

definition stripAddressTokens :: "string \<Rightarrow> string" where
  "stripAddressTokens value =
     (if CHR ''@'' \<notin> set value then value
      else Join (filter (\<lambda>f. CHR ''@'' \<notin> set f) (Fields value)) '' '')"

definition normalized_contact_name :: "string \<Rightarrow> string" where
  "normalized_contact_name name =
     (let trimmed = TrimSpace name in
      stripAddressTokens
        (if length trimmed > maxContactNameLength \<or> ContainsControlChar trimmed then [] else trimmed))"

definition normalized_contact_url :: "library \<Rightarrow> string \<Rightarrow> string" where
  "normalized_contact_url L raw =
     (case NormalizeURL L raw URLFormReference of
        Some candidate \<Rightarrow> if urlCarriesAddress L candidate then [] else candidate
      | None \<Rightarrow> [])"

definition Contact_Normalized :: "library \<Rightarrow> contact \<Rightarrow> contact option" where
  "Contact_Normalized L c =
     (let kind = (case ParseContactKind (ContactKind c) of Inr k \<Rightarrow> k | Inl _ \<Rightarrow> ContactKindUnknown);
          name = normalized_contact_name (ContactName c);
          url = normalized_contact_url L (ContactURL c)
      in if kind = ContactKindNoAssertion
         then Some \<lparr>ContactKind = kind, ContactName = [], ContactURL = []\<rparr>
         else if name = [] then None
         else Some \<lparr>ContactKind = kind, ContactName = name, ContactURL = url\<rparr>)"

definition Contact_UnmarshalJSON :: "library \<Rightarrow> contact \<Rightarrow> contact" where
  "Contact_UnmarshalJSON L wire =
     (case Contact_Normalized L wire of None \<Rightarrow> Contact_zero | Some normalized \<Rightarrow> normalized)"

definition Contact_MarshalJSON :: "library \<Rightarrow> contact \<Rightarrow> contact" where
  "Contact_MarshalJSON L c =
     (case Contact_Normalized L c of None \<Rightarrow> Contact_zero | Some normalized \<Rightarrow> normalized)"

text \<open>\<open>normalizedContact\<close> of \<^verbatim>\<open>package.go\<close>, the gate of a nilable contact.\<close>

definition normalizedContact :: "library \<Rightarrow> contact option \<Rightarrow> contact option" where
  "normalizedContact L c = (case c of None \<Rightarrow> None | Some c \<Rightarrow> Contact_Normalized L c)"

section \<open>The SPDX form\<close>

abbreviation spdxNoAssertion :: string where "spdxNoAssertion \<equiv> ''NOASSERTION''"

definition Contact_SPDXString :: "library \<Rightarrow> contact \<Rightarrow> string" where
  "Contact_SPDXString L c =
     (case Contact_Normalized L c of
        None \<Rightarrow> []
      | Some normalized \<Rightarrow>
          if ContactKind normalized = ContactKindNoAssertion then spdxNoAssertion
          else if ContactKind normalized = ContactKindOrganization
          then ''Organization: '' @ ContactName normalized
          else if ContactKind normalized = ContactKindPerson
          then ''Person: '' @ ContactName normalized
          else [])"

text \<open>\<open>strings.EqualFold\<close> where one side is ASCII: case folding of ASCII letters and of the two
  code points (U+017F, U+212A) that fold to one.\<close>

definition fold_rune :: "string \<Rightarrow> string" where
  "fold_rune c =
     (case c of
        [a] \<Rightarrow> [lower_char a]
      | _ \<Rightarrow> if c = [CHR 0xC5, CHR 0xBF] then ''s''
             else if c = [CHR 0xE2, CHR 0x84, CHR 0xAA] then ''k'' else c)"

definition EqualFold_ascii :: "string \<Rightarrow> string \<Rightarrow> bool" where
  "EqualFold_ascii s t \<longleftrightarrow> map fold_rune (chunks s) = map fold_rune (chunks t)"

definition hasCaseInsensitivePrefix :: "string \<Rightarrow> string \<Rightarrow> bool" where
  "hasCaseInsensitivePrefix value prefix \<longleftrightarrow>
     length value \<ge> length prefix \<and> EqualFold_ascii (take (length prefix) value) prefix"

definition last_paren :: "string \<Rightarrow> nat option" where
  "last_paren s =
     (if CHR ''('' \<in> set s
      then Some (length s - Suc (length (takeWhile (\<lambda>c. c \<noteq> CHR ''('') (rev s)))) else None)"

definition stripEmailParenthetical :: "string \<Rightarrow> string" where
  "stripEmailParenthetical value =
     (let trimmed = TrimSpace value in
      if \<not> HasSuffix trimmed '')'' then trimmed
      else (case last_paren trimmed of
              None \<Rightarrow> trimmed
            | Some i \<Rightarrow> if CHR ''@'' \<notin> set (drop i trimmed) then trimmed
                        else TrimSpace (take i trimmed)))"

definition ParseSPDXContact :: "library \<Rightarrow> string \<Rightarrow> contact option" where
  "ParseSPDXContact L value =
     (if length value > maxSPDXContactLength then None
      else (let trimmed = TrimSpace value in
        if trimmed = [] then None
        else if EqualFold_ascii trimmed spdxNoAssertion
        then Some \<lparr>ContactKind = ContactKindNoAssertion, ContactName = [], ContactURL = []\<rparr>
        else if hasCaseInsensitivePrefix trimmed ''Organization:''
        then Contact_Normalized L \<lparr>ContactKind = ContactKindOrganization,
               ContactName = TrimSpace (stripEmailParenthetical (drop 13 trimmed)), ContactURL = []\<rparr>
        else if hasCaseInsensitivePrefix trimmed ''Person:''
        then Contact_Normalized L \<lparr>ContactKind = ContactKindPerson,
               ContactName = TrimSpace (stripEmailParenthetical (drop 7 trimmed)), ContactURL = []\<rparr>
        else None))"

section \<open>Well-formed runes\<close>

definition wf_rune :: "string \<Rightarrow> bool" where
  "wf_rune c \<longleftrightarrow> c \<noteq> [] \<and> rune_len c = length c"

lemma chunk_rune_len: "c \<in> set (chunks s) \<Longrightarrow> rune_len c = 0 \<or> wf_rune c"
proof (induction s rule: chunks.induct)
  case (1 s)
  show ?case
  proof (cases "s = []")
    case False
    let ?k = "max 1 (rune_len s)"
    consider "c = take ?k s" | "c \<in> set (chunks (drop ?k s))"
      using 1 False by (auto simp: chunks_nonempty)
    then show ?thesis
    proof cases
      case 1
      show ?thesis
      proof (cases "rune_len s = 0")
        case True
        then have "rune_len c = 0"
          using 1 rune_len_append [of c "drop 1 s"] by (cases "rune_len c = 0") auto
        then show ?thesis by simp
      next
        case False
        then have "rune_len c = ?k" using 1 rune_len_take [of s ?k] by simp
        moreover have "length c = ?k" using 1 rune_len_le [of s] False by simp
        ultimately show ?thesis using False by (auto simp: wf_rune_def)
      qed
    next
      case 2
      with 1 False show ?thesis by blast
    qed
  qed (use 1 in simp)
qed

lemma chunks_concat_wf: "list_all wf_rune cs \<Longrightarrow> chunks (concat cs) = cs"
proof (induction cs)
  case (Cons c cs)
  then have c: "c \<noteq> []" "rune_len c = length c" by (auto simp: wf_rune_def)
  then have "rune_len (c @ concat cs) = length c"
    using rune_len_append [of c "concat cs"] by (cases c) auto
  moreover have "max 1 (length c) = length c" using c by (cases c) auto
  ultimately show ?case using Cons c by (simp add: chunks_nonempty)
qed simp

lemma wf_WriteRune: "c \<in> set (chunks s) \<Longrightarrow> wf_rune (WriteRune c)"
  using chunk_rune_len [of c s]
  by (auto simp: WriteRune_def wf_rune_def rune_len_def Let_def lead_len_def second_ok_def is_cont_def)

lemma WriteRune_wf: "wf_rune c \<Longrightarrow> WriteRune c = c"
  by (cases c) (auto simp: WriteRune_def wf_rune_def)

section \<open>Multi-line text\<close>

lemma chunks_trim_sublist: "c \<in> set (chunks (TrimSpace s)) \<Longrightarrow> c \<in> set (chunks s)"
  using set_chunks_TrimSpace by blast

lemma text_clean_fixed:
  assumes "list_all (\<lambda>c. wf_rune c \<and> keep_text_rune c) (chunks v)"
    and "TrimSpace v = v" and "length v \<le> limit"
  shows "normalizePublishedText v limit = v"
proof -
  have "filter keep_text_rune (chunks v) = chunks v"
    using assms(1) by (simp add: filter_id_conv list_all_iff)
  moreover have "map WriteRune (chunks v) = chunks v"
    using assms(1) WriteRune_wf by (auto simp: list_all_iff intro: map_idI)
  ultimately show ?thesis
    using assms by (auto simp: normalizePublishedText_def Let_def)
qed

lemma keep_WriteRune: "keep_text_rune c \<Longrightarrow> keep_text_rune (WriteRune c)"
  by (simp add: WriteRune_def) (simp add: keep_text_rune_def IsControl_def)

lemma normalizePublishedText_clean:
  "list_all (\<lambda>c. wf_rune c \<and> keep_text_rune c) (chunks (normalizePublishedText value limit))
   \<and> TrimSpace (normalizePublishedText value limit) = normalizePublishedText value limit
   \<and> length (normalizePublishedText value limit) \<le> limit"
proof -
  let ?cs = "map WriteRune (filter keep_text_rune (chunks (TrimSpace value)))"
  have "list_all wf_rune ?cs" using wf_WriteRune by (auto simp: list_all_iff)
  then have "chunks (concat ?cs) = ?cs" by (rule chunks_concat_wf)
  then have "c \<in> set ?cs" if "c \<in> set (chunks (TrimSpace (concat ?cs)))" for c
    using chunks_trim_sublist [OF that] by simp
  then have "list_all (\<lambda>c. wf_rune c \<and> keep_text_rune c) (chunks (TrimSpace (concat ?cs)))"
    using wf_WriteRune keep_WriteRune by (fastforce simp: list_all_iff)
  then show ?thesis by (auto simp: normalizePublishedText_def Let_def)
qed

section \<open>Names\<close>

lemma tail_ok_bytes: "tail_ok b cs \<Longrightarrow> c \<in> set cs \<Longrightarrow> 0x80 \<le> byte c"
  by (cases cs) (auto simp: second_ok_def is_cont_def list_all_iff split: if_splits)

lemma rune_len_before_ascii:
  assumes "byte a < 0x80" and "f \<noteq> []"
  shows "rune_len (f @ a # t) = rune_len f"
proof (cases "rune_len f = 0")
  case True
  obtain c0 r where f: "f = c0 # r" using assms(2) by (cases f) auto
  let ?n = "lead_len (byte c0)"
  have "rune_len (f @ a # t) = 0"
  proof (rule ccontr)
    assume ne: "rune_len (f @ a # t) \<noteq> 0"
    then have n: "?n \<noteq> 0" and ok: "tail_ok (byte c0) (take (?n - 1) (r @ a # t))"
      by (auto simp: f rune_len_def Let_def split: if_splits)
    show False
    proof (cases "length r < ?n - 1")
      case True
      then have "a \<in> set (take (?n - 1) (r @ a # t))"
        by (cases "?n - 1 - length r") auto
      from tail_ok_bytes [OF ok this] assms(1) show False by simp
    next
      case False
      then have "take (?n - 1) (r @ a # t) = take (?n - 1) r" by simp
      with ok n False True f show False
        by (auto simp: rune_len_def Let_def split: if_splits)
    qed
  qed
  with True show ?thesis by simp
qed (simp add: rune_len_append)

lemma chunks_before_ascii: "byte a < 0x80 \<Longrightarrow> chunks (f @ a # t) = chunks f @ chunks (a # t)"
proof (induction f rule: chunks.induct)
  case (1 f)
  show ?case
  proof (cases "f = []")
    case False
    let ?k = "max 1 (rune_len f)"
    have k: "?k \<le> length f" using False rune_len_le [of f] by (cases f) auto
    have "chunks (f @ a # t) = take ?k f # chunks (drop ?k f @ a # t)"
      using False k by (simp add: chunks_nonempty rune_len_before_ascii [OF 1(2) False])
    also have "\<dots> = take ?k f # chunks (drop ?k f) @ chunks (a # t)"
      using 1 False by simp
    finally show ?thesis by (simp add: chunks_nonempty [OF False])
  qed simp
qed

lemma chunks_ascii_Cons: "byte a < 0x80 \<Longrightarrow> chunks (a # t) = [a] # chunks t"
proof -
  assume a: "byte a < 0x80"
  then have "rune_len (a # t) = 1"
    by (simp add: rune_len_def lead_len_def Let_def)
  then show ?thesis by (simp add: chunks_nonempty)
qed

lemma chunks_ascii_append: "is_ascii s \<Longrightarrow> chunks (s @ t) = map (\<lambda>c. [c]) s @ chunks t"
  by (induction s) (auto simp: is_ascii_def chunks_ascii_Cons)

text \<open>\<open>strings.Fields\<close> cuts a string between runes: every field is a run of its runes.\<close>

definition field_of :: "string list \<Rightarrow> string \<Rightarrow> bool" where
  "field_of cs f \<longleftrightarrow> f \<noteq> [] \<and> chunks f \<noteq> [] \<and> set (chunks f) \<subseteq> set cs \<and> list_all (\<lambda>c. \<not> IsSpace c) (chunks f)"

lemma chunks_infix: "chunks s = pre @ g @ post \<Longrightarrow> chunks (concat g) = g"
proof -
  assume eq: "chunks s = pre @ g @ post"
  have "chunks (concat (g @ post)) = g @ post"
    using chunks_concat_drop [of "length pre" s] eq by simp
  then show ?thesis
    using chunks_concat_take [of "length g" "concat (g @ post)"] by simp
qed

lemma fields_loop_fields:
  assumes "chunks s = pre @ g @ cs" and "list_all (\<lambda>c. \<not> IsSpace c) g"
    and "f \<in> set (fields_loop (concat g) cs)"
  shows "field_of (chunks s) f"
  using assms
proof (induction cs arbitrary: pre g)
  case Nil
  then have "f = concat g" "g \<noteq> []" by (auto split: if_splits)
  with Nil chunks_infix [of s pre g "[]"] show ?case
    using chunks_mem_nonempty [of _ s] by (auto simp: field_of_def split: if_splits)
next
  case (Cons c cs)
  have ne: "concat g = [] \<longleftrightarrow> g = []"
    using Cons.prems(1) chunks_mem_nonempty [of _ s] by (cases g) auto
  have g: "g \<noteq> [] \<Longrightarrow> field_of (chunks s) (concat g)"
    using chunks_infix [of s pre g "c # cs"] Cons.prems ne by (auto simp: field_of_def)
  show ?case
  proof (cases "IsSpace c")
    case True
    have "f \<in> set (fields_loop (concat []) cs) \<Longrightarrow> field_of (chunks s) f"
      using Cons.prems(1) by (intro Cons.IH [of "pre @ g @ [c]" "[]"]) auto
    with True Cons.prems(3) g ne show ?thesis by (auto split: if_splits)
  next
    case False
    with Cons.prems show ?thesis
      by (intro Cons.IH [of pre "g @ [c]"]) auto
  qed
qed

lemma Fields_fields: "f \<in> set (Fields s) \<Longrightarrow> field_of (chunks s) f"
  using fields_loop_fields [of s "[]" "[]" "chunks s" f] by (simp add: Fields_def)

lemma fields_loop_length:
  "sum_list (map (\<lambda>f. length f + 1) (fields_loop acc cs)) \<le> length acc + length (concat cs) + 1"
  if "\<forall>c \<in> set cs. c \<noteq> []"
  using that
proof (induction cs arbitrary: acc)
  case (Cons c cs)
  then have "length c \<ge> 1" by (cases c) auto
  with Cons.IH [of "[]"] Cons.IH [of "acc @ c"] Cons.prems show ?case by simp
qed simp

lemma Join_length: "length (Join fs '' '') + 1 \<le> sum_list (map (\<lambda>f. length f + 1) fs) + (if fs = [] then 1 else 0)"
  by (induction fs "'' ''" rule: Join.induct) auto

lemma sum_list_filter_le: "sum_list (map f (filter P xs)) \<le> sum_list (map f xs)" for f :: "'a \<Rightarrow> nat"
  by (induction xs) auto

lemma Join_fields_length: "length (Join (filter P (Fields s)) '' '') \<le> length s"
proof -
  have "sum_list (map (\<lambda>f. length f + 1) (Fields s)) \<le> length s + 1"
    using fields_loop_length [of "chunks s" "[]"] chunks_mem_nonempty [of _ s] by (auto simp: Fields_def)
  with sum_list_filter_le [of "\<lambda>f. length f + 1" P "Fields s"] Join_length [of "filter P (Fields s)"]
  show ?thesis by (auto split: if_splits)
qed

lemma chunks_Join_fields:
  "list_all (field_of cs) fs \<Longrightarrow> set (chunks (Join fs '' '')) \<subseteq> insert '' '' (set cs)
   \<and> (fs \<noteq> [] \<longrightarrow> chunks (Join fs '' '') \<noteq> [] \<and> \<not> IsSpace (hd (chunks (Join fs '' '')))
        \<and> \<not> IsSpace (last (chunks (Join fs '' ''))))"
proof (induction fs "'' ''" rule: Join.induct)
  case (2 f)
  then have "\<forall>c \<in> set (chunks f). \<not> IsSpace c" "chunks f \<noteq> []" by (auto simp: field_of_def list_all_iff)
  with 2 hd_in_set [of "chunks f"] last_in_set [of "chunks f"] show ?case
    by (auto simp: field_of_def)
next
  case (3 f g fs)
  have "chunks (Join (f # g # fs) '' '') = chunks f @ [[CHR '' '']] @ chunks (Join (g # fs) '' '')"
    using chunks_before_ascii [of "CHR '' ''" f "Join (g # fs) '' ''"]
    by (simp add: chunks_ascii_Cons)
  moreover have "\<not> IsSpace (hd (chunks f))" "chunks f \<noteq> []" "set (chunks f) \<subseteq> set cs"
    using 3 hd_in_set [of "chunks f"] by (auto simp: field_of_def list_all_iff)
  ultimately show ?case using 3 by auto
qed simp

lemma TrimSpace_ends:
  assumes "chunks v \<noteq> []" and "\<not> IsSpace (hd (chunks v))" and "\<not> IsSpace (last (chunks v))"
  shows "TrimSpace v = v"
proof -
  have "dropWhile IsSpace (chunks v) = chunks v" using assms by (simp add: dropWhile_eq_self_iff)
  moreover have "dropWhile IsSpace (rev (chunks v)) = rev (chunks v)"
    using assms by (simp add: dropWhile_eq_self_iff hd_rev)
  ultimately show ?thesis by (simp add: TrimSpace_def)
qed

definition clean_name :: "string \<Rightarrow> bool" where
  "clean_name n \<longleftrightarrow> CHR ''@'' \<notin> set n \<and> TrimSpace n = n \<and> length n \<le> maxContactNameLength
     \<and> \<not> ContainsControlChar n"

lemma clean_name_Nil: "clean_name []"
  by (simp add: clean_name_def ContainsControlChar_def)

lemma stripAddressTokens_clean:
  assumes "TrimSpace t = t" and "length t \<le> maxContactNameLength" and "\<not> ContainsControlChar t"
  shows "clean_name (stripAddressTokens t)"
proof (cases "CHR ''@'' \<in> set t")
  case False
  with assms show ?thesis by (simp add: stripAddressTokens_def clean_name_def)
next
  case True
  let ?fs = "filter (\<lambda>f. CHR ''@'' \<notin> set f) (Fields t)"
  let ?n = "Join ?fs '' ''"
  have fs: "list_all (field_of (chunks t)) ?fs"
    using Fields_fields by (auto simp: list_all_iff)
  note chunks = chunks_Join_fields [OF fs]
  have "CHR ''@'' \<notin> set ?n" using set_Join [of ?fs "'' ''"] by auto
  moreover have "TrimSpace ?n = ?n"
    using chunks by (cases "?fs = []") (simp_all add: TrimSpace_ends del: chunks_eq_Nil)
  moreover have "length ?n \<le> maxContactNameLength"
    using Join_fields_length [of "\<lambda>f. CHR ''@'' \<notin> set f" t] assms(2) by linarith
  moreover have "\<not> ContainsControlChar ?n"
  proof -
    have "\<not> IsControl c" if "c \<in> set (chunks ?n)" for c
    proof (cases "c = '' ''")
      case True
      then show ?thesis by (simp add: IsControl_def)
    next
      case False
      with that chunks have "c \<in> set (chunks t)" by auto
      with assms(3) show ?thesis by (simp add: ContainsControlChar_def list_ex_iff)
    qed
    then show ?thesis by (auto simp: ContainsControlChar_def list_ex_iff)
  qed
  ultimately show ?thesis using True by (simp add: stripAddressTokens_def clean_name_def)
qed

lemma normalized_contact_name_clean: "clean_name (normalized_contact_name m)"
  unfolding normalized_contact_name_def Let_def
  by (rule stripAddressTokens_clean) (auto simp: ContainsControlChar_def)

lemma clean_name_fixed: "clean_name n \<Longrightarrow> normalized_contact_name n = n"
  by (simp add: clean_name_def normalized_contact_name_def stripAddressTokens_def)

lemma Contact_Normalized_fields:
  assumes "Contact_Normalized L c = Some n"
  shows "ContactKind n \<in> {ContactKindUnknown, ContactKindOrganization, ContactKindPerson, ContactKindNoAssertion}
    \<and> clean_name (ContactName n)
    \<and> (ContactKind n = ContactKindNoAssertion \<longrightarrow> ContactName n = [] \<and> ContactURL n = [])
    \<and> (ContactKind n \<noteq> ContactKindNoAssertion \<longrightarrow> ContactName n \<noteq> [])
    \<and> (ContactURL n \<noteq> [] \<longrightarrow> NormalizeURL L (ContactURL c) URLFormReference = Some (ContactURL n)
         \<and> \<not> urlCarriesAddress L (ContactURL n))"
proof -
  let ?k = "case ParseContactKind (ContactKind c) of Inr k \<Rightarrow> k | Inl _ \<Rightarrow> ContactKindUnknown"
  let ?n = "normalized_contact_name (ContactName c)"
  let ?u = "normalized_contact_url L (ContactURL c)"
  have k: "?k \<in> {ContactKindUnknown, ContactKindOrganization, ContactKindPerson, ContactKindNoAssertion}"
    by (simp add: ParseContactKind_def Let_def)
  have u: "?u \<noteq> [] \<Longrightarrow> NormalizeURL L (ContactURL c) URLFormReference = Some ?u \<and> \<not> urlCarriesAddress L ?u"
    by (simp add: normalized_contact_url_def split: option.splits if_splits)
  show ?thesis
  proof (cases "?k = ContactKindNoAssertion")
    case True
    then have "n = \<lparr>ContactKind = ContactKindNoAssertion, ContactName = [], ContactURL = []\<rparr>"
      using assms by (simp add: Contact_Normalized_def Let_def)
    then show ?thesis using clean_name_Nil by simp
  next
    case False
    then have "?n \<noteq> []" and "n = \<lparr>ContactKind = ?k, ContactName = ?n, ContactURL = ?u\<rparr>"
      using assms by (simp_all add: Contact_Normalized_def Let_def split: if_splits)
    then show ?thesis
      using k u False normalized_contact_name_clean [of "ContactName c"]
      by (simp del: insert_iff)
  qed
qed

lemma ParseContactKind_vocab:
  "ParseContactKind ContactKindOrganization = Inr ContactKindOrganization"
  "ParseContactKind ContactKindPerson = Inr ContactKindPerson"
  by code_simp+

lemma spdx_prefixed:
  assumes n: "clean_name n" "n \<noteq> []" and p: "is_ascii p" "p \<noteq> []" "\<not> IsSpace [hd p]"
  shows "TrimSpace (p @ CHR '' '' # n) = p @ CHR '' '' # n"
    and "TrimSpace (CHR '' '' # n) = n"
proof -
  have ne: "chunks n \<noteq> []" using n by simp
  have "rev (dropWhile IsSpace (rev (dropWhile IsSpace (chunks n)))) = chunks n"
    using n chunks_TrimSpace [of n] by (simp add: clean_name_def)
  then have hd: "\<not> IsSpace (hd (chunks n))" and last: "\<not> IsSpace (last (chunks n))"
    using ne by (metis dropWhile_eq_self_iff dropWhile_idem rev_is_Nil_conv dropWhile_take rdropWhile_eq_take)
      (metis ne \<open>rev (dropWhile IsSpace (rev (dropWhile IsSpace (chunks n)))) = chunks n\<close>
        dropWhile_eq_Nil_conv hd_dropWhile hd_rev rev_is_Nil_conv rev_rev_ident)
  have "is_ascii (p @ '' '')" using p by (simp add: is_ascii_def)
  from chunks_ascii_append [OF this, of n]
  have "chunks (p @ CHR '' '' # n) = map (\<lambda>c. [c]) p @ [[CHR '' '']] @ chunks n" by simp
  then show "TrimSpace (p @ CHR '' '' # n) = p @ CHR '' '' # n"
    using p ne last by (intro TrimSpace_ends) (simp_all add: hd_append hd_map)
  have space: "IsSpace '' ''" by (simp add: IsSpace_def space_runes_def)
  have "dropWhile IsSpace (chunks (CHR '' '' # n)) = chunks n"
    using hd ne by (simp add: chunks_ascii_Cons space dropWhile_eq_self_iff)
  then show "TrimSpace (CHR '' '' # n) = n"
    using n unfolding TrimSpace_def
    by (metis TrimSpace_def clean_name_def hd dropWhile_eq_self_iff)
qed

lemma NormalizeURL_empty: "NormalizeURL L [] form = None"
  by (simp add: NormalizeURL_def)

lemma contact_of_clean:
  assumes "ParseContactKind k = Inr k" and "k \<noteq> ContactKindNoAssertion" and "clean_name n" and "n \<noteq> []"
  shows "Contact_Normalized L \<lparr>ContactKind = k, ContactName = n, ContactURL = []\<rparr>
       = Some \<lparr>ContactKind = k, ContactName = n, ContactURL = []\<rparr>"
  using assms
  by (simp add: Contact_Normalized_def Let_def clean_name_fixed normalized_contact_url_def NormalizeURL_empty)

lemma stripEmailParenthetical_clean:
  assumes "clean_name n" and "n \<noteq> []"
  shows "TrimSpace (stripEmailParenthetical (CHR '' '' # n)) = n"
proof -
  have "is_ascii ''p''" "\<not> IsSpace [hd ''p'']"
    by (simp_all add: is_ascii_def IsSpace_def space_runes_def)
  then have trim: "TrimSpace (CHR '' '' # n) = n"
    using assms by (intro spdx_prefixed(2) [where p = "''p''"]) simp_all
  have "CHR ''@'' \<notin> set (drop i n)" for i
    using assms by (auto simp: clean_name_def dest: in_set_dropD)
  with trim assms show ?thesis
    by (simp add: stripEmailParenthetical_def clean_name_def Let_def split: option.split)
qed

lemma fold_head: "byte a < 0x80 \<Longrightarrow> hd (map fold_rune (chunks (a # s))) = [lower_char a]"
  by (simp add: chunks_ascii_Cons fold_rune_def)

lemma EqualFold_head:
  "byte a < 0x80 \<Longrightarrow> byte b < 0x80 \<Longrightarrow> lower_char a \<noteq> lower_char b \<Longrightarrow> \<not> EqualFold_ascii (a # s) (b # t)"
  by (auto simp: EqualFold_ascii_def dest!: arg_cong [where f = hd] simp: fold_head simp del: list.map)

lemma ParseSPDXContact_organization:
  assumes "clean_name n" and "n \<noteq> []"
  shows "ParseSPDXContact L (''Organization: '' @ n)
    = Some \<lparr>ContactKind = ContactKindOrganization, ContactName = n, ContactURL = []\<rparr>"
proof -
  have head: "\<not> EqualFold_ascii (''Organization: '' @ n) spdxNoAssertion"
    using EqualFold_head [of "CHR ''O''" "CHR ''N''"] by (simp add: lower_char_def)
  have "is_ascii ''Organization:''" "\<not> IsSpace [hd ''Organization:'']"
    by (simp_all add: is_ascii_def IsSpace_def space_runes_def)
  then have trim: "TrimSpace (''Organization: '' @ n) = ''Organization: '' @ n"
    using spdx_prefixed(1) [OF assms, of "''Organization:''"] by simp
  have prefix: "hasCaseInsensitivePrefix (''Organization: '' @ n) ''Organization:''"
    by (simp add: hasCaseInsensitivePrefix_def EqualFold_ascii_def)
  have "length (''Organization: '' @ n) \<le> maxSPDXContactLength"
    using assms by (simp add: clean_name_def)
  with head trim prefix stripEmailParenthetical_clean [OF assms]
    contact_of_clean [OF ParseContactKind_vocab(1) _ assms]
  show ?thesis by (simp add: ParseSPDXContact_def Let_def)
qed

lemma ParseSPDXContact_person:
  assumes "clean_name n" and "n \<noteq> []"
  shows "ParseSPDXContact L (''Person: '' @ n)
    = Some \<lparr>ContactKind = ContactKindPerson, ContactName = n, ContactURL = []\<rparr>"
proof -
  have head: "\<not> EqualFold_ascii (''Person: '' @ n) spdxNoAssertion"
    using EqualFold_head [of "CHR ''P''" "CHR ''N''"] by (simp add: lower_char_def)
  have "is_ascii ''Person:''" "\<not> IsSpace [hd ''Person:'']"
    by (simp_all add: is_ascii_def IsSpace_def space_runes_def)
  then have trim: "TrimSpace (''Person: '' @ n) = ''Person: '' @ n"
    using spdx_prefixed(1) [OF assms, of "''Person:''"] by simp
  have prefix: "hasCaseInsensitivePrefix (''Person: '' @ n) ''Person:''"
    "\<not> hasCaseInsensitivePrefix (''Person: '' @ n) ''Organization:''"
    using EqualFold_head [of "CHR ''P''" "CHR ''O''"]
    by (simp_all add: hasCaseInsensitivePrefix_def EqualFold_ascii_def [of "''Person:''" "''Person:''"] lower_char_def)
  have "length (''Person: '' @ n) \<le> maxSPDXContactLength"
    using assms by (simp add: clean_name_def)
  with head trim prefix stripEmailParenthetical_clean [OF assms]
    contact_of_clean [OF ParseContactKind_vocab(2) _ assms]
  show ?thesis by (simp add: ParseSPDXContact_def Let_def)
qed

lemma ParseSPDXContact_noassertion: "ParseSPDXContact L spdxNoAssertion
    = Some \<lparr>ContactKind = ContactKindNoAssertion, ContactName = [], ContactURL = []\<rparr>"
proof -
  have "TrimSpace spdxNoAssertion = spdxNoAssertion" by code_simp
  then show ?thesis by (simp add: ParseSPDXContact_def Let_def EqualFold_ascii_def)
qed

section \<open>Properties\<close>

text \<open>The gate of descriptions and copyright notices is a fixed point within its bound: a
  value that survived one hop survives the next unchanged, and it is valid UTF-8 with no control
  character other than line breaks and tabs. Both halves matter: repairing a bad byte makes the
  value longer, so the bound is checked on the output.\<close>

lemma normalizePublishedText_fixed_point:
  "normalizePublishedText (normalizePublishedText value limit) limit = normalizePublishedText value limit
   \<and> length (normalizePublishedText value limit) \<le> limit
   \<and> ValidString (normalizePublishedText value limit)
   \<and> list_all keep_text_rune (chunks (normalizePublishedText value limit))"
proof -
  note clean = normalizePublishedText_clean [of "value" limit]
  then have "normalizePublishedText (normalizePublishedText value limit) limit = normalizePublishedText value limit"
    by (intro text_clean_fixed) blast+
  moreover have "ValidString (normalizePublishedText value limit)"
    using clean by (auto simp: ValidString_def list_all_iff wf_rune_def)
  ultimately show ?thesis using clean by (auto simp: list_all_iff)
qed

text \<open>No email address in a published contact: the name that passes the gate has no \<open>@\<close>, no
  control character and at most 256 bytes, it is non-empty unless the contact is NOASSERTION, and
  a URL that survives is a normalized citation in which no address is found.\<close>

lemma Contact_Normalized_no_address:
  assumes "Contact_Normalized L c = Some n"
  shows "CHR ''@'' \<notin> set (ContactName n) \<and> \<not> ContainsControlChar (ContactName n)
    \<and> length (ContactName n) \<le> maxContactNameLength
    \<and> (ContactName n = [] \<longleftrightarrow> ContactKind n = ContactKindNoAssertion)
    \<and> (ContactURL n = [] \<or> (NormalizeURL L (ContactURL c) URLFormReference = Some (ContactURL n)
         \<and> \<not> urlCarriesAddress L (ContactURL n)))"
  using Contact_Normalized_fields [OF assms] by (auto simp: clean_name_def)

text \<open>The SPDX supplier form reads back: a contact that has an SPDX rendering, written and
  parsed again, is the same kind and the same name. Its URL is lost, SPDX has no slot for one.\<close>

lemma SPDX_contact_round_trip:
  assumes "Contact_Normalized L c = Some n" and "Contact_SPDXString L c \<noteq> []"
  shows "ParseSPDXContact L (Contact_SPDXString L c) = Some (n\<lparr>ContactURL := []\<rparr>)"
proof -
  note n = Contact_Normalized_fields [OF assms(1)]
  from assms n consider
      "ContactKind n = ContactKindNoAssertion" "Contact_SPDXString L c = spdxNoAssertion"
    | "ContactKind n = ContactKindOrganization" "Contact_SPDXString L c = ''Organization: '' @ ContactName n"
    | "ContactKind n = ContactKindPerson" "Contact_SPDXString L c = ''Person: '' @ ContactName n"
    by (fastforce simp: Contact_SPDXString_def split: if_splits)
  then show ?thesis
  proof cases
    case 1
    with n show ?thesis by (simp add: ParseSPDXContact_noassertion)
  next
    case 2
    with n have "clean_name (ContactName n)" "ContactName n \<noteq> []" by simp_all
    from ParseSPDXContact_organization [OF this, of L] 2 show ?thesis by (cases n) simp
  next
    case 3
    with n have "clean_name (ContactName n)" "ContactName n \<noteq> []" by simp_all
    from ParseSPDXContact_person [OF this, of L] 3 show ?thesis by (cases n) simp
  qed
qed

end
