(* ===== verification/Purl.thy ===== *)
theory Purl
  imports Contacts
begin

text \<open>
  Package URLs, \<^verbatim>\<open>purlkit\<close>: parsing and building around the third-party \<open>packageurl-go\<close> (a field
  of the library record), the boundary policies applied on every path (\<open>normalizeAndRender\<close>),
  type profiles, the split between identity and evidence qualifiers, and the vocabularies that
  map ecosystems, package managers and package types to package-URL types and back. Errors are
  values of \<open>purl_error\<close>.
\<close>

abbreviation purl_maxInputSize :: nat where "purl_maxInputSize \<equiv> 1048576"

datatype purl_error = ErrInvalidPURL | RequiresNamespace string | ProhibitsNamespace string
  | RequiresQualifier string string

definition TrimFunc :: "(string \<Rightarrow> bool) \<Rightarrow> string \<Rightarrow> string" where
  "TrimFunc P s = concat (rev (dropWhile P (rev (dropWhile P (chunks s)))))"

section \<open>Boundary policies\<close>

definition trimPathBoundary :: "string \<Rightarrow> string" where
  "trimPathBoundary value = TrimFunc (\<lambda>r. r = ''/'' \<or> IsSpace r) value"

definition restoreNPMScope :: "purl \<Rightarrow> purl" where
  "restoreNPMScope p =
     (if \<not> EqualFold_ascii (TrimSpace (PType p)) ''npm'' then p
      else (let namespace = TrimSpace (Namespace p) in
            if namespace \<noteq> [] \<and> \<not> HasPrefix namespace ''@'' \<and> \<not> HasPrefix (ToLower namespace) ''%40''
            then p\<lparr>Namespace := CHR ''@'' # namespace\<rparr> else p))"

definition canonicalPyPIVersion :: "library \<Rightarrow> string \<Rightarrow> string" where
  "canonicalPyPIVersion L version =
     (let trimmed = TrimSpace version in
      if trimmed = [] then version
      else (case pep440 L trimmed of
              None \<Rightarrow> version
            | Some rendered \<Rightarrow> if rendered \<noteq> [] then rendered else version))"

definition normalizeAndRender :: "library \<Rightarrow> purl \<Rightarrow> (purl \<times> string) option" where
  "normalizeAndRender L p =
     (let p = p\<lparr>Namespace := trimPathBoundary (Namespace p), Subpath := trimPathBoundary (Subpath p)\<rparr>;
          p = restoreNPMScope p
      in (case purl_Normalize L p of
            None \<Rightarrow> None
          | Some p \<Rightarrow>
              (let p = (if PType p = ''pypi'' then p\<lparr>PVersion := canonicalPyPIVersion L (PVersion p)\<rparr> else p) in
               if TrimSpace (PName p) = [] then None
               else (let rendered = purl_ToString L p in
                     if length rendered > purl_maxInputSize then None else Some (p, rendered)))))"

section \<open>Parse, Build and what is derived from them\<close>

definition fromPackageURL :: "purl \<Rightarrow> purl" where
  "fromPackageURL p =
     p\<lparr>Qualifiers := sort_key Key (map (\<lambda>q. q\<lparr>Key := ToLower (Key q)\<rparr>) (Qualifiers p))\<rparr>"

definition toLibQualifiers :: "qualifier list \<Rightarrow> qualifier list" where
  "toLibQualifiers qualifiers =
     sort_key Key (map (\<lambda>q. q\<lparr>Key := TrimSpace (ToLower (Key q))\<rparr>) qualifiers)"

definition purl_Parse :: "library \<Rightarrow> string \<Rightarrow> purl_error + purl" where
  "purl_Parse L value =
     (let value = TrimSpace value in
      if value = [] \<or> length value > purl_maxInputSize then Inl ErrInvalidPURL
      else (case purl_FromString L value of
              None \<Rightarrow> Inl ErrInvalidPURL
            | Some parsed \<Rightarrow>
                (case normalizeAndRender L parsed of
                   None \<Rightarrow> Inl ErrInvalidPURL
                 | Some (parsed, _) \<Rightarrow> Inr (fromPackageURL parsed))))"

definition purl_Build :: "library \<Rightarrow> purl \<Rightarrow> purl_error + string" where
  "purl_Build L p =
     (let purlType = TrimSpace (ToLower (PType p)); name = TrimSpace (PName p) in
      if purlType = [] \<or> name = [] then Inl ErrInvalidPURL
      else if list_ex (\<lambda>q. TrimSpace (Key q) = []) (Qualifiers p) then Inl ErrInvalidPURL
      else (case normalizeAndRender L
                   \<lparr>PType = purlType, Namespace = TrimSpace (Namespace p), PName = name,
                    PVersion = TrimSpace (PVersion p), Qualifiers = toLibQualifiers (Qualifiers p),
                    Subpath = TrimSpace (Subpath p)\<rparr> of
              None \<Rightarrow> Inl ErrInvalidPURL
            | Some (_, rendered) \<Rightarrow> Inr rendered))"

definition purl_String :: "library \<Rightarrow> purl \<Rightarrow> string" where
  "purl_String L p = (case purl_Build L p of Inl _ \<Rightarrow> [] | Inr rendered \<Rightarrow> rendered)"

definition Canonicalize :: "library \<Rightarrow> string \<Rightarrow> string" where
  "Canonicalize L value = (case purl_Parse L value of Inl _ \<Rightarrow> [] | Inr parsed \<Rightarrow> purl_String L parsed)"

definition purl_Base :: "library \<Rightarrow> string \<Rightarrow> string" where
  "purl_Base L value =
     (case purl_Parse L value of Inl _ \<Rightarrow> []
      | Inr parsed \<Rightarrow> purl_String L (parsed\<lparr>PVersion := [], Qualifiers := [], Subpath := []\<rparr>))"

definition purl_Canonical :: "library \<Rightarrow> string \<Rightarrow> purl \<Rightarrow> string" where
  "purl_Canonical L existing p =
     (let canonical = Canonicalize L existing in
      if canonical \<noteq> [] then canonical
      else (case purl_Build L p of Inl _ \<Rightarrow> [] | Inr built \<Rightarrow> built))"

definition WithoutVersion :: "library \<Rightarrow> string \<Rightarrow> string" where
  "WithoutVersion L value =
     (case purl_Parse L value of Inl _ \<Rightarrow> [] | Inr parsed \<Rightarrow> purl_String L (parsed\<lparr>PVersion := []\<rparr>))"

section \<open>Type profiles\<close>

record type_profile =
  namespaceRequired :: bool
  namespaceProhibited :: bool
  requiredQualifiers :: "string list"

definition typeProfiles :: "(string, type_profile) gomap" where
  "typeProfiles =
     map (\<lambda>t. (t, \<lparr>namespaceRequired = True, namespaceProhibited = False, requiredQualifiers = []\<rparr>))
       [''alpm'', ''apk'', ''bitbucket'', ''composer'', ''deb'', ''git'', ''github'', ''huggingface'',
        ''maven'', ''qpkg'', ''rpm'']
   @ map (\<lambda>t. (t, \<lparr>namespaceRequired = False, namespaceProhibited = True, requiredQualifiers = []\<rparr>))
       [''bazel'', ''bitnami'', ''cargo'', ''cocoapods'', ''conda'', ''cran'', ''gem'', ''hackage'',
        ''mlflow'', ''nuget'', ''oci'', ''opam'', ''pub'', ''pypi'']
   @ [(''swid'', \<lparr>namespaceRequired = False, namespaceProhibited = False, requiredQualifiers = [''tag_id'']\<rparr>)]"

definition purl_Validate :: "library \<Rightarrow> purl \<Rightarrow> purl_error option" where
  "purl_Validate L p =
     (case purl_Build L p of Inl err \<Rightarrow> Some err
      | Inr rendered \<Rightarrow>
         (case purl_Parse L rendered of Inl err \<Rightarrow> Some err
          | Inr canonical \<Rightarrow>
             (case mget typeProfiles (PType canonical) of None \<Rightarrow> None
              | Some profile \<Rightarrow>
                 if namespaceRequired profile \<and> Namespace canonical = []
                 then Some (RequiresNamespace (PType canonical))
                 else if namespaceProhibited profile \<and> Namespace canonical \<noteq> []
                 then Some (ProhibitsNamespace (PType canonical))
                 else map_option (RequiresQualifier (PType canonical))
                   (find (\<lambda>required. \<not> list_ex (\<lambda>q. Key q = required) (Qualifiers canonical))
                     (requiredQualifiers profile)))))"

definition ValidateString :: "library \<Rightarrow> string \<Rightarrow> purl_error option" where
  "ValidateString L value =
     (case purl_Parse L value of Inl err \<Rightarrow> Some err | Inr parsed \<Rightarrow> purl_Validate L parsed)"

section \<open>Identity and evidence\<close>

definition evidenceQualifierKeys :: "string list" where
  "evidenceQualifierKeys = [''repository_url'', ''download_url'', ''vcs_url'']"

definition EvidenceQualifierKeys :: "string list" where
  "EvidenceQualifierKeys = sort evidenceQualifierKeys"

definition IsEvidenceQualifierKey :: "string \<Rightarrow> bool" where
  "IsEvidenceQualifierKey key \<longleftrightarrow> ToLower (TrimSpace key) \<in> set evidenceQualifierKeys"

record identity_split =
  Identity :: purl
  Evidence :: "qualifier list"

definition SplitIdentity :: "purl \<Rightarrow> identity_split" where
  "SplitIdentity p =
     \<lparr>Identity = p\<lparr>Qualifiers := filter (\<lambda>q. \<not> IsEvidenceQualifierKey (Key q)) (Qualifiers p)\<rparr>,
      Evidence = filter (\<lambda>q. IsEvidenceQualifierKey (Key q)) (Qualifiers p)\<rparr>"

definition IdentityForm :: "library \<Rightarrow> string \<Rightarrow> string" where
  "IdentityForm L value =
     (case purl_Parse L value of Inl _ \<Rightarrow> [] | Inr parsed \<Rightarrow> purl_String L (Identity (SplitIdentity parsed)))"

section \<open>Vocabularies\<close>

text \<open>The explicit switch of \<open>TypeForValues\<close>, as a table.\<close>

definition explicitTypes :: "(string, string) gomap" where
  "explicitTypes =
     [(''nuget'', ''nuget''), (''dotnet'', ''nuget''), (''cargo'', ''cargo''),
      (''rust'', ''cargo''), (''pub'', ''pub''), (''dart'', ''pub''),
      (''cocoapods'', ''cocoapods''), (''swiftpm'', ''swift''),
      (''github-actions'', ''githubactions''), (''githubactions'', ''githubactions''),
      (''homebrew'', ''brew''), (''brew'', ''brew''), (''conan'', ''conan''), (''cpp'', ''conan''),
      (''mix'', ''hex''), (''hex'', ''hex''), (''elixir'', ''hex''), (''rebar'', ''hex''),
      (''otp'', ''otp''), (''haskell'', ''hackage''), (''cabal'', ''hackage''),
      (''stack'', ''hackage''), (''hackage'', ''hackage''), (''r'', ''cran''),
      (''r-package'', ''cran''), (''cran'', ''cran''), (''ocaml'', ''opam''), (''opam'', ''opam''),
      (''dpkg'', ''deb''), (''deb'', ''deb''), (''sbt'', ''maven''), (''scala'', ''maven''),
      (''ruby'', ''gem''), (''gem'', ''gem''), (''rubygems'', ''gem''), (''bundler'', ''gem''),
      (''php'', ''composer''), (''composer'', ''composer''), (''python'', ''pypi''),
      (''pypi'', ''pypi''), (''pip'', ''pypi''), (''pipenv'', ''pypi''), (''poetry'', ''pypi''),
      (''uv'', ''pypi''), (''pdm'', ''pypi''), (''setuppy'', ''pypi''), (''setup.py'', ''pypi''),
      (''pnpm'', ''npm''), (''yarn'', ''npm''), (''bun'', ''npm''), (''gradle'', ''maven''),
      (''gemspec'', ''gem'')]"

fun first_explicit :: "string list \<Rightarrow> string option" where
  "first_explicit [] = None"
| "first_explicit (v # vs) =
     (case mget explicitTypes (ToLower (TrimSpace v)) of Some t \<Rightarrow> Some t | None \<Rightarrow> first_explicit vs)"

fun first_verbatim :: "string list \<Rightarrow> string" where
  "first_verbatim [] = ''generic''"
| "first_verbatim (v # vs) =
     (let normalized = ToLower (TrimSpace v) in
      if normalized = [] then first_verbatim vs
      else if normalized = ''go'' \<or> normalized = ''gomod'' then ''golang''
      else normalized)"

definition TypeForValues :: "string list \<Rightarrow> string" where
  "TypeForValues vs = (case first_explicit vs of Some t \<Rightarrow> t | None \<Rightarrow> first_verbatim vs)"

definition purlTypeEcosystems :: "(string, string) gomap" where
  "purlTypeEcosystems =
     [(''golang'', ''go''), (''brew'', ''homebrew''), (''otp'', ''erlang''),
      (''hackage'', ''haskell''), (''cran'', ''r''), (''opam'', ''ocaml''), (''deb'', ''dpkg''),
      (''cargo'', ''rust''), (''nuget'', ''dotnet''), (''pypi'', ''python''), (''gem'', ''ruby''),
      (''composer'', ''php''), (''pub'', ''dart''), (''conan'', ''cpp''),
      (''cocoapods'', ''swift''), (''swift'', ''swift''), (''maven'', ''maven''),
      (''githubactions'', ''github-actions'')]"

definition EcosystemForType :: "string \<Rightarrow> string option" where
  "EcosystemForType purlType = mget purlTypeEcosystems (ToLower (TrimSpace purlType))"

definition canonicalEcosystems :: "(string, string) gomap" where
  "canonicalEcosystems =
     [(''npm'', ''npm''), (''pnpm'', ''npm''), (''yarn'', ''npm''), (''bun'', ''npm''),
      (''go'', ''go''), (''gomod'', ''go''), (''golang'', ''go''), (''python'', ''python''),
      (''pip'', ''python''), (''pipenv'', ''python''), (''poetry'', ''python''),
      (''uv'', ''python''), (''pdm'', ''python''), (''setup.py'', ''python''),
      (''setuppy'', ''python''), (''pypi'', ''python''), (''rust'', ''rust''),
      (''cargo'', ''rust''), (''maven'', ''maven''), (''gradle'', ''maven''),
      (''dotnet'', ''dotnet''), (''nuget'', ''dotnet''), (''dart'', ''dart''), (''pub'', ''dart''),
      (''swift'', ''swift''), (''swiftpm'', ''swift''), (''cocoapods'', ''swift''),
      (''cpp'', ''cpp''), (''conan'', ''cpp''), (''elixir'', ''elixir''), (''mix'', ''elixir''),
      (''erlang'', ''erlang''), (''rebar'', ''erlang''), (''otp'', ''erlang''),
      (''scala'', ''scala''), (''sbt'', ''scala''), (''php'', ''php''), (''composer'', ''php''),
      (''packagist'', ''php''), (''pear'', ''php''), (''ruby'', ''ruby''), (''gem'', ''ruby''),
      (''bundler'', ''ruby''), (''rubygems'', ''ruby''), (''gemspec'', ''ruby''),
      (''haskell'', ''haskell''), (''cabal'', ''haskell''), (''stack'', ''haskell''),
      (''hackage'', ''haskell''), (''r'', ''r''), (''r-package'', ''r''), (''cran'', ''r''),
      (''ocaml'', ''ocaml''), (''opam'', ''ocaml''), (''dpkg'', ''dpkg''), (''deb'', ''dpkg''),
      (''github-actions'', ''github-actions''), (''githubactions'', ''github-actions''),
      (''lua'', ''lua''), (''luarocks'', ''lua''), (''prolog'', ''prolog''),
      (''swipl-pack'', ''prolog''), (''alpm'', ''alpm''), (''apk'', ''apk''),
      (''conda'', ''conda''), (''homebrew'', ''homebrew''), (''brew'', ''homebrew''),
      (''nix'', ''nix''), (''portage'', ''portage''), (''rpm'', ''rpm''), (''sbom'', ''sbom''),
      (''snap'', ''snap''), (''terraform'', ''terraform''), (''wordpress'', ''wordpress''),
      (''other'', ''other'')]"

fun CanonicalEcosystem :: "string list \<Rightarrow> string option" where
  "CanonicalEcosystem [] = None"
| "CanonicalEcosystem (v # vs) =
     (case mget canonicalEcosystems (ToLower (TrimSpace v)) of
        Some canonical \<Rightarrow> Some canonical | None \<Rightarrow> CanonicalEcosystem vs)"

definition cut :: "char \<Rightarrow> string \<Rightarrow> (string \<times> string) option" where
  "cut sep s = (if sep \<in> set s
     then Some (takeWhile (\<lambda>c. c \<noteq> sep) s, tl (dropWhile (\<lambda>c. c \<noteq> sep) s)) else None)"

definition cut_last :: "char \<Rightarrow> string \<Rightarrow> (string \<times> string) option" where
  "cut_last sep s = map_option (\<lambda>(a, b). (rev b, rev a)) (cut sep (rev s))"

definition SplitEcosystemName :: "string \<Rightarrow> string \<Rightarrow> string \<times> string" where
  "SplitEcosystemName ecosystem ecosystemName =
     (let value = TrimSpace ecosystemName;
          pair = (\<lambda>r. case r of None \<Rightarrow> ([], value)
                    | Some (a, b) \<Rightarrow> if a = [] \<or> b = [] then ([], value) else (a, b))
      in if value = [] then ([], [])
         else (case CanonicalEcosystem [ecosystem] of
                 None \<Rightarrow> ([], value)
               | Some canonical \<Rightarrow>
                   if canonical = ''npm''
                   then (if \<not> HasPrefix value ''@'' then ([], value) else pair (cut CHR ''/'' (tl value)))
                   else if canonical = ''maven'' \<or> canonical = ''scala'' then pair (cut CHR '':'' value)
                   else if canonical = ''go'' \<or> canonical = ''php'' \<or> canonical = ''swift''
                           \<or> canonical = ''github-actions''
                   then pair (cut_last CHR ''/'' value)
                   else ([], value)))"

end
