(* ===== verification/References.thy ===== *)
theory References
  imports Digests Purl
begin

text \<open>
  External references, \<^verbatim>\<open>model/external_reference.go\<close>: the category axis, the grammar a
  reference's locator is held to (derived from category and type, never from the value), the
  CPE, IRI and package-URL gates, and the union \<open>MergeExternalReferences\<close>. The SPDX and
  CycloneDX type spellings are constants of third-party packages and come from the library
  record.
\<close>

section \<open>Categories\<close>

type_synonym reference_category = string

abbreviation CategoryUnknown :: reference_category where "CategoryUnknown \<equiv> []"
abbreviation CategorySecurity :: reference_category where "CategorySecurity \<equiv> ''security''"
abbreviation CategoryPackageManager :: reference_category where "CategoryPackageManager \<equiv> ''package-manager''"
abbreviation CategoryPersistentID :: reference_category where "CategoryPersistentID \<equiv> ''persistent-id''"
abbreviation CategoryOther :: reference_category where "CategoryOther \<equiv> ''other''"

datatype category_error = CategoryTooLong nat | UnsupportedCategory string

definition parse_category :: "string \<Rightarrow> category_error + reference_category" where
  "parse_category value =
     (if length value > maxVocabularyTokenLength then Inl (CategoryTooLong (length value))
      else (let normalized = ToLower (TrimSpace value) in
            if normalized \<in> {CategoryUnknown, CategorySecurity, CategoryPackageManager,
                             CategoryPersistentID, CategoryOther}
            then Inr normalized else Inl (UnsupportedCategory value)))"

text \<open>The second look at the underscore spelling: after it no underscore is left, so the code's
  recursive call makes no third.\<close>

definition ParseExternalReferenceCategory :: "string \<Rightarrow> category_error + reference_category" where
  "ParseExternalReferenceCategory value =
     (case parse_category value of
        Inr category \<Rightarrow> Inr category
      | Inl (CategoryTooLong n) \<Rightarrow> Inl (CategoryTooLong n)
      | Inl (UnsupportedCategory v) \<Rightarrow>
          (let normalized = ToLower (TrimSpace value);
               underscored = map (\<lambda>c. if c = CHR ''_'' then CHR ''-'' else c) normalized
           in if underscored \<noteq> normalized then parse_category underscored
              else Inl (UnsupportedCategory v)))"

definition category_SPDXName :: "library \<Rightarrow> reference_category \<Rightarrow> string" where
  "category_SPDXName L c =
     (if c = CategorySecurity then spdx_category L ''CategorySecurity''
      else if c = CategoryPackageManager then spdx_category L ''CategoryPackageManager''
      else if c = CategoryPersistentID then spdx_category L ''CategoryPersistentId''
      else if c = CategoryOther then spdx_category L ''CategoryOther''
      else [])"

section \<open>Locator kinds\<close>

datatype locator_kind = LocatorKindURL | LocatorKindPURL | LocatorKindCPE22 | LocatorKindCPE23
  | LocatorKindIRI | LocatorKindIdentifier

definition normalizeReferenceType :: "string \<Rightarrow> string" where
  "normalizeReferenceType value = ToLower (TrimSpace value)"

definition index_kinds :: "library \<Rightarrow> (string \<times> locator_kind) list \<Rightarrow> (string, locator_kind) gomap" where
  "index_kinds L rows =
     foldl (\<lambda>m (constant, kind). mput (normalizeReferenceType (spdx_reference_type L constant)) kind m) [] rows"

definition locatorKindByReference :: "library \<Rightarrow> (reference_category, (string, locator_kind) gomap) gomap" where
  "locatorKindByReference L =
     [(CategorySecurity, index_kinds L
        [(''TypeSecurityCPE23Type'', LocatorKindCPE23), (''TypeSecurityCPE22Type'', LocatorKindCPE22),
         (''TypeSecurityAdvisory'', LocatorKindURL), (''TypeSecurityFix'', LocatorKindURL),
         (''TypeSecurityUrl'', LocatorKindURL), (''TypeSecuritySwid'', LocatorKindIdentifier)]),
      (CategoryPackageManager, index_kinds L
        [(''TypePackageManagerPURL'', LocatorKindPURL),
         (''TypePackageManagerMavenCentral'', LocatorKindIdentifier),
         (''TypePackageManagerNpm'', LocatorKindIdentifier),
         (''TypePackageManagerNuGet'', LocatorKindIdentifier),
         (''TypePackageManagerBower'', LocatorKindIdentifier)]),
      (CategoryPersistentID, index_kinds L
        [(''TypePersistentIdSwh'', LocatorKindIdentifier),
         (''TypePersistentIdGitoid'', LocatorKindIdentifier)])]"

definition spdxTypeCategories :: "library \<Rightarrow> (string, reference_category) gomap" where
  "spdxTypeCategories L =
     foldl (\<lambda>owners (category, types). foldl (\<lambda>owners (t, _). mput t category owners) owners types)
       [] (locatorKindByReference L)"

definition contradictsItsCategory :: "library \<Rightarrow> reference_category \<Rightarrow> string \<Rightarrow> bool" where
  "contradictsItsCategory L category referenceType =
     (if category = CategoryUnknown then False
      else (case mget (spdxTypeCategories L) (normalizeReferenceType referenceType) of
              None \<Rightarrow> False | Some owner \<Rightarrow> owner \<noteq> category))"

definition LocatorKindFor :: "library \<Rightarrow> reference_category \<Rightarrow> string \<Rightarrow> locator_kind" where
  "LocatorKindFor L category referenceType =
     (case mget (locatorKindByReference L) category of
        Some kinds \<Rightarrow>
          (case mget kinds (normalizeReferenceType referenceType) of
             Some kind \<Rightarrow> kind | None \<Rightarrow> LocatorKindIdentifier)
      | None \<Rightarrow> if category = CategoryUnknown then LocatorKindIRI else LocatorKindIdentifier)"

definition indexReferenceTypes :: "string list \<Rightarrow> (string, string) gomap" where
  "indexReferenceTypes spellings = foldl (\<lambda>m s. mput (normalizeReferenceType s) s m) [] spellings"

definition canonicalSPDXReferenceTypes :: "library \<Rightarrow> (string, string) gomap" where
  "canonicalSPDXReferenceTypes L =
     indexReferenceTypes (map (spdx_reference_type L)
       [''TypeSecurityCPE23Type'', ''TypeSecurityCPE22Type'', ''TypeSecurityAdvisory'', ''TypeSecurityFix'',
        ''TypeSecurityUrl'', ''TypeSecuritySwid'', ''TypePackageManagerPURL'',
        ''TypePackageManagerMavenCentral'', ''TypePackageManagerNpm'', ''TypePackageManagerNuGet'',
        ''TypePackageManagerBower'', ''TypePersistentIdSwh'', ''TypePersistentIdGitoid''])"

definition canonicalReferenceType :: "library \<Rightarrow> reference_category \<Rightarrow> string \<Rightarrow> string" where
  "canonicalReferenceType L category referenceType =
     (let registry = (if category \<noteq> CategoryUnknown then canonicalSPDXReferenceTypes L
                      else indexReferenceTypes (cdx_reference_types L))
      in (case mget registry (normalizeReferenceType referenceType) of
            Some spelled \<Rightarrow> spelled | None \<Rightarrow> referenceType))"

section \<open>Locator grammars\<close>

abbreviation maxLocatorLength :: nat where "maxLocatorLength \<equiv> maxPublishedURLLength"
abbreviation maxReferenceTypeLength :: nat where "maxReferenceTypeLength \<equiv> 64"
abbreviation maxReferenceCommentLength :: nat where "maxReferenceCommentLength \<equiv> 4096"

definition isHexDigit :: "char \<Rightarrow> bool" where
  "isHexDigit b \<longleftrightarrow> (48 \<le> byte b \<and> byte b \<le> 57) \<or> (97 \<le> byte b \<and> byte b \<le> 102)
     \<or> (65 \<le> byte b \<and> byte b \<le> 70)"

fun hasValidPercentEscapes :: "string \<Rightarrow> bool" where
  "hasValidPercentEscapes [] = True"
| "hasValidPercentEscapes (c # r) =
     (if c \<noteq> CHR ''%'' then hasValidPercentEscapes r
      else (case r of
              h # l # s \<Rightarrow> isHexDigit h \<and> isHexDigit l \<and> hasValidPercentEscapes s
            | _ \<Rightarrow> False))"

text \<open>The code point of a \<open>range\<close> element; a byte that does not decode is U+FFFD.\<close>

definition rune_value :: "string \<Rightarrow> nat" where
  "rune_value c =
     (if rune_len c = 0 then 0xFFFD
      else (case c of
              [a] \<Rightarrow> byte a
            | [a, b] \<Rightarrow> (byte a - 0xC0) * 64 + (byte b - 0x80)
            | [a, b, d] \<Rightarrow> (byte a - 0xE0) * 4096 + (byte b - 0x80) * 64 + (byte d - 0x80)
            | [a, b, d, e] \<Rightarrow> (byte a - 0xF0) * 262144 + (byte b - 0x80) * 4096
                + (byte d - 0x80) * 64 + (byte e - 0x80)
            | _ \<Rightarrow> 0xFFFD))"

definition allowedASCIIIRIBytes :: "nat \<Rightarrow> bool" where
  "allowedASCIIIRIBytes b \<longleftrightarrow>
     (97 \<le> b \<and> b \<le> 122) \<or> (65 \<le> b \<and> b \<le> 90) \<or> (48 \<le> b \<and> b \<le> 57)
   \<or> b \<in> {45, 46, 95, 126, 58, 47, 63, 35, 91, 93, 64, 33, 36, 38, 39, 40, 41, 42, 43, 44, 59, 61, 37}"

definition ucscharRanges :: "(nat \<times> nat) list" where
  "ucscharRanges =
     [(0xA0, 0xD7FF), (0xF900, 0xFDCF), (0xFDF0, 0xFFEF), (0x10000, 0x1FFFD), (0x20000, 0x2FFFD),
      (0x30000, 0x3FFFD), (0x40000, 0x4FFFD), (0x50000, 0x5FFFD), (0x60000, 0x6FFFD),
      (0x70000, 0x7FFFD), (0x80000, 0x8FFFD), (0x90000, 0x9FFFD), (0xA0000, 0xAFFFD),
      (0xB0000, 0xBFFFD), (0xC0000, 0xCFFFD), (0xD0000, 0xDFFFD), (0xE1000, 0xEFFFD)]"

definition isUCSChar :: "nat \<Rightarrow> bool" where
  "isUCSChar r = list_ex (\<lambda>(lo, hi). lo \<le> r \<and> r \<le> hi) ucscharRanges"

definition hasLegalIRICharacters :: "string \<Rightarrow> bool" where
  "hasLegalIRICharacters value =
     list_all (\<lambda>c. let r = rune_value c in if r < 0x80 then allowedASCIIIRIBytes r else isUCSChar r)
       (chunks value)"

definition sensitiveIRISchemes :: "string list" where
  "sensitiveIRISchemes = [''file'', ''jar'', ''data'', ''javascript'', ''blob'', ''mailto'', ''tel'', ''sms'']"

abbreviation bomLinkNamespace :: string where "bomLinkNamespace \<equiv> ''urn:cdx:''"

definition normalizeIRIReference :: "library \<Rightarrow> string \<Rightarrow> string option" where
  "normalizeIRIReference L locator =
     (if \<not> isBoundedToken locator then None
      else if \<not> hasValidPercentEscapes locator then None
      else if \<not> hasLegalIRICharacters locator then None
      else (case url_Parse L locator of
              None \<Rightarrow> None
            | Some parsed \<Rightarrow>
                if User parsed \<noteq> None then None
                else if Scheme parsed = [] then (if HasPrefix locator ''//'' then None else Some locator)
                else if ToLower (Scheme parsed) \<in> set sensitiveIRISchemes then None
                else if HasPrefix (ToLower locator) bomLinkNamespace then None
                else Some locator))"

definition isWebScheme :: "string \<Rightarrow> bool" where
  "isWebScheme locator =
     (case cut CHR '':'' locator of
        None \<Rightarrow> False | Some (scheme, _) \<Rightarrow> ToLower scheme \<in> {''http'', ''https''})"

text \<open>\<open>isEscapedAt\<close> by parity of the run of backslashes before the byte, carried along the scan:
  the number of fields is one more than the number of unescaped colons.\<close>

fun split_unescaped :: "bool \<Rightarrow> string \<Rightarrow> string \<Rightarrow> string list" where
  "split_unescaped escaped current [] = [current]"
| "split_unescaped escaped current (c # r) =
     (if c = CHR '':'' \<and> \<not> escaped then current # split_unescaped False [] r
      else split_unescaped (byte c = 92 \<and> \<not> escaped) (current @ [c]) r)"

definition splitUnescaped :: "string \<Rightarrow> string list" where
  "splitUnescaped value = split_unescaped False [] value"

definition isEscapedAt :: "string \<Rightarrow> nat \<Rightarrow> bool" where
  "isEscapedAt value index \<longleftrightarrow> odd (length (takeWhile (\<lambda>c. byte c = 92) (rev (take index value))))"

definition countUnescapedColons :: "string \<Rightarrow> nat" where
  "countUnescapedColons value =
     length (filter (\<lambda>i. value ! i = CHR '':'' \<and> \<not> isEscapedAt value i) [0..<length value])"

definition fieldAt :: "string \<Rightarrow> nat \<Rightarrow> string" where
  "fieldAt value index =
     (let fs = splitUnescaped value in if index \<ge> length fs then [] else fs ! index)"

definition isCPEPart :: "string \<Rightarrow> bool" where
  "isCPEPart value \<longleftrightarrow> value \<in> {''a'', ''o'', ''h'', ''*'', ''-''}"

definition isCPE23Locator :: "string \<Rightarrow> bool" where
  "isCPE23Locator value \<longleftrightarrow>
     isBoundedToken value \<and> HasPrefix (ToLower value) ''cpe:2.3:''
     \<and> countUnescapedColons value = 12
     \<and> isCPEPart (fieldAt (ToLower value) 2)
     \<and> [] \<notin> set (drop 2 (splitUnescaped value))"

definition isCPE22Locator :: "string \<Rightarrow> bool" where
  "isCPE22Locator value \<longleftrightarrow>
     isBoundedToken value \<and> HasPrefix (ToLower value) ''cpe:/''
     \<and> (let components = split_on CHR '':'' (drop 5 (ToLower value)) in
        length components \<le> 7 \<and> (hd components = [] \<or> isCPEPart (hd components)))"

definition normalizeLocatorByKind :: "library \<Rightarrow> string \<Rightarrow> locator_kind \<Rightarrow> string option" where
  "normalizeLocatorByKind L locator kind =
     (if locator = [] \<or> length locator > maxLocatorLength then None
      else (case kind of
        LocatorKindURL \<Rightarrow> NormalizeURL L locator URLFormReference
      | LocatorKindIRI \<Rightarrow>
          (case NormalizeURL L locator URLFormReference of
             Some normalized \<Rightarrow> Some normalized
           | None \<Rightarrow> if isWebScheme locator then None
                     else if cdx_IsBOMLink L locator then Some locator
                     else normalizeIRIReference L locator)
      | LocatorKindPURL \<Rightarrow>
          if ValidateString L locator \<noteq> None then None
          else (case purl_Parse L locator of Inl _ \<Rightarrow> None | Inr parsed \<Rightarrow> Some (purl_String L parsed))
      | LocatorKindCPE23 \<Rightarrow> if isCPE23Locator locator then Some locator else None
      | LocatorKindCPE22 \<Rightarrow> if isCPE22Locator locator then Some locator else None
      | LocatorKindIdentifier \<Rightarrow> if isBoundedToken locator then Some locator else None))"

definition normalizeLocator :: "library \<Rightarrow> string \<Rightarrow> locator_kind \<Rightarrow> string option" where
  "normalizeLocator L locator kind =
     (case normalizeLocatorByKind L locator kind of
        None \<Rightarrow> None
      | Some normalized \<Rightarrow> if length normalized > maxLocatorLength then None else Some normalized)"

section \<open>References\<close>

record external_reference =
  Category :: reference_category
  RefType :: string
  Locator :: string
  Comment :: string
  Hashes :: "digest list"

definition ExternalReference_zero :: external_reference where
  "ExternalReference_zero = \<lparr>Category = [], RefType = [], Locator = [], Comment = [], Hashes = []\<rparr>"

definition ExternalReference_Normalized :: "library \<Rightarrow> external_reference \<Rightarrow> external_reference option" where
  "ExternalReference_Normalized L r =
     (case ParseExternalReferenceCategory (Category r) of
        Inl _ \<Rightarrow> None
      | Inr category \<Rightarrow>
          (let comment = NormalizeDescription (Comment r);
               comment = (if length comment > maxReferenceCommentLength then [] else comment);
               rtype = TrimSpace (RefType r)
           in if rtype = [] \<or> length rtype > maxReferenceTypeLength \<or> \<not> isBoundedToken rtype then None
              else (let rtype = canonicalReferenceType L category rtype in
                    if contradictsItsCategory L category rtype then None
                    else (case normalizeLocator L (TrimSpace (Locator r)) (LocatorKindFor L category rtype) of
                            None \<Rightarrow> None
                          | Some locator \<Rightarrow>
                              Some \<lparr>Category = category, RefType = rtype, Locator = locator,
                                    Comment = comment, Hashes = mergeDigestSet L [] (Hashes r)\<rparr>))))"

definition ExternalReference_UnmarshalJSON :: "library \<Rightarrow> external_reference \<Rightarrow> external_reference" where
  "ExternalReference_UnmarshalJSON L wire =
     (case ExternalReference_Normalized L wire of None \<Rightarrow> ExternalReference_zero | Some n \<Rightarrow> n)"

definition ExternalReference_MarshalJSON :: "library \<Rightarrow> external_reference \<Rightarrow> external_reference" where
  "ExternalReference_MarshalJSON L r =
     (case ExternalReference_Normalized L r of None \<Rightarrow> ExternalReference_zero | Some n \<Rightarrow> n)"

definition reconcileComments :: "string \<Rightarrow> string \<Rightarrow> string" where
  "reconcileComments existing incoming =
     (if incoming = [] then existing else if existing = [] then incoming
      else if incoming < existing then incoming else existing)"

definition referenceKey :: "external_reference \<Rightarrow> string" where
  "referenceKey r = Category r @ [CHR 0x00] @ RefType r @ [CHR 0x00] @ Locator r"

text \<open>\<open>seen\<close> maps a key to the index of its record in \<open>merged\<close>; the record at that index is the
  one with the key.\<close>

definition fold_reference :: "library \<Rightarrow> external_reference \<Rightarrow> external_reference \<Rightarrow> external_reference" where
  "fold_reference L at normalized =
     at\<lparr>Hashes := mergeDigestSet L (Hashes at) (Hashes normalized),
        Comment := reconcileComments (Comment at) (Comment normalized)\<rparr>"

definition merge_reference ::
  "library \<Rightarrow> external_reference list \<times> (string, nat) gomap \<Rightarrow> external_reference
   \<Rightarrow> external_reference list \<times> (string, nat) gomap" where
  "merge_reference L acc reference =
     (case ExternalReference_Normalized L reference of
        None \<Rightarrow> acc
      | Some normalized \<Rightarrow>
          (let (merged, seen) = acc; key = referenceKey normalized in
           case mget seen key of
             Some at \<Rightarrow> (merged[at := fold_reference L (merged ! at) normalized], seen)
           | None \<Rightarrow> (merged @ [normalized], mput key (length merged) seen)))"

definition MergeExternalReferences ::
  "library \<Rightarrow> external_reference list \<Rightarrow> external_reference list \<Rightarrow> external_reference list" where
  "MergeExternalReferences L existing additions =
     sort_key referenceKey (fst (foldl (merge_reference L) ([], []) (existing @ additions)))"

end
