(* ===== verification/Spdx.thy ===== *)
theory Spdx
  imports Library Merge
begin

text \<open>
  The SPDX licence kit, \<^verbatim>\<open>spdxkit\<close>: the bounds in front of the third-party parser, validity as
  acceptance of a value and of its rendering, classification, deprecated-identifier
  replacement, composition, and licence references (minting, recognition, enumeration and
  boundary-aware replacement). The parser itself is the library record.
\<close>

abbreviation spdx_maxInputSize :: nat where "spdx_maxInputSize \<equiv> 1048576"
abbreviation maxBatchMembers :: nat where "maxBatchMembers \<equiv> 1024"
abbreviation maxParserStructureTokens :: nat where "maxParserStructureTokens \<equiv> 1024"

section \<open>Bounds in front of the parser\<close>

definition isOperatorDelimiter :: "char \<Rightarrow> bool" where
  "isOperatorDelimiter b \<longleftrightarrow> byte b \<in> {32, 9, 10, 13, 40, 41, 43}"

definition operatorDelimited :: "string \<Rightarrow> nat \<Rightarrow> nat \<Rightarrow> bool" where
  "operatorDelimited value start stop \<longleftrightarrow>
     (start = 0 \<or> isOperatorDelimiter (value ! (start - 1)))
   \<or> (stop \<ge> length value \<or> isOperatorDelimiter (value ! stop))"

text \<open>Every position at which an operator word occurs (occurrences may overlap, the scan restarts
  one byte later) and is delimited on at least one side.\<close>

definition operator_mentions :: "string \<Rightarrow> string \<Rightarrow> nat" where
  "operator_mentions value operator =
     length (filter (\<lambda>at. HasPrefix (drop at value) operator
                        \<and> operatorDelimited value at (at + length operator)) [0..<length value])"

definition countOperatorMentions :: "string \<Rightarrow> nat" where
  "countOperatorMentions value = operator_mentions value ''AND'' + operator_mentions value ''OR''"

definition withinParserBounds :: "string \<Rightarrow> bool" where
  "withinParserBounds value \<longleftrightarrow> length value \<le> spdx_maxInputSize \<and>
     length (filter (\<lambda>c. c = CHR ''('') value) + length (filter (\<lambda>c. c = CHR '')'') value)
       + countOperatorMentions value \<le> maxParserStructureTokens"

definition batchWithinByteBounds :: "string list \<Rightarrow> bool" where
  "batchWithinByteBounds values \<longleftrightarrow>
     length values \<le> maxBatchMembers \<and> sum_list (map length values) \<le> spdx_maxInputSize"

section \<open>Validity\<close>

definition normalizeExpression :: "library \<Rightarrow> string \<Rightarrow> string option" where
  "normalizeExpression L value = (if \<not> withinParserBounds value then None else spdx_normalize L value)"

definition validRendering :: "library \<Rightarrow> string \<Rightarrow> bool" where
  "validRendering L value =
     (case normalizeExpression L value of
        None \<Rightarrow> False
      | Some normalized \<Rightarrow> normalizeExpression L normalized \<noteq> None)"

definition spdx_Valid :: "library \<Rightarrow> string \<Rightarrow> bool" where
  "spdx_Valid L expression =
     (let expression = TrimSpace expression in
      if expression = [] then False else validRendering L expression)"

definition validateBounded :: "library \<Rightarrow> string list \<Rightarrow> bool \<times> string list" where
  "validateBounded L values =
     (case spdx_validate L values of
        None \<Rightarrow> (False, values)
      | Some invalid \<Rightarrow> (invalid = [], invalid))"

definition ValidateAll :: "library \<Rightarrow> string list \<Rightarrow> bool \<times> string list" where
  "ValidateAll L values =
     (if values = [] then (True, [])
      else if \<not> batchWithinByteBounds values then (False, values)
      else (let oversized = filter (\<lambda>v. \<not> withinParserBounds v) values;
                bounded = filter withinParserBounds values
            in if bounded = [] then (False, oversized)
               else (let (valid, invalid) = validateBounded L bounded;
                         late = (if length invalid < length bounded
                                 then filter (\<lambda>v. v \<notin> set invalid \<and> \<not> validRendering L v) bounded
                                 else [])
                     in (valid \<and> late = [] \<and> oversized = [], oversized @ invalid @ late))))"

section \<open>Identifiers and classification\<close>

definition Identifier :: "library \<Rightarrow> string \<Rightarrow> string option" where
  "Identifier L value =
     (let value = TrimSpace value in
      if value = [] \<or> length value > spdx_maxInputSize then None
      else if list_ex (\<lambda>c. byte c \<in> {32, 9, 10, 13, 40, 41}) value then None
      else (case spdx_active L value of
              Some canonical \<Rightarrow> Some canonical
            | None \<Rightarrow> spdx_deprecated L value))"

datatype license_class = ClassFreeText | ClassIdentifier | ClassExpression

definition Classify :: "library \<Rightarrow> string \<Rightarrow> license_class" where
  "Classify L value =
     (let value = TrimSpace value in
      if value = [] then ClassFreeText
      else if Identifier L value \<noteq> None then ClassIdentifier
      else if spdx_Valid L value then ClassExpression
      else ClassFreeText)"

definition replacements :: "(string, string) gomap" where
  "replacements =
     [(''AGPL-1.0'', ''AGPL-1.0-only''), (''AGPL-3.0'', ''AGPL-3.0-only''),
      (''GFDL-1.1'', ''GFDL-1.1-only''), (''GFDL-1.2'', ''GFDL-1.2-only''),
      (''GFDL-1.3'', ''GFDL-1.3-only''), (''GPL-1.0'', ''GPL-1.0-only''),
      (''GPL-1.0+'', ''GPL-1.0-or-later''), (''GPL-2.0'', ''GPL-2.0-only''),
      (''GPL-2.0+'', ''GPL-2.0-or-later''), (''GPL-3.0'', ''GPL-3.0-only''),
      (''GPL-3.0+'', ''GPL-3.0-or-later''), (''LGPL-2.0'', ''LGPL-2.0-only''),
      (''LGPL-2.0+'', ''LGPL-2.0-or-later''), (''LGPL-2.1'', ''LGPL-2.1-only''),
      (''LGPL-2.1+'', ''LGPL-2.1-or-later''), (''LGPL-3.0'', ''LGPL-3.0-only''),
      (''LGPL-3.0+'', ''LGPL-3.0-or-later''),
      (''GPL-2.0-with-classpath-exception'', ''GPL-2.0-only WITH Classpath-exception-2.0'')]"

definition Replacement :: "library \<Rightarrow> string \<Rightarrow> string option" where
  "Replacement L deprecatedID =
     (let deprecatedID = TrimSpace deprecatedID in
      if deprecatedID = [] then None
      else (case mget replacements deprecatedID of
              Some replacement \<Rightarrow> Some replacement
            | None \<Rightarrow> (case Identifier L deprecatedID of
                         Some canonical \<Rightarrow> mget replacements canonical
                       | None \<Rightarrow> None)))"

definition CanonicalIdentifier :: "library \<Rightarrow> string \<Rightarrow> string option" where
  "CanonicalIdentifier L value =
     (case Identifier L value of
        None \<Rightarrow> None
      | Some canonical \<Rightarrow> (case mget replacements canonical of
                             Some replacement \<Rightarrow> Some replacement | None \<Rightarrow> Some canonical))"

section \<open>Canonical expressions\<close>

definition expression_delim :: "char \<Rightarrow> bool" where
  "expression_delim c \<longleftrightarrow> c \<in> {CHR '' '', CHR ''('', CHR '')''}"

function rewrite_loop :: "string \<Rightarrow> string \<times> bool" where
  "rewrite_loop [] = ([], False)"
| "rewrite_loop (c # r) =
     (if expression_delim c
      then (let (out, replaced) = rewrite_loop r in (c # out, replaced))
      else (let token = takeWhile (\<lambda>c. \<not> expression_delim c) (c # r);
                rest = dropWhile (\<lambda>c. \<not> expression_delim c) (c # r);
                (out, replaced) = rewrite_loop rest
            in (case mget replacements token of
                  Some replacement \<Rightarrow>
                    if Contains replacement '' '' \<and> HasPrefix rest '' WITH '' then (token @ out, replaced)
                    else (replacement @ out, True)
                | None \<Rightarrow> (token @ out, replaced))))"
  by pat_completeness auto
termination
  by (relation "measure length") (auto simp: less_Suc_eq_le length_dropWhile_le)

definition rewriteNormalizedExpression :: "string \<Rightarrow> string \<times> bool" where
  "rewriteNormalizedExpression expression = rewrite_loop expression"

definition CanonicalExpression :: "library \<Rightarrow> string \<Rightarrow> string" where
  "CanonicalExpression L expression =
     (if length expression > spdx_maxInputSize then expression
      else if \<not> spdx_Valid L expression then expression
      else (case normalizeExpression L expression of
              None \<Rightarrow> expression
            | Some normalized \<Rightarrow>
                if \<not> spdx_Valid L normalized then expression
                else (let (rewritten, replaced) = rewriteNormalizedExpression normalized in
                      if \<not> replaced then normalized
                      else (case normalizeExpression L rewritten of
                              Some canonical \<Rightarrow> if spdx_Valid L canonical then canonical else normalized
                            | None \<Rightarrow> normalized))))"

definition Compose :: "library \<Rightarrow> string list \<Rightarrow> string" where
  "Compose L values =
     (let bounded = batchWithinByteBounds values in
      Join (map (\<lambda>value.
          let needsParens = (if bounded
                then (case normalizeExpression L value of
                        Some normalized \<Rightarrow> Contains normalized '' AND '' \<or> Contains normalized '' OR ''
                      | None \<Rightarrow> False)
                else True)
          in if needsParens then ''('' @ value @ '')'' else value)
        (filter (\<lambda>v. v \<noteq> []) (map TrimSpace values))) '' AND '')"

section \<open>Licence references\<close>

abbreviation LicenseRefPrefix :: string where "LicenseRefPrefix \<equiv> ''LicenseRef-''"
abbreviation BomlyLicenseRefPrefix :: string where "BomlyLicenseRefPrefix \<equiv> ''LicenseRef-bomly-''"
abbreviation maxLicenseRefLength :: nat where "maxLicenseRefLength \<equiv> 256"

definition isIDStringByte :: "char \<Rightarrow> bool" where
  "isIDStringByte b \<longleftrightarrow>
     (97 \<le> byte b \<and> byte b \<le> 122) \<or> (65 \<le> byte b \<and> byte b \<le> 90) \<or> (48 \<le> byte b \<and> byte b \<le> 57)
     \<or> byte b = 46 \<or> byte b = 45"

definition ValidLicenseRef :: "string \<Rightarrow> bool" where
  "ValidLicenseRef i \<longleftrightarrow> HasPrefix i LicenseRefPrefix
     \<and> (let body = drop (length LicenseRefPrefix) i in
        body \<noteq> [] \<and> length i \<le> maxLicenseRefLength \<and> list_all isIDStringByte body)"

record extracted_text =
  RefID :: string
  ExText :: string

definition MintLicenseRef :: "library \<Rightarrow> string \<Rightarrow> extracted_text" where
  "MintLicenseRef L txt =
     \<lparr>RefID = BomlyLicenseRefPrefix @ sha256_hex L (Join (Fields txt) '' ''), ExText = txt\<rparr>"

definition ExtractedText_Valid :: "library \<Rightarrow> extracted_text \<Rightarrow> bool" where
  "ExtractedText_Valid L e \<longleftrightarrow> RefID e = RefID (MintLicenseRef L (ExText e))"

definition Extract :: "library \<Rightarrow> string \<Rightarrow> string list" where
  "Extract L expression = (if \<not> withinParserBounds expression then [] else spdx_extract L expression)"

definition LicenseRefsIn :: "library \<Rightarrow> string \<Rightarrow> string list" where
  "LicenseRefsIn L expression =
     (if \<not> Contains expression LicenseRefPrefix then []
      else sort (filter (\<lambda>i. HasPrefix i LicenseRefPrefix) (Extract L expression)))"

text \<open>The scan of \<open>ReplaceLicenseRef\<close>, carrying the byte before the current position.\<close>

function replace_loop :: "string \<Rightarrow> string \<Rightarrow> char option \<Rightarrow> string \<Rightarrow> string" where
  "replace_loop old replacement before [] = []"
| "replace_loop old replacement before (c # r) =
     (if HasPrefix (c # r) old \<and> old \<noteq> []
         \<and> (case before of None \<Rightarrow> True | Some b \<Rightarrow> \<not> isIDStringByte b)
         \<and> (case drop (length old) (c # r) of [] \<Rightarrow> True | d # _ \<Rightarrow> \<not> isIDStringByte d)
      then replacement @ replace_loop old replacement (Some (last old)) (drop (length old) (c # r))
      else c # replace_loop old replacement (Some c) r)"
  by pat_completeness auto
termination
proof (relation "measure (\<lambda>(old, _, _, s). length s)", goal_cases)
  case (2 old replacement before c r)
  then show ?case by (cases old) simp_all
qed simp_all

definition ReplaceLicenseRef :: "string \<Rightarrow> string \<Rightarrow> string \<Rightarrow> string" where
  "ReplaceLicenseRef expression old replacement =
     (if old = [] \<or> \<not> Contains expression old then expression
      else replace_loop old replacement None expression)"

section \<open>Canonical expressions stay valid\<close>

lemma CanonicalExpression_cases:
  "CanonicalExpression L e = e \<or> spdx_Valid L (CanonicalExpression L e) \<and> spdx_Valid L e"
  by (simp add: CanonicalExpression_def Let_def split: option.split prod.split)

section \<open>Replacement rewrites whole identifiers\<close>

text \<open>The tokens of an expression: maximal runs of idstring bytes, and every other byte.\<close>

function id_tokens :: "string \<Rightarrow> string list" where
  "id_tokens [] = []"
| "id_tokens (c # r) =
     (if isIDStringByte c
      then takeWhile isIDStringByte (c # r) # id_tokens (dropWhile isIDStringByte (c # r))
      else [c] # id_tokens r)"
  by pat_completeness auto
termination
  by (relation "measure length") (auto simp: less_Suc_eq_le length_dropWhile_le)

lemma concat_id_tokens: "concat (id_tokens s) = s"
  by (induction s rule: id_tokens.induct) auto

lemma replace_inside_run:
  assumes "list_all isIDStringByte run" and "isIDStringByte b"
  shows "replace_loop old new (Some b) (run @ rest) = run @ replace_loop old new (Some (last (b # run))) rest"
  using assms by (induction run arbitrary: b) auto

lemma replace_at_boundary:
  assumes "list_all isIDStringByte old" and "old \<noteq> []"
    and "case rest of [] \<Rightarrow> True | d # _ \<Rightarrow> \<not> isIDStringByte d"
  shows "replace_loop old new before rest = replace_loop old new None rest"
proof (cases rest)
  case (Cons d r)
  then have "\<not> HasPrefix rest old"
    using assms by (cases old) (auto simp: HasPrefix_def)
  then show ?thesis using Cons by simp
qed simp

lemma takeWhile_run:
  assumes "list_all P run" and "case rest of [] \<Rightarrow> True | d # _ \<Rightarrow> \<not> P d"
  shows "takeWhile P (run @ rest) = run"
proof -
  have "takeWhile P rest = []" using assms(2) by (cases rest) auto
  with assms(1) show ?thesis by (simp add: list_all_iff)
qed

lemma dropWhile_head: "case dropWhile P xs of [] \<Rightarrow> True | d # _ \<Rightarrow> \<not> P d"
  by (induction xs) auto

lemma run_prefix:
  assumes "list_all isIDStringByte old" and "list_all isIDStringByte run"
    and "case rest of [] \<Rightarrow> True | d # _ \<Rightarrow> \<not> isIDStringByte d"
    and "HasPrefix (run @ rest) old"
    and "case drop (length old) (run @ rest) of [] \<Rightarrow> True | d # _ \<Rightarrow> \<not> isIDStringByte d"
  shows "old = run"
proof -
  have eq: "takeWhile isIDStringByte (run @ rest) = run"
    using assms(2,3) by (rule takeWhile_run)
  have "old @ drop (length old) (run @ rest) = run @ rest"
    using append_take_drop_id [of "length old" "run @ rest"] assms(4) by (simp only: HasPrefix_def)
  moreover have "takeWhile isIDStringByte (old @ drop (length old) (run @ rest)) = old"
    using assms(1,5) by (rule takeWhile_run)
  ultimately show ?thesis using eq by (simp only:)
qed

lemma replace_tokens:
  assumes "list_all isIDStringByte old" and "old \<noteq> []"
  shows "replace_loop old new None s = concat (map (\<lambda>t. if t = old then new else t) (id_tokens s))"
proof (induction s rule: id_tokens.induct)
  case (2 c r)
  show ?case
  proof (cases "isIDStringByte c")
    case True
    let ?run = "takeWhile isIDStringByte (c # r)"
    let ?rest = "dropWhile isIDStringByte (c # r)"
    have run: "list_all isIDStringByte ?run" and ne: "?run \<noteq> []"
      using True by (auto simp: list_all_iff dest: set_takeWhileD)
    have rest: "case ?rest of [] \<Rightarrow> True | d # _ \<Rightarrow> \<not> isIDStringByte d"
      by (rule dropWhile_head)
    have IH: "replace_loop old new before ?rest = concat (map (\<lambda>t. if t = old then new else t) (id_tokens ?rest))"
      for before using 2 True replace_at_boundary [OF assms rest] by metis
    have split: "?run @ ?rest = c # r" by simp
    show ?thesis
    proof (cases "?run = old")
      case True
      then have "HasPrefix (c # r) old" "drop (length old) (c # r) = ?rest"
        using split by (metis HasPrefix_def append_eq_conv_conj)+
      with True rest \<open>isIDStringByte c\<close> assms IH show ?thesis by simp
    next
      case False
      have "\<not> (HasPrefix (c # r) old
          \<and> (case drop (length old) (c # r) of [] \<Rightarrow> True | d # _ \<Rightarrow> \<not> isIDStringByte d))"
        using run_prefix [OF assms(1) run rest] False by (simp only: split) blast
      then have "replace_loop old new None (c # r) = c # replace_loop old new (Some c) r" by auto
      also have "r = takeWhile isIDStringByte r @ ?rest" using True by simp
      also have "replace_loop old new (Some c) \<dots>
          = takeWhile isIDStringByte r @ replace_loop old new (Some (last (c # takeWhile isIDStringByte r))) ?rest"
        using True by (intro replace_inside_run) (auto simp: list_all_iff dest: set_takeWhileD)
      finally show ?thesis using True False by (simp only: IH) simp
    qed
  next
    case False
    then have "\<not> HasPrefix (c # r) old" using assms by (cases old) (auto simp: HasPrefix_def)
    moreover have "replace_loop old new (Some c) r = replace_loop old new None r"
      using False by (cases r) auto
    moreover have "[c] \<noteq> old" using False assms by auto
    ultimately show ?thesis using 2 False by simp
  qed
qed simp

lemma Contains_infix: "Contains (a @ p @ b) p"
proof (induction a)
  case Nil
  have "HasPrefix (p @ b) p" by (simp add: HasPrefix_def)
  then show ?case by (cases "p @ b") (simp_all add: Contains_def)
next
  case (Cons c a)
  then show ?case by (auto simp: Contains_def)
qed

lemma Contains_token: "t \<in> set (id_tokens s) \<Longrightarrow> Contains s t"
  by (metis Contains_infix concat.simps(2) concat_append concat_id_tokens split_list)

section \<open>Properties\<close>

text \<open>Canonicalizing a licence expression never changes what validates: the result of
  \<open>CanonicalExpression\<close> is valid exactly when the input is, and free text comes back byte for
  byte.\<close>

lemma CanonicalExpression_valid:
  "spdx_Valid L (CanonicalExpression L e) = spdx_Valid L e \<and>
   (spdx_Valid L e \<or> CanonicalExpression L e = e)"
  using CanonicalExpression_cases [of L e] by auto

text \<open>Replacing a licence reference renames that reference and nothing else: the expression is
  cut into maximal runs of identifier bytes, the runs equal to the old reference are replaced, and
  every other byte is kept. A reference that is a prefix, suffix or infix of another is not
  touched.\<close>

lemma ReplaceLicenseRef_whole_identifiers:
  assumes "list_all isIDStringByte old" and "old \<noteq> []"
  shows "ReplaceLicenseRef expression old replacement
       = concat (map (\<lambda>t. if t = old then replacement else t) (id_tokens expression))"
proof (cases "Contains expression old")
  case True
  with assms show ?thesis by (simp add: ReplaceLicenseRef_def replace_tokens)
next
  case False
  then have "map (\<lambda>t. if t = old then replacement else t) (id_tokens expression) = id_tokens expression"
    using Contains_token by (intro map_idI) auto
  with False show ?thesis by (simp add: ReplaceLicenseRef_def concat_id_tokens)
qed

end
