(* ===== verification/Licenses.thy ===== *)
theory Licenses
  imports Spdx Scopes
begin

text \<open>
  Licence claims, the licence half of \<^verbatim>\<open>model/package.go\<close>: provenance, the gate
  \<open>PackageLicense.Normalized\<close> with its rules for licence references, merge identity, and the
  union \<open>MergeLicenses\<close> with the resolution of references that two sources use for different
  texts.
\<close>

type_synonym license_type = string

abbreviation LicenseTypeDeclared :: license_type where "LicenseTypeDeclared \<equiv> ''declared''"
abbreviation LicenseTypeConcluded :: license_type where "LicenseTypeConcluded \<equiv> ''concluded''"
abbreviation MaxComponentNameLength :: nat where "MaxComponentNameLength \<equiv> 256"
abbreviation maxExtractedLicenseTextLength :: nat where "maxExtractedLicenseTextLength \<equiv> 131072"

datatype license_type_error = LicenseTypeTooLong nat | UnsupportedLicenseType string

definition ParseLicenseType :: "string \<Rightarrow> license_type_error + license_type" where
  "ParseLicenseType value =
     (if length value > maxVocabularyTokenLength then Inl (LicenseTypeTooLong (length value))
      else (let t = ToLower (TrimSpace value) in
            if t = [] then Inr []
            else if t = LicenseTypeDeclared then Inr LicenseTypeDeclared
            else if t = LicenseTypeConcluded then Inr LicenseTypeConcluded
            else Inl (UnsupportedLicenseType value)))"

record package_license =
  LicValue :: string
  SPDXExpression :: string
  LicType :: license_type
  Source :: string
  LicName :: string
  ExtractedText :: string

definition PackageLicense_zero :: package_license where
  "PackageLicense_zero = \<lparr>LicValue = [], SPDXExpression = [], LicType = [], Source = [], LicName = [],
     ExtractedText = []\<rparr>"

section \<open>The gate\<close>

text \<open>The loop over the references an expression names: a malformed one refuses the expression, a
  Bomly reference that its text does not mint is rewritten to the one it does.\<close>

fun repair_refs :: "library \<Rightarrow> string \<Rightarrow> string \<Rightarrow> string list \<Rightarrow> string option" where
  "repair_refs L expression extractedText [] = Some expression"
| "repair_refs L expression extractedText (ref # refs) =
     (if \<not> ValidLicenseRef ref then None
      else if HasPrefix ref BomlyLicenseRefPrefix
      then (let minted = RefID (MintLicenseRef L extractedText) in
            repair_refs L (if ref \<noteq> minted then ReplaceLicenseRef expression ref minted else expression)
              extractedText refs)
      else repair_refs L expression extractedText refs)"

definition publish_expression :: "library \<Rightarrow> string \<Rightarrow> string" where
  "publish_expression L expression =
     (let canonicalised = CanonicalExpression L expression in
      if \<not> spdx_Valid L canonicalised then [] else canonicalised)"

definition normalizedSPDXExpression :: "library \<Rightarrow> string \<Rightarrow> string \<Rightarrow> string" where
  "normalizedSPDXExpression L expression extractedText =
     (if \<not> withinParserBounds expression then []
      else if Contains expression LicenseRefPrefix
      then (if TrimSpace extractedText = [] then []
            else (let refs = LicenseRefsIn L expression in
                  if length refs > 1 then []
                  else (case repair_refs L expression extractedText refs of
                          None \<Rightarrow> [] | Some repaired \<Rightarrow> publish_expression L repaired)))
      else publish_expression L expression)"

definition normalized_license_source :: "string \<Rightarrow> string" where
  "normalized_license_source s =
     (let source = TrimSpace s in
      if source \<noteq> [] \<and> length source \<le> MaxComponentNameLength \<and> ValidString source
         \<and> \<not> ContainsControlChar source then source else [])"

definition normalized_license_text :: "string \<Rightarrow> string" where
  "normalized_license_text t =
     (if length t > maxExtractedLicenseTextLength \<or> TrimSpace t = [] then [] else t)"

text \<open>The expression and the name after the branch on a bare reference.\<close>

definition license_expression :: "library \<Rightarrow> string \<Rightarrow> string \<Rightarrow> string \<Rightarrow> string \<times> string" where
  "license_expression L expression name txt =
     (if ValidLicenseRef expression
      then (if TrimSpace txt = [] then ([], [])
            else if HasPrefix expression BomlyLicenseRefPrefix then (RefID (MintLicenseRef L txt), name)
            else (expression, name))
      else if expression \<noteq> [] then (normalizedSPDXExpression L expression txt, name)
      else (expression, name))"

definition PackageLicense_Normalized :: "library \<Rightarrow> package_license \<Rightarrow> package_license option" where
  "PackageLicense_Normalized L l =
     (let txt = normalized_license_text (ExtractedText l);
          (expression, name) = license_expression L (TrimSpace (SPDXExpression l)) (TrimSpace (LicName l)) txt;
          expression = (if expression = [] \<and> txt \<noteq> [] then RefID (MintLicenseRef L txt) else expression);
          val = TrimSpace (LicValue l)
      in if val = [] \<and> expression = [] then None
         else Some \<lparr>LicValue = val, SPDXExpression = expression,
                LicType = (case ParseLicenseType (LicType l) of Inr t \<Rightarrow> t | Inl _ \<Rightarrow> []),
                Source = normalized_license_source (Source l), LicName = name, ExtractedText = txt\<rparr>)"

definition PackageLicense_UnmarshalJSON :: "library \<Rightarrow> package_license \<Rightarrow> package_license" where
  "PackageLicense_UnmarshalJSON L wire =
     (case PackageLicense_Normalized L wire of None \<Rightarrow> PackageLicense_zero | Some n \<Rightarrow> n)"

definition PackageLicense_MarshalJSON :: "library \<Rightarrow> package_license \<Rightarrow> package_license" where
  "PackageLicense_MarshalJSON L l =
     (case PackageLicense_Normalized L l of None \<Rightarrow> PackageLicense_zero | Some n \<Rightarrow> n)"

section \<open>The union\<close>

definition licenseKey :: "library \<Rightarrow> package_license \<Rightarrow> string" where
  "licenseKey L l =
     LicType l @ [CHR 0x00] @ SPDXExpression l @ [CHR 0x00] @ LicValue l @ [CHR 0x00]
     @ (if TrimSpace (ExtractedText l) \<noteq> [] then RefID (MintLicenseRef L (ExtractedText l)) else [])"

definition license_rank :: "license_type \<Rightarrow> string" where
  "license_rank t =
     (if t = [] then ''0'' else if t = LicenseTypeDeclared then ''1''
      else if t = LicenseTypeConcluded then ''2'' else ''3'')"

definition license_sortKey :: "library \<Rightarrow> package_license \<Rightarrow> string" where
  "license_sortKey L l = license_rank (LicType l) @ [CHR 0x00] @ licenseKey L l"

definition resolveLicenseRefCollision ::
  "library \<Rightarrow> package_license \<Rightarrow> (string, string) gomap \<Rightarrow> package_license \<times> (string, string) gomap" where
  "resolveLicenseRefCollision L license textByRef =
     (let txt = TrimSpace (ExtractedText license) in
      if txt = [] then (license, textByRef)
      else (case LicenseRefsIn L (SPDXExpression license) of
              [ref] \<Rightarrow>
                (let minted = RefID (MintLicenseRef L (ExtractedText license)) in
                 case mget textByRef ref of
                   None \<Rightarrow> (license, mput ref txt textByRef)
                 | Some prior \<Rightarrow>
                     if RefID (MintLicenseRef L prior) = minted
                     then (license\<lparr>ExtractedText := prior\<rparr>, textByRef)
                     else (license\<lparr>SPDXExpression := ReplaceLicenseRef (SPDXExpression license) ref minted\<rparr>,
                           mput minted txt textByRef))
            | _ \<Rightarrow> (license, textByRef)))"

record license_merge =
  lm_merged :: "package_license list"
  lm_seen :: "(string, nat) gomap"
  lm_textByRef :: "(string, string) gomap"

definition fold_license :: "package_license \<Rightarrow> package_license \<Rightarrow> package_license" where
  "fold_license at normalized =
     at\<lparr>LicName := (if LicName at = [] then LicName normalized else LicName at),
        Source := (if Source at = [] then Source normalized else Source at)\<rparr>"

definition merge_license :: "library \<Rightarrow> license_merge \<Rightarrow> package_license \<Rightarrow> license_merge" where
  "merge_license L s license =
     (case PackageLicense_Normalized L license of
        None \<Rightarrow> s
      | Some n \<Rightarrow>
          (let (normalized, textByRef) = resolveLicenseRefCollision L n (lm_textByRef s);
               key = licenseKey L normalized
           in (case mget (lm_seen s) key of
                 Some at \<Rightarrow> s\<lparr>lm_merged := (lm_merged s)[at := fold_license (lm_merged s ! at) normalized],
                                lm_textByRef := textByRef\<rparr>
               | None \<Rightarrow> \<lparr>lm_merged = lm_merged s @ [normalized],
                          lm_seen = mput key (length (lm_merged s)) (lm_seen s),
                          lm_textByRef = textByRef\<rparr>)))"

definition MergeLicenses :: "library \<Rightarrow> package_license list \<Rightarrow> package_license list \<Rightarrow> package_license list" where
  "MergeLicenses L existing additions =
     sort_key (license_sortKey L)
       (lm_merged (foldl (merge_license L) \<lparr>lm_merged = [], lm_seen = [], lm_textByRef = []\<rparr>
         (existing @ additions)))"

section \<open>What the gate publishes\<close>

lemma publish_expression_valid: "publish_expression L e \<noteq> [] \<Longrightarrow> spdx_Valid L (publish_expression L e)"
  by (simp add: publish_expression_def Let_def split: if_splits)

lemma normalizedSPDXExpression_valid:
  "normalizedSPDXExpression L e t \<noteq> [] \<Longrightarrow> spdx_Valid L (normalizedSPDXExpression L e t)"
  by (auto simp: normalizedSPDXExpression_def Let_def publish_expression_valid
      split: if_splits option.splits)

lemma normalized_license_text_blank: "normalized_license_text t \<noteq> [] \<longleftrightarrow> TrimSpace (normalized_license_text t) \<noteq> []"
  by (auto simp: normalized_license_text_def)

definition publishable_expression :: "library \<Rightarrow> string \<Rightarrow> string \<Rightarrow> bool" where
  "publishable_expression L e t \<longleftrightarrow>
     e = [] \<or> spdx_Valid L e
   \<or> (TrimSpace t \<noteq> [] \<and> (e = RefID (MintLicenseRef L t)
        \<or> (ValidLicenseRef e \<and> \<not> HasPrefix e BomlyLicenseRefPrefix)))"

lemma license_expression_publishable:
  "license_expression L e n t = (e', n') \<Longrightarrow> publishable_expression L e' t"
  using normalizedSPDXExpression_valid [of L e t]
  by (auto simp: license_expression_def publishable_expression_def split: if_splits)

section \<open>Properties\<close>

text \<open>What a licence record publishes as an SPDX expression: nothing; an expression the parser
  accepts together with its own rendering; the reference its own text mints; or a reference the
  source document defined, outside Bomly's namespace. Every bare reference comes with non-blank
  text, and text never travels without an expression that cites it.\<close>

lemma PackageLicense_Normalized_publishable:
  assumes "PackageLicense_Normalized L l = Some n"
  shows "publishable_expression L (SPDXExpression n) (ExtractedText n)
    \<and> (LicValue n \<noteq> [] \<or> SPDXExpression n \<noteq> [])
    \<and> (ExtractedText n = [] \<or> SPDXExpression n \<noteq> [])
    \<and> length (ExtractedText n) \<le> maxExtractedLicenseTextLength
    \<and> LicType n \<in> {[], LicenseTypeDeclared, LicenseTypeConcluded}"
proof -
  let ?t = "normalized_license_text (ExtractedText l)"
  obtain e name where e: "license_expression L (TrimSpace (SPDXExpression l)) (TrimSpace (LicName l)) ?t = (e, name)"
    by fastforce
  let ?e = "if e = [] \<and> ?t \<noteq> [] then RefID (MintLicenseRef L ?t) else e"
  have n: "SPDXExpression n = ?e" "ExtractedText n = ?t" "LicValue n \<noteq> [] \<or> SPDXExpression n \<noteq> []"
    "LicType n = (case ParseLicenseType (LicType l) of Inr t \<Rightarrow> t | Inl _ \<Rightarrow> [])"
    using assms e by (auto simp: PackageLicense_Normalized_def Let_def split: if_splits)
  have "publishable_expression L ?e ?t"
    using license_expression_publishable [OF e] normalized_license_text_blank [of "ExtractedText l"]
    by (auto simp: publishable_expression_def)
  moreover have "?t = [] \<or> ?e \<noteq> []" by (auto simp: MintLicenseRef_def)
  moreover have "length ?t \<le> maxExtractedLicenseTextLength" by (simp add: normalized_license_text_def)
  moreover have "(case ParseLicenseType (LicType l) of Inr t \<Rightarrow> t | Inl _ \<Rightarrow> [])
      \<in> {[], LicenseTypeDeclared, LicenseTypeConcluded}"
    by (simp add: ParseLicenseType_def Let_def)
  ultimately show ?thesis using n by (simp only: simp_thms)
qed

end
