(* ===== verification/Assertions.thy ===== *)
theory Assertions
  imports References Licenses Contacts
begin

text \<open>
  The claims a source makes about a package, \<^verbatim>\<open>model/assertions.go\<close>, the metadata policy of
  \<^verbatim>\<open>model/metadata.go\<close>, and the deprecated licence stash of \<^verbatim>\<open>model/package.go\<close>. A metadata value
  is Go's \<open>any\<close>: what \<open>encoding/json\<close> produces, plus the two typed values the module itself puts
  there (\<open>[]string\<close> and \<open>[]PackageLicense\<close>).
\<close>

section \<open>String sets\<close>

definition mergeStringSet :: "string list \<Rightarrow> string list \<Rightarrow> string list" where
  "mergeStringSet existing additions =
     existing @ dedup_gated Some id existing additions"

definition cpe_gate :: "string \<Rightarrow> string option" where
  "cpe_gate cpe =
     (let cpe = TrimSpace cpe in if cpe \<noteq> [] \<and> \<not> ContainsControlChar cpe then Some cpe else None)"

definition normalizedCPEs :: "string list \<Rightarrow> string list" where
  "normalizedCPEs cpes = sort (mergeStringSet [] (List.map_filter cpe_gate cpes))"

lemma cpe_gate_idem: "cpe_gate x = Some y \<Longrightarrow> cpe_gate y = Some y"
  by (auto simp: cpe_gate_def Let_def split: if_splits)

interpretation cpes: gated_union cpe_gate "\<lambda>s :: string. s"
  by unfold_locales (auto intro: cpe_gate_idem)

lemma dedup_gated_map_filter:
  "dedup_gated Some key seen (List.map_filter gate xs) = dedup_gated gate key seen xs"
  by (induction xs arbitrary: seen) (auto simp: List.map_filter_def)

lemma normalizedCPEs_eq: "normalizedCPEs xs = cpes.union_of xs"
  by (simp add: normalizedCPEs_def mergeStringSet_def dedup_gated_map_filter cpes.union_of_def id_def)

section \<open>Assertions\<close>

record assertions =
  Description :: string
  Homepage :: string
  Supplier :: "contact option"
  Originator :: "contact option"
  ExternalReferences :: "external_reference list"
  CPEs :: "string list"
  Digests :: "digest list"
  Licenses :: "package_license list"
  Copyright :: string

definition Assertions_zero :: assertions where
  "Assertions_zero = \<lparr>Description = [], Homepage = [], Supplier = None, Originator = None,
     ExternalReferences = [], CPEs = [], Digests = [], Licenses = [], Copyright = []\<rparr>"

definition Assertions_Normalized :: "library \<Rightarrow> assertions \<Rightarrow> assertions" where
  "Assertions_Normalized L a =
     \<lparr>Description = NormalizeDescription (Description a),
      Homepage = NormalizeHomepage L (Homepage a),
      Supplier = normalizedContact L (Supplier a),
      Originator = normalizedContact L (Originator a),
      ExternalReferences = MergeExternalReferences L [] (ExternalReferences a),
      CPEs = normalizedCPEs (CPEs a),
      Digests = mergeDigestSet L [] (Digests a),
      Licenses = MergeLicenses L [] (Licenses a),
      Copyright = NormalizeCopyright (Copyright a)\<rparr>"

definition Assertions_MergeFrom :: "library \<Rightarrow> assertions \<Rightarrow> assertions \<Rightarrow> assertions" where
  "Assertions_MergeFrom L a src =
     (let left = Assertions_Normalized L a; right = Assertions_Normalized L src in
      \<lparr>Description = (if Description left = [] then Description right else Description left),
       Homepage = (if Homepage left = [] then Homepage right else Homepage left),
       Supplier = (if Supplier left = None then Supplier right else Supplier left),
       Originator = (if Originator left = None then Originator right else Originator left),
       ExternalReferences = MergeExternalReferences L (ExternalReferences left) (ExternalReferences right),
       CPEs = normalizedCPEs (CPEs left @ CPEs right),
       Digests = mergeDigestSet L (Digests left) (Digests right),
       Licenses = MergeLicenses L (Licenses left) (Licenses right),
       Copyright = (if Copyright left = [] then Copyright right else Copyright left)\<rparr>)"

section \<open>Metadata\<close>

datatype any_value = NilV | StringV string | BoolV bool | NumberV int
  | ListV "any_value list" | ObjectV "(string \<times> any_value) list"
  | StringsV "string list" | LicensesV "package_license list"

type_synonym metadata = "(string, any_value) gomap"

abbreviation ReservedMetadataPrefix :: string where "ReservedMetadataPrefix \<equiv> ''bomly.''"
abbreviation MetadataKeyDetectionLicenses :: string where
  "MetadataKeyDetectionLicenses \<equiv> ''bomly.detection.licenses''"

definition IsReservedMetadataKey :: "string \<Rightarrow> bool" where
  "IsReservedMetadataKey key \<longleftrightarrow> HasPrefix (ToLower (TrimSpace key)) ReservedMetadataPrefix"

definition ReservedMetadataKeys :: "metadata \<Rightarrow> string list" where
  "ReservedMetadataKeys m = sort (filter IsReservedMetadataKey (mkeys m))"

definition mergeMetadataPreservingReserved :: "metadata \<Rightarrow> metadata \<Rightarrow> metadata" where
  "mergeMetadataPreservingReserved constructed caller =
     foldl (\<lambda>m (k, v). mput k v m)
       (foldl (\<lambda>m (k, v). if IsReservedMetadataKey k then m else mput k v m) [] caller)
       constructed"

definition mergeMetadata :: "metadata \<Rightarrow> metadata \<Rightarrow> metadata" where
  "mergeMetadata existing additions =
     foldl (\<lambda>m (k, v). if mget m k \<noteq> None then m else mput k v m) existing additions"

section \<open>The deprecated licence stash\<close>

text \<open>What \<open>json.Marshal\<close> makes of a string: bytes that are not UTF-8 become U+FFFD.\<close>

definition json_string :: "string \<Rightarrow> string" where
  "json_string s = concat (map WriteRune (chunks s))"

definition decode_license_field :: "package_license option \<Rightarrow> string \<times> any_value \<Rightarrow> package_license option" where
  "decode_license_field acc kv =
     (case acc of None \<Rightarrow> None
      | Some l \<Rightarrow>
          (let (k, v) = kv;
               known = find (EqualFold_ascii k) [''value'', ''spdx_expression'', ''type'', ''source'', ''name'', ''extracted_text'']
           in (case known of None \<Rightarrow> Some l
               | Some f \<Rightarrow>
                   (case v of
                      NilV \<Rightarrow> Some l
                    | StringV s \<Rightarrow>
                        (let s = json_string s in
                         Some (if f = ''value'' then l\<lparr>LicValue := s\<rparr>
                               else if f = ''spdx_expression'' then l\<lparr>SPDXExpression := s\<rparr>
                               else if f = ''type'' then l\<lparr>LicType := s\<rparr>
                               else if f = ''source'' then l\<lparr>Source := s\<rparr>
                               else if f = ''name'' then l\<lparr>LicName := s\<rparr>
                               else l\<lparr>ExtractedText := s\<rparr>))
                    | _ \<Rightarrow> None))))"

definition decode_license :: "library \<Rightarrow> any_value \<Rightarrow> package_license option" where
  "decode_license L v =
     (case v of
        NilV \<Rightarrow> Some PackageLicense_zero
      | ObjectV kvs \<Rightarrow>
          map_option (PackageLicense_UnmarshalJSON L) 
            (foldl decode_license_field (Some PackageLicense_zero) (sort_key fst kvs))
      | _ \<Rightarrow> None)"

definition stashedDetectionLicenses :: "library \<Rightarrow> any_value option \<Rightarrow> package_license list" where
  "stashedDetectionLicenses L val =
     (case val of
        None \<Rightarrow> []
      | Some NilV \<Rightarrow> []
      | Some (LicensesV ls) \<Rightarrow> ls
      | Some (ListV vs) \<Rightarrow>
          (let ds = map (decode_license L) vs in if None \<in> set ds then [] else map the ds)
      | Some _ \<Rightarrow> [])"

definition detection_licenses :: "library \<Rightarrow> package_license list \<Rightarrow> metadata \<Rightarrow> package_license list" where
  "detection_licenses L licenses m =
     MergeLicenses L []
       (if m = [] then licenses
        else MergeLicenses L licenses (stashedDetectionLicenses L (mget m MetadataKeyDetectionLicenses)))"

section \<open>Properties\<close>

lemma NormalizeDescription_fixed: "NormalizeDescription (NormalizeDescription v) = NormalizeDescription v"
  unfolding NormalizeDescription_def
  using normalizePublishedText_clean by (intro text_clean_fixed) blast+

text \<open>How two sources' claims about one package combine. A scalar is the first publishable
  value: a claim that could not be published never blocks one that can. The set of CPEs and the
  set of digests do not depend on which source came first, and contain exactly what passes the
  gates.\<close>

lemma Assertions_MergeFrom_classes:
  assumes "digest_spellings_ok L"
  shows "Description (Assertions_MergeFrom L a b) =
      (if NormalizeDescription (Description a) \<noteq> [] then NormalizeDescription (Description a)
       else NormalizeDescription (Description b))
    \<and> Supplier (Assertions_MergeFrom L a b) =
      (case normalizedContact L (Supplier a) of Some c \<Rightarrow> Some c | None \<Rightarrow> normalizedContact L (Supplier b))
    \<and> CPEs (Assertions_MergeFrom L a b) = CPEs (Assertions_MergeFrom L b a)
    \<and> set (CPEs (Assertions_MergeFrom L a b)) = {y. \<exists>x \<in> set (CPEs a @ CPEs b). cpe_gate x = Some y}
    \<and> Digests (Assertions_MergeFrom L a b) = Digests (Assertions_MergeFrom L b a)
    \<and> Digests (Assertions_MergeFrom L a b) = mergeDigestSet L (Digests a) (Digests b)"
proof -
  note gated = gated_union_digests [OF assms]
  have c: "CPEs (Assertions_MergeFrom L a b) = cpes.union_of (CPEs a @ CPEs b)" for a b
    by (simp add: Assertions_MergeFrom_def Assertions_Normalized_def Let_def normalizedCPEs_eq
        cpes.union_of_idem cpes.union_of_idem_right)
  have d: "Digests (Assertions_MergeFrom L a b) = mergeDigestSet L (Digests a) (Digests b)" for a b
    by (simp add: Assertions_MergeFrom_def Assertions_Normalized_def Let_def mergeDigestSet_eq [OF assms]
        gated_union.union_of_idem [OF gated] gated_union.union_of_idem_right [OF gated])
  have "mergeDigestSet L (Digests a) (Digests b) = mergeDigestSet L (Digests b) (Digests a)"
    by (simp only: mergeDigestSet_eq [OF assms] gated_union.union_of_commute [OF gated, of "Digests a"])
  moreover have "cpes.union_of (CPEs a @ CPEs b) = cpes.union_of (CPEs b @ CPEs a)"
    by (rule cpes.union_of_commute)
  moreover have "Description (Assertions_MergeFrom L a b) =
      (if NormalizeDescription (Description a) \<noteq> [] then NormalizeDescription (Description a)
       else NormalizeDescription (Description b))"
    by (simp add: Assertions_MergeFrom_def Assertions_Normalized_def Let_def)
  moreover have "Supplier (Assertions_MergeFrom L a b) =
      (case normalizedContact L (Supplier a) of Some c \<Rightarrow> Some c | None \<Rightarrow> normalizedContact L (Supplier b))"
    by (simp add: Assertions_MergeFrom_def Assertions_Normalized_def Let_def split: option.split)
  ultimately show ?thesis
    unfolding c d using cpes.set_union_of [of "CPEs a @ CPEs b"] by blast
qed

end
