(* ===== verification/Coordinates.thy ===== *)
theory Coordinates
  imports Purl
begin

text \<open>
  Package coordinates, \<^verbatim>\<open>model/coordinates.go\<close>, \<^verbatim>\<open>model/purl.go\<close>, \<^verbatim>\<open>model/normalization.go\<close>,
  with the package-manager and ecosystem vocabularies of \<^verbatim>\<open>model/package_manager.go\<close> and
  \<^verbatim>\<open>model/ecosystem.go\<close>: display and ecosystem names, the normalization pass that precedes
  identity, and the canonical package URL a record's coordinates mint. Every package manager's
  name is the value of its constant, which \<open>PackageManager_Name\<close> reads off the table as the
  code does.
\<close>

type_synonym ecosystem = string
type_synonym package_manager = string
type_synonym package_type = string
type_synonym language = string

abbreviation PackageTypeManifest :: package_type where "PackageTypeManifest \<equiv> ''manifest''"

section \<open>Vocabularies\<close>

text \<open>Constant, name, ecosystem, aliases and languages of each package manager.\<close>

definition packageManagerInfoByID ::
  "(package_manager \<times> string \<times> ecosystem \<times> string list \<times> language list) list" where
  "packageManagerInfoByID =
     [ ([], [], [], [], [])
     , (''npm'', ''npm'', ''npm'', [], [''javascript'', ''typescript''])
     , (''pnpm'', ''pnpm'', ''npm'', [], [''javascript'', ''typescript''])
     , (''yarn'', ''yarn'', ''npm'', [], [''javascript'', ''typescript''])
     , (''bun'', ''bun'', ''npm'', [], [''javascript'', ''typescript''])
     , (''gradle'', ''gradle'', ''maven'', [], [''java'', ''kotlin'', ''groovy'', ''scala''])
     , (''maven'', ''maven'', ''maven'', [], [''java'', ''kotlin'', ''scala'', ''groovy''])
     , (''gomod'', ''gomod'', ''go'', [], [''go''])
     , (''pip'', ''pip'', ''python'', [], [''python''])
     , (''pipenv'', ''pipenv'', ''python'', [], [''python''])
     , (''poetry'', ''poetry'', ''python'', [], [''python''])
     , (''uv'', ''uv'', ''python'', [], [''python''])
     , (''alpm'', ''alpm'', ''alpm'', [], [])
     , (''apk'', ''apk'', ''apk'', [], [])
     , (''conan'', ''conan'', ''cpp'', [], [''c'', ''cpp''])
     , (''conda'', ''conda'', ''conda'', [], [''python'', ''r'', ''cpp''])
     , (''pub'', ''pub'', ''dart'', [], [''dart''])
     , (''dpkg'', ''dpkg'', ''dpkg'', [''deb''], [])
     , (''mix'', ''mix'', ''elixir'', [], [''elixir''])
     , (''rebar'', ''rebar'', ''erlang'', [], [''erlang''])
     , (''otp'', ''otp'', ''erlang'', [], [''erlang''])
     , (''github-actions'', ''github-actions'', ''github-actions'', [], [])
     , (''cabal'', ''cabal'', ''haskell'', [], [''haskell''])
     , (''stack'', ''stack'', ''haskell'', [], [''haskell''])
     , (''homebrew'', ''homebrew'', ''homebrew'', [], [])
     , (''luarocks'', ''luarocks'', ''lua'', [], [''lua''])
     , (''nuget'', ''nuget'', ''dotnet'', [], [''csharp'', ''fsharp'', ''vb''])
     , (''nix'', ''nix'', ''nix'', [], [])
     , (''opam'', ''opam'', ''ocaml'', [], [''ocaml''])
     , (''composer'', ''composer'', ''php'', [], [''php''])
     , (''pear'', ''pear'', ''php'', [], [''php''])
     , (''pdm'', ''pdm'', ''python'', [], [''python''])
     , (''portage'', ''portage'', ''portage'', [], [])
     , (''swipl-pack'', ''swipl-pack'', ''prolog'', [], [])
     , (''r-package'', ''r-package'', ''r'', [], [''r''])
     , (''rpm'', ''rpm'', ''rpm'', [], [])
     , (''bundler'', ''bundler'', ''ruby'', [], [''ruby''])
     , (''gemspec'', ''gemspec'', ''ruby'', [], [''ruby''])
     , (''cargo'', ''cargo'', ''rust'', [], [''rust''])
     , (''sbom'', ''sbom'', ''sbom'', [], [])
     , (''snap'', ''snap'', ''snap'', [], [])
     , (''cocoapods'', ''cocoapods'', ''swift'', [], [''swift'', ''objective-c''])
     , (''swiftpm'', ''swiftpm'', ''swift'', [], [''swift'', ''objective-c''])
     , (''terraform'', ''terraform'', ''terraform'', [], [])
     , (''wordpress'', ''wordpress'', ''wordpress'', [], [''php''])
     , (''setuppy'', ''setuppy'', ''python'', [], [''python''])
     , (''other'', ''other'', ''other'', [], [])
     , (''sbt'', ''sbt'', ''scala'', [], [''scala'', ''java''])
     , (''multiple'', ''multiple'', [], [], []) ]"

definition allPackageManagers :: "package_manager list" where
  "allPackageManagers =
     [''npm'', ''pnpm'', ''yarn'', ''bun'', ''gradle'', ''maven'', ''gomod'', ''pip'', ''pipenv'',
      ''poetry'', ''uv'', ''alpm'', ''apk'', ''conan'', ''conda'', ''pub'', ''dpkg'', ''mix'',
      ''rebar'', ''otp'', ''github-actions'', ''cabal'', ''stack'', ''homebrew'', ''luarocks'',
      ''nuget'', ''nix'', ''opam'', ''composer'', ''pear'', ''pdm'', ''portage'', ''swipl-pack'',
      ''r-package'', ''rpm'', ''bundler'', ''gemspec'', ''cargo'', ''sbom'', ''snap'',
      ''cocoapods'', ''swiftpm'', ''terraform'', ''wordpress'', ''setuppy'', ''sbt'', ''other'']"

definition PackageManager_valid :: "package_manager \<Rightarrow> bool" where
  "PackageManager_valid p \<longleftrightarrow> mget packageManagerInfoByID p \<noteq> None \<and> p \<noteq> []"

definition PackageManager_Name :: "package_manager \<Rightarrow> string" where
  "PackageManager_Name p =
     (if \<not> PackageManager_valid p then p
      else (case mget packageManagerInfoByID p of Some (name, _) \<Rightarrow> name | None \<Rightarrow> []))"

definition PackageManager_Ecosystem :: "package_manager \<Rightarrow> ecosystem" where
  "PackageManager_Ecosystem p =
     (if \<not> PackageManager_valid p then []
      else (case mget packageManagerInfoByID p of Some (_, e, _) \<Rightarrow> e | None \<Rightarrow> []))"

definition PackageManager_Languages :: "package_manager \<Rightarrow> language list" where
  "PackageManager_Languages p =
     (if \<not> PackageManager_valid p then []
      else (case mget packageManagerInfoByID p of Some (_, _, _, ls) \<Rightarrow> ls | None \<Rightarrow> []))"

datatype vocabulary_error = VocabularyEmpty | VocabularyUnsupported string

definition packageManagerByName :: "(string, package_manager) gomap" where
  "packageManagerByName =
     foldl (\<lambda>m manager.
         (case mget packageManagerInfoByID manager of
            None \<Rightarrow> mput [] manager m
          | Some (name, _, aliases, _) \<Rightarrow>
              foldl (\<lambda>m alias. mput (ToLower (TrimSpace alias)) manager m) (mput name manager m) aliases))
       [] (allPackageManagers @ [''multiple''])"

definition ParsePackageManager :: "string \<Rightarrow> vocabulary_error + package_manager" where
  "ParsePackageManager value =
     (let normalized = ToLower (TrimSpace value) in
      if normalized = [] then Inl VocabularyEmpty
      else (case mget packageManagerByName normalized of
              None \<Rightarrow> Inl (VocabularyUnsupported value) | Some manager \<Rightarrow> Inr manager))"

definition ecosystemRegistry :: "(ecosystem \<times> string list) list" where
  "ecosystemRegistry =
     [(''npm'', []), (''maven'', [''gradle'']), (''go'', []), (''python'', []), (''alpm'', []),
      (''apk'', []), (''cpp'', []), (''conda'', []), (''dart'', []), (''dpkg'', []),
      (''elixir'', []), (''erlang'', []), (''github-actions'', []), (''haskell'', []),
      (''homebrew'', []), (''lua'', []), (''dotnet'', []), (''nix'', []), (''ocaml'', []),
      (''php'', []), (''portage'', []), (''prolog'', []), (''r'', []), (''rpm'', []),
      (''ruby'', []), (''rust'', []), (''scala'', []), (''sbom'', []), (''snap'', []),
      (''swift'', []), (''terraform'', []), (''wordpress'', []), (''other'', [])]"

definition ParseEcosystem :: "string \<Rightarrow> vocabulary_error + ecosystem" where
  "ParseEcosystem value =
     (let normalized = ToLower (TrimSpace value) in
      if normalized = [] then Inl VocabularyEmpty
      else (case find (\<lambda>(e, aliases). normalized = e \<or> normalized \<in> set aliases) ecosystemRegistry of
              None \<Rightarrow> Inl (VocabularyUnsupported value) | Some (e, _) \<Rightarrow> Inr e))"

definition includesName :: "string list \<Rightarrow> string \<Rightarrow> bool" where
  "includesName incl name \<longleftrightarrow> incl = [] \<or> name \<in> set incl"

definition excludesName :: "string list \<Rightarrow> string \<Rightarrow> bool" where
  "excludesName excl name \<longleftrightarrow> name \<in> set excl"

section \<open>Coordinates\<close>

record coordinates =
  PURL :: string
  Ecosystem :: ecosystem
  PackageManager :: package_manager
  PkgType :: package_type
  Org :: string
  Name :: string
  Version :: string
  Language :: language

definition Coordinates_zero :: coordinates where
  "Coordinates_zero = \<lparr>PURL = [], Ecosystem = [], PackageManager = [], PkgType = [], Org = [],
     Name = [], Version = [], Language = []\<rparr>"

definition qualifiedName :: "string \<Rightarrow> string \<Rightarrow> string" where
  "qualifiedName org name = (if org = [] then name else if name = [] then org else org @ '':'' @ name)"

definition QualifiedName :: "coordinates \<Rightarrow> string" where
  "QualifiedName i = qualifiedName (Org i) (Name i)"

definition display_family :: "string \<Rightarrow> ecosystem option" where
  "display_family v =
     (if v \<in> set [''npm'', ''pnpm'', ''yarn'', ''bun''] then Some ''npm''
      else if v \<in> set [''go'', ''gomod'', ''golang''] then Some ''go''
      else if v \<in> set [''php'', ''composer'', ''packagist''] then Some ''php''
      else if v \<in> set [''maven'', ''gradle''] then Some ''maven''
      else if v \<in> set [''scala'', ''sbt''] then Some ''scala''
      else if v \<in> set [''swift'', ''swiftpm''] then Some ''swift''
      else if v \<in> set [''github-actions'', ''githubactions''] then Some ''github-actions''
      else None)"

fun first_family :: "string list \<Rightarrow> ecosystem option" where
  "first_family [] = None"
| "first_family (v # vs) =
     (case display_family (ToLower (TrimSpace v)) of Some e \<Rightarrow> Some e | None \<Rightarrow> first_family vs)"

definition displayEcosystem :: "coordinates \<Rightarrow> ecosystem" where
  "displayEcosystem i =
     (case first_family [Ecosystem i, PackageManager_Name (PackageManager i), PkgType i] of
        Some e \<Rightarrow> e | None \<Rightarrow> Ecosystem i)"

definition DisplayName :: "coordinates \<Rightarrow> string" where
  "DisplayName i =
     (if Org i = [] \<or> Name i = [] then qualifiedName (Org i) (Name i)
      else (let e = displayEcosystem i in
            if e = ''npm'' then ''@'' @ Org i @ ''/'' @ Name i
            else if e = ''go'' \<or> e = ''php'' then Org i @ ''/'' @ Name i
            else Org i @ '':'' @ Name i))"

definition TrimPrefix :: "string \<Rightarrow> string \<Rightarrow> string" where
  "TrimPrefix s p = (if HasPrefix s p then drop (length p) s else s)"

definition EcosystemName :: "coordinates \<Rightarrow> string" where
  "EcosystemName i =
     (let org = TrimSpace (Org i); name = TrimSpace (Name i) in
      if org = [] \<or> name = [] then qualifiedName org name
      else (let e = displayEcosystem i in
            if e = ''npm'' then ''@'' @ TrimPrefix org ''@'' @ ''/'' @ name
            else if e = ''maven'' \<or> e = ''scala'' then org @ '':'' @ name
            else if e = ''go'' \<or> e = ''php'' \<or> e = ''swift'' \<or> e = ''github-actions'' then org @ ''/'' @ name
            else name))"

section \<open>The package URL coordinates mint\<close>

definition trim_byte :: "char \<Rightarrow> string \<Rightarrow> string" where
  "trim_byte c s = rev (dropWhile (\<lambda>x. x = c) (rev (dropWhile (\<lambda>x. x = c) s)))"

definition slashes :: "string \<Rightarrow> string" where
  "slashes s = map (\<lambda>c. if byte c = 92 then CHR ''/'' else c) s"

definition BuildPackageURL :: "library \<Rightarrow> string \<Rightarrow> string \<Rightarrow> string \<Rightarrow> string \<Rightarrow> string" where
  "BuildPackageURL L purlType namespace name version =
     (let purlType = TrimSpace (ToLower purlType);
          name = trim_byte CHR ''/'' (slashes (TrimSpace name));
          namespace = trim_byte CHR ''/'' (slashes (TrimSpace namespace));
          version = TrimSpace version
      in if purlType = [] \<or> name = [] then []
         else (case purl_Build L \<lparr>PType = purlType, Namespace = namespace, PName = name,
                 PVersion = version, Qualifiers = [], Subpath = []\<rparr> of
                 Inl _ \<Rightarrow> [] | Inr built \<Rightarrow> built))"

definition PackageURLTypeForValues :: "coordinates \<Rightarrow> string" where
  "PackageURLTypeForValues i = TypeForValues [Ecosystem i, PackageManager_Name (PackageManager i), PkgType i]"

definition ecosystemNeedsItsPackageManager :: "ecosystem \<Rightarrow> bool" where
  "ecosystemNeedsItsPackageManager e \<longleftrightarrow>
     list_ex (\<lambda>manager. PackageManager_Ecosystem manager = e \<and> e \<noteq> []
         \<and> TypeForValues [e, PackageManager_Name manager] \<noteq> TypeForValues [e]) allPackageManagers"

definition BuildPackageURLFor ::
  "library \<Rightarrow> ecosystem \<Rightarrow> package_manager \<Rightarrow> string \<Rightarrow> string \<Rightarrow> string \<Rightarrow> string" where
  "BuildPackageURLFor L e manager namespace name version =
     (if ecosystemNeedsItsPackageManager e \<and> PackageManager_Ecosystem manager \<noteq> e then []
      else BuildPackageURL L (TypeForValues [e, PackageManager_Name manager]) namespace name version)"

definition EcosystemForPURLType :: "string \<Rightarrow> ecosystem" where
  "EcosystemForPURLType purlType =
     (case EcosystemForType purlType of
        Some e \<Rightarrow> e
      | None \<Rightarrow> (case CanonicalEcosystem [purlType] of Some e \<Rightarrow> e | None \<Rightarrow> []))"

abbreviation genericPURLType :: string where "genericPURLType \<equiv> ''generic''"
abbreviation GenericFallbackTypeQualifier :: string where "GenericFallbackTypeQualifier \<equiv> ''bomly_source_type''"

definition GenericPURL :: "library \<Rightarrow> coordinates \<Rightarrow> string" where
  "GenericPURL L i =
     (if PkgType i = PackageTypeManifest then []
      else (let name = TrimSpace (Name i) in
        if name = [] then []
        else (let failedType = TrimSpace (PackageURLTypeForValues i) in
          if failedType = [] \<or> failedType = genericPURLType then []
          else (case purl_Build L \<lparr>PType = genericPURLType, Namespace = TrimSpace (Org i), PName = name,
                  PVersion = TrimSpace (Version i),
                  Qualifiers = [\<lparr>Key = GenericFallbackTypeQualifier, QValue = failedType\<rparr>], Subpath = []\<rparr> of
                  Inl _ \<Rightarrow> [] | Inr built \<Rightarrow> built))))"

definition genericFallbackType :: "purl \<Rightarrow> string option" where
  "genericFallbackType p =
     (if \<not> EqualFold_ascii (PType p) genericPURLType then None
      else map_option QValue
        (find (\<lambda>q. EqualFold_ascii (Key q) GenericFallbackTypeQualifier \<and> QValue q \<noteq> []) (Qualifiers p)))"

definition CanonicalPURL :: "library \<Rightarrow> coordinates \<Rightarrow> string" where
  "CanonicalPURL L i =
     (let canonical = Canonicalize L (PURL i) in
      if canonical \<noteq> [] then canonical
      else if PkgType i = PackageTypeManifest then []
      else (let name = TrimSpace (Name i) in
        if name = [] then []
        else (let purlType = PackageURLTypeForValues i; namespace = TrimSpace (Org i);
                  (namespace, name) =
                    (if purlType = ''golang'' \<and> namespace = []
                     then (let parts = split_on CHR ''/'' (slashes name) in
                           if length parts > 1 then (Join (butlast parts) ''/'', last parts)
                           else (namespace, name))
                     else (namespace, name))
              in BuildPackageURL L purlType namespace name (Version i))))"

section \<open>Normalization before identity\<close>

text \<open>Each rule returns the rewritten record and the names of the rules that changed it.\<close>

definition changed :: "string \<Rightarrow> ('a \<Rightarrow> 'v) \<Rightarrow> 'a \<Rightarrow> 'a \<Rightarrow> string list" where
  "changed label get old new = (if get new \<noteq> get old then [label] else [])"

definition normSplitScopedNPMName :: "string \<Rightarrow> (string \<times> string) option" where
  "normSplitScopedNPMName name =
     (let trimmed = TrimSpace name in
      if \<not> HasPrefix trimmed ''@'' then None
      else (case cut CHR ''/'' (drop 1 trimmed) of
              None \<Rightarrow> None
            | Some (a, b) \<Rightarrow> if TrimSpace a = [] \<or> TrimSpace b = [] then None
                             else Some (TrimSpace a, TrimSpace b)))"

definition normNPM :: "coordinates \<Rightarrow> coordinates \<times> string list" where
  "normNPM pkg =
     (let (p1, a1) = (case normSplitScopedNPMName (Name pkg) of
                        Some (scope, name) \<Rightarrow> (pkg\<lparr>Org := scope, Name := name\<rparr>, [''npm-scope''])
                      | None \<Rightarrow> (pkg, []));
          p2 = p1\<lparr>Org := TrimPrefix (ToLower (Org p1)) ''@''\<rparr>;
          p3 = p2\<lparr>Name := ToLower (Name p2)\<rparr>
      in (p3, a1 @ changed ''org'' Org p1 p2 @ changed ''name'' Name p2 p3))"

fun collapse_loop :: "string \<Rightarrow> bool \<Rightarrow> string list \<Rightarrow> string" where
  "collapse_loop sep seen [] = []"
| "collapse_loop sep seen (r # rs) =
     (if r = sep then (if seen then collapse_loop sep True rs else WriteRune r @ collapse_loop sep True rs)
      else WriteRune r @ collapse_loop sep False rs)"

definition normCollapseRepeated :: "string \<Rightarrow> string \<Rightarrow> string" where
  "normCollapseRepeated value sep = collapse_loop sep False (chunks value)"

definition normCanonicalizePythonName :: "string \<Rightarrow> string" where
  "normCanonicalizePythonName name =
     (let lower = ToLower (TrimSpace name) in
      if lower = [] then []
      else (let replaced = concat (map (\<lambda>r. if r = ''-'' \<or> r = ''_'' \<or> r = ''.'' \<or> IsSpace r
                                           then ''-'' else lower_rune r) (chunks lower))
            in normCollapseRepeated (trim_byte CHR ''-'' replaced) ''-''))"

definition normPython :: "coordinates \<Rightarrow> coordinates \<times> string list" where
  "normPython pkg =
     (let p = pkg\<lparr>Name := normCanonicalizePythonName (Name pkg)\<rparr> in (p, changed ''name'' Name pkg p))"

definition normRust :: "coordinates \<Rightarrow> coordinates \<times> string list" where
  "normRust pkg =
     (let p = pkg\<lparr>Name := normCollapseRepeated
                 (ToLower (map (\<lambda>c. if c = CHR ''_'' then CHR ''-'' else c) (Name pkg))) ''-''\<rparr>
      in (p, changed ''name'' Name pkg p))"

definition normMaven :: "coordinates \<Rightarrow> coordinates \<times> string list" where
  "normMaven pkg =
     (let p1 = pkg\<lparr>Org := ToLower (Org pkg)\<rparr>; p2 = p1\<lparr>Name := TrimSpace (Name p1)\<rparr>
      in (p2, changed ''org'' Org pkg p1 @ changed ''name'' Name p1 p2))"

text \<open>\<open>strings.ReplaceAll(s, "//", "/")\<close>, applied until no \<open>//\<close> is left.\<close>

fun halve_slashes :: "string \<Rightarrow> string" where
  "halve_slashes (a # b # r) =
     (if a = CHR ''/'' \<and> b = CHR ''/'' then CHR ''/'' # halve_slashes r else a # halve_slashes (b # r))"
| "halve_slashes s = s"

lemma halve_slashes_length: "length (halve_slashes s) \<le> length s"
  by (induction s rule: halve_slashes.induct) auto

lemma halve_slashes_less: "Contains s ''//'' \<Longrightarrow> length (halve_slashes s) < length s"
proof (induction s rule: halve_slashes.induct)
  case (1 a b r)
  then show ?case
    using halve_slashes_length [of r] by (auto simp: Contains_def HasPrefix_def split: if_splits)
qed (auto simp: Contains_def HasPrefix_def)

function slash_loop :: "string \<Rightarrow> string" where
  "slash_loop s = (if Contains s ''//'' then slash_loop (halve_slashes s) else s)"
  by pat_completeness auto
termination
  by (relation "measure length") (auto simp: halve_slashes_less)

declare slash_loop.simps [simp del]

definition normNormalizeSlashPath :: "string \<Rightarrow> string" where
  "normNormalizeSlashPath value = slash_loop (trim_byte CHR ''/'' (slashes (TrimSpace value)))"

definition normGo :: "coordinates \<Rightarrow> coordinates \<times> string list" where
  "normGo pkg =
     (let p1 = pkg\<lparr>Org := normNormalizeSlashPath (Org pkg)\<rparr>;
          p2 = p1\<lparr>Name := normNormalizeSlashPath (Name p1)\<rparr>
      in (p2, changed ''org'' Org pkg p1 @ changed ''name'' Name p1 p2))"

definition normComposer :: "coordinates \<Rightarrow> coordinates \<times> string list" where
  "normComposer pkg =
     (if length (Version pkg) > 1 \<and> (hd (Version pkg) = CHR ''v'' \<or> hd (Version pkg) = CHR ''V'')
      then (pkg\<lparr>Version := tl (Version pkg)\<rparr>, [''version'']) else (pkg, []))"

definition normEffectiveEcosystem :: "coordinates \<Rightarrow> ecosystem" where
  "normEffectiveEcosystem pkg =
     (case CanonicalEcosystem [Ecosystem pkg, PackageManager_Name (PackageManager pkg), PkgType pkg] of
        None \<Rightarrow> [] | Some canonical \<Rightarrow> canonical)"

definition norm_by_ecosystem :: "coordinates \<Rightarrow> coordinates \<times> string list" where
  "norm_by_ecosystem pkg =
     (let e = normEffectiveEcosystem pkg in
      if e = ''npm'' then normNPM pkg else if e = ''python'' then normPython pkg
      else if e = ''rust'' then normRust pkg else if e = ''maven'' then normMaven pkg
      else if e = ''go'' then normGo pkg else if e = ''php'' then normComposer pkg
      else (pkg, []))"

definition NormalizeCoordinates :: "library \<Rightarrow> coordinates \<Rightarrow> coordinates \<times> string list" where
  "NormalizeCoordinates L pkg =
     (let p0 = pkg\<lparr>Name := TrimSpace (Name pkg), Org := TrimSpace (Org pkg),
                   Version := TrimSpace (Version pkg), PURL := TrimSpace (PURL pkg)\<rparr>;
          canonicalPURL = Canonicalize L (PURL p0);
          (p1, a1) = (if canonicalPURL \<noteq> [] \<and> canonicalPURL \<noteq> PURL p0
                      then (p0\<lparr>PURL := canonicalPURL\<rparr>, [''purl'']) else (p0, []));
          (p2, a2) = norm_by_ecosystem p1;
          canonical = CanonicalPURL L p2
      in (if canonical = [] then (p2, a1 @ a2)
          else (case purl_Parse L canonical of
                  Inl _ \<Rightarrow> (p2, a1 @ a2)
                | Inr parsed \<Rightarrow>
                    if PVersion parsed = Version p2 then (p2, a1 @ a2)
                    else (p2\<lparr>Version := PVersion parsed\<rparr>, a1 @ a2 @ [''version'']))))"

definition normUniqueStrings :: "string list \<Rightarrow> string list" where
  "normUniqueStrings values = rev (remdups (rev (filter (\<lambda>v. v \<noteq> []) values)))"

definition normalizeCoordinateVocabulary :: "coordinates \<Rightarrow> coordinates" where
  "normalizeCoordinateVocabulary coords =
     (let c = coords\<lparr>Ecosystem := ToLower (TrimSpace (Ecosystem coords)),
                     PackageManager := ToLower (TrimSpace (PackageManager_Name (PackageManager coords))),
                     PkgType := ToLower (TrimSpace (PkgType coords))\<rparr>;
          name = PackageManager_Name (PackageManager c)
      in (case CanonicalEcosystem [Ecosystem c, name, PkgType c] of
            None \<Rightarrow> c
          | Some canonical \<Rightarrow>
              if TypeForValues [Ecosystem c, name, PkgType c] = TypeForValues [canonical, name, PkgType c]
              then c\<lparr>Ecosystem := canonical\<rparr> else c))"

section \<open>Names: joining and splitting\<close>

lemma trimmed_ends:
  assumes "TrimSpace a = a" and "a \<noteq> []"
  shows "\<not> IsSpace (hd (chunks a))" and "\<not> IsSpace (last (chunks a))"
proof -
  let ?d = "dropWhile IsSpace (chunks a)"
  have ne: "chunks a \<noteq> []" using assms(2) by simp
  have eq: "rev (dropWhile IsSpace (rev ?d)) = chunks a"
    using assms(1) chunks_TrimSpace [of a] by simp
  have "length (dropWhile IsSpace (rev ?d)) = length (chunks a)"
    using arg_cong [OF eq, of length] by simp
  then have "length (chunks a) \<le> length ?d"
    using length_dropWhile_le [of IsSpace "rev ?d"] by simp
  then have d: "?d = chunks a"
    by (metis dropWhile_eq_drop_length drop_eq_Nil2 le_antisym length_drop length_dropWhile_le
        diff_diff_cancel diff_is_0_eq' drop0 le_zero_eq minus_nat.diff_0 diff_self_eq_0 length_takeWhile_le)
  then show "\<not> IsSpace (hd (chunks a))" using ne by (simp add: dropWhile_eq_self_iff)
  have "dropWhile IsSpace (rev (chunks a)) = rev (chunks a)"
    using eq d by (metis rev_rev_ident)
  then show "\<not> IsSpace (last (chunks a))" using ne by (simp add: dropWhile_eq_self_iff hd_rev)
qed

lemma TrimSpace_joined:
  assumes "TrimSpace a = a" and "a \<noteq> []" and "TrimSpace b = b" and "b \<noteq> []" and "byte c < 0x80"
  shows "TrimSpace (a @ c # b) = a @ c # b"
proof (rule TrimSpace_ends)
  have "chunks (a @ c # b) = chunks a @ [c] # chunks b"
    using assms(5) by (simp add: chunks_before_ascii chunks_ascii_Cons)
  then show "chunks (a @ c # b) \<noteq> []" "\<not> IsSpace (hd (chunks (a @ c # b)))"
    "\<not> IsSpace (last (chunks (a @ c # b)))"
    using trimmed_ends [OF assms(1,2)] trimmed_ends [OF assms(3,4)] assms(2,4) by simp_all
qed

lemma cut_joined: "c \<notin> set a \<Longrightarrow> cut c (a @ c # b) = Some (a, b)"
  by (induction a) (auto simp: cut_def)

lemma cut_last_joined: "c \<notin> set b \<Longrightarrow> cut_last c (a @ c # b) = Some (a, b)"
  using cut_joined [of c "rev b" "rev a"] by (simp add: cut_last_def)

definition separable :: "ecosystem \<Rightarrow> string \<Rightarrow> string \<Rightarrow> bool" where
  "separable e org name \<longleftrightarrow>
     (e = ''npm'' \<and> CHR ''/'' \<notin> set org \<and> \<not> HasPrefix org ''@'')
   \<or> ((e = ''maven'' \<or> e = ''scala'') \<and> CHR '':'' \<notin> set org)
   \<or> ((e = ''go'' \<or> e = ''php'' \<or> e = ''swift'' \<or> e = ''github-actions'') \<and> CHR ''/'' \<notin> set name)"

lemma joined_ecosystems_canonical:
  "e \<in> set [''npm'', ''maven'', ''scala'', ''go'', ''php'', ''swift'', ''github-actions''] \<Longrightarrow>
   CanonicalEcosystem [e] = Some e"
proof -
  have lower: "list_all (\<lambda>e. ToLower (TrimSpace e) = e)
      [''npm'', ''maven'', ''scala'', ''go'', ''php'', ''swift'', ''github-actions'']"
    by code_simp
  have row: "list_all (\<lambda>e. mget canonicalEcosystems e = Some e)
      [''npm'', ''maven'', ''scala'', ''go'', ''php'', ''swift'', ''github-actions'']"
    by code_simp
  show "e \<in> set [''npm'', ''maven'', ''scala'', ''go'', ''php'', ''swift'', ''github-actions''] \<Longrightarrow> ?thesis"
    using lower row unfolding list_all_iff by (simp only: CanonicalEcosystem.simps) (metis option.simps(5))
qed

section \<open>Properties\<close>

text \<open>The name an advisory database keys on splits back: for the ecosystems that join
  organization and name, \<open>SplitEcosystemName\<close> recovers both halves of \<open>EcosystemName\<close>, as long as
  the half next to the separator does not contain it.\<close>

lemma SplitEcosystemName_EcosystemName:
  assumes "TrimSpace (Org i) = Org i" and "TrimSpace (Name i) = Name i"
    and "Org i \<noteq> []" and "Name i \<noteq> []" and "separable (displayEcosystem i) (Org i) (Name i)"
  shows "SplitEcosystemName (displayEcosystem i) (EcosystemName i) = (Org i, Name i)"
proof -
  let ?e = "displayEcosystem i"
  have canonical: "CanonicalEcosystem [?e] = Some ?e"
    using assms(5) by (intro joined_ecosystems_canonical) (auto simp: separable_def)
  note joined = TrimSpace_joined [OF assms(1,3,2,4)]
  from assms(5) consider
      (npm) "?e = ''npm''" "CHR ''/'' \<notin> set (Org i)" "\<not> HasPrefix (Org i) ''@''"
    | (colon) "?e = ''maven'' \<or> ?e = ''scala''" "CHR '':'' \<notin> set (Org i)"
    | (path) "?e = ''go'' \<or> ?e = ''php'' \<or> ?e = ''swift'' \<or> ?e = ''github-actions''" "CHR ''/'' \<notin> set (Name i)"
    unfolding separable_def by blast
  then show ?thesis
  proof cases
    case npm
    have "TrimSpace (CHR ''@'' # (Org i @ CHR ''/'' # Name i)) = CHR ''@'' # (Org i @ CHR ''/'' # Name i)"
    proof (rule TrimSpace_ends)
      have at: "chunks (CHR ''@'' # (Org i @ CHR ''/'' # Name i)) = ''@'' # chunks (Org i @ CHR ''/'' # Name i)"
        by (simp add: chunks_ascii_Cons)
      show "chunks (CHR ''@'' # (Org i @ CHR ''/'' # Name i)) \<noteq> []" by simp
      show "\<not> IsSpace (hd (chunks (CHR ''@'' # (Org i @ CHR ''/'' # Name i))))"
        by (simp add: at IsSpace_def space_runes_def)
      show "\<not> IsSpace (last (chunks (CHR ''@'' # (Org i @ CHR ''/'' # Name i))))"
        using trimmed_ends(2) [OF joined [of "CHR ''/''"]] by (simp add: at)
    qed
    with npm canonical assms show ?thesis
      by (simp add: EcosystemName_def SplitEcosystemName_def Let_def TrimPrefix_def HasPrefix_def cut_joined)
  next
    case colon
    with canonical assms joined [of "CHR '':''"] show ?thesis
      by (auto simp: EcosystemName_def SplitEcosystemName_def Let_def cut_joined)
  next
    case path
    with canonical assms joined [of "CHR ''/''"] show ?thesis
      by (auto simp: EcosystemName_def SplitEcosystemName_def Let_def cut_last_joined)
  qed
qed

end
