(* ===== verification/Kinds.thy ===== *)
theory Kinds
  imports Scopes
begin

text \<open>
  The vocabularies of edges, relationships and node kinds: \<^verbatim>\<open>model/edge.go\<close>,
  \<^verbatim>\<open>model/relationship.go\<close> and the kind constants of \<^verbatim>\<open>model/node.go\<close>. The values are
  strings, as in the code, since a payload can carry any token.
\<close>

datatype kind_error = TokenTooLong nat nat | UnsupportedToken string

section \<open>Edge kinds\<close>

type_synonym edge_kind = string

abbreviation EdgeKindUnknown :: edge_kind where "EdgeKindUnknown \<equiv> []"
abbreviation EdgeKindDependsOn :: edge_kind where "EdgeKindDependsOn \<equiv> ''depends-on''"
abbreviation EdgeKindDescribes :: edge_kind where "EdgeKindDescribes \<equiv> ''describes''"

definition ParseEdgeKind :: "string \<Rightarrow> kind_error + edge_kind" where
  "ParseEdgeKind value =
     (if length value > maxVocabularyTokenLength then Inl (TokenTooLong (length value) maxVocabularyTokenLength)
      else (let kind = ToLower (TrimSpace value)
            in if kind = EdgeKindUnknown \<or> kind = EdgeKindDependsOn \<or> kind = EdgeKindDescribes
               then Inr kind else Inl (UnsupportedToken value)))"

definition edge_kind_rank :: "edge_kind \<Rightarrow> nat" where
  "edge_kind_rank kind = (if kind = EdgeKindDependsOn then 1 else 0)"

definition MergeEdgeKind :: "edge_kind \<Rightarrow> edge_kind \<Rightarrow> edge_kind" where
  "MergeEdgeKind current nxt = MergeStrongest EdgeKindUnknown edge_kind_rank current nxt"

definition edge_kind_vocab :: "edge_kind set" where
  "edge_kind_vocab = {EdgeKindUnknown, EdgeKindDependsOn, EdgeKindDescribes}"

lemma MergeEdgeKind_eq: "MergeEdgeKind a b =
    (if b = EdgeKindUnknown then a else if a = EdgeKindUnknown then b
     else if b = EdgeKindDependsOn \<and> a \<noteq> EdgeKindDependsOn then b else a)"
  by (simp add: MergeEdgeKind_def MergeStrongest_def edge_kind_rank_def)

interpretation edge_merge: witness_merge MergeEdgeKind edge_kind_vocab
  by unfold_locales (auto simp: edge_kind_vocab_def MergeEdgeKind_eq)

section \<open>Relationships\<close>

type_synonym relationship = string

abbreviation DependencyRelationshipDirect :: relationship where
  "DependencyRelationshipDirect \<equiv> ''direct''"
abbreviation DependencyRelationshipTransitive :: relationship where
  "DependencyRelationshipTransitive \<equiv> ''transitive''"
abbreviation DependencyRelationshipUnknown :: relationship where
  "DependencyRelationshipUnknown \<equiv> ''unknown''"

definition ParseDependencyRelationship :: "string \<Rightarrow> relationship" where
  "ParseDependencyRelationship value =
     (let v = ToLower (TrimSpace value)
      in if v = DependencyRelationshipDirect then DependencyRelationshipDirect
         else if v = DependencyRelationshipTransitive then DependencyRelationshipTransitive
         else if v = DependencyRelationshipUnknown then DependencyRelationshipUnknown
         else [])"

definition relationship_rank :: "relationship \<Rightarrow> nat" where
  "relationship_rank value =
     (if value = DependencyRelationshipDirect then 3
      else if value = DependencyRelationshipTransitive then 2
      else if value = DependencyRelationshipUnknown then 1
      else 0)"

definition MergeDependencyRelationship :: "relationship \<Rightarrow> relationship \<Rightarrow> relationship" where
  "MergeDependencyRelationship current nxt =
     (if relationship_rank nxt > relationship_rank current then nxt else current)"

definition relationship_vocab :: "relationship set" where
  "relationship_vocab = {[], DependencyRelationshipDirect, DependencyRelationshipTransitive,
     DependencyRelationshipUnknown}"

interpretation relationship_merge: witness_merge MergeDependencyRelationship relationship_vocab
  by unfold_locales
    (auto simp: relationship_vocab_def MergeDependencyRelationship_def relationship_rank_def)

section \<open>Node kinds\<close>

type_synonym node_kind = string

abbreviation NodeKindManifest :: node_kind where "NodeKindManifest \<equiv> ''manifest''"
abbreviation NodeKindModule :: node_kind where "NodeKindModule \<equiv> ''module''"
abbreviation NodeKindDependency :: node_kind where "NodeKindDependency \<equiv> ''dependency''"

definition ParseNodeKind :: "string \<Rightarrow> kind_error + node_kind" where
  "ParseNodeKind value =
     (if value = NodeKindManifest \<or> value = NodeKindModule \<or> value = NodeKindDependency
      then Inr value else Inl (UnsupportedToken value))"

lemma ParseEdgeKind_fixed: "k \<in> edge_kind_vocab \<Longrightarrow> ParseEdgeKind k = Inr k"
proof -
  have "ParseEdgeKind EdgeKindUnknown = Inr EdgeKindUnknown"
    "ParseEdgeKind EdgeKindDependsOn = Inr EdgeKindDependsOn"
    "ParseEdgeKind EdgeKindDescribes = Inr EdgeKindDescribes"
    by code_simp+
  then show "k \<in> edge_kind_vocab \<Longrightarrow> ?thesis" by (auto simp: edge_kind_vocab_def)
qed

lemma ParseEdgeKind_vocab: "ParseEdgeKind v = Inr k \<Longrightarrow> k \<in> edge_kind_vocab"
  by (auto simp: ParseEdgeKind_def edge_kind_vocab_def Let_def split: if_splits)

end
