(* ===== verification/Locations.thy ===== *)
theory Locations
  imports Kinds "HOL-Library.Option_ord"
begin

text \<open>
  Declaration sites: \<open>SourcePosition\<close> (\<^verbatim>\<open>model/vulnerability.go\<close>), \<open>PackageLocation\<close>
  (\<^verbatim>\<open>model/package.go\<close>) and the fold of locations by usage record of \<^verbatim>\<open>model/graph.go\<close>
  and \<^verbatim>\<open>model/container.go\<close>. The last section shows that the canonical form does not depend on
  the order in which the sites were visited.
\<close>

section \<open>Data\<close>

record source_position =
  File :: string
  Line :: int
  Column :: int
  EndLine :: int

definition IsZero :: "source_position \<Rightarrow> bool" where
  "IsZero p \<longleftrightarrow> File p = [] \<and> Line p = 0 \<and> Column p = 0 \<and> EndLine p = 0"

record package_location =
  RealPath :: string
  AccessPath :: string
  Position :: "source_position option"
  ModuleRoot :: string
  LocScopes :: "scope list"
  LocRelationship :: relationship

section \<open>The fold by usage record\<close>

definition sourcePositionsEqual :: "source_position option \<Rightarrow> source_position option \<Rightarrow> bool" where
  "sourcePositionsEqual a b =
     (case (a, b) of
        (Some p, Some q) \<Rightarrow> File p = File q \<and> Line p = Line q \<and> Column p = Column q \<and> EndLine p = EndLine q
      | (None, None) \<Rightarrow> True
      | _ \<Rightarrow> False)"

fun usageRecordIndex :: "package_location list \<Rightarrow> package_location \<Rightarrow> nat option" where
  "usageRecordIndex [] loc = None"
| "usageRecordIndex (e # es) loc =
     (if RealPath e \<noteq> RealPath loc \<or> AccessPath e \<noteq> AccessPath loc \<or> ModuleRoot e \<noteq> ModuleRoot loc
      then map_option Suc (usageRecordIndex es loc)
      else if sourcePositionsEqual (Position e) (Position loc) then Some 0
      else map_option Suc (usageRecordIndex es loc))"

definition mergeUsageRecord :: "package_location \<Rightarrow> package_location \<Rightarrow> package_location" where
  "mergeUsageRecord dst src =
     dst\<lparr>LocScopes := mergeScopeSet (LocScopes dst) (LocScopes src),
         LocRelationship := MergeDependencyRelationship (LocRelationship dst) (LocRelationship src)\<rparr>"

definition mergeNodeLocation :: "package_location list \<Rightarrow> package_location \<Rightarrow> package_location list" where
  "mergeNodeLocation dst location =
     (case usageRecordIndex dst location of
        Some i \<Rightarrow> dst[i := mergeUsageRecord (dst ! i) location]
      | None \<Rightarrow> dst @ [location])"

definition mergeNodeLocations :: "package_location list \<Rightarrow> package_location list \<Rightarrow> package_location list" where
  "mergeNodeLocations dst additions = foldl mergeNodeLocation dst additions"

section \<open>Ordering\<close>

definition cmp :: "'a :: linorder \<Rightarrow> 'a \<Rightarrow> int" where
  "cmp a b = (if a < b then -1 else if a > b then 1 else 0)"

definition compareUsageRecords :: "package_location \<Rightarrow> package_location \<Rightarrow> int" where
  "compareUsageRecords a b =
     (if cmp (RealPath a) (RealPath b) \<noteq> 0 then cmp (RealPath a) (RealPath b)
      else if cmp (AccessPath a) (AccessPath b) \<noteq> 0 then cmp (AccessPath a) (AccessPath b)
      else if cmp (ModuleRoot a) (ModuleRoot b) \<noteq> 0 then cmp (ModuleRoot a) (ModuleRoot b)
      else (case (Position a, Position b) of
          (None, None) \<Rightarrow> 0
        | (None, Some _) \<Rightarrow> -1
        | (Some _, None) \<Rightarrow> 1
        | (Some p, Some q) \<Rightarrow>
            if cmp (File p) (File q) \<noteq> 0 then cmp (File p) (File q)
            else if cmp (Line p) (Line q) \<noteq> 0 then cmp (Line p) (Line q)
            else if cmp (Column p) (Column q) \<noteq> 0 then cmp (Column p) (Column q)
            else cmp (EndLine p) (EndLine q)))"

text \<open>\<open>slices.SortStableFunc\<close>: a stable sort by a three-way comparison.\<close>

fun insert_cmp :: "('a \<Rightarrow> 'a \<Rightarrow> int) \<Rightarrow> 'a \<Rightarrow> 'a list \<Rightarrow> 'a list" where
  "insert_cmp c x [] = [x]"
| "insert_cmp c x (y # ys) = (if c x y \<le> 0 then x # y # ys else y # insert_cmp c x ys)"

definition SortStableFunc :: "('a \<Rightarrow> 'a \<Rightarrow> int) \<Rightarrow> 'a list \<Rightarrow> 'a list" where
  "SortStableFunc c xs = foldr (insert_cmp c) xs []"

definition CanonicalLocations :: "package_location list \<Rightarrow> package_location list" where
  "CanonicalLocations locations =
     (if locations = [] then []
      else (let out = mergeNodeLocations [] locations;
                out = map (\<lambda>l. l\<lparr>LocScopes := mergeScopeSet (LocScopes l) []\<rparr>) out
            in SortStableFunc compareUsageRecords out))"

section \<open>What names a usage\<close>

definition position_key :: "source_position \<Rightarrow> string \<times> int \<times> int \<times> int" where
  "position_key p = (File p, Line p, Column p, EndLine p)"

definition usage_key ::
  "package_location \<Rightarrow> string \<times> string \<times> string \<times> (string \<times> int \<times> int \<times> int) option" where
  "usage_key l = (RealPath l, AccessPath l, ModuleRoot l, map_option position_key (Position l))"

lemma cmp_zero [simp]: "cmp a b = 0 \<longleftrightarrow> a = b"
  by (auto simp: cmp_def)

lemma cmp_prod: "cmp (a, b) (c, d) = (if cmp a c \<noteq> 0 then cmp a c else cmp b d)"
  by (auto simp: cmp_def less_prod_def')

lemma cmp_option: "cmp None None = 0" "cmp None (Some x) = -1" "cmp (Some x) None = 1"
  "cmp (Some x) (Some y) = cmp x y"
  by (simp_all add: cmp_def)

lemma compareUsageRecords_key: "compareUsageRecords a b = cmp (usage_key a) (usage_key b)"
  by (simp add: compareUsageRecords_def usage_key_def position_key_def cmp_prod cmp_option
      split: option.splits)

lemma SortStableFunc_key: "SortStableFunc (\<lambda>a b. cmp (k a) (k b)) xs = sort_key k xs"
proof -
  have "insert_cmp (\<lambda>a b. cmp (k a) (k b)) x ys = insort_key k x ys" for x ys
    by (induction ys) (auto simp: cmp_def)
  then show ?thesis by (induction xs) (simp_all add: SortStableFunc_def)
qed

lemma sourcePositionsEqual_key:
  "sourcePositionsEqual p q \<longleftrightarrow> map_option position_key p = map_option position_key q"
  by (auto simp: sourcePositionsEqual_def position_key_def split: option.splits)

lemma usageRecordIndex_None: "usageRecordIndex es l = None \<longleftrightarrow> usage_key l \<notin> usage_key ` set es"
  by (induction es) (auto simp: usage_key_def sourcePositionsEqual_key)

lemma usageRecordIndex_Some:
  "usageRecordIndex es l = Some i \<Longrightarrow> i < length es \<and> usage_key (es ! i) = usage_key l"
  by (induction es arbitrary: i) (auto simp: usage_key_def sourcePositionsEqual_key split: if_splits)

lemma usage_key_mergeUsageRecord [simp]: "usage_key (mergeUsageRecord a b) = usage_key a"
  by (simp add: usage_key_def mergeUsageRecord_def)

lemma usage_keys_mergeNodeLocation: "map usage_key (mergeNodeLocation dst l) =
    (if usage_key l \<in> usage_key ` set dst then map usage_key dst else map usage_key dst @ [usage_key l])"
proof (cases "usageRecordIndex dst l")
  case None
  then show ?thesis
    using usageRecordIndex_None [of dst l] by (simp add: mergeNodeLocation_def)
next
  case (Some i)
  with usageRecordIndex_Some [OF Some] usageRecordIndex_None [of dst l] show ?thesis
    by (auto simp: mergeNodeLocation_def map_update) (metis list_update_id nth_map)
qed

lemma distinct_usage_keys:
  "distinct (map usage_key dst) \<Longrightarrow> distinct (map usage_key (mergeNodeLocations dst ls))"
  unfolding mergeNodeLocations_def
proof (induction ls arbitrary: dst)
  case (Cons l ls)
  then have "distinct (map usage_key (mergeNodeLocation dst l))"
    by (auto simp: usage_keys_mergeNodeLocation simp del: map_map)
  with Cons.IH show ?case by simp
qed simp

lemma set_usage_keys:
  "usage_key ` set (mergeNodeLocations dst ls) = usage_key ` set dst \<union> usage_key ` set ls"
  unfolding mergeNodeLocations_def
proof (induction ls arbitrary: dst)
  case (Cons l ls)
  have "usage_key ` set (mergeNodeLocation dst l) = insert (usage_key l) (usage_key ` set dst)"
    using arg_cong [OF usage_keys_mergeNodeLocation [of dst l], of set]
    by (auto split: if_splits)
  with Cons.IH show ?case by auto
qed simp

section \<open>The canonical form\<close>

definition norm_scopes :: "package_location \<Rightarrow> package_location" where
  "norm_scopes l = l\<lparr>LocScopes := mergeScopeSet (LocScopes l) []\<rparr>"

lemma CanonicalLocations_eq:
  "CanonicalLocations ls = sort_key usage_key (map norm_scopes (mergeNodeLocations [] ls))"
proof -
  have c: "compareUsageRecords = (\<lambda>a b. cmp (usage_key a) (usage_key b))"
    by (simp add: compareUsageRecords_key fun_eq_iff)
  show ?thesis
    by (cases ls) (simp_all add: CanonicalLocations_def c SortStableFunc_key mergeNodeLocations_def
        Let_def norm_scopes_def [abs_def])
qed

text \<open>What the records of one usage add up to: the union of their scopes and the strongest of
  their relationships.\<close>

definition same_usage :: "package_location list \<Rightarrow> package_location \<Rightarrow> package_location list" where
  "same_usage ls l = filter (\<lambda>m. usage_key m = usage_key l) ls"

definition usage_summary :: "package_location list \<Rightarrow> package_location \<Rightarrow> package_location" where
  "usage_summary ls l =
     l\<lparr>LocScopes := mergeScopeSet (concat (map LocScopes (same_usage ls l))) [],
       LocRelationship := (case map LocRelationship (same_usage ls l) of [] \<Rightarrow> [] | r # rs \<Rightarrow> foldl MergeDependencyRelationship r rs)\<rparr>"

lemma mergeScopeSet_cong:
  "set a \<union> set b - {ScopeUnknown} = set c \<union> set d - {ScopeUnknown} \<Longrightarrow> mergeScopeSet a b = mergeScopeSet c d"
  by (simp add: mergeScopeSet_eq)

lemma position_key_inj: "map_option position_key p = map_option position_key q \<Longrightarrow> p = q"
  by (cases p; cases q) (auto simp: position_key_def)

lemma location_eqI:
  "usage_key a = usage_key b \<Longrightarrow> LocScopes a = LocScopes b \<Longrightarrow> LocRelationship a = LocRelationship b \<Longrightarrow> a = b"
  by (auto simp: usage_key_def dest!: position_key_inj)

lemma usage_key_norm_scopes [simp]: "usage_key (norm_scopes l) = usage_key l"
  and usage_key_summary [simp]: "usage_key (usage_summary ls l) = usage_key l"
  by (simp_all add: usage_key_def norm_scopes_def usage_summary_def)

lemma same_usage_cong: "usage_key a = usage_key b \<Longrightarrow> same_usage ls a = same_usage ls b"
  by (simp add: same_usage_def)

lemma mergeNodeLocations_snoc:
  "mergeNodeLocations dst (ls @ [l]) = mergeNodeLocation (mergeNodeLocations dst ls) l"
  by (simp add: mergeNodeLocations_def)

lemma mergeNodeLocation_mem:
  assumes "distinct (map usage_key dst)" and "r \<in> set (mergeNodeLocation dst l)"
  shows "(r \<in> set dst \<and> usage_key r \<noteq> usage_key l)
    \<or> (r = l \<and> usage_key l \<notin> usage_key ` set dst)
    \<or> (\<exists>d \<in> set dst. usage_key d = usage_key l \<and> r = mergeUsageRecord d l)"
proof (cases "usageRecordIndex dst l")
  case None
  then have fresh: "usage_key l \<notin> usage_key ` set dst" by (simp add: usageRecordIndex_None)
  moreover have "r \<in> set dst \<or> r = l"
    using assms(2) None by (auto simp: mergeNodeLocation_def)
  ultimately show ?thesis by (metis imageI)
next
  case (Some i)
  note i = usageRecordIndex_Some [OF Some]
  from assms(2) Some obtain j where j: "j < length dst" "r = dst[i := mergeUsageRecord (dst ! i) l] ! j"
    by (auto simp: mergeNodeLocation_def in_set_conv_nth)
  show ?thesis
  proof (cases "j = i")
    case True
    with i j show ?thesis by (auto intro: nth_mem)
  next
    case False
    then have "usage_key (dst ! j) \<noteq> usage_key (dst ! i)"
      using assms(1) i j by (metis distinct_conv_nth length_map nth_map)
    with False i j show ?thesis by (auto intro: nth_mem)
  qed
qed

lemma merged_is_summary:
  assumes "r \<in> set (mergeNodeLocations [] ls)"
  shows "norm_scopes r = usage_summary ls r"
  using assms
proof (induction ls arbitrary: r rule: rev_induct)
  case Nil
  then show ?case by (simp add: mergeNodeLocations_def)
next
  case (snoc l ls)
  let ?out = "mergeNodeLocations [] ls"
  have dist: "distinct (map usage_key ?out)" by (rule distinct_usage_keys) simp
  have keys: "usage_key ` set ?out = usage_key ` set ls"
    by (simp add: set_usage_keys)
  have "r \<in> set (mergeNodeLocation ?out l)"
    using snoc.prems by (simp add: mergeNodeLocations_snoc)
  from mergeNodeLocation_mem [OF dist this] show ?case
  proof (elim disjE conjE bexE)
    assume "r \<in> set ?out" "usage_key r \<noteq> usage_key l"
    with snoc.IH [of r] show ?thesis by (simp add: usage_summary_def same_usage_def)
  next
    assume r: "r = l" and fresh: "usage_key l \<notin> usage_key ` set ?out"
    have "filter (\<lambda>m. usage_key m = usage_key l) ls = []"
      using fresh unfolding keys filter_empty_conv by (metis imageI)
    with r show ?thesis
      by (simp add: usage_summary_def same_usage_def norm_scopes_def)
  next
    fix d assume d: "d \<in> set ?out" "usage_key d = usage_key l" "r = mergeUsageRecord d l"
    have ne: "same_usage ls l \<noteq> []"
    proof -
      have "usage_key l \<in> usage_key ` set ls" using d(1,2) unfolding keys [symmetric] by (metis imageI)
      then show ?thesis by (auto simp: same_usage_def filter_empty_conv)
    qed
    then obtain x xs where x: "same_usage ls l = x # xs" by (cases "same_usage ls l") auto
    have s: "mergeScopeSet (LocScopes d) [] = mergeScopeSet (concat (map LocScopes (same_usage ls l))) []"
      and rel: "LocRelationship d = foldl MergeDependencyRelationship (LocRelationship x) (map LocRelationship xs)"
      using snoc.IH [OF d(1)] same_usage_cong [OF d(2)] x
      by (auto simp: norm_scopes_def usage_summary_def dest: arg_cong [of _ _ LocScopes] arg_cong [of _ _ LocRelationship])
    have sc: "set (LocScopes d) - {ScopeUnknown} = set (concat (map LocScopes (same_usage ls l))) - {ScopeUnknown}"
      using arg_cong [OF s, of set] by (simp add: set_mergeScopeSet)
    have su: "same_usage (ls @ [l]) r = same_usage ls l @ [l]"
      using d(2,3) by (simp add: same_usage_def)
    have r: "LocScopes r = mergeScopeSet (LocScopes d) (LocScopes l)"
      "LocRelationship r = MergeDependencyRelationship (LocRelationship d) (LocRelationship l)"
      using d(3) by (simp_all add: mergeUsageRecord_def)
    show ?thesis
    proof (rule location_eqI)
      have "mergeScopeSet (mergeScopeSet (LocScopes d) (LocScopes l)) [] =
          mergeScopeSet (concat (map LocScopes (same_usage ls l)) @ LocScopes l) []"
        using sc by (intro mergeScopeSet_cong) (auto simp: set_mergeScopeSet simp del: set_concat)
      then show "LocScopes (norm_scopes r) = LocScopes (usage_summary (ls @ [l]) r)"
        using r(1) by (simp add: norm_scopes_def usage_summary_def su)
      show "LocRelationship (norm_scopes r) = LocRelationship (usage_summary (ls @ [l]) r)"
        using r(2) rel by (simp add: norm_scopes_def usage_summary_def su x)
    qed simp
  qed
qed

text \<open>The strongest of the relationships stated: those of the vocabulary have ranks of their own, and
  of those outside it, absence included, the first is kept. So the order does not matter where no
  usage has two different ones of rank zero.\<close>

definition agreed_relationships :: "package_location list \<Rightarrow> bool" where
  "agreed_relationships ls \<longleftrightarrow>
     (\<forall>a \<in> set ls. \<forall>b \<in> set ls. usage_key a = usage_key b \<and> relationship_rank (LocRelationship a) = 0
        \<and> relationship_rank (LocRelationship b) = 0 \<longrightarrow> LocRelationship a = LocRelationship b)"

lemma strongest:
  "foldl MergeDependencyRelationship r rs \<in> set (r # rs)
   \<and> (\<forall>x \<in> set (r # rs). relationship_rank x \<le> relationship_rank (foldl MergeDependencyRelationship r rs))"
proof (induction rs arbitrary: r)
  case (Cons a rs)
  let ?m = "MergeDependencyRelationship r a"
  have "?m \<in> {r, a}" "relationship_rank r \<le> relationship_rank ?m" "relationship_rank a \<le> relationship_rank ?m"
    by (auto simp: MergeDependencyRelationship_def)
  then show ?case using Cons.IH [of ?m] by auto
qed simp

lemma rank_inj: "relationship_rank x = relationship_rank y \<Longrightarrow> relationship_rank x \<noteq> 0 \<Longrightarrow> x = y"
  by (auto simp: relationship_rank_def split: if_splits)

lemma strongest_cong:
  assumes "set (r # rs) = set (q # qs)"
    and "\<forall>x \<in> set (r # rs). \<forall>y \<in> set (r # rs). relationship_rank x = 0 \<and> relationship_rank y = 0 \<longrightarrow> x = y"
  shows "foldl MergeDependencyRelationship r rs = foldl MergeDependencyRelationship q qs"
proof -
  let ?a = "foldl MergeDependencyRelationship r rs" and ?b = "foldl MergeDependencyRelationship q qs"
  have m: "?a \<in> set (r # rs)" "?b \<in> set (r # rs)" using strongest [of r rs] strongest [of q qs] assms(1) by blast+
  then have "relationship_rank ?a = relationship_rank ?b"
    using strongest [of r rs] strongest [of q qs] assms(1) by (metis le_antisym)
  then show ?thesis using rank_inj [of ?a ?b] assms(2) m by metis
qed

lemma usage_summary_cong:
  assumes "set xs = set ys" and "agreed_relationships xs" and "usage_key a = usage_key b"
  shows "usage_summary xs a = usage_summary ys b"
proof (rule location_eqI)
  have su: "set (same_usage xs a) = set (same_usage ys b)"
    using assms(1,3) by (auto simp: same_usage_def)
  show "LocScopes (usage_summary xs a) = LocScopes (usage_summary ys b)"
    using su by (auto simp: usage_summary_def intro!: mergeScopeSet_cong)
  show "LocRelationship (usage_summary xs a) = LocRelationship (usage_summary ys b)"
  proof (cases "same_usage xs a")
    case Nil
    then show ?thesis using su by (simp add: usage_summary_def)
  next
    case (Cons p ps)
    then obtain q qs where q: "same_usage ys b = q # qs" using su by (cases "same_usage ys b") auto
    have eq: "set (map LocRelationship (p # ps)) = set (map LocRelationship (q # qs))" using su Cons q by (metis list.set_map)
    have in_xs: "l \<in> set xs \<and> usage_key l = usage_key a" if "l \<in> set (p # ps)" for l
      using that unfolding Cons [symmetric] same_usage_def by simp
    have "x = y" if "x \<in> set (map LocRelationship (p # ps))" "y \<in> set (map LocRelationship (p # ps))"
      "relationship_rank x = 0" "relationship_rank y = 0" for x y
      using that in_xs assms(2) unfolding agreed_relationships_def set_map by (elim imageE) metis
    note same = this [unfolded list.map]
    have "foldl MergeDependencyRelationship (LocRelationship p) (map LocRelationship ps) =
        foldl MergeDependencyRelationship (LocRelationship q) (map LocRelationship qs)"
      by (rule strongest_cong [OF eq [unfolded list.map]]) (use same in blast)
    then show ?thesis by (simp add: usage_summary_def Cons q)
  qed
qed (use assms(3) in simp)

text \<open>The canonical location list of a dependency depends only on the set of sites that
  witnessed it: two graphs that visited the same sites in another order, or more than once,
  publish the same list.\<close>

lemma CanonicalLocations_order_independent:
  assumes eq: "set xs = set ys" and agreed: "agreed_relationships xs"
  shows "CanonicalLocations xs = CanonicalLocations ys"
proof -
  have agreed': "agreed_relationships ys" using assms by (simp add: agreed_relationships_def)
  have sub: "set (map norm_scopes (mergeNodeLocations [] as)) \<subseteq> set (map norm_scopes (mergeNodeLocations [] bs))"
    if "set as = set bs" "agreed_relationships as" for as bs
  proof
    fix n assume "n \<in> set (map norm_scopes (mergeNodeLocations [] as))"
    then obtain r where r: "r \<in> set (mergeNodeLocations [] as)" "n = norm_scopes r" by auto
    then have "usage_key r \<in> usage_key ` set (mergeNodeLocations [] bs)"
      using set_usage_keys [of "[]" as] set_usage_keys [of "[]" bs] that(1) by auto
    then obtain r' where r': "r' \<in> set (mergeNodeLocations [] bs)" "usage_key r' = usage_key r" by auto
    have "norm_scopes r = norm_scopes r'"
      using merged_is_summary [OF r(1)] merged_is_summary [OF r'(1)] usage_summary_cong [OF that] r'(2) by metis
    with r r' show "n \<in> set (map norm_scopes (mergeNodeLocations [] bs))" by auto
  qed
  have dist: "distinct (map usage_key (map norm_scopes (mergeNodeLocations [] zs)))" for zs
    using distinct_usage_keys [of "[]" zs] by (simp add: comp_def)
  show ?thesis
    unfolding CanonicalLocations_eq
    using sub [OF eq agreed] sub [OF eq [symmetric] agreed'] dist by (intro sort_key_cong_set) auto
qed

text \<open>The canonical form is a fixed point: canonicalising a published list again changes
  nothing.\<close>

lemma CanonicalLocations_idempotent:
  "CanonicalLocations (CanonicalLocations ls) = CanonicalLocations ls"
proof -
  let ?c = "CanonicalLocations ls"
  have dist: "distinct (map usage_key ?c)"
    using distinct_usage_keys [of "[]" ls]
    by (simp add: CanonicalLocations_eq distinct_map_sort_key comp_def)
  have append: "distinct (map usage_key (ms @ as)) \<Longrightarrow> mergeNodeLocations ms as = ms @ as" for ms as
  proof (induction as arbitrary: ms)
    case (Cons a as)
    then have "mergeNodeLocation ms a = ms @ [a]"
      by (auto simp: mergeNodeLocation_def usageRecordIndex_None split: option.splits
          dest: usageRecordIndex_Some)
         (metis imageI nth_mem option.discI usageRecordIndex_None usageRecordIndex_Some)
    with Cons.IH [of "ms @ [a]"] Cons.prems show ?case by (simp add: mergeNodeLocations_def)
  qed (simp add: mergeNodeLocations_def)
  have "\<forall>r \<in> set ?c. norm_scopes r = r"
    by (auto simp: CanonicalLocations_eq norm_scopes_def mergeScopeSet_idem)
  then have "map norm_scopes (mergeNodeLocations [] ?c) = ?c"
    using append [of "[]" ?c] dist by (simp add: map_idI)
  then show ?thesis
    by (subst CanonicalLocations_eq)
      (simp add: sort_key_id_if_sorted CanonicalLocations_eq [of ls])
qed

end
