(* ===== verification/RepoPath.thy ===== *)
theory RepoPath
  imports GoStrings
begin

text \<open>
  The gate every path that takes part in a node's identity passes, \<open>CanonicalRepoPath\<close> of
  \<^verbatim>\<open>model/node.go\<close>, over Go's \<open>path.Clean\<close>: trim and clean to a fixed point, then refuse what is
  empty, absolute, carries a drive letter, a \<open>#\<close> or a control byte, or leaves the repository.
\<close>

section \<open>path.Clean\<close>

text \<open>The components in order over a stack of the ones kept; \<open>..\<close> removes the component before it
  unless there is none left to remove.\<close>

fun clean_comps :: "bool \<Rightarrow> string list \<Rightarrow> string list \<Rightarrow> string list" where
  "clean_comps rooted stack [] = rev stack"
| "clean_comps rooted stack (c # cs) =
     (if c = [] \<or> c = ''.'' then clean_comps rooted stack cs
      else if c = ''..''
      then (case stack of
              [] \<Rightarrow> if rooted then clean_comps rooted [] cs else clean_comps rooted [c] cs
            | s # ss \<Rightarrow> if s = ''..'' then clean_comps rooted (c # stack) cs else clean_comps rooted ss cs)
      else clean_comps rooted (c # stack) cs)"

definition Clean :: "string \<Rightarrow> string" where
  "Clean path =
     (if path = [] then ''.''
      else if hd path = CHR ''/''
      then CHR ''/'' # Join (clean_comps True [] (split_on CHR ''/'' (tl path))) ''/''
      else (let kept = clean_comps False [] (split_on CHR ''/'' path) in
            if kept = [] then ''.'' else Join kept ''/''))"

definition comp_total :: "string list \<Rightarrow> nat" where
  "comp_total cs = sum_list (map (\<lambda>c. length c + 1) cs)"

lemma comp_total_simps [simp]: "comp_total [] = 0" "comp_total (c # cs) = length c + 1 + comp_total cs"
  "comp_total (cs @ ds) = comp_total cs + comp_total ds" "comp_total (rev cs) = comp_total cs"
  by (simp_all add: comp_total_def rev_map [symmetric] sum_list_rev)

lemma length_Join: "cs \<noteq> [] \<Longrightarrow> length (Join cs ''/'') + 1 = comp_total cs"
  by (induction cs "''/''" rule: Join.induct) auto

lemma Join_split_on: "Join (split_on c s) [c] = s"
proof (induction s)
  case (Cons d s)
  then show ?case by (cases "split_on c s" rule: list.exhaust; cases "tl (split_on c s)") auto
qed simp

lemma total_split_on: "comp_total (split_on CHR ''/'' s) = length s + 1"
  using length_Join [of "split_on CHR ''/'' s"] by (simp add: Join_split_on)

lemma clean_comps_total:
  "comp_total (clean_comps rooted stack cs) < comp_total stack + comp_total cs \<or> clean_comps rooted stack cs = rev stack @ cs"
proof (induction rooted stack cs rule: clean_comps.induct)
  case (2 rooted stack c cs)
  show ?case
  proof (cases "c = [] \<or> c = ''.''")
    case True
    with 2(1) have "comp_total (clean_comps rooted stack cs) \<le> comp_total stack + comp_total cs"
      by (auto simp: less_imp_le)
    with True show ?thesis by auto
  next
    case False
    note c = this
    show ?thesis
    proof (cases "c = ''..''")
      case True
      show ?thesis
      proof (cases stack)
        case Nil
        with True 2(2,3) show ?thesis by (cases rooted) (auto simp: less_imp_le)
      next
        case (Cons s ss)
        with True 2(4,5) show ?thesis by (cases "s = ''..''") auto
      qed
    next
      case False
      with c 2(6) show ?thesis by auto
    qed
  qed
qed simp

lemma Clean_shorter: "s \<noteq> [] \<Longrightarrow> length (Clean s) < length s \<or> Clean s = s"
proof -
  assume ne: "s \<noteq> []"
  show ?thesis
  proof (cases "hd s = CHR ''/''")
    case True
    let ?cs = "split_on CHR ''/'' (tl s)"
    let ?k = "clean_comps True [] ?cs"
    have s: "s = CHR ''/'' # tl s" using ne True by (cases s) auto
    have len: "length s = comp_total ?cs" using ne by (cases s) (simp_all add: total_split_on)
    have C: "Clean s = CHR ''/'' # Join ?k ''/''" using ne True by (simp add: Clean_def)
    show ?thesis
    proof (cases "?k = ?cs \<or> tl s = []")
      case True
      then show ?thesis
      proof
        assume "?k = ?cs"
        then have "Join ?k ''/'' = tl s" by (simp only: Join_split_on)
        then have "Clean s = s" using C s by (simp only:)
        then show ?thesis by simp
      qed (use C s in simp)
    next
      case False
      then have "comp_total ?k < comp_total ?cs" using clean_comps_total [of True "[]" ?cs] by simp
      moreover have "tl s \<noteq> []" using False by auto
      then have "1 < length s" by (cases s) auto
      ultimately show ?thesis
        using C len length_Join [of ?k] by (cases "?k = []") simp_all
    qed
  next
    case False
    let ?cs = "split_on CHR ''/'' s"
    let ?k = "clean_comps False [] ?cs"
    have len: "length s + 1 = comp_total ?cs" by (simp add: total_split_on)
    have C: "Clean s = (if ?k = [] then ''.'' else Join ?k ''/'')"
      using ne False by (simp add: Clean_def Let_def)
    show ?thesis
    proof (cases "?k = ?cs")
      case True
      then show ?thesis using C by (simp add: Join_split_on)
    next
      case k: False
      then have less: "comp_total ?k < comp_total ?cs" using clean_comps_total [of False "[]" ?cs] by simp
      show ?thesis
      proof (cases "?k = []")
        case True
        show ?thesis
        proof (cases "length s = 1")
          case True
          then obtain c where c: "s = [c]" by (cases s) auto
          with \<open>?k = []\<close> False have "s = ''.''" by (auto split: if_splits)
          with C \<open>?k = []\<close> show ?thesis by simp
        next
          case False
          with ne have "1 < length s" by (cases s) auto
          with C \<open>?k = []\<close> show ?thesis by simp
        qed
      next
        case False
        then show ?thesis using C less len length_Join [of ?k] by simp
      qed
    qed
  qed
qed

section \<open>The gate\<close>

definition trim_clean :: "string \<Rightarrow> string" where
  "trim_clean s = (let nxt = TrimSpace s in if nxt \<noteq> [] then Clean nxt else nxt)"

lemma TrimSpace_shorter: "length (TrimSpace s) < length s \<or> TrimSpace s = s"
proof -
  let ?d = "dropWhile IsSpace (chunks s)"
  obtain n where n: "rev (dropWhile IsSpace (rev ?d)) = take n ?d"
    using rdropWhile_eq_take by blast
  have s: "s = concat (takeWhile IsSpace (chunks s)) @ TrimSpace s @ concat (drop n ?d)"
    by (metis TrimSpace_def append_take_drop_id concat_append concat_chunks n takeWhile_dropWhile_id)
  show ?thesis
  proof (cases "concat (takeWhile IsSpace (chunks s)) = [] \<and> concat (drop n ?d) = []")
    case True
    with s show ?thesis by (metis append_Nil append_Nil2)
  next
    case False
    have "length s = length (concat (takeWhile IsSpace (chunks s))) + length (TrimSpace s) + length (concat (drop n ?d))"
      using arg_cong [OF s, of length] by (simp only: length_append)
    with False show ?thesis by (cases "concat (takeWhile IsSpace (chunks s)) = []")
        (simp_all only: length_0_conv [symmetric] simp_thms, linarith+)
  qed
qed

lemma trim_clean_shorter: "trim_clean s \<noteq> s \<Longrightarrow> length (trim_clean s) < length s"
  using TrimSpace_shorter [of s] Clean_shorter [of "TrimSpace s"]
  by (auto simp: trim_clean_def Let_def split: if_splits)

function clean_loop :: "string \<Rightarrow> string" where
  "clean_loop cleaned = (let nxt = trim_clean cleaned in if nxt = cleaned then cleaned else clean_loop nxt)"
  by pat_completeness auto
termination
  by (relation "measure length") (auto simp: trim_clean_shorter)

declare clean_loop.simps [simp del]

datatype path_error = PathEmpty | PathReservedByte char | PathAbsolute string | PathDriveLetter string
  | PathEscapes string

definition reserved_path_byte :: "char \<Rightarrow> bool" where
  "reserved_path_byte c \<longleftrightarrow> c = CHR ''#'' \<or> byte c < 0x20 \<or> byte c = 0x7F"

definition CanonicalRepoPath :: "string \<Rightarrow> path_error + string" where
  "CanonicalRepoPath value =
     (let cleaned = clean_loop (map (\<lambda>c. if byte c = 92 then CHR ''/'' else c) value) in
      if cleaned = [] then Inl PathEmpty
      else (case find reserved_path_byte cleaned of
              Some c \<Rightarrow> Inl (PathReservedByte c)
            | None \<Rightarrow>
                if HasPrefix cleaned ''/'' then Inl (PathAbsolute value)
                else if length cleaned \<ge> 2 \<and> cleaned ! 1 = CHR '':'' then Inl (PathDriveLetter value)
                else if cleaned = ''.'' \<or> cleaned = ''..'' \<or> HasPrefix cleaned ''../''
                then Inl (PathEscapes value)
                else Inr cleaned))"

section \<open>Canonical paths stay inside the repository\<close>

lemma clean_loop_fixed: "trim_clean (clean_loop s) = clean_loop s"
proof (induction s rule: clean_loop.induct)
  case (1 s)
  then show ?case by (cases "trim_clean s = s") (simp_all add: clean_loop.simps [of s] Let_def)
qed

lemma split_on_no_sep_mem: "t \<in> set (split_on c s) \<Longrightarrow> c \<notin> set t"
proof (induction s arbitrary: t)
  case (Cons d s)
  then show ?case by (cases "split_on c s") (auto split: if_splits)
qed simp

lemma clean_comps_shape:
  assumes "\<exists>k ns. rev stack = replicate k ''..'' @ ns \<and> (\<forall>n \<in> set ns. n \<notin> {[], ''.'', ''..''})"
  shows "\<exists>k ns. clean_comps rooted stack cs = replicate k ''..'' @ ns \<and> (\<forall>n \<in> set ns. n \<notin> {[], ''.'', ''..''})"
  using assms
proof (induction rooted stack cs rule: clean_comps.induct)
  case (2 rooted stack c cs)
  obtain k ns where st: "rev stack = replicate k ''..'' @ ns" and ns: "\<forall>n \<in> set ns. n \<notin> {[], ''.'', ''..''}"
    using 2(7) by blast
  show ?case
  proof (cases "c = [] \<or> c = ''.''")
    case True
    with 2(1) 2(7) show ?thesis by auto
  next
    case False
    note c = this
    show ?thesis
    proof (cases "c = ''..''")
      case True
      show ?thesis
      proof (cases stack)
        case Nil
        have "\<exists>k ns. rev [c] = replicate k ''..'' @ ns \<and> (\<forall>n \<in> set ns. n \<notin> {[], ''.'', ''..''})"
          using True by (intro exI [of _ 1] exI [of _ "[]"]) simp
        with Nil True 2(2,3) show ?thesis by (cases rooted) auto
      next
        case (Cons s ss)
        show ?thesis
        proof (cases "s = ''..''")
          case dots: True
          have "ns = []"
          proof (rule ccontr)
            assume "ns \<noteq> []"
            with st Cons have "last ns = s" by (metis last_appendR last_rev list.sel(1))
            with \<open>ns \<noteq> []\<close> ns dots show False by (metis insertCI last_in_set)
          qed
          then have "rev (c # stack) = replicate (Suc k) ''..'' @ []"
            using st True by (simp add: replicate_append_same)
          then have "\<exists>k ns. rev (c # stack) = replicate k ''..'' @ ns \<and> (\<forall>n \<in> set ns. n \<notin> {[], ''.'', ''..''})"
            by (intro exI [of _ "Suc k"] exI [of _ "[]"]) simp
          with Cons True dots 2(4) show ?thesis by auto
        next
          case dots: False
          have "ns \<noteq> []"
          proof
            assume "ns = []"
            with st Cons have "rev ss @ [s] = replicate k ''..''" by simp
            then have "s \<in> set (replicate k ''..'')" by (metis in_set_conv_decomp)
            with dots show False by (auto split: if_splits)
          qed
          then have "rev ss = replicate k ''..'' @ butlast ns"
            using st Cons by (metis butlast_append butlast_snoc rev.simps(2))
          then have "\<exists>k ns. rev ss = replicate k ''..'' @ ns \<and> (\<forall>n \<in> set ns. n \<notin> {[], ''.'', ''..''})"
            using ns by (intro exI [of _ k] exI [of _ "butlast ns"]) (meson in_set_butlastD)
          with Cons True dots 2(5) show ?thesis by auto
        qed
      qed
    next
      case False
      with c st ns have "\<exists>k ns. rev (c # stack) = replicate k ''..'' @ ns \<and> (\<forall>n \<in> set ns. n \<notin> {[], ''.'', ''..''})"
        by (intro exI [of _ k] exI [of _ "ns @ [c]"]) auto
      with c False 2(6) show ?thesis by auto
    qed
  qed
qed auto

lemma clean_comps_subset: "set (clean_comps rooted stack cs) \<subseteq> set stack \<union> set cs"
  by (induction rooted stack cs rule: clean_comps.induct) (auto split: list.splits if_splits)

lemma split_on_subset: "t \<in> set (split_on c s) \<Longrightarrow> set t \<subseteq> set s"
proof (induction s arbitrary: t)
  case (Cons d s)
  then show ?case by (cases "split_on c s") (auto split: if_splits, blast+)
qed simp

lemma set_Clean: "set (Clean s) \<subseteq> insert CHR ''.'' (insert CHR ''/'' (set s))"
proof -
  have "set (Join (clean_comps rooted [] (split_on CHR ''/'' t)) ''/'') \<subseteq> insert CHR ''/'' (set t)" for rooted t
    using set_Join [of "clean_comps rooted [] (split_on CHR ''/'' t)" "''/''"]
      clean_comps_subset [of rooted "[]" "split_on CHR ''/'' t"] split_on_subset [of _ "CHR ''/''" t]
    by fastforce
  from this [of True "tl s"] this [of False s] show ?thesis
    by (cases s) (auto simp: Clean_def Let_def)
qed

lemma set_TrimSpace: "set (TrimSpace s) \<subseteq> set s"
proof -
  have "set (TrimSpace s) = \<Union> (set ` set (chunks (TrimSpace s)))"
    by (metis concat_chunks set_concat)
  also have "\<dots> \<subseteq> \<Union> (set ` set (chunks s))" using set_chunks_TrimSpace [of s] by auto
  also have "\<dots> = set s" by (metis concat_chunks set_concat)
  finally show ?thesis .
qed

lemma set_clean_loop: "set (clean_loop s) \<subseteq> insert CHR ''.'' (insert CHR ''/'' (set s))"
proof (induction s rule: clean_loop.induct)
  case (1 s)
  have "set (trim_clean s) \<subseteq> insert CHR ''.'' (insert CHR ''/'' (set s))"
    using set_Clean [of "TrimSpace s"] set_TrimSpace [of s] by (auto simp: trim_clean_def Let_def)
  with 1 show ?case
    by (cases "trim_clean s = s") (auto simp: clean_loop.simps [of s] Let_def)
qed

lemma trim_clean_fixed:
  assumes "trim_clean r = r" and "r \<noteq> []"
  shows "TrimSpace r = r" and "Clean r = r"
proof -
  have ne: "TrimSpace r \<noteq> []" and C: "Clean (TrimSpace r) = r"
    using assms by (auto simp: trim_clean_def Let_def split: if_splits)
  have "Clean (TrimSpace r) = TrimSpace r"
    using Clean_shorter [OF ne] length_TrimSpace [of r] C by auto
  with C show "TrimSpace r = r" and "Clean r = r" by simp_all
qed

lemma kept_components:
  assumes "Clean r = r" and "r \<noteq> []" and "hd r \<noteq> CHR ''/''" and "r \<noteq> ''.''"
  shows "clean_comps False [] (split_on CHR ''/'' r) = split_on CHR ''/'' r"
proof -
  let ?k = "clean_comps False [] (split_on CHR ''/'' r)"
  have k: "?k \<noteq> []" "r = Join ?k ''/''"
    using assms by (auto simp: Clean_def Let_def split: if_splits)
  have "\<forall>x \<in> set ?k. CHR ''/'' \<notin> set x"
    using clean_comps_subset [of False "[]" "split_on CHR ''/'' r"] split_on_no_sep_mem [of _ "CHR ''/''" r]
    by auto
  from split_on_Join [OF k(1) this] k(2) show ?thesis by simp
qed

lemma parent_prefix:
  assumes "split_on CHR ''/'' r = replicate (Suc k) ''..'' @ ns"
  shows "r = ''..'' \<or> HasPrefix r ''../''"
proof -
  have r: "r = Join (''..'' # replicate k ''..'' @ ns) ''/''"
    using assms Join_split_on [of "CHR ''/''" r] by simp
  show ?thesis
  proof (cases "replicate k ''..'' @ ns")
    case Nil
    with r show ?thesis by simp
  next
    case (Cons y ys)
    with r have "r = ''..'' @ ''/'' @ Join (y # ys) ''/''" by simp
    then show ?thesis by (simp add: HasPrefix_def)
  qed
qed

lemma CanonicalRepoPath_Inr:
  assumes "CanonicalRepoPath value = Inr r"
  shows "r \<noteq> []" "find reserved_path_byte r = None" "\<not> HasPrefix r ''/''" "r \<noteq> ''.''" "r \<noteq> ''..''" "\<not> HasPrefix r ''../''"
    "TrimSpace r = r" "Clean r = r" "CanonicalRepoPath r = Inr r"
proof -
  let ?v = "map (\<lambda>c. if byte c = 92 then CHR ''/'' else c) value"
  have r: "r = clean_loop ?v" "r \<noteq> []" "find reserved_path_byte r = None" "\<not> HasPrefix r ''/''"
    "r \<noteq> ''.''" "r \<noteq> ''..''" "\<not> HasPrefix r ''../''" "\<not> (length r \<ge> 2 \<and> r ! 1 = CHR '':'')"
    using assms by (auto simp: CanonicalRepoPath_def Let_def split: if_splits option.splits)
  then show "r \<noteq> []" "find reserved_path_byte r = None" "\<not> HasPrefix r ''/''" "r \<noteq> ''.''" "r \<noteq> ''..''" "\<not> HasPrefix r ''../''"
    by simp_all
  have fixed: "trim_clean r = r" using clean_loop_fixed r(1) by simp
  then show "TrimSpace r = r" "Clean r = r" using trim_clean_fixed r(2) by blast+
  have "byte c \<noteq> 92" if "c \<in> set r" for c
    using set_clean_loop [of ?v] that r(1) by auto
  then have "map (\<lambda>c. if byte c = 92 then CHR ''/'' else c) r = r" by (intro map_idI) auto
  moreover have "clean_loop r = r" using fixed by (simp add: clean_loop.simps [of r])
  ultimately show "CanonicalRepoPath r = Inr r" using r by (simp add: CanonicalRepoPath_def Let_def)
qed

section \<open>Properties\<close>

text \<open>C39. A path that takes part in an identity stays inside the repository: none of its
  components is empty, \<open>.\<close> or \<open>..\<close>, it carries no \<open>#\<close> and no control byte, and the gate is a fixed
  point: what it returned, it returns again.\<close>

theorem CanonicalRepoPath_safe:
  assumes "CanonicalRepoPath value = Inr r"
  shows "(\<forall>c \<in> set (split_on CHR ''/'' r). c \<notin> {[], ''.'', ''..''})
    \<and> (\<forall>c \<in> set r. \<not> reserved_path_byte c) \<and> CanonicalRepoPath r = Inr r"
proof -
  note r = CanonicalRepoPath_Inr [OF assms]
  have hd: "hd r \<noteq> CHR ''/''" using r(1,3) by (cases r) (auto simp: HasPrefix_def)
  have "\<forall>c \<in> set (split_on CHR ''/'' r). c \<notin> {[], ''.'', ''..''}"
  proof -
    obtain k ns where k: "split_on CHR ''/'' r = replicate k ''..'' @ ns"
      and ns: "\<forall>n \<in> set ns. n \<notin> {[], ''.'', ''..''}"
      using clean_comps_shape [of "[]" False "split_on CHR ''/'' r"] kept_components [OF r(8,1) hd r(4)]
      by auto
    have "k = 0" using parent_prefix [of r _ ns] k r(5,6) by (cases k) auto
    with k ns show ?thesis by simp
  qed
  moreover have "\<forall>c \<in> set r. \<not> reserved_path_byte c"
    using r(2) by (simp add: find_None_iff)
  ultimately show ?thesis using r(9) by blast
qed

theorem CanonicalRepoPath_safe_witness:
  "CanonicalRepoPath ''services/api/go.mod'' = Inr ''services/api/go.mod''"
proof -
  have "CanonicalRepoPath '' ./services//web/../api/go.mod'' = Inr ''services/api/go.mod''"
    by code_simp
  from CanonicalRepoPath_safe [OF this] show ?thesis by blast
qed

end
