(* ===== verification/Nodes.thy ===== *)
theory Nodes
  imports Assertions Coordinates Locations RepoPath
begin

text \<open>
  The sealed union of graph nodes, \<^verbatim>\<open>model/node.go\<close>, \<^verbatim>\<open>model/dependency.go\<close> and
  \<^verbatim>\<open>model/node_access.go\<close>: manifest, module and dependency records, the constructors that mint
  their identities, scope and eligibility accessors, and \<open>foldNodes\<close> of \<^verbatim>\<open>model/graph.go\<close>, which
  unions a second witness of one identity into the surviving record. A nilable node is an
  \<open>option\<close>; the unexported identity fields carry a \<open>_id\<close> suffix.
\<close>

type_synonym dependency_source = string

abbreviation DependencySourceRegistry :: dependency_source where "DependencySourceRegistry \<equiv> ''registry''"
abbreviation DependencySourceProject :: dependency_source where "DependencySourceProject \<equiv> ''project''"
abbreviation DependencySourceWorkspace :: dependency_source where "DependencySourceWorkspace \<equiv> ''workspace''"
abbreviation DependencySourceFile :: dependency_source where "DependencySourceFile \<equiv> ''file''"
abbreviation DependencySourceGit :: dependency_source where "DependencySourceGit \<equiv> ''git''"
abbreviation DependencySourceURL :: dependency_source where "DependencySourceURL \<equiv> ''url''"

datatype node_warning = MissingVersion | ModuleMissingVersion
  | DroppedEvidenceQualifier string | GenericIdentity string

record manifest_node =
  ManifestPath :: string
  FileKind :: string
  ManifestMeta :: metadata
  manifest_id :: string

record module_node =
  ModuleCoords :: coordinates
  DeclaringManifestPath :: string
  ModuleLocations :: "package_location list"
  ModuleMeta :: metadata
  module_id :: string
  module_purl :: string
  module_warnings :: "node_warning list"

record dependency_node =
  Coords :: coordinates
  Claims :: assertions
  Relationship :: relationship
  DepSource :: dependency_source
  NodeScopes :: "scope list"
  SourceScope :: string
  NodeLocs :: "package_location list"
  FoundBy :: string
  ResolvedURL :: string
  Origins :: "dependency_origin list"
  Metadata :: metadata
  Matched :: bool
  PackageRef :: string
  dependency_id :: string
  dependency_purl :: purl
  dependency_warnings :: "node_warning list"

datatype graph_node =
    ManifestNode manifest_node
  | ModuleNode module_node
  | DependencyNode dependency_node

fun NodeID :: "graph_node \<Rightarrow> string" where
  "NodeID (ManifestNode n) = manifest_id n"
| "NodeID (ModuleNode n) = module_id n"
| "NodeID (DependencyNode n) = dependency_id n"

fun Kind :: "graph_node \<Rightarrow> node_kind" where
  "Kind (ManifestNode n) = NodeKindManifest"
| "Kind (ModuleNode n) = NodeKindModule"
| "Kind (DependencyNode n) = NodeKindDependency"

fun NodeLocations :: "graph_node \<Rightarrow> package_location list" where
  "NodeLocations (ManifestNode n) =
     [\<lparr>RealPath = ManifestPath n, AccessPath = ManifestPath n, Position = None, ModuleRoot = [],
       LocScopes = [], LocRelationship = []\<rparr>]"
| "NodeLocations (ModuleNode n) = ModuleLocations n"
| "NodeLocations (DependencyNode n) = NodeLocs n"

fun NodeWarnings :: "graph_node \<Rightarrow> node_warning list" where
  "NodeWarnings (ManifestNode n) = []"
| "NodeWarnings (ModuleNode n) = module_warnings n"
| "NodeWarnings (DependencyNode n) = dependency_warnings n"

section \<open>Reading a node\<close>

fun NodeCoordinates :: "graph_node option \<Rightarrow> coordinates option" where
  "NodeCoordinates (Some (DependencyNode n)) = Some (Coords n)"
| "NodeCoordinates (Some (ModuleNode n)) = Some (ModuleCoords n)"
| "NodeCoordinates _ = None"

definition NodeDisplayName :: "graph_node option \<Rightarrow> string" where
  "NodeDisplayName node =
     (case node of
        Some (ManifestNode m) \<Rightarrow> ManifestPath m
      | _ \<Rightarrow> (case NodeCoordinates node of None \<Rightarrow> [] | Some c \<Rightarrow> DisplayName c))"

definition NodeVersion :: "graph_node option \<Rightarrow> string" where
  "NodeVersion node = (case NodeCoordinates node of None \<Rightarrow> [] | Some c \<Rightarrow> Version c)"

fun NodePURL :: "graph_node option \<Rightarrow> string" where
  "NodePURL (Some (DependencyNode n)) = dependency_id n"
| "NodePURL (Some (ModuleNode n)) = module_purl n"
| "NodePURL _ = []"

fun AsDependencyNode :: "graph_node option \<Rightarrow> dependency_node option" where
  "AsDependencyNode (Some (DependencyNode n)) = Some n"
| "AsDependencyNode _ = None"

fun AsModuleNode :: "graph_node option \<Rightarrow> module_node option" where
  "AsModuleNode (Some (ModuleNode n)) = Some n"
| "AsModuleNode _ = None"

definition DependencyNodesOf :: "graph_node option list \<Rightarrow> dependency_node list" where
  "DependencyNodesOf nodes = List.map_filter AsDependencyNode nodes"

definition IsProjectOwned :: "graph_node option \<Rightarrow> bool" where
  "IsProjectOwned node = (case node of None \<Rightarrow> False | Some n \<Rightarrow> Kind n = NodeKindModule)"

fun DeriveEdgeKind :: "graph_node option \<Rightarrow> graph_node option \<Rightarrow> edge_kind" where
  "DeriveEdgeKind (Some from_node) (Some to_node) =
     (if Kind from_node = NodeKindManifest \<and> Kind to_node = NodeKindModule
      then EdgeKindDescribes else EdgeKindDependsOn)"
| "DeriveEdgeKind _ _ = EdgeKindUnknown"

section \<open>Scopes and eligibility\<close>

definition PrimaryScope :: "dependency_node \<Rightarrow> scope" where
  "PrimaryScope n = foldl MergeScope ScopeUnknown (NodeScopes n)"

definition HasScope :: "dependency_node \<Rightarrow> scope \<Rightarrow> bool" where
  "HasScope n s \<longleftrightarrow> s \<in> set (NodeScopes n)"

definition AddScope :: "dependency_node \<Rightarrow> scope \<Rightarrow> dependency_node" where
  "AddScope n s =
     (if s = ScopeUnknown \<or> HasScope n s then n else n\<lparr>NodeScopes := sort (NodeScopes n @ [s])\<rparr>)"

definition LocationScopes :: "dependency_node \<Rightarrow> scope list" where
  "LocationScopes n =
     sort (foldl (\<lambda>union s. if s = ScopeUnknown \<or> s \<in> set union then union else union @ [s]) []
       (concat (map LocScopes (NodeLocs n))))"

definition AttributedScopes :: "dependency_node \<Rightarrow> scope list" where
  "AttributedScopes n = (if LocationScopes n \<noteq> [] then LocationScopes n else NodeScopes n)"

definition SyncScopesFromLocations :: "dependency_node \<Rightarrow> dependency_node" where
  "SyncScopesFromLocations n = (if LocationScopes n \<noteq> [] then n\<lparr>NodeScopes := LocationScopes n\<rparr> else n)"

definition RegistryMatchEligible :: "dependency_node \<Rightarrow> bool" where
  "RegistryMatchEligible d =
     (if Ecosystem (Coords d) = ''swift'' \<and> DepSource d = DependencySourceGit then True
      else DepSource d \<notin> {DependencySourceProject, DependencySourceWorkspace, DependencySourceFile,
             DependencySourceGit, DependencySourceURL})"

definition mergeDependencySources :: "dependency_node \<Rightarrow> dependency_node \<Rightarrow> dependency_node" where
  "mergeDependencySources surviving witness =
     (if RegistryMatchEligible surviving \<or> \<not> RegistryMatchEligible witness then surviving
      else surviving\<lparr>DepSource := DepSource witness\<rparr>)"

definition relationshipForDepth :: "dependency_node option \<Rightarrow> nat \<Rightarrow> relationship" where
  "relationshipForDepth target depth =
     (case target of
        Some t \<Rightarrow> if Relationship t \<noteq> [] then Relationship t
                  else if depth = 1 then DependencyRelationshipDirect
                  else if depth > 1 then DependencyRelationshipTransitive
                  else DependencyRelationshipUnknown
      | None \<Rightarrow> if depth = 1 then DependencyRelationshipDirect
                else if depth > 1 then DependencyRelationshipTransitive
                else DependencyRelationshipUnknown)"

definition RelationshipForPath :: "graph_node option list \<Rightarrow> relationship" where
  "RelationshipForPath path =
     (if path = [] then []
      else relationshipForDepth (AsDependencyNode (last path))
             (1 + length (filter (\<lambda>n. AsDependencyNode n \<noteq> None) (butlast (tl path)))))"

definition DetectionLicenses :: "library \<Rightarrow> dependency_node \<Rightarrow> package_license list" where
  "DetectionLicenses L dep = detection_licenses L (Licenses (Claims dep)) (Metadata dep)"

definition SetDetectionLicenses :: "library \<Rightarrow> dependency_node \<Rightarrow> package_license list \<Rightarrow> dependency_node" where
  "SetDetectionLicenses L dep licenses =
     (if licenses = [] then dep
      else dep\<lparr>Claims := (Claims dep)\<lparr>Licenses := MergeLicenses L (Licenses (Claims dep)) licenses\<rparr>\<rparr>)"

section \<open>Folding a second witness of one identity\<close>

definition fill :: "string \<Rightarrow> string \<Rightarrow> string" where
  "fill mine theirs = (if mine = [] then theirs else mine)"

definition fold_dependency :: "library \<Rightarrow> dependency_node \<Rightarrow> dependency_node \<Rightarrow> dependency_node" where
  "fold_dependency L survivor incoming =
     (let s = survivor\<lparr>Relationship := MergeDependencyRelationship (Relationship survivor) (Relationship incoming)\<rparr>;
          s = foldl AddScope s (NodeScopes incoming);
          s = s\<lparr>NodeLocs := mergeNodeLocations (NodeLocs s) (NodeLocs incoming)\<rparr>;
          s = foldl AddScope s (LocationScopes s);
          s = s\<lparr>Origins := MergeOrigins L (Origins s) (Origins incoming)\<rparr>;
          s = mergeDependencySources s incoming;
          s = s\<lparr>Claims := (Claims s)\<lparr>Licenses :=
                MergeLicenses L (DetectionLicenses L s) (DetectionLicenses L incoming)\<rparr>\<rparr>;
          s = s\<lparr>Claims := Assertions_MergeFrom L (Claims s) (Claims incoming)\<rparr>;
          s = s\<lparr>SourceScope := fill (NormalizeSourceScope (SourceScope s)) (NormalizeSourceScope (SourceScope incoming))\<rparr>;
          s = s\<lparr>FoundBy := fill (FoundBy s) (FoundBy incoming)\<rparr>;
          s = s\<lparr>ResolvedURL := fill (ResolvedURL s) (ResolvedURL incoming)\<rparr>;
          s = s\<lparr>PackageRef := fill (PackageRef s) (PackageRef incoming)\<rparr>;
          c = Coords s; i = Coords incoming;
          s = s\<lparr>Coords := c\<lparr>PackageManager := fill (PackageManager c) (PackageManager i),
                             Language := fill (Language c) (Language i),
                             PkgType := fill (PkgType c) (PkgType i)\<rparr>\<rparr>;
          s = s\<lparr>Matched := (Matched s \<or> Matched incoming)\<rparr>
      in s\<lparr>Metadata := mergeMetadata (Metadata s) (Metadata incoming)\<rparr>)"

definition fold_module :: "module_node \<Rightarrow> module_node \<Rightarrow> module_node" where
  "fold_module survivor incoming =
     (let c = ModuleCoords survivor; i = ModuleCoords incoming;
          s = survivor\<lparr>ModuleCoords := c\<lparr>Version := fill (Version c) (Version i),
                 Ecosystem := fill (Ecosystem c) (Ecosystem i),
                 PackageManager := fill (PackageManager c) (PackageManager i),
                 Language := fill (Language c) (Language i)\<rparr>\<rparr>;
          s = s\<lparr>ModuleLocations := mergeNodeLocations (ModuleLocations s) (ModuleLocations incoming)\<rparr>
      in s\<lparr>ModuleMeta := mergeMetadata (ModuleMeta s) (ModuleMeta incoming)\<rparr>)"

definition fold_manifest :: "manifest_node \<Rightarrow> manifest_node \<Rightarrow> manifest_node" where
  "fold_manifest survivor incoming =
     (let s = survivor\<lparr>FileKind := fill (FileKind survivor) (FileKind incoming)\<rparr>
      in s\<lparr>ManifestMeta := mergeMetadata (ManifestMeta s) (ManifestMeta incoming)\<rparr>)"

fun foldNodes :: "library \<Rightarrow> graph_node \<Rightarrow> graph_node \<Rightarrow> graph_node" where
  "foldNodes L (DependencyNode s) (DependencyNode w) = DependencyNode (fold_dependency L s w)"
| "foldNodes L (ModuleNode s) (ModuleNode w) = ModuleNode (fold_module s w)"
| "foldNodes L (ManifestNode s) (ManifestNode w) = ManifestNode (fold_manifest s w)"
| "foldNodes L s w = s"

section \<open>Constructors\<close>

datatype node_error = PathRefused path_error | PurlRefused purl_error | IdentityDoesNotRender
  | NotDerivable string | NameEmpty

record dependency_identity =
  rendered :: string
  parsed :: purl
  missingVersion :: bool

definition dependencyIdentityFromPURL ::
  "library \<Rightarrow> string \<Rightarrow> node_error + dependency_identity \<times> qualifier list" where
  "dependencyIdentityFromPURL L raw =
     (case purl_Parse L raw of
        Inl err \<Rightarrow> Inl (PurlRefused err)
      | Inr p \<Rightarrow>
          (let split = SplitIdentity p in
           case purl_Validate L (Identity split) of
             Some err \<Rightarrow> Inl (PurlRefused err)
           | None \<Rightarrow>
               (let r = purl_String L (Identity split) in
                if r = [] then Inl IdentityDoesNotRender
                else (case purl_Parse L r of
                        Inl err \<Rightarrow> Inl (PurlRefused err)
                      | Inr canon \<Rightarrow>
                          Inr (\<lparr>rendered = r, parsed = canon, missingVersion = (PVersion canon = [])\<rparr>,
                               Evidence split)))))"

definition last_index :: "char \<Rightarrow> string \<Rightarrow> nat option" where
  "last_index c s = (if c \<in> set s then Some (length s - Suc (length (takeWhile (\<lambda>x. x \<noteq> c) (rev s)))) else None)"

definition splitVCSLocator :: "string \<Rightarrow> string \<times> string" where
  "splitVCSLocator val =
     (let trimmed = TrimSpace val;
          trimmed = (case Index trimmed ''+'' of
                       Some i \<Rightarrow> if Contains (drop (i + 1) trimmed) ''://'' then drop (i + 1) trimmed else trimmed
                     | None \<Rightarrow> trimmed)
      in (case Index trimmed ''://'' of
            None \<Rightarrow> (trimmed, [])
          | Some schemeEnd \<Rightarrow>
              (case last_index CHR ''@'' trimmed of
                 Some at \<Rightarrow> if at > schemeEnd + 3 then (take at trimmed, drop (at + 1) trimmed) else (trimmed, [])
               | None \<Rightarrow> (trimmed, []))))"

definition evidence_origin :: "library \<Rightarrow> qualifier \<Rightarrow> dependency_origin option" where
  "evidence_origin L q =
     (if Key q = ''download_url'' then ArtifactOrigin L (QValue q)
      else if Key q = ''repository_url'' \<or> Key q = ''vcs_url''
      then (let (u, revision) = splitVCSLocator (QValue q) in RepositoryOrigin L u revision)
      else None)"

definition adoptEvidenceQualifiers :: "library \<Rightarrow> dependency_node \<Rightarrow> qualifier list \<Rightarrow> dependency_node" where
  "adoptEvidenceQualifiers L n evidence =
     foldl (\<lambda>n q. case evidence_origin L q of
              None \<Rightarrow> n\<lparr>dependency_warnings := dependency_warnings n @ [DroppedEvidenceQualifier (Key q)]\<rparr>
            | Some orig \<Rightarrow> n\<lparr>Origins := MergeOrigins L (Origins n) [orig]\<rparr>) n evidence"

definition backfillCoordinates :: "dependency_node \<Rightarrow> dependency_node" where
  "backfillCoordinates n =
     (let p = dependency_purl n;
          family = (case genericFallbackType p of Some failedType \<Rightarrow> failedType | None \<Rightarrow> PType p);
          resolved = EcosystemForPURLType family;
          c = Coords n;
          c = (if resolved \<noteq> [] then c\<lparr>Ecosystem := resolved\<rparr> else c)
      in n\<lparr>Coords := c\<lparr>Name := PName p, Org := TrimPrefix (Namespace p) ''@'', Version := PVersion p\<rparr>\<rparr>)"

definition note_original :: "string \<Rightarrow> string \<Rightarrow> string \<Rightarrow> metadata \<Rightarrow> metadata" where
  "note_original key now original m = (if now \<noteq> original \<and> original \<noteq> [] then mput key (StringV original) m else m)"

definition recordNormalization :: "dependency_node \<Rightarrow> coordinates \<Rightarrow> string list \<Rightarrow> dependency_node" where
  "recordNormalization n original applied =
     (if applied = [] then n
      else (let m = mput ''bomly.normalization.applied'' (StringsV (normUniqueStrings applied)) (Metadata n);
                m = note_original ''bomly.normalization.original_name'' (Name (Coords n)) (Name original) m;
                m = note_original ''bomly.normalization.original_org'' (Org (Coords n)) (Org original) m;
                m = note_original ''bomly.normalization.original_version'' (Version (Coords n)) (Version original) m
            in n\<lparr>Metadata := m\<rparr>))"

definition new_dependency_record :: "coordinates \<Rightarrow> dependency_identity \<Rightarrow> dependency_node" where
  "new_dependency_record c identity =
     \<lparr>Coords = c\<lparr>PURL := rendered identity\<rparr>, Claims = Assertions_zero, Relationship = [], DepSource = [],
      NodeScopes = [], SourceScope = [], NodeLocs = [], FoundBy = [], ResolvedURL = [], Origins = [],
      Metadata = [], Matched = False, PackageRef = [], dependency_id = rendered identity,
      dependency_purl = parsed identity, dependency_warnings = []\<rparr>"

definition mint_identity ::
  "library \<Rightarrow> coordinates \<Rightarrow> coordinates \<Rightarrow> string \<Rightarrow> node_error + dependency_identity \<times> qualifier list" where
  "mint_identity L coords scratch rawPURL =
     (let minted = TrimSpace rawPURL;
          minted = (if minted = [] then TrimSpace (PURL coords) else minted);
          minted = (if minted = [] then CanonicalPURL L scratch else minted);
          stated = (TrimSpace (PURL coords) \<noteq> [] \<or> TrimSpace rawPURL \<noteq> []);
          first = (if minted \<noteq> [] then dependencyIdentityFromPURL L minted
                   else Inl (NotDerivable (QualifiedName coords)))
      in (case first of
            Inr r \<Rightarrow> Inr r
          | Inl err \<Rightarrow>
              if stated then Inl err
              else (let fallback = GenericPURL L scratch in
                    if fallback = [] then Inl err
                    else (case dependencyIdentityFromPURL L fallback of Inr r \<Rightarrow> Inr r | Inl _ \<Rightarrow> Inl err))))"

definition newDependencyNode :: "library \<Rightarrow> coordinates \<Rightarrow> string \<Rightarrow> node_error + dependency_node" where
  "newDependencyNode L coords rawPURL =
     (let (scratch, applied) = NormalizeCoordinates L (normalizeCoordinateVocabulary coords) in
      case mint_identity L coords scratch rawPURL of
        Inl err \<Rightarrow> Inl err
      | Inr (identity, evidence) \<Rightarrow>
          (let n = backfillCoordinates (new_dependency_record scratch identity);
               n = (if missingVersion identity
                    then n\<lparr>dependency_warnings := dependency_warnings n @ [MissingVersion]\<rparr> else n);
               n = (case genericFallbackType (parsed identity) of
                      Some failedType \<Rightarrow> n\<lparr>dependency_warnings := dependency_warnings n @ [GenericIdentity failedType]\<rparr>
                    | None \<Rightarrow> n);
               n = adoptEvidenceQualifiers L n evidence
           in Inr (if TrimSpace rawPURL = [] \<and> TrimSpace (PURL coords) = []
                   then recordNormalization n coords applied else n)))"

definition NewDependencyNode :: "library \<Rightarrow> coordinates \<Rightarrow> node_error + dependency_node" where
  "NewDependencyNode L coords = newDependencyNode L coords []"

definition NewDependencyNodeFromPURL :: "library \<Rightarrow> string \<Rightarrow> node_error + dependency_node" where
  "NewDependencyNodeFromPURL L rawPURL = newDependencyNode L (Coordinates_zero\<lparr>PURL := rawPURL\<rparr>) rawPURL"

definition NewDependencyNodeFrom :: "library \<Rightarrow> dependency_node \<Rightarrow> node_error + dependency_node" where
  "NewDependencyNodeFrom L proto =
     (case NewDependencyNode L (Coords proto) of
        Inl err \<Rightarrow> Inl err
      | Inr n \<Rightarrow>
          Inr (n\<lparr>Relationship := Relationship proto, DepSource := DepSource proto,
                 NodeScopes := NodeScopes proto, SourceScope := NormalizeSourceScope (SourceScope proto),
                 NodeLocs := NodeLocs proto,
                 Claims := (Claims n)\<lparr>CPEs := CPEs (Claims proto), Digests := Digests (Claims proto),
                   Copyright := Copyright (Claims proto),
                   Licenses := MergeLicenses L [] (Licenses (Claims proto)),
                   Description := Description (Claims proto), Homepage := Homepage (Claims proto),
                   Supplier := Supplier (Claims proto), Originator := Originator (Claims proto),
                   ExternalReferences := MergeExternalReferences L [] (ExternalReferences (Claims proto))\<rparr>,
                 FoundBy := FoundBy proto, ResolvedURL := ResolvedURL proto,
                 Origins := MergeOrigins L (Origins n) (Origins proto),
                 Metadata := mergeMetadataPreservingReserved (Metadata n) (Metadata proto),
                 Matched := Matched proto, PackageRef := dependency_id n\<rparr>))"

abbreviation manifestIDPrefix :: string where "manifestIDPrefix \<equiv> ''manifest:''"
abbreviation moduleIDPrefix :: string where "moduleIDPrefix \<equiv> ''module:''"

definition NewManifestNode :: "string \<Rightarrow> string \<Rightarrow> node_error + manifest_node" where
  "NewManifestNode manifestPath kind =
     (case CanonicalRepoPath manifestPath of
        Inl err \<Rightarrow> Inl (PathRefused err)
      | Inr path \<Rightarrow> Inr \<lparr>ManifestPath = path, FileKind = kind, ManifestMeta = [],
                         manifest_id = manifestIDPrefix @ path\<rparr>)"

definition adoptIdentity :: "module_node \<Rightarrow> dependency_identity \<Rightarrow> module_node" where
  "adoptIdentity n identity =
     (let p = parsed identity; resolved = EcosystemForPURLType (PType p);
          c = (ModuleCoords n)\<lparr>PURL := rendered identity, Name := PName p,
                Org := TrimPrefix (Namespace p) ''@'', Version := PVersion p\<rparr>;
          c = (if resolved \<noteq> [] then c\<lparr>Ecosystem := resolved\<rparr> else c)
      in n\<lparr>module_purl := rendered identity, ModuleCoords := c,
           module_warnings := module_warnings n @ (if missingVersion identity then [ModuleMissingVersion] else [])\<rparr>)"

definition finish_module :: "string \<Rightarrow> module_node \<Rightarrow> string \<Rightarrow> node_error + module_node" where
  "finish_module path n tail =
     (if tail \<noteq> [] then Inr (n\<lparr>module_id := moduleIDPrefix @ path @ ''#'' @ tail\<rparr>)
      else if TrimSpace (Name (ModuleCoords n)) = [] then Inl NameEmpty
      else Inr (n\<lparr>ModuleCoords := (ModuleCoords n)\<lparr>PURL := []\<rparr>,
                  module_id := moduleIDPrefix @ path @ ''#'' @ Name (ModuleCoords n)\<rparr>))"

definition NewModuleNode :: "library \<Rightarrow> string \<Rightarrow> coordinates \<Rightarrow> node_error + module_node" where
  "NewModuleNode L declaringManifestPath coords =
     (case CanonicalRepoPath declaringManifestPath of
        Inl err \<Rightarrow> Inl (PathRefused err)
      | Inr path \<Rightarrow>
          (let scratch = fst (NormalizeCoordinates L (normalizeCoordinateVocabulary coords));
               n = \<lparr>ModuleCoords = scratch, DeclaringManifestPath = path, ModuleLocations = [],
                    ModuleMeta = [], module_id = [], module_purl = [], module_warnings = []\<rparr>;
               known = CanonicalEcosystem [Ecosystem scratch, PackageManager_Name (PackageManager scratch),
                         PkgType scratch] \<noteq> None;
               asserted = TrimSpace (PURL coords)
           in if asserted \<noteq> []
              then (case dependencyIdentityFromPURL L asserted of
                      Inl err \<Rightarrow> Inl err
                    | Inr (identity, _) \<Rightarrow> finish_module path (adoptIdentity n identity) (rendered identity))
              else (let minted = CanonicalPURL L scratch in
                    if minted \<noteq> [] \<and> known
                    then (case dependencyIdentityFromPURL L minted of
                            Inr (identity, _) \<Rightarrow> finish_module path (adoptIdentity n identity) (rendered identity)
                          | Inl _ \<Rightarrow> finish_module path n [])
                    else finish_module path n [])))"

section \<open>What a fold keeps\<close>

lemma AddScope_fields [simp]:
  "dependency_id (AddScope n s) = dependency_id n" "Coords (AddScope n s) = Coords n"
  "DepSource (AddScope n s) = DepSource n" "NodeLocs (AddScope n s) = NodeLocs n"
  "Relationship (AddScope n s) = Relationship n" "Matched (AddScope n s) = Matched n"
  by (simp_all add: AddScope_def)

lemma AddScope_fold_fields [simp]:
  "dependency_id (foldl AddScope n ss) = dependency_id n" "Coords (foldl AddScope n ss) = Coords n"
  "DepSource (foldl AddScope n ss) = DepSource n" "NodeLocs (foldl AddScope n ss) = NodeLocs n"
  "Relationship (foldl AddScope n ss) = Relationship n" "Matched (foldl AddScope n ss) = Matched n"
  by (induction ss arbitrary: n) simp_all

lemma set_AddScope: "set (NodeScopes (AddScope n s)) = (if s = ScopeUnknown then {} else {s}) \<union> set (NodeScopes n)"
  by (auto simp: AddScope_def HasScope_def)

lemma set_AddScope_fold:
  "set (NodeScopes (foldl AddScope n ss)) = (set ss - {ScopeUnknown}) \<union> set (NodeScopes n)"
  by (induction ss arbitrary: n) (auto simp: set_AddScope)

definition site_scopes :: "package_location list \<Rightarrow> scope set" where
  "site_scopes ls = (\<Union>l \<in> set ls. set (LocScopes l)) - {ScopeUnknown}"

lemma set_LocationScopes: "set (LocationScopes n) = site_scopes (NodeLocs n)"
proof -
  have "set (foldl (\<lambda>union s. if s = ScopeUnknown \<or> s \<in> set union then union else union @ [s]) acc xs)
      = set acc \<union> (set xs - {ScopeUnknown})" for acc and xs :: "scope list"
    by (induction xs arbitrary: acc) auto
  from this [of "[]" "concat (map LocScopes (NodeLocs n))"] show ?thesis
    by (auto simp: LocationScopes_def site_scopes_def)
qed

lemma usageRecordIndex_less: "usageRecordIndex ls loc = Some i \<Longrightarrow> i < length ls"
  by (induction ls arbitrary: i) (auto split: if_splits)

lemma site_scopes_merge_one: "site_scopes (mergeNodeLocation ls loc) = site_scopes ls \<union> site_scopes [loc]"
proof (cases "usageRecordIndex ls loc")
  case None
  then show ?thesis by (auto simp: mergeNodeLocation_def site_scopes_def)
next
  case (Some i)
  then have i: "i < length ls" by (rule usageRecordIndex_less)
  have "set ls = set (take i ls) \<union> {ls ! i} \<union> set (drop (Suc i) ls)"
    using i by (metis Un_insert_right id_take_nth_drop list.simps(15) set_append sup_bot.right_neutral
        Un_insert_left)
  moreover have "set (ls[i := mergeUsageRecord (ls ! i) loc])
      = set (take i ls) \<union> {mergeUsageRecord (ls ! i) loc} \<union> set (drop (Suc i) ls)"
    using i by (simp add: upd_conv_take_nth_drop)
  moreover have "set (LocScopes (mergeUsageRecord (ls ! i) loc))
      = (set (LocScopes (ls ! i)) \<union> set (LocScopes loc)) - {ScopeUnknown}"
    by (simp add: mergeUsageRecord_def set_mergeScopeSet)
  ultimately show ?thesis using Some by (auto simp: mergeNodeLocation_def site_scopes_def)
qed

lemma site_scopes_merge: "site_scopes (mergeNodeLocations ls as) = site_scopes ls \<union> site_scopes as"
  unfolding mergeNodeLocations_def
  by (induction as arbitrary: ls) (auto simp: site_scopes_merge_one, auto simp: site_scopes_def)

lemma RegistryMatchEligible_cong:
  "Ecosystem (Coords a) = Ecosystem (Coords b) \<Longrightarrow> DepSource a = DepSource b \<Longrightarrow>
   RegistryMatchEligible a = RegistryMatchEligible b"
  by (simp add: RegistryMatchEligible_def)

lemma fold_dependency_id [simp]: "dependency_id (fold_dependency L s w) = dependency_id s"
  by (simp add: fold_dependency_def Let_def mergeDependencySources_def)

lemma foldNodes_NodeID [simp]: "NodeID (foldNodes L s w) = NodeID s"
  by (induction L s w rule: foldNodes.induct) (simp_all add: fold_module_def fold_manifest_def Let_def)

lemma foldNodes_Kind [simp]: "Kind (foldNodes L s w) = Kind s"
  by (induction L s w rule: foldNodes.induct) simp_all

lemma mergeDependencySources_fields [simp]:
  "NodeScopes (mergeDependencySources s w) = NodeScopes s" "Coords (mergeDependencySources s w) = Coords s"
  "Relationship (mergeDependencySources s w) = Relationship s" "Matched (mergeDependencySources s w) = Matched s"
  "NodeLocs (mergeDependencySources s w) = NodeLocs s"
  by (simp_all add: mergeDependencySources_def)

lemma mergeDependencySources_eligible:
  assumes "Ecosystem (Coords s) = Ecosystem (Coords w)"
  shows "RegistryMatchEligible (mergeDependencySources s w) \<longleftrightarrow> RegistryMatchEligible s \<or> RegistryMatchEligible w"
  using assms RegistryMatchEligible_cong [of "s\<lparr>DepSource := DepSource w\<rparr>" w]
  by (auto simp: mergeDependencySources_def)

lemma site_scopes_known [simp]: "site_scopes ls - {ScopeUnknown} = site_scopes ls"
  by (auto simp: site_scopes_def)

lemma fold_dependency_scopes:
  "set (NodeScopes (fold_dependency L s w)) =
   set (NodeScopes s) \<union> (set (NodeScopes w) - {ScopeUnknown}) \<union> site_scopes (NodeLocs s) \<union> site_scopes (NodeLocs w)"
proof -
  have "set (NodeScopes (fold_dependency L s w)) =
      (site_scopes (NodeLocs s) \<union> site_scopes (NodeLocs w) - {ScopeUnknown}) \<union>
      ((set (NodeScopes w) - {ScopeUnknown}) \<union> set (NodeScopes s))"
    by (simp add: fold_dependency_def Let_def set_AddScope_fold set_LocationScopes site_scopes_merge)
  moreover have "site_scopes (NodeLocs s) \<union> site_scopes (NodeLocs w) - {ScopeUnknown}
      = site_scopes (NodeLocs s) \<union> site_scopes (NodeLocs w)"
    by (simp add: Un_Diff)
  ultimately show ?thesis by blast
qed

lemma fold_dependency_eligible:
  assumes "Ecosystem (Coords s) = Ecosystem (Coords w)"
  shows "RegistryMatchEligible (fold_dependency L s w) \<longleftrightarrow> RegistryMatchEligible s \<or> RegistryMatchEligible w"
proof -
  let ?s1 = "foldl AddScope (s\<lparr>Relationship := MergeDependencyRelationship (Relationship s) (Relationship w)\<rparr>) (NodeScopes w)"
  let ?s2 = "?s1\<lparr>NodeLocs := mergeNodeLocations (NodeLocs ?s1) (NodeLocs w)\<rparr>"
  let ?s3 = "foldl AddScope ?s2 (LocationScopes ?s2)"
  let ?s4 = "?s3\<lparr>Origins := MergeOrigins L (Origins ?s3) (Origins w)\<rparr>"
  have "RegistryMatchEligible (fold_dependency L s w) = RegistryMatchEligible (mergeDependencySources ?s4 w)"
    by (rule RegistryMatchEligible_cong) (simp_all add: fold_dependency_def Let_def)
  also have "\<dots> \<longleftrightarrow> RegistryMatchEligible ?s4 \<or> RegistryMatchEligible w"
    by (rule mergeDependencySources_eligible) (simp add: assms)
  also have "RegistryMatchEligible ?s4 = RegistryMatchEligible s"
    by (rule RegistryMatchEligible_cong) simp_all
  finally show ?thesis .
qed

section \<open>Identities\<close>

text \<open>What the identity grammar rests on: \<open>packageurl-go\<close> renders every package URL under \<open>pkg:\<close>.\<close>

definition purl_prefixed :: "library \<Rightarrow> bool" where
  "purl_prefixed L \<longleftrightarrow> (\<forall>p. HasPrefix (purl_ToString L p) ''pkg:'')"

lemma HasPrefix_append: "HasPrefix (p @ s) p"
  by (simp add: HasPrefix_def)

lemma purl_String_prefixed: "purl_prefixed L \<Longrightarrow> purl_String L p \<noteq> [] \<Longrightarrow> HasPrefix (purl_String L p) ''pkg:''"
  by (auto simp: purl_String_def purl_Build_def normalizeAndRender_def purl_prefixed_def Let_def
      split: sum.splits option.splits if_splits)

lemma dependencyIdentity_rendered:
  "dependencyIdentityFromPURL L raw = Inr (identity, e) \<Longrightarrow>
   rendered identity \<noteq> [] \<and> (purl_prefixed L \<longrightarrow> HasPrefix (rendered identity) ''pkg:'')"
  using purl_String_prefixed [of L]
  by (auto simp: dependencyIdentityFromPURL_def Let_def split: sum.splits option.splits if_splits)

lemma mint_identity_rendered:
  "mint_identity L coords scratch raw = Inr (identity, e) \<Longrightarrow>
   rendered identity \<noteq> [] \<and> (purl_prefixed L \<longrightarrow> HasPrefix (rendered identity) ''pkg:'')"
  using dependencyIdentity_rendered
  by (auto simp: mint_identity_def Let_def split: sum.splits if_splits)

lemma adoptEvidenceQualifiers_id [simp]: "dependency_id (adoptEvidenceQualifiers L n es) = dependency_id n"
  by (induction es arbitrary: n) (simp_all add: adoptEvidenceQualifiers_def split: option.split)

lemma newDependencyNode_id:
  assumes "newDependencyNode L coords raw = Inr n"
  shows "dependency_id n \<noteq> [] \<and> (purl_prefixed L \<longrightarrow> HasPrefix (dependency_id n) ''pkg:'')"
proof -
  obtain scratch applied where s: "NormalizeCoordinates L (normalizeCoordinateVocabulary coords) = (scratch, applied)"
    by fastforce
  with assms obtain identity e where m: "mint_identity L coords scratch raw = Inr (identity, e)"
    by (auto simp: newDependencyNode_def split: sum.splits)
  have "dependency_id n = rendered identity"
    using assms s m
    by (auto simp: newDependencyNode_def recordNormalization_def backfillCoordinates_def
        new_dependency_record_def Let_def split: if_splits option.splits)
  with mint_identity_rendered [OF m] show ?thesis by simp
qed

lemma finish_module_id:
  "finish_module path n t = Inr m \<Longrightarrow> DeclaringManifestPath m = DeclaringManifestPath n
   \<and> (\<exists>rest. rest \<noteq> [] \<and> module_id m = moduleIDPrefix @ path @ ''#'' @ rest)"
  by (auto simp: finish_module_def split: if_splits)

lemma NewModuleNode_id:
  assumes "NewModuleNode L q c = Inr m"
  shows "CanonicalRepoPath q = Inr (DeclaringManifestPath m)
    \<and> (\<exists>rest. rest \<noteq> [] \<and> module_id m = moduleIDPrefix @ DeclaringManifestPath m @ ''#'' @ rest)"
  using assms
  by (auto simp: NewModuleNode_def adoptIdentity_def Let_def split: sum.splits if_splits
      dest!: finish_module_id)

lemma CanonicalRepoPath_bytes: "CanonicalRepoPath q = Inr r \<Longrightarrow> r \<noteq> [] \<and> CHR ''#'' \<notin> set r"
  by (auto simp: CanonicalRepoPath_def Let_def find_None_iff reserved_path_byte_def split: if_splits option.splits)

lemma split_at_separator:
  "x @ c # y = x' @ c # y' \<Longrightarrow> c \<notin> set x \<Longrightarrow> c \<notin> set x' \<Longrightarrow> x = x' \<and> y = y'"
proof -
  assume eq: "x @ c # y = x' @ c # y'" and c: "c \<notin> set x" "c \<notin> set x'"
  have tw: "takeWhile (\<lambda>a. a \<noteq> c) (z @ c # w) = z" if "c \<notin> set z" for z w
    using that by (induction z) auto
  have "x = x'" using tw [OF c(1), of y] tw [OF c(2), of y'] eq by simp
  with eq show ?thesis by simp
qed

lemma not_isl: "\<not> isl r \<Longrightarrow> (\<And>x. r = Inr x \<Longrightarrow> thesis) \<Longrightarrow> thesis"
  by (cases r) auto

lemma HasPrefix_literal: "HasPrefix s (c # p) \<Longrightarrow> \<exists>t. s = c # t"
  by (cases s) (auto simp: HasPrefix_def)

section \<open>Properties\<close>

text \<open>A second witness of an identity never changes what the node is: \<open>foldNodes\<close> keeps its ID
  and its kind, on every pair of kinds.\<close>

lemma foldNodes_identity: "NodeID (foldNodes L s w) = NodeID s \<and> Kind (foldNodes L s w) = Kind s"
  by simp

text \<open>Folding a dependency record unions what the two witnesses measured: the scopes are those
  of both records and of the locations of both, the known ones of the folded locations are among
  them, a match recorded by either stands, and the record is eligible for registry matching when
  either witness of the same ecosystem is.\<close>

lemma fold_dependency_union:
  assumes "Ecosystem (Coords s) = Ecosystem (Coords w)"
  shows "set (NodeScopes (fold_dependency L s w)) =
      set (NodeScopes s) \<union> (set (NodeScopes w) - {ScopeUnknown})
      \<union> set (LocationScopes s) \<union> set (LocationScopes w)
    \<and> set (LocationScopes (fold_dependency L s w)) \<subseteq> set (NodeScopes (fold_dependency L s w))
    \<and> (Matched (fold_dependency L s w) \<longleftrightarrow> Matched s \<or> Matched w)
    \<and> (RegistryMatchEligible (fold_dependency L s w) \<longleftrightarrow> RegistryMatchEligible s \<or> RegistryMatchEligible w)"
proof (intro conjI)
  show scopes: "set (NodeScopes (fold_dependency L s w)) =
      set (NodeScopes s) \<union> (set (NodeScopes w) - {ScopeUnknown})
      \<union> set (LocationScopes s) \<union> set (LocationScopes w)"
    by (simp only: fold_dependency_scopes set_LocationScopes)
  have "NodeLocs (fold_dependency L s w) = mergeNodeLocations (NodeLocs s) (NodeLocs w)"
    by (simp add: fold_dependency_def Let_def)
  then show "set (LocationScopes (fold_dependency L s w)) \<subseteq> set (NodeScopes (fold_dependency L s w))"
    unfolding scopes by (auto simp: set_LocationScopes site_scopes_merge)
  show "Matched (fold_dependency L s w) \<longleftrightarrow> Matched s \<or> Matched w"
    by (simp add: fold_dependency_def Let_def)
  show "RegistryMatchEligible (fold_dependency L s w) \<longleftrightarrow> RegistryMatchEligible s \<or> RegistryMatchEligible w"
    by (rule fold_dependency_eligible [OF assms])
qed

definition sample_purl :: purl where
  "sample_purl = \<lparr>PType = ''npm'', Namespace = [], PName = ''a'', PVersion = ''1'', Qualifiers = [], Subpath = []\<rparr>"

definition sample_library :: library where
  "sample_library = plain_library\<lparr>
     purl_FromString := \<lambda>s. if s = ''pkg:npm/a@1'' then Some sample_purl else None,
     purl_Normalize := Some,
     purl_ToString := \<lambda>p. ''pkg:'' @ PType p @ ''/'' @ PName p @ ''@'' @ PVersion p\<rparr>"

definition sample_dependency :: dependency_node where
  "sample_dependency = new_dependency_record Coordinates_zero
     \<lparr>rendered = ''pkg:npm/a@1'', parsed = sample_purl, missingVersion = False\<rparr>"

lemma sample_trim: "TrimSpace ''pkg:npm/a@1'' = ''pkg:npm/a@1''" by code_simp

lemma sample_render: "normalizeAndRender sample_library sample_purl = Some (sample_purl, ''pkg:npm/a@1'')"
proof -
  have "trimPathBoundary [] = []" "EqualFold_ascii (TrimSpace ''npm'') ''npm''" "TrimSpace [] = []" "TrimSpace ''a'' = ''a''"
    by code_simp+
  then show ?thesis
    by (simp add: normalizeAndRender_def restoreNPMScope_def sample_library_def sample_purl_def)
qed

lemma sample_parse: "purl_Parse sample_library ''pkg:npm/a@1'' = Inr sample_purl"
proof -
  have "purl_FromString sample_library ''pkg:npm/a@1'' = Some sample_purl" by (simp add: sample_library_def)
  then show ?thesis by (simp add: purl_Parse_def sample_trim sample_render fromPackageURL_def) (simp add: sample_purl_def)
qed

lemma sample_identity: "dependencyIdentityFromPURL sample_library ''pkg:npm/a@1''
    = Inr (\<lparr>rendered = ''pkg:npm/a@1'', parsed = sample_purl, missingVersion = False\<rparr>, [])"
proof -
  have split: "Identity (SplitIdentity sample_purl) = sample_purl" "Evidence (SplitIdentity sample_purl) = []" by code_simp+
  have "TrimSpace (ToLower ''npm'') = ''npm''" "TrimSpace ''a'' = ''a''" "TrimSpace [] = []" "TrimSpace ''1'' = ''1''" by code_simp+
  then have build: "purl_Build sample_library sample_purl = Inr ''pkg:npm/a@1''"
    using sample_render by (simp add: purl_Build_def toLibQualifiers_def sample_purl_def)
  have "mget typeProfiles ''npm'' = None" by code_simp
  then have "purl_Validate sample_library sample_purl = None"
    using build sample_parse by (simp add: purl_Validate_def) (simp add: sample_purl_def)
  then show ?thesis
    using build sample_parse split by (simp add: dependencyIdentityFromPURL_def purl_String_def) (simp add: sample_purl_def)
qed

text \<open>C38. The three constructors mint identities from disjoint, non-empty ranges, so one graph keyed
  by ID can hold all three kinds; and a module's ID determines the manifest that declares it, since
  the canonical path carries no separator.\<close>

theorem node_identities_disjoint:
  assumes "purl_prefixed L" "NewManifestNode p k = Inr m" "NewModuleNode L q c = Inr md"
    "NewModuleNode L q' c' = Inr md'" "newDependencyNode L d raw = Inr dep"
  shows "distinct [[], NodeID (ManifestNode m), NodeID (ModuleNode md), NodeID (DependencyNode dep)]
    \<and> (NodeID (ModuleNode md) = NodeID (ModuleNode md') \<longrightarrow> DeclaringManifestPath md = DeclaringManifestPath md')"
proof
  obtain path where m: "manifest_id m = manifestIDPrefix @ path"
    using assms(2) by (auto simp: NewManifestNode_def split: sum.splits)
  obtain rest where q: "CanonicalRepoPath q = Inr (DeclaringManifestPath md)"
    and md: "module_id md = moduleIDPrefix @ DeclaringManifestPath md @ ''#'' @ rest"
    using NewModuleNode_id [OF assms(3)] by blast
  obtain rest' where q': "CanonicalRepoPath q' = Inr (DeclaringManifestPath md')"
    and md': "module_id md' = moduleIDPrefix @ DeclaringManifestPath md' @ ''#'' @ rest'"
    using NewModuleNode_id [OF assms(4)] by blast
  obtain t where "dependency_id dep = CHR ''p'' # t"
    using newDependencyNode_id [OF assms(5)] assms(1) HasPrefix_literal by blast
  then show "distinct [[], NodeID (ManifestNode m), NodeID (ModuleNode md), NodeID (DependencyNode dep)]"
    using m md by simp
  show "NodeID (ModuleNode md) = NodeID (ModuleNode md') \<longrightarrow> DeclaringManifestPath md = DeclaringManifestPath md'"
    using md md' split_at_separator [of "DeclaringManifestPath md" "CHR ''#''" rest "DeclaringManifestPath md'" rest']
      CanonicalRepoPath_bytes [OF q] CanonicalRepoPath_bytes [OF q'] by auto
qed

theorem node_identities_disjoint_witness:
  "\<exists>m md dep. NewManifestNode ''go.mod'' ''gomod'' = Inr m
     \<and> NewModuleNode sample_library ''go.mod'' (Coordinates_zero\<lparr>PURL := ''pkg:npm/a@1''\<rparr>) = Inr md
     \<and> NewDependencyNodeFromPURL sample_library ''pkg:npm/a@1'' = Inr dep
     \<and> distinct [manifest_id m, module_id md, dependency_id dep]"
proof -
  have p: "purl_prefixed sample_library" by (simp add: purl_prefixed_def sample_library_def HasPrefix_def)
  have "\<not> isl (NewManifestNode ''go.mod'' ''gomod'')" by code_simp
  then obtain m where m: "NewManifestNode ''go.mod'' ''gomod'' = Inr m" by (rule not_isl)
  have "CanonicalRepoPath ''go.mod'' = Inr ''go.mod''" by code_simp
  then have "\<not> isl (NewModuleNode sample_library ''go.mod'' (Coordinates_zero\<lparr>PURL := ''pkg:npm/a@1''\<rparr>))"
    by (simp add: NewModuleNode_def sample_trim sample_identity finish_module_def Let_def)
  then obtain md where md: "NewModuleNode sample_library ''go.mod'' (Coordinates_zero\<lparr>PURL := ''pkg:npm/a@1''\<rparr>) = Inr md"
    by (rule not_isl)
  have "\<not> isl (NewDependencyNodeFromPURL sample_library ''pkg:npm/a@1'')"
    by (simp add: NewDependencyNodeFromPURL_def newDependencyNode_def mint_identity_def sample_trim
        sample_identity Let_def split: prod.split)
  then obtain dep where dep: "NewDependencyNodeFromPURL sample_library ''pkg:npm/a@1'' = Inr dep"
    by (rule not_isl)
  have "distinct [[], NodeID (ManifestNode m), NodeID (ModuleNode md), NodeID (DependencyNode dep)]"
    using node_identities_disjoint [OF p m md md dep [unfolded NewDependencyNodeFromPURL_def]] by (rule conjunct1)
  then have "distinct [manifest_id m, module_id md, dependency_id dep]" by simp
  with m md dep show ?thesis by blast
qed

end
