(* ===== verification/Graph.thy ===== *)
theory Graph
  imports Nodes
begin

text \<open>
  The typed dependency graph, \<^verbatim>\<open>model/graph.go\<close>: nodes live in slots, an index maps the ID
  of a node to its slot, every slot has a map of outgoing and one of incoming edges, and the
  slots of removed nodes are kept on a free list. The theory has the operations, the invariant
  \<open>graph_ok\<close> that relates the six tables, what every operation does to nodes and edges keyed by
  ID, and the interface \<open>graph_store\<close> the algorithms on graphs are proved against.

  A Go map is an association list, a nil map the empty one; the slot of a removed node is
  \<open>None\<close>. A lookup of an ID that is indexed at an empty slot, which the invariant excludes, is
  not told apart from a lookup of an absent ID.
\<close>

datatype graph_error = ErrNilNode | ErrEmptyNodeID | ErrNodeAlreadyExist string
  | ErrNodeNotFound string | ErrSelfDependency | ErrCycleDetected

record graph =
  indexByID :: "(string, nat) gomap"
  nodes :: "graph_node option list"
  alive :: "bool list"
  outgoing :: "(nat, edge_kind) gomap list"
  incoming :: "(nat, edge_kind) gomap list"
  free :: "nat list"
  node_count :: nat

section \<open>Operations\<close>

definition NewWithCapacity :: "nat \<Rightarrow> graph" where
  "NewWithCapacity nodeCount =
     \<lparr>indexByID = [], nodes = [], alive = [], outgoing = [], incoming = [], free = [], node_count = 0\<rparr>"

definition New :: graph where
  "New = NewWithCapacity 0"

definition nextSlot :: "graph \<Rightarrow> graph \<times> nat" where
  "nextSlot g =
     (if free g \<noteq> [] then (g\<lparr>free := butlast (free g)\<rparr>, last (free g))
      else (g\<lparr>nodes := nodes g @ [None], alive := alive g @ [False],
              outgoing := outgoing g @ [[]], incoming := incoming g @ [[]]\<rparr>, length (nodes g)))"

definition AddNode :: "graph \<Rightarrow> graph_node option \<Rightarrow> graph_error + graph" where
  "AddNode g node =
     (case node of
        None \<Rightarrow> Inl ErrNilNode
      | Some n \<Rightarrow>
          if NodeID n = [] then Inl ErrEmptyNodeID
          else if mget (indexByID g) (NodeID n) \<noteq> None then Inl (ErrNodeAlreadyExist (NodeID n))
          else (let (g, idx) = nextSlot g in
                Inr (g\<lparr>nodes := (nodes g)[idx := Some n], alive := (alive g)[idx := True],
                       outgoing := (outgoing g)[idx := []], incoming := (incoming g)[idx := []],
                       indexByID := mput (NodeID n) idx (indexByID g), node_count := node_count g + 1\<rparr>)))"

definition Node :: "graph \<Rightarrow> string \<Rightarrow> graph_node option" where
  "Node g i = (case mget (indexByID g) i of None \<Rightarrow> None | Some idx \<Rightarrow> nodes g ! idx)"

definition Graph_DependencyNode :: "graph \<Rightarrow> string \<Rightarrow> dependency_node option" where
  "Graph_DependencyNode g i = AsDependencyNode (Node g i)"

definition InsertNode :: "library \<Rightarrow> graph \<Rightarrow> graph_node option \<Rightarrow> graph_error + graph \<times> graph_node" where
  "InsertNode L g node =
     (case node of
        None \<Rightarrow> Inl ErrNilNode
      | Some n \<Rightarrow>
          if NodeID n = [] then Inl ErrEmptyNodeID
          else (case mget (indexByID g) (NodeID n) of
                  None \<Rightarrow> map_sum id (\<lambda>g. (g, n)) (AddNode g node)
                | Some idx \<Rightarrow>
                    (let folded = foldNodes L (the (nodes g ! idx)) n
                     in Inr (g\<lparr>nodes := (nodes g)[idx := Some folded]\<rparr>, folded))))"

definition requireIndex :: "graph \<Rightarrow> string \<Rightarrow> graph_error + nat" where
  "requireIndex g i = (case mget (indexByID g) i of None \<Rightarrow> Inl (ErrNodeNotFound i) | Some idx \<Rightarrow> Inr idx)"

definition set_edge :: "graph \<Rightarrow> nat \<Rightarrow> nat \<Rightarrow> edge_kind \<Rightarrow> graph" where
  "set_edge g a b kind =
     g\<lparr>outgoing := (outgoing g)[a := mput b kind (outgoing g ! a)],
       incoming := (incoming g)[b := mput a kind (incoming g ! b)]\<rparr>"

definition AddTypedEdge :: "graph \<Rightarrow> string \<Rightarrow> string \<Rightarrow> edge_kind \<Rightarrow> graph_error + graph" where
  "AddTypedEdge g fromID toID kind =
     (if fromID = toID then Inl ErrSelfDependency
      else (case requireIndex g fromID of
              Inl err \<Rightarrow> Inl err
            | Inr a \<Rightarrow>
                (case requireIndex g toID of
                   Inl err \<Rightarrow> Inl err
                 | Inr b \<Rightarrow>
                     (let kind = (if kind = EdgeKindUnknown then DeriveEdgeKind (nodes g ! a) (nodes g ! b) else kind)
                      in Inr (case mget (outgoing g ! a) b of
                                Some existing \<Rightarrow> set_edge g a b (MergeEdgeKind existing kind)
                              | None \<Rightarrow> set_edge g a b kind)))))"

definition AddEdge :: "graph \<Rightarrow> string \<Rightarrow> string \<Rightarrow> graph_error + graph" where
  "AddEdge g fromID toID = AddTypedEdge g fromID toID EdgeKindUnknown"

definition EdgeKindOf :: "graph \<Rightarrow> string \<Rightarrow> string \<Rightarrow> edge_kind" where
  "EdgeKindOf g fromID toID =
     (case mget (indexByID g) fromID of
        None \<Rightarrow> EdgeKindUnknown
      | Some a \<Rightarrow>
          (case mget (indexByID g) toID of
             None \<Rightarrow> EdgeKindUnknown
           | Some b \<Rightarrow> (case mget (outgoing g ! a) b of None \<Rightarrow> EdgeKindUnknown | Some kind \<Rightarrow> kind)))"

definition RemoveEdge :: "graph \<Rightarrow> string \<Rightarrow> string \<Rightarrow> graph \<times> bool" where
  "RemoveEdge g fromID toID =
     (case mget (indexByID g) fromID of
        None \<Rightarrow> (g, False)
      | Some a \<Rightarrow>
          (case mget (indexByID g) toID of
             None \<Rightarrow> (g, False)
           | Some b \<Rightarrow>
               if mget (outgoing g ! a) b = None then (g, False)
               else (g\<lparr>outgoing := (outgoing g)[a := mdel b (outgoing g ! a)],
                       incoming := (incoming g)[b := mdel a (incoming g ! b)]\<rparr>, True)))"

definition delete_at :: "nat list \<Rightarrow> nat \<Rightarrow> (nat, edge_kind) gomap list \<Rightarrow> (nat, edge_kind) gomap list" where
  "delete_at slots idx tables = foldl (\<lambda>t j. t[j := mdel idx (t ! j)]) tables slots"

definition RemoveNode :: "graph \<Rightarrow> string \<Rightarrow> graph \<times> bool" where
  "RemoveNode g i =
     (case mget (indexByID g) i of
        None \<Rightarrow> (g, False)
      | Some idx \<Rightarrow>
          (let g = g\<lparr>incoming := delete_at (mkeys (outgoing g ! idx)) idx (incoming g)\<rparr>;
               g = g\<lparr>outgoing := delete_at (mkeys (incoming g ! idx)) idx (outgoing g)\<rparr>
           in (g\<lparr>indexByID := mdel i (indexByID g), nodes := (nodes g)[idx := None],
                 alive := (alive g)[idx := False], outgoing := (outgoing g)[idx := []],
                 incoming := (incoming g)[idx := []], free := free g @ [idx],
                 node_count := node_count g - 1\<rparr>, True)))"

definition node_at :: "graph \<Rightarrow> nat \<Rightarrow> graph_node" where
  "node_at g i = the (nodes g ! i)"

definition sort_slots :: "graph \<Rightarrow> nat list \<Rightarrow> nat list" where
  "sort_slots g slots = sort_key (\<lambda>i. NodeID (node_at g i)) slots"

definition sortedIndices :: "graph \<Rightarrow> nat list" where
  "sortedIndices g = sort_slots g (map snd (indexByID g))"

definition Graph_Nodes :: "graph \<Rightarrow> graph_node list" where
  "Graph_Nodes g = map (node_at g) (sortedIndices g)"

definition DependencyNodes :: "graph \<Rightarrow> dependency_node list" where
  "DependencyNodes g = List.map_filter (\<lambda>i. AsDependencyNode (nodes g ! i)) (sortedIndices g)"

definition ModuleNodes :: "graph \<Rightarrow> module_node list" where
  "ModuleNodes g = List.map_filter (\<lambda>i. AsModuleNode (nodes g ! i)) (sortedIndices g)"

definition ManifestNodes :: "graph \<Rightarrow> manifest_node list" where
  "ManifestNodes g = List.map_filter
     (\<lambda>i. case nodes g ! i of Some (ManifestNode m) \<Rightarrow> Some m | _ \<Rightarrow> None) (sortedIndices g)"

definition sortedAdjacent :: "graph \<Rightarrow> (nat, edge_kind) gomap \<Rightarrow> nat list" where
  "sortedAdjacent g adj = sort_slots g (mkeys adj)"

definition lookupSorted :: "graph \<Rightarrow> (nat, edge_kind) gomap \<Rightarrow> graph_node list" where
  "lookupSorted g ids = map (node_at g) (sort_slots g (mkeys ids))"

definition DirectDependencies :: "graph \<Rightarrow> string \<Rightarrow> graph_error + graph_node list" where
  "DirectDependencies g i = map_sum id (\<lambda>idx. lookupSorted g (outgoing g ! idx)) (requireIndex g i)"

definition Dependents :: "graph \<Rightarrow> string \<Rightarrow> graph_error + graph_node list" where
  "Dependents g i = map_sum id (\<lambda>idx. lookupSorted g (incoming g ! idx)) (requireIndex g i)"

definition Roots :: "graph \<Rightarrow> graph_node list" where
  "Roots g = map (node_at g) (filter (\<lambda>i. incoming g ! i = []) (sortedIndices g))"

definition Leaves :: "graph \<Rightarrow> graph_node list" where
  "Leaves g = map (node_at g) (filter (\<lambda>i. outgoing g ! i = []) (sortedIndices g))"

text \<open>\<open>WalkNodes\<close> and \<open>WalkTypedEdges\<close> call back once per live node and per edge, until a call
  returns false: their models list what they visit, in the order of the visit.\<close>

definition live_slots :: "graph \<Rightarrow> nat list" where
  "live_slots g = filter (\<lambda>i. nodes g ! i \<noteq> None \<and> alive g ! i) [0..<length (nodes g)]"

definition WalkNodes :: "graph \<Rightarrow> graph_node list" where
  "WalkNodes g = map (node_at g) (live_slots g)"

definition WalkDependencyNodes :: "graph \<Rightarrow> dependency_node list" where
  "WalkDependencyNodes g = List.map_filter (\<lambda>n. AsDependencyNode (Some n)) (WalkNodes g)"

definition WalkTypedEdges :: "graph \<Rightarrow> (graph_node \<times> graph_node \<times> edge_kind) list" where
  "WalkTypedEdges g =
     concat (map (\<lambda>a. map (\<lambda>(b, kind). (node_at g a, node_at g b, kind))
                        (filter (\<lambda>(b, kind). alive g ! b) (outgoing g ! a)))
       (filter (\<lambda>a. alive g ! a) [0..<length (outgoing g)]))"

definition WalkEdges :: "graph \<Rightarrow> (graph_node \<times> graph_node) list" where
  "WalkEdges g = map (\<lambda>(a, b, kind). (a, b)) (WalkTypedEdges g)"

definition PrettyString :: "graph \<Rightarrow> string" where
  "PrettyString g =
     (if node_count g = 0 then ''(empty graph)''
      else Join (map (\<lambda>n. NodeID n @ '' -> ['' @
             Join (case DirectDependencies g (NodeID n) of Inl _ \<Rightarrow> [] | Inr ds \<Rightarrow> map NodeID ds) '', '' @ '']'')
           (Graph_Nodes g)) [CHR 0x0A])"

section \<open>The invariant\<close>

definition slot :: "graph \<Rightarrow> nat \<Rightarrow> graph_node option" where
  "slot g i = (if i < length (nodes g) then nodes g ! i else None)"

definition table_kind :: "(nat, edge_kind) gomap list \<Rightarrow> nat \<Rightarrow> nat \<Rightarrow> edge_kind option" where
  "table_kind t i j = (if i < length t then mget (t ! i) j else None)"

definition index_ok :: "graph \<Rightarrow> bool" where
  "index_ok g \<longleftrightarrow> gomap_ok (indexByID g) \<and> node_count g = length (indexByID g)
     \<and> (\<forall>i n. slot g i = Some n \<longrightarrow> NodeID n \<noteq> [])
     \<and> (\<forall>x i. mget (indexByID g) x = Some i \<longleftrightarrow> (\<exists>n. slot g i = Some n \<and> NodeID n = x))"

definition slots_ok :: "graph \<Rightarrow> bool" where
  "slots_ok g \<longleftrightarrow> length (alive g) = length (nodes g) \<and> (\<forall>i < length (nodes g). alive g ! i \<longleftrightarrow> nodes g ! i \<noteq> None)
     \<and> distinct (free g) \<and> set (free g) = {i. i < length (nodes g) \<and> nodes g ! i = None}"

definition edges_ok :: "graph \<Rightarrow> bool" where
  "edges_ok g \<longleftrightarrow> length (outgoing g) = length (nodes g) \<and> length (incoming g) = length (nodes g)
     \<and> list_all gomap_ok (outgoing g) \<and> list_all gomap_ok (incoming g)
     \<and> (\<forall>i j. table_kind (incoming g) j i = table_kind (outgoing g) i j)
     \<and> (\<forall>i j k. table_kind (outgoing g) i j = Some k \<longrightarrow>
          slot g i \<noteq> None \<and> slot g j \<noteq> None \<and> i \<noteq> j \<and> k \<noteq> EdgeKindUnknown)"

definition graph_ok :: "graph \<Rightarrow> bool" where
  "graph_ok g \<longleftrightarrow> index_ok g \<and> slots_ok g \<and> edges_ok g"

lemma table_kind_update:
  "table_kind (t[i := m]) a b = (if i < length t \<and> a = i then mget m b else table_kind t a b)"
  by (auto simp: table_kind_def nth_list_update)

lemma table_kind_put:
  "i < length t \<Longrightarrow> table_kind (t[i := mput j k (t ! i)]) = (\<lambda>a b. if a = i \<and> b = j then Some k else table_kind t a b)"
  by (intro ext) (simp add: table_kind_update gomap_simps, simp add: table_kind_def)

lemma table_kind_del:
  "table_kind (t[i := mdel j (t ! i)]) = (\<lambda>a b. if a = i \<and> b = j then None else table_kind t a b)"
  by (intro ext) (simp add: table_kind_update gomap_simps, simp add: table_kind_def)

lemma table_kind_grow: "table_kind (t @ [[]]) a b = table_kind t a b"
  by (simp add: table_kind_def nth_append)

lemma list_all_update: "list_all P xs \<Longrightarrow> P x \<Longrightarrow> list_all P (xs[i := x])"
  by (auto simp: list_all_iff dest!: subsetD [OF set_update_subset_insert])

lemma list_all_at: "list_all P xs \<Longrightarrow> i < length xs \<Longrightarrow> P (xs ! i)"
  by (simp add: list_all_length)

lemma slot_Some_less: "slot g i = Some n \<Longrightarrow> i < length (nodes g) \<and> nodes g ! i = Some n"
  by (simp add: slot_def split: if_splits)

lemma index_slot:
  "index_ok g \<Longrightarrow> mget (indexByID g) x = Some i \<Longrightarrow> \<exists>n. slot g i = Some n \<and> NodeID n = x"
  by (simp add: index_ok_def)

lemma slot_index: "index_ok g \<Longrightarrow> slot g i = Some n \<Longrightarrow> mget (indexByID g) (NodeID n) = Some i"
  by (auto simp: index_ok_def)

lemma graph_ok_New: "graph_ok (NewWithCapacity c)"
  by (simp add: graph_ok_def index_ok_def slots_ok_def edges_ok_def NewWithCapacity_def slot_def table_kind_def)

text \<open>A new slot is empty, in range and off the free list, and the rest of the graph is as it was.\<close>

definition fresh_slot :: "graph \<Rightarrow> graph \<Rightarrow> nat \<Rightarrow> bool" where
  "fresh_slot g g' idx \<longleftrightarrow> idx < length (nodes g') \<and> slot g' = slot g \<and> slot g idx = None \<and>
    indexByID g' = indexByID g \<and> node_count g' = node_count g \<and>
    table_kind (outgoing g') = table_kind (outgoing g) \<and> table_kind (incoming g') = table_kind (incoming g) \<and>
    length (alive g') = length (nodes g') \<and> length (outgoing g') = length (nodes g') \<and>
    length (incoming g') = length (nodes g') \<and> list_all gomap_ok (outgoing g') \<and> list_all gomap_ok (incoming g') \<and>
    (\<forall>i < length (nodes g'). alive g' ! i \<longleftrightarrow> nodes g' ! i \<noteq> None) \<and>
    distinct (free g') \<and> set (free g') = {i. i < length (nodes g') \<and> nodes g' ! i = None} - {idx}"

lemma set_butlast_distinct: "distinct xs \<Longrightarrow> xs \<noteq> [] \<Longrightarrow> set (butlast xs) = set xs - {last xs}"
  by (induction xs rule: rev_induct) auto

lemma nextSlot_reuse:
  assumes sl: "slots_ok g" and ed: "edges_ok g" and ne: "free g \<noteq> []"
  shows "fresh_slot g (g\<lparr>free := butlast (free g)\<rparr>) (last (free g))"
proof -
  have "last (free g) \<in> set (free g)" using ne by simp
  then have at: "last (free g) < length (nodes g)" "nodes g ! last (free g) = None"
    using sl by (auto simp: slots_ok_def)
  have "slot (g\<lparr>free := butlast (free g)\<rparr>) = slot g" by (rule ext) (simp add: slot_def)
  then show ?thesis
    using at sl ed ne by (simp add: fresh_slot_def slots_ok_def edges_ok_def set_butlast_distinct distinct_butlast)
      (simp add: slot_def)
qed

lemma nextSlot_grow:
  assumes sl: "slots_ok g" and ed: "edges_ok g" and ne: "free g = []"
  shows "fresh_slot g (g\<lparr>nodes := nodes g @ [None], alive := alive g @ [False],
              outgoing := outgoing g @ [[]], incoming := incoming g @ [[]]\<rparr>) (length (nodes g))"
    (is "fresh_slot g ?g _")
proof -
  have all: "\<forall>i < length (nodes g). nodes g ! i \<noteq> None" using sl ne by (auto simp: slots_ok_def)
  have s: "slot ?g = slot g" by (rule ext) (simp add: slot_def nth_append)
  have t: "table_kind (outgoing ?g) = table_kind (outgoing g)" "table_kind (incoming ?g) = table_kind (incoming g)"
    by (intro ext, simp add: table_kind_grow)+
  have e: "{i. i < length (nodes ?g) \<and> nodes ?g ! i = None} - {length (nodes g)} = {}"
    using all by (auto simp: nth_append less_Suc_eq)
  have a: "\<forall>i < length (nodes ?g). alive ?g ! i \<longleftrightarrow> nodes ?g ! i \<noteq> None"
    using sl by (auto simp: slots_ok_def nth_append less_Suc_eq)
  show ?thesis using s t e a sl ed ne
    by (simp add: fresh_slot_def slots_ok_def edges_ok_def) (simp add: slot_def)
qed

lemma nextSlot_fresh: "graph_ok g \<Longrightarrow> nextSlot g = (g', idx) \<Longrightarrow> fresh_slot g g' idx"
  using nextSlot_reuse [of g] nextSlot_grow [of g]
  by (auto simp: graph_ok_def nextSlot_def split: if_splits)

definition edge_of :: "graph \<Rightarrow> string \<Rightarrow> string \<Rightarrow> edge_kind option" where
  "edge_of g a b =
     (case (mget (indexByID g) a, mget (indexByID g) b) of
        (Some i, Some j) \<Rightarrow> mget (outgoing g ! i) j | _ \<Rightarrow> None)"

lemma no_edges_at_empty:
  assumes "edges_ok g" "slot g i = None"
  shows "table_kind (outgoing g) i j = None" "table_kind (incoming g) i j = None"
    "table_kind (outgoing g) j i = None" "table_kind (incoming g) j i = None"
  using assms unfolding edges_ok_def by (metis not_None_eq)+

lemma index_less: "index_ok g \<Longrightarrow> mget (indexByID g) x = Some i \<Longrightarrow> i < length (nodes g)"
  using index_slot slot_Some_less by blast

lemma Node_slot: "graph_ok g \<Longrightarrow> Node g x = (case mget (indexByID g) x of None \<Rightarrow> None | Some i \<Rightarrow> slot g i)"
  by (auto simp: Node_def graph_ok_def slot_def dest: index_less split: option.split)

lemma Node_Some: "graph_ok g \<Longrightarrow> Node g x = Some n \<longleftrightarrow> (\<exists>i. mget (indexByID g) x = Some i \<and> slot g i = Some n)"
  by (simp add: Node_slot split: option.split)

lemma Node_id: "graph_ok g \<Longrightarrow> Node g x = Some n \<Longrightarrow> NodeID n = x \<and> x \<noteq> []"
  by (auto simp: Node_Some graph_ok_def index_ok_def)

lemma Node_None: "graph_ok g \<Longrightarrow> Node g x = None \<longleftrightarrow> mget (indexByID g) x = None"
  by (auto simp: Node_slot graph_ok_def dest: index_slot split: option.split)

lemma edge_of_table:
  "graph_ok g \<Longrightarrow> edge_of g a b =
     (case (mget (indexByID g) a, mget (indexByID g) b) of
        (Some i, Some j) \<Rightarrow> table_kind (outgoing g) i j | _ \<Rightarrow> None)"
  by (auto simp: edge_of_def table_kind_def graph_ok_def edges_ok_def dest: index_less split: option.split)

lemma slot_update: "nodes h = (nodes g)[i := v] \<Longrightarrow> i < length (nodes g) \<Longrightarrow> slot h = (slot g)(i := v)"
  by (rule ext) (simp add: slot_def nth_list_update)

lemma AddNode_Inr:
  assumes g: "graph_ok g" and add: "AddNode g (Some n) = Inr g2"
  shows "graph_ok g2 \<and> mget (indexByID g) (NodeID n) = None \<and> NodeID n \<noteq> []
    \<and> (\<exists>idx. slot g idx = None \<and> slot g2 = (slot g)(idx := Some n)
         \<and> indexByID g2 = mput (NodeID n) idx (indexByID g)
         \<and> table_kind (outgoing g2) = table_kind (outgoing g))"
proof -
  obtain g' idx where nx: "nextSlot g = (g', idx)" by fastforce
  note fresh = nextSlot_fresh [OF g nx]
  have g2: "g2 = g'\<lparr>nodes := (nodes g')[idx := Some n], alive := (alive g')[idx := True],
      outgoing := (outgoing g')[idx := []], incoming := (incoming g')[idx := []],
      indexByID := mput (NodeID n) idx (indexByID g'), node_count := node_count g' + 1\<rparr>"
    and new: "mget (indexByID g) (NodeID n) = None" and ne: "NodeID n \<noteq> []"
    using add nx by (auto simp: AddNode_def split: if_splits)
  have ix: "index_ok g" and ed: "edges_ok g" using g by (simp_all add: graph_ok_def)
  have slot2: "slot g2 = (slot g)(idx := Some n)"
    using fresh slot_update [of g2 g' idx "Some n"] by (simp add: fresh_slot_def g2)
  have empty: "slot g idx = None" using fresh by (simp add: fresh_slot_def)
  have out: "table_kind (outgoing g2) = table_kind (outgoing g)" "table_kind (incoming g2) = table_kind (incoming g)"
    using fresh no_edges_at_empty [OF ed empty] by (auto simp: fresh_slot_def g2 table_kind_update fun_eq_iff)
  have index: "indexByID g2 = mput (NodeID n) idx (indexByID g)" using fresh by (simp add: fresh_slot_def g2)
  have "index_ok g2"
    unfolding index_ok_def index slot2
  proof (intro conjI allI impI)
    show "gomap_ok (mput (NodeID n) idx (indexByID g))" using ix by (simp add: index_ok_def)
    show "node_count g2 = length (mput (NodeID n) idx (indexByID g))"
      using ix fresh new by (simp add: g2 fresh_slot_def index_ok_def length_mput_new)
    show "NodeID m \<noteq> []" if "((slot g)(idx := Some n)) i = Some m" for i m
      using that ix ne by (auto simp: index_ok_def split: if_splits)
    show "mget (mput (NodeID n) idx (indexByID g)) x = Some i
        \<longleftrightarrow> (\<exists>m. ((slot g)(idx := Some n)) i = Some m \<and> NodeID m = x)" for x i
    proof -
      have "NodeID m \<noteq> NodeID n" if "slot g i = Some m" for m
        using slot_index [OF ix that] new by auto
      moreover have "mget (indexByID g) x = Some i \<longleftrightarrow> (\<exists>m. slot g i = Some m \<and> NodeID m = x)"
        using ix by (simp add: index_ok_def)
      ultimately show ?thesis using empty by (auto simp: gomap_simps)
    qed
  qed
  moreover have "slots_ok g2"
    using fresh by (auto simp: slots_ok_def fresh_slot_def g2 nth_list_update)
  moreover have "edges_ok g2"
    unfolding edges_ok_def out slot2
    using ed empty fresh by (auto simp: edges_ok_def fresh_slot_def g2 list_all_update)
  ultimately show ?thesis using new ne empty slot2 index out by (auto simp: graph_ok_def)
qed

text \<open>Replacing a record by one of the same ID leaves the index and the edges alone.\<close>

lemma InsertNode_Inr:
  assumes g: "graph_ok g" and ins: "InsertNode L g (Some n) = Inr (g2, m)"
  shows "graph_ok g2 \<and> NodeID n \<noteq> []
    \<and> (\<exists>idx. slot g2 = (slot g)(idx := Some m)
         \<and> (case Node g (NodeID n) of
              None \<Rightarrow> m = n \<and> slot g idx = None \<and> indexByID g2 = mput (NodeID n) idx (indexByID g)
            | Some s \<Rightarrow> m = foldNodes L s n \<and> slot g idx = Some s \<and> indexByID g2 = indexByID g)
         \<and> table_kind (outgoing g2) = table_kind (outgoing g))"
proof (cases "mget (indexByID g) (NodeID n)")
  case None
  then have "AddNode g (Some n) = Inr g2" "m = n"
    using ins by (cases "AddNode g (Some n)"; auto simp: InsertNode_def split: if_splits)+
  with AddNode_Inr [OF g, of n g2] None show ?thesis by (auto simp: Node_def)
next
  case (Some idx)
  have ix: "index_ok g" and sl: "slots_ok g" and ed: "edges_ok g" using g by (simp_all add: graph_ok_def)
  obtain s where s: "slot g idx = Some s" "NodeID s = NodeID n" using index_slot [OF ix Some] by blast
  then have less: "idx < length (nodes g)" and at: "nodes g ! idx = Some s" using slot_Some_less by blast+
  have ne: "NodeID n \<noteq> []" and m: "m = foldNodes L s n" and g2: "g2 = g\<lparr>nodes := (nodes g)[idx := Some m]\<rparr>"
    using ins Some at by (auto simp: InsertNode_def Let_def split: if_splits)
  have slot2: "slot g2 = (slot g)(idx := Some m)" using slot_update less by (simp add: g2)
  have id: "NodeID m = NodeID s" by (simp add: m)
  have "index_ok g2"
    unfolding index_ok_def slot2 using ix s ne id by (auto simp: g2 index_ok_def)
  moreover have "slots_ok g2" using sl at less by (auto simp: g2 slots_ok_def nth_list_update)
  moreover have "edges_ok g2" unfolding edges_ok_def slot2 using ed by (auto simp: g2 edges_ok_def)
  moreover have "Node g (NodeID n) = Some s" using Some at by (simp add: Node_def)
  ultimately show ?thesis using ne slot2 m s by (auto simp: graph_ok_def g2)
qed

lemma set_edge_ok:
  assumes g: "graph_ok g" and i: "slot g i \<noteq> None" and j: "slot g j \<noteq> None" and ne: "i \<noteq> j" and k: "k \<noteq> EdgeKindUnknown"
  shows "graph_ok (set_edge g i j k)" "slot (set_edge g i j k) = slot g"
    "table_kind (outgoing (set_edge g i j k)) = (\<lambda>a b. if a = i \<and> b = j then Some k else table_kind (outgoing g) a b)"
proof -
  have ed: "edges_ok g" using g by (simp add: graph_ok_def)
  have less: "i < length (nodes g)" "j < length (nodes g)" using i j by (auto simp: slot_def split: if_splits)
  have len: "length (outgoing g) = length (nodes g)" "length (incoming g) = length (nodes g)"
    using ed by (simp_all add: edges_ok_def)
  show slot: "slot (set_edge g i j k) = slot g" by (rule ext) (simp add: set_edge_def slot_def)
  show out: "table_kind (outgoing (set_edge g i j k)) = (\<lambda>a b. if a = i \<and> b = j then Some k else table_kind (outgoing g) a b)"
    using less len by (simp add: set_edge_def table_kind_put)
  have inn: "table_kind (incoming (set_edge g i j k)) = (\<lambda>a b. if a = j \<and> b = i then Some k else table_kind (incoming g) a b)"
    using less len by (simp add: set_edge_def table_kind_put)
  have "list_all gomap_ok (outgoing (set_edge g i j k))" "list_all gomap_ok (incoming (set_edge g i j k))"
    using ed less len by (auto simp: set_edge_def edges_ok_def list_all_at intro!: list_all_update)
  then have "edges_ok (set_edge g i j k)"
    unfolding edges_ok_def out inn slot using ed i j ne k by (auto simp: edges_ok_def set_edge_def)
  moreover have "index_ok (set_edge g i j k)"
    using g unfolding graph_ok_def index_ok_def slot by (simp add: set_edge_def)
  moreover have "slots_ok (set_edge g i j k)"
    using g by (simp add: graph_ok_def slots_ok_def set_edge_def)
  ultimately show "graph_ok (set_edge g i j k)" by (simp add: graph_ok_def)
qed

definition edge_result :: "graph \<Rightarrow> string \<Rightarrow> string \<Rightarrow> edge_kind \<Rightarrow> edge_kind" where
  "edge_result g a b kind =
     (let kind = (if kind = EdgeKindUnknown then DeriveEdgeKind (Node g a) (Node g b) else kind)
      in case edge_of g a b of None \<Rightarrow> kind | Some existing \<Rightarrow> MergeEdgeKind existing kind)"

lemma edge_of_known: "graph_ok g \<Longrightarrow> edge_of g a b = Some k \<Longrightarrow> k \<noteq> EdgeKindUnknown"
  by (auto simp: edge_of_table graph_ok_def edges_ok_def split: option.splits)

lemma edge_result_known:
  assumes g: "graph_ok g" and "Node g a \<noteq> None" "Node g b \<noteq> None"
  shows "edge_result g a b kind \<noteq> EdgeKindUnknown"
proof -
  have "DeriveEdgeKind (Node g a) (Node g b) \<noteq> EdgeKindUnknown" using assms by (auto split: if_splits)
  then show ?thesis using edge_of_known [OF g, of a b]
    by (auto simp: edge_result_def Let_def MergeEdgeKind_eq split: option.split)
qed

lemma AddTypedEdge_Inr:
  assumes g: "graph_ok g" and add: "AddTypedEdge g a b kind = Inr g2"
  shows "graph_ok g2 \<and> a \<noteq> b \<and> slot g2 = slot g \<and> indexByID g2 = indexByID g
    \<and> (\<exists>i j. mget (indexByID g) a = Some i \<and> mget (indexByID g) b = Some j \<and> i \<noteq> j
         \<and> table_kind (outgoing g2) = (\<lambda>x y. if x = i \<and> y = j then Some (edge_result g a b kind)
              else table_kind (outgoing g) x y))"
proof -
  obtain i j where ij: "mget (indexByID g) a = Some i" "mget (indexByID g) b = Some j" and ab: "a \<noteq> b"
    using add by (auto simp: AddTypedEdge_def requireIndex_def split: if_splits option.splits)
  have ix: "index_ok g" using g by (simp add: graph_ok_def)
  obtain m n where m: "slot g i = Some m" "NodeID m = a" and n: "slot g j = Some n" "NodeID n = b"
    using index_slot [OF ix] ij by blast
  have ne: "i \<noteq> j" using m n ab by auto
  have at: "Node g a = nodes g ! i" "Node g b = nodes g ! j" using ij by (simp_all add: Node_def)
  have known: "edge_result g a b kind \<noteq> EdgeKindUnknown"
    using edge_result_known [OF g] m n ij by (simp add: Node_slot [OF g])
  have "g2 = set_edge g i j (edge_result g a b kind)"
    using add ij ab by (auto simp: AddTypedEdge_def requireIndex_def edge_result_def Let_def at edge_of_def
        split: option.splits)
  then show ?thesis using set_edge_ok [OF g _ _ ne known] m n ij ne ab by (auto simp: set_edge_def)
qed

lemma RemoveEdge_ok:
  assumes g: "graph_ok g" and rem: "RemoveEdge g a b = (g2, found)"
  shows "graph_ok g2 \<and> slot g2 = slot g \<and> indexByID g2 = indexByID g
    \<and> (found \<longleftrightarrow> edge_of g a b \<noteq> None)
    \<and> table_kind (outgoing g2) = (\<lambda>i j. if mget (indexByID g) a = Some i \<and> mget (indexByID g) b = Some j
         then None else table_kind (outgoing g) i j)"
proof (cases "edge_of g a b")
  case None
  then have "g2 = g" "\<not> found" using rem
    by (auto simp: RemoveEdge_def edge_of_def split: option.splits)
  moreover have "table_kind (outgoing g) i j = None"
    if "mget (indexByID g) a = Some i" "mget (indexByID g) b = Some j" for i j
    using None that by (simp add: edge_of_table [OF g])
  ultimately show ?thesis using g None by (auto simp: fun_eq_iff)
next
  case (Some k)
  then obtain i j where ij: "mget (indexByID g) a = Some i" "mget (indexByID g) b = Some j"
    by (auto simp: edge_of_def split: option.splits)
  have g2: "g2 = g\<lparr>outgoing := (outgoing g)[i := mdel j (outgoing g ! i)],
      incoming := (incoming g)[j := mdel i (incoming g ! j)]\<rparr>" and found
    using rem ij Some by (auto simp: RemoveEdge_def edge_of_def)
  have ed: "edges_ok g" and ix: "index_ok g" using g by (simp_all add: graph_ok_def)
  have less: "i < length (nodes g)" "j < length (nodes g)" using ij index_less [OF ix] by auto
  have slot: "slot g2 = slot g" by (rule ext) (simp add: g2 slot_def)
  have out: "table_kind (outgoing g2) = (\<lambda>x y. if x = i \<and> y = j then None else table_kind (outgoing g) x y)"
    and inn: "table_kind (incoming g2) = (\<lambda>x y. if x = j \<and> y = i then None else table_kind (incoming g) x y)"
    by (simp_all add: g2 table_kind_del)
  have "list_all gomap_ok (outgoing g2)" "list_all gomap_ok (incoming g2)"
    using ed less by (auto simp: g2 edges_ok_def list_all_at intro!: list_all_update)
  then have "edges_ok g2" unfolding edges_ok_def out inn slot using ed by (auto simp: edges_ok_def g2)
  moreover have "index_ok g2" using ix unfolding index_ok_def slot by (simp add: g2)
  moreover have "slots_ok g2" using g by (simp add: graph_ok_def slots_ok_def g2)
  ultimately show ?thesis using slot out ij Some \<open>found\<close> by (auto simp: graph_ok_def g2 fun_eq_iff)
qed

lemma delete_at_length [simp]: "length (delete_at js idx t) = length t"
  by (induction js arbitrary: t) (simp_all add: delete_at_def)

lemma delete_at_Cons: "delete_at (j # js) idx t = delete_at js idx (t[j := mdel idx (t ! j)])"
  by (simp add: delete_at_def)

lemma delete_at_ok: "list_all gomap_ok t \<Longrightarrow> set js \<subseteq> {..<length t} \<Longrightarrow> list_all gomap_ok (delete_at js idx t)"
  by (induction js arbitrary: t) (simp_all add: delete_at_Cons list_all_update list_all_at, simp add: delete_at_def)

lemma table_kind_delete_at:
  "table_kind (delete_at js idx t) = (\<lambda>a b. if a \<in> set js \<and> b = idx then None else table_kind t a b)"
proof (induction js arbitrary: t)
  case Nil
  then show ?case by (simp add: delete_at_def)
next
  case (Cons j js)
  then show ?case by (auto simp: delete_at_Cons table_kind_del fun_eq_iff)
qed

lemma mkeys_table: "i < length t \<Longrightarrow> set (mkeys (t ! i)) = {j. table_kind t i j \<noteq> None}"
  by (auto simp: table_kind_def mget_None_mkeys dest: mget_Some_mkeys)

lemma RemoveNode_ok:
  assumes g: "graph_ok g" and i: "mget (indexByID g) x = Some idx" and rem: "RemoveNode g x = (g2, found)"
  shows "found \<and> graph_ok g2 \<and> slot g2 = (slot g)(idx := None) \<and> indexByID g2 = mdel x (indexByID g)
    \<and> table_kind (outgoing g2) = (\<lambda>a b. if a = idx \<or> b = idx then None else table_kind (outgoing g) a b)"
proof -
  have ed: "edges_ok g" and ix: "index_ok g" and sl: "slots_ok g" using g by (simp_all add: graph_ok_def)
  obtain n where n: "slot g idx = Some n" "NodeID n = x" using index_slot [OF ix i] by blast
  then have less: "idx < length (nodes g)" using slot_Some_less by blast
  have len: "length (outgoing g) = length (nodes g)" "length (incoming g) = length (nodes g)"
    using ed by (simp_all add: edges_ok_def)
  have mirror: "table_kind (incoming g) b a = table_kind (outgoing g) a b" for a b
    using ed by (simp add: edges_ok_def)
  have ends: "a < length (nodes g) \<and> b < length (nodes g) \<and> a \<noteq> b" if "table_kind (outgoing g) a b \<noteq> None" for a b
  proof -
    have "slot g a \<noteq> None" "slot g b \<noteq> None" "a \<noteq> b" using ed that unfolding edges_ok_def by blast+
    then show ?thesis using slot_Some_less by blast
  qed
  let ?in1 = "delete_at (mkeys (outgoing g ! idx)) idx (incoming g)"
  let ?out1 = "delete_at (mkeys (?in1 ! idx)) idx (outgoing g)"
  have keys: "set (mkeys (outgoing g ! idx)) = {j. table_kind (outgoing g) idx j \<noteq> None}"
    using mkeys_table less len by simp
  have keys1: "set (mkeys (?in1 ! idx)) = {j. table_kind (outgoing g) j idx \<noteq> None}"
    using mkeys_table [of idx ?in1] less len keys ends [of idx idx] ends [of _ idx] mirror
    by (auto simp: table_kind_delete_at split: if_splits)
  have found and g2: "g2 = g\<lparr>incoming := ?in1[idx := []], outgoing := ?out1[idx := []],
      indexByID := mdel x (indexByID g), nodes := (nodes g)[idx := None], alive := (alive g)[idx := False],
      free := free g @ [idx], node_count := node_count g - 1\<rparr>"
    using rem i by (auto simp: RemoveNode_def Let_def)
  have slot: "slot g2 = (slot g)(idx := None)" using slot_update less by (simp add: g2)
  have out: "table_kind (outgoing g2) = (\<lambda>a b. if a = idx \<or> b = idx then None else table_kind (outgoing g) a b)"
    using less len by (auto simp: g2 table_kind_update table_kind_delete_at keys1 fun_eq_iff simp del: set_map)
  have inn: "table_kind (incoming g2) = (\<lambda>a b. if a = idx \<or> b = idx then None else table_kind (incoming g) a b)"
    using less len by (auto simp: g2 table_kind_update table_kind_delete_at keys mirror fun_eq_iff simp del: set_map)
  have "list_all gomap_ok (outgoing g2)" "list_all gomap_ok (incoming g2)"
    using ed len ends by (auto simp: g2 edges_ok_def keys keys1 simp del: set_map intro!: list_all_update delete_at_ok)
  then have "edges_ok g2" unfolding edges_ok_def out inn slot using ed len by (auto simp: edges_ok_def g2)
  moreover have "index_ok g2"
    unfolding index_ok_def slot
  proof (intro conjI allI impI)
    show "gomap_ok (indexByID g2)" using ix by (simp add: g2 index_ok_def)
    show "node_count g2 = length (indexByID g2)"
      using ix i length_mdel [of "indexByID g" x idx] by (simp add: g2 index_ok_def)
    show "NodeID m \<noteq> []" if "((slot g)(idx := None)) j = Some m" for j m
      using that ix by (auto simp: index_ok_def split: if_splits)
    show "mget (indexByID g2) y = Some j \<longleftrightarrow> (\<exists>m. ((slot g)(idx := None)) j = Some m \<and> NodeID m = y)" for y j
    proof -
      have "y = x" if "slot g j = Some m" "NodeID m = y" "j = idx" for m using that n by simp
      moreover have "mget (indexByID g) y = Some j \<longleftrightarrow> (\<exists>m. slot g j = Some m \<and> NodeID m = y)"
        using ix by (simp add: index_ok_def)
      ultimately show ?thesis using i n by (auto simp: g2 gomap_simps)
    qed
  qed
  moreover have "slots_ok g2"
    using sl less n by (auto simp: slots_ok_def g2 nth_list_update slot_def)
  ultimately show ?thesis using slot out \<open>found\<close> by (simp add: graph_ok_def g2)
qed

section \<open>What the operations do to nodes and edges keyed by ID\<close>

lemma AddNode_abs:
  assumes g: "graph_ok g" and add: "AddNode g (Some n) = Inr g2"
  shows "graph_ok g2 \<and> Node g (NodeID n) = None \<and> Node g2 = (Node g)(NodeID n := Some n) \<and> edge_of g2 = edge_of g"
proof -
  obtain idx where g2: "graph_ok g2" and new: "mget (indexByID g) (NodeID n) = None" and e: "slot g idx = None"
    and s: "slot g2 = (slot g)(idx := Some n)" and i: "indexByID g2 = mput (NodeID n) idx (indexByID g)"
    and t: "table_kind (outgoing g2) = table_kind (outgoing g)"
    using AddNode_Inr [OF g add] by blast
  have ix: "index_ok g" and ed: "edges_ok g" using g by (simp_all add: graph_ok_def)
  have other: "j \<noteq> idx" if "mget (indexByID g) x = Some j" for x j using index_slot [OF ix that] e by auto
  have "Node g2 = (Node g)(NodeID n := Some n)"
    using other by (auto simp: fun_eq_iff Node_slot [OF g2] Node_slot [OF g] s i gomap_simps split: option.split)
  moreover have "edge_of g2 = edge_of g"
    using new no_edges_at_empty [OF ed e]
    by (auto simp: fun_eq_iff edge_of_table [OF g2] edge_of_table [OF g] t i gomap_simps split: option.split)
  moreover have "Node g (NodeID n) = None" using new by (simp add: Node_def)
  ultimately show ?thesis using g2 by simp
qed

lemma AddNode_total:
  "graph_ok g \<Longrightarrow> NodeID n \<noteq> [] \<Longrightarrow> Node g (NodeID n) = None \<Longrightarrow> \<exists>g2. AddNode g (Some n) = Inr g2"
  by (simp add: AddNode_def Node_None split: prod.split)

lemma AddNode_error:
  "graph_ok g \<Longrightarrow> AddNode g node =
    (case node of None \<Rightarrow> Inl ErrNilNode
     | Some n \<Rightarrow> if NodeID n = [] then Inl ErrEmptyNodeID
                 else if Node g (NodeID n) \<noteq> None then Inl (ErrNodeAlreadyExist (NodeID n))
                 else AddNode g node)"
  by (auto simp: AddNode_def Node_None split: option.split)

text \<open>The record a second witness leaves behind.\<close>

definition witnessed :: "library \<Rightarrow> graph \<Rightarrow> graph_node \<Rightarrow> graph_node" where
  "witnessed L g n = (case Node g (NodeID n) of None \<Rightarrow> n | Some s \<Rightarrow> foldNodes L s n)"

lemma InsertNode_abs:
  assumes g: "graph_ok g" and ne: "NodeID n \<noteq> []"
  shows "\<exists>g2. InsertNode L g (Some n) = Inr (g2, witnessed L g n) \<and> graph_ok g2
    \<and> Node g2 = (Node g)(NodeID n := Some (witnessed L g n)) \<and> edge_of g2 = edge_of g"
proof (cases "Node g (NodeID n)")
  case None
  then obtain g2 where add: "AddNode g (Some n) = Inr g2" using AddNode_total [OF g ne] by blast
  then have "InsertNode L g (Some n) = Inr (g2, witnessed L g n)"
    using None ne by (simp add: InsertNode_def witnessed_def) (simp add: Node_None [OF g])
  with AddNode_abs [OF g add] None show ?thesis by (auto simp: witnessed_def)
next
  case (Some s)
  then obtain idx where i: "mget (indexByID g) (NodeID n) = Some idx" by (auto simp: Node_Some [OF g])
  then obtain g2 m' where ins: "InsertNode L g (Some n) = Inr (g2, m')"
    using ne by (auto simp: InsertNode_def Let_def)
  obtain idx' where g2: "graph_ok g2" and m': "m' = foldNodes L s n" and e: "slot g idx' = Some s"
    and s: "slot g2 = (slot g)(idx' := Some m')" and j: "indexByID g2 = indexByID g"
    and t: "table_kind (outgoing g2) = table_kind (outgoing g)"
    using InsertNode_Inr [OF g ins] Some by auto
  have ix: "index_ok g" using g by (simp add: graph_ok_def)
  have id: "NodeID s = NodeID n" using Node_id [OF g Some] by simp
  have other: "k = idx' \<longleftrightarrow> x = NodeID n" if "mget (indexByID g) x = Some k" for x k
    using index_slot [OF ix that] slot_index [OF ix e] id e that by auto
  have "Node g2 = (Node g)(NodeID n := Some m')"
    using other i by (auto simp: fun_eq_iff Node_slot [OF g2] Node_slot [OF g] s j split: option.split)
  moreover have "edge_of g2 = edge_of g"
    by (intro ext) (simp only: edge_of_table [OF g2] edge_of_table [OF g] t j)
  ultimately show ?thesis using ins g2 m' Some by (simp add: witnessed_def)
qed

lemma AddTypedEdge_cases:
  assumes g: "graph_ok g"
  shows "AddTypedEdge g a b kind =
    (if a = b then Inl ErrSelfDependency
     else if Node g a = None then Inl (ErrNodeNotFound a)
     else if Node g b = None then Inl (ErrNodeNotFound b)
     else AddTypedEdge g a b kind)"
  by (auto simp: AddTypedEdge_def requireIndex_def Node_None [OF g] split: option.split)

lemma AddTypedEdge_abs:
  assumes g: "graph_ok g" and ne: "a \<noteq> b" "Node g a \<noteq> None" "Node g b \<noteq> None"
  shows "\<exists>g2. AddTypedEdge g a b kind = Inr g2 \<and> graph_ok g2 \<and> Node g2 = Node g
    \<and> edge_of g2 = (\<lambda>x y. if x = a \<and> y = b then Some (edge_result g a b kind) else edge_of g x y)"
proof -
  obtain g2 where add: "AddTypedEdge g a b kind = Inr g2"
    using ne by (auto simp: AddTypedEdge_def requireIndex_def Node_None [OF g] Let_def)
  obtain i j where g2: "graph_ok g2" and s: "slot g2 = slot g" and x: "indexByID g2 = indexByID g"
    and ij: "mget (indexByID g) a = Some i" "mget (indexByID g) b = Some j"
    and t: "table_kind (outgoing g2) = (\<lambda>x y. if x = i \<and> y = j then Some (edge_result g a b kind)
              else table_kind (outgoing g) x y)"
    using AddTypedEdge_Inr [OF g add] by blast
  have ix: "index_ok g" using g by (simp add: graph_ok_def)
  have inj: "x = y" if "mget (indexByID g) x = Some k" "mget (indexByID g) y = Some k" for x y k
    using index_slot [OF ix that(1)] index_slot [OF ix that(2)] by auto
  have "Node g2 = Node g" by (rule ext) (simp only: Node_slot [OF g2] Node_slot [OF g] s x)
  moreover have "edge_of g2 = (\<lambda>x y. if x = a \<and> y = b then Some (edge_result g a b kind) else edge_of g x y)"
    using ij inj by (auto simp: fun_eq_iff edge_of_table [OF g2] edge_of_table [OF g] t x split: option.split)
  ultimately show ?thesis using add g2 by blast
qed

lemma RemoveEdge_abs:
  assumes g: "graph_ok g" and rem: "RemoveEdge g a b = (g2, found)"
  shows "graph_ok g2 \<and> Node g2 = Node g \<and> (found \<longleftrightarrow> edge_of g a b \<noteq> None)
    \<and> edge_of g2 = (\<lambda>x y. if x = a \<and> y = b then None else edge_of g x y)"
proof -
  have g2: "graph_ok g2" and s: "slot g2 = slot g" and x: "indexByID g2 = indexByID g"
    and f: "found \<longleftrightarrow> edge_of g a b \<noteq> None"
    and t: "table_kind (outgoing g2) = (\<lambda>i j. if mget (indexByID g) a = Some i \<and> mget (indexByID g) b = Some j
         then None else table_kind (outgoing g) i j)"
    using RemoveEdge_ok [OF g rem] by auto
  have ix: "index_ok g" using g by (simp add: graph_ok_def)
  have inj: "x = y" if "mget (indexByID g) x = Some k" "mget (indexByID g) y = Some k" for x y k
    using index_slot [OF ix that(1)] index_slot [OF ix that(2)] by auto
  have "Node g2 = Node g" by (rule ext) (simp only: Node_slot [OF g2] Node_slot [OF g] s x)
  moreover have "edge_of g2 = (\<lambda>x y. if x = a \<and> y = b then None else edge_of g x y)"
    using inj by (auto simp: fun_eq_iff edge_of_table [OF g2] edge_of_table [OF g] t x split: option.split)
  ultimately show ?thesis using g2 f by blast
qed

lemma RemoveNode_abs:
  assumes g: "graph_ok g" and rem: "RemoveNode g x = (g2, found)"
  shows "graph_ok g2 \<and> Node g2 = (Node g)(x := None) \<and> (found \<longleftrightarrow> Node g x \<noteq> None)
    \<and> edge_of g2 = (\<lambda>a b. if a = x \<or> b = x then None else edge_of g a b)"
proof (cases "mget (indexByID g) x")
  case None
  then have "g2 = g" "\<not> found" using rem by (auto simp: RemoveNode_def)
  moreover have "Node g x = None" using None by (simp add: Node_None [OF g])
  moreover have "edge_of g a b = None" if "a = x \<or> b = x" for a b
    using that None by (auto simp: edge_of_def split: option.split)
  ultimately show ?thesis using g by (auto simp: fun_eq_iff)
next
  case (Some idx)
  have found: found and g2: "graph_ok g2" and s: "slot g2 = (slot g)(idx := None)"
    and i: "indexByID g2 = mdel x (indexByID g)"
    and t: "table_kind (outgoing g2) = (\<lambda>a b. if a = idx \<or> b = idx then None else table_kind (outgoing g) a b)"
    using RemoveNode_ok [OF g Some rem] by auto
  have ix: "index_ok g" using g by (simp add: graph_ok_def)
  have inj: "a = x" if "mget (indexByID g) a = Some idx" for a
    using index_slot [OF ix that] index_slot [OF ix Some] by auto
  have "Node g2 = (Node g)(x := None)"
    using inj by (auto simp: fun_eq_iff Node_slot [OF g2] Node_slot [OF g] s i gomap_simps split: option.split)
  moreover have "edge_of g2 = (\<lambda>a b. if a = x \<or> b = x then None else edge_of g a b)"
    using inj by (auto simp: fun_eq_iff edge_of_table [OF g2] edge_of_table [OF g] t i gomap_simps split: option.split)
  moreover have "Node g x \<noteq> None" using Some by (simp add: Node_None [OF g])
  ultimately show ?thesis using g2 found by blast
qed

lemma New_abs: "graph_ok New \<and> Node New = (\<lambda>_. None) \<and> edge_of New = (\<lambda>_ _. None)"
  using graph_ok_New by (simp add: New_def) (simp add: NewWithCapacity_def Node_def edge_of_def fun_eq_iff)

section \<open>Reading the graph\<close>

lemma slot_ids: "graph_ok g \<Longrightarrow> slot g i = Some n \<Longrightarrow> NodeID (node_at g i) = NodeID n \<and> node_at g i = n"
  by (auto simp: node_at_def dest!: slot_Some_less)

lemma set_sort_slots [simp]: "set (sort_slots g is) = set is"
  by (simp add: sort_slots_def)

lemma set_sortedIndices:
  assumes g: "graph_ok g"
  shows "set (sortedIndices g) = {i. slot g i \<noteq> None}"
proof -
  have ok: "gomap_ok (indexByID g)" and ix: "index_ok g" using g by (simp_all add: graph_ok_def index_ok_def)
  have "i \<in> set (sortedIndices g) \<longleftrightarrow> (\<exists>x. mget (indexByID g) x = Some i)" for i
    using mem_iff_mget [OF ok] by (force simp: sortedIndices_def)
  moreover have "(\<exists>x. mget (indexByID g) x = Some i) \<longleftrightarrow> slot g i \<noteq> None" for i
    by (cases "slot g i") (use index_slot [OF ix] slot_index [OF ix] in fastforce)+
  ultimately show ?thesis by blast
qed

lemma distinct_sortedIndices:
  assumes g: "graph_ok g"
  shows "distinct (sortedIndices g)"
proof -
  have ok: "gomap_ok (indexByID g)" and ix: "index_ok g" using g by (simp_all add: graph_ok_def index_ok_def)
  have "inj_on snd (set (indexByID g))"
  proof (rule inj_onI)
    fix p q assume p: "p \<in> set (indexByID g)" and q: "q \<in> set (indexByID g)" and eq: "snd p = snd q"
    have "mget (indexByID g) (fst p) = Some (snd p)" "mget (indexByID g) (fst q) = Some (snd q)"
      using p q mem_iff_mget [OF ok, of "fst p" "snd p"] mem_iff_mget [OF ok, of "fst q" "snd q"] by simp_all
    from index_slot [OF ix this(1)] index_slot [OF ix this(2)] have "fst p = fst q" by (auto simp: eq)
    with eq show "p = q" by (simp add: prod_eq_iff)
  qed
  then show ?thesis using ok by (simp add: sortedIndices_def sort_slots_def gomap_ok_def distinct_map)
qed

lemma sort_slots_sorted: "sorted (map NodeID (map (node_at g) (sort_slots g is)))"
  by (simp add: sort_slots_def comp_def)

lemma sort_slots_ids:
  assumes g: "graph_ok g" and d: "distinct is" and s: "\<forall>i \<in> set is. slot g i \<noteq> None"
  shows "sorted_wrt (<) (map NodeID (map (node_at g) (sort_slots g is)))"
proof -
  have ix: "index_ok g" using g by (simp add: graph_ok_def)
  have "inj_on (\<lambda>i. NodeID (node_at g i)) (set is)"
  proof (rule inj_onI)
    fix i j assume i: "i \<in> set is" and j: "j \<in> set is" and eq: "NodeID (node_at g i) = NodeID (node_at g j)"
    from s i j obtain m n where "slot g i = Some m" "slot g j = Some n" by blast
    with eq slot_ids [OF g] slot_index [OF ix] show "i = j" by (metis option.inject)
  qed
  then have "distinct (map NodeID (map (node_at g) (sort_slots g is)))"
    using d by (simp add: sort_slots_def distinct_map comp_def)
  with sort_slots_sorted show ?thesis by (simp only: strict_sorted_iff)
qed

lemma Node_self: "graph_ok g \<Longrightarrow> Node g (NodeID n) = Some n \<longleftrightarrow> (\<exists>i. slot g i = Some n)"
  using slot_index [of g] by (auto simp: Node_Some graph_ok_def)

lemma Graph_Nodes_set:
  assumes g: "graph_ok g"
  shows "set (Graph_Nodes g) = {n. Node g (NodeID n) = Some n}"
proof -
  have "n \<in> set (Graph_Nodes g) \<longleftrightarrow> (\<exists>i. slot g i = Some n)" for n
    using slot_ids [OF g] by (force simp: Graph_Nodes_def set_sortedIndices [OF g] image_iff)
  then show ?thesis using Node_self [OF g] by auto
qed

lemma lookupSorted_adjacent: "lookupSorted g m = map (node_at g) (sortedAdjacent g m)"
  by (simp add: lookupSorted_def sortedAdjacent_def)

text \<open>The slots next to a slot, in the tables of a well-formed graph.\<close>

lemma adjacent_slots:
  assumes g: "graph_ok g" and less: "i < length (nodes g)"
  shows "set (sortedAdjacent g (outgoing g ! i)) = {j. table_kind (outgoing g) i j \<noteq> None}"
    "set (sortedAdjacent g (incoming g ! i)) = {j. table_kind (outgoing g) j i \<noteq> None}"
    "distinct (sortedAdjacent g (outgoing g ! i))" "distinct (sortedAdjacent g (incoming g ! i))"
    "sorted_wrt (<) (map NodeID (lookupSorted g (outgoing g ! i)))"
    "sorted_wrt (<) (map NodeID (lookupSorted g (incoming g ! i)))"
proof -
  have ed: "edges_ok g" using g by (simp add: graph_ok_def)
  have len: "length (outgoing g) = length (nodes g)" "length (incoming g) = length (nodes g)"
    using ed by (simp_all add: edges_ok_def)
  have keys: "set (mkeys (outgoing g ! i)) = {j. table_kind (outgoing g) i j \<noteq> None}"
    "set (mkeys (incoming g ! i)) = {j. table_kind (outgoing g) j i \<noteq> None}"
    using mkeys_table [of i "outgoing g"] mkeys_table [of i "incoming g"] less len ed by (simp_all add: edges_ok_def)
  then show "set (sortedAdjacent g (outgoing g ! i)) = {j. table_kind (outgoing g) i j \<noteq> None}"
    "set (sortedAdjacent g (incoming g ! i)) = {j. table_kind (outgoing g) j i \<noteq> None}"
    by (simp_all only: sortedAdjacent_def set_sort_slots)
  have "gomap_ok (outgoing g ! i)" "gomap_ok (incoming g ! i)"
    using ed less len by (auto simp: edges_ok_def list_all_at)
  then have d: "distinct (mkeys (outgoing g ! i))" "distinct (mkeys (incoming g ! i))"
    by (simp_all add: gomap_ok_def)
  then show "distinct (sortedAdjacent g (outgoing g ! i))" "distinct (sortedAdjacent g (incoming g ! i))"
    by (simp_all add: sortedAdjacent_def sort_slots_def)
  have live: "\<forall>j \<in> set (mkeys (outgoing g ! i)). slot g j \<noteq> None" "\<forall>j \<in> set (mkeys (incoming g ! i)). slot g j \<noteq> None"
    using ed unfolding keys edges_ok_def by blast+
  show "sorted_wrt (<) (map NodeID (lookupSorted g (outgoing g ! i)))"
    "sorted_wrt (<) (map NodeID (lookupSorted g (incoming g ! i)))"
    unfolding lookupSorted_def using sort_slots_ids [OF g] d live by blast+
qed

lemma edge_ends: "graph_ok g \<Longrightarrow> table_kind (outgoing g) i j \<noteq> None \<Longrightarrow> slot g i \<noteq> None \<and> slot g j \<noteq> None \<and> i \<noteq> j"
  unfolding graph_ok_def edges_ok_def by blast

lemma edge_of_ids:
  assumes g: "graph_ok g" and "slot g i = Some m" "slot g j = Some n"
  shows "edge_of g (NodeID m) (NodeID n) = table_kind (outgoing g) i j"
  using assms slot_index [of g] by (simp add: edge_of_table [OF g]) (simp add: graph_ok_def)

lemma edge_of_nodes: "graph_ok g \<Longrightarrow> edge_of g x y \<noteq> None \<Longrightarrow> Node g x \<noteq> None \<and> Node g y \<noteq> None \<and> x \<noteq> y"
proof -
  assume g: "graph_ok g" and "edge_of g x y \<noteq> None"
  then obtain i j where ij: "mget (indexByID g) x = Some i" "mget (indexByID g) y = Some j"
    and t: "table_kind (outgoing g) i j \<noteq> None"
    by (auto simp: edge_of_table [OF g] split: option.splits)
  from edge_ends [OF g t] have "i \<noteq> j" by simp
  then show ?thesis using ij by (auto simp: Node_None [OF g])
qed

lemma DirectDependencies_Inr:
  assumes g: "graph_ok g" and n: "Node g x = Some n"
  shows "\<exists>ds. DirectDependencies g x = Inr ds \<and> set ds = {d. edge_of g x (NodeID d) \<noteq> None \<and> Node g (NodeID d) = Some d}
    \<and> NodeID ` set ds = {y. edge_of g x y \<noteq> None} \<and> sorted_wrt (<) (map NodeID ds)"
proof -
  obtain i where x: "mget (indexByID g) x = Some i" and i: "slot g i = Some n" using n by (auto simp: Node_Some [OF g])
  have less: "i < length (nodes g)" using slot_Some_less [OF i] by simp
  have id: "NodeID n = x" using Node_id [OF g n] by simp
  let ?ds = "lookupSorted g (outgoing g ! i)"
  have mem: "d \<in> set ?ds \<longleftrightarrow> (\<exists>j. slot g j = Some d \<and> table_kind (outgoing g) i j \<noteq> None)" for d
    using edge_ends [OF g] slot_ids [OF g] by (force simp: lookupSorted_adjacent adjacent_slots(1) [OF g less] image_iff)
  have "set ?ds = {d. edge_of g x (NodeID d) \<noteq> None \<and> Node g (NodeID d) = Some d}" (is "_ = ?D")
    using mem edge_of_ids [OF g i] Node_self [OF g] unfolding id by auto blast
  moreover have "NodeID ` ?D = {y. edge_of g x y \<noteq> None}"
  proof (intro set_eqI iffI)
    fix y assume "y \<in> {y. edge_of g x y \<noteq> None}"
    moreover from this obtain d where "Node g y = Some d" using edge_of_nodes [OF g] by blast
    moreover from this have "NodeID d = y" using Node_id [OF g] by blast
    ultimately show "y \<in> NodeID ` ?D" by (intro image_eqI [of _ _ d]) auto
  qed auto
  moreover have "DirectDependencies g x = Inr ?ds" by (simp add: DirectDependencies_def requireIndex_def x)
  ultimately show ?thesis using adjacent_slots(5) [OF g less] by auto
qed

end
