(* ===== verification/GraphStore.thy ===== *)
theory GraphStore
  imports Graph
begin

text \<open>
  The graph as a store: what every operation of \<^verbatim>\<open>model/graph.go\<close> promises of nodes and edges
  keyed by ID, errors included; the graphs a sequence of operations can build, as a step relation;
  and the interface \<open>graph_store\<close>, the two laws the graph-building algorithms rest on, with what
  follows for building a graph from a list of nodes and a list of edges.
\<close>

section \<open>Building from lists\<close>

text \<open>A Go loop that returns the first error of its body.\<close>

fun foldM :: "('s \<Rightarrow> 'a \<Rightarrow> 'e + 's) \<Rightarrow> 's \<Rightarrow> 'a list \<Rightarrow> 'e + 's" where
  "foldM f s [] = Inr s"
| "foldM f s (x # xs) = (case f s x of Inl e \<Rightarrow> Inl e | Inr s' \<Rightarrow> foldM f s' xs)"

text \<open>What folding witnesses into a table of records leaves, by identity.\<close>

definition witness_into :: "library \<Rightarrow> (string \<Rightarrow> graph_node option) \<Rightarrow> graph_node \<Rightarrow> (string \<Rightarrow> graph_node option)" where
  "witness_into L m n = m(NodeID n := Some (case m (NodeID n) of None \<Rightarrow> n | Some s \<Rightarrow> foldNodes L s n))"

definition link_into ::
  "(string \<Rightarrow> string \<Rightarrow> edge_kind option) \<Rightarrow> string \<times> string \<times> edge_kind \<Rightarrow> (string \<Rightarrow> string \<Rightarrow> edge_kind option)" where
  "link_into m e = (case e of (a, b, k) \<Rightarrow>
     (\<lambda>x y. if x = a \<and> y = b then Some (case m a b of None \<Rightarrow> k | Some old \<Rightarrow> MergeEdgeKind old k) else m x y))"

locale graph_store =
  fixes L :: library
    and ok :: "'g \<Rightarrow> bool"
    and node :: "'g \<Rightarrow> string \<Rightarrow> graph_node option"
    and edge :: "'g \<Rightarrow> string \<Rightarrow> string \<Rightarrow> edge_kind option"
    and ins :: "'g \<Rightarrow> graph_node \<Rightarrow> 'e + 'g"
    and link :: "'g \<Rightarrow> string \<times> string \<times> edge_kind \<Rightarrow> 'e + 'g"
  assumes ins_law: "ok g \<Longrightarrow> NodeID n \<noteq> [] \<Longrightarrow>
      \<exists>g'. ins g n = Inr g' \<and> ok g' \<and> node g' = witness_into L (node g) n \<and> edge g' = edge g"
    and link_law: "ok g \<Longrightarrow> a \<noteq> b \<Longrightarrow> node g a \<noteq> None \<Longrightarrow> node g b \<noteq> None \<Longrightarrow> k \<noteq> EdgeKindUnknown \<Longrightarrow>
      \<exists>g'. link g (a, b, k) = Inr g' \<and> ok g' \<and> node g' = node g \<and> edge g' = link_into (edge g) (a, b, k)"
begin

lemma ins_all:
  "ok g \<Longrightarrow> \<forall>n \<in> set ns. NodeID n \<noteq> [] \<Longrightarrow>
   \<exists>g'. foldM ins g ns = Inr g' \<and> ok g' \<and> node g' = foldl (witness_into L) (node g) ns \<and> edge g' = edge g"
proof (induction ns arbitrary: g)
  case (Cons n ns)
  obtain g1 where g1: "ins g n = Inr g1" "ok g1" "node g1 = witness_into L (node g) n" "edge g1 = edge g"
    using ins_law [of g n] Cons.prems by auto
  with Cons.IH [OF g1(2)] Cons.prems(2) show ?case by auto
qed simp

lemma link_all:
  "ok g \<Longrightarrow> \<forall>(a, b, k) \<in> set es. a \<noteq> b \<and> node g a \<noteq> None \<and> node g b \<noteq> None \<and> k \<noteq> EdgeKindUnknown \<Longrightarrow>
   \<exists>g'. foldM link g es = Inr g' \<and> ok g' \<and> node g' = node g \<and> edge g' = foldl link_into (edge g) es"
proof (induction es arbitrary: g)
  case (Cons e es)
  obtain a b k where e: "e = (a, b, k)" by (cases e)
  obtain g1 where g1: "link g e = Inr g1" "ok g1" "node g1 = node g" "edge g1 = link_into (edge g) e"
    using link_law [of g a b k] Cons.prems unfolding e by auto
  have "\<forall>(a, b, k) \<in> set es. a \<noteq> b \<and> node g1 a \<noteq> None \<and> node g1 b \<noteq> None \<and> k \<noteq> EdgeKindUnknown"
    using Cons.prems(2) unfolding g1(3) by auto
  from Cons.IH [OF g1(2) this] show ?case using g1 by auto
qed simp

end

text \<open>Folding witnesses never loses an identity, and the kind of a record is that of the first.\<close>

lemma dom_witness_all: "dom (foldl (witness_into L) m ns) = dom m \<union> NodeID ` set ns"
  by (induction ns arbitrary: m) (auto simp: witness_into_def)

lemma witness_all_untouched: "x \<notin> NodeID ` set ns \<Longrightarrow> foldl (witness_into L) m ns x = m x"
  by (induction ns arbitrary: m) (auto simp: witness_into_def)

lemma witness_all_distinct:
  "distinct (map NodeID ns) \<Longrightarrow> n \<in> set ns \<Longrightarrow> foldl (witness_into L) m ns (NodeID n) =
   Some (case m (NodeID n) of None \<Rightarrow> n | Some s \<Rightarrow> foldNodes L s n)"
proof (induction ns arbitrary: m)
  case (Cons a ns)
  show ?case
  proof (cases "n = a")
    case True
    then show ?thesis using Cons.prems(1) by (simp add: witness_all_untouched) (simp add: witness_into_def cong: option.case_cong)
  next
    case False
    then have n: "n \<in> set ns" using Cons.prems by auto
    then have ne: "NodeID n \<noteq> NodeID a" using Cons.prems(1) by (simp, metis imageI)
    have "witness_into L m a (NodeID n) = m (NodeID n)" using ne by (simp add: witness_into_def)
    with Cons.IH [of "witness_into L m a"] n Cons.prems(1) show ?thesis by simp
  qed
qed simp

lemma link_all_edges:
  "foldl link_into m es x y \<noteq> None \<longleftrightarrow> m x y \<noteq> None \<or> (\<exists>k. (x, y, k) \<in> set es)"
  by (induction es arbitrary: m) (auto simp: link_into_def split: prod.splits)

lemma link_all_untouched: "\<forall>k. (x, y, k) \<notin> set es \<Longrightarrow> foldl link_into m es x y = m x y"
  by (induction es arbitrary: m) (auto simp: link_into_def split: prod.splits)

lemma link_all_distinct:
  "distinct (map (\<lambda>(a, b, k). (a, b)) es) \<Longrightarrow> (x, y, k) \<in> set es \<Longrightarrow>
   foldl link_into m es x y = Some (case m x y of None \<Rightarrow> k | Some old \<Rightarrow> MergeEdgeKind old k)"
proof (induction es arbitrary: m)
  case (Cons e es)
  obtain a b l where e: "e = (a, b, l)" by (cases e)
  show ?case
  proof (cases "(x, y, k) = e")
    case True
    then have "\<forall>k. (x, y, k) \<notin> set es" using Cons.prems(1) by (force simp: image_iff)
    then show ?thesis using True by (simp add: link_all_untouched) (simp add: e link_into_def cong: option.case_cong)
  next
    case False
    then have mem: "(x, y, k) \<in> set es" using Cons.prems(2) by simp
    then have "(x, y) \<noteq> (a, b)" using Cons.prems(1) by (force simp: e image_iff)
    then have "link_into m e x y = m x y" by (auto simp: e link_into_def)
    with Cons.IH [of "link_into m e"] mem Cons.prems(1) show ?thesis by simp
  qed
qed simp

section \<open>The graph is a store\<close>

definition insert_node :: "library \<Rightarrow> graph \<Rightarrow> graph_node \<Rightarrow> graph_error + graph" where
  "insert_node L g n = map_sum id fst (InsertNode L g (Some n))"

definition link_edge :: "graph \<Rightarrow> string \<times> string \<times> edge_kind \<Rightarrow> graph_error + graph" where
  "link_edge g e = (case e of (a, b, k) \<Rightarrow> AddTypedEdge g a b k)"

interpretation gs: graph_store L graph_ok Node edge_of "insert_node L" link_edge for L
proof
  show "\<exists>g'. insert_node L g n = Inr g' \<and> graph_ok g' \<and> Node g' = witness_into L (Node g) n \<and> edge_of g' = edge_of g"
    if "graph_ok g" "NodeID n \<noteq> []" for g n
    using InsertNode_abs [OF that, of L] by (auto simp: insert_node_def witness_into_def witnessed_def)
  show "\<exists>g'. link_edge g (a, b, k) = Inr g' \<and> graph_ok g' \<and> Node g' = Node g \<and> edge_of g' = link_into (edge_of g) (a, b, k)"
    if "graph_ok g" "a \<noteq> b" "Node g a \<noteq> None" "Node g b \<noteq> None" "k \<noteq> EdgeKindUnknown" for g a b k
  proof -
    have "edge_result g a b k = (case edge_of g a b of None \<Rightarrow> k | Some old \<Rightarrow> MergeEdgeKind old k)"
      using that(5) by (simp add: edge_result_def)
    then have "link_into (edge_of g) (a, b, k)
        = (\<lambda>x y. if x = a \<and> y = b then Some (edge_result g a b k) else edge_of g x y)"
      by (intro ext) (simp add: link_into_def)
    with AddTypedEdge_abs [OF that(1-4), of k] show ?thesis by (simp add: link_edge_def)
  qed
qed

section \<open>Graphs built by operations\<close>

inductive graph_step :: "library \<Rightarrow> graph \<Rightarrow> graph \<Rightarrow> bool" for L where
  step_add: "AddNode g n = Inr g' \<Longrightarrow> graph_step L g g'"
| step_insert: "InsertNode L g n = Inr (g', m) \<Longrightarrow> graph_step L g g'"
| step_link: "AddTypedEdge g a b k = Inr g' \<Longrightarrow> graph_step L g g'"
| step_unlink: "RemoveEdge g a b = (g', found) \<Longrightarrow> graph_step L g g'"
| step_drop: "RemoveNode g x = (g', found) \<Longrightarrow> graph_step L g g'"

inductive reachable_graph :: "library \<Rightarrow> graph \<Rightarrow> bool" for L where
  reachable_New: "reachable_graph L New"
| reachable_step: "reachable_graph L g \<Longrightarrow> graph_step L g g' \<Longrightarrow> reachable_graph L g'"

inductive_cases graph_stepE: "graph_step L g g'"

lemma graph_step_ok:
  assumes "graph_step L g g'" and g: "graph_ok g"
  shows "graph_ok g'"
  using assms(1)
proof (cases rule: graph_step.cases)
  case (step_add n)
  then obtain n' where "n = Some n'" by (cases n) (auto simp: AddNode_def)
  with step_add show ?thesis using AddNode_abs [OF g] by blast
next
  case (step_insert n m)
  then obtain n' where "n = Some n'" by (cases n) (auto simp: InsertNode_def)
  with step_insert show ?thesis using InsertNode_Inr [OF g] by blast
next
  case (step_link a b k)
  then show ?thesis using AddTypedEdge_Inr [OF g] by blast
next
  case (step_unlink a b found)
  then show ?thesis using RemoveEdge_abs [OF g] by blast
next
  case (step_drop x found)
  then show ?thesis using RemoveNode_abs [OF g] by blast
qed

lemma reachable_graph_ok: "reachable_graph L g \<Longrightarrow> graph_ok g"
  by (induction rule: reachable_graph.induct) (auto simp: New_abs intro: graph_step_ok)

lemma Graph_Nodes_sorted:
  assumes g: "graph_ok g"
  shows "sorted_wrt (<) (map NodeID (Graph_Nodes g))"
proof -
  have "distinct (map snd (indexByID g))"
    using distinct_sortedIndices [OF g] by (simp add: sortedIndices_def sort_slots_def)
  moreover have "\<forall>i \<in> set (map snd (indexByID g)). slot g i \<noteq> None"
    using set_sortedIndices [OF g] by (auto simp: sortedIndices_def)
  ultimately show ?thesis
    using sort_slots_ids [OF g] by (simp only: Graph_Nodes_def sortedIndices_def)
qed

lemma Dependents_Inr:
  assumes g: "graph_ok g" and n: "Node g x = Some n"
  shows "\<exists>ds. Dependents g x = Inr ds \<and> NodeID ` set ds = {y. edge_of g y x \<noteq> None} \<and> sorted_wrt (<) (map NodeID ds)"
proof -
  obtain i where x: "mget (indexByID g) x = Some i" and i: "slot g i = Some n" using n by (auto simp: Node_Some [OF g])
  have less: "i < length (nodes g)" using slot_Some_less [OF i] by simp
  have id: "NodeID n = x" using Node_id [OF g n] by simp
  let ?ds = "lookupSorted g (incoming g ! i)"
  have mem: "d \<in> set ?ds \<longleftrightarrow> (\<exists>j. slot g j = Some d \<and> table_kind (outgoing g) j i \<noteq> None)" for d
    using edge_ends [OF g] slot_ids [OF g] by (force simp: lookupSorted_adjacent adjacent_slots(2) [OF g less] image_iff)
  have "y \<in> NodeID ` set ?ds \<longleftrightarrow> edge_of g y x \<noteq> None" for y
  proof
    assume "y \<in> NodeID ` set ?ds"
    then obtain j d where "slot g j = Some d" "NodeID d = y" "table_kind (outgoing g) j i \<noteq> None" using mem by blast
    then show "edge_of g y x \<noteq> None" using edge_of_ids [OF g _ i] id by auto
  next
    assume e: "edge_of g y x \<noteq> None"
    then obtain d where d: "Node g y = Some d" using edge_of_nodes [OF g] by blast
    then obtain j where j: "slot g j = Some d" by (auto simp: Node_Some [OF g])
    have y: "NodeID d = y" using Node_id [OF g d] by simp
    have "table_kind (outgoing g) j i \<noteq> None" using edge_of_ids [OF g j i] e id y by simp
    then show "y \<in> NodeID ` set ?ds" using mem j y by (intro image_eqI [of _ _ d]) auto
  qed
  then show ?thesis using adjacent_slots(6) [OF g less]
    by (intro exI [of _ ?ds]) (auto simp: Dependents_def requireIndex_def x)
qed

lemma Graph_Nodes_length: "graph_ok g \<Longrightarrow> length (Graph_Nodes g) = node_count g"
  by (simp add: Graph_Nodes_def sortedIndices_def sort_slots_def graph_ok_def index_ok_def)

section \<open>Properties\<close>

text \<open>C2. Inserting by identity: a nil node and an empty ID are refused; any other node is present
  afterwards under its ID, folded into the record that was there if there was one, every other
  record and every edge is as it was, and the tables stay consistent.\<close>

theorem InsertNode_spec:
  assumes "graph_ok g"
  shows "InsertNode L g None = Inl ErrNilNode
    \<and> (NodeID n = [] \<longrightarrow> InsertNode L g (Some n) = Inl ErrEmptyNodeID)
    \<and> (NodeID n \<noteq> [] \<longrightarrow> (\<exists>g2 m. InsertNode L g (Some n) = Inr (g2, m) \<and> graph_ok g2
        \<and> m = (case Node g (NodeID n) of None \<Rightarrow> n | Some s \<Rightarrow> foldNodes L s n)
        \<and> Node g2 = (Node g)(NodeID n := Some m) \<and> edge_of g2 = edge_of g))"
proof (intro conjI impI)
  assume "NodeID n \<noteq> []"
  from InsertNode_abs [OF assms this, of L]
  show "\<exists>g2 m. InsertNode L g (Some n) = Inr (g2, m) \<and> graph_ok g2
      \<and> m = (case Node g (NodeID n) of None \<Rightarrow> n | Some s \<Rightarrow> foldNodes L s n)
      \<and> Node g2 = (Node g)(NodeID n := Some m) \<and> edge_of g2 = edge_of g"
    by (auto simp: witnessed_def)
qed (simp_all add: InsertNode_def)

definition sample_node :: "string \<Rightarrow> graph_node" where
  "sample_node i = DependencyNode (sample_dependency\<lparr>dependency_id := i\<rparr>)"

definition sample_graph :: graph where
  "sample_graph = projr (AddTypedEdge (projr (AddNode (projr (AddNode New (Some (sample_node ''a''))))
     (Some (sample_node ''b'')))) ''a'' ''b'' EdgeKindUnknown)"

lemma sample_graph_reachable: "reachable_graph L sample_graph"
proof -
  let ?g1 = "projr (AddNode New (Some (sample_node ''a'')))"
  let ?g2 = "projr (AddNode ?g1 (Some (sample_node ''b'')))"
  have 1: "AddNode New (Some (sample_node ''a'')) = Inr ?g1" by code_simp
  have 2: "AddNode ?g1 (Some (sample_node ''b'')) = Inr ?g2" by code_simp
  have 3: "AddTypedEdge ?g2 ''a'' ''b'' EdgeKindUnknown = Inr sample_graph" by code_simp
  from reachable_step [OF reachable_step [OF reachable_step [OF reachable_New step_add [OF 1]]
      step_add [OF 2]] step_link [OF 3]] show ?thesis .
qed

theorem InsertNode_spec_witness:
  "\<exists>g2 m. InsertNode plain_library sample_graph (Some (sample_node ''b'')) = Inr (g2, m) \<and> graph_ok g2
     \<and> Node g2 ''b'' = Some m \<and> edge_of g2 ''a'' ''b'' = Some EdgeKindDependsOn"
proof -
  have e: "edge_of sample_graph ''a'' ''b'' = Some EdgeKindDependsOn" by code_simp
  have i: "NodeID (sample_node ''b'') = ''b''" by (simp add: sample_node_def)
  show ?thesis
    using InsertNode_spec [OF reachable_graph_ok [OF sample_graph_reachable], of plain_library "sample_node ''b''"] i e
    by auto
qed

text \<open>The kind an added edge states: the one given, or what the kinds of its ends imply.\<close>

definition stated_kind :: "edge_kind \<Rightarrow> graph_node \<Rightarrow> graph_node \<Rightarrow> edge_kind" where
  "stated_kind kind m n =
     (if kind \<noteq> EdgeKindUnknown then kind
      else if Kind m = NodeKindManifest \<and> Kind n = NodeKindModule then EdgeKindDescribes
      else EdgeKindDependsOn)"

text \<open>C3. Adding a typed edge: a self edge and an unknown end are refused with the error that
  names it; otherwise exactly that edge changes, an unknown kind is derived from the kinds of the
  two nodes, and an edge that was there keeps the stronger of the two kinds.\<close>

theorem AddTypedEdge_spec:
  assumes "graph_ok g"
  shows "AddTypedEdge g a a kind = Inl ErrSelfDependency
    \<and> (a \<noteq> b \<and> Node g a = None \<longrightarrow> AddTypedEdge g a b kind = Inl (ErrNodeNotFound a))
    \<and> (a \<noteq> b \<and> Node g a = Some m \<and> Node g b = None \<longrightarrow> AddTypedEdge g a b kind = Inl (ErrNodeNotFound b))
    \<and> (a \<noteq> b \<and> Node g a = Some m \<and> Node g b = Some n \<longrightarrow>
      (\<exists>g2. AddTypedEdge g a b kind = Inr g2 \<and> graph_ok g2 \<and> Node g2 = Node g
        \<and> (\<forall>x y. (x, y) \<noteq> (a, b) \<longrightarrow> edge_of g2 x y = edge_of g x y)
        \<and> edge_of g2 a b = Some (case edge_of g a b of None \<Rightarrow> stated_kind kind m n
             | Some old \<Rightarrow> MergeEdgeKind old (stated_kind kind m n))))"
proof (intro conjI impI)
  show "AddTypedEdge g a a kind = Inl ErrSelfDependency" by (simp add: AddTypedEdge_def)
  show "a \<noteq> b \<and> Node g a = None \<Longrightarrow> AddTypedEdge g a b kind = Inl (ErrNodeNotFound a)"
    "a \<noteq> b \<and> Node g a = Some m \<and> Node g b = None \<Longrightarrow> AddTypedEdge g a b kind = Inl (ErrNodeNotFound b)"
    by (subst AddTypedEdge_cases [OF assms], simp)+
  assume "a \<noteq> b \<and> Node g a = Some m \<and> Node g b = Some n"
  then have ne: "a \<noteq> b" and m: "Node g a = Some m" and n: "Node g b = Some n" by auto
  then obtain g2 where "AddTypedEdge g a b kind = Inr g2" "graph_ok g2" "Node g2 = Node g"
    and e: "edge_of g2 = (\<lambda>x y. if x = a \<and> y = b then Some (edge_result g a b kind) else edge_of g x y)"
    using AddTypedEdge_abs [OF assms ne, of kind] by auto
  moreover have "\<forall>x y. (x, y) \<noteq> (a, b) \<longrightarrow> edge_of g2 x y = edge_of g x y" by (simp add: e)
  moreover have "edge_result g a b kind = (case edge_of g a b of None \<Rightarrow> stated_kind kind m n
             | Some old \<Rightarrow> MergeEdgeKind old (stated_kind kind m n))"
    unfolding edge_result_def m n by (simp add: stated_kind_def Let_def split: option.split)
  ultimately show "\<exists>g2. AddTypedEdge g a b kind = Inr g2 \<and> graph_ok g2 \<and> Node g2 = Node g
        \<and> (\<forall>x y. (x, y) \<noteq> (a, b) \<longrightarrow> edge_of g2 x y = edge_of g x y)
        \<and> edge_of g2 a b = Some (case edge_of g a b of None \<Rightarrow> stated_kind kind m n
             | Some old \<Rightarrow> MergeEdgeKind old (stated_kind kind m n))"
    by (intro exI [of _ g2]) simp
qed

theorem AddTypedEdge_spec_witness:
  "\<exists>g2. AddTypedEdge sample_graph ''a'' ''b'' EdgeKindDescribes = Inr g2
     \<and> edge_of g2 ''a'' ''b'' = Some EdgeKindDependsOn"
proof -
  have e: "edge_of sample_graph ''a'' ''b'' = Some EdgeKindDependsOn" by code_simp
  have "Node sample_graph ''a'' = Some (sample_node ''a'')" "Node sample_graph ''b'' = Some (sample_node ''b'')"
    by code_simp+
  then show ?thesis
    using AddTypedEdge_spec [OF reachable_graph_ok [OF sample_graph_reachable],
        of "''a''" EdgeKindDescribes "''b''" "sample_node ''a''" "sample_node ''b''"] e
    by (auto simp: MergeEdgeKind_eq stated_kind_def)
qed

text \<open>C4. Removing a node takes the record and every edge at either side of it, and nothing else;
  it reports whether the node was there. Whatever operations follow, a node they add that was not there,
  under the removed ID or another and in whatever slot, starts without edges, and changes no other
  record and no other edge.\<close>

theorem RemoveNode_spec:
  assumes "graph_ok g" "RemoveNode g x = (g2, found)"
  shows "graph_ok g2 \<and> (found \<longleftrightarrow> Node g x \<noteq> None) \<and> Node g2 = (Node g)(x := None)
    \<and> edge_of g2 = (\<lambda>a b. if a = x \<or> b = x then None else edge_of g a b)
    \<and> (\<forall>h n h'. (graph_step L)\<^sup>*\<^sup>* g2 h \<longrightarrow> Node h (NodeID n) = None \<longrightarrow>
         AddNode h (Some n) = Inr h' \<or> (\<exists>m. InsertNode L h (Some n) = Inr (h', m)) \<longrightarrow>
         graph_ok h' \<and> Node h' = (Node h)(NodeID n := Some n) \<and> edge_of h' = edge_of h
         \<and> (\<forall>y. edge_of h' (NodeID n) y = None \<and> edge_of h' y (NodeID n) = None))"
proof -
  note rm = RemoveNode_abs [OF assms]
  have later: "graph_ok h" if "(graph_step L)\<^sup>*\<^sup>* g2 h" for h
    using that by (induction rule: rtranclp_induct) (use rm graph_step_ok in blast)+
  have none: "edge_of h i y = None \<and> edge_of h y i = None" if "graph_ok h" "Node h i = None" for h i y
    using edge_of_nodes [OF that(1)] that(2) by (metis not_None_eq)
  have fresh: "graph_ok h' \<and> Node h' = (Node h)(NodeID n := Some n) \<and> edge_of h' = edge_of h
      \<and> (\<forall>y. edge_of h' (NodeID n) y = None \<and> edge_of h' y (NodeID n) = None)"
    if h: "graph_ok h" and n: "Node h (NodeID n) = None"
      and add: "AddNode h (Some n) = Inr h' \<or> (\<exists>m. InsertNode L h (Some n) = Inr (h', m))" for h n h'
    using add
  proof
    assume "AddNode h (Some n) = Inr h'"
    then show ?thesis using AddNode_abs [OF h] none [OF h n] by (auto simp: fun_eq_iff)
  next
    assume "\<exists>m. InsertNode L h (Some n) = Inr (h', m)"
    then obtain m where m: "InsertNode L h (Some n) = Inr (h', m)" by blast
    moreover have "NodeID n \<noteq> []" using InsertNode_Inr [OF h m] by blast
    ultimately show ?thesis using InsertNode_abs [OF h, of n L] none [OF h n] n by (auto simp: fun_eq_iff witnessed_def)
  qed
  show ?thesis using rm fresh [OF later] by blast
qed

theorem RemoveNode_spec_witness:
  "Node (fst (RemoveNode sample_graph ''a'')) ''b'' = Some (sample_node ''b'')
   \<and> edge_of (fst (RemoveNode sample_graph ''a'')) ''a'' ''b'' = None
   \<and> (\<exists>h'. AddNode (fst (RemoveNode sample_graph ''a'')) (Some (sample_node ''c'')) = Inr h'
        \<and> Node h' ''c'' = Some (sample_node ''c'') \<and> (\<forall>y. edge_of h' ''c'' y = None \<and> edge_of h' y ''c'' = None))"
proof -
  obtain g2 found where r: "RemoveNode sample_graph ''a'' = (g2, found)" by fastforce
  have b: "Node sample_graph ''b'' = Some (sample_node ''b'')" by code_simp
  have c: "NodeID (sample_node ''c'') = ''c''" "Node sample_graph ''c'' = None" by (simp add: sample_node_def, code_simp)
  note spec = RemoveNode_spec [OF reachable_graph_ok [OF sample_graph_reachable] r]
  note added = conjunct2 [OF conjunct2 [OF conjunct2 [OF conjunct2 [OF spec]]], rule_format, OF rtranclp.rtrancl_refl]
  have g2: "Node g2 = (Node sample_graph)(''a'' := None)"
    "edge_of g2 = (\<lambda>x y. if x = ''a'' \<or> y = ''a'' then None else edge_of sample_graph x y)"
    using spec by blast+
  have "AddNode (fst (RemoveNode sample_graph ''a'')) (Some (sample_node ''c''))
      = Inr (projr (AddNode (fst (RemoveNode sample_graph ''a'')) (Some (sample_node ''c''))))" by code_simp
  then obtain h' where h': "AddNode g2 (Some (sample_node ''c'')) = Inr h'" unfolding r by auto
  have "Node g2 (NodeID (sample_node ''c'')) = None" using g2(1) c by simp
  from added [OF this disjI1 [OF h']] have "Node h' = (Node g2)(''c'' := Some (sample_node ''c'')) \<and> (\<forall>y. edge_of h' ''c'' y = None \<and> edge_of h' y ''c'' = None)"
    unfolding c(1) by blast
  then show ?thesis using g2 h' b by (simp add: r)
qed

text \<open>C1. Every graph the operations can build, whatever their order: the listed nodes are the
  indexed ones, strictly sorted by ID, and \<open>Size\<close> counts them; the direct dependencies and the
  dependents of a node are duals, sorted, of one edge relation without self edges whose ends are
  nodes and whose kinds are known; so the six tables never disagree.\<close>

theorem reachable_graph_sound:
  assumes "reachable_graph L g"
  shows "sorted_wrt (<) (map NodeID (Graph_Nodes g))
    \<and> set (Graph_Nodes g) = {n. Node g (NodeID n) = Some n}
    \<and> node_count g = length (Graph_Nodes g)
    \<and> (\<forall>x y k. edge_of g x y = Some k \<longrightarrow> x \<noteq> y \<and> k \<noteq> EdgeKindUnknown \<and> Node g x \<noteq> None \<and> Node g y \<noteq> None)
    \<and> (\<forall>x. if Node g x = None
           then DirectDependencies g x = Inl (ErrNodeNotFound x) \<and> Dependents g x = Inl (ErrNodeNotFound x)
           else (\<exists>ds ps. DirectDependencies g x = Inr ds \<and> Dependents g x = Inr ps
             \<and> NodeID ` set ds = {y. edge_of g x y \<noteq> None} \<and> NodeID ` set ps = {y. edge_of g y x \<noteq> None}
             \<and> sorted_wrt (<) (map NodeID ds) \<and> sorted_wrt (<) (map NodeID ps)))"
proof -
  note g = reachable_graph_ok [OF assms]
  have ends: "\<forall>x y k. edge_of g x y = Some k \<longrightarrow> x \<noteq> y \<and> k \<noteq> EdgeKindUnknown \<and> Node g x \<noteq> None \<and> Node g y \<noteq> None"
    using edge_of_nodes [OF g] edge_of_known [OF g] by blast
  have "if Node g x = None
        then DirectDependencies g x = Inl (ErrNodeNotFound x) \<and> Dependents g x = Inl (ErrNodeNotFound x)
        else (\<exists>ds ps. DirectDependencies g x = Inr ds \<and> Dependents g x = Inr ps
          \<and> NodeID ` set ds = {y. edge_of g x y \<noteq> None} \<and> NodeID ` set ps = {y. edge_of g y x \<noteq> None}
          \<and> sorted_wrt (<) (map NodeID ds) \<and> sorted_wrt (<) (map NodeID ps))" for x
  proof (cases "Node g x")
    case None
    then show ?thesis by (simp add: DirectDependencies_def Dependents_def requireIndex_def Node_None [OF g])
  next
    case (Some n)
    then show ?thesis using DirectDependencies_Inr [OF g Some] Dependents_Inr [OF g Some] by auto
  qed
  then show ?thesis
    by (intro conjI Graph_Nodes_sorted [OF g] Graph_Nodes_set [OF g] Graph_Nodes_length [OF g, symmetric] ends allI)
qed

theorem reachable_graph_sound_witness:
  "\<exists>ds. DirectDependencies sample_graph ''a'' = Inr ds \<and> NodeID ` set ds = {y. edge_of sample_graph ''a'' y \<noteq> None}"
proof -
  have "Node sample_graph ''a'' = Some (sample_node ''a'')" by code_simp
  then show ?thesis using reachable_graph_sound [OF sample_graph_reachable]
    by (metis option.distinct(1))
qed

end
