(* ===== verification/GraphMerge.thy ===== *)
theory GraphMerge
  imports GraphStore
begin

text \<open>
  Rebuilding graphs: \<open>CopyEdgesInto\<close> of \<^verbatim>\<open>model/graph.go\<close>, the container of manifest graphs and
  its consolidation, \<^verbatim>\<open>model/container.go\<close>, and the scope filter, \<^verbatim>\<open>model/scope_filter.go\<close>.
  A callback that stops a walk on an error is \<open>foldM\<close>; a function that changes its destination
  returns it. A failed merge leaves a partly written destination, which the result does not show;
  on well-formed graphs no merge fails.
\<close>

section \<open>Copying edges and merging graphs\<close>

definition copy_edge :: "(string \<Rightarrow> string) option \<Rightarrow> graph \<Rightarrow> graph_node \<times> graph_node \<times> edge_kind \<Rightarrow> graph_error + graph" where
  "copy_edge rename dst e =
     (case e of (from_node, to_node, kind) \<Rightarrow>
       let fromID = (case rename of None \<Rightarrow> NodeID from_node | Some f \<Rightarrow> f (NodeID from_node));
           toID = (case rename of None \<Rightarrow> NodeID to_node | Some f \<Rightarrow> f (NodeID to_node))
       in if fromID = [] \<or> toID = [] \<or> fromID = toID then Inr dst
          else (case AddTypedEdge dst fromID toID kind of
                  Inl err \<Rightarrow> if err = ErrSelfDependency then Inr dst else Inl err
                | Inr dst' \<Rightarrow> Inr dst'))"

definition CopyEdgesInto ::
  "graph option \<Rightarrow> graph option \<Rightarrow> (string \<Rightarrow> string) option \<Rightarrow> graph_error + graph option" where
  "CopyEdgesInto dst src rename =
     (case (dst, src) of
        (Some d, Some s) \<Rightarrow> map_sum id Some (foldM (copy_edge rename) d (WalkTypedEdges s))
      | _ \<Rightarrow> Inr dst)"

definition MergeGraph :: "library \<Rightarrow> graph option \<Rightarrow> graph option \<Rightarrow> graph_error + graph option" where
  "MergeGraph L dst src =
     (case (dst, src) of
        (Some d, Some s) \<Rightarrow>
          (case foldM (\<lambda>d n. map_sum id fst (InsertNode L d (Some n))) d (WalkNodes s) of
             Inl err \<Rightarrow> Inl err
           | Inr d \<Rightarrow> CopyEdgesInto (Some d) src None)
      | _ \<Rightarrow> Inr dst)"

section \<open>Containers\<close>

record resolution_fallback =
  FallbackFrom :: string
  FallbackReason :: string

record resolution_metadata =
  Method :: string
  InstallExecuted :: bool
  InstallCommand :: "string list"
  InstallWorkingDir :: string
  Fallback :: "resolution_fallback option"

record manifest_metadata =
  MetadataPath :: string
  MetadataKind :: string
  Resolution :: "resolution_metadata option"

record ('p, 'd) graph_entry =
  EntryGraph :: "graph option"
  EntryManifest :: manifest_metadata
  EntryPackages :: "'p list"
  EntryDocument :: "'d option"

type_synonym ('p, 'd) graph_container = "('p, 'd) graph_entry list"

definition SingleGraphContainer :: "graph option \<Rightarrow> manifest_metadata \<Rightarrow> ('p, 'd) graph_container" where
  "SingleGraphContainer g manifest =
     (case g of None \<Rightarrow> []
      | Some _ \<Rightarrow> [\<lparr>EntryGraph = g, EntryManifest = manifest, EntryPackages = [], EntryDocument = None\<rparr>])"

definition Container_Len :: "('p, 'd) graph_container option \<Rightarrow> nat" where
  "Container_Len c = (case c of None \<Rightarrow> 0 | Some entries \<Rightarrow> length entries)"

definition merge_entry :: "library \<Rightarrow> graph \<Rightarrow> ('p, 'd) graph_entry \<Rightarrow> graph_error + graph" where
  "merge_entry L merged entry =
     (case EntryGraph entry of
        None \<Rightarrow> Inr merged
      | Some g \<Rightarrow> map_sum id the (MergeGraph L (Some merged) (Some g)))"

definition ConsolidatedGraph :: "library \<Rightarrow> ('p, 'd) graph_container option \<Rightarrow> graph_error + graph option" where
  "ConsolidatedGraph L c =
     (case c of
        None \<Rightarrow> Inr None
      | Some [] \<Rightarrow> Inr None
      | Some [entry] \<Rightarrow> Inr (EntryGraph entry)
      | Some entries \<Rightarrow> map_sum id Some (foldM (merge_entry L) New entries))"

section \<open>Scope filter\<close>

definition MatchesScopeFilter :: "dependency_node option \<Rightarrow> scope \<Rightarrow> bool" where
  "MatchesScopeFilter node want =
     (case node of
        None \<Rightarrow> False
      | Some n \<Rightarrow>
          if want = ScopeUnknown then True
          else if want = ScopeRuntime then ScopeSetMatches (NodeScopes n) want
          else containsScope (NodeScopes n) want \<and> \<not> containsScope (NodeScopes n) ScopeRuntime)"

definition keptOnAbsence :: "dependency_node \<Rightarrow> scope \<Rightarrow> bool" where
  "keptOnAbsence n want \<longleftrightarrow> want = ScopeRuntime \<and> \<not> containsScope (NodeScopes n) ScopeRuntime"

definition scope_allows :: "scope \<Rightarrow> graph_node \<Rightarrow> bool" where
  "scope_allows want node =
     (case node of DependencyNode n \<Rightarrow> MatchesScopeFilter (Some n) want | _ \<Rightarrow> True)"

definition kept_unasserted :: "scope \<Rightarrow> graph_node \<Rightarrow> bool" where
  "kept_unasserted want node =
     (case node of DependencyNode n \<Rightarrow> MatchesScopeFilter (Some n) want \<and> keptOnAbsence n want | _ \<Rightarrow> False)"

definition FilterGraphByScopeWithReport ::
  "graph option \<Rightarrow> scope \<Rightarrow> graph_error + graph option \<times> string list" where
  "FilterGraphByScopeWithReport src want =
     (case src of
        None \<Rightarrow> Inr (src, [])
      | Some s \<Rightarrow>
          if want = ScopeUnknown then Inr (src, [])
          else
            (let allowed = map NodeID (filter (scope_allows want) (WalkNodes s));
                 unasserted = sort (map NodeID (filter (kept_unasserted want) (WalkNodes s)));
                 keep = (\<lambda>i. if i \<in> set allowed then i else [])
             in (case foldM (\<lambda>g i. case Node s i of None \<Rightarrow> Inr g | Some n \<Rightarrow> AddNode g (Some n))
                        (NewWithCapacity (length allowed)) allowed of
                   Inl err \<Rightarrow> Inl err
                 | Inr filtered \<Rightarrow>
                     map_sum id (\<lambda>g. (g, unasserted)) (CopyEdgesInto (Some filtered) src (Some keep)))))"

definition FilterGraphByScope :: "graph option \<Rightarrow> scope \<Rightarrow> graph_error + graph option" where
  "FilterGraphByScope src want = map_sum id fst (FilterGraphByScopeWithReport src want)"

section \<open>What the walks visit\<close>

lemma live_slots_set: "graph_ok g \<Longrightarrow> set (live_slots g) = {i. slot g i \<noteq> None}"
  by (auto simp: live_slots_def slot_def graph_ok_def slots_ok_def)

lemma WalkNodes_set:
  assumes g: "graph_ok g"
  shows "set (WalkNodes g) = {n. Node g (NodeID n) = Some n}"
  using slot_ids [OF g] Node_self [OF g] by (force simp: WalkNodes_def live_slots_set [OF g] image_iff)

lemma node_ids_inj:
  assumes g: "graph_ok g" and "slot g i \<noteq> None" "slot g j \<noteq> None" "NodeID (node_at g i) = NodeID (node_at g j)"
  shows "i = j"
proof -
  obtain m n where i: "slot g i = Some m" and j: "slot g j = Some n" using assms by blast
  have "index_ok g" using g by (simp add: graph_ok_def)
  from slot_index [OF this i] slot_index [OF this j] show ?thesis
    using assms(4) slot_ids [OF g i] slot_ids [OF g j] by simp
qed

lemma WalkNodes_distinct:
  assumes g: "graph_ok g"
  shows "distinct (map NodeID (WalkNodes g))"
proof -
  have "inj_on (\<lambda>i. NodeID (node_at g i)) (set (live_slots g))"
    by (rule inj_onI) (auto simp: live_slots_set [OF g] intro: node_ids_inj [OF g])
  then show ?thesis by (simp add: WalkNodes_def distinct_map comp_def) (simp add: live_slots_def)
qed

lemma WalkNodes_ids: "graph_ok g \<Longrightarrow> NodeID ` set (WalkNodes g) = {x. Node g x \<noteq> None}"
  by (force simp: WalkNodes_set dest: Node_id)

lemma WalkTypedEdges_set:
  assumes g: "graph_ok g"
  shows "(m, n, k) \<in> set (WalkTypedEdges g) \<longleftrightarrow>
    Node g (NodeID m) = Some m \<and> Node g (NodeID n) = Some n \<and> edge_of g (NodeID m) (NodeID n) = Some k"
proof -
  have len: "length (outgoing g) = length (nodes g)" and maps: "list_all gomap_ok (outgoing g)"
    and live: "i < length (nodes g) \<Longrightarrow> alive g ! i \<longleftrightarrow> slot g i \<noteq> None" for i
    using g by (simp_all add: graph_ok_def slots_ok_def edges_ok_def slot_def)
  have entry: "i < length (nodes g) \<Longrightarrow> (j, l) \<in> set (outgoing g ! i) \<longleftrightarrow> table_kind (outgoing g) i j = Some l" for i j l
    using mem_iff_mget [OF list_all_at [OF maps], of i j l] len by (simp add: table_kind_def)
  have ends: "i < length (nodes g) \<and> j < length (nodes g) \<and> alive g ! i \<and> alive g ! j"
    if "table_kind (outgoing g) i j = Some l" for i j l
    using edge_ends [OF g, of i j] that live slot_Some_less by fastforce
  have "(m, n, k) \<in> set (WalkTypedEdges g) \<longleftrightarrow>
      (\<exists>i j. i < length (nodes g) \<and> alive g ! i \<and> (j, k) \<in> set (outgoing g ! i) \<and> alive g ! j
        \<and> m = node_at g i \<and> n = node_at g j)"
    by (auto simp: WalkTypedEdges_def len)
  also have "\<dots> \<longleftrightarrow> (\<exists>i j. table_kind (outgoing g) i j = Some k \<and> m = node_at g i \<and> n = node_at g j)"
    using entry ends by blast
  also have "\<dots> \<longleftrightarrow> (\<exists>i j. slot g i = Some m \<and> slot g j = Some n \<and> table_kind (outgoing g) i j = Some k)"
  proof -
    have "table_kind (outgoing g) i j = Some k \<and> m = node_at g i \<and> n = node_at g j
        \<longleftrightarrow> slot g i = Some m \<and> slot g j = Some n \<and> table_kind (outgoing g) i j = Some k" for i j
      using edge_ends [OF g, of i j] slot_ids [OF g, of i] slot_ids [OF g, of j] by auto
    then show ?thesis by simp
  qed
  also have "\<dots> \<longleftrightarrow> Node g (NodeID m) = Some m \<and> Node g (NodeID n) = Some n \<and> edge_of g (NodeID m) (NodeID n) = Some k"
    using Node_self [OF g] edge_of_ids [OF g] by auto blast
  finally show ?thesis .
qed

section \<open>Copied edges\<close>

definition renamed :: "(string \<Rightarrow> string) option \<Rightarrow> string \<Rightarrow> string" where
  "renamed rename x = (case rename of None \<Rightarrow> x | Some f \<Rightarrow> f x)"

definition copied_edges :: "(string \<Rightarrow> string) option \<Rightarrow> (graph_node \<times> graph_node \<times> edge_kind) list \<Rightarrow> (string \<times> string \<times> edge_kind) list" where
  "copied_edges rename es =
     filter (\<lambda>(a, b, k). a \<noteq> [] \<and> b \<noteq> [] \<and> a \<noteq> b)
       (map (\<lambda>(m, n, k). (renamed rename (NodeID m), renamed rename (NodeID n), k)) es)"

lemma AddTypedEdge_not_self: "a \<noteq> b \<Longrightarrow> AddTypedEdge g a b k \<noteq> Inl ErrSelfDependency"
  by (auto simp: AddTypedEdge_def requireIndex_def Let_def split: option.splits)

lemma foldM_copy_edge: "foldM (copy_edge rename) d es = foldM link_edge d (copied_edges rename es)"
proof (induction es arbitrary: d)
  case (Cons e es)
  obtain m n k where e: "e = (m, n, k)" by (cases e)
  let ?a = "renamed rename (NodeID m)" and ?b = "renamed rename (NodeID n)"
  have step: "copy_edge rename d (m, n, k) = (if ?a = [] \<or> ?b = [] \<or> ?a = ?b then Inr d else link_edge d (?a, ?b, k))"
    using AddTypedEdge_not_self [of ?a ?b d k]
    by (auto simp: copy_edge_def e renamed_def link_edge_def Let_def split: sum.split option.splits)
  have "copied_edges rename (e # es) = (if ?a = [] \<or> ?b = [] \<or> ?a = ?b then [] else [(?a, ?b, k)]) @ copied_edges rename es"
    by (simp add: copied_edges_def e)
  then show ?case using Cons.IH by (simp add: e step del: Nil_is_append_conv split: sum.split)
qed (simp add: copied_edges_def)

lemma copied_edges_set:
  assumes g: "graph_ok g"
  shows "(a, b, k) \<in> set (copied_edges rename (WalkTypedEdges g)) \<longleftrightarrow> a \<noteq> [] \<and> b \<noteq> [] \<and> a \<noteq> b
    \<and> (\<exists>x y. edge_of g x y = Some k \<and> a = renamed rename x \<and> b = renamed rename y)"
proof -
  have "(\<exists>m n. (m, n, k) \<in> set (WalkTypedEdges g) \<and> a = renamed rename (NodeID m) \<and> b = renamed rename (NodeID n))
      \<longleftrightarrow> (\<exists>x y. edge_of g x y = Some k \<and> a = renamed rename x \<and> b = renamed rename y)" (is "?l \<longleftrightarrow> ?r")
  proof
    assume ?r
    then obtain x y where e: "edge_of g x y = Some k" and ab: "a = renamed rename x" "b = renamed rename y" by blast
    obtain m n where "Node g x = Some m" "Node g y = Some n" using edge_of_nodes [OF g, of x y] e by auto
    then show ?l using e ab Node_id [OF g] by (intro exI [of _ m] exI [of _ n]) (auto simp: WalkTypedEdges_set [OF g])
  qed (auto simp: WalkTypedEdges_set [OF g])
  then show ?thesis by (force simp: copied_edges_def)
qed

lemma CopyEdgesInto_ok:
  assumes d: "graph_ok d" and g: "graph_ok g"
    and ends: "\<And>x y. edge_of g x y \<noteq> None \<Longrightarrow> renamed rename x \<noteq> [] \<Longrightarrow> renamed rename y \<noteq> [] \<Longrightarrow>
      Node d (renamed rename x) \<noteq> None \<and> Node d (renamed rename y) \<noteq> None"
  shows "\<exists>g'. CopyEdgesInto (Some d) (Some g) rename = Inr (Some g') \<and> graph_ok g' \<and> Node g' = Node d
    \<and> edge_of g' = foldl link_into (edge_of d) (copied_edges rename (WalkTypedEdges g))"
proof -
  let ?es = "copied_edges rename (WalkTypedEdges g)"
  have "a \<noteq> b \<and> Node d a \<noteq> None \<and> Node d b \<noteq> None \<and> k \<noteq> EdgeKindUnknown" if "(a, b, k) \<in> set ?es" for a b k
    using that ends edge_of_known [OF g] unfolding copied_edges_set [OF g] by fastforce
  then have "\<forall>(a, b, k) \<in> set ?es. a \<noteq> b \<and> Node d a \<noteq> None \<and> Node d b \<noteq> None \<and> k \<noteq> EdgeKindUnknown" by blast
  from gs.link_all [OF d this] show ?thesis by (auto simp: CopyEdgesInto_def foldM_copy_edge)
qed

lemma MergeEdgeKind_again: "MergeEdgeKind (MergeEdgeKind a k) k = MergeEdgeKind a k" "MergeEdgeKind k k = k"
  by (simp_all add: MergeEdgeKind_eq)

lemma link_all_unique:
  assumes "\<forall>k. (x, y, k) \<in> set es \<longrightarrow> Some k = new"
  shows "foldl link_into m es x y = (if \<exists>k. (x, y, k) \<in> set es
    then Some (case m x y of None \<Rightarrow> the new | Some old \<Rightarrow> MergeEdgeKind old (the new)) else m x y)"
  using assms
proof (induction es arbitrary: m)
  case (Cons e es)
  obtain a b l where e: "e = (a, b, l)" by (cases e)
  have IH: "foldl link_into m' es x y = (if \<exists>k. (x, y, k) \<in> set es
    then Some (case m' x y of None \<Rightarrow> the new | Some old \<Rightarrow> MergeEdgeKind old (the new)) else m' x y)" for m'
    using Cons by simp
  show ?case
  proof (cases "a = x \<and> b = y")
    case True
    then have new: "new = Some l" using Cons.prems by (auto simp: e)
    have "link_into m e x y = Some (case m x y of None \<Rightarrow> l | Some old \<Rightarrow> MergeEdgeKind old l)"
      using True by (auto simp: e link_into_def split: option.split)
    then show ?thesis using True by (auto simp: IH new e MergeEdgeKind_again split: option.split)
  next
    case False
    then have "link_into m e x y = m x y" by (auto simp: e link_into_def)
    then show ?thesis using False by (auto simp: IH e)
  qed
qed simp

text \<open>A union of two edge tables: an edge of both keeps the stronger kind.\<close>

definition edge_union :: "edge_kind option \<Rightarrow> edge_kind option \<Rightarrow> edge_kind option" where
  "edge_union a b = (case (a, b) of (None, k) \<Rightarrow> k | (k, None) \<Rightarrow> k | (Some k, Some l) \<Rightarrow> Some (MergeEdgeKind k l))"

definition node_union :: "library \<Rightarrow> graph_node option \<Rightarrow> graph_node option \<Rightarrow> graph_node option" where
  "node_union L a b = (case (a, b) of (None, n) \<Rightarrow> n | (n, None) \<Rightarrow> n | (Some s, Some w) \<Rightarrow> Some (foldNodes L s w))"

lemma edge_of_named: "graph_ok g \<Longrightarrow> edge_of g x y \<noteq> None \<Longrightarrow> x \<noteq> [] \<and> y \<noteq> [] \<and> x \<noteq> y"
  using edge_of_nodes [of g x y] Node_id [of g x] Node_id [of g y] by blast

lemma copied_edges_union:
  assumes d: "graph_ok d" and g: "graph_ok g"
  shows "foldl link_into m (copied_edges None (WalkTypedEdges g)) x y = edge_union (m x y) (edge_of g x y)"
proof -
  have mem: "(x, y, k) \<in> set (copied_edges None (WalkTypedEdges g)) \<longleftrightarrow> edge_of g x y = Some k" for k
    using edge_of_named [OF g, of x y] by (auto simp: copied_edges_set [OF g] renamed_def)
  show ?thesis
  proof (cases "edge_of g x y")
    case None
    then have "\<forall>k. (x, y, k) \<notin> set (copied_edges None (WalkTypedEdges g))" by (simp add: mem)
    then show ?thesis using None by (simp add: link_all_untouched edge_union_def split: option.split)
  next
    case (Some k)
    have "\<forall>k. (x, y, k) \<in> set (copied_edges None (WalkTypedEdges g)) \<longrightarrow> Some k = edge_of g x y" by (simp add: mem)
    from link_all_unique [OF this, of m] show ?thesis using Some by (simp only: mem edge_union_def) (simp split: option.split)
  qed
qed

lemma MergeGraph_union:
  assumes d: "graph_ok d" and g: "graph_ok g"
  shows "\<exists>g'. MergeGraph L (Some d) (Some g) = Inr (Some g') \<and> graph_ok g'
    \<and> (\<forall>x. Node g' x = node_union L (Node d x) (Node g x))
    \<and> (\<forall>x y. edge_of g' x y = edge_union (edge_of d x y) (edge_of g x y))"
proof -
  have ins: "(\<lambda>d n. map_sum id fst (InsertNode L d (Some n))) = insert_node L"
    by (intro ext) (simp add: insert_node_def)
  have "\<forall>n \<in> set (WalkNodes g). NodeID n \<noteq> []" using WalkNodes_set [OF g] Node_id [OF g] by blast
  from gs.ins_all [OF d this, of L] obtain d2 where d2: "foldM (insert_node L) d (WalkNodes g) = Inr d2" "graph_ok d2"
    and nodes2: "Node d2 = foldl (witness_into L) (Node d) (WalkNodes g)" and edges2: "edge_of d2 = edge_of d"
    by auto
  have dom2: "Node d2 x \<noteq> None \<longleftrightarrow> Node d x \<noteq> None \<or> Node g x \<noteq> None" for x
    using dom_witness_all [of L "Node d" "WalkNodes g"] WalkNodes_ids [OF g] nodes2 by (auto simp: dom_def set_eq_iff)
  have "\<exists>g'. CopyEdgesInto (Some d2) (Some g) None = Inr (Some g') \<and> graph_ok g' \<and> Node g' = Node d2
    \<and> edge_of g' = foldl link_into (edge_of d2) (copied_edges None (WalkTypedEdges g))"
    by (rule CopyEdgesInto_ok [OF d2(2) g]) (use dom2 edge_of_nodes [OF g] in \<open>auto simp: renamed_def\<close>)
  moreover have "Node d2 x = node_union L (Node d x) (Node g x)" for x
  proof (cases "Node g x")
    case None
    then have "x \<notin> NodeID ` set (WalkNodes g)" by (simp add: WalkNodes_ids [OF g])
    then show ?thesis using None by (simp add: nodes2 witness_all_untouched node_union_def split: option.split)
  next
    case (Some n)
    then have "n \<in> set (WalkNodes g)" "NodeID n = x" using Node_id [OF g Some] by (simp_all add: WalkNodes_set [OF g])
    then show ?thesis
      using witness_all_distinct [OF WalkNodes_distinct [OF g], of n L "Node d"] Some
      by (simp add: nodes2 node_union_def split: option.split)
  qed
  ultimately show ?thesis using d2 by (auto simp: MergeGraph_def ins edges2 copied_edges_union [OF d g])
qed

section \<open>Consolidation\<close>

definition entry_ok :: "('p, 'd) graph_entry \<Rightarrow> bool" where
  "entry_ok e \<longleftrightarrow> (\<forall>g. EntryGraph e = Some g \<longrightarrow> graph_ok g)"

definition entry_node :: "('p, 'd) graph_entry \<Rightarrow> string \<Rightarrow> graph_node option" where
  "entry_node e x = (case EntryGraph e of None \<Rightarrow> None | Some g \<Rightarrow> Node g x)"

definition entry_edge :: "('p, 'd) graph_entry \<Rightarrow> string \<Rightarrow> string \<Rightarrow> edge_kind option" where
  "entry_edge e x y = (case EntryGraph e of None \<Rightarrow> None | Some g \<Rightarrow> edge_of g x y)"

lemma entry_node_present: "entry_node e x \<noteq> None \<longleftrightarrow> (\<exists>h. EntryGraph e = Some h \<and> Node h x \<noteq> None)"
  by (cases "EntryGraph e") (simp_all add: entry_node_def)

lemma entry_edge_present: "entry_edge e x y \<noteq> None \<longleftrightarrow> (\<exists>h. EntryGraph e = Some h \<and> edge_of h x y \<noteq> None)"
  by (cases "EntryGraph e") (simp_all add: entry_edge_def)

lemma entry_edge_kind: "entry_edge e x y = Some k \<longleftrightarrow> (\<exists>h. EntryGraph e = Some h \<and> edge_of h x y = Some k)"
  by (cases "EntryGraph e") (simp_all add: entry_edge_def)

lemma node_union_None [simp]: "node_union L a None = a"
  by (simp add: node_union_def split: option.split)

lemma edge_union_None [simp]: "edge_union a None = a"
  by (simp add: edge_union_def split: option.split)

lemma merge_entry_ok:
  assumes m: "graph_ok m" and e: "entry_ok e"
  shows "\<exists>g'. merge_entry L m e = Inr g' \<and> graph_ok g' \<and> (\<forall>x. Node g' x = node_union L (Node m x) (entry_node e x))
    \<and> (\<forall>x y. edge_of g' x y = edge_union (edge_of m x y) (entry_edge e x y))"
proof (cases "EntryGraph e")
  case None
  then show ?thesis using m by (simp add: merge_entry_def entry_node_def entry_edge_def)
next
  case (Some g)
  then have "graph_ok g" using e by (simp add: entry_ok_def)
  from MergeGraph_union [OF m this, of L] Some show ?thesis
    by (auto simp: merge_entry_def entry_node_def entry_edge_def)
qed

lemma merge_entries_ok:
  "graph_ok m \<Longrightarrow> \<forall>e \<in> set es. entry_ok e \<Longrightarrow>
   \<exists>g'. foldM (merge_entry L) m es = Inr g' \<and> graph_ok g'
     \<and> (\<forall>x. Node g' x = foldl (\<lambda>a e. node_union L a (entry_node e x)) (Node m x) es)
     \<and> (\<forall>x y. edge_of g' x y = foldl (\<lambda>a e. edge_union a (entry_edge e x y)) (edge_of m x y) es)"
proof (induction es arbitrary: m)
  case (Cons e es)
  obtain g1 where g1: "merge_entry L m e = Inr g1" "graph_ok g1"
    "\<forall>x. Node g1 x = node_union L (Node m x) (entry_node e x)"
    "\<forall>x y. edge_of g1 x y = edge_union (edge_of m x y) (entry_edge e x y)"
    using merge_entry_ok [of m e L] Cons.prems by auto
  from Cons.IH [OF g1(2)] Cons.prems(2) g1 show ?case by auto
qed simp

lemma node_union_all: "foldl (\<lambda>a e. node_union L a (f e)) a es \<noteq> None \<longleftrightarrow> a \<noteq> None \<or> (\<exists>e \<in> set es. f e \<noteq> None)"
  by (induction es arbitrary: a) (auto simp: node_union_def split: option.splits)

lemma edge_union_all: "foldl (\<lambda>a e. edge_union a (f e)) a es \<noteq> None \<longleftrightarrow> a \<noteq> None \<or> (\<exists>e \<in> set es. f e \<noteq> None)"
  by (induction es arbitrary: a) (auto simp: edge_union_def split: option.splits)

lemma edge_union_strongest:
  "edge_union a b = Some EdgeKindDependsOn \<longleftrightarrow> a = Some EdgeKindDependsOn \<or> b = Some EdgeKindDependsOn"
  by (auto simp: edge_union_def MergeEdgeKind_eq split: option.splits)

lemma edge_union_all_strongest:
  "foldl (\<lambda>a e. edge_union a (f e)) a es = Some EdgeKindDependsOn
   \<longleftrightarrow> a = Some EdgeKindDependsOn \<or> (\<exists>e \<in> set es. f e = Some EdgeKindDependsOn)"
  by (induction es arbitrary: a) (auto simp: edge_union_strongest)

section \<open>Filtering\<close>

lemma add_nodes_ok:
  assumes src: "graph_ok s"
  shows "graph_ok g \<Longrightarrow> distinct is \<Longrightarrow> \<forall>i \<in> set is. Node s i \<noteq> None \<and> Node g i = None \<Longrightarrow>
    \<exists>g'. foldM (\<lambda>g i. case Node s i of None \<Rightarrow> Inr g | Some n \<Rightarrow> AddNode g (Some n)) g is = Inr g' \<and> graph_ok g'
      \<and> (\<forall>x. Node g' x = (if x \<in> set is then Node s x else Node g x)) \<and> edge_of g' = edge_of g"
proof (induction "is" arbitrary: g)
  case (Cons i js)
  obtain n where n: "Node s i = Some n" "NodeID n = i" "i \<noteq> []"
    using Cons.prems(3) Node_id [OF src, of i] by auto
  then obtain g1 where add: "AddNode g (Some n) = Inr g1"
    using AddNode_total [OF Cons.prems(1), of n] Cons.prems(3) by auto
  then have g1: "graph_ok g1" "Node g1 = (Node g)(i := Some n)" "edge_of g1 = edge_of g"
    using AddNode_abs [OF Cons.prems(1) add] n by auto
  have "\<forall>j \<in> set js. Node s j \<noteq> None \<and> Node g1 j = None" using Cons.prems g1(2) by auto
  from Cons.IH [OF g1(1) _ this] Cons.prems(2) obtain g' where
    "foldM (\<lambda>g i. case Node s i of None \<Rightarrow> Inr g | Some n \<Rightarrow> AddNode g (Some n)) g1 js = Inr g'" "graph_ok g'"
    "\<forall>x. Node g' x = (if x \<in> set js then Node s x else Node g1 x)" "edge_of g' = edge_of g1" by auto
  then show ?case using add n g1 by (intro exI [of _ g']) auto
qed simp

definition kept_node :: "scope \<Rightarrow> graph_node option \<Rightarrow> bool" where
  "kept_node want node = (case node of None \<Rightarrow> False | Some n \<Rightarrow> scope_allows want n)"

lemma copied_edges_kept:
  assumes g: "graph_ok g" and "[] \<notin> A"
  shows "foldl link_into (\<lambda>_ _. None) (copied_edges (Some (\<lambda>i. if i \<in> A then i else [])) (WalkTypedEdges g)) x y
    = (if x \<in> A \<and> y \<in> A then edge_of g x y else None)"
proof -
  let ?es = "copied_edges (Some (\<lambda>i. if i \<in> A then i else [])) (WalkTypedEdges g)"
  have mem: "(x, y, k) \<in> set ?es \<longleftrightarrow> x \<in> A \<and> y \<in> A \<and> edge_of g x y = Some k" for k
    using edge_of_named [OF g, of x y] by (auto simp: copied_edges_set [OF g] renamed_def split: if_splits)
  show ?thesis
  proof (cases "x \<in> A \<and> y \<in> A \<and> edge_of g x y \<noteq> None")
    case False
    then have "\<forall>k. (x, y, k) \<notin> set ?es" by (auto simp: mem)
    then show ?thesis using False by (auto simp: link_all_untouched)
  next
    case True
    then obtain k where k: "edge_of g x y = Some k" by blast
    have "\<forall>k. (x, y, k) \<in> set ?es \<longrightarrow> Some k = edge_of g x y" by (simp add: mem)
    from link_all_unique [OF this, of "\<lambda>_ _. None"] show ?thesis using True k by (simp only: mem) simp
  qed
qed

lemma filter_ok:
  assumes s: "graph_ok s" and want: "want \<noteq> ScopeUnknown"
  shows "\<exists>g. FilterGraphByScopeWithReport (Some s) want =
      Inr (Some g, sort (map NodeID (filter (kept_unasserted want) (WalkNodes s)))) \<and> graph_ok g
    \<and> (\<forall>x. Node g x = (if kept_node want (Node s x) then Node s x else None))
    \<and> (\<forall>x y. edge_of g x y = (if kept_node want (Node s x) \<and> kept_node want (Node s y) then edge_of s x y else None))"
proof -
  let ?A = "map NodeID (filter (scope_allows want) (WalkNodes s))"
  have A: "x \<in> set ?A \<longleftrightarrow> kept_node want (Node s x)" for x
  proof -
    have "x \<in> set ?A \<longleftrightarrow> (\<exists>n. Node s (NodeID n) = Some n \<and> scope_allows want n \<and> NodeID n = x)"
      using WalkNodes_set [OF s] by auto
    also have "\<dots> \<longleftrightarrow> kept_node want (Node s x)"
      using Node_id [OF s, of x] by (cases "Node s x") (auto simp: kept_node_def)
    finally show ?thesis .
  qed
  have dist: "distinct ?A" using WalkNodes_distinct [OF s] by (rule distinct_map_filter)
  obtain ids where ids: "ids = ?A" by simp
  note A = A [folded ids] and dist = dist [folded ids]
  have present: "Node s x \<noteq> None \<and> x \<noteq> []" if "x \<in> set ids" for x
    using that A Node_id [OF s, of x] by (cases "Node s x") (auto simp: kept_node_def)
  have new: "graph_ok (NewWithCapacity c) \<and> Node (NewWithCapacity c) = (\<lambda>_. None) \<and> edge_of (NewWithCapacity c) = (\<lambda>_ _. None)" for c
    using New_abs by (simp add: New_def) (simp add: NewWithCapacity_def)
  have "\<forall>i \<in> set ids. Node s i \<noteq> None \<and> Node (NewWithCapacity (length ids)) i = None"
    using present new by simp
  from add_nodes_ok [OF s _ dist this] obtain g where
    fold: "foldM (\<lambda>g i. case Node s i of None \<Rightarrow> Inr g | Some n \<Rightarrow> AddNode g (Some n)) (NewWithCapacity (length ids)) ids = Inr g"
    and g: "graph_ok g" and nodes: "\<forall>x. Node g x = (if x \<in> set ids then Node s x else None)"
    and none: "edge_of g = (\<lambda>_ _. None)"
    using new by auto
  let ?keep = "\<lambda>i. if i \<in> set ids then i else []"
  have empty: "[] \<notin> set ids" using present by blast
  have "\<exists>g'. CopyEdgesInto (Some g) (Some s) (Some ?keep) = Inr (Some g') \<and> graph_ok g' \<and> Node g' = Node g
    \<and> edge_of g' = foldl link_into (edge_of g) (copied_edges (Some ?keep) (WalkTypedEdges s))"
  proof (rule CopyEdgesInto_ok [OF g s])
    fix x y assume "renamed (Some ?keep) x \<noteq> []" "renamed (Some ?keep) y \<noteq> []"
    then have "x \<in> set ids" "y \<in> set ids" by (auto simp: renamed_def split: if_splits)
    then show "Node g (renamed (Some ?keep) x) \<noteq> None \<and> Node g (renamed (Some ?keep) y) \<noteq> None"
      using present by (simp add: renamed_def nodes)
  qed
  then obtain g' where copy: "CopyEdgesInto (Some g) (Some s) (Some ?keep) = Inr (Some g')" and g': "graph_ok g'" "Node g' = Node g"
    and edges: "edge_of g' = foldl link_into (\<lambda>_ _. None) (copied_edges (Some ?keep) (WalkTypedEdges s))"
    unfolding none by blast
  have "FilterGraphByScopeWithReport (Some s) want =
      Inr (Some g', sort (map NodeID (filter (kept_unasserted want) (WalkNodes s))))"
    using want by (simp only: FilterGraphByScopeWithReport_def option.case if_False Let_def ids [symmetric] fold sum.case copy map_sum.simps)
  moreover have "edge_of g' x y = (if kept_node want (Node s x) \<and> kept_node want (Node s y) then edge_of s x y else None)" for x y
    using copied_edges_kept [OF s empty, of x y] by (simp only: edges A)
  moreover have "Node g' x = (if kept_node want (Node s x) then Node s x else None)" for x
    by (simp only: g' nodes A)
  ultimately show ?thesis using g'(1) by blast
qed

section \<open>Properties\<close>

text \<open>C5. Merging one well-formed graph into another never fails: every node of either is there, a
  node of both once, with the incoming record folded into the existing one, and every edge of
  either, an edge of both with the stronger of the two kinds.\<close>

theorem MergeGraph_spec:
  assumes "graph_ok d" "graph_ok s"
  shows "\<exists>g. MergeGraph L (Some d) (Some s) = Inr (Some g) \<and> graph_ok g
    \<and> (\<forall>x. Node g x = (case (Node d x, Node s x) of (None, n) \<Rightarrow> n | (n, None) \<Rightarrow> n
         | (Some a, Some b) \<Rightarrow> Some (foldNodes L a b)))
    \<and> (\<forall>x y. edge_of g x y = (case (edge_of d x y, edge_of s x y) of (None, k) \<Rightarrow> k | (k, None) \<Rightarrow> k
         | (Some k, Some l) \<Rightarrow> Some (MergeEdgeKind k l)))"
  using MergeGraph_union [OF assms, of L] by (simp only: node_union_def edge_union_def)

theorem MergeGraph_spec_witness:
  "\<exists>g. MergeGraph plain_library (Some New) (Some sample_graph) = Inr (Some g)
     \<and> Node g ''a'' = Some (sample_node ''a'') \<and> edge_of g ''a'' ''b'' = Some EdgeKindDependsOn"
proof -
  have "Node sample_graph ''a'' = Some (sample_node ''a'')" "edge_of sample_graph ''a'' ''b'' = Some EdgeKindDependsOn"
    by code_simp+
  moreover have "Node New = (\<lambda>_. None)" "edge_of New = (\<lambda>_ _. None)" using New_abs by auto
  ultimately show ?thesis
    using MergeGraph_spec [OF conjunct1 [OF New_abs] reachable_graph_ok [OF sample_graph_reachable], of plain_library]
    by auto
qed

text \<open>Consolidating a container of several well-formed graphs never fails; a node or an edge is
  in the result exactly when some entry has it, and an edge is a dependency edge exactly when
  some entry says so: none of this depends on the order of the entries.\<close>

lemma ConsolidatedGraph_union:
  assumes "length entries \<ge> 2" "\<forall>e \<in> set entries. \<forall>g. EntryGraph e = Some g \<longrightarrow> graph_ok g"
  shows "\<exists>g. ConsolidatedGraph L (Some entries) = Inr (Some g) \<and> graph_ok g
    \<and> (\<forall>x. Node g x \<noteq> None \<longleftrightarrow> (\<exists>e \<in> set entries. \<exists>h. EntryGraph e = Some h \<and> Node h x \<noteq> None))
    \<and> (\<forall>x y. edge_of g x y \<noteq> None \<longleftrightarrow> (\<exists>e \<in> set entries. \<exists>h. EntryGraph e = Some h \<and> edge_of h x y \<noteq> None))
    \<and> (\<forall>x y. edge_of g x y = Some EdgeKindDependsOn \<longleftrightarrow>
         (\<exists>e \<in> set entries. \<exists>h. EntryGraph e = Some h \<and> edge_of h x y = Some EdgeKindDependsOn))"
proof -
  have "\<forall>e \<in> set entries. entry_ok e" using assms(2) by (simp add: entry_ok_def)
  from merge_entries_ok [OF conjunct1 [OF New_abs] this, of L] obtain g where
    fold: "foldM (merge_entry L) New entries = Inr g" and g: "graph_ok g"
    and n: "\<And>x. Node g x = foldl (\<lambda>a e. node_union L a (entry_node e x)) None entries"
    and e: "\<And>x y. edge_of g x y = foldl (\<lambda>a e. edge_union a (entry_edge e x y)) None entries"
    using New_abs by auto
  have "ConsolidatedGraph L (Some entries) = Inr (Some g)"
    using assms(1) fold by (cases entries rule: list.exhaust; cases "tl entries") (auto simp: ConsolidatedGraph_def)
  moreover have "Node g x \<noteq> None \<longleftrightarrow> (\<exists>e \<in> set entries. \<exists>h. EntryGraph e = Some h \<and> Node h x \<noteq> None)" for x
    unfolding n node_union_all entry_node_present by simp
  moreover have "edge_of g x y \<noteq> None \<longleftrightarrow> (\<exists>e \<in> set entries. \<exists>h. EntryGraph e = Some h \<and> edge_of h x y \<noteq> None)" for x y
    unfolding e edge_union_all entry_edge_present by simp
  moreover have "edge_of g x y = Some EdgeKindDependsOn \<longleftrightarrow>
      (\<exists>e \<in> set entries. \<exists>h. EntryGraph e = Some h \<and> edge_of h x y = Some EdgeKindDependsOn)" for x y
    unfolding e edge_union_all_strongest entry_edge_kind by simp
  ultimately show ?thesis using g by (intro exI [of _ g] conjI allI)
qed

definition sample_entry :: "graph option \<Rightarrow> (unit, unit) graph_entry" where
  "sample_entry g = \<lparr>EntryGraph = g, EntryManifest = \<lparr>MetadataPath = ''go.mod'', MetadataKind = ''go.mod'', Resolution = None\<rparr>,
     EntryPackages = [], EntryDocument = None\<rparr>"

lemma FilterGraphByScope_facts:
  assumes "graph_ok s" "want \<noteq> ScopeUnknown"
  shows "\<exists>g unasserted. FilterGraphByScopeWithReport (Some s) want = Inr (Some g, unasserted) \<and> graph_ok g
    \<and> (\<forall>x. Node g x = (case Node s x of
           Some (DependencyNode n) \<Rightarrow>
             if (if want = ScopeRuntime then ScopeRuntime \<in> set (NodeScopes n) \<or> ScopeDevelopment \<notin> set (NodeScopes n)
                 else want \<in> set (NodeScopes n) \<and> ScopeRuntime \<notin> set (NodeScopes n))
             then Node s x else None
         | structural \<Rightarrow> structural))
    \<and> (\<forall>x y. edge_of g x y = (if Node g x \<noteq> None \<and> Node g y \<noteq> None then edge_of s x y else None))
    \<and> sorted_wrt (<) unasserted
    \<and> set unasserted = {x. \<exists>n. want = ScopeRuntime \<and> Node g x = Some (DependencyNode n) \<and> ScopeRuntime \<notin> set (NodeScopes n)}"
proof -
  let ?u = "sort (map NodeID (filter (kept_unasserted want) (WalkNodes s)))"
  obtain g where f: "FilterGraphByScopeWithReport (Some s) want = Inr (Some g, ?u)" and g: "graph_ok g"
    and n: "\<And>x. Node g x = (if kept_node want (Node s x) then Node s x else None)"
    and e: "\<And>x y. edge_of g x y = (if kept_node want (Node s x) \<and> kept_node want (Node s y) then edge_of s x y else None)"
    using filter_ok [OF assms] by blast
  have kept: "Node g x \<noteq> None \<longleftrightarrow> kept_node want (Node s x)" for x
    by (auto simp: n kept_node_def split: option.splits)
  have nodes: "Node g x = (case Node s x of
           Some (DependencyNode n) \<Rightarrow>
             if (if want = ScopeRuntime then ScopeRuntime \<in> set (NodeScopes n) \<or> ScopeDevelopment \<notin> set (NodeScopes n)
                 else want \<in> set (NodeScopes n) \<and> ScopeRuntime \<notin> set (NodeScopes n))
             then Node s x else None
         | structural \<Rightarrow> structural)" for x
    using assms(2) by (simp add: n kept_node_def scope_allows_def MatchesScopeFilter_def ScopeSetMatches_def
        containsScope_def split: option.split graph_node.split)
  have edges: "edge_of g x y = (if Node g x \<noteq> None \<and> Node g y \<noteq> None then edge_of s x y else None)" for x y
    by (simp only: kept e)
  have "distinct ?u" using distinct_map_filter [OF WalkNodes_distinct [OF assms(1)]] by simp
  then have sorted: "sorted_wrt (<) ?u" by (simp add: strict_sorted_iff)
  have "x \<in> set ?u \<longleftrightarrow> (\<exists>n. want = ScopeRuntime \<and> Node g x = Some (DependencyNode n) \<and> ScopeRuntime \<notin> set (NodeScopes n))" for x
  proof -
    have "x \<in> set ?u \<longleftrightarrow> (\<exists>m. Node s (NodeID m) = Some m \<and> kept_unasserted want m \<and> NodeID m = x)"
      using WalkNodes_set [OF assms(1)] by auto
    also have "\<dots> \<longleftrightarrow> (\<exists>m. Node s x = Some m \<and> kept_unasserted want m)"
      using Node_id [OF assms(1), of x] by auto
    also have "\<dots> \<longleftrightarrow> (\<exists>n. want = ScopeRuntime \<and> Node g x = Some (DependencyNode n) \<and> ScopeRuntime \<notin> set (NodeScopes n))"
      by (cases "Node s x") (auto simp: n kept_node_def kept_unasserted_def scope_allows_def keptOnAbsence_def
          containsScope_def split: graph_node.splits)
    finally show ?thesis .
  qed
  then have "set ?u = {x. \<exists>n. want = ScopeRuntime \<and> Node g x = Some (DependencyNode n) \<and> ScopeRuntime \<notin> set (NodeScopes n)}"
    by blast
  with f g nodes edges sorted show ?thesis by (intro exI [of _ g] exI [of _ ?u] conjI allI)
qed

text \<open>C6. Filtering by a scope never fails on a well-formed graph: every manifest and module stays,
  a dependency stays exactly when its scope set matches, root or not; an edge stays with its kind
  exactly when both its ends do; the report names, sorted, the dependencies a runtime view kept
  although no scope says runtime; and a runtime view drops only what is asserted development
  and not runtime.\<close>

theorem FilterGraphByScope_spec:
  assumes "graph_ok s" "want \<noteq> ScopeUnknown"
  shows "\<exists>g unasserted. FilterGraphByScopeWithReport (Some s) want = Inr (Some g, unasserted) \<and> graph_ok g
    \<and> (\<forall>x. Node g x = (case Node s x of
           Some (DependencyNode n) \<Rightarrow>
             if (if want = ScopeRuntime then ScopeRuntime \<in> set (NodeScopes n) \<or> ScopeDevelopment \<notin> set (NodeScopes n)
                 else want \<in> set (NodeScopes n) \<and> ScopeRuntime \<notin> set (NodeScopes n))
             then Node s x else None
         | structural \<Rightarrow> structural))
    \<and> (\<forall>x y. edge_of g x y = (if Node g x \<noteq> None \<and> Node g y \<noteq> None then edge_of s x y else None))
    \<and> sorted_wrt (<) unasserted
    \<and> set unasserted = {x. \<exists>n. want = ScopeRuntime \<and> Node g x = Some (DependencyNode n) \<and> ScopeRuntime \<notin> set (NodeScopes n)}"
  using FilterGraphByScope_facts [OF assms] .

theorem FilterGraphByScope_spec_witness:
  "\<exists>g unasserted. FilterGraphByScopeWithReport (Some sample_graph) ScopeDevelopment = Inr (Some g, unasserted)
     \<and> Node g ''a'' = None \<and> unasserted = []"
proof -
  have a: "Node sample_graph ''a'' = Some (sample_node ''a'')" by code_simp
  have b: "sample_node ''a'' = DependencyNode (sample_dependency\<lparr>dependency_id := ''a''\<rparr>)" by (simp add: sample_node_def)
  have c: "NodeScopes (sample_dependency\<lparr>dependency_id := ''a''\<rparr>) = []" by code_simp
  obtain g unasserted where "FilterGraphByScopeWithReport (Some sample_graph) ScopeDevelopment = Inr (Some g, unasserted)"
    and "\<forall>x. Node g x = (case Node sample_graph x of
           Some (DependencyNode n) \<Rightarrow>
             if (if ScopeDevelopment = ScopeRuntime then ScopeRuntime \<in> set (NodeScopes n) \<or> ScopeDevelopment \<notin> set (NodeScopes n)
                 else ScopeDevelopment \<in> set (NodeScopes n) \<and> ScopeRuntime \<notin> set (NodeScopes n))
             then Node sample_graph x else None
         | structural \<Rightarrow> structural)"
    and "set unasserted = {x. \<exists>n. ScopeDevelopment = ScopeRuntime \<and> Node g x = Some (DependencyNode n) \<and> ScopeRuntime \<notin> set (NodeScopes n)}"
    using FilterGraphByScope_spec [OF reachable_graph_ok [OF sample_graph_reachable], of ScopeDevelopment] by auto
  moreover from this(2) have "Node g ''a'' = None" by (simp add: a b c)
  ultimately show ?thesis by auto
qed

end
