(* ===== verification/Traversal.thy ===== *)
theory Traversal
  imports GraphMerge
begin

text \<open>
  Walking the graph, the second half of \<^verbatim>\<open>model/graph.go\<close>: the paths to a node
  (\<open>CollectPathsTo\<close>), the topological order (\<open>TopologicalSort\<close>), and the ancestors both start
  from. Loops over a worklist and recursions along a path carry fuel and return \<open>None\<close> when it
  runs out; the lemmas show that the fuel the entry points start with is enough on every graph
  the store can hold. \<open>container/heap\<close> with the order of node IDs is the removal of a least
  element, which is unique because IDs are.
\<close>

section \<open>Ancestors\<close>

definition push_new :: "nat list \<times> nat list \<Rightarrow> nat \<Rightarrow> nat list \<times> nat list" where
  "push_new s i = (case s of (seen, stack) \<Rightarrow> if i \<in> set seen then s else (i # seen, i # stack))"

fun explore :: "(nat \<Rightarrow> nat list) \<Rightarrow> nat \<Rightarrow> nat list \<Rightarrow> nat list \<Rightarrow> nat list option" where
  "explore next_of fuel seen [] = Some seen"
| "explore next_of 0 seen (i # stack) = None"
| "explore next_of (Suc fuel) seen (i # stack) =
     (case foldl push_new (seen, stack) (next_of i) of (seen, stack) \<Rightarrow> explore next_of fuel seen stack)"

definition reverseReachable :: "graph \<Rightarrow> nat \<Rightarrow> nat list option" where
  "reverseReachable g start = explore (\<lambda>i. mkeys (incoming g ! i)) (length (nodes g)) [start] [start]"

definition sortedRelevantIndices :: "graph \<Rightarrow> nat list \<Rightarrow> nat list" where
  "sortedRelevantIndices g relevant = sort_slots g relevant"

definition relevantRoots :: "graph \<Rightarrow> nat list \<Rightarrow> nat list" where
  "relevantRoots g relevant =
     filter (\<lambda>i. \<not> list_ex (\<lambda>p. p \<in> set relevant) (mkeys (incoming g ! i))) (sortedRelevantIndices g relevant)"

section \<open>Paths to a node\<close>

record graph_path =
  PathNodes :: "graph_node list"
  Cyclic :: bool
  CycleTo :: string

definition buildPath :: "graph \<Rightarrow> nat list \<Rightarrow> bool \<Rightarrow> string \<Rightarrow> graph_path" where
  "buildPath g indices cyclic cycleTo = \<lparr>PathNodes = map (node_at g) indices, Cyclic = cyclic, CycleTo = cycleTo\<rparr>"

fun collectPathsTo :: "graph \<Rightarrow> nat \<Rightarrow> nat \<Rightarrow> nat \<Rightarrow> nat list \<Rightarrow> nat list \<Rightarrow> nat list \<Rightarrow> graph_path list option" where
  "collectPathsTo g 0 current target relevant stack active = None"
| "collectPathsTo g (Suc fuel) current target relevant stack active =
     (if current \<notin> set relevant \<or> current \<in> set active then Some []
      else
        (let stack = stack @ [current]; active = current # active;
             here = (if current = target then [buildPath g stack False []] else [])
         in map_option (\<lambda>found. here @ concat found)
              (those (map (\<lambda>child.
                 if child \<notin> set relevant then Some []
                 else if child \<in> set active
                 then (if child = target then Some [buildPath g (stack @ [child]) True (NodeID (node_at g child))]
                       else Some [])
                 else collectPathsTo g fuel child target relevant stack active)
                 (sortedAdjacent g (outgoing g ! current))))))"

definition pathNodesKey :: "graph_node list \<Rightarrow> string" where
  "pathNodesKey ns = Join (map NodeID ns) ''/''"

definition CollectPathsTo :: "graph \<Rightarrow> string \<Rightarrow> graph_error + graph_path list option" where
  "CollectPathsTo g targetID =
     (case requireIndex g targetID of
        Inl err \<Rightarrow> Inl err
      | Inr target \<Rightarrow>
          Inr (case reverseReachable g target of
                 None \<Rightarrow> None
               | Some relevant \<Rightarrow>
                   (let starts = relevantRoots g relevant;
                        starts = (if starts = [] then sortedRelevantIndices g relevant else starts)
                    in map_option (\<lambda>found. sort_key (\<lambda>p. pathNodesKey (PathNodes p)) (concat found))
                         (those (map (\<lambda>start. collectPathsTo g (Suc (length (nodes g))) start target relevant [] []) starts)))))"

section \<open>Topological order\<close>

definition pop_least :: "graph \<Rightarrow> nat list \<Rightarrow> nat \<times> nat list" where
  "pop_least g ready = (let i = hd (sort_slots g ready) in (i, remove1 i ready))"

definition release :: "int list \<times> nat list \<Rightarrow> nat \<Rightarrow> int list \<times> nat list" where
  "release s child =
     (case s of (inDeg, ready) \<Rightarrow>
        let inDeg = inDeg[child := inDeg ! child - 1]
        in (inDeg, if inDeg ! child = 0 then child # ready else ready))"

fun topological_loop :: "graph \<Rightarrow> nat \<Rightarrow> int list \<Rightarrow> nat list \<Rightarrow> nat list \<Rightarrow> nat list option" where
  "topological_loop g fuel inDeg [] ordered = Some ordered"
| "topological_loop g 0 inDeg (i # ready) ordered = None"
| "topological_loop g (Suc fuel) inDeg (i # ready) ordered =
     (let (idx, ready) = pop_least g (i # ready);
          (inDeg, ready) = foldl release (inDeg, ready) (mkeys (outgoing g ! idx))
      in topological_loop g fuel inDeg ready (ordered @ [idx]))"

definition initial_degrees :: "graph \<Rightarrow> int list" where
  "initial_degrees g =
     map (\<lambda>i. if nodes g ! i \<noteq> None \<and> alive g ! i then int (length (incoming g ! i)) else 0) [0..<length (nodes g)]"

definition TopologicalSort :: "graph \<Rightarrow> (graph_node list \<times> graph_error option) option" where
  "TopologicalSort g =
     map_option (\<lambda>ordered. (map (node_at g) ordered, if length ordered \<noteq> node_count g then Some ErrCycleDetected else None))
       (topological_loop g (length (nodes g)) (initial_degrees g)
          (filter (\<lambda>i. initial_degrees g ! i = 0) (live_slots g)) [])"

section \<open>The worklist\<close>

definition next_rel :: "(nat \<Rightarrow> nat list) \<Rightarrow> (nat \<times> nat) set" where
  "next_rel next_of = {(i, j). j \<in> set (next_of i)}"

lemma push_new_pair [simp]:
  "push_new (seen, stack) i = (if i \<in> set seen then (seen, stack) else (i # seen, i # stack))"
  by (simp add: push_new_def)

lemma foldl_push_new:
  "\<exists>new. foldl push_new (seen, stack) xs = (new @ seen, new @ stack) \<and> set new = set xs - set seen \<and> distinct new"
proof (induction xs arbitrary: seen stack)
  case (Cons x xs)
  show ?case
  proof (cases "x \<in> set seen")
    case True
    then show ?thesis using Cons.IH [of seen stack] by auto
  next
    case False
    obtain new where "foldl push_new (x # seen, x # stack) xs = (new @ x # seen, new @ x # stack)"
      and "set new = set xs - set (x # seen)" "distinct new"
      using Cons.IH [of "x # seen" "x # stack"] by blast
    moreover from this have "set (new @ [x]) = set (x # xs) - set seen" "distinct (new @ [x])" using False by auto
    ultimately show ?thesis using False by (intro exI [of _ "new @ [x]"]) simp
  qed
qed simp

lemma explore_total:
  "finite N \<Longrightarrow> \<forall>i \<in> N. set (next_of i) \<subseteq> N \<Longrightarrow> distinct seen \<Longrightarrow> set seen \<subseteq> N \<Longrightarrow> set stack \<subseteq> set seen \<Longrightarrow>
    card N - length seen + length stack \<le> fuel \<Longrightarrow>
    \<exists>r. explore next_of fuel seen stack = Some r \<and> distinct r \<and> set r \<subseteq> N"
proof (induction next_of fuel seen stack rule: explore.induct)
  case (3 next_of fuel seen i stack)
  obtain new where new: "foldl push_new (seen, stack) (next_of i) = (new @ seen, new @ stack)"
    "set new = set (next_of i) - set seen" "distinct new"
    using foldl_push_new by blast
  have "set (next_of i) \<subseteq> N" using "3.prems"(2,4,5) by auto
  then have sub: "set (new @ seen) \<subseteq> N" using "3.prems"(4) new(2) by auto
  have d: "distinct (new @ seen)" using "3.prems"(3) new by auto
  have "length (new @ seen) \<le> card N" using sub d "3.prems"(1) by (metis card_mono distinct_card)
  then have le: "card N - length (new @ seen) + length (new @ stack) \<le> fuel" using "3.prems"(6) by simp
  have "set (new @ stack) \<subseteq> set (new @ seen)" using "3.prems"(5) by auto
  from "3.IH" [OF new(1) [symmetric] "3.prems"(1,2) d sub this le] new(1) show ?case by simp
qed auto

lemma explore_closed:
  "explore next_of fuel seen stack = Some r \<Longrightarrow> set stack \<subseteq> set seen \<Longrightarrow>
   \<forall>i \<in> set seen - set stack. set (next_of i) \<subseteq> set seen \<Longrightarrow>
   set seen \<subseteq> set r \<and> (\<forall>i \<in> set r. set (next_of i) \<subseteq> set r) \<and> set r \<subseteq> (next_rel next_of)\<^sup>* `` set seen"
proof (induction next_of fuel seen stack rule: explore.induct)
  case (3 next_of fuel seen i stack)
  obtain new where new: "foldl push_new (seen, stack) (next_of i) = (new @ seen, new @ stack)"
    "set new = set (next_of i) - set seen" "distinct new"
    using foldl_push_new by blast
  have ih: "set (new @ seen) \<subseteq> set r \<and> (\<forall>i \<in> set r. set (next_of i) \<subseteq> set r)
      \<and> set r \<subseteq> (next_rel next_of)\<^sup>* `` set (new @ seen)"
    using "3.prems" new by (intro "3.IH" [OF new(1) [symmetric]]) auto
  have i: "i \<in> set seen" using "3.prems"(2) by simp
  have "(next_rel next_of)\<^sup>* `` set (new @ seen) \<subseteq> (next_rel next_of)\<^sup>* `` set seen"
  proof
    fix j assume "j \<in> (next_rel next_of)\<^sup>* `` set (new @ seen)"
    then obtain k where k: "k \<in> set new \<or> k \<in> set seen" and kj: "(k, j) \<in> (next_rel next_of)\<^sup>*" by auto
    have "k \<in> set seen \<or> (i, k) \<in> next_rel next_of" using k new(2) by (auto simp: next_rel_def)
    with kj i show "j \<in> (next_rel next_of)\<^sup>* `` set seen" by (auto intro: converse_rtrancl_into_rtrancl)
  qed
  with ih show ?case by auto
qed auto

lemma explore_reaches:
  assumes N: "finite N" "\<forall>i \<in> N. set (next_of i) \<subseteq> N" "s \<in> N" and fuel: "card N \<le> fuel"
  shows "\<exists>r. explore next_of fuel [s] [s] = Some r \<and> distinct r \<and> set r = (next_rel next_of)\<^sup>* `` {s}"
proof -
  have "0 < card N" using N by (auto simp: card_gt_0_iff)
  then obtain r where r: "explore next_of fuel [s] [s] = Some r" "distinct r"
    using explore_total [OF N(1,2), of "[s]" "[s]" fuel] N(3) fuel by auto
  have c: "s \<in> set r" "\<forall>i \<in> set r. set (next_of i) \<subseteq> set r" "set r \<subseteq> (next_rel next_of)\<^sup>* `` {s}"
    using explore_closed [OF r(1)] by auto
  have "j \<in> set r" if "(s, j) \<in> (next_rel next_of)\<^sup>*" for j
    using that by (induction rule: rtrancl_induct) (use c in \<open>auto simp: next_rel_def\<close>)
  with c(3) r show ?thesis by (intro exI [of _ r]) auto
qed

section \<open>Edges between slots\<close>

definition slot_edges :: "graph \<Rightarrow> (nat \<times> nat) set" where
  "slot_edges g = {(i, j). table_kind (outgoing g) i j \<noteq> None}"

lemma slot_edges_less:
  assumes g: "graph_ok g" and e: "(i, j) \<in> slot_edges g"
  shows "i < length (nodes g)" "j < length (nodes g)" "i \<noteq> j" "slot g i \<noteq> None" "slot g j \<noteq> None"
  using edge_ends [OF g, of i j] e slot_Some_less [of g] by (auto simp: slot_edges_def)

lemma parents_set: "graph_ok g \<Longrightarrow> i < length (nodes g) \<Longrightarrow> set (mkeys (incoming g ! i)) = {p. (p, i) \<in> slot_edges g}"
  using adjacent_slots(2) [of g i] by (simp add: sortedAdjacent_def slot_edges_def)

lemma children_set: "graph_ok g \<Longrightarrow> i < length (nodes g) \<Longrightarrow> set (mkeys (outgoing g ! i)) = {c. (i, c) \<in> slot_edges g}"
  using adjacent_slots(1) [of g i] by (simp add: sortedAdjacent_def slot_edges_def)

lemma reverseReachable_set:
  assumes g: "graph_ok g" and t: "t < length (nodes g)"
  shows "\<exists>r. reverseReachable g t = Some r \<and> distinct r \<and> set r = {i. (i, t) \<in> (slot_edges g)\<^sup>*}"
proof -
  let ?next = "\<lambda>i. mkeys (incoming g ! i)" and ?N = "{..<length (nodes g)}"
  have sub: "\<forall>i \<in> ?N. set (?next i) \<subseteq> ?N" using parents_set [OF g] slot_edges_less [OF g] by blast
  obtain r where r: "reverseReachable g t = Some r" "distinct r" "set r = (next_rel ?next)\<^sup>* `` {t}"
    using explore_reaches [of ?N ?next t "length (nodes g)"] sub t by (auto simp: reverseReachable_def)
  have "(t, i) \<in> (next_rel ?next)\<^sup>* \<longleftrightarrow> (i, t) \<in> (slot_edges g)\<^sup>*" for i
  proof
    assume "(t, i) \<in> (next_rel ?next)\<^sup>*"
    then have "(i, t) \<in> (slot_edges g)\<^sup>* \<and> i < length (nodes g)"
    proof (induction rule: rtrancl_induct)
      case (step y z)
      then have "(z, y) \<in> slot_edges g" using parents_set [OF g] by (auto simp: next_rel_def)
      with step show ?case using slot_edges_less [OF g] by (auto intro: converse_rtrancl_into_rtrancl)
    qed (use t in simp)
    then show "(i, t) \<in> (slot_edges g)\<^sup>*" ..
  next
    assume "(i, t) \<in> (slot_edges g)\<^sup>*"
    then show "(t, i) \<in> (next_rel ?next)\<^sup>*"
    proof (induction rule: converse_rtrancl_induct)
      case (step y z)
      then have "(z, y) \<in> next_rel ?next"
        using parents_set [OF g, of z] slot_edges_less [OF g, of y z] by (simp add: next_rel_def)
      with step show ?case by (auto intro: rtrancl_into_rtrancl)
    qed simp
  qed
  with r show ?thesis by auto
qed

section \<open>What the path search collects\<close>

lemma those_all:
  "\<forall>x \<in> set xs. \<exists>y. f x = Some y \<and> P x y \<Longrightarrow> \<exists>ys. those (map f xs) = Some ys \<and> list_all2 P xs ys"
  by (induction xs) auto

lemma list_all2_sets: "list_all2 (\<lambda>x y. set y = T x) xs ys \<Longrightarrow> set (concat ys) = (\<Union>x \<in> set xs. T x)"
  by (induction rule: list_all2_induct) auto

text \<open>The walks from a slot that repeat no slot and avoid the slots of \<open>A\<close>.\<close>

definition walks :: "graph \<Rightarrow> nat set \<Rightarrow> nat \<Rightarrow> nat list set" where
  "walks g A c = {q. q \<noteq> [] \<and> hd q = c \<and> successively (\<lambda>a b. (a, b) \<in> slot_edges g) q \<and> distinct q \<and> set q \<inter> A = {}}"

definition collected :: "graph \<Rightarrow> nat \<Rightarrow> nat list \<Rightarrow> nat set \<Rightarrow> nat \<Rightarrow> graph_path set" where
  "collected g t stack A c =
     (\<lambda>q. buildPath g (stack @ q) False []) ` {q \<in> walks g A c. last q = t}
     \<union> (\<lambda>q. buildPath g (stack @ q @ [t]) True (NodeID (node_at g t)))
         ` {q \<in> walks g A c. t \<in> A \<union> set q \<and> (last q, t) \<in> slot_edges g}"

lemma walks_blocked: "c \<in> A \<Longrightarrow> walks g A c = {}"
  by (auto simp: walks_def) (metis hd_in_set IntI empty_iff)

lemma walks_step:
  assumes "c \<notin> A"
  shows "walks g A c = insert [c] (\<Union>d \<in> {d. (c, d) \<in> slot_edges g}. (#) c ` walks g (insert c A) d)"
proof (intro set_eqI iffI)
  fix q assume q: "q \<in> walks g A c"
  then obtain q' where q': "q = c # q'" by (cases q) (auto simp: walks_def)
  show "q \<in> insert [c] (\<Union>d \<in> {d. (c, d) \<in> slot_edges g}. (#) c ` walks g (insert c A) d)"
  proof (cases q')
    case (Cons d r)
    then have "q' \<in> walks g (insert c A) d" "(c, d) \<in> slot_edges g" using q q' by (auto simp: walks_def)
    then show ?thesis using q' by auto
  qed (simp add: q')
next
  fix q assume "q \<in> insert [c] (\<Union>d \<in> {d. (c, d) \<in> slot_edges g}. (#) c ` walks g (insert c A) d)"
  then show "q \<in> walks g A c"
    using assms by (auto simp: walks_def successively_Cons)
qed

lemma walk_reaches: "q \<in> walks g A c \<Longrightarrow> (c, last q) \<in> (slot_edges g)\<^sup>*"
proof (induction q arbitrary: A c)
  case (Cons a q)
  show ?case
  proof (cases "q = []")
    case True
    then show ?thesis using Cons.prems by (simp add: walks_def)
  next
    case False
    then have "q \<in> walks g (insert a A) (hd q)" "(a, hd q) \<in> slot_edges g" "a = c"
      using Cons.prems by (auto simp: walks_def successively_Cons)
    then show ?thesis using Cons.IH [of "insert a A" "hd q"] False by (auto intro: converse_rtrancl_into_rtrancl)
  qed
qed (simp add: walks_def)

lemma collected_irrelevant: "(c, t) \<notin> (slot_edges g)\<^sup>* \<Longrightarrow> collected g t stack A c = {}"
  using walk_reaches [of _ g A c] by (auto simp: collected_def dest: rtrancl_into_rtrancl)

lemma collected_blocked: "c \<in> A \<Longrightarrow> collected g t stack A c = {}"
  by (simp add: collected_def walks_blocked)

lemma collected_step:
  assumes "c \<notin> A"
  shows "collected g t stack A c = (if c = t then {buildPath g (stack @ [c]) False []} else {})
    \<union> (\<Union>d \<in> {d. (c, d) \<in> slot_edges g}.
        (if d = t \<and> t \<in> insert c A then {buildPath g ((stack @ [c]) @ [t]) True (NodeID (node_at g t))} else {})
        \<union> collected g t (stack @ [c]) (insert c A) d)"
proof -
  have split: "{q \<in> walks g A c. P q} = (if P [c] then {[c]} else {})
      \<union> (\<Union>d \<in> {d. (c, d) \<in> slot_edges g}. (#) c ` {q \<in> walks g (insert c A) d. P (c # q)})" for P
    unfolding walks_step [OF assms] by auto
  have ne: "q \<noteq> []" if "q \<in> walks g A' d" for q A' d using that by (simp add: walks_def)
  let ?E = "slot_edges g" and ?D = "{d. (c, d) \<in> slot_edges g}" and ?z = "buildPath g (stack @ [c] @ [t]) True (NodeID (node_at g t))"
  let ?f = "\<lambda>q. buildPath g (stack @ q) False []" and ?h = "\<lambda>q. buildPath g (stack @ q @ [t]) True (NodeID (node_at g t))"
  have plain: "{q \<in> walks g (insert c A) d. last (c # q) = t} = {q \<in> walks g (insert c A) d. last q = t}" for d
    using ne by auto
  have cyc: "{q \<in> walks g (insert c A) d. t \<in> A \<union> set (c # q) \<and> (last (c # q), t) \<in> ?E}
      = {q \<in> walks g (insert c A) d. t \<in> insert c A \<union> set q \<and> (last q, t) \<in> ?E}" for d
    using ne by auto
  have 1: "?f ` {q \<in> walks g A c. last q = t} = (if c = t then {?f [c]} else {})
      \<union> (\<Union>d \<in> ?D. (\<lambda>q. ?f (c # q)) ` {q \<in> walks g (insert c A) d. last q = t})"
    unfolding split [of "\<lambda>q. last q = t"] plain image_Un image_UN image_image by simp
  have 2: "?h ` {q \<in> walks g A c. t \<in> A \<union> set q \<and> (last q, t) \<in> ?E} = (\<Union>d \<in> ?D. if d = t \<and> t \<in> insert c A then {?z} else {})
      \<union> (\<Union>d \<in> ?D. (\<lambda>q. ?h (c # q)) ` {q \<in> walks g (insert c A) d. t \<in> insert c A \<union> set q \<and> (last q, t) \<in> ?E})"
    unfolding split [of "\<lambda>q. t \<in> A \<union> set q \<and> (last q, t) \<in> ?E"] cyc image_Un image_UN image_image by auto
  show ?thesis
    unfolding collected_def 1 2 UN_Un_distrib by (simp only: append.assoc append_Cons append_Nil) blast
qed

lemma collectPathsTo_spec:
  assumes g: "graph_ok g" and rel: "set relevant = {i. (i, t) \<in> (slot_edges g)\<^sup>*}"
  shows "distinct active \<Longrightarrow> set active \<subseteq> {..<length (nodes g)} \<Longrightarrow> c < length (nodes g) \<Longrightarrow>
    Suc (length (nodes g)) \<le> fuel + length active \<Longrightarrow>
    \<exists>ps. collectPathsTo g fuel c t relevant stack active = Some ps \<and> set ps = collected g t stack (set active) c"
proof (induction fuel arbitrary: c stack active)
  case 0
  have "length active \<le> length (nodes g)" using 0(1,2) by (metis card_lessThan card_mono distinct_card finite_lessThan)
  with 0 show ?case by simp
next
  case (Suc fuel)
  show ?case
  proof (cases "c \<notin> set relevant \<or> c \<in> set active")
    case True
    then have "collected g t stack (set active) c = {}"
      using collected_irrelevant collected_blocked rel by auto
    then show ?thesis using True by simp
  next
    case False
    let ?f = "\<lambda>child. if child \<notin> set relevant then Some []
         else if child \<in> set (c # active)
         then (if child = t then Some [buildPath g ((stack @ [c]) @ [child]) True (NodeID (node_at g child))] else Some [])
         else collectPathsTo g fuel child t relevant (stack @ [c]) (c # active)"
    let ?T = "\<lambda>d. (if d = t \<and> t \<in> insert c (set active) then {buildPath g ((stack @ [c]) @ [t]) True (NodeID (node_at g t))} else {})
        \<union> collected g t (stack @ [c]) (insert c (set active)) d"
    have kids: "set (sortedAdjacent g (outgoing g ! c)) = {d. (c, d) \<in> slot_edges g}"
      using adjacent_slots(1) [OF g Suc.prems(3)] by (simp add: slot_edges_def)
    have "\<exists>ys. ?f d = Some ys \<and> set ys = ?T d" if d: "d \<in> set (sortedAdjacent g (outgoing g ! c))" for d
    proof (cases "d \<notin> set relevant")
      case True
      then have "d \<noteq> t" "collected g t (stack @ [c]) (insert c (set active)) d = {}"
        using rel collected_irrelevant by auto
      then show ?thesis using True by simp
    next
      case rel_d: False
      show ?thesis
      proof (cases "d \<in> set (c # active)")
        case True
        then show ?thesis using rel_d by (auto simp: collected_blocked)
      next
        case False
        have "\<exists>ps. collectPathsTo g fuel d t relevant (stack @ [c]) (c # active) = Some ps
            \<and> set ps = collected g t (stack @ [c]) (set (c # active)) d"
          using Suc.prems \<open>\<not> (c \<notin> set relevant \<or> c \<in> set active)\<close> d kids slot_edges_less [OF g, of c d]
          by (intro Suc.IH) auto
        then show ?thesis using False rel_d by auto
      qed
    qed
    then obtain ys where ys: "those (map ?f (sortedAdjacent g (outgoing g ! c))) = Some ys"
      and ya: "list_all2 (\<lambda>d y. set y = ?T d) (sortedAdjacent g (outgoing g ! c)) ys"
      using those_all [of "sortedAdjacent g (outgoing g ! c)" ?f "\<lambda>d y. set y = ?T d"] by blast
    have "set (concat ys) = (\<Union>d \<in> {d. (c, d) \<in> slot_edges g}. ?T d)"
      unfolding list_all2_sets [OF ya] kids ..
    moreover have "collectPathsTo g (Suc fuel) c t relevant stack active
        = Some ((if c = t then [buildPath g (stack @ [c]) False []] else []) @ concat ys)"
      using False ys by (simp only: collectPathsTo.simps Let_def) simp
    moreover have "c \<notin> set active" using False by simp
    ultimately show ?thesis using collected_step [of c "set active" g t stack] by (cases "c = t") simp_all
  qed
qed

section \<open>Walks by ID\<close>

definition id_edges :: "graph \<Rightarrow> (string \<times> string) set" where
  "id_edges g = {(x, y). edge_of g x y \<noteq> None}"

definition graph_walk :: "graph \<Rightarrow> graph_node list \<Rightarrow> bool" where
  "graph_walk g ns \<longleftrightarrow> ns \<noteq> [] \<and> (\<forall>n \<in> set ns. Node g (NodeID n) = Some n) \<and> distinct ns
     \<and> successively (\<lambda>m n. edge_of g (NodeID m) (NodeID n) \<noteq> None) ns"

text \<open>Where the paths to \<open>x\<close> start: at the ancestors without a parent, or anywhere when there are none.\<close>

definition path_start :: "graph \<Rightarrow> string \<Rightarrow> string \<Rightarrow> bool" where
  "path_start g x y \<longleftrightarrow>
     ((\<exists>r. Node g r \<noteq> None \<and> (r, x) \<in> (id_edges g)\<^sup>* \<and> (\<forall>p. edge_of g p r = None)) \<longrightarrow> (\<forall>p. edge_of g p y = None))"

abbreviation slot_id :: "graph \<Rightarrow> nat \<Rightarrow> string" where
  "slot_id g i \<equiv> NodeID (node_at g i)"

lemma slot_node: "graph_ok g \<Longrightarrow> slot g i \<noteq> None \<Longrightarrow> slot g i = Some (node_at g i) \<and> Node g (slot_id g i) = Some (node_at g i)"
  using slot_ids [of g i] Node_self [of g "node_at g i"] by auto

lemma slot_edge_ids:
  "graph_ok g \<Longrightarrow> slot g i \<noteq> None \<Longrightarrow> slot g j \<noteq> None \<Longrightarrow> (i, j) \<in> slot_edges g \<longleftrightarrow> edge_of g (slot_id g i) (slot_id g j) \<noteq> None"
  using slot_node [of g i] slot_node [of g j] edge_of_ids [of g i "node_at g i" j "node_at g j"] by (simp add: slot_edges_def)

lemma id_slot:
  assumes g: "graph_ok g" and "Node g x = Some n"
  shows "\<exists>i. slot g i = Some n \<and> node_at g i = n \<and> slot_id g i = x"
  using assms slot_ids [OF g] Node_id [OF g] by (auto simp: Node_Some [OF g])

lemma slot_edges_ids_rtrancl:
  assumes g: "graph_ok g" and i: "slot g i \<noteq> None"
  shows "(i, j) \<in> (slot_edges g)\<^sup>* \<longleftrightarrow> slot g j \<noteq> None \<and> (slot_id g i, slot_id g j) \<in> (id_edges g)\<^sup>*"
proof
  assume "(i, j) \<in> (slot_edges g)\<^sup>*"
  then show "slot g j \<noteq> None \<and> (slot_id g i, slot_id g j) \<in> (id_edges g)\<^sup>*"
  proof (induction rule: rtrancl_induct)
    case (step y z)
    then have "slot g z \<noteq> None" using slot_edges_less(5) [OF g] by blast
    with step have "(slot_id g y, slot_id g z) \<in> id_edges g" using slot_edge_ids [OF g, of y z] by (simp add: id_edges_def)
    with step \<open>slot g z \<noteq> None\<close> show ?case by (auto intro: rtrancl_into_rtrancl)
  qed (use i in simp)
next
  assume "slot g j \<noteq> None \<and> (slot_id g i, slot_id g j) \<in> (id_edges g)\<^sup>*"
  then have j: "slot g j \<noteq> None" and "(slot_id g i, slot_id g j) \<in> (id_edges g)\<^sup>*" by auto
  from this(2) have "\<exists>k. slot g k \<noteq> None \<and> slot_id g k = slot_id g j \<and> (i, k) \<in> (slot_edges g)\<^sup>*"
  proof (induction rule: rtrancl_induct)
    case (step y z)
    then obtain k where k: "slot g k \<noteq> None" "slot_id g k = y" "(i, k) \<in> (slot_edges g)\<^sup>*" by blast
    have e: "edge_of g y z \<noteq> None" using step by (simp add: id_edges_def)
    then obtain m where m: "Node g z = Some m" using edge_of_nodes [OF g] by blast
    obtain l where l: "slot g l = Some m" "slot_id g l = z" using id_slot [OF g m] by blast
    then have "(k, l) \<in> slot_edges g" using slot_edge_ids [OF g k(1), of l] k(2) e by simp
    then show ?case using k l by (intro exI [of _ l]) (auto intro: rtrancl_into_rtrancl)
  qed (use i in auto)
  then show "(i, j) \<in> (slot_edges g)\<^sup>*" using node_ids_inj [OF g _ j] by blast
qed

lemma graph_walk_slots:
  assumes g: "graph_ok g" and live: "\<forall>i \<in> set q. slot g i \<noteq> None"
  shows "graph_walk g (map (node_at g) q) \<longleftrightarrow> q \<noteq> [] \<and> distinct q \<and> successively (\<lambda>a b. (a, b) \<in> slot_edges g) q"
proof -
  have "inj_on (node_at g) (set q)" using node_ids_inj [OF g] live by (intro inj_onI) auto
  moreover have "successively (\<lambda>m n. edge_of g (NodeID m) (NodeID n) \<noteq> None) (map (node_at g) q)
      \<longleftrightarrow> successively (\<lambda>a b. (a, b) \<in> slot_edges g) q"
    unfolding successively_map using live slot_edge_ids [OF g] by (intro successively_cong) auto
  moreover have "\<forall>n \<in> set (map (node_at g) q). Node g (NodeID n) = Some n" using live slot_node [OF g] by auto
  ultimately show ?thesis by (simp add: graph_walk_def distinct_map)
qed

lemma graph_walk_as_slots:
  assumes g: "graph_ok g" and ns: "\<forall>n \<in> set ns. Node g (NodeID n) = Some n"
  shows "\<exists>q. ns = map (node_at g) q \<and> (\<forall>i \<in> set q. slot g i \<noteq> None)"
  using ns
proof (induction ns)
  case (Cons n ns)
  then obtain q where q: "ns = map (node_at g) q" "\<forall>i \<in> set q. slot g i \<noteq> None" by auto
  obtain i where "slot g i = Some n" "node_at g i = n" using id_slot [OF g, of "NodeID n" n] Cons.prems by auto
  with q show ?case by (intro exI [of _ "i # q"]) simp
qed simp

lemma walk_members: "q \<in> walks g A c \<Longrightarrow> i \<in> set q \<Longrightarrow> (c, i) \<in> (slot_edges g)\<^sup>*"
proof (induction q arbitrary: A c)
  case (Cons a q)
  have a: "a = c" using Cons.prems(1) by (simp add: walks_def)
  show ?case
  proof (cases "i = a")
    case False
    then have i: "i \<in> set q" using Cons.prems(2) by simp
    then have "q \<noteq> []" by auto
    then have "q \<in> walks g (insert a A) (hd q)" "(a, hd q) \<in> slot_edges g"
      using Cons.prems by (auto simp: walks_def successively_Cons)
    then show ?thesis using Cons.IH [of "insert a A" "hd q"] i a by (auto intro: converse_rtrancl_into_rtrancl)
  qed (simp add: a)
qed simp

lemma walks_live: "graph_ok g \<Longrightarrow> slot g c \<noteq> None \<Longrightarrow> q \<in> walks g A c \<Longrightarrow> \<forall>i \<in> set q. slot g i \<noteq> None"
  using walk_members slot_edges_ids_rtrancl by blast

section \<open>The starts\<close>

lemma starts_set:
  assumes g: "graph_ok g" and t: "slot g t \<noteq> None" and rel: "set relevant = {i. (i, t) \<in> (slot_edges g)\<^sup>*}"
  shows "set (if relevantRoots g relevant = [] then sortedRelevantIndices g relevant else relevantRoots g relevant)
    = {c. slot g c \<noteq> None \<and> (c, t) \<in> (slot_edges g)\<^sup>* \<and> path_start g (slot_id g t) (slot_id g c)}"
proof -
  have live: "slot g i \<noteq> None" if "(i, t) \<in> (slot_edges g)\<^sup>*" for i
    using that
  proof (cases rule: converse_rtranclE)
    case (step j)
    then show ?thesis using slot_edges_less(4) [OF g] by blast
  qed (use t in simp)
  have orphan: "(\<forall>p. (p, i) \<notin> slot_edges g) \<longleftrightarrow> (\<forall>p. edge_of g p (slot_id g i) = None)" if i: "slot g i \<noteq> None" for i
  proof
    assume no: "\<forall>p. (p, i) \<notin> slot_edges g"
    show "\<forall>p. edge_of g p (slot_id g i) = None"
    proof (rule allI, rule ccontr)
      fix p assume e: "edge_of g p (slot_id g i) \<noteq> None"
      then obtain m where "Node g p = Some m" using edge_of_nodes [OF g] by blast
      then obtain k where "slot g k = Some m" "slot_id g k = p" using id_slot [OF g] by blast
      then show False using slot_edge_ids [OF g _ i, of k] e no by auto
    qed
  next
    assume "\<forall>p. edge_of g p (slot_id g i) = None"
    then show "\<forall>p. (p, i) \<notin> slot_edges g" using slot_edge_ids [OF g _ i] slot_edges_less(4) [OF g] by blast
  qed
  have roots: "set (relevantRoots g relevant) = {i. (i, t) \<in> (slot_edges g)\<^sup>* \<and> (\<forall>p. edge_of g p (slot_id g i) = None)}"
  proof -
    have "(\<forall>p \<in> set (mkeys (incoming g ! i)). p \<notin> set relevant) \<longleftrightarrow> (\<forall>p. edge_of g p (slot_id g i) = None)"
      if i: "(i, t) \<in> (slot_edges g)\<^sup>*" for i
    proof -
      have "i < length (nodes g)" using live [OF i] slot_Some_less by blast
      then have "set (mkeys (incoming g ! i)) = {p. (p, i) \<in> slot_edges g}" by (rule parents_set [OF g])
      moreover have "p \<in> set relevant" if "(p, i) \<in> slot_edges g" for p
        using that i rel by (auto intro: converse_rtrancl_into_rtrancl)
      ultimately show ?thesis using orphan [OF live [OF i]] by blast
    qed
    then show ?thesis
      by (auto simp: relevantRoots_def sortedRelevantIndices_def rel list_ex_iff simp del: set_map)
  qed
  have some_root: "(\<exists>r. Node g r \<noteq> None \<and> (r, slot_id g t) \<in> (id_edges g)\<^sup>* \<and> (\<forall>p. edge_of g p r = None))
      \<longleftrightarrow> relevantRoots g relevant \<noteq> []"
  proof
    assume "\<exists>r. Node g r \<noteq> None \<and> (r, slot_id g t) \<in> (id_edges g)\<^sup>* \<and> (\<forall>p. edge_of g p r = None)"
    then obtain r m where r: "Node g r = Some m" "(r, slot_id g t) \<in> (id_edges g)\<^sup>*" "\<forall>p. edge_of g p r = None" by blast
    obtain i where i: "slot g i = Some m" "slot_id g i = r" using id_slot [OF g r(1)] by blast
    then have "(i, t) \<in> (slot_edges g)\<^sup>*" using slot_edges_ids_rtrancl [OF g, of i t] r(2) t by simp
    then have "i \<in> set (relevantRoots g relevant)" using roots i r(3) by simp
    then show "relevantRoots g relevant \<noteq> []" by auto
  next
    assume "relevantRoots g relevant \<noteq> []"
    then obtain i where i: "(i, t) \<in> (slot_edges g)\<^sup>*" "\<forall>p. edge_of g p (slot_id g i) = None"
      using roots by (metis (mono_tags, lifting) list.set_sel(1) mem_Collect_eq)
    then show "\<exists>r. Node g r \<noteq> None \<and> (r, slot_id g t) \<in> (id_edges g)\<^sup>* \<and> (\<forall>p. edge_of g p r = None)"
      using slot_node [OF g live [OF i(1)]] slot_edges_ids_rtrancl [OF g live [OF i(1)], of t]
      by (intro exI [of _ "slot_id g i"]) simp
  qed
  show ?thesis
  proof (cases "relevantRoots g relevant = []")
    case True
    then show ?thesis using live some_root by (auto simp: sortedRelevantIndices_def rel path_start_def)
  next
    case False
    then show ?thesis using live some_root roots by (auto simp: path_start_def)
  qed
qed

lemma collected_nodes:
  assumes g: "graph_ok g" and t: "slot g t = Some n" and c: "slot g c \<noteq> None" "(c, t) \<in> (slot_edges g)\<^sup>*"
  shows "p \<in> collected g t [] {} c \<longleftrightarrow>
     (\<exists>ns. graph_walk g ns \<and> hd ns = node_at g c \<and> last ns = n \<and> p = \<lparr>PathNodes = ns, Cyclic = False, CycleTo = []\<rparr>)
   \<or> (\<exists>ns. graph_walk g ns \<and> hd ns = node_at g c \<and> n \<in> set ns \<and> edge_of g (NodeID (last ns)) (NodeID n) \<noteq> None
         \<and> p = \<lparr>PathNodes = ns @ [n], Cyclic = True, CycleTo = NodeID n\<rparr>)" (is "_ \<longleftrightarrow> ?plain \<or> ?cyc")
proof -
  have n: "node_at g t = n" using slot_ids [OF g t] by simp
  have eq: "i = j" if "slot g i \<noteq> None" "slot g j \<noteq> None" "node_at g i = node_at g j" for i j
    using node_ids_inj [OF g] that by simp
  have to_q: "\<exists>q. ns = map (node_at g) q \<and> q \<in> walks g {} c \<and> (\<forall>i \<in> set q. slot g i \<noteq> None)"
    if w: "graph_walk g ns" "hd ns = node_at g c" for ns
  proof -
    obtain q where q: "ns = map (node_at g) q" "\<forall>i \<in> set q. slot g i \<noteq> None"
      using graph_walk_as_slots [OF g, of ns] w(1) by (auto simp: graph_walk_def)
    then have r: "q \<noteq> []" "distinct q" "successively (\<lambda>a b. (a, b) \<in> slot_edges g) q"
      using graph_walk_slots [OF g q(2)] w(1) by auto
    then have "hd q = c" using w(2) q c(1) eq [of "hd q" c] by (simp add: hd_map)
    with q r show ?thesis by (auto simp: walks_def)
  qed
  have from_q: "graph_walk g (map (node_at g) q) \<and> hd (map (node_at g) q) = node_at g c
      \<and> last (map (node_at g) q) = node_at g (last q) \<and> q \<noteq> [] \<and> (\<forall>i \<in> set q. slot g i \<noteq> None)"
    if q: "q \<in> walks g {} c" for q
    using graph_walk_slots [OF g walks_live [OF g c(1) q]] walks_live [OF g c(1) q] q
    by (auto simp: walks_def hd_map last_map)
  have tl: "slot g t \<noteq> None" using t by simp
  have "p \<in> (\<lambda>q. buildPath g ([] @ q) False []) ` {q \<in> walks g {} c. last q = t} \<longleftrightarrow> ?plain"
  proof
    assume "p \<in> (\<lambda>q. buildPath g ([] @ q) False []) ` {q \<in> walks g {} c. last q = t}"
    then obtain q where "q \<in> walks g {} c" "last q = t" "p = buildPath g q False []" by auto
    then show ?plain using from_q n by (intro exI [of _ "map (node_at g) q"]) (auto simp: buildPath_def)
  next
    assume ?plain
    then obtain ns where ns: "graph_walk g ns" "hd ns = node_at g c" "last ns = n" "p = \<lparr>PathNodes = ns, Cyclic = False, CycleTo = []\<rparr>" by blast
    obtain q where q: "ns = map (node_at g) q" "q \<in> walks g {} c" "\<forall>i \<in> set q. slot g i \<noteq> None" using to_q [OF ns(1,2)] by blast
    have "last q = t" using ns(3) q n from_q [OF q(2)] eq [of "last q" t] tl by simp
    then show "p \<in> (\<lambda>q. buildPath g ([] @ q) False []) ` {q \<in> walks g {} c. last q = t}"
      using q ns(4) by (auto simp: buildPath_def)
  qed
  moreover have "p \<in> (\<lambda>q. buildPath g ([] @ q @ [t]) True (NodeID (node_at g t))) ` {q \<in> walks g {} c. t \<in> {} \<union> set q \<and> (last q, t) \<in> slot_edges g}
      \<longleftrightarrow> ?cyc"
  proof
    assume "p \<in> (\<lambda>q. buildPath g ([] @ q @ [t]) True (NodeID (node_at g t))) ` {q \<in> walks g {} c. t \<in> {} \<union> set q \<and> (last q, t) \<in> slot_edges g}"
    then obtain q where q: "q \<in> walks g {} c" "t \<in> set q" "(last q, t) \<in> slot_edges g"
      and p: "p = buildPath g (q @ [t]) True (NodeID (node_at g t))" by auto
    have "edge_of g (NodeID (node_at g (last q))) (NodeID n) \<noteq> None"
      using slot_edge_ids [OF g _ tl, of "last q"] slot_edges_less(4) [OF g q(3)] q(3) n by simp
    then show ?cyc using from_q [OF q(1)] q(2) n p
      by (intro exI [of _ "map (node_at g) q"]) (auto simp: buildPath_def)
  next
    assume ?cyc
    then obtain ns where ns: "graph_walk g ns" "hd ns = node_at g c" "n \<in> set ns" "edge_of g (NodeID (last ns)) (NodeID n) \<noteq> None"
      "p = \<lparr>PathNodes = ns @ [n], Cyclic = True, CycleTo = NodeID n\<rparr>" by blast
    obtain q where q: "ns = map (node_at g) q" "q \<in> walks g {} c" "\<forall>i \<in> set q. slot g i \<noteq> None" using to_q [OF ns(1,2)] by blast
    have lq: "slot g (last q) \<noteq> None" "last ns = node_at g (last q)" using from_q [OF q(2)] q by auto
    obtain x where "x \<in> set q" "node_at g x = n" using ns(3) q(1) by auto
    then have "t \<in> set q" using eq [of x t] q(3) tl n by auto
    moreover have "(last q, t) \<in> slot_edges g" using slot_edge_ids [OF g lq(1) tl] ns(4) lq(2) n by simp
    ultimately show "p \<in> (\<lambda>q. buildPath g ([] @ q @ [t]) True (NodeID (node_at g t))) ` {q \<in> walks g {} c. t \<in> {} \<union> set q \<and> (last q, t) \<in> slot_edges g}"
      using q ns(5) n by (auto simp: buildPath_def)
  qed
  ultimately show ?thesis by (simp only: collected_def Un_iff)
qed

text \<open>The paths to node \<open>n\<close>: the walks that end there, and those that pass through it and then step back to it.\<close>

definition path_to :: "graph \<Rightarrow> graph_node \<Rightarrow> graph_path \<Rightarrow> bool" where
  "path_to g n p \<longleftrightarrow> (\<exists>ns. graph_walk g ns \<and> path_start g (NodeID n) (NodeID (hd ns))
     \<and> (last ns = n \<and> p = \<lparr>PathNodes = ns, Cyclic = False, CycleTo = []\<rparr>
        \<or> n \<in> set ns \<and> edge_of g (NodeID (last ns)) (NodeID n) \<noteq> None
          \<and> p = \<lparr>PathNodes = ns @ [n], Cyclic = True, CycleTo = NodeID n\<rparr>))"

lemma graph_walk_reaches: "graph_walk g ns \<Longrightarrow> m \<in> set ns \<Longrightarrow> (NodeID (hd ns), NodeID m) \<in> (id_edges g)\<^sup>*"
proof (induction ns)
  case (Cons n ns)
  show ?case
  proof (cases "m = n")
    case False
    then have m: "m \<in> set ns" using Cons.prems(2) by simp
    then have "ns \<noteq> []" by auto
    then have "graph_walk g ns" "(NodeID n, NodeID (hd ns)) \<in> id_edges g"
      using Cons.prems(1) by (auto simp: graph_walk_def successively_Cons id_edges_def)
    with Cons.IH m show ?thesis by (auto intro: converse_rtrancl_into_rtrancl)
  qed simp
qed simp

lemma path_to_collected:
  assumes g: "graph_ok g" and t: "slot g t = Some n"
    and S: "S = {c. slot g c \<noteq> None \<and> (c, t) \<in> (slot_edges g)\<^sup>* \<and> path_start g (slot_id g t) (slot_id g c)}"
  shows "(\<exists>c \<in> S. p \<in> collected g t [] {} c) \<longleftrightarrow> path_to g n p"
proof
  have n: "slot_id g t = NodeID n" using slot_ids [OF g t] by simp
  {
    assume "\<exists>c \<in> S. p \<in> collected g t [] {} c"
    then obtain c where c: "c \<in> S" "p \<in> collected g t [] {} c" by blast
    then have "slot g c \<noteq> None" "(c, t) \<in> (slot_edges g)\<^sup>*" "path_start g (NodeID n) (slot_id g c)"
      using S n by simp_all
    with c(2) collected_nodes [OF g t, of c p] show "path_to g n p" unfolding path_to_def by auto
  }
  assume "path_to g n p"
  then obtain ns where w: "graph_walk g ns" "path_start g (NodeID n) (NodeID (hd ns))" "n \<in> set ns"
    and p: "last ns = n \<and> p = \<lparr>PathNodes = ns, Cyclic = False, CycleTo = []\<rparr>
        \<or> n \<in> set ns \<and> edge_of g (NodeID (last ns)) (NodeID n) \<noteq> None
          \<and> p = \<lparr>PathNodes = ns @ [n], Cyclic = True, CycleTo = NodeID n\<rparr>"
    unfolding path_to_def by (metis graph_walk_def last_in_set)
  then have "Node g (NodeID (hd ns)) = Some (hd ns)" by (simp add: graph_walk_def)
  then obtain c where c: "slot g c = Some (hd ns)" "node_at g c = hd ns" using id_slot [OF g] by blast
  have r: "(c, t) \<in> (slot_edges g)\<^sup>*"
    using slot_edges_ids_rtrancl [OF g, of c t] graph_walk_reaches [OF w(1,3)] c t n by simp
  then have "c \<in> S" using S c w(2) n by simp
  moreover have "p \<in> collected g t [] {} c"
    using collected_nodes [OF g t _ r, of p] c w(1) p by auto
  ultimately show "\<exists>c \<in> S. p \<in> collected g t [] {} c" by blast
qed

lemma collect_starts:
  assumes g: "graph_ok g" and t: "slot g t = Some n"
  shows "\<exists>relevant found. reverseReachable g t = Some relevant
    \<and> those (map (\<lambda>start. collectPathsTo g (Suc (length (nodes g))) start t relevant [] [])
         (if relevantRoots g relevant = [] then sortedRelevantIndices g relevant else relevantRoots g relevant)) = Some found
    \<and> (\<forall>p. p \<in> set (concat found) \<longleftrightarrow> path_to g n p)"
proof -
  have tl: "slot g t \<noteq> None" "t < length (nodes g)" using t slot_Some_less [OF t] by auto
  obtain rel where rel: "reverseReachable g t = Some rel" "set rel = {i. (i, t) \<in> (slot_edges g)\<^sup>*}"
    using reverseReachable_set [OF g tl(2)] by blast
  let ?starts = "if relevantRoots g rel = [] then sortedRelevantIndices g rel else relevantRoots g rel"
  let ?f = "\<lambda>start. collectPathsTo g (Suc (length (nodes g))) start t rel [] []"
  note starts = starts_set [OF g tl(1) rel(2)]
  have "\<exists>ps. ?f c = Some ps \<and> set ps = collected g t [] {} c" if c: "c \<in> set ?starts" for c
  proof -
    have "c < length (nodes g)" using c unfolding starts using slot_Some_less [of g c] by auto
    then show ?thesis using collectPathsTo_spec [OF g rel(2), of "[]" c "Suc (length (nodes g))" "[]"] by auto
  qed
  then obtain found where found: "those (map ?f ?starts) = Some found"
    "list_all2 (\<lambda>c y. set y = collected g t [] {} c) ?starts found"
    using those_all [of ?starts ?f "\<lambda>c y. set y = collected g t [] {} c"] by blast
  have "set (concat found) = (\<Union>c \<in> set ?starts. collected g t [] {} c)" by (rule list_all2_sets [OF found(2)])
  then have "p \<in> set (concat found) \<longleftrightarrow> path_to g n p" for p
    using path_to_collected [OF g t starts, of p] by blast
  with rel(1) found(1) show ?thesis by blast
qed

text \<open>C7. On a consistent graph \<open>CollectPathsTo\<close> ends and returns, in the order of their keys, exactly
  the dependency paths to the node: every walk without repetition from a root above it, and every
  such walk through it that an edge closes back onto it, marked as cyclic; when no ancestor is a
  root the walks start at any ancestor. An unknown ID is an error.\<close>

theorem CollectPathsTo_spec:
  assumes "graph_ok g"
  shows "(Node g x = None \<longrightarrow> CollectPathsTo g x = Inl (ErrNodeNotFound x))
    \<and> (\<forall>n. Node g x = Some n \<longrightarrow> (\<exists>ps. CollectPathsTo g x = Inr (Some ps)
         \<and> sorted (map (\<lambda>p. pathNodesKey (PathNodes p)) ps) \<and> (\<forall>p. p \<in> set ps \<longleftrightarrow> path_to g n p)))"
proof (intro conjI allI impI)
  assume "Node g x = None"
  then show "CollectPathsTo g x = Inl (ErrNodeNotFound x)"
    by (simp add: CollectPathsTo_def requireIndex_def Node_None [OF assms])
next
  fix n assume "Node g x = Some n"
  then obtain t where t: "mget (indexByID g) x = Some t" "slot g t = Some n" by (auto simp: Node_Some [OF assms])
  obtain rel found where c: "reverseReachable g t = Some rel"
    "those (map (\<lambda>start. collectPathsTo g (Suc (length (nodes g))) start t rel [] [])
         (if relevantRoots g rel = [] then sortedRelevantIndices g rel else relevantRoots g rel)) = Some found"
    "\<forall>p. p \<in> set (concat found) \<longleftrightarrow> path_to g n p"
    using collect_starts [OF assms t(2)] by blast
  show "\<exists>ps. CollectPathsTo g x = Inr (Some ps)
      \<and> sorted (map (\<lambda>p. pathNodesKey (PathNodes p)) ps) \<and> (\<forall>p. p \<in> set ps \<longleftrightarrow> path_to g n p)"
    using c by (intro exI [of _ "sort_key (\<lambda>p. pathNodesKey (PathNodes p)) (concat found)"])
      (simp add: CollectPathsTo_def requireIndex_def t(1) Let_def)
qed

theorem CollectPathsTo_spec_witness:
  "\<exists>ps. CollectPathsTo sample_graph ''b'' = Inr (Some ps)
     \<and> (\<forall>p. p \<in> set ps \<longleftrightarrow> path_to sample_graph (sample_node ''b'') p)"
proof -
  have "Node sample_graph ''b'' = Some (sample_node ''b'')" by code_simp
  then show ?thesis
    using CollectPathsTo_spec [OF reachable_graph_ok [OF sample_graph_reachable], of "''b''"] by blast
qed

section \<open>The order that the heap yields\<close>

lemma release_pair [simp]:
  "release (deg, ready) c = (let d = deg[c := deg ! c - 1] in (d, if d ! c = 0 then c # ready else ready))"
  by (simp add: release_def)

lemma foldl_release:
  "distinct cs \<Longrightarrow> set cs \<subseteq> {..<length deg} \<Longrightarrow>
   \<exists>new. foldl release (deg, ready) cs = (map (\<lambda>i. if i \<in> set cs then deg ! i - 1 else deg ! i) [0..<length deg], new @ ready)
     \<and> distinct new \<and> set new = {c \<in> set cs. deg ! c = 1}"
proof (induction cs arbitrary: deg ready)
  case Nil
  then show ?case by (auto simp: map_nth)
next
  case (Cons c cs)
  let ?d = "deg[c := deg ! c - 1]" and ?r = "if deg ! c = 1 then c # ready else ready"
  have c: "c < length deg" using Cons.prems by simp
  obtain new where new: "foldl release (?d, ?r) cs = (map (\<lambda>i. if i \<in> set cs then ?d ! i - 1 else ?d ! i) [0..<length ?d], new @ ?r)"
    "distinct new" "set new = {c \<in> set cs. ?d ! c = 1}"
    using Cons.IH [of ?d ?r] Cons.prems by auto
  have "map (\<lambda>i. if i \<in> set cs then ?d ! i - 1 else ?d ! i) [0..<length ?d]
      = map (\<lambda>i. if i \<in> set (c # cs) then deg ! i - 1 else deg ! i) [0..<length deg]"
    using Cons.prems by (auto simp: nth_list_update)
  moreover have "foldl release (deg, ready) (c # cs) = foldl release (?d, ?r) cs" using c by simp
  moreover have "set (new @ (if deg ! c = 1 then [c] else [])) = {i \<in> set (c # cs). deg ! i = 1}"
    using new(3) Cons.prems by (auto simp: nth_list_update split: if_splits)
  moreover have "distinct (new @ (if deg ! c = 1 then [c] else []))" using new(2,3) Cons.prems by auto
  ultimately show ?case using new(1)
    by (intro exI [of _ "new @ (if deg ! c = 1 then [c] else [])"]) (simp split: if_splits)
qed

lemma pop_least_spec:
  assumes "ready \<noteq> []" "distinct ready"
  shows "\<exists>i. pop_least g ready = (i, remove1 i ready) \<and> i \<in> set ready \<and> (\<forall>j \<in> set ready. slot_id g i \<le> slot_id g j)"
proof -
  let ?s = "sort_slots g ready"
  have ne: "?s \<noteq> []" using assms(1) set_sort_slots [of g ready] by (metis set_empty)
  obtain i s where s: "?s = i # s" using ne by (cases ?s) auto
  have "sorted (map (slot_id g) (i # s))" using sort_slots_sorted [of g ready] by (simp add: s o_def comp_def)
  then have "\<forall>j \<in> set (i # s). slot_id g i \<le> slot_id g j" by simp
  then show ?thesis using set_sort_slots [of g ready] by (auto simp: pop_least_def s Let_def)
qed

text \<open>A list of slots in dependency order, each the least by ID of those that could come at its place.\<close>

definition placed :: "graph \<Rightarrow> nat list \<Rightarrow> bool" where
  "placed g xs \<longleftrightarrow> distinct xs \<and> (\<forall>i \<in> set xs. slot g i \<noteq> None)
     \<and> (\<forall>k < length xs. (\<forall>p. (p, xs ! k) \<in> slot_edges g \<longrightarrow> p \<in> set (take k xs))
          \<and> (\<forall>j. slot g j \<noteq> None \<and> j \<notin> set (take k xs) \<and> (\<forall>p. (p, j) \<in> slot_edges g \<longrightarrow> p \<in> set (take k xs))
                \<longrightarrow> slot_id g (xs ! k) \<le> slot_id g j))"

lemma placed_parents: "placed g xs \<Longrightarrow> i \<in> set xs \<Longrightarrow> (p, i) \<in> slot_edges g \<Longrightarrow> p \<in> set xs"
  unfolding placed_def by (metis in_set_conv_nth in_set_takeD)

lemma placed_snoc:
  assumes "placed g xs" "i \<notin> set xs" "slot g i \<noteq> None" "\<forall>p. (p, i) \<in> slot_edges g \<longrightarrow> p \<in> set xs"
    "\<forall>j. slot g j \<noteq> None \<and> j \<notin> set xs \<and> (\<forall>p. (p, j) \<in> slot_edges g \<longrightarrow> p \<in> set xs) \<longrightarrow> slot_id g i \<le> slot_id g j"
  shows "placed g (xs @ [i])"
  using assms unfolding placed_def by (auto simp: nth_append less_Suc_eq)

definition open_parents :: "graph \<Rightarrow> nat list \<Rightarrow> nat \<Rightarrow> nat set" where
  "open_parents g xs i = {p. (p, i) \<in> slot_edges g \<and> p \<notin> set xs}"

definition kahn :: "graph \<Rightarrow> int list \<Rightarrow> nat list \<Rightarrow> nat list \<Rightarrow> bool" where
  "kahn g deg ready xs \<longleftrightarrow> placed g xs \<and> length deg = length (nodes g) \<and> distinct ready
     \<and> (\<forall>i. i \<in> set ready \<longleftrightarrow> slot g i \<noteq> None \<and> i \<notin> set xs \<and> open_parents g xs i = {})
     \<and> (\<forall>i. slot g i \<noteq> None \<and> i \<notin> set xs \<longrightarrow> deg ! i = int (card (open_parents g xs i)))"

lemma finite_open_parents:
  assumes "graph_ok g"
  shows "finite (open_parents g xs i)"
proof (rule finite_subset)
  show "open_parents g xs i \<subseteq> {..<length (nodes g)}"
    using slot_edges_less(1) [OF assms] unfolding open_parents_def by blast
qed simp

lemma open_parents_snoc: "open_parents g (xs @ [i]) j = open_parents g xs j - {i}"
  by (auto simp: open_parents_def)

lemma kahn_step:
  assumes g: "graph_ok g" and inv: "kahn g deg ready xs" and ne: "ready \<noteq> []"
  shows "\<exists>i deg' ready'. pop_least g ready = (i, remove1 i ready) \<and> i \<notin> set xs
    \<and> foldl release (deg, remove1 i ready) (mkeys (outgoing g ! i)) = (deg', ready') \<and> kahn g deg' ready' (xs @ [i])"
proof -
  have pl: "placed g xs" and len: "length deg = length (nodes g)" and dr: "distinct ready"
    and rdy: "i \<in> set ready \<longleftrightarrow> slot g i \<noteq> None \<and> i \<notin> set xs \<and> open_parents g xs i = {}"
    and deg: "slot g i \<noteq> None \<Longrightarrow> i \<notin> set xs \<Longrightarrow> deg ! i = int (card (open_parents g xs i))" for i
    using inv by (auto simp: kahn_def)
  obtain i where i: "pop_least g ready = (i, remove1 i ready)" "i \<in> set ready" "\<forall>j \<in> set ready. slot_id g i \<le> slot_id g j"
    using pop_least_spec [OF ne dr] by blast
  have ii: "slot g i \<noteq> None" "i \<notin> set xs" "open_parents g xs i = {}" using i(2) rdy by auto
  have il: "i < length (nodes g)" using ii(1) slot_Some_less by blast
  let ?cs = "mkeys (outgoing g ! i)"
  have cs: "set ?cs = {c. (i, c) \<in> slot_edges g}" by (rule children_set [OF g il])
  have "list_all gomap_ok (outgoing g)" "length (outgoing g) = length (nodes g)" using g by (simp_all add: graph_ok_def edges_ok_def)
  then have dcs: "distinct ?cs" using il by (auto simp: list_all_length gomap_ok_def)
  have sub: "set ?cs \<subseteq> {..<length deg}" unfolding cs len using slot_edges_less(2) [OF g] by auto
  obtain new where new: "foldl release (deg, remove1 i ready) ?cs
      = (map (\<lambda>j. if j \<in> set ?cs then deg ! j - 1 else deg ! j) [0..<length deg], new @ remove1 i ready)"
    "distinct new" "set new = {c \<in> set ?cs. deg ! c = 1}"
    using foldl_release [OF dcs sub] by blast
  let ?deg = "map (\<lambda>j. if j \<in> set ?cs then deg ! j - 1 else deg ! j) [0..<length deg]"
  have kid: "slot g c \<noteq> None \<and> c \<notin> set xs \<and> c \<noteq> i \<and> i \<in> open_parents g xs c" if "(i, c) \<in> slot_edges g" for c
    using that slot_edges_less [OF g that] placed_parents [OF pl _ that] ii(2) by (auto simp: open_parents_def)
  have one: "c \<in> set ?cs \<and> deg ! c = 1 \<longleftrightarrow> (i, c) \<in> slot_edges g \<and> open_parents g (xs @ [i]) c = {}" for c
  proof (cases "(i, c) \<in> slot_edges g")
    case True
    have "open_parents g (xs @ [i]) c = {} \<longleftrightarrow> open_parents g xs c = {i}" using kid [OF True] by (auto simp: open_parents_snoc)
    also have "\<dots> \<longleftrightarrow> card (open_parents g xs c) = 1" using kid [OF True] by (auto simp: card_1_singleton_iff)
    finally show ?thesis using True deg [of c] kid [OF True] cs by auto
  qed (use cs in auto)
  have "placed g (xs @ [i])"
    using placed_snoc [OF pl ii(2,1)] ii(3) i(3) rdy by (auto simp: open_parents_def)
  moreover have "set new \<inter> set ready = {}" unfolding new(3) cs using kid rdy by blast
  then have "distinct (new @ remove1 i ready)" using new(2) dr by (auto simp: set_remove1_eq)
  moreover have "j \<in> set (new @ remove1 i ready) \<longleftrightarrow> slot g j \<noteq> None \<and> j \<notin> set (xs @ [i]) \<and> open_parents g (xs @ [i]) j = {}" for j
  proof (cases "(i, j) \<in> slot_edges g")
    case True
    have "j \<in> set new \<longleftrightarrow> open_parents g (xs @ [i]) j = {}" unfolding new(3) using one [of j] True by blast
    moreover have "j \<notin> set ready" using rdy kid [OF True] by blast
    ultimately show ?thesis using kid [OF True] dr by (simp add: set_remove1_eq)
  next
    case False
    have "j \<notin> set new" unfolding new(3) using one [of j] False by blast
    moreover have "open_parents g (xs @ [i]) j = open_parents g xs j" using False by (auto simp: open_parents_def)
    ultimately show ?thesis using rdy [of j] dr by (auto simp: set_remove1_eq)
  qed
  moreover have "?deg ! j = int (card (open_parents g (xs @ [i]) j))" if j: "slot g j \<noteq> None" "j \<notin> set (xs @ [i])" for j
  proof -
    have jl: "j < length deg" using j(1) slot_Some_less len by auto
    show ?thesis
    proof (cases "(i, j) \<in> slot_edges g")
      case True
      have "card (open_parents g xs j) = Suc (card (open_parents g xs j - {i}))"
        using kid [OF True] by (intro card.remove finite_open_parents [OF g]) simp
      then show ?thesis using True jl deg [of j] j cs by (auto simp: open_parents_snoc)
    next
      case False
      then have "open_parents g (xs @ [i]) j = open_parents g xs j" by (auto simp: open_parents_def)
      then show ?thesis using False jl deg [of j] j cs by auto
    qed
  qed
  ultimately have "kahn g ?deg (new @ remove1 i ready) (xs @ [i])" using len by (simp add: kahn_def)
  with i(1) ii(2) new(1) show ?thesis by blast
qed

lemma kahn_loop:
  "graph_ok g \<Longrightarrow> kahn g deg ready xs \<Longrightarrow> length (nodes g) \<le> fuel + length xs \<Longrightarrow>
   \<exists>ys deg'. topological_loop g fuel deg ready xs = Some ys \<and> kahn g deg' [] ys"
proof (induction fuel arbitrary: deg ready xs)
  case 0
  have "ready = []"
  proof (rule ccontr)
    assume "ready \<noteq> []"
    then obtain i d r where "i \<notin> set xs" "kahn g d r (xs @ [i])" using kahn_step [OF 0(1,2)] by blast
    then have "placed g (xs @ [i])" by (simp add: kahn_def)
    then have "distinct (xs @ [i])" "set (xs @ [i]) \<subseteq> {..<length (nodes g)}"
      by (auto simp: placed_def dest: slot_Some_less)
    then have "length (xs @ [i]) \<le> length (nodes g)" by (metis card_lessThan card_mono distinct_card finite_lessThan)
    with 0(3) show False by simp
  qed
  with 0 show ?case by (intro exI [of _ xs] exI [of _ deg]) simp
next
  case (Suc fuel)
  show ?case
  proof (cases ready)
    case Nil
    then show ?thesis using Suc.prems by (intro exI [of _ xs] exI [of _ deg]) simp
  next
    case (Cons r rs)
    obtain i d r' where s: "pop_least g ready = (i, remove1 i ready)"
      "foldl release (deg, remove1 i ready) (mkeys (outgoing g ! i)) = (d, r')" "kahn g d r' (xs @ [i])"
      using kahn_step [OF Suc.prems(1,2)] Cons by blast
    have "topological_loop g (Suc fuel) deg ready xs = topological_loop g fuel d r' (xs @ [i])"
      using s(1,2) unfolding Cons by simp
    then show ?thesis using Suc.IH [OF Suc.prems(1) s(3)] Suc.prems(3) by simp
  qed
qed

section \<open>What is left out\<close>

definition below_cycle :: "graph \<Rightarrow> string \<Rightarrow> bool" where
  "below_cycle g x \<longleftrightarrow> (\<exists>c. (c, c) \<in> (id_edges g)\<^sup>+ \<and> (c, x) \<in> (id_edges g)\<^sup>*)"

lemma id_edge_slots:
  assumes g: "graph_ok g" and e: "edge_of g x y \<noteq> None"
  shows "\<exists>i j. slot g i \<noteq> None \<and> slot g j \<noteq> None \<and> slot_id g i = x \<and> slot_id g j = y \<and> (i, j) \<in> slot_edges g"
proof -
  obtain m n where "Node g x = Some m" "Node g y = Some n" using edge_of_nodes [OF g e] by blast
  then obtain i j where "slot g i = Some m" "slot_id g i = x" "slot g j = Some n" "slot_id g j = y"
    using id_slot [OF g] by metis
  with slot_edge_ids [OF g, of i j] e show ?thesis by auto
qed

lemma slot_edges_ids_trancl:
  assumes g: "graph_ok g" and i: "slot g i \<noteq> None" and j: "slot g j \<noteq> None"
  shows "(i, j) \<in> (slot_edges g)\<^sup>+ \<longleftrightarrow> (slot_id g i, slot_id g j) \<in> (id_edges g)\<^sup>+"
proof
  assume "(i, j) \<in> (slot_edges g)\<^sup>+"
  then obtain k where k: "(i, k) \<in> (slot_edges g)\<^sup>*" "(k, j) \<in> slot_edges g" by (meson tranclD2)
  then have "(slot_id g i, slot_id g k) \<in> (id_edges g)\<^sup>*" using slot_edges_ids_rtrancl [OF g i] by blast
  moreover have "(slot_id g k, slot_id g j) \<in> id_edges g"
    using slot_edge_ids [OF g slot_edges_less(4) [OF g k(2)] j] k(2) by (simp add: id_edges_def)
  ultimately show "(slot_id g i, slot_id g j) \<in> (id_edges g)\<^sup>+" by (rule rtrancl_into_trancl1)
next
  assume "(slot_id g i, slot_id g j) \<in> (id_edges g)\<^sup>+"
  then obtain y where y: "(slot_id g i, y) \<in> (id_edges g)\<^sup>*" "(y, slot_id g j) \<in> id_edges g" by (meson tranclD2)
  then obtain k l where k: "slot g k \<noteq> None" "slot_id g k = y" "slot_id g l = slot_id g j" "(k, l) \<in> slot_edges g" "slot g l \<noteq> None"
    using id_edge_slots [OF g] by (fastforce simp: id_edges_def)
  then have "(i, k) \<in> (slot_edges g)\<^sup>*" using slot_edges_ids_rtrancl [OF g i] y(1) by simp
  moreover have "l = j" using node_ids_inj [OF g k(5) j k(3)] .
  ultimately show "(i, j) \<in> (slot_edges g)\<^sup>+" using k(4) by (meson rtrancl_into_trancl1)
qed

lemma below_cycle_slots:
  assumes g: "graph_ok g" and i: "slot g i \<noteq> None"
  shows "below_cycle g (slot_id g i) \<longleftrightarrow> (\<exists>c. (c, c) \<in> (slot_edges g)\<^sup>+ \<and> (c, i) \<in> (slot_edges g)\<^sup>*)"
proof
  assume "below_cycle g (slot_id g i)"
  then obtain x where x: "(x, x) \<in> (id_edges g)\<^sup>+" "(x, slot_id g i) \<in> (id_edges g)\<^sup>*" by (auto simp: below_cycle_def)
  then obtain y where "(x, y) \<in> id_edges g" by (meson tranclD)
  then obtain c where c: "slot g c \<noteq> None" "slot_id g c = x" using id_edge_slots [OF g] by (fastforce simp: id_edges_def)
  then show "\<exists>c. (c, c) \<in> (slot_edges g)\<^sup>+ \<and> (c, i) \<in> (slot_edges g)\<^sup>*"
    using x slot_edges_ids_trancl [OF g c(1) c(1)] slot_edges_ids_rtrancl [OF g c(1), of i] i by (intro exI [of _ c]) simp
next
  assume "\<exists>c. (c, c) \<in> (slot_edges g)\<^sup>+ \<and> (c, i) \<in> (slot_edges g)\<^sup>*"
  then obtain c where c: "(c, c) \<in> (slot_edges g)\<^sup>+" "(c, i) \<in> (slot_edges g)\<^sup>*" by blast
  then obtain d where "(c, d) \<in> slot_edges g" by (meson tranclD)
  then have l: "slot g c \<noteq> None" by (rule slot_edges_less(4) [OF g])
  then show "below_cycle g (slot_id g i)"
    using c slot_edges_ids_trancl [OF g l l] slot_edges_ids_rtrancl [OF g l, of i] by (auto simp: below_cycle_def)
qed

lemma placed_at: "placed g xs \<Longrightarrow> k < length xs \<Longrightarrow> (p, xs ! k) \<in> slot_edges g \<Longrightarrow> p \<in> set (take k xs)"
  unfolding placed_def by blast

lemma placed_ancestors: "(p, i) \<in> (slot_edges g)\<^sup>* \<Longrightarrow> placed g xs \<Longrightarrow> i \<in> set xs \<Longrightarrow> p \<in> set xs"
  by (induction rule: converse_rtrancl_induct) (auto intro: placed_parents)

lemma placed_earlier:
  assumes p: "placed g xs" and k: "k < length xs"
  shows "(i, xs ! k) \<in> (slot_edges g)\<^sup>+ \<Longrightarrow> i \<in> set (take k xs)"
proof (induction rule: converse_trancl_induct)
  case (base y)
  then show ?case by (rule placed_at [OF p k])
next
  case (step y z)
  then obtain l where "l < length (take k xs)" "take k xs ! l = z" unfolding in_set_conv_nth by blast
  then have l: "l < k" "l < length xs" "xs ! l = z" by simp_all
  then have "y \<in> set (take l xs)" using placed_at [OF p l(2), of y] step.hyps(1) by simp
  then show ?case using set_take_subset_set_take [OF less_imp_le [OF l(1)], of xs] by blast
qed

lemma kahn_done:
  assumes g: "graph_ok g" and inv: "kahn g deg [] xs" and i: "slot g i \<noteq> None"
  shows "i \<in> set xs \<longleftrightarrow> (\<nexists>c. (c, c) \<in> (slot_edges g)\<^sup>+ \<and> (c, i) \<in> (slot_edges g)\<^sup>*)"
proof
  have pl: "placed g xs" using inv by (simp add: kahn_def)
  have left: "\<exists>p. (p, j) \<in> slot_edges g \<and> p \<notin> set xs" if "slot g j \<noteq> None" "j \<notin> set xs" for j
  proof -
    have "\<forall>i. \<not> (slot g i \<noteq> None \<and> i \<notin> set xs \<and> open_parents g xs i = {})"
      using inv unfolding kahn_def by (metis empty_iff empty_set)
    then have "open_parents g xs j \<noteq> {}" using that by blast
    then show ?thesis unfolding open_parents_def by blast
  qed
  {
    assume ix: "i \<in> set xs"
    show "\<nexists>c. (c, c) \<in> (slot_edges g)\<^sup>+ \<and> (c, i) \<in> (slot_edges g)\<^sup>*"
    proof
      assume "\<exists>c. (c, c) \<in> (slot_edges g)\<^sup>+ \<and> (c, i) \<in> (slot_edges g)\<^sup>*"
      then obtain c where c: "(c, c) \<in> (slot_edges g)\<^sup>+" "c \<in> set xs" using placed_ancestors [OF _ pl ix] by blast
      then obtain k where k: "k < length xs" "xs ! k = c" by (auto simp: in_set_conv_nth)
      then have "xs ! k \<in> set (take k xs)" using placed_earlier [OF pl k(1), of c] c(1) by simp
      then obtain l where "l < k" "xs ! l = xs ! k" by (metis in_set_conv_nth length_take min_less_iff_conj nth_take)
      moreover have "distinct xs" using pl by (simp add: placed_def)
      ultimately show False using k(1) by (simp add: nth_eq_iff_index_eq)
    qed
  }
  assume no: "\<nexists>c. (c, c) \<in> (slot_edges g)\<^sup>+ \<and> (c, i) \<in> (slot_edges g)\<^sup>*"
  show "i \<in> set xs"
  proof (rule ccontr)
    assume out: "i \<notin> set xs"
    let ?S = "{c. (c, i) \<in> (slot_edges g)\<^sup>*}" and ?R = "slot_edges g \<inter> {c. (c, i) \<in> (slot_edges g)\<^sup>*} \<times> UNIV"
    have sub: "slot_edges g \<subseteq> {..<length (nodes g)} \<times> {..<length (nodes g)}"
      using slot_edges_less(1,2) [OF g] by auto
    then have "finite ?R" by (meson finite_subset finite_SigmaI finite_lessThan inf.coboundedI1)
    moreover have "acyclic ?R"
    proof (rule acyclicI, rule allI, rule notI)
      fix c assume c: "(c, c) \<in> ?R\<^sup>+"
      then have "(c, c) \<in> (slot_edges g)\<^sup>+" by (meson inf_le1 trancl_mono)
      moreover have "(c, i) \<in> (slot_edges g)\<^sup>*" using c by (meson IntD2 mem_Collect_eq mem_Sigma_iff tranclD)
      ultimately show False using no by blast
    qed
    ultimately have "wf ?R" by (rule finite_acyclic_wf)
    moreover have "i \<in> ?S \<inter> {j. slot g j \<noteq> None \<and> j \<notin> set xs}" using i out by simp
    ultimately obtain z where z: "z \<in> ?S \<inter> {j. slot g j \<noteq> None \<and> j \<notin> set xs}"
      "\<And>y. (y, z) \<in> ?R \<Longrightarrow> y \<notin> ?S \<inter> {j. slot g j \<noteq> None \<and> j \<notin> set xs}"
      by (rule wfE_min) blast
    then obtain p where p: "(p, z) \<in> slot_edges g" "p \<notin> set xs" using left by blast
    have "p \<in> ?S" using p(1) z(1) by (auto intro: converse_rtrancl_into_rtrancl)
    moreover have "slot g p \<noteq> None" by (rule slot_edges_less(4) [OF g p(1)])
    ultimately show False using z(2) [of p] p by blast
  qed
qed

text \<open>The same order by ID.\<close>

definition in_order :: "graph \<Rightarrow> graph_node list \<Rightarrow> bool" where
  "in_order g ns \<longleftrightarrow> distinct ns \<and> (\<forall>k < length ns.
     (\<forall>p. edge_of g p (NodeID (ns ! k)) \<noteq> None \<longrightarrow> p \<in> NodeID ` set (take k ns))
     \<and> (\<forall>m. Node g (NodeID m) = Some m \<and> m \<notin> set (take k ns)
            \<and> (\<forall>p. edge_of g p (NodeID m) \<noteq> None \<longrightarrow> p \<in> NodeID ` set (take k ns))
          \<longrightarrow> NodeID (ns ! k) \<le> NodeID m))"

lemma parents_before:
  assumes g: "graph_ok g" and live: "\<forall>i \<in> set xs. slot g i \<noteq> None" and j: "slot g j \<noteq> None"
  shows "(\<forall>p. edge_of g p (slot_id g j) \<noteq> None \<longrightarrow> p \<in> NodeID ` set (map (node_at g) xs))
    \<longleftrightarrow> (\<forall>p. (p, j) \<in> slot_edges g \<longrightarrow> p \<in> set xs)"
proof
  assume l: "\<forall>p. edge_of g p (slot_id g j) \<noteq> None \<longrightarrow> p \<in> NodeID ` set (map (node_at g) xs)"
  show "\<forall>p. (p, j) \<in> slot_edges g \<longrightarrow> p \<in> set xs"
  proof (intro allI impI)
    fix p assume e: "(p, j) \<in> slot_edges g"
    have sp: "slot g p \<noteq> None" by (rule slot_edges_less(4) [OF g e])
    then have "edge_of g (slot_id g p) (slot_id g j) \<noteq> None" using slot_edge_ids [OF g sp j] e by simp
    then obtain q where "q \<in> set xs" "slot_id g p = slot_id g q" using l by force
    then show "p \<in> set xs" using node_ids_inj [OF g sp, of q] live by auto
  qed
next
  assume r: "\<forall>p. (p, j) \<in> slot_edges g \<longrightarrow> p \<in> set xs"
  show "\<forall>p. edge_of g p (slot_id g j) \<noteq> None \<longrightarrow> p \<in> NodeID ` set (map (node_at g) xs)"
  proof (intro allI impI)
    fix p assume "edge_of g p (slot_id g j) \<noteq> None"
    then obtain a b where ab: "slot g b \<noteq> None" "slot_id g a = p" "slot_id g b = slot_id g j" "(a, b) \<in> slot_edges g"
      using id_edge_slots [OF g] by blast
    then have "b = j" using node_ids_inj [OF g ab(1) j] by simp
    then show "p \<in> NodeID ` set (map (node_at g) xs)" using ab r by auto
  qed
qed

lemma placed_in_order:
  assumes g: "graph_ok g" and p: "placed g xs"
  shows "in_order g (map (node_at g) xs)"
proof -
  have live: "\<forall>i \<in> set xs. slot g i \<noteq> None" and d: "distinct xs" using p by (simp_all add: placed_def)
  have inj: "i = j" if "slot g i \<noteq> None" "slot g j \<noteq> None" "node_at g i = node_at g j" for i j
    using node_ids_inj [OF g that(1,2)] that(3) by simp
  have "distinct (map (node_at g) xs)" using d inj live by (auto simp: distinct_map intro!: inj_onI)
  moreover have "(\<forall>p. edge_of g p (slot_id g (xs ! k)) \<noteq> None \<longrightarrow> p \<in> NodeID ` set (map (node_at g) (take k xs)))
     \<and> (\<forall>m. Node g (NodeID m) = Some m \<and> m \<notin> set (map (node_at g) (take k xs))
            \<and> (\<forall>p. edge_of g p (NodeID m) \<noteq> None \<longrightarrow> p \<in> NodeID ` set (map (node_at g) (take k xs)))
          \<longrightarrow> slot_id g (xs ! k) \<le> NodeID m)" if k: "k < length xs" for k
  proof (intro conjI allI impI; (elim conjE)?)
    have live_k: "\<forall>i \<in> set (take k xs). slot g i \<noteq> None" using live by (auto dest: in_set_takeD)
    fix p assume "edge_of g p (slot_id g (xs ! k)) \<noteq> None"
    then show "p \<in> NodeID ` set (map (node_at g) (take k xs))"
      using parents_before [OF g live_k, of "xs ! k"] live k placed_at [OF p k] by auto
  next
    have live_k: "\<forall>i \<in> set (take k xs). slot g i \<noteq> None" using live by (auto dest: in_set_takeD)
    fix m assume m: "Node g (NodeID m) = Some m" "m \<notin> set (map (node_at g) (take k xs))"
      "\<forall>p. edge_of g p (NodeID m) \<noteq> None \<longrightarrow> p \<in> NodeID ` set (map (node_at g) (take k xs))"
    obtain j where j: "slot g j = Some m" "node_at g j = m" using id_slot [OF g m(1)] by blast
    have "\<forall>p. (p, j) \<in> slot_edges g \<longrightarrow> p \<in> set (take k xs)"
      using parents_before [OF g live_k, of j] m(3) j by simp
    moreover have "j \<notin> set (take k xs)" using m(2) j(2) by auto
    ultimately have "slot_id g (xs ! k) \<le> slot_id g j" using p k j(1) unfolding placed_def by blast
    then show "slot_id g (xs ! k) \<le> NodeID m" by (simp add: j(2))
  qed
  ultimately show ?thesis by (simp add: in_order_def take_map)
qed

lemma kahn_start:
  assumes g: "graph_ok g"
  shows "kahn g (initial_degrees g) (filter (\<lambda>i. initial_degrees g ! i = 0) (live_slots g)) []"
proof -
  have deg: "initial_degrees g ! i = int (card (open_parents g [] i))" if i: "slot g i \<noteq> None" for i
  proof -
    have il: "i < length (nodes g)" and at: "nodes g ! i \<noteq> None" using i slot_Some_less [of g i] by auto
    have "list_all gomap_ok (incoming g)" "length (incoming g) = length (nodes g)" using g by (simp_all add: graph_ok_def edges_ok_def)
    then have "distinct (mkeys (incoming g ! i))" using il by (auto simp: list_all_length gomap_ok_def)
    moreover have "open_parents g [] i = set (mkeys (incoming g ! i))" using parents_set [OF g il] by (simp add: open_parents_def)
    ultimately have "card (open_parents g [] i) = length (incoming g ! i)" by (simp add: distinct_card del: set_map)
    moreover have "alive g ! i" using g il at by (simp add: graph_ok_def slots_ok_def)
    ultimately show ?thesis using il at by (simp add: initial_degrees_def)
  qed
  have "slot g i \<noteq> None \<Longrightarrow> initial_degrees g ! i = 0 \<longleftrightarrow> open_parents g [] i = {}" for i
    using deg [of i] finite_open_parents [OF g, of "[]" i] by simp
  moreover have "distinct (live_slots g)" by (simp add: live_slots_def)
  moreover have "placed g []" by (simp add: placed_def)
  ultimately show ?thesis using deg live_slots_set [OF g]
    unfolding kahn_def by (auto simp: initial_degrees_def)
qed

lemma live_slots_length: "graph_ok g \<Longrightarrow> length (live_slots g) = node_count g"
  using live_slots_set [of g] set_sortedIndices [of g] distinct_sortedIndices [of g] Graph_Nodes_length [of g]
  by (metis Graph_Nodes_def distinct_card distinct_filter distinct_upt length_map live_slots_def)

text \<open>C8. \<open>TopologicalSort\<close> ends on every consistent graph. It lists exactly the nodes that are not on or
  below a dependency cycle, each after everything that depends on it and at every place the least
  ID that could stand there, so the order is determined; and it reports a cycle exactly when the
  graph has one.\<close>

theorem TopologicalSort_spec:
  assumes g: "graph_ok g"
  shows "\<exists>ns. TopologicalSort g = Some (ns, if acyclic (id_edges g) then None else Some ErrCycleDetected)
    \<and> in_order g ns \<and> (\<forall>n. n \<in> set ns \<longleftrightarrow> Node g (NodeID n) = Some n \<and> \<not> below_cycle g (NodeID n))"
proof -
  obtain xs d where xs: "topological_loop g (length (nodes g)) (initial_degrees g)
      (filter (\<lambda>i. initial_degrees g ! i = 0) (live_slots g)) [] = Some xs" "kahn g d [] xs"
    using kahn_loop [OF g kahn_start [OF g], of "length (nodes g)"] by auto
  have pl: "placed g xs" using xs(2) by (simp add: kahn_def)
  have mem: "i \<in> set xs \<longleftrightarrow> slot g i \<noteq> None \<and> \<not> below_cycle g (slot_id g i)" for i
  proof (cases "slot g i = None")
    case True
    moreover have "\<forall>i \<in> set xs. slot g i \<noteq> None" using pl by (simp add: placed_def)
    ultimately show ?thesis by blast
  next
    case False
    then show ?thesis using kahn_done [OF g xs(2) False] below_cycle_slots [OF g False] by blast
  qed
  have nodes: "n \<in> set (map (node_at g) xs) \<longleftrightarrow> Node g (NodeID n) = Some n \<and> \<not> below_cycle g (NodeID n)" for n
  proof
    assume "n \<in> set (map (node_at g) xs)"
    then obtain i where "i \<in> set xs" "n = node_at g i" by auto
    with mem [of i] slot_node [OF g, of i] show "Node g (NodeID n) = Some n \<and> \<not> below_cycle g (NodeID n)" by simp
  next
    assume n: "Node g (NodeID n) = Some n \<and> \<not> below_cycle g (NodeID n)"
    then obtain i where "slot g i = Some n" "node_at g i = n" using id_slot [OF g] by blast
    with mem [of i] n show "n \<in> set (map (node_at g) xs)" by auto
  qed
  have "set xs \<subseteq> set (live_slots g)" using mem live_slots_set [OF g] by auto
  moreover have "distinct xs" "distinct (live_slots g)" using pl by (simp_all add: placed_def live_slots_def)
  moreover have "length (live_slots g) = node_count g" by (rule live_slots_length [OF g])
  ultimately have "length xs = node_count g \<longleftrightarrow> set xs = set (live_slots g)"
    by (metis card_subset_eq distinct_card finite_set)
  also have "\<dots> \<longleftrightarrow> acyclic (id_edges g)"
  proof
    assume all: "set xs = set (live_slots g)"
    show "acyclic (id_edges g)"
    proof (rule acyclicI, rule allI, rule notI)
      fix x assume x: "(x, x) \<in> (id_edges g)\<^sup>+"
      then obtain y where "(x, y) \<in> id_edges g" by (meson tranclD)
      then obtain i where i: "slot g i \<noteq> None" "slot_id g i = x" using id_edge_slots [OF g] by (fastforce simp: id_edges_def)
      then have "\<not> below_cycle g x" using all mem [of i] live_slots_set [OF g] by simp
      with x show False by (auto simp: below_cycle_def)
    qed
  next
    assume "acyclic (id_edges g)"
    then have "\<not> below_cycle g x" for x by (simp add: below_cycle_def acyclic_def)
    then show "set xs = set (live_slots g)" using mem live_slots_set [OF g] by auto
  qed
  finally show ?thesis using xs(1) placed_in_order [OF g pl] nodes
    by (intro exI [of _ "map (node_at g) xs"]) (simp add: TopologicalSort_def)
qed

theorem TopologicalSort_spec_witness:
  "\<exists>ns. TopologicalSort sample_graph = Some (ns, if acyclic (id_edges sample_graph) then None else Some ErrCycleDetected)
     \<and> in_order sample_graph ns"
  using TopologicalSort_spec [OF reachable_graph_ok [OF sample_graph_reachable]] by blast

end
