(* ===== verification/Compare.thy ===== *)
theory Compare
  imports Traversal
begin

text \<open>
  Comparing two graphs, the last part of \<^verbatim>\<open>model/graph.go\<close>: \<open>Compare\<close> with the pairing of version
  changes, the detail transitions and their review reasons, and the relationships a graph implies
  for its dependencies. Maps are read in the order of their lists; every result is sorted, and the
  properties speak of the sets and multisets of what is returned.
\<close>

type_synonym detail_field = string

abbreviation DependencyDetailRelationship :: detail_field where "DependencyDetailRelationship \<equiv> ''relationship''"
abbreviation DependencyDetailSource :: detail_field where "DependencyDetailSource \<equiv> ''source''"
abbreviation DependencyDetailRegistryEligibility :: detail_field where
  "DependencyDetailRegistryEligibility \<equiv> ''registry_eligibility''"

record detail_transition =
  DetailBefore :: "dependency_node option"
  DetailAfter :: "dependency_node option"
  ChangedFields :: "detail_field list"
  BeforeRelationship :: relationship
  AfterRelationship :: relationship
  BeforeRegistryEligible :: bool
  AfterRegistryEligible :: bool

record version_change =
  ChangeBefore :: dependency_node
  ChangeAfter :: dependency_node

record graph_diff =
  DiffAdded :: "dependency_node list"
  DiffRemoved :: "dependency_node list"
  DiffUpdated :: "version_change list"
  DiffTransitions :: "detail_transition list"

datatype review_reason = ReviewSourceGit | ReviewSourceURL

section \<open>Review reasons\<close>

definition dependencyDetailFieldIncluded :: "detail_field list \<Rightarrow> detail_field \<Rightarrow> bool" where
  "dependencyDetailFieldIncluded listed wanted \<longleftrightarrow> wanted \<in> set listed"

definition ReviewReasons :: "detail_transition \<Rightarrow> review_reason list" where
  "ReviewReasons t =
     (case (DetailBefore t, DetailAfter t) of
        (Some before, Some after) \<Rightarrow>
          if dependencyDetailFieldIncluded (ChangedFields t) DependencyDetailSource \<and> TrimSpace (DepSource before) \<noteq> []
          then (if DepSource after = DependencySourceGit then [ReviewSourceGit]
                else if DepSource after = DependencySourceURL then [ReviewSourceURL] else [])
          else []
      | _ \<Rightarrow> [])"

definition NeedsReview :: "detail_transition \<Rightarrow> bool" where
  "NeedsReview t \<longleftrightarrow> 0 < length (ReviewReasons t)"

section \<open>The relationships a graph implies\<close>

text \<open>The owners whose children are direct: the roots, and the structural nodes reached from them
  through structural nodes. The work list is read front to back while it grows.\<close>

definition structural :: "graph \<Rightarrow> nat \<Rightarrow> bool" where
  "structural g i \<longleftrightarrow> nodes g ! i \<noteq> None \<and> alive g ! i \<and> AsDependencyNode (nodes g ! i) = None"

definition own :: "graph \<Rightarrow> nat list \<times> nat list \<Rightarrow> nat \<Rightarrow> nat list \<times> nat list" where
  "own g s child =
     (case s of (direct, owners) \<Rightarrow>
        (child # direct, if structural g child \<and> child \<notin> set owners then owners @ [child] else owners))"

fun own_loop :: "graph \<Rightarrow> nat \<Rightarrow> nat \<Rightarrow> nat list \<times> nat list \<Rightarrow> nat list option" where
  "own_loop g 0 cursor s = (if cursor < length (snd s) then None else Some (fst s))"
| "own_loop g (Suc fuel) cursor s =
     (if cursor < length (snd s)
      then own_loop g fuel (Suc cursor) (foldl (own g) s (mkeys (outgoing g ! (snd s ! cursor))))
      else Some (fst s))"

definition direct_slots :: "graph \<Rightarrow> nat list option" where
  "direct_slots g =
     (let roots = Roots g in
      if 0 < length roots \<and> length roots \<noteq> node_count g
      then own_loop g (length (nodes g)) 0
             ([], remdups (List.map_filter (\<lambda>r. mget (indexByID g) (NodeID r)) roots))
      else Some [])"

definition relationship_at :: "graph \<Rightarrow> nat list \<Rightarrow> nat \<Rightarrow> (string \<times> relationship) option" where
  "relationship_at g direct i =
     (case AsDependencyNode (nodes g ! i) of
        None \<Rightarrow> None
      | Some dep \<Rightarrow>
          Some (dependency_id dep,
            if Relationship dep \<noteq> [] then relationshipForDepth (Some dep) 0
            else relationshipForDepth (Some dep)
                   (if (0 < length (Roots g) \<and> length (Roots g) \<noteq> node_count g) \<and> 0 < length (incoming g ! i)
                    then (if i \<in> set direct then 1 else 2) else 0)))"

definition dependencyRelationshipsForGraph :: "graph option \<Rightarrow> (string, relationship) gomap option" where
  "dependencyRelationshipsForGraph graph =
     (case graph of
        None \<Rightarrow> Some []
      | Some g \<Rightarrow>
          if node_count g = 0 then Some []
          else map_option (\<lambda>direct. foldl (\<lambda>m (i, r). mput i r m) []
                 (List.map_filter (relationship_at g direct) (live_slots g))) (direct_slots g))"

definition dependencyRelationshipFromMap :: "(string, relationship) gomap \<Rightarrow> dependency_node option \<Rightarrow> relationship" where
  "dependencyRelationshipFromMap relationships node =
     (case node of
        None \<Rightarrow> DependencyRelationshipUnknown
      | Some n \<Rightarrow>
          (case mget relationships (dependency_id n) of
             None \<Rightarrow> relationshipForDepth node 0
           | Some r \<Rightarrow> if r \<noteq> [] then r else relationshipForDepth node 0))"

section \<open>Detail changes\<close>

definition compareDependencyDetails ::
  "dependency_node option \<Rightarrow> dependency_node option \<Rightarrow> (string, relationship) gomap \<Rightarrow> (string, relationship) gomap \<Rightarrow>
   detail_transition option" where
  "compareDependencyDetails before after beforeRelationships afterRelationships =
     (case (before, after) of
        (Some b, Some a) \<Rightarrow>
          (let beforeRelationship = dependencyRelationshipFromMap beforeRelationships before;
               afterRelationship = dependencyRelationshipFromMap afterRelationships after;
               beforeEligible = RegistryMatchEligible b;
               afterEligible = RegistryMatchEligible a;
               eligibilityEvidenceComparable = (DepSource b = DepSource a \<or> DepSource b \<noteq> [] \<and> DepSource a \<noteq> []);
               changedFields =
                 (if beforeRelationship \<noteq> DependencyRelationshipUnknown \<and> afterRelationship \<noteq> DependencyRelationshipUnknown
                     \<and> beforeRelationship \<noteq> afterRelationship then [DependencyDetailRelationship] else [])
                 @ (if DepSource b \<noteq> [] \<and> DepSource a \<noteq> [] \<and> DepSource b \<noteq> DepSource a then [DependencyDetailSource] else [])
                 @ (if eligibilityEvidenceComparable \<and> beforeEligible \<noteq> afterEligible
                    then [DependencyDetailRegistryEligibility] else [])
           in if changedFields = [] then None
              else Some \<lparr>DetailBefore = before, DetailAfter = after, ChangedFields = changedFields,
                     BeforeRelationship = beforeRelationship, AfterRelationship = afterRelationship,
                     BeforeRegistryEligible = beforeEligible, AfterRegistryEligible = afterEligible\<rparr>)
      | _ \<Rightarrow> None)"

definition CompareDependencyDetails ::
  "graph option \<Rightarrow> graph option \<Rightarrow> dependency_node option \<Rightarrow> dependency_node option \<Rightarrow> detail_transition option option" where
  "CompareDependencyDetails baseGraph headGraph before after =
     (case (dependencyRelationshipsForGraph baseGraph, dependencyRelationshipsForGraph headGraph) of
        (Some b, Some h) \<Rightarrow> Some (compareDependencyDetails before after b h)
      | _ \<Rightarrow> None)"

section \<open>Comparing\<close>

definition indexDiffableNodes :: "graph option \<Rightarrow> (string, dependency_node) gomap" where
  "indexDiffableNodes graph =
     (case graph of
        None \<Rightarrow> []
      | Some g \<Rightarrow> foldl (\<lambda>indexed node. mput (dependency_id node) node indexed) [] (WalkDependencyNodes g))"

definition diffIdentityKey :: "library \<Rightarrow> dependency_node option \<Rightarrow> string" where
  "diffIdentityKey L node =
     (case node of
        None \<Rightarrow> []
      | Some n \<Rightarrow> let key = WithoutVersion L (dependency_id n) in if key \<noteq> [] then key else dependency_id n)"

definition add_to_group :: "library \<Rightarrow> (string, dependency_node list) gomap \<Rightarrow> dependency_node \<Rightarrow> (string, dependency_node list) gomap" where
  "add_to_group L grouped node =
     (let key = diffIdentityKey L (Some node);
          members = (case mget grouped key of None \<Rightarrow> [] | Some ns \<Rightarrow> ns)
      in mput key (members @ [node]) grouped)"

definition groupNodesByIdentity :: "library \<Rightarrow> (string, dependency_node) gomap \<Rightarrow> (string, dependency_node list) gomap" where
  "groupNodesByIdentity L indexed = foldl (add_to_group L) [] (map snd indexed)"

definition sortNodesForDiff :: "dependency_node list \<Rightarrow> dependency_node list" where
  "sortNodesForDiff ns = sort_key (\<lambda>n. (Version (Coords n), dependency_id n)) ns"

definition sort_updated :: "library \<Rightarrow> version_change list \<Rightarrow> version_change list" where
  "sort_updated L updated =
     sort_key (\<lambda>u. (diffIdentityKey L (Some (ChangeBefore u)), Version (Coords (ChangeBefore u)),
                    Version (Coords (ChangeAfter u)), dependency_id (ChangeBefore u))) updated"

definition SortDependencyDetailTransitions :: "library \<Rightarrow> detail_transition list \<Rightarrow> detail_transition list" where
  "SortDependencyDetailTransitions L transitions =
     sort_key (\<lambda>t. (diffIdentityKey L (DetailBefore t), Version (Coords (the (DetailBefore t))),
                    Version (Coords (the (DetailAfter t))), dependency_id (the (DetailBefore t)),
                    dependency_id (the (DetailAfter t)))) transitions"

definition group_of :: "(string, dependency_node list) gomap \<Rightarrow> string \<Rightarrow> dependency_node list" where
  "group_of grouped key = sortNodesForDiff (case mget grouped key of None \<Rightarrow> [] | Some ns \<Rightarrow> ns)"

definition Compare :: "library \<Rightarrow> graph option \<Rightarrow> graph option \<Rightarrow> graph_diff option" where
  "Compare L base head =
     (case (dependencyRelationshipsForGraph base, dependencyRelationshipsForGraph head) of
        (Some baseRelationships, Some headRelationships) \<Rightarrow>
          (let baseExact = indexDiffableNodes base;
               headExact = indexDiffableNodes head;
               transitions = List.map_filter (\<lambda>(i, node).
                 case mget headExact i of
                   None \<Rightarrow> None
                 | Some headNode \<Rightarrow> compareDependencyDetails (Some node) (Some headNode) baseRelationships headRelationships) baseExact;
               baseRemainder = filter (\<lambda>(i, node). mget headExact i = None) baseExact;
               headRemainder = filter (\<lambda>(i, node). mget baseExact i = None) headExact;
               baseByIdentity = groupNodesByIdentity L baseRemainder;
               headByIdentity = groupNodesByIdentity L headRemainder;
               identities = remdups (mkeys baseByIdentity @ mkeys headByIdentity);
               updated = concat (map (\<lambda>key. map (\<lambda>(b, a). \<lparr>ChangeBefore = b, ChangeAfter = a\<rparr>)
                 (zip (group_of baseByIdentity key) (group_of headByIdentity key))) identities);
               removed = concat (map (\<lambda>key. drop (length (group_of headByIdentity key)) (group_of baseByIdentity key)) identities);
               added = concat (map (\<lambda>key. drop (length (group_of baseByIdentity key)) (group_of headByIdentity key)) identities);
               transitions = transitions @ List.map_filter (\<lambda>u.
                 compareDependencyDetails (Some (ChangeBefore u)) (Some (ChangeAfter u)) baseRelationships headRelationships) updated
           in Some \<lparr>DiffAdded = sortNodesForDiff added, DiffRemoved = sortNodesForDiff removed,
                  DiffUpdated = sort_updated L updated,
                  DiffTransitions = SortDependencyDetailTransitions L transitions\<rparr>)
      | _ \<Rightarrow> None)"

section \<open>Owners\<close>

text \<open>By ID: a root is an owner, and so is a module or manifest an owner points to.\<close>

inductive owner :: "graph \<Rightarrow> string \<Rightarrow> bool" for g where
  owner_root: "Node g x \<noteq> None \<Longrightarrow> \<forall>p. edge_of g p x = None \<Longrightarrow> owner g x"
| owner_step: "owner g x \<Longrightarrow> edge_of g x y \<noteq> None \<Longrightarrow> AsDependencyNode (Node g y) = None \<Longrightarrow> owner g y"

definition usable_edges :: "graph \<Rightarrow> bool" where
  "usable_edges g \<longleftrightarrow> (\<exists>x. Node g x \<noteq> None \<and> (\<forall>p. edge_of g p x = None)) \<and> (\<exists>x y. edge_of g x y \<noteq> None)"

inductive owner_slot :: "graph \<Rightarrow> nat \<Rightarrow> bool" for g where
  slot_root: "slot g i \<noteq> None \<Longrightarrow> \<forall>p. (p, i) \<notin> slot_edges g \<Longrightarrow> owner_slot g i"
| slot_step: "owner_slot g i \<Longrightarrow> (i, j) \<in> slot_edges g \<Longrightarrow> AsDependencyNode (slot g j) = None \<Longrightarrow> owner_slot g j"

lemma owner_slot_live: "graph_ok g \<Longrightarrow> owner_slot g i \<Longrightarrow> slot g i \<noteq> None"
  by (erule owner_slot.cases) (auto dest: slot_edges_less(5))

lemma no_parents_ids:
  assumes g: "graph_ok g" and i: "slot g i \<noteq> None"
  shows "(\<forall>p. edge_of g p (slot_id g i) = None) \<longleftrightarrow> (\<forall>p. (p, i) \<notin> slot_edges g)"
  using parents_before [OF g _ i, of "[]"] by simp

lemma owner_slot_id:
  assumes g: "graph_ok g"
  shows "owner_slot g i \<Longrightarrow> owner g (slot_id g i)"
proof (induction rule: owner_slot.induct)
  case (slot_root i)
  then show ?case using no_parents_ids [OF g] slot_node [OF g] by (intro owner_root) auto
next
  case (slot_step i j)
  have l: "slot g i \<noteq> None" "slot g j \<noteq> None" using slot_edges_less [OF g slot_step.hyps(2)] by blast+
  then show ?case using slot_step slot_edge_ids [OF g l] slot_node [OF g l(2)] by (intro owner_step [OF slot_step.IH]) auto
qed

lemma owner_id_slot:
  assumes g: "graph_ok g"
  shows "owner g x \<Longrightarrow> \<exists>i. owner_slot g i \<and> slot_id g i = x"
proof (induction rule: owner.induct)
  case (owner_root x)
  then obtain n where "Node g x = Some n" by blast
  then obtain i where "slot g i = Some n" "slot_id g i = x" using id_slot [OF g] by blast
  then show ?case using no_parents_ids [OF g, of i] owner_root by (intro exI [of _ i]) (auto intro: slot_root)
next
  case (owner_step x y)
  then obtain i where i: "owner_slot g i" "slot_id g i = x" by blast
  obtain n where n: "Node g y = Some n" using edge_of_nodes [OF g owner_step.hyps(2)] by blast
  then obtain j where j: "slot g j = Some n" "slot_id g j = y" using id_slot [OF g] by blast
  have "(i, j) \<in> slot_edges g"
    using slot_edge_ids [OF g owner_slot_live [OF g i(1)], of j] owner_step.hyps(2) i(2) j by simp
  then show ?case using slot_step [OF i(1), of j] owner_step.hyps(3) n j by auto
qed

lemma owner_iff: "graph_ok g \<Longrightarrow> slot g i \<noteq> None \<Longrightarrow> owner g (slot_id g i) \<longleftrightarrow> owner_slot g i"
  using owner_slot_id owner_id_slot owner_slot_live node_ids_inj by metis

lemma own_pair [simp]:
  "own g (direct, owners) c = (c # direct, if structural g c \<and> c \<notin> set owners then owners @ [c] else owners)"
  by (simp add: own_def)

lemma foldl_own:
  "\<exists>new. foldl (own g) (direct, owners) cs = (rev cs @ direct, owners @ new) \<and> distinct new
     \<and> set new = {c \<in> set cs. structural g c} - set owners"
proof (induction cs arbitrary: direct owners)
  case (Cons c cs)
  let ?o = "if structural g c \<and> c \<notin> set owners then owners @ [c] else owners"
  obtain new where new: "foldl (own g) (c # direct, ?o) cs = (rev cs @ c # direct, ?o @ new)" "distinct new"
    "set new = {c \<in> set cs. structural g c} - set ?o" using Cons.IH by blast
  show ?case
    using new by (intro exI [of _ "(if structural g c \<and> c \<notin> set owners then [c] else []) @ new"]) (auto split: if_splits)
qed simp

lemma structural_slot: "graph_ok g \<Longrightarrow> i < length (nodes g) \<Longrightarrow> structural g i \<longleftrightarrow> slot g i \<noteq> None \<and> AsDependencyNode (slot g i) = None"
  by (auto simp: structural_def slot_def graph_ok_def slots_ok_def)

lemma own_loop_spec:
  assumes g: "graph_ok g"
  shows "distinct owners \<Longrightarrow> \<forall>i \<in> set owners. owner_slot g i \<Longrightarrow> cursor \<le> length owners \<Longrightarrow>
    \<forall>i. slot g i \<noteq> None \<and> (\<forall>p. (p, i) \<notin> slot_edges g) \<longrightarrow> i \<in> set owners \<Longrightarrow>
    set direct = {c. \<exists>i \<in> set (take cursor owners). (i, c) \<in> slot_edges g} \<Longrightarrow>
    \<forall>c \<in> set direct. AsDependencyNode (slot g c) = None \<longrightarrow> c \<in> set owners \<Longrightarrow>
    length (nodes g) \<le> fuel + cursor \<Longrightarrow>
    \<exists>d. own_loop g fuel cursor (direct, owners) = Some d \<and> set d = {c. \<exists>i. owner_slot g i \<and> (i, c) \<in> slot_edges g}"
proof (induction fuel arbitrary: cursor direct owners)
  have finish: "\<exists>d. Some direct = Some d \<and> set d = {c. \<exists>i. owner_slot g i \<and> (i, c) \<in> slot_edges g}"
    if "\<forall>i \<in> set owners. owner_slot g i"
      "\<forall>i. slot g i \<noteq> None \<and> (\<forall>p. (p, i) \<notin> slot_edges g) \<longrightarrow> i \<in> set owners"
      "set direct = {c. \<exists>i \<in> set owners. (i, c) \<in> slot_edges g}"
      "\<forall>c \<in> set direct. AsDependencyNode (slot g c) = None \<longrightarrow> c \<in> set owners" for direct owners
  proof -
    have "owner_slot g i \<Longrightarrow> i \<in> set owners" for i
    proof (induction rule: owner_slot.induct)
      case (slot_step i j)
      then have "j \<in> set direct" using that(3) by blast
      then show ?case using that(4) slot_step.hyps(3) by blast
    qed (use that(2) in blast)
    then have "owner_slot g i \<longleftrightarrow> i \<in> set owners" for i using that(1) by blast
    then show ?thesis using that(3) by (simp add: Bex_def)
  qed
  {
    case 0
    have "set owners \<subseteq> {..<length (nodes g)}"
      using 0(2) owner_slot_live [OF g] slot_Some_less by blast
    then have "length owners \<le> length (nodes g)" using 0(1) by (metis card_lessThan card_mono distinct_card finite_lessThan)
    then have c: "cursor = length owners" using 0(3,7) by simp
    then show ?case using finish [OF 0(2,4) _ 0(6)] 0(5) by simp
  next
    case (Suc fuel)
    show ?case
    proof (cases "cursor < length owners")
      case False
      then have "take cursor owners = owners" by simp
      then show ?thesis using finish [OF Suc.prems(2,4) _ Suc.prems(6)] Suc.prems(5) False by simp
    next
      case True
      let ?o = "owners ! cursor"
      have o: "owner_slot g ?o" using Suc.prems(2) True by simp
      then have ol: "?o < length (nodes g)" using owner_slot_live [OF g] slot_Some_less by blast
      let ?cs = "mkeys (outgoing g ! ?o)"
      have cs: "set ?cs = {c. (?o, c) \<in> slot_edges g}" by (rule children_set [OF g ol])
      obtain new where new: "foldl (own g) (direct, owners) ?cs = (rev ?cs @ direct, owners @ new)" "distinct new"
        "set new = {c \<in> set ?cs. structural g c} - set owners" using foldl_own by blast
      have st: "structural g c \<longleftrightarrow> AsDependencyNode (slot g c) = None" if "(?o, c) \<in> slot_edges g" for c
        using structural_slot [OF g, of c] slot_edges_less [OF g that] by blast
      have fresh: "\<forall>c \<in> set new. owner_slot g c \<and> c \<notin> set owners"
        unfolding new(3) cs using st o by (auto intro: slot_step)
      have "\<exists>d. own_loop g fuel (Suc cursor) (rev ?cs @ direct, owners @ new) = Some d
          \<and> set d = {c. \<exists>i. owner_slot g i \<and> (i, c) \<in> slot_edges g}"
      proof (rule Suc.IH)
        show "distinct (owners @ new)" using Suc.prems(1) new(2) fresh by auto
        show "\<forall>i \<in> set (owners @ new). owner_slot g i" using Suc.prems(2) fresh by auto
        show "Suc cursor \<le> length (owners @ new)" using True by simp
        show "\<forall>i. slot g i \<noteq> None \<and> (\<forall>p. (p, i) \<notin> slot_edges g) \<longrightarrow> i \<in> set (owners @ new)" using Suc.prems(4) by auto
        have "set (take (Suc cursor) (owners @ new)) = insert ?o (set (take cursor owners))"
          using True by (simp add: take_Suc_conv_app_nth)
        then show "set (rev ?cs @ direct) = {c. \<exists>i \<in> set (take (Suc cursor) (owners @ new)). (i, c) \<in> slot_edges g}"
          using Suc.prems(5) cs by (auto simp del: set_map)
        show "\<forall>c \<in> set (rev ?cs @ direct). AsDependencyNode (slot g c) = None \<longrightarrow> c \<in> set (owners @ new)"
          using Suc.prems(6) new(3) cs st by (auto simp del: set_map)
        show "length (nodes g) \<le> fuel + Suc cursor" using Suc.prems(7) by simp
      qed
      then show ?thesis using True new(1) by simp
    qed
  }
qed

lemma Roots_slots:
  assumes g: "graph_ok g"
  shows "set (Roots g) = node_at g ` {i. slot g i \<noteq> None \<and> (\<forall>p. (p, i) \<notin> slot_edges g)}"
proof -
  have "incoming g ! i = [] \<longleftrightarrow> (\<forall>p. (p, i) \<notin> slot_edges g)" if "slot g i \<noteq> None" for i
    using parents_set [OF g, of i] that slot_Some_less [of g i] by auto
  then show ?thesis by (auto simp: Roots_def set_sortedIndices [OF g])
qed

lemma usable_edges_iff:
  assumes g: "graph_ok g"
  shows "0 < length (Roots g) \<and> length (Roots g) \<noteq> node_count g \<longleftrightarrow> usable_edges g"
proof -
  have len: "length (Roots g) = length (filter (\<lambda>i. incoming g ! i = []) (sortedIndices g))" by (simp add: Roots_def)
  have n: "node_count g = length (sortedIndices g)" using Graph_Nodes_length [OF g] by (simp add: Graph_Nodes_def)
  have par: "incoming g ! i = [] \<longleftrightarrow> (\<forall>p. edge_of g p (slot_id g i) = None)" if "slot g i \<noteq> None" for i
    unfolding no_parents_ids [OF g that] using parents_set [OF g, of i] that slot_Some_less [of g i] by auto
  have live: "i \<in> set (sortedIndices g) \<longleftrightarrow> slot g i \<noteq> None" for i by (simp add: set_sortedIndices [OF g])
  have "0 < length (Roots g) \<longleftrightarrow> (\<exists>x. Node g x \<noteq> None \<and> (\<forall>p. edge_of g p x = None))"
  proof -
    have "0 < length (Roots g) \<longleftrightarrow> (\<exists>i. slot g i \<noteq> None \<and> (\<forall>p. edge_of g p (slot_id g i) = None))"
      unfolding len length_greater_0_conv filter_empty_conv using live par by blast
    also have "\<dots> \<longleftrightarrow> (\<exists>x. Node g x \<noteq> None \<and> (\<forall>p. edge_of g p x = None))"
    proof
      assume "\<exists>i. slot g i \<noteq> None \<and> (\<forall>p. edge_of g p (slot_id g i) = None)"
      then obtain i where "slot g i \<noteq> None" "\<forall>p. edge_of g p (slot_id g i) = None" by blast
      then show "\<exists>x. Node g x \<noteq> None \<and> (\<forall>p. edge_of g p x = None)"
        using slot_node [OF g, of i] by (intro exI [of _ "slot_id g i"]) simp
    next
      assume "\<exists>x. Node g x \<noteq> None \<and> (\<forall>p. edge_of g p x = None)"
      then obtain x n where x: "Node g x = Some n" "\<forall>p. edge_of g p x = None" by blast
      obtain i where "slot g i = Some n" "slot_id g i = x" using id_slot [OF g x(1)] by blast
      with x(2) show "\<exists>i. slot g i \<noteq> None \<and> (\<forall>p. edge_of g p (slot_id g i) = None)" by (intro exI [of _ i]) simp
    qed
    finally show ?thesis .
  qed
  moreover have "length (Roots g) = node_count g \<longleftrightarrow> (\<forall>x y. edge_of g x y = None)"
  proof -
    have "length (Roots g) = node_count g \<longleftrightarrow> (\<forall>i. slot g i \<noteq> None \<longrightarrow> (\<forall>p. edge_of g p (slot_id g i) = None))"
    proof -
      have all: "length (filter P xs) = length xs \<longleftrightarrow> (\<forall>x \<in> set xs. P x)" for P :: "nat \<Rightarrow> bool" and xs
        using length_filter_less [of _ xs P] by fastforce
      show ?thesis unfolding len n all Ball_def live using par by blast
    qed
    also have "\<dots> \<longleftrightarrow> (\<forall>x y. edge_of g x y = None)"
    proof (intro iffI allI impI)
      fix x y assume no: "\<forall>i. slot g i \<noteq> None \<longrightarrow> (\<forall>p. edge_of g p (slot_id g i) = None)"
      show "edge_of g x y = None"
      proof (rule ccontr)
        assume e: "edge_of g x y \<noteq> None"
        obtain i j where "slot g j \<noteq> None" "slot_id g i = x" "slot_id g j = y" using id_edge_slots [OF g e] by blast
        with no [rule_format, of j x] e show False by simp
      qed
    qed simp
    finally show ?thesis .
  qed
  ultimately show ?thesis by (auto simp: usable_edges_def)
qed

lemma map_filter_set: "set (List.map_filter f xs) = {y. \<exists>x \<in> set xs. f x = Some y}"
  by (induction xs) (auto simp: map_filter_simps split: option.splits)

lemma direct_slots_spec:
  assumes g: "graph_ok g"
  shows "\<exists>d. direct_slots g = Some d \<and> (usable_edges g \<longrightarrow> set d = {c. \<exists>i. owner_slot g i \<and> (i, c) \<in> slot_edges g})"
proof (cases "usable_edges g")
  case True
  let ?R = "{i. slot g i \<noteq> None \<and> (\<forall>p. (p, i) \<notin> slot_edges g)}"
  let ?s = "remdups (List.map_filter (\<lambda>r. mget (indexByID g) (NodeID r)) (Roots g))"
  have "mget (indexByID g) (slot_id g i) = Some i" if "slot g i \<noteq> None" for i
    using slot_index [of g i "node_at g i"] slot_node [OF g that] g by (simp add: graph_ok_def)
  then have s: "set ?s = ?R" unfolding set_remdups map_filter_set Roots_slots [OF g] by auto
  have "\<exists>d. own_loop g (length (nodes g)) 0 ([], ?s) = Some d \<and> set d = {c. \<exists>i. owner_slot g i \<and> (i, c) \<in> slot_edges g}"
    using s by (intro own_loop_spec [OF g]) (auto intro: slot_root simp del: set_remdups)
  then show ?thesis using True usable_edges_iff [OF g] by (simp add: direct_slots_def Let_def)
next
  case False
  then show ?thesis using usable_edges_iff [OF g] by (auto simp: direct_slots_def)
qed

section \<open>What the maps hold\<close>

lemma foldl_mput_fun:
  "\<forall>(i, r) \<in> set ps. f i = Some r \<Longrightarrow>
   mget (foldl (\<lambda>m (i, r). mput i r m) m ps) x = (if x \<in> fst ` set ps then f x else mget m x)"
  by (induction ps arbitrary: m) (auto simp: gomap_simps)

lemma foldl_mput_ok: "gomap_ok m \<Longrightarrow> gomap_ok (foldl (\<lambda>m (i, r). mput i r m) m ps)"
  by (induction ps arbitrary: m) auto

definition implied_relationship :: "graph \<Rightarrow> string \<Rightarrow> dependency_node \<Rightarrow> relationship" where
  "implied_relationship g x dep =
     (if Relationship dep \<noteq> [] then Relationship dep
      else if usable_edges g \<and> (\<exists>p. edge_of g p x \<noteq> None)
      then (if \<exists>w. owner g w \<and> edge_of g w x \<noteq> None then DependencyRelationshipDirect else DependencyRelationshipTransitive)
      else DependencyRelationshipUnknown)"

lemma relationship_at_implied:
  assumes g: "graph_ok g" and i: "slot g i = Some (DependencyNode dep)"
    and d: "usable_edges g \<longrightarrow> set direct = {c. \<exists>i. owner_slot g i \<and> (i, c) \<in> slot_edges g}"
  shows "relationship_at g direct i = Some (dependency_id dep, implied_relationship g (dependency_id dep) dep)"
proof -
  have il: "i < length (nodes g)" "nodes g ! i = Some (DependencyNode dep)" using slot_Some_less [OF i] by auto
  have x: "slot_id g i = dependency_id dep" using slot_ids [OF g i] by simp
  have parents: "0 < length (incoming g ! i) \<longleftrightarrow> (\<exists>p. edge_of g p (dependency_id dep) \<noteq> None)"
    using no_parents_ids [OF g, of i] parents_set [OF g il(1)] i x by auto
  have "(\<exists>w. owner g w \<and> edge_of g w (dependency_id dep) \<noteq> None) \<longleftrightarrow> (\<exists>w. owner_slot g w \<and> (w, i) \<in> slot_edges g)"
  proof
    assume "\<exists>w. owner g w \<and> edge_of g w (dependency_id dep) \<noteq> None"
    then obtain w where o: "owner g w" "edge_of g w (dependency_id dep) \<noteq> None" by blast
    then obtain j where "owner_slot g j" "slot_id g j = w" using owner_id_slot [OF g] by blast
    then show "\<exists>w. owner_slot g w \<and> (w, i) \<in> slot_edges g"
      using slot_edge_ids [OF g owner_slot_live [OF g], of j i] i o(2) x by auto
  next
    assume "\<exists>w. owner_slot g w \<and> (w, i) \<in> slot_edges g"
    then obtain j where j: "owner_slot g j" "(j, i) \<in> slot_edges g" by blast
    then show "\<exists>w. owner g w \<and> edge_of g w (dependency_id dep) \<noteq> None"
      using slot_edge_ids [OF g owner_slot_live [OF g j(1)], of i] owner_slot_id [OF g j(1)] i x by auto
  qed
  with d have direct: "usable_edges g \<Longrightarrow> i \<in> set direct \<longleftrightarrow> (\<exists>w. owner g w \<and> edge_of g w (dependency_id dep) \<noteq> None)" by blast
  show ?thesis
    unfolding relationship_at_def il(2) usable_edges_iff [OF g] parents
    using direct by (auto simp: relationshipForDepth_def implied_relationship_def)
qed

lemma dependencyRelationshipsForGraph_implied:
  assumes g: "graph_ok g"
  shows "\<exists>m. dependencyRelationshipsForGraph (Some g) = Some m \<and> gomap_ok m
    \<and> (\<forall>x. mget m x = map_option (implied_relationship g x) (AsDependencyNode (Node g x)))"
proof -
  obtain d where d: "direct_slots g = Some d" "usable_edges g \<longrightarrow> set d = {c. \<exists>i. owner_slot g i \<and> (i, c) \<in> slot_edges g}"
    using direct_slots_spec [OF g] by blast
  let ?ps = "List.map_filter (relationship_at g d) (live_slots g)"
  have at: "relationship_at g d i = (case slot g i of Some (DependencyNode dep) \<Rightarrow> Some (dependency_id dep, implied_relationship g (dependency_id dep) dep) | _ \<Rightarrow> None)"
    if "slot g i \<noteq> None" for i
    using relationship_at_implied [OF g _ d(2), of i] that slot_Some_less [of g i]
    by (auto simp: relationship_at_def split: option.split graph_node.split)
  let ?f = "\<lambda>x. map_option (implied_relationship g x) (AsDependencyNode (Node g x))"
  have ps: "(x, r) \<in> set ?ps \<longleftrightarrow> ?f x = Some r" for x r
  proof
    assume "(x, r) \<in> set ?ps"
    then obtain i where "slot g i \<noteq> None" "relationship_at g d i = Some (x, r)"
      unfolding map_filter_set by (auto simp: live_slots_set [OF g])
    with at [of i] obtain dep where "slot g i = Some (DependencyNode dep)" "x = dependency_id dep" "r = implied_relationship g x dep"
      by (auto split: option.splits graph_node.splits)
    then show "?f x = Some r" using slot_ids [OF g, of i] slot_node [OF g, of i] by auto
  next
    assume "?f x = Some r"
    then obtain dep where dep: "Node g x = Some (DependencyNode dep)" "r = implied_relationship g x dep"
      by (cases "Node g x" rule: AsDependencyNode.cases) auto
    then obtain i where "slot g i = Some (DependencyNode dep)" "x = dependency_id dep"
      using id_slot [OF g dep(1)] by auto
    then show "(x, r) \<in> set ?ps"
      unfolding map_filter_set using at [of i] dep(2) by (auto simp: live_slots_set [OF g])
  qed
  let ?m = "foldl (\<lambda>m (i, r). mput i r m) [] ?ps"
  have m: "mget ?m x = ?f x" for x
  proof -
    have "\<forall>p \<in> set ?ps. ?f (fst p) = Some (snd p)" by (intro ballI) (simp only: ps [symmetric] prod.collapse)
    then have "\<forall>(i, r) \<in> set ?ps. ?f i = Some r" by (simp only: case_prod_unfold)
    from foldl_mput_fun [OF this, of "[]" x] have mx: "mget ?m x = (if x \<in> fst ` set ?ps then ?f x else None)" by (simp only: map_of.simps)
    have "x \<in> fst ` S \<longleftrightarrow> (\<exists>r. (x, r) \<in> S)" for S :: "(string \<times> relationship) set" by force
    then have "x \<in> fst ` set ?ps \<longleftrightarrow> ?f x \<noteq> None" by (simp only: ps not_None_eq)
    then show ?thesis using mx by metis
  qed
  have "dependencyRelationshipsForGraph (Some g) = Some ?m"
  proof (cases "node_count g = 0")
    case True
    then have "live_slots g = []" using live_slots_length [OF g] by simp
    then show ?thesis using True by (simp add: dependencyRelationshipsForGraph_def map_filter_simps)
  next
    case False
    then show ?thesis using d(1) by (simp add: dependencyRelationshipsForGraph_def)
  qed
  then show ?thesis using m foldl_mput_ok [of "[]"] by auto
qed

lemma dependencyRelationshipsForGraph_total: "graph_ok g \<Longrightarrow> \<exists>m. dependencyRelationshipsForGraph (Some g) = Some m"
  using dependencyRelationshipsForGraph_implied by blast

text \<open>The relationships a consistent graph implies for its dependencies: one for each of them and for
  nothing else, which is the declared one where there is one; otherwise unknown when the graph has
  no usable edges or nothing depends on it; otherwise direct when it hangs off a root, or off a
  structural node that a root reaches through structural nodes only, and transitive when not.\<close>

lemma dependencyRelationshipsForGraph_spec:
  assumes g: "graph_ok g"
  shows "\<exists>m. dependencyRelationshipsForGraph (Some g) = Some m \<and> gomap_ok m
    \<and> (\<forall>x. mget m x = map_option (implied_relationship g x) (AsDependencyNode (Node g x)))"
  by (rule dependencyRelationshipsForGraph_implied [OF g])

section \<open>Groups\<close>

abbreviation dep_key :: "library \<Rightarrow> dependency_node \<Rightarrow> string" where
  "dep_key L n \<equiv> diffIdentityKey L (Some n)"

lemma foldl_add_to_group:
  "mget (foldl (add_to_group L) m ns) key =
     (let new = filter (\<lambda>n. dep_key L n = key) ns
      in case mget m key of None \<Rightarrow> (if new = [] then None else Some new) | Some old \<Rightarrow> Some (old @ new))"
  by (induction ns arbitrary: m) (auto simp: add_to_group_def Let_def gomap_simps split: option.split)

lemma group_members: "group_of (groupNodesByIdentity L indexed) key = sortNodesForDiff (filter (\<lambda>n. dep_key L n = key) (map snd indexed))"
  by (auto simp: group_of_def groupNodesByIdentity_def foldl_add_to_group Let_def split: option.split)

lemma group_keys: "set (mkeys (groupNodesByIdentity L indexed)) = dep_key L ` set (map snd indexed)"
proof (rule set_eqI)
  fix key
  have "key \<in> set (mkeys (groupNodesByIdentity L indexed)) \<longleftrightarrow> mget (groupNodesByIdentity L indexed) key \<noteq> None"
    by (simp only: mget_None_mkeys not_not)
  then show "key \<in> set (mkeys (groupNodesByIdentity L indexed)) \<longleftrightarrow> key \<in> dep_key L ` set (map snd indexed)"
    by (auto simp: groupNodesByIdentity_def foldl_add_to_group Let_def filter_empty_conv simp del: set_map)
qed

lemma mset_by_key:
  "distinct ks \<Longrightarrow> f ` set xs \<subseteq> set ks \<Longrightarrow> mset (concat (map (\<lambda>k. filter (\<lambda>x. f x = k) xs) ks)) = mset xs"
proof (induction ks arbitrary: xs)
  case (Cons k ks)
  let ?rest = "filter (\<lambda>x. f x \<noteq> k) xs"
  have "map (\<lambda>k. filter (\<lambda>x. f x = k) ?rest) ks = map (\<lambda>k. filter (\<lambda>x. f x = k) xs) ks"
    using Cons.prems(1) by (auto intro!: filter_cong)
  moreover have "mset (concat (map (\<lambda>k. filter (\<lambda>x. f x = k) ?rest) ks)) = mset ?rest"
    using Cons.prems by (intro Cons.IH) auto
  ultimately have "mset (concat (map (\<lambda>k. filter (\<lambda>x. f x = k) xs) ks)) = mset ?rest" by metis
  then show ?case by (simp only: list.map concat.simps mset_append mset_filter) (rule multiset_partition [symmetric])
qed simp

lemma mset_sortNodesForDiff [simp]: "mset (sortNodesForDiff ns) = mset ns"
  by (simp add: sortNodesForDiff_def)

lemma set_sortNodesForDiff [simp]: "set (sortNodesForDiff ns) = set ns"
  by (simp add: sortNodesForDiff_def)

lemma mset_concat_map_cong: "(\<And>x. x \<in> set xs \<Longrightarrow> mset (f x) = mset (g x)) \<Longrightarrow> mset (concat (map f xs)) = mset (concat (map g xs))"
  by (induction xs) auto

lemma mset_concat_split:
  "(\<And>x. x \<in> set xs \<Longrightarrow> mset (f x) = mset (g x) + mset (h x)) \<Longrightarrow>
   mset (concat (map f xs)) = mset (concat (map g xs)) + mset (concat (map h xs))"
  by (induction xs) auto

section \<open>Indexed nodes\<close>

lemma WalkDependencyNodes_set:
  assumes g: "graph_ok g"
  shows "n \<in> set (WalkDependencyNodes g) \<longleftrightarrow> Node g (dependency_id n) = Some (DependencyNode n)"
proof -
  have "AsDependencyNode (Some m) = Some n \<longleftrightarrow> m = DependencyNode n" for m by (cases m) auto
  then have "n \<in> set (WalkDependencyNodes g) \<longleftrightarrow> DependencyNode n \<in> set (WalkNodes g)"
    by (auto simp: WalkDependencyNodes_def map_filter_set)
  then show ?thesis using WalkNodes_set [OF g] by simp
qed

lemma indexDiffableNodes_spec:
  assumes g: "graph_ok g"
  shows "gomap_ok (indexDiffableNodes (Some g)) \<and>
    (mget (indexDiffableNodes (Some g)) x = Some n \<longleftrightarrow> Node g x = Some (DependencyNode n) \<and> x = dependency_id n)"
proof -
  let ?ps = "map (\<lambda>n. (dependency_id n, n)) (WalkDependencyNodes g)"
  let ?f = "\<lambda>x. AsDependencyNode (Node g x)"
  have ix: "indexDiffableNodes (Some g) = foldl (\<lambda>m (i, r). mput i r m) [] ?ps"
    by (simp add: indexDiffableNodes_def foldl_map)
  have "\<forall>(i, r) \<in> set ?ps. ?f i = Some r" using WalkDependencyNodes_set [OF g] by auto
  from foldl_mput_fun [OF this, of "[]" x]
  have "mget (indexDiffableNodes (Some g)) x = (if x \<in> fst ` set ?ps then ?f x else None)" unfolding ix by simp
  moreover have "x \<in> fst ` set ?ps \<longleftrightarrow> (\<exists>n. Node g x = Some (DependencyNode n))"
    using WalkDependencyNodes_set [OF g] Node_id [OF g, of x] by force
  moreover have "Node g x = Some (DependencyNode n) \<Longrightarrow> x = dependency_id n" using Node_id [OF g, of x] by force
  ultimately show ?thesis using foldl_mput_ok [of "[]" ?ps] unfolding ix by auto
qed

section \<open>The comparison\<close>

text \<open>The dependencies of one graph whose ID the other has no dependency for.\<close>

definition only_in :: "graph \<Rightarrow> graph \<Rightarrow> dependency_node \<Rightarrow> bool" where
  "only_in g h n \<longleftrightarrow> Node g (dependency_id n) = Some (DependencyNode n) \<and> AsDependencyNode (Node h (dependency_id n)) = None"

definition remainder :: "graph \<Rightarrow> graph \<Rightarrow> (string, dependency_node) gomap" where
  "remainder g h = filter (\<lambda>(i, n). mget (indexDiffableNodes (Some h)) i = None) (indexDiffableNodes (Some g))"

lemma AsDependencyNode_Some: "AsDependencyNode x = Some n \<longleftrightarrow> x = Some (DependencyNode n)"
  by (cases x rule: AsDependencyNode.cases) auto

lemma indexed_member:
  assumes g: "graph_ok g"
  shows "(x, n) \<in> set (indexDiffableNodes (Some g)) \<longleftrightarrow> Node g x = Some (DependencyNode n) \<and> x = dependency_id n"
  using indexDiffableNodes_spec [OF g] mem_iff_mget [of "indexDiffableNodes (Some g)" x n] by blast

lemma indexed_None: "graph_ok g \<Longrightarrow> mget (indexDiffableNodes (Some g)) x = None \<longleftrightarrow> AsDependencyNode (Node g x) = None"
proof -
  assume g: "graph_ok g"
  have "mget (indexDiffableNodes (Some g)) x = Some n \<longleftrightarrow> AsDependencyNode (Node g x) = Some n" for n
    using indexDiffableNodes_spec [OF g, of x n] Node_id [OF g, of x] by (auto simp: AsDependencyNode_Some)
  then show ?thesis by (metis option.exhaust option.distinct(1))
qed

lemma remainder_nodes:
  assumes g: "graph_ok g" and h: "graph_ok h"
  shows "distinct (map snd (remainder g h))" "set (map snd (remainder g h)) = {n. only_in g h n}"
proof -
  have "gomap_ok (indexDiffableNodes (Some g))" using indexDiffableNodes_spec [OF g] by blast
  then have d: "distinct (remainder g h)" by (auto simp: remainder_def gomap_ok_def distinct_map)
  have "inj_on snd (set (remainder g h))"
    by (rule inj_onI) (auto simp: remainder_def indexed_member [OF g])
  with d show "distinct (map snd (remainder g h))" by (simp add: distinct_map)
  show "set (map snd (remainder g h)) = {n. only_in g h n}"
    by (force simp: remainder_def indexed_member [OF g] indexed_None [OF h] only_in_def)
qed

lemma zip_drop_mset:
  "mset (map fst (zip xs ys)) + mset (drop (length ys) xs) = mset xs"
  "mset (map snd (zip xs ys)) + mset (drop (length xs) ys) = mset ys"
proof -
  have "map fst (zip xs ys) = take (length ys) xs" by (simp add: map_fst_zip_take min_def)
  then show "mset (map fst (zip xs ys)) + mset (drop (length ys) xs) = mset xs"
    by (metis append_take_drop_id mset_append)
  have "map snd (zip xs ys) = take (length xs) ys" by (simp add: map_snd_zip_take min_def)
  then show "mset (map snd (zip xs ys)) + mset (drop (length xs) ys) = mset ys"
    by (metis append_take_drop_id mset_append)
qed

definition updated_pairs :: "library \<Rightarrow> (string, dependency_node list) gomap \<Rightarrow> (string, dependency_node list) gomap \<Rightarrow> string list \<Rightarrow> version_change list" where
  "updated_pairs L bs hs keys = concat (map (\<lambda>key. map (\<lambda>(b, a). \<lparr>ChangeBefore = b, ChangeAfter = a\<rparr>)
     (zip (group_of bs key) (group_of hs key))) keys)"

definition unpaired :: "(string, dependency_node list) gomap \<Rightarrow> (string, dependency_node list) gomap \<Rightarrow> string list \<Rightarrow> dependency_node list" where
  "unpaired bs hs keys = concat (map (\<lambda>key. drop (length (group_of hs key)) (group_of bs key)) keys)"

lemma group_mset:
  assumes "distinct keys" "set (mkeys (groupNodesByIdentity L indexed)) \<subseteq> set keys"
  shows "mset (concat (map (group_of (groupNodesByIdentity L indexed)) keys)) = mset (map snd indexed)"
proof -
  have "mset (concat (map (group_of (groupNodesByIdentity L indexed)) keys))
      = mset (concat (map (\<lambda>key. filter (\<lambda>n. dep_key L n = key) (map snd indexed)) keys))"
    by (rule mset_concat_map_cong) (simp add: group_members)
  also have "\<dots> = mset (map snd indexed)"
    using assms unfolding group_keys by (intro mset_by_key)
  finally show ?thesis .
qed

lemma updated_before:
  assumes "distinct keys" "set (mkeys (groupNodesByIdentity L bs)) \<subseteq> set keys"
  shows "mset (map ChangeBefore (updated_pairs L (groupNodesByIdentity L bs) hs keys))
      + mset (unpaired (groupNodesByIdentity L bs) hs keys) = mset (map snd bs)"
proof -
  let ?b = "group_of (groupNodesByIdentity L bs)" and ?h = "group_of hs"
  have "map ChangeBefore (updated_pairs L (groupNodesByIdentity L bs) hs keys) = concat (map (\<lambda>key. map fst (zip (?b key) (?h key))) keys)"
    by (simp add: updated_pairs_def map_concat comp_def case_prod_unfold)
  then have "mset (map ChangeBefore (updated_pairs L (groupNodesByIdentity L bs) hs keys))
      + mset (unpaired (groupNodesByIdentity L bs) hs keys) = mset (concat (map ?b keys))"
    unfolding unpaired_def by (simp only:) (rule mset_concat_split [symmetric], rule zip_drop_mset(1) [symmetric])
  with group_mset [OF assms] show ?thesis by simp
qed

lemma updated_after:
  assumes "distinct keys" "set (mkeys (groupNodesByIdentity L hs)) \<subseteq> set keys"
  shows "mset (map ChangeAfter (updated_pairs L bs (groupNodesByIdentity L hs) keys))
      + mset (unpaired (groupNodesByIdentity L hs) bs keys) = mset (map snd hs)"
proof -
  let ?h = "group_of (groupNodesByIdentity L hs)" and ?b = "group_of bs"
  have "map ChangeAfter (updated_pairs L bs (groupNodesByIdentity L hs) keys) = concat (map (\<lambda>key. map snd (zip (?b key) (?h key))) keys)"
    by (simp add: updated_pairs_def map_concat comp_def case_prod_unfold)
  then have "mset (map ChangeAfter (updated_pairs L bs (groupNodesByIdentity L hs) keys))
      + mset (unpaired (groupNodesByIdentity L hs) bs keys) = mset (concat (map ?h keys))"
    unfolding unpaired_def by (simp only:) (rule mset_concat_split [symmetric], rule zip_drop_mset(2) [symmetric])
  with group_mset [OF assms] show ?thesis by simp
qed

lemma updated_same_key:
  assumes "u \<in> set (updated_pairs L (groupNodesByIdentity L bs) (groupNodesByIdentity L hs) keys)"
  shows "dep_key L (ChangeBefore u) = dep_key L (ChangeAfter u)"
proof -
  obtain key p where p: "p \<in> set (zip (group_of (groupNodesByIdentity L bs) key) (group_of (groupNodesByIdentity L hs) key))"
    "u = \<lparr>ChangeBefore = fst p, ChangeAfter = snd p\<rparr>"
    using assms by (auto simp: updated_pairs_def case_prod_unfold)
  then have "fst p \<in> set (group_of (groupNodesByIdentity L bs) key)" "snd p \<in> set (group_of (groupNodesByIdentity L hs) key)"
    by (metis in_set_zipE prod.collapse)+
  then show ?thesis using p(2) by (simp add: group_members)
qed

lemma unpaired_keys:
  assumes "n \<in> set (unpaired (groupNodesByIdentity L bs) hs keys)"
  shows "length (group_of hs (dep_key L n)) < length (group_of (groupNodesByIdentity L bs) (dep_key L n))"
proof -
  obtain key where n: "n \<in> set (drop (length (group_of hs key)) (group_of (groupNodesByIdentity L bs) key))"
    using assms by (auto simp: unpaired_def)
  then have "dep_key L n = key" by (auto simp: group_members dest: in_set_dropD)
  moreover have "length (group_of hs key) < length (group_of (groupNodesByIdentity L bs) key)"
    using n by (metis drop_all empty_iff empty_set linorder_not_less)
  ultimately show ?thesis by simp
qed

lemma Compare_eq:
  assumes "dependencyRelationshipsForGraph base = Some rb" "dependencyRelationshipsForGraph head = Some rh"
  shows "Compare L base head =
    (let bs = groupNodesByIdentity L (filter (\<lambda>(i, n). mget (indexDiffableNodes head) i = None) (indexDiffableNodes base));
         hs = groupNodesByIdentity L (filter (\<lambda>(i, n). mget (indexDiffableNodes base) i = None) (indexDiffableNodes head));
         keys = remdups (mkeys bs @ mkeys hs)
     in Some \<lparr>DiffAdded = sortNodesForDiff (unpaired hs bs keys), DiffRemoved = sortNodesForDiff (unpaired bs hs keys),
          DiffUpdated = sort_updated L (updated_pairs L bs hs keys),
          DiffTransitions = SortDependencyDetailTransitions L
            (List.map_filter (\<lambda>(i, node). case mget (indexDiffableNodes head) i of None \<Rightarrow> None
                 | Some headNode \<Rightarrow> compareDependencyDetails (Some node) (Some headNode) rb rh) (indexDiffableNodes base)
             @ List.map_filter (\<lambda>u. compareDependencyDetails (Some (ChangeBefore u)) (Some (ChangeAfter u)) rb rh)
                 (updated_pairs L bs hs keys))\<rparr>)"
  using assms by (simp add: Compare_def Let_def updated_pairs_def unpaired_def)

lemma set_SortDependencyDetailTransitions [simp]: "set (SortDependencyDetailTransitions L ts) = set ts"
  by (simp add: SortDependencyDetailTransitions_def)

lemma mset_sort_updated [simp]: "mset (sort_updated L us) = mset us"
  by (simp add: sort_updated_def)

lemma set_sort_updated [simp]: "set (sort_updated L us) = set us"
  by (simp add: sort_updated_def)

lemma mset_split_distinct:
  "mset xs + mset ys = mset zs \<Longrightarrow> distinct zs \<Longrightarrow> mset xs' = mset xs \<Longrightarrow> mset ys' = mset ys \<Longrightarrow>
   distinct (ys' @ xs') \<and> set ys' \<union> set xs' = set zs"
  by (metis add.commute mset_append mset_eq_imp_distinct_iff mset_eq_setD set_append)

text \<open>C22. Comparing two consistent graphs partitions their dependencies: what only the first has is
  either removed or the older side of an update, once, and what only the second has is either added
  or the newer side; the sides of an update share their version-less identity; no removed and no
  added dependency share one, so the pairing is as large as it can be; and the detail transitions are
  those between the two records of one ID and between the sides of the updates, exactly where the
  details differ.\<close>

theorem Compare_spec:
  assumes g: "graph_ok g" and h: "graph_ok h"
  shows "\<exists>d rg rh. Compare L (Some g) (Some h) = Some d
    \<and> dependencyRelationshipsForGraph (Some g) = Some rg \<and> dependencyRelationshipsForGraph (Some h) = Some rh
    \<and> distinct (DiffRemoved d @ map ChangeBefore (DiffUpdated d))
    \<and> set (DiffRemoved d) \<union> set (map ChangeBefore (DiffUpdated d)) = {n. only_in g h n}
    \<and> distinct (DiffAdded d @ map ChangeAfter (DiffUpdated d))
    \<and> set (DiffAdded d) \<union> set (map ChangeAfter (DiffUpdated d)) = {n. only_in h g n}
    \<and> (\<forall>u \<in> set (DiffUpdated d). dep_key L (ChangeBefore u) = dep_key L (ChangeAfter u))
    \<and> (\<forall>r \<in> set (DiffRemoved d). \<forall>a \<in> set (DiffAdded d). dep_key L r \<noteq> dep_key L a)
    \<and> (\<forall>t. t \<in> set (DiffTransitions d) \<longleftrightarrow> (\<exists>b a. compareDependencyDetails (Some b) (Some a) rg rh = Some t
          \<and> (Node g (dependency_id b) = Some (DependencyNode b) \<and> Node h (dependency_id b) = Some (DependencyNode a)
             \<or> \<lparr>ChangeBefore = b, ChangeAfter = a\<rparr> \<in> set (DiffUpdated d))))"
proof -
  obtain rg rh where rel: "dependencyRelationshipsForGraph (Some g) = Some rg" "dependencyRelationshipsForGraph (Some h) = Some rh"
    using dependencyRelationshipsForGraph_total [OF g] dependencyRelationshipsForGraph_total [OF h] by blast
  let ?bs = "groupNodesByIdentity L (remainder g h)" and ?hs = "groupNodesByIdentity L (remainder h g)"
  let ?keys = "remdups (mkeys ?bs @ mkeys ?hs)"
  let ?up = "updated_pairs L ?bs ?hs ?keys"
  have keys: "distinct ?keys" "set (mkeys ?bs) \<subseteq> set ?keys" "set (mkeys ?hs) \<subseteq> set ?keys" by auto
  define same where "same = List.map_filter (\<lambda>(i, node). case mget (indexDiffableNodes (Some h)) i of None \<Rightarrow> None
    | Some headNode \<Rightarrow> compareDependencyDetails (Some node) (Some headNode) rg rh) (indexDiffableNodes (Some g))"
  define moved where "moved = List.map_filter (\<lambda>u. compareDependencyDetails (Some (ChangeBefore u)) (Some (ChangeAfter u)) rg rh) ?up"
  define d where "d = \<lparr>DiffAdded = sortNodesForDiff (unpaired ?hs ?bs ?keys), DiffRemoved = sortNodesForDiff (unpaired ?bs ?hs ?keys),
    DiffUpdated = sort_updated L ?up, DiffTransitions = SortDependencyDetailTransitions L (same @ moved)\<rparr>"
  have d: "Compare L (Some g) (Some h) = Some d"
    using Compare_eq [OF rel, of L] by (simp add: d_def same_def moved_def remainder_def Let_def)
  have before: "distinct (DiffRemoved d @ map ChangeBefore (DiffUpdated d))
      \<and> set (DiffRemoved d) \<union> set (map ChangeBefore (DiffUpdated d)) = {n. only_in g h n}"
    unfolding remainder_nodes(2) [OF g h, symmetric]
    by (rule mset_split_distinct [OF updated_before [OF keys(1,2)] remainder_nodes(1) [OF g h]]) (simp_all add: d_def)
  have after: "distinct (DiffAdded d @ map ChangeAfter (DiffUpdated d))
      \<and> set (DiffAdded d) \<union> set (map ChangeAfter (DiffUpdated d)) = {n. only_in h g n}"
    unfolding remainder_nodes(2) [OF h g, symmetric]
    by (rule mset_split_distinct [OF updated_after [OF keys(1,3)] remainder_nodes(1) [OF h g]]) (simp_all add: d_def)
  have same_set: "t \<in> set same \<longleftrightarrow> (\<exists>b a. compareDependencyDetails (Some b) (Some a) rg rh = Some t
      \<and> Node g (dependency_id b) = Some (DependencyNode b) \<and> Node h (dependency_id b) = Some (DependencyNode a))" for t
  proof -
    have "t \<in> set same \<longleftrightarrow> (\<exists>i b. (i, b) \<in> set (indexDiffableNodes (Some g))
        \<and> (\<exists>a. mget (indexDiffableNodes (Some h)) i = Some a \<and> compareDependencyDetails (Some b) (Some a) rg rh = Some t))"
      unfolding same_def map_filter_set mem_Collect_eq Bex_def split_paired_Ex case_prod_conv
      by (intro ex_cong1 conj_cong refl) (simp split: option.split)
    also have "\<dots> \<longleftrightarrow> (\<exists>b a. compareDependencyDetails (Some b) (Some a) rg rh = Some t
      \<and> Node g (dependency_id b) = Some (DependencyNode b) \<and> Node h (dependency_id b) = Some (DependencyNode a))"
      using indexDiffableNodes_spec [OF h] Node_id [OF h] unfolding indexed_member [OF g] by fastforce
    finally show ?thesis .
  qed
  have moved_set: "t \<in> set moved \<longleftrightarrow> (\<exists>b a. compareDependencyDetails (Some b) (Some a) rg rh = Some t
      \<and> \<lparr>ChangeBefore = b, ChangeAfter = a\<rparr> \<in> set ?up)" for t
    unfolding moved_def map_filter_set
    by (auto, metis version_change.surjective old.unit.exhaust) (metis version_change.select_convs(1,2))
  show ?thesis
  proof (intro exI conjI)
    show "\<forall>u \<in> set (DiffUpdated d). dep_key L (ChangeBefore u) = dep_key L (ChangeAfter u)"
      using updated_same_key by (auto simp: d_def)
    show "\<forall>r \<in> set (DiffRemoved d). \<forall>a \<in> set (DiffAdded d). dep_key L r \<noteq> dep_key L a"
    proof (intro ballI notI)
      fix r a assume r: "r \<in> set (DiffRemoved d)" and a: "a \<in> set (DiffAdded d)" and eq: "dep_key L r = dep_key L a"
      from r have "length (group_of ?hs (dep_key L r)) < length (group_of ?bs (dep_key L r))"
        by (intro unpaired_keys) (simp add: d_def)
      moreover from a have "length (group_of ?bs (dep_key L a)) < length (group_of ?hs (dep_key L a))"
        by (intro unpaired_keys) (simp add: d_def)
      ultimately show False using eq by simp
    qed
    show "\<forall>t. t \<in> set (DiffTransitions d) \<longleftrightarrow> (\<exists>b a. compareDependencyDetails (Some b) (Some a) rg rh = Some t
          \<and> (Node g (dependency_id b) = Some (DependencyNode b) \<and> Node h (dependency_id b) = Some (DependencyNode a)
             \<or> \<lparr>ChangeBefore = b, ChangeAfter = a\<rparr> \<in> set (DiffUpdated d)))"
      using same_set moved_set by (simp add: d_def) blast
  qed (use d rel before after in auto)
qed


theorem Compare_spec_witness:
  "\<exists>d. Compare plain_library (Some New) (Some sample_graph) = Some d
    \<and> set (DiffAdded d) \<union> set (map ChangeAfter (DiffUpdated d)) = {n. only_in sample_graph New n}"
  using Compare_spec [of New sample_graph plain_library] New_abs reachable_graph_ok [OF sample_graph_reachable] by blast

end
