(* ===== verification/Views.thy ===== *)
theory Views
  imports Compare
begin

text \<open>
  Reading a graph for presentation: \<^verbatim>\<open>graphview/graphview.go\<close>, the part of a graph reachable from a
  node (\<^verbatim>\<open>detectorkit/subgraph.go\<close>) and the text tree of \<^verbatim>\<open>model/graph.go\<close>. The recursive closures
  carry their captured variables as a state and a fuel, one unit a level; the lemmas show that the
  fuel they start with is enough on every graph the store can hold.
\<close>

section \<open>Children among the nodes of a document\<close>

text \<open>The state of the closure: what it resolved, in order (the keys of \<open>seen\<close>), and \<open>visited\<close>.\<close>

fun children_walk :: "graph \<Rightarrow> string set \<Rightarrow> nat \<Rightarrow> graph_node list \<Rightarrow> string list \<times> string list \<Rightarrow> (string list \<times> string list) option" where
  "children_walk g present fuel [] s = Some s"
| "children_walk g present fuel (child # children) (resolved, visited) =
     (if NodeID child \<in> present
      then children_walk g present fuel children
             (if NodeID child \<in> set resolved then resolved else resolved @ [NodeID child], visited)
      else if NodeID child \<in> set visited then children_walk g present fuel children (resolved, visited)
      else (case fuel of
              0 \<Rightarrow> None
            | Suc fuel' \<Rightarrow>
                (case (case DirectDependencies g (NodeID child) of
                         Inl err \<Rightarrow> Some (resolved, NodeID child # visited)
                       | Inr cs \<Rightarrow> children_walk g present fuel' cs (resolved, NodeID child # visited)) of
                   None \<Rightarrow> None
                 | Some s \<Rightarrow> children_walk g present fuel children s)))"

definition ChildrenAmong :: "graph option \<Rightarrow> string \<Rightarrow> string set \<Rightarrow> string list option" where
  "ChildrenAmong graph nodeID present =
     (case graph of
        None \<Rightarrow> Some []
      | Some g \<Rightarrow>
          (case DirectDependencies g nodeID of
             Inl err \<Rightarrow> Some []
           | Inr cs \<Rightarrow> map_option fst (children_walk g present (node_count g) cs ([], [nodeID]))))"

definition PurlFor :: "graph_node option \<Rightarrow> string" where
  "PurlFor node = NodePURL node"

abbreviation PackageTypeApplication :: string where "PackageTypeApplication \<equiv> ''application''"

definition TopLevelParentIDs :: "graph option \<Rightarrow> string set" where
  "TopLevelParentIDs graph =
     (case graph of
        None \<Rightarrow> {}
      | Some g \<Rightarrow>
          set (map NodeID (Roots g)) \<union> set (map (\<lambda>m. NodeID (ModuleNode m)) (ModuleNodes g))
          \<union> set (map (\<lambda>n. NodeID (DependencyNode n))
               (filter (\<lambda>n. PkgType (Coords n) = PackageTypeApplication) (DependencyNodes g))))"

section \<open>The subgraph below a node\<close>

datatype subgraph_error =
    SubgraphOfNil
  | SubgraphRootNotFound string
  | SubgraphAddNode string graph_error
  | SubgraphDependencies string graph_error
  | SubgraphAddEdge string string graph_error

text \<open>\<open>Inl\<close> of the outer sum is the walk of a node, \<open>Inr\<close> the loop over a node's dependencies.\<close>

function (sequential) sub_visit :: "graph \<Rightarrow> nat \<Rightarrow> graph_node \<Rightarrow> graph \<times> string list \<Rightarrow> (subgraph_error + graph \<times> string list) option"
  and sub_children :: "graph \<Rightarrow> nat \<Rightarrow> graph_node \<Rightarrow> graph_node list \<Rightarrow> graph \<times> string list \<Rightarrow> (subgraph_error + graph \<times> string list) option"
where
  "sub_visit g fuel pkg (out, visited) =
     (if NodeID pkg \<in> set visited then Some (Inr (out, visited))
      else (case fuel of
              0 \<Rightarrow> None
            | Suc fuel' \<Rightarrow>
                (case AddNode out (Some pkg) of
                   Inl err \<Rightarrow> Some (Inl (SubgraphAddNode (NodeID pkg) err))
                 | Inr out \<Rightarrow>
                     (case DirectDependencies g (NodeID pkg) of
                        Inl err \<Rightarrow> Some (Inl (SubgraphDependencies (NodeID pkg) err))
                      | Inr deps \<Rightarrow> sub_children g fuel' pkg deps (out, NodeID pkg # visited)))))"
| "sub_children g fuel pkg [] s = Some (Inr s)"
| "sub_children g fuel pkg (dep # deps) s =
     (case sub_visit g fuel dep s of
        None \<Rightarrow> None
      | Some (Inl err) \<Rightarrow> Some (Inl err)
      | Some (Inr (out, visited)) \<Rightarrow>
          (case AddTypedEdge out (NodeID pkg) (NodeID dep) (EdgeKindOf g (NodeID pkg) (NodeID dep)) of
             Inl err \<Rightarrow>
               if err = ErrSelfDependency then sub_children g fuel pkg deps (out, visited)
               else Some (Inl (SubgraphAddEdge (NodeID pkg) (NodeID dep) err))
           | Inr out \<Rightarrow> sub_children g fuel pkg deps (out, visited)))"
  by pat_completeness auto
termination
  by (relation "measures [\<lambda>x. case x of Inl (g, fuel, pkg, s) \<Rightarrow> fuel | Inr (g, fuel, pkg, deps, s) \<Rightarrow> fuel,
                          \<lambda>x. case x of Inl (g, fuel, pkg, s) \<Rightarrow> 0 | Inr (g, fuel, pkg, deps, s) \<Rightarrow> Suc (length deps)]") auto

definition SubgraphFrom :: "graph option \<Rightarrow> string \<Rightarrow> (subgraph_error + graph) option" where
  "SubgraphFrom graph rootID =
     (case graph of
        None \<Rightarrow> Some (Inl SubgraphOfNil)
      | Some g \<Rightarrow>
          (case Node g rootID of
             None \<Rightarrow> Some (Inl (SubgraphRootNotFound rootID))
           | Some root \<Rightarrow> map_option (map_sum id fst) (sub_visit g (node_count g) root (New, []))))"

section \<open>The text tree\<close>

definition nodeDisplayLabel :: "graph_node option \<Rightarrow> string" where
  "nodeDisplayLabel node =
     (case node of
        None \<Rightarrow> []
      | Some n \<Rightarrow>
          (case n of
             DependencyNode d \<Rightarrow>
               (let label = NodeID n; scope = PrimaryScope d
                in if scope = ScopeUnknown then label else label @ '' ['' @ scope @ '']'')
           | _ \<Rightarrow> NodeID n))"

text \<open>The state is the text written so far and \<open>expanded\<close>; \<open>onPath\<close> is restored after each child.\<close>

fun writeTree :: "graph \<Rightarrow> nat \<Rightarrow> nat list \<Rightarrow> string \<Rightarrow> nat list \<Rightarrow> string \<times> nat list \<Rightarrow> (string \<times> nat list) option" where
  "writeTree g fuel [] prefix onPath s = Some s"
| "writeTree g fuel (child # children) prefix onPath (b, expanded) =
     (let isLast = (children = []);
          b = b @ prefix @ (if isLast then ''`-- '' else ''|-- '') @ nodeDisplayLabel (nodes g ! child)
      in if child \<in> set onPath then writeTree g fuel children prefix onPath (b @ '' (cycle)'' @ [CHR 0x0A], expanded)
         else if child \<in> set expanded then writeTree g fuel children prefix onPath (b @ '' (shared)'' @ [CHR 0x0A], expanded)
         else (case fuel of
                 0 \<Rightarrow> None
               | Suc fuel' \<Rightarrow>
                   (case writeTree g fuel' (sortedAdjacent g (outgoing g ! child)) (prefix @ (if isLast then ''    '' else ''|   ''))
                           (child # onPath) (b @ [CHR 0x0A], child # expanded) of
                      None \<Rightarrow> None
                    | Some s \<Rightarrow> writeTree g fuel children prefix onPath s)))"

fun tree_roots :: "graph \<Rightarrow> graph_node list \<Rightarrow> string \<times> nat list \<Rightarrow> (string \<times> nat list) option" where
  "tree_roots g [] s = Some s"
| "tree_roots g (root # roots) (b, expanded) =
     (let rootIdx = the (mget (indexByID g) (NodeID root))
      in case writeTree g (node_count g) (sortedAdjacent g (outgoing g ! rootIdx)) [] [rootIdx]
                (b @ nodeDisplayLabel (Some root) @ [CHR 0x0A], rootIdx # expanded) of
           None \<Rightarrow> None
         | Some s \<Rightarrow> tree_roots g roots s)"

definition TrimSuffix :: "string \<Rightarrow> string \<Rightarrow> string" where
  "TrimSuffix s suffix = (if HasSuffix s suffix then take (length s - length suffix) s else s)"

definition PrettyTree :: "graph \<Rightarrow> string option" where
  "PrettyTree g =
     (if node_count g = 0 then Some ''(empty graph)''
      else (let roots = (if Roots g = [] then Graph_Nodes g else Roots g)
            in map_option (\<lambda>s. TrimSuffix (fst s) [CHR 0x0A]) (tree_roots g roots ([], []))))"

section \<open>Walks over node IDs\<close>

lemma EdgeKindOf_edge: "graph_ok g \<Longrightarrow> EdgeKindOf g x y = (case edge_of g x y of None \<Rightarrow> EdgeKindUnknown | Some k \<Rightarrow> k)"
  by (auto simp: EdgeKindOf_def edge_of_def split: option.split)

lemma stored_ids: "graph_ok g \<Longrightarrow> finite {x. Node g x \<noteq> None} \<and> card {x. Node g x \<noteq> None} = node_count g"
proof -
  assume g: "graph_ok g"
  have "{x. Node g x \<noteq> None} = NodeID ` set (WalkNodes g)" using WalkNodes_ids [OF g] by simp
  also have "set (WalkNodes g) = set (Graph_Nodes g)" by (simp only: WalkNodes_set [OF g] Graph_Nodes_set [OF g])
  finally have e: "{x. Node g x \<noteq> None} = NodeID ` set (Graph_Nodes g)" .
  have "distinct (map NodeID (Graph_Nodes g))" using Graph_Nodes_sorted [OF g] by (simp add: strict_sorted_iff)
  then have "card (NodeID ` set (Graph_Nodes g)) = length (Graph_Nodes g)"
    by (metis distinct_card length_map set_map)
  then show ?thesis unfolding e using Graph_Nodes_length [OF g] by simp
qed

text \<open>When the IDs on record are as many as the graph's, every stored ID is on record.\<close>

lemma visited_all:
  assumes g: "graph_ok g" and d: "distinct v" "set v \<subseteq> {x. Node g x \<noteq> None}" and c: "node_count g \<le> length v" and x: "Node g x \<noteq> None"
  shows "x \<in> set v"
proof -
  have "card (set v) = length v" using d(1) by (rule distinct_card)
  then have "set v = {x. Node g x \<noteq> None}" using stored_ids [OF g] d(2) c by (intro card_seteq) auto
  then show ?thesis using x by simp
qed

definition id_hop :: "graph \<Rightarrow> string set \<Rightarrow> (string \<times> string) set" where
  "id_hop g present = {(x, y). edge_of g x y \<noteq> None \<and> y \<notin> present}"

definition walk_post :: "graph \<Rightarrow> string set \<Rightarrow> string set \<Rightarrow> string list \<times> string list \<Rightarrow> string list \<times> string list \<Rightarrow> bool" where
  "walk_post g present ids s t \<longleftrightarrow> (case (s, t) of ((r, v), (r', v')) \<Rightarrow>
     set r \<subseteq> set r' \<and> set v \<subseteq> set v' \<and> ids \<inter> present \<subseteq> set r' \<and> ids - present \<subseteq> set v'
     \<and> (\<forall>x \<in> set v' - set v. \<forall>y. edge_of g x y \<noteq> None \<longrightarrow> (if y \<in> present then y \<in> set r' else y \<in> set v'))
     \<and> set v' \<subseteq> set v \<union> (id_hop g present)\<^sup>* `` (ids - present)
     \<and> set r' \<subseteq> set r \<union> (ids \<inter> present) \<union> {y \<in> present. \<exists>x \<in> (id_hop g present)\<^sup>* `` (ids - present). edge_of g x y \<noteq> None}
     \<and> (distinct r \<longrightarrow> distinct r') \<and> (distinct v \<longrightarrow> distinct v'))"

lemma walk_post_refl: "walk_post g P {} s s"
  by (cases s) (simp add: walk_post_def)

lemma walk_postE:
  assumes "walk_post g P A (r, v) (r', v')"
  shows "set r \<subseteq> set r'" "set v \<subseteq> set v'" "A \<inter> P \<subseteq> set r'" "A - P \<subseteq> set v'"
    "\<And>x y. \<lbrakk>x \<in> set v'; x \<notin> set v; edge_of g x y \<noteq> None; y \<in> P\<rbrakk> \<Longrightarrow> y \<in> set r'"
    "\<And>x y. \<lbrakk>x \<in> set v'; x \<notin> set v; edge_of g x y \<noteq> None; y \<notin> P\<rbrakk> \<Longrightarrow> y \<in> set v'"
    "set v' \<subseteq> set v \<union> (id_hop g P)\<^sup>* `` (A - P)"
    "set r' \<subseteq> set r \<union> (A \<inter> P) \<union> {y \<in> P. \<exists>x \<in> (id_hop g P)\<^sup>* `` (A - P). edge_of g x y \<noteq> None}"
    "distinct r \<Longrightarrow> distinct r'" "distinct v \<Longrightarrow> distinct v'"
proof -
  from assms show "set r \<subseteq> set r'" "set v \<subseteq> set v'" "A \<inter> P \<subseteq> set r'" "A - P \<subseteq> set v'"
    "set v' \<subseteq> set v \<union> (id_hop g P)\<^sup>* `` (A - P)"
    "set r' \<subseteq> set r \<union> (A \<inter> P) \<union> {y \<in> P. \<exists>x \<in> (id_hop g P)\<^sup>* `` (A - P). edge_of g x y \<noteq> None}"
    "distinct r \<Longrightarrow> distinct r'" "distinct v \<Longrightarrow> distinct v'"
    unfolding walk_post_def prod.case by - (elim conjE, (assumption | erule (1) mp))+
  have "\<forall>x \<in> set v' - set v. \<forall>y. edge_of g x y \<noteq> None \<longrightarrow> (if y \<in> P then y \<in> set r' else y \<in> set v')"
    using assms unfolding walk_post_def prod.case by (elim conjE) assumption
  then show "\<And>x y. \<lbrakk>x \<in> set v'; x \<notin> set v; edge_of g x y \<noteq> None; y \<in> P\<rbrakk> \<Longrightarrow> y \<in> set r'"
    "\<And>x y. \<lbrakk>x \<in> set v'; x \<notin> set v; edge_of g x y \<noteq> None; y \<notin> P\<rbrakk> \<Longrightarrow> y \<in> set v'"
    by (metis DiffI)+
qed

lemma walk_postI:
  assumes "set r \<subseteq> set r'" "set v \<subseteq> set v'" "A \<inter> P \<subseteq> set r'" "A - P \<subseteq> set v'"
    "\<And>x y. \<lbrakk>x \<in> set v'; x \<notin> set v; edge_of g x y \<noteq> None\<rbrakk> \<Longrightarrow> (y \<in> P \<longrightarrow> y \<in> set r') \<and> (y \<notin> P \<longrightarrow> y \<in> set v')"
    "set v' \<subseteq> set v \<union> (id_hop g P)\<^sup>* `` (A - P)"
    "set r' \<subseteq> set r \<union> (A \<inter> P) \<union> {y \<in> P. \<exists>x \<in> (id_hop g P)\<^sup>* `` (A - P). edge_of g x y \<noteq> None}"
    "distinct r \<Longrightarrow> distinct r'" "distinct v \<Longrightarrow> distinct v'"
  shows "walk_post g P A (r, v) (r', v')"
proof -
  have "\<forall>x \<in> set v' - set v. \<forall>y. edge_of g x y \<noteq> None \<longrightarrow> (if y \<in> P then y \<in> set r' else y \<in> set v')"
    using assms(5) by (intro ballI allI impI) (metis DiffE)
  then show ?thesis unfolding walk_post_def prod.case using assms(1-4,6-9) by blast
qed

lemma walk_post_trans:
  assumes 1: "walk_post g P A (r, v) (r1, v1)" and 2: "walk_post g P B (r1, v1) (r2, v2)"
  shows "walk_post g P (A \<union> B) (r, v) (r2, v2)"
proof (rule walk_postI)
  note a = walk_postE [OF 1] and b = walk_postE [OF 2]
  show "set r \<subseteq> set r2" "set v \<subseteq> set v2" "(A \<union> B) \<inter> P \<subseteq> set r2" "A \<union> B - P \<subseteq> set v2"
    using a(1-4) b(1-4) by blast+
  show "distinct r \<Longrightarrow> distinct r2" "distinct v \<Longrightarrow> distinct v2" using a(9,10) b(9,10) by blast+
  show "(y \<in> P \<longrightarrow> y \<in> set r2) \<and> (y \<notin> P \<longrightarrow> y \<in> set v2)" if "x \<in> set v2" "x \<notin> set v" "edge_of g x y \<noteq> None" for x y
    using that a(5,6) [of x y] b(5,6) [of x y] b(1,2) by blast
  show "set v2 \<subseteq> set v \<union> (id_hop g P)\<^sup>* `` (A \<union> B - P)" using a(7) b(7) by blast
  show "set r2 \<subseteq> set r \<union> ((A \<union> B) \<inter> P) \<union> {y \<in> P. \<exists>x \<in> (id_hop g P)\<^sup>* `` (A \<union> B - P). edge_of g x y \<noteq> None}"
  proof
    fix y assume "y \<in> set r2"
    then consider "y \<in> set r1" | "y \<in> B \<inter> P" | "y \<in> P" "\<exists>x \<in> (id_hop g P)\<^sup>* `` (B - P). edge_of g x y \<noteq> None" using b(8) by blast
    then show "y \<in> set r \<union> ((A \<union> B) \<inter> P) \<union> {y \<in> P. \<exists>x \<in> (id_hop g P)\<^sup>* `` (A \<union> B - P). edge_of g x y \<noteq> None}"
    proof cases
      case 1
      then consider "y \<in> set r" | "y \<in> A \<inter> P" | "y \<in> P" "\<exists>x \<in> (id_hop g P)\<^sup>* `` (A - P). edge_of g x y \<noteq> None" using a(8) by blast
      then show ?thesis by cases blast+
    qed blast+
  qed
qed

lemma walk_post_nested:
  assumes post: "walk_post g P {y. edge_of g c y \<noteq> None} (r, c # v) (r', v')" and c: "c \<notin> P" "c \<notin> set v"
  shows "walk_post g P {c} (r, v) (r', v')"
proof (rule walk_postI)
  note a = walk_postE [OF post]
  let ?H = "id_hop g P"
  have step: "?H\<^sup>* `` ({y. edge_of g c y \<noteq> None} - P) \<subseteq> ?H\<^sup>* `` {c}"
    by (auto simp: id_hop_def intro: converse_rtrancl_into_rtrancl)
  show "(y \<in> P \<longrightarrow> y \<in> set r') \<and> (y \<notin> P \<longrightarrow> y \<in> set v')" if x: "x \<in> set v'" "x \<notin> set v" "edge_of g x y \<noteq> None" for x y
    using x a(3,4) a(5,6) [OF x(1) _ x(3)] by (cases "x = c") (blast, simp)
  show "set v' \<subseteq> set v \<union> ?H\<^sup>* `` ({c} - P)" using a(7) step c by auto
  have eq: "{c} - P = {c}" using c by auto
  show "set r' \<subseteq> set r \<union> ({c} \<inter> P) \<union> {y \<in> P. \<exists>x \<in> ?H\<^sup>* `` ({c} - P). edge_of g x y \<noteq> None}"
  proof -
    have "{y. edge_of g c y \<noteq> None} \<inter> P \<subseteq> {y \<in> P. \<exists>x \<in> ?H\<^sup>* `` {c}. edge_of g x y \<noteq> None}" by auto
    moreover have "{y \<in> P. \<exists>x \<in> ?H\<^sup>* `` ({y. edge_of g c y \<noteq> None} - P). edge_of g x y \<noteq> None}
      \<subseteq> {y \<in> P. \<exists>x \<in> ?H\<^sup>* `` {c}. edge_of g x y \<noteq> None}" using step by fast
    ultimately have "set r' \<subseteq> set r \<union> {y \<in> P. \<exists>x \<in> ?H\<^sup>* `` {c}. edge_of g x y \<noteq> None}" using a(8) by fast
    then show ?thesis unfolding eq by fast
  qed
  show "set r \<subseteq> set r'" "set v \<subseteq> set v'" "{c} \<inter> P \<subseteq> set r'" "{c} - P \<subseteq> set v'" using a(1,2) c by auto
  show "distinct r \<Longrightarrow> distinct r'" "distinct v \<Longrightarrow> distinct v'" using a(9,10) c by auto
qed

lemma children_walk_ok:
  "\<lbrakk>graph_ok g; \<forall>c \<in> set cs. Node g (NodeID c) = Some c; distinct (snd s); set (snd s) \<subseteq> {x. Node g x \<noteq> None};
     node_count g \<le> fuel + length (snd s)\<rbrakk> \<Longrightarrow>
   \<exists>t. children_walk g P fuel cs s = Some t \<and> walk_post g P (NodeID ` set cs) s t
     \<and> set (snd t) \<subseteq> {x. Node g x \<noteq> None} \<and> length (snd s) \<le> length (snd t)"
proof (induction g P fuel cs s rule: children_walk.induct)
  case (1 g P fuel s)
  then show ?case by (simp add: walk_post_refl)
next
  case (2 g P fuel child children resolved visited)
  let ?c = "NodeID child"
  have ch: "Node g ?c = Some child" "\<forall>c \<in> set children. Node g (NodeID c) = Some c" using 2(6) by simp_all
  have g: "graph_ok g" by (rule 2(5))
  have ids: "NodeID ` set (child # children) = {?c} \<union> NodeID ` set children" by simp
  consider (present) "?c \<in> P" | (visited) "?c \<notin> P" "?c \<in> set visited" | (walk) "?c \<notin> P" "?c \<notin> set visited" by blast
  then show ?case
  proof cases
    case present
    let ?r = "if ?c \<in> set resolved then resolved else resolved @ [?c]"
    obtain t where t: "children_walk g P fuel children (?r, visited) = Some t" "walk_post g P (NodeID ` set children) (?r, visited) t"
      "set (snd t) \<subseteq> {x. Node g x \<noteq> None}" "length visited \<le> length (snd t)"
      using 2(1) [OF present g ch(2)] 2(7-9) by auto
    have "walk_post g P {?c} (resolved, visited) (?r, visited)" using present by (intro walk_postI) auto
    then have "walk_post g P ({?c} \<union> NodeID ` set children) (resolved, visited) t" using t(2) by (cases t) (blast intro: walk_post_trans)
    then show ?thesis using t present ids by simp
  next
    case visited
    obtain t where t: "children_walk g P fuel children (resolved, visited) = Some t" "walk_post g P (NodeID ` set children) (resolved, visited) t"
      "set (snd t) \<subseteq> {x. Node g x \<noteq> None}" "length visited \<le> length (snd t)"
      using 2(2) [OF visited g ch(2)] 2(7-9) by auto
    have "walk_post g P {?c} (resolved, visited) (resolved, visited)" using visited by (intro walk_postI) auto
    then have "walk_post g P ({?c} \<union> NodeID ` set children) (resolved, visited) t" using t(2) by (cases t) (blast intro: walk_post_trans)
    then show ?thesis using t visited ids by simp
  next
    case walk
    then have "fuel \<noteq> 0" using visited_all [OF g, of visited ?c] 2(7-9) ch(1) by (cases fuel) auto
    then obtain f where f: "fuel = Suc f" by (cases fuel) auto
    obtain ds where ds: "DirectDependencies g ?c = Inr ds" "set ds = {d. edge_of g ?c (NodeID d) \<noteq> None \<and> Node g (NodeID d) = Some d}"
      "NodeID ` set ds = {y. edge_of g ?c y \<noteq> None}"
      using DirectDependencies_Inr [OF g ch(1)] by blast
    have d: "\<forall>c \<in> set ds. Node g (NodeID c) = Some c" by (simp add: ds(2))
    have "\<exists>t. children_walk g P f ds (resolved, ?c # visited) = Some t \<and> walk_post g P (NodeID ` set ds) (resolved, ?c # visited) t
      \<and> set (snd t) \<subseteq> {x. Node g x \<noteq> None} \<and> length (snd (resolved, ?c # visited)) \<le> length (snd t)"
      by (rule 2(3) [OF walk f ds(1) g d]) (use 2(7-9) walk ch(1) f in simp_all)
    then obtain t where t: "children_walk g P f ds (resolved, ?c # visited) = Some t" "walk_post g P (NodeID ` set ds) (resolved, ?c # visited) t"
      "set (snd t) \<subseteq> {x. Node g x \<noteq> None}" "length (?c # visited) \<le> length (snd t)" by auto
    have n: "walk_post g P {?c} (resolved, visited) t" using t(2) walk unfolding ds(3) by (cases t) (blast intro: walk_post_nested)
    have dt: "distinct (snd t)" using n 2(7) by (cases t) (simp add: walk_post_def)
    have "\<exists>u. children_walk g P fuel children t = Some u \<and> walk_post g P (NodeID ` set children) t u
      \<and> set (snd u) \<subseteq> {x. Node g x \<noteq> None} \<and> length (snd t) \<le> length (snd u)"
      by (rule 2(4) [OF walk f _ g ch(2) dt t(3)]) (use 2(9) t(1,4) f ds(1) in simp_all)
    then obtain u where u: "children_walk g P fuel children t = Some u" "walk_post g P (NodeID ` set children) t u"
      "set (snd u) \<subseteq> {x. Node g x \<noteq> None}" "length (snd t) \<le> length (snd u)"
      by blast
    have "walk_post g P ({?c} \<union> NodeID ` set children) (resolved, visited) u"
      using n u(2) by (cases t, cases u) (blast intro: walk_post_trans)
    then show ?thesis using u walk ids ds(1) t(1,4) by (simp add: f)
  qed
qed

lemma ChildrenAmong_ok:
  assumes g: "graph_ok g"
  shows "\<exists>r. ChildrenAmong (Some g) nodeID present = Some r \<and> distinct r
    \<and> set r = {y \<in> present. \<exists>x. (nodeID, x) \<in> {(a, b). edge_of g a b \<noteq> None \<and> b \<notin> present}\<^sup>* \<and> edge_of g x y \<noteq> None}"
proof -
  let ?H = "id_hop g present"
  have goal: "?thesis \<longleftrightarrow> (\<exists>r. ChildrenAmong (Some g) nodeID present = Some r \<and> distinct r
    \<and> set r = {y \<in> present. \<exists>x. (nodeID, x) \<in> ?H\<^sup>* \<and> edge_of g x y \<noteq> None})" by (simp only: id_hop_def)
  show ?thesis
  proof (cases "Node g nodeID")
    case None
    then have none: "edge_of g nodeID y = None" for y using edge_of_nodes [OF g, of nodeID y] by (cases "edge_of g nodeID y") auto
    have "x = nodeID" if "(nodeID, x) \<in> ?H\<^sup>*" for x by (rule converse_rtranclE [OF that]) (auto simp: id_hop_def none)
    moreover have "mget (indexByID g) nodeID = None" using None by (simp add: Node_None [OF g])
    ultimately show ?thesis unfolding goal using none
      by (intro exI [of _ "[]"]) (auto simp: ChildrenAmong_def DirectDependencies_def requireIndex_def)
  next
    case (Some n)
    obtain ds where ds: "DirectDependencies g nodeID = Inr ds"
      "set ds = {d. edge_of g nodeID (NodeID d) \<noteq> None \<and> Node g (NodeID d) = Some d}"
      "NodeID ` set ds = {y. edge_of g nodeID y \<noteq> None}"
      using DirectDependencies_Inr [OF g Some] by blast
    have "\<exists>t. children_walk g present (node_count g) ds ([], [nodeID]) = Some t \<and> walk_post g present (NodeID ` set ds) ([], [nodeID]) t
      \<and> set (snd t) \<subseteq> {x. Node g x \<noteq> None} \<and> length (snd ([] :: string list, [nodeID])) \<le> length (snd t)"
      by (rule children_walk_ok) (use g Some in \<open>simp_all add: ds(2)\<close>)
    then obtain r v where w: "children_walk g present (node_count g) ds ([], [nodeID]) = Some (r, v)"
      and post: "walk_post g present {y. edge_of g nodeID y \<noteq> None} ([], [nodeID]) (r, v)" by (auto simp: ds(3))
    note p = walk_postE [OF post]
    have into: "y \<in> set r" if "x \<in> set v" "edge_of g x y \<noteq> None" "y \<in> present" for x y
      using that p(3) p(5) [OF that(1) _ that(2,3)] by (cases "x = nodeID") auto
    have closed: "x \<in> set v" if "(nodeID, x) \<in> ?H\<^sup>*" for x
      using that
    proof induction
      case base
      then show ?case using p(2) by simp
    next
      case (step x y)
      then have e: "edge_of g x y \<noteq> None" "y \<notin> present" by (auto simp: id_hop_def)
      show ?case using p(4) p(6) [OF step(3) _ e] e by (cases "x = nodeID") auto
    qed
    have sub: "?H\<^sup>* `` ({y. edge_of g nodeID y \<noteq> None} - present) \<subseteq> ?H\<^sup>* `` {nodeID}"
      by (auto simp: id_hop_def intro: converse_rtrancl_into_rtrancl)
    have "set r = {y \<in> present. \<exists>x. (nodeID, x) \<in> ?H\<^sup>* \<and> edge_of g x y \<noteq> None}"
    proof (intro set_eqI iffI)
      fix y assume "y \<in> set r"
      then consider "edge_of g nodeID y \<noteq> None" "y \<in> present"
        | x where "x \<in> ?H\<^sup>* `` ({y. edge_of g nodeID y \<noteq> None} - present)" "edge_of g x y \<noteq> None" "y \<in> present"
        using subsetD [OF p(8) \<open>y \<in> set r\<close>] by (simp only: list.set Un_iff Int_iff mem_Collect_eq empty_iff) blast
      then show "y \<in> {y \<in> present. \<exists>x. (nodeID, x) \<in> ?H\<^sup>* \<and> edge_of g x y \<noteq> None}" using sub by cases blast+
    next
      fix y assume "y \<in> {y \<in> present. \<exists>x. (nodeID, x) \<in> ?H\<^sup>* \<and> edge_of g x y \<noteq> None}"
      then show "y \<in> set r" using into closed by blast
    qed
    moreover have "distinct r" using p(9) by simp
    ultimately show ?thesis unfolding goal using w ds(1) by (simp add: ChildrenAmong_def)
  qed
qed

text \<open>C9. The children of a node among the nodes a document contains: the walk ends, names each child once,
  and names exactly the present nodes one edge away from the node or from a chain of absent nodes
  hanging off it; so no edge to a structural node dangles and no workspace hop is lost.\<close>

theorem ChildrenAmong_spec:
  assumes "reachable_graph L g"
  shows "\<exists>r. ChildrenAmong (Some g) nodeID present = Some r \<and> distinct r
    \<and> set r = {y \<in> present. \<exists>x. (nodeID, x) \<in> {(a, b). edge_of g a b \<noteq> None \<and> b \<notin> present}\<^sup>* \<and> edge_of g x y \<noteq> None}"
  by (rule ChildrenAmong_ok [OF reachable_graph_ok [OF assms]])

theorem ChildrenAmong_spec_witness: "\<exists>r. ChildrenAmong (Some sample_graph) ''a'' {''b''} = Some r \<and> distinct r \<and> ''b'' \<in> set r"
proof -
  from ChildrenAmong_spec [OF sample_graph_reachable, where nodeID = "''a''" and present = "{''b''}"]
  obtain r where r: "ChildrenAmong (Some sample_graph) ''a'' {''b''} = Some r" "distinct r"
    "set r = {y \<in> {''b''}. \<exists>x. (''a'', x) \<in> {(a, b). edge_of sample_graph a b \<noteq> None \<and> b \<notin> {''b''}}\<^sup>* \<and> edge_of sample_graph x y \<noteq> None}"
    by (elim exE conjE)
  have "edge_of sample_graph ''a'' ''b'' \<noteq> None" by code_simp
  then have "''b'' \<in> set r" unfolding r(3) by (intro CollectI conjI exI [of _ "''a''"]) simp_all
  with r(1,2) show ?thesis by (intro exI conjI)
qed

section \<open>The subgraph\<close>

definition sub_inv :: "graph \<Rightarrow> graph \<times> string list \<Rightarrow> bool" where
  "sub_inv g s \<longleftrightarrow> (case s of (out, v) \<Rightarrow> graph_ok out \<and> distinct v \<and> set v \<subseteq> {x. Node g x \<noteq> None}
     \<and> Node out = (\<lambda>x. if x \<in> set v then Node g x else None))"

text \<open>What the walk from some nodes adds: the closure of what it visits, with the edges that leave it;
  the edges in \<open>pairs\<close> are those the loop over one node's dependencies adds.\<close>

definition sub_post :: "graph \<Rightarrow> string set \<Rightarrow> (string \<times> string) set \<Rightarrow> graph \<times> string list \<Rightarrow> graph \<times> string list \<Rightarrow> bool" where
  "sub_post g ids pairs s t \<longleftrightarrow>
     set (snd s) \<subseteq> set (snd t) \<and> ids \<subseteq> set (snd t) \<and> length (snd s) \<le> length (snd t)
     \<and> (\<forall>x y. x \<in> set (snd t) \<and> x \<notin> set (snd s) \<and> edge_of g x y \<noteq> None \<longrightarrow> y \<in> set (snd t))
     \<and> set (snd t) \<subseteq> set (snd s) \<union> {(x, y). edge_of g x y \<noteq> None}\<^sup>* `` ids
     \<and> (\<forall>a b. edge_of (fst t) a b = (if a \<in> set (snd t) \<and> a \<notin> set (snd s) \<or> (a, b) \<in> pairs then edge_of g a b else edge_of (fst s) a b))"

lemma sub_postE:
  assumes "sub_post g ids pairs s t"
  shows "set (snd s) \<subseteq> set (snd t)" "ids \<subseteq> set (snd t)" "length (snd s) \<le> length (snd t)"
    "\<And>x y. \<lbrakk>x \<in> set (snd t); x \<notin> set (snd s); edge_of g x y \<noteq> None\<rbrakk> \<Longrightarrow> y \<in> set (snd t)"
    "set (snd t) \<subseteq> set (snd s) \<union> {(x, y). edge_of g x y \<noteq> None}\<^sup>* `` ids"
    "\<And>a b. edge_of (fst t) a b = (if a \<in> set (snd t) \<and> a \<notin> set (snd s) \<or> (a, b) \<in> pairs then edge_of g a b else edge_of (fst s) a b)"
  using assms unfolding sub_post_def by - (elim conjE, (assumption | blast | simp only: ; fail))+

lemma sub_post_trans:
  assumes 1: "sub_post g A O1 s t" and 2: "sub_post g B O2 t u"
  shows "sub_post g (A \<union> B) (O1 \<union> O2) s u"
proof -
  note a = sub_postE [OF 1] and b = sub_postE [OF 2]
  have "y \<in> set (snd u)" if "x \<in> set (snd u)" "x \<notin> set (snd s)" "edge_of g x y \<noteq> None" for x y
    using that a(4) [of x y] b(4) [of x y] b(1) by blast
  moreover have "edge_of (fst u) x y = (if x \<in> set (snd u) \<and> x \<notin> set (snd s) \<or> (x, y) \<in> O1 \<union> O2 then edge_of g x y else edge_of (fst s) x y)" for x y
    using a(1) b(1) unfolding a(6) b(6) by auto
  moreover have "set (snd u) \<subseteq> set (snd s) \<union> {(x, y). edge_of g x y \<noteq> None}\<^sup>* `` (A \<union> B)"
    using a(5) b(5) unfolding Image_Un by blast
  ultimately show ?thesis unfolding sub_post_def using a(1-3) b(1-3) by (intro conjI allI impI) (blast | linarith | fastforce)+
qed

lemma sub_walk_ok:
  "graph_ok g \<Longrightarrow> sub_inv g s \<Longrightarrow> Node g (NodeID pkg) = Some pkg \<Longrightarrow> node_count g \<le> fuel + length (snd s) \<Longrightarrow>
     \<exists>t. sub_visit g fuel pkg s = Some (Inr t) \<and> sub_inv g t \<and> sub_post g {NodeID pkg} {} s t"
  "graph_ok g \<Longrightarrow> sub_inv g s \<Longrightarrow> node_count g \<le> fuel + length (snd s) \<Longrightarrow> NodeID pkg \<in> set (snd s) \<Longrightarrow>
   \<forall>d \<in> set deps. Node g (NodeID d) = Some d \<and> edge_of g (NodeID pkg) (NodeID d) \<noteq> None \<and> edge_of (fst s) (NodeID pkg) (NodeID d) = None \<Longrightarrow>
   distinct (map NodeID deps) \<Longrightarrow>
     \<exists>t. sub_children g fuel pkg deps s = Some (Inr t) \<and> sub_inv g t
       \<and> sub_post g (NodeID ` set deps) ({NodeID pkg} \<times> NodeID ` set deps) s t"
proof (induction g fuel pkg s and g fuel pkg deps s rule: sub_visit_sub_children.induct)
  case (1 g fuel pkg out visited)
  let ?x = "NodeID pkg"
  have g: "graph_ok g" and inv: "sub_inv g (out, visited)" and pkg: "Node g ?x = Some pkg"
    and fuel: "node_count g \<le> fuel + length visited" using 1(2-5) by simp_all
  have ok: "graph_ok out" "distinct visited" "set visited \<subseteq> {x. Node g x \<noteq> None}"
    "Node out = (\<lambda>x. if x \<in> set visited then Node g x else None)" using inv by (simp_all add: sub_inv_def)
  show ?case
  proof (cases "?x \<in> set visited")
    case True
    then show ?thesis using inv by (auto simp: sub_post_def)
  next
    case False
    have "fuel \<noteq> 0" using visited_all [OF g ok(2,3), of ?x] fuel pkg False by (cases fuel) auto
    then obtain f where f: "fuel = Suc f" by (cases fuel) auto
    have none: "Node out ?x = None" using ok(4) False by simp
    obtain out1 where add: "AddNode out (Some pkg) = Inr out1" using AddNode_total [OF ok(1) _ none] Node_id [OF g pkg] by blast
    have o1: "graph_ok out1" "Node out1 = (Node out)(?x := Some pkg)" "edge_of out1 = edge_of out"
      using AddNode_abs [OF ok(1) add] by simp_all
    obtain ds where ds: "DirectDependencies g ?x = Inr ds" "set ds = {d. edge_of g ?x (NodeID d) \<noteq> None \<and> Node g (NodeID d) = Some d}"
      "NodeID ` set ds = {y. edge_of g ?x y \<noteq> None}" "distinct (map NodeID ds)"
      using DirectDependencies_Inr [OF g pkg] by (auto simp: strict_sorted_iff)
    have fresh: "edge_of out ?x y = None" for y
      using edge_of_nodes [OF ok(1), of ?x y] none by (cases "edge_of out ?x y") auto
    have inv1: "sub_inv g (out1, ?x # visited)"
      using o1 ok pkg False by (auto simp: sub_inv_def fun_eq_iff)
    have "\<exists>t. sub_children g f pkg ds (out1, ?x # visited) = Some (Inr t) \<and> sub_inv g t
       \<and> sub_post g (NodeID ` set ds) ({?x} \<times> NodeID ` set ds) (out1, ?x # visited) t"
      by (rule 1(1) [OF False f add ds(1) g inv1]) (use fuel f ds(2,4) fresh o1(3) in simp_all)
    then obtain t where t: "sub_children g f pkg ds (out1, ?x # visited) = Some (Inr t)" "sub_inv g t"
      and post: "sub_post g {y. edge_of g ?x y \<noteq> None} ({?x} \<times> {y. edge_of g ?x y \<noteq> None}) (out1, ?x # visited) t"
      unfolding ds(3) by blast
    note p = sub_postE [OF post, unfolded fst_conv snd_conv]
    have "y \<in> set (snd t)" if "x \<in> set (snd t)" "x \<notin> set visited" "edge_of g x y \<noteq> None" for x y
      using that p(2) p(4) [of x y] by (cases "x = ?x") auto
    moreover have "edge_of (fst t) a b = (if a \<in> set (snd t) \<and> a \<notin> set visited then edge_of g a b else edge_of out a b)" for a b
      using p(1) False fresh unfolding p(6) o1(3) by (cases "edge_of g a b") auto
    moreover {
    have "{(x, y). edge_of g x y \<noteq> None}\<^sup>* `` {y. edge_of g ?x y \<noteq> None} \<subseteq> {(x, y). edge_of g x y \<noteq> None}\<^sup>* `` {?x}"
      by (auto intro: converse_rtrancl_into_rtrancl)
    moreover have "?x \<in> {(x, y). edge_of g x y \<noteq> None}\<^sup>* `` {?x}" by auto
    ultimately have "set (snd t) \<subseteq> set visited \<union> {(x, y). edge_of g x y \<noteq> None}\<^sup>* `` {?x}" using p(5) by (simp only: list.set) blast
    }
    ultimately have "sub_post g {?x} {} (out, visited) t" using p(1,3) by (auto simp: sub_post_def)
    then show ?thesis using t add ds(1) f False by auto
  qed
next
  case (2 g fuel pkg s)
  then show ?case by (auto simp: sub_post_def)
next
  case (3 g fuel pkg dep deps s)
  let ?x = "NodeID pkg" and ?d = "NodeID dep"
  have g: "graph_ok g" and inv: "sub_inv g s" and fuel: "node_count g \<le> fuel + length (snd s)" and x: "?x \<in> set (snd s)"
    and dep: "Node g ?d = Some dep" "edge_of g ?x ?d \<noteq> None" "edge_of (fst s) ?x ?d = None"
    and deps: "\<forall>d \<in> set deps. Node g (NodeID d) = Some d \<and> edge_of g ?x (NodeID d) \<noteq> None \<and> edge_of (fst s) ?x (NodeID d) = None"
    and dist: "?d \<notin> NodeID ` set deps" "distinct (map NodeID deps)"
    using 3(4-9) by auto
  obtain out1 v1 where t: "sub_visit g fuel dep s = Some (Inr (out1, v1))" "sub_inv g (out1, v1)" "sub_post g {?d} {} s (out1, v1)"
    using 3(1) [OF g inv dep(1) fuel] by auto
  note p = sub_postE [OF t(3), unfolded fst_conv snd_conv]
  have ok: "graph_ok out1" "Node out1 = (\<lambda>x. if x \<in> set v1 then Node g x else None)" "set v1 \<subseteq> {x. Node g x \<noteq> None}" "distinct v1"
    using t(2) by (simp_all add: sub_inv_def)
  have ne: "?x \<noteq> ?d" using edge_of_nodes [OF g dep(2)] by simp
  have keep: "edge_of out1 ?x y = edge_of (fst s) ?x y" for y using x p(1) by (simp add: p(6))
  obtain k where k: "edge_of g ?x ?d = Some k" using dep(2) by auto
  have kind: "EdgeKindOf g ?x ?d = k" "k \<noteq> EdgeKindUnknown" using k edge_of_known [OF g k] by (simp_all add: EdgeKindOf_edge [OF g])
  have "Node out1 ?x \<noteq> None" "Node out1 ?d \<noteq> None" using x p(1,2) ok(2,3) by auto
  then obtain out2 where add: "AddTypedEdge out1 ?x ?d k = Inr out2" and o2: "graph_ok out2" "Node out2 = Node out1"
    "edge_of out2 = (\<lambda>a b. if a = ?x \<and> b = ?d then Some (edge_result out1 ?x ?d k) else edge_of out1 a b)"
    using AddTypedEdge_abs [OF ok(1) ne] by blast
  have "edge_result out1 ?x ?d k = k" using kind(2) keep dep(3) by (simp add: edge_result_def)
  then have e2: "edge_of out2 = (\<lambda>a b. if a = ?x \<and> b = ?d then edge_of g a b else edge_of out1 a b)" using o2(3) k by (auto simp: fun_eq_iff)
  have inv2: "sub_inv g (out2, v1)" using o2(1,2) ok by (simp add: sub_inv_def)
  have link: "sub_post g {} {(?x, ?d)} (out1, v1) (out2, v1)" by (auto simp: sub_post_def e2)
  have "edge_of out2 ?x (NodeID d) = None" if "d \<in> set deps" for d
  proof -
    have "NodeID d \<noteq> ?d" using that dist(1) by (metis imageI)
    then show ?thesis using that deps keep by (simp add: e2)
  qed
  then have pre: "\<forall>d \<in> set deps. Node g (NodeID d) = Some d \<and> edge_of g ?x (NodeID d) \<noteq> None \<and> edge_of (fst (out2, v1)) ?x (NodeID d) = None"
    using deps by simp
  have "\<exists>u. sub_children g fuel pkg deps (out2, v1) = Some (Inr u) \<and> sub_inv g u
       \<and> sub_post g (NodeID ` set deps) ({?x} \<times> NodeID ` set deps) (out2, v1) u"
    by (rule 3(3) [OF t(1) refl refl _ g inv2 _ _ pre dist(2)]) (use add kind(1) fuel p(1,3) x in auto)
  then obtain u where u: "sub_children g fuel pkg deps (out2, v1) = Some (Inr u)" "sub_inv g u"
    "sub_post g (NodeID ` set deps) ({?x} \<times> NodeID ` set deps) (out2, v1) u" by blast
  have "sub_post g ({?d} \<union> ({} \<union> NodeID ` set deps)) ({} \<union> ({(?x, ?d)} \<union> {?x} \<times> NodeID ` set deps)) s u"
    by (rule sub_post_trans [OF t(3) sub_post_trans [OF link u(3)]])
  moreover have "{?d} \<union> ({} \<union> NodeID ` set deps) = NodeID ` set (dep # deps)"
    "{} \<union> ({(?x, ?d)} \<union> {?x} \<times> NodeID ` set deps) = {?x} \<times> NodeID ` set (dep # deps)" by auto
  ultimately have "sub_post g (NodeID ` set (dep # deps)) ({?x} \<times> NodeID ` set (dep # deps)) s u" by simp
  then show ?case using u(1,2) t(1) add kind(1) by simp
qed

text \<open>C10. The subgraph below a node: a missing graph and an unknown root are refused; otherwise the walk ends and
  its result is a well-formed graph that holds exactly the nodes reachable from the root, the very
  records of the source graph, and every edge among them with the kind the source recorded.\<close>

theorem SubgraphFrom_spec:
  assumes "reachable_graph L g"
  shows "SubgraphFrom None rootID = Some (Inl SubgraphOfNil)
    \<and> (Node g rootID = None \<longrightarrow> SubgraphFrom (Some g) rootID = Some (Inl (SubgraphRootNotFound rootID)))
    \<and> (Node g rootID \<noteq> None \<longrightarrow> (\<exists>h. SubgraphFrom (Some g) rootID = Some (Inr h) \<and> graph_ok h
        \<and> (\<forall>x. Node h x = (if (rootID, x) \<in> {(a, b). edge_of g a b \<noteq> None}\<^sup>* then Node g x else None))
        \<and> (\<forall>x y. edge_of h x y = (if (rootID, x) \<in> {(a, b). edge_of g a b \<noteq> None}\<^sup>* then edge_of g x y else None))))"
proof (intro conjI impI)
  have g: "graph_ok g" using assms by (rule reachable_graph_ok)
  let ?E = "{(a, b). edge_of g a b \<noteq> None}"
  show "SubgraphFrom None rootID = Some (Inl SubgraphOfNil)" by (simp add: SubgraphFrom_def)
  show "SubgraphFrom (Some g) rootID = Some (Inl (SubgraphRootNotFound rootID))" if "Node g rootID = None"
    using that by (simp add: SubgraphFrom_def)
  assume "Node g rootID \<noteq> None"
  then obtain root where root: "Node g rootID = Some root" by blast
  have id: "NodeID root = rootID" using Node_id [OF g root] by simp
  have inv: "sub_inv g (New, [])" by (simp add: sub_inv_def New_abs)
  obtain h v where t: "sub_visit g (node_count g) root (New, []) = Some (Inr (h, v))" "sub_inv g (h, v)"
    "sub_post g {rootID} {} (New, []) (h, v)"
    using sub_walk_ok(1) [OF g inv, of root "node_count g"] root id by auto
  note p = sub_postE [OF t(3), unfolded fst_conv snd_conv]
  have "x \<in> set v" if "(rootID, x) \<in> ?E\<^sup>*" for x
    using that by induction (use p(2) p(4) in auto)
  then have v: "x \<in> set v \<longleftrightarrow> (rootID, x) \<in> ?E\<^sup>*" for x using p(5) by (auto simp only: list.set)
  have "Node h x = (if (rootID, x) \<in> ?E\<^sup>* then Node g x else None)" for x
    using t(2) unfolding v [symmetric] by (simp add: sub_inv_def)
  moreover have "edge_of h x y = (if (rootID, x) \<in> ?E\<^sup>* then edge_of g x y else None)" for x y
    unfolding v [symmetric] p(6) by (simp add: New_abs)
  moreover have "graph_ok h" using t(2) by (simp add: sub_inv_def)
  moreover have "SubgraphFrom (Some g) rootID = Some (Inr h)" by (simp add: SubgraphFrom_def root t(1) del: sub_visit.simps)
  ultimately show "\<exists>h. SubgraphFrom (Some g) rootID = Some (Inr h) \<and> graph_ok h
        \<and> (\<forall>x. Node h x = (if (rootID, x) \<in> ?E\<^sup>* then Node g x else None))
        \<and> (\<forall>x y. edge_of h x y = (if (rootID, x) \<in> ?E\<^sup>* then edge_of g x y else None))"
    by (intro exI conjI allI)
qed

theorem SubgraphFrom_spec_witness: "\<exists>h. SubgraphFrom (Some sample_graph) ''a'' = Some (Inr h) \<and> edge_of h ''a'' ''b'' = Some EdgeKindDependsOn"
proof -
  have "Node sample_graph ''a'' \<noteq> None" by code_simp
  moreover have "edge_of sample_graph ''a'' ''b'' = Some EdgeKindDependsOn" by code_simp
  moreover from mp [OF conjunct2 [OF conjunct2 [OF SubgraphFrom_spec [OF sample_graph_reachable, where rootID = "''a''"]]] calculation(1)]
  obtain h where "SubgraphFrom (Some sample_graph) ''a'' = Some (Inr h)"
    "\<forall>x y. edge_of h x y = (if (''a'', x) \<in> {(a, b). edge_of sample_graph a b \<noteq> None}\<^sup>* then edge_of sample_graph x y else None)"
    by (elim exE conjE)
  ultimately show ?thesis by (intro exI conjI) (assumption, simp only: rtrancl.rtrancl_refl if_True)
qed

section \<open>The text tree ends\<close>

lemma live_visited:
  assumes g: "graph_ok g" and d: "distinct v" "set v \<subseteq> {i. slot g i \<noteq> None}" and c: "node_count g \<le> length v" and x: "slot g x \<noteq> None"
  shows "x \<in> set v"
proof -
  have "card (set (live_slots g)) = node_count g" using live_slots_length [OF g] distinct_card [of "live_slots g"] by (simp add: live_slots_def)
  moreover have sub: "set v \<subseteq> set (live_slots g)" using d(2) by (simp add: live_slots_set [OF g])
  ultimately have "set v = set (live_slots g)" using card_seteq [OF finite_set sub] c distinct_card [OF d(1)] by simp
  then show ?thesis using x by (simp add: live_slots_set [OF g])
qed

lemma writeTree_ends:
  "graph_ok g \<Longrightarrow> set children \<subseteq> {i. slot g i \<noteq> None} \<Longrightarrow> distinct onPath \<Longrightarrow> set onPath \<subseteq> {i. slot g i \<noteq> None} \<Longrightarrow>
   node_count g \<le> fuel + length onPath \<Longrightarrow> writeTree g fuel children prefix onPath s \<noteq> None"
proof (induction g fuel children prefix onPath s rule: writeTree.induct)
  case (2 g fuel child children prefix onPath b expanded)
  have g: "graph_ok g" and ch: "slot g child \<noteq> None" "set children \<subseteq> {i. slot g i \<noteq> None}" and d: "distinct onPath" "set onPath \<subseteq> {i. slot g i \<noteq> None}"
    and fuel: "node_count g \<le> fuel + length onPath" using 2(5-9) by auto
  let ?t = "\<lambda>b. writeTree g fuel children prefix onPath b"
  have less: "child < length (nodes g)" using ch(1) slot_Some_less [of g child] by auto
  have all: "fuel = 0 \<Longrightarrow> child \<in> set onPath" using live_visited [OF g d] fuel ch(1) by simp
  have next_ok: "set (sortedAdjacent g (outgoing g ! child)) \<subseteq> {i. slot g i \<noteq> None}"
    using edge_ends [OF g, of child] by (auto simp: adjacent_slots(1) [OF g less])
  let ?b = "b @ prefix @ (if children = [] then ''`-- '' else ''|-- '') @ nodeDisplayLabel (nodes g ! child)"
  consider (path) "child \<in> set onPath" | (shared) "child \<notin> set onPath" "child \<in> set expanded"
    | (walk) "child \<notin> set onPath" "child \<notin> set expanded" by blast
  then show ?case
  proof cases
    case path
    then show ?thesis using 2(1) [OF refl refl path g ch(2) d fuel] by (simp add: Let_def)
  next
    case shared
    then show ?thesis using 2(2) [OF refl refl shared g ch(2) d fuel] by (simp add: Let_def)
  next
    case walk
    then obtain f where f: "fuel = Suc f" using all by (cases fuel) auto
    let ?n = "writeTree g f (sortedAdjacent g (outgoing g ! child)) (prefix @ (if children = [] then ''    '' else ''|   ''))
                (child # onPath) (?b @ [CHR 0x0A], child # expanded)"
    have "?n \<noteq> None" by (rule 2(3) [OF refl refl walk f g next_ok]) (use d walk ch(1) fuel f in simp_all)
    then obtain s where s: "?n = Some s" by blast
    show ?thesis using 2(4) [OF refl refl walk f s g ch(2) d fuel] walk f s by (simp add: Let_def)
  qed
qed simp

lemma tree_roots_ends: "graph_ok g \<Longrightarrow> \<forall>r \<in> set roots. Node g (NodeID r) = Some r \<Longrightarrow> tree_roots g roots s \<noteq> None"
proof (induction g roots s rule: tree_roots.induct)
  case (2 g root roots b expanded)
  then obtain i where i: "mget (indexByID g) (NodeID root) = Some i" "slot g i = Some root" by (auto simp: Node_Some)
  have less: "i < length (nodes g)" using slot_Some_less [OF i(2)] by simp
  have sub: "set (sortedAdjacent g (outgoing g ! i)) \<subseteq> {j. slot g j \<noteq> None}"
    using edge_ends [OF 2(2), of i] by (auto simp: adjacent_slots(1) [OF 2(2) less])
  have "writeTree g (node_count g) (sortedAdjacent g (outgoing g ! i)) [] [i] t \<noteq> None" for t
    by (rule writeTree_ends [OF 2(2) sub]) (use i(2) in simp_all)
  then obtain s where "writeTree g (node_count g) (sortedAdjacent g (outgoing g ! i)) [] [i]
      (b @ nodeDisplayLabel (Some root) @ [CHR 0x0A], i # expanded) = Some s" by blast
  then show ?case using 2 i(1) by (simp add: Let_def)
qed simp

text \<open>The text tree is finite: on every graph the store can hold, cycles and shared parts included, writing
  the tree ends after at most one nesting level a node.\<close>

lemma PrettyTree_ends:
  assumes "reachable_graph L g"
  shows "\<exists>t. PrettyTree g = Some t"
proof -
  have g: "graph_ok g" using assms by (rule reachable_graph_ok)
  let ?roots = "if Roots g = [] then Graph_Nodes g else Roots g"
  have "set (Roots g) \<subseteq> set (Graph_Nodes g)" by (auto simp: Roots_def Graph_Nodes_def)
  then have "\<forall>r \<in> set ?roots. Node g (NodeID r) = Some r" using Graph_Nodes_set [OF g] by auto
  from tree_roots_ends [OF g this, of "([], [])"] obtain s where "tree_roots g ?roots ([], []) = Some s" by blast
  then show ?thesis by (simp add: PrettyTree_def Let_def del: not_None_eq)
qed

end
