(* ===== verification/Advisories.thy ===== *)
theory Advisories
  imports Nodes
begin

text \<open>
  Advisories and what is decided about them: \<^verbatim>\<open>model/vulnerability.go\<close> (the advisory record with
  its publication gate, findings, severities), \<^verbatim>\<open>model/vulnerability_analysis.go\<close> (the VEX
  assessment, its vocabularies and its merge) and \<^verbatim>\<open>model/policy.go\<close> (the fail-on constraints).
  A \<open>float64\<close> is its 64 bits, since the code only copies it; the constants of cyclonedx-go and
  the RFC 3339 grammar come from the library.
\<close>

type_synonym float64 = "64 word"

section \<open>Vocabularies\<close>

type_synonym severity_level = string

abbreviation SeverityUnknown :: severity_level where "SeverityUnknown \<equiv> ''unknown''"
abbreviation SeverityNA :: severity_level where "SeverityNA \<equiv> ''n/a''"
abbreviation SeverityLow :: severity_level where "SeverityLow \<equiv> ''low''"
abbreviation SeverityMedium :: severity_level where "SeverityMedium \<equiv> ''medium''"
abbreviation SeverityHigh :: severity_level where "SeverityHigh \<equiv> ''high''"
abbreviation SeverityCritical :: severity_level where "SeverityCritical \<equiv> ''critical''"
abbreviation SeverityAny :: severity_level where "SeverityAny \<equiv> ''any''"
abbreviation SeverityNote :: severity_level where "SeverityNote \<equiv> ''note''"
abbreviation SeverityWarning :: severity_level where "SeverityWarning \<equiv> ''warning''"
abbreviation SeverityError :: severity_level where "SeverityError \<equiv> ''error''"

definition severityVocabulary :: "severity_level list" where
  "severityVocabulary = [SeverityCritical, SeverityHigh, SeverityMedium, SeverityLow, SeverityError,
     SeverityWarning, SeverityNote, SeverityNA, SeverityAny]"

definition ParseSeverityLevel :: "string \<Rightarrow> severity_level" where
  "ParseSeverityLevel value =
     (let token = ToLower (TrimSpace value)
      in if token \<in> set severityVocabulary then token
         else if token = [] \<or> token = SeverityUnknown then SeverityUnknown
         else token)"

type_synonym reachability_status = string

abbreviation ReachabilityUnknown :: reachability_status where "ReachabilityUnknown \<equiv> ''unknown''"
abbreviation ReachabilityReachable :: reachability_status where "ReachabilityReachable \<equiv> ''reachable''"
abbreviation ReachabilityUnreachable :: reachability_status where "ReachabilityUnreachable \<equiv> ''unreachable''"

type_synonym reachability_tier = string

abbreviation TierSymbol :: reachability_tier where "TierSymbol \<equiv> ''symbol''"
abbreviation TierPackage :: reachability_tier where "TierPackage \<equiv> ''package''"
abbreviation TierNone :: reachability_tier where "TierNone \<equiv> ''none''"

type_synonym reachability_confidence = string

abbreviation ConfidenceUnknown :: reachability_confidence where "ConfidenceUnknown \<equiv> []"
abbreviation ConfidenceHigh :: reachability_confidence where "ConfidenceHigh \<equiv> ''high''"
abbreviation ConfidenceMedium :: reachability_confidence where "ConfidenceMedium \<equiv> ''medium''"
abbreviation ConfidenceLow :: reachability_confidence where "ConfidenceLow \<equiv> ''low''"

section \<open>Reachability\<close>

record affected_symbol =
  SymbolName :: string
  SymKind :: string
  SymPackage :: string
  SymModule :: string
  SymDefinition :: "source_position option"

record call_frame =
  FrameFunction :: string
  FramePackage :: string
  FrameReceiver :: string
  FramePosition :: source_position

record call_path =
  Sink :: affected_symbol
  Frames :: "call_frame list"

record reachability_evidence =
  EvModuleRoot :: string
  EvDependencyRefs :: "string list"
  EvStatus :: reachability_status
  EvTier :: reachability_tier
  EvAnalyzer :: string
  EvReason :: string
  EvSymbols :: "affected_symbol list"
  EvCallPaths :: "call_path list"
  EvHops :: "int option"
  EvConfidence :: reachability_confidence
  EvDynamicImports :: bool
  EvAnalyzedAt :: string

record reachability =
  RStatus :: reachability_status
  RTier :: reachability_tier
  RAnalyzer :: string
  RReason :: string
  RSymbols :: "affected_symbol list"
  RCallPaths :: "call_path list"
  RHops :: "int option"
  RConfidence :: reachability_confidence
  RDynamicImports :: bool
  RAnalyzedAt :: string
  REvidence :: "reachability_evidence list"

definition DeriveConfidence :: "int option \<Rightarrow> bool \<Rightarrow> reachability_confidence" where
  "DeriveConfidence hops dynamicImports =
     (case hops of
        None \<Rightarrow> ConfidenceUnknown
      | Some h \<Rightarrow>
          if dynamicImports then ConfidenceLow
          else if h = 0 then ConfidenceHigh
          else if h \<le> 3 then ConfidenceMedium
          else ConfidenceLow)"

section \<open>The impact analysis\<close>

record vulnerability_analysis =
  AnState :: string
  AnJustification :: string
  AnResponse :: "string list"
  AnDetail :: string
  FirstIssued :: string
  LastUpdated :: string

definition Analysis_zero :: vulnerability_analysis where
  "Analysis_zero = \<lparr>AnState = [], AnJustification = [], AnResponse = [], AnDetail = [], FirstIssued = [], LastUpdated = []\<rparr>"

datatype analysis_error = UnknownAnalysisToken string

definition impactAnalysisStates :: "library \<Rightarrow> string list" where
  "impactAnalysisStates L = map (cdx_constant L)
     [''IASResolved'', ''IASResolvedWithPedigree'', ''IASExploitable'', ''IASInTriage'', ''IASFalsePositive'', ''IASNotAffected'']"

definition impactAnalysisJustifications :: "library \<Rightarrow> string list" where
  "impactAnalysisJustifications L = map (cdx_constant L)
     [''IAJCodeNotPresent'', ''IAJCodeNotReachable'', ''IAJRequiresConfiguration'', ''IAJRequiresDependency'',
      ''IAJRequiresEnvironment'', ''IAJProtectedByCompiler'', ''IAJProtectedAtRuntime'', ''IAJProtectedAtPerimeter'',
      ''IAJProtectedByMitigatingControl'']"

definition impactAnalysisResponses :: "library \<Rightarrow> string list" where
  "impactAnalysisResponses L = map (cdx_constant L)
     [''IARCanNotFix'', ''IARWillNotFix'', ''IARUpdate'', ''IARRollback'', ''IARWorkaroundAvailable'']"

definition parse_token :: "string list \<Rightarrow> string \<Rightarrow> analysis_error + string" where
  "parse_token vocabulary value =
     (let value = TrimSpace value in
      case find (\<lambda>t. t = value) vocabulary of None \<Rightarrow> Inl (UnknownAnalysisToken value) | Some t \<Rightarrow> Inr t)"

definition ParseImpactAnalysisState :: "library \<Rightarrow> string \<Rightarrow> analysis_error + string" where
  "ParseImpactAnalysisState L value = parse_token (impactAnalysisStates L) value"

definition ParseImpactAnalysisJustification :: "library \<Rightarrow> string \<Rightarrow> analysis_error + string" where
  "ParseImpactAnalysisJustification L value = parse_token (impactAnalysisJustifications L) value"

definition ParseImpactAnalysisResponse :: "library \<Rightarrow> string \<Rightarrow> analysis_error + string" where
  "ParseImpactAnalysisResponse L value = parse_token (impactAnalysisResponses L) value"

definition analysisTimestamp :: "library \<Rightarrow> string \<Rightarrow> string" where
  "analysisTimestamp L value =
     (let value = TrimSpace value in if value = [] then [] else if \<not> time_RFC3339 L value then [] else value)"

definition response_gate :: "library \<Rightarrow> string \<Rightarrow> string option" where
  "response_gate L candidate = (case ParseImpactAnalysisResponse L candidate of Inl _ \<Rightarrow> None | Inr r \<Rightarrow> Some r)"

definition normalizedResponses :: "library \<Rightarrow> string list \<Rightarrow> string list" where
  "normalizedResponses L responses = sort (dedup_gated (response_gate L) id [] responses)"

definition Analysis_IsEmpty :: "vulnerability_analysis \<Rightarrow> bool" where
  "Analysis_IsEmpty a \<longleftrightarrow> AnState a = [] \<and> AnJustification a = [] \<and> AnResponse a = [] \<and> AnDetail a = []
     \<and> FirstIssued a = [] \<and> LastUpdated a = []"

definition normalized_analysis :: "library \<Rightarrow> vulnerability_analysis \<Rightarrow> vulnerability_analysis" where
  "normalized_analysis L a =
     \<lparr>AnState = (case ParseImpactAnalysisState L (AnState a) of Inl _ \<Rightarrow> [] | Inr s \<Rightarrow> s),
      AnJustification = (case ParseImpactAnalysisJustification L (AnJustification a) of Inl _ \<Rightarrow> [] | Inr j \<Rightarrow> j),
      AnResponse = normalizedResponses L (AnResponse a),
      AnDetail = NormalizeDescription (AnDetail a),
      FirstIssued = analysisTimestamp L (FirstIssued a),
      LastUpdated = analysisTimestamp L (LastUpdated a)\<rparr>"

definition Analysis_Normalized :: "library \<Rightarrow> vulnerability_analysis \<Rightarrow> vulnerability_analysis \<times> bool" where
  "Analysis_Normalized L a = (normalized_analysis L a, \<not> Analysis_IsEmpty (normalized_analysis L a))"

definition Analysis_MarshalJSON :: "library \<Rightarrow> vulnerability_analysis \<Rightarrow> vulnerability_analysis" where
  "Analysis_MarshalJSON L a = fst (Analysis_Normalized L a)"

definition Analysis_UnmarshalJSON :: "library \<Rightarrow> vulnerability_analysis \<Rightarrow> vulnerability_analysis" where
  "Analysis_UnmarshalJSON L wire = fst (Analysis_Normalized L wire)"

definition MergeVulnerabilityAnalysis ::
  "library \<Rightarrow> vulnerability_analysis option \<Rightarrow> vulnerability_analysis option \<Rightarrow> vulnerability_analysis option" where
  "MergeVulnerabilityAnalysis L dst src =
     (let left = (case dst of None \<Rightarrow> Analysis_zero | Some d \<Rightarrow> fst (Analysis_Normalized L d));
          right = (case src of None \<Rightarrow> Analysis_zero | Some s \<Rightarrow> fst (Analysis_Normalized L s));
          merged =
            (if AnState left = [] \<and> AnState right \<noteq> [] then right
             else if AnState left = AnState right
             then left\<lparr>AnJustification := MergeFillGap [] None (AnJustification left) (AnJustification right),
                       AnDetail := MergeFillGap [] None (AnDetail left) (AnDetail right),
                       FirstIssued := MergeFillGap [] None (FirstIssued left) (FirstIssued right),
                       LastUpdated := MergeFillGap [] None (LastUpdated left) (LastUpdated right)\<rparr>
             else left);
          merged = merged\<lparr>AnResponse := normalizedResponses L (AnResponse left @ AnResponse right)\<rparr>
      in if Analysis_IsEmpty merged then None else Some merged)"

section \<open>Advisories\<close>

record severity_entry =
  SeverityType :: string
  SeverityScore :: string

record range_event =
  Introduced :: string
  FixedAt :: string
  LastAffected :: string
  RangeLimit :: string

record version_range =
  RangeType :: string
  RangeRepo :: string
  RangeEvents :: "range_event list"

record affected_entry =
  AffRanges :: "version_range list"
  AffVersions :: "string list"
  EcosystemSpecific :: metadata
  AffDatabaseSpecific :: metadata

record advisory_reference =
  RefURL :: string
  RefType :: string

record cvss_score =
  CVSSVector :: string
  CVSSValue :: float64
  CVSSVersion :: string
  CVSSSource :: string

record epss_score =
  EPSSCVE :: string
  EPSSValue :: float64
  Percentile :: float64
  EPSSDate :: string

record cwe =
  CWECVE :: string
  CWEID :: string
  CWESource :: string
  CWEType :: string

record known_exploited =
  KEVCVE :: string
  VendorProject :: string
  Product :: string
  DateAdded :: string
  RequiredAction :: string
  DueDate :: string
  KnownRansomwareCampaignUse :: string
  KEVNotes :: string
  KEVURLs :: "string list"
  KEVCWEs :: "string list"

record fix_available =
  FixVersion :: string
  FixDate :: string
  FixKind :: string

text \<open>The leading block of \<^verbatim>\<open>Vulnerability\<close> is the OSV core, the trailing one the enrichment.\<close>

record osv_core =
  VulnID :: string
  Aliases :: "string list"
  Related :: "string list"
  Summary :: string
  Details :: string
  Severities :: "severity_entry list"
  AffectedEntries :: "affected_entry list"
  References :: "advisory_reference list"
  Published :: string
  Modified :: string
  Withdrawn :: string
  DatabaseSpecific :: metadata

record vulnerability = osv_core +
  VulnSource :: string
  DataSource :: string
  VulnNamespace :: string
  Title :: string
  Reasons :: "string list"
  ParsedSeverity :: severity_level
  SeveritySource :: string
  CVSS :: "cvss_score list"
  EPSS :: "epss_score list"
  CWEs :: "cwe list"
  KEVExploited :: bool
  KnownExploited :: "known_exploited list"
  VulnRiskScore :: float64
  FixState :: string
  FixedIn :: string
  FixedVersions :: "string list"
  FixAvailable :: "fix_available list"
  AffectedVersionRange :: string
  VulnCPEs :: "string list"
  AffectedSymbols :: "affected_symbol list"
  Reachability :: "reachability option"
  Analysis :: "vulnerability_analysis option"
  Recommendation :: string

abbreviation maxAdvisoryDetailsLength :: nat where "maxAdvisoryDetailsLength \<equiv> maxExtractedLicenseTextLength"

definition reason_gate :: "string \<Rightarrow> string option" where
  "reason_gate reason = (let reason = NormalizeDescription reason in if reason \<noteq> [] then Some reason else None)"

definition reference_gate :: "library \<Rightarrow> advisory_reference \<Rightarrow> advisory_reference option" where
  "reference_gate L r =
     (case NormalizeURL L (RefURL r) URLFormReference of
        None \<Rightarrow> None
      | Some url \<Rightarrow> Some \<lparr>RefURL = url, RefType = TrimSpace (RefType r)\<rparr>)"

definition Vulnerability_Normalized :: "library \<Rightarrow> vulnerability \<Rightarrow> vulnerability" where
  "Vulnerability_Normalized L v =
     v\<lparr>Summary := NormalizeDescription (Summary v),
       Details := normalizePublishedText (Details v) maxAdvisoryDetailsLength,
       Title := NormalizeDescription (Title v),
       Recommendation := NormalizeDescription (Recommendation v),
       Reasons := List.map_filter reason_gate (Reasons v),
       References := List.map_filter (reference_gate L) (References v)\<rparr>"

definition Vulnerability_MarshalJSON :: "library \<Rightarrow> vulnerability \<Rightarrow> vulnerability" where
  "Vulnerability_MarshalJSON L v = Vulnerability_Normalized L v"

definition Vulnerability_UnmarshalJSON :: "library \<Rightarrow> vulnerability \<Rightarrow> vulnerability" where
  "Vulnerability_UnmarshalJSON L wire = Vulnerability_Normalized L wire"

definition IsExploitable :: "vulnerability \<Rightarrow> bool" where
  "IsExploitable v \<longleftrightarrow> KEVExploited v \<or> 0 < length (KnownExploited v)"

section \<open>Policy\<close>

type_synonym policy_status = string

abbreviation FindingPolicyStatusFail :: policy_status where "FindingPolicyStatusFail \<equiv> ''fail''"
abbreviation FindingPolicyStatusWarn :: policy_status where "FindingPolicyStatusWarn \<equiv> ''warn''"
abbreviation FindingPolicyStatusSuppressed :: policy_status where "FindingPolicyStatusSuppressed \<equiv> ''suppressed''"

type_synonym fail_on_kind = string

abbreviation SeverityConstraint :: fail_on_kind where "SeverityConstraint \<equiv> ''severity''"
abbreviation ReachabilityConstraint :: fail_on_kind where "ReachabilityConstraint \<equiv> ''reachability''"
abbreviation ExploitabilityConstraint :: fail_on_kind where "ExploitabilityConstraint \<equiv> ''exploitability''"
abbreviation SourceChangeConstraint :: fail_on_kind where "SourceChangeConstraint \<equiv> ''source-change''"

record fail_on_constraint =
  ConstraintKind :: fail_on_kind
  ConstraintValue :: string

datatype policy_error = UnsupportedFailOn string

definition Constraint_String :: "fail_on_constraint \<Rightarrow> string" where
  "Constraint_String c =
     (if ConstraintKind c = [] \<and> ConstraintValue c = [] then [] else ConstraintKind c @ '':'' @ ConstraintValue c)"

definition validSeverityValues :: "severity_level list" where
  "validSeverityValues = [SeverityAny, SeverityLow, SeverityMedium, SeverityHigh, SeverityCritical]"

abbreviation ReachabilityValueReachable :: string where "ReachabilityValueReachable \<equiv> ''reachable''"
abbreviation ExploitabilityValueExploitable :: string where "ExploitabilityValueExploitable \<equiv> ''exploitable''"
abbreviation SourceChangeValue :: string where "SourceChangeValue \<equiv> ''source-change''"

definition ParseFailOn :: "string \<Rightarrow> policy_error + fail_on_constraint" where
  "ParseFailOn raw =
     (let normalized = ParseSeverityLevel raw; rawNormalized = ToLower (TrimSpace raw) in
      if normalized = SeverityUnknown \<and> TrimSpace raw = [] then Inr \<lparr>ConstraintKind = [], ConstraintValue = []\<rparr>
      else if normalized \<in> set validSeverityValues then Inr \<lparr>ConstraintKind = SeverityConstraint, ConstraintValue = normalized\<rparr>
      else if rawNormalized = ReachabilityValueReachable
      then Inr \<lparr>ConstraintKind = ReachabilityConstraint, ConstraintValue = rawNormalized\<rparr>
      else if rawNormalized = ExploitabilityValueExploitable
      then Inr \<lparr>ConstraintKind = ExploitabilityConstraint, ConstraintValue = rawNormalized\<rparr>
      else if rawNormalized = SourceChangeValue
      then Inr \<lparr>ConstraintKind = SourceChangeConstraint, ConstraintValue = rawNormalized\<rparr>
      else Inl (UnsupportedFailOn raw))"

definition parse_fail_on_step :: "fail_on_constraint list \<times> policy_error option \<Rightarrow> string \<Rightarrow> fail_on_constraint list \<times> policy_error option" where
  "parse_fail_on_step s raw =
     (case ParseFailOn raw of
        Inl err \<Rightarrow> (fst s, if snd s = None then Some err else snd s)
      | Inr c \<Rightarrow> if ConstraintKind c = [] then s else (fst s @ [c], snd s))"

definition ParseFailOnList :: "string list \<Rightarrow> fail_on_constraint list \<times> policy_error option" where
  "ParseFailOnList raws = foldl parse_fail_on_step ([], None) raws"

definition SeverityRank :: "severity_level \<Rightarrow> nat" where
  "SeverityRank severity =
     (let s = ParseSeverityLevel severity in
      if s = SeverityCritical then 4
      else if s = SeverityHigh \<or> s = SeverityError then 3
      else if s = SeverityMedium \<or> s = SeverityWarning then 2
      else if s = SeverityLow \<or> s = SeverityNote then 1
      else 0)"

definition SeverityMeets :: "severity_level \<Rightarrow> string \<Rightarrow> bool" where
  "SeverityMeets candidate threshold =
     (let t = ParseSeverityLevel threshold in
      if t = SeverityAny \<or> TrimSpace threshold = [] then True
      else SeverityRank candidate \<ge> SeverityRank t)"

definition constraint_met :: "vulnerability \<Rightarrow> fail_on_constraint \<Rightarrow> bool" where
  "constraint_met v c =
     (if ConstraintKind c = SeverityConstraint then SeverityMeets (ParsedSeverity v) (ConstraintValue c)
      else if ConstraintKind c = ReachabilityConstraint
      then (case Reachability v of None \<Rightarrow> False | Some r \<Rightarrow> RStatus r = ReachabilityReachable)
      else if ConstraintKind c = ExploitabilityConstraint then IsExploitable v
      else True)"

definition MatchesConstraints :: "vulnerability \<Rightarrow> fail_on_constraint list \<Rightarrow> bool" where
  "MatchesConstraints v constraints = (if constraints = [] then True else list_all (constraint_met v) constraints)"

definition FindingPolicyStatusRank :: "policy_status \<Rightarrow> nat option" where
  "FindingPolicyStatusRank status =
     (if status = FindingPolicyStatusSuppressed then Some 1
      else if status = FindingPolicyStatusWarn then Some 2
      else if status = [] \<or> status = FindingPolicyStatusFail then Some 3
      else None)"

record policy_decision =
  DecisionStatus :: policy_status
  DecisionSource :: string
  DecisionReason :: string

definition Decision_Normalized :: "policy_decision \<Rightarrow> policy_decision" where
  "Decision_Normalized d =
     (let status = TrimSpace (DecisionStatus d) in
      \<lparr>DecisionStatus = (if FindingPolicyStatusRank status = None then [] else status),
       DecisionSource = TrimSpace (DecisionSource d), DecisionReason = TrimSpace (DecisionReason d)\<rparr>)"

definition Decision_MarshalJSON :: "policy_decision \<Rightarrow> policy_decision" where
  "Decision_MarshalJSON d = Decision_Normalized d"

definition Decision_UnmarshalJSON :: "policy_decision \<Rightarrow> policy_decision" where
  "Decision_UnmarshalJSON wire = Decision_Normalized wire"

section \<open>Findings\<close>

record finding =
  FindingID :: string
  FindingKind :: string
  FindingTitle :: string
  FindingSeverity :: severity_level
  PolicyStatus :: policy_status
  FindingReasons :: "string list"
  FindingSource :: string
  Auditor :: string
  RuleID :: string
  VexStatus :: string
  VEXJustification :: string
  FindingPackageRef :: string
  FindingDependencyRefs :: "string list"
  VulnerabilityID :: string
  Decision :: "policy_decision option"

definition Finding_normalized :: "finding \<Rightarrow> finding" where
  "Finding_normalized f =
     (let status = TrimSpace (PolicyStatus f)
      in f\<lparr>PolicyStatus := if FindingPolicyStatusRank status = None then [] else status\<rparr>)"

text \<open>A decoded finding, with what the legacy \<open>disposition\<close> field of the payload holds: absent,
  of another type than a string, or a string.\<close>

datatype legacy_field = NoField | NotAString | AString string

definition Finding_UnmarshalJSON :: "finding \<Rightarrow> legacy_field \<Rightarrow> finding option" where
  "Finding_UnmarshalJSON decoded legacy =
     (if PolicyStatus decoded = []
      then (case legacy of
              NoField \<Rightarrow> Some (Finding_normalized decoded)
            | NotAString \<Rightarrow> None
            | AString s \<Rightarrow> Some (Finding_normalized (decoded\<lparr>PolicyStatus := s\<rparr>)))
      else Some (Finding_normalized decoded))"

definition Finding_MarshalJSON :: "finding \<Rightarrow> finding" where
  "Finding_MarshalJSON f = Finding_normalized f"

section \<open>The gates are fixed points\<close>

lemma parse_token_again: "parse_token vocabulary value = Inr t \<Longrightarrow> parse_token vocabulary t = Inr t"
  by (auto simp: parse_token_def Let_def find_Some_iff split: option.splits)

lemma response_gate_again: "response_gate L x = Some y \<Longrightarrow> response_gate L y = Some y"
  using parse_token_again by (auto simp: response_gate_def ParseImpactAnalysisResponse_def split: sum.splits)

interpretation responses: gated_union "response_gate L" "\<lambda>s :: string. s" for L
  by unfold_locales (auto intro: response_gate_again)

lemma normalizedResponses_union: "normalizedResponses L xs = responses.union_of L xs"
  by (simp add: normalizedResponses_def responses.union_of_def id_def)

lemma normalizePublishedText_again: "normalizePublishedText (normalizePublishedText s limit) limit = normalizePublishedText s limit"
  using text_clean_fixed normalizePublishedText_clean by blast

lemma NormalizeDescription_again [gate_simps]: "NormalizeDescription (NormalizeDescription s) = NormalizeDescription s"
  by (simp add: NormalizeDescription_def normalizePublishedText_again)

lemma analysisTimestamp_again [gate_simps]: "analysisTimestamp L (analysisTimestamp L s) = analysisTimestamp L s"
  by (simp add: analysisTimestamp_def Let_def)

lemma parse_again:
  "(case parse_token v (case parse_token v s of Inl _ \<Rightarrow> [] | Inr t \<Rightarrow> t) of Inl _ \<Rightarrow> [] | Inr t \<Rightarrow> t)
    = (case parse_token v s of Inl _ \<Rightarrow> [] | Inr t \<Rightarrow> t)"
proof (cases "parse_token v s")
  case (Inl e)
  have "parse_token v [] = Inr t \<Longrightarrow> t = []" for t
    by (auto simp: parse_token_def find_Some_iff split: option.splits)
  then show ?thesis using Inl by (auto split: sum.split)
next
  case (Inr t)
  then show ?thesis using parse_token_again [OF Inr] by simp
qed

lemma normalized_analysis_again [gate_simps]: "normalized_analysis L (normalized_analysis L a) = normalized_analysis L a"
  by (simp add: normalized_analysis_def gate_simps ParseImpactAnalysisState_def ParseImpactAnalysisJustification_def
      parse_again normalizedResponses_union responses.union_of_fixed)


section \<open>Merging assessments\<close>

definition gated :: "library \<Rightarrow> vulnerability_analysis option \<Rightarrow> vulnerability_analysis" where
  "gated L a = (case a of None \<Rightarrow> Analysis_zero | Some a \<Rightarrow> normalized_analysis L a)"

text \<open>The claim an assessment makes, without its responses.\<close>

definition assessment :: "vulnerability_analysis \<Rightarrow> string \<times> string \<times> string \<times> string \<times> string" where
  "assessment a = (AnState a, AnJustification a, AnDetail a, FirstIssued a, LastUpdated a)"

definition fill_text :: "string \<Rightarrow> string \<Rightarrow> string" where
  "fill_text a b = (if a = [] then b else a)"

definition filled :: "vulnerability_analysis \<Rightarrow> vulnerability_analysis \<Rightarrow> string \<times> string \<times> string \<times> string \<times> string" where
  "filled l r = (AnState l, fill_text (AnJustification l) (AnJustification r), fill_text (AnDetail l) (AnDetail r),
     fill_text (FirstIssued l) (FirstIssued r), fill_text (LastUpdated l) (LastUpdated r))"

definition merged_analysis :: "library \<Rightarrow> vulnerability_analysis \<Rightarrow> vulnerability_analysis \<Rightarrow> vulnerability_analysis" where
  "merged_analysis L l r =
     (let (s, j, d, f, u) = (if AnState l = [] \<and> AnState r \<noteq> [] then assessment r
                             else if AnState l = AnState r then filled l r else assessment l)
      in \<lparr>AnState = s, AnJustification = j, AnResponse = responses.union_of L (AnResponse l @ AnResponse r),
          AnDetail = d, FirstIssued = f, LastUpdated = u\<rparr>)"

lemma MergeVulnerabilityAnalysis_eq:
  "MergeVulnerabilityAnalysis L dst src =
     (let m = merged_analysis L (gated L dst) (gated L src) in if Analysis_IsEmpty m then None else Some m)"
proof -
  have f: "MergeFillGap [] None a b = fill_text a b" for a b :: string by (simp add: MergeFillGap_def fill_text_def)
  show ?thesis
    unfolding MergeVulnerabilityAnalysis_def Analysis_Normalized_def fst_conv gated_def [symmetric] normalizedResponses_union f
    by (cases "gated L dst"; cases "gated L src") (auto simp: merged_analysis_def assessment_def filled_def Let_def)
qed

lemma normalized_zero: "normalized_analysis L Analysis_zero = Analysis_zero"
proof -
  have "parse_token v [] = Inr t \<Longrightarrow> t = []" for v t
    by (auto simp: parse_token_def find_Some_iff split: option.splits)
  then have "(case parse_token v [] of Inl _ \<Rightarrow> [] | Inr t \<Rightarrow> t) = []" for v by (auto split: sum.split)
  then show ?thesis
    by (simp add: normalized_analysis_def Analysis_zero_def ParseImpactAnalysisState_def ParseImpactAnalysisJustification_def
        normalizedResponses_def NormalizeDescription_def normalizePublishedText_def analysisTimestamp_def)
qed

lemma gated_fixed: "normalized_analysis L (gated L a) = gated L a"
  by (simp add: gated_def normalized_analysis_again normalized_zero split: option.split)

lemma fields_fixed:
  assumes "normalized_analysis L a = a"
  shows "(case ParseImpactAnalysisState L (AnState a) of Inl _ \<Rightarrow> [] | Inr s \<Rightarrow> s) = AnState a"
    "(case ParseImpactAnalysisJustification L (AnJustification a) of Inl _ \<Rightarrow> [] | Inr j \<Rightarrow> j) = AnJustification a"
    "responses.union_of L (AnResponse a) = AnResponse a" "NormalizeDescription (AnDetail a) = AnDetail a"
    "analysisTimestamp L (FirstIssued a) = FirstIssued a" "analysisTimestamp L (LastUpdated a) = LastUpdated a"
  using arg_cong [OF assms, of AnState] arg_cong [OF assms, of AnJustification] arg_cong [OF assms, of AnResponse]
    arg_cong [OF assms, of AnDetail] arg_cong [OF assms, of FirstIssued] arg_cong [OF assms, of LastUpdated]
  by (simp_all add: normalized_analysis_def normalizedResponses_union)

lemma merged_fixed:
  assumes l: "normalized_analysis L l = l" and r: "normalized_analysis L r = r"
  shows "normalized_analysis L (merged_analysis L l r) = merged_analysis L l r"
  using fields_fixed [OF l] fields_fixed [OF r]
  by (auto simp: normalized_analysis_def merged_analysis_def assessment_def filled_def fill_text_def Let_def
      normalizedResponses_union responses.union_of_fixed)

lemma merged_again:
  assumes l: "normalized_analysis L l = l" and r: "normalized_analysis L r = r"
  shows "merged_analysis L (merged_analysis L l r) r = merged_analysis L l r"
proof -
  have "responses.union_of L (responses.union_of L (AnResponse l @ AnResponse r) @ AnResponse r)
      = responses.union_of L (AnResponse l @ AnResponse r)"
    unfolding responses.union_of_idem by (rule responses.union_of_cong) auto
  then show ?thesis by (auto simp: merged_analysis_def assessment_def filled_def fill_text_def Let_def)
qed

lemma merged_empty: "Analysis_IsEmpty (merged_analysis L l r) \<Longrightarrow> merged_analysis L l r = Analysis_zero"
  by (cases "merged_analysis L l r") (simp add: Analysis_IsEmpty_def Analysis_zero_def)

text \<open>Merging two impact assessments: the result has passed the gate; its responses are those of
  both sides; its assessment is never a mixture across states, but the second side's when the first
  states none and the second one does, the first side's when the states differ otherwise, and the
  first side's with its gaps filled when they agree; and merging the same witness again changes
  nothing.\<close>

lemma MergeVulnerabilityAnalysis_spec:
  "(case MergeVulnerabilityAnalysis L dst src of
      None \<Rightarrow> Analysis_IsEmpty (merged_analysis L (gated L dst) (gated L src))
    | Some m \<Rightarrow> Analysis_Normalized L m = (m, True)
        \<and> set (AnResponse m) = set (AnResponse (gated L dst)) \<union> set (AnResponse (gated L src))
        \<and> assessment m = (let l = gated L dst; r = gated L src in
             if AnState l = [] \<and> AnState r \<noteq> [] then assessment r
             else if AnState l = AnState r then filled l r else assessment l))
   \<and> MergeVulnerabilityAnalysis L (MergeVulnerabilityAnalysis L dst src) src = MergeVulnerabilityAnalysis L dst src"
proof -
  let ?l = "gated L dst" and ?r = "gated L src"
  let ?m = "merged_analysis L ?l ?r"
  note fix_l = gated_fixed [of L dst] and fix_r = gated_fixed [of L src]
  have m: "MergeVulnerabilityAnalysis L dst src = (if Analysis_IsEmpty ?m then None else Some ?m)"
    by (simp add: MergeVulnerabilityAnalysis_eq Let_def)
  have norm: "normalized_analysis L ?m = ?m" by (rule merged_fixed [OF fix_l fix_r])
  have "y \<in> set (AnResponse (gated L a)) \<Longrightarrow> response_gate L y = Some y" for y a
    using fields_fixed(3) [OF gated_fixed [of L a]] responses.union_of_gated [of y L "AnResponse (gated L a)"] by metis
  then have resp: "set (AnResponse ?m) = set (AnResponse ?l) \<union> set (AnResponse ?r)"
    by (auto simp: merged_analysis_def Let_def responses.set_union_of case_prod_unfold)
  have assess: "assessment ?m = (if AnState ?l = [] \<and> AnState ?r \<noteq> [] then assessment ?r
      else if AnState ?l = AnState ?r then filled ?l ?r else assessment ?l)"
    by (simp add: merged_analysis_def assessment_def filled_def Let_def)
  have again: "MergeVulnerabilityAnalysis L (MergeVulnerabilityAnalysis L dst src) src = MergeVulnerabilityAnalysis L dst src"
  proof -
    have "gated L (if Analysis_IsEmpty ?m then None else Some ?m) = ?m"
      using norm merged_empty [of L ?l ?r] by (auto simp: gated_def)
    then have g: "gated L (MergeVulnerabilityAnalysis L dst src) = ?m" by (simp only: m)
    show ?thesis
      by (rule trans [OF MergeVulnerabilityAnalysis_eq
            [of L "MergeVulnerabilityAnalysis L dst src" src, unfolded g merged_again [OF fix_l fix_r] Let_def] m [symmetric]])
  qed
  have "case (if Analysis_IsEmpty ?m then None else Some ?m) of
      None \<Rightarrow> Analysis_IsEmpty ?m
    | Some m \<Rightarrow> Analysis_Normalized L m = (m, True)
        \<and> set (AnResponse m) = set (AnResponse ?l) \<union> set (AnResponse ?r)
        \<and> assessment m = (let l = ?l; r = ?r in
             if AnState l = [] \<and> AnState r \<noteq> [] then assessment r
             else if AnState l = AnState r then filled l r else assessment l)"
    using norm resp assess by (cases "Analysis_IsEmpty ?m") (simp_all only: if_True if_False option.case Analysis_Normalized_def Let_def simp_thms)
  then show ?thesis using again by (simp only: m)
qed

section \<open>Constraints\<close>

text \<open>What the token of a fail-on value asks of an advisory.\<close>

definition fail_on_met :: "vulnerability \<Rightarrow> string \<Rightarrow> bool" where
  "fail_on_met v token =
     (if token = ''low'' then 1 \<le> SeverityRank (ParsedSeverity v)
      else if token = ''medium'' then 2 \<le> SeverityRank (ParsedSeverity v)
      else if token = ''high'' then 3 \<le> SeverityRank (ParsedSeverity v)
      else if token = ''critical'' then 4 \<le> SeverityRank (ParsedSeverity v)
      else if token = ''reachable'' then (\<exists>r. Reachability v = Some r \<and> RStatus r = ReachabilityReachable)
      else if token = ''exploitable'' then KEVExploited v \<or> KnownExploited v \<noteq> []
      else True)"

definition fail_on_token :: "string \<Rightarrow> bool" where
  "fail_on_token token \<longleftrightarrow> token \<in> {''any'', ''low'', ''medium'', ''high'', ''critical'', ''reachable'', ''exploitable'', ''source-change''}"

lemma parse_severity_tokens:
  "ParseSeverityLevel ''any'' = ''any''" "ParseSeverityLevel ''low'' = ''low''" "ParseSeverityLevel ''medium'' = ''medium''"
  "ParseSeverityLevel ''high'' = ''high''" "ParseSeverityLevel ''critical'' = ''critical''"
  by code_simp+

lemma severity_tokens_text:
  "TrimSpace ''any'' \<noteq> []" "TrimSpace ''low'' \<noteq> []" "TrimSpace ''medium'' \<noteq> []" "TrimSpace ''high'' \<noteq> []" "TrimSpace ''critical'' \<noteq> []"
  by code_simp+

lemma severity_token_ranks:
  "SeverityRank ''low'' = 1" "SeverityRank ''medium'' = 2" "SeverityRank ''high'' = 3" "SeverityRank ''critical'' = 4"
  by (simp_all add: SeverityRank_def parse_severity_tokens)

lemma constraint_met_severity:
  "token \<in> set validSeverityValues \<Longrightarrow> constraint_met v \<lparr>ConstraintKind = SeverityConstraint, ConstraintValue = token\<rparr> = fail_on_met v token"
  unfolding validSeverityValues_def list.set insert_iff empty_iff
  by (elim disjE; simp add: constraint_met_def SeverityMeets_def parse_severity_tokens severity_tokens_text severity_token_ranks fail_on_met_def)

lemma ParseSeverityLevel_token: "ParseSeverityLevel raw = (if ToLower (TrimSpace raw) = [] then SeverityUnknown else ToLower (TrimSpace raw))"
  by (auto simp: ParseSeverityLevel_def Let_def severityVocabulary_def)

lemma ParseFailOn_cases:
  "(case ParseFailOn raw of
      Inl err \<Rightarrow> err = UnsupportedFailOn raw \<and> TrimSpace raw \<noteq> [] \<and> \<not> fail_on_token (ToLower (TrimSpace raw))
    | Inr c \<Rightarrow> (if TrimSpace raw = [] then ConstraintKind c = []
               else ConstraintKind c \<noteq> [] \<and> fail_on_token (ToLower (TrimSpace raw)) \<and> (\<forall>v. constraint_met v c = fail_on_met v (ToLower (TrimSpace raw)))))"
proof -
  let ?t = "ToLower (TrimSpace raw)"
  have sev: "?t \<in> set validSeverityValues \<Longrightarrow> fail_on_token ?t" by (auto simp: validSeverityValues_def fail_on_token_def)
  have other: "?t \<notin> set validSeverityValues \<Longrightarrow> fail_on_token ?t \<longleftrightarrow> ?t \<in> {''reachable'', ''exploitable'', ''source-change''}"
    by (auto simp: validSeverityValues_def fail_on_token_def)
  have blank: "TrimSpace raw = [] \<Longrightarrow> ?t = []" by simp
  consider "TrimSpace raw = []" | "TrimSpace raw \<noteq> []" "?t \<in> set validSeverityValues"
    | "TrimSpace raw \<noteq> []" "?t \<notin> set validSeverityValues" by blast
  then show ?thesis
  proof cases
    case 1
    then show ?thesis by (simp add: ParseFailOn_def ParseSeverityLevel_token)
  next
    case 2
    then have "?t \<noteq> []" "ParseSeverityLevel raw = ?t" by (auto simp: ParseSeverityLevel_token validSeverityValues_def)
    then have "ParseFailOn raw = Inr \<lparr>ConstraintKind = SeverityConstraint, ConstraintValue = ?t\<rparr>"
      using 2 by (simp add: ParseFailOn_def Let_def)
    then show ?thesis using 2 sev constraint_met_severity [OF 2(2)] by simp
  next
    case 3
    have "ParseSeverityLevel raw \<notin> set validSeverityValues"
      using 3(2) by (auto simp: ParseSeverityLevel_token validSeverityValues_def)
    then show ?thesis
      using 3 other by (auto simp: ParseFailOn_def Let_def constraint_met_def fail_on_met_def IsExploitable_def split: option.split)
  qed
qed

lemma parse_steps:
  "foldl parse_fail_on_step s raws =
    (fst s @ fst (foldl parse_fail_on_step ([], None) raws),
     if snd s = None then snd (foldl parse_fail_on_step ([], None) raws) else snd s)"
proof (induction raws rule: rev_induct)
  case Nil
  then show ?case by (cases s) simp
next
  case (snoc raw raws)
  show ?case by (simp add: snoc) (auto simp: parse_fail_on_step_def split: sum.split)
qed

lemma parse_first_step:
  "parse_fail_on_step ([], None) raw =
    (case ParseFailOn raw of Inl err \<Rightarrow> ([], Some err) | Inr c \<Rightarrow> (if ConstraintKind c = [] then [] else [c], None))"
  by (auto simp: parse_fail_on_step_def split: sum.split)

text \<open>Reading the fail-on values and evaluating an advisory against them: an error names the first
  value that is neither blank nor one of the eight tokens; and whatever the errors, the constraints
  returned are met by an advisory exactly when every accepted value is, each by its own meaning, so a
  constraint never drops or weakens another.\<close>

lemma ParseFailOnList_MatchesConstraints:
  "snd (ParseFailOnList raws) =
     map_option UnsupportedFailOn (find (\<lambda>raw. TrimSpace raw \<noteq> [] \<and> \<not> fail_on_token (ToLower (TrimSpace raw))) raws)
   \<and> (MatchesConstraints v (fst (ParseFailOnList raws)) \<longleftrightarrow>
        (\<forall>raw \<in> set raws. TrimSpace raw \<noteq> [] \<and> fail_on_token (ToLower (TrimSpace raw)) \<longrightarrow> fail_on_met v (ToLower (TrimSpace raw))))"
proof -
  have match: "MatchesConstraints v cs \<longleftrightarrow> list_all (constraint_met v) cs" for cs by (simp add: MatchesConstraints_def)
  show ?thesis
    unfolding match ParseFailOnList_def
  proof (induction raws)
    case (Cons raw raws)
    have step: "foldl parse_fail_on_step ([], None) (raw # raws) =
        (fst (parse_fail_on_step ([], None) raw) @ fst (foldl parse_fail_on_step ([], None) raws),
         if snd (parse_fail_on_step ([], None) raw) = None then snd (foldl parse_fail_on_step ([], None) raws)
         else snd (parse_fail_on_step ([], None) raw))"
      using parse_steps [of "parse_fail_on_step ([], None) raw" raws] by simp
    show ?case
      unfolding step using Cons ParseFailOn_cases [of raw]
      by (cases "ParseFailOn raw") (auto simp: parse_first_step split: if_splits)
  qed simp
qed

end
