(* ===== verification/Usage.thy ===== *)
theory Usage
  imports Advisories Compare
begin

text \<open>
  Usages of a package, \<^verbatim>\<open>model/usage.go\<close>: which module root a site belongs to, the summary of the
  reachability findings of several roots, and the join of sites and findings a conjunctive filter
  reads. The package path/filepath is modelled as it is on Unix: its \<open>Clean\<close> is \<open>path.Clean\<close>, and
  \<open>Rel\<close> compares the elements of two clean paths.
\<close>

section \<open>path/filepath\<close>

definition path_elems :: "string \<Rightarrow> string list" where
  "path_elems p = (if p = [] then [] else if p = ''/'' then [[]] else split_on CHR ''/'' p)"

fun drop_common :: "string list \<Rightarrow> string list \<Rightarrow> string list \<times> string list" where
  "drop_common (b # bs) (t # ts) = (if b = t then drop_common bs ts else (b # bs, t # ts))"
| "drop_common bs ts = (bs, ts)"

definition filepath_Rel :: "string \<Rightarrow> string \<Rightarrow> string option" where
  "filepath_Rel basepath targpath =
     (let base = Clean basepath; targ = Clean targpath in
      if targ = base then Some ''.''
      else (let base = (if base = ''.'' then [] else base) in
            if HasPrefix base ''/'' \<noteq> HasPrefix targ ''/'' then None
            else (case drop_common (path_elems base) (path_elems targ) of (bs, ts) \<Rightarrow>
                    if bs \<noteq> [] \<and> ts \<noteq> [] \<and> hd bs = ''..'' then None
                    else if bs \<noteq> []
                    then Some (Join (replicate (length bs) ''..'') ''/'' @ (if ts = [] then [] else CHR ''/'' # Join ts ''/''))
                    else Some (Join ts ''/''))))"

section \<open>Attribution to a module root\<close>

datatype root_attribution = AttributedElsewhere | AttributedToRootOnly | AttributedToSite

fun RootAttribution_String :: "root_attribution \<Rightarrow> string" where
  "RootAttribution_String AttributedElsewhere = ''attributed-elsewhere''"
| "RootAttribution_String AttributedToRootOnly = ''attributed-to-root-only''"
| "RootAttribution_String AttributedToSite = ''attributed-to-site''"

record root_attributor =
  analyzed :: "string list"
  trustDeclaredRoots :: bool

definition cleanModuleRoot :: "string \<Rightarrow> string" where
  "cleanModuleRoot root = (let root = TrimSpace root in if root = [] then [] else Clean root)"

definition pathWithinRoot :: "string \<Rightarrow> string \<Rightarrow> bool" where
  "pathWithinRoot path root =
     (case filepath_Rel (Clean root) (Clean path) of
        None \<Rightarrow> False
      | Some rel \<Rightarrow> rel \<noteq> ''..'' \<and> \<not> HasPrefix rel (''..'' @ ''/''))"

definition declares_analyzed :: "string list \<Rightarrow> package_location \<Rightarrow> bool" where
  "declares_analyzed roots location \<longleftrightarrow>
     (let declared = cleanModuleRoot (ModuleRoot location) in declared \<noteq> [] \<and> declared \<in> set roots)"

definition NewRootAttributor :: "string list \<Rightarrow> graph option \<Rightarrow> root_attributor" where
  "NewRootAttributor roots graph =
     (let cleaned = remdups (filter (\<lambda>r. r \<noteq> []) (map cleanModuleRoot roots)) in
      case graph of
        None \<Rightarrow> \<lparr>analyzed = cleaned, trustDeclaredRoots = False\<rparr>
      | Some g \<Rightarrow>
          if cleaned = [] then \<lparr>analyzed = cleaned, trustDeclaredRoots = False\<rparr>
          else \<lparr>analyzed = cleaned,
                trustDeclaredRoots = list_ex (\<lambda>n. list_ex (declares_analyzed cleaned) (NodeLocs n)) (WalkDependencyNodes g)\<rparr>)"

definition sitedInAnalyzedRoot :: "root_attributor \<Rightarrow> string \<Rightarrow> bool" where
  "sitedInAnalyzedRoot a path = list_ex (pathWithinRoot path) (analyzed a)"

text \<open>The loop over the sites: \<open>Inl\<close> is the early return, \<open>Inr\<close> the two flags at its end.\<close>

fun attribute_loop :: "root_attributor \<Rightarrow> string \<Rightarrow> bool \<Rightarrow> bool \<Rightarrow> package_location list \<Rightarrow> root_attribution + bool \<times> bool" where
  "attribute_loop a target declaredAny sitedInAnother [] = Inr (declaredAny, sitedInAnother)"
| "attribute_loop a target declaredAny sitedInAnother (location # locations) =
     (let declared = cleanModuleRoot (ModuleRoot location) in
      if declared \<noteq> [] \<and> declared = target then Inl AttributedToSite
      else (let declaredAny = (declaredAny \<or> declared \<noteq> []) in
            if RealPath location = [] then attribute_loop a target declaredAny sitedInAnother locations
            else if pathWithinRoot (RealPath location) target then Inl AttributedToSite
            else attribute_loop a target declaredAny (sitedInAnother \<or> sitedInAnalyzedRoot a (RealPath location)) locations))"

definition Attribute :: "root_attributor \<Rightarrow> dependency_node option \<Rightarrow> string \<Rightarrow> root_attribution" where
  "Attribute a node root =
     (case node of
        None \<Rightarrow> AttributedElsewhere
      | Some n \<Rightarrow>
          (let target = cleanModuleRoot root in
           if target = [] then AttributedToRootOnly
           else (case attribute_loop a target False False (NodeLocs n) of
                   Inl r \<Rightarrow> r
                 | Inr (declaredAny, sitedInAnother) \<Rightarrow>
                     if sitedInAnother \<or> declaredAny \<and> trustDeclaredRoots a then AttributedElsewhere
                     else AttributedToRootOnly)))"

section \<open>The summary of reachability findings\<close>

definition isUndecided :: "reachability_status \<Rightarrow> bool" where
  "isUndecided status \<longleftrightarrow> status \<noteq> ReachabilityReachable \<and> status \<noteq> ReachabilityUnreachable"

definition tierPrecision :: "reachability_tier \<Rightarrow> nat" where
  "tierPrecision tier = (if tier = TierSymbol then 2 else if tier = TierPackage then 1 else 0)"

text \<open>The first finding of the highest precision among those a loop keeps.\<close>

definition more_precise :: "reachability_evidence option \<Rightarrow> reachability_evidence \<Rightarrow> reachability_evidence option" where
  "more_precise best e =
     (case best of
        None \<Rightarrow> Some e
      | Some b \<Rightarrow> if tierPrecision (EvTier e) > tierPrecision (EvTier b) then Some e else best)"

definition tally :: "reachability_evidence option \<times> nat \<Rightarrow> reachability_evidence \<Rightarrow> reachability_evidence option \<times> nat" where
  "tally s e =
     (case s of (best, unreachable) \<Rightarrow>
        if EvStatus e = ReachabilityReachable then (more_precise best e, unreachable)
        else if EvStatus e = ReachabilityUnreachable then (best, unreachable + 1)
        else s)"

fun choose_undecided :: "reachability_evidence \<Rightarrow> reachability_evidence list \<Rightarrow> reachability_evidence" where
  "choose_undecided chosen [] = chosen"
| "choose_undecided chosen (e # es) =
     (if \<not> isUndecided (EvStatus e) then choose_undecided chosen es
      else if TrimSpace (EvReason e) \<noteq> [] then e
      else choose_undecided (if isUndecided (EvStatus chosen) then chosen else e) es)"

definition Reachability_of :: "reachability_status \<Rightarrow> reachability_evidence \<Rightarrow> reachability" where
  "Reachability_of status e =
     \<lparr>RStatus = status, RTier = EvTier e, RAnalyzer = EvAnalyzer e, RReason = EvReason e, RSymbols = [], RCallPaths = [],
      RHops = None, RConfidence = EvConfidence e, RDynamicImports = False, RAnalyzedAt = EvAnalyzedAt e, REvidence = []\<rparr>"

definition DeriveReachability :: "reachability_evidence list \<Rightarrow> reachability" where
  "DeriveReachability evidence =
     (case evidence of
        [] \<Rightarrow> \<lparr>RStatus = ReachabilityUnknown, RTier = [], RAnalyzer = [], RReason = [], RSymbols = [], RCallPaths = [],
               RHops = None, RConfidence = ConfidenceUnknown, RDynamicImports = False, RAnalyzedAt = [], REvidence = []\<rparr>
      | e # es \<Rightarrow>
          (case foldl tally (None, 0) evidence of
             (Some best, unreachable) \<Rightarrow>
               (Reachability_of ReachabilityReachable best)
                 \<lparr>RSymbols := EvSymbols best, RCallPaths := EvCallPaths best, RHops := EvHops best,
                  RDynamicImports := EvDynamicImports best\<rparr>
           | (None, unreachable) \<Rightarrow>
               if unreachable = length evidence then Reachability_of ReachabilityUnreachable e
               else (let chosen = choose_undecided e evidence
                     in Reachability_of ReachabilityUnknown (chosen\<lparr>EvReason := TrimSpace (EvReason chosen)\<rparr>))))"

section \<open>Joining sites and findings\<close>

record usage_filter =
  FilterScope :: scope
  FilterRelationship :: relationship
  FilterReachable :: bool

record usage =
  UsageModuleRoot :: string
  UsageLocation :: package_location
  UsageEvidence :: "reachability_evidence option"

definition join_evidence ::
  "(string, reachability_evidence) gomap \<times> reachability_evidence option \<Rightarrow> reachability_evidence \<Rightarrow>
   (string, reachability_evidence) gomap \<times> reachability_evidence option" where
  "join_evidence s e =
     (case s of (byRoot, global) \<Rightarrow>
        if EvModuleRoot e = [] then (byRoot, more_precise global e)
        else (mput (EvModuleRoot e) (the (more_precise (mget byRoot (EvModuleRoot e)) e)) byRoot, global))"

definition evidence_for :: "(string, reachability_evidence) gomap \<times> reachability_evidence option \<Rightarrow> package_location \<Rightarrow> reachability_evidence option" where
  "evidence_for s location =
     (case s of (byRoot, global) \<Rightarrow>
        if ModuleRoot location \<noteq> []
        then (case mget byRoot (ModuleRoot location) of Some scoped \<Rightarrow> Some scoped | None \<Rightarrow> global)
        else global)"

definition select_usage ::
  "(string, reachability_evidence) gomap \<times> reachability_evidence option \<Rightarrow> usage_filter \<Rightarrow> package_location \<Rightarrow> usage option" where
  "select_usage s filt location =
     (let found = evidence_for s location in
      if \<not> ScopeSetMatches (LocScopes location) (FilterScope filt) then None
      else if FilterRelationship filt \<noteq> [] \<and> LocRelationship location \<noteq> FilterRelationship filt then None
      else if FilterReachable filt \<and> (case found of None \<Rightarrow> True | Some e \<Rightarrow> EvStatus e \<noteq> ReachabilityReachable) then None
      else Some \<lparr>UsageModuleRoot = ModuleRoot location, UsageLocation = location, UsageEvidence = found\<rparr>)"

definition SelectUsages :: "dependency_node option \<Rightarrow> reachability_evidence list \<Rightarrow> usage_filter \<Rightarrow> usage list" where
  "SelectUsages node evidence filt =
     (case node of
        None \<Rightarrow> []
      | Some n \<Rightarrow> List.map_filter (select_usage (foldl join_evidence ([], None) evidence) filt) (NodeLocs n))"

section \<open>Clean paths\<close>

definition path_form :: "string \<Rightarrow> bool \<times> string list" where
  "path_form s = (if s \<noteq> [] \<and> hd s = CHR ''/'' then (True, clean_comps True [] (split_on CHR ''/'' (tl s)))
     else (False, clean_comps False [] (split_on CHR ''/'' s)))"

fun render_path :: "bool \<times> string list \<Rightarrow> string" where
  "render_path (True, cs) = CHR ''/'' # Join cs ''/''"
| "render_path (False, cs) = (if cs = [] then ''.'' else Join cs ''/'')"

definition clean_form :: "bool \<times> string list \<Rightarrow> bool" where
  "clean_form f \<longleftrightarrow> (\<forall>c \<in> set (snd f). c \<notin> {[], ''.''} \<and> CHR ''/'' \<notin> set c)
     \<and> (\<exists>k ns. snd f = replicate k ''..'' @ ns \<and> ''..'' \<notin> set ns \<and> (fst f \<longrightarrow> k = 0))"

lemma Clean_render: "Clean s = render_path (path_form s)"
  by (cases s) (auto simp: Clean_def path_form_def Let_def)

lemma clean_comps_rooted: "''..'' \<notin> set stack \<Longrightarrow> ''..'' \<notin> set (clean_comps True stack cs)"
proof (induction "True" stack cs rule: clean_comps.induct)
  case (2 stack c cs)
  then show ?case by (cases stack) auto
qed simp

lemma clean_comps_plain: "c \<in> set (clean_comps rooted stack cs) \<Longrightarrow> \<forall>c \<in> set stack. c \<noteq> [] \<and> c \<noteq> ''.'' \<Longrightarrow> c \<noteq> [] \<and> c \<noteq> ''.''"
  by (induction rooted stack cs rule: clean_comps.induct) (auto split: list.splits if_splits)

lemma path_form_clean: "clean_form (path_form s)"
proof -
  have "clean_form (rooted, clean_comps rooted [] (split_on CHR ''/'' t))" for rooted t
  proof -
    let ?k = "clean_comps rooted [] (split_on CHR ''/'' t)"
    have "c \<notin> {[], ''.''} \<and> CHR ''/'' \<notin> set c" if c: "c \<in> set ?k" for c
      using clean_comps_plain [OF c] clean_comps_subset [of rooted "[]" "split_on CHR ''/'' t"] split_on_no_sep_mem [of c "CHR ''/''" t] c
      by auto
    moreover obtain k ns where k: "?k = replicate k ''..'' @ ns" "\<forall>n \<in> set ns. n \<notin> {[], ''.'', ''..''}"
      using clean_comps_shape [of "[]" rooted "split_on CHR ''/'' t"] by auto
    moreover have "rooted \<Longrightarrow> k = 0"
    proof -
      assume "rooted"
      then have "''..'' \<notin> set ?k" using clean_comps_rooted [of "[]"] by simp
      then show "k = 0" unfolding k(1) by (cases k) auto
    qed
    ultimately show ?thesis unfolding clean_form_def by auto
  qed
  then show ?thesis by (simp add: path_form_def)
qed

lemma clean_comps_names: "\<forall>n \<in> set ns. n \<noteq> [] \<and> n \<noteq> ''.'' \<and> n \<noteq> ''..'' \<Longrightarrow> clean_comps rooted stack ns = rev stack @ ns"
  by (induction ns arbitrary: stack) auto

lemma clean_comps_dots: "clean_comps False (replicate j ''..'') (replicate k ''..'' @ ns) = clean_comps False (replicate (j + k) ''..'') ns"
proof (induction k arbitrary: j)
  case (Suc k)
  have "clean_comps False (replicate j ''..'') (''..'' # cs) = clean_comps False (replicate (Suc j) ''..'') cs" for cs
    by (cases j) simp_all
  then show ?case using Suc [of "Suc j"] by simp
qed simp

lemma clean_comps_again:
  assumes "clean_form (rooted, cs)"
  shows "clean_comps rooted [] cs = cs"
proof -
  obtain k ns where k: "cs = replicate k ''..'' @ ns" "''..'' \<notin> set ns" "rooted \<longrightarrow> k = 0"
    using assms by (auto simp: clean_form_def)
  have ns: "\<forall>n \<in> set ns. n \<noteq> [] \<and> n \<noteq> ''.'' \<and> n \<noteq> ''..''" using assms k(1,2) by (auto simp: clean_form_def)
  show ?thesis
  proof (cases rooted)
    case True
    then show ?thesis using k(1,3) clean_comps_names [OF ns] by simp
  next
    case False
    have "clean_comps False [] (replicate k ''..'' @ ns) = clean_comps False (replicate k ''..'') ns"
      using clean_comps_dots [of 0 k ns] by simp
    then show ?thesis using False k(1) clean_comps_names [OF ns] by simp
  qed
qed

lemma split_render: "cs \<noteq> [] \<Longrightarrow> clean_form (rooted, cs) \<Longrightarrow> split_on CHR ''/'' (Join cs ''/'') = cs"
  by (intro split_on_Join) (auto simp: clean_form_def)

lemma Join_hd: "cs \<noteq> [] \<Longrightarrow> clean_form (rooted, cs) \<Longrightarrow> Join cs ''/'' \<noteq> [] \<and> hd (Join cs ''/'') \<noteq> CHR ''/''"
proof -
  assume cs: "cs \<noteq> []" "clean_form (rooted, cs)"
  then obtain c ds where c: "cs = c # ds" "c \<noteq> []" "CHR ''/'' \<notin> set c" by (cases cs) (auto simp: clean_form_def)
  have "Join cs ''/'' = c @ (if ds = [] then [] else CHR ''/'' # Join ds ''/'')" by (cases ds) (simp_all add: c(1))
  with c(2,3) show ?thesis by (cases c) auto
qed

lemma path_form_render: "clean_form f \<Longrightarrow> path_form (render_path f) = f"
proof (cases f)
  case (Pair rooted cs)
  assume f: "clean_form f"
  show ?thesis
  proof (cases rooted)
    case True
    have "split_on CHR ''/'' (Join cs ''/'') = (if cs = [] then [[]] else cs)"
      using split_render [of cs rooted] f Pair by simp
    then show ?thesis using Pair True clean_comps_again [of True cs] f by (auto simp: path_form_def)
  next
    case False
    show ?thesis
    proof (cases "cs = []")
      case True
      then show ?thesis using Pair False by (simp add: path_form_def)
    next
      case ne: False
      then show ?thesis
        using Pair False f Join_hd [OF ne] split_render [OF ne] clean_comps_again [of False cs] by (simp add: path_form_def)
    qed
  qed
qed

lemma path_form_Clean [simp]: "path_form (Clean s) = path_form s"
  by (simp add: Clean_render path_form_render path_form_clean)

lemma Clean_again [simp]: "Clean (Clean s) = Clean s"
  using path_form_Clean [of s] by (simp add: Clean_render)

lemma Clean_eq_iff: "Clean s = Clean t \<longleftrightarrow> path_form s = path_form t"
  by (metis Clean_render path_form_Clean)

section \<open>What lies under a root\<close>

definition form_elems :: "bool \<times> string list \<Rightarrow> string list" where
  "form_elems f = (if fst f then [] # snd f else snd f)"

lemma elems_render:
  assumes "clean_form f" "f \<noteq> (False, [])"
  shows "path_elems (render_path f) = form_elems f"
proof (cases f)
  case (Pair rooted cs)
  show ?thesis
  proof (cases rooted)
    case True
    show ?thesis
    proof (cases "cs = []")
      case ne: False
      have "Join cs ''/'' \<noteq> []" using Join_hd [OF ne] assms(1) Pair by auto
      then show ?thesis using True ne split_render [OF ne] assms(1) Pair by (auto simp: path_elems_def form_elems_def)
    qed (simp add: True Pair path_elems_def form_elems_def)
  next
    case False
    then have ne: "cs \<noteq> []" using assms(2) Pair by simp
    have "Join cs ''/'' \<noteq> []" "Join cs ''/'' \<noteq> ''/''" using Join_hd [OF ne] assms(1) Pair by auto
    then show ?thesis using False ne split_render [OF ne] assms(1) Pair by (auto simp: path_elems_def form_elems_def)
  qed
qed

lemma rooted_render: "clean_form f \<Longrightarrow> HasPrefix (render_path f) ''/'' \<longleftrightarrow> fst f"
  using Join_hd [of "snd f" "fst f"] by (cases f; cases "fst f"; cases "Join (snd f) ''/''") (auto simp: HasPrefix_def)

lemma drop_common_spec:
  "\<exists>pre. bs = pre @ fst (drop_common bs ts) \<and> ts = pre @ snd (drop_common bs ts)
     \<and> (fst (drop_common bs ts) = [] \<or> snd (drop_common bs ts) = [] \<or> hd (fst (drop_common bs ts)) \<noteq> hd (snd (drop_common bs ts)))"
proof (induction bs ts rule: drop_common.induct)
  case (1 b bs t ts)
  then show ?case by (cases "b = t") (auto intro: exI [of _ "b # _"])
qed auto

lemma drop_common_prefix: "fst (drop_common bs ts) = [] \<longleftrightarrow> (\<exists>rest. ts = bs @ rest)"
  by (induction bs ts rule: drop_common.induct) auto

lemma drop_common_rest: "drop_common bs (bs @ rest) = ([], rest)"
  by (induction bs) simp_all


lemma Join_Cons: "Join (c # ds) ''/'' = c @ (if ds = [] then [] else CHR ''/'' # Join ds ''/'')"
  by (cases ds) simp_all

lemma leaves_iff:
  assumes "CHR ''/'' \<notin> set c"
  shows "(Join (c # ds) ''/'' = ''..'' \<or> HasPrefix (Join (c # ds) ''/'') (''..'' @ ''/'')) \<longleftrightarrow> c = ''..''"
proof (cases "ds = []")
  case True
  have "\<not> HasPrefix c (''..'' @ ''/'')"
  proof
    assume "HasPrefix c (''..'' @ ''/'')"
    then have "take 3 c = ''../''" by (simp add: HasPrefix_def numeral_3_eq_3)
    then have "CHR ''/'' \<in> set (take 3 c)" by simp
    then show False using assms by (meson in_set_takeD)
  qed
  then show ?thesis using True by simp
next
  case False
  then have j: "Join (c # ds) ''/'' = c @ CHR ''/'' # Join ds ''/''" by (simp add: Join_Cons)
  have no: "Join (c # ds) ''/'' \<noteq> ''..''"
  proof
    assume "Join (c # ds) ''/'' = ''..''"
    then have "CHR ''/'' \<in> set ''..''" unfolding j by (metis in_set_conv_decomp)
    then show False by simp
  qed
  have "HasPrefix (Join (c # ds) ''/'') (''..'' @ ''/'') \<longleftrightarrow> c = ''..''"
  proof
    assume "HasPrefix (Join (c # ds) ''/'') (''..'' @ ''/'')"
    then have "Join (c # ds) ''/'' = ''../'' @ drop 3 (Join (c # ds) ''/'')" unfolding HasPrefix_def
      by (metis append_Cons append_Nil append_take_drop_id list.size(3,4) numeral_3_eq_3 One_nat_def add_Suc_right add_0_right)
    then have "c @ CHR ''/'' # Join ds ''/'' = ''..'' @ CHR ''/'' # drop 3 (Join (c # ds) ''/'')" unfolding j by simp
    then have "split_on CHR ''/'' (c @ CHR ''/'' # Join ds ''/'') = split_on CHR ''/'' (''..'' @ CHR ''/'' # drop 3 (Join (c # ds) ''/''))"
      by (rule arg_cong)
    moreover have "CHR ''/'' \<notin> set ''..''" by simp
    ultimately show "c = ''..''" using split_on_append_sep [OF assms] split_on_append_sep [of "CHR ''/''" "''..''"] by simp
  qed (simp add: HasPrefix_def Join_Cons False)
  then show ?thesis using no by blast
qed

definition form_within :: "bool \<times> string list \<Rightarrow> bool \<times> string list \<Rightarrow> bool" where
  "form_within p r \<longleftrightarrow> fst p = fst r \<and> (\<exists>rest. snd p = snd r @ rest \<and> (rest = [] \<or> hd rest \<noteq> ''..''))"

lemma up_leaves: "bs \<noteq> [] \<Longrightarrow>
  (let rel = Join (replicate (length bs) ''..'') ''/'' @ (if ts = [] then [] else CHR ''/'' # Join ts ''/'')
   in rel = ''..'' \<or> HasPrefix rel (''..'' @ ''/''))"
proof -
  assume "bs \<noteq> []"
  then obtain n where n: "length bs = Suc n" by (cases bs) auto
  show ?thesis by (cases n) (auto simp: n Join_Cons HasPrefix_def Let_def)
qed

lemma pathWithinRoot_iff: "pathWithinRoot path root \<longleftrightarrow> form_within (path_form path) (path_form root)"
proof (cases "path_form path = path_form root")
  case True
  then have "Clean path = Clean root" by (simp add: Clean_eq_iff)
  then show ?thesis using True by (simp add: pathWithinRoot_def filepath_Rel_def form_within_def HasPrefix_def)
next
  case ne: False
  define p r where "p = path_form path" and "r = path_form root"
  have cf: "clean_form p" "clean_form r" by (simp_all add: p_def r_def path_form_clean)
  have ne': "p \<noteq> r" using ne by (simp add: p_def r_def)
  let ?base = "if Clean root = ''.'' then [] else Clean root"
  have base: "path_elems ?base = form_elems r \<and> HasPrefix ?base ''/'' = fst r"
  proof (cases "r = (False, [])")
    case True
    then show ?thesis by (simp add: Clean_render r_def [symmetric] path_elems_def form_elems_def HasPrefix_def)
  next
    case False
    have "render_path r \<noteq> ''.''"
    proof
      assume "render_path r = ''.''"
      then have "path_form (render_path r) = path_form (render_path (False, []))" by simp
      then have "r = (False, [])" using cf(2) by (simp add: path_form_render) (simp add: path_form_def)
      with False show False by blast
    qed
    then show ?thesis using elems_render [OF cf(2) False] rooted_render [OF cf(2)] by (simp add: Clean_render r_def [symmetric])
  qed
  have targ: "Clean path = render_path p" by (simp add: Clean_render p_def)
  have rel: "filepath_Rel (Clean root) (Clean path) =
     (if fst r \<noteq> fst p then None
      else case drop_common (form_elems r) (path_elems (render_path p)) of (bs, ts) \<Rightarrow>
        if bs \<noteq> [] \<and> ts \<noteq> [] \<and> hd bs = ''..'' then None
        else if bs \<noteq> [] then Some (Join (replicate (length bs) ''..'') ''/'' @ (if ts = [] then [] else CHR ''/'' # Join ts ''/''))
        else Some (Join ts ''/''))"
  proof -
    have "Clean path \<noteq> Clean root" using ne by (simp add: Clean_eq_iff)
    moreover have "HasPrefix (Clean path) ''/'' = fst p" unfolding targ by (rule rooted_render [OF cf(1)])
    moreover have "HasPrefix ?base ''/'' = fst r" "path_elems ?base = form_elems r" using base by blast+
    ultimately show ?thesis unfolding filepath_Rel_def Clean_again Let_def targ [symmetric] by (simp only: if_False)
  qed
  show ?thesis
  proof (cases "fst r = fst p")
    case False
    then show ?thesis by (simp add: pathWithinRoot_def rel form_within_def p_def [symmetric] r_def [symmetric])
  next
    case same: True
    obtain bs ts where bt: "drop_common (form_elems r) (path_elems (render_path p)) = (bs, ts)" by fastforce
    show ?thesis
    proof (cases "bs = []")
      case False
      have "\<not> (\<exists>rest. path_elems (render_path p) = form_elems r @ rest)"
        using drop_common_prefix [of "form_elems r" "path_elems (render_path p)"] bt False by simp
      then have "\<not> (\<exists>rest. snd p = snd r @ rest)"
      proof (rule contrapos_nn)
        assume "\<exists>rest. snd p = snd r @ rest"
        then obtain rest where rest: "snd p = snd r @ rest" by blast
        then have "p \<noteq> (False, [])" using ne' same by (cases p; cases r) auto
        then show "\<exists>rest. path_elems (render_path p) = form_elems r @ rest"
          using rest same elems_render [OF cf(1)] by (auto simp: form_elems_def)
      qed
      then show ?thesis
        using False same up_leaves [OF False, of ts]
        by (auto simp: pathWithinRoot_def rel bt form_within_def p_def [symmetric] r_def [symmetric] Let_def)
    next
      case True
      obtain rest where rest: "path_elems (render_path p) = form_elems r @ rest"
        using drop_common_prefix [of "form_elems r" "path_elems (render_path p)"] bt True by auto
      then have ts: "ts = rest" using drop_common_rest [of "form_elems r" rest] bt by simp
      show ?thesis
      proof (cases "p = (False, [])")
        case pd: True
        then have "path_elems (render_path p) = [''.'']" by (simp add: path_elems_def)
        moreover have "form_elems r \<noteq> []" using ne' same pd by (cases r) (auto simp: form_elems_def)
        ultimately have "form_elems r = [''.'']" using rest by (cases "form_elems r") auto
        then have False using cf(2) same pd by (auto simp: form_elems_def clean_form_def)
        then show ?thesis ..
      next
        case False
        then have snd: "snd p = snd r @ rest" using rest same elems_render [OF cf(1)] by (auto simp: form_elems_def split: if_splits)
        then have "rest \<noteq> []" using ne' same by (cases p; cases r) auto
        then obtain c ds where c: "rest = c # ds" by (cases rest) auto
        have "CHR ''/'' \<notin> set c" using cf(1) snd c by (auto simp: clean_form_def)
        from leaves_iff [OF this, of ds] show ?thesis
          using same True snd by (auto simp: pathWithinRoot_def rel bt ts c form_within_def p_def [symmetric] r_def [symmetric])
      qed
    qed
  qed
qed

section \<open>Attribution\<close>

definition site_in :: "package_location \<Rightarrow> string \<Rightarrow> bool" where
  "site_in location target \<longleftrightarrow> cleanModuleRoot (ModuleRoot location) = target
     \<or> RealPath location \<noteq> [] \<and> form_within (path_form (RealPath location)) (path_form target)"

lemma attribute_loop_spec:
  "target \<noteq> [] \<Longrightarrow> attribute_loop a target d s locations =
     (if \<exists>l \<in> set locations. site_in l target then Inl AttributedToSite
      else Inr (d \<or> (\<exists>l \<in> set locations. cleanModuleRoot (ModuleRoot l) \<noteq> []),
                s \<or> (\<exists>l \<in> set locations. RealPath l \<noteq> [] \<and> sitedInAnalyzedRoot a (RealPath l))))"
proof (induction a target d s locations rule: attribute_loop.induct)
  case (2 a target d s location locations)
  consider "cleanModuleRoot (ModuleRoot location) = target"
    | "cleanModuleRoot (ModuleRoot location) \<noteq> target" "RealPath location = []"
    | "cleanModuleRoot (ModuleRoot location) \<noteq> target" "RealPath location \<noteq> []" "pathWithinRoot (RealPath location) target"
    | "cleanModuleRoot (ModuleRoot location) \<noteq> target" "RealPath location \<noteq> []" "\<not> pathWithinRoot (RealPath location) target"
    by blast
  then show ?case
  proof cases
    case 1
    then show ?thesis using "2.prems" by (simp add: site_in_def)
  next
    case 2
    then have "\<not> site_in location target" by (simp add: site_in_def)
    then show ?thesis using 2 "2.IH"(1) "2.prems" by (simp add: Let_def)
  next
    case 3
    then show ?thesis by (simp add: site_in_def Let_def pathWithinRoot_iff)
  next
    case 4
    then have "\<not> site_in location target" by (simp add: site_in_def pathWithinRoot_iff)
    then show ?thesis using 4 "2.IH"(2) "2.prems" by (auto simp: Let_def)
  qed
qed simp

text \<open>C37. How firmly the sites of a dependency tie it to a module root, for an attributor calibrated on a
  consistent graph. A site ties it when it declares the root or lies under it, which is a matter of
  path elements and not of a string prefix. Otherwise the dependency counts as absent, and its
  evidence may be dropped, only on positive evidence: a site under another analyzed root, or a
  declared root while the graph declares some analyzed root at all. No other answer is given.\<close>

theorem Attribute_spec:
  assumes g: "graph_ok g"
  shows "Attribute (NewRootAttributor roots (Some g)) (Some n) root =
     (let target = cleanModuleRoot root; known = {cleanModuleRoot r |r. r \<in> set roots} - {[]} in
      if target = [] then AttributedToRootOnly
      else if \<exists>l \<in> set (NodeLocs n). site_in l target then AttributedToSite
      else if (\<exists>l \<in> set (NodeLocs n). RealPath l \<noteq> [] \<and> (\<exists>r \<in> known. form_within (path_form (RealPath l)) (path_form r)))
        \<or> (\<exists>l \<in> set (NodeLocs n). cleanModuleRoot (ModuleRoot l) \<noteq> [])
          \<and> (\<exists>m l. Node g (dependency_id m) = Some (DependencyNode m) \<and> l \<in> set (NodeLocs m) \<and> cleanModuleRoot (ModuleRoot l) \<in> known)
      then AttributedElsewhere
      else AttributedToRootOnly)"
proof -
  let ?a = "NewRootAttributor roots (Some g)"
  define known where "known = {cleanModuleRoot r |r. r \<in> set roots} - {[]}"
  have an: "set (analyzed ?a) = known" by (auto simp: NewRootAttributor_def known_def Let_def filter_empty_conv)
  have trust: "trustDeclaredRoots ?a \<longleftrightarrow> (\<exists>m l. Node g (dependency_id m) = Some (DependencyNode m) \<and> l \<in> set (NodeLocs m) \<and> cleanModuleRoot (ModuleRoot l) \<in> known)"
  proof -
    let ?c = "remdups (filter (\<lambda>r. r \<noteq> []) (map cleanModuleRoot roots))"
    have c: "set ?c = known" by (auto simp: known_def)
    have "declares_analyzed ?c l \<longleftrightarrow> cleanModuleRoot (ModuleRoot l) \<in> known" for l
      unfolding declares_analyzed_def Let_def c by (auto simp: known_def)
    then have "list_ex (\<lambda>n. list_ex (declares_analyzed ?c) (NodeLocs n)) (WalkDependencyNodes g)
        \<longleftrightarrow> (\<exists>m l. Node g (dependency_id m) = Some (DependencyNode m) \<and> l \<in> set (NodeLocs m) \<and> cleanModuleRoot (ModuleRoot l) \<in> known)"
      by (auto simp: list_ex_iff WalkDependencyNodes_set [OF g])
    moreover have "trustDeclaredRoots ?a \<longleftrightarrow> ?c \<noteq> [] \<and> list_ex (\<lambda>n. list_ex (declares_analyzed ?c) (NodeLocs n)) (WalkDependencyNodes g)"
      by (simp add: NewRootAttributor_def Let_def del: remdups_eq_nil_iff filter_empty_conv)
    moreover have "?c \<noteq> [] \<longleftrightarrow> known \<noteq> {}" unfolding c [symmetric] by (simp only: set_empty)
    ultimately show ?thesis by blast
  qed
  have sited: "sitedInAnalyzedRoot ?a p \<longleftrightarrow> (\<exists>r \<in> known. form_within (path_form p) (path_form r))" for p
    by (simp add: sitedInAnalyzedRoot_def list_ex_iff an pathWithinRoot_iff)
  show ?thesis
    unfolding known_def [symmetric] Attribute_def option.case Let_def
    using trust sited by (auto simp: attribute_loop_spec)
qed

theorem Attribute_spec_witness:
  "Attribute (NewRootAttributor [''/ws/api''] (Some New))
     (Some (sample_dependency\<lparr>NodeLocs := [\<lparr>RealPath = ''/ws/apifoo/x'', AccessPath = [], Position = None, ModuleRoot = [], LocScopes = [], LocRelationship = []\<rparr>]\<rparr>))
     ''/ws/api'' = AttributedToRootOnly"
proof -
  have t: "cleanModuleRoot ''/ws/api'' = ''/ws/api''" "cleanModuleRoot [] = []" by code_simp+
  have f: "path_form ''/ws/api'' = (True, [''ws'', ''api''])" "path_form ''/ws/apifoo/x'' = (True, [''ws'', ''apifoo'', ''x''])"
    by (simp_all add: path_form_def)
  show ?thesis
    using Attribute_spec [of New "[''/ws/api'']" "sample_dependency\<lparr>NodeLocs := [\<lparr>RealPath = ''/ws/apifoo/x'', AccessPath = [], Position = None, ModuleRoot = [], LocScopes = [], LocRelationship = []\<rparr>]\<rparr>" "''/ws/api''"]
    by (simp add: New_abs t f form_within_def site_in_def Let_def)
qed

section \<open>The most precise finding\<close>

definition most_precise :: "reachability_evidence list \<Rightarrow> reachability_evidence option" where
  "most_precise es = foldl more_precise None es"

lemma more_precise_foldl:
  "\<exists>best. foldl more_precise (Some b) es = Some best \<and> best \<in> insert b (set es)
     \<and> (\<forall>e \<in> insert b (set es). tierPrecision (EvTier e) \<le> tierPrecision (EvTier best))"
proof (induction es arbitrary: b)
  case (Cons e es)
  let ?b = "if tierPrecision (EvTier e) > tierPrecision (EvTier b) then e else b"
  obtain best where best: "foldl more_precise (Some ?b) es = Some best" "best \<in> insert ?b (set es)"
    "\<forall>e \<in> insert ?b (set es). tierPrecision (EvTier e) \<le> tierPrecision (EvTier best)" using Cons.IH by blast
  have "more_precise (Some b) e = Some ?b" by (simp add: more_precise_def)
  moreover have "tierPrecision (EvTier b) \<le> tierPrecision (EvTier ?b)" "tierPrecision (EvTier e) \<le> tierPrecision (EvTier ?b)" by auto
  ultimately show ?case using best by (intro exI [of _ best]) (auto intro: le_trans split: if_splits)
qed simp

lemma most_precise_spec:
  "(case most_precise es of
      None \<Rightarrow> es = []
    | Some best \<Rightarrow> best \<in> set es \<and> (\<forall>e \<in> set es. tierPrecision (EvTier e) \<le> tierPrecision (EvTier best)))"
proof (cases es)
  case (Cons e es')
  have "most_precise es = foldl more_precise (Some e) es'" by (simp add: most_precise_def Cons more_precise_def)
  then show ?thesis using more_precise_foldl [of e es'] Cons by auto
qed (simp add: most_precise_def)

lemma foldl_tally:
  "foldl tally (best, k) es =
    (foldl more_precise best (filter (\<lambda>e. EvStatus e = ReachabilityReachable) es),
     k + length (filter (\<lambda>e. EvStatus e = ReachabilityUnreachable) es))"
  by (induction es arbitrary: best k) (auto simp: tally_def)

lemma choose_undecided_spec:
  assumes "isUndecided (EvStatus d) \<or> (\<exists>e \<in> set es. isUndecided (EvStatus e))"
  shows "isUndecided (EvStatus (choose_undecided d es)) \<and> choose_undecided d es \<in> insert d (set es)
     \<and> ((\<exists>e \<in> set es. isUndecided (EvStatus e) \<and> TrimSpace (EvReason e) \<noteq> []) \<longrightarrow> TrimSpace (EvReason (choose_undecided d es)) \<noteq> [])"
  using assms
proof (induction d es rule: choose_undecided.induct)
  case (2 d e es)
  then show ?case by (cases "isUndecided (EvStatus e)"; cases "TrimSpace (EvReason e) = []"; cases "isUndecided (EvStatus d)") auto
qed simp

text \<open>The summary of the findings of several module roots. It is reachable exactly when some root
  reaches the symbol, and then carries the detail of a most precise reachable finding; it is
  unreachable exactly when there are findings and every one says so; anything else is unknown, with
  the reason of a finding that is itself undecided, and with a reason whenever an undecided finding
  gives one, in whatever order the findings come.\<close>

lemma DeriveReachability_spec:
  "(RStatus (DeriveReachability es) = ReachabilityReachable \<longleftrightarrow> (\<exists>e \<in> set es. EvStatus e = ReachabilityReachable))
   \<and> (RStatus (DeriveReachability es) = ReachabilityUnreachable \<longleftrightarrow> es \<noteq> [] \<and> (\<forall>e \<in> set es. EvStatus e = ReachabilityUnreachable))
   \<and> RStatus (DeriveReachability es) \<in> {ReachabilityReachable, ReachabilityUnreachable, ReachabilityUnknown}
   \<and> (RStatus (DeriveReachability es) = ReachabilityReachable \<longrightarrow>
        (\<exists>e \<in> set es. EvStatus e = ReachabilityReachable \<and> RTier (DeriveReachability es) = EvTier e
           \<and> RSymbols (DeriveReachability es) = EvSymbols e \<and> RCallPaths (DeriveReachability es) = EvCallPaths e
           \<and> RReason (DeriveReachability es) = EvReason e \<and> RHops (DeriveReachability es) = EvHops e
           \<and> (\<forall>f \<in> set es. EvStatus f = ReachabilityReachable \<longrightarrow> tierPrecision (EvTier f) \<le> tierPrecision (EvTier e))))
   \<and> (RStatus (DeriveReachability es) = ReachabilityUnknown \<and> es \<noteq> [] \<longrightarrow>
        (\<exists>e \<in> set es. isUndecided (EvStatus e) \<and> RReason (DeriveReachability es) = TrimSpace (EvReason e))
        \<and> ((\<exists>e \<in> set es. isUndecided (EvStatus e) \<and> TrimSpace (EvReason e) \<noteq> []) \<longrightarrow> RReason (DeriveReachability es) \<noteq> []))"
proof (cases es)
  case Nil
  then show ?thesis by (simp add: DeriveReachability_def)
next
  case (Cons d ds)
  let ?re = "filter (\<lambda>e. EvStatus e = ReachabilityReachable) es" and ?un = "filter (\<lambda>e. EvStatus e = ReachabilityUnreachable) es"
  have all: "length ?un = length es \<longleftrightarrow> (\<forall>e \<in> set es. EvStatus e = ReachabilityUnreachable)"
    using length_filter_less [of _ es "\<lambda>e. EvStatus e = ReachabilityUnreachable"] by fastforce
  have val: "DeriveReachability es = (case (most_precise ?re, length ?un) of
      (Some best, unreachable) \<Rightarrow> (Reachability_of ReachabilityReachable best)
         \<lparr>RSymbols := EvSymbols best, RCallPaths := EvCallPaths best, RHops := EvHops best, RDynamicImports := EvDynamicImports best\<rparr>
    | (None, unreachable) \<Rightarrow>
        if unreachable = length es then Reachability_of ReachabilityUnreachable d
        else (let chosen = choose_undecided d es in Reachability_of ReachabilityUnknown (chosen\<lparr>EvReason := TrimSpace (EvReason chosen)\<rparr>)))"
    unfolding DeriveReachability_def foldl_tally most_precise_def add_0 by (simp only: Cons list.case)
  show ?thesis
  proof (cases "most_precise ?re")
    case (Some best)
    then have best: "best \<in> set ?re" "\<forall>e \<in> set ?re. tierPrecision (EvTier e) \<le> tierPrecision (EvTier best)"
      using most_precise_spec [of ?re] by auto
    then have r: "best \<in> set es" "EvStatus best = ReachabilityReachable" by auto
    have "DeriveReachability es = (Reachability_of ReachabilityReachable best)
         \<lparr>RSymbols := EvSymbols best, RCallPaths := EvCallPaths best, RHops := EvHops best, RDynamicImports := EvDynamicImports best\<rparr>"
      by (simp add: val Some)
    then show ?thesis using r best(2) by (auto simp: Reachability_of_def intro!: bexI [of _ best])
  next
    case None
    then have no: "\<forall>e \<in> set es. EvStatus e \<noteq> ReachabilityReachable" using most_precise_spec [of ?re] by (auto simp: filter_empty_conv)
    show ?thesis
    proof (cases "length ?un = length es")
      case True
      then have "DeriveReachability es = Reachability_of ReachabilityUnreachable d" by (simp add: val None)
      then show ?thesis using True all no Cons by (auto simp: Reachability_of_def)
    next
      case False
      then obtain e where e: "e \<in> set es" "isUndecided (EvStatus e)" using all no by (auto simp: isUndecided_def)
      have "DeriveReachability es = Reachability_of ReachabilityUnknown ((choose_undecided d es)\<lparr>EvReason := TrimSpace (EvReason (choose_undecided d es))\<rparr>)"
        using False by (simp add: val None Let_def)
      moreover have "insert d (set es) = set es" using Cons by auto
      with choose_undecided_spec [of d es] e have "choose_undecided d es \<in> set es" "isUndecided (EvStatus (choose_undecided d es))"
        "(\<exists>e \<in> set es. isUndecided (EvStatus e) \<and> TrimSpace (EvReason e) \<noteq> []) \<longrightarrow> TrimSpace (EvReason (choose_undecided d es)) \<noteq> []"
        by (metis (no_types, lifting))+
      moreover have "\<not> (\<forall>e \<in> set es. EvStatus e = ReachabilityUnreachable)" using False all by blast
      ultimately show ?thesis using no by (auto simp: Reachability_of_def)
    qed
  qed
qed

definition sample_evidence :: "reachability_status \<Rightarrow> string \<Rightarrow> reachability_evidence" where
  "sample_evidence status reason = \<lparr>EvModuleRoot = [], EvDependencyRefs = [], EvStatus = status, EvTier = [], EvAnalyzer = [],
     EvReason = reason, EvSymbols = [], EvCallPaths = [], EvHops = None, EvConfidence = [], EvDynamicImports = False, EvAnalyzedAt = []\<rparr>"

section \<open>Usages\<close>

definition applicable :: "reachability_evidence list \<Rightarrow> string \<Rightarrow> reachability_evidence option" where
  "applicable evidence root = most_precise (filter (\<lambda>e. EvModuleRoot e = root) evidence)"

definition finding_for :: "reachability_evidence list \<Rightarrow> package_location \<Rightarrow> reachability_evidence option" where
  "finding_for evidence location =
     (if ModuleRoot location \<noteq> [] \<and> applicable evidence (ModuleRoot location) \<noteq> None
      then applicable evidence (ModuleRoot location) else applicable evidence [])"

lemma foldl_join_evidence:
  "(case foldl join_evidence (byRoot, global) es of (m, gl) \<Rightarrow>
     gl = foldl more_precise global (filter (\<lambda>e. EvModuleRoot e = []) es)
     \<and> (\<forall>r. r \<noteq> [] \<longrightarrow> mget m r = foldl more_precise (mget byRoot r) (filter (\<lambda>e. EvModuleRoot e = r) es)))"
proof (induction es arbitrary: byRoot global)
  case (Cons e es)
  have some: "Some (the (more_precise x e)) = more_precise x e" for x by (cases x) (simp_all add: more_precise_def)
  have step: "join_evidence (byRoot, global) e =
      (if EvModuleRoot e = [] then (byRoot, more_precise global e)
       else (mput (EvModuleRoot e) (the (more_precise (mget byRoot (EvModuleRoot e)) e)) byRoot, global))"
    by (simp add: join_evidence_def)
  show ?case
  proof (cases "EvModuleRoot e = []")
    case True
    then show ?thesis using Cons.IH [where byRoot = byRoot and global = "more_precise global e"] by (auto simp: step split: prod.splits)
  next
    case False
    then show ?thesis
      using Cons.IH [where global = global and byRoot = "mput (EvModuleRoot e) (the (more_precise (mget byRoot (EvModuleRoot e)) e)) byRoot"]
      by (auto simp: step gomap_simps some split: prod.splits)
  qed
qed simp

lemma evidence_for_finding: "evidence_for (foldl join_evidence ([], None) evidence) location = finding_for evidence location"
proof -
  obtain m gl where j: "foldl join_evidence ([], None) evidence = (m, gl)" by fastforce
  have "gl = applicable evidence []" "\<And>r. r \<noteq> [] \<Longrightarrow> mget m r = applicable evidence r"
    using foldl_join_evidence [where byRoot = "[]" and global = None and es = evidence] by (simp_all add: j applicable_def most_precise_def)
  then show ?thesis by (auto simp: j evidence_for_def finding_for_def split: option.split)
qed

text \<open>The usages a filter selects are the sites of the dependency, in order, that meet every condition
  at once, each with a most precise finding of its own module root, or of the whole scan when its
  root has none; so "reachable" asks for a reachable finding that applies to that very site. A most
  precise finding is one of the findings for that root.\<close>

lemma SelectUsages_spec:
  "SelectUsages (Some n) evidence filt =
     map (\<lambda>l. \<lparr>UsageModuleRoot = ModuleRoot l, UsageLocation = l, UsageEvidence = finding_for evidence l\<rparr>)
       (filter (\<lambda>l. ScopeSetMatches (LocScopes l) (FilterScope filt)
            \<and> (FilterRelationship filt = [] \<or> LocRelationship l = FilterRelationship filt)
            \<and> (FilterReachable filt \<longrightarrow> (\<exists>e. finding_for evidence l = Some e \<and> EvStatus e = ReachabilityReachable)))
         (NodeLocs n))
   \<and> (\<forall>root e. applicable evidence root = Some e \<longrightarrow> e \<in> set evidence \<and> EvModuleRoot e = root
         \<and> (\<forall>f \<in> set evidence. EvModuleRoot f = root \<longrightarrow> tierPrecision (EvTier f) \<le> tierPrecision (EvTier e)))"
proof (intro conjI allI impI)
  have mf: "List.map_filter (\<lambda>x. if P x then None else if Q x then None else if R x then None else Some (f x)) xs
      = map f (filter (\<lambda>x. \<not> P x \<and> \<not> Q x \<and> \<not> R x) xs)" for P Q R and f :: "package_location \<Rightarrow> usage" and xs
    by (induction xs) (auto simp: map_filter_simps)
  have sel: "select_usage (foldl join_evidence ([], None) evidence) filt = (\<lambda>l.
      if \<not> ScopeSetMatches (LocScopes l) (FilterScope filt) then None
      else if FilterRelationship filt \<noteq> [] \<and> LocRelationship l \<noteq> FilterRelationship filt then None
      else if FilterReachable filt \<and> (case finding_for evidence l of None \<Rightarrow> True | Some e \<Rightarrow> EvStatus e \<noteq> ReachabilityReachable) then None
      else Some \<lparr>UsageModuleRoot = ModuleRoot l, UsageLocation = l, UsageEvidence = finding_for evidence l\<rparr>)"
    by (rule ext) (simp only: select_usage_def Let_def evidence_for_finding)
  show "SelectUsages (Some n) evidence filt =
     map (\<lambda>l. \<lparr>UsageModuleRoot = ModuleRoot l, UsageLocation = l, UsageEvidence = finding_for evidence l\<rparr>)
       (filter (\<lambda>l. ScopeSetMatches (LocScopes l) (FilterScope filt)
            \<and> (FilterRelationship filt = [] \<or> LocRelationship l = FilterRelationship filt)
            \<and> (FilterReachable filt \<longrightarrow> (\<exists>e. finding_for evidence l = Some e \<and> EvStatus e = ReachabilityReachable)))
         (NodeLocs n))"
    unfolding SelectUsages_def option.case sel mf
    by (intro arg_cong [where f = "map _"] filter_cong refl) (auto split: option.splits)
next
  fix root e assume e: "applicable evidence root = Some e"
  then have p: "e \<in> set (filter (\<lambda>e. EvModuleRoot e = root) evidence)"
    "\<forall>f \<in> set (filter (\<lambda>e. EvModuleRoot e = root) evidence). tierPrecision (EvTier f) \<le> tierPrecision (EvTier e)"
    using most_precise_spec [of "filter (\<lambda>e. EvModuleRoot e = root) evidence"] by (simp_all add: applicable_def)
  show "e \<in> set evidence" "EvModuleRoot e = root" using p(1) by auto
  show "\<forall>f \<in> set evidence. EvModuleRoot f = root \<longrightarrow> tierPrecision (EvTier f) \<le> tierPrecision (EvTier e)" using p(2) by auto
qed

definition sample_location :: "string \<Rightarrow> package_location" where
  "sample_location root = \<lparr>RealPath = [], AccessPath = [], Position = None, ModuleRoot = root, LocScopes = [], LocRelationship = []\<rparr>"

end
