(* ===== verification/Document.thy ===== *)
theory Document
  imports Usage References
begin

text \<open>
  What a source document says about itself, \<^verbatim>\<open>model/document.go\<close>: the tools, the link tuple of a
  document (identity, version, checksum), the documents it was built from, the gate every field
  passes and the merge of two documents' claims; and the index from packages to nodes. JSON objects
  are modelled by the record a decoder fills; the array of sources, which is read as a stream, by
  its elements.
\<close>

abbreviation maxDocumentFieldLength :: nat where "maxDocumentFieldLength \<equiv> 4096"
abbreviation maxDocumentSources :: nat where "maxDocumentSources \<equiv> 256"

definition maxDocumentSourcesBytes :: nat where
  "maxDocumentSourcesBytes = maxDocumentSources * (maxLocatorLength + maxDigestValueLength + 512)"

definition documentFieldPublishable :: "string \<Rightarrow> bool" where
  "documentFieldPublishable field \<longleftrightarrow>
     length field \<le> maxDocumentFieldLength \<and> ValidString field \<and> \<not> ContainsControlChar field"

section \<open>Tools\<close>

record document_tool =
  Vendor :: string
  ToolName :: string
  ToolVersion :: string

definition Tool_Normalized :: "document_tool \<Rightarrow> document_tool option" where
  "Tool_Normalized t =
     (let normalized = \<lparr>Vendor = TrimSpace (Vendor t), ToolName = TrimSpace (ToolName t), ToolVersion = TrimSpace (ToolVersion t)\<rparr>
      in if \<not> list_all documentFieldPublishable [Vendor normalized, ToolName normalized, ToolVersion normalized] then None
         else if ToolName normalized = [] then None
         else Some normalized)"

section \<open>Links to documents\<close>

record document_source =
  SourceIdentity :: string
  SourceVersion :: int
  SourceChecksum :: "digest option"

definition documentVersionFor :: "library \<Rightarrow> string \<Rightarrow> int \<Rightarrow> int" where
  "documentVersionFor L identity version =
     (if version \<le> 0 then 0
      else if cdx_IsBOMLink L identity
           \<and> (case cdx_BOMLinkVersion L identity of None \<Rightarrow> False | Some v \<Rightarrow> v \<noteq> version) then 0
      else version)"

definition documentEffectiveVersion :: "library \<Rightarrow> string \<Rightarrow> int \<Rightarrow> int" where
  "documentEffectiveVersion L identity version =
     (if version \<noteq> 0 \<or> \<not> cdx_IsBOMLink L identity then version
      else (case cdx_BOMLinkVersion L identity of None \<Rightarrow> 0 | Some v \<Rightarrow> v))"

definition documentChecksumFor :: "library \<Rightarrow> digest option \<Rightarrow> digest option" where
  "documentChecksumFor L checksum =
     (case checksum of
        None \<Rightarrow> None
      | Some d \<Rightarrow>
          (case Digest_Normalized L d of
             None \<Rightarrow> None
           | Some normalized \<Rightarrow> if Subject normalized \<noteq> DigestSubjectArtifact then None else Some normalized))"

definition Source_Normalized :: "library \<Rightarrow> document_source \<Rightarrow> document_source option" where
  "Source_Normalized L s =
     (case normalizeLocator L (TrimSpace (SourceIdentity s)) LocatorKindIRI of
        None \<Rightarrow> None
      | Some identity \<Rightarrow>
          Some \<lparr>SourceIdentity = identity,
                SourceVersion = documentEffectiveVersion L identity (documentVersionFor L identity (SourceVersion s)),
                SourceChecksum = documentChecksumFor L (SourceChecksum s)\<rparr>)"

definition Source_zero :: document_source where
  "Source_zero = \<lparr>SourceIdentity = [], SourceVersion = 0, SourceChecksum = None\<rparr>"

definition Source_MarshalJSON :: "library \<Rightarrow> document_source \<Rightarrow> document_source" where
  "Source_MarshalJSON L s = (case Source_Normalized L s of None \<Rightarrow> Source_zero | Some normalized \<Rightarrow> normalized)"

definition Source_UnmarshalJSON :: "library \<Rightarrow> document_source \<Rightarrow> document_source" where
  "Source_UnmarshalJSON L wire = (case Source_Normalized L wire of None \<Rightarrow> Source_zero | Some normalized \<Rightarrow> normalized)"

definition source_key :: "document_source \<Rightarrow> string \<times> int" where
  "source_key s = (SourceIdentity s, SourceVersion s)"

definition fold_source :: "document_source list \<Rightarrow> document_source \<Rightarrow> document_source list" where
  "fold_source folded source =
     (if source_key source \<in> set (map source_key folded)
      then map (\<lambda>f. if source_key f = source_key source
                    then f\<lparr>SourceChecksum := MergeFillGap None None (SourceChecksum f) (SourceChecksum source)\<rparr> else f) folded
      else folded @ [source])"

definition foldDocumentSources :: "document_source list \<Rightarrow> document_source list" where
  "foldDocumentSources sources = sort_key source_key (foldl fold_source [] sources)"

definition isSelfSource :: "library \<Rightarrow> string \<Rightarrow> int \<Rightarrow> document_source \<Rightarrow> bool" where
  "isSelfSource L identity version source =
     (if identity = [] \<or> SourceIdentity source \<noteq> identity then False
      else (let own = documentEffectiveVersion L identity version
            in own \<noteq> 0 \<and> own = documentEffectiveVersion L (SourceIdentity source) (SourceVersion source)))"

definition sameDocumentLink :: "string \<Rightarrow> int \<Rightarrow> string \<Rightarrow> int \<Rightarrow> bool" where
  "sameDocumentLink identity version otherIdentity otherVersion \<longleftrightarrow>
     identity \<noteq> [] \<and> identity = otherIdentity \<and> (version = 0 \<or> otherVersion = 0 \<or> version = otherVersion)"

section \<open>Assertions\<close>

record document_assertions =
  DocIdentity :: string
  DocName :: string
  DataLicense :: string
  DocCreated :: string
  Creators :: "contact list"
  Tools :: "document_tool list"
  DocComment :: string
  DocVersion :: int
  DocChecksum :: "digest option"
  DocSources :: "document_source list"
  DocFormat :: string

definition Document_zero :: document_assertions where
  "Document_zero = \<lparr>DocIdentity = [], DocName = [], DataLicense = [], DocCreated = [], Creators = [], Tools = [],
     DocComment = [], DocVersion = 0, DocChecksum = None, DocSources = [], DocFormat = []\<rparr>"

definition NormalizeDocumentFormat :: "string \<Rightarrow> string" where
  "NormalizeDocumentFormat value =
     (let trimmed = TrimSpace value
      in if trimmed = [] \<or> length trimmed > maxVocabularyTokenLength \<or> \<not> ValidString trimmed then []
         else if list_ex (\<lambda>r. IsSpace r \<or> IsControl r) (chunks trimmed) then []
         else trimmed)"

definition creatorKey :: "contact \<Rightarrow> string" where
  "creatorKey c = ContactKind c @ [CHR 0x00] @ ContactName c @ [CHR 0x00] @ ContactURL c"

definition toolKey :: "document_tool \<Rightarrow> string" where
  "toolKey t = Vendor t @ [CHR 0x00] @ ToolName t @ [CHR 0x00] @ ToolVersion t"

definition publishable_field :: "string \<Rightarrow> string" where
  "publishable_field value =
     (let trimmed = TrimSpace value in if trimmed \<noteq> [] \<and> documentFieldPublishable trimmed then trimmed else [])"

definition Document_IsEmpty :: "document_assertions \<Rightarrow> bool" where
  "Document_IsEmpty d \<longleftrightarrow>
     DocIdentity d = [] \<and> DocName d = [] \<and> DataLicense d = [] \<and> DocCreated d = [] \<and> DocComment d = [] \<and> Creators d = []
     \<and> Tools d = [] \<and> DocVersion d = 0 \<and> DocChecksum d = None \<and> DocSources d = [] \<and> DocFormat d = []"

definition normalized_document :: "library \<Rightarrow> document_assertions \<Rightarrow> document_assertions" where
  "normalized_document L d =
     (let identity = (case normalizeLocator L (TrimSpace (DocIdentity d)) LocatorKindIRI of None \<Rightarrow> [] | Some i \<Rightarrow> i);
          comment = NormalizeDescription (DocComment d);
          version = documentVersionFor L identity (DocVersion d);
          kept = filter (\<lambda>s. \<not> isSelfSource L identity version s)
                    (List.map_filter (Source_Normalized L) (take maxDocumentSources (DocSources d)))
      in \<lparr>DocIdentity = identity, DocName = publishable_field (DocName d),
          DataLicense = normalizedSPDXExpression L (DataLicense d) [], DocCreated = publishable_field (DocCreated d),
          Creators = sort_key creatorKey (List.map_filter (Contact_Normalized L) (Creators d)),
          Tools = sort_key toolKey (List.map_filter Tool_Normalized (Tools d)),
          DocComment = (if length comment > maxDocumentFieldLength then [] else comment),
          DocVersion = version, DocChecksum = documentChecksumFor L (DocChecksum d),
          DocSources = foldDocumentSources kept, DocFormat = NormalizeDocumentFormat (DocFormat d)\<rparr>)"

definition Document_Normalized :: "library \<Rightarrow> document_assertions \<Rightarrow> document_assertions \<times> bool" where
  "Document_Normalized L d = (let normalized = normalized_document L d in (normalized, \<not> Document_IsEmpty normalized))"

definition Document_MarshalJSON :: "library \<Rightarrow> document_assertions \<Rightarrow> document_assertions" where
  "Document_MarshalJSON L d = fst (Document_Normalized L d)"

section \<open>Reading the sources as a stream\<close>

text \<open>One occurrence of the key: the size of its value in bytes and what the value is. An element that
  does not decode is \<open>None\<close>.\<close>

datatype sources_value = SourcesNull | SourcesOther | SourcesArray "document_source option list"

datatype document_error = SourcesRepeated | SourcesTooLarge nat | SourcesNotAnArray | SourceUndecodable nat

fun decode_elements :: "library \<Rightarrow> document_source list \<Rightarrow> document_source option list \<Rightarrow> document_error + document_source list" where
  "decode_elements L out [] = Inr out"
| "decode_elements L out (e # es) =
     (if length out \<ge> maxDocumentSources then Inr out
      else (case e of
              None \<Rightarrow> Inl (SourceUndecodable (length out))
            | Some wire \<Rightarrow> decode_elements L (out @ [Source_UnmarshalJSON L wire]) es))"

definition boundedDocumentSources_UnmarshalJSON ::
  "library \<Rightarrow> document_source list \<times> bool \<Rightarrow> nat \<times> sources_value \<Rightarrow> document_error + document_source list \<times> bool" where
  "boundedDocumentSources_UnmarshalJSON L s occurrence =
     (case (s, occurrence) of ((sources, decoded), (bytes, value)) \<Rightarrow>
        if decoded then Inl SourcesRepeated
        else if bytes > maxDocumentSourcesBytes then Inl (SourcesTooLarge bytes)
        else (case value of
                SourcesNull \<Rightarrow> Inr ([], True)
              | SourcesOther \<Rightarrow> Inl SourcesNotAnArray
              | SourcesArray es \<Rightarrow> map_sum id (\<lambda>out. (out, True)) (decode_elements L [] es)))"

definition Document_UnmarshalJSON ::
  "library \<Rightarrow> document_assertions \<Rightarrow> (nat \<times> sources_value) list \<Rightarrow> document_error + document_assertions" where
  "Document_UnmarshalJSON L wire occurrences =
     map_sum id (\<lambda>(sources, decoded). fst (Document_Normalized L (wire\<lparr>DocSources := sources\<rparr>)))
       (foldM (boundedDocumentSources_UnmarshalJSON L) ([], False) occurrences)"

section \<open>Merge\<close>

definition merged_link :: "document_assertions \<Rightarrow> document_assertions \<Rightarrow> string \<times> int \<times> digest option" where
  "merged_link left right =
     (if DocIdentity left = [] \<and> DocIdentity right \<noteq> [] then (DocIdentity right, DocVersion right, DocChecksum right)
      else if DocIdentity left = [] \<or> sameDocumentLink (DocIdentity left) (DocVersion left) (DocIdentity right) (DocVersion right)
      then (DocIdentity left, MergeFillGap 0 None (DocVersion left) (DocVersion right),
            MergeFillGap None None (DocChecksum left) (DocChecksum right))
      else (DocIdentity left, DocVersion left, DocChecksum left))"

definition MergeDocumentAssertions :: "library \<Rightarrow> document_assertions \<Rightarrow> document_assertions \<Rightarrow> document_assertions" where
  "MergeDocumentAssertions L dst src =
     (let left = fst (Document_Normalized L dst);
          right = fst (Document_Normalized L src);
          (identity, version, checksum) = merged_link left right;
          union = filter (\<lambda>s. \<not> isSelfSource L identity version s) (DocSources left @ DocSources right)
      in \<lparr>DocIdentity = identity, DocName = MergeFillGap [] None (DocName left) (DocName right),
          DataLicense = MergeFillGap [] None (DataLicense left) (DataLicense right),
          DocCreated = MergeFillGap [] None (DocCreated left) (DocCreated right),
          Creators = MergeUnion creatorKey None (Creators left) (Creators right),
          Tools = MergeUnion toolKey None (Tools left) (Tools right),
          DocComment = MergeFillGap [] None (DocComment left) (DocComment right),
          DocVersion = version, DocChecksum = checksum,
          DocSources = take maxDocumentSources (foldDocumentSources union),
          DocFormat = MergeFillGap [] None (DocFormat left) (DocFormat right)\<rparr>)"

definition containsCreator :: "contact list \<Rightarrow> contact \<Rightarrow> bool" where
  "containsCreator cs want = list_ex (\<lambda>c. creatorKey c = creatorKey want) cs"

definition containsTool :: "document_tool list \<Rightarrow> document_tool \<Rightarrow> bool" where
  "containsTool ts want = list_ex (\<lambda>t. toolKey t = toolKey want) ts"

section \<open>The nodes of a package\<close>

definition add_reference :: "(string, dependency_node list) gomap \<Rightarrow> dependency_node \<Rightarrow> (string, dependency_node list) gomap" where
  "add_reference index node =
     (if PackageRef node = [] then index
      else mput (PackageRef node) ((case mget index (PackageRef node) of None \<Rightarrow> [] | Some ns \<Rightarrow> ns) @ [node]) index)"

definition IndexNodesByPackage :: "graph option \<Rightarrow> (string, dependency_node list) gomap" where
  "IndexNodesByPackage graph =
     (case graph of
        None \<Rightarrow> []
      | Some g \<Rightarrow> map (\<lambda>(ref, ns). (ref, sort_key dependency_id ns)) (foldl add_reference [] (DependencyNodes g)))"

definition PackageNodeIndex_Nodes :: "(string, dependency_node list) gomap \<Rightarrow> string \<Rightarrow> dependency_node list" where
  "PackageNodeIndex_Nodes index packageRef = (case mget index packageRef of None \<Rightarrow> [] | Some ns \<Rightarrow> ns)"

definition PackageNodeIndex_Usages ::
  "(string, dependency_node list) gomap \<Rightarrow> string \<Rightarrow> reachability_evidence list \<Rightarrow> usage_filter \<Rightarrow> usage list" where
  "PackageNodeIndex_Usages index packageRef evidence filt =
     concat (map (\<lambda>n. SelectUsages (Some n) evidence filt) (PackageNodeIndex_Nodes index packageRef))"

section \<open>The fold of sources\<close>

definition first_checksum :: "string \<times> int \<Rightarrow> document_source list \<Rightarrow> digest option" where
  "first_checksum k xs =
     (case List.map_filter (\<lambda>s. if source_key s = k then SourceChecksum s else None) xs of [] \<Rightarrow> None | c # _ \<Rightarrow> Some c)"

definition source_of :: "document_source list \<Rightarrow> string \<times> int \<Rightarrow> document_source" where
  "source_of xs k = \<lparr>SourceIdentity = fst k, SourceVersion = snd k, SourceChecksum = first_checksum k xs\<rparr>"

lemma source_key_of [simp]: "source_key (source_of xs k) = k"
  by (simp add: source_key_def source_of_def)

lemma source_eqI: "source_key s = k \<Longrightarrow> SourceChecksum s = first_checksum k xs \<Longrightarrow> s = source_of xs k"
  by (cases s) (auto simp: source_key_def source_of_def)

lemma map_filter_append: "List.map_filter f (xs @ ys) = List.map_filter f xs @ List.map_filter f ys"
  by (simp add: List.map_filter_def)

lemma first_checksum_snoc:
  "first_checksum k (xs @ [s]) =
     (if first_checksum k xs = None \<and> source_key s = k then SourceChecksum s else first_checksum k xs)"
  by (auto simp: first_checksum_def map_filter_append List.map_filter_def split: list.splits option.splits)

lemma first_checksum_Nil [simp]: "first_checksum k [] = None"
  by (simp add: first_checksum_def List.map_filter_def)

lemma first_checksum_absent: "k \<notin> source_key ` set xs \<Longrightarrow> first_checksum k xs = None"
  by (induction xs rule: rev_induct) (auto simp: first_checksum_snoc)

lemma fold_source_invariant:
  "distinct (map source_key (foldl fold_source [] xs))
   \<and> source_key ` set (foldl fold_source [] xs) = source_key ` set xs
   \<and> (\<forall>s \<in> set (foldl fold_source [] xs). SourceChecksum s = first_checksum (source_key s) xs)"
proof (induction xs rule: rev_induct)
  case (snoc x xs)
  let ?acc = "foldl fold_source [] xs"
  let ?g = "\<lambda>f. if source_key f = source_key x then f\<lparr>SourceChecksum := MergeFillGap None None (SourceChecksum f) (SourceChecksum x)\<rparr> else f"
  have key: "source_key (?g f) = source_key f" for f by (simp add: source_key_def)
  show ?case
  proof (cases "source_key x \<in> set (map source_key ?acc)")
    case True
    then have r: "foldl fold_source [] (xs @ [x]) = map ?g ?acc" by (simp add: fold_source_def)
    have keys: "map source_key (map ?g ?acc) = map source_key ?acc" by (simp add: key)
    have "SourceChecksum (?g f) = first_checksum (source_key (?g f)) (xs @ [x])" if "f \<in> set ?acc" for f
      unfolding key using snoc that by (auto simp: first_checksum_snoc MergeFillGap_def)
    moreover have "source_key ` set (map ?g ?acc) = source_key ` set (xs @ [x])"
      using snoc True by (metis (no_types, lifting) insert_absorb keys list.set_map set_append Un_insert_right image_insert list.simps(15) empty_set sup_bot.right_neutral)
    ultimately show ?thesis unfolding r keys using snoc by (intro conjI ballI) (auto simp only: set_map)
  next
    case False
    then have new: "source_key x \<notin> source_key ` set xs" using snoc by simp
    have r: "foldl fold_source [] (xs @ [x]) = ?acc @ [x]" using False by (simp add: fold_source_def)
    show ?thesis unfolding r using snoc False new first_checksum_absent [OF new]
      by (auto simp: first_checksum_snoc)
  qed
qed simp

lemma foldDocumentSources_eq: "foldDocumentSources xs = map (source_of xs) (sorted_list_of_set (source_key ` set xs))"
proof -
  let ?out = "foldDocumentSources xs"
  have inv: "distinct (map source_key ?out)" "source_key ` set ?out = source_key ` set xs"
    "\<forall>s \<in> set ?out. SourceChecksum s = first_checksum (source_key s) xs"
    using fold_source_invariant [of xs] by (simp_all add: foldDocumentSources_def distinct_map_sort_key)
  have "sorted (map source_key ?out)" by (simp add: foldDocumentSources_def)
  then have keys: "map source_key ?out = sorted_list_of_set (source_key ` set xs)"
    using inv(1,2) by (metis list.set_map sorted_list_of_set.idem_if_sorted_distinct)
  have "?out = map (source_of xs \<circ> source_key) ?out"
    by (rule map_idI [symmetric]) (use inv(3) source_eqI in fastforce)
  also have "\<dots> = map (source_of xs) (map source_key ?out)" by simp
  finally show ?thesis unfolding keys .
qed

lemma first_checksum_Some: "first_checksum k xs = Some c \<Longrightarrow> \<exists>s \<in> set xs. source_key s = k \<and> SourceChecksum s = Some c"
  by (induction xs rule: rev_induct) (auto simp: first_checksum_snoc split: if_splits)

lemma first_checksum_None: "first_checksum k xs = None \<Longrightarrow> s \<in> set xs \<Longrightarrow> source_key s = k \<Longrightarrow> SourceChecksum s = None"
  by (induction xs rule: rev_induct) (auto simp: first_checksum_snoc split: if_splits)

lemma first_checksum_distinct: "distinct (map source_key xs) \<Longrightarrow> s \<in> set xs \<Longrightarrow> first_checksum (source_key s) xs = SourceChecksum s"
proof (induction xs rule: rev_induct)
  case (snoc x xs)
  show ?case
  proof (cases "s = x")
    case True
    then show ?thesis using snoc(2) first_checksum_absent [of "source_key x" xs] by (simp add: first_checksum_snoc)
  next
    case False
    then have "s \<in> set xs" using snoc(3) by simp
    moreover from this have "source_key x \<noteq> source_key s" using snoc(2) by (simp, metis imageI)
    ultimately show ?thesis using snoc by (simp add: first_checksum_snoc)
  qed
qed simp

text \<open>Folding a document's sources is a set keyed by identity and version: however often the references
  repeat, the result lists each key once, in order, with the first checksum stated for it; folding
  the result again changes nothing; and two lists with the same members, in whatever order, fold
  alike when no two of their entries state different checksums for one key.\<close>

lemma foldDocumentSources_spec:
  "foldDocumentSources xs = map (source_of xs) (sorted_list_of_set (source_key ` set xs))
   \<and> foldDocumentSources (foldDocumentSources xs) = foldDocumentSources xs
   \<and> (set xs = set ys \<and> (\<forall>x \<in> set xs. \<forall>y \<in> set xs. source_key x = source_key y
         \<and> SourceChecksum x \<noteq> None \<and> SourceChecksum y \<noteq> None \<longrightarrow> SourceChecksum x = SourceChecksum y)
      \<longrightarrow> foldDocumentSources xs = foldDocumentSources ys)"
proof (intro conjI impI)
  show eq: "foldDocumentSources xs = map (source_of xs) (sorted_list_of_set (source_key ` set xs))" by (rule foldDocumentSources_eq)
  let ?out = "foldDocumentSources xs"
  have keys: "map source_key ?out = sorted_list_of_set (source_key ` set xs)" unfolding eq by (simp add: comp_def)
  have set_keys: "source_key ` set ?out = source_key ` set xs" using keys by (metis List.finite_set finite_imageI list.set_map set_sorted_list_of_set)
  have dist: "distinct (map source_key ?out)" unfolding keys by simp
  have "source_of ?out k = source_of xs k" if "k \<in> source_key ` set xs" for k
  proof -
    have "source_of xs k \<in> set ?out" unfolding eq using that by simp
    then have "first_checksum (source_key (source_of xs k)) ?out = SourceChecksum (source_of xs k)" by (rule first_checksum_distinct [OF dist])
    then show ?thesis unfolding source_key_of by (simp add: source_of_def)
  qed
  then show "foldDocumentSources ?out = ?out"
    unfolding foldDocumentSources_eq [of ?out] set_keys using eq by simp
next
  assume a: "set xs = set ys \<and> (\<forall>x \<in> set xs. \<forall>y \<in> set xs. source_key x = source_key y
         \<and> SourceChecksum x \<noteq> None \<and> SourceChecksum y \<noteq> None \<longrightarrow> SourceChecksum x = SourceChecksum y)"
  have "first_checksum k xs = first_checksum k ys" for k
  proof (cases "first_checksum k xs")
    case None
    then have "\<forall>s \<in> set ys. source_key s = k \<longrightarrow> SourceChecksum s = None" using a first_checksum_None by blast
    then have "first_checksum k ys = None" using first_checksum_Some [of k ys] by (cases "first_checksum k ys") auto
    then show ?thesis using None by simp
  next
    case (Some c)
    then obtain s where s: "s \<in> set ys" "source_key s = k" "SourceChecksum s = Some c" using first_checksum_Some [of k xs] a by blast
    then obtain d where d: "first_checksum k ys = Some d" using first_checksum_None [of k ys s] by (cases "first_checksum k ys") auto
    then obtain t where "t \<in> set ys" "source_key t = k" "SourceChecksum t = Some d" using first_checksum_Some by blast
    then have "c = d" using a s by fastforce
    then show ?thesis using Some d by simp
  qed
  then have "source_of xs = source_of ys" by (simp add: source_of_def fun_eq_iff)
  then show "foldDocumentSources xs = foldDocumentSources ys" using a by (simp add: foldDocumentSources_eq)
qed

definition sample_source :: "string \<Rightarrow> int \<Rightarrow> document_source" where
  "sample_source i v = \<lparr>SourceIdentity = i, SourceVersion = v, SourceChecksum = None\<rparr>"

section \<open>The merge\<close>

lemma isSelfSource_identity: "isSelfSource L i v s \<Longrightarrow> i \<noteq> [] \<and> SourceIdentity s = i"
  by (auto simp: isSelfSource_def split: if_splits)

lemma foldDocumentSources_keys: "source_key ` set (foldDocumentSources xs) = source_key ` set xs"
  "sorted_wrt (<) (map source_key (foldDocumentSources xs))"
  by (simp_all add: foldDocumentSources_eq image_image strict_sorted_iff comp_def)

lemma isSelfSource_key: "source_key s = source_key t \<Longrightarrow> isSelfSource L i v s = isSelfSource L i v t"
  by (simp add: source_key_def isSelfSource_def)

text \<open>C25. Merging two documents' claims keeps the link tuple honest: the first document's identity stands, a
  document without one takes the other's whole tuple, and when both name documents that differ - by
  identity or by two stated versions - neither the version nor the checksum of the second is
  attached to the first. The sources are a set again: keys in order, at most the bound, none of them
  the merged document itself, and within the bound exactly the keys of both sides less the merged
  document's own.\<close>

theorem MergeDocumentAssertions_spec:
  assumes "l = normalized_document L dst" "r = normalized_document L src" "m = MergeDocumentAssertions L dst src"
  shows "DocIdentity m = (if DocIdentity l \<noteq> [] then DocIdentity l else DocIdentity r)
    \<and> (DocIdentity l = [] \<and> DocIdentity r \<noteq> [] \<longrightarrow> DocVersion m = DocVersion r \<and> DocChecksum m = DocChecksum r)
    \<and> (DocIdentity l \<noteq> [] \<and> (DocIdentity r \<noteq> DocIdentity l \<or> DocVersion l \<noteq> 0 \<and> DocVersion r \<noteq> 0 \<and> DocVersion l \<noteq> DocVersion r)
         \<longrightarrow> DocVersion m = DocVersion l \<and> DocChecksum m = DocChecksum l)
    \<and> (DocIdentity l = DocIdentity r \<and> (DocVersion l = 0 \<or> DocVersion r = 0 \<or> DocVersion l = DocVersion r)
         \<longrightarrow> DocVersion m = (if DocVersion l \<noteq> 0 then DocVersion l else DocVersion r)
           \<and> DocChecksum m = (if DocChecksum l \<noteq> None then DocChecksum l else DocChecksum r))
    \<and> sorted_wrt (<) (map source_key (DocSources m)) \<and> length (DocSources m) \<le> maxDocumentSources
    \<and> (\<forall>s \<in> set (DocSources m). \<not> isSelfSource L (DocIdentity m) (DocVersion m) s)
    \<and> (let keys = source_key ` {s \<in> set (DocSources l) \<union> set (DocSources r). \<not> isSelfSource L (DocIdentity m) (DocVersion m) s}
       in source_key ` set (DocSources m) \<subseteq> keys \<and> (card keys \<le> maxDocumentSources \<longrightarrow> source_key ` set (DocSources m) = keys))"
proof -
  obtain i v c where link: "merged_link l r = (i, v, c)" by (cases "merged_link l r")
  let ?u = "filter (\<lambda>s. \<not> isSelfSource L i v s) (DocSources l @ DocSources r)"
  let ?f = "foldDocumentSources ?u"
  have m: "DocIdentity m = i" "DocVersion m = v" "DocChecksum m = c" "DocSources m = take maxDocumentSources ?f"
    by (simp_all add: assms(3) MergeDocumentAssertions_def Document_Normalized_def Let_def link flip: assms(1,2))
  have u: "set ?u = {s \<in> set (DocSources l) \<union> set (DocSources r). \<not> isSelfSource L i v s}" by auto
  have keys: "source_key ` set ?f = source_key ` set ?u" "sorted_wrt (<) (map source_key ?f)" by (rule foldDocumentSources_keys)+
  have sub: "set (DocSources m) \<subseteq> set ?f" unfolding m by (rule set_take_subset)
  have self: "\<not> isSelfSource L i v s" if "s \<in> set (DocSources m)" for s
  proof -
    have "source_key s \<in> source_key ` set ?u" using that sub keys(1) by blast
    then obtain t where "t \<in> set ?u" "source_key s = source_key t" by blast
    then show ?thesis using isSelfSource_key [of s t L i v] by auto
  qed
  have len: "length ?f = card (source_key ` set ?u)"
    using keys by (metis distinct_card length_map list.set_map strict_sorted_iff)
  have all: "source_key ` set (DocSources m) = source_key ` set ?u" if "card (source_key ` set ?u) \<le> maxDocumentSources"
  proof -
    have "DocSources m = ?f" using that unfolding m(4) len [symmetric] by (rule take_all)
    then show ?thesis using keys(1) by simp
  qed
  have subk: "source_key ` set (DocSources m) \<subseteq> source_key ` set ?u" using sub keys(1) by blast
  have bound: "length (DocSources m) \<le> maxDocumentSources" unfolding m by simp
  have sorted: "sorted_wrt (<) (map source_key (DocSources m))"
    using keys(2) unfolding m by (simp add: take_map [symmetric] sorted_wrt_take)
  have tuple: "(i, v, c) = merged_link l r" by (simp add: link)
  have 1: "i = (if DocIdentity l \<noteq> [] then DocIdentity l else DocIdentity r)"
    using tuple by (auto simp: merged_link_def split: if_splits)
  have 2: "DocIdentity l = [] \<and> DocIdentity r \<noteq> [] \<longrightarrow> v = DocVersion r \<and> c = DocChecksum r"
    using tuple by (auto simp: merged_link_def)
  have 3: "DocIdentity l \<noteq> [] \<and> (DocIdentity r \<noteq> DocIdentity l \<or> DocVersion l \<noteq> 0 \<and> DocVersion r \<noteq> 0 \<and> DocVersion l \<noteq> DocVersion r)
         \<longrightarrow> v = DocVersion l \<and> c = DocChecksum l"
    using tuple by (auto simp: merged_link_def sameDocumentLink_def)
  have 4: "DocIdentity l = DocIdentity r \<and> (DocVersion l = 0 \<or> DocVersion r = 0 \<or> DocVersion l = DocVersion r)
         \<longrightarrow> v = (if DocVersion l \<noteq> 0 then DocVersion l else DocVersion r) \<and> c = (if DocChecksum l \<noteq> None then DocChecksum l else DocChecksum r)"
    using tuple by (auto simp: merged_link_def sameDocumentLink_def MergeFillGap_def split: if_splits)
  show ?thesis
    unfolding Let_def m(1-3) u [symmetric]
    by (intro conjI 1 2 3 4 sorted bound subk ballI self impI all)
qed

lemma empty_expression: "normalizedSPDXExpression L [] [] = []"
proof -
  have t: "TrimSpace [] = []" by code_simp
  then have "\<not> spdx_Valid L []" by (simp add: spdx_Valid_def)
  moreover have "\<not> Contains [] LicenseRefPrefix" by code_simp
  ultimately show ?thesis by (simp add: normalizedSPDXExpression_def publish_expression_def CanonicalExpression_def)
qed

definition sample_document :: "int \<Rightarrow> document_source list \<Rightarrow> document_assertions" where
  "sample_document v ss = Document_zero\<lparr>DocIdentity := ''https://h/p'', DocVersion := v, DocSources := ss\<rparr>"

lemma document_sample_identity: "normalizeLocator one_library ''https://h/p'' LocatorKindIRI = Some ''https://h/p''"
proof -
  have "NormalizeURL one_library ''https://h/p'' URLFormReference = Some ''https://h/p''" by code_simp
  then show ?thesis by (simp add: normalizeLocator_def normalizeLocatorByKind_def)
qed

lemma sample_normalized:
  "0 \<le> v \<Longrightarrow> normalized_document one_library (sample_document v []) = sample_document v []"
    "normalized_document one_library (sample_document 0 [sample_source ''https://h/p'' 1]) = sample_document 0 [sample_source ''https://h/p'' 1]"
proof -
  have t: "TrimSpace ''https://h/p'' = ''https://h/p''" by code_simp
  have e: "publishable_field [] = []" "normalizedSPDXExpression one_library [] [] = []" "NormalizeDescription [] = []" "NormalizeDocumentFormat [] = []"
    by (code_simp, rule empty_expression, code_simp+)
  have l: "cdx_IsBOMLink one_library = (\<lambda>_. False)" by (simp add: one_library_def plain_library_def)
  note d = normalized_document_def sample_document_def sample_source_def Document_zero_def t document_sample_identity e l documentVersionFor_def
    documentEffectiveVersion_def documentChecksumFor_def Source_Normalized_def isSelfSource_def foldDocumentSources_def fold_source_def map_filter_simps Let_def
  show "0 \<le> v \<Longrightarrow> normalized_document one_library (sample_document v []) = sample_document v []" by (simp add: d)
  show "normalized_document one_library (sample_document 0 [sample_source ''https://h/p'' 1]) = sample_document 0 [sample_source ''https://h/p'' 1]"
    by (simp add: d)
qed

theorem MergeDocumentAssertions_spec_witness:
  "DocIdentity (MergeDocumentAssertions one_library (sample_document 2 []) (sample_document 1 [])) = ''https://h/p''
   \<and> DocVersion (MergeDocumentAssertions one_library (sample_document 2 []) (sample_document 1 [])) = 2"
  using MergeDocumentAssertions_spec [OF sample_normalized(1) [of 2, simplified, symmetric] sample_normalized(1) [of 1, simplified, symmetric] refl]
  by (simp add: sample_document_def Document_zero_def)

lemma merge_samples:
  assumes "normalized_document one_library (sample_document v ss) = sample_document v ss"
    "normalized_document one_library (sample_document w ts) = sample_document w ts"
  shows "MergeDocumentAssertions one_library (sample_document v ss) (sample_document w ts) =
    (let x = (if v \<noteq> 0 then v else w)
     in sample_document x (take maxDocumentSources (foldDocumentSources (filter (\<lambda>s. \<not> isSelfSource one_library ''https://h/p'' x s) (ss @ ts)))))"
proof -
  let ?l = "sample_document v ss" and ?r = "sample_document w ts" and ?x = "if v \<noteq> 0 then v else w"
  have f: "DocIdentity (sample_document v ss) = ''https://h/p''" "DocVersion (sample_document v ss) = v" "DocChecksum (sample_document v ss) = None"
    "DocSources (sample_document v ss) = ss" "DocName (sample_document v ss) = []" "DataLicense (sample_document v ss) = []"
    "DocCreated (sample_document v ss) = []" "Creators (sample_document v ss) = []" "Tools (sample_document v ss) = []"
    "DocComment (sample_document v ss) = []" "DocFormat (sample_document v ss) = []" for v ss
    by (simp_all add: sample_document_def Document_zero_def)
  have "merged_link ?l ?r = (''https://h/p'', ?x, None)"
    by (simp add: merged_link_def f sameDocumentLink_def MergeFillGap_def)
  moreover have "sample_document x us = \<lparr>DocIdentity = ''https://h/p'', DocName = [], DataLicense = [], DocCreated = [], Creators = [],
      Tools = [], DocComment = [], DocVersion = x, DocChecksum = None, DocSources = us, DocFormat = []\<rparr>" for x us
    by (simp add: sample_document_def Document_zero_def)
  ultimately show ?thesis
    unfolding MergeDocumentAssertions_def Document_Normalized_def assms Let_def fst_conv f
    by (simp add: MergeFillGap_def MergeUnion_def)
qed

text \<open>The merge is not associative, although the comment on the self-reference test says the exact key keeps
  it so: a source that names a version of the document's own namespace is kept or lost depending on
  whether the document's version was filled before or after, here with three documents of one SPDX
  namespace that state the versions 2, none and 1.\<close>

lemma MergeDocumentAssertions_not_associative:
  "let M = MergeDocumentAssertions one_library; a = sample_document 2 [];
       b = sample_document 0 [sample_source ''https://h/p'' 1]; c = sample_document 1 []
   in DocSources (M (M a b) c) = [sample_source ''https://h/p'' 1] \<and> DocSources (M a (M b c)) = []"
proof -
  let ?s = "sample_source ''https://h/p'' 1"
  have l: "cdx_IsBOMLink one_library = (\<lambda>_. False)" by (simp add: one_library_def plain_library_def)
  have self: "isSelfSource one_library ''https://h/p'' x ?s \<longleftrightarrow> x = 1" for x
    by (auto simp: isSelfSource_def documentEffectiveVersion_def l sample_source_def)
  have one: "foldDocumentSources [?s] = [?s]" "foldDocumentSources [] = []" by (simp_all add: foldDocumentSources_def fold_source_def)
  have t: "TrimSpace ''https://h/p'' = ''https://h/p''" by code_simp
  have e: "publishable_field [] = []" "NormalizeDescription [] = []" "NormalizeDocumentFormat [] = []" by code_simp+
  have n: "normalized_document one_library (sample_document v []) = sample_document v []" if "v \<ge> 0" for v using sample_normalized(1) [OF that] .
  have n2: "normalized_document one_library (sample_document 2 [?s]) = sample_document 2 [?s]"
    by (simp add: normalized_document_def sample_document_def Document_zero_def t document_sample_identity e empty_expression l Let_def
        documentVersionFor_def documentChecksumFor_def Source_Normalized_def documentEffectiveVersion_def isSelfSource_def
        sample_source_def foldDocumentSources_def fold_source_def map_filter_simps)
  have m: "MergeDocumentAssertions one_library (sample_document 2 []) (sample_document 0 [?s]) = sample_document 2 [?s]"
    "MergeDocumentAssertions one_library (sample_document 2 [?s]) (sample_document 1 []) = sample_document 2 [?s]"
    "MergeDocumentAssertions one_library (sample_document 0 [?s]) (sample_document 1 []) = sample_document 1 []"
    "MergeDocumentAssertions one_library (sample_document 2 []) (sample_document 1 []) = sample_document 2 []"
    using merge_samples [OF n [of 2] sample_normalized(2)] merge_samples [OF n2 n [of 1]]
      merge_samples [OF sample_normalized(2) n [of 1]] merge_samples [OF n [of 2] n [of 1]]
    by (simp_all add: Let_def self one)
  show ?thesis unfolding Let_def m by (simp add: sample_document_def)
qed

end
