(* ===== verification/Registry.thy ===== *)
theory Registry
  imports Advisories Compare
begin

text \<open>
  The package records of the matching stage and the registry that holds them:
  \<^verbatim>\<open>model/package.go\<close>, \<^verbatim>\<open>model/attestation.go\<close>, \<^verbatim>\<open>model/scorecard.go\<close> and
  \<^verbatim>\<open>model/registry.go\<close>. The registry writes the record it is handed (the ID, the gates), so the
  operations that take one return it beside the registry. What a caller does later through the
  pointer to a stored record is its own step and not modelled. A time is the instant it names.
\<close>

section \<open>Attestations\<close>

record package_attestation =
  PredicateType :: string
  AttSource :: string
  AttURL :: string
  AttDigest :: "digest option"
  Issuer :: string
  Verified :: bool

definition attestation_key :: "package_attestation \<Rightarrow> string \<times> string \<times> string \<times> string \<times> string \<times> string" where
  "attestation_key a =
     (let d = (case AttDigest a of None \<Rightarrow> ([], [], []) | Some d \<Rightarrow> (Algorithm d, Value d, Subject d))
      in (AttSource a, PredicateType a, AttURL a, d))"

definition claimsNothing :: "package_attestation \<Rightarrow> bool" where
  "claimsNothing a \<longleftrightarrow> Issuer a = [] \<and> \<not> Verified a"

definition describesSame :: "package_attestation \<Rightarrow> package_attestation \<Rightarrow> bool" where
  "describesSame a other =
     (if attestation_key a \<noteq> attestation_key other then False
      else if Issuer a = Issuer other then True
      else if claimsNothing a \<or> claimsNothing other then True
      else False)"

definition absorb :: "package_attestation \<Rightarrow> package_attestation \<Rightarrow> package_attestation" where
  "absorb a other =
     (if claimsNothing a then other
      else if claimsNothing other then a
      else if Verified other then a\<lparr>Verified := True\<rparr>
      else a)"

fun merge_attestation :: "package_attestation list \<Rightarrow> package_attestation \<Rightarrow> package_attestation list" where
  "merge_attestation [] candidate = [candidate]"
| "merge_attestation (a # as) candidate =
     (if describesSame a candidate then absorb a candidate # as else a # merge_attestation as candidate)"

definition mergeAttestations :: "package_attestation list \<Rightarrow> package_attestation list \<Rightarrow> package_attestation list" where
  "mergeAttestations existing additions = foldl merge_attestation existing additions"

section \<open>Records\<close>

type_synonym time = int

record scorecard_check =
  CheckName :: string
  CheckScore :: int
  CheckReason :: string
  Documentation :: string

record package_scorecard =
  ScSource :: string
  ScRepository :: string
  CommitSHA :: string
  ScorecardVersion :: string
  RunDate :: time
  AggregateScore :: float64
  Checks :: "scorecard_check list"

record package_eol =
  EOLSource :: string
  Cycle :: string
  EOL :: bool
  EOLDate :: string
  LatestVersion :: string
  ReleaseDate :: string
  Supported :: bool

record remediation_suggestion =
  AffectedDependencyRefs :: "string list"
  SuggestedActionDependencyRef :: string
  SuggestionManifestPath :: string
  Action :: string
  OverrideAdvice :: string

record package_remediation =
  RemediationStatus :: string
  RecommendedVersion :: string
  Suggestions :: "remediation_suggestion list"

record package =
  PkgCoords :: coordinates
  PkgClaims :: assertions
  PkgID :: string
  PkgResolvedURL :: string
  DetectedOrigins :: "dependency_origin list"
  Vulnerabilities :: "vulnerability list"
  Attestations :: "package_attestation list"
  Scorecard :: "package_scorecard option"
  PkgEOL :: "package_eol option"
  Remediation :: "package_remediation option"
  PkgMatched :: bool
  PkgMetadata :: metadata

definition Package_zero :: package where
  "Package_zero = \<lparr>PkgCoords = Coordinates_zero, PkgClaims = Assertions_zero, PkgID = [], PkgResolvedURL = [],
     DetectedOrigins = [], Vulnerabilities = [], Attestations = [], Scorecard = None, PkgEOL = None,
     Remediation = None, PkgMatched = False, PkgMetadata = []\<rparr>"

definition Package_QualifiedName :: "package option \<Rightarrow> string" where
  "Package_QualifiedName p = (case p of None \<Rightarrow> [] | Some p \<Rightarrow> QualifiedName (PkgCoords p))"

definition Package_DisplayName :: "package option \<Rightarrow> string" where
  "Package_DisplayName p =
     (case p of
        None \<Rightarrow> []
      | Some p \<Rightarrow> if DisplayName (PkgCoords p) \<noteq> [] then DisplayName (PkgCoords p) else PURL (PkgCoords p))"

definition IdentityKey :: "package option \<Rightarrow> string" where
  "IdentityKey p =
     (case p of
        None \<Rightarrow> []
      | Some p \<Rightarrow>
          (let c = PkgCoords p in
           Ecosystem c @ [CHR 0x00] @ PackageManager_Name (PackageManager c) @ [CHR 0x00] @ PkgType c @ [CHR 0x00] @ Org c @ [CHR 0x00] @ Name c))"

definition license_label :: "package_license \<Rightarrow> string option" where
  "license_label l =
     (if SPDXExpression l \<noteq> [] then Some (SPDXExpression l) else if LicValue l \<noteq> [] then Some (LicValue l) else None)"

definition LicenseValues :: "package option \<Rightarrow> string list" where
  "LicenseValues p = (case p of None \<Rightarrow> [] | Some p \<Rightarrow> sort (List.map_filter license_label (Licenses (PkgClaims p))))"

section \<open>The gate and the merge\<close>

definition vulnerabilityIdentityKey :: "vulnerability \<Rightarrow> string" where
  "vulnerabilityIdentityKey v = VulnSource v @ [CHR 0x00] @ VulnID v"

definition enrich_vulnerability :: "library \<Rightarrow> vulnerability \<Rightarrow> vulnerability \<Rightarrow> vulnerability" where
  "enrich_vulnerability L dst v =
     (let dst = (if Reachability dst = None \<and> Reachability v \<noteq> None then dst\<lparr>Reachability := Reachability v\<rparr> else dst);
          dst = (if AffectedSymbols dst = [] \<and> AffectedSymbols v \<noteq> [] then dst\<lparr>AffectedSymbols := AffectedSymbols v\<rparr> else dst);
          dst = (if Analysis v \<noteq> None then dst\<lparr>Analysis := MergeVulnerabilityAnalysis L (Analysis dst) (Analysis v)\<rparr> else dst);
          recommendation = NormalizeDescription (Recommendation dst)
      in dst\<lparr>Recommendation := if recommendation = [] then NormalizeDescription (Recommendation v) else recommendation\<rparr>)"

definition index_vulnerabilities :: "vulnerability list \<Rightarrow> (string, nat) gomap" where
  "index_vulnerabilities vs =
     foldl (\<lambda>idx i. mput (vulnerabilityIdentityKey (vs ! i)) i idx) [] [0..<length vs]"

definition merge_vulnerability ::
  "library \<Rightarrow> vulnerability list \<times> (string, nat) gomap \<Rightarrow> vulnerability \<Rightarrow> vulnerability list \<times> (string, nat) gomap" where
  "merge_vulnerability L s v =
     (case s of (vs, idx) \<Rightarrow>
        (case mget idx (vulnerabilityIdentityKey v) of
           Some i \<Rightarrow> (vs[i := enrich_vulnerability L (vs ! i) v], idx)
         | None \<Rightarrow> (vs @ [Vulnerability_Normalized L v], mput (vulnerabilityIdentityKey v) (length vs) idx)))"

definition mergeVulnerabilities :: "library \<Rightarrow> vulnerability list \<Rightarrow> vulnerability list \<Rightarrow> vulnerability list" where
  "mergeVulnerabilities L vs additions =
     (if additions = [] then vs
      else fst (foldl (merge_vulnerability L) (vs, index_vulnerabilities vs) additions))"

definition NormalizeAssertions :: "library \<Rightarrow> package \<Rightarrow> package" where
  "NormalizeAssertions L p =
     (let p = p\<lparr>PkgClaims := Assertions_Normalized L (PkgClaims p), DetectedOrigins := MergeOrigins L [] (DetectedOrigins p)\<rparr>
      in if Vulnerabilities p = [] then p
         else p\<lparr>Vulnerabilities := sort_key vulnerabilityIdentityKey
                  (map (Vulnerability_Normalized L) (mergeVulnerabilities L [] (Vulnerabilities p)))\<rparr>)"

definition Package_UnmarshalJSON :: "library \<Rightarrow> package \<Rightarrow> package" where
  "Package_UnmarshalJSON L wire = NormalizeAssertions L wire"

definition Package_MarshalJSON :: "library \<Rightarrow> package \<Rightarrow> package" where
  "Package_MarshalJSON L p = NormalizeAssertions L p"

definition fill_coordinates :: "coordinates \<Rightarrow> coordinates \<Rightarrow> coordinates" where
  "fill_coordinates c src =
     c\<lparr>Ecosystem := if Ecosystem c = [] then Ecosystem src else Ecosystem c,
       Name := if Name c = [] then Name src else Name c,
       Version := if Version c = [] then Version src else Version c,
       Org := if Org c = [] then Org src else Org c,
       PkgType := if PkgType c = [] then PkgType src else PkgType c,
       PackageManager := if PackageManager c = [] then PackageManager src else PackageManager c,
       Language := if Language c = [] then Language src else Language c\<rparr>"

definition Package_MergeFrom :: "library \<Rightarrow> package \<Rightarrow> package option \<Rightarrow> package" where
  "Package_MergeFrom L p src =
     (case src of
        None \<Rightarrow> p
      | Some src \<Rightarrow>
          p\<lparr>PkgID := if PkgID p = [] then PkgID src else PkgID p,
            DetectedOrigins := MergeOrigins L (DetectedOrigins p) (DetectedOrigins src),
            PkgCoords := fill_coordinates (PkgCoords p) (PkgCoords src),
            PkgResolvedURL := if PkgResolvedURL p = [] then PkgResolvedURL src else PkgResolvedURL p,
            PkgClaims := Assertions_MergeFrom L (PkgClaims p) (PkgClaims src),
            Attestations := mergeAttestations (Attestations p) (Attestations src),
            Scorecard := if Scorecard p = None then Scorecard src else Scorecard p,
            PkgEOL := if PkgEOL p = None then PkgEOL src else PkgEOL p,
            PkgMatched := if PkgMatched src then True else PkgMatched p,
            Vulnerabilities := mergeVulnerabilities L (Vulnerabilities p) (Vulnerabilities src),
            PkgMetadata := mergeMetadata (PkgMetadata p) (PkgMetadata src)\<rparr>)"

section \<open>Seeding from a node\<close>

definition seededAssertions :: "library \<Rightarrow> dependency_node \<Rightarrow> assertions" where
  "seededAssertions L dep = Assertions_Normalized L ((Claims dep)\<lparr>Licenses := DetectionLicenses L dep\<rparr>)"

definition PackageFromDependencyNode :: "library \<Rightarrow> dependency_node option \<Rightarrow> package option" where
  "PackageFromDependencyNode L dep =
     (case dep of
        None \<Rightarrow> None
      | Some d \<Rightarrow>
          Some (Package_zero
            \<lparr>PkgCoords := \<lparr>PURL = dependency_id d, Ecosystem = Ecosystem (Coords d), PackageManager = PackageManager (Coords d),
                            PkgType = PkgType (Coords d), Org = Org (Coords d), Name = Name (Coords d),
                            Version = Version (Coords d), Language = Language (Coords d)\<rparr>,
              PkgID := dependency_id d, PkgResolvedURL := ResolvedURL d, PkgClaims := seededAssertions L d,
              DetectedOrigins := MergeOrigins L [] (Origins d)\<rparr>))"

section \<open>The registry\<close>

record package_registry =
  byPURL :: "(string, package) gomap"
  reg_order :: "string list"

definition NewPackageRegistry :: package_registry where
  "NewPackageRegistry = \<lparr>byPURL = [], reg_order = []\<rparr>"

definition Registry_Add :: "library \<Rightarrow> package_registry \<Rightarrow> package option \<Rightarrow> package_registry \<times> package option \<times> package option" where
  "Registry_Add L r pkg =
     (case pkg of
        None \<Rightarrow> (r, None, None)
      | Some p \<Rightarrow>
          if PURL (PkgCoords p) = [] then (r, Some p, None)
          else (let p = (if PkgID p = [] then p\<lparr>PkgID := PURL (PkgCoords p)\<rparr> else p);
                    p = NormalizeAssertions L p;
                    purl = PURL (PkgCoords p)
                in case mget (byPURL r) purl of
                     Some existing \<Rightarrow>
                       (let merged = Package_MergeFrom L existing (Some p)
                        in (r\<lparr>byPURL := mput purl merged (byPURL r)\<rparr>, Some p, Some merged))
                   | None \<Rightarrow> (r\<lparr>byPURL := mput purl p (byPURL r), reg_order := reg_order r @ [purl]\<rparr>, Some p, Some p)))"

definition add_package :: "library \<Rightarrow> package_registry \<Rightarrow> package option \<Rightarrow> package_registry" where
  "add_package L r pkg = fst (Registry_Add L r pkg)"

definition AddEntryPackages :: "library \<Rightarrow> package_registry \<Rightarrow> (package option, 'd) graph_entry list \<Rightarrow> package_registry" where
  "AddEntryPackages L r entries =
     foldl (\<lambda>r entry. foldl (\<lambda>r pkg.
        (case pkg of None \<Rightarrow> r | Some p \<Rightarrow> if PURL (PkgCoords p) = [] then r else add_package L r pkg)) r (EntryPackages entry)) r entries"

definition ApplyPackageUpdates :: "library \<Rightarrow> package_registry option \<Rightarrow> package option list \<Rightarrow> package_registry option" where
  "ApplyPackageUpdates L registry updates =
     (case registry of
        None \<Rightarrow> if updates = [] then None else Some (foldl (add_package L) NewPackageRegistry updates)
      | Some r \<Rightarrow> Some (foldl (add_package L) r updates))"

definition Ensure :: "package_registry \<Rightarrow> string \<Rightarrow> package_registry \<times> package option" where
  "Ensure r purl =
     (if purl = [] then (r, None)
      else (case mget (byPURL r) purl of
              Some existing \<Rightarrow> (r, Some existing)
            | None \<Rightarrow>
                (let stored = Package_zero\<lparr>PkgCoords := Coordinates_zero\<lparr>PURL := purl\<rparr>, PkgID := purl\<rparr>
                 in (r\<lparr>byPURL := mput purl stored (byPURL r), reg_order := reg_order r @ [purl]\<rparr>, Some stored))))"

definition Registry_Get :: "package_registry \<Rightarrow> string \<Rightarrow> package option" where
  "Registry_Get r purl = mget (byPURL r) purl"

definition Registry_All :: "package_registry \<Rightarrow> package list" where
  "Registry_All r = map (\<lambda>purl. the (mget (byPURL r) purl)) (sort (mkeys (byPURL r)))"

definition Registry_Len :: "package_registry \<Rightarrow> nat" where
  "Registry_Len r = length (byPURL r)"

definition Registry_Merge :: "library \<Rightarrow> package_registry \<Rightarrow> package_registry option \<Rightarrow> package_registry" where
  "Registry_Merge L r other =
     (case other of
        None \<Rightarrow> r
      | Some other \<Rightarrow> foldl (\<lambda>r purl. add_package L r (mget (byPURL other) purl)) r (reg_order other))"

section \<open>Attestations keep their signer\<close>

definition vouched :: "package_attestation list \<Rightarrow> package_attestation \<Rightarrow> bool" where
  "vouched as b \<longleftrightarrow> (\<exists>a \<in> set as. attestation_key a = attestation_key b
     \<and> (claimsNothing b \<or> Issuer a = Issuer b \<and> (Verified b \<longrightarrow> Verified a)))"

lemma absorb_key: "describesSame a c \<Longrightarrow> attestation_key (absorb a c) = attestation_key a"
  by (auto simp: describesSame_def absorb_def attestation_key_def split: if_splits)

lemma merge_attestation_set:
  "\<exists>before after. as = before @ after \<and> (after = [] \<and> merge_attestation as c = as @ [c]
     \<or> after \<noteq> [] \<and> describesSame (hd after) c \<and> merge_attestation as c = before @ absorb (hd after) c # tl after)"
proof (induction "as")
  case (Cons a as')
  show ?case
  proof (cases "describesSame a c")
    case True
    then show ?thesis by (intro exI [of _ "[]"] exI [of _ "a # as'"]) simp
  next
    case False
    obtain before after where "as' = before @ after" "after = [] \<and> merge_attestation as' c = as' @ [c]
     \<or> after \<noteq> [] \<and> describesSame (hd after) c \<and> merge_attestation as' c = before @ absorb (hd after) c # tl after"
      using Cons.IH by blast
    with False show ?thesis by (intro exI [of _ "a # before"] exI [of _ after]) auto
  qed
qed simp

lemma merge_attestation_cases:
  obtains "merge_attestation as c = as @ [c]"
  | before a after where "as = before @ a # after" "describesSame a c" "merge_attestation as c = before @ absorb a c # after"
proof -
  obtain before after where *: "as = before @ after" "after = [] \<and> merge_attestation as c = as @ [c]
     \<or> after \<noteq> [] \<and> describesSame (hd after) c \<and> merge_attestation as c = before @ absorb (hd after) c # tl after"
    using merge_attestation_set by blast
  then show ?thesis using that by (cases after) auto
qed

lemma vouched_step: "vouched as b \<Longrightarrow> vouched (merge_attestation as c) b"
proof (cases rule: merge_attestation_cases [of "as" c])
  case (2 before a after)
  assume "vouched as b"
  then obtain d where d: "d \<in> set as" "attestation_key d = attestation_key b" "claimsNothing b \<or> Issuer d = Issuer b \<and> (Verified b \<longrightarrow> Verified d)"
    by (auto simp: vouched_def)
  show ?thesis
  proof (cases "d = a")
    case True
    have "claimsNothing b \<or> Issuer (absorb a c) = Issuer b \<and> (Verified b \<longrightarrow> Verified (absorb a c))"
      using d(3) True 2(2) by (auto simp: absorb_def describesSame_def claimsNothing_def split: if_splits)
    then show ?thesis unfolding 2(3) vouched_def using absorb_key [OF 2(2)] d(2) True by auto
  next
    case False
    then show ?thesis using d 2(1) unfolding 2(3) vouched_def by auto
  qed
qed (auto simp: vouched_def)

lemma vouched_new: "vouched (merge_attestation as c) c"
proof (cases rule: merge_attestation_cases [of "as" c])
  case (2 before a after)
  have "attestation_key (absorb a c) = attestation_key c" using absorb_key [OF 2(2)] 2(2) by (simp add: describesSame_def split: if_splits)
  moreover have "claimsNothing c \<or> Issuer (absorb a c) = Issuer c \<and> (Verified c \<longrightarrow> Verified (absorb a c))"
    using 2(2) by (auto simp: absorb_def describesSame_def claimsNothing_def split: if_splits)
  ultimately show ?thesis unfolding 2(3) vouched_def by auto
qed (auto simp: vouched_def)

lemma verified_backed:
  assumes "a \<in> set (merge_attestation as c)" "Verified a"
  shows "\<exists>b \<in> insert c (set as). Verified b \<and> attestation_key b = attestation_key a \<and> Issuer b = Issuer a"
proof (cases rule: merge_attestation_cases [of "as" c])
  case 1
  then show ?thesis using assms by auto
next
  case (2 before d after)
  show ?thesis
  proof (cases "a = absorb d c")
    case True
    have "attestation_key c = attestation_key d" using 2(2) by (simp add: describesSame_def split: if_splits)
    then show ?thesis using True assms(2) 2(1,2) absorb_key [OF 2(2)]
      by (auto simp: absorb_def describesSame_def claimsNothing_def split: if_splits)
  next
    case False
    then show ?thesis using assms 2(1,3) by auto
  qed
qed

lemma mergeAttestations_vouched: "b \<in> set as \<union> set bs \<Longrightarrow> vouched (mergeAttestations as bs) b"
proof -
  have keep: "vouched as b \<Longrightarrow> vouched (foldl merge_attestation as bs) b" for "as" bs b
    by (induction bs arbitrary: "as") (auto simp: vouched_step)
  have new: "b \<in> set bs \<Longrightarrow> vouched (foldl merge_attestation as bs) b" for "as" bs b
    by (induction bs arbitrary: "as") (auto simp: keep vouched_new)
  assume "b \<in> set as \<union> set bs"
  moreover have "b \<in> set as \<Longrightarrow> vouched as b" by (auto simp: vouched_def)
  ultimately show ?thesis using keep new by (auto simp: mergeAttestations_def)
qed

lemma mergeAttestations_backed:
  "a \<in> set (mergeAttestations as bs) \<Longrightarrow> Verified a \<Longrightarrow>
   \<exists>b \<in> set as \<union> set bs. Verified b \<and> attestation_key b = attestation_key a \<and> Issuer b = Issuer a"
  unfolding mergeAttestations_def
proof (induction bs arbitrary: "as")
  case (Cons c bs)
  from Cons.IH [of "merge_attestation as c"] Cons.prems obtain b where
    b: "b \<in> set (merge_attestation as c) \<union> set bs" "Verified b" "attestation_key b = attestation_key a" "Issuer b = Issuer a" by auto
  then show ?case using verified_backed [of b "as" c] by auto
qed auto

text \<open>Folding attestations loses no claim and moves no verification: every record stated by either side
  is still stated, by a record of the same statement that names its issuer and is verified if it was,
  unless it claimed nothing beyond the statement's existence; and a record is verified only if a record of the
  same statement with the very same issuer was verified.\<close>

lemma mergeAttestations_spec:
  "(\<forall>b \<in> set as \<union> set bs. vouched (mergeAttestations as bs) b)
   \<and> (\<forall>a \<in> set (mergeAttestations as bs). Verified a \<longrightarrow>
        (\<exists>b \<in> set as \<union> set bs. Verified b \<and> attestation_key b = attestation_key a \<and> Issuer b = Issuer a))"
  using mergeAttestations_vouched mergeAttestations_backed by blast

definition sample_attestation :: "string \<Rightarrow> bool \<Rightarrow> package_attestation" where
  "sample_attestation issuer verified = \<lparr>PredicateType = [], AttSource = [], AttURL = [], AttDigest = None, Issuer = issuer, Verified = verified\<rparr>"

section \<open>Advisories are a set by source and ID\<close>

abbreviation vkey :: "vulnerability \<Rightarrow> string" where "vkey \<equiv> vulnerabilityIdentityKey"

lemma vkey_normalized [simp]: "vkey (Vulnerability_Normalized L v) = vkey v"
  by (simp add: Vulnerability_Normalized_def vulnerabilityIdentityKey_def)

lemma vkey_enriched [simp]: "vkey (enrich_vulnerability L d v) = vkey d"
  by (simp add: enrich_vulnerability_def vulnerabilityIdentityKey_def Let_def)

definition vindex_ok :: "vulnerability list \<Rightarrow> (string, nat) gomap \<Rightarrow> bool" where
  "vindex_ok vs idx \<longleftrightarrow> distinct (map vkey vs) \<and> (\<forall>k i. mget idx k = Some i \<longleftrightarrow> i < length vs \<and> vkey (vs ! i) = k)"

lemma index_vulnerabilities_ok: "distinct (map vkey vs) \<Longrightarrow> vindex_ok vs (index_vulnerabilities vs)"
proof -
  assume d: "distinct (map vkey vs)"
  let ?ps = "map (\<lambda>i. (vkey (vs ! i), i)) [0..<length vs]"
  let ?f = "\<lambda>k. find (\<lambda>i. vkey (vs ! i) = k) [0..<length vs]"
  have uniq: "i = j" if "i < length vs" "j < length vs" "vkey (vs ! i) = vkey (vs ! j)" for i j
    using d that by (auto simp: distinct_conv_nth)
  have f: "?f k = Some i \<longleftrightarrow> i < length vs \<and> vkey (vs ! i) = k" for k i
  proof
    assume "?f k = Some i"
    then show "i < length vs \<and> vkey (vs ! i) = k" by (auto simp: find_Some_iff)
  next
    assume i: "i < length vs \<and> vkey (vs ! i) = k"
    then have "?f k \<noteq> None" by (auto simp: find_None_iff)
    then obtain j where j: "?f k = Some j" by blast
    then have "j < length vs \<and> vkey (vs ! j) = k" by (auto simp: find_Some_iff)
    then have "j = i" using uniq i by auto
    then show "?f k = Some i" using j by simp
  qed
  have "index_vulnerabilities vs = foldl (\<lambda>m (i, r). mput i r m) [] ?ps" by (simp add: index_vulnerabilities_def foldl_map)
  moreover have "\<forall>(k, i) \<in> set ?ps. ?f k = Some i" using f by auto
  ultimately have "mget (index_vulnerabilities vs) k = (if k \<in> fst ` set ?ps then ?f k else None)" for k
    using foldl_mput_fun [of ?ps ?f "[]" k] by simp
  then show ?thesis using d f by (force simp: vindex_ok_def)
qed

lemma merge_vulnerability_step:
  assumes "vindex_ok vs idx"
  shows "\<exists>vs' idx'. merge_vulnerability L (vs, idx) v = (vs', idx') \<and> vindex_ok vs' idx'
    \<and> map vkey vs' = map vkey vs @ (if vkey v \<in> set (map vkey vs) then [] else [vkey v])"
proof (cases "mget idx (vkey v)")
  case (Some i)
  then have i: "i < length vs" "vkey (vs ! i) = vkey v" using assms by (auto simp: vindex_ok_def)
  have keys: "map vkey (vs[i := enrich_vulnerability L (vs ! i) v]) = map vkey vs"
    using i by (simp add: map_update) (simp add: list_update_same_conv)
  have "vindex_ok (vs[i := enrich_vulnerability L (vs ! i) v]) idx"
    using assms keys unfolding vindex_ok_def by (metis (no_types, lifting) length_list_update length_map nth_map)
  moreover have "vkey v \<in> set (map vkey vs)" using i by (metis length_map nth_map nth_mem)
  ultimately show ?thesis using Some keys by (simp add: merge_vulnerability_def del: set_map)
next
  case None
  have new: "vkey v \<notin> set (map vkey vs)"
  proof
    assume "vkey v \<in> set (map vkey vs)"
    then obtain j where "j < length vs" "vkey (vs ! j) = vkey v" by (metis in_set_conv_nth length_map nth_map)
    then have "mget idx (vkey v) = Some j" using assms by (simp add: vindex_ok_def)
    then show False using None by simp
  qed
  have "\<forall>i < length vs. vkey (vs ! i) \<noteq> vkey v" using new by (metis length_map nth_map nth_mem)
  then have "vindex_ok (vs @ [Vulnerability_Normalized L v]) (mput (vkey v) (length vs) idx)"
    using assms new None unfolding vindex_ok_def by (auto simp: gomap_simps nth_append less_Suc_eq)
  then show ?thesis using None new by (simp add: merge_vulnerability_def del: set_map)
qed

lemma merge_vulnerability_fold:
  "vindex_ok vs idx \<Longrightarrow> \<exists>vs' idx'. foldl (merge_vulnerability L) (vs, idx) new = (vs', idx') \<and> vindex_ok vs' idx'
     \<and> set (map vkey vs') = set (map vkey vs) \<union> set (map vkey new) \<and> length vs \<le> length vs'
     \<and> take (length vs) (map vkey vs') = map vkey vs"
proof (induction new arbitrary: vs idx)
  case (Cons v new)
  obtain vs1 idx1 where 1: "merge_vulnerability L (vs, idx) v = (vs1, idx1)" "vindex_ok vs1 idx1"
    "map vkey vs1 = map vkey vs @ (if vkey v \<in> set (map vkey vs) then [] else [vkey v])"
    using merge_vulnerability_step [OF Cons.prems] by blast
  obtain vs2 idx2 where 2: "foldl (merge_vulnerability L) (vs1, idx1) new = (vs2, idx2)" "vindex_ok vs2 idx2"
    "set (map vkey vs2) = set (map vkey vs1) \<union> set (map vkey new)" "length vs1 \<le> length vs2" "take (length vs1) (map vkey vs2) = map vkey vs1"
    using Cons.IH [OF 1(2)] by blast
  have len: "length vs \<le> length vs1" using arg_cong [OF 1(3), of length] by simp
  have "take (length vs) (map vkey vs2) = take (length vs) (take (length vs1) (map vkey vs2))" using len by (simp add: min_absorb1)
  also have "\<dots> = map vkey vs" unfolding 2(5) 1(3) by simp
  finally have "take (length vs) (map vkey vs2) = map vkey vs" .
  moreover have "set (map vkey vs2) = set (map vkey vs) \<union> set (map vkey (v # new))"
    using arg_cong [OF 1(3), of set] 2(3) by auto
  ultimately show ?case using 1(1) 2(1,2,4) len by (intro exI [of _ vs2] exI [of _ idx2]) simp
qed simp

lemma mergeVulnerabilities_keys:
  assumes "distinct (map vkey vs)"
  shows "distinct (map vkey (mergeVulnerabilities L vs new)) \<and> set (map vkey (mergeVulnerabilities L vs new)) = set (map vkey vs) \<union> set (map vkey new)"
proof (cases "new = []")
  case False
  then show ?thesis using merge_vulnerability_fold [OF index_vulnerabilities_ok [OF assms], of L new]
    by (auto simp: mergeVulnerabilities_def vindex_ok_def)
qed (use assms in \<open>simp add: mergeVulnerabilities_def\<close>)


section \<open>The registry\<close>

definition package_ok :: "string \<Rightarrow> package \<Rightarrow> bool" where
  "package_ok x p \<longleftrightarrow> x \<noteq> [] \<and> PURL (PkgCoords p) = x \<and> PkgID p \<noteq> [] \<and> distinct (map vkey (Vulnerabilities p))"

definition registry_ok :: "package_registry \<Rightarrow> bool" where
  "registry_ok r \<longleftrightarrow> gomap_ok (byPURL r) \<and> distinct (reg_order r) \<and> set (reg_order r) = set (mkeys (byPURL r))
     \<and> (\<forall>x p. mget (byPURL r) x = Some p \<longrightarrow> package_ok x p)"

lemma NormalizeAssertions_keeps [simp]:
  "PkgCoords (NormalizeAssertions L p) = PkgCoords p" "PkgID (NormalizeAssertions L p) = PkgID p"
  "Remediation (NormalizeAssertions L p) = Remediation p" "PkgMatched (NormalizeAssertions L p) = PkgMatched p"
  by (simp_all add: NormalizeAssertions_def Let_def)

lemma NormalizeAssertions_advisories:
  "distinct (map vkey (Vulnerabilities (NormalizeAssertions L p)))
   \<and> set (map vkey (Vulnerabilities (NormalizeAssertions L p))) = set (map vkey (Vulnerabilities p))"
proof (cases "Vulnerabilities p = []")
  case False
  let ?m = "mergeVulnerabilities L [] (Vulnerabilities p)"
  have v: "Vulnerabilities (NormalizeAssertions L p) = sort_key vkey (map (Vulnerability_Normalized L) ?m)"
    using False by (simp add: NormalizeAssertions_def Let_def)
  have k: "map vkey (map (Vulnerability_Normalized L) ?m) = map vkey ?m" by simp
  have "distinct (map vkey ?m) \<and> set (map vkey ?m) = set (map vkey (Vulnerabilities p))"
    using mergeVulnerabilities_keys [of "[]" L "Vulnerabilities p"] by simp
  then show ?thesis unfolding v distinct_map_sort_key k by (metis k set_map set_sort)
qed (simp add: NormalizeAssertions_def Let_def)

lemma MergeFrom_keeps:
  "PURL (PkgCoords (Package_MergeFrom L p src)) = PURL (PkgCoords p)" "Remediation (Package_MergeFrom L p src) = Remediation p"
  by (simp_all add: Package_MergeFrom_def fill_coordinates_def split: option.split)

lemma MergeFrom_ok: "package_ok x p \<Longrightarrow> package_ok x (Package_MergeFrom L p src)"
  using mergeVulnerabilities_keys [of "Vulnerabilities p" L]
  by (auto simp: package_ok_def Package_MergeFrom_def fill_coordinates_def split: option.split)

text \<open>What \<open>Registry_Add\<close> stores.\<close>

definition admitted :: "library \<Rightarrow> package \<Rightarrow> package" where
  "admitted L p = NormalizeAssertions L (if PkgID p = [] then p\<lparr>PkgID := PURL (PkgCoords p)\<rparr> else p)"

lemma admitted_ok: "PURL (PkgCoords p) = x \<Longrightarrow> x \<noteq> [] \<Longrightarrow> package_ok x (admitted L p)"
  by (simp add: package_ok_def admitted_def NormalizeAssertions_advisories)

lemma Registry_Add_eq:
  "PURL (PkgCoords p) = x \<Longrightarrow> x \<noteq> [] \<Longrightarrow> Registry_Add L r (Some p) =
    (case mget (byPURL r) x of
       Some e \<Rightarrow> (r\<lparr>byPURL := mput x (Package_MergeFrom L e (Some (admitted L p))) (byPURL r)\<rparr>, Some (admitted L p),
                  Some (Package_MergeFrom L e (Some (admitted L p))))
     | None \<Rightarrow> (r\<lparr>byPURL := mput x (admitted L p) (byPURL r), reg_order := reg_order r @ [x]\<rparr>, Some (admitted L p), Some (admitted L p)))"
  by (simp add: Registry_Add_def admitted_def Let_def cong: option.case_cong)

lemma registry_put:
  assumes "registry_ok r" "package_ok x p"
  shows "registry_ok (if mget (byPURL r) x = None then r\<lparr>byPURL := mput x p (byPURL r), reg_order := reg_order r @ [x]\<rparr>
    else r\<lparr>byPURL := mput x p (byPURL r)\<rparr>)"
  using assms set_mkeys_mput [of x p "byPURL r"]
  by (auto simp: registry_ok_def gomap_simps mget_None_mkeys simp del: set_map)

lemma add_package_ok: "registry_ok r \<Longrightarrow> registry_ok (add_package L r pkg)"
proof (cases "\<exists>p. pkg = Some p \<and> PURL (PkgCoords p) \<noteq> []")
  case True
  then obtain p where p: "pkg = Some p" "PURL (PkgCoords p) \<noteq> []" by blast
  assume r: "registry_ok r"
  show ?thesis
  proof (cases "mget (byPURL r) (PURL (PkgCoords p))")
    case None
    then show ?thesis using registry_put [OF r admitted_ok [OF refl p(2), of L]]
      by (simp add: add_package_def p(1) Registry_Add_eq [OF refl p(2)])
  next
    case (Some e)
    then have "package_ok (PURL (PkgCoords p)) e" using r by (simp add: registry_ok_def)
    then have "package_ok (PURL (PkgCoords p)) (Package_MergeFrom L e (Some (admitted L p)))" by (rule MergeFrom_ok)
    from registry_put [OF r this] show ?thesis using Some
      by (simp add: add_package_def p(1) Registry_Add_eq [OF refl p(2)])
  qed
next
  case False
  then show "registry_ok r \<Longrightarrow> ?thesis" by (auto simp: add_package_def Registry_Add_def split: option.split)
qed

lemma fold_add_ok: "registry_ok r \<Longrightarrow> registry_ok (foldl (add_package L) r pkgs)"
  by (induction pkgs arbitrary: r) (auto simp: add_package_ok)

lemma Ensure_ok: "registry_ok r \<Longrightarrow> registry_ok (fst (Ensure r x))"
  using registry_put [of r x "Package_zero\<lparr>PkgCoords := Coordinates_zero\<lparr>PURL := x\<rparr>, PkgID := x\<rparr>"]
  by (auto simp: Ensure_def package_ok_def Package_zero_def Let_def split: option.split)

lemma Registry_Merge_fold: "Registry_Merge L r (Some other) = foldl (add_package L) r (map (mget (byPURL other)) (reg_order other))"
  by (simp add: Registry_Merge_def foldl_map)

inductive registry_step :: "library \<Rightarrow> package_registry \<Rightarrow> package_registry \<Rightarrow> bool" for L where
  step_Add: "Registry_Add L r pkg = (r', pkg', stored) \<Longrightarrow> registry_step L r r'"
| step_Ensure: "Ensure r x = (r', stored) \<Longrightarrow> registry_step L r r'"
| step_Merge: "Registry_Merge L r other = r' \<Longrightarrow> registry_step L r r'"
| step_Updates: "ApplyPackageUpdates L (Some r) updates = Some r' \<Longrightarrow> registry_step L r r'"
| step_Entries: "AddEntryPackages L r (entries :: (package option, unit) graph_entry list) = r' \<Longrightarrow> registry_step L r r'"

inductive reachable_registry :: "library \<Rightarrow> package_registry \<Rightarrow> bool" for L where
  "reachable_registry L NewPackageRegistry"
| "reachable_registry L r \<Longrightarrow> registry_step L r r' \<Longrightarrow> reachable_registry L r'"

lemma AddEntryPackages_ok: "registry_ok r \<Longrightarrow> registry_ok (AddEntryPackages L r entries)"
  unfolding AddEntryPackages_def
proof (induction entries arbitrary: r)
  case (Cons e es)
  have "registry_ok r \<Longrightarrow> registry_ok (foldl (\<lambda>r pkg. case pkg of None \<Rightarrow> r | Some p \<Rightarrow> if PURL (PkgCoords p) = [] then r else add_package L r pkg) r ps)" for r ps
    by (induction ps arbitrary: r) (auto simp: add_package_ok split: option.split)
  then show ?case using Cons by simp
qed simp

lemma registry_step_ok: "registry_step L r r' \<Longrightarrow> registry_ok r \<Longrightarrow> registry_ok r'"
proof (induction rule: registry_step.induct)
  case (step_Add r pkg r' pkg' stored)
  then show ?case using add_package_ok [of r L pkg] by (simp add: add_package_def)
next
  case (step_Ensure r x r' stored)
  then show ?case using Ensure_ok [of r x] by simp
next
  case (step_Merge r other r')
  then show ?case by (cases other) (auto simp: Registry_Merge_fold fold_add_ok, simp add: Registry_Merge_def)
next
  case (step_Updates r updates r')
  then show ?case by (auto simp: ApplyPackageUpdates_def fold_add_ok)
next
  case (step_Entries r entries r')
  then show ?case using AddEntryPackages_ok by blast
qed

lemma reachable_registry_ok: "reachable_registry L r \<Longrightarrow> registry_ok r"
proof (induction rule: reachable_registry.induct)
  case 1
  show ?case by (simp add: registry_ok_def NewPackageRegistry_def)
next
  case (2 r r')
  then show ?case using registry_step_ok by blast
qed


lemma mapped_sorted: "(\<And>x. x \<in> set ks \<longleftrightarrow> (\<exists>v. f x = Some v)) \<Longrightarrow> set (map (\<lambda>x. the (f x)) (sort ks)) = {v. \<exists>x. f x = Some v}"
  by force

text \<open>C23. Whatever packages are added, merged, ensured or applied as updates, in whatever order, the
  registry stays consistent: one record per package URL, stored under the URL it states, with a
  non-empty ID, its advisories a set by source and ID, and the insertion order listing exactly the
  stored URLs, once each; so the enumeration is the stored records in the order of their URLs.\<close>

theorem reachable_registry_sound:
  assumes "reachable_registry L r"
  shows "registry_ok r \<and> Registry_Len r = length (reg_order r)
    \<and> map (\<lambda>p. PURL (PkgCoords p)) (Registry_All r) = sort (reg_order r)
    \<and> set (Registry_All r) = {p. \<exists>x. Registry_Get r x = Some p}"
proof -
  have ok: "registry_ok r" using assms by (rule reachable_registry_ok)
  then have d: "distinct (mkeys (byPURL r))" "distinct (reg_order r)" and s: "set (reg_order r) = set (mkeys (byPURL r))"
    and p: "\<And>x p. mget (byPURL r) x = Some p \<Longrightarrow> PURL (PkgCoords p) = x"
    by (auto simp: registry_ok_def gomap_ok_def package_ok_def)
  have "mset (mkeys (byPURL r)) = mset (reg_order r)" using d s by (metis set_eq_iff_mset_eq_distinct)
  then have srt: "sort (mkeys (byPURL r)) = sort (reg_order r)" by (metis properties_for_sort mset_sort sorted_sort)
  moreover have "length (byPURL r) = length (reg_order r)" using \<open>mset (mkeys (byPURL r)) = mset (reg_order r)\<close> by (metis length_map size_mset)
  moreover have "PURL (PkgCoords (the (mget (byPURL r) x))) = x" if "x \<in> set (mkeys (byPURL r))" for x
    using mkeys_mget [OF that] p by auto
  then have "map (\<lambda>p. PURL (PkgCoords p)) (Registry_All r) = sort (mkeys (byPURL r))"
    by (simp add: Registry_All_def comp_def del: set_map) (rule map_idI, simp del: set_map)
  moreover have "set (Registry_All r) = {p. \<exists>x. Registry_Get r x = Some p}"
    unfolding Registry_All_def Registry_Get_def by (rule mapped_sorted) (metis mkeys_mget mget_Some_mkeys)
  ultimately show ?thesis using ok by (simp add: Registry_Len_def)
qed

lemma sample_registry: "reachable_registry plain_library (fst (Ensure NewPackageRegistry ''pkg:npm/a@1''))"
  by (rule reachable_registry.intros(2) [OF reachable_registry.intros(1)],
      rule step_Ensure [where x = "''pkg:npm/a@1''" and stored = "snd (Ensure NewPackageRegistry ''pkg:npm/a@1'')"]) simp

theorem reachable_registry_sound_witness:
  "map (\<lambda>p. PURL (PkgCoords p)) (Registry_All (fst (Ensure NewPackageRegistry ''pkg:npm/a@1''))) = [''pkg:npm/a@1'']"
  using reachable_registry_sound [OF sample_registry] by (simp add: Ensure_def NewPackageRegistry_def Let_def)

text \<open>C24. Adding a package: a nil record and one without a package URL change nothing; any other is gated
  and given its ID, and is then what the registry holds under its URL, or is folded into what it
  held; the other records stay as they are, and the insertion order grows by a new URL only. The
  stored record's advisories are those of both, by source and ID, its match flag the disjunction, and
  its remediation, a conclusion drawn from another set of advisories, is never taken from the witness.\<close>

theorem Registry_Add_spec:
  assumes r: "registry_ok r"
  shows "(case pkg of
      None \<Rightarrow> Registry_Add L r pkg = (r, None, None)
    | Some p \<Rightarrow> (let x = PURL (PkgCoords p) in
        if x = [] then Registry_Add L r pkg = (r, pkg, None)
        else (\<exists>r' stored. Registry_Add L r pkg = (r', Some (admitted L p), Some stored)
          \<and> Registry_Get r' = (Registry_Get r)(x \<mapsto> stored)
          \<and> reg_order r' = reg_order r @ (if Registry_Get r x = None then [x] else [])
          \<and> (case Registry_Get r x of
               None \<Rightarrow> stored = admitted L p
             | Some e \<Rightarrow> stored = Package_MergeFrom L e (Some (admitted L p))
                 \<and> set (map vkey (Vulnerabilities stored)) = set (map vkey (Vulnerabilities e)) \<union> set (map vkey (Vulnerabilities p))
                 \<and> (PkgMatched stored \<longleftrightarrow> PkgMatched e \<or> PkgMatched p)
                 \<and> Remediation stored = Remediation e))))"
proof (cases pkg)
  case None
  then show ?thesis by (simp add: Registry_Add_def)
next
  case (Some p)
  show ?thesis
  proof (cases "PURL (PkgCoords p) = []")
    case True
    then show ?thesis by (simp add: Some Registry_Add_def)
  next
    case x: False
    show ?thesis
    proof (cases "mget (byPURL r) (PURL (PkgCoords p))")
      case None
      then show ?thesis using x Registry_Add_eq [OF refl x, of L r]
        by (auto simp: Some Let_def Registry_Get_def gomap_simps fun_eq_iff)
    next
      case e: (Some e)
      let ?m = "Package_MergeFrom L e (Some (admitted L p))"
      have "distinct (map vkey (Vulnerabilities e))" using r e by (auto simp: registry_ok_def package_ok_def)
      then have "set (map vkey (Vulnerabilities ?m)) = set (map vkey (Vulnerabilities e)) \<union> set (map vkey (Vulnerabilities (admitted L p)))"
        using mergeVulnerabilities_keys by (simp add: Package_MergeFrom_def)
      moreover have "set (map vkey (Vulnerabilities (admitted L p))) = set (map vkey (Vulnerabilities p))"
        unfolding admitted_def by (simp only: NormalizeAssertions_advisories) simp
      moreover have "PkgMatched ?m \<longleftrightarrow> PkgMatched e \<or> PkgMatched p" by (auto simp: Package_MergeFrom_def admitted_def)
      ultimately show ?thesis using x e Registry_Add_eq [OF refl x, of L r]
        by (auto simp: Some Let_def Registry_Get_def gomap_simps fun_eq_iff MergeFrom_keeps)
    qed
  qed
qed

theorem Registry_Add_spec_witness:
  "\<exists>stored. Registry_Get (fst (Registry_Add plain_library NewPackageRegistry (Some (Package_zero\<lparr>PkgCoords := Coordinates_zero\<lparr>PURL := ''pkg:npm/a@1''\<rparr>\<rparr>)))) ''pkg:npm/a@1'' = Some stored
     \<and> PURL (PkgCoords stored) = ''pkg:npm/a@1'' \<and> PkgID stored = ''pkg:npm/a@1''"
proof -
  have r: "registry_ok NewPackageRegistry" by (simp add: registry_ok_def NewPackageRegistry_def)
  let ?p = "Package_zero\<lparr>PkgCoords := Coordinates_zero\<lparr>PURL := ''pkg:npm/a@1''\<rparr>\<rparr>"
  have p: "PURL (PkgCoords ?p) = ''pkg:npm/a@1''" "PkgID ?p = []" "PURL (PkgCoords ?p) \<noteq> []" by (simp_all add: Package_zero_def)
  have g: "Registry_Get NewPackageRegistry x = None" for x by (simp add: Registry_Get_def NewPackageRegistry_def)
  from Registry_Add_spec [OF r, where L = plain_library and pkg = "Some ?p"] p(3) obtain r' where
    a: "Registry_Add plain_library NewPackageRegistry (Some ?p) = (r', Some (admitted plain_library ?p), Some (admitted plain_library ?p))"
    and "Registry_Get r' = (Registry_Get NewPackageRegistry)(PURL (PkgCoords ?p) \<mapsto> admitted plain_library ?p)"
    unfolding option.case Let_def g by auto
  then show ?thesis unfolding a fst_conv using p by (simp add: admitted_def)
qed

end
