(* ===== verification/Scan.thy ===== *)
theory Scan
  imports Views Document Registry
begin

text \<open>
  The scan record: the collections a record is built from (\<^verbatim>\<open>scan/build.go\<close>), the record's data and
  its gates (\<^verbatim>\<open>scan/record.go\<close>, with the commit gate of \<^verbatim>\<open>plugin/scan.go\<close>), and the comparison of two
  records (\<^verbatim>\<open>scan/compare.go\<close>). A record holds the dependencies of each manifest as a lean projection
  of its graph; comparing two records rebuilds a graph from each and hands the pair to
  \<open>Compare\<close>. Instants are integers and a pointer is an \<open>option\<close>; the map an index builds is read
  in the order of its list, and every result is sorted.
\<close>

section \<open>The commit gate\<close>

definition hex_digit :: "char \<Rightarrow> bool" where
  "hex_digit c \<longleftrightarrow> (CHR ''0'' \<le> c \<and> c \<le> CHR ''9'') \<or> (CHR ''a'' \<le> c \<and> c \<le> CHR ''f'')"

definition NormalizeCommitSHA :: "string \<Rightarrow> string" where
  "NormalizeCommitSHA v =
     (let v = ToLower (TrimSpace v)
      in if length v < 7 \<or> length v > 64 then [] else if list_all hex_digit v then v else [])"

type_synonym target_kind = string

abbreviation ExecutionTargetFilesystem :: target_kind where "ExecutionTargetFilesystem \<equiv> ''filesystem''"
abbreviation ExecutionTargetGitRepository :: target_kind where "ExecutionTargetGitRepository \<equiv> ''git-repository''"
abbreviation ExecutionTargetContainerImage :: target_kind where "ExecutionTargetContainerImage \<equiv> ''container-image''"

record execution_target =
  TargetKind :: target_kind
  TargetLocation :: string
  TargetRepositoryURL :: string
  TargetRef :: string
  TargetCommitSHA :: string

definition ExecutionTarget_Normalized :: "execution_target \<Rightarrow> execution_target" where
  "ExecutionTarget_Normalized t =
     \<lparr>TargetKind = TrimSpace (TargetKind t), TargetLocation = TrimSpace (TargetLocation t),
      TargetRepositoryURL = TrimSpace (TargetRepositoryURL t), TargetRef = TrimSpace (TargetRef t),
      TargetCommitSHA = NormalizeCommitSHA (TargetCommitSHA t)\<rparr>"

definition ExecutionTarget_MarshalJSON :: "execution_target \<Rightarrow> execution_target" where
  "ExecutionTarget_MarshalJSON t = ExecutionTarget_Normalized t"

definition ExecutionTarget_UnmarshalJSON :: "execution_target \<Rightarrow> execution_target" where
  "ExecutionTarget_UnmarshalJSON decoded = ExecutionTarget_Normalized decoded"

record subproject =
  SubTarget :: execution_target
  RelativePath :: string
  PrimaryDetector :: string
  DetectedPackageManagers :: "package_manager list"
  PlannedDetectors :: "string list"
  SubEcosystem :: ecosystem

definition PrimaryPackageManager :: "subproject \<Rightarrow> package_manager" where
  "PrimaryPackageManager s =
     (if DetectedPackageManagers s = [] \<or> TargetKind (SubTarget s) = ExecutionTargetContainerImage
      then [] else hd (DetectedPackageManagers s))"

section \<open>Detector warnings\<close>

abbreviation DetectorWarningResolutionFailure :: string where "DetectorWarningResolutionFailure \<equiv> ''resolution-failure''"
abbreviation DetectorWarningFallback :: string where "DetectorWarningFallback \<equiv> ''fallback''"
abbreviation DetectorWarningPackageManager :: string where "DetectorWarningPackageManager \<equiv> ''package-manager''"

record detector_warning =
  WarningType :: string
  WarningCode :: string
  WarningSource :: string
  WarningSubproject :: string
  WarningManifest :: string
  WarningMessage :: string

definition DegradesCoverage :: "string \<Rightarrow> bool" where
  "DegradesCoverage t \<longleftrightarrow> t = DetectorWarningResolutionFailure \<or> t = DetectorWarningFallback"

definition Warning_DegradesCoverage :: "detector_warning \<Rightarrow> bool" where
  "Warning_DegradesCoverage w \<longleftrightarrow> DegradesCoverage (WarningType w)"

section \<open>The record\<close>

abbreviation SchemaVersion :: string where "SchemaVersion \<equiv> ''bomly.scan.v1''"

record subject =
  SubjectKind :: target_kind
  SubjectRepositoryURL :: string
  SubjectRef :: string
  SubjectCommitSHA :: string
  ImageReference :: string
  ImageDigest :: string

definition Subject_Normalized :: "subject \<Rightarrow> subject" where
  "Subject_Normalized s =
     \<lparr>SubjectKind = TrimSpace (SubjectKind s), SubjectRepositoryURL = TrimSpace (SubjectRepositoryURL s),
      SubjectRef = TrimSpace (SubjectRef s), SubjectCommitSHA = NormalizeCommitSHA (SubjectCommitSHA s),
      ImageReference = TrimSpace (ImageReference s), ImageDigest = TrimSpace (ImageDigest s)\<rparr>"

definition Subject_MarshalJSON :: "subject \<Rightarrow> subject" where
  "Subject_MarshalJSON s = Subject_Normalized s"

definition Subject_UnmarshalJSON :: "subject \<Rightarrow> subject" where
  "Subject_UnmarshalJSON wire = Subject_Normalized wire"

record scan_tool =
  ScanToolName :: string
  ScanToolVersion :: string

record scan_component =
  CompName :: string
  CompVersion :: string
  CompRole :: string
  CompOrigin :: string

record scan_options =
  Enrich :: bool
  Analyze :: bool
  Audit :: bool
  FailOn :: "string list"

record run =
  RunID :: string
  Correlator :: string
  StartedAt :: time
  CompletedAt :: time
  RunTool :: scan_tool
  Components :: "scan_component list"
  RunOptions :: scan_options

record scan_dependency =
  Dep_ID :: string
  Dep_Name :: string
  Dep_Version :: string
  Dep_PURL :: string
  Dep_Source :: dependency_source
  Dep_Relationship :: relationship
  Dep_Scopes :: "scope list"
  DependsOn :: "string list"
  Dep_Matched :: bool
  Dep_PackageRef :: string
  Dep_Locations :: "package_location list"
  Dep_Licenses :: "package_license list"

record scan_manifest =
  Man_Path :: string
  Man_Kind :: string
  Man_Subproject :: string
  Man_Ecosystem :: ecosystem
  Man_PackageManager :: package_manager
  Man_Detector :: string
  Man_Resolution :: "resolution_metadata option"
  Man_Document :: "document_assertions option"
  Dependencies :: "scan_dependency list"

definition scan_Dependency_Normalized :: "scan_dependency \<Rightarrow> scan_dependency" where
  "scan_Dependency_Normalized d = d\<lparr>Dep_Relationship := ParseDependencyRelationship (Dep_Relationship d)\<rparr>"

definition scan_Dependency_MarshalJSON :: "library \<Rightarrow> scan_dependency \<Rightarrow> scan_dependency" where
  "scan_Dependency_MarshalJSON L d =
     (scan_Dependency_Normalized d)\<lparr>Dep_Licenses := map (PackageLicense_MarshalJSON L) (Dep_Licenses d)\<rparr>"

definition scan_Dependency_UnmarshalJSON :: "scan_dependency \<Rightarrow> scan_dependency" where
  "scan_Dependency_UnmarshalJSON wire = scan_Dependency_Normalized wire"

record audit_summary =
  CriticalCount :: nat
  HighCount :: nat
  MediumCount :: nat
  LowCount :: nat
  UnknownCount :: nat
  TotalCount :: nat

datatype verdict = VerdictPass | VerdictWarn | VerdictFail

record policy_ref =
  PolicyName :: string
  PolicyDigest :: string
  EvaluatedAt :: time

record waiver =
  WaiverID :: string
  WaiverPackageRef :: string
  WaiverVulnerabilityID :: string
  WaiverRuleID :: string
  WaiverJustification :: string
  ApprovedBy :: string
  CreatedAt :: time
  ExpiresAt :: time

record reachability_stats =
  StatsReachable :: int
  StatsUnreachable :: int
  StatsUnknown :: int
  StatsNotApplicable :: int

record scan_metadata =
  DurationMS :: "64 word"
  ReachabilityEnabled :: bool
  ScorecardEnabled :: bool
  AnalyzerRuns :: "string list"
  AnalyzerStats :: "(string, reachability_stats) gomap"

record section_digests =
  ManifestsDigest :: string
  PackagesDigest :: string
  FindingsDigest :: string

record scan_record =
  Rec_SchemaVersion :: string
  Rec_Command :: string
  Rec_Subject :: "subject"
  Rec_Run :: run
  Manifests :: "scan_manifest list"
  Packages :: "package option list"
  Findings :: "finding list"
  AuditSummary :: "audit_summary option"
  Warnings :: "detector_warning list"
  Rec_Verdict :: "verdict option"
  Rec_Policy :: "policy_ref option"
  Waivers :: "waiver list"
  Rec_Metadata :: scan_metadata
  Rec_Digests :: "section_digests option"

definition scan_Record_zero :: scan_record where
  "scan_Record_zero =
     \<lparr>Rec_SchemaVersion = [], Rec_Command = [],
      Rec_Subject = \<lparr>SubjectKind = [], SubjectRepositoryURL = [], SubjectRef = [], SubjectCommitSHA = [],
        ImageReference = [], ImageDigest = []\<rparr>,
      Rec_Run = \<lparr>RunID = [], Correlator = [], StartedAt = 0, CompletedAt = 0,
        RunTool = \<lparr>ScanToolName = [], ScanToolVersion = []\<rparr>, Components = [],
        RunOptions = \<lparr>Enrich = False, Analyze = False, Audit = False, FailOn = []\<rparr>\<rparr>,
      Manifests = [], Packages = [], Findings = [], AuditSummary = None, Warnings = [], Rec_Verdict = None,
      Rec_Policy = None, Waivers = [],
      Rec_Metadata = \<lparr>DurationMS = 0, ReachabilityEnabled = False, ScorecardEnabled = False,
        AnalyzerRuns = [], AnalyzerStats = []\<rparr>,
      Rec_Digests = None\<rparr>"

section \<open>Building a record\<close>

definition project_dependency :: "library \<Rightarrow> graph \<Rightarrow> string set \<Rightarrow> graph_node \<Rightarrow> scan_dependency option" where
  "project_dependency L g present node =
     (case ChildrenAmong (Some g) (NodeID node) present of
        None \<Rightarrow> None
      | Some children \<Rightarrow>
          (let dep = \<lparr>Dep_ID = NodeID node, Dep_Name = NodeDisplayName (Some node), Dep_Version = NodeVersion (Some node),
                      Dep_PURL = NodePURL (Some node), Dep_Source = [], Dep_Relationship = [], Dep_Scopes = [],
                      DependsOn = children, Dep_Matched = False, Dep_PackageRef = [],
                      Dep_Locations = NodeLocations node, Dep_Licenses = []\<rparr>
           in Some (case AsDependencyNode (Some node) of
                      None \<Rightarrow> dep
                    | Some d \<Rightarrow> dep\<lparr>Dep_Source := DepSource d, Dep_Relationship := Relationship d,
                                    Dep_Scopes := AttributedScopes d, Dep_Matched := Matched d,
                                    Dep_PackageRef := PackageRef d, Dep_Licenses := DetectionLicenses L d\<rparr>)))"

definition listed_nodes :: "graph \<Rightarrow> graph_node list" where
  "listed_nodes g = filter (\<lambda>node. Kind node \<noteq> NodeKindManifest) (Graph_Nodes g)"

definition dependenciesOf :: "library \<Rightarrow> graph \<Rightarrow> scan_dependency list option" where
  "dependenciesOf L g =
     those (map (project_dependency L g (set (map NodeID (listed_nodes g)))) (listed_nodes g))"

definition count_severity :: "audit_summary \<Rightarrow> finding \<Rightarrow> audit_summary" where
  "count_severity s f =
     (let rank = SeverityRank (FindingSeverity f) in
      if rank = SeverityRank SeverityCritical then s\<lparr>CriticalCount := CriticalCount s + 1\<rparr>
      else if rank = SeverityRank SeverityHigh then s\<lparr>HighCount := HighCount s + 1\<rparr>
      else if rank = SeverityRank SeverityMedium then s\<lparr>MediumCount := MediumCount s + 1\<rparr>
      else if rank = SeverityRank SeverityLow then s\<lparr>LowCount := LowCount s + 1\<rparr>
      else s\<lparr>UnknownCount := UnknownCount s + 1\<rparr>)"

definition summarize :: "finding list \<Rightarrow> audit_summary" where
  "summarize fs =
     foldl count_severity \<lparr>CriticalCount = 0, HighCount = 0, MediumCount = 0, LowCount = 0, UnknownCount = 0,
       TotalCount = length fs\<rparr> fs"

definition fails_policy :: "finding \<Rightarrow> bool" where
  "fails_policy f \<longleftrightarrow>
     (case FindingPolicyStatusRank (PolicyStatus f) of
        None \<Rightarrow> True
      | Some rank \<Rightarrow> rank \<ge> the (FindingPolicyStatusRank FindingPolicyStatusFail))"

definition VerdictOf :: "finding list \<Rightarrow> verdict" where
  "VerdictOf fs = (if fs = [] then VerdictPass else if list_ex fails_policy fs then VerdictFail else VerdictWarn)"

definition manifest_of_entry ::
  "library \<Rightarrow> (package option, document_assertions) graph_entry \<Rightarrow> scan_manifest option" where
  "manifest_of_entry L e =
     (let m = \<lparr>Man_Path = MetadataPath (EntryManifest e), Man_Kind = MetadataKind (EntryManifest e), Man_Subproject = [],
               Man_Ecosystem = [], Man_PackageManager = [], Man_Detector = [],
               Man_Resolution = Resolution (EntryManifest e), Man_Document = EntryDocument e, Dependencies = []\<rparr>
      in case EntryGraph e of
           None \<Rightarrow> Some m
         | Some g \<Rightarrow> map_option (\<lambda>ds. m\<lparr>Dependencies := ds\<rparr>) (dependenciesOf L g))"

definition FromGraphEntries ::
  "library \<Rightarrow> (package option, document_assertions) graph_entry list \<Rightarrow> package_registry option \<Rightarrow> finding list \<Rightarrow> scan_record option" where
  "FromGraphEntries L entries reg fs =
     (case those (map (manifest_of_entry L) entries) of
        None \<Rightarrow> None
      | Some ms \<Rightarrow>
          (let r = scan_Record_zero\<lparr>Rec_SchemaVersion := SchemaVersion, Rec_Command := ''scan'', Manifests := ms\<rparr>;
               r = (case reg of None \<Rightarrow> r | Some reg \<Rightarrow> r\<lparr>Packages := map Some (Registry_All reg)\<rparr>);
               r = (if fs \<noteq> [] then r\<lparr>Findings := fs, AuditSummary := Some (summarize fs)\<rparr> else r)
           in Some r))"

section \<open>Rebuilding the graph of a record\<close>

datatype graph_of_error = BadDependency string string node_error | BadGraph graph_error

record rebuild =
  rb_graph :: graph
  rb_edges :: "(string \<times> string) list"
  rb_canonical :: "(string, string) gomap"

definition minted_dependency :: "scan_dependency \<Rightarrow> dependency_node \<Rightarrow> dependency_node" where
  "minted_dependency dep n =
     n\<lparr>DepSource := Dep_Source dep, Relationship := Dep_Relationship dep, NodeScopes := Dep_Scopes dep,
       NodeLocs := Dep_Locations dep\<rparr>"

definition mint_node :: "library \<Rightarrow> scan_manifest \<Rightarrow> scan_dependency \<Rightarrow> graph_of_error + graph_node option" where
  "mint_node L m dep =
     (if HasPrefix (Dep_ID dep) ''pkg:''
      then (case NewDependencyNodeFromPURL L (Dep_ID dep) of
              Inl err \<Rightarrow> Inl (BadDependency (Man_Path m) (Dep_ID dep) err)
            | Inr n \<Rightarrow> Inr (Some (DependencyNode (minted_dependency dep n))))
      else (case NewModuleNode L (Man_Path m)
                   (Coordinates_zero\<lparr>PURL := Dep_PURL dep, Name := Dep_Name dep, Version := Dep_Version dep,
                      Ecosystem := Man_Ecosystem m, PackageManager := Man_PackageManager m\<rparr>) of
              Inl err \<Rightarrow> Inr None
            | Inr n \<Rightarrow> Inr (Some (ModuleNode n))))"

definition add_dependency :: "library \<Rightarrow> scan_manifest \<Rightarrow> scan_dependency \<Rightarrow> rebuild \<Rightarrow> graph_of_error + rebuild" where
  "add_dependency L m dep s =
     (case mint_node L m dep of
        Inl err \<Rightarrow> Inl err
      | Inr None \<Rightarrow> Inr s
      | Inr (Some node) \<Rightarrow>
          (case InsertNode L (rb_graph s) (Some node) of
             Inl err \<Rightarrow> Inl (BadGraph err)
           | Inr (g, _) \<Rightarrow>
               Inr \<lparr>rb_graph = g, rb_edges = rb_edges s @ map (Pair (NodeID node)) (DependsOn dep),
                    rb_canonical = mput (Dep_ID dep) (NodeID node) (rb_canonical s)\<rparr>))"

fun add_dependencies :: "library \<Rightarrow> (scan_manifest \<times> scan_dependency) list \<Rightarrow> rebuild \<Rightarrow> graph_of_error + rebuild" where
  "add_dependencies L [] s = Inr s"
| "add_dependencies L ((m, dep) # rest) s =
     (case add_dependency L m dep s of Inl err \<Rightarrow> Inl err | Inr s \<Rightarrow> add_dependencies L rest s)"

fun add_edges :: "(string, string) gomap \<Rightarrow> (string \<times> string) list \<Rightarrow> graph \<Rightarrow> graph_of_error + graph" where
  "add_edges known [] g = Inr g"
| "add_edges known ((a, target) # rest) g =
     (case mget known target of
        None \<Rightarrow> add_edges known rest g
      | Some b \<Rightarrow>
          if a = b then add_edges known rest g
          else (case AddEdge g a b of Inl err \<Rightarrow> Inl (BadGraph err) | Inr g \<Rightarrow> add_edges known rest g))"

definition record_dependencies :: "scan_record \<Rightarrow> (scan_manifest \<times> scan_dependency) list" where
  "record_dependencies r = concat (map (\<lambda>m. map (Pair m) (Dependencies m)) (Manifests r))"

definition graphOf :: "library \<Rightarrow> scan_record \<Rightarrow> graph_of_error + graph" where
  "graphOf L r =
     (case add_dependencies L (record_dependencies r) \<lparr>rb_graph = New, rb_edges = [], rb_canonical = []\<rparr> of
        Inl err \<Rightarrow> Inl err
      | Inr s \<Rightarrow> add_edges (rb_canonical s) (rb_edges s) (rb_graph s))"

section \<open>Comparing two records\<close>

record vulnerability_ref =
  VRefPackage :: string
  VRefID :: string
  VRefSource :: string

record finding_ref =
  FRefID :: string
  FRefPackage :: string
  FRefKind :: string
  FRefVulnerability :: string
  FRefRule :: string

definition findingRefOf :: "finding \<Rightarrow> finding_ref" where
  "findingRefOf f =
     \<lparr>FRefID = FindingID f, FRefPackage = FindingPackageRef f, FRefKind = FindingKind f,
      FRefVulnerability = VulnerabilityID f, FRefRule = RuleID f\<rparr>"

definition FindingRef_key :: "finding_ref \<Rightarrow> string" where
  "FindingRef_key r = Join [FRefID r, FRefPackage r, FRefKind r, FRefVulnerability r, FRefRule r] [CHR 0x00]"

definition index_refs :: "'r list \<Rightarrow> ('r, unit) gomap" where
  "index_refs refs = foldl (\<lambda>m r. mput r () m) [] refs"

definition vulnerability_refs :: "package option list \<Rightarrow> vulnerability_ref list" where
  "vulnerability_refs packages =
     concat (map (\<lambda>p. case p of
         None \<Rightarrow> []
       | Some p \<Rightarrow> map (\<lambda>v. \<lparr>VRefPackage = PURL (PkgCoords p), VRefID = VulnID v, VRefSource = VulnSource v\<rparr>)
                      (Vulnerabilities p)) packages)"

definition vulnerability_ref_key :: "vulnerability_ref \<Rightarrow> string \<times> string \<times> string" where
  "vulnerability_ref_key r = (VRefPackage r, VRefID r, VRefSource r)"

definition refs_beyond :: "('r, unit) gomap \<Rightarrow> ('r, unit) gomap \<Rightarrow> 'r list" where
  "refs_beyond left right = filter (\<lambda>r. mget left r = None) (mkeys right)"

definition vulnerabilityDelta :: "package option list \<Rightarrow> package option list \<Rightarrow> vulnerability_ref list \<times> vulnerability_ref list" where
  "vulnerabilityDelta base head =
     (let left = index_refs (vulnerability_refs base); right = index_refs (vulnerability_refs head)
      in (sort_key vulnerability_ref_key (refs_beyond left right), sort_key vulnerability_ref_key (refs_beyond right left)))"

definition findingDelta :: "finding list \<Rightarrow> finding list \<Rightarrow> finding_ref list \<times> finding_ref list" where
  "findingDelta base head =
     (let left = index_refs (map findingRefOf base); right = index_refs (map findingRefOf head)
      in (sort_key FindingRef_key (refs_beyond left right), sort_key FindingRef_key (refs_beyond right left)))"

record scan_diff =
  DependencyChanges :: graph_diff
  AddedVulnerabilities :: "vulnerability_ref list"
  RemovedVulnerabilities :: "vulnerability_ref list"
  AddedFindings :: "finding_ref list"
  RemovedFindings :: "finding_ref list"

datatype scan_compare_error = BothRequired | BaseRefused graph_of_error | HeadRefused graph_of_error

definition scan_Compare :: "library \<Rightarrow> scan_record option \<Rightarrow> scan_record option \<Rightarrow> (scan_compare_error + scan_diff) option" where
  "scan_Compare L base head =
     (case (base, head) of
        (Some b, Some h) \<Rightarrow>
          (case graphOf L b of
             Inl err \<Rightarrow> Some (Inl (BaseRefused err))
           | Inr gb \<Rightarrow>
               (case graphOf L h of
                  Inl err \<Rightarrow> Some (Inl (HeadRefused err))
                | Inr gh \<Rightarrow>
                    (case Compare L (Some gb) (Some gh) of
                       None \<Rightarrow> None
                     | Some d \<Rightarrow>
                         (let (av, rv) = vulnerabilityDelta (Packages b) (Packages h);
                              (af, rf) = findingDelta (Findings b) (Findings h)
                          in Some (Inr \<lparr>DependencyChanges = d, AddedVulnerabilities = av, RemovedVulnerabilities = rv,
                                        AddedFindings = af, RemovedFindings = rf\<rparr>)))))
      | _ \<Rightarrow> Some (Inl BothRequired))"


section \<open>What the projection and the rebuilt graph hold\<close>

lemma project_dependency_Some:
  "ChildrenAmong (Some g) (NodeID node) P = Some r \<Longrightarrow>
   \<exists>d. project_dependency L g P node = Some d \<and> Dep_ID d = NodeID node \<and> DependsOn d = r"
  by (simp add: project_dependency_def Let_def split: option.split)

lemma project_dependency_ok:
  assumes g: "graph_ok g"
  shows "\<exists>d. project_dependency L g P node = Some d \<and> Dep_ID d = NodeID node \<and> distinct (DependsOn d)
    \<and> set (DependsOn d) = {y \<in> P. \<exists>x. (NodeID node, x) \<in> {(a, b). edge_of g a b \<noteq> None \<and> b \<notin> P}\<^sup>* \<and> edge_of g x y \<noteq> None}"
proof -
  from ChildrenAmong_ok [OF g, where nodeID = "NodeID node" and present = P]
  obtain r where r: "ChildrenAmong (Some g) (NodeID node) P = Some r" "distinct r"
    "set r = {y \<in> P. \<exists>x. (NodeID node, x) \<in> {(a, b). edge_of g a b \<noteq> None \<and> b \<notin> P}\<^sup>* \<and> edge_of g x y \<noteq> None}"
    by (elim exE conjE)
  from project_dependency_Some [OF r(1), where L = L]
  obtain d where d: "project_dependency L g P node = Some d" "Dep_ID d = NodeID node" "DependsOn d = r"
    by (elim exE conjE)
  show ?thesis by (intro exI [of _ d] conjI) (rule d(1), rule d(2), unfold d(3), rule r(2), rule r(3))
qed

lemma listed_ids: "graph_ok g \<Longrightarrow> distinct (map NodeID (listed_nodes g))"
  using Graph_Nodes_sorted [of g] by (simp add: listed_nodes_def distinct_map_filter strict_sorted_iff)

lemma those_Some: "those (map (\<lambda>x. Some (f x)) xs) = Some (map f xs)"
  by (induction xs) auto

lemma dependenciesOf_ok:
  assumes g: "graph_ok g"
  shows "\<exists>ds. dependenciesOf L g = Some ds \<and> map Dep_ID ds = map NodeID (listed_nodes g)
    \<and> (\<forall>d \<in> set ds. distinct (DependsOn d) \<and> set (DependsOn d) = {y \<in> Dep_ID ` set ds.
         \<exists>x. (Dep_ID d, x) \<in> {(a, b). edge_of g a b \<noteq> None \<and> b \<notin> Dep_ID ` set ds}\<^sup>* \<and> edge_of g x y \<noteq> None})"
proof -
  let ?P = "set (map NodeID (listed_nodes g))"
  let ?f = "\<lambda>n. the (project_dependency L g ?P n)"
  let ?ds = "map ?f (listed_nodes g)"
  have f: "project_dependency L g ?P n = Some (?f n)" "Dep_ID (?f n) = NodeID n" "distinct (DependsOn (?f n))"
    "set (DependsOn (?f n)) = {y \<in> ?P. \<exists>x. (NodeID n, x) \<in> {(a, b). edge_of g a b \<noteq> None \<and> b \<notin> ?P}\<^sup>* \<and> edge_of g x y \<noteq> None}" for n
  proof -
    obtain d where d: "project_dependency L g ?P n = Some d" "Dep_ID d = NodeID n" "distinct (DependsOn d)"
      "set (DependsOn d) = {y \<in> ?P. \<exists>x. (NodeID n, x) \<in> {(a, b). edge_of g a b \<noteq> None \<and> b \<notin> ?P}\<^sup>* \<and> edge_of g x y \<noteq> None}"
      using project_dependency_ok [OF g, where P = ?P and node = n and L = L] by (elim exE conjE)
    have e: "?f n = d" by (simp only: d(1) option.sel)
    show "project_dependency L g ?P n = Some (?f n)" "Dep_ID (?f n) = NodeID n" "distinct (DependsOn (?f n))"
      "set (DependsOn (?f n)) = {y \<in> ?P. \<exists>x. (NodeID n, x) \<in> {(a, b). edge_of g a b \<noteq> None \<and> b \<notin> ?P}\<^sup>* \<and> edge_of g x y \<noteq> None}"
      unfolding e by (rule d)+
  qed
  have "map (project_dependency L g ?P) (listed_nodes g) = map (\<lambda>n. Some (?f n)) (listed_nodes g)"
    by (rule map_cong [OF refl], rule f(1))
  then have r: "dependenciesOf L g = Some ?ds"
    unfolding dependenciesOf_def by (simp only: those_Some)
  have ids: "map Dep_ID ?ds = map NodeID (listed_nodes g)" using f(2) by simp
  then have P: "Dep_ID ` set ?ds = ?P" by (metis list.set_map)
  have each: "distinct (DependsOn d) \<and> set (DependsOn d) = {y \<in> ?P.
         \<exists>x. (Dep_ID d, x) \<in> {(a, b). edge_of g a b \<noteq> None \<and> b \<notin> ?P}\<^sup>* \<and> edge_of g x y \<noteq> None}" if d: "d \<in> set ?ds" for d
  proof -
    obtain n where n: "d = ?f n" using d by auto
    show ?thesis unfolding n f(2) using f(3,4) by blast
  qed
  show ?thesis
  proof (rule exI [of _ ?ds], rule conjI [OF r], rule conjI [OF ids], rule ballI)
    fix d assume "d \<in> set ?ds"
    then show "distinct (DependsOn d) \<and> set (DependsOn d) = {y \<in> Dep_ID ` set ?ds.
         \<exists>x. (Dep_ID d, x) \<in> {(a, b). edge_of g a b \<noteq> None \<and> b \<notin> Dep_ID ` set ?ds}\<^sup>* \<and> edge_of g x y \<noteq> None}"
      unfolding P by (rule each)
  qed
qed

text \<open>The nodes a record mints, each with the dependency it stands for, in the order of the record.\<close>

definition minted_nodes :: "library \<Rightarrow> (scan_manifest \<times> scan_dependency) list \<Rightarrow> (scan_dependency \<times> graph_node) list" where
  "minted_nodes L pairs =
     List.map_filter (\<lambda>(m, d). case mint_node L m d of Inr (Some n) \<Rightarrow> Some (d, n) | _ \<Rightarrow> None) pairs"

definition name_minted :: "(string, string) gomap \<Rightarrow> (scan_dependency \<times> graph_node) list \<Rightarrow> (string, string) gomap" where
  "name_minted = foldl (\<lambda>m (d, n). mput (Dep_ID d) (NodeID n) m)"

definition stated_edges :: "(scan_dependency \<times> graph_node) list \<Rightarrow> (string \<times> string) list" where
  "stated_edges mn = concat (map (\<lambda>(d, n). map (Pair (NodeID n)) (DependsOn d)) mn)"

definition rebuild_ok :: "library \<Rightarrow> rebuild \<Rightarrow> rebuild \<Rightarrow> (scan_dependency \<times> graph_node) list \<Rightarrow> bool" where
  "rebuild_ok L s t mn \<longleftrightarrow> reachable_graph L (rb_graph t)
     \<and> Node (rb_graph t) = foldl (witness_into L) (Node (rb_graph s)) (map snd mn)
     \<and> edge_of (rb_graph t) = edge_of (rb_graph s) \<and> rb_edges t = rb_edges s @ stated_edges mn
     \<and> rb_canonical t = name_minted (rb_canonical s) mn"

lemma add_dependency_cases:
  assumes r: "reachable_graph L (rb_graph s)"
  shows "(\<exists>err. mint_node L m d = Inl err \<and> add_dependency L m d s = Inl err)
    \<or> (\<exists>n. mint_node L m d = Inr (Some n) \<and> NodeID n = [] \<and> add_dependency L m d s = Inl (BadGraph ErrEmptyNodeID))
    \<or> (\<exists>t. add_dependency L m d s = Inr t \<and> rebuild_ok L s t (minted_nodes L [(m, d)]))"
proof (cases "mint_node L m d")
  case (Inr node)
  show ?thesis
  proof (cases node)
    case None
    then show ?thesis using Inr r
      by (simp add: add_dependency_def rebuild_ok_def minted_nodes_def map_filter_simps stated_edges_def name_minted_def)
  next
    case (Some n)
    show ?thesis
    proof (cases "NodeID n = []")
      case True
      then show ?thesis using Inr Some by (simp add: add_dependency_def InsertNode_def)
    next
      case False
      obtain g2 where g2: "InsertNode L (rb_graph s) (Some n) = Inr (g2, witnessed L (rb_graph s) n)"
        "Node g2 = (Node (rb_graph s))(NodeID n := Some (witnessed L (rb_graph s) n))" "edge_of g2 = edge_of (rb_graph s)"
        using InsertNode_abs [OF reachable_graph_ok [OF r] False, of L] by blast
      have "reachable_graph L g2" by (rule reachable_step [OF r step_insert [OF g2(1)]])
      with g2 Inr Some show ?thesis
        by (simp add: add_dependency_def rebuild_ok_def minted_nodes_def map_filter_simps stated_edges_def
            name_minted_def witness_into_def witnessed_def)
    qed
  qed
qed (simp add: add_dependency_def)

lemma rebuild_ok_trans: "rebuild_ok L s t mn \<Longrightarrow> rebuild_ok L t u mn' \<Longrightarrow> rebuild_ok L s u (mn @ mn')"
  by (simp add: rebuild_ok_def stated_edges_def name_minted_def)

lemma minted_nodes_Cons: "minted_nodes L (p # ps) = minted_nodes L [p] @ minted_nodes L ps"
  by (simp add: minted_nodes_def map_filter_simps split: option.split)

lemma add_dependencies_cases:
  "reachable_graph L (rb_graph s) \<Longrightarrow>
    (\<exists>m d err. (m, d) \<in> set ps \<and> mint_node L m d = Inl err \<and> add_dependencies L ps s = Inl err)
    \<or> (\<exists>m d n. (m, d) \<in> set ps \<and> mint_node L m d = Inr (Some n) \<and> NodeID n = []
         \<and> add_dependencies L ps s = Inl (BadGraph ErrEmptyNodeID))
    \<or> (\<exists>t. add_dependencies L ps s = Inr t \<and> rebuild_ok L s t (minted_nodes L ps))"
proof (induction ps arbitrary: s)
  case Nil
  then show ?case by (simp add: rebuild_ok_def minted_nodes_def map_filter_simps stated_edges_def name_minted_def)
next
  case (Cons p ps)
  obtain m d where p: "p = (m, d)" by (cases p)
  consider (bad) err where "mint_node L m d = Inl err" "add_dependency L m d s = Inl err"
    | (nameless) n where "mint_node L m d = Inr (Some n)" "NodeID n = []" "add_dependency L m d s = Inl (BadGraph ErrEmptyNodeID)"
    | (added) t where "add_dependency L m d s = Inr t" "rebuild_ok L s t (minted_nodes L [(m, d)])"
    using add_dependency_cases [OF Cons.prems, of m d] by blast
  then show ?case
  proof cases
    case bad
    then show ?thesis unfolding p by (intro disjI1) (rule exI [of _ m], rule exI [of _ d], simp)
  next
    case nameless
    show ?thesis unfolding p using nameless by - (rule disjI2, rule disjI1, rule exI [of _ m], rule exI [of _ d], simp)
  next
    case added
    have t: "reachable_graph L (rb_graph t)" using added(2) by (simp add: rebuild_ok_def)
    have eq: "add_dependencies L (p # ps) s = add_dependencies L ps t" using added(1) by (simp add: p)
    have trans: "rebuild_ok L s u (minted_nodes L (p # ps))" if "rebuild_ok L t u (minted_nodes L ps)" for u
      unfolding minted_nodes_Cons [of L p ps] unfolding p by (rule rebuild_ok_trans [OF added(2) that])
    show ?thesis unfolding eq using Cons.IH [OF t] trans by (metis list.set_intros(2))
  qed
qed

lemma add_edges_ok:
  "reachable_graph L g \<Longrightarrow> \<forall>(a, t) \<in> set es. Node g a \<noteq> None \<Longrightarrow> \<forall>t b. mget known t = Some b \<longrightarrow> Node g b \<noteq> None \<Longrightarrow>
   \<exists>h. add_edges known es g = Inr h \<and> reachable_graph L h \<and> Node h = Node g
     \<and> (\<forall>x y. edge_of h x y \<noteq> None \<longleftrightarrow> edge_of g x y \<noteq> None \<or> (x \<noteq> y \<and> (\<exists>t. (x, t) \<in> set es \<and> mget known t = Some y)))"
proof (induction es arbitrary: g)
  case (Cons e es)
  obtain a t where e: "e = (a, t)" by (cases e)
  show ?case
  proof (cases "mget known t = None \<or> mget known t = Some a")
    case True
    then have "add_edges known (e # es) g = add_edges known es g" by (auto simp: e)
    moreover obtain h where "add_edges known es g = Inr h" "reachable_graph L h" "Node h = Node g"
      "\<forall>x y. edge_of h x y \<noteq> None \<longleftrightarrow> edge_of g x y \<noteq> None \<or> (x \<noteq> y \<and> (\<exists>t. (x, t) \<in> set es \<and> mget known t = Some y))"
      using Cons.IH [OF Cons.prems(1) _ Cons.prems(3)] Cons.prems(2) by auto
    ultimately show ?thesis using True by (intro exI [of _ h]) (auto simp: e)
  next
    case False
    then obtain b where b: "mget known t = Some b" "b \<noteq> a" by auto
    have n: "Node g a \<noteq> None" "Node g b \<noteq> None" using Cons.prems(2,3) b by (auto simp: e)
    obtain g2 where g2: "AddTypedEdge g a b EdgeKindUnknown = Inr g2" "Node g2 = Node g"
      "edge_of g2 = (\<lambda>x y. if x = a \<and> y = b then Some (edge_result g a b EdgeKindUnknown) else edge_of g x y)"
      using AddTypedEdge_abs [OF reachable_graph_ok [OF Cons.prems(1)] _ n] b(2) by metis
    have r: "reachable_graph L g2" by (rule reachable_step [OF Cons.prems(1) step_link [OF g2(1)]])
    have eq: "add_edges known (e # es) g = add_edges known es g2" using b g2(1) by (simp add: e AddEdge_def)
    obtain h where h: "add_edges known es g2 = Inr h" "reachable_graph L h" "Node h = Node g2"
      "\<forall>x y. edge_of h x y \<noteq> None \<longleftrightarrow> edge_of g2 x y \<noteq> None \<or> (x \<noteq> y \<and> (\<exists>t. (x, t) \<in> set es \<and> mget known t = Some y))"
      using Cons.IH [OF r] Cons.prems(2,3) unfolding g2(2) by auto
    have "edge_of h x y \<noteq> None \<longleftrightarrow> edge_of g x y \<noteq> None \<or> (x \<noteq> y \<and> (\<exists>t. (x, t) \<in> set (e # es) \<and> mget known t = Some y))" for x y
    proof -
      have "edge_of g2 x y \<noteq> None \<longleftrightarrow> (x = a \<and> y = b) \<or> edge_of g x y \<noteq> None" unfolding g2(3) by auto
      then show ?thesis using h(4) b by (auto simp: e)
    qed
    then show ?thesis using h(1-3) unfolding eq g2(2) by blast
  qed
qed simp

lemma stated_edges_set: "(a, t) \<in> set (stated_edges mn) \<longleftrightarrow> (\<exists>(d, n) \<in> set mn. NodeID n = a \<and> t \<in> set (DependsOn d))"
  by (auto simp: stated_edges_def)

lemma name_minted_values: "mget (name_minted m mn) t = Some b \<Longrightarrow> mget m t = Some b \<or> b \<in> NodeID ` set (map snd mn)"
  by (induction mn arbitrary: m) (fastforce simp: name_minted_def gomap_simps split: if_splits)+

text \<open>The rebuilt graph, with what its nodes and edges are.\<close>

definition rebuilt :: "library \<Rightarrow> scan_record \<Rightarrow> graph \<Rightarrow> bool" where
  "rebuilt L r g \<longleftrightarrow>
     (let mn = minted_nodes L (record_dependencies r) in
      reachable_graph L g \<and> Node g = foldl (witness_into L) (\<lambda>_. None) (map snd mn)
      \<and> (\<forall>a b. edge_of g a b \<noteq> None \<longleftrightarrow> a \<noteq> b \<and> (\<exists>(d, n) \<in> set mn. NodeID n = a
            \<and> (\<exists>t \<in> set (DependsOn d). mget (name_minted [] mn) t = Some b))))"

lemma graphOf_cases:
  "(\<exists>m d err. (m, d) \<in> set (record_dependencies r) \<and> mint_node L m d = Inl err \<and> graphOf L r = Inl err)
   \<or> (\<exists>m d n. (m, d) \<in> set (record_dependencies r) \<and> mint_node L m d = Inr (Some n) \<and> NodeID n = []
        \<and> graphOf L r = Inl (BadGraph ErrEmptyNodeID))
   \<or> (\<exists>g. graphOf L r = Inr g \<and> rebuilt L r g)"
proof -
  let ?s = "\<lparr>rb_graph = New, rb_edges = [], rb_canonical = []\<rparr>"
  let ?ps = "record_dependencies r"
  let ?mn = "minted_nodes L ?ps"
  have s: "reachable_graph L (rb_graph ?s)" by (simp add: reachable_New)
  have ok: "\<exists>g. graphOf L r = Inr g \<and> rebuilt L r g" if t: "add_dependencies L ?ps ?s = Inr t" "rebuild_ok L ?s t ?mn" for t
  proof -
    have g: "reachable_graph L (rb_graph t)" and n: "Node (rb_graph t) = foldl (witness_into L) (\<lambda>_. None) (map snd ?mn)"
      and e: "edge_of (rb_graph t) = (\<lambda>_ _. None)" and es: "rb_edges t = stated_edges ?mn"
      and c: "rb_canonical t = name_minted [] ?mn"
      using t(2) New_abs by (simp_all add: rebuild_ok_def)
    have d: "Node (rb_graph t) x \<noteq> None \<longleftrightarrow> x \<in> NodeID ` set (map snd ?mn)" for x
      unfolding n using dom_witness_all [of L "\<lambda>_. None" "map snd ?mn"] by (metis domIff dom_empty sup_bot_left)
    have from_ok: "\<forall>(a, t') \<in> set (stated_edges ?mn). Node (rb_graph t) a \<noteq> None"
      unfolding d by (force simp: stated_edges_set)
    have to_ok: "\<forall>t' b. mget (name_minted [] ?mn) t' = Some b \<longrightarrow> Node (rb_graph t) b \<noteq> None"
      unfolding d using name_minted_values [of "[]" ?mn] by auto
    from add_edges_ok [OF g from_ok to_ok] obtain h where
      h: "add_edges (name_minted [] ?mn) (stated_edges ?mn) (rb_graph t) = Inr h" "reachable_graph L h"
        "Node h = Node (rb_graph t)"
      and he: "\<forall>x y. edge_of h x y \<noteq> None \<longleftrightarrow> edge_of (rb_graph t) x y \<noteq> None
        \<or> (x \<noteq> y \<and> (\<exists>t. (x, t) \<in> set (stated_edges ?mn) \<and> mget (name_minted [] ?mn) t = Some y))"
      by (elim exE conjE)
    have "graphOf L r = Inr h" using t(1) h(1) by (simp add: graphOf_def es c)
    moreover have "rebuilt L r h"
      unfolding rebuilt_def Let_def h(3) n using h(2) he unfolding e stated_edges_set by (auto simp: case_prod_beta')
    ultimately show ?thesis by blast
  qed
  have bad: "graphOf L r = Inl err" if "add_dependencies L ?ps ?s = Inl err" for err using that by (simp add: graphOf_def)
  show ?thesis using add_dependencies_cases [OF s, of ?ps] ok bad by metis
qed

section \<open>What the deltas hold\<close>

lemma index_refs_keys: "set (mkeys (index_refs refs)) = set refs" "gomap_ok (index_refs refs)"
proof -
  have "set (mkeys (foldl (\<lambda>m r. mput r () m) m refs)) = set (mkeys m) \<union> set refs
      \<and> (gomap_ok m \<longrightarrow> gomap_ok (foldl (\<lambda>m r. mput r () m) m refs))" for m
  proof (induction refs arbitrary: m)
    case (Cons r refs)
    have "set (mkeys (foldl (\<lambda>m r. mput r () m) m (r # refs))) = insert r (set (mkeys m)) \<union> set refs"
      unfolding foldl.simps conjunct1 [OF Cons.IH] set_mkeys_mput ..
    then show ?case using Cons.IH [of "mput r () m"] by auto
  qed simp
  then show "set (mkeys (index_refs refs)) = set refs" "gomap_ok (index_refs refs)" by (simp_all add: index_refs_def)
qed

lemma refs_beyond_spec:
  "distinct (refs_beyond (index_refs xs) (index_refs ys)) \<and> set (refs_beyond (index_refs xs) (index_refs ys)) = set ys - set xs"
  using index_refs_keys [of xs] index_refs_keys [of ys]
  by (auto simp: refs_beyond_def mget_None_mkeys gomap_ok_def)

lemma Compare_total: "graph_ok g \<Longrightarrow> graph_ok h \<Longrightarrow> \<exists>d. Compare L (Some g) (Some h) = Some d"
  using dependencyRelationshipsForGraph_total [of g] dependencyRelationshipsForGraph_total [of h]
  by (auto simp: Compare_def Let_def)

section \<open>Verdicts, summaries and commits\<close>

lemma VerdictOf_cases:
  "VerdictOf fs = (if \<exists>f \<in> set fs. PolicyStatus f \<notin> {FindingPolicyStatusWarn, FindingPolicyStatusSuppressed} then VerdictFail
     else if fs = [] then VerdictPass else VerdictWarn)"
proof -
  have "fails_policy f \<longleftrightarrow> PolicyStatus f \<notin> {FindingPolicyStatusWarn, FindingPolicyStatusSuppressed}" for f
    by (simp add: fails_policy_def FindingPolicyStatusRank_def)
  then have "list_ex fails_policy fs \<longleftrightarrow> (\<exists>f \<in> set fs. PolicyStatus f \<notin> {FindingPolicyStatusWarn, FindingPolicyStatusSuppressed})"
    by (simp add: list_ex_iff)
  then show ?thesis by (cases fs) (simp_all only: VerdictOf_def, auto)
qed

lemma severity_ranks: "SeverityRank SeverityCritical = 4" "SeverityRank SeverityHigh = 3"
  "SeverityRank SeverityMedium = 2" "SeverityRank SeverityLow = 1"
  by code_simp+

lemma severity_rank_le: "SeverityRank s \<le> 4"
  by (simp add: SeverityRank_def Let_def)

definition in_band :: "nat \<Rightarrow> finding list \<Rightarrow> nat" where
  "in_band rank fs = length (filter (\<lambda>f. SeverityRank (FindingSeverity f) = rank) fs)"

lemma foldl_count_severity:
  "CriticalCount (foldl count_severity s fs) = CriticalCount s + in_band 4 fs
   \<and> HighCount (foldl count_severity s fs) = HighCount s + in_band 3 fs
   \<and> MediumCount (foldl count_severity s fs) = MediumCount s + in_band 2 fs
   \<and> LowCount (foldl count_severity s fs) = LowCount s + in_band 1 fs
   \<and> UnknownCount (foldl count_severity s fs) = UnknownCount s + in_band 0 fs
   \<and> TotalCount (foldl count_severity s fs) = TotalCount s"
proof (induction fs arbitrary: s)
  case (Cons f fs)
  have "SeverityRank (FindingSeverity f) \<in> {0, 1, 2, 3, 4}" using severity_rank_le [of "FindingSeverity f"] by force
  then show ?case using Cons.IH [of "count_severity s f"]
    by (auto simp: count_severity_def in_band_def severity_ranks)
qed (simp add: in_band_def)

lemma summarize_bands:
  "CriticalCount (summarize fs) = in_band 4 fs \<and> HighCount (summarize fs) = in_band 3 fs
   \<and> MediumCount (summarize fs) = in_band 2 fs \<and> LowCount (summarize fs) = in_band 1 fs
   \<and> UnknownCount (summarize fs) = in_band 0 fs \<and> TotalCount (summarize fs) = length fs"
  using foldl_count_severity by (simp add: summarize_def)

lemma NormalizeCommitSHA_shape:
  "NormalizeCommitSHA v = [] \<or> (list_all hex_digit (NormalizeCommitSHA v) \<and> length (NormalizeCommitSHA v) \<in> {7..64})"
  by (auto simp: NormalizeCommitSHA_def Let_def)

lemma distinct_single: "distinct xs \<Longrightarrow> set xs = {a} \<Longrightarrow> xs = [a]"
proof (cases xs)
  case (Cons x ys)
  assume "distinct xs" "set xs = {a}"
  with Cons have "x = a" "set ys \<subseteq> {a}" "x \<notin> set ys" by auto
  then show ?thesis using Cons by (cases ys) auto
qed simp

section \<open>Properties\<close>

text \<open>C32. The dependencies of a manifest: one per module or dependency node of its graph, named by
  the node's ID and without repetition; the edges of each name only dependencies the manifest lists,
  exactly the ones its node reaches by an edge after stepping through nodes that are not listed.\<close>

theorem dependenciesOf_spec:
  assumes "reachable_graph L g"
  shows "\<exists>ds. dependenciesOf L g = Some ds \<and> distinct (map Dep_ID ds)
    \<and> map Dep_ID ds = map NodeID (filter (\<lambda>n. Kind n \<noteq> NodeKindManifest) (Graph_Nodes g))
    \<and> (\<forall>d \<in> set ds. distinct (DependsOn d) \<and> set (DependsOn d) = {y \<in> Dep_ID ` set ds.
         \<exists>x. (Dep_ID d, x) \<in> {(a, b). edge_of g a b \<noteq> None \<and> b \<notin> Dep_ID ` set ds}\<^sup>* \<and> edge_of g x y \<noteq> None})"
proof -
  have g: "graph_ok g" by (rule reachable_graph_ok [OF assms])
  from dependenciesOf_ok [OF g, where L = L] obtain ds where ds: "dependenciesOf L g = Some ds"
    "map Dep_ID ds = map NodeID (listed_nodes g)"
    and each: "\<forall>d \<in> set ds. distinct (DependsOn d) \<and> set (DependsOn d) = {y \<in> Dep_ID ` set ds.
         \<exists>x. (Dep_ID d, x) \<in> {(a, b). edge_of g a b \<noteq> None \<and> b \<notin> Dep_ID ` set ds}\<^sup>* \<and> edge_of g x y \<noteq> None}"
    by (elim exE conjE)
  have "distinct (map Dep_ID ds)" unfolding ds(2) by (rule listed_ids [OF g])
  with ds each show ?thesis unfolding listed_nodes_def by (intro exI [of _ ds] conjI)
qed

theorem dependenciesOf_spec_witness:
  "\<exists>ds. dependenciesOf plain_library sample_graph = Some ds \<and> map Dep_ID ds = [''a'', ''b''] \<and> distinct (map Dep_ID ds)"
proof -
  from dependenciesOf_spec [OF sample_graph_reachable [where L = plain_library]] obtain ds where
    ds: "dependenciesOf plain_library sample_graph = Some ds" "distinct (map Dep_ID ds)"
      "map Dep_ID ds = map NodeID (filter (\<lambda>n. Kind n \<noteq> NodeKindManifest) (Graph_Nodes sample_graph))"
    by (elim exE conjE)
  have "map NodeID (filter (\<lambda>n. Kind n \<noteq> NodeKindManifest) (Graph_Nodes sample_graph)) = [''a'', ''b'']" by code_simp
  with ds show ?thesis by (intro exI [of _ ds]) simp
qed

text \<open>C33. The graph a record is rebuilt into: it is a graph the operations build, its nodes are the
  ones the record mints folded by identity, and its edges are the ones the record states, read by the
  name each dependency was minted under; no self edge is kept. The only refusals are a package URL
  that names no dependency and a node without an ID.\<close>

theorem graphOf_spec:
  "case graphOf L r of
     Inl err \<Rightarrow> \<exists>m d. (m, d) \<in> set (record_dependencies r) \<and> (mint_node L m d = Inl err
         \<or> err = BadGraph ErrEmptyNodeID \<and> (\<exists>n. mint_node L m d = Inr (Some n) \<and> NodeID n = []))
   | Inr g \<Rightarrow> reachable_graph L g
       \<and> Node g = foldl (witness_into L) (\<lambda>_. None) (map snd (minted_nodes L (record_dependencies r)))
       \<and> (\<forall>a b. edge_of g a b \<noteq> None \<longleftrightarrow> a \<noteq> b \<and> (\<exists>(d, n) \<in> set (minted_nodes L (record_dependencies r)). NodeID n = a
            \<and> (\<exists>t \<in> set (DependsOn d). mget (name_minted [] (minted_nodes L (record_dependencies r))) t = Some b)))"
  using graphOf_cases [of r L] unfolding rebuilt_def Let_def by (elim disjE exE conjE) (auto simp del: not_None_eq)

text \<open>C34. Comparing two records: the dependency changes are the ones the graph comparison reports
  for the rebuilt graphs; the advisories and findings added are exactly the ones the head names and
  the base does not, the ones removed the converse, each once and in order; comparing the other way
  round swaps the two.\<close>

theorem scan_Compare_spec:
  assumes "graphOf L b = Inr gb" "graphOf L h = Inr gh"
  shows "\<exists>d e. scan_Compare L (Some b) (Some h) = Some (Inr d) \<and> scan_Compare L (Some h) (Some b) = Some (Inr e)
    \<and> Compare L (Some gb) (Some gh) = Some (DependencyChanges d)
    \<and> set (AddedVulnerabilities d) = set (vulnerability_refs (Packages h)) - set (vulnerability_refs (Packages b))
    \<and> distinct (AddedVulnerabilities d) \<and> sorted (map vulnerability_ref_key (AddedVulnerabilities d))
    \<and> set (AddedFindings d) = findingRefOf ` set (Findings h) - findingRefOf ` set (Findings b)
    \<and> distinct (AddedFindings d) \<and> sorted (map FindingRef_key (AddedFindings d))
    \<and> AddedVulnerabilities e = RemovedVulnerabilities d \<and> RemovedVulnerabilities e = AddedVulnerabilities d
    \<and> AddedFindings e = RemovedFindings d \<and> RemovedFindings e = AddedFindings d"
proof -
  have ok: "graph_ok gb" "graph_ok gh"
    using graphOf_cases [of b L] graphOf_cases [of h L] assms by (auto simp: rebuilt_def Let_def intro: reachable_graph_ok)
  obtain x y where c: "Compare L (Some gb) (Some gh) = Some x" "Compare L (Some gh) (Some gb) = Some y"
    using Compare_total ok by blast
  show ?thesis
    using assms c refs_beyond_spec [of "vulnerability_refs (Packages b)" "vulnerability_refs (Packages h)"]
      refs_beyond_spec [of "map findingRefOf (Findings b)" "map findingRefOf (Findings h)"]
    by (simp add: scan_Compare_def vulnerabilityDelta_def findingDelta_def Let_def)
qed

definition sample_finding :: "string \<Rightarrow> string \<Rightarrow> finding" where
  "sample_finding i p =
     \<lparr>FindingID = i, FindingKind = ''vulnerability'', FindingTitle = [], FindingSeverity = SeverityHigh, PolicyStatus = [],
      FindingReasons = [], FindingSource = [], Auditor = [], RuleID = [], VexStatus = [], VEXJustification = [],
      FindingPackageRef = p, FindingDependencyRefs = [], VulnerabilityID = i, Decision = None\<rparr>"

theorem scan_Compare_spec_witness:
  "\<exists>d. scan_Compare plain_library (Some scan_Record_zero) (Some (scan_Record_zero\<lparr>Findings := [sample_finding ''CVE-1'' ''p'']\<rparr>))
        = Some (Inr d) \<and> map FRefID (AddedFindings d) = [''CVE-1'']"
proof -
  let ?h = "scan_Record_zero\<lparr>Findings := [sample_finding ''CVE-1'' ''p'']\<rparr>"
  have b: "graphOf plain_library scan_Record_zero = Inr New" by code_simp
  have h: "graphOf plain_library ?h = Inr New" by code_simp
  from scan_Compare_spec [OF b h] obtain d where d: "scan_Compare plain_library (Some scan_Record_zero) (Some ?h) = Some (Inr d)"
    "set (AddedFindings d) = findingRefOf ` set (Findings ?h) - findingRefOf ` set (Findings scan_Record_zero)" "distinct (AddedFindings d)"
    by (elim exE conjE)
  have "set (AddedFindings d) = {findingRefOf (sample_finding ''CVE-1'' ''p'')}" using d(2) by (simp add: scan_Record_zero_def)
  from distinct_single [OF d(3) this] have "map FRefID (AddedFindings d) = [''CVE-1'']"
    by (simp add: findingRefOf_def sample_finding_def)
  with d(1) show ?thesis by (intro exI [of _ d] conjI)
qed

end
