(* ===== verification/Wire.thy ===== *)
theory Wire
  imports Registry Views
begin

text \<open>
  The transport form of graphs and registries, \<^verbatim>\<open>model/json.go\<close>: the flat node record, its decoding
  through the constructor gates and its encoding, the graph codec with its decode bounds, and the
  registry codec. A payload is modelled as the decoder meets it: its size, whether it is \<open>null\<close> or
  an object, the members of the object in order, each member's value, and for an element of an array
  what \<open>json.Decoder\<close> reads it into; the text of a value and the codecs of the field types of a node
  are not, the package manager's apart.
\<close>

section \<open>Package managers\<close>

definition PackageManager_MarshalJSON :: "package_manager \<Rightarrow> string" where
  "PackageManager_MarshalJSON p =
     (case ParsePackageManager p of Inr manager \<Rightarrow> PackageManager_Name manager | Inl _ \<Rightarrow> PackageManager_Name p)"

definition PackageManager_UnmarshalJSON :: "string \<Rightarrow> vocabulary_error + package_manager" where
  "PackageManager_UnmarshalJSON s = (if s = [] then Inr [] else ParsePackageManager s)"

section \<open>The node record\<close>

record node_wire =
  W_Kind :: node_kind
  W_ID :: string
  W_Coords :: coordinates
  W_FirstParty :: bool
  W_Relationship :: relationship
  W_Source :: dependency_source
  W_Scopes :: "scope list"
  W_SourceScope :: string
  W_Locations :: "package_location list"
  W_Claims :: assertions
  W_FoundBy :: string
  W_ResolvedURL :: string
  W_Origin :: "dependency_origin option"
  W_Origins :: "dependency_origin list"
  W_DeclaringManifestPath :: string
  W_ManifestKind :: string
  W_Metadata :: metadata
  W_Matched :: bool
  W_PackageRef :: string

definition Wire_zero :: node_wire where
  "Wire_zero =
     \<lparr>W_Kind = [], W_ID = [], W_Coords = Coordinates_zero, W_FirstParty = False, W_Relationship = [], W_Source = [],
      W_Scopes = [], W_SourceScope = [], W_Locations = [], W_Claims = Assertions_zero, W_FoundBy = [], W_ResolvedURL = [],
      W_Origin = None, W_Origins = [], W_DeclaringManifestPath = [], W_ManifestKind = [], W_Metadata = [],
      W_Matched = False, W_PackageRef = []\<rparr>"

datatype wire_error =
    PayloadTooLarge string | NotAnObject | KeyRepeated string | MemberUnreadable string | NotAnArray string
  | ElementUnreadable string nat | TrailingData | UnknownNodeKind string | NodeRefused string node_error
  | NoDeclaringManifestPath string | InsertRefused graph_error | WireIDReused string string string
  | UnknownEndpoint string string | WrongNodeKind node_kind

definition wireKind :: "node_wire \<Rightarrow> wire_error + node_kind" where
  "wireKind w =
     (if W_Kind w \<noteq> []
      then (case ParseNodeKind (W_Kind w) of Inl _ \<Rightarrow> Inl (UnknownNodeKind (W_Kind w)) | Inr kind \<Rightarrow> Inr kind)
      else if EqualFold_ascii (TrimSpace (PkgType (W_Coords w))) PackageTypeManifest then Inr NodeKindManifest
      else if W_FirstParty w then Inr NodeKindModule
      else Inr NodeKindDependency)"

definition wireOrigins :: "library \<Rightarrow> node_wire \<Rightarrow> dependency_origin list" where
  "wireOrigins L w = MergeOrigins L (case W_Origin w of None \<Rightarrow> [] | Some origin \<Rightarrow> [origin]) (W_Origins w)"

definition first_real_path :: "package_location list \<Rightarrow> string option" where
  "first_real_path ls = map_option RealPath (List.find (\<lambda>l. TrimSpace (RealPath l) \<noteq> []) ls)"

definition manifestPath :: "node_wire \<Rightarrow> string" where
  "manifestPath w =
     (let trimmed = TrimPrefix (W_ID w) manifestIDPrefix in
      if trimmed \<noteq> W_ID w \<and> TrimSpace trimmed \<noteq> [] then trimmed
      else if W_DeclaringManifestPath w \<noteq> [] then W_DeclaringManifestPath w
      else (case first_real_path (W_Locations w) of Some path \<Rightarrow> path | None \<Rightarrow> Name (W_Coords w)))"

definition decodeManifestNode :: "node_wire \<Rightarrow> wire_error + manifest_node" where
  "decodeManifestNode w =
     (case NewManifestNode (manifestPath w) (W_ManifestKind w) of
        Inl err \<Rightarrow> Inl (NodeRefused (W_ID w) err)
      | Inr n \<Rightarrow> Inr (n\<lparr>ManifestMeta := W_Metadata w\<rparr>))"

definition decodeModuleNode :: "library \<Rightarrow> node_wire \<Rightarrow> wire_error + module_node" where
  "decodeModuleNode L w =
     (let declaring = (if W_DeclaringManifestPath w \<noteq> [] then W_DeclaringManifestPath w
                       else (case first_real_path (W_Locations w) of Some path \<Rightarrow> path | None \<Rightarrow> []))
      in if declaring = [] then Inl (NoDeclaringManifestPath (W_ID w))
         else (case NewModuleNode L declaring (W_Coords w) of
                 Inl err \<Rightarrow> Inl (NodeRefused (W_ID w) err)
               | Inr n \<Rightarrow> Inr (n\<lparr>ModuleLocations := W_Locations w, ModuleMeta := W_Metadata w\<rparr>)))"

definition canonicalScopeSet :: "scope list \<Rightarrow> scope list" where
  "canonicalScopeSet scopes = (if scopes = [] then [] else remdups_adj (sort scopes))"

definition gated_claims :: "library \<Rightarrow> assertions \<Rightarrow> assertions" where
  "gated_claims L a =
     a\<lparr>CPEs := normalizedCPEs (CPEs a), Digests := mergeDigestSet L [] (Digests a), Copyright := NormalizeCopyright (Copyright a),
       Licenses := MergeLicenses L [] (Licenses a), ExternalReferences := MergeExternalReferences L [] (ExternalReferences a),
       Description := NormalizeDescription (Description a), Homepage := NormalizeHomepage L (Homepage a),
       Supplier := normalizedContact L (Supplier a), Originator := normalizedContact L (Originator a)\<rparr>"

definition decodeDependencyNode :: "library \<Rightarrow> node_wire \<Rightarrow> wire_error + dependency_node" where
  "decodeDependencyNode L w =
     (case newDependencyNode L (W_Coords w) (TrimSpace (PURL (W_Coords w))) of
        Inl err \<Rightarrow> Inl (NodeRefused (W_ID w) err)
      | Inr n \<Rightarrow>
          Inr (n\<lparr>Relationship := W_Relationship w, DepSource := W_Source w, NodeScopes := canonicalScopeSet (W_Scopes w),
                 SourceScope := NormalizeSourceScope (W_SourceScope w), NodeLocs := W_Locations w,
                 Claims := gated_claims L (W_Claims w), FoundBy := W_FoundBy w, ResolvedURL := W_ResolvedURL w,
                 Origins := MergeOrigins L (Origins n) (wireOrigins L w),
                 Metadata := foldl (\<lambda>m (k, v). mput k v m) (Metadata n) (W_Metadata w),
                 Matched := W_Matched w, PackageRef := W_PackageRef w\<rparr>))"

definition decodeNode :: "library \<Rightarrow> node_wire \<Rightarrow> wire_error + graph_node" where
  "decodeNode L w =
     (case wireKind w of
        Inl err \<Rightarrow> Inl err
      | Inr kind \<Rightarrow>
          if kind = NodeKindManifest then map_sum id ManifestNode (decodeManifestNode w)
          else if kind = NodeKindModule then map_sum id ModuleNode (decodeModuleNode L w)
          else map_sum id DependencyNode (decodeDependencyNode L w))"

text \<open>\<open>path.Base\<close>.\<close>

definition path_Base :: "string \<Rightarrow> string" where
  "path_Base p =
     (if p = [] then ''.''
      else (let p = rev (dropWhile (\<lambda>c. c = CHR ''/'') (rev p)) in
            if p = [] then ''/'' else last (split_on CHR ''/'' p)))"

fun encodeNodeWire :: "library \<Rightarrow> graph_node \<Rightarrow> node_wire" where
  "encodeNodeWire L (ManifestNode n) =
     Wire_zero\<lparr>W_Kind := NodeKindManifest, W_ID := manifest_id n,
       W_Coords := Coordinates_zero\<lparr>PkgType := PackageTypeManifest, Name := path_Base (ManifestPath n)\<rparr>,
       W_ManifestKind := FileKind n, W_Locations := NodeLocations (ManifestNode n), W_Metadata := ManifestMeta n\<rparr>"
| "encodeNodeWire L (ModuleNode n) =
     Wire_zero\<lparr>W_Kind := NodeKindModule, W_ID := module_id n, W_Coords := (ModuleCoords n)\<lparr>PURL := module_purl n\<rparr>,
       W_FirstParty := True, W_DeclaringManifestPath := DeclaringManifestPath n, W_Locations := ModuleLocations n,
       W_Metadata := ModuleMeta n\<rparr>"
| "encodeNodeWire L (DependencyNode n) =
     Wire_zero\<lparr>W_Kind := NodeKindDependency, W_ID := dependency_id n, W_Coords := Coords n,
       W_Relationship := Relationship n, W_Source := DepSource n, W_Scopes := canonicalScopeSet (NodeScopes n),
       W_SourceScope := NormalizeSourceScope (SourceScope n), W_Locations := NodeLocs n,
       W_Claims := gated_claims L (Claims n), W_FoundBy := FoundBy n, W_ResolvedURL := ResolvedURL n,
       W_Origins := Origins n, W_Metadata := Metadata n, W_Matched := Matched n, W_PackageRef := PackageRef n,
       W_Origin := (if Origins n = [] then None else Some (hd (Origins n)))\<rparr>"

definition DependencyNode_UnmarshalJSON :: "library \<Rightarrow> node_wire \<Rightarrow> wire_error + dependency_node" where
  "DependencyNode_UnmarshalJSON L w =
     (case wireKind w of
        Inl err \<Rightarrow> Inl err
      | Inr kind \<Rightarrow> if kind \<noteq> NodeKindDependency then Inl (WrongNodeKind kind) else decodeDependencyNode L w)"

section \<open>Encoding a graph\<close>

record dependency_edge =
  FromID :: string
  ToID :: string
  WireEdgeKind :: edge_kind

record graph_json =
  JNodes :: "node_wire list"
  JEdges :: "dependency_edge list"

definition wire_edge :: "graph \<Rightarrow> nat \<Rightarrow> nat \<Rightarrow> dependency_edge" where
  "wire_edge g a b =
     (let kind = the (mget (outgoing g ! a) b) in
      \<lparr>FromID = NodeID (node_at g a), ToID = NodeID (node_at g b),
       WireEdgeKind = if kind \<noteq> DeriveEdgeKind (nodes g ! a) (nodes g ! b) then kind else EdgeKindUnknown\<rparr>)"

definition Graph_MarshalJSON :: "library \<Rightarrow> graph \<Rightarrow> graph_json" where
  "Graph_MarshalJSON L g =
     \<lparr>JNodes = map (encodeNodeWire L) (Graph_Nodes g),
      JEdges = concat (map (\<lambda>a. map (wire_edge g a) (filter (\<lambda>b. alive g ! b) (sortedAdjacent g (outgoing g ! a))))
                 (sortedIndices g))\<rparr>"

section \<open>Decoding a graph\<close>

text \<open>What the decoder meets: an element of an array is read as a node or as an edge, whichever the
  section asks for.\<close>

record payload_element =
  ReadAsNode :: "node_wire option"
  ReadAsEdge :: "dependency_edge option"

datatype member_value = NullMember | ArrayMember "payload_element list" | OtherMember | UnreadableMember

datatype graph_payload =
    NullPayload
  | ObjectPayload (payload_bytes: nat) (payload_members: "(string \<times> member_value) list") (payload_ends: bool)
  | OtherPayload (payload_bytes: nat)

abbreviation MaxPayloadBytes :: nat where "MaxPayloadBytes \<equiv> 256 * 2 ^ 20"
abbreviation MaxGraphNodes :: nat where "MaxGraphNodes \<equiv> 2 ^ 18"
abbreviation MaxRegistryPackages :: nat where "MaxRegistryPackages \<equiv> MaxGraphNodes"
abbreviation MaxGraphEdges :: nat where "MaxGraphEdges \<equiv> 2 ^ 21"

fun bounded_elements :: "(payload_element \<Rightarrow> 'a option) \<Rightarrow> string \<Rightarrow> nat \<Rightarrow> nat \<Rightarrow> payload_element list \<Rightarrow> wire_error + 'a list" where
  "bounded_elements read what bound seen_count [] = Inr []"
| "bounded_elements read what bound seen_count (e # es) =
     (if seen_count \<ge> bound then Inl (PayloadTooLarge what)
      else (case read e of
              None \<Rightarrow> Inl (ElementUnreadable what seen_count)
            | Some x \<Rightarrow> map_sum id (Cons x) (bounded_elements read what bound (Suc seen_count) es)))"

definition decodeBoundedArray :: "(payload_element \<Rightarrow> 'a option) \<Rightarrow> string \<Rightarrow> nat \<Rightarrow> member_value \<Rightarrow> wire_error + 'a list" where
  "decodeBoundedArray read what bound v =
     (case v of
        NullMember \<Rightarrow> Inr []
      | ArrayMember es \<Rightarrow> bounded_elements read what bound 0 es
      | OtherMember \<Rightarrow> Inl (NotAnArray what)
      | UnreadableMember \<Rightarrow> Inl (MemberUnreadable what))"

definition fold_key :: "string \<Rightarrow> string" where
  "fold_key key = (if EqualFold_ascii key ''nodes'' then ''nodes'' else if EqualFold_ascii key ''edges'' then ''edges'' else key)"

fun decode_members :: "nat \<Rightarrow> nat \<Rightarrow> string list \<Rightarrow> graph_json \<Rightarrow> (string \<times> member_value) list \<Rightarrow> wire_error + graph_json" where
  "decode_members node_bound edge_bound seen payload [] = Inr payload"
| "decode_members node_bound edge_bound seen payload ((key, v) # rest) =
     (let key = fold_key key in
      if key \<noteq> ''nodes'' \<and> key \<noteq> ''edges''
      then (if v = UnreadableMember then Inl (MemberUnreadable key) else decode_members node_bound edge_bound seen payload rest)
      else if key \<in> set seen then Inl (KeyRepeated key)
      else if key = ''nodes''
      then (case decodeBoundedArray ReadAsNode ''graph nodes'' node_bound v of
              Inl err \<Rightarrow> Inl err
            | Inr ns \<Rightarrow> decode_members node_bound edge_bound (key # seen) (payload\<lparr>JNodes := JNodes payload @ ns\<rparr>) rest)
      else (case decodeBoundedArray ReadAsEdge ''graph edges'' edge_bound v of
              Inl err \<Rightarrow> Inl err
            | Inr es \<Rightarrow> decode_members node_bound edge_bound (key # seen) (payload\<lparr>JEdges := JEdges payload @ es\<rparr>) rest))"

definition decodeGraphPayload :: "nat \<Rightarrow> nat \<Rightarrow> graph_payload \<Rightarrow> wire_error + graph_json" where
  "decodeGraphPayload node_bound edge_bound payload =
     (case payload of
        ObjectPayload _ members ends \<Rightarrow>
          (case decode_members node_bound edge_bound [] \<lparr>JNodes = [], JEdges = []\<rparr> members of
             Inl err \<Rightarrow> Inl err
           | Inr j \<Rightarrow> if ends then Inr j else Inl TrailingData)
      | _ \<Rightarrow> Inl NotAnObject)"

record decoding =
  dec_graph :: graph
  dec_ids :: "(string, string) gomap"
  dec_aliases :: "string list"

fun decode_nodes :: "library \<Rightarrow> decoding \<Rightarrow> node_wire list \<Rightarrow> wire_error + decoding" where
  "decode_nodes L s [] = Inr s"
| "decode_nodes L s (w # ws) =
     (case decodeNode L w of
        Inl err \<Rightarrow> Inl err
      | Inr node \<Rightarrow>
          (case InsertNode L (dec_graph s) (Some node) of
             Inl err \<Rightarrow> Inl (InsertRefused err)
           | Inr (g, survivor) \<Rightarrow>
               (let i = NodeID survivor;
                    t = s\<lparr>dec_graph := g, dec_aliases := dec_aliases s @ [i]\<rparr>
                in if W_ID w = [] then decode_nodes L t ws
                   else (case mget (dec_ids s) (W_ID w) of
                           Some previous \<Rightarrow>
                             if previous \<noteq> i then Inl (WireIDReused (W_ID w) previous i)
                             else decode_nodes L (t\<lparr>dec_ids := mput (W_ID w) i (dec_ids s)\<rparr>) ws
                         | None \<Rightarrow> decode_nodes L (t\<lparr>dec_ids := mput (W_ID w) i (dec_ids s)\<rparr>) ws))))"

definition claim_aliases :: "(string, string) gomap \<Rightarrow> string list \<Rightarrow> (string, string) gomap" where
  "claim_aliases ids aliases = foldl (\<lambda>m a. if mget m a = None then mput a a m else m) ids aliases"

fun decode_edges :: "(string, string) gomap \<Rightarrow> graph \<Rightarrow> dependency_edge list \<Rightarrow> wire_error + graph" where
  "decode_edges ids g [] = Inr g"
| "decode_edges ids g (e # es) =
     (case (mget ids (FromID e), mget ids (ToID e)) of
        (Some a, Some b) \<Rightarrow>
          if a = b then decode_edges ids g es
          else (case AddTypedEdge g a b (WireEdgeKind e) of
                  Inl err \<Rightarrow> Inl (InsertRefused err) | Inr g \<Rightarrow> decode_edges ids g es)
      | _ \<Rightarrow> Inl (UnknownEndpoint (FromID e) (ToID e)))"

definition decode_graph_json :: "library \<Rightarrow> graph_json \<Rightarrow> wire_error + graph" where
  "decode_graph_json L j =
     (case decode_nodes L \<lparr>dec_graph = NewWithCapacity (length (JNodes j)), dec_ids = [], dec_aliases = []\<rparr> (JNodes j) of
        Inl err \<Rightarrow> Inl err
      | Inr s \<Rightarrow> decode_edges (claim_aliases (dec_ids s) (dec_aliases s)) (dec_graph s) (JEdges j))"

definition Graph_UnmarshalJSON :: "library \<Rightarrow> graph_payload \<Rightarrow> wire_error + graph" where
  "Graph_UnmarshalJSON L payload =
     (if payload = NullPayload then Inr New
      else if payload_bytes payload > MaxPayloadBytes then Inl (PayloadTooLarge ''graph'')
      else (case decodeGraphPayload MaxGraphNodes MaxGraphEdges payload of
              Inl err \<Rightarrow> Inl err | Inr j \<Rightarrow> decode_graph_json L j))"

section \<open>The registry codec\<close>

definition Registry_MarshalJSON :: "package_registry \<Rightarrow> (string, package) gomap" where
  "Registry_MarshalJSON r =
     foldl (\<lambda>m p. if PURL (PkgCoords p) = [] then m else mput (PURL (PkgCoords p)) p m) [] (Registry_All r)"

text \<open>A member of a registry payload: its key, and what its value is read into, if it can be read;
  \<open>null\<close> is no package.\<close>

type_synonym registry_member = "string \<times> package option option"

fun registry_entries :: "nat \<Rightarrow> (string \<times> package option) list \<Rightarrow> registry_member list \<Rightarrow> wire_error + (string \<times> package option) list" where
  "registry_entries bound entries [] = Inr entries"
| "registry_entries bound entries ((purl, v) # rest) =
     (if map_of entries purl = None \<and> length entries \<ge> bound then Inl (PayloadTooLarge ''package registry'')
      else (case v of
              None \<Rightarrow> Inl (MemberUnreadable purl)
            | Some pkg \<Rightarrow>
                if map_of entries purl = None then registry_entries bound (entries @ [(purl, pkg)]) rest
                else registry_entries bound (map (\<lambda>e. if fst e = purl then (purl, pkg) else e) entries) rest))"

definition registry_package :: "string \<times> package option \<Rightarrow> package" where
  "registry_package e =
     (let p = (case snd e of None \<Rightarrow> Package_zero | Some p \<Rightarrow> p) in p\<lparr>PkgCoords := (PkgCoords p)\<lparr>PURL := fst e\<rparr>\<rparr>)"

definition Registry_UnmarshalJSON :: "library \<Rightarrow> nat \<Rightarrow> registry_member list option \<Rightarrow> wire_error + package_registry" where
  "Registry_UnmarshalJSON L bytes payload =
     (case payload of
        None \<Rightarrow> Inr NewPackageRegistry
      | Some members \<Rightarrow>
          if bytes > MaxPayloadBytes then Inl (PayloadTooLarge ''package registry'')
          else (case registry_entries MaxRegistryPackages [] members of
                  Inl err \<Rightarrow> Inl err
                | Inr entries \<Rightarrow>
                    Inr (foldl (\<lambda>r e. add_package L r (Some (registry_package e))) NewPackageRegistry (sort_key fst entries))))"

section \<open>The encoded form is a function of the content\<close>

definition wire_edge_of :: "graph \<Rightarrow> string \<Rightarrow> string \<Rightarrow> dependency_edge" where
  "wire_edge_of g x y =
     (let kind = the (edge_of g x y) in
      \<lparr>FromID = x, ToID = y, WireEdgeKind = if kind \<noteq> DeriveEdgeKind (Node g x) (Node g y) then kind else EdgeKindUnknown\<rparr>)"

definition target_ids :: "graph \<Rightarrow> string \<Rightarrow> string list" where
  "target_ids g x = (case DirectDependencies g x of Inl _ \<Rightarrow> [] | Inr ds \<Rightarrow> map NodeID ds)"

lemma target_ids_spec:
  assumes g: "graph_ok g" and n: "Node g x \<noteq> None"
  shows "sorted_wrt (<) (target_ids g x)" "set (target_ids g x) = {y. edge_of g x y \<noteq> None}"
proof -
  obtain m where "Node g x = Some m" using n by blast
  from DirectDependencies_Inr [OF g this] obtain ds where ds: "DirectDependencies g x = Inr ds"
    "NodeID ` set ds = {y. edge_of g x y \<noteq> None}" "sorted_wrt (<) (map NodeID ds)" by (elim exE conjE)
  then show "sorted_wrt (<) (target_ids g x)" "set (target_ids g x) = {y. edge_of g x y \<noteq> None}"
    by (simp_all add: target_ids_def)
qed

lemma wire_edge_slots:
  assumes g: "graph_ok g" and i: "slot g i = Some m" and j: "table_kind (outgoing g) i j \<noteq> None"
  shows "alive g ! j" "wire_edge g i j = wire_edge_of g (NodeID m) (NodeID (node_at g j))"
proof -
  obtain n where n: "slot g j = Some n" using edge_ends [OF g j] by blast
  have at: "node_at g i = m" "node_at g j = n" using slot_ids [OF g] i n by auto
  have less: "i < length (nodes g)" "nodes g ! i = Some m" "j < length (nodes g)" "nodes g ! j = Some n"
    using slot_Some_less i n by auto
  show "alive g ! j" using g less by (simp add: graph_ok_def slots_ok_def)
  have "length (outgoing g) = length (nodes g)" using g by (simp add: graph_ok_def edges_ok_def)
  then have k: "mget (outgoing g ! i) j = edge_of g (NodeID m) (NodeID n)"
    using edge_of_ids [OF g i n] less by (simp add: table_kind_def)
  have "Node g (NodeID m) = Some m" "Node g (NodeID n) = Some n" using Node_self [OF g] i n by blast+
  then show "wire_edge g i j = wire_edge_of g (NodeID m) (NodeID (node_at g j))"
    by (simp add: wire_edge_def wire_edge_of_def Let_def at less k)
qed

lemma target_ids_slot:
  assumes g: "graph_ok g" and i: "slot g i = Some m"
  shows "target_ids g (NodeID m) = map (\<lambda>j. NodeID (node_at g j)) (sortedAdjacent g (outgoing g ! i))"
proof -
  have "mget (indexByID g) (NodeID m) = Some i" using slot_index g i by (simp add: graph_ok_def)
  then show ?thesis by (simp add: target_ids_def DirectDependencies_def requireIndex_def lookupSorted_adjacent)
qed

lemma JEdges_abs:
  assumes g: "graph_ok g"
  shows "JEdges (Graph_MarshalJSON L g) = concat (map (\<lambda>x. map (wire_edge_of g x) (target_ids g x)) (map NodeID (Graph_Nodes g)))"
proof -
  have "map (wire_edge g i) (filter (\<lambda>b. alive g ! b) (sortedAdjacent g (outgoing g ! i)))
      = map (wire_edge_of g (NodeID (node_at g i))) (target_ids g (NodeID (node_at g i)))" if mem: "i \<in> set (sortedIndices g)" for i
  proof -
    obtain m where m: "slot g i = Some m" using set_sortedIndices [OF g] mem by blast
    have at: "node_at g i = m" using slot_ids [OF g m] by simp
    have "i < length (nodes g)" using slot_Some_less [OF m] by simp
    note adj = adjacent_slots(1) [OF g this]
    have "filter (\<lambda>b. alive g ! b) (sortedAdjacent g (outgoing g ! i)) = sortedAdjacent g (outgoing g ! i)"
      using wire_edge_slots(1) [OF g m] adj by (intro filter_True) blast
    then show ?thesis unfolding at target_ids_slot [OF g m] using wire_edge_slots(2) [OF g m] adj by simp
  qed
  then show ?thesis by (simp add: Graph_MarshalJSON_def Graph_Nodes_def comp_def cong: map_cong)
qed

lemma Graph_Nodes_ids:
  assumes g: "graph_ok g"
  shows "set (map NodeID (Graph_Nodes g)) = {x. Node g x \<noteq> None}"
  unfolding set_map Graph_Nodes_set [OF g]
proof (intro set_eqI iffI)
  fix x assume "x \<in> {x. Node g x \<noteq> None}"
  then obtain n where n: "Node g x = Some n" by blast
  then have "NodeID n = x" using Node_id [OF g] by blast
  with n show "x \<in> NodeID ` {n. Node g (NodeID n) = Some n}" by (intro image_eqI [of _ _ n]) simp_all
qed auto

lemma Graph_Nodes_of_ids:
  assumes g: "graph_ok g"
  shows "Graph_Nodes g = map (\<lambda>x. the (Node g x)) (map NodeID (Graph_Nodes g))"
proof -
  have "\<forall>n \<in> set (Graph_Nodes g). the (Node g (NodeID n)) = n" using Graph_Nodes_set [OF g] by auto
  then show ?thesis by (simp add: map_idI)
qed

lemma strict_sorted_unique: "sorted_wrt (<) xs \<Longrightarrow> sorted_wrt (<) ys \<Longrightarrow> set xs = set ys \<Longrightarrow> xs = (ys :: 'a :: linorder list)"
  by (simp add: strict_sorted_equal)

lemma Graph_MarshalJSON_cong:
  assumes g: "graph_ok g" and h: "graph_ok h" and n: "Node g = Node h" and e: "edge_of g = edge_of h"
  shows "Graph_MarshalJSON L g = Graph_MarshalJSON L h"
proof -
  have ids: "map NodeID (Graph_Nodes g) = map NodeID (Graph_Nodes h)"
    by (rule strict_sorted_unique [OF Graph_Nodes_sorted [OF g] Graph_Nodes_sorted [OF h]])
      (simp only: Graph_Nodes_ids [OF g] Graph_Nodes_ids [OF h] n)
  have "Graph_Nodes g = Graph_Nodes h"
    using Graph_Nodes_of_ids [OF g] Graph_Nodes_of_ids [OF h] unfolding ids n by simp
  moreover have t: "target_ids g x = target_ids h x" if "Node h x \<noteq> None" for x
    using target_ids_spec [OF g, of x] target_ids_spec [OF h, of x] that by (intro strict_sorted_unique) (simp_all add: n e)
  have "JEdges (Graph_MarshalJSON L g) = JEdges (Graph_MarshalJSON L h)"
    unfolding JEdges_abs [OF g] JEdges_abs [OF h] ids
  proof (intro arg_cong [where f = concat] map_cong [OF refl])
    fix x assume "x \<in> set (map NodeID (Graph_Nodes h))"
    then have "Node h x \<noteq> None" using Graph_Nodes_ids [OF h] by blast
    then show "map (wire_edge_of g x) (target_ids g x) = map (wire_edge_of h x) (target_ids h x)"
      using t by (simp add: wire_edge_of_def n e)
  qed
  ultimately show ?thesis by (simp add: Graph_MarshalJSON_def)
qed

section \<open>What decoding the nodes leaves\<close>

text \<open>The identity each wire ID names: the first node that claims it.\<close>

definition claimed_by :: "(node_wire \<times> graph_node) list \<Rightarrow> string \<Rightarrow> string option" where
  "claimed_by wns x = map_option (\<lambda>(w, n). NodeID n) (List.find (\<lambda>(w, n). W_ID w = x \<and> x \<noteq> []) wns)"

definition nodes_decoded :: "library \<Rightarrow> decoding \<Rightarrow> decoding \<Rightarrow> (node_wire \<times> graph_node) list \<Rightarrow> bool" where
  "nodes_decoded L s t wns \<longleftrightarrow> (\<forall>(w, n) \<in> set wns. decodeNode L w = Inr n) \<and> reachable_graph L (dec_graph t)
     \<and> Node (dec_graph t) = foldl (witness_into L) (Node (dec_graph s)) (map snd wns) \<and> edge_of (dec_graph t) = edge_of (dec_graph s)
     \<and> dec_aliases t = dec_aliases s @ map (NodeID \<circ> snd) wns
     \<and> (\<forall>x. mget (dec_ids t) x = (case mget (dec_ids s) x of Some b \<Rightarrow> Some b | None \<Rightarrow> claimed_by wns x))
     \<and> (\<forall>(w, n) \<in> set wns. W_ID w \<noteq> [] \<longrightarrow> mget (dec_ids t) (W_ID w) = Some (NodeID n))"

lemma claimed_by_Cons: "claimed_by ((w, n) # wns) x = (if W_ID w = x \<and> x \<noteq> [] then Some (NodeID n) else claimed_by wns x)"
  by (simp add: claimed_by_def)

lemma decode_nodes_step:
  assumes r: "reachable_graph L (dec_graph s)" and d: "decode_nodes L s (w # ws) = Inr t"
  shows "\<exists>n s'. decode_nodes L s' ws = Inr t \<and> nodes_decoded L s s' [(w, n)]"
proof -
  obtain n where n: "decodeNode L w = Inr n" using d by (auto split: sum.splits)
  have ne: "NodeID n \<noteq> []"
  proof
    assume "NodeID n = []"
    then have "InsertNode L (dec_graph s) (Some n) = Inl ErrEmptyNodeID" by (simp add: InsertNode_def)
    then show False using d n by simp
  qed
  obtain g where g: "InsertNode L (dec_graph s) (Some n) = Inr (g, witnessed L (dec_graph s) n)" "graph_ok g"
    "Node g = (Node (dec_graph s))(NodeID n := Some (witnessed L (dec_graph s) n))" "edge_of g = edge_of (dec_graph s)"
    using InsertNode_abs [OF reachable_graph_ok [OF r] ne, of L] by blast
  have "Node g (NodeID n) = Some (witnessed L (dec_graph s) n)" by (simp add: g(3))
  then have id: "NodeID (witnessed L (dec_graph s) n) = NodeID n" using Node_id [OF g(2)] by blast
  have rg: "reachable_graph L g" by (rule reachable_step [OF r step_insert [OF g(1)]])
  have node: "Node g = witness_into L (Node (dec_graph s)) n" by (simp add: g(3) witness_into_def witnessed_def)
  let ?t = "s\<lparr>dec_graph := g, dec_aliases := dec_aliases s @ [NodeID n]\<rparr>"
  let ?u = "?t\<lparr>dec_ids := mput (W_ID w) (NodeID n) (dec_ids s)\<rparr>"
  show ?thesis
  proof (cases "W_ID w = []")
    case True
    then have "decode_nodes L ?t ws = Inr t" using d n g(1) id by (simp add: Let_def)
    moreover have "nodes_decoded L s ?t [(w, n)]"
      using n rg node g(4) True by (simp add: nodes_decoded_def claimed_by_def split: option.splits)
    ultimately show ?thesis by blast
  next
    case False
    then have e: "decode_nodes L ?u ws = Inr t" and old: "mget (dec_ids s) (W_ID w) \<in> {None, Some (NodeID n)}"
      using d n g(1) id by (auto simp: Let_def split: option.splits if_splits)
    have "nodes_decoded L s ?u [(w, n)]"
      using n rg node g(4) False old by (auto simp: nodes_decoded_def claimed_by_def gomap_simps split: option.splits)
    with e show ?thesis by blast
  qed
qed

lemma nodes_decoded_refl: "reachable_graph L (dec_graph s) \<Longrightarrow> nodes_decoded L s s []"
  by (auto simp: nodes_decoded_def claimed_by_def split: option.split)

lemma nodes_decoded_Cons:
  assumes a: "nodes_decoded L s s' [(w, n)]" and b: "nodes_decoded L s' t wns"
  shows "nodes_decoded L s t ((w, n) # wns)"
proof -
  have s': "mget (dec_ids s') x = (case mget (dec_ids s) x of Some b \<Rightarrow> Some b | None \<Rightarrow> claimed_by [(w, n)] x)" for x
    using a unfolding nodes_decoded_def by blast
  have t: "mget (dec_ids t) x = (case mget (dec_ids s') x of Some b \<Rightarrow> Some b | None \<Rightarrow> claimed_by wns x)" for x
    using b unfolding nodes_decoded_def by blast
  have ids: "mget (dec_ids t) x = (case mget (dec_ids s) x of Some b \<Rightarrow> Some b | None \<Rightarrow> claimed_by ((w, n) # wns) x)" for x
    unfolding t s' by (simp add: claimed_by_def split: option.split)
  have "\<forall>(w, n) \<in> set [(w, n)]. W_ID w \<noteq> [] \<longrightarrow> mget (dec_ids s') (W_ID w) = Some (NodeID n)"
    using a unfolding nodes_decoded_def by blast
  then have "W_ID w \<noteq> [] \<longrightarrow> mget (dec_ids s') (W_ID w) = Some (NodeID n)" by simp
  then have first: "W_ID w \<noteq> [] \<longrightarrow> mget (dec_ids t) (W_ID w) = Some (NodeID n)" by (simp add: t)
  have rest: "\<forall>(w, n) \<in> set wns. W_ID w \<noteq> [] \<longrightarrow> mget (dec_ids t) (W_ID w) = Some (NodeID n)"
    using b unfolding nodes_decoded_def by blast
  show ?thesis
    unfolding nodes_decoded_def
  proof (intro conjI)
    show "\<forall>(w, n) \<in> set ((w, n) # wns). decodeNode L w = Inr n" using a b by (auto simp: nodes_decoded_def)
    show "\<forall>x. mget (dec_ids t) x = (case mget (dec_ids s) x of Some b \<Rightarrow> Some b | None \<Rightarrow> claimed_by ((w, n) # wns) x)"
      using ids by blast
    show "\<forall>(w, n) \<in> set ((w, n) # wns). W_ID w \<noteq> [] \<longrightarrow> mget (dec_ids t) (W_ID w) = Some (NodeID n)"
      using first rest by simp
  qed (use a b in \<open>simp_all add: nodes_decoded_def\<close>)
qed

lemma decode_nodes_sound:
  "reachable_graph L (dec_graph s) \<Longrightarrow> decode_nodes L s ws = Inr t \<Longrightarrow>
   \<exists>wns. map fst wns = ws \<and> nodes_decoded L s t wns"
proof (induction ws arbitrary: s)
  case Nil
  then show ?case using nodes_decoded_refl by auto
next
  case (Cons w ws)
  obtain n s' where s': "decode_nodes L s' ws = Inr t" "nodes_decoded L s s' [(w, n)]"
    using decode_nodes_step [OF Cons.prems] by blast
  have "reachable_graph L (dec_graph s')" using s'(2) by (simp add: nodes_decoded_def)
  from Cons.IH [OF this s'(1)] obtain wns where "map fst wns = ws" "nodes_decoded L s' t wns" by blast
  then show ?case using nodes_decoded_Cons [OF s'(2)] by (intro exI [of _ "(w, n) # wns"]) simp
qed

lemma claim_aliases_get: "mget (claim_aliases ids as) x = (case mget ids x of Some b \<Rightarrow> Some b | None \<Rightarrow> if x \<in> set as then Some x else None)"
proof (induction as arbitrary: ids)
  case (Cons a as)
  show ?case
    using Cons.IH [of "if mget ids a = None then mput a a ids else ids"]
    by (auto simp: claim_aliases_def gomap_simps split: option.splits)
qed (simp add: claim_aliases_def split: option.split)

section \<open>What decoding the edges leaves\<close>

lemma derived_link:
  "graph_ok g \<Longrightarrow> Node g a \<noteq> None \<Longrightarrow> Node g b \<noteq> None \<Longrightarrow>
   AddTypedEdge g a b k = AddTypedEdge g a b (if k = EdgeKindUnknown then DeriveEdgeKind (Node g a) (Node g b) else k)"
  by (auto simp: AddTypedEdge_def requireIndex_def Node_None Node_def Let_def split: option.splits)

lemma DeriveEdgeKind_known: "DeriveEdgeKind (Some m) (Some n) \<noteq> EdgeKindUnknown"
  by simp

definition resolved_edge :: "graph \<Rightarrow> (string, string) gomap \<Rightarrow> dependency_edge \<Rightarrow> (string \<times> string \<times> edge_kind) option" where
  "resolved_edge g ids e =
     (case (mget ids (FromID e), mget ids (ToID e)) of
        (Some a, Some b) \<Rightarrow>
          if a = b then None
          else Some (a, b, if WireEdgeKind e = EdgeKindUnknown then DeriveEdgeKind (Node g a) (Node g b) else WireEdgeKind e)
      | _ \<Rightarrow> None)"

lemma resolved_edge_cong: "Node g = Node h \<Longrightarrow> resolved_edge g ids = resolved_edge h ids"
  by (rule ext) (simp only: resolved_edge_def)

lemma decode_edges_ok:
  "reachable_graph L g \<Longrightarrow> \<forall>x b. mget ids x = Some b \<longrightarrow> Node g b \<noteq> None \<Longrightarrow>
   \<forall>e \<in> set es. mget ids (FromID e) \<noteq> None \<and> mget ids (ToID e) \<noteq> None \<Longrightarrow>
   \<exists>h. decode_edges ids g es = Inr h \<and> reachable_graph L h \<and> Node h = Node g
     \<and> edge_of h = foldl link_into (edge_of g) (List.map_filter (resolved_edge g ids) es)"
proof (induction es arbitrary: g)
  case Nil
  then show ?case by (simp add: map_filter_simps)
next
  case (Cons e es)
  obtain a b where ab: "mget ids (FromID e) = Some a" "mget ids (ToID e) = Some b" using Cons.prems(3) by auto
  show ?case
  proof (cases "a = b")
    case True
    then have "resolved_edge g ids e = None" "decode_edges ids g (e # es) = decode_edges ids g es"
      using ab by (simp_all add: resolved_edge_def)
    then show ?thesis using Cons.IH [OF Cons.prems(1,2)] Cons.prems(3) by (simp add: map_filter_simps)
  next
    case False
    let ?k = "if WireEdgeKind e = EdgeKindUnknown then DeriveEdgeKind (Node g a) (Node g b) else WireEdgeKind e"
    have g: "graph_ok g" by (rule reachable_graph_ok [OF Cons.prems(1)])
    have n: "Node g a \<noteq> None" "Node g b \<noteq> None" using Cons.prems(2) ab by blast+
    have k: "?k \<noteq> EdgeKindUnknown" using n DeriveEdgeKind_known by (auto simp del: DeriveEdgeKind.simps)
    from gs.link_law [OF g False n k] obtain h where h: "link_edge g (a, b, ?k) = Inr h" "Node h = Node g"
      "edge_of h = link_into (edge_of g) (a, b, ?k)" by (elim exE conjE)
    have add: "AddTypedEdge g a b (WireEdgeKind e) = Inr h"
      using derived_link [OF g n, of "WireEdgeKind e"] h(1) by (simp only: link_edge_def prod.case)
    have r: "reachable_graph L h" by (rule reachable_step [OF Cons.prems(1) step_link [OF add]])
    have eq: "decode_edges ids g (e # es) = decode_edges ids h es" using ab False add by simp
    have res: "resolved_edge g ids e = Some (a, b, ?k)" using ab False by (simp only: resolved_edge_def option.case prod.case if_False)
    have "\<exists>h'. decode_edges ids h es = Inr h' \<and> reachable_graph L h' \<and> Node h' = Node h
        \<and> edge_of h' = foldl link_into (edge_of h) (List.map_filter (resolved_edge h ids) es)"
      using Cons.IH [OF r] Cons.prems(2,3) by (simp add: h(2))
    then show ?thesis unfolding eq h(2,3) resolved_edge_cong [OF h(2)] by (simp only: map_filter_simps res option.case foldl.simps)
  qed
qed

lemma decode_edges_known:
  "decode_edges ids g es = Inr h \<Longrightarrow> e \<in> set es \<Longrightarrow> mget ids (FromID e) \<noteq> None \<and> mget ids (ToID e) \<noteq> None"
  by (induction ids g es rule: decode_edges.induct) (auto split: option.splits if_splits sum.splits)

section \<open>Decoding a payload\<close>

definition decoded_pairs :: "library \<Rightarrow> node_wire list \<Rightarrow> (node_wire \<times> graph_node) list" where
  "decoded_pairs L ws = map (\<lambda>w. (w, projr (decodeNode L w))) ws"

definition wire_name :: "(node_wire \<times> graph_node) list \<Rightarrow> string \<Rightarrow> string option" where
  "wire_name wns x =
     (case claimed_by wns x of Some b \<Rightarrow> Some b | None \<Rightarrow> if x \<in> set (map (NodeID \<circ> snd) wns) then Some x else None)"

lemma decoded_pairs_eq: "\<forall>(w, n) \<in> set wns. decodeNode L w = Inr n \<Longrightarrow> decoded_pairs L (map fst wns) = wns"
  by (induction wns) (auto simp: decoded_pairs_def)

lemma claimed_by_values: "claimed_by wns x = Some b \<Longrightarrow> b \<in> NodeID ` set (map snd wns)"
  by (auto simp: claimed_by_def find_Some_iff dest!: nth_mem) force

lemma decode_nodes_New:
  assumes "decode_nodes L \<lparr>dec_graph = NewWithCapacity c, dec_ids = [], dec_aliases = []\<rparr> ws = Inr t"
  defines "wns \<equiv> decoded_pairs L ws"
  shows "\<forall>(w, n) \<in> set wns. decodeNode L w = Inr n" "reachable_graph L (dec_graph t)"
    "Node (dec_graph t) = foldl (witness_into L) (\<lambda>_. None) (map snd wns)" "edge_of (dec_graph t) = (\<lambda>_ _. None)"
    "mget (claim_aliases (dec_ids t) (dec_aliases t)) = wire_name wns"
    "\<forall>(w, n) \<in> set wns. W_ID w \<noteq> [] \<longrightarrow> claimed_by wns (W_ID w) = Some (NodeID n)"
proof -
  let ?s = "\<lparr>dec_graph = NewWithCapacity c, dec_ids = [], dec_aliases = []\<rparr>"
  have new: "NewWithCapacity c = New" by (simp add: New_def NewWithCapacity_def)
  have "reachable_graph L (dec_graph ?s)" by (simp add: new reachable_New)
  from decode_nodes_sound [OF this assms(1)] obtain vs where vs: "map fst vs = ws" "nodes_decoded L ?s t vs" by blast
  have d: "\<forall>(w, n) \<in> set vs. decodeNode L w = Inr n" using vs(2) unfolding nodes_decoded_def by blast
  have w: "wns = vs" using decoded_pairs_eq [OF d] vs(1) by (simp add: wns_def)
  show "\<forall>(w, n) \<in> set wns. decodeNode L w = Inr n" using d by (simp only: w)
  show "reachable_graph L (dec_graph t)" using vs(2) by (simp add: nodes_decoded_def)
  show "Node (dec_graph t) = foldl (witness_into L) (\<lambda>_. None) (map snd wns)" "edge_of (dec_graph t) = (\<lambda>_ _. None)"
    using vs(2) New_abs by (simp_all add: nodes_decoded_def new w)
  have ids: "mget (dec_ids t) x = claimed_by vs x" for x using vs(2) by (simp add: nodes_decoded_def)
  have al: "dec_aliases t = map (NodeID \<circ> snd) vs" using vs(2) by (simp add: nodes_decoded_def)
  show "mget (claim_aliases (dec_ids t) (dec_aliases t)) = wire_name wns"
    by (rule ext) (simp only: claim_aliases_get ids al wire_name_def w)
  have "\<forall>(w, n) \<in> set vs. W_ID w \<noteq> [] \<longrightarrow> mget (dec_ids t) (W_ID w) = Some (NodeID n)"
    using vs(2) unfolding nodes_decoded_def by blast
  then show "\<forall>(w, n) \<in> set wns. W_ID w \<noteq> [] \<longrightarrow> claimed_by wns (W_ID w) = Some (NodeID n)" by (simp only: ids w)
qed

lemma wire_name_values: "wire_name wns x = Some b \<Longrightarrow> b \<in> NodeID ` set (map snd wns)"
  by (auto simp: wire_name_def split: option.splits if_splits dest!: claimed_by_values)

lemma witnessed_nodes: "foldl (witness_into L) (\<lambda>_. None) ns x \<noteq> None \<longleftrightarrow> x \<in> NodeID ` set ns"
  using dom_witness_all [of L "\<lambda>_. None" ns] by (metis domIff dom_empty sup_bot_left)

text \<open>The graph a payload stands for, and the payload accounted for: every edge names nodes of the
  payload, and is in the graph unless its two ends are one node.\<close>

definition stands_for :: "library \<Rightarrow> graph_json \<Rightarrow> graph \<Rightarrow> bool" where
  "stands_for L j g \<longleftrightarrow> (let wns = decoded_pairs L (JNodes j) in
     (\<forall>(w, n) \<in> set wns. decodeNode L w = Inr n \<and> (W_ID w \<noteq> [] \<longrightarrow> claimed_by wns (W_ID w) = Some (NodeID n)))
     \<and> Node g = foldl (witness_into L) (\<lambda>_. None) (map snd wns)
     \<and> (\<forall>e \<in> set (JEdges j). wire_name wns (FromID e) \<noteq> None \<and> wire_name wns (ToID e) \<noteq> None)
     \<and> (\<forall>a b. edge_of g a b \<noteq> None \<longleftrightarrow> a \<noteq> b \<and> (\<exists>e \<in> set (JEdges j). wire_name wns (FromID e) = Some a \<and> wire_name wns (ToID e) = Some b)))"

lemma resolved_edge_Some:
  "(\<exists>k. resolved_edge g ids e = Some (a, b, k)) \<longleftrightarrow> a \<noteq> b \<and> mget ids (FromID e) = Some a \<and> mget ids (ToID e) = Some b"
  by (auto simp: resolved_edge_def split: option.splits)

lemma decode_graph_json_sound:
  assumes "decode_graph_json L j = Inr g"
  shows "reachable_graph L g" "stands_for L j g"
proof -
  let ?wns = "decoded_pairs L (JNodes j)"
  obtain t where t: "decode_nodes L \<lparr>dec_graph = NewWithCapacity (length (JNodes j)), dec_ids = [], dec_aliases = []\<rparr> (JNodes j) = Inr t"
    and e: "decode_edges (claim_aliases (dec_ids t) (dec_aliases t)) (dec_graph t) (JEdges j) = Inr g"
    using assms by (auto simp: decode_graph_json_def split: sum.splits)
  note n = decode_nodes_New [OF t]
  let ?ids = "claim_aliases (dec_ids t) (dec_aliases t)"
  have known: "\<forall>e \<in> set (JEdges j). mget ?ids (FromID e) \<noteq> None \<and> mget ?ids (ToID e) \<noteq> None"
    using decode_edges_known [OF e] by blast
  have "\<forall>x b. mget ?ids x = Some b \<longrightarrow> Node (dec_graph t) b \<noteq> None"
    using wire_name_values unfolding n(3,5) witnessed_nodes by blast
  from decode_edges_ok [OF n(2) this known] e have h: "reachable_graph L g" "Node g = Node (dec_graph t)"
    "edge_of g = foldl link_into (\<lambda>_ _. None) (List.map_filter (resolved_edge (dec_graph t) ?ids) (JEdges j))"
    by (auto simp: n(4))
  show "reachable_graph L g" by (rule h(1))
  have ed: "edge_of g a b \<noteq> None \<longleftrightarrow> a \<noteq> b \<and> (\<exists>e \<in> set (JEdges j). wire_name ?wns (FromID e) = Some a \<and> wire_name ?wns (ToID e) = Some b)" for a b
  proof -
    have "edge_of g a b \<noteq> None \<longleftrightarrow> (\<exists>k. \<exists>e \<in> set (JEdges j). resolved_edge (dec_graph t) ?ids e = Some (a, b, k))"
      unfolding h(3) link_all_edges map_filter_set by auto
    also have "\<dots> \<longleftrightarrow> a \<noteq> b \<and> (\<exists>e \<in> set (JEdges j). mget ?ids (FromID e) = Some a \<and> mget ?ids (ToID e) = Some b)"
      using resolved_edge_Some [of "dec_graph t" ?ids] by blast
    finally show ?thesis unfolding n(5) .
  qed
  show "stands_for L j g"
    unfolding stands_for_def Let_def h(2) n(3)
  proof (intro conjI allI)
    show "\<forall>(w, n) \<in> set ?wns. decodeNode L w = Inr n \<and> (W_ID w \<noteq> [] \<longrightarrow> claimed_by ?wns (W_ID w) = Some (NodeID n))"
      using n(1,6) by blast
    show "\<forall>e \<in> set (JEdges j). wire_name ?wns (FromID e) \<noteq> None \<and> wire_name ?wns (ToID e) \<noteq> None"
      using known unfolding n(5) .
  qed (rule refl, rule ed)
qed

section \<open>The bounds of a payload\<close>

lemma bounded_elements_length: "bounded_elements read what bound c es = Inr xs \<Longrightarrow> c + length xs \<le> max bound c"
proof (induction es arbitrary: c xs)
  case (Cons e es)
  then have c: "c < bound" by (simp split: if_splits)
  then obtain x ys where "read e = Some x" "bounded_elements read what bound (Suc c) es = Inr ys" "xs = x # ys"
    using Cons.prems by (cases "bounded_elements read what bound (Suc c) es") (auto split: option.splits)
  with Cons.IH [of "Suc c" ys] c show ?case by simp
qed simp

lemma decodeBoundedArray_length: "decodeBoundedArray read what bound v = Inr xs \<Longrightarrow> length xs \<le> bound"
  using bounded_elements_length [of read what bound 0] by (fastforce simp: decodeBoundedArray_def split: member_value.splits)

lemma decode_members_bounds:
  "decode_members nb eb seen p ms = Inr j \<Longrightarrow> (''nodes'' \<notin> set seen \<longrightarrow> JNodes p = []) \<Longrightarrow> (''edges'' \<notin> set seen \<longrightarrow> JEdges p = []) \<Longrightarrow>
   length (JNodes p) \<le> nb \<Longrightarrow> length (JEdges p) \<le> eb \<Longrightarrow> length (JNodes j) \<le> nb \<and> length (JEdges j) \<le> eb"
proof (induction nb eb seen p ms rule: decode_members.induct)
  case (2 nb eb seen p key v rest)
  show ?case
  proof (cases "fold_key key = ''nodes''")
    case True
    then obtain ns where ns: "decodeBoundedArray ReadAsNode ''graph nodes'' nb v = Inr ns" "''nodes'' \<notin> set seen"
      "decode_members nb eb (''nodes'' # seen) (p\<lparr>JNodes := JNodes p @ ns\<rparr>) rest = Inr j"
      using 2(4) by (auto simp: Let_def split: if_splits sum.splits)
    then show ?thesis using 2(2) [OF refl _ _ True ns(1)] 2(5-8) True decodeBoundedArray_length [OF ns(1)] by simp
  next
    case nodes: False
    show ?thesis
    proof (cases "fold_key key = ''edges''")
      case True
      then obtain es where es: "decodeBoundedArray ReadAsEdge ''graph edges'' eb v = Inr es" "''edges'' \<notin> set seen"
        "decode_members nb eb (''edges'' # seen) (p\<lparr>JEdges := JEdges p @ es\<rparr>) rest = Inr j"
        using 2(4) nodes by (auto simp: Let_def split: if_splits sum.splits)
      then show ?thesis using 2(3) [OF refl _ _ nodes es(1)] 2(5-8) True nodes decodeBoundedArray_length [OF es(1)] by simp
    next
      case False
      then show ?thesis using 2(1) [OF refl _] 2(4-8) nodes by (auto simp: Let_def split: if_splits)
    qed
  qed
qed simp

lemma decodeGraphPayload_bounds: "decodeGraphPayload nb eb p = Inr j \<Longrightarrow> length (JNodes j) \<le> nb \<and> length (JEdges j) \<le> eb"
  using decode_members_bounds [of nb eb "[]" "\<lparr>JNodes = [], JEdges = []\<rparr>"]
  by (auto simp: decodeGraphPayload_def split: graph_payload.splits sum.splits if_splits)

section \<open>A graph sent and read back\<close>

text \<open>What the reader of an encoded node record gets: the package manager passes its codec on the way.\<close>

definition transport :: "node_wire \<Rightarrow> node_wire option" where
  "transport w =
     (case PackageManager_UnmarshalJSON (PackageManager_MarshalJSON (PackageManager (W_Coords w))) of
        Inl _ \<Rightarrow> None
      | Inr manager \<Rightarrow> Some (w\<lparr>W_Coords := (W_Coords w)\<lparr>PackageManager := manager\<rparr>\<rparr>))"

definition payload_of :: "nat \<Rightarrow> graph_json \<Rightarrow> graph_payload" where
  "payload_of bytes j =
     ObjectPayload bytes
       ((if JNodes j = [] then [] else [(''nodes'', ArrayMember (map (\<lambda>w. \<lparr>ReadAsNode = transport w, ReadAsEdge = None\<rparr>) (JNodes j)))])
        @ (if JEdges j = [] then [] else [(''edges'', ArrayMember (map (\<lambda>e. \<lparr>ReadAsNode = None, ReadAsEdge = Some e\<rparr>) (JEdges j)))]))
       True"

definition survives_wire :: "library \<Rightarrow> graph_node \<Rightarrow> bool" where
  "survives_wire L n \<longleftrightarrow>
     (case transport (encodeNodeWire L n) of
        None \<Rightarrow> False
      | Some w \<Rightarrow> (case decodeNode L w of Inl _ \<Rightarrow> False | Inr m \<Rightarrow> NodeID m = NodeID n))"

definition wire_image :: "library \<Rightarrow> graph_node \<Rightarrow> graph_node" where
  "wire_image L n = projr (decodeNode L (the (transport (encodeNodeWire L n))))"

lemma encodeNodeWire_keys: "W_Kind (encodeNodeWire L n) = Kind n" "W_ID (encodeNodeWire L n) = NodeID n"
  by (cases n; simp)+

lemma map_sum_Inr: "map_sum f h s = Inr y \<longleftrightarrow> (\<exists>x. s = Inr x \<and> y = h x)"
  by (cases s) auto

lemma decodeNode_Kind: "decodeNode L w = Inr m \<Longrightarrow> W_Kind w \<in> {NodeKindManifest, NodeKindModule, NodeKindDependency} \<Longrightarrow> Kind m = W_Kind w"
  by (auto simp: decodeNode_def wireKind_def ParseNodeKind_def map_sum_Inr split: sum.splits if_splits)

lemma claimed_by_identity: "\<forall>(w, n) \<in> set wns. W_ID w = NodeID n \<Longrightarrow> claimed_by wns x \<in> {None, Some x}"
proof (induction wns)
  case (Cons p wns)
  obtain w n where p: "p = (w, n)" by (cases p)
  with Cons show ?case by (cases "W_ID w = x \<and> x \<noteq> []") (simp_all add: p claimed_by_Cons)
qed (simp add: claimed_by_def)

lemma survives_wire_image:
  assumes "survives_wire L n"
  shows "\<exists>w. transport (encodeNodeWire L n) = Some w \<and> decodeNode L w = Inr (wire_image L n) \<and> W_ID w = NodeID n"
    "NodeID (wire_image L n) = NodeID n" "Kind (wire_image L n) = Kind n"
proof -
  obtain w m where w: "transport (encodeNodeWire L n) = Some w" "decodeNode L w = Inr m" "NodeID m = NodeID n"
    using assms by (auto simp: survives_wire_def split: option.splits sum.splits)
  have k: "W_Kind w = Kind n" "W_ID w = NodeID n"
    using w(1) encodeNodeWire_keys [of L n] by (auto simp: transport_def split: sum.splits)
  have m: "wire_image L n = m" using w by (simp add: wire_image_def)
  have "Kind n \<in> {NodeKindManifest, NodeKindModule, NodeKindDependency}" by (cases n) simp_all
  then have "Kind m = Kind n" using decodeNode_Kind [OF w(2)] by (simp only: k)
  with w k show "\<exists>w. transport (encodeNodeWire L n) = Some w \<and> decodeNode L w = Inr (wire_image L n) \<and> W_ID w = NodeID n"
    "NodeID (wire_image L n) = NodeID n" "Kind (wire_image L n) = Kind n"
    unfolding m by simp_all
qed

lemma DeriveEdgeKind_image:
  "map_option Kind a = map_option Kind a' \<Longrightarrow> map_option Kind b = map_option Kind b' \<Longrightarrow> DeriveEdgeKind a b = DeriveEdgeKind a' b'"
  by (cases a; cases a'; cases b; cases b') simp_all

subsection \<open>Reading the payload\<close>

lemma bounded_elements_all:
  "\<forall>x \<in> set xs. read (f x) = Some (h x) \<Longrightarrow> c + length xs \<le> bound \<Longrightarrow> bounded_elements read what bound c (map f xs) = Inr (map h xs)"
  by (induction xs arbitrary: c) auto

lemma fold_key_fixed: "fold_key ''nodes'' = ''nodes''" "fold_key ''edges'' = ''edges''"
  by code_simp+

lemma decodeGraphPayload_of:
  assumes "length (JNodes j) \<le> nb" "length (JEdges j) \<le> eb" "\<forall>w \<in> set (JNodes j). transport w = Some (t w)"
  shows "decodeGraphPayload nb eb (payload_of bytes j) = Inr \<lparr>JNodes = map t (JNodes j), JEdges = JEdges j\<rparr>"
proof -
  have n: "bounded_elements ReadAsNode ''graph nodes'' nb 0 (map (\<lambda>w. \<lparr>ReadAsNode = transport w, ReadAsEdge = None\<rparr>) (JNodes j))
      = Inr (map t (JNodes j))"
    by (rule bounded_elements_all) (use assms in auto)
  have e: "bounded_elements ReadAsEdge ''graph edges'' eb 0 (map (\<lambda>e. \<lparr>ReadAsNode = None, ReadAsEdge = Some e\<rparr>) (JEdges j))
      = Inr (map id (JEdges j))"
    by (rule bounded_elements_all) (use assms in auto)
  show ?thesis
    by (simp add: decodeGraphPayload_def payload_of_def fold_key_fixed decodeBoundedArray_def n e)
qed

subsection \<open>Decoding what was encoded\<close>

lemma decode_nodes_total:
  "reachable_graph L (dec_graph s) \<Longrightarrow> \<forall>(w, n) \<in> set wns. decodeNode L w = Inr n \<and> NodeID n \<noteq> [] \<and> W_ID w = NodeID n \<Longrightarrow>
   \<forall>x b. mget (dec_ids s) x = Some b \<longrightarrow> b = x \<Longrightarrow> \<exists>t. decode_nodes L s (map fst wns) = Inr t"
proof (induction wns arbitrary: s)
  case (Cons p wns)
  obtain w n where p: "p = (w, n)" "decodeNode L w = Inr n" "NodeID n \<noteq> []" "W_ID w = NodeID n"
    using Cons.prems(2) by (cases p) auto
  obtain g where g: "InsertNode L (dec_graph s) (Some n) = Inr (g, witnessed L (dec_graph s) n)" "graph_ok g"
    "Node g = (Node (dec_graph s))(NodeID n := Some (witnessed L (dec_graph s) n))"
    using InsertNode_abs [OF reachable_graph_ok [OF Cons.prems(1)] p(3), of L] by blast
  have "Node g (NodeID n) = Some (witnessed L (dec_graph s) n)" by (simp add: g(3))
  then have id: "NodeID (witnessed L (dec_graph s) n) = NodeID n" using Node_id [OF g(2)] by blast
  let ?t = "s\<lparr>dec_graph := g, dec_aliases := dec_aliases s @ [NodeID n], dec_ids := mput (NodeID n) (NodeID n) (dec_ids s)\<rparr>"
  have "decode_nodes L s (map fst (p # wns)) = decode_nodes L ?t (map fst wns)"
    using p g(1) id Cons.prems(3) by (auto simp: Let_def split: option.split)
  moreover have "reachable_graph L (dec_graph ?t)"
    using reachable_step [OF Cons.prems(1) step_insert [OF g(1)]] by simp
  moreover have "\<forall>x b. mget (dec_ids ?t) x = Some b \<longrightarrow> b = x" using Cons.prems(3) by (simp add: gomap_simps)
  ultimately show ?case using Cons.IH [of ?t] Cons.prems(2) by simp
qed simp

lemma link_all_exact:
  assumes d: "distinct (map (\<lambda>(a, b, k). (a, b)) es)" and s: "set es = {(x, y, k). m x y = Some k}"
  shows "foldl link_into (\<lambda>_ _. None) es = m"
proof (intro ext)
  fix x y
  show "foldl link_into (\<lambda>_ _. None) es x y = m x y"
  proof (cases "m x y")
    case None
    then have "\<forall>k. (x, y, k) \<notin> set es" using s by simp
    then show ?thesis using None by (simp add: link_all_untouched)
  next
    case (Some k)
    then have "(x, y, k) \<in> set es" using s by simp
    from link_all_distinct [OF d this] show ?thesis using Some by simp
  qed
qed

lemma distinct_pairs: "distinct xs \<Longrightarrow> \<forall>x \<in> set xs. distinct (f x) \<Longrightarrow> distinct (concat (map (\<lambda>x. map (Pair x) (f x)) xs))"
  by (induction xs) (auto simp: distinct_map inj_on_def)

lemma set_pairs: "set (concat (map (\<lambda>x. map (Pair x) (f x)) xs)) = {(x, y). x \<in> set xs \<and> y \<in> set (f x)}"
  by auto

lemma map_filter_map: "List.map_filter f (map h xs) = List.map_filter (\<lambda>x. f (h x)) xs"
  by (induction xs) (simp_all add: map_filter_simps split: option.split)

lemma map_filter_all: "\<forall>x \<in> set xs. f x = Some (h x) \<Longrightarrow> List.map_filter f xs = map h xs"
  by (induction xs) (auto simp: map_filter_simps)

lemma wire_edge_of_ends [simp]: "FromID (wire_edge_of g x y) = x" "ToID (wire_edge_of g x y) = y"
  by (simp_all add: wire_edge_of_def Let_def)

lemma encoded_edges:
  assumes g: "graph_ok g"
  shows "\<exists>ps. JEdges (Graph_MarshalJSON L g) = map (\<lambda>(x, y). wire_edge_of g x y) ps \<and> distinct ps
    \<and> set ps = {(x, y). edge_of g x y \<noteq> None}"
proof -
  let ?xs = "map NodeID (Graph_Nodes g)"
  let ?ps = "concat (map (\<lambda>x. map (Pair x) (target_ids g x)) ?xs)"
  have tg: "sorted_wrt (<) (target_ids g x)" "set (target_ids g x) = {y. edge_of g x y \<noteq> None}" if "x \<in> set ?xs" for x
    using target_ids_spec [OF g, of x] that unfolding Graph_Nodes_ids [OF g] by auto
  have "JEdges (Graph_MarshalJSON L g) = map (\<lambda>(x, y). wire_edge_of g x y) ?ps"
    unfolding JEdges_abs [OF g] by (simp add: map_concat comp_def)
  moreover have "distinct ?ps"
    using Graph_Nodes_sorted [OF g] tg(1) by (intro distinct_pairs) (simp_all add: strict_sorted_iff)
  moreover have "set ?ps = {(x, y). edge_of g x y \<noteq> None}"
  proof (rule set_eqI)
    fix p :: "string \<times> string"
    obtain x y where p: "p = (x, y)" by (cases p)
    show "p \<in> set ?ps \<longleftrightarrow> p \<in> {(x, y). edge_of g x y \<noteq> None}"
    proof (cases "x \<in> set ?xs")
      case True
      then show ?thesis unfolding set_pairs p using tg(2) [OF True] by (simp only: mem_Collect_eq prod.case simp_thms)
    next
      case False
      then have "edge_of g x y = None" using edge_of_nodes [OF g, of x y] Graph_Nodes_ids [OF g] by blast
      then show ?thesis unfolding set_pairs p using False by simp
    qed
  qed
  ultimately show ?thesis by blast
qed

lemma decode_encoded_edges:
  assumes g: "graph_ok g" and r: "reachable_graph L k" and n: "Node k = map_option f \<circ> Node g" and e: "edge_of k = (\<lambda>_ _. None)"
    and ids: "\<And>x. mget ids x = (if Node g x \<noteq> None then Some x else None)"
    and kind: "\<And>x n. Node g x = Some n \<Longrightarrow> Kind (f n) = Kind n"
  shows "\<exists>h. decode_edges ids k (JEdges (Graph_MarshalJSON L g)) = Inr h \<and> Node h = Node k \<and> edge_of h = edge_of g"
proof -
  obtain ps where ps: "JEdges (Graph_MarshalJSON L g) = map (\<lambda>(x, y). wire_edge_of g x y) ps" "distinct ps"
    "set ps = {(x, y). edge_of g x y \<noteq> None}" using encoded_edges [OF g] by blast
  have ends: "x \<noteq> y" "Node g x \<noteq> None" "Node g y \<noteq> None" if "(x, y) \<in> set ps" for x y
    using edge_of_nodes [OF g, of x y] that unfolding ps(3) by simp_all
  have known: "\<forall>e \<in> set (JEdges (Graph_MarshalJSON L g)). mget ids (FromID e) \<noteq> None \<and> mget ids (ToID e) \<noteq> None"
    unfolding ps(1)
  proof
    fix e assume "e \<in> set (map (\<lambda>(x, y). wire_edge_of g x y) ps)"
    then obtain x y where "(x, y) \<in> set ps" "e = wire_edge_of g x y" by auto
    with ends ids show "mget ids (FromID e) \<noteq> None \<and> mget ids (ToID e) \<noteq> None" by simp
  qed
  have "\<forall>x b. mget ids x = Some b \<longrightarrow> Node k b \<noteq> None" by (auto simp: ids n)
  from decode_edges_ok [OF r this known] obtain h where
    h: "decode_edges ids k (JEdges (Graph_MarshalJSON L g)) = Inr h" "Node h = Node k"
      "edge_of h = foldl link_into (edge_of k) (List.map_filter (resolved_edge k ids) (JEdges (Graph_MarshalJSON L g)))"
    by (elim exE conjE)
  have "resolved_edge k ids (wire_edge_of g x y) = Some (x, y, the (edge_of g x y))" if mem: "(x, y) \<in> set ps" for x y
  proof -
    have "map_option Kind (Node k z) = map_option Kind (Node g z)" for z using kind by (cases "Node g z") (simp_all add: n)
    then have d: "DeriveEdgeKind (Node k x) (Node k y) = DeriveEdgeKind (Node g x) (Node g y)" by (intro DeriveEdgeKind_image)
    obtain v where v: "edge_of g x y = Some v" "v \<noteq> EdgeKindUnknown"
      using mem edge_of_known [OF g, of x y] unfolding ps(3) by (cases "edge_of g x y") auto
    show ?thesis using ends [OF mem] v by (simp add: resolved_edge_def ids d) (simp add: wire_edge_of_def Let_def)
  qed
  then have "List.map_filter (resolved_edge k ids) (JEdges (Graph_MarshalJSON L g)) = map (\<lambda>(x, y). (x, y, the (edge_of g x y))) ps"
    unfolding ps(1) map_filter_map by (intro map_filter_all) auto
  moreover have "foldl link_into (\<lambda>_ _. None) (map (\<lambda>(x, y). (x, y, the (edge_of g x y))) ps) = edge_of g"
  proof (rule link_all_exact)
    have "map (\<lambda>(a, b, k). (a, b)) (map (\<lambda>(x, y). (x, y, the (edge_of g x y))) ps) = ps" by (simp add: comp_def case_prod_beta')
    then show "distinct (map (\<lambda>(a, b, k). (a, b)) (map (\<lambda>(x, y). (x, y, the (edge_of g x y))) ps))" using ps(2) by simp
    show "set (map (\<lambda>(x, y). (x, y, the (edge_of g x y))) ps) = {(x, y, k). edge_of g x y = Some k}"
      unfolding set_map ps(3) by force
  qed
  ultimately show ?thesis using h unfolding e by simp
qed

lemma decode_encoded_nodes:
  assumes g: "graph_ok g" and n: "\<forall>n \<in> set (Graph_Nodes g). survives_wire L n"
  shows "\<exists>t. decode_nodes L \<lparr>dec_graph = NewWithCapacity c, dec_ids = [], dec_aliases = []\<rparr>
      (map (\<lambda>n. the (transport (encodeNodeWire L n))) (Graph_Nodes g)) = Inr t
    \<and> reachable_graph L (dec_graph t) \<and> Node (dec_graph t) = map_option (wire_image L) \<circ> Node g \<and> edge_of (dec_graph t) = (\<lambda>_ _. None)
    \<and> (\<forall>x. mget (claim_aliases (dec_ids t) (dec_aliases t)) x = (if Node g x \<noteq> None then Some x else None))"
proof -
  let ?ns = "Graph_Nodes g" and ?t = "\<lambda>n. the (transport (encodeNodeWire L n))"
  let ?wns = "map (\<lambda>n. (?t n, wire_image L n)) ?ns"
  have set_ns: "n \<in> set ?ns \<longleftrightarrow> Node g (NodeID n) = Some n" for n using Graph_Nodes_set [OF g] by simp
  have img: "decodeNode L (?t n) = Inr (wire_image L n)" "W_ID (?t n) = NodeID n" "NodeID (wire_image L n) = NodeID n"
    if "n \<in> set ?ns" for n using survives_wire_image [of L n] n that by auto
  have ne: "NodeID n \<noteq> []" if "n \<in> set ?ns" for n using that set_ns Node_id [OF g] by blast
  have "\<exists>t. decode_nodes L \<lparr>dec_graph = NewWithCapacity c, dec_ids = [], dec_aliases = []\<rparr> (map fst ?wns) = Inr t"
    by (rule decode_nodes_total) (use img ne in \<open>auto simp: New_def NewWithCapacity_def intro: reachable_New [unfolded New_def NewWithCapacity_def]\<close>)
  then obtain t where t: "decode_nodes L \<lparr>dec_graph = NewWithCapacity c, dec_ids = [], dec_aliases = []\<rparr> (map ?t ?ns) = Inr t"
    by (auto simp: comp_def)
  note d = decode_nodes_New [OF t]
  have pairs: "decoded_pairs L (map ?t ?ns) = ?wns" using img(1) by (simp add: decoded_pairs_def)
  have ids: "map (NodeID \<circ> snd) ?wns = map NodeID ?ns" using img(3) by simp
  have dist: "distinct (map NodeID ?ns)" using Graph_Nodes_sorted [OF g] by (simp add: strict_sorted_iff)
  have name: "wire_name ?wns x = (if Node g x \<noteq> None then Some x else None)" for x
  proof -
    have c: "claimed_by ?wns x \<in> {None, Some x}" by (rule claimed_by_identity) (use img in auto)
    then have "claimed_by ?wns x \<noteq> None \<Longrightarrow> x \<in> set (map NodeID ?ns)"
      using claimed_by_values [of ?wns x] ids by (auto simp: image_image img(3))
    with c show ?thesis unfolding wire_name_def ids Graph_Nodes_ids [OF g] by (auto split: option.split)
  qed
  have N: "Node (dec_graph t) = foldl (witness_into L) (\<lambda>_. None) (map (wire_image L) ?ns)" using d(3) pairs by (simp add: comp_def)
  have di: "distinct (map NodeID (map (wire_image L) ?ns))" using dist img(3) by (simp add: comp_def cong: map_cong)
  have "Node (dec_graph t) x = (map_option (wire_image L) \<circ> Node g) x" for x
  proof (cases "Node g x")
    case None
    then have "x \<notin> NodeID ` set (map (wire_image L) ?ns)" using set_ns img(3) by auto
    then show ?thesis using None unfolding N by (simp add: witness_all_untouched)
  next
    case (Some m)
    then have m: "m \<in> set ?ns" "NodeID m = x" using Node_id [OF g] set_ns by auto
    then have "wire_image L m \<in> set (map (wire_image L) ?ns)" by simp
    from witness_all_distinct [OF di this, of L "\<lambda>_. None"] show ?thesis using Some m img(3) unfolding N by simp
  qed
  then show ?thesis using t d(2,4,5) name pairs by (intro exI [of _ t]) auto
qed


text \<open>A manifest node the constructor minted comes back as it was.\<close>

lemma TrimPrefix_append [simp]: "TrimPrefix (p @ s) p = s"
  by (simp add: TrimPrefix_def HasPrefix_def)

lemma manifest_survives:
  assumes "NewManifestNode v kind = Inr n"
  shows "decodeNode L (the (transport (encodeNodeWire L (ManifestNode (n\<lparr>ManifestMeta := meta\<rparr>))))) = Inr (ManifestNode (n\<lparr>ManifestMeta := meta\<rparr>))"
    "survives_wire L (ManifestNode (n\<lparr>ManifestMeta := meta\<rparr>))"
proof -
  obtain path where path: "CanonicalRepoPath v = Inr path"
    and n: "n = \<lparr>ManifestPath = path, FileKind = kind, ManifestMeta = [], manifest_id = manifestIDPrefix @ path\<rparr>"
    using assms by (auto simp: NewManifestNode_def split: sum.splits)
  note c = CanonicalRepoPath_Inr [OF path]
  have pm: "PackageManager_UnmarshalJSON (PackageManager_MarshalJSON []) = Inr []" by code_simp
  have ne: "TrimSpace path \<noteq> []" using c(1,7) by simp
  let ?m = "n\<lparr>ManifestMeta := meta\<rparr>"
  have w: "transport (encodeNodeWire L (ManifestNode ?m)) = Some (encodeNodeWire L (ManifestNode ?m))"
    by (simp add: transport_def Coordinates_zero_def Wire_zero_def pm)
  have "manifestPath (encodeNodeWire L (ManifestNode ?m)) = path"
    using ne TrimPrefix_append [of manifestIDPrefix path] by (simp add: manifestPath_def n Let_def)
  then have d: "decodeNode L (encodeNodeWire L (ManifestNode ?m)) = Inr (ManifestNode ?m)"
    by (simp add: decodeNode_def wireKind_def ParseNodeKind_def decodeManifestNode_def NewManifestNode_def c(9) n)
  show "decodeNode L (the (transport (encodeNodeWire L (ManifestNode ?m)))) = Inr (ManifestNode ?m)"
    "survives_wire L (ManifestNode ?m)"
    unfolding survives_wire_def w by (simp_all add: d del: encodeNodeWire.simps)
qed

section \<open>Properties\<close>

text \<open>The encoded form of a graph is a function of its content: two graphs with the same nodes
  and the same edges encode to the same payload, whatever order their nodes were added in and
  whatever slots were freed and used again.\<close>

lemma Graph_MarshalJSON_canonical:
  assumes "reachable_graph L g" "reachable_graph L h" "\<forall>x. Node g x = Node h x" "\<forall>x y. edge_of g x y = edge_of h x y"
  shows "Graph_MarshalJSON L g = Graph_MarshalJSON L h"
  by (rule Graph_MarshalJSON_cong [OF reachable_graph_ok [OF assms(1)] reachable_graph_ok [OF assms(2)]])
    (use assms(3,4) in \<open>auto simp: fun_eq_iff\<close>)

definition sample_manifest :: "string \<Rightarrow> graph_node" where
  "sample_manifest path = ManifestNode (projr (NewManifestNode path ''gomod''))"

definition wire_sample_nodes :: "string \<Rightarrow> string \<Rightarrow> graph" where
  "wire_sample_nodes p q =
     projr (AddNode (projr (AddNode New (Some (sample_manifest p)))) (Some (sample_manifest q)))"

definition wire_sample :: "string \<Rightarrow> string \<Rightarrow> graph" where
  "wire_sample p q = projr (AddTypedEdge (wire_sample_nodes p q) ''manifest:a/go.mod'' ''manifest:b/go.mod'' EdgeKindUnknown)"

lemma wire_sample_reachable:
  assumes "\<not> isl (AddNode New (Some (sample_manifest p)))"
    "\<not> isl (AddNode (projr (AddNode New (Some (sample_manifest p)))) (Some (sample_manifest q)))"
    "\<not> isl (AddTypedEdge (wire_sample_nodes p q) ''manifest:a/go.mod'' ''manifest:b/go.mod'' EdgeKindUnknown)"
  shows "reachable_graph L (wire_sample p q)"
proof -
  note 1 = sum.collapse(2) [OF assms(1), symmetric] and 2 = sum.collapse(2) [OF assms(2), symmetric]
    and 3 = sum.collapse(2) [OF assms(3), symmetric]
  from reachable_step [OF reachable_step [OF reachable_step [OF reachable_New step_add [OF 1]]
      step_add [OF 2]] step_link [OF 3 [unfolded wire_sample_nodes_def]]]
  show ?thesis unfolding wire_sample_def wire_sample_nodes_def .
qed

lemma wire_samples_reachable: "reachable_graph L (wire_sample ''a/go.mod'' ''b/go.mod'')" "reachable_graph L (wire_sample ''b/go.mod'' ''a/go.mod'')"
  by (rule wire_sample_reachable; code_simp)+

lemma same_nodes:
  assumes "{x. Node g x \<noteq> None} = S" "{x. Node h x \<noteq> None} = S" "\<forall>x \<in> S. Node g x = Node h x"
  shows "Node g x = Node h x"
proof (cases "x \<in> S")
  case False
  then have "x \<notin> {x. Node g x \<noteq> None}" "x \<notin> {x. Node h x \<noteq> None}" by (simp_all only: assms(1,2) not_False_eq_True)
  then show ?thesis by simp
qed (use assms(3) in blast)

lemma same_edges:
  assumes "graph_ok g" "graph_ok h" "{x. Node g x \<noteq> None} = S" "{x. Node h x \<noteq> None} = S" "\<forall>x \<in> S. \<forall>y \<in> S. edge_of g x y = edge_of h x y"
  shows "edge_of g x y = edge_of h x y"
proof (cases "x \<in> S \<and> y \<in> S")
  case False
  then have "edge_of g x y = None" "edge_of h x y = None"
    using edge_of_nodes [OF assms(1), of x y] edge_of_nodes [OF assms(2), of x y] assms(3,4) by blast+
  then show ?thesis by simp
qed (use assms(5) in blast)

text \<open>C26. Sending a graph and reading it back keeps its structure: when every node record of the
  graph comes back under its own ID, the decoded graph has the same edges with the same kinds, the
  ones the payload leaves to be derived included, and each node is what the reader's gates make of
  the record that was sent.\<close>

theorem Graph_round_trip:
  assumes g: "reachable_graph L g" and n: "\<forall>n \<in> set (Graph_Nodes g). survives_wire L n"
    and b: "bytes \<le> MaxPayloadBytes" "length (Graph_Nodes g) \<le> MaxGraphNodes" "length (JEdges (Graph_MarshalJSON L g)) \<le> MaxGraphEdges"
  shows "\<exists>h. Graph_UnmarshalJSON L (payload_of bytes (Graph_MarshalJSON L g)) = Inr h \<and> edge_of h = edge_of g
    \<and> (\<forall>x. Node h x = (case Node g x of None \<Rightarrow> None | Some m \<Rightarrow> Some (wire_image L m)))"
proof -
  have ok: "graph_ok g" by (rule reachable_graph_ok [OF g])
  let ?j = "Graph_MarshalJSON L g"
  have nodes: "JNodes ?j = map (encodeNodeWire L) (Graph_Nodes g)" by (simp add: Graph_MarshalJSON_def)
  have "\<forall>w \<in> set (JNodes ?j). transport w = Some (the (transport w))"
    using n survives_wire_image(1) unfolding nodes by fastforce
  from decodeGraphPayload_of [OF _ b(3) this, of MaxGraphNodes bytes] b(2)
  have p: "decodeGraphPayload MaxGraphNodes MaxGraphEdges (payload_of bytes ?j)
      = Inr \<lparr>JNodes = map (\<lambda>n. the (transport (encodeNodeWire L n))) (Graph_Nodes g), JEdges = JEdges ?j\<rparr>"
    by (simp add: nodes comp_def)
  obtain t where t: "decode_nodes L \<lparr>dec_graph = NewWithCapacity (length (Graph_Nodes g)), dec_ids = [], dec_aliases = []\<rparr>
      (map (\<lambda>n. the (transport (encodeNodeWire L n))) (Graph_Nodes g)) = Inr t"
    "reachable_graph L (dec_graph t)" "Node (dec_graph t) = map_option (wire_image L) \<circ> Node g" "edge_of (dec_graph t) = (\<lambda>_ _. None)"
    and ids: "\<forall>x. mget (claim_aliases (dec_ids t) (dec_aliases t)) x = (if Node g x \<noteq> None then Some x else None)"
    using decode_encoded_nodes [OF ok n] by blast
  have kind: "Kind (wire_image L m) = Kind m" if "Node g x = Some m" for x m
    using survives_wire_image(3) n Graph_Nodes_set [OF ok] Node_id [OF ok that] that by auto
  have "\<exists>h. decode_edges (claim_aliases (dec_ids t) (dec_aliases t)) (dec_graph t) (JEdges ?j) = Inr h
      \<and> Node h = Node (dec_graph t) \<and> edge_of h = edge_of g"
    by (rule decode_encoded_edges [OF ok t(2-4) spec [OF ids]]) (rule kind)
  then obtain h where h: "decode_edges (claim_aliases (dec_ids t) (dec_aliases t)) (dec_graph t) (JEdges ?j) = Inr h"
    "Node h = Node (dec_graph t)" "edge_of h = edge_of g" by blast
  have "decode_graph_json L \<lparr>JNodes = map (\<lambda>n. the (transport (encodeNodeWire L n))) (Graph_Nodes g), JEdges = JEdges ?j\<rparr> = Inr h"
    using t(1) h(1) by (simp add: decode_graph_json_def)
  with p b(1) have "Graph_UnmarshalJSON L (payload_of bytes ?j) = Inr h"
    by (simp add: Graph_UnmarshalJSON_def) (simp add: payload_of_def)
  moreover have "Node h x = (case Node g x of None \<Rightarrow> None | Some m \<Rightarrow> Some (wire_image L m))" for x
    by (simp add: h(2) t(3) split: option.split)
  ultimately show ?thesis using h(3) by blast
qed

theorem Graph_round_trip_witness:
  "\<exists>h. Graph_UnmarshalJSON plain_library (payload_of 300 (Graph_MarshalJSON plain_library (wire_sample ''a/go.mod'' ''b/go.mod''))) = Inr h
     \<and> edge_of h ''manifest:a/go.mod'' ''manifest:b/go.mod'' = Some EdgeKindDependsOn"
proof -
  let ?g = "wire_sample ''a/go.mod'' ''b/go.mod''"
  have n: "\<forall>n \<in> set (Graph_Nodes ?g). survives_wire plain_library n" by code_simp
  have l: "length (Graph_Nodes ?g) = 2" "length (JEdges (Graph_MarshalJSON plain_library ?g)) = 1" by code_simp+
  have e: "edge_of ?g ''manifest:a/go.mod'' ''manifest:b/go.mod'' = Some EdgeKindDependsOn" by code_simp
  have b: "(300 :: nat) \<le> MaxPayloadBytes" "length (Graph_Nodes ?g) \<le> MaxGraphNodes"
    "length (JEdges (Graph_MarshalJSON plain_library ?g)) \<le> MaxGraphEdges" unfolding l by simp_all
  from Graph_round_trip [OF wire_samples_reachable(1) n b] e show ?thesis by auto
qed

text \<open>C27. What the decoder accepts: a payload within the bounds, every node of which passed its gate,
  every wire ID naming one identity, every edge accounted for. The graph it returns is one the graph
  operations build, its nodes are the decoded ones folded by identity, and two of its nodes are
  joined exactly when an edge of the payload names them and they are not the same.\<close>

theorem Graph_UnmarshalJSON_sound:
  assumes "Graph_UnmarshalJSON L payload = Inr g"
  shows "reachable_graph L g \<and> (payload = NullPayload \<and> g = New \<or> payload_bytes payload \<le> MaxPayloadBytes
    \<and> (\<exists>j. decodeGraphPayload MaxGraphNodes MaxGraphEdges payload = Inr j \<and> length (JNodes j) \<le> MaxGraphNodes
         \<and> length (JEdges j) \<le> MaxGraphEdges \<and> stands_for L j g))"
proof (cases "payload = NullPayload")
  case True
  then show ?thesis using assms by (simp add: Graph_UnmarshalJSON_def reachable_New)
next
  case False
  then obtain j where j: "payload_bytes payload \<le> MaxPayloadBytes" "decodeGraphPayload MaxGraphNodes MaxGraphEdges payload = Inr j"
    "decode_graph_json L j = Inr g"
    using assms by (auto simp: Graph_UnmarshalJSON_def split: if_splits sum.splits)
  from decodeGraphPayload_bounds [OF j(2)] decode_graph_json_sound [OF j(3)] j(1,2) show ?thesis by blast
qed

lemma wire_sample_decodes:
  "\<exists>g. Graph_UnmarshalJSON plain_library (payload_of 300 (Graph_MarshalJSON plain_library (wire_sample ''a/go.mod'' ''b/go.mod''))) = Inr g"
proof -
  let ?j = "Graph_MarshalJSON plain_library (wire_sample ''a/go.mod'' ''b/go.mod'')"
  have l: "length (JNodes ?j) = 2" "length (JEdges ?j) = 1" by code_simp+
  have t: "\<forall>w \<in> set (JNodes ?j). transport w = Some (the (transport w))" by code_simp
  have "decodeGraphPayload MaxGraphNodes MaxGraphEdges (payload_of 300 ?j) = Inr \<lparr>JNodes = map (\<lambda>w. the (transport w)) (JNodes ?j), JEdges = JEdges ?j\<rparr>"
    by (rule decodeGraphPayload_of [OF _ _ t]) (simp_all only: l, simp_all)
  moreover have "\<not> isl (decode_graph_json plain_library \<lparr>JNodes = map (\<lambda>w. the (transport w)) (JNodes ?j), JEdges = JEdges ?j\<rparr>)" by code_simp
  ultimately show ?thesis
    by (simp add: Graph_UnmarshalJSON_def payload_of_def) (metis sum.collapse(2))
qed

theorem Graph_UnmarshalJSON_sound_witness:
  "\<exists>g j. Graph_UnmarshalJSON plain_library (payload_of 300 (Graph_MarshalJSON plain_library (wire_sample ''a/go.mod'' ''b/go.mod''))) = Inr g
     \<and> reachable_graph plain_library g \<and> stands_for plain_library j g"
proof -
  let ?p = "payload_of 300 (Graph_MarshalJSON plain_library (wire_sample ''a/go.mod'' ''b/go.mod''))"
  obtain g where g: "Graph_UnmarshalJSON plain_library ?p = Inr g" using wire_sample_decodes by blast
  have "?p \<noteq> NullPayload" by (simp add: payload_of_def)
  with Graph_UnmarshalJSON_sound [OF g] g show ?thesis by blast
qed

section \<open>What the registry decoder builds\<close>

lemma map_of_rev_Cons: "map_of (rev ((k, v) # ms)) x = (case map_of (rev ms) x of Some u \<Rightarrow> Some u | None \<Rightarrow> if x = k then Some v else None)"
  by (simp add: map_add_def split: option.split)

lemma map_of_replace:
  "map_of (map (\<lambda>e. if fst e = k then (k, v) else e) es) x = (if x = k \<and> map_of es k \<noteq> None then Some v else map_of es x)"
  by (induction es) auto

lemma registry_entries_spec:
  "registry_entries bound entries ms = Inr out \<Longrightarrow> distinct (map fst entries) \<Longrightarrow>
   distinct (map fst out) \<and> length out \<le> max bound (length entries)
   \<and> (\<forall>x. map_of out x = (case map_of (rev ms) x of Some v \<Rightarrow> v | None \<Rightarrow> map_of entries x))"
proof (induction bound entries ms rule: registry_entries.induct)
  case (2 bound entries purl v rest)
  obtain pkg where v: "v = Some pkg" and bound: "map_of entries purl = None \<longrightarrow> length entries < bound"
    using 2(3) by (auto split: if_splits option.splits)
  show ?case
  proof (cases "map_of entries purl = None")
    case True
    then have step: "registry_entries bound (entries @ [(purl, pkg)]) rest = Inr out" using 2(3) v by (auto split: if_splits)
    have d: "distinct (map fst (entries @ [(purl, pkg)]))" using 2(4) True by (simp add: map_of_eq_None_iff)
    have b: "\<not> (map_of entries purl = None \<and> bound \<le> length entries)" using bound by auto
    from 2(1) [OF b v True step d] show ?thesis
      using True bound v unfolding map_of_rev_Cons by (auto simp: map_add_def split: option.splits)
  next
    case False
    let ?es = "map (\<lambda>e. if fst e = purl then (purl, pkg) else e) entries"
    have step: "registry_entries bound ?es rest = Inr out" using 2(3) v False by (auto split: if_splits)
    have keys: "map fst ?es = map fst entries" by simp
    have d: "distinct (map fst ?es)" unfolding keys by (rule 2(4))
    have b: "\<not> (map_of entries purl = None \<and> bound \<le> length entries)" using False by auto
    from 2(2) [OF b v False step d] show ?thesis
      using v False unfolding map_of_rev_Cons map_of_replace by (simp split: option.split)
  qed
qed simp

lemma registry_entries_readable: "registry_entries bound entries ms = Inr out \<Longrightarrow> (k, None) \<notin> set ms"
  by (induction bound entries ms rule: registry_entries.induct) (auto split: if_splits option.splits)

lemma registry_package_url: "PURL (PkgCoords (registry_package e)) = fst e"
  by (simp add: registry_package_def Let_def)

lemma registry_fold:
  "registry_ok r \<Longrightarrow> distinct (map fst es) \<Longrightarrow> \<forall>e \<in> set es. Registry_Get r (fst e) = None \<Longrightarrow>
   registry_ok (foldl (\<lambda>r e. add_package L r (Some (registry_package e))) r es)
   \<and> (\<forall>x. Registry_Get (foldl (\<lambda>r e. add_package L r (Some (registry_package e))) r es) x
        = (case map_of es x of Some p \<Rightarrow> if x = [] then Registry_Get r x else Some (admitted L (registry_package (x, p))) | None \<Rightarrow> Registry_Get r x))"
proof (induction es arbitrary: r)
  case (Cons e es)
  obtain k p where e: "e = (k, p)" by (cases e)
  let ?r = "add_package L r (Some (registry_package e))"
  have ok: "registry_ok ?r" by (rule add_package_ok [OF Cons.prems(1)])
  have none: "mget (byPURL r) k = None" using Cons.prems(3) by (simp add: e Registry_Get_def)
  have get: "Registry_Get ?r x = (if x = k \<and> k \<noteq> [] then Some (admitted L (registry_package e)) else Registry_Get r x)" for x
  proof (cases "k = []")
    case True
    then show ?thesis by (simp add: add_package_def Registry_Add_def registry_package_url e)
  next
    case False
    then show ?thesis using none
      by (simp add: add_package_def Registry_Add_def registry_package_url e Let_def admitted_def Registry_Get_def gomap_simps)
  qed
  have fresh: "\<forall>e' \<in> set es. Registry_Get ?r (fst e') = None"
  proof
    fix e' assume mem: "e' \<in> set es"
    then have "fst e' \<noteq> k" using Cons.prems(2) by (force simp: e)
    then show "Registry_Get ?r (fst e') = None" unfolding get using Cons.prems(3) mem by simp
  qed
  have "map_of es k = None" using Cons.prems(2) by (simp add: e map_of_eq_None_iff)
  moreover have "distinct (map fst es)" using Cons.prems(2) by simp
  ultimately show ?case using Cons.IH [OF ok _ fresh] unfolding get foldl.simps by (auto simp: e split: option.splits)
qed simp

lemma map_of_sort_key: "distinct (map fst es) \<Longrightarrow> map_of (sort_key fst es) = map_of (es :: (string \<times> 'v) list)"
  by (rule map_of_eqI) (auto simp: map_of_eq_Some_iff distinct_map_sort_key)

text \<open>Reading a registry: a payload of more distinct package URLs than the bound, or with a member
  that cannot be read, is refused; otherwise the registry holds one record per non-empty URL, the last
  member of that URL read through the gate and filed under the URL, whatever the record said its URL
  was; a \<open>null\<close> member is an empty package.\<close>

lemma Registry_UnmarshalJSON_spec:
  assumes "Registry_UnmarshalJSON L bytes (Some ms) = Inr r"
  shows "registry_ok r \<and> bytes \<le> MaxPayloadBytes \<and> card (fst ` set ms) \<le> MaxRegistryPackages
    \<and> (\<forall>x. Registry_Get r x = (case map_of (rev ms) x of
           Some (Some p) \<Rightarrow> if x = [] then None else Some (admitted L (registry_package (x, p)))
         | _ \<Rightarrow> None))"
proof -
  obtain es where b: "bytes \<le> MaxPayloadBytes" and es: "registry_entries MaxRegistryPackages [] ms = Inr es"
    and r: "r = foldl (\<lambda>r e. add_package L r (Some (registry_package e))) NewPackageRegistry (sort_key fst es)"
    using assms by (auto simp: Registry_UnmarshalJSON_def split: if_splits sum.splits)
  from registry_entries_spec [OF es] have d: "distinct (map fst es)" and l: "length es \<le> MaxRegistryPackages"
    and m: "\<And>x. map_of es x = (case map_of (rev ms) x of Some v \<Rightarrow> v | None \<Rightarrow> None)" by (auto split: option.split)
  have new: "registry_ok NewPackageRegistry" "Registry_Get NewPackageRegistry x = None" for x
    by (simp_all add: registry_ok_def NewPackageRegistry_def Registry_Get_def)
  have "distinct (map fst (sort_key fst es))" using d by (simp add: distinct_map_sort_key)
  note fold = registry_fold [OF new(1) this, where L = L, folded r]
  have "Registry_Get r x = (case map_of (rev ms) x of Some (Some p) \<Rightarrow> if x = [] then None else Some (admitted L (registry_package (x, p))) | _ \<Rightarrow> None)" for x
    using fold new(2) by (simp add: map_of_sort_key [OF d] m split: option.split)
  moreover have "fst ` set ms = fst ` set es"
  proof -
    have readable: "map_of (rev ms) x \<noteq> Some None" for x using registry_entries_readable [OF es] map_of_SomeD by fastforce
    have "map_of (rev ms) x \<noteq> None \<longleftrightarrow> map_of es x \<noteq> None" for x
      using readable [of x] by (cases "map_of (rev ms) x") (simp_all add: m)
    then have "x \<in> fst ` set (rev ms) \<longleftrightarrow> x \<in> fst ` set es" for x by (metis map_of_eq_None_iff)
    then show ?thesis by auto
  qed
  moreover have "card (fst ` set es) = length es" using d by (metis distinct_card length_map set_map)
  ultimately show ?thesis using fold new(2) b l by auto
qed

end
