(* ===== verification/ScanCodec.thy ===== *)
theory ScanCodec
  imports Scan Wire
begin

text \<open>
  The canonical bytes of a scan record, \<^verbatim>\<open>scan/encode.go\<close> and the codec methods of
  \<^verbatim>\<open>scan/record.go\<close>: the order every collection is written in, the section digests, \<open>Encode\<close>,
  \<open>Digest\<close> and \<open>Decode\<close> with its bounds. Text and hashing are the argument \<open>C\<close>: what
  \<open>json.Marshal\<close> writes for a value that has passed the gates below, what \<open>json.Unmarshal\<close> and
  \<open>json.Compact\<close> read back, and the SHA-256 of a byte string in hexadecimal. The values the codec
  writes and reads are modelled, gate by gate; the text of each is not.
\<close>

record scan_codec =
  marshal_manifests :: "scan_manifest list \<Rightarrow> string option"
  marshal_packages :: "package option list \<Rightarrow> string option"
  marshal_findings :: "finding list \<Rightarrow> string option"
  marshal_record :: "scan_record \<Rightarrow> string option"
  unmarshal_record :: "string \<Rightarrow> scan_record option"
  unmarshal_sections :: "string \<Rightarrow> (string \<times> string \<times> string) option"
  compact_json :: "string \<Rightarrow> string option"
  sha256_hex :: "string \<Rightarrow> string"

section \<open>The values the codec writes and reads\<close>

definition Manifest_MarshalJSON :: "library \<Rightarrow> scan_manifest \<Rightarrow> scan_manifest" where
  "Manifest_MarshalJSON L m =
     m\<lparr>Man_Document := map_option (Document_MarshalJSON L) (Man_Document m),
       Dependencies := map (scan_Dependency_MarshalJSON L) (Dependencies m)\<rparr>"

definition scan_Package_MarshalJSON :: "library \<Rightarrow> package option \<Rightarrow> package option" where
  "scan_Package_MarshalJSON L p = map_option (NormalizeAssertions L) p"

definition Record_MarshalJSON :: "library \<Rightarrow> scan_record \<Rightarrow> scan_record" where
  "Record_MarshalJSON L r =
     r\<lparr>Rec_Subject := Subject_MarshalJSON (Rec_Subject r), Manifests := map (Manifest_MarshalJSON L) (Manifests r),
       Packages := map (scan_Package_MarshalJSON L) (Packages r), Findings := map Finding_MarshalJSON (Findings r)\<rparr>"

text \<open>Reading: \<open>json.Unmarshal\<close> calls the gates of the subject and of every dependency; the codecs of
  the model's own types are part of what \<open>unmarshal_record\<close> reads.\<close>

definition Record_UnmarshalJSON :: "scan_record \<Rightarrow> scan_record" where
  "Record_UnmarshalJSON w =
     w\<lparr>Rec_Subject := Subject_UnmarshalJSON (Rec_Subject w),
       Manifests := map (\<lambda>m. m\<lparr>Dependencies := map scan_Dependency_UnmarshalJSON (Dependencies m)\<rparr>) (Manifests w)\<rparr>"

section \<open>The canonical order\<close>

definition sortedOrNil :: "string list \<Rightarrow> string list" where
  "sortedOrNil xs = (if xs = [] then [] else remdups_adj (sort xs))"

definition sortedScopesOrNil :: "scope list \<Rightarrow> scope list" where
  "sortedScopesOrNil scopes = (if scopes = [] then [] else remdups_adj (sort scopes))"

definition canonical_dependency :: "library \<Rightarrow> scan_dependency \<Rightarrow> scan_dependency" where
  "canonical_dependency L d =
     d\<lparr>DependsOn := sortedOrNil (DependsOn d), Dep_Scopes := sortedScopesOrNil (Dep_Scopes d),
       Dep_Locations := CanonicalLocations (Dep_Locations d), Dep_Licenses := MergeLicenses L [] (Dep_Licenses d)\<rparr>"

definition canonical_manifest :: "library \<Rightarrow> scan_manifest \<Rightarrow> scan_manifest" where
  "canonical_manifest L m =
     (if Dependencies m = [] then m
      else m\<lparr>Dependencies := sort_key Dep_ID (map (canonical_dependency L) (Dependencies m))\<rparr>)"

definition findingSortKey :: "finding \<Rightarrow> string" where
  "findingSortKey f =
     Join [FindingID f, FindingPackageRef f, FindingKind f, VulnerabilityID f, RuleID f, Auditor f, FindingSource f] [CHR 0x00]"

definition waiverSortKey :: "waiver \<Rightarrow> string" where
  "waiverSortKey w = Join [WaiverID w, WaiverPackageRef w, WaiverVulnerabilityID w, WaiverRuleID w] [CHR 0x00]"

definition warning_sort_key :: "detector_warning \<Rightarrow> string" where
  "warning_sort_key w =
     Join [WarningType w, WarningCode w, WarningSource w, WarningSubproject w, WarningManifest w, WarningMessage w] [CHR 0x00]"

definition package_url :: "package option \<Rightarrow> string" where
  "package_url p = (case p of None \<Rightarrow> [] | Some p \<Rightarrow> PURL (PkgCoords p))"

definition canonicalize :: "library \<Rightarrow> scan_record \<Rightarrow> scan_record" where
  "canonicalize L r =
     r\<lparr>Rec_SchemaVersion := SchemaVersion,
       Manifests := sort_key (\<lambda>m. (Man_Path m, Man_Subproject m)) (map (canonical_manifest L) (Manifests r)),
       Packages := sort_key package_url (filter (\<lambda>p. p \<noteq> None) (Packages r)),
       Findings := sort_key findingSortKey (map (\<lambda>f. f\<lparr>FindingDependencyRefs := sortedOrNil (FindingDependencyRefs f)\<rparr>) (Findings r)),
       Warnings := sort_key warning_sort_key (Warnings r),
       Waivers := sort_key waiverSortKey (Waivers r)\<rparr>"

section \<open>Digests\<close>

datatype scan_codec_error =
    NilRecord | EncodingFailed | RecordTooLarge string nat | RecordUnreadable
  | SchemaVersionUnsupported string | SectionsUnreadable | DigestMismatch string

definition digestOf :: "scan_codec \<Rightarrow> string \<Rightarrow> string" where
  "digestOf C s = ''sha256:'' @ sha256_hex C s"

definition sectionDigests :: "library \<Rightarrow> scan_codec \<Rightarrow> scan_record \<Rightarrow> scan_codec_error + section_digests" where
  "sectionDigests L C r =
     (case (marshal_manifests C (map (Manifest_MarshalJSON L) (Manifests r)),
            marshal_packages C (map (scan_Package_MarshalJSON L) (Packages r)),
            marshal_findings C (map Finding_MarshalJSON (Findings r))) of
        (Some m, Some p, Some f) \<Rightarrow>
          Inr \<lparr>ManifestsDigest = digestOf C m, PackagesDigest = digestOf C p, FindingsDigest = digestOf C f\<rparr>
      | _ \<Rightarrow> Inl EncodingFailed)"

definition section_digest :: "scan_codec \<Rightarrow> string \<Rightarrow> string option" where
  "section_digest C raw =
     (if raw = [] then Some (digestOf C ''null'') else map_option (digestOf C) (compact_json C raw))"

definition sectionDigestsOf :: "scan_codec \<Rightarrow> string \<Rightarrow> scan_codec_error + section_digests" where
  "sectionDigestsOf C payload =
     (case unmarshal_sections C payload of
        None \<Rightarrow> Inl SectionsUnreadable
      | Some (m, p, f) \<Rightarrow>
          (case (section_digest C m, section_digest C p, section_digest C f) of
             (Some m, Some p, Some f) \<Rightarrow> Inr \<lparr>ManifestsDigest = m, PackagesDigest = p, FindingsDigest = f\<rparr>
           | _ \<Rightarrow> Inl SectionsUnreadable))"

section \<open>Encoding and decoding\<close>

abbreviation MaxRecordBytes :: nat where "MaxRecordBytes \<equiv> MaxPayloadBytes"
abbreviation MaxManifests :: nat where "MaxManifests \<equiv> 2 ^ 16"
abbreviation MaxFindings :: nat where "MaxFindings \<equiv> 2 ^ 20"

definition Encode :: "library \<Rightarrow> scan_codec \<Rightarrow> scan_record option \<Rightarrow> scan_codec_error + string" where
  "Encode L C record =
     (case record of
        None \<Rightarrow> Inl NilRecord
      | Some r \<Rightarrow>
          (let r = canonicalize L r in
           case sectionDigests L C r of
             Inl err \<Rightarrow> Inl err
           | Inr digests \<Rightarrow>
               (case marshal_record C (Record_MarshalJSON L (r\<lparr>Rec_Digests := Some digests\<rparr>)) of
                  None \<Rightarrow> Inl EncodingFailed
                | Some payload \<Rightarrow> Inr payload)))"

definition Record_Digest :: "library \<Rightarrow> scan_codec \<Rightarrow> scan_record option \<Rightarrow> scan_codec_error + string" where
  "Record_Digest L C r = map_sum id (digestOf C) (Encode L C r)"

definition mismatch :: "string \<times> string \<times> string \<Rightarrow> bool" where
  "mismatch s = (case s of (name, recorded, actual) \<Rightarrow> recorded \<noteq> [] \<and> recorded \<noteq> actual)"

definition check_sections :: "scan_codec \<Rightarrow> string \<Rightarrow> scan_record \<Rightarrow> scan_codec_error option" where
  "check_sections C payload r =
     (case Rec_Digests r of
        None \<Rightarrow> None
      | Some recorded \<Rightarrow>
          (case sectionDigestsOf C payload of
             Inl err \<Rightarrow> Some err
           | Inr actual \<Rightarrow>
               map_option (\<lambda>s. DigestMismatch (fst s))
                 (List.find mismatch
                    [(''manifests'', ManifestsDigest recorded, ManifestsDigest actual),
                     (''packages'', PackagesDigest recorded, PackagesDigest actual),
                     (''findings'', FindingsDigest recorded, FindingsDigest actual)])))"

definition Decode :: "scan_codec \<Rightarrow> string \<Rightarrow> scan_codec_error + scan_record" where
  "Decode C payload =
     (if length payload > MaxRecordBytes then Inl (RecordTooLarge [] (length payload))
      else (case unmarshal_record C payload of
              None \<Rightarrow> Inl RecordUnreadable
            | Some wire \<Rightarrow>
                (let r = Record_UnmarshalJSON wire in
                 if Rec_SchemaVersion r \<noteq> SchemaVersion then Inl (SchemaVersionUnsupported (Rec_SchemaVersion r))
                 else if length (Manifests r) > MaxManifests then Inl (RecordTooLarge ''manifests'' (length (Manifests r)))
                 else (case List.find (\<lambda>m. length (Dependencies m) > MaxGraphNodes) (Manifests r) of
                         Some m \<Rightarrow> Inl (RecordTooLarge (Man_Path m) (length (Dependencies m)))
                       | None \<Rightarrow>
                           if length (Packages r) > MaxRegistryPackages then Inl (RecordTooLarge ''packages'' (length (Packages r)))
                           else if length (Findings r) > MaxFindings then Inl (RecordTooLarge ''findings'' (length (Findings r)))
                           else (case check_sections C payload r of Some err \<Rightarrow> Inl err | None \<Rightarrow> Inr r)))))"


section \<open>Records of the same content\<close>

text \<open>One list rearranged into another, an element at a time replaced by one \<open>rel\<close> relates it to.\<close>

definition shuffled :: "('a \<Rightarrow> 'a \<Rightarrow> bool) \<Rightarrow> 'a list \<Rightarrow> 'a list \<Rightarrow> bool" where
  "shuffled rel xs ys \<longleftrightarrow> (\<exists>zs. mset zs = mset xs \<and> list_all2 rel zs ys)"

lemma shuffled_sort_key:
  fixes key :: "'b \<Rightarrow> 'k :: linorder"
  assumes "shuffled rel xs ys" and eq: "\<And>x y. x \<in> set xs \<Longrightarrow> rel x y \<Longrightarrow> f x = f y" and d: "distinct (map key (map f xs))"
  shows "sort_key key (map f xs) = sort_key key (map f ys)"
proof -
  obtain zs where zs: "mset zs = mset xs" "list_all2 rel zs ys" using assms(1) by (auto simp: shuffled_def)
  have "map f zs = map f ys" if "set zs \<subseteq> set xs" using zs(2) that by (induction rule: list_all2_induct) (auto dest: eq)
  then have m: "map f zs = map f ys" using mset_eq_setD [OF zs(1)] by simp
  have "mset (map f xs) = mset (map f ys)" unfolding m [symmetric] by (simp add: zs(1))
  then have "set (map f xs) = set (map f ys)" "distinct (map key (map f ys))"
    using d by (metis mset_eq_setD, metis mset_map mset_eq_imp_distinct_iff)
  then show ?thesis using d by (intro sort_key_cong_set)
qed

lemma shuffled_refl: "(\<And>x. rel x x) \<Longrightarrow> mset xs = mset ys \<Longrightarrow> shuffled rel xs ys"
  by (auto simp: shuffled_def list_all2_same intro!: exI [of _ ys])

definition shuffled_dependency :: "scan_dependency \<Rightarrow> scan_dependency \<Rightarrow> bool" where
  "shuffled_dependency d d' \<longleftrightarrow>
     d' = d\<lparr>DependsOn := DependsOn d', Dep_Scopes := Dep_Scopes d', Dep_Locations := Dep_Locations d'\<rparr>
     \<and> set (DependsOn d') = set (DependsOn d) \<and> set (Dep_Scopes d') = set (Dep_Scopes d)
     \<and> set (Dep_Locations d') = set (Dep_Locations d)"

definition shuffled_manifest :: "scan_manifest \<Rightarrow> scan_manifest \<Rightarrow> bool" where
  "shuffled_manifest m m' \<longleftrightarrow> m' = m\<lparr>Dependencies := Dependencies m'\<rparr> \<and> shuffled shuffled_dependency (Dependencies m) (Dependencies m')"

definition shuffled_finding :: "finding \<Rightarrow> finding \<Rightarrow> bool" where
  "shuffled_finding f f' \<longleftrightarrow> f' = f\<lparr>FindingDependencyRefs := FindingDependencyRefs f'\<rparr>
     \<and> set (FindingDependencyRefs f') = set (FindingDependencyRefs f)"

definition shuffled_record :: "scan_record \<Rightarrow> scan_record \<Rightarrow> bool" where
  "shuffled_record r r' \<longleftrightarrow>
     r' = r\<lparr>Manifests := Manifests r', Packages := Packages r', Findings := Findings r', Warnings := Warnings r', Waivers := Waivers r'\<rparr>
     \<and> shuffled shuffled_manifest (Manifests r) (Manifests r') \<and> mset (Packages r') = mset (Packages r)
     \<and> shuffled shuffled_finding (Findings r) (Findings r') \<and> mset (Warnings r') = mset (Warnings r)
     \<and> mset (Waivers r') = mset (Waivers r)"

text \<open>No two members of a collection share the key it is sorted by.\<close>

definition distinct_keys :: "scan_record \<Rightarrow> bool" where
  "distinct_keys r \<longleftrightarrow> distinct (map (\<lambda>m. (Man_Path m, Man_Subproject m)) (Manifests r))
     \<and> (\<forall>m \<in> set (Manifests r). distinct (map Dep_ID (Dependencies m)))
     \<and> distinct (map package_url (filter (\<lambda>p. p \<noteq> None) (Packages r))) \<and> distinct (map findingSortKey (Findings r))
     \<and> distinct (map warning_sort_key (Warnings r)) \<and> distinct (map waiverSortKey (Waivers r))"

lemma sortedOrNil_cong: "set xs = set ys \<Longrightarrow> sortedOrNil xs = sortedOrNil ys"
  using sorted_remdups_cong [of xs ys] by (auto simp: sortedOrNil_def)

lemma sortedScopesOrNil_cong: "set xs = set ys \<Longrightarrow> sortedScopesOrNil xs = sortedScopesOrNil ys"
  using sorted_remdups_cong [of xs ys] by (auto simp: sortedScopesOrNil_def)

lemma shuffled_dependency_canonical:
  assumes "shuffled_dependency d d'" and agreed: "agreed_relationships (Dep_Locations d)"
  shows "canonical_dependency L d = canonical_dependency L d'"
proof -
  have d': "d' = d\<lparr>DependsOn := DependsOn d', Dep_Scopes := Dep_Scopes d', Dep_Locations := Dep_Locations d'\<rparr>"
    and s: "set (DependsOn d') = set (DependsOn d)" "set (Dep_Scopes d') = set (Dep_Scopes d)"
    and l: "set (Dep_Locations d) = set (Dep_Locations d')"
    using assms by (simp_all add: shuffled_dependency_def)
  have "canonical_dependency L d = canonical_dependency L (d\<lparr>DependsOn := DependsOn d', Dep_Scopes := Dep_Scopes d', Dep_Locations := Dep_Locations d'\<rparr>)"
    using sortedOrNil_cong [OF s(1)] sortedScopesOrNil_cong [OF s(2)] CanonicalLocations_order_independent [OF l agreed]
    by (simp add: canonical_dependency_def)
  then show ?thesis using d' by simp
qed

lemma shuffled_manifest_canonical:
  assumes "shuffled_manifest m m'" and d: "distinct (map Dep_ID (Dependencies m))"
    and agreed: "\<forall>d \<in> set (Dependencies m). agreed_relationships (Dep_Locations d)"
  shows "canonical_manifest L m = canonical_manifest L m'"
proof -
  have m': "m' = m\<lparr>Dependencies := Dependencies m'\<rparr>"
    and s: "shuffled shuffled_dependency (Dependencies m) (Dependencies m')"
    using assms(1) by (simp_all add: shuffled_manifest_def)
  have e: "Dependencies m' = [] \<longleftrightarrow> Dependencies m = []" using s by (auto simp: shuffled_def)
  have "map Dep_ID (map (canonical_dependency L) (Dependencies m)) = map Dep_ID (Dependencies m)"
    by (simp add: canonical_dependency_def)
  then have "distinct (map Dep_ID (map (canonical_dependency L) (Dependencies m)))" using d by (simp only:)
  from shuffled_sort_key [OF s shuffled_dependency_canonical [OF _ agreed [rule_format]] this]
  have "sort_key Dep_ID (map (canonical_dependency L) (Dependencies m)) = sort_key Dep_ID (map (canonical_dependency L) (Dependencies m'))" .
  then have "canonical_manifest L m = canonical_manifest L (m\<lparr>Dependencies := Dependencies m'\<rparr>)"
    using e by (cases m) (auto simp: canonical_manifest_def)
  then show ?thesis using m' by simp
qed

lemma shuffled_finding_canonical:
  "shuffled_finding f f' \<Longrightarrow> f\<lparr>FindingDependencyRefs := sortedOrNil (FindingDependencyRefs f)\<rparr>
     = f'\<lparr>FindingDependencyRefs := sortedOrNil (FindingDependencyRefs f')\<rparr>"
  using sortedOrNil_cong [of "FindingDependencyRefs f'" "FindingDependencyRefs f"]
  by (cases f; cases f') (simp add: shuffled_finding_def)

lemma sort_key_mset_cong:
  fixes key :: "'b \<Rightarrow> 'k :: linorder"
  shows "mset ys = mset xs \<Longrightarrow> distinct (map key xs) \<Longrightarrow> sort_key key xs = sort_key key ys"
  using shuffled_sort_key [of "(=)" xs ys id key] shuffled_refl [of "(=)" xs ys] by simp

lemma shuffled_record_canonical:
  assumes "distinct_keys r" and s: "shuffled_record r r'"
    and agreed: "\<forall>m \<in> set (Manifests r). \<forall>d \<in> set (Dependencies m). agreed_relationships (Dep_Locations d)"
  shows "canonicalize L r = canonicalize L r'"
proof -
  have r': "r' = r\<lparr>Manifests := Manifests r', Packages := Packages r', Findings := Findings r', Warnings := Warnings r', Waivers := Waivers r'\<rparr>"
    using s by (simp add: shuffled_record_def)
  have m: "sort_key (\<lambda>m. (Man_Path m, Man_Subproject m)) (map (canonical_manifest L) (Manifests r))
      = sort_key (\<lambda>m. (Man_Path m, Man_Subproject m)) (map (canonical_manifest L) (Manifests r'))"
  proof (rule shuffled_sort_key [where rel = shuffled_manifest])
    show "canonical_manifest L m = canonical_manifest L m'" if "m \<in> set (Manifests r)" "shuffled_manifest m m'" for m m'
      using shuffled_manifest_canonical [OF that(2)] that(1) agreed assms(1) by (simp add: distinct_keys_def)
    show "shuffled shuffled_manifest (Manifests r) (Manifests r')" using s by (simp add: shuffled_record_def)
    have "map (\<lambda>m. (Man_Path m, Man_Subproject m)) (map (canonical_manifest L) (Manifests r))
        = map (\<lambda>m. (Man_Path m, Man_Subproject m)) (Manifests r)" by (simp add: canonical_manifest_def)
    then show "distinct (map (\<lambda>m. (Man_Path m, Man_Subproject m)) (map (canonical_manifest L) (Manifests r)))"
      using assms(1) by (simp only: distinct_keys_def)
  qed
  have p: "sort_key package_url (filter (\<lambda>p. p \<noteq> None) (Packages r)) = sort_key package_url (filter (\<lambda>p. p \<noteq> None) (Packages r'))"
    using assms by (intro sort_key_mset_cong) (simp_all add: shuffled_record_def distinct_keys_def)
  let ?f = "\<lambda>f. f\<lparr>FindingDependencyRefs := sortedOrNil (FindingDependencyRefs f)\<rparr>"
  have f: "sort_key findingSortKey (map ?f (Findings r)) = sort_key findingSortKey (map ?f (Findings r'))"
  proof (rule shuffled_sort_key [where rel = shuffled_finding, OF _ shuffled_finding_canonical])
    show "shuffled shuffled_finding (Findings r) (Findings r')" using s by (simp add: shuffled_record_def)
    have "map findingSortKey (map ?f (Findings r)) = map findingSortKey (Findings r)" by (simp add: findingSortKey_def)
    then show "distinct (map findingSortKey (map ?f (Findings r)))" using assms(1) by (simp only: distinct_keys_def)
  qed
  have w: "sort_key warning_sort_key (Warnings r) = sort_key warning_sort_key (Warnings r')"
    "sort_key waiverSortKey (Waivers r) = sort_key waiverSortKey (Waivers r')"
    by (rule sort_key_mset_cong; use assms in \<open>simp add: shuffled_record_def distinct_keys_def\<close>)+
  have "canonicalize L r = canonicalize L (r\<lparr>Manifests := Manifests r', Packages := Packages r', Findings := Findings r',
      Warnings := Warnings r', Waivers := Waivers r'\<rparr>)"
    unfolding canonicalize_def by (simp add: m p f w del: not_None_eq)
  then show ?thesis using r' by simp
qed


section \<open>A codec that keeps its sections\<close>

text \<open>What the codec is documented to do and \<open>Decode\<close> relies on: the bytes of a section inside an
  encoded record are the bytes its value has when it is encoded alone, they are not empty and
  already compact; an ASCII schema version and ASCII digests are read back as written, where the
  record is read at all (a string that is not valid UTF-8 is not); and a hash is written in
  ASCII.\<close>

definition ascii_header :: "scan_record \<Rightarrow> bool" where
  "ascii_header w \<longleftrightarrow> is_ascii (Rec_SchemaVersion w)
     \<and> (case Rec_Digests w of None \<Rightarrow> True
        | Some ds \<Rightarrow> is_ascii (ManifestsDigest ds) \<and> is_ascii (PackagesDigest ds) \<and> is_ascii (FindingsDigest ds))"

definition keeps_sections :: "scan_codec \<Rightarrow> bool" where
  "keeps_sections C \<longleftrightarrow> (\<forall>s. is_ascii (scan_codec.sha256_hex C s)) \<and> (\<forall>w payload. marshal_record C w = Some payload \<longrightarrow>
     (\<exists>m p f. marshal_manifests C (Manifests w) = Some m \<and> marshal_packages C (Packages w) = Some p
        \<and> marshal_findings C (Findings w) = Some f \<and> unmarshal_sections C payload = Some (m, p, f)
        \<and> (\<forall>s \<in> {m, p, f}. s \<noteq> [] \<and> compact_json C s = Some s))
     \<and> (ascii_header w \<longrightarrow> (\<forall>r. unmarshal_record C payload = Some r \<longrightarrow>
          Rec_Digests r = Rec_Digests w \<and> Rec_SchemaVersion r = Rec_SchemaVersion w)))"

lemma Encode_Inr:
  "Encode L C (Some r) = Inr payload \<Longrightarrow> \<exists>ds. sectionDigests L C (canonicalize L r) = Inr ds
     \<and> marshal_record C (Record_MarshalJSON L ((canonicalize L r)\<lparr>Rec_Digests := Some ds\<rparr>)) = Some payload"
  by (auto simp: Encode_def Let_def split: sum.splits option.splits)

lemma Encode_sections:
  assumes C: "keeps_sections C" and e: "Encode L C (Some r) = Inr payload" and w: "unmarshal_record C payload = Some w"
  shows "Rec_SchemaVersion w = SchemaVersion" "check_sections C payload (Record_UnmarshalJSON w) = None"
    "\<exists>ds. sectionDigests L C (canonicalize L r) = Inr ds \<and> Rec_Digests w = Some ds"
proof -
  obtain ds where ds: "sectionDigests L C (canonicalize L r) = Inr ds"
    "marshal_record C (Record_MarshalJSON L ((canonicalize L r)\<lparr>Rec_Digests := Some ds\<rparr>)) = Some payload"
    using Encode_Inr [OF e] by (elim exE conjE)
  note law = conjunct2 [OF C [unfolded keeps_sections_def], rule_format, OF ds(2)]
  from law obtain m p f where s: "marshal_manifests C (map (Manifest_MarshalJSON L) (Manifests (canonicalize L r))) = Some m"
    "marshal_packages C (map (scan_Package_MarshalJSON L) (Packages (canonicalize L r))) = Some p"
    "marshal_findings C (map Finding_MarshalJSON (Findings (canonicalize L r))) = Some f"
    "unmarshal_sections C payload = Some (m, p, f)" "\<forall>s \<in> {m, p, f}. s \<noteq> [] \<and> compact_json C s = Some s"
    by (auto simp: Record_MarshalJSON_def)
  have d: "ds = \<lparr>ManifestsDigest = digestOf C m, PackagesDigest = digestOf C p, FindingsDigest = digestOf C f\<rparr>"
    using ds(1) s(1-3) by (simp add: sectionDigests_def)
  have "is_ascii (digestOf C x)" for x
    using C by (simp add: keeps_sections_def digestOf_def is_ascii_def)
  then have "ascii_header (Record_MarshalJSON L ((canonicalize L r)\<lparr>Rec_Digests := Some ds\<rparr>))"
    by (simp add: ascii_header_def Record_MarshalJSON_def canonicalize_def d is_ascii_def)
  then have r: "Rec_Digests w = Some ds" "Rec_SchemaVersion w = SchemaVersion"
    using law w by (auto simp: Record_MarshalJSON_def canonicalize_def)
  have "sectionDigestsOf C payload = Inr ds" using s(4,5) by (simp add: sectionDigestsOf_def section_digest_def d)
  then show "check_sections C payload (Record_UnmarshalJSON w) = None"
    by (simp add: check_sections_def Record_UnmarshalJSON_def r(1) mismatch_def)
  show "Rec_SchemaVersion w = SchemaVersion" "\<exists>ds. sectionDigests L C (canonicalize L r) = Inr ds \<and> Rec_Digests w = Some ds"
    using r ds(1) by simp_all
qed

lemma Decode_Inr:
  assumes "Decode C payload = Inr r"
  shows "length payload \<le> MaxRecordBytes" "Rec_SchemaVersion r = SchemaVersion" "length (Manifests r) \<le> MaxManifests"
    "\<forall>m \<in> set (Manifests r). length (Dependencies m) \<le> MaxGraphNodes"
    "length (Packages r) \<le> MaxRegistryPackages" "length (Findings r) \<le> MaxFindings"
    "check_sections C payload r = None" "\<exists>w. unmarshal_record C payload = Some w \<and> r = Record_UnmarshalJSON w"
  using assms by (auto simp: Decode_def Let_def find_None_iff split: if_splits option.splits)

lemma Record_UnmarshalJSON_gates:
  "\<forall>m \<in> set (Manifests (Record_UnmarshalJSON w)). \<forall>d \<in> set (Dependencies m). Dep_Relationship d \<in> relationship_vocab"
  "SubjectCommitSHA (Rec_Subject (Record_UnmarshalJSON w)) = []
   \<or> list_all hex_digit (SubjectCommitSHA (Rec_Subject (Record_UnmarshalJSON w)))
     \<and> length (SubjectCommitSHA (Rec_Subject (Record_UnmarshalJSON w))) \<in> {7..64}"
proof -
  show "\<forall>m \<in> set (Manifests (Record_UnmarshalJSON w)). \<forall>d \<in> set (Dependencies m). Dep_Relationship d \<in> relationship_vocab"
    by (auto simp: Record_UnmarshalJSON_def scan_Dependency_UnmarshalJSON_def scan_Dependency_Normalized_def
        ParseDependencyRelationship_def relationship_vocab_def Let_def)
  show "SubjectCommitSHA (Rec_Subject (Record_UnmarshalJSON w)) = []
   \<or> list_all hex_digit (SubjectCommitSHA (Rec_Subject (Record_UnmarshalJSON w)))
     \<and> length (SubjectCommitSHA (Rec_Subject (Record_UnmarshalJSON w))) \<in> {7..64}"
    using NormalizeCommitSHA_shape by (simp add: Record_UnmarshalJSON_def Subject_UnmarshalJSON_def Subject_Normalized_def)
qed

lemma check_sections_None:
  "check_sections C payload r = None \<Longrightarrow> Rec_Digests r = Some ds \<Longrightarrow> \<exists>actual. sectionDigestsOf C payload = Inr actual
     \<and> ManifestsDigest ds \<in> {[], ManifestsDigest actual} \<and> PackagesDigest ds \<in> {[], PackagesDigest actual}
     \<and> FindingsDigest ds \<in> {[], FindingsDigest actual}"
  by (auto simp: check_sections_def mismatch_def split: sum.splits if_splits)

section \<open>Properties\<close>

text \<open>C35. Two records of the same content have the same bytes: manifests, the dependencies of each,
  their edges, scopes and locations, packages, findings and their references, warnings and waivers
  may come in any order, as long as no two members of a collection share the key it is sorted by, and
  no dependency has two locations that name one usage and state different relationships outside the
  vocabulary, absence counting as one: of those the code keeps the first.\<close>

theorem Encode_order_independent:
  assumes "distinct_keys r" and "shuffled_record r r'"
    and "\<forall>m \<in> set (Manifests r). \<forall>d \<in> set (Dependencies m). agreed_relationships (Dep_Locations d)"
  shows "Encode L C (Some r') = Encode L C (Some r)"
  using shuffled_record_canonical [OF assms, of L] by (simp add: Encode_def)

definition sample_scan_dependency :: "string \<Rightarrow> string list \<Rightarrow> scan_dependency" where
  "sample_scan_dependency i targets =
     \<lparr>Dep_ID = i, Dep_Name = i, Dep_Version = [], Dep_PURL = i, Dep_Source = [], Dep_Relationship = [], Dep_Scopes = [],
      DependsOn = targets, Dep_Matched = False, Dep_PackageRef = [], Dep_Locations = [], Dep_Licenses = []\<rparr>"

definition sample_scan_manifest :: "string \<Rightarrow> string \<Rightarrow> scan_dependency list \<Rightarrow> scan_manifest" where
  "sample_scan_manifest path detector deps =
     \<lparr>Man_Path = path, Man_Kind = [], Man_Subproject = [], Man_Ecosystem = [], Man_PackageManager = [], Man_Detector = detector,
      Man_Resolution = None, Man_Document = None, Dependencies = deps\<rparr>"

definition sample_scan_record :: "scan_manifest list \<Rightarrow> scan_record" where
  "sample_scan_record ms = scan_Record_zero\<lparr>Manifests := ms\<rparr>"

text \<open>A codec that writes one letter for each member of a section, and reads the digests back from
  the sections it wrote.\<close>

definition count_section :: "'a list \<Rightarrow> string option" where
  "count_section xs = Some (''['' @ replicate (length xs) CHR ''x'' @ '']'')"

definition read_sections :: "string \<Rightarrow> (string \<times> string \<times> string) option" where
  "read_sections s = (case split_on CHR '';'' s of [m, p, f] \<Rightarrow> Some (m, p, f) | _ \<Rightarrow> None)"

definition digests_of_text :: "string \<times> string \<times> string \<Rightarrow> section_digests" where
  "digests_of_text s = (case s of (m, p, f) \<Rightarrow>
     \<lparr>ManifestsDigest = ''sha256:'' @ m, PackagesDigest = ''sha256:'' @ p, FindingsDigest = ''sha256:'' @ f\<rparr>)"

definition count_record :: "scan_record \<Rightarrow> string option" where
  "count_record w =
     (let s = (the (count_section (Manifests w)), the (count_section (Packages w)), the (count_section (Findings w))) in
      if Rec_SchemaVersion w = SchemaVersion \<and> Rec_Digests w = Some (digests_of_text s)
      then Some (fst s @ '';'' @ fst (snd s) @ '';'' @ snd (snd s)) else None)"

definition count_codec :: scan_codec where
  "count_codec = \<lparr>marshal_manifests = count_section, marshal_packages = count_section, marshal_findings = count_section,
     marshal_record = count_record,
     unmarshal_record = (\<lambda>s. map_option (\<lambda>t. scan_Record_zero\<lparr>Rec_SchemaVersion := SchemaVersion, Rec_Digests := Some (digests_of_text t)\<rparr>)
       (read_sections s)),
     unmarshal_sections = read_sections, compact_json = Some, sha256_hex = (\<lambda>s. if is_ascii s then s else [])\<rparr>"

lemma count_section_text: "count_section vs = Some (the (count_section vs))" "the (count_section vs) \<noteq> []"
  "CHR '';'' \<notin> set (the (count_section vs))"
  by (auto simp: count_section_def)

lemma read_count_sections:
  "read_sections (the (count_section xs) @ '';'' @ the (count_section ys) @ '';'' @ the (count_section zs))
   = Some (the (count_section xs), the (count_section ys), the (count_section zs))"
proof -
  have "split_on CHR '';'' (the (count_section xs) @ CHR '';'' # the (count_section ys) @ CHR '';'' # the (count_section zs))
     = [the (count_section xs), the (count_section ys), the (count_section zs)]"
    by (simp only: split_on_append_sep [OF count_section_text(3)] split_on_no_sep [OF count_section_text(3)])
  then show ?thesis by (simp add: read_sections_def)
qed

lemma keeps_sections_count_codec: "keeps_sections count_codec"
  unfolding keeps_sections_def
proof (rule conjI; intro allI impI)
  show "is_ascii (scan_codec.sha256_hex count_codec s)" for s by (simp add: count_codec_def is_ascii_def)
next
  fix w payload assume "marshal_record count_codec w = Some payload"
  then have p: "Rec_SchemaVersion w = SchemaVersion"
    "Rec_Digests w = Some (digests_of_text (the (count_section (Manifests w)), the (count_section (Packages w)), the (count_section (Findings w))))"
    "payload = the (count_section (Manifests w)) @ '';'' @ the (count_section (Packages w)) @ '';'' @ the (count_section (Findings w))"
    by (auto simp: count_codec_def count_record_def Let_def split: if_splits)
  show "(\<exists>m p f. marshal_manifests count_codec (Manifests w) = Some m \<and> marshal_packages count_codec (Packages w) = Some p
        \<and> marshal_findings count_codec (Findings w) = Some f \<and> unmarshal_sections count_codec payload = Some (m, p, f)
        \<and> (\<forall>s \<in> {m, p, f}. s \<noteq> [] \<and> compact_json count_codec s = Some s))
     \<and> (ascii_header w \<longrightarrow> (\<forall>r. unmarshal_record count_codec payload = Some r \<longrightarrow>
          Rec_Digests r = Rec_Digests w \<and> Rec_SchemaVersion r = Rec_SchemaVersion w))"
    unfolding p(1,2) unfolding p(3)
    using read_count_sections [of "Manifests w" "Packages w" "Findings w"]
      count_section_text [of "Manifests w"] count_section_text [of "Packages w"] count_section_text [of "Findings w"]
    by (auto simp: count_codec_def)
qed


theorem Encode_order_independent_witness:
  "let a = sample_scan_dependency ''a'' [''b'', ''c'']; b = sample_scan_dependency ''b'' [];
       r = sample_scan_record [sample_scan_manifest ''x'' [] [a, b], sample_scan_manifest ''y'' [] []];
       r' = sample_scan_record [sample_scan_manifest ''y'' [] [], sample_scan_manifest ''x'' [] [b, a\<lparr>DependsOn := [''c'', ''b'', ''c'']\<rparr>]]
   in Encode plain_library count_codec (Some r') = Encode plain_library count_codec (Some r) \<and> r' \<noteq> r"
proof -
  let ?a = "sample_scan_dependency ''a'' [''b'', ''c'']" and ?a' = "sample_scan_dependency ''a'' [''c'', ''b'', ''c'']"
  let ?b = "sample_scan_dependency ''b'' []"
  let ?x = "sample_scan_manifest ''x'' [] [?a, ?b]" and ?x' = "sample_scan_manifest ''x'' [] [?b, ?a']"
  let ?y = "sample_scan_manifest ''y'' [] []"
  have d: "shuffled_dependency ?a ?a'" "shuffled_dependency ?b ?b"
    by (auto simp: shuffled_dependency_def sample_scan_dependency_def)
  have m: "shuffled_manifest ?x ?x'" "shuffled_manifest ?y ?y"
    using d by (auto simp: shuffled_manifest_def shuffled_def sample_scan_manifest_def sample_scan_dependency_def intro!: exI [of _ "[?b, ?a]"])
  have s: "shuffled_record (sample_scan_record [?x, ?y]) (sample_scan_record [?y, ?x'])"
    using m by (auto simp: shuffled_record_def shuffled_def sample_scan_record_def scan_Record_zero_def intro!: exI [of _ "[?y, ?x]"])
  have k: "distinct_keys (sample_scan_record [?x, ?y])" by code_simp
  have a: "?a\<lparr>DependsOn := [''c'', ''b'', ''c'']\<rparr> = ?a'" by (simp add: sample_scan_dependency_def)
  have g: "\<forall>m \<in> set (Manifests (sample_scan_record [?x, ?y])). \<forall>d \<in> set (Dependencies m). agreed_relationships (Dep_Locations d)"
    by (simp add: sample_scan_record_def scan_Record_zero_def sample_scan_manifest_def sample_scan_dependency_def agreed_relationships_def)
  have "sample_scan_record [?y, ?x'] \<noteq> sample_scan_record [?x, ?y]"
    by (simp add: sample_scan_record_def sample_scan_manifest_def scan_Record_zero_def)
  then show ?thesis unfolding Let_def a using Encode_order_independent [OF k s g, of plain_library count_codec] by simp
qed

definition detector_codec :: scan_codec where
  "detector_codec = count_codec\<lparr>marshal_manifests := (\<lambda>ms. Some (concat (map Man_Detector ms))),
     marshal_record := (\<lambda>w. map_option ManifestsDigest (Rec_Digests w))\<rparr>"

text \<open>Where two manifests share the key they are sorted by, the bytes do depend on the order the
  record holds them in: one manifest resolved by two detectors is written in the order given, so the
  section digest differs between two records with the same manifests.\<close>

lemma Encode_ties_keep_order:
  "let a = sample_scan_manifest ''go.mod'' ''native'' []; b = sample_scan_manifest ''go.mod'' ''syft'' [] in
   Encode plain_library detector_codec (Some (sample_scan_record [a, b])) = Inr ''sha256:nativesyft''
   \<and> Encode plain_library detector_codec (Some (sample_scan_record [b, a])) = Inr ''sha256:syftnative''"
  by code_simp

text \<open>The count bounds of a record.\<close>

definition within_bounds :: "scan_record \<Rightarrow> bool" where
  "within_bounds r \<longleftrightarrow> length (Manifests r) \<le> MaxManifests \<and> (\<forall>m \<in> set (Manifests r). length (Dependencies m) \<le> MaxGraphNodes)
     \<and> length (Packages r) \<le> MaxRegistryPackages \<and> length (Findings r) \<le> MaxFindings"

text \<open>C36. What \<open>Encode\<close> wrote, \<open>Decode\<close> accepts exactly when it is within the byte bound, the JSON
  reader reads it, and what was read is within the count bounds; the errors are those of size and
  that of the reader, never one of the schema version or of a section digest; and the record
  that is read back carries the digests of the canonical record. It rests on a codec that keeps the
  bytes of a section and gives back an ASCII schema version and digests as written.\<close>

theorem Decode_Encode:
  assumes "keeps_sections C" and "Encode L C (Some r) = Inr payload"
  shows "(\<forall>d. Decode C payload = Inr d \<longleftrightarrow> length payload \<le> MaxRecordBytes
           \<and> (\<exists>w. unmarshal_record C payload = Some w \<and> d = Record_UnmarshalJSON w \<and> within_bounds d))
    \<and> (\<forall>err. Decode C payload = Inl err \<longrightarrow>
           (\<exists>what n. err = RecordTooLarge what n) \<or> err = RecordUnreadable \<and> unmarshal_record C payload = None)
    \<and> (\<forall>d. Decode C payload = Inr d \<longrightarrow> (\<exists>ds. sectionDigests L C (canonicalize L r) = Inr ds \<and> Rec_Digests d = Some ds))"
proof (cases "unmarshal_record C payload")
  case None
  then show ?thesis by (simp add: Decode_def)
next
  case (Some w)
  let ?d = "Record_UnmarshalJSON w"
  have same: "Rec_Digests ?d = Rec_Digests w" "Rec_SchemaVersion ?d = Rec_SchemaVersion w"
    by (simp_all add: Record_UnmarshalJSON_def)
  note sections = Encode_sections [OF assms Some]
  have none: "List.find (\<lambda>m. length (Dependencies m) > MaxGraphNodes) ms = None \<longleftrightarrow> (\<forall>m \<in> set ms. length (Dependencies m) \<le> MaxGraphNodes)" for ms
    by (auto simp: find_None_iff not_less)
  have read: "Decode C payload = Inr d \<longleftrightarrow> length payload \<le> MaxRecordBytes \<and> d = ?d \<and> within_bounds d" for d
    using sections same Some none [of "Manifests ?d"]
    by (cases "List.find (\<lambda>m. length (Dependencies m) > MaxGraphNodes) (Manifests ?d)")
       (auto simp: Decode_def Let_def within_bounds_def)
  have err: "\<exists>what n. err = RecordTooLarge what n" if "Decode C payload = Inl err" for err
    using that sections same Some by (auto simp: Decode_def Let_def split: option.splits if_splits)
  show ?thesis using read err sections(3) same(1) Some by auto
qed

lemma count_codec_decodes: "\<exists>d. Decode count_codec ''[x];[];[]'' = Inr d"
  by (simp add: Decode_def Let_def count_codec_def read_sections_def Record_UnmarshalJSON_def scan_Record_zero_def
      check_sections_def sectionDigestsOf_def section_digest_def digestOf_def digests_of_text_def mismatch_def is_ascii_def)

theorem Decode_Encode_witness:
  "\<exists>payload d. Encode plain_library count_codec (Some (sample_scan_record [sample_scan_manifest ''x'' [] []])) = Inr payload
     \<and> Decode count_codec payload = Inr d \<and> Rec_Digests d \<noteq> None"
proof -
  let ?r = "sample_scan_record [sample_scan_manifest ''x'' [] []]"
  let ?p = "''[x];[];[]''"
  have e: "Encode plain_library count_codec (Some ?r) = Inr ?p" by code_simp
  obtain d where d: "Decode count_codec ?p = Inr d" using count_codec_decodes by blast
  have "\<forall>d. Decode count_codec ?p = Inr d \<longrightarrow> (\<exists>ds. sectionDigests plain_library count_codec (canonicalize plain_library ?r) = Inr ds \<and> Rec_Digests d = Some ds)"
    using Decode_Encode [OF keeps_sections_count_codec e] by (elim conjE)
  with d have "Rec_Digests d \<noteq> None" by auto
  with d e show ?thesis by blast
qed

text \<open>A record that \<open>Decode\<close> returns is within every bound, of this schema version, with every
  recorded section digest equal to the digest of the section's bytes, a commit that is a hexadecimal
  identifier or empty, and relationships of the vocabulary only.\<close>

lemma Decode_sound:
  assumes "Decode C payload = Inr r"
  shows "length payload \<le> MaxRecordBytes \<and> Rec_SchemaVersion r = SchemaVersion
    \<and> length (Manifests r) \<le> MaxManifests \<and> length (Packages r) \<le> MaxRegistryPackages \<and> length (Findings r) \<le> MaxFindings
    \<and> (\<forall>m \<in> set (Manifests r). length (Dependencies m) \<le> MaxGraphNodes
         \<and> (\<forall>d \<in> set (Dependencies m). Dep_Relationship d \<in> relationship_vocab))
    \<and> (SubjectCommitSHA (Rec_Subject r) = [] \<or> list_all hex_digit (SubjectCommitSHA (Rec_Subject r))
         \<and> length (SubjectCommitSHA (Rec_Subject r)) \<in> {7..64})
    \<and> (\<forall>ds. Rec_Digests r = Some ds \<longrightarrow> (\<exists>actual. sectionDigestsOf C payload = Inr actual
         \<and> ManifestsDigest ds \<in> {[], ManifestsDigest actual} \<and> PackagesDigest ds \<in> {[], PackagesDigest actual}
         \<and> FindingsDigest ds \<in> {[], FindingsDigest actual}))"
proof -
  note d = Decode_Inr [OF assms]
  obtain w where r: "r = Record_UnmarshalJSON w" using d(8) by blast
  note gates = Record_UnmarshalJSON_gates [of w, folded r]
  show ?thesis using d(1-6) gates check_sections_None [OF d(7)] by blast
qed

end
