(* ===== verification/Lifetime.thy ===== *)
theory Lifetime
  imports GoStrings "HOL-Library.Multiset" "HOL-Library.Sublist"
begin

text \<open>
  The lifetime of a component, \<open>ComponentScope\<close> of \<open>plugin/module.go\<close>: a context
  that is cancelled, and the cleanups a component registers while it is constructed and
  used. Its methods are called from several goroutines, so the model is a step relation:
  one step is what one goroutine does while it holds the mutex, or one call of a cleanup.
  A cleanup is what it returns; its other effects, and a cleanup that calls \<open>Close\<close> of
  its own scope and so waits for itself, are not modelled.
\<close>

section \<open>The scope and its cleanups\<close>

datatype cleanup = Succeeds | Fails string | Panics string

datatype cleanup_error = CleanupFailed string | CleanupPanicked string

datatype scope_error = ComponentCleanup string cleanup_error

record component_scope =
  scope_component :: string
  scope_cancelled :: bool
  cleanups :: "cleanup list"
  scope_closed :: bool
  closeErr :: "scope_error list"
  scope_done :: bool

definition NewComponentScope :: "string \<Rightarrow> bool \<Rightarrow> component_scope" where
  "NewComponentScope name parent_cancelled =
     \<lparr>scope_component = name, scope_cancelled = parent_cancelled, cleanups = [], scope_closed = False, closeErr = [],
      scope_done = False\<rparr>"

text \<open>A panic is contained as an error.\<close>

fun runCleanup :: "cleanup \<Rightarrow> cleanup_error option" where
  "runCleanup Succeeds = None"
| "runCleanup (Fails err) = Some (CleanupFailed err)"
| "runCleanup (Panics recovered) = Some (CleanupPanicked recovered)"

text \<open>
  Registering: the scope afterwards, and the cleanup the caller must run at once because
  the lifetime has ended.
\<close>

definition OnCleanup :: "component_scope \<Rightarrow> cleanup option \<Rightarrow> component_scope \<times> cleanup option" where
  "OnCleanup s fn =
     (case fn of
        None \<Rightarrow> (s, None)
      | Some f \<Rightarrow> if \<not> scope_closed s then (s\<lparr>cleanups := cleanups s @ [f]\<rparr>, None) else (s, Some f))"

text \<open>
  Closing, up to the unlock: nothing for a scope already closed; otherwise the context is
  cancelled, the scope closed, and its cleanups handed to the caller.
\<close>

definition Close_begin :: "component_scope \<Rightarrow> component_scope \<times> cleanup list option" where
  "Close_begin s =
     (if scope_closed s then (s, None)
      else (s\<lparr>scope_cancelled := True, scope_closed := True, cleanups := []\<rparr>, Some (cleanups s)))"

definition cleanup_errors :: "string \<Rightarrow> cleanup \<Rightarrow> scope_error list" where
  "cleanup_errors name c = (case runCleanup c of None \<Rightarrow> [] | Some err \<Rightarrow> [ComponentCleanup name err])"

definition Close_publish :: "scope_error list \<Rightarrow> component_scope \<Rightarrow> component_scope" where
  "Close_publish errs s = s\<lparr>closeErr := errs\<rparr>"

section \<open>Goroutines\<close>

text \<open>
  What the goroutines do: the one that closes (\<open>Running\<close> holds the cleanups it has still to
  run, in the order it runs them, and the errors so far), the callers that wait for it, and
  the callers of \<open>OnCleanup\<close> that came late. The trace lists what became visible. The last
  two fields are history: what was registered in time, and what came late.
\<close>

datatype closer = NotClosing | Running nat "cleanup list" "scope_error list" | Published nat | Finished

datatype scope_event = Cancel | Ran cleanup | RanLate cleanup | Returned nat "scope_error list"

record lifetime =
  scope :: component_scope
  closer_at :: closer
  waiting :: "nat list"
  late :: "cleanup list"
  trace :: "scope_event list"
  registered :: "cleanup list"
  came_late :: "cleanup list"

definition new_lifetime :: "string \<Rightarrow> lifetime" where
  "new_lifetime name =
     \<lparr>scope = NewComponentScope name False, closer_at = NotClosing, waiting = [], late = [], trace = [],
      registered = [], came_late = []\<rparr>"

text \<open>Calls from outside: the parent is cancelled, a cleanup is registered, a goroutine closes.\<close>

inductive call_step :: "lifetime \<Rightarrow> lifetime \<Rightarrow> bool" where
  parent_cancels: "call_step w (w\<lparr>scope := (scope w)\<lparr>scope_cancelled := True\<rparr>, trace := trace w @ [Cancel]\<rparr>)"
| registers_nil: "OnCleanup (scope w) None = (s, None) \<Longrightarrow> call_step w (w\<lparr>scope := s\<rparr>)"
| registers: "OnCleanup (scope w) (Some f) = (s, None) \<Longrightarrow>
     call_step w (w\<lparr>scope := s, registered := registered w @ [f]\<rparr>)"
| registers_late: "OnCleanup (scope w) (Some f) = (s, Some f) \<Longrightarrow>
     call_step w (w\<lparr>scope := s, late := late w @ [f], came_late := came_late w @ [f]\<rparr>)"
| closes: "Close_begin (scope w) = (s, Some cs) \<Longrightarrow>
     call_step w (w\<lparr>scope := s, closer_at := Running k (rev cs) [], trace := trace w @ [Cancel]\<rparr>)"
| closes_again: "Close_begin (scope w) = (s, None) \<Longrightarrow> call_step w (w\<lparr>scope := s, waiting := waiting w @ [k]\<rparr>)"

text \<open>What the goroutines then do by themselves.\<close>

inductive own_step :: "lifetime \<Rightarrow> lifetime \<Rightarrow> bool" where
  runs: "closer_at w = Running k (c # cs) errs \<Longrightarrow>
     own_step w (w\<lparr>closer_at := Running k cs (errs @ cleanup_errors (scope_component (scope w)) c), trace := trace w @ [Ran c]\<rparr>)"
| publishes: "closer_at w = Running k [] errs \<Longrightarrow>
     own_step w (w\<lparr>scope := Close_publish errs (scope w), closer_at := Published k\<rparr>)"
| finishes: "closer_at w = Published k \<Longrightarrow>
     own_step w (w\<lparr>scope := (scope w)\<lparr>scope_done := True\<rparr>, closer_at := Finished,
       trace := trace w @ [Returned k (closeErr (scope w))]\<rparr>)"
| wakes: "scope_done (scope w) \<Longrightarrow> waiting w = ks @ k # ls \<Longrightarrow>
     own_step w (w\<lparr>waiting := ks @ ls, trace := trace w @ [Returned k (closeErr (scope w))]\<rparr>)"
| runs_late: "late w = as @ c # bs \<Longrightarrow> own_step w (w\<lparr>late := as @ bs, trace := trace w @ [RanLate c]\<rparr>)"

inductive lifetime_reachable :: "string \<Rightarrow> lifetime \<Rightarrow> bool" for name :: string where
  started: "lifetime_reachable name (new_lifetime name)"
| called: "lifetime_reachable name w \<Longrightarrow> call_step w v \<Longrightarrow> lifetime_reachable name v"
| went_on: "lifetime_reachable name w \<Longrightarrow> own_step w v \<Longrightarrow> lifetime_reachable name v"

section \<open>What a trace shows\<close>

fun runs_of :: "scope_event list \<Rightarrow> cleanup list" where
  "runs_of [] = []"
| "runs_of (Ran c # es) = c # runs_of es"
| "runs_of (_ # es) = runs_of es"

fun late_runs_of :: "scope_event list \<Rightarrow> cleanup list" where
  "late_runs_of [] = []"
| "late_runs_of (RanLate c # es) = c # late_runs_of es"
| "late_runs_of (_ # es) = late_runs_of es"

definition joined :: "string \<Rightarrow> cleanup list \<Rightarrow> scope_error list" where
  "joined name cs = concat (map (cleanup_errors name) cs)"

lemma runs_of_append [simp]: "runs_of (es @ fs) = runs_of es @ runs_of fs"
  by (induction es rule: runs_of.induct) simp_all

lemma late_runs_of_append [simp]: "late_runs_of (es @ fs) = late_runs_of es @ late_runs_of fs"
  by (induction es rule: late_runs_of.induct) simp_all

lemma joined_simps [simp]: "joined name [] = []" "joined name (as @ bs) = joined name as @ joined name bs"
  "joined name [c] = cleanup_errors name c"
  by (simp_all add: joined_def)

text \<open>
  A trace is in order when nothing ran before the cancellation, and no call of \<open>Close\<close> has
  returned before the whole list had run, in its order, and with anything but its errors.
\<close>

fun event_ok :: "string \<Rightarrow> cleanup list \<Rightarrow> scope_event list \<Rightarrow> scope_event \<Rightarrow> bool" where
  "event_ok name cs before Cancel = True"
| "event_ok name cs before (Ran c) = (Cancel \<in> set before)"
| "event_ok name cs before (RanLate c) = (Cancel \<in> set before)"
| "event_ok name cs before (Returned k errs) = (runs_of before = cs \<and> errs = joined name cs)"

definition trace_ok :: "string \<Rightarrow> cleanup list \<Rightarrow> scope_event list \<Rightarrow> bool" where
  "trace_ok name cs es = (\<forall>i < length es. event_ok name cs (take i es) (es ! i))"

lemma trace_ok_simps [simp]: "trace_ok name cs []"
  "trace_ok name cs (es @ [e]) = (trace_ok name cs es \<and> event_ok name cs es e)"
  by (auto simp: trace_ok_def nth_append less_Suc_eq)

section \<open>The invariant\<close>

text \<open>
  The phase of the closing goroutine fixes what has run, what is left and what is published.
\<close>

fun phase_ok :: "closer \<Rightarrow> lifetime \<Rightarrow> bool" where
  "phase_ok NotClosing w =
     (\<not> scope_closed (scope w) \<and> registered w = cleanups (scope w) \<and> set (trace w) \<subseteq> {Cancel} \<and> waiting w = [] \<and>
      late w = [] \<and> came_late w = [] \<and> \<not> scope_done (scope w))"
| "phase_ok (Running k cs errs) w =
     (scope_closed (scope w) \<and> runs_of (trace w) @ cs = rev (registered w) \<and>
      errs = joined (scope_component (scope w)) (runs_of (trace w)) \<and> Cancel \<in> set (trace w) \<and> \<not> scope_done (scope w))"
| "phase_ok (Published k) w =
     (scope_closed (scope w) \<and> runs_of (trace w) = rev (registered w) \<and>
      closeErr (scope w) = joined (scope_component (scope w)) (rev (registered w)) \<and> Cancel \<in> set (trace w) \<and>
      \<not> scope_done (scope w))"
| "phase_ok Finished w =
     (scope_closed (scope w) \<and> runs_of (trace w) = rev (registered w) \<and>
      closeErr (scope w) = joined (scope_component (scope w)) (rev (registered w)) \<and> Cancel \<in> set (trace w) \<and>
      scope_done (scope w))"

definition lifetime_ok :: "lifetime \<Rightarrow> bool" where
  "lifetime_ok w =
     (phase_ok (closer_at w) w \<and> trace_ok (scope_component (scope w)) (rev (registered w)) (trace w) \<and>
      mset (late_runs_of (trace w)) + mset (late w) = mset (came_late w) \<and>
      (scope_cancelled (scope w) \<longleftrightarrow> Cancel \<in> set (trace w)))"

lemma only_cancel: "set es \<subseteq> {Cancel} \<Longrightarrow> runs_of es = [] \<and> late_runs_of es = [] \<and> trace_ok name cs es"
proof (induction es rule: rev_induct)
  case (snoc e es)
  then have "e = Cancel" "set es \<subseteq> {Cancel}" by auto
  with snoc.IH show ?case by simp
qed simp

lemma new_lifetime_ok: "lifetime_ok (new_lifetime name)"
  by (simp add: lifetime_ok_def new_lifetime_def NewComponentScope_def)

lemmas scope_defs = OnCleanup_def Close_begin_def Close_publish_def

lemma call_step_ok: "call_step w v \<Longrightarrow> lifetime_ok w \<Longrightarrow> lifetime_ok v"
proof (induction rule: call_step.induct)
  case (parent_cancels w)
  then show ?case by (cases "closer_at w") (auto simp: lifetime_ok_def)
next
  case (registers_nil w s)
  then show ?case by (cases w) (simp add: scope_defs)
next
  case (registers w f s)
  then show ?case
    by (cases "closer_at w") (auto simp: lifetime_ok_def scope_defs only_cancel split: if_splits)
next
  case (registers_late w f s)
  then show ?case by (cases "closer_at w") (auto simp: lifetime_ok_def scope_defs split: if_splits)
next
  case (closes w s cs k)
  then show ?case
    by (cases "closer_at w") (auto simp: lifetime_ok_def scope_defs only_cancel split: if_splits)
next
  case (closes_again w s k)
  then show ?case by (cases "closer_at w") (auto simp: lifetime_ok_def scope_defs split: if_splits)
qed

lemma late_closed: "lifetime_ok w \<Longrightarrow> late w \<noteq> [] \<Longrightarrow> Cancel \<in> set (trace w)"
  by (cases "closer_at w") (auto simp: lifetime_ok_def)

lemma own_step_ok: "own_step w v \<Longrightarrow> lifetime_ok w \<Longrightarrow> lifetime_ok v"
proof (induction rule: own_step.induct)
  case (runs w k c cs errs)
  then show ?case by (auto simp: lifetime_ok_def)
next
  case (publishes w k errs)
  then show ?case by (auto simp: lifetime_ok_def Close_publish_def)
next
  case (finishes w k)
  then show ?case by (auto simp: lifetime_ok_def)
next
  case (wakes w ks k ls)
  then show ?case by (cases "closer_at w") (auto simp: lifetime_ok_def)
next
  case (runs_late w as c bs)
  note c = late_closed [OF runs_late(2)]
  show ?case using runs_late c by (cases "closer_at w") (auto simp: lifetime_ok_def)
qed

lemma lifetime_reachable_ok: "lifetime_reachable name w \<Longrightarrow> lifetime_ok w"
  by (induction rule: lifetime_reachable.induct) (simp_all add: new_lifetime_ok call_step_ok own_step_ok)

lemma step_component: "call_step w v \<or> own_step w v \<Longrightarrow> scope_component (scope v) = scope_component (scope w)"
  by (auto elim!: call_step.cases own_step.cases simp: scope_defs split: if_splits)

lemma reachable_component: "lifetime_reachable name w \<Longrightarrow> scope_component (scope w) = name"
  by (induction rule: lifetime_reachable.induct) (auto simp: new_lifetime_def NewComponentScope_def step_component)

lemma phase_runs: "phase_ok (closer_at w) w \<Longrightarrow> prefix (runs_of (trace w)) (rev (registered w))"
  by (cases "closer_at w") (auto simp: only_cancel intro: prefixI [OF sym])

text \<open>C28. In every interleaving of a component's lifetime: what the closing goroutine has run
  is a prefix of the registered cleanups taken in reverse order, so that each runs at most
  once and in that order; a cleanup that came late runs at most once per registration;
  nothing runs before the context is cancelled; and whenever a call of \<open>Close\<close> returned,
  every registered cleanup had run, and it returned the failures of all of them, each under
  the component's name.
\<close>

theorem lifetime_safe:
  assumes "lifetime_reachable name w"
  shows "prefix (runs_of (trace w)) (rev (registered w)) \<and> mset (late_runs_of (trace w)) \<subseteq># mset (came_late w) \<and>
    trace_ok name (rev (registered w)) (trace w)"
proof -
  have w: "lifetime_ok w" "scope_component (scope w) = name"
    using assms by (rule lifetime_reachable_ok, rule reachable_component)
  then have "mset (late_runs_of (trace w)) + mset (late w) = mset (came_late w)" by (simp add: lifetime_ok_def)
  then show ?thesis using w phase_runs [of w] by (metis lifetime_ok_def mset_subset_eq_add_left)
qed

section \<open>Every close ends\<close>

text \<open>
  The work the goroutines have left: cleanups, the steps of the closing goroutine, waiting
  callers, late cleanups.
\<close>

fun closer_work :: "closer \<Rightarrow> nat" where
  "closer_work NotClosing = 0"
| "closer_work (Running k cs errs) = length cs + 2"
| "closer_work (Published k) = 1"
| "closer_work Finished = 0"

definition work :: "lifetime \<Rightarrow> nat" where
  "work w = closer_work (closer_at w) + length (waiting w) + length (late w)"

lemma own_step_work: "own_step w v \<Longrightarrow> work w = Suc (work v)"
  by (induction rule: own_step.induct) (simp_all add: work_def)

lemma own_steps_work: "(own_step ^^ n) w v \<Longrightarrow> work w = n + work v"
  by (induction n arbitrary: v) (auto dest: own_step_work)

lemma stuck: assumes "lifetime_ok w" "scope_closed (scope w)" "\<nexists>v. own_step w v"
  shows "closer_at w = Finished \<and> waiting w = [] \<and> late w = []"
proof -
  have "late w = []" using assms(3) runs_late [of w "[]"] by (cases "late w") auto
  moreover have c: "closer_at w = Finished"
    using assms own_step.intros(1-3) [of w] by (cases "closer_at w" rule: closer.exhaust)
      (auto simp: lifetime_ok_def neq_Nil_conv, metis list.exhaust)
  moreover have "scope_done (scope w)" using assms(1) c by (simp add: lifetime_ok_def)
  then have "waiting w = []" using assms(3) wakes [of w "[]"] by (cases "waiting w") auto
  ultimately show ?thesis by simp
qed

lemma own_steps_ok: "(own_step ^^ n) w v \<Longrightarrow> lifetime_ok w \<Longrightarrow> lifetime_ok v"
  by (induction n arbitrary: v) (auto dest: own_step_ok)

lemma own_steps_keep: "(own_step ^^ n) w v \<Longrightarrow> scope_closed (scope v) = scope_closed (scope w) \<and>
    registered v = registered w \<and> came_late v = came_late w \<and> scope_component (scope v) = scope_component (scope w)"
  by (induction n arbitrary: v) (auto elim!: own_step.cases simp: Close_publish_def)

lemma own_steps_end: "\<exists>n v. (own_step ^^ n) w v \<and> (\<nexists>u. own_step v u)"
proof (induction "work w" arbitrary: w rule: less_induct)
  case less
  show ?case
  proof (cases "\<exists>v. own_step w v")
    case True
    then obtain v where v: "own_step w v" ..
    then have "work v < work w" by (simp add: own_step_work)
    then obtain n u where "(own_step ^^ n) v u" "\<nexists>x. own_step u x" using less by blast
    with v have "(own_step ^^ Suc n) w u" by (intro relpowp_Suc_I2)
    then show ?thesis using \<open>\<nexists>x. own_step u x\<close> by blast
  next
    case False
    then have "(own_step ^^ 0) w w" by simp
    then show ?thesis using False by blast
  qed
qed

lemma own_steps_final:
  assumes "lifetime_ok w" "scope_closed (scope w)" "(own_step ^^ n) w v" "\<nexists>u. own_step v u"
  shows "scope_done (scope v) \<and> waiting v = [] \<and> runs_of (trace v) = rev (registered w) \<and>
    mset (late_runs_of (trace v)) = mset (came_late w) \<and>
    closeErr (scope v) = joined (scope_component (scope w)) (rev (registered w))"
proof -
  have v: "lifetime_ok v" "scope_closed (scope v)" and k: "registered v = registered w" "came_late v = came_late w"
    "scope_component (scope v) = scope_component (scope w)"
    using assms(2) own_steps_ok [OF assms(3,1)] own_steps_keep [OF assms(3)] by simp_all
  show ?thesis using v(1) stuck [OF v assms(4)] by (simp add: lifetime_ok_def k)
qed

text \<open>A lifetime with two cleanups, one of which fails, that a goroutine has begun to close.\<close>

definition sample_lifetime :: lifetime where
  "sample_lifetime =
     \<lparr>scope = \<lparr>scope_component = ''npm'', scope_cancelled = True, cleanups = [], scope_closed = True, closeErr = [],
        scope_done = False\<rparr>,
      closer_at = Running 1 [Fails ''busy'', Succeeds] [], waiting = [], late = [], trace = [Cancel],
      registered = [Succeeds, Fails ''busy''], came_late = []\<rparr>"

lemma sample_lifetime_reachable: "lifetime_reachable ''npm'' sample_lifetime"
proof -
  define a where "a = (new_lifetime ''npm'')\<lparr>scope := (NewComponentScope ''npm'' False)\<lparr>cleanups := [Succeeds]\<rparr>, registered := [Succeeds]\<rparr>"
  define b where "b = a\<lparr>scope := (scope a)\<lparr>cleanups := [Succeeds, Fails ''busy'']\<rparr>, registered := [Succeeds, Fails ''busy'']\<rparr>"
  have "call_step (new_lifetime ''npm'') a"
    using registers [of "new_lifetime ''npm''" Succeeds]
    by (simp add: a_def OnCleanup_def new_lifetime_def NewComponentScope_def)
  then have "lifetime_reachable ''npm'' a" using called [OF started] by blast
  moreover have "call_step a b"
    using registers [of a "Fails ''busy''"]
    by (simp add: a_def b_def OnCleanup_def new_lifetime_def NewComponentScope_def)
  ultimately have "lifetime_reachable ''npm'' b" by (rule called)
  moreover have "call_step b sample_lifetime"
    using closes [of b _ _ 1]
    by (simp add: a_def b_def sample_lifetime_def Close_begin_def new_lifetime_def NewComponentScope_def)
  ultimately show ?thesis by (rule called)
qed

lemma lifetime_safe_witness:
  "prefix (runs_of (trace sample_lifetime)) (rev (registered sample_lifetime)) \<and>
    mset (late_runs_of (trace sample_lifetime)) \<subseteq># mset (came_late sample_lifetime) \<and>
    trace_ok ''npm'' (rev (registered sample_lifetime)) (trace sample_lifetime)"
  by (rule lifetime_safe [OF sample_lifetime_reachable])

text \<open>C29. Once a scope is closed its goroutines come to an end by themselves, in at most
  \<open>work w\<close> steps, however they interleave; and wherever they end, every registered
  cleanup has run exactly once, in reverse order, also after ones that failed or panicked,
  every late one has run, no caller of \<open>Close\<close> is left waiting, and the published error
  joins all failures.
\<close>

theorem Close_ends:
  assumes "lifetime_reachable name w" "scope_closed (scope w)"
  shows "(\<forall>n v. (own_step ^^ n) w v \<longrightarrow> n \<le> work w) \<and> (\<exists>n v. (own_step ^^ n) w v \<and> (\<nexists>u. own_step v u)) \<and>
    (\<forall>n v. (own_step ^^ n) w v \<and> (\<nexists>u. own_step v u) \<longrightarrow>
       scope_done (scope v) \<and> waiting v = [] \<and> runs_of (trace v) = rev (registered w) \<and>
       mset (late_runs_of (trace v)) = mset (came_late w) \<and> closeErr (scope v) = joined name (rev (registered w)))"
  using own_steps_final [OF lifetime_reachable_ok [OF assms(1)] assms(2)] reachable_component [OF assms(1)]
    own_steps_end [of w] own_steps_work [of _ w] by (simp add: le_add1) (metis le_add1)

lemma Close_ends_witness:
  "\<exists>n v. (own_step ^^ n) sample_lifetime v \<and> scope_done (scope v) \<and> runs_of (trace v) = [Fails ''busy'', Succeeds] \<and>
    closeErr (scope v) = [ComponentCleanup ''npm'' (CleanupFailed ''busy'')]"
proof -
  have "scope_closed (scope sample_lifetime)" by (simp add: sample_lifetime_def)
  from Close_ends [OF sample_lifetime_reachable this] obtain n v where
    "(own_step ^^ n) sample_lifetime v" "scope_done (scope v)" "runs_of (trace v) = rev (registered sample_lifetime)"
    "closeErr (scope v) = joined ''npm'' (rev (registered sample_lifetime))" by blast
  then show ?thesis by (intro exI [of _ n] exI [of _ v]) (simp add: sample_lifetime_def joined_def cleanup_errors_def)
qed

end
