(* ===== verification/Declarations.thy ===== *)
theory Declarations
  imports Origins
begin

text \<open>
  What a component declares about itself and a host reads from untrusted input: the
  requirements of a descriptor (\<open>plugin/requirement.go\<close>) and the access disclosure of a
  package manifest (\<open>plugin/access.go\<close>). The regular expressions are written out as
  recognizers over bytes. JSON text is a parameter: what \<open>encoding/json\<close> decodes from the
  bytes, and what it writes.
\<close>

section \<open>Byte classes\<close>

definition lower_letter :: "char \<Rightarrow> bool" where
  "lower_letter c \<longleftrightarrow> 97 \<le> byte c \<and> byte c \<le> 122"

definition upper_letter :: "char \<Rightarrow> bool" where
  "upper_letter c \<longleftrightarrow> 65 \<le> byte c \<and> byte c \<le> 90"

definition digit_char :: "char \<Rightarrow> bool" where
  "digit_char c \<longleftrightarrow> 48 \<le> byte c \<and> byte c \<le> 57"

section \<open>Requirements\<close>

type_synonym requirement = string

abbreviation RequirementSourceTree :: requirement where "RequirementSourceTree \<equiv> ''source-tree-v1''"
abbreviation RequirementDependencyGraph :: requirement where "RequirementDependencyGraph \<equiv> ''dependency-graph-v1''"
abbreviation RequirementVulnerabilityRecords :: requirement where
  "RequirementVulnerabilityRecords \<equiv> ''vulnerability-records-v1''"

definition knownRequirements :: "requirement list" where
  "knownRequirements = [RequirementDependencyGraph, RequirementSourceTree, RequirementVulnerabilityRecords]"

definition Requirement_Known :: "requirement \<Rightarrow> bool" where
  "Requirement_Known r \<longleftrightarrow> r \<in> set knownRequirements"

abbreviation MaxRequirements :: nat where "MaxRequirements \<equiv> 16"
abbreviation MaxRequirementLength :: nat where "MaxRequirementLength \<equiv> 64"

text \<open>The grammar \<^verbatim>\<open>^[a-z][a-z0-9]*(-[a-z0-9]+)*-v[1-9][0-9]*$\<close>: words between hyphens, which
  no class of the expression contains.\<close>

definition word_char :: "char \<Rightarrow> bool" where
  "word_char c \<longleftrightarrow> lower_letter c \<or> digit_char c"

fun first_word :: "string \<Rightarrow> bool" where
  "first_word [] = False"
| "first_word (c # s) = (lower_letter c \<and> list_all word_char s)"

definition next_word :: "string \<Rightarrow> bool" where
  "next_word s \<longleftrightarrow> s \<noteq> [] \<and> list_all word_char s"

fun version_word :: "string \<Rightarrow> bool" where
  "version_word (v # d # s) = (v = CHR ''v'' \<and> 49 \<le> byte d \<and> byte d \<le> 57 \<and> list_all digit_char s)"
| "version_word _ = False"

definition requirementGrammar :: "string \<Rightarrow> bool" where
  "requirementGrammar s =
     (case split_on (CHR ''-'') s of
        w # x # ws \<Rightarrow> first_word w \<and> list_all next_word (butlast (x # ws)) \<and> version_word (last (x # ws))
      | _ \<Rightarrow> False)"

definition Requirements_Normalized :: "requirement list \<Rightarrow> requirement list" where
  "Requirements_Normalized r = (if r = [] then [] else remdups_adj (sort r))"

definition Requirements_MarshalJSON :: "requirement list \<Rightarrow> requirement list" where
  "Requirements_MarshalJSON r = Requirements_Normalized r"

abbreviation maxRequirementsBytes :: nat where "maxRequirementsBytes \<equiv> 4 * 1024"

datatype requirements_error = RequirementsTooLarge | RequirementsNotJSON | TooManyRequirements nat |
  RequirementTooLong requirement | RequirementMalformed requirement

definition Requirements_UnmarshalJSON :: "(string \<Rightarrow> requirement list option) \<Rightarrow> string \<Rightarrow> requirements_error + requirement list" where
  "Requirements_UnmarshalJSON unmarshal payload =
     (if length payload > maxRequirementsBytes then Inl RequirementsTooLarge
      else (case unmarshal payload of
              None \<Rightarrow> Inl RequirementsNotJSON
            | Some decoded \<Rightarrow>
                if length decoded > MaxRequirements then Inl (TooManyRequirements (length decoded))
                else Inr (Requirements_Normalized decoded)))"

fun validate_requirements :: "requirement list \<Rightarrow> requirements_error option" where
  "validate_requirements [] = None"
| "validate_requirements (r # rs) =
     (if length r > MaxRequirementLength then Some (RequirementTooLong r)
      else if \<not> requirementGrammar r then Some (RequirementMalformed r)
      else validate_requirements rs)"

definition Requirements_Validate :: "requirement list \<Rightarrow> requirements_error option" where
  "Requirements_Validate r =
     (if length r > MaxRequirements then Some (TooManyRequirements (length r)) else validate_requirements r)"

definition Unsatisfied :: "requirement list \<Rightarrow> requirement list \<Rightarrow> requirement list" where
  "Unsatisfied r available = filter (\<lambda>x. x \<notin> set available) (Requirements_Normalized r)"

section \<open>Access disclosures\<close>

record access =
  FilesystemRead :: "string list"
  FilesystemWrite :: "string list"
  Network :: "string list"
  Environment :: "string list"
  Subprocesses :: "string list"

definition knownFilesystemScopes :: "string list" where
  "knownFilesystemScopes = [''any'', ''cache'', ''home'', ''project'', ''temp'']"

definition FilesystemScope_Known :: "string \<Rightarrow> bool" where
  "FilesystemScope_Known s \<longleftrightarrow> s \<in> set knownFilesystemScopes"

abbreviation AccessAny :: string where "AccessAny \<equiv> ''*''"
abbreviation MaxAccessEntries :: nat where "MaxAccessEntries \<equiv> 32"
abbreviation MaxAccessEntryLength :: nat where "MaxAccessEntryLength \<equiv> 253"

text \<open>\<^verbatim>\<open>^[a-z][a-z0-9-]*$\<close>, and \<^verbatim>\<open>^[A-Za-z_][A-Za-z0-9_]*\*?$\<close>.\<close>

fun filesystemScopeGrammar :: "string \<Rightarrow> bool" where
  "filesystemScopeGrammar [] = False"
| "filesystemScopeGrammar (c # s) = (lower_letter c \<and> list_all (\<lambda>c. word_char c \<or> c = CHR ''-'') s)"

definition name_start :: "char \<Rightarrow> bool" where
  "name_start c \<longleftrightarrow> lower_letter c \<or> upper_letter c \<or> c = CHR ''_''"

fun environmentNameGrammar :: "string \<Rightarrow> bool" where
  "environmentNameGrammar [] = False"
| "environmentNameGrammar (c # s) =
     (name_start c \<and>
      list_all (\<lambda>c. name_start c \<or> digit_char c) (if s \<noteq> [] \<and> last s = CHR ''*'' then butlast s else s))"

definition normalizedSet :: "string list \<Rightarrow> (string \<Rightarrow> string) \<Rightarrow> string list" where
  "normalizedSet xs canonical = (if xs = [] then [] else remdups_adj (sort (map canonical xs)))"

definition cut_wildcard :: "string \<Rightarrow> string \<times> bool" where
  "cut_wildcard s = (if HasPrefix s ''*.'' then (drop 2 s, True) else (s, False))"

definition canonicalDestination :: "library \<Rightarrow> string \<Rightarrow> string" where
  "canonicalDestination L destination =
     (if destination = AccessAny then destination
      else (case cut_wildcard destination of (host, wildcard) \<Rightarrow>
             (case CanonicalHostname L host of
                None \<Rightarrow> destination
              | Some canon \<Rightarrow> if wildcard then ''*.'' @ canon else canon)))"

definition Access_Normalized :: "library \<Rightarrow> access \<Rightarrow> access" where
  "Access_Normalized L a =
     \<lparr>FilesystemRead = normalizedSet (FilesystemRead a) id, FilesystemWrite = normalizedSet (FilesystemWrite a) id,
      Network = normalizedSet (Network a) (canonicalDestination L), Environment = normalizedSet (Environment a) id,
      Subprocesses = normalizedSet (Subprocesses a) id\<rparr>"

definition validDestination :: "library \<Rightarrow> string \<Rightarrow> bool" where
  "validDestination L destination =
     (if destination = AccessAny then True else CanonicalHostname L (fst (cut_wildcard destination)) \<noteq> None)"

definition validEnvironment :: "string \<Rightarrow> bool" where
  "validEnvironment s \<longleftrightarrow> s = AccessAny \<or> environmentNameGrammar s"

definition validCommand :: "string \<Rightarrow> bool" where
  "validCommand command =
     (if command = AccessAny then True
      else if command = [] \<or> command = ''.'' \<or> command = ''..'' \<or> \<not> ValidString command \<or> ContainsControlChar command
      then False
      else \<not> (\<exists>c \<in> set command. c \<in> {CHR ''/'', CHR 0x5C, CHR '' '', CHR 0x09}))"

datatype access_error = AccessTooMany string nat | AccessEntryTooLong string | AccessEntryMalformed string string |
  AccessTooLarge | AccessNotJSON | AccessTrailing

fun validate_entries :: "string \<Rightarrow> (string \<Rightarrow> bool) \<Rightarrow> string list \<Rightarrow> access_error option" where
  "validate_entries f valid [] = None"
| "validate_entries f valid (x # xs) =
     (if length x > MaxAccessEntryLength then Some (AccessEntryTooLong f)
      else if \<not> valid x then Some (AccessEntryMalformed f x)
      else validate_entries f valid xs)"

fun first_error :: "'e option list \<Rightarrow> 'e option" where
  "first_error [] = None"
| "first_error (None # es) = first_error es"
| "first_error (Some e # es) = Some e"

definition validate_list :: "string \<Rightarrow> string list \<Rightarrow> (string \<Rightarrow> bool) \<Rightarrow> access_error option" where
  "validate_list f xs valid =
     (if length xs > MaxAccessEntries then Some (AccessTooMany f (length xs)) else validate_entries f valid xs)"

definition Access_Validate :: "library \<Rightarrow> access \<Rightarrow> access_error option" where
  "Access_Validate L a =
     first_error
       [validate_list ''filesystemRead'' (FilesystemRead a) filesystemScopeGrammar,
        validate_list ''filesystemWrite'' (FilesystemWrite a) filesystemScopeGrammar,
        validate_list ''network'' (Network a) (validDestination L),
        validate_list ''environment'' (Environment a) validEnvironment,
        validate_list ''subprocesses'' (Subprocesses a) validCommand]"

abbreviation maxAccessBytes :: nat where "maxAccessBytes \<equiv> 256 * 1024"

definition too_many :: "string \<Rightarrow> string list \<Rightarrow> access_error option" where
  "too_many f xs = (if length xs > MaxAccessEntries then Some (AccessTooMany f (length xs)) else None)"

text \<open>\<open>decode\<close> is the strict decoder, which refuses unknown keys: the block it read and whether
  more data follows.\<close>

definition Access_UnmarshalJSON :: "library \<Rightarrow> (string \<Rightarrow> (access \<times> bool) option) \<Rightarrow> string \<Rightarrow> access_error + access" where
  "Access_UnmarshalJSON L decode payload =
     (if length payload > maxAccessBytes then Inl AccessTooLarge
      else (case decode payload of
              None \<Rightarrow> Inl AccessNotJSON
            | Some (wire, trailing) \<Rightarrow>
                if trailing then Inl AccessTrailing
                else (case first_error
                        [too_many ''filesystemRead'' (FilesystemRead wire), too_many ''filesystemWrite'' (FilesystemWrite wire),
                         too_many ''network'' (Network wire), too_many ''environment'' (Environment wire),
                         too_many ''subprocesses'' (Subprocesses wire)] of
                        Some err \<Rightarrow> Inl err
                      | None \<Rightarrow> Inr (Access_Normalized L wire))))"

definition Access_MarshalJSON :: "library \<Rightarrow> access \<Rightarrow> access" where
  "Access_MarshalJSON L a = Access_Normalized L a"

definition ValidateAccess :: "library \<Rightarrow> access option \<Rightarrow> access_error option" where
  "ValidateAccess L a = (case a of None \<Rightarrow> None | Some a \<Rightarrow> Access_Validate L a)"

section \<open>Requirements are a set\<close>

lemma remdups_sorted: "sorted (remdups_adj (sort xs))" "distinct (remdups_adj (sort (xs :: 'a :: linorder list)))"
  by (simp_all add: sorted_remdups_adj sorted_remdups_distinct)

lemma Requirements_Normalized_simps [simp]:
  "set (Requirements_Normalized r) = set r" "sorted (Requirements_Normalized r)" "distinct (Requirements_Normalized r)"
  by (simp_all add: Requirements_Normalized_def remdups_sorted)

lemma Requirements_Normalized_eq: "Requirements_Normalized r = Requirements_Normalized s \<longleftrightarrow> set r = set s"
  by (metis Requirements_Normalized_simps sorted_distinct_set_unique)

lemma length_remdups_sort: "length (remdups_adj (sort xs)) \<le> length xs"
  using remdups_adj_length [of "sort xs"] by simp

lemma length_Normalized: "length (Requirements_Normalized r) \<le> length r"
  by (simp add: Requirements_Normalized_def length_remdups_sort)

lemma validate_requirements_None:
  "validate_requirements r = None \<longleftrightarrow> (\<forall>x \<in> set r. length x \<le> MaxRequirementLength \<and> requirementGrammar x)"
  by (induction r) auto

lemma Validate_None:
  "Requirements_Validate r = None \<longleftrightarrow>
     length r \<le> MaxRequirements \<and> set r \<subseteq> {x. length x \<le> MaxRequirementLength \<and> requirementGrammar x}"
  by (auto simp: Requirements_Validate_def validate_requirements_None)

text \<open>A declaration is a set: two declarations are written alike exactly when they name the
  same tokens, none dropped, in order and once each; it is valid exactly when it has at most
  16 tokens of at most 64 bytes in the grammar, known or not; what a host has not
  vouched for comes back unsatisfied, so that a token this vocabulary does not know is
  unsatisfied for every host that vouches for known tokens only.
\<close>

lemma Requirements_spec:
  "(Requirements_MarshalJSON r = Requirements_MarshalJSON s \<longleftrightarrow> set r = set s) \<and>
   set (Requirements_MarshalJSON r) = set r \<and> sorted (Requirements_MarshalJSON r) \<and> distinct (Requirements_MarshalJSON r) \<and>
   (Requirements_Validate r = None \<longleftrightarrow>
      length r \<le> MaxRequirements \<and> set r \<subseteq> {x. length x \<le> MaxRequirementLength \<and> requirementGrammar x}) \<and>
   set (Unsatisfied r available) = set r - set available \<and>
   set (filter (\<lambda>x. \<not> Requirement_Known x) r) \<subseteq> set (Unsatisfied r (filter Requirement_Known available))"
  by (auto simp: Requirements_MarshalJSON_def Requirements_Normalized_eq Validate_None Unsatisfied_def)

text \<open>
  The text \<^verbatim>\<open>json.Marshal\<close> writes for a list of tokens none of whose bytes it escapes.
\<close>

definition quoted :: "string \<Rightarrow> string" where
  "quoted s = CHR 0x22 # s @ [CHR 0x22]"

definition json_tokens :: "string list \<Rightarrow> string" where
  "json_tokens xs = (if xs = [] then ''null'' else ''['' @ Join (map quoted xs) '','' @ '']'')"

lemma Join_bytes: "length (Join xs sep) = sum_list (map length xs) + (length xs - 1) * length sep"
  by (induction xs sep rule: Join.induct) simp_all

lemma sum_list_bound: "\<forall>x \<in> set xs. length x \<le> n \<Longrightarrow> sum_list (map length xs) \<le> length xs * n"
  by (induction xs) auto

lemma json_tokens_fits:
  assumes "Requirements_Validate r = None"
  shows "length (json_tokens (Requirements_Normalized r)) \<le> maxRequirementsBytes"
proof -
  let ?q = "Requirements_Normalized r"
  have n: "length ?q \<le> 16" using assms length_Normalized [of r] by (simp add: Validate_None)
  have "\<forall>x \<in> set (map quoted ?q). length x \<le> 66" using assms by (auto simp: Validate_None quoted_def)
  from sum_list_bound [OF this] have "sum_list (map length (map quoted ?q)) \<le> length ?q * 66" by simp
  then have "length (json_tokens ?q) \<le> length ?q * 66 + length ?q + 4" by (auto simp: json_tokens_def Join_bytes)
  then show ?thesis using n by simp
qed

text \<open>Every valid declaration survives the wire: its text is within the bound of the
  decoder, which reads back the same set, again valid.
\<close>

lemma Requirements_round_trip:
  assumes "Requirements_Validate r = None" "unmarshal (json_tokens (Requirements_MarshalJSON r)) = Some (Requirements_MarshalJSON r)"
  shows "Requirements_UnmarshalJSON unmarshal (json_tokens (Requirements_MarshalJSON r)) = Inr (Requirements_Normalized r) \<and>
    Requirements_Validate (Requirements_Normalized r) = None"
proof -
  have "length (Requirements_Normalized r) \<le> MaxRequirements"
    using assms(1) length_Normalized [of r] by (simp add: Validate_None)
  moreover have "Requirements_Normalized (Requirements_Normalized r) = Requirements_Normalized r"
    by (simp only: Requirements_Normalized_eq Requirements_Normalized_simps)
  ultimately show ?thesis
    using assms json_tokens_fits [OF assms(1)]
    by (simp add: Requirements_UnmarshalJSON_def Requirements_MarshalJSON_def Validate_None)
qed

definition sample_requirements :: "requirement list" where
  "sample_requirements = [''source-tree-v1'', ''gpu-v2'', ''source-tree-v1'']"

lemma sample_requirements_valid: "Requirements_Validate sample_requirements = None"
  by (simp add: sample_requirements_def Requirements_Validate_def requirementGrammar_def next_word_def word_char_def
      lower_letter_def digit_char_def)

lemma Requirements_round_trip_witness:
  "Requirements_UnmarshalJSON (\<lambda>_. Some [''gpu-v2'', ''source-tree-v1'']) (json_tokens (Requirements_MarshalJSON sample_requirements))
     = Inr (Requirements_Normalized sample_requirements)"
proof -
  have "Requirements_MarshalJSON sample_requirements = [''gpu-v2'', ''source-tree-v1'']"
    by (simp add: sample_requirements_def Requirements_MarshalJSON_def Requirements_Normalized_def less_char_def)
  then show ?thesis
    using Requirements_round_trip [OF sample_requirements_valid, of "\<lambda>_. Some [''gpu-v2'', ''source-tree-v1'']"] by simp
qed

section \<open>A disclosure hides nothing\<close>

lemma set_normalizedSet [simp]: "set (normalizedSet xs f) = f ` set xs" "sorted (normalizedSet xs f)"
    "distinct (normalizedSet xs f)" "length (normalizedSet xs f) \<le> length xs"
  using length_remdups_sort [of "map f xs"] by (simp_all add: normalizedSet_def remdups_sorted)

lemma validate_entries_None:
  "validate_entries f valid xs = None \<longleftrightarrow> (\<forall>x \<in> set xs. length x \<le> MaxAccessEntryLength \<and> valid x)"
  by (induction xs) auto

lemma first_error_None: "first_error es = None \<longleftrightarrow> (\<forall>e \<in> set es. e = None)"
  by (induction es rule: first_error.induct) auto

lemma validate_list_None:
  "validate_list f xs valid = None \<longleftrightarrow>
     length xs \<le> MaxAccessEntries \<and> (\<forall>x \<in> set xs. length x \<le> MaxAccessEntryLength \<and> valid x)"
  by (auto simp: validate_list_def validate_entries_None)

lemma too_many_None: "too_many f xs = None \<longleftrightarrow> length xs \<le> MaxAccessEntries"
  by (simp add: too_many_def)

text \<open>A destination is malformed exactly when its canonical spelling is not one of a host.\<close>

lemma canonicalDestination_malformed:
  "\<not> validDestination L d \<Longrightarrow> canonicalDestination L d = d"
  by (auto simp: validDestination_def canonicalDestination_def split: if_splits prod.splits)

definition access_lists :: "(string \<Rightarrow> string) \<Rightarrow> access \<Rightarrow> string set list" where
  "access_lists f a =
     [set (FilesystemRead a), set (FilesystemWrite a), f ` set (Network a), set (Environment a), set (Subprocesses a)]"

definition access_fields :: "access \<Rightarrow> string list list" where
  "access_fields a = [FilesystemRead a, FilesystemWrite a, Network a, Environment a, Subprocesses a]"

lemma too_many_lists:
  "first_error [too_many ''filesystemRead'' (FilesystemRead w), too_many ''filesystemWrite'' (FilesystemWrite w),
      too_many ''network'' (Network w), too_many ''environment'' (Environment w), too_many ''subprocesses'' (Subprocesses w)] = None \<longleftrightarrow>
   list_all (\<lambda>xs. length xs \<le> MaxAccessEntries) (access_fields w)"
  by (simp add: first_error_None too_many_None access_fields_def)

lemma Access_UnmarshalJSON_Inr:
  "Access_UnmarshalJSON L decode payload = Inr b \<longleftrightarrow>
     (\<exists>w. length payload \<le> maxAccessBytes \<and> decode payload = Some (w, False) \<and> b = Access_Normalized L w \<and>
          list_all (\<lambda>xs. length xs \<le> MaxAccessEntries) (access_fields w))"
  by (auto simp: Access_UnmarshalJSON_def too_many_lists [symmetric] split: option.splits)

lemma Access_Normalized_lists:
  "access_lists id (Access_Normalized L w) = access_lists (canonicalDestination L) w"
  "list_all (\<lambda>xs. sorted xs \<and> distinct xs) (access_fields (Access_Normalized L w))"
  "list_all (\<lambda>xs. length xs \<le> n) (access_fields w) \<Longrightarrow> list_all (\<lambda>xs. length xs \<le> n) (access_fields (Access_Normalized L w))"
  by (auto simp: access_lists_def access_fields_def Access_Normalized_def intro: order_trans [OF set_normalizedSet(4)])

lemma Access_Validate_None:
  "Access_Validate L a = None \<longleftrightarrow> list_all (\<lambda>xs. length xs \<le> MaxAccessEntries) (access_fields a) \<and>
     list_all (\<lambda>X. X \<subseteq> {x. length x \<le> MaxAccessEntryLength}) (access_lists id a) \<and>
     list_all2 (\<lambda>X valid. X \<subseteq> Collect valid) (access_lists id a)
       [filesystemScopeGrammar, filesystemScopeGrammar, validDestination L, validEnvironment, validCommand]"
  by (auto simp: Access_Validate_def first_error_None validate_list_None access_lists_def access_fields_def)

text \<open>C30. A disclosure is read from a manifest exactly when the text is within its byte bound, is one
  JSON value of the known lists and nothing after it, and each list as written, before repetitions are
  dropped, is within the bound on entries; what is read is five sorted lists without repetition that hold
  exactly the entries the publisher wrote, destinations canonicalized and a malformed one left as it is.
  When the disclosure read validates, every entry of the text was well formed, and within the bound
  on its length, a destination in its canonical spelling: an overlong spelling of a host is the one
  thing that reading may repair.
\<close>

theorem Access_UnmarshalJSON_spec:
  "(Access_UnmarshalJSON L decode payload = Inr b \<longleftrightarrow>
      length payload \<le> maxAccessBytes \<and>
      (\<exists>u. decode payload = Some (u, False) \<and> list_all (\<lambda>xs. length xs \<le> MaxAccessEntries) (access_fields u) \<and> b = Access_Normalized L u)) \<and>
   access_lists id (Access_Normalized L w) = access_lists (canonicalDestination L) w \<and>
   list_all (\<lambda>xs. sorted xs \<and> distinct xs) (access_fields (Access_Normalized L w)) \<and>
   {d \<in> set (Network w). \<not> validDestination L d} \<subseteq> set (Network (Access_Normalized L w)) \<and>
   (Access_Validate L (Access_Normalized L w) = None \<longrightarrow>
      list_all2 (\<lambda>X valid. X \<subseteq> Collect valid) (access_lists id w)
        [filesystemScopeGrammar, filesystemScopeGrammar, validDestination L, validEnvironment, validCommand] \<and>
      (\<forall>X \<in> set (access_lists (canonicalDestination L) w). \<forall>x \<in> X. length x \<le> MaxAccessEntryLength))"
proof -
  let ?b = "Access_Normalized L w"
  have n: "set (Network ?b) = canonicalDestination L ` set (Network w)" by (simp add: Access_Normalized_def)
  have m: "{d \<in> set (Network w). \<not> validDestination L d} \<subseteq> set (Network ?b)"
    unfolding n by (force intro: rev_image_eqI simp: canonicalDestination_malformed)
  have v: "list_all2 (\<lambda>X valid. X \<subseteq> Collect valid) (access_lists id w)
      [filesystemScopeGrammar, filesystemScopeGrammar, validDestination L, validEnvironment, validCommand]"
    "\<forall>X \<in> set (access_lists (canonicalDestination L) w). \<forall>x \<in> X. length x \<le> MaxAccessEntryLength"
    if "Access_Validate L ?b = None"
  proof -
    have "set (Network ?b) \<subseteq> Collect (validDestination L)" using that by (simp add: Access_Validate_None access_lists_def)
    then have "set (Network w) \<subseteq> Collect (validDestination L)" using m by auto
    then show "list_all2 (\<lambda>X valid. X \<subseteq> Collect valid) (access_lists id w)
      [filesystemScopeGrammar, filesystemScopeGrammar, validDestination L, validEnvironment, validCommand]"
      using that Access_Normalized_lists(1) [of L w]
      by (simp add: Access_Validate_None access_lists_def)
    show "\<forall>X \<in> set (access_lists (canonicalDestination L) w). \<forall>x \<in> X. length x \<le> MaxAccessEntryLength"
      using that unfolding Access_Normalized_lists(1) [of L w, symmetric] by (auto simp: Access_Validate_None access_lists_def)
  qed
  have l: "list_all (\<lambda>xs. sorted xs \<and> distinct xs) (access_fields ?b)"
    using Access_Normalized_lists(2) [of L w] by (auto simp: list_all_iff)
  show ?thesis by (intro conjI impI l m v Access_Normalized_lists(1)) (auto simp: Access_UnmarshalJSON_Inr)
qed

definition sample_access :: access where
  "sample_access = \<lparr>FilesystemRead = [''project''], FilesystemWrite = [], Network = [''*'', ''no host''], Environment = [''CI''],
     Subprocesses = [''go'', ''go'']\<rparr>"

lemma Access_UnmarshalJSON_spec_witness:
  "Access_UnmarshalJSON plain_library (\<lambda>_. Some (sample_access, False)) ''{}'' = Inr (Access_Normalized plain_library sample_access) \<and>
   {d \<in> set (Network sample_access). \<not> validDestination plain_library d} \<subseteq> set (Network (Access_Normalized plain_library sample_access))"
proof -
  have "list_all (\<lambda>xs. length xs \<le> MaxAccessEntries) (access_fields sample_access)"
    by (simp add: sample_access_def access_fields_def)
  then show ?thesis
    using Access_UnmarshalJSON_spec [of plain_library "\<lambda>_. Some (sample_access, False)" "''{}''" "Access_Normalized plain_library sample_access" sample_access]
    by auto
qed

text \<open>
  \<open>idna\<close> on names whose only label outside ASCII is one letter, with the DNS limit of 253 bytes.
\<close>

definition idna_sample :: library where
  "idna_sample = plain_library\<lparr>
     idna_Lookup := \<lambda>h. Some (Join (map (\<lambda>l. if l = [CHR 0xC3, CHR 0xA9] then ''xn--9ca'' else l) (split_on (CHR ''.'') h)) ''.''),
     idna_HostLengths := \<lambda>h. if length h \<le> 253 then Some h else None\<rparr>"

definition long_destination :: string where
  "long_destination = ''*.'' @ Join (replicate 31 [CHR 0xC3, CHR 0xA9] @ [''abcde'']) ''.''"

definition long_access :: access where
  "long_access = \<lparr>FilesystemRead = [], FilesystemWrite = [], Network = [long_destination], Environment = [], Subprocesses = []\<rparr>"

text \<open>A disclosure that validates may be written as one that does not: the canonical
  spelling of a wildcard destination can be longer than the bound on an entry, although the
  host itself is within the DNS limit.
\<close>

lemma Access_MarshalJSON_too_long:
  "Access_Validate idna_sample long_access = None \<and>
   Access_Validate idna_sample (Access_MarshalJSON idna_sample long_access) = Some (AccessEntryTooLong ''network'')"
proof -
  have ne: "long_destination \<noteq> ''*''" and c: "cut_wildcard long_destination = (drop 2 long_destination, True)"
    by (simp_all add: long_destination_def cut_wildcard_def HasPrefix_def)
  have s: "split_on (CHR ''.'') (drop 2 long_destination) = replicate 31 [CHR 0xC3, CHR 0xA9] @ [''abcde'']"
    by (simp add: long_destination_def split_on_Join)
  define host where "host = Join (replicate 31 ''xn--9ca'' @ [''abcde'']) ''.''"
  have look: "idna_Lookup idna_sample h =
      Some (Join (map (\<lambda>l. if l = [CHR 0xC3, CHR 0xA9] then ''xn--9ca'' else l) (split_on (CHR ''.'') h)) ''.'')" for h
    by (simp add: idna_sample_def)
  have "map (\<lambda>l. if l = [CHR 0xC3, CHR 0xA9] then ''xn--9ca'' else l) (replicate 31 [CHR 0xC3, CHR 0xA9] @ [''abcde''])
      = replicate 31 ''xn--9ca'' @ [''abcde'']" by simp
  then have h: "idna_Lookup idna_sample (drop 2 long_destination) = Some host" by (simp only: look s host_def)
  have l: "length host = 253" "length long_destination = 100"
    by (simp_all add: host_def long_destination_def Join_bytes sum_list_replicate)
  have k: "CanonicalHostname idna_sample (drop 2 long_destination) = Some host"
    using h l(1) by (simp add: CanonicalHostname_def idna_sample_def)
  have "canonicalDestination idna_sample long_destination = ''*.'' @ host" using ne c k by (simp add: canonicalDestination_def)
  then have m: "Network (Access_MarshalJSON idna_sample long_access) = [''*.'' @ host]"
    by (simp add: Access_MarshalJSON_def Access_Normalized_def long_access_def normalizedSet_def)
  have "validDestination idna_sample long_destination" using c k by (simp add: validDestination_def)
  then have "Access_Validate idna_sample long_access = None"
    using l(2) by (simp add: Access_Validate_def validate_list_def long_access_def)
  moreover have "Access_Validate idna_sample (Access_MarshalJSON idna_sample long_access) = Some (AccessEntryTooLong ''network'')"
    using m l(1) by (simp add: Access_Validate_def validate_list_def) (simp add: Access_MarshalJSON_def Access_Normalized_def long_access_def normalizedSet_def)
  ultimately show ?thesis ..
qed

end
