(* ===== verification/Components.thy ===== *)
theory Components
  imports Declarations Scan
begin

text \<open>
  What a component is to a host: the four descriptors with their validation
  (\<open>plugin/component.go\<close>, \<open>plugin/detector.go\<close>, \<open>plugin/matcher.go\<close>, \<open>plugin/auditor.go\<close>,
  \<open>plugin/analyzer.go\<close>), the module that packages one of them (\<open>plugin/module.go\<close>), the
  selection filters, and the scope filter on a detection result
  (\<open>plugin/detection_filter.go\<close>). A constructor is a value of any type: validation asks
  only whether it is there.
\<close>

section \<open>Descriptors\<close>

record component_descriptor =
  Comp_Name :: string
  Comp_DisplayName :: string
  Comp_Aliases :: "string list"
  Comp_Tags :: "string list"
  SupportedEcosystems :: "ecosystem list"
  SupportedManagers :: "package_manager list"
  Comp_Version :: string
  Requires :: "requirement list"

record package_manager_support =
  SupportedManager :: package_manager
  EvidencePatterns :: "string list"
  MultiModule :: bool

record remediation_capability =
  CapabilityManagers :: "package_manager list"
  CapabilityActions :: "string list"

record detector_descriptor = component_descriptor +
  Technique :: string
  ManagerSupport :: "package_manager_support list"
  FallbackDetectors :: "string list"
  SupportsInstallFirst :: bool
  RemediationCapabilities :: "remediation_capability list"
  IgnoredDirectories :: "string list"
  IgnoredDirectoryMarkers :: "string list"
  DetectorConfigSchema :: string

record matcher_descriptor = component_descriptor +
  MatcherCapabilities :: "string list"
  MatcherConfigSchema :: string

record auditor_descriptor = component_descriptor +
  AuditorConfigSchema :: string

record analyzer_descriptor = component_descriptor +
  SupportedLanguages :: "language list"
  SupportedTiers :: "string list"
  AnalyzerCapabilities :: "string list"
  AnalyzerConfigSchema :: string

definition componentLabel :: "string \<Rightarrow> string \<Rightarrow> string" where
  "componentLabel name displayName = (let v = TrimSpace displayName in if v \<noteq> [] then v else TrimSpace name)"

definition Label :: "'a component_descriptor_scheme \<Rightarrow> string" where
  "Label d = componentLabel (Comp_Name d) (Comp_DisplayName d)"

definition Support :: "package_manager \<Rightarrow> string list \<Rightarrow> package_manager_support" where
  "Support manager patterns = \<lparr>SupportedManager = manager, EvidencePatterns = patterns, MultiModule = False\<rparr>"

definition WithMultiModule :: "package_manager_support \<Rightarrow> package_manager_support" where
  "WithMultiModule s = s\<lparr>MultiModule := True\<rparr>"

section \<open>Selection\<close>

record component_filter =
  Include :: "string list"
  Exclude :: "string list"

definition includesComponentName :: "string list \<Rightarrow> string \<Rightarrow> bool" where
  "includesComponentName include name = (if include = [] then True else name \<in> set include)"

definition excludesComponentName :: "string list \<Rightarrow> string \<Rightarrow> bool" where
  "excludesComponentName exclude name = (name \<in> set exclude)"

definition Filter_Includes :: "component_filter \<Rightarrow> string \<Rightarrow> bool" where
  "Filter_Includes f name = includesComponentName (Include f) name"

definition Filter_Excludes :: "component_filter \<Rightarrow> string \<Rightarrow> bool" where
  "Filter_Excludes f name = excludesComponentName (Exclude f) name"

section \<open>Validation\<close>

datatype descriptor_error =
  DescriptorNil | NameRequired | NameTooLong | NameNotText | VersionTooLong | VersionNotText | AliasEmpty | ManagerEmpty |
  RequiresInvalid requirements_error | SupportManagerEmpty | FallbackEmpty | CapabilityWithoutManager |
  CapabilityManagerEmpty | CapabilityWithoutAction | CapabilityActionInvalid string

definition text_field :: "string \<Rightarrow> bool" where
  "text_field s \<longleftrightarrow> ValidString s \<and> \<not> ContainsControlChar s"

definition blank :: "string \<Rightarrow> bool" where
  "blank s \<longleftrightarrow> TrimSpace s = []"

definition validateComponentDescriptor :: "'a component_descriptor_scheme \<Rightarrow> descriptor_error option" where
  "validateComponentDescriptor d =
     (if blank (Comp_Name d) then Some NameRequired
      else if length (Comp_Name d) > MaxComponentNameLength then Some NameTooLong
      else if \<not> text_field (Comp_Name d) then Some NameNotText
      else if length (Comp_Version d) > MaxComponentNameLength then Some VersionTooLong
      else if \<not> text_field (Comp_Version d) then Some VersionNotText
      else if list_ex blank (Comp_Aliases d) then Some AliasEmpty
      else if list_ex (\<lambda>m. blank (PackageManager_Name m)) (SupportedManagers d) then Some ManagerEmpty
      else map_option RequiresInvalid (Requirements_Validate (Requires d)))"

definition remediation_actions :: "string list" where
  "remediation_actions = [''direct-bump'', ''transitive-override'', ''lockfile-refresh'']"

definition validate_capability :: "remediation_capability \<Rightarrow> descriptor_error option" where
  "validate_capability c =
     (if CapabilityManagers c = [] then Some CapabilityWithoutManager
      else if list_ex (\<lambda>m. blank (PackageManager_Name m)) (CapabilityManagers c) then Some CapabilityManagerEmpty
      else if CapabilityActions c = [] then Some CapabilityWithoutAction
      else map_option CapabilityActionInvalid (List.find (\<lambda>a. a \<notin> set remediation_actions) (CapabilityActions c)))"

definition ValidateDetectorDescriptor :: "detector_descriptor option \<Rightarrow> descriptor_error option" where
  "ValidateDetectorDescriptor descriptor =
     (case descriptor of
        None \<Rightarrow> Some DescriptorNil
      | Some d \<Rightarrow>
          first_error
            ([validateComponentDescriptor d,
              if list_ex (\<lambda>m. blank (PackageManager_Name m)) (SupportedManagers d) then Some ManagerEmpty else None,
              if list_ex (\<lambda>s. blank (PackageManager_Name (SupportedManager s))) (ManagerSupport d) then Some SupportManagerEmpty
              else None,
              if list_ex blank (FallbackDetectors d) then Some FallbackEmpty else None]
             @ map validate_capability (RemediationCapabilities d)))"

definition ValidateMatcherDescriptor :: "matcher_descriptor option \<Rightarrow> descriptor_error option" where
  "ValidateMatcherDescriptor descriptor =
     (case descriptor of None \<Rightarrow> Some DescriptorNil | Some d \<Rightarrow> validateComponentDescriptor d)"

definition ValidateAuditorDescriptor :: "auditor_descriptor option \<Rightarrow> descriptor_error option" where
  "ValidateAuditorDescriptor descriptor =
     (case descriptor of None \<Rightarrow> Some DescriptorNil | Some d \<Rightarrow> validateComponentDescriptor d)"

definition ValidateAnalyzerDescriptor :: "analyzer_descriptor option \<Rightarrow> descriptor_error option" where
  "ValidateAnalyzerDescriptor descriptor =
     (case descriptor of None \<Rightarrow> Some DescriptorNil | Some d \<Rightarrow> validateComponentDescriptor d)"

section \<open>Modules\<close>

abbreviation PluginKindDetector :: string where "PluginKindDetector \<equiv> ''detector''"
abbreviation PluginKindMatcher :: string where "PluginKindMatcher \<equiv> ''matcher''"
abbreviation PluginKindAuditor :: string where "PluginKindAuditor \<equiv> ''auditor''"
abbreviation PluginKindAnalyzer :: string where "PluginKindAnalyzer \<equiv> ''analyzer''"

record 'f detector_module =
  Det_Descriptor :: detector_descriptor
  Det_Support :: "package_manager_support list"
  TargetKinds :: "target_kind list"
  Det_New :: "'f option"

record ('d, 'f) role_module =
  Role_Descriptor :: 'd
  Role_New :: "'f option"

record ('f, 'g, 'h, 'k) module =
  Module_Kind :: string
  Detector :: "'f detector_module option"
  Matcher :: "(matcher_descriptor, 'g) role_module option"
  Auditor :: "(auditor_descriptor, 'h) role_module option"
  Analyzer :: "(analyzer_descriptor, 'k) role_module option"

datatype module_error =
  NotOneRole nat | RoleRequired string | ConstructorRequired string | ModuleDescriptor string descriptor_error |
  ModuleSupportEmpty | ModuleTargetKindEmpty | ModuleKindInvalid string

definition role_count :: "('f, 'g, 'h, 'k) module \<Rightarrow> nat" where
  "role_count m = length (filter id [Detector m \<noteq> None, Matcher m \<noteq> None, Auditor m \<noteq> None, Analyzer m \<noteq> None])"

definition validate_detector_module :: "'f detector_module \<Rightarrow> module_error option" where
  "validate_detector_module d =
     (if Det_New d = None then Some (ConstructorRequired PluginKindDetector)
      else (case ValidateDetectorDescriptor (Some (Det_Descriptor d)) of
              Some err \<Rightarrow> Some (ModuleDescriptor PluginKindDetector err)
            | None \<Rightarrow>
                if list_ex (\<lambda>s. PackageManager_Name (SupportedManager s) = []) (Det_Support d) then Some ModuleSupportEmpty
                else if list_ex (\<lambda>k. k = []) (TargetKinds d) then Some ModuleTargetKindEmpty
                else None))"

definition validate_role :: "string \<Rightarrow> ('d option \<Rightarrow> descriptor_error option) \<Rightarrow> ('d, 'f) role_module \<Rightarrow> module_error option" where
  "validate_role kind validate r =
     (if Role_New r = None then Some (ConstructorRequired kind)
      else map_option (ModuleDescriptor kind) (validate (Some (Role_Descriptor r))))"

definition ValidateModule :: "('f, 'g, 'h, 'k) module \<Rightarrow> module_error option" where
  "ValidateModule m =
     (if role_count m \<noteq> 1 then Some (NotOneRole (role_count m))
      else if Module_Kind m = PluginKindDetector then
        (case Detector m of None \<Rightarrow> Some (RoleRequired (Module_Kind m)) | Some d \<Rightarrow> validate_detector_module d)
      else if Module_Kind m = PluginKindMatcher then
        (case Matcher m of None \<Rightarrow> Some (RoleRequired (Module_Kind m))
         | Some r \<Rightarrow> validate_role PluginKindMatcher ValidateMatcherDescriptor r)
      else if Module_Kind m = PluginKindAuditor then
        (case Auditor m of None \<Rightarrow> Some (RoleRequired (Module_Kind m))
         | Some r \<Rightarrow> validate_role PluginKindAuditor ValidateAuditorDescriptor r)
      else if Module_Kind m = PluginKindAnalyzer then
        (case Analyzer m of None \<Rightarrow> Some (RoleRequired (Module_Kind m))
         | Some r \<Rightarrow> validate_role PluginKindAnalyzer ValidateAnalyzerDescriptor r)
      else Some (ModuleKindInvalid (Module_Kind m)))"

section \<open>The scope filter on a detection result\<close>

record 'd detection_result =
  SubprojectInfo :: subproject
  RootExecutionTarget :: execution_target
  DetectorName :: string
  DetectorOrigin :: string
  DetectorTechnique :: string
  FallbackFrom :: string
  FallbackReason :: string
  Graphs :: "(package option, 'd) graph_container option"
  DetectionWarnings :: "detector_warning list"

definition allowed_ids :: "graph \<Rightarrow> string list" where
  "allowed_ids g = concat (map (\<lambda>n. case AsDependencyNode (Some n) of None \<Rightarrow> [] | Some _ \<Rightarrow> [NodeID n]) (WalkNodes g))"

definition filterEntryPackagesByGraph :: "package option list \<Rightarrow> graph option \<Rightarrow> package option list" where
  "filterEntryPackagesByGraph packages g =
     (case g of
        None \<Rightarrow> packages
      | Some g \<Rightarrow>
          if packages = [] then packages
          else if allowed_ids g = [] then []
          else filter (\<lambda>p. case p of None \<Rightarrow> False | Some p \<Rightarrow> PURL (PkgCoords p) \<in> set (allowed_ids g)) packages)"

definition add_unseen :: "string list \<Rightarrow> string \<Rightarrow> string list" where
  "add_unseen seen x = (if x \<in> set seen then seen else seen @ [x])"

fun filter_entries ::
    "scope \<Rightarrow> (package option, 'd) graph_container \<Rightarrow> string list \<Rightarrow>
     graph_error + (package option, 'd) graph_container \<times> string list" where
  "filter_entries want [] seen = Inr ([], seen)"
| "filter_entries want (entry # rest) seen =
     (case EntryGraph entry of
        None \<Rightarrow> map_sum id (map_prod (Cons entry) id) (filter_entries want rest seen)
      | Some g \<Rightarrow>
          (case FilterGraphByScopeWithReport (Some g) want of
             Inl err \<Rightarrow> Inl err
           | Inr (view, unasserted) \<Rightarrow>
               map_sum id
                 (map_prod (Cons (entry\<lparr>EntryGraph := view, EntryPackages := filterEntryPackagesByGraph (EntryPackages entry) view\<rparr>)) id)
                 (filter_entries want rest (foldl add_unseen seen unasserted))))"

definition FilterDetectionResultByScopeWithReport ::
    "'d detection_result \<Rightarrow> scope \<Rightarrow> graph_error + 'd detection_result \<times> string list" where
  "FilterDetectionResultByScopeWithReport r want =
     (case Graphs r of
        None \<Rightarrow> Inr (r, [])
      | Some entries \<Rightarrow>
          if want = ScopeUnknown then Inr (r, [])
          else map_sum id (\<lambda>(kept, seen). (r\<lparr>Graphs := Some kept\<rparr>, sort seen)) (filter_entries want entries []))"

definition FilterDetectionResultByScope :: "'d detection_result \<Rightarrow> scope \<Rightarrow> graph_error + 'd detection_result" where
  "FilterDetectionResultByScope r want = map_sum id fst (FilterDetectionResultByScopeWithReport r want)"

section \<open>What the filter keeps\<close>

lemma walked_dependencies: assumes ok: "graph_ok g"
  shows "set (allowed_ids g) = {x. \<exists>n. Node g x = Some (DependencyNode n)}"
proof -
  have "x \<in> set (case AsDependencyNode (Some m) of None \<Rightarrow> [] | Some _ \<Rightarrow> [NodeID m])
      \<longleftrightarrow> x = NodeID m \<and> (\<exists>n. m = DependencyNode n)" for x m
    by (cases m) simp_all
  then have "x \<in> set (allowed_ids g) \<longleftrightarrow> (\<exists>m. Node g (NodeID m) = Some m \<and> x = NodeID m \<and> (\<exists>n. m = DependencyNode n))" for x
    by (simp add: allowed_ids_def WalkNodes_set [OF ok] del: NodeID.simps)
  moreover have "(\<exists>m. Node g (NodeID m) = Some m \<and> x = NodeID m \<and> (\<exists>n. m = DependencyNode n))
      \<longleftrightarrow> (\<exists>n. Node g x = Some (DependencyNode n))" for x
    by (metis Node_id [OF ok])
  ultimately show ?thesis by (simp only: set_eq_iff mem_Collect_eq simp_thms)
qed

text \<open>Whether a package record belongs to a dependency of the graph.\<close>

definition described :: "graph \<Rightarrow> package option \<Rightarrow> bool" where
  "described g p =
     (case p of
        None \<Rightarrow> False
      | Some q \<Rightarrow> (case Node g (PURL (PkgCoords q)) of Some (DependencyNode n) \<Rightarrow> True | _ \<Rightarrow> False))"

lemma described_iff: "described g (Some q) \<longleftrightarrow> (\<exists>n. Node g (PURL (PkgCoords q)) = Some (DependencyNode n))"
  by (auto simp: described_def split: option.splits graph_node.splits)

lemma filterEntryPackages_described: assumes ok: "graph_ok g"
  shows "filterEntryPackagesByGraph packages (Some g) = filter (described g) packages"
proof -
  have m: "(case p of None \<Rightarrow> False | Some p \<Rightarrow> PURL (PkgCoords p) \<in> set (allowed_ids g)) = described g p" for p
    unfolding walked_dependencies [OF ok] by (cases p) (simp add: described_def, simp add: described_iff)
  have "\<not> described g p" if "allowed_ids g = []" for p using m [of p] unfolding that by (cases p) simp_all
  moreover have "(\<lambda>p. case p of None \<Rightarrow> False | Some p \<Rightarrow> PURL (PkgCoords p) \<in> set (allowed_ids g)) = described g"
    using m by (rule ext)
  ultimately show ?thesis by (simp add: filterEntryPackagesByGraph_def)
qed

text \<open>One entry before and after: only its graph and its packages differ.\<close>

definition filtered_entry :: "scope \<Rightarrow> (package option, 'd) graph_entry \<Rightarrow> (package option, 'd) graph_entry \<Rightarrow> bool" where
  "filtered_entry want e f =
     (case EntryGraph e of
        None \<Rightarrow> f = e
      | Some g \<Rightarrow>
          (case FilterGraphByScopeWithReport (Some g) want of
             Inr (Some v, _) \<Rightarrow> f = e\<lparr>EntryGraph := Some v, EntryPackages := filter (described v) (EntryPackages e)\<rparr>
           | _ \<Rightarrow> False))"

definition entry_report :: "scope \<Rightarrow> (package option, 'd) graph_entry \<Rightarrow> string list" where
  "entry_report want e =
     (case FilterGraphByScopeWithReport (EntryGraph e) want of Inl _ \<Rightarrow> [] | Inr (_, unasserted) \<Rightarrow> unasserted)"

lemma add_unseen: "distinct seen \<Longrightarrow> distinct (foldl add_unseen seen xs) \<and> set (foldl add_unseen seen xs) = set seen \<union> set xs"
  by (induction xs arbitrary: seen) (auto simp: add_unseen_def)

lemma filter_entries_Inr:
  assumes "\<forall>e \<in> set entries. entry_ok e" "want \<noteq> ScopeUnknown" "distinct seen"
  shows "\<exists>kept rep. filter_entries want entries seen = Inr (kept, rep) \<and> list_all2 (filtered_entry want) entries kept \<and>
    distinct rep \<and> set rep = set seen \<union> (\<Union>e \<in> set entries. set (entry_report want e))"
  using assms
proof (induction entries arbitrary: seen)
  case Nil
  then show ?case by simp
next
  case (Cons e rest)
  show ?case
  proof (cases "EntryGraph e")
    case None
    then have "entry_report want e = []" by (simp add: entry_report_def FilterGraphByScopeWithReport_def)
    moreover obtain kept rep where "filter_entries want rest seen = Inr (kept, rep)" "list_all2 (filtered_entry want) rest kept"
      "distinct rep" "set rep = set seen \<union> (\<Union>e \<in> set rest. set (entry_report want e))"
      using Cons.IH [of seen] Cons.prems by auto
    moreover have "filtered_entry want e e" using None by (simp add: filtered_entry_def)
    ultimately show ?thesis using None by (intro exI [of _ "e # kept"] exI [of _ rep]) simp
  next
    case (Some g)
    then have "graph_ok g" using Cons.prems(1) by (simp add: entry_ok_def)
    then obtain v u where v: "FilterGraphByScopeWithReport (Some g) want = Inr (Some v, u)" "graph_ok v"
      using FilterGraphByScope_facts [of g want] Cons.prems(2) by blast
    note seen = add_unseen [OF Cons.prems(3), of u]
    then obtain kept rep where "filter_entries want rest (foldl add_unseen seen u) = Inr (kept, rep)"
      "list_all2 (filtered_entry want) rest kept" "distinct rep"
      "set rep = set (foldl add_unseen seen u) \<union> (\<Union>e \<in> set rest. set (entry_report want e))"
      using Cons.IH [of "foldl add_unseen seen u"] Cons.prems by auto
    moreover have "filtered_entry want e
        (e\<lparr>EntryGraph := Some v, EntryPackages := filterEntryPackagesByGraph (EntryPackages e) (Some v)\<rparr>)"
      using Some v by (simp add: filtered_entry_def filterEntryPackages_described)
    ultimately show ?thesis using Some v seen
      by (intro exI [of _ "e\<lparr>EntryGraph := Some v, EntryPackages := filterEntryPackagesByGraph (EntryPackages e) (Some v)\<rparr> # kept"]
            exI [of _ rep]) (auto simp: entry_report_def)
  qed
qed

text \<open>C31. Filtering a detection result by a scope fails for no result of well-formed graphs and
  keeps every entry in its place with its manifest: an entry without a graph is unchanged,
  any other has the filtered graph and exactly the packages that describe a dependency still
  in it; the report names every dependency some entry kept without an asserted scope, once
  and sorted, however many entries reach it; and nothing else of the result changes.
\<close>

theorem FilterDetectionResult_spec:
  assumes "Graphs r = Some entries" "\<forall>e \<in> set entries. entry_ok e" "want \<noteq> ScopeUnknown"
  shows "\<exists>kept report. FilterDetectionResultByScopeWithReport r want = Inr (r\<lparr>Graphs := Some kept\<rparr>, report) \<and>
    list_all2 (filtered_entry want) entries kept \<and> sorted_wrt (<) report \<and>
    set report = (\<Union>e \<in> set entries. set (entry_report want e))"
proof -
  obtain kept rep where "filter_entries want entries [] = Inr (kept, rep)" "list_all2 (filtered_entry want) entries kept"
    "distinct rep" "set rep = (\<Union>e \<in> set entries. set (entry_report want e))"
    using filter_entries_Inr [OF assms(2,3), of "[]"] by auto
  then show ?thesis using assms(1,3)
    by (intro exI [of _ kept] exI [of _ "sort rep"])
       (simp add: FilterDetectionResultByScopeWithReport_def strict_sorted_iff)
qed

definition sample_detection :: "unit detection_result" where
  "sample_detection =
     \<lparr>SubprojectInfo = \<lparr>SubTarget = \<lparr>TargetKind = [], TargetLocation = [], TargetRepositoryURL = [], TargetRef = [], TargetCommitSHA = []\<rparr>,
        RelativePath = [], PrimaryDetector = [], DetectedPackageManagers = [], PlannedDetectors = [], SubEcosystem = []\<rparr>,
      RootExecutionTarget = \<lparr>TargetKind = [], TargetLocation = [], TargetRepositoryURL = [], TargetRef = [], TargetCommitSHA = []\<rparr>,
      DetectorName = ''npm'', DetectorOrigin = [], DetectorTechnique = [], FallbackFrom = [], FallbackReason = [],
      Graphs = Some [\<lparr>EntryGraph = Some sample_graph,
        EntryManifest = \<lparr>MetadataPath = [], MetadataKind = [], Resolution = None\<rparr>, EntryPackages = [None], EntryDocument = None\<rparr>],
      DetectionWarnings = []\<rparr>"

lemma FilterDetectionResult_spec_witness:
  "\<exists>kept. FilterDetectionResultByScope sample_detection ScopeDevelopment = Inr (sample_detection\<lparr>Graphs := Some kept\<rparr>) \<and> length kept = 1"
proof -
  obtain entries where g: "Graphs sample_detection = Some entries" "length entries = 1" "\<forall>e \<in> set entries. entry_ok e"
    using reachable_graph_ok [OF sample_graph_reachable] by (simp add: sample_detection_def entry_ok_def)
  obtain kept report where "FilterDetectionResultByScopeWithReport sample_detection ScopeDevelopment
      = Inr (sample_detection\<lparr>Graphs := Some kept\<rparr>, report)" "list_all2 (filtered_entry ScopeDevelopment) entries kept"
    using FilterDetectionResult_spec [OF g(1,3), of ScopeDevelopment] by auto
  then show ?thesis using g(2)
    by (intro exI [of _ kept]) (simp add: FilterDetectionResultByScope_def list_all2_lengthD [symmetric])
qed

section \<open>What validation accepts\<close>

definition descriptor_ok :: "'a component_descriptor_scheme \<Rightarrow> bool" where
  "descriptor_ok d \<longleftrightarrow>
     \<not> blank (Comp_Name d) \<and> length (Comp_Name d) \<le> MaxComponentNameLength \<and> text_field (Comp_Name d) \<and>
     length (Comp_Version d) \<le> MaxComponentNameLength \<and> text_field (Comp_Version d) \<and>
     list_all (\<lambda>a. \<not> blank a) (Comp_Aliases d) \<and> list_all (\<lambda>m. \<not> blank (PackageManager_Name m)) (SupportedManagers d) \<and>
     Requirements_Validate (Requires d) = None"

lemma list_ex_neg: "\<not> list_ex P xs \<longleftrightarrow> list_all (\<lambda>x. \<not> P x) xs"
  by (simp add: list_all_iff list_ex_iff)

lemma validateComponentDescriptor_None: "validateComponentDescriptor d = None \<longleftrightarrow> descriptor_ok d"
  by (auto simp: validateComponentDescriptor_def descriptor_ok_def list_ex_iff list_all_iff)

definition capability_ok :: "remediation_capability \<Rightarrow> bool" where
  "capability_ok c \<longleftrightarrow>
     CapabilityManagers c \<noteq> [] \<and> list_all (\<lambda>m. \<not> blank (PackageManager_Name m)) (CapabilityManagers c) \<and>
     CapabilityActions c \<noteq> [] \<and> set (CapabilityActions c) \<subseteq> set remediation_actions"

lemma validate_capability_None: "validate_capability c = None \<longleftrightarrow> capability_ok c"
  by (auto simp: validate_capability_def capability_ok_def list_ex_iff list_all_iff find_None_iff)

definition detector_ok :: "detector_descriptor \<Rightarrow> bool" where
  "detector_ok d \<longleftrightarrow> descriptor_ok d \<and> list_all (\<lambda>s. \<not> blank (PackageManager_Name (SupportedManager s))) (ManagerSupport d) \<and>
     list_all (\<lambda>f. \<not> blank f) (FallbackDetectors d) \<and> list_all capability_ok (RemediationCapabilities d)"

lemma ValidateDetectorDescriptor_None: "ValidateDetectorDescriptor (Some d) = None \<longleftrightarrow> detector_ok d"
  by (auto simp: ValidateDetectorDescriptor_def first_error_None validateComponentDescriptor_None validate_capability_None
      detector_ok_def list_ex_neg list_all_iff) (auto simp: descriptor_ok_def list_ex_iff list_all_iff)

definition module_ok :: "('f, 'g, 'h, 'k) module \<Rightarrow> bool" where
  "module_ok m \<longleftrightarrow>
     (case (Detector m, Matcher m, Auditor m, Analyzer m) of
        (Some d, None, None, None) \<Rightarrow>
          Module_Kind m = PluginKindDetector \<and> Det_New d \<noteq> None \<and> detector_ok (Det_Descriptor d) \<and>
          list_all (\<lambda>s. PackageManager_Name (SupportedManager s) \<noteq> []) (Det_Support d) \<and> list_all (\<lambda>k. k \<noteq> []) (TargetKinds d)
      | (None, Some r, None, None) \<Rightarrow> Module_Kind m = PluginKindMatcher \<and> Role_New r \<noteq> None \<and> descriptor_ok (Role_Descriptor r)
      | (None, None, Some r, None) \<Rightarrow> Module_Kind m = PluginKindAuditor \<and> Role_New r \<noteq> None \<and> descriptor_ok (Role_Descriptor r)
      | (None, None, None, Some r) \<Rightarrow> Module_Kind m = PluginKindAnalyzer \<and> Role_New r \<noteq> None \<and> descriptor_ok (Role_Descriptor r)
      | _ \<Rightarrow> False)"

lemma validate_detector_module_None:
  "validate_detector_module d = None \<longleftrightarrow> Det_New d \<noteq> None \<and> detector_ok (Det_Descriptor d) \<and>
     list_all (\<lambda>s. PackageManager_Name (SupportedManager s) \<noteq> []) (Det_Support d) \<and> list_all (\<lambda>k. k \<noteq> []) (TargetKinds d)"
  by (auto simp: validate_detector_module_def ValidateDetectorDescriptor_None [symmetric] list_ex_iff list_all_iff split: option.splits)

text \<open>A module is accepted exactly when it sets one role and no other, the role is the one
  its kind names, the role has a constructor, and its descriptor is sound: a name and a
  version that are text of bounded length, the name not blank, no empty alias, manager,
  fallback or target kind, requirements that validate, and remediation capabilities that
  name a manager and only actions a detector may offer.
\<close>

lemma ValidateModule_spec: "ValidateModule m = None \<longleftrightarrow> module_ok m"
  by (cases "Detector m"; cases "Matcher m"; cases "Auditor m"; cases "Analyzer m")
     (auto simp: ValidateModule_def role_count_def module_ok_def validate_detector_module_None validate_role_def
       ValidateMatcherDescriptor_def ValidateAuditorDescriptor_def ValidateAnalyzerDescriptor_def
       validateComponentDescriptor_None)

end
