(* ===== verification/Sbom.thy ===== *)
theory Sbom
  imports Document Registry
begin

text \<open>
  The neutral SBOM document both formats are read into and written from
  (\<open>sbom/model.go\<close>), and the small rules the codecs share: publishable digests
  (\<open>sbom/digest.go\<close>), the ecosystem and package manager of a component
  (\<open>sbom/identity.go\<close>), the scope carrier (\<open>sbom/scope_carrier.go\<close>), version-control
  locators (\<open>sbom/vcs_locator.go\<close>) and identifiers. The clock, the random source and
  cyclonedx-go's BOM-Link grammar are the functions of the record \<open>sbom_library\<close>; a time is
  the instant it names, \<open>None\<close> the zero time.
\<close>

record sbom_library =
  sbom_now :: int
  rand_Read :: "nat list option"
  clock_nanos :: int
  time_Parse :: "string \<Rightarrow> int option"
  time_Format :: "int \<Rightarrow> string"
  NewBOMLink :: "string \<Rightarrow> string option"
  ParseBOMLink :: "string \<Rightarrow> (string \<times> int) option"

section \<open>The document\<close>

record sbom_license =
  SL_Value :: string
  SL_Expression :: string
  SL_Type :: string

record sbom_digest =
  SD_Algorithm :: string
  SD_Value :: string

record sbom_vulnerability =
  SV_ID :: string
  SV_Source :: string
  SV_Severity :: string
  SV_Score :: "float64 option"
  SV_Vector :: string
  SV_Method :: string
  SV_CWEs :: "int list"
  SV_FixedVersions :: "string list"
  SV_Advisories :: "string list"
  SV_Description :: string
  SV_Recommendation :: string
  SV_Analysis :: "vulnerability_analysis option"

record sbom_eol =
  SE_EOL :: bool
  SE_Date :: string
  SE_Cycle :: string
  SE_Latest :: string

record component_origin =
  CO_ArtifactURL :: string
  CO_Repository :: string
  CO_Revision :: string

record component =
  SC_ID :: string
  SC_Name :: string
  SC_Org :: string
  SC_Version :: string
  SC_Scopes :: "scope list"
  SC_SourceScope :: string
  SC_PURL :: string
  SC_Ecosystem :: string
  SC_PackageManager :: string
  SC_Type :: string
  SC_Copyright :: string
  SC_Licenses :: "sbom_license list"
  SC_CPEs :: "string list"
  SC_Digests :: "sbom_digest list"
  SC_Vulnerabilities :: "sbom_vulnerability list"
  SC_EOL :: "sbom_eol option"
  SC_ArtifactURL :: string
  SC_VCSURL :: string
  SC_VCSRevision :: string
  SC_Supplier :: "contact option"
  SC_Originator :: "contact option"
  SC_Description :: string
  SC_Homepage :: string
  SC_References :: "external_reference list"
  SC_Origins :: "component_origin list"

definition Component_zero :: component where
  "Component_zero =
     \<lparr>SC_ID = [], SC_Name = [], SC_Org = [], SC_Version = [], SC_Scopes = [], SC_SourceScope = [], SC_PURL = [],
      SC_Ecosystem = [], SC_PackageManager = [], SC_Type = [], SC_Copyright = [], SC_Licenses = [], SC_CPEs = [],
      SC_Digests = [], SC_Vulnerabilities = [], SC_EOL = None, SC_ArtifactURL = [], SC_VCSURL = [], SC_VCSRevision = [],
      SC_Supplier = None, SC_Originator = None, SC_Description = [], SC_Homepage = [], SC_References = [], SC_Origins = []\<rparr>"

record sbom_dependency =
  Ref :: string
  RefDependsOn :: "string list"

record provenance =
  Manufacturer :: string
  SecurityContact :: string
  VulnerabilityDisclosureURL :: string
  SupportEnd :: string

definition Provenance_Empty :: "provenance \<Rightarrow> bool" where
  "Provenance_Empty p \<longleftrightarrow>
     Manufacturer p = [] \<and> SecurityContact p = [] \<and> VulnerabilityDisclosureURL p = [] \<and> SupportEnd p = []"

record sbom_document =
  SB_Name :: string
  SB_Namespace :: string
  SB_Tool :: string
  SB_Tools :: "string list"
  SB_ToolVersion :: string
  SB_Created :: "int option"
  SB_SerialNumber :: string
  SB_SerialVersion :: int
  SB_Provenance :: provenance
  SB_Lifecycle :: string
  SB_Aggregate :: string
  SB_Components :: "component list"
  SB_Dependencies :: "sbom_dependency list"
  SB_Roots :: "string list"
  SB_Described :: "string list"
  SB_Assertions :: document_assertions
  SB_UnknownScopeTokens :: "string list"
  SB_Sources :: "document_assertions list"

abbreviation defaultDocumentName :: string where "defaultDocumentName \<equiv> ''bomly-dependencies''"
abbreviation defaultToolName :: string where "defaultToolName \<equiv> ''bomly-cli''"
abbreviation projectRootIDPrefix :: string where "projectRootIDPrefix \<equiv> ''DocumentRoot-''"

record project_root =
  Root_Name :: string
  Root_Version :: string
  Root_Description :: string

record build_options =
  DocumentName :: string
  DocumentNS :: string
  Opt_ToolName :: string
  ToolNames :: "string list"
  Opt_ToolVersion :: string
  Created :: "int option"
  RootComponentID :: string
  SerialNumber :: string
  Opt_ProjectRoot :: "project_root option"
  Opt_Provenance :: provenance
  Lifecycle :: string
  Aggregate :: string
  RestatesSource :: bool
  Opt_Registry :: "package_registry option"

definition isProjectRootID :: "string \<Rightarrow> bool" where
  "isProjectRootID i =
     (let i = TrimSpace i in HasPrefix i projectRootIDPrefix \<or> HasPrefix i (''SPDXRef-'' @ projectRootIDPrefix))"

definition IsProjectRootComponent :: "component \<Rightarrow> bool" where
  "IsProjectRootComponent c = isProjectRootID (SC_ID c)"

definition NameOrID :: "component \<Rightarrow> string" where
  "NameOrID c = (if SC_Name c \<noteq> [] then SC_Name c else SC_ID c)"

definition NameOrDefault :: "sbom_document \<Rightarrow> string" where
  "NameOrDefault d = (if SB_Name d \<noteq> [] then SB_Name d else defaultDocumentName)"

definition CreatedOrNow :: "sbom_library \<Rightarrow> sbom_document \<Rightarrow> int" where
  "CreatedOrNow E d = (case SB_Created d of None \<Rightarrow> sbom_now E | Some t \<Rightarrow> t)"

definition NamespaceOrDefault :: "sbom_library \<Rightarrow> sbom_document \<Rightarrow> string" where
  "NamespaceOrDefault E d =
     (if SB_Namespace d \<noteq> [] then SB_Namespace d else ''https://bomly.dev/spdx/'' @ time_Format E (CreatedOrNow E d))"

definition ToolOrDefault :: "sbom_document \<Rightarrow> string" where
  "ToolOrDefault d = (if SB_Tool d \<noteq> [] then SB_Tool d else defaultToolName)"

definition ToolNamesOrDefault :: "sbom_document \<Rightarrow> string list" where
  "ToolNamesOrDefault d = (if SB_Tools d \<noteq> [] then SB_Tools d else [ToolOrDefault d])"

definition SerialVersionOrDefault :: "sbom_document \<Rightarrow> int" where
  "SerialVersionOrDefault d = (if SB_SerialVersion d > 0 then SB_SerialVersion d else 1)"

definition describedIDs :: "sbom_document \<Rightarrow> string list" where
  "describedIDs d =
     (if SB_Described d = [] then SB_Roots d
      else (let out = filter (\<lambda>i. i \<in> set (map SC_ID (SB_Components d))) (SB_Described d)
            in if out = [] then SB_Roots d else out))"

definition isDescribed :: "sbom_document \<Rightarrow> string \<Rightarrow> bool" where
  "isDescribed d i = (i \<in> set (SB_Described d))"

section \<open>Digests, ecosystems, managers\<close>

definition publishableDigest :: "library \<Rightarrow> sbom_digest \<Rightarrow> (digest_algorithm \<times> string) option" where
  "publishableDigest L d =
     map_option (\<lambda>n. (Algorithm n, Value n))
       (Digest_Normalized L \<lparr>Algorithm = SD_Algorithm d, Value = SD_Value d, Subject = []\<rparr>)"

definition parsePURL :: "library \<Rightarrow> string \<Rightarrow> purl option" where
  "parsePURL L v = (case purl_Parse L (TrimSpace v) of Inl _ \<Rightarrow> None | Inr q \<Rightarrow> Some q)"

definition ecosystemFromPURLType :: "string \<Rightarrow> ecosystem" where
  "ecosystemFromPURLType purlType = EcosystemForPURLType purlType"

definition parseEcosystemHint :: "string \<Rightarrow> ecosystem option" where
  "parseEcosystemHint v = (case ParseEcosystem v of Inl _ \<Rightarrow> None | Inr e \<Rightarrow> Some e)"

definition parsePackageManagerHint :: "string \<Rightarrow> package_manager option" where
  "parsePackageManagerHint v = (case ParsePackageManager v of Inl _ \<Rightarrow> None | Inr m \<Rightarrow> Some m)"

definition ComponentEcosystem :: "library \<Rightarrow> component \<Rightarrow> ecosystem" where
  "ComponentEcosystem L c =
     (case parseEcosystemHint (SC_Ecosystem c) of
        Some e \<Rightarrow> e
      | None \<Rightarrow> (case parsePURL L (SC_PURL c) of Some p \<Rightarrow> ecosystemFromPURLType (PType p) | None \<Rightarrow> []))"

definition preferredPackageManagerForEcosystem :: "ecosystem \<Rightarrow> package_manager option" where
  "preferredPackageManagerForEcosystem e = List.find (\<lambda>m. PackageManager_Ecosystem m = e) allPackageManagers"

definition packageManagerForPURLType :: "string \<Rightarrow> package_manager option" where
  "packageManagerForPURLType purlType =
     (let e = ecosystemFromPURLType purlType
      in if e = [] then None else preferredPackageManagerForEcosystem e)"

definition packageManagerForPURL :: "library \<Rightarrow> string \<Rightarrow> string \<Rightarrow> string \<Rightarrow> package_manager" where
  "packageManagerForPURL L v ecosystemHint packageManagerHint =
     (case parsePackageManagerHint packageManagerHint of
        Some m \<Rightarrow> m
      | None \<Rightarrow>
          (case Option.bind (parsePURL L v) (\<lambda>p. packageManagerForPURLType (PType p)) of
             Some m \<Rightarrow> m
           | None \<Rightarrow>
               (case Option.bind (parseEcosystemHint ecosystemHint) preferredPackageManagerForEcosystem of
                  Some m \<Rightarrow> m
                | None \<Rightarrow> [])))"

definition ParsePackageType :: "string \<Rightarrow> package_type" where
  "ParsePackageType v = ToLower (TrimSpace v)"

section \<open>Scope carriers and locators\<close>

definition unknownScopeTokens :: "string \<Rightarrow> string list" where
  "unknownScopeTokens carrier =
     (case DecodeScopeSetLenient carrier of Inl _ \<Rightarrow> [] | Inr decoded \<Rightarrow> Unknown decoded)"

definition mergeUnknownScopeTokens :: "string list \<Rightarrow> string list \<Rightarrow> string list" where
  "mergeUnknownScopeTokens found tokens =
     (if tokens = [] then found
      else sort (foldl (\<lambda>acc t. if t \<in> set acc then acc else acc @ [t]) found tokens))"

definition vcsLocator :: "string \<Rightarrow> string \<Rightarrow> string" where
  "vcsLocator repository revision =
     (let repository = TrimSpace repository; revision = TrimSpace revision
      in if repository = [] then []
         else ''git+'' @ repository @ (if revision \<noteq> [] then CHR ''@'' # revision else []))"

definition pinnedVCSReference :: "string \<Rightarrow> string \<Rightarrow> string" where
  "pinnedVCSReference repository revision =
     (if TrimSpace revision = [] then TrimSpace repository else vcsLocator repository revision)"

section \<open>Identifiers\<close>

definition id_char :: "char \<Rightarrow> bool" where
  "id_char c \<longleftrightarrow> (97 \<le> byte c \<and> byte c \<le> 122) \<or> (65 \<le> byte c \<and> byte c \<le> 90) \<or> (48 \<le> byte c \<and> byte c \<le> 57) \<or> c = CHR ''.'' \<or> c = CHR ''-''"

fun sanitize_loop :: "string list \<Rightarrow> bool \<Rightarrow> string" where
  "sanitize_loop [] lastDash = []"
| "sanitize_loop (r # rs) lastDash =
     (if length r = 1 \<and> id_char (hd r) then r @ sanitize_loop rs False
      else if \<not> lastDash then CHR ''-'' # sanitize_loop rs True
      else sanitize_loop rs True)"

definition trim_id :: "string \<Rightarrow> string" where
  "trim_id s = (let edge = (\<lambda>c. c = CHR ''-'' \<or> c = CHR ''.'') in rev (dropWhile edge (rev (dropWhile edge s))))"

definition sanitizeSPDXID :: "string \<Rightarrow> string" where
  "sanitizeSPDXID raw =
     (if raw = [] then ''pkg''
      else (let out = trim_id (sanitize_loop (chunks raw) False) in if out = [] then ''pkg'' else out))"

text \<open>The formatting of \<^verbatim>\<open>%x\<close> on bytes, and a random UUID of version 4.\<close>

definition hex_digit_char :: "nat \<Rightarrow> char" where
  "hex_digit_char n = char_of (if n < 10 then 48 + n else 87 + n)"

definition hex_bytes :: "nat list \<Rightarrow> string" where
  "hex_bytes bs = concat (map (\<lambda>b. [hex_digit_char (b div 16 mod 16), hex_digit_char (b mod 16)]) bs)"

fun hex_pad :: "nat \<Rightarrow> nat \<Rightarrow> string" where
  "hex_pad 0 n = []"
| "hex_pad (Suc k) n = hex_pad k (n div 16) @ [hex_digit_char (n mod 16)]"

definition newUUIDv4 :: "sbom_library \<Rightarrow> string" where
  "newUUIDv4 E =
     (case rand_Read E of
        None \<Rightarrow> ''00000000-0000-4000-8000-'' @ hex_pad 12 (nat (clock_nanos E mod 2 ^ 48))
      | Some b \<Rightarrow>
          (let b = b[6 := b ! 6 mod 16 + 64]; b = b[8 := b ! 8 mod 64 + 128]
           in Join [hex_bytes (take 4 b), hex_bytes (take 2 (drop 4 b)), hex_bytes (take 2 (drop 6 b)),
                    hex_bytes (take 2 (drop 8 b)), hex_bytes (drop 10 b)] ''-''))"

end
