(* ===== verification/SbomGraph.thy ===== *)
theory SbomGraph
  imports Sbom Scan
begin

text \<open>
  From a document to a graph (\<open>sbom/graph.go\<close>): each component becomes a dependency node
  whose identity its coordinates mint, what it asserts passes its gate, two components of
  one identity are folded, and the relationships are re-pointed from the document's own
  identifiers. A component that stands for the scanned tree is stepped over; one that mints
  no identity refuses the document.
\<close>

section \<open>What a component asserts\<close>

definition ingestedDigests :: "library \<Rightarrow> sbom_digest list \<Rightarrow> digest list" where
  "ingestedDigests L ds =
     foldl (\<lambda>kept d.
        (case Digest_Normalized L \<lparr>Algorithm = SD_Algorithm d, Value = SD_Value d, Subject = []\<rparr> of
           None \<Rightarrow> kept
         | Some n \<Rightarrow> if n \<in> set kept then kept else kept @ [n])) [] ds"

definition cpe_types :: "library \<Rightarrow> string list" where
  "cpe_types L = [spdx_reference_type L ''TypeSecurityCPE23Type'', spdx_reference_type L ''TypeSecurityCPE22Type'']"

fun first_locator :: "library \<Rightarrow> string \<Rightarrow> string list \<Rightarrow> string option" where
  "first_locator L v [] = None"
| "first_locator L v (t # ts) =
     (case ExternalReference_Normalized L
             \<lparr>Category = CategorySecurity, RefType = t, Locator = v, Comment = [], Hashes = []\<rparr> of
        None \<Rightarrow> first_locator L v ts
      | Some r \<Rightarrow> Some (Locator r))"

definition ingestedCPEs :: "library \<Rightarrow> string list \<Rightarrow> string list" where
  "ingestedCPEs L vs =
     foldl (\<lambda>kept v. (case first_locator L v (cpe_types L) of
        None \<Rightarrow> kept | Some l \<Rightarrow> if l \<in> set kept then kept else kept @ [l])) [] vs"

definition gated_contact :: "library \<Rightarrow> contact option \<Rightarrow> contact option \<Rightarrow> contact option" where
  "gated_contact L mine stated =
     (case stated of
        None \<Rightarrow> mine
      | Some c \<Rightarrow> (case Contact_Normalized L c of None \<Rightarrow> mine | Some n \<Rightarrow> Some n))"

definition applyIngestedAssertions :: "library \<Rightarrow> dependency_node \<Rightarrow> component \<Rightarrow> dependency_node" where
  "applyIngestedAssertions L pkg c =
     pkg\<lparr>Claims := (Claims pkg)
       \<lparr>Supplier := gated_contact L (Supplier (Claims pkg)) (SC_Supplier c),
        Originator := gated_contact L (Originator (Claims pkg)) (SC_Originator c),
        Description := NormalizeDescription (SC_Description c), Homepage := NormalizeHomepage L (SC_Homepage c),
        ExternalReferences := MergeExternalReferences L [] (SC_References c),
        Digests := ingestedDigests L (SC_Digests c), CPEs := ingestedCPEs L (SC_CPEs c)\<rparr>\<rparr>"

definition ingestedCoordinateOrg :: "library \<Rightarrow> component \<Rightarrow> string" where
  "ingestedCoordinateOrg L c =
     (let namespace = TrimSpace (SC_Org c);
          namespace = (case parsePURL L (SC_PURL c) of
                         None \<Rightarrow> namespace
                       | Some p \<Rightarrow> if TrimSpace (Namespace p) \<noteq> [] then TrimSpace (Namespace p) else namespace)
      in if namespace = [] then []
         else (let lowerName = ToLower (TrimSpace (SC_Name c)); lowerNamespace = ToLower namespace
               in if lowerName = lowerNamespace then []
                  else if HasPrefix lowerName (lowerNamespace @ ''/'') \<or> HasPrefix lowerName (lowerNamespace @ '':'') then []
                  else namespace))"

definition graphLicenses :: "sbom_license list \<Rightarrow> package_license list" where
  "graphLicenses ls =
     map (\<lambda>l. PackageLicense_zero\<lparr>LicValue := SL_Value l, SPDXExpression := SL_Expression l, LicType := SL_Type l\<rparr>) ls"

definition ingested_manager :: "library \<Rightarrow> component \<Rightarrow> package_manager" where
  "ingested_manager L c =
     (let m = (case ParsePackageManager (SC_PackageManager c) of Inl _ \<Rightarrow> [] | Inr m \<Rightarrow> m)
      in if m = [] then packageManagerForPURL L (SC_PURL c) (ComponentEcosystem L c) (SC_PackageManager c) else m)"

definition ingested_coordinates :: "library \<Rightarrow> component \<Rightarrow> coordinates" where
  "ingested_coordinates L c =
     \<lparr>PURL = TrimSpace (SC_PURL c), Ecosystem = ComponentEcosystem L c, PackageManager = ingested_manager L c,
      PkgType = ParsePackageType (SC_Type c), Org = ingestedCoordinateOrg L c, Name = SC_Name c,
      Version = SC_Version c, Language = []\<rparr>"

definition ingested_node :: "library \<Rightarrow> component \<Rightarrow> node_error + dependency_node" where
  "ingested_node L c =
     map_sum id
       (\<lambda>pkg. let pkg = pkg\<lparr>NodeScopes := SC_Scopes c, SourceScope := NormalizeSourceScope (SC_SourceScope c),
                            Claims := (Claims pkg)\<lparr>Copyright := NormalizeCopyright (SC_Copyright c)\<rparr>\<rparr>
              in SetDetectionLicenses L (applyIngestedAssertions L pkg c) (graphLicenses (SC_Licenses c)))
       (NewDependencyNode L (ingested_coordinates L c))"

section \<open>The graph\<close>

definition isDocumentRootPseudoPackage :: "component \<Rightarrow> bool \<Rightarrow> bool" where
  "isDocumentRootPseudoPackage c described \<longleftrightarrow>
     (if IsProjectRootComponent c then True
      else described \<and> TrimSpace (SC_PURL c) = [] \<and> TrimSpace (SC_Version c) = [])"

definition componentIdentityHint :: "component \<Rightarrow> string" where
  "componentIdentityHint c =
     (let purl = TrimSpace (SC_PURL c); name = TrimSpace (SC_Name c); version = TrimSpace (SC_Version c)
      in if purl \<noteq> [] then ''purl '' @ purl
         else if name = [] then ''unnamed component''
         else if version \<noteq> [] then ''name '' @ name @ CHR ''@'' # version
         else ''name '' @ name)"

datatype sbom_error =
  ErrNilDocument | BadComponent string string node_error | AddPackage string graph_error | AddDependency graph_error

record ingest =
  in_graph :: graph
  in_ids :: "(string, string) gomap"
  in_skipped :: "string list"

definition ingest_component :: "library \<Rightarrow> sbom_document \<Rightarrow> ingest \<Rightarrow> component \<Rightarrow> sbom_error + ingest" where
  "ingest_component L doc s c =
     (if isDocumentRootPseudoPackage c (isDescribed doc (SC_ID c)) then Inr (s\<lparr>in_skipped := in_skipped s @ [SC_ID c]\<rparr>)
      else (case ingested_node L c of
              Inl err \<Rightarrow> Inl (BadComponent (SC_ID c) (componentIdentityHint c) err)
            | Inr pkg \<Rightarrow>
                (case InsertNode L (in_graph s) (Some (DependencyNode pkg)) of
                   Inl err \<Rightarrow> Inl (AddPackage (SC_ID c) err)
                 | Inr (g, _) \<Rightarrow> Inr (s\<lparr>in_graph := g, in_ids := mput (SC_ID c) (dependency_id pkg) (in_ids s)\<rparr>))))"

text \<open>The relationships that are left once the stand-ins are stepped over, from node to document ID.\<close>

definition stated_dependencies :: "ingest \<Rightarrow> sbom_dependency list \<Rightarrow> (string \<times> string) list" where
  "stated_dependencies s ds =
     concat (map (\<lambda>d. if Ref d \<in> set (in_skipped s) then []
                      else (case mget (in_ids s) (Ref d) of
                              None \<Rightarrow> []
                            | Some a \<Rightarrow> map (Pair a) (filter (\<lambda>x. x \<notin> set (in_skipped s)) (RefDependsOn d)))) ds)"

fun add_relationships :: "(string, string) gomap \<Rightarrow> (string \<times> string) list \<Rightarrow> graph \<Rightarrow> sbom_error + graph" where
  "add_relationships ids [] g = Inr g"
| "add_relationships ids ((a, child) # rest) g =
     (case mget ids child of
        None \<Rightarrow> add_relationships ids rest g
      | Some b \<Rightarrow>
          if a = b then add_relationships ids rest g
          else (case AddEdge g a b of Inl err \<Rightarrow> Inl (AddDependency err) | Inr g \<Rightarrow> add_relationships ids rest g))"

definition toGraph :: "library \<Rightarrow> sbom_document option \<Rightarrow> sbom_error + graph \<times> (string, string) gomap" where
  "toGraph L doc =
     (case doc of
        None \<Rightarrow> Inl ErrNilDocument
      | Some d \<Rightarrow>
          (case foldM (ingest_component L d) \<lparr>in_graph = New, in_ids = [], in_skipped = []\<rparr> (SB_Components d) of
             Inl err \<Rightarrow> Inl err
           | Inr s \<Rightarrow> map_sum id (\<lambda>g. (g, in_ids s))
                        (add_relationships (in_ids s) (stated_dependencies s (SB_Dependencies d)) (in_graph s))))"

definition ToGraph :: "library \<Rightarrow> sbom_document option \<Rightarrow> sbom_error + graph" where
  "ToGraph L doc = map_sum id fst (toGraph L doc)"

section \<open>The graph entry\<close>

definition cvssVersionForMethod :: "string \<Rightarrow> string" where
  "cvssVersionForMethod m =
     (let m = TrimSpace m
      in if m = ''CVSSv2'' then ''2.0'' else if m = ''CVSSv3'' then ''3.0'' else if m = ''CVSSv31'' then ''3.1''
         else if m = ''CVSSv4'' then ''4.0'' else [])"

definition Vulnerability_zero :: vulnerability where
  "Vulnerability_zero =
     \<lparr>VulnID = [], Aliases = [], Related = [], Summary = [], Details = [], Severities = [], AffectedEntries = [],
      References = [], Published = [], Modified = [], Withdrawn = [], DatabaseSpecific = [],
      VulnSource = [], DataSource = [], VulnNamespace = [], Title = [], Reasons = [], ParsedSeverity = [],
      SeveritySource = [], CVSS = [], EPSS = [], CWEs = [], KEVExploited = False, KnownExploited = [],
      VulnRiskScore = 0, FixState = [], FixedIn = [], FixedVersions = [], FixAvailable = [],
      AffectedVersionRange = [], VulnCPEs = [], AffectedSymbols = [], Reachability = None, Analysis = None,
      Recommendation = []\<rparr>"

definition ingested_score :: "sbom_vulnerability \<Rightarrow> cvss_score list" where
  "ingested_score v =
     (if SV_Score v \<noteq> None \<or> SV_Vector v \<noteq> []
      then [\<lparr>CVSSVector = SV_Vector v, CVSSValue = (case SV_Score v of None \<Rightarrow> 0 | Some s \<Rightarrow> s),
             CVSSVersion = cvssVersionForMethod (SV_Method v), CVSSSource = SV_Source v\<rparr>]
      else [])"

definition packageVulnerability :: "library \<Rightarrow> sbom_vulnerability \<Rightarrow> vulnerability option" where
  "packageVulnerability L v =
     (if TrimSpace (SV_ID v) = [] then None
      else Some (Vulnerability_zero
        \<lparr>VulnID := SV_ID v, VulnSource := SV_Source v, ParsedSeverity := ParseSeverityLevel (SV_Severity v),
         Details := SV_Description v, FixedVersions := SV_FixedVersions v,
         Recommendation := NormalizeDescription (SV_Recommendation v), Analysis := SV_Analysis v,
         CVSS := ingested_score v,
         CWEs := map (\<lambda>n. \<lparr>CWECVE = [], CWEID = ''CWE-'' @ Itoa (nat n), CWESource = [], CWEType = []\<rparr>)
                   (filter (\<lambda>n. n > 0) (SV_CWEs v)),
         References := List.map_filter (\<lambda>u. map_option (\<lambda>n. \<lparr>RefURL = n, RefType = ''advisory''\<rparr>)
                   (NormalizeURL L u URLFormReference)) (SV_Advisories v)\<rparr>))"

definition packageVulnerabilities :: "library \<Rightarrow> sbom_vulnerability list \<Rightarrow> vulnerability list" where
  "packageVulnerabilities L vs = List.map_filter (packageVulnerability L) vs"

definition packageEOL :: "sbom_eol option \<Rightarrow> package_eol option" where
  "packageEOL e =
     map_option (\<lambda>e. \<lparr>EOLSource = [], Cycle = SE_Cycle e, EOL = SE_EOL e, EOLDate = SE_Date e,
                        LatestVersion = SE_Latest e, ReleaseDate = [], Supported = False\<rparr>) e"

definition component_package :: "library \<Rightarrow> graph \<Rightarrow> (string, string) gomap \<Rightarrow> component \<Rightarrow> package option" where
  "component_package L g ids c =
     (if SC_Vulnerabilities c = [] \<and> SC_EOL c = None then None
      else (case mget ids (SC_ID c) of
              None \<Rightarrow> None
            | Some nodeID \<Rightarrow>
                map_option (\<lambda>p. p\<lparr>Vulnerabilities := packageVulnerabilities L (SC_Vulnerabilities c), PkgEOL := packageEOL (SC_EOL c)\<rparr>)
                  (Option.bind (AsDependencyNode (Node g nodeID)) (\<lambda>n. PackageFromDependencyNode L (Some n)))))"

definition add_component_package :: "library \<Rightarrow> (string, package) gomap \<Rightarrow> package \<Rightarrow> (string, package) gomap" where
  "add_component_package L m p =
     (case mget m (PURL (PkgCoords p)) of
        Some existing \<Rightarrow> mput (PURL (PkgCoords p)) (Package_MergeFrom L existing (Some p)) m
      | None \<Rightarrow> mput (PURL (PkgCoords p)) p m)"

definition entry_packages :: "library \<Rightarrow> graph \<Rightarrow> (string, string) gomap \<Rightarrow> component list \<Rightarrow> package list" where
  "entry_packages L g ids cs =
     sort_key (\<lambda>p. PURL (PkgCoords p)) (map snd (foldl (add_component_package L) [] (List.map_filter (component_package L g ids) cs)))"

definition DocumentAssertionsFor :: "sbom_document option \<Rightarrow> document_assertions option" where
  "DocumentAssertionsFor doc = map_option SB_Assertions doc"

definition ToGraphEntry ::
    "library \<Rightarrow> sbom_document option \<Rightarrow> manifest_metadata \<Rightarrow> sbom_error + (package option, document_assertions) graph_entry" where
  "ToGraphEntry L doc manifest =
     (case toGraph L doc of
        Inl err \<Rightarrow> Inl err
      | Inr (g, ids) \<Rightarrow>
          Inr \<lparr>EntryGraph = Some g, EntryManifest = manifest,
               EntryPackages = map Some (entry_packages L g ids (SB_Components (the doc))),
               EntryDocument = DocumentAssertionsFor doc\<rparr>)"

section \<open>What a document is read into\<close>

definition stands_in :: "sbom_document \<Rightarrow> component \<Rightarrow> bool" where
  "stands_in d c = isDocumentRootPseudoPackage c (isDescribed d (SC_ID c))"

definition minted_components :: "library \<Rightarrow> sbom_document \<Rightarrow> component list \<Rightarrow> (component \<times> graph_node) list" where
  "minted_components L d cs =
     List.map_filter (\<lambda>c. if stands_in d c then None
        else (case ingested_node L c of Inl _ \<Rightarrow> None | Inr n \<Rightarrow> Some (c, DependencyNode n))) cs"

definition name_components :: "(string, string) gomap \<Rightarrow> (component \<times> graph_node) list \<Rightarrow> (string, string) gomap" where
  "name_components = foldl (\<lambda>m (c, n). mput (SC_ID c) (NodeID n) m)"

definition ingest_ok :: "library \<Rightarrow> sbom_document \<Rightarrow> component list \<Rightarrow> ingest \<Rightarrow> ingest \<Rightarrow> bool" where
  "ingest_ok L d cs s t \<longleftrightarrow>
     (\<forall>c \<in> set cs. stands_in d c \<or> (\<exists>n. ingested_node L c = Inr n)) \<and> reachable_graph L (in_graph t) \<and>
     Node (in_graph t) = foldl (witness_into L) (Node (in_graph s)) (map snd (minted_components L d cs)) \<and>
     edge_of (in_graph t) = edge_of (in_graph s) \<and> in_ids t = name_components (in_ids s) (minted_components L d cs) \<and>
     in_skipped t = in_skipped s @ map SC_ID (filter (stands_in d) cs)"

lemma ingest_component_cases:
  assumes r: "reachable_graph L (in_graph s)"
  shows "(\<exists>err. \<not> stands_in d c \<and> ingested_node L c = Inl err \<and>
        ingest_component L d s c = Inl (BadComponent (SC_ID c) (componentIdentityHint c) err))
    \<or> (\<exists>n. \<not> stands_in d c \<and> ingested_node L c = Inr n \<and> dependency_id n = [] \<and>
        ingest_component L d s c = Inl (AddPackage (SC_ID c) ErrEmptyNodeID))
    \<or> (\<exists>t. ingest_component L d s c = Inr t \<and> ingest_ok L d [c] s t)"
proof (cases "stands_in d c")
  case True
  then show ?thesis using r
    by (simp add: ingest_component_def stands_in_def ingest_ok_def minted_components_def map_filter_simps name_components_def)
next
  case False
  then have skip: "\<not> isDocumentRootPseudoPackage c (isDescribed d (SC_ID c))" by (simp add: stands_in_def)
  show ?thesis
  proof (cases "ingested_node L c")
    case (Inl err)
    then show ?thesis using False skip by (simp add: ingest_component_def)
  next
    case (Inr n)
    show ?thesis
    proof (cases "dependency_id n = []")
      case True
      then show ?thesis using Inr False skip by (simp add: ingest_component_def InsertNode_def)
    next
      case ne: False
      then have "NodeID (DependencyNode n) \<noteq> []" by simp
      from InsertNode_abs [OF reachable_graph_ok [OF r] this, of L] obtain g where
        g: "InsertNode L (in_graph s) (Some (DependencyNode n)) = Inr (g, witnessed L (in_graph s) (DependencyNode n))"
        "Node g = (Node (in_graph s))(NodeID (DependencyNode n) := Some (witnessed L (in_graph s) (DependencyNode n)))"
        "edge_of g = edge_of (in_graph s)" by blast
      have "reachable_graph L g" by (rule reachable_step [OF r step_insert [OF g(1)]])
      then show ?thesis using g Inr False skip
        by (simp add: ingest_component_def ingest_ok_def minted_components_def map_filter_simps name_components_def
            witness_into_def witnessed_def)
    qed
  qed
qed

lemma ingest_ok_Cons: "ingest_ok L d [c] s t \<Longrightarrow> ingest_ok L d cs t u \<Longrightarrow> ingest_ok L d (c # cs) s u"
  by (auto simp: ingest_ok_def minted_components_def map_filter_simps name_components_def split: if_splits sum.splits)

lemma ingest_components_cases:
  "reachable_graph L (in_graph s) \<Longrightarrow>
    (\<exists>c err. c \<in> set cs \<and> \<not> stands_in d c \<and> ingested_node L c = Inl err \<and>
        foldM (ingest_component L d) s cs = Inl (BadComponent (SC_ID c) (componentIdentityHint c) err))
    \<or> (\<exists>c n. c \<in> set cs \<and> \<not> stands_in d c \<and> ingested_node L c = Inr n \<and> dependency_id n = [] \<and>
        foldM (ingest_component L d) s cs = Inl (AddPackage (SC_ID c) ErrEmptyNodeID))
    \<or> (\<exists>t. foldM (ingest_component L d) s cs = Inr t \<and> ingest_ok L d cs s t)"
proof (induction cs arbitrary: s)
  case Nil
  then show ?case by (simp add: ingest_ok_def minted_components_def map_filter_simps name_components_def)
next
  case (Cons c cs)
  from ingest_component_cases [OF Cons.prems, of d c] show ?case
  proof (elim disjE exE conjE)
    fix err assume "\<not> stands_in d c" "ingested_node L c = Inl err"
      "ingest_component L d s c = Inl (BadComponent (SC_ID c) (componentIdentityHint c) err)"
    then show ?thesis by (intro disjI1 exI [of _ c] exI [of _ err]) simp
  next
    fix n assume "\<not> stands_in d c" "ingested_node L c = Inr n" "dependency_id n = []"
      "ingest_component L d s c = Inl (AddPackage (SC_ID c) ErrEmptyNodeID)"
    then show ?thesis by (intro disjI2 disjI1 exI [of _ c] exI [of _ n]) simp
  next
    fix t assume t: "ingest_component L d s c = Inr t" "ingest_ok L d [c] s t"
    then have r: "reachable_graph L (in_graph t)" by (simp add: ingest_ok_def)
    have eq: "foldM (ingest_component L d) s (c # cs) = foldM (ingest_component L d) t cs" using t(1) by simp
    show ?thesis unfolding eq using Cons.IH [OF r] ingest_ok_Cons [OF t(2)] by (metis list.set_intros(2))
  qed
qed

lemma add_relationships_edges: "add_edges ids es g = Inr h \<Longrightarrow> add_relationships ids es g = Inr h"
  by (induction ids es g rule: add_relationships.induct) (auto split: option.splits if_splits sum.splits)

text \<open>The graph, the names of its nodes in the document, and its edges.\<close>

definition ingests :: "library \<Rightarrow> sbom_document \<Rightarrow> graph \<Rightarrow> (string, string) gomap \<Rightarrow> bool" where
  "ingests L d g ids \<longleftrightarrow>
     (let mn = minted_components L d (SB_Components d); skipped = SC_ID ` {c \<in> set (SB_Components d). stands_in d c} in
      (\<forall>c \<in> set (SB_Components d). stands_in d c \<or> (\<exists>n. (c, n) \<in> set mn)) \<and>
      reachable_graph L g \<and> Node g = foldl (witness_into L) (\<lambda>_. None) (map snd mn) \<and> ids = name_components [] mn \<and>
      (\<forall>a b. edge_of g a b \<noteq> None \<longleftrightarrow> a \<noteq> b \<and>
         (\<exists>r \<in> set (SB_Dependencies d). Ref r \<notin> skipped \<and> mget ids (Ref r) = Some a \<and>
            (\<exists>x \<in> set (RefDependsOn r). x \<notin> skipped \<and> mget ids x = Some b))))"

lemma stated_dependencies_set:
  "(a, x) \<in> set (stated_dependencies s ds) \<longleftrightarrow>
     (\<exists>r \<in> set ds. Ref r \<notin> set (in_skipped s) \<and> mget (in_ids s) (Ref r) = Some a \<and> x \<in> set (RefDependsOn r) \<and> x \<notin> set (in_skipped s))"
  by (induction ds) (auto simp: stated_dependencies_def split: option.splits)

lemma name_components_values: "mget (name_components m mn) t = Some b \<Longrightarrow> mget m t = Some b \<or> b \<in> NodeID ` set (map snd mn)"
  by (induction mn arbitrary: m) (fastforce simp: name_components_def gomap_simps split: if_splits)+

lemma minted_member: "c \<in> set cs \<Longrightarrow> \<not> stands_in d c \<Longrightarrow> ingested_node L c = Inr n \<Longrightarrow>
    (c, DependencyNode n) \<in> set (minted_components L d cs)"
  by (induction cs) (auto simp: minted_components_def map_filter_simps split: option.splits)

lemma minted_only: "(c, m) \<in> set (minted_components L d cs) \<Longrightarrow>
    c \<in> set cs \<and> \<not> stands_in d c \<and> (\<exists>n. ingested_node L c = Inr n \<and> m = DependencyNode n)"
  by (induction cs) (auto simp: minted_components_def map_filter_simps split: if_splits sum.splits option.splits)

lemma toGraph_cases:
  "(\<exists>c err. c \<in> set (SB_Components d) \<and> \<not> stands_in d c \<and> ingested_node L c = Inl err \<and>
        toGraph L (Some d) = Inl (BadComponent (SC_ID c) (componentIdentityHint c) err))
    \<or> (\<exists>c n. c \<in> set (SB_Components d) \<and> \<not> stands_in d c \<and> ingested_node L c = Inr n \<and> dependency_id n = [] \<and>
        toGraph L (Some d) = Inl (AddPackage (SC_ID c) ErrEmptyNodeID))
    \<or> (\<exists>g ids. toGraph L (Some d) = Inr (g, ids) \<and> ingests L d g ids)"
proof -
  let ?s = "\<lparr>in_graph = New, in_ids = [], in_skipped = []\<rparr>"
  let ?cs = "SB_Components d"
  let ?mn = "minted_components L d ?cs"
  have s: "reachable_graph L (in_graph ?s)" by (simp add: reachable_New)
  have ok: "\<exists>g ids. toGraph L (Some d) = Inr (g, ids) \<and> ingests L d g ids"
    if t: "foldM (ingest_component L d) ?s ?cs = Inr t" "ingest_ok L d ?cs ?s t" for t
  proof -
    have k: "\<forall>c \<in> set ?cs. stands_in d c \<or> (\<exists>n. ingested_node L c = Inr n)" and g: "reachable_graph L (in_graph t)"
      and n: "Node (in_graph t) = foldl (witness_into L) (\<lambda>_. None) (map snd ?mn)"
      and e: "edge_of (in_graph t) = (\<lambda>_ _. None)" and i: "in_ids t = name_components [] ?mn"
      and sk: "set (in_skipped t) = SC_ID ` {c \<in> set ?cs. stands_in d c}"
      using t(2) New_abs by (auto simp: ingest_ok_def)
    have dom: "Node (in_graph t) x \<noteq> None \<longleftrightarrow> x \<in> NodeID ` set (map snd ?mn)" for x
      unfolding n using dom_witness_all [of L "\<lambda>_. None" "map snd ?mn"] by (metis domIff dom_empty sup_bot_left)
    have named: "mget (in_ids t) x = Some b \<Longrightarrow> Node (in_graph t) b \<noteq> None" for x b
      unfolding dom i using name_components_values [of "[]" ?mn x b] by simp
    let ?es = "stated_dependencies t (SB_Dependencies d)"
    have from_ok: "\<forall>(a, x) \<in> set ?es. Node (in_graph t) a \<noteq> None"
      using named unfolding stated_dependencies_set case_prod_beta' split_paired_Ball_Sigma by (metis prod.collapse stated_dependencies_set)
    have to_ok: "\<forall>x b. mget (in_ids t) x = Some b \<longrightarrow> Node (in_graph t) b \<noteq> None" using named by blast
    from add_edges_ok [OF g from_ok to_ok] obtain h where
      h: "add_edges (in_ids t) ?es (in_graph t) = Inr h" "reachable_graph L h" "Node h = Node (in_graph t)"
      and he: "\<forall>x y. edge_of h x y \<noteq> None \<longleftrightarrow> edge_of (in_graph t) x y \<noteq> None
        \<or> (x \<noteq> y \<and> (\<exists>z. (x, z) \<in> set ?es \<and> mget (in_ids t) z = Some y))"
      by (elim exE conjE)
    have "toGraph L (Some d) = Inr (h, in_ids t)" using t(1) add_relationships_edges [OF h(1)] by (simp add: toGraph_def)
    moreover have "\<forall>c \<in> set ?cs. stands_in d c \<or> (\<exists>m. (c, m) \<in> set ?mn)"
    proof
      fix c assume c: "c \<in> set ?cs"
      show "stands_in d c \<or> (\<exists>m. (c, m) \<in> set ?mn)"
      proof (cases "stands_in d c")
        case False
        then obtain q where "ingested_node L c = Inr q" using k c by blast
        from minted_member [OF c False this] show ?thesis by blast
      qed simp
    qed
    moreover have "edge_of h a b \<noteq> None \<longleftrightarrow> a \<noteq> b \<and>
         (\<exists>r \<in> set (SB_Dependencies d). Ref r \<notin> set (in_skipped t) \<and> mget (in_ids t) (Ref r) = Some a \<and>
            (\<exists>x \<in> set (RefDependsOn r). x \<notin> set (in_skipped t) \<and> mget (in_ids t) x = Some b))" for a b
      using he unfolding e stated_dependencies_set by auto
    ultimately show ?thesis unfolding ingests_def Let_def using h(2) h(3) n i sk by (intro exI [of _ h] exI [of _ "in_ids t"]) simp
  qed
  have bad: "toGraph L (Some d) = Inl err" if "foldM (ingest_component L d) ?s ?cs = Inl err" for err
    using that by (simp add: toGraph_def)
  show ?thesis using ingest_components_cases [OF s, of ?cs d] ok bad by metis
qed

section \<open>What the graph cannot hold\<close>

definition only_dependencies :: "(string \<Rightarrow> graph_node option) \<Rightarrow> bool" where
  "only_dependencies T \<longleftrightarrow> (\<forall>x m. T x = Some m \<longrightarrow> Kind m = NodeKindDependency)"

lemma witness_into_dependencies:
  "only_dependencies T \<Longrightarrow> Kind n = NodeKindDependency \<Longrightarrow> only_dependencies (witness_into L T n)"
  by (auto simp: only_dependencies_def witness_into_def split: option.splits)

lemma witnesses_dependencies:
  "only_dependencies T \<Longrightarrow> \<forall>n \<in> set ns. Kind n = NodeKindDependency \<Longrightarrow> only_dependencies (foldl (witness_into L) T ns)"
  by (induction ns arbitrary: T) (simp_all add: witness_into_dependencies)

lemma ingested_dependency:
  assumes g: "ingests L d g ids" and i: "mget ids x = Some i"
  shows "\<exists>n. Node g i = Some (DependencyNode n) \<and> dependency_id n = i"
proof -
  let ?mn = "minted_components L d (SB_Components d)"
  have n: "Node g = foldl (witness_into L) (\<lambda>_. None) (map snd ?mn)" and ids: "ids = name_components [] ?mn"
    and r: "reachable_graph L g" using g by (auto simp: ingests_def Let_def)
  have "\<forall>m \<in> set (map snd ?mn). Kind m = NodeKindDependency" using minted_only by fastforce
  then have "only_dependencies (Node g)" unfolding n by (intro witnesses_dependencies) (simp_all add: only_dependencies_def)
  moreover have "Node g i \<noteq> None"
    unfolding n using dom_witness_all [of L "\<lambda>_. None" "map snd ?mn"] name_components_values [of "[]" ?mn x i] i ids
    by (metis domIff dom_empty sup_bot_left map_of.simps(1) option.distinct(1))
  ultimately obtain m where m: "Node g i = Some m" "Kind m = NodeKindDependency" by (auto simp: only_dependencies_def)
  then obtain q where "m = DependencyNode q" by (cases m) (simp_all)
  then show ?thesis using m(1) Node_id [OF reachable_graph_ok [OF r] m(1)] by simp
qed

definition carries_facts :: "component \<Rightarrow> bool" where
  "carries_facts c \<longleftrightarrow> SC_Vulnerabilities c \<noteq> [] \<or> SC_EOL c \<noteq> None"

lemma component_package_at:
  assumes "ingests L d g ids"
  shows "(case component_package L g ids c of
            None \<Rightarrow> \<not> carries_facts c \<or> mget ids (SC_ID c) = None
          | Some p \<Rightarrow> carries_facts c \<and> mget ids (SC_ID c) = Some (PURL (PkgCoords p)))"
proof (cases "mget ids (SC_ID c)")
  case (Some i)
  obtain n where n: "Node g i = Some (DependencyNode n)" "dependency_id n = i" using ingested_dependency [OF assms Some] by blast
  show ?thesis
    using Some n by (auto simp: component_package_def carries_facts_def PackageFromDependencyNode_def)
qed (simp add: component_package_def carries_facts_def)

lemma add_component_packages:
  "distinct (mkeys m) \<Longrightarrow> \<forall>(k, p) \<in> set m. k = PURL (PkgCoords p) \<Longrightarrow>
    distinct (mkeys (foldl (add_component_package L) m ps)) \<and> (\<forall>(k, p) \<in> set (foldl (add_component_package L) m ps). k = PURL (PkgCoords p)) \<and>
    set (mkeys (foldl (add_component_package L) m ps)) = set (mkeys m) \<union> (\<lambda>p. PURL (PkgCoords p)) ` set ps"
proof (induction ps arbitrary: m)
  case (Cons p ps)
  let ?k = "PURL (PkgCoords p)"
  let ?q = "case mget m ?k of Some existing \<Rightarrow> Package_MergeFrom L existing (Some p) | None \<Rightarrow> p"
  have eq: "add_component_package L m p = mput ?k ?q m" by (simp add: add_component_package_def split: option.split)
  have k: "PURL (PkgCoords ?q) = ?k"
    using Cons.prems(2) map_of_SomeD [of m ?k] by (force simp: MergeFrom_keeps split: option.split)
  have "\<forall>(x, y) \<in> set (mput ?k ?q m). x = PURL (PkgCoords y)"
  proof -
    have "(x, y) \<in> set (mput ?k ?q m) \<Longrightarrow> (x, y) = (?k, ?q) \<or> (x, y) \<in> set m" for x y
      by (induction m) (auto split: if_splits)
    then show ?thesis using Cons.prems(2) k by fastforce
  qed
  with Cons.prems(1) have "distinct (mkeys (mput ?k ?q m)) \<and> (\<forall>(x, y) \<in> set (mput ?k ?q m). x = PURL (PkgCoords y))"
    by (simp add: distinct_update)
  then show ?case using Cons.IH [of "mput ?k ?q m"] unfolding foldl_Cons eq set_mkeys_mput by auto
qed simp

lemma map_sort_key_self: "map f (sort_key f xs) = sort (map f xs)"
  by (rule properties_for_sort [symmetric]) simp_all

lemma entry_packages_spec:
  assumes "ingests L d g ids"
  shows "sorted_wrt (<) (map (\<lambda>p. PURL (PkgCoords p)) (entry_packages L g ids cs)) \<and>
    (\<lambda>p. PURL (PkgCoords p)) ` set (entry_packages L g ids cs) = {i. \<exists>c \<in> set cs. carries_facts c \<and> mget ids (SC_ID c) = Some i}"
proof -
  let ?ps = "List.map_filter (component_package L g ids) cs"
  let ?m = "foldl (add_component_package L) [] ?ps"
  let ?f = "\<lambda>p. PURL (PkgCoords p)"
  have m: "distinct (mkeys ?m)" "\<forall>(k, p) \<in> set ?m. k = ?f p" "set (mkeys ?m) = ?f ` set ?ps"
    using add_component_packages [of "[]" L ?ps] by simp_all
  have k: "map ?f (map snd ?m) = mkeys ?m" using m(2) by (induction ?m) auto
  have e: "map ?f (entry_packages L g ids cs) = sort (mkeys ?m)"
    unfolding entry_packages_def k [symmetric] by (simp add: map_sort_key_self)
  have "?f ` set ?ps = {i. \<exists>c \<in> set cs. carries_facts c \<and> mget ids (SC_ID c) = Some i}"
  proof (induction cs)
    case (Cons c cs)
    then show ?case using component_package_at [OF assms, of c]
      by (auto simp: map_filter_simps split: option.splits)
  qed (simp add: map_filter_simps)
  moreover have "?f ` set (entry_packages L g ids cs) = set (mkeys ?m)"
    using e by (metis list.set_map set_sort)
  moreover have "sorted_wrt (<) (map ?f (entry_packages L g ids cs))" unfolding e using m(1) by (simp add: strict_sorted_iff)
  ultimately show ?thesis using m(3) by simp
qed

text \<open>C11. A document is read whole or refused: it is refused for a component that mints no identity,
  with that component's name, and otherwise every component is a node of the graph under the
  identity its coordinates mint, components of one identity folded, except those that stand for
  the scanned tree; the edges are the document's relationships between the components that are
  left, without self edges; and the packages beside the graph are, once each and in order, exactly
  those of the components that carry an advisory or an end-of-life record.\<close>

theorem ToGraphEntry_spec:
  "(\<exists>c err. c \<in> set (SB_Components d) \<and> \<not> stands_in d c \<and> ingested_node L c = Inl err \<and>
      ToGraphEntry L (Some d) m = Inl (BadComponent (SC_ID c) (componentIdentityHint c) err))
    \<or> (\<exists>c n. c \<in> set (SB_Components d) \<and> \<not> stands_in d c \<and> ingested_node L c = Inr n \<and> dependency_id n = [] \<and>
      ToGraphEntry L (Some d) m = Inl (AddPackage (SC_ID c) ErrEmptyNodeID))
    \<or> (\<exists>g ids ps. ToGraphEntry L (Some d) m =
          Inr \<lparr>EntryGraph = Some g, EntryManifest = m, EntryPackages = map Some ps, EntryDocument = Some (SB_Assertions d)\<rparr> \<and>
        ingests L d g ids \<and> sorted_wrt (<) (map (\<lambda>p. PURL (PkgCoords p)) ps) \<and>
        (\<lambda>p. PURL (PkgCoords p)) ` set ps = {i. \<exists>c. c \<in> set (SB_Components d) \<and> carries_facts c \<and> mget ids (SC_ID c) = Some i})"
  using toGraph_cases [of d L]
proof (elim disjE exE conjE)
  fix g ids assume t: "toGraph L (Some d) = Inr (g, ids)" "ingests L d g ids"
  show ?thesis using t entry_packages_spec [OF t(2), of "SB_Components d"]
    by (intro disjI2 exI [of _ g] exI [of _ ids] exI [of _ "entry_packages L g ids (SB_Components d)"])
       (simp add: ToGraphEntry_def DocumentAssertionsFor_def Bex_def)
next
  fix c err assume "c \<in> set (SB_Components d)" "\<not> stands_in d c" "ingested_node L c = Inl err"
    "toGraph L (Some d) = Inl (BadComponent (SC_ID c) (componentIdentityHint c) err)"
  then show ?thesis by (intro disjI1 exI [of _ c] exI [of _ err]) (simp add: ToGraphEntry_def)
next
  fix c n assume "c \<in> set (SB_Components d)" "\<not> stands_in d c" "ingested_node L c = Inr n" "dependency_id n = []"
    "toGraph L (Some d) = Inl (AddPackage (SC_ID c) ErrEmptyNodeID)"
  then show ?thesis by (intro disjI2 disjI1 exI [of _ c] exI [of _ n]) (simp add: ToGraphEntry_def)
qed

end
