(* ===== verification/SbomBuild.thy ===== *)
theory SbomBuild
  imports SbomGraph Views
begin

text \<open>
  From a graph to a document (\<open>sbom/transform.go\<close>), and what the document then says about
  itself when its graph was read from other documents (\<open>sbom/document_assertions.go\<close>): the
  components are the modules and dependencies of the graph, structural nodes in between are
  stepped through, one primary component is synthesized where the graph has no single root,
  the two identity slots share one UUID, and the source documents are restated or linked.
\<close>

section \<open>Identity\<close>

abbreviation bomlyNamespacePrefix :: string where "bomlyNamespacePrefix \<equiv> ''https://bomly.dev/spdx/''"

definition serialUUID :: "sbom_library \<Rightarrow> string \<Rightarrow> string" where
  "serialUUID E serial =
     (case NewBOMLink E (TrimSpace serial) of None \<Rightarrow> [] | Some s \<Rightarrow> TrimPrefix s ''urn:uuid:'')"

definition bomlyNamespaceUUID :: "sbom_library \<Rightarrow> string \<Rightarrow> string" where
  "bomlyNamespaceUUID E namespace =
     (let n = TrimSpace namespace
      in if HasPrefix n bomlyNamespacePrefix then serialUUID E (''urn:uuid:'' @ drop (length bomlyNamespacePrefix) n) else [])"

definition documentUUID :: "sbom_library \<Rightarrow> sbom_document \<Rightarrow> string" where
  "documentUUID E d =
     (let serial = TrimSpace (SB_SerialNumber d)
      in if serial \<noteq> [] then serialUUID E serial else bomlyNamespaceUUID E (SB_Namespace d))"

definition mintDocumentIdentity :: "sbom_library \<Rightarrow> sbom_document \<Rightarrow> sbom_document" where
  "mintDocumentIdentity E d =
     (let nonce = documentUUID E d;
          nonce = (if nonce = [] then newUUIDv4 E else nonce);
          d = (if SB_SerialNumber d = [] then d\<lparr>SB_SerialNumber := ''urn:uuid:'' @ nonce\<rparr> else d)
      in if SB_Namespace d = [] then d\<lparr>SB_Namespace := bomlyNamespacePrefix @ nonce\<rparr> else d)"

definition inheritDocumentIdentity :: "sbom_library \<Rightarrow> sbom_document \<Rightarrow> string \<Rightarrow> int \<Rightarrow> sbom_document" where
  "inheritDocumentIdentity E d identity version =
     (if identity = [] then d
      else (let d = (if SB_Namespace d = [] then d\<lparr>SB_Namespace := identity\<rparr> else d)
            in if SB_SerialNumber d \<noteq> [] then d
               else (case ParseBOMLink E identity of
                       None \<Rightarrow> if version > 0 then d\<lparr>SB_SerialVersion := version\<rparr> else d
                     | Some (serial, v) \<Rightarrow> d\<lparr>SB_SerialNumber := serial, SB_SerialVersion := v\<rparr>)))"

definition applySourceAssertions ::
    "library \<Rightarrow> sbom_library \<Rightarrow> sbom_document \<Rightarrow> document_assertions list \<Rightarrow> bool \<Rightarrow> sbom_document" where
  "applySourceAssertions L E d sources restates =
     (if sources = [] then d
      else (let cleaned = map (\<lambda>s. fst (Document_Normalized L s)) sources;
                aggregate = foldl (MergeDocumentAssertions L) (hd cleaned) (tl cleaned);
                d = d\<lparr>SB_Sources := cleaned,
                      SB_Assertions := (SB_Assertions d)\<lparr>Creators := Creators aggregate, Tools := Tools aggregate\<rparr>\<rparr>
            in if length cleaned > 1 \<or> \<not> restates then d
               else (let only = hd cleaned;
                         d = d\<lparr>SB_Assertions := (SB_Assertions d)\<lparr>DocComment := DocComment only\<rparr>\<rparr>;
                         d = (if SB_Name d = [] then d\<lparr>SB_Name := DocName only\<rparr> else d);
                         d = (if SB_Created d = None then d\<lparr>SB_Created := time_Parse E (DocCreated only)\<rparr> else d)
                     in inheritDocumentIdentity E d (DocIdentity only) (DocVersion only))))"

record document_identity =
  ID_Namespace :: string
  ID_Serial :: string
  ID_SerialVersion :: int

definition names_document :: "sbom_library \<Rightarrow> document_identity \<Rightarrow> document_source \<Rightarrow> bool" where
  "names_document E d source =
     (let identity = SourceIdentity source
      in if identity = [] then False
         else if ID_Namespace d \<noteq> [] \<and> identity = ID_Namespace d then True
         else if ID_Serial d = [] then False
         else if (case ParseBOMLink E identity of None \<Rightarrow> False
                  | Some (serial, v) \<Rightarrow> serial = ID_Serial d \<and> v = ID_SerialVersion d) then True
         else (let uuid = bomlyNamespaceUUID E identity
               in if uuid \<noteq> [] \<and> uuid = serialUUID E (ID_Serial d)
                  then max (SourceVersion source) 1 = max (ID_SerialVersion d) 1 else False))"

definition source_candidates :: "document_assertions list \<Rightarrow> document_source list" where
  "source_candidates sources =
     concat (map (\<lambda>s. \<lparr>SourceIdentity = DocIdentity s, SourceVersion = DocVersion s, SourceChecksum = DocChecksum s\<rparr> # DocSources s) sources)"

definition documentSourceLinks :: "library \<Rightarrow> sbom_library \<Rightarrow> sbom_document \<Rightarrow> document_identity \<Rightarrow> document_source list" where
  "documentSourceLinks L E d emitted =
     (if SB_Sources d = [] then []
      else filter (\<lambda>s. \<not> names_document E emitted s)
             (DocSources (fst (Document_Normalized L (Document_zero\<lparr>DocSources := source_candidates (SB_Sources d)\<rparr>)))))"

section \<open>Tools\<close>

definition toolIsRestatedInFull :: "document_tool \<Rightarrow> document_tool list \<Rightarrow> bool" where
  "toolIsRestatedInFull t credited =
     list_ex (\<lambda>other. ToolName other = ToolName t \<and> (ToolVersion t = [] \<or> ToolVersion other = ToolVersion t)) credited"

definition own_tool :: "sbom_document \<Rightarrow> string \<Rightarrow> document_tool" where
  "own_tool d name = \<lparr>Vendor = [], ToolName = name, ToolVersion = (if name = ToolOrDefault d then SB_ToolVersion d else [])\<rparr>"

definition better_producer :: "sbom_document \<Rightarrow> document_tool list \<Rightarrow> nat option \<Rightarrow> nat \<Rightarrow> nat option" where
  "better_producer d tools primary index =
     (let t = tools ! index
      in if ToolName t \<noteq> ToolOrDefault d then primary
         else (case primary of
                 None \<Rightarrow> Some index
               | Some p \<Rightarrow> if ToolVersion t = SB_ToolVersion d \<and> ToolVersion (tools ! p) \<noteq> SB_ToolVersion d then Some index else primary))"

definition producer_first :: "sbom_document \<Rightarrow> document_tool list \<Rightarrow> document_tool list" where
  "producer_first d tools =
     (case foldl (better_producer d tools) None [0..<length tools] of
        None \<Rightarrow> tools
      | Some p \<Rightarrow> if p > 0 then tools ! p # take p tools @ drop (Suc p) tools else tools)"

definition documentTools :: "library \<Rightarrow> sbom_document \<Rightarrow> document_tool list" where
  "documentTools L d =
     (let own = filter (\<lambda>t. \<not> toolIsRestatedInFull t (Tools (SB_Assertions d))) (map (own_tool d) (ToolNamesOrDefault d));
          merged = MergeDocumentAssertions L (Document_zero\<lparr>Tools := own\<rparr>) (Document_zero\<lparr>Tools := Tools (SB_Assertions d)\<rparr>)
      in producer_first d (Tools merged))"

section \<open>Components\<close>

definition componentPURL :: "graph_node \<Rightarrow> string" where
  "componentPURL node = NodePURL (Some node)"

definition componentOrg :: "library \<Rightarrow> graph_node \<Rightarrow> string" where
  "componentOrg L node =
     (case NodeCoordinates (Some node) of
        None \<Rightarrow> []
      | Some coords \<Rightarrow>
          (case parsePURL L (componentPURL node) of
             None \<Rightarrow> TrimSpace (Org coords)
           | Some p \<Rightarrow> if TrimSpace (Namespace p) \<noteq> [] then TrimSpace (Namespace p) else TrimSpace (Org coords)))"

definition hex_value :: "char \<Rightarrow> nat option" where
  "hex_value c =
     (if 48 \<le> byte c \<and> byte c \<le> 57 then Some (byte c - 48)
      else if 97 \<le> byte c \<and> byte c \<le> 102 then Some (byte c - 87)
      else if 65 \<le> byte c \<and> byte c \<le> 70 then Some (byte c - 55) else None)"

definition hex_decodes :: "string \<Rightarrow> bool" where
  "hex_decodes s \<longleftrightarrow> even (length s) \<and> list_all (\<lambda>c. hex_value c \<noteq> None) s"

definition base64_value :: "char \<Rightarrow> nat option" where
  "base64_value c =
     (if 65 \<le> byte c \<and> byte c \<le> 90 then Some (byte c - 65)
      else if 97 \<le> byte c \<and> byte c \<le> 122 then Some (byte c - 71)
      else if 48 \<le> byte c \<and> byte c \<le> 57 then Some (byte c + 4)
      else if c = CHR ''+'' then Some 62 else if c = CHR ''/'' then Some 63 else None)"

fun base64_quads :: "string \<Rightarrow> nat list option" where
  "base64_quads [] = Some []"
| "base64_quads (a # b # c # d # rest) =
     (case (base64_value a, base64_value b) of
        (Some x, Some y) \<Rightarrow>
          (if c = CHR ''='' \<and> d = CHR ''='' then (if rest = [] then Some [x * 4 + y div 16] else None)
           else (case base64_value c of
                   None \<Rightarrow> None
                 | Some z \<Rightarrow>
                     if d = CHR ''='' then (if rest = [] then Some [x * 4 + y div 16, y mod 16 * 16 + z div 4] else None)
                     else (case base64_value d of
                             None \<Rightarrow> None
                           | Some w \<Rightarrow> map_option (\<lambda>bs. (x * 4 + y div 16) # (y mod 16 * 16 + z div 4) # (z mod 4 * 64 + w) # bs)
                                        (base64_quads rest))))
      | _ \<Rightarrow> None)"
| "base64_quads _ = None"

text \<open>\<^verbatim>\<open>base64.StdEncoding\<close> skips line breaks.\<close>

definition base64_decode :: "string \<Rightarrow> nat list option" where
  "base64_decode s = base64_quads (filter (\<lambda>c. c \<noteq> CHR 0x0A \<and> c \<noteq> CHR 0x0D) s)"

definition digestHexSizes :: "(digest_algorithm, nat) gomap" where
  "digestHexSizes =
     [(''md5'', 16), (''sha1'', 20), (''sha224'', 28), (''sha256'', 32), (''sha384'', 48), (''sha512'', 64),
      (''sha3-256'', 32), (''sha3-384'', 48), (''sha3-512'', 64)]"

definition normalizeDigestValue :: "library \<Rightarrow> string \<Rightarrow> string \<Rightarrow> string" where
  "normalizeDigestValue L algorithm v =
     (case ParseDigestAlgorithm L algorithm of
        Inl _ \<Rightarrow> v
      | Inr canon \<Rightarrow>
          (case mget digestHexSizes canon of
             None \<Rightarrow> v
           | Some n \<Rightarrow>
               if length v = n * 2 \<and> hex_decodes v then ToLower v
               else (case base64_decode v of
                       None \<Rightarrow> v | Some raw \<Rightarrow> if length raw = n then hex_bytes raw else v)))"

definition componentDigests :: "library \<Rightarrow> digest list \<Rightarrow> sbom_digest list" where
  "componentDigests L ds =
     List.map_filter (\<lambda>d. if TrimSpace (Value d) = [] then None
        else Some \<lparr>SD_Algorithm = Algorithm d, SD_Value = normalizeDigestValue L (Algorithm d) (TrimSpace (Value d))\<rparr>) ds"

definition normalizeSPDXLicenseExpression :: "library \<Rightarrow> string \<Rightarrow> string" where
  "normalizeSPDXLicenseExpression L expression = CanonicalExpression L expression"

definition componentLicenses :: "library \<Rightarrow> package_license list \<Rightarrow> sbom_license list" where
  "componentLicenses L ls =
     map (\<lambda>l. \<lparr>SL_Value = normalizeSPDXLicenseExpression L (LicValue l),
               SL_Expression = normalizeSPDXLicenseExpression L (SPDXExpression l), SL_Type = LicType l\<rparr>) ls"

definition licenseExpressionValue :: "sbom_license \<Rightarrow> string" where
  "licenseExpressionValue l =
     (if TrimSpace (SL_Expression l) \<noteq> [] then TrimSpace (SL_Expression l) else TrimSpace (SL_Value l))"

definition componentLicenseValues :: "sbom_license list \<Rightarrow> string list" where
  "componentLicenseValues ls = filter (\<lambda>v. v \<noteq> []) (map licenseExpressionValue ls)"

definition allValidSPDXExpressions :: "library \<Rightarrow> string list \<Rightarrow> bool" where
  "allValidSPDXExpressions L vs = list_all (spdx_Valid L) vs"

definition applyOrigins :: "library \<Rightarrow> component \<Rightarrow> dependency_origin list \<Rightarrow> component" where
  "applyOrigins L c origins =
     (let entries = foldl (\<lambda>acc o'. (case DependencyOrigin_Normalized L o' of
                         None \<Rightarrow> acc
                       | Some n \<Rightarrow>
                           (let entry = \<lparr>CO_ArtifactURL = ArtifactURL n, CO_Repository = Repository n, CO_Revision = Revision n\<rparr>
                            in if entry \<in> set acc then acc else acc @ [entry]))) [] origins;
          all = SC_Origins c @ entries;
          c = c\<lparr>SC_Origins := all\<rparr>
      in if all = [] then c
         else c\<lparr>SC_ArtifactURL := CO_ArtifactURL (hd all), SC_VCSURL := CO_Repository (hd all), SC_VCSRevision := CO_Revision (hd all)\<rparr>)"

definition publishableReferences :: "library \<Rightarrow> external_reference list \<Rightarrow> external_reference list" where
  "publishableReferences L refs = (if refs = [] then [] else MergeExternalReferences L [] refs)"

definition applyNodeAssertions :: "library \<Rightarrow> component \<Rightarrow> dependency_node \<Rightarrow> component" where
  "applyNodeAssertions L c dep =
     c\<lparr>SC_Supplier := gated_contact L (SC_Supplier c) (Supplier (Claims dep)),
       SC_Originator := gated_contact L (SC_Originator c) (Originator (Claims dep)),
       SC_Description := NormalizeDescription (Description (Claims dep)), SC_Homepage := NormalizeHomepage L (Homepage (Claims dep)),
       SC_References := publishableReferences L (ExternalReferences (Claims dep)),
       SC_CPEs := (if CPEs (Claims dep) \<noteq> [] \<and> SC_CPEs c = [] then CPEs (Claims dep) else SC_CPEs c)\<rparr>"

section \<open>What the registry adds\<close>

definition scorecardRepositoryURL :: "library \<Rightarrow> package_scorecard option \<Rightarrow> string option" where
  "scorecardRepositoryURL L scorecard =
     (case scorecard of
        None \<Rightarrow> None
      | Some sc \<Rightarrow>
          (let repository = TrimSpace (ScRepository sc)
           in if repository = [] then None
              else NormalizeOriginURL L (if Contains repository ''://'' then repository else ''https://'' @ repository) True))"

definition vulnerabilityRecommendation :: "string \<Rightarrow> string list \<Rightarrow> string" where
  "vulnerabilityRecommendation packageName fixedVersions =
     (let versions = filter (\<lambda>v. v \<noteq> []) (map TrimSpace fixedVersions); subject = TrimSpace packageName
      in if versions = [] then []
         else ''Upgrade '' @ (if subject = [] then ''the affected package'' else subject) @ '' to '' @ Join versions '' or '')"

definition digit_byte :: "char \<Rightarrow> bool" where
  "digit_byte c \<longleftrightarrow> 48 \<le> byte c \<and> byte c \<le> 57"

text \<open>\<^verbatim>\<open>strconv.Atoi\<close> refuses a value beyond 64 bits.\<close>

definition cweNumber :: "string \<Rightarrow> int" where
  "cweNumber i =
     (let digits = rev (dropWhile (\<lambda>c. \<not> digit_byte c) (rev (dropWhile (\<lambda>c. \<not> digit_byte c) (TrimSpace i))))
      in if digits = [] \<or> \<not> list_all digit_byte digits then 0
         else (let n = foldl (\<lambda>n c. n * 10 + (int (byte c) - 48)) 0 digits in if n \<ge> 2 ^ 63 then 0 else n))"

definition cvssMethodForVersion :: "string \<Rightarrow> string" where
  "cvssMethodForVersion version =
     (let v = TrimSpace version
      in if v = ''2'' \<or> v = ''2.0'' then ''CVSSv2'' else if v = ''3'' \<or> v = ''3.0'' then ''CVSSv3''
         else if v = ''3.1'' then ''CVSSv31'' else if v = ''4'' \<or> v = ''4.0'' then ''CVSSv4'' else ''other'')"

definition vulnerabilityFromPackage :: "string \<Rightarrow> vulnerability \<Rightarrow> sbom_vulnerability" where
  "vulnerabilityFromPackage packageName v =
     \<lparr>SV_ID = VulnID v, SV_Source = (if VulnSource v = [] then DataSource v else VulnSource v), SV_Severity = ParsedSeverity v,
      SV_Score = (if CVSS v = [] then None else Some (CVSSValue (hd (CVSS v)))),
      SV_Vector = (if CVSS v = [] then [] else CVSSVector (hd (CVSS v))),
      SV_Method = (if CVSS v = [] then [] else cvssMethodForVersion (CVSSVersion (hd (CVSS v)))),
      SV_CWEs = filter (\<lambda>n. n > 0) (map (\<lambda>c. cweNumber (CWEID c)) (CWEs v)),
      SV_FixedVersions = FixedVersions v,
      SV_Advisories = filter (\<lambda>u. u \<noteq> []) (map (\<lambda>r. TrimSpace (RefURL r)) (References v)),
      SV_Description = Details v,
      SV_Recommendation = (if Recommendation v = [] then vulnerabilityRecommendation packageName (FixedVersions v) else Recommendation v),
      SV_Analysis = Analysis v\<rparr>"

definition vulnerabilitiesFromPackage :: "string \<Rightarrow> vulnerability list \<Rightarrow> sbom_vulnerability list" where
  "vulnerabilitiesFromPackage packageName vs = map (vulnerabilityFromPackage packageName) vs"

definition enrichComponentFromRegistry :: "library \<Rightarrow> component \<Rightarrow> package_registry option \<Rightarrow> string \<Rightarrow> bool \<Rightarrow> component" where
  "enrichComponentFromRegistry L c registry purl projectOwned =
     (case registry of
        None \<Rightarrow> c
      | Some r \<Rightarrow>
          (if purl = [] then c
           else (case Registry_Get r purl of
              None \<Rightarrow> c
            | Some p \<Rightarrow>
               (let c = (if Licenses (PkgClaims p) \<noteq> [] then c\<lparr>SC_Licenses := componentLicenses L (Licenses (PkgClaims p))\<rparr> else c);
                    c = (if CPEs (PkgClaims p) \<noteq> [] then c\<lparr>SC_CPEs := CPEs (PkgClaims p)\<rparr> else c);
                    digests = componentDigests L (Digests (PkgClaims p));
                    c = (if digests \<noteq> [] then c\<lparr>SC_Digests := digests\<rparr> else c);
                    c = (if Vulnerabilities p \<noteq> []
                         then c\<lparr>SC_Vulnerabilities := vulnerabilitiesFromPackage (EcosystemName (PkgCoords p)) (Vulnerabilities p)\<rparr> else c);
                    c = (case scorecardRepositoryURL L (Scorecard p) of
                           None \<Rightarrow> c
                         | Some repository \<Rightarrow> if SC_VCSURL c = [] \<and> \<not> projectOwned then c\<lparr>SC_VCSURL := repository\<rparr> else c)
                in case PkgEOL p of
                     None \<Rightarrow> c
                   | Some e \<Rightarrow> c\<lparr>SC_EOL := Some \<lparr>SE_EOL = EOL e, SE_Date = EOLDate e, SE_Cycle = Cycle e, SE_Latest = LatestVersion e\<rparr>\<rparr>))))"

section \<open>The document\<close>

definition graph_components :: "graph \<Rightarrow> graph_node list" where
  "graph_components g = map ModuleNode (ModuleNodes g) @ map DependencyNode (DependencyNodes g)"

definition node_component :: "library \<Rightarrow> build_options \<Rightarrow> graph_node \<Rightarrow> coordinates \<Rightarrow> component" where
  "node_component L opts node coords =
     (let version = (if Version coords = [] \<and> IsProjectOwned (Some node)
                     then (case Opt_ProjectRoot opts of None \<Rightarrow> [] | Some r \<Rightarrow> TrimSpace (Root_Version r))
                     else Version coords);
          c = Component_zero\<lparr>SC_ID := NodeID node, SC_Name := EcosystemName coords, SC_Org := componentOrg L node, SC_Version := version,
                SC_PURL := componentPURL node, SC_Ecosystem := Ecosystem coords,
                SC_PackageManager := PackageManager_Name (PackageManager coords), SC_Type := PkgType coords\<rparr>;
          c = (case AsDependencyNode (Some node) of
                 None \<Rightarrow> c
               | Some dep \<Rightarrow>
                   (let c = c\<lparr>SC_Scopes := NodeScopes dep, SC_SourceScope := SourceScope dep,
                              SC_Copyright := NormalizeCopyright (Copyright (Claims dep)),
                              SC_Licenses := componentLicenses L (DetectionLicenses L dep),
                              SC_Digests := componentDigests L (Digests (Claims dep))\<rparr>;
                        c = applyNodeAssertions L c dep
                    in if \<not> IsProjectOwned (Some node) \<and> Origins dep \<noteq> [] then applyOrigins L c (Origins dep) else c))
      in enrichComponentFromRegistry L c (Opt_Registry opts) (NodeID node) (IsProjectOwned (Some node)))"

definition components_of :: "library \<Rightarrow> build_options \<Rightarrow> graph \<Rightarrow> component list" where
  "components_of L opts g =
     sort_key SC_ID (List.map_filter (\<lambda>node. map_option (node_component L opts node) (NodeCoordinates (Some node))) (graph_components g))"

text \<open>The closure of \<open>exportedRootIDs\<close>, with its \<open>ids\<close> (the keys of \<open>seen\<close>, in order) and
  \<open>visited\<close>; the fuel is one unit a level.\<close>

fun root_walk :: "graph \<Rightarrow> string set \<Rightarrow> nat \<Rightarrow> graph_node list \<Rightarrow> string list \<times> string list \<Rightarrow> (string list \<times> string list) option" where
  "root_walk g exported fuel [] s = Some s"
| "root_walk g exported fuel (node # rest) (ids, visited) =
     (if NodeID node \<in> set visited then root_walk g exported fuel rest (ids, visited)
      else if NodeID node \<in> exported
      then root_walk g exported fuel rest
             (if NodeID node \<in> set ids then ids else ids @ [NodeID node], NodeID node # visited)
      else (case fuel of
              0 \<Rightarrow> None
            | Suc fuel' \<Rightarrow>
                (case (case DirectDependencies g (NodeID node) of
                         Inl err \<Rightarrow> Some (ids, NodeID node # visited)
                       | Inr cs \<Rightarrow> root_walk g exported fuel' cs (ids, NodeID node # visited)) of
                   None \<Rightarrow> None
                 | Some s \<Rightarrow> root_walk g exported fuel rest s)))"

definition exportedRootIDs :: "graph \<Rightarrow> string set \<Rightarrow> string list option" where
  "exportedRootIDs g exported = map_option fst (root_walk g exported (node_count g) (Roots g) ([], []))"

definition projectRootComponent :: "library \<Rightarrow> project_root \<Rightarrow> component" where
  "projectRootComponent L spec =
     (let name = TrimSpace (Root_Name spec); version = TrimSpace (Root_Version spec);
          purl = (case purl_Build L \<lparr>PType = ''generic'', Namespace = [], PName = ToLower name, PVersion = version,
                                    Qualifiers = [], Subpath = []\<rparr> of Inl _ \<Rightarrow> [] | Inr p \<Rightarrow> p)
      in Component_zero\<lparr>SC_ID := projectRootIDPrefix @ sanitizeSPDXID name, SC_Name := name, SC_Version := version,
           SC_Type := ''application'', SC_PURL := purl, SC_Description := NormalizeDescription (Root_Description spec)\<rparr>)"

definition uniqueToolNames :: "string list \<Rightarrow> string list" where
  "uniqueToolNames vs = foldl (\<lambda>out v. if v = [] \<or> v \<in> set out then out else out @ [v]) [] vs"

definition sources_of :: "('p, document_assertions) graph_entry list \<Rightarrow> document_assertions list" where
  "sources_of entries = List.map_filter EntryDocument entries"

definition still_restates :: "build_options \<Rightarrow> ('p, document_assertions) graph_entry list \<Rightarrow> bool" where
  "still_restates opts entries \<longleftrightarrow>
     RestatesSource opts \<and> \<not> list_ex (\<lambda>e. EntryDocument e = None \<and> EntryGraph e \<noteq> None) entries"

text \<open>The components, their dependencies and the roots, the synthesized root among them.\<close>

definition with_project_root ::
    "library \<Rightarrow> build_options \<Rightarrow> component list \<times> sbom_dependency list \<times> string list \<Rightarrow> component list \<times> sbom_dependency list \<times> string list" where
  "with_project_root L opts s =
     (case s of (components, dependencies, rootIDs) \<Rightarrow>
       (let overridden = RootComponentID opts \<noteq> [] \<and> RootComponentID opts \<in> set (map SC_ID components);
            rootIDs = (if overridden then [RootComponentID opts] else rootIDs)
        in case Opt_ProjectRoot opts of
             None \<Rightarrow> (components, dependencies, rootIDs)
           | Some spec \<Rightarrow>
               if TrimSpace (Root_Name spec) \<noteq> [] \<and> \<not> overridden \<and> length rootIDs \<noteq> 1
               then (let root = projectRootComponent L spec
                     in (sort_key SC_ID (components @ [root]),
                         sort_key Ref (dependencies @ [\<lparr>Ref = SC_ID root, RefDependsOn = sort rootIDs\<rparr>]), [SC_ID root]))
               else (components, dependencies, rootIDs)))"

definition graph_document ::
    "library \<Rightarrow> build_options \<Rightarrow> graph \<Rightarrow> (component list \<times> sbom_dependency list \<times> string list) option" where
  "graph_document L opts g =
     (let components = components_of L opts g; exported = set (map SC_ID components)
      in case (those (map (\<lambda>c. map_option (\<lambda>ds. \<lparr>Ref = SC_ID c, RefDependsOn = (if length ds > 1 then sort ds else ds)\<rparr>)
                               (ChildrenAmong (Some g) (SC_ID c) exported)) components), exportedRootIDs g exported) of
           (Some dependencies, Some rootIDs) \<Rightarrow> Some (with_project_root L opts (components, dependencies, rootIDs))
         | _ \<Rightarrow> None)"

definition document_of ::
    "build_options \<Rightarrow> component list \<times> sbom_dependency list \<times> string list \<Rightarrow> sbom_document" where
  "document_of opts s =
     (case s of (components, dependencies, rootIDs) \<Rightarrow>
       (let toolName = (if Opt_ToolName opts = [] then defaultToolName else Opt_ToolName opts)
        in \<lparr>SB_Name = DocumentName opts, SB_Namespace = DocumentNS opts, SB_Tool = toolName,
            SB_Tools = uniqueToolNames (toolName # ToolNames opts), SB_ToolVersion = TrimSpace (Opt_ToolVersion opts),
            SB_Created = Created opts, SB_SerialNumber = TrimSpace (SerialNumber opts), SB_SerialVersion = 0,
            SB_Provenance = Opt_Provenance opts, SB_Lifecycle = TrimSpace (Lifecycle opts), SB_Aggregate = TrimSpace (Aggregate opts),
            SB_Components = components, SB_Dependencies = dependencies, SB_Roots = rootIDs, SB_Described = [],
            SB_Assertions = Document_zero, SB_UnknownScopeTokens = [], SB_Sources = []\<rparr>))"

definition finish_document :: "sbom_library \<Rightarrow> sbom_document \<Rightarrow> sbom_document" where
  "finish_document E d =
     (let d = mintDocumentIdentity E d;
          d = (if SB_Created d = None then d\<lparr>SB_Created := Some (sbom_now E)\<rparr> else d)
      in if SB_Name d = [] then d\<lparr>SB_Name := defaultDocumentName\<rparr> else d)"

datatype build_error = ErrNilGraph

definition sbom_FromGraphEntries ::
    "library \<Rightarrow> sbom_library \<Rightarrow> graph option \<Rightarrow> ('p, document_assertions) graph_entry list \<Rightarrow> build_options
     \<Rightarrow> (build_error + sbom_document) option" where
  "sbom_FromGraphEntries L E graph entries opts =
     (case graph of
        None \<Rightarrow> Some (Inl ErrNilGraph)
      | Some g \<Rightarrow>
          map_option (\<lambda>s. Inr (finish_document E
              (applySourceAssertions L E (document_of opts s) (sources_of entries) (still_restates opts entries))))
            (graph_document L opts g))"

definition FromDepGraph :: "library \<Rightarrow> sbom_library \<Rightarrow> graph option \<Rightarrow> build_options \<Rightarrow> (build_error + sbom_document) option" where
  "FromDepGraph L E graph opts = sbom_FromGraphEntries L E graph ([] :: (unit, document_assertions) graph_entry list) opts"

section \<open>The roots\<close>

text \<open>The walk from the roots answers what the walk among a node's children answers; only the
  bookkeeping differs, its \<open>visited\<close> naming the exported nodes too.\<close>

lemma root_walk_children:
  "\<lbrakk>set (fst s) \<subseteq> P; set (snd s) \<inter> P = {}; set w = set (snd s) \<union> set (fst s); children_walk g P fuel ns s = Some t\<rbrakk> \<Longrightarrow>
   \<exists>w'. root_walk g P fuel ns (fst s, w) = Some (fst t, w') \<and> set w' = set (snd t) \<union> set (fst t) \<and> set (fst t) \<subseteq> P \<and> set (snd t) \<inter> P = {}"
proof (induction g P fuel ns s arbitrary: w t rule: children_walk.induct)
  case (2 g P fuel node rest ids v)
  let ?n = "NodeID node"
  consider (exported) "?n \<in> P" | (visited) "?n \<notin> P" "?n \<in> set v" | (walk) "?n \<notin> P" "?n \<notin> set v" by blast
  then show ?case
  proof cases
    case exported
    let ?ids = "if ?n \<in> set ids then ids else ids @ [?n]"
    have t: "children_walk g P fuel rest (?ids, v) = Some t" using 2(8) exported by simp
    have w: "?n \<in> set w \<longleftrightarrow> ?n \<in> set ids" using 2(6,7) exported by auto
    show ?thesis
      using 2(1) [OF exported _ _ _ t, of "if ?n \<in> set w then w else ?n # w"] 2(5-7) exported w by auto
  next
    case visited
    show ?thesis using 2(2) [OF visited, of w t] 2(5-8) visited by auto
  next
    case walk
    then have w: "?n \<notin> set w" using 2(5,7) by auto
    from 2(8) walk obtain f where f: "fuel = Suc f" by (cases fuel) auto
    show ?thesis
    proof (cases "DirectDependencies g ?n")
      case (Inl e)
      show ?thesis using 2(4) [OF walk f, of "(ids, ?n # v)" "?n # w" t] 2(5-8) walk w f Inl by auto
    next
      case (Inr cs)
      then obtain s where s: "children_walk g P f cs (ids, ?n # v) = Some s"
        and r: "children_walk g P fuel rest s = Some t" using 2(8) walk f by (auto split: option.splits)
      obtain w1 where w1: "root_walk g P f cs (ids, ?n # w) = Some (fst s, w1)" "set w1 = set (snd s) \<union> set (fst s)"
        "set (fst s) \<subseteq> P" "set (snd s) \<inter> P = {}"
        using 2(3) [OF walk f Inr, of "?n # w" s] 2(5-7) walk s by auto
      show ?thesis using 2(4) [OF walk f, of s w1 t] w1 s r walk w f Inr by auto
    qed
  qed
qed simp

lemma Roots_ids:
  assumes g: "graph_ok g"
  shows "NodeID ` set (Roots g) = {x. Node g x \<noteq> None \<and> (\<forall>p. edge_of g p x = None)}"
    and "\<forall>r \<in> set (Roots g). Node g (NodeID r) = Some r"
proof -
  have n: "NodeID ` node_at g ` {i. slot g i \<noteq> None \<and> (\<forall>p. (p, i) \<notin> slot_edges g)}
      = slot_id g ` {i. slot g i \<noteq> None \<and> (\<forall>p. edge_of g p (slot_id g i) = None)}"
    by (auto simp: no_parents_ids [OF g] image_image simp del: not_None_eq)
  also have "\<dots> = {x. Node g x \<noteq> None \<and> (\<forall>p. edge_of g p x = None)}" (is "?A = ?B")
  proof (intro set_eqI iffI)
    fix x assume "x \<in> ?A"
    then show "x \<in> ?B" using slot_node [OF g] by (auto simp del: not_None_eq)
  next
    fix x assume "x \<in> ?B"
    then obtain n where "Node g x = Some n" by auto
    from id_slot [OF g this] obtain i where "slot g i = Some n" "slot_id g i = x" by (elim exE conjE) (rule that)
    moreover from this have "slot g i \<noteq> None" by simp
    ultimately show "x \<in> ?A" using \<open>x \<in> ?B\<close> by blast
  qed
  finally show "NodeID ` set (Roots g) = {x. Node g x \<noteq> None \<and> (\<forall>p. edge_of g p x = None)}" by (simp only: Roots_slots [OF g])
  have "set (Roots g) \<subseteq> set (Graph_Nodes g)" by (auto simp: Roots_def Graph_Nodes_def)
  then show "\<forall>r \<in> set (Roots g). Node g (NodeID r) = Some r" using Graph_Nodes_set [OF g] by auto
qed

text \<open>The exported roots: the present nodes reached from a node without parents through absent ones.\<close>

definition first_present :: "graph \<Rightarrow> string set \<Rightarrow> string \<Rightarrow> bool" where
  "first_present g P y \<longleftrightarrow> y \<in> P \<and> (\<exists>x. Node g x \<noteq> None \<and> (\<forall>p. edge_of g p x = None) \<and>
      (x = y \<or> x \<notin> P \<and> (\<exists>z. (x, z) \<in> {(a, b). edge_of g a b \<noteq> None \<and> b \<notin> P}\<^sup>* \<and> edge_of g z y \<noteq> None)))"

lemma exportedRootIDs_ok:
  assumes g: "graph_ok g"
  shows "\<exists>r. exportedRootIDs g P = Some r \<and> distinct r \<and> set r = Collect (first_present g P)"
proof -
  let ?H = "id_hop g P" and ?R = "{x. Node g x \<noteq> None \<and> (\<forall>p. edge_of g p x = None)}"
  have "\<exists>t. children_walk g P (node_count g) (Roots g) ([], []) = Some t \<and> walk_post g P (NodeID ` set (Roots g)) ([], []) t
      \<and> set (snd t) \<subseteq> {x. Node g x \<noteq> None} \<and> length (snd ([] :: string list, [] :: string list)) \<le> length (snd t)"
    by (rule children_walk_ok) (simp_all add: g Roots_ids [OF g])
  then obtain r v where w: "children_walk g P (node_count g) (Roots g) ([], []) = Some (r, v)"
    and post: "walk_post g P ?R ([], []) (r, v)" by (auto simp: Roots_ids [OF g] simp del: not_None_eq)
  have e: "exportedRootIDs g P = Some r"
    using root_walk_children [OF _ _ _ w, of "[]"] by (auto simp: exportedRootIDs_def)
  note p = walk_postE [OF post]
  have closed: "z \<in> set v" if "(x, z) \<in> ?H\<^sup>*" "x \<in> ?R - P" for x z
    using that
  proof induction
    case base
    then show ?case using p(4) by blast
  next
    case (step y z)
    then show ?case using p(6) [of y z] by (auto simp: id_hop_def)
  qed
  have "set r = Collect (first_present g P)"
  proof (intro set_eqI iffI)
    fix y assume "y \<in> set r"
    then show "y \<in> Collect (first_present g P)" using subsetD [OF p(8)] by (fastforce simp: first_present_def id_hop_def)
  next
    fix y assume "y \<in> Collect (first_present g P)"
    then obtain x where y: "y \<in> P" and x: "x \<in> ?R"
      and c: "x = y \<or> x \<notin> P \<and> (\<exists>z. (x, z) \<in> ?H\<^sup>* \<and> edge_of g z y \<noteq> None)" by (auto simp: first_present_def id_hop_def simp del: not_None_eq)
    from c show "y \<in> set r"
    proof (elim disjE conjE exE)
      assume "x = y" then show ?thesis using p(3) x y by blast
    next
      fix z assume "x \<notin> P" "(x, z) \<in> ?H\<^sup>*" "edge_of g z y \<noteq> None"
      then show ?thesis using p(5) [of z y] closed [of x z] x y by simp
    qed
  qed
  then show ?thesis using e p(9) by simp
qed

section \<open>The components\<close>

lemma SC_ID_applyOrigins [simp]: "SC_ID (applyOrigins L c os) = SC_ID c"
  by (simp add: applyOrigins_def Let_def)

lemma SC_ID_applyNodeAssertions [simp]: "SC_ID (applyNodeAssertions L c d) = SC_ID c"
  by (simp add: applyNodeAssertions_def)

lemma SC_ID_enrich [simp]: "SC_ID (enrichComponentFromRegistry L c r p o') = SC_ID c"
  by (simp add: enrichComponentFromRegistry_def Let_def split: option.split)

lemma SC_ID_node_component [simp]: "SC_ID (node_component L opts n coords) = NodeID n"
  by (simp add: node_component_def Let_def split: option.split)

definition exported_ids :: "graph \<Rightarrow> string list" where
  "exported_ids g = map NodeID (filter (\<lambda>n. Kind n \<noteq> NodeKindManifest) (Graph_Nodes g))"

lemma graph_components_mset:
  assumes g: "graph_ok g"
  shows "mset (graph_components g) = mset (filter (\<lambda>n. Kind n \<noteq> NodeKindManifest) (Graph_Nodes g))"
proof -
  have "mset (map ModuleNode (List.map_filter (\<lambda>i. AsModuleNode (nodes g ! i)) is) @
      map DependencyNode (List.map_filter (\<lambda>i. AsDependencyNode (nodes g ! i)) is))
    = mset (filter (\<lambda>n. Kind n \<noteq> NodeKindManifest) (map (node_at g) is))" if "\<forall>i \<in> set is. slot g i \<noteq> None" for "is"
    using that
  proof (induction "is")
    case (Cons i "is")
    then obtain n where n: "nodes g ! i = Some n" "node_at g i = n" using slot_ids [OF g, of i] slot_Some_less [of g i] by auto
    show ?case using Cons n by (cases n) (simp_all add: map_filter_simps)
  qed (simp add: map_filter_simps)
  from this [of "sortedIndices g"] show ?thesis
    by (simp add: graph_components_def ModuleNodes_def DependencyNodes_def Graph_Nodes_def set_sortedIndices [OF g])
qed

lemma exported_ids_sorted:
  assumes g: "graph_ok g"
  shows "sorted (exported_ids g)" "distinct (exported_ids g)"
proof -
  have "sorted (map NodeID (Graph_Nodes g))" "distinct (map NodeID (Graph_Nodes g))"
    using Graph_Nodes_sorted [OF g] by (simp_all add: strict_sorted_iff)
  then show "sorted (exported_ids g)" "distinct (exported_ids g)"
    unfolding exported_ids_def by - (rule sorted_filter, assumption, rule distinct_map_filter, assumption)
qed

lemma components_of_ids:
  assumes g: "graph_ok g"
  shows "map SC_ID (components_of L opts g) = exported_ids g"
proof -
  have c: "NodeCoordinates (Some n) \<noteq> None" if "n \<in> set (graph_components g)" for n
    using that by (auto simp: graph_components_def)
  have f: "map SC_ID (List.map_filter (\<lambda>node. map_option (node_component L opts node) (NodeCoordinates (Some node))) ns) = map NodeID ns"
    if "\<forall>n \<in> set ns. NodeCoordinates (Some n) \<noteq> None" for ns
    using that by (induction ns) (auto simp: map_filter_simps)
  have "mset (map NodeID (graph_components g)) = mset (exported_ids g)"
    using graph_components_mset [OF g] by (simp add: exported_ids_def)
  then have "sort (map NodeID (graph_components g)) = exported_ids g"
    using exported_ids_sorted [OF g] by (intro properties_for_sort) simp_all
  then show ?thesis using c by (simp add: components_of_def map_sort_key_self f)
qed

lemma exported_ids_facts:
  assumes g: "graph_ok g"
  shows "sorted_wrt (<) (exported_ids g)" "set (exported_ids g) = {x. \<exists>n. Node g x = Some n \<and> Kind n \<noteq> NodeKindManifest}"
proof -
  show "sorted_wrt (<) (exported_ids g)"
    using exported_ids_sorted [OF g] by (simp add: strict_sorted_iff)
  show "set (exported_ids g) = {x. \<exists>n. Node g x = Some n \<and> Kind n \<noteq> NodeKindManifest}"
  proof (intro set_eqI iffI)
    fix x assume "x \<in> set (exported_ids g)"
    then obtain n where "Node g (NodeID n) = Some n" "Kind n \<noteq> NodeKindManifest" "x = NodeID n"
      using Graph_Nodes_set [OF g] by (auto simp: exported_ids_def)
    then show "x \<in> {x. \<exists>n. Node g x = Some n \<and> Kind n \<noteq> NodeKindManifest}" by blast
  next
    fix x assume "x \<in> {x. \<exists>n. Node g x = Some n \<and> Kind n \<noteq> NodeKindManifest}"
    then obtain n where n: "Node g x = Some n" "Kind n \<noteq> NodeKindManifest" by blast
    then have "n \<in> set (Graph_Nodes g)" "x = NodeID n" using Node_id [OF g n(1)] by (simp_all add: Graph_Nodes_set [OF g])
    then show "x \<in> set (exported_ids g)" using n by (auto simp: exported_ids_def)
  qed
qed

section \<open>The dependencies and the roots\<close>

text \<open>What a document may name beneath a node: the exported nodes one edge away from it or from a
  chain of absent nodes hanging off it.\<close>

definition beneath :: "graph \<Rightarrow> string set \<Rightarrow> string \<Rightarrow> string set" where
  "beneath g P x = {y \<in> P. \<exists>z. (x, z) \<in> {(a, b). edge_of g a b \<noteq> None \<and> b \<notin> P}\<^sup>* \<and> edge_of g z y \<noteq> None}"

abbreviation exported_roots :: "graph \<Rightarrow> string set" where
  "exported_roots g \<equiv> Collect (first_present g (set (exported_ids g)))"

definition relationship_ok :: "graph \<Rightarrow> sbom_dependency \<Rightarrow> bool" where
  "relationship_ok g e \<longleftrightarrow> Ref e \<in> set (exported_ids g) \<and> sorted_wrt (<) (RefDependsOn e)
     \<and> set (RefDependsOn e) = beneath g (set (exported_ids g)) (Ref e)"

lemma sort_if_many: "(if length ds > 1 then sort ds else ds) = sort (ds :: string list)"
  by (cases ds; cases "tl ds") auto

lemma component_dependency_ok:
  assumes g: "graph_ok g" and x: "x \<in> set (exported_ids g)"
  shows "\<exists>e. map_option (\<lambda>ds. \<lparr>Ref = x, RefDependsOn = (if length ds > 1 then sort ds else ds)\<rparr>)
      (ChildrenAmong (Some g) x (set (exported_ids g))) = Some e \<and> Ref e = x \<and> relationship_ok g e"
proof -
  obtain r where r: "ChildrenAmong (Some g) x (set (exported_ids g)) = Some r" "distinct r"
    "set r = beneath g (set (exported_ids g)) x"
    using ChildrenAmong_ok [OF g, of x "set (exported_ids g)"] unfolding beneath_def [symmetric] by (elim exE conjE) (rule that)
  then show ?thesis using x unfolding sort_if_many
    by (intro exI [of _ "\<lparr>Ref = x, RefDependsOn = sort r\<rparr>"]) (simp add: relationship_ok_def strict_sorted_iff)
qed

lemma those_each:
  "\<forall>x \<in> set xs. \<exists>y. f x = Some y \<and> R x y \<Longrightarrow> \<exists>ys. those (map f xs) = Some ys \<and> list_all2 R xs ys"
  by (induction xs) (auto simp del: not_None_eq)

lemma graph_document_ok:
  assumes g: "graph_ok g"
  shows "\<exists>ds rs. graph_document L opts g = Some (with_project_root L opts (components_of L opts g, ds, rs))
    \<and> map Ref ds = exported_ids g \<and> list_all (relationship_ok g) ds \<and> distinct rs \<and> set rs = exported_roots g"
proof -
  let ?P = "set (exported_ids g)"
  let ?f = "\<lambda>x. map_option (\<lambda>ds. \<lparr>Ref = x, RefDependsOn = (if length ds > 1 then sort ds else ds)\<rparr>) (ChildrenAmong (Some g) x ?P)"
  have "\<forall>x \<in> set (exported_ids g). \<exists>e. ?f x = Some e \<and> (Ref e = x \<and> relationship_ok g e)"
    by (rule ballI, rule component_dependency_ok [OF g])
  from those_each [OF this] obtain ds where
    ds: "those (map ?f (exported_ids g)) = Some ds" "list_all2 (\<lambda>x e. Ref e = x \<and> relationship_ok g e) (exported_ids g) ds"
    by (elim exE conjE)
  have m: "map Ref ds = exported_ids g" "list_all (relationship_ok g) ds"
    using ds(2) by (induction rule: list_all2_induct) auto
  obtain rs where rs: "exportedRootIDs g ?P = Some rs" "distinct rs" "set rs = exported_roots g"
    using exportedRootIDs_ok [OF g, of ?P] by (elim exE conjE)
  have e: "map (\<lambda>c. ?f (SC_ID c)) (components_of L opts g) = map ?f (exported_ids g)"
    unfolding components_of_ids [OF g, of L opts, symmetric] by simp
  have "graph_document L opts g = Some (with_project_root L opts (components_of L opts g, ds, rs))"
    unfolding graph_document_def Let_def components_of_ids [OF g] e ds(1) rs(1) by simp
  with m rs show ?thesis by (intro exI [of _ ds] exI [of _ rs] conjI)
qed

section \<open>The finished document\<close>

abbreviation document_graph :: "sbom_document \<Rightarrow> component list \<times> sbom_dependency list \<times> string list" where
  "document_graph d \<equiv> (SB_Components d, SB_Dependencies d, SB_Roots d)"

lemma mint_keeps_graph [simp]: "SB_Components (mintDocumentIdentity E d) = SB_Components d"
  "SB_Dependencies (mintDocumentIdentity E d) = SB_Dependencies d" "SB_Roots (mintDocumentIdentity E d) = SB_Roots d"
  by (simp_all add: mintDocumentIdentity_def Let_def)

lemma inherit_keeps_graph [simp]: "SB_Components (inheritDocumentIdentity E d i v) = SB_Components d"
  "SB_Dependencies (inheritDocumentIdentity E d i v) = SB_Dependencies d" "SB_Roots (inheritDocumentIdentity E d i v) = SB_Roots d"
  by (simp_all add: inheritDocumentIdentity_def Let_def split: option.split)

lemma apply_keeps_graph [simp]: "SB_Components (applySourceAssertions L E d ss r) = SB_Components d"
  "SB_Dependencies (applySourceAssertions L E d ss r) = SB_Dependencies d" "SB_Roots (applySourceAssertions L E d ss r) = SB_Roots d"
  by (simp_all add: applySourceAssertions_def Let_def)

lemma finish_keeps_graph [simp]: "SB_Components (finish_document E d) = SB_Components d"
  "SB_Dependencies (finish_document E d) = SB_Dependencies d" "SB_Roots (finish_document E d) = SB_Roots d"
  by (simp_all add: finish_document_def Let_def)

lemma document_of_graph [simp]: "document_graph (document_of opts s) = s"
  by (simp add: document_of_def Let_def split: prod.split)

text \<open>The component synthesized for the scanned project, when one is.\<close>

definition overridden :: "build_options \<Rightarrow> graph \<Rightarrow> bool" where
  "overridden opts g \<longleftrightarrow> RootComponentID opts \<noteq> [] \<and> RootComponentID opts \<in> set (exported_ids g)"

definition synthesized_root :: "library \<Rightarrow> build_options \<Rightarrow> graph \<Rightarrow> component list" where
  "synthesized_root L opts g =
     (case Opt_ProjectRoot opts of
        None \<Rightarrow> []
      | Some spec \<Rightarrow> if TrimSpace (Root_Name spec) \<noteq> [] \<and> \<not> overridden opts g \<and> card (exported_roots g) \<noteq> 1
                     then [projectRootComponent L spec] else [])"

definition document_graph_ok :: "library \<Rightarrow> build_options \<Rightarrow> graph \<Rightarrow> component list \<times> sbom_dependency list \<times> string list \<Rightarrow> bool" where
  "document_graph_ok L opts g s \<longleftrightarrow> (case s of (cs, ds, rs) \<Rightarrow>
     mset cs = mset (components_of L opts g) + mset (synthesized_root L opts g)
     \<and> map SC_ID cs = sort (exported_ids g @ map SC_ID (synthesized_root L opts g)) \<and> map Ref ds = map SC_ID cs
     \<and> (\<forall>e \<in> set ds. relationship_ok g e \<or> synthesized_root L opts g \<noteq> [] \<and> Ref e = SC_ID (hd (synthesized_root L opts g))
          \<and> sorted_wrt (<) (RefDependsOn e) \<and> set (RefDependsOn e) = exported_roots g)
     \<and> distinct rs \<and> set rs = (if overridden opts g then {RootComponentID opts}
          else if synthesized_root L opts g = [] then exported_roots g else SC_ID ` set (synthesized_root L opts g)))"

lemma with_project_root_ok:
  assumes g: "graph_ok g" and ds: "map Ref ds = exported_ids g" "list_all (relationship_ok g) ds" and rs: "distinct rs" "set rs = exported_roots g"
  shows "document_graph_ok L opts g (with_project_root L opts (components_of L opts g, ds, rs))"
proof -
  let ?cs = "components_of L opts g"
  have o: "RootComponentID opts \<noteq> [] \<and> RootComponentID opts \<in> set (map SC_ID ?cs) \<longleftrightarrow> overridden opts g"
    unfolding components_of_ids [OF g] overridden_def ..
  have n: "length rs = card (exported_roots g)" using rs distinct_card by fastforce
  have s: "sort (exported_ids g) = exported_ids g" by (rule sort_key_id_if_sorted) (simp add: exported_ids_sorted [OF g])
  show ?thesis
  proof (cases "synthesized_root L opts g")
    case Nil
    then have w: "with_project_root L opts (?cs, ds, rs) = (?cs, ds, if overridden opts g then [RootComponentID opts] else rs)"
      by (auto simp: with_project_root_def synthesized_root_def Let_def o n split: option.splits if_splits simp del: set_map)
    show ?thesis unfolding document_graph_ok_def w prod.case using Nil ds rs s components_of_ids [OF g] by (simp add: list_all_iff)
  next
    case (Cons r more')
    then obtain spec where sp: "Opt_ProjectRoot opts = Some spec" "TrimSpace (Root_Name spec) \<noteq> []" "\<not> overridden opts g"
        "card (exported_roots g) \<noteq> 1" "r = projectRootComponent L spec" "more' = []"
      by (auto simp: synthesized_root_def split: option.splits if_splits)
    have w: "with_project_root L opts (?cs, ds, rs) = (sort_key SC_ID (?cs @ [r]),
        sort_key Ref (ds @ [\<lparr>Ref = SC_ID r, RefDependsOn = sort rs\<rparr>]), [SC_ID r])"
      using sp by (simp add: with_project_root_def Let_def o n del: set_map)
    show ?thesis unfolding document_graph_ok_def w prod.case
      using Cons sp ds rs components_of_ids [OF g]
      by (auto simp: list_all_iff map_sort_key_self strict_sorted_iff)
  qed
qed

lemma FromGraphEntries_ok:
  assumes g: "graph_ok g"
  shows "\<exists>d. sbom_FromGraphEntries L E (Some g) entries opts = Some (Inr d) \<and> document_graph_ok L opts g (document_graph d)"
proof -
  obtain ds rs where d: "graph_document L opts g = Some (with_project_root L opts (components_of L opts g, ds, rs))"
    "map Ref ds = exported_ids g" "list_all (relationship_ok g) ds" "distinct rs" "set rs = exported_roots g"
    using graph_document_ok [OF g, of L opts] by (elim exE conjE)
  have "\<exists>d. sbom_FromGraphEntries L E (Some g) entries opts = Some (Inr d)
      \<and> document_graph d = with_project_root L opts (components_of L opts g, ds, rs)"
    unfolding sbom_FromGraphEntries_def option.case d(1) option.map sum.inject option.inject
    by (rule exI, rule conjI [OF refl]) (simp only: finish_keeps_graph apply_keeps_graph document_of_graph)
  then show ?thesis using with_project_root_ok [OF g d(2-5), of L opts] by (elim exE conjE) (intro exI conjI, assumption, simp only:)
qed

section \<open>What the document reaches\<close>

definition contracted :: "graph \<Rightarrow> (string \<times> string) set" where
  "contracted g = {(a, b). a \<in> set (exported_ids g) \<and> b \<in> beneath g (set (exported_ids g)) a}"

lemma beneath_step: "y \<in> beneath g P x \<longleftrightarrow> y \<in> P \<and> (\<exists>z. (x, z) \<in> (id_hop g P)\<^sup>* \<and> (z, y) \<in> id_edges g)"
  by (simp add: beneath_def id_hop_def id_edges_def)

lemma hop_edges: "id_hop g P \<subseteq> id_edges g"
  by (auto simp: id_hop_def id_edges_def)

lemma beneath_reached: "y \<in> beneath g P x \<Longrightarrow> (x, y) \<in> (id_edges g)\<^sup>+"
  using rtrancl_mono [OF hop_edges, of g P] by (auto simp: beneath_step intro: rtrancl_into_trancl1)

lemma reached_contracts:
  assumes "(a, b) \<in> (id_edges g)\<^sup>+"
  shows "(b \<in> P \<longrightarrow> (a, b) \<in> {(x, y). y \<in> beneath g P x}\<^sup>+)
    \<and> (b \<notin> P \<longrightarrow> (\<exists>c. (a, c) \<in> {(x, y). y \<in> beneath g P x}\<^sup>* \<and> (c, b) \<in> (id_hop g P)\<^sup>+))"
  using assms
proof (induction rule: trancl_induct)
  let ?K = "{(x, y). y \<in> beneath g P x}"
  case (base b)
  then show ?case by (auto simp: beneath_step id_hop_def id_edges_def intro!: r_into_trancl)
next
  let ?K = "{(x, y). y \<in> beneath g P x}"
  case (step b c)
  have p: "\<exists>x. (a, x) \<in> ?K\<^sup>* \<and> (x, b) \<in> (id_hop g P)\<^sup>*"
  proof (cases "b \<in> P")
    case True
    then show ?thesis using step.IH by (blast intro: trancl_into_rtrancl)
  next
    case False
    then show ?thesis using step.IH by (blast intro: trancl_into_rtrancl)
  qed
  then obtain x where x: "(a, x) \<in> ?K\<^sup>*" "(x, b) \<in> (id_hop g P)\<^sup>*" by blast
  show ?case
  proof (cases "c \<in> P")
    case True
    then have "c \<in> beneath g P x" using x(2) step.hyps(2) by (auto simp: beneath_step)
    then have "(x, c) \<in> ?K" by simp
    with x(1) have "(a, c) \<in> ?K\<^sup>+" by (rule rtrancl_into_trancl1)
    with True show ?thesis by simp
  next
    case False
    then have "(b, c) \<in> id_hop g P" using step.hyps(2) by (simp add: id_hop_def id_edges_def)
    with x(2) have "(x, c) \<in> (id_hop g P)\<^sup>+" by (rule rtrancl_into_trancl1)
    with False x(1) show ?thesis by blast
  qed
qed

lemma contracted_within:
  "(a, b) \<in> {(x, y). y \<in> beneath g (set (exported_ids g)) x}\<^sup>+ \<Longrightarrow> a \<in> set (exported_ids g) \<Longrightarrow> (a, b) \<in> (contracted g)\<^sup>+ \<and> b \<in> set (exported_ids g)"
proof (induction rule: trancl_induct)
  case (base b)
  then show ?case by (auto simp: contracted_def beneath_step)
next
  case (step b c)
  then have "(b, c) \<in> contracted g" "c \<in> set (exported_ids g)" by (auto simp: contracted_def beneath_step)
  with step show ?case by (blast intro: trancl_into_trancl)
qed

lemma contracted_reaches:
  assumes a: "a \<in> set (exported_ids g)" and b: "b \<in> set (exported_ids g)"
  shows "(a, b) \<in> (contracted g)\<^sup>+ \<longleftrightarrow> (a, b) \<in> (id_edges g)\<^sup>+"
proof
  assume "(a, b) \<in> (contracted g)\<^sup>+"
  then show "(a, b) \<in> (id_edges g)\<^sup>+"
    by (induction rule: trancl_induct) (auto simp: contracted_def dest!: beneath_reached intro: trancl_trans)
next
  assume "(a, b) \<in> (id_edges g)\<^sup>+"
  from reached_contracts [OF this, of "set (exported_ids g)"] show "(a, b) \<in> (contracted g)\<^sup>+"
    using contracted_within a b by blast
qed

lemma contracted_first:
  assumes r: "Node g r \<noteq> None" "\<forall>p. edge_of g p r = None" and p: "(r, b) \<in> (id_edges g)\<^sup>*" and b: "b \<in> set (exported_ids g)"
  shows "\<exists>y \<in> exported_roots g. (y, b) \<in> (contracted g)\<^sup>*"
proof (cases "r \<in> set (exported_ids g)")
  case True
  then have "r \<in> exported_roots g" using r by (auto simp: first_present_def)
  moreover have "(r, b) \<in> (contracted g)\<^sup>*"
    using p contracted_reaches [OF True b] by (metis rtrancl_eq_or_trancl)
  ultimately show ?thesis by blast
next
  case False
  let ?K = "{(x, y). y \<in> beneath g (set (exported_ids g)) x}"
  have "(r, b) \<in> (id_edges g)\<^sup>+" using p b False by (metis rtrancl_eq_or_trancl)
  then have "(r, b) \<in> ?K\<^sup>+" using reached_contracts [of r b g "set (exported_ids g)"] b by blast
  then obtain y where y: "y \<in> beneath g (set (exported_ids g)) r" "(y, b) \<in> ?K\<^sup>*" by (blast dest: tranclD)
  have P: "y \<in> set (exported_ids g)" using y(1) by (simp add: beneath_step)
  have "y \<in> exported_roots g" using y(1) r False unfolding first_present_def beneath_def by blast
  moreover have "(y, b) \<in> (contracted g)\<^sup>*" using y(2) contracted_within [OF _ P] by (metis rtrancl_eq_or_trancl)
  ultimately show ?thesis by blast
qed

definition document_edges :: "sbom_document \<Rightarrow> (string \<times> string) set" where
  "document_edges d = {(a, b). \<exists>e \<in> set (SB_Dependencies d). Ref e = a \<and> b \<in> set (RefDependsOn e)}"

lemma trancl_within:
  "(a, b) \<in> (C \<union> S \<times> T)\<^sup>+ \<Longrightarrow> a \<in> P \<Longrightarrow> S \<inter> P = {} \<Longrightarrow> C \<subseteq> P \<times> P \<Longrightarrow> (a, b) \<in> C\<^sup>+ \<and> b \<in> P"
proof (induction rule: trancl_induct)
  case (step b c)
  then show ?case by (blast intro: trancl_into_trancl)
qed blast

lemma contracted_exported: "contracted g \<subseteq> set (exported_ids g) \<times> set (exported_ids g)"
  by (auto simp: contracted_def beneath_def)

lemma exported_roots_within: "exported_roots g \<subseteq> set (exported_ids g)"
  by (auto simp: first_present_def)

lemma ok_document_edges:
  assumes ok: "document_graph_ok L opts g (document_graph d)" and g: "graph_ok g"
    and new: "SC_ID ` set (synthesized_root L opts g) \<inter> set (exported_ids g) = {}"
  shows "document_edges d = contracted g \<union> (SC_ID ` set (synthesized_root L opts g)) \<times> exported_roots g"
proof -
  let ?P = "set (exported_ids g)" and ?S = "synthesized_root L opts g"
  have S: "?S = [] \<or> (\<exists>r. ?S = [r])" by (auto simp: synthesized_root_def split: option.split)
  have refs: "Ref ` set (SB_Dependencies d) = ?P \<union> SC_ID ` set ?S"
    using ok unfolding document_graph_ok_def prod.case by (elim conjE) (metis list.set_map set_append set_sort)
  have each: "\<forall>e \<in> set (SB_Dependencies d). relationship_ok g e \<or> ?S \<noteq> [] \<and> Ref e = SC_ID (hd ?S)
          \<and> sorted_wrt (<) (RefDependsOn e) \<and> set (RefDependsOn e) = exported_roots g"
    using ok unfolding document_graph_ok_def prod.case by (elim conjE) assumption
  have depends: "set (RefDependsOn e) = (if Ref e \<in> ?P then beneath g ?P (Ref e) else exported_roots g)"
    if "e \<in> set (SB_Dependencies d)" for e
    using bspec [OF each that] new S by (auto simp: relationship_ok_def)
  have "(a, b) \<in> document_edges d \<longleftrightarrow> a \<in> ?P \<and> b \<in> beneath g ?P a \<or> a \<in> SC_ID ` set ?S \<and> b \<in> exported_roots g" for a b
  proof
    assume "(a, b) \<in> document_edges d"
    then obtain e where e: "e \<in> set (SB_Dependencies d)" "Ref e = a" "b \<in> set (RefDependsOn e)" by (auto simp: document_edges_def)
    then have "a \<in> ?P \<union> SC_ID ` set ?S" using refs by blast
    with e depends [OF e(1)] show "a \<in> ?P \<and> b \<in> beneath g ?P a \<or> a \<in> SC_ID ` set ?S \<and> b \<in> exported_roots g"
      by (auto split: if_splits)
  next
    assume r: "a \<in> ?P \<and> b \<in> beneath g ?P a \<or> a \<in> SC_ID ` set ?S \<and> b \<in> exported_roots g"
    then have "a \<in> Ref ` set (SB_Dependencies d)" using refs by blast
    then obtain e where e: "e \<in> set (SB_Dependencies d)" "Ref e = a" by blast
    have "b \<in> set (RefDependsOn e)" using r depends [OF e(1)] e(2) new by auto
    with e show "(a, b) \<in> document_edges d" by (auto simp: document_edges_def)
  qed
  then show ?thesis by (auto simp: contracted_def)
qed

text \<open>C12. A graph the operations build always exports, and its document is the graph: one component for
  each module and dependency node, and one for the project itself exactly when the graph has not
  one root, a named project is given and no root is pinned; one relationship per component, in
  the same order, naming each component beneath it once and in order, structural nodes stepped
  through; the synthesized component over the roots; and the roots the pinned component, the
  synthesized one, or the components first met from a node without parents.\<close>

theorem FromGraphEntries_spec:
  assumes "reachable_graph L g"
  shows "\<exists>d. sbom_FromGraphEntries L E (Some g) entries opts = Some (Inr d) \<and>
    mset (SB_Components d) = mset (components_of L opts g) + mset (synthesized_root L opts g) \<and>
    map SC_ID (SB_Components d) = sort (exported_ids g @ map SC_ID (synthesized_root L opts g)) \<and>
    map Ref (SB_Dependencies d) = map SC_ID (SB_Components d) \<and>
    (\<forall>e \<in> set (SB_Dependencies d). sorted_wrt (<) (RefDependsOn e) \<and>
       (Ref e \<in> set (exported_ids g) \<and> set (RefDependsOn e) = beneath g (set (exported_ids g)) (Ref e)
        \<or> synthesized_root L opts g \<noteq> [] \<and> Ref e = SC_ID (hd (synthesized_root L opts g)) \<and> set (RefDependsOn e) = exported_roots g)) \<and>
    distinct (SB_Roots d) \<and>
    set (SB_Roots d) = (if overridden opts g then {RootComponentID opts}
        else if synthesized_root L opts g = [] then exported_roots g else SC_ID ` set (synthesized_root L opts g))"
proof -
  obtain d where d: "sbom_FromGraphEntries L E (Some g) entries opts = Some (Inr d)" "document_graph_ok L opts g (document_graph d)"
    using FromGraphEntries_ok [OF reachable_graph_ok [OF assms], where L = L and E = E and entries = entries and opts = opts] by (elim exE conjE)
  show ?thesis
    using d(2) unfolding document_graph_ok_def prod.case relationship_ok_def
    by (intro exI [of _ d]) (use d(1) in blast)
qed

definition plain_sbom_library :: sbom_library where
  "plain_sbom_library = \<lparr>sbom_now = 0, rand_Read = None, clock_nanos = 0, time_Parse = \<lambda>_. None, time_Format = \<lambda>_. [],
     NewBOMLink = \<lambda>s. if HasPrefix s ''urn:uuid:'' then Some s else None, ParseBOMLink = \<lambda>_. None\<rparr>"

definition sample_options :: build_options where
  "sample_options = \<lparr>DocumentName = ''demo'', DocumentNS = [], Opt_ToolName = [], ToolNames = [], Opt_ToolVersion = [],
     Created = None, RootComponentID = [], SerialNumber = [], Opt_ProjectRoot = None, 
     Opt_Provenance = \<lparr>Manufacturer = [], SecurityContact = [], VulnerabilityDisclosureURL = [], SupportEnd = []\<rparr>,
     Lifecycle = [], Aggregate = [], RestatesSource = False, Opt_Registry = None\<rparr>"

abbreviation no_entries :: "(unit, document_assertions) graph_entry list" where "no_entries \<equiv> []"

theorem FromGraphEntries_spec_witness:
  "\<exists>d. sbom_FromGraphEntries plain_library plain_sbom_library (Some sample_graph) no_entries sample_options = Some (Inr d) \<and> map SC_ID (SB_Components d) = [''a'', ''b'']"
proof -
  obtain d where d: "sbom_FromGraphEntries plain_library plain_sbom_library (Some sample_graph) no_entries sample_options = Some (Inr d)"
    "map SC_ID (SB_Components d) = sort (exported_ids sample_graph @ map SC_ID (synthesized_root plain_library sample_options sample_graph))"
    using FromGraphEntries_spec [OF sample_graph_reachable, of plain_library plain_sbom_library no_entries sample_options] by blast
  moreover have "exported_ids sample_graph = [''a'', ''b'']" by code_simp
  moreover have "synthesized_root plain_library sample_options sample_graph = []" by (simp add: synthesized_root_def sample_options_def)
  moreover have "sort [''a'', ''b''] = [''a'', ''b'']" by code_simp
  ultimately show ?thesis by (intro exI [of _ d]) simp
qed

text \<open>C13. The document reaches what the graph reaches, although it leaves the structural nodes out: when
  the synthesized component's ID is free, one component reaches another through its relationships exactly
  when the graph has a path between their nodes; a named project always leaves one root; and in a
  graph in which every node hangs off a node without parents, every component is reached from the roots
  the document states, unless a root is pinned.\<close>

theorem FromGraphEntries_reaches:
  assumes "reachable_graph L g" and "SC_ID ` set (synthesized_root L opts g) \<inter> set (exported_ids g) = {}"
  shows "\<exists>d. sbom_FromGraphEntries L E (Some g) entries opts = Some (Inr d) \<and>
    (\<forall>a \<in> set (exported_ids g). \<forall>b \<in> set (exported_ids g). (a, b) \<in> (document_edges d)\<^sup>+ \<longleftrightarrow> (a, b) \<in> (id_edges g)\<^sup>+) \<and>
    (\<forall>spec. Opt_ProjectRoot opts = Some spec \<and> TrimSpace (Root_Name spec) \<noteq> [] \<longrightarrow> length (SB_Roots d) = 1) \<and>
    (\<not> overridden opts g \<and> (\<forall>x. Node g x \<noteq> None \<longrightarrow> (\<exists>r. Node g r \<noteq> None \<and> (\<forall>p. edge_of g p r = None) \<and> (r, x) \<in> (id_edges g)\<^sup>*)) \<longrightarrow>
       (\<forall>c \<in> set (SB_Components d). \<exists>r \<in> set (SB_Roots d). (r, SC_ID c) \<in> (document_edges d)\<^sup>*))"
proof -
  have g: "graph_ok g" by (rule reachable_graph_ok [OF assms(1)])
  let ?P = "set (exported_ids g)" and ?S = "synthesized_root L opts g"
  obtain d where d: "sbom_FromGraphEntries L E (Some g) entries opts = Some (Inr d)" "document_graph_ok L opts g (document_graph d)"
    using FromGraphEntries_ok [OF g, where L = L and E = E and entries = entries and opts = opts] by (elim exE conjE)
  note e = ok_document_edges [OF d(2) g assms(2)]
  have roots: "set (SB_Roots d) = (if overridden opts g then {RootComponentID opts}
      else if ?S = [] then exported_roots g else SC_ID ` set ?S)" and dist: "distinct (SB_Roots d)"
    and ids: "map SC_ID (SB_Components d) = sort (exported_ids g @ map SC_ID ?S)"
    using d(2) unfolding document_graph_ok_def prod.case by - (elim conjE, assumption)+
  have reach: "(a, b) \<in> (document_edges d)\<^sup>+ \<longleftrightarrow> (a, b) \<in> (id_edges g)\<^sup>+" if "a \<in> ?P" "b \<in> ?P" for a b
    unfolding contracted_reaches [OF that, symmetric] e
    using trancl_within [OF _ that(1) assms(2) contracted_exported, of b] by (blast intro: trancl_mono)
  have one: "length (SB_Roots d) = 1" if "Opt_ProjectRoot opts = Some spec" "TrimSpace (Root_Name spec) \<noteq> []" for spec
    using that roots distinct_card [OF dist]
    by (cases "overridden opts g"; cases "card (exported_roots g) = 1") (simp_all add: synthesized_root_def)
  have reached: "\<exists>r \<in> set (SB_Roots d). (r, SC_ID c) \<in> (document_edges d)\<^sup>*"
    if o: "\<not> overridden opts g" and all: "\<forall>x. Node g x \<noteq> None \<longrightarrow> (\<exists>r. Node g r \<noteq> None \<and> (\<forall>p. edge_of g p r = None) \<and> (r, x) \<in> (id_edges g)\<^sup>*)"
      and c: "c \<in> set (SB_Components d)" for c
  proof -
    have r: "set (SB_Roots d) = (if ?S = [] then exported_roots g else SC_ID ` set ?S)" using roots o by simp
    have "SC_ID c \<in> ?P \<union> SC_ID ` set ?S" using c ids by (metis image_eqI list.set_map set_append set_sort)
    then consider (node) "SC_ID c \<in> ?P" | (project) "SC_ID c \<in> SC_ID ` set ?S" by blast
    then show ?thesis
    proof cases
      case node
      then have "Node g (SC_ID c) \<noteq> None" using exported_ids_facts(2) [OF g] by auto
      then obtain y where y: "y \<in> exported_roots g" "(y, SC_ID c) \<in> (contracted g)\<^sup>*"
        using all contracted_first [OF _ _ _ node] by blast
      then have p: "(y, SC_ID c) \<in> (document_edges d)\<^sup>*" unfolding e by (meson rtrancl_mono subsetD sup_ge1)
      show ?thesis
      proof (cases "?S = []")
        case True
        with y(1) p r show ?thesis by auto
      next
        case False
        then have h: "SC_ID (hd ?S) \<in> set (SB_Roots d)" "(SC_ID (hd ?S), y) \<in> document_edges d" using r y(1) unfolding e by simp_all
        then show ?thesis using p by (meson converse_rtrancl_into_rtrancl)
      qed
    next
      case project
      then have "?S \<noteq> []" by auto
      with r project have "SC_ID c \<in> set (SB_Roots d)" by simp
      then show ?thesis by blast
    qed
  qed
  show ?thesis
    by (intro exI [of _ d] conjI ballI allI impI) (use d(1) reach one reached in blast)+
qed

theorem FromGraphEntries_reaches_witness:
  "\<exists>d. sbom_FromGraphEntries plain_library plain_sbom_library (Some sample_graph) no_entries sample_options = Some (Inr d) \<and> (''a'', ''b'') \<in> (document_edges d)\<^sup>+"
proof -
  have S: "synthesized_root plain_library sample_options sample_graph = []" by (simp add: synthesized_root_def sample_options_def)
  have x: "exported_ids sample_graph = [''a'', ''b'']" by code_simp
  have "edge_of sample_graph ''a'' ''b'' \<noteq> None" by code_simp
  then have p: "(''a'', ''b'') \<in> (id_edges sample_graph)\<^sup>+" by (simp add: id_edges_def r_into_trancl)
  obtain d where d: "sbom_FromGraphEntries plain_library plain_sbom_library (Some sample_graph) no_entries sample_options = Some (Inr d)"
    "\<forall>a \<in> set (exported_ids sample_graph). \<forall>b \<in> set (exported_ids sample_graph). (a, b) \<in> (document_edges d)\<^sup>+ \<longleftrightarrow> (a, b) \<in> (id_edges sample_graph)\<^sup>+"
    using FromGraphEntries_reaches [OF sample_graph_reachable, of plain_library sample_options plain_sbom_library no_entries] unfolding S by auto
  show ?thesis using d(1) d(2) [unfolded x] p by (intro exI [of _ d]) simp
qed

section \<open>The document's identity\<close>

definition adopts :: "build_options \<Rightarrow> ('p, document_assertions) graph_entry list \<Rightarrow> bool" where
  "adopts opts entries \<longleftrightarrow> length (sources_of entries) = 1 \<and> still_restates opts entries"

definition only_source :: "library \<Rightarrow> ('p, document_assertions) graph_entry list \<Rightarrow> document_assertions" where
  "only_source L entries = fst (Document_Normalized L (hd (sources_of entries)))"

lemma inherit_identity:
  "SB_SerialNumber d \<noteq> [] \<Longrightarrow> SB_SerialNumber (inheritDocumentIdentity E d i v) = SB_SerialNumber d"
  "SB_Namespace (inheritDocumentIdentity E d i v) = (if SB_Namespace d = [] then i else SB_Namespace d)"
  "SB_Name (inheritDocumentIdentity E d i v) = SB_Name d"
  "SB_Created (inheritDocumentIdentity E d i v) = SB_Created d"
  by (auto simp: inheritDocumentIdentity_def Let_def split: option.split)

lemma apply_identity:
  "SB_SerialNumber d \<noteq> [] \<Longrightarrow> SB_SerialNumber (applySourceAssertions L E d ss r) = SB_SerialNumber d"
  "SB_Namespace d \<noteq> [] \<Longrightarrow> SB_Namespace (applySourceAssertions L E d ss r) = SB_Namespace d"
  "SB_Name d \<noteq> [] \<Longrightarrow> SB_Name (applySourceAssertions L E d ss r) = SB_Name d"
  "SB_Created d = Some t \<Longrightarrow> SB_Created (applySourceAssertions L E d ss r) = Some t"
  by (simp_all add: applySourceAssertions_def Let_def inherit_identity)

lemma apply_unadopted:
  assumes "\<not> (length ss = 1 \<and> r)"
  shows "SB_SerialNumber (applySourceAssertions L E d ss r) = SB_SerialNumber d"
    "SB_Namespace (applySourceAssertions L E d ss r) = SB_Namespace d"
proof -
  have "ss = [] \<or> length ss > 1 \<or> \<not> r" using assms by (cases ss) auto
  then show "SB_SerialNumber (applySourceAssertions L E d ss r) = SB_SerialNumber d"
    "SB_Namespace (applySourceAssertions L E d ss r) = SB_Namespace d"
    by (auto simp: applySourceAssertions_def Let_def)
qed

lemma apply_adopted:
  assumes "length ss = 1" "r" "SB_Namespace d = []"
  shows "SB_Namespace (applySourceAssertions L E d ss r) = DocIdentity (fst (Document_Normalized L (hd ss)))"
proof -
  obtain s where "ss = [s]" using assms(1) by (cases ss) auto
  then show ?thesis using assms(2,3) by (simp add: applySourceAssertions_def Let_def inherit_identity)
qed

lemma finish_identity:
  "SB_SerialNumber (finish_document E d) = SB_SerialNumber (mintDocumentIdentity E d)"
  "SB_Namespace (finish_document E d) = SB_Namespace (mintDocumentIdentity E d)"
  "SB_Created (finish_document E d) = Some (case SB_Created d of None \<Rightarrow> sbom_now E | Some t \<Rightarrow> t)"
  "SB_Name (finish_document E d) = (if SB_Name d = [] then defaultDocumentName else SB_Name d)"
proof -
  have m: "SB_Name (mintDocumentIdentity E d) = SB_Name d" "SB_Created (mintDocumentIdentity E d) = SB_Created d"
    by (simp_all add: mintDocumentIdentity_def Let_def)
  show "SB_SerialNumber (finish_document E d) = SB_SerialNumber (mintDocumentIdentity E d)"
    "SB_Namespace (finish_document E d) = SB_Namespace (mintDocumentIdentity E d)"
    "SB_Created (finish_document E d) = Some (case SB_Created d of None \<Rightarrow> sbom_now E | Some t \<Rightarrow> t)"
    "SB_Name (finish_document E d) = (if SB_Name d = [] then defaultDocumentName else SB_Name d)"
    using m by (auto simp: finish_document_def Let_def split: option.split)
qed

definition uuid_links :: "sbom_library \<Rightarrow> bool" where
  "uuid_links E \<longleftrightarrow> (\<forall>s t. NewBOMLink E s = Some t \<longrightarrow> t = s \<and> HasPrefix s ''urn:uuid:'')"

lemma serialUUID_link:
  assumes "uuid_links E" "serialUUID E s \<noteq> []"
  shows "TrimSpace s = ''urn:uuid:'' @ serialUUID E s"
proof -
  from assms(2) obtain t where t: "NewBOMLink E (TrimSpace s) = Some t" by (auto simp: serialUUID_def split: option.splits)
  then have p: "t = TrimSpace s" "HasPrefix (TrimSpace s) ''urn:uuid:''" using assms(1) by (auto simp: uuid_links_def)
  then have "serialUUID E s = drop (length ''urn:uuid:'') (TrimSpace s)" using t by (simp add: serialUUID_def TrimPrefix_def)
  moreover have "take (length ''urn:uuid:'') (TrimSpace s) = ''urn:uuid:''" using p(2) by (simp add: HasPrefix_def)
  ultimately show ?thesis by (metis append_take_drop_id)
qed

lemma bomlyNamespaceUUID_link:
  assumes E: "uuid_links E" and u: "bomlyNamespaceUUID E n \<noteq> []"
  shows "TrimSpace n = bomlyNamespacePrefix @ bomlyNamespaceUUID E n"
proof -
  let ?n = "TrimSpace n" and ?t = "drop (length bomlyNamespacePrefix) (TrimSpace n)"
  from u have p: "HasPrefix ?n bomlyNamespacePrefix" and s: "bomlyNamespaceUUID E n = serialUUID E (''urn:uuid:'' @ ?t)"
    by (auto simp: bomlyNamespaceUUID_def Let_def split: if_splits)
  have n: "?n = bomlyNamespacePrefix @ ?t" using p by (metis HasPrefix_def append_take_drop_id)
  have "TrimSpace (''urn:uuid:'' @ ?t) = ''urn:uuid:'' @ ?t"
  proof (rule TrimSpace_ends)
    have c: "chunks (''urn:uuid:'' @ ?t) = map (\<lambda>c. [c]) ''urn:uuid:'' @ chunks ?t"
      by (rule chunks_ascii_append) code_simp
    have c2: "chunks ?n = map (\<lambda>c. [c]) bomlyNamespacePrefix @ chunks ?t"
      by (subst n, rule chunks_ascii_append) code_simp
    have l: "\<not> IsSpace (last (chunks ?n))" using trimmed_ends(2) [of ?n] n by (metis TrimSpace_idem append_is_Nil_conv list.distinct(1))
    show "chunks (''urn:uuid:'' @ ?t) \<noteq> []" by simp
    show "\<not> IsSpace (hd (chunks (''urn:uuid:'' @ ?t)))" unfolding c by simp code_simp
    show "\<not> IsSpace (last (chunks (''urn:uuid:'' @ ?t)))"
    proof (cases "chunks ?t = []")
      case True then show ?thesis unfolding c by simp code_simp
    next
      case False
      then show ?thesis using l unfolding c c2 by simp
    qed
  qed
  then have "''urn:uuid:'' @ ?t = ''urn:uuid:'' @ serialUUID E (''urn:uuid:'' @ ?t)"
    using serialUUID_link [OF E, of "''urn:uuid:'' @ ?t"] u s by simp
  then have "?t = bomlyNamespaceUUID E n" using s by simp
  then show ?thesis using n by simp
qed

definition minted_uuid :: "sbom_library \<Rightarrow> sbom_document \<Rightarrow> string" where
  "minted_uuid E d = (if documentUUID E d = [] then newUUIDv4 E else documentUUID E d)"

lemma mint_identity:
  "SB_SerialNumber (mintDocumentIdentity E d) = (if SB_SerialNumber d = [] then ''urn:uuid:'' @ minted_uuid E d else SB_SerialNumber d)"
  "SB_Namespace (mintDocumentIdentity E d) = (if SB_Namespace d = [] then bomlyNamespacePrefix @ minted_uuid E d else SB_Namespace d)"
  by (simp_all add: mintDocumentIdentity_def Let_def minted_uuid_def)

lemma mint_shares:
  assumes E: "uuid_links E" and s: "TrimSpace (SB_SerialNumber d) = SB_SerialNumber d"
    and one: "SB_SerialNumber d = [] \<or> SB_Namespace d = []"
  shows "(\<exists>u. SB_SerialNumber (mintDocumentIdentity E d) = ''urn:uuid:'' @ u
        \<and> bomlyNamespacePrefix @ u \<in> {SB_Namespace (mintDocumentIdentity E d), TrimSpace (SB_Namespace (mintDocumentIdentity E d))})
      \<or> SB_SerialNumber d \<noteq> [] \<and> serialUUID E (SB_SerialNumber d) = []
      \<or> SB_Namespace d \<noteq> [] \<and> bomlyNamespaceUUID E (SB_Namespace d) = []"
proof (cases "SB_SerialNumber d = []")
  case True
  then show ?thesis using bomlyNamespaceUUID_link [OF E, of "SB_Namespace d"]
    by (auto simp: mint_identity minted_uuid_def documentUUID_def Let_def)
next
  case False
  then have u: "documentUUID E d = serialUUID E (SB_SerialNumber d)" by (simp add: documentUUID_def Let_def s)
  show ?thesis
  proof (cases "serialUUID E (SB_SerialNumber d) = []")
    case nonempty: False
    have "SB_SerialNumber d = ''urn:uuid:'' @ serialUUID E (SB_SerialNumber d)"
      using serialUUID_link [OF E nonempty] unfolding s .
    then show ?thesis using False one nonempty u
      by (intro disjI1 exI [of _ "serialUUID E (SB_SerialNumber d)"]) (simp add: mint_identity minted_uuid_def)
  qed (use False in simp)
qed

lemma document_of_identity:
  "SB_SerialNumber (document_of opts s) = TrimSpace (SerialNumber opts)" "SB_Namespace (document_of opts s) = DocumentNS opts"
  "SB_Name (document_of opts s) = DocumentName opts" "SB_Created (document_of opts s) = Created opts"
  by (simp_all add: document_of_def Let_def split: prod.split)

text \<open>C14. A document always identifies itself: its serial number, namespace, name and creation time are
  filled, and what the caller pinned is what it carries. Unless the document takes over the identity of
  the one source it restates, a slot the caller left open never names a different document: the serial
  and the namespace carry one UUID, except where the pinned slot is in a form no UUID can be read from.
  A document that restates one source has that source's identity as its namespace.\<close>

theorem FromGraphEntries_identity:
  assumes "sbom_FromGraphEntries L E (Some g) entries opts = Some (Inr d)" and "uuid_links E"
  shows "SB_SerialNumber d \<noteq> [] \<and> SB_Namespace d \<noteq> [] \<and> SB_Name d \<noteq> [] \<and> SB_Created d \<noteq> None
    \<and> (TrimSpace (SerialNumber opts) \<noteq> [] \<longrightarrow> SB_SerialNumber d = TrimSpace (SerialNumber opts))
    \<and> (DocumentNS opts \<noteq> [] \<longrightarrow> SB_Namespace d = DocumentNS opts)
    \<and> (DocumentName opts \<noteq> [] \<longrightarrow> SB_Name d = DocumentName opts)
    \<and> (Created opts \<noteq> None \<longrightarrow> SB_Created d = Created opts)
    \<and> (\<not> adopts opts entries \<and> (TrimSpace (SerialNumber opts) = [] \<or> DocumentNS opts = []) \<longrightarrow>
         (\<exists>u. SB_SerialNumber d = ''urn:uuid:'' @ u \<and> bomlyNamespacePrefix @ u \<in> {SB_Namespace d, TrimSpace (SB_Namespace d)})
         \<or> TrimSpace (SerialNumber opts) \<noteq> [] \<and> serialUUID E (TrimSpace (SerialNumber opts)) = []
         \<or> DocumentNS opts \<noteq> [] \<and> bomlyNamespaceUUID E (DocumentNS opts) = [])
    \<and> (adopts opts entries \<and> DocumentNS opts = [] \<and> DocIdentity (only_source L entries) \<noteq> [] \<longrightarrow>
         SB_Namespace d = DocIdentity (only_source L entries))"
proof -
  from assms(1) obtain s where s: "graph_document L opts g = Some s" unfolding sbom_FromGraphEntries_def by auto
  let ?a = "applySourceAssertions L E (document_of opts s) (sources_of entries) (still_restates opts entries)"
  from assms(1) s have d: "d = finish_document E ?a" by (simp add: sbom_FromGraphEntries_def)
  note id = finish_identity mint_identity
  have slots: "SB_SerialNumber d \<noteq> []" "SB_Namespace d \<noteq> []" "SB_Name d \<noteq> []" "SB_Created d \<noteq> None"
    unfolding d id by simp_all
  have kept: "TrimSpace (SerialNumber opts) \<noteq> [] \<Longrightarrow> SB_SerialNumber d = TrimSpace (SerialNumber opts)"
    "DocumentNS opts \<noteq> [] \<Longrightarrow> SB_Namespace d = DocumentNS opts" "DocumentName opts \<noteq> [] \<Longrightarrow> SB_Name d = DocumentName opts"
    "Created opts \<noteq> None \<Longrightarrow> SB_Created d = Created opts"
    unfolding d id using apply_identity [of "document_of opts s"] by (auto simp: document_of_identity)
  have shared: "(\<exists>u. SB_SerialNumber d = ''urn:uuid:'' @ u \<and> bomlyNamespacePrefix @ u \<in> {SB_Namespace d, TrimSpace (SB_Namespace d)})
      \<or> TrimSpace (SerialNumber opts) \<noteq> [] \<and> serialUUID E (TrimSpace (SerialNumber opts)) = []
      \<or> DocumentNS opts \<noteq> [] \<and> bomlyNamespaceUUID E (DocumentNS opts) = []"
    if "\<not> adopts opts entries" "TrimSpace (SerialNumber opts) = [] \<or> DocumentNS opts = []"
  proof -
    have a: "SB_SerialNumber ?a = TrimSpace (SerialNumber opts)" "SB_Namespace ?a = DocumentNS opts"
      using apply_unadopted that(1) by (simp_all add: adopts_def document_of_identity)
    show ?thesis using mint_shares [OF assms(2), of ?a] that(2) unfolding a d finish_identity by simp
  qed
  have adopted: "SB_Namespace d = DocIdentity (only_source L entries)"
    if "adopts opts entries" "DocumentNS opts = []" "DocIdentity (only_source L entries) \<noteq> []"
    using that apply_adopted [of "sources_of entries" "still_restates opts entries" "document_of opts s"]
    unfolding d id by (simp add: adopts_def only_source_def document_of_identity)
  show ?thesis using slots kept shared adopted by (intro conjI impI) simp_all
qed

theorem FromGraphEntries_identity_witness:
  "\<exists>d u. sbom_FromGraphEntries plain_library plain_sbom_library (Some New) no_entries sample_options = Some (Inr d)
    \<and> SB_Name d = ''demo'' \<and> SB_SerialNumber d = ''urn:uuid:'' @ u"
proof -
  obtain d where d: "sbom_FromGraphEntries plain_library plain_sbom_library (Some New) no_entries sample_options = Some (Inr d)"
    using FromGraphEntries_ok [OF conjunct1 [OF New_abs], where L = plain_library and E = plain_sbom_library and entries = no_entries and opts = sample_options] by (elim exE conjE)
  have u: "uuid_links plain_sbom_library" by (auto simp: uuid_links_def plain_sbom_library_def split: if_splits)
  have n: "\<not> adopts sample_options no_entries" by (simp add: adopts_def sources_of_def map_filter_simps)
  show ?thesis using FromGraphEntries_identity [OF d u] n d
    by (auto simp: sample_options_def)
qed

end
