(* ===== verification/Cdx.thy ===== *)
theory Cdx
  imports SbomBuild
begin

text \<open>
  A component in CycloneDX, both ways (\<open>sbom/cyclonedx.go\<close>, \<open>sbom/cyclonedx_assertions.go\<close>): its
  type, scope and carrier, licenses with their acknowledgement, hashes, end-of-life properties,
  references, parties, and the advisories of a document. The records are the fields of
  cyclonedx-go's structures the code reads or writes; a slice behind a pointer is a list, empty
  when nil, except where the code tells the two apart.
\<close>

section \<open>The structures of the format\<close>

record cdx_hash =
  Hash_Algorithm :: string
  Hash_Value :: string

record cdx_reference =
  ER_Type :: string
  ER_URL :: string
  ER_Comment :: string
  ER_Hashes :: "cdx_hash list"

record cdx_entity =
  OE_Name :: string
  OE_URL :: "string list"

record cdx_contact =
  OC_Name :: string
  OC_Email :: string

record cdx_license =
  CL_ID :: string
  CL_Name :: string
  CL_Acknowledgement :: string

record cdx_license_choice =
  LC_License :: "cdx_license option"
  LC_Expression :: string
  LC_Acknowledgement :: "string option"

record cdx_property =
  Prop_Name :: string
  Prop_Value :: string

record cdx_component =
  BOMRef :: string
  CX_Type :: string
  CX_Name :: string
  CX_Group :: string
  CX_Scope :: string
  CX_Version :: string
  CX_PackageURL :: string
  CX_Copyright :: string
  CX_Licenses :: "cdx_license_choice list"
  CX_CPE :: string
  CX_Hashes :: "cdx_hash list"
  CX_Properties :: "cdx_property list"
  CX_References :: "cdx_reference list"
  CX_Supplier :: "cdx_entity option"
  CX_Manufacturer :: "cdx_entity option"
  CX_Publisher :: string
  CX_Author :: string
  CX_Authors :: "cdx_contact list"
  CX_Description :: string

definition cdx_component_zero :: cdx_component where
  "cdx_component_zero =
     \<lparr>BOMRef = [], CX_Type = [], CX_Name = [], CX_Group = [], CX_Scope = [], CX_Version = [], CX_PackageURL = [],
      CX_Copyright = [], CX_Licenses = [], CX_CPE = [], CX_Hashes = [], CX_Properties = [], CX_References = [],
      CX_Supplier = None, CX_Manufacturer = None, CX_Publisher = [], CX_Author = [], CX_Authors = [], CX_Description = []\<rparr>"

record cdx_analysis =
  CA_State :: string
  CA_Justification :: string
  CA_Response :: "string list"
  CA_Detail :: string
  CA_FirstIssued :: string
  CA_LastUpdated :: string

record cdx_rating =
  VR_Source :: "string option"
  VR_Score :: "float64 option"
  VR_Severity :: string
  VR_Method :: string
  VR_Vector :: string

record cdx_vulnerability =
  CV_ID :: string
  CV_Source :: "string option"
  CV_Ratings :: "cdx_rating list"
  CV_CWEs :: "int list"
  CV_Description :: string
  CV_Recommendation :: string
  CV_Advisories :: "string list"
  CV_Analysis :: "cdx_analysis option"
  CV_Affects :: "string list"

text \<open>The specification versions, in their order; zero is a document that names none.\<close>

type_synonym spec_version = nat
abbreviation SpecVersion1_4 :: spec_version where "SpecVersion1_4 \<equiv> 5"
abbreviation SpecVersion1_5 :: spec_version where "SpecVersion1_5 \<equiv> 6"
abbreviation SpecVersion1_6 :: spec_version where "SpecVersion1_6 \<equiv> 7"
abbreviation SpecVersion1_7 :: spec_version where "SpecVersion1_7 \<equiv> 8"

section \<open>Vocabularies\<close>

definition componentTypes :: "library \<Rightarrow> string list" where
  "componentTypes L = map (cdx_constant L)
     [''ComponentTypeApplication'', ''ComponentTypeContainer'', ''ComponentTypeCryptographicAsset'', ''ComponentTypeData'',
      ''ComponentTypeDevice'', ''ComponentTypeDeviceDriver'', ''ComponentTypeFile'', ''ComponentTypeFirmware'',
      ''ComponentTypeFramework'', ''ComponentTypeLibrary'', ''ComponentTypeMachineLearningModel'', ''ComponentTypeOS'',
      ''ComponentTypePlatform'']"

definition cycloneDXComponentType :: "library \<Rightarrow> string \<Rightarrow> string" where
  "cycloneDXComponentType L v =
     (let t = ToLower (TrimSpace v) in if t \<in> set (componentTypes L) then t else cdx_constant L ''ComponentTypeLibrary'')"

definition lifecyclePhases :: "library \<Rightarrow> string list" where
  "lifecyclePhases L = map (cdx_constant L)
     [''LifecyclePhaseDesign'', ''LifecyclePhasePreBuild'', ''LifecyclePhaseBuild'', ''LifecyclePhasePostBuild'',
      ''LifecyclePhaseOperations'', ''LifecyclePhaseDiscovery'', ''LifecyclePhaseDecommission'']"

definition cycloneDXLifecyclePhase :: "library \<Rightarrow> string \<Rightarrow> string" where
  "cycloneDXLifecyclePhase L v = (let p = ToLower (TrimSpace v) in if p \<in> set (lifecyclePhases L) then p else [])"

definition compositionAggregates :: "library \<Rightarrow> string list" where
  "compositionAggregates L = map (cdx_constant L)
     [''CompositionAggregateComplete'', ''CompositionAggregateIncomplete'', ''CompositionAggregateIncompleteFirstPartyOnly'',
      ''CompositionAggregateIncompleteFirstPartyOpenSourceOnly'', ''CompositionAggregateIncompleteThirdPartyOnly'',
      ''CompositionAggregateIncompleteThirdPartyOpenSourceOnly'', ''CompositionAggregateNotSpecified'', ''CompositionAggregateUnknown'']"

definition cycloneDXAggregate :: "library \<Rightarrow> string \<Rightarrow> string" where
  "cycloneDXAggregate L v = (let a = ToLower (TrimSpace v) in if a \<in> set (compositionAggregates L) then a else [])"

definition cycloneDXSeverity :: "library \<Rightarrow> string \<Rightarrow> string" where
  "cycloneDXSeverity L severity =
     (let s = ToLower (TrimSpace severity)
      in cdx_constant L
        (if s = ''critical'' then ''SeverityCritical'' else if s = ''high'' then ''SeverityHigh''
         else if s = ''medium'' \<or> s = ''moderate'' then ''SeverityMedium'' else if s = ''low'' then ''SeverityLow''
         else if s = ''none'' then ''SeverityNone'' else if s = ''info'' \<or> s = ''informational'' then ''SeverityInfo''
         else ''SeverityUnknown''))"

definition firstNonEmpty :: "string list \<Rightarrow> string" where
  "firstNonEmpty vs = (case find (\<lambda>v. TrimSpace v \<noteq> []) vs of None \<Rightarrow> [] | Some v \<Rightarrow> TrimSpace v)"

section \<open>Hashes and references\<close>

definition cycloneDXHashAlgorithm :: "library \<Rightarrow> string \<Rightarrow> string" where
  "cycloneDXHashAlgorithm L algorithm =
     (case ParseDigestAlgorithm L algorithm of Inl _ \<Rightarrow> [] | Inr p \<Rightarrow> DigestAlgorithm_CycloneDXName L p)"

definition cycloneDXHashes :: "library \<Rightarrow> sbom_digest list \<Rightarrow> cdx_hash list" where
  "cycloneDXHashes L ds =
     List.map_filter (\<lambda>d. (case publishableDigest L d of
         None \<Rightarrow> None
       | Some (a, v) \<Rightarrow> if cycloneDXHashAlgorithm L a = [] then None
                        else Some \<lparr>Hash_Algorithm = cycloneDXHashAlgorithm L a, Hash_Value = v\<rparr>)) ds"

definition cycloneDXEmittedHashes :: "library \<Rightarrow> digest list \<Rightarrow> cdx_hash list" where
  "cycloneDXEmittedHashes L ds =
     List.map_filter (\<lambda>d. (case Digest_Normalized L d of
         None \<Rightarrow> None
       | Some n \<Rightarrow> if cycloneDXHashAlgorithm L (Algorithm n) = [] then None
                   else Some \<lparr>Hash_Algorithm = cycloneDXHashAlgorithm L (Algorithm n), Hash_Value = Value n\<rparr>)) ds"

definition cycloneDXComponentDigests :: "cdx_hash list \<Rightarrow> sbom_digest list" where
  "cycloneDXComponentDigests hs = map (\<lambda>h. \<lparr>SD_Algorithm = Hash_Algorithm h, SD_Value = Hash_Value h\<rparr>) hs"

definition cycloneDXReferenceHashes :: "cdx_hash list \<Rightarrow> digest list" where
  "cycloneDXReferenceHashes hs = map (\<lambda>h. \<lparr>Algorithm = Hash_Algorithm h, Value = Hash_Value h, Subject = []\<rparr>) hs"

definition plain_reference :: "string \<Rightarrow> string \<Rightarrow> cdx_reference" where
  "plain_reference t u = \<lparr>ER_Type = t, ER_URL = u, ER_Comment = [], ER_Hashes = []\<rparr>"

definition add_reference_once :: "cdx_reference list \<Rightarrow> cdx_reference \<Rightarrow> cdx_reference list" where
  "add_reference_once refs r = (if TrimSpace (ER_URL r) = [] \<or> r \<in> set refs then refs else refs @ [r])"

definition cycloneDXComponentReferences :: "library \<Rightarrow> component \<Rightarrow> cdx_reference list" where
  "cycloneDXComponentReferences L c =
     (let origins = (if SC_Origins c = []
                     then [\<lparr>CO_ArtifactURL = SC_ArtifactURL c, CO_Repository = SC_VCSURL c, CO_Revision = SC_VCSRevision c\<rparr>] else SC_Origins c);
          refs = foldl (\<lambda>refs o'. add_reference_once
                   (add_reference_once refs (plain_reference (cdx_constant L ''ERTypeDistribution'') (TrimSpace (CO_ArtifactURL o'))))
                   (plain_reference (cdx_constant L ''ERTypeVCS'') (pinnedVCSReference (CO_Repository o') (CO_Revision o')))) [] origins;
          repositories = filter (\<lambda>r. r \<noteq> []) (map (\<lambda>o'. TrimSpace (CO_Repository o')) origins);
          repository = TrimSpace (SC_VCSURL c)
      in if repository \<noteq> [] \<and> repository \<notin> set repositories
         then add_reference_once refs (plain_reference (cdx_constant L ''ERTypeVCS'') repository) else refs)"

definition cycloneDXEmittedReferences :: "library \<Rightarrow> external_reference list \<Rightarrow> cdx_reference list" where
  "cycloneDXEmittedReferences L refs =
     List.map_filter (\<lambda>r. map_option (\<lambda>n. \<lparr>ER_Type = external_reference.RefType n, ER_URL = Locator n, ER_Comment = Comment n,
        ER_Hashes = cycloneDXEmittedHashes L (Hashes n)\<rparr>) (ExternalReference_Normalized L r)) refs"

definition isOriginDerivedReferenceType :: "library \<Rightarrow> string \<Rightarrow> bool" where
  "isOriginDerivedReferenceType L t \<longleftrightarrow>
     ToLower (TrimSpace t) = cdx_constant L ''ERTypeDistribution'' \<or> ToLower (TrimSpace t) = cdx_constant L ''ERTypeVCS''"

definition cycloneDXIngestedReferences :: "library \<Rightarrow> cdx_reference list \<Rightarrow> external_reference list" where
  "cycloneDXIngestedReferences L refs =
     MergeExternalReferences L [] (map (\<lambda>r. \<lparr>Category = [], external_reference.RefType = ER_Type r, Locator = ER_URL r, Comment = ER_Comment r,
        Hashes = cycloneDXReferenceHashes (ER_Hashes r)\<rparr>) (filter (\<lambda>r. \<not> isOriginDerivedReferenceType L (ER_Type r)) refs))"

definition cycloneDXIngestedHomepage :: "library \<Rightarrow> external_reference list \<Rightarrow> string" where
  "cycloneDXIngestedHomepage L refs =
     (case find (\<lambda>r. EqualFold_ascii (external_reference.RefType r) (cdx_constant L ''ERTypeWebsite'') \<and> NormalizeHomepage L (Locator r) \<noteq> []) refs of
        None \<Rightarrow> [] | Some r \<Rightarrow> NormalizeHomepage L (Locator r))"

definition cycloneDXHomepageReference :: "library \<Rightarrow> component \<Rightarrow> external_reference option" where
  "cycloneDXHomepageReference L c =
     (let homepage = NormalizeHomepage L (SC_Homepage c)
      in if homepage = [] then None
         else if list_ex (\<lambda>r. EqualFold_ascii (external_reference.RefType r) (cdx_constant L ''ERTypeWebsite'') \<and> Locator r = homepage) (SC_References c) then None
         else ExternalReference_Normalized L (ExternalReference_zero\<lparr>external_reference.RefType := cdx_constant L ''ERTypeWebsite'', Locator := homepage\<rparr>))"

definition cycloneDXComponentAssertedReferences :: "library \<Rightarrow> component \<Rightarrow> external_reference list" where
  "cycloneDXComponentAssertedReferences L c =
     (case cycloneDXHomepageReference L c of
        None \<Rightarrow> SC_References c | Some h \<Rightarrow> MergeExternalReferences L (SC_References c) [h])"

section \<open>Licenses\<close>

definition cycloneDXAcknowledgement :: "library \<Rightarrow> string \<Rightarrow> string" where
  "cycloneDXAcknowledgement L licenseType =
     (case ParseLicenseType licenseType of
        Inl _ \<Rightarrow> []
      | Inr t \<Rightarrow> if t = LicenseTypeDeclared then cdx_constant L ''LicenseAcknowledgementDeclared''
                 else if t = LicenseTypeConcluded then cdx_constant L ''LicenseAcknowledgementConcluded'' else [])"

definition licenseTypeFromCycloneDX :: "library \<Rightarrow> string \<Rightarrow> string" where
  "licenseTypeFromCycloneDX L a =
     (if a = cdx_constant L ''LicenseAcknowledgementDeclared'' then LicenseTypeDeclared
      else if a = cdx_constant L ''LicenseAcknowledgementConcluded'' then LicenseTypeConcluded else [])"

definition license_object :: "string \<Rightarrow> string \<Rightarrow> cdx_license_choice" where
  "license_object i n = \<lparr>LC_License = Some \<lparr>CL_ID = i, CL_Name = n, CL_Acknowledgement = []\<rparr>, LC_Expression = [], LC_Acknowledgement = None\<rparr>"

definition license_expression :: "string \<Rightarrow> cdx_license_choice" where
  "license_expression e = \<lparr>LC_License = None, LC_Expression = e, LC_Acknowledgement = None\<rparr>"

definition hasCompoundExpression :: "library \<Rightarrow> string list \<Rightarrow> bool" where
  "hasCompoundExpression L vs = list_ex (\<lambda>v. Identifier L v = None \<and> spdx_Valid L v) vs"

definition license_entry :: "library \<Rightarrow> string \<Rightarrow> cdx_license_choice" where
  "license_entry L v = (case Identifier L v of Some i \<Rightarrow> license_object i [] | None \<Rightarrow> license_object [] v)"

definition cycloneDXLicenseChoices :: "library \<Rightarrow> string list \<Rightarrow> cdx_license_choice list" where
  "cycloneDXLicenseChoices L vs =
     (case vs of
        [] \<Rightarrow> []
      | [v] \<Rightarrow> (if Identifier L v = None \<and> spdx_Valid L v then [license_expression v] else [license_entry L v])
      | _ \<Rightarrow> if hasCompoundExpression L vs \<and> allValidSPDXExpressions L vs then [license_expression (Compose L vs)]
             else map (license_entry L) vs)"

text \<open>The claims by the acknowledgement their type maps to, in the order the kinds first appear.\<close>

definition licenseGroupsByType :: "library \<Rightarrow> sbom_license list \<Rightarrow> (string \<times> sbom_license list) list" where
  "licenseGroupsByType L ls =
     (let ls = filter (\<lambda>l. licenseExpressionValue l \<noteq> []) ls; kind = (\<lambda>l. cycloneDXAcknowledgement L (SL_Type l));
          kinds = foldl (\<lambda>ks l. if kind l \<in> set ks then ks else ks @ [kind l]) [] ls
      in map (\<lambda>k. (k, filter (\<lambda>l. kind l = k) ls)) kinds)"

definition setCycloneDXAcknowledgement :: "string \<Rightarrow> cdx_license_choice \<Rightarrow> cdx_license_choice" where
  "setCycloneDXAcknowledgement a choice =
     (case LC_License choice of
        Some l \<Rightarrow> choice\<lparr>LC_License := Some (l\<lparr>CL_Acknowledgement := a\<rparr>)\<rparr>
      | None \<Rightarrow> if LC_Expression choice \<noteq> [] then choice\<lparr>LC_Acknowledgement := Some a\<rparr> else choice)"

definition singleShapeLicenseChoices :: "cdx_license_choice list \<Rightarrow> bool" where
  "singleShapeLicenseChoices cs \<longleftrightarrow> length cs = 1 \<or> list_all (\<lambda>c. LC_License c \<noteq> None) cs"

definition typed_license_choices :: "library \<Rightarrow> string \<times> sbom_license list \<Rightarrow> cdx_license_choice list" where
  "typed_license_choices L g =
     (let choices = cycloneDXLicenseChoices L (componentLicenseValues (snd g))
      in if fst g \<noteq> [] then map (setCycloneDXAcknowledgement (fst g)) choices else choices)"

definition cycloneDXLicenses :: "library \<Rightarrow> spec_version \<Rightarrow> sbom_license list \<Rightarrow> cdx_license_choice list" where
  "cycloneDXLicenses L v ls =
     (let groups = licenseGroupsByType L ls; untyped = cycloneDXLicenseChoices L (componentLicenseValues ls)
      in if groups = [] then []
         else if v < SpecVersion1_6 \<or> (length groups = 1 \<and> fst (hd groups) = []) then untyped
         else (let out = concat (map (typed_license_choices L) groups)
               in if v < SpecVersion1_7 \<and> \<not> singleShapeLicenseChoices out then untyped else out))"

definition parse_license_choice :: "library \<Rightarrow> bool \<Rightarrow> cdx_license_choice \<Rightarrow> sbom_license option" where
  "parse_license_choice L acknowledged choice =
     (if LC_Expression choice \<noteq> []
      then Some \<lparr>SL_Value = LC_Expression choice, SL_Expression = LC_Expression choice,
                 SL_Type = (if acknowledged then case_option [] (licenseTypeFromCycloneDX L) (LC_Acknowledgement choice) else [])\<rparr>
      else (case LC_License choice of
              None \<Rightarrow> None
            | Some l \<Rightarrow> Some \<lparr>SL_Value = (if CL_ID l = [] then CL_Name l else CL_ID l), SL_Expression = CL_ID l,
                              SL_Type = (if acknowledged then licenseTypeFromCycloneDX L (CL_Acknowledgement l) else [])\<rparr>))"

definition parseCycloneDXLicenses :: "library \<Rightarrow> spec_version \<Rightarrow> cdx_license_choice list \<Rightarrow> sbom_license list" where
  "parseCycloneDXLicenses L v cs = List.map_filter (parse_license_choice L (v \<ge> SpecVersion1_6)) cs"

section \<open>Properties\<close>

abbreviation cycloneDXEOLProperty :: string where "cycloneDXEOLProperty \<equiv> ''bomly:eol''"
abbreviation cycloneDXEOLDateProperty :: string where "cycloneDXEOLDateProperty \<equiv> ''bomly:eol_date''"
abbreviation cycloneDXEOLCycleProperty :: string where "cycloneDXEOLCycleProperty \<equiv> ''bomly:eol_cycle''"
abbreviation CycloneDXScopeProperty :: string where "CycloneDXScopeProperty \<equiv> ''bomly:scopes''"

definition FormatBool :: "bool \<Rightarrow> string" where
  "FormatBool b = (if b then ''true'' else ''false'')"

definition ParseBool :: "string \<Rightarrow> bool option" where
  "ParseBool s =
     (if s \<in> {''1'', ''t'', ''T'', ''true'', ''TRUE'', ''True''} then Some True
      else if s \<in> {''0'', ''f'', ''F'', ''false'', ''FALSE'', ''False''} then Some False else None)"

definition cycloneDXEOLProperties :: "sbom_eol option \<Rightarrow> cdx_property list" where
  "cycloneDXEOLProperties eol =
     (case eol of
        None \<Rightarrow> []
      | Some e \<Rightarrow> [\<lparr>Prop_Name = cycloneDXEOLProperty, Prop_Value = FormatBool (SE_EOL e)\<rparr>]
          @ (if SE_Date e \<noteq> [] then [\<lparr>Prop_Name = cycloneDXEOLDateProperty, Prop_Value = SE_Date e\<rparr>] else [])
          @ (if SE_Cycle e \<noteq> [] then [\<lparr>Prop_Name = cycloneDXEOLCycleProperty, Prop_Value = SE_Cycle e\<rparr>] else []))"

text \<open>The loop of \<open>cycloneDXIngestedEOL\<close>, with its \<open>stated\<close> flag; \<open>None\<close> is a flag that does not parse.\<close>

fun eol_loop :: "sbom_eol \<times> bool \<Rightarrow> cdx_property list \<Rightarrow> (sbom_eol \<times> bool) option" where
  "eol_loop s [] = Some s"
| "eol_loop (e, stated) (p # ps) =
     (if Prop_Name p = cycloneDXEOLProperty
      then (case ParseBool (TrimSpace (Prop_Value p)) of None \<Rightarrow> None | Some b \<Rightarrow> eol_loop (e\<lparr>SE_EOL := b\<rparr>, True) ps)
      else if Prop_Name p = cycloneDXEOLDateProperty then eol_loop (e\<lparr>SE_Date := TrimSpace (Prop_Value p)\<rparr>, stated) ps
      else if Prop_Name p = cycloneDXEOLCycleProperty then eol_loop (e\<lparr>SE_Cycle := TrimSpace (Prop_Value p)\<rparr>, stated) ps
      else eol_loop (e, stated) ps)"

definition cycloneDXIngestedEOL :: "cdx_property list \<Rightarrow> sbom_eol option" where
  "cycloneDXIngestedEOL ps =
     (case eol_loop (\<lparr>SE_EOL = False, SE_Date = [], SE_Cycle = [], SE_Latest = []\<rparr>, False) ps of
        None \<Rightarrow> None | Some (e, stated) \<Rightarrow> if stated then Some e else None)"

definition cycloneDXScopeProperty :: "scope list \<Rightarrow> cdx_property list" where
  "cycloneDXScopeProperty scopes =
     (if EncodeScopeSet scopes = [] then [] else [\<lparr>Prop_Name = CycloneDXScopeProperty, Prop_Value = EncodeScopeSet scopes\<rparr>])"

definition cycloneDXCarriedScopes :: "cdx_property list \<Rightarrow> string" where
  "cycloneDXCarriedScopes ps = (case find (\<lambda>p. Prop_Name p = CycloneDXScopeProperty) ps of None \<Rightarrow> [] | Some p \<Rightarrow> Prop_Value p)"

section \<open>Parties\<close>

definition entity_contact :: "library \<Rightarrow> cdx_entity \<Rightarrow> contact option" where
  "entity_contact L e =
     Contact_Normalized L \<lparr>ContactKind = ContactKindOrganization, ContactName = OE_Name e,
       ContactURL = (if OE_URL e = [] then [] else hd (OE_URL e))\<rparr>"

definition cycloneDXSupplier :: "library \<Rightarrow> cdx_entity option \<Rightarrow> contact option" where
  "cycloneDXSupplier L e = Option.bind e (entity_contact L)"

fun first_contact :: "library \<Rightarrow> (contact_kind \<times> string) list \<Rightarrow> contact option" where
  "first_contact L [] = None"
| "first_contact L ((k, n) # rest) =
     (if TrimSpace n = [] then first_contact L rest
      else (case Contact_Normalized L \<lparr>ContactKind = k, ContactName = n, ContactURL = []\<rparr> of
              None \<Rightarrow> first_contact L rest | Some c \<Rightarrow> Some c))"

definition cycloneDXOriginator :: "library \<Rightarrow> cdx_component \<Rightarrow> contact option" where
  "cycloneDXOriginator L c =
     first_contact L ([(ContactKindOrganization, CX_Publisher c), (ContactKindPerson, CX_Author c)]
       @ map (\<lambda>a. (ContactKindPerson, OC_Name a)) (CX_Authors c))"

definition cycloneDXEntityFor :: "library \<Rightarrow> contact option \<Rightarrow> cdx_entity option" where
  "cycloneDXEntityFor L c =
     (case c of
        None \<Rightarrow> None
      | Some c \<Rightarrow>
          (case Contact_Normalized L c of
             None \<Rightarrow> None
           | Some n \<Rightarrow>
               if TrimSpace (ContactName n) = [] then None
               else Some \<lparr>OE_Name = ContactName n,
                          OE_URL = (if TrimSpace (ContactURL n) = [] then [] else [TrimSpace (ContactURL n)])\<rparr>))"

definition cycloneDXApplyOriginator :: "library \<Rightarrow> contact option \<Rightarrow> cdx_component \<Rightarrow> cdx_component" where
  "cycloneDXApplyOriginator L originator c =
     (case cycloneDXEntityFor L originator of
        None \<Rightarrow> c
      | Some e \<Rightarrow>
          if ContactKind (the originator) = ContactKindPerson
          then c\<lparr>CX_Author := OE_Name e, CX_Authors := [\<lparr>OC_Name = OE_Name e, OC_Email = []\<rparr>]\<rparr>
          else c\<lparr>CX_Publisher := OE_Name e\<rparr>)"

section \<open>A component\<close>

definition cycloneDXComponent :: "library \<Rightarrow> spec_version \<Rightarrow> component \<Rightarrow> cdx_component" where
  "cycloneDXComponent L v item =
     (let c = cdx_component_zero\<lparr>BOMRef := SC_ID item, CX_Type := cycloneDXComponentType L (SC_Type item), CX_Name := NameOrID item,
                CX_Group := SC_Org item, CX_Scope := CycloneDXScopeForExport (SC_Scopes item) (SC_SourceScope item),
                CX_Version := SC_Version item, CX_PackageURL := SC_PURL item, CX_Copyright := NormalizeCopyright (SC_Copyright item),
                CX_Licenses := cycloneDXLicenses L v (SC_Licenses item), CX_CPE := (if SC_CPEs item = [] then [] else hd (SC_CPEs item)),
                CX_Hashes := cycloneDXHashes L (SC_Digests item),
                CX_Properties := sort_key Prop_Name (cycloneDXEOLProperties (SC_EOL item) @ cycloneDXScopeProperty (SC_Scopes item)),
                CX_References := cycloneDXComponentReferences L item @ cycloneDXEmittedReferences L (cycloneDXComponentAssertedReferences L item),
                CX_Supplier := cycloneDXEntityFor L (SC_Supplier item)\<rparr>
      in (cycloneDXApplyOriginator L (SC_Originator item) c)\<lparr>CX_Description := NormalizeDescription (SC_Description item)\<rparr>)"

definition applyCycloneDXAssertions :: "library \<Rightarrow> cdx_component \<Rightarrow> component \<Rightarrow> component" where
  "applyCycloneDXAssertions L item c =
     (let refs = cycloneDXIngestedReferences L (CX_References item)
      in c\<lparr>SC_EOL := cycloneDXIngestedEOL (CX_Properties item), SC_Supplier := cycloneDXSupplier L (CX_Supplier item),
           SC_Originator := cycloneDXOriginator L item, SC_Description := NormalizeDescription (CX_Description item),
           SC_References := refs, SC_Homepage := cycloneDXIngestedHomepage L refs,
           SC_Digests := (if CX_Hashes item = [] then SC_Digests c else cycloneDXComponentDigests (CX_Hashes item)),
           SC_CPEs := (if TrimSpace (CX_CPE item) = [] then SC_CPEs c else SC_CPEs c @ [TrimSpace (CX_CPE item)])\<rparr>)"

definition decodeCycloneDXComponent :: "library \<Rightarrow> spec_version \<Rightarrow> string \<Rightarrow> cdx_component \<Rightarrow> component" where
  "decodeCycloneDXComponent L v i item =
     applyCycloneDXAssertions L item
       (Component_zero\<lparr>SC_ID := i, SC_Name := CX_Name item, SC_Org := CX_Group item, SC_Type := CX_Type item,
          SC_Scopes := (case ScopesFromCycloneDXComponent (CX_Scope item) (cycloneDXCarriedScopes (CX_Properties item)) of None \<Rightarrow> [] | Some s \<Rightarrow> s),
          SC_SourceScope := NormalizeSourceScope (CX_Scope item), SC_Version := CX_Version item, SC_PURL := CX_PackageURL item,
          SC_Copyright := NormalizeCopyright (CX_Copyright item), SC_Licenses := parseCycloneDXLicenses L v (CX_Licenses item)\<rparr>)"

section \<open>Advisories\<close>

definition cycloneDXAnalysis :: "library \<Rightarrow> vulnerability_analysis option \<Rightarrow> cdx_analysis option" where
  "cycloneDXAnalysis L a =
     (case a of
        None \<Rightarrow> None
      | Some a \<Rightarrow>
          (let n = fst (Analysis_Normalized L a)
           in if \<not> snd (Analysis_Normalized L a) then None
              else Some \<lparr>CA_State = AnState n, CA_Justification = AnJustification n, CA_Response = AnResponse n,
                         CA_Detail = AnDetail n, CA_FirstIssued = FirstIssued n, CA_LastUpdated = LastUpdated n\<rparr>))"

definition decodeCycloneDXAnalysis :: "library \<Rightarrow> cdx_analysis option \<Rightarrow> vulnerability_analysis option" where
  "decodeCycloneDXAnalysis L a =
     (case a of
        None \<Rightarrow> None
      | Some a \<Rightarrow>
          (let (n, ok) = Analysis_Normalized L \<lparr>AnState = CA_State a, AnJustification = CA_Justification a, AnResponse = CA_Response a,
                            AnDetail = CA_Detail a, FirstIssued = CA_FirstIssued a, LastUpdated = CA_LastUpdated a\<rparr>
           in if ok then Some n else None))"

definition cycloneDXVulnerability :: "library \<Rightarrow> sbom_vulnerability \<Rightarrow> string list \<Rightarrow> cdx_vulnerability" where
  "cycloneDXVulnerability L v refs =
     (let source = (if SV_Source v = [] then None else Some (SV_Source v))
      in \<lparr>CV_ID = SV_ID v, CV_Source = source,
          CV_Ratings = (if SV_Score v \<noteq> None \<or> SV_Severity v \<noteq> [] \<or> SV_Vector v \<noteq> []
             then [\<lparr>VR_Source = source, VR_Score = SV_Score v, VR_Severity = cycloneDXSeverity L (SV_Severity v),
                    VR_Method = SV_Method v, VR_Vector = SV_Vector v\<rparr>] else []),
          CV_CWEs = SV_CWEs v, CV_Description = SV_Description v, CV_Recommendation = SV_Recommendation v,
          CV_Advisories = List.map_filter (\<lambda>u. NormalizeURL L u URLFormReference) (SV_Advisories v),
          CV_Analysis = cycloneDXAnalysis L (SV_Analysis v), CV_Affects = sort refs\<rparr>)"

definition decodeCycloneDXVulnerability :: "library \<Rightarrow> cdx_vulnerability \<Rightarrow> sbom_vulnerability" where
  "decodeCycloneDXVulnerability L s =
     (let rating = (case CV_Ratings s of [] \<Rightarrow> None | r # _ \<Rightarrow> Some r); source = (case CV_Source s of None \<Rightarrow> [] | Some n \<Rightarrow> n)
      in \<lparr>SV_ID = CV_ID s,
          SV_Source = (if source = [] then case_option [] (\<lambda>r. case_option [] id (VR_Source r)) rating else source),
          SV_Severity = case_option [] VR_Severity rating, SV_Score = Option.bind rating VR_Score,
          SV_Vector = case_option [] VR_Vector rating, SV_Method = case_option [] VR_Method rating,
          SV_CWEs = CV_CWEs s, SV_FixedVersions = [], SV_Advisories = filter (\<lambda>u. u \<noteq> []) (map TrimSpace (CV_Advisories s)),
          SV_Description = CV_Description s, SV_Recommendation = CV_Recommendation s,
          SV_Analysis = decodeCycloneDXAnalysis L (CV_Analysis s)\<rparr>)"

text \<open>\<open>json\<close> is \<^verbatim>\<open>json.Marshal\<close> on an entry, \<open>None\<close> when it cannot be encoded.\<close>

definition vulnerabilityKey :: "library \<Rightarrow> (cdx_vulnerability \<Rightarrow> string option) \<Rightarrow> sbom_vulnerability \<Rightarrow> string" where
  "vulnerabilityKey L json v = (case json (cycloneDXVulnerability L v []) of None \<Rightarrow> SV_ID v | Some k \<Rightarrow> k)"

type_synonym accumulators = "(string \<times> sbom_vulnerability \<times> string list) list"

definition accumulate :: "library \<Rightarrow> (cdx_vulnerability \<Rightarrow> string option) \<Rightarrow> accumulators \<Rightarrow> string \<times> sbom_vulnerability \<Rightarrow> accumulators" where
  "accumulate L json acc cv =
     (case cv of (i, v) \<Rightarrow>
       if TrimSpace (SV_ID v) = [] then acc
       else if vulnerabilityKey L json v \<in> set (map fst acc)
       then map (\<lambda>(k, w, refs). (k, w, if k = vulnerabilityKey L json v then refs @ [i] else refs)) acc
       else acc @ [(vulnerabilityKey L json v, v, [i])])"

definition cycloneDXVulnerabilities :: "library \<Rightarrow> (cdx_vulnerability \<Rightarrow> string option) \<Rightarrow> component list \<Rightarrow> cdx_vulnerability list" where
  "cycloneDXVulnerabilities L json cs =
     map (\<lambda>(k, v, refs). cycloneDXVulnerability L v refs)
       (foldl (accumulate L json) [] (concat (map (\<lambda>c. map (Pair (SC_ID c)) (SC_Vulnerabilities c)) cs)))"

definition attach_vulnerability :: "sbom_vulnerability \<Rightarrow> (string, component) gomap \<Rightarrow> string \<Rightarrow> (string, component) gomap" where
  "attach_vulnerability v m ref =
     (case mget m ref of None \<Rightarrow> m | Some c \<Rightarrow> mput ref (c\<lparr>SC_Vulnerabilities := SC_Vulnerabilities c @ [v]\<rparr>) m)"

definition distribute_vulnerability :: "library \<Rightarrow> (string, component) gomap \<Rightarrow> cdx_vulnerability \<Rightarrow> (string, component) gomap" where
  "distribute_vulnerability L m s =
     (if TrimSpace (CV_ID s) = [] then m
      else foldl (attach_vulnerability (decodeCycloneDXVulnerability L s)) m (dedup_gated Some id [] (map TrimSpace (CV_Affects s))))"

definition distributeCycloneDXVulnerabilities :: "library \<Rightarrow> cdx_vulnerability list \<Rightarrow> (string, component) gomap \<Rightarrow> (string, component) gomap" where
  "distributeCycloneDXVulnerabilities L vs m = foldl (distribute_vulnerability L) m vs"

section \<open>Licenses keep their shape\<close>

lemma setAck_license [simp]: "(LC_License (setCycloneDXAcknowledgement a c) = None) = (LC_License c = None)"
  by (auto simp: setCycloneDXAcknowledgement_def split: option.split)

text \<open>What one choice may be: an object with a listed identifier or a name, or an expression.\<close>

definition choice_ok :: "library \<Rightarrow> cdx_license_choice \<Rightarrow> bool" where
  "choice_ok L c \<longleftrightarrow>
     (case LC_License c of
        Some l \<Rightarrow> LC_Expression c = [] \<and> LC_Acknowledgement c = None
                   \<and> (CL_Name l = [] \<and> (\<exists>v. Identifier L v = Some (CL_ID l)) \<or> CL_ID l = [] \<and> Identifier L (CL_Name l) = None)
      | None \<Rightarrow> True)"

definition unacknowledged :: "cdx_license_choice \<Rightarrow> bool" where
  "unacknowledged c \<longleftrightarrow> LC_Acknowledgement c = None \<and> (\<forall>l. LC_License c = Some l \<longrightarrow> CL_Acknowledgement l = [])"

lemma license_entry_ok [simp]: "choice_ok L (license_entry L v)" "unacknowledged (license_entry L v)"
  "LC_License (license_entry L v) \<noteq> None"
  by (auto simp: choice_ok_def unacknowledged_def license_entry_def license_object_def split: option.split)

lemma license_expression_ok [simp]: "choice_ok L (license_expression v)" "unacknowledged (license_expression v)"
  by (auto simp: choice_ok_def unacknowledged_def license_expression_def)

lemma license_choices:
  "set (cycloneDXLicenseChoices L vs) \<subseteq> {c. choice_ok L c \<and> unacknowledged c} \<and> singleShapeLicenseChoices (cycloneDXLicenseChoices L vs)
     \<and> (cycloneDXLicenseChoices L vs = [] \<longleftrightarrow> vs = [])"
proof (cases vs)
  case (Cons v ws)
  then show ?thesis
    by (cases ws) (auto simp: cycloneDXLicenseChoices_def singleShapeLicenseChoices_def list_all_iff simp del: not_None_eq)
qed (simp add: cycloneDXLicenseChoices_def singleShapeLicenseChoices_def)

lemma setAck_ok: "choice_ok L c \<Longrightarrow> choice_ok L (setCycloneDXAcknowledgement a c)"
  by (auto simp: choice_ok_def setCycloneDXAcknowledgement_def split: option.splits)

lemma license_groups_set:
  "set (licenseGroupsByType L ls) =
     (\<lambda>k. (k, filter (\<lambda>l. cycloneDXAcknowledgement L (SL_Type l) = k) (filter (\<lambda>l. licenseExpressionValue l \<noteq> []) ls)))
       ` (\<lambda>l. cycloneDXAcknowledgement L (SL_Type l)) ` set (filter (\<lambda>l. licenseExpressionValue l \<noteq> []) ls)"
proof -
  let ?ls = "filter (\<lambda>l. licenseExpressionValue l \<noteq> []) ls" and ?k = "\<lambda>l. cycloneDXAcknowledgement L (SL_Type l)"
  have "set (foldl (\<lambda>ks l. if ?k l \<in> set ks then ks else ks @ [?k l]) acc xs) = set acc \<union> ?k ` set xs" for acc xs
    by (induction xs arbitrary: acc) auto
  from this [of "[]" ?ls] have k: "set (foldl (\<lambda>ks l. if ?k l \<in> set ks then ks else ks @ [?k l]) [] ?ls) = ?k ` set ?ls" by simp
  show ?thesis unfolding licenseGroupsByType_def Let_def set_map k ..
qed

lemma license_groups_empty: "licenseGroupsByType L ls = [] \<longleftrightarrow> componentLicenseValues ls = []"
proof -
  have "licenseGroupsByType L ls = [] \<longleftrightarrow> filter (\<lambda>l. licenseExpressionValue l \<noteq> []) ls = []"
    by (simp only: set_empty [symmetric] license_groups_set image_is_empty)
  then show ?thesis by (auto simp: componentLicenseValues_def filter_empty_conv)
qed

lemma typed_choices: "set (typed_license_choices L g) \<subseteq> {c. choice_ok L c}"
  using license_choices [of L "componentLicenseValues (snd g)"] by (auto simp: typed_license_choices_def Let_def setAck_ok)

text \<open>What states a claim: the object of its identifier, the object of its name, or an expression with
  the claim as one of the operands it joins.\<close>

definition operand :: "string \<Rightarrow> string \<Rightarrow> bool" where
  "operand u e \<longleftrightarrow> (\<exists>xs. e = Join xs '' AND '' \<and> (u \<in> set xs \<or> ''('' @ u @ '')'' \<in> set xs))"

definition states_license :: "library \<Rightarrow> string \<Rightarrow> cdx_license_choice \<Rightarrow> bool" where
  "states_license L u c \<longleftrightarrow>
     (case LC_License c of
        Some l \<Rightarrow> (case Identifier L u of Some i \<Rightarrow> CL_ID l = i \<and> CL_Name l = [] | None \<Rightarrow> CL_ID l = [] \<and> CL_Name l = u)
      | None \<Rightarrow> operand u (LC_Expression c))"

lemma operand_self: "operand u u"
  unfolding operand_def by (rule exI [of _ "[u]"]) simp

lemma operand_Compose:
  assumes "u \<in> set vs" "TrimSpace u = u" "u \<noteq> []"
  shows "operand u (Compose L vs)"
proof -
  have u: "u \<in> set (filter (\<lambda>v. v \<noteq> []) (map TrimSpace vs))" using assms by force
  show ?thesis unfolding operand_def Compose_def Let_def
    by (rule exI, rule conjI [OF refl]) (use u in \<open>force simp del: set_filter\<close>)
qed

lemma states_entry: "states_license L v (license_entry L v)"
  by (simp add: states_license_def license_entry_def license_object_def split: option.split)

lemma states_expression: "operand u e \<Longrightarrow> states_license L u (license_expression e)"
  by (simp add: states_license_def license_expression_def)

lemma setAck_states [simp]: "states_license L u (setCycloneDXAcknowledgement a c) = states_license L u c"
  by (simp add: states_license_def setCycloneDXAcknowledgement_def split: option.split)

abbreviation claim_value :: "string \<Rightarrow> bool" where
  "claim_value u \<equiv> TrimSpace u = u \<and> u \<noteq> []"

lemma choices_state:
  assumes "\<forall>u \<in> set vs. claim_value u"
  shows "u \<in> set vs \<Longrightarrow> \<exists>c \<in> set (cycloneDXLicenseChoices L vs). states_license L u c"
    "c \<in> set (cycloneDXLicenseChoices L vs) \<Longrightarrow> \<exists>u \<in> set vs. states_license L u c"
proof -
  consider "vs = []" | v where "vs = [v]" | v w ws where "vs = v # w # ws" by (cases vs; cases "tl vs") auto
  then have "(\<forall>u \<in> set vs. \<exists>c \<in> set (cycloneDXLicenseChoices L vs). states_license L u c)
      \<and> (\<forall>c \<in> set (cycloneDXLicenseChoices L vs). \<exists>u \<in> set vs. states_license L u c)"
  proof cases
    case (2 v)
    then show ?thesis by (simp add: cycloneDXLicenseChoices_def states_entry states_expression operand_self)
  next
    case (3 v w ws)
    then have "cycloneDXLicenseChoices L vs \<in> {[license_expression (Compose L vs)], map (license_entry L) vs}"
      by (simp add: cycloneDXLicenseChoices_def)
    then consider "cycloneDXLicenseChoices L vs = [license_expression (Compose L vs)]" | "cycloneDXLicenseChoices L vs = map (license_entry L) vs" by blast
    then show ?thesis
    proof cases
      case 1
      have "\<forall>u \<in> set vs. states_license L u (license_expression (Compose L vs))"
        by (rule ballI, rule states_expression, rule operand_Compose) (use assms in blast)+
      moreover have "v \<in> set vs" using 3 by simp
      ultimately show ?thesis unfolding 1 by auto
    next
      case 2
      show ?thesis unfolding 2 using states_entry by auto
    qed
  qed (simp add: cycloneDXLicenseChoices_def)
  then show "u \<in> set vs \<Longrightarrow> \<exists>c \<in> set (cycloneDXLicenseChoices L vs). states_license L u c"
    "c \<in> set (cycloneDXLicenseChoices L vs) \<Longrightarrow> \<exists>u \<in> set vs. states_license L u c" by blast+
qed

lemma license_value_trim: "TrimSpace (licenseExpressionValue l) = licenseExpressionValue l"
  by (simp add: licenseExpressionValue_def)

lemma license_values_claims: "\<forall>u \<in> set (componentLicenseValues ls). claim_value u"
  by (auto simp: componentLicenseValues_def license_value_trim)

lemma license_value_mem: "u \<in> set (componentLicenseValues ls) \<longleftrightarrow> u \<noteq> [] \<and> u \<in> licenseExpressionValue ` set ls"
  by (auto simp: componentLicenseValues_def)

lemma license_groups_values:
  "(\<Union>g \<in> set (licenseGroupsByType L ls). set (componentLicenseValues (snd g))) = set (componentLicenseValues ls)"
proof -
  let ?ls = "filter (\<lambda>l. licenseExpressionValue l \<noteq> []) ls" and ?k = "\<lambda>l. cycloneDXAcknowledgement L (SL_Type l)"
  have "(\<Union>g \<in> set (licenseGroupsByType L ls). set (componentLicenseValues (snd g)))
      = (\<Union>l \<in> set ?ls. set (componentLicenseValues (filter (\<lambda>m. ?k m = ?k l) ?ls)))" by (simp only: license_groups_set UN_simps snd_conv)
  also have "\<dots> = set (componentLicenseValues ls)" unfolding set_eq_iff UN_iff license_value_mem set_filter image_iff by blast
  finally show ?thesis .
qed

lemma typed_states:
  "c \<in> set (typed_license_choices L g) \<Longrightarrow> \<exists>u \<in> set (componentLicenseValues (snd g)). states_license L u c"
  "u \<in> set (componentLicenseValues (snd g)) \<Longrightarrow> \<exists>c \<in> set (typed_license_choices L g). states_license L u c"
  using choices_state [OF license_values_claims [of "snd g"], of _ L] by (auto simp: typed_license_choices_def Let_def split: if_splits)

lemma licenses_state:
  "u \<in> set (componentLicenseValues ls) \<Longrightarrow> \<exists>c \<in> set (cycloneDXLicenses L v ls). states_license L u c"
  "c \<in> set (cycloneDXLicenses L v ls) \<Longrightarrow> \<exists>u \<in> set (componentLicenseValues ls). states_license L u c"
proof -
  let ?g = "licenseGroupsByType L ls" and ?u = "cycloneDXLicenseChoices L (componentLicenseValues ls)"
  let ?o = "concat (map (typed_license_choices L) ?g)"
  note vals = license_groups_values [of L ls]
  have o: "\<exists>c \<in> set ?o. states_license L u c" if u: "u \<in> set (componentLicenseValues ls)" for u
  proof -
    obtain g where "g \<in> set ?g" "u \<in> set (componentLicenseValues (snd g))" using u unfolding vals [symmetric] by blast
    then show ?thesis using typed_states(2) by fastforce
  qed
  have o': "\<exists>u \<in> set (componentLicenseValues ls). states_license L u c" if c: "c \<in> set ?o" for c
  proof -
    obtain g where "g \<in> set ?g" "c \<in> set (typed_license_choices L g)" using c by auto
    then show ?thesis using typed_states(1) vals by blast
  qed
  note u = choices_state [OF license_values_claims [of ls], of _ L]
  have out: "cycloneDXLicenses L v ls \<in> {?u, ?o} \<or> cycloneDXLicenses L v ls = [] \<and> componentLicenseValues ls = []"
    using license_groups_empty [of L ls] by (simp add: cycloneDXLicenses_def Let_def)
  show "u \<in> set (componentLicenseValues ls) \<Longrightarrow> \<exists>c \<in> set (cycloneDXLicenses L v ls). states_license L u c"
    using out o [of u] u(1) [of u] by fastforce
  show "c \<in> set (cycloneDXLicenses L v ls) \<Longrightarrow> \<exists>u \<in> set (componentLicenseValues ls). states_license L u c"
    using out o' [of c] u(2) [of c] by fastforce
qed

text \<open>C18. A component's licenses take a shape its version of the format admits: before 1.7 they are
  license objects only or a single entry, before 1.6 none carries an acknowledgement. An object holds an
  identifier that is on the SPDX list or else a name that is not, never both. No claim with a value is
  lost: each is stated by an entry, as the object of its identifier or of its name or as an operand of
  an expression; and every entry states one of the claims.\<close>

theorem cycloneDXLicenses_spec:
  "(v < SpecVersion1_7 \<longrightarrow> length (cycloneDXLicenses L v ls) = 1 \<or> (\<forall>c \<in> set (cycloneDXLicenses L v ls). LC_License c \<noteq> None))
   \<and> (v < SpecVersion1_6 \<longrightarrow> (\<forall>c \<in> set (cycloneDXLicenses L v ls). unacknowledged c))
   \<and> (\<forall>c \<in> set (cycloneDXLicenses L v ls). choice_ok L c)
   \<and> (\<forall>l \<in> set ls. licenseExpressionValue l \<noteq> [] \<longrightarrow>
        (\<exists>c \<in> set (cycloneDXLicenses L v ls). states_license L (licenseExpressionValue l) c))
   \<and> (\<forall>c \<in> set (cycloneDXLicenses L v ls). \<exists>l \<in> set ls. licenseExpressionValue l \<noteq> [] \<and> states_license L (licenseExpressionValue l) c)"
proof -
  let ?g = "licenseGroupsByType L ls" and ?u = "cycloneDXLicenseChoices L (componentLicenseValues ls)"
  let ?o = "concat (map (typed_license_choices L) ?g)"
  note u = license_choices [of L "componentLicenseValues ls"]
  have o: "set ?o \<subseteq> {c. choice_ok L c}" using typed_choices by fastforce
  have shape: "(v < SpecVersion1_7 \<longrightarrow> length (cycloneDXLicenses L v ls) = 1 \<or> (\<forall>c \<in> set (cycloneDXLicenses L v ls). LC_License c \<noteq> None))
     \<and> (v < SpecVersion1_6 \<longrightarrow> (\<forall>c \<in> set (cycloneDXLicenses L v ls). unacknowledged c))
     \<and> (\<forall>c \<in> set (cycloneDXLicenses L v ls). choice_ok L c)"
    unfolding cycloneDXLicenses_def Let_def
    using u o by (auto simp: singleShapeLicenseChoices_def list_all_iff simp del: not_None_eq set_concat)
  have "\<exists>c \<in> set (cycloneDXLicenses L v ls). states_license L (licenseExpressionValue l) c"
    if "l \<in> set ls" "licenseExpressionValue l \<noteq> []" for l
    using licenses_state(1) [of "licenseExpressionValue l"] that by (auto simp: license_value_mem)
  moreover have "\<exists>l \<in> set ls. licenseExpressionValue l \<noteq> [] \<and> states_license L (licenseExpressionValue l) c"
    if "c \<in> set (cycloneDXLicenses L v ls)" for c
    using licenses_state(2) [OF that] by (auto simp: license_value_mem)
  ultimately show ?thesis using shape by blast
qed

theorem cycloneDXLicenses_spec_witness:
  "let out = cycloneDXLicenses plain_library SpecVersion1_4 [\<lparr>SL_Value = ''MIT'', SL_Expression = [], SL_Type = ''declared''\<rparr>]
   in \<exists>c \<in> set out. states_license plain_library ''MIT'' c \<and> choice_ok plain_library c \<and> unacknowledged c"
proof -
  let ?l = "\<lparr>SL_Value = ''MIT'', SL_Expression = [], SL_Type = ''declared''\<rparr>"
  have "licenseExpressionValue ?l = ''MIT''" by code_simp
  then show ?thesis using cycloneDXLicenses_spec [of SpecVersion1_4 plain_library "[?l]"] by (auto simp: Let_def)
qed

end
