(* ===== verification/CdxDoc.thy ===== *)
theory CdxDoc
  imports Cdx
begin

text \<open>
  A whole document in CycloneDX (\<open>sbom/cyclonedx.go\<close>, \<open>sbom/cyclonedx_assertions.go\<close>): the BOM
  that is encoded, with its metadata, its credited parties and tools and the links to its sources,
  and the document a BOM is read as: the keys its components are held under, its primary component,
  its relationships and roots. The BOM's JSON text is the library's.
\<close>

section \<open>The structures\<close>

record cdx_tool =
  CT_Vendor :: string
  CT_Name :: string
  CT_Version :: string

record cdx_tools =
  TC_Components :: "cdx_component list"
  TC_Tools :: "cdx_tool list"

record cdx_metadata =
  MD_Timestamp :: string
  MD_Lifecycles :: "string list"
  MD_Tools :: "cdx_tools option"
  MD_Component :: "cdx_component option"
  MD_Manufacturer :: "cdx_entity option"
  MD_Authors :: "cdx_contact list"
  MD_Properties :: "cdx_property list"

record cdx_composition =
  CO_Aggregate :: string
  CO_Assemblies :: "string list option"
  CO_Dependencies :: "string list option"
  CO_Vulnerabilities :: "string list option"

record cdx_bom =
  BOM_SpecVersion :: spec_version
  BOM_SerialNumber :: string
  BOM_Version :: int
  BOM_Metadata :: "cdx_metadata option"
  BOM_Components :: "cdx_component list"
  BOM_Dependencies :: "sbom_dependency list"
  BOM_Vulnerabilities :: "cdx_vulnerability list"
  BOM_Compositions :: "cdx_composition list"
  BOM_References :: "cdx_reference list"

text \<open>What the code calls of cyclonedx-go and of \<^verbatim>\<open>encoding/json\<close> at this level: the text of a
  BOM-Link, the encoder and decoder of a BOM, the text of one advisory entry.\<close>

record cdx_library =
  bom_link :: "string \<Rightarrow> int \<Rightarrow> string option"
  bom_encode :: "spec_version \<Rightarrow> bool \<Rightarrow> cdx_bom \<Rightarrow> string option"
  bom_decode :: "string \<Rightarrow> cdx_bom option"
  advisory_json :: "cdx_vulnerability \<Rightarrow> string option"

section \<open>Targets\<close>

abbreviation TargetSPDX23JSON :: string where "TargetSPDX23JSON \<equiv> ''spdx-2.3+json''"
abbreviation TargetCycloneDX14JSON :: string where "TargetCycloneDX14JSON \<equiv> ''cyclonedx-1.4+json''"
abbreviation TargetCycloneDX15JSON :: string where "TargetCycloneDX15JSON \<equiv> ''cyclonedx-1.5+json''"
abbreviation TargetCycloneDX16JSON :: string where "TargetCycloneDX16JSON \<equiv> ''cyclonedx-1.6+json''"
abbreviation TargetCycloneDX17JSON :: string where "TargetCycloneDX17JSON \<equiv> ''cyclonedx-1.7+json''"
abbreviation TargetSyftJSON :: string where "TargetSyftJSON \<equiv> ''syft+json''"

definition toCycloneDXVersion :: "string \<Rightarrow> spec_version" where
  "toCycloneDXVersion t =
     (if t = TargetCycloneDX14JSON then SpecVersion1_4 else if t = TargetCycloneDX15JSON then SpecVersion1_5
      else if t = TargetCycloneDX16JSON then SpecVersion1_6 else SpecVersion1_7)"

definition cycloneDXTarget :: "spec_version \<Rightarrow> string" where
  "cycloneDXTarget v =
     (if v = SpecVersion1_4 then TargetCycloneDX14JSON else if v = SpecVersion1_5 then TargetCycloneDX15JSON
      else if v = SpecVersion1_6 then TargetCycloneDX16JSON else TargetCycloneDX17JSON)"

section \<open>Writing\<close>

definition chooseRoot :: "sbom_document \<Rightarrow> component option" where
  "chooseRoot d =
     (case describedIDs d of [i] \<Rightarrow> find (\<lambda>c. SC_ID c = i) (SB_Components d) | _ \<Rightarrow> None)"

definition cycloneDXSecurityReferences :: "library \<Rightarrow> provenance \<Rightarrow> cdx_reference list" where
  "cycloneDXSecurityReferences L p =
     (let contact = TrimSpace (SecurityContact p); disclosure = TrimSpace (VulnerabilityDisclosureURL p);
          contact = (if \<not> Contains contact '':'' \<and> Contains contact ''@'' then ''mailto:'' @ contact else contact)
      in (if TrimSpace (SecurityContact p) = [] then [] else [plain_reference (cdx_constant L ''ERTypeSecurityContact'') contact])
         @ (if disclosure = [] then []
            else [(plain_reference (cdx_constant L ''ERTypeAdvisories'') disclosure)\<lparr>ER_Comment := ''Coordinated vulnerability disclosure policy''\<rparr>]))"

definition bareEmail :: "string \<Rightarrow> string" where
  "bareEmail v =
     (let v = TrimSpace v in if Contains v ''@'' \<and> \<not> Contains v '':'' \<and> \<not> Contains v ''/'' then v else [])"

definition cycloneDXMetadataProperties :: "provenance \<Rightarrow> cdx_property list" where
  "cycloneDXMetadataProperties p =
     (if TrimSpace (SupportEnd p) = [] then []
      else [\<lparr>Prop_Name = ''bomly:support_end_date'', Prop_Value = TrimSpace (SupportEnd p)\<rparr>])"

definition cycloneDXDocumentManufacturer :: "sbom_document \<Rightarrow> cdx_entity option" where
  "cycloneDXDocumentManufacturer d =
     (if Manufacturer (SB_Provenance d) \<noteq> [] then Some \<lparr>OE_Name = Manufacturer (SB_Provenance d), OE_URL = []\<rparr>
      else map_option (\<lambda>c. \<lparr>OE_Name = ContactName c, OE_URL = (if ContactURL c = [] then [] else [ContactURL c])\<rparr>)
             (find (\<lambda>c. ContactKind c = ContactKindOrganization) (Creators (SB_Assertions d))))"

definition add_author :: "cdx_contact list \<Rightarrow> cdx_contact \<Rightarrow> cdx_contact list" where
  "add_author authors a = (if OC_Name a = [] \<or> OC_Name a \<in> set (map OC_Name authors) then authors else authors @ [a])"

definition cycloneDXDocumentAuthors :: "sbom_document \<Rightarrow> cdx_contact list" where
  "cycloneDXDocumentAuthors d =
     foldl add_author []
       ((if Manufacturer (SB_Provenance d) = [] then []
         else [\<lparr>OC_Name = Manufacturer (SB_Provenance d), OC_Email = bareEmail (SecurityContact (SB_Provenance d))\<rparr>])
        @ map (\<lambda>c. \<lparr>OC_Name = ContactName c, OC_Email = []\<rparr>) (filter (\<lambda>c. ContactKind c = ContactKindPerson) (Creators (SB_Assertions d))))"

definition tool_component :: "library \<Rightarrow> document_tool \<Rightarrow> cdx_component" where
  "tool_component L t =
     cdx_component_zero\<lparr>CX_Type := cdx_constant L ''ComponentTypeApplication'', CX_Name := ToolName t, CX_Version := ToolVersion t,
       CX_Manufacturer := (if Vendor t = [] then None else Some \<lparr>OE_Name = Vendor t, OE_URL = []\<rparr>)\<rparr>"

definition cycloneDXMetadataTools :: "library \<Rightarrow> sbom_document \<Rightarrow> cdx_tools option" where
  "cycloneDXMetadataTools L d =
     (if documentTools L d = [] then None
      else Some \<lparr>TC_Components = map (tool_component L) (documentTools L d), TC_Tools = []\<rparr>)"

definition source_link :: "library \<Rightarrow> document_source \<Rightarrow> cdx_reference option" where
  "source_link L s =
     map_option (\<lambda>r. (plain_reference (external_reference.RefType r) (Locator r))
         \<lparr>ER_Hashes := (case SourceChecksum s of None \<Rightarrow> [] | Some c \<Rightarrow> cycloneDXEmittedHashes L [c])\<rparr>)
       (ExternalReference_Normalized L (ExternalReference_zero\<lparr>external_reference.RefType := cdx_constant L ''ERTypeBOM'', Locator := SourceIdentity s\<rparr>))"

definition cycloneDXSourceLinks :: "library \<Rightarrow> sbom_library \<Rightarrow> sbom_document \<Rightarrow> cdx_reference list" where
  "cycloneDXSourceLinks L E d =
     List.map_filter (source_link L)
       (documentSourceLinks L E d \<lparr>ID_Namespace = [], ID_Serial = SB_SerialNumber d, ID_SerialVersion = SerialVersionOrDefault d\<rparr>)"

definition primary_component :: "library \<Rightarrow> spec_version \<Rightarrow> sbom_document \<Rightarrow> component \<Rightarrow> cdx_component" where
  "primary_component L v d root =
     (let p = cycloneDXComponent L v root
      in p\<lparr>CX_Type := cycloneDXComponentType L (firstNonEmpty [SC_Type root, ''application'']),
           CX_References := CX_References p @ cycloneDXSecurityReferences L (SB_Provenance d)\<rparr>)"

definition cycloneDXMetadata :: "library \<Rightarrow> sbom_library \<Rightarrow> spec_version \<Rightarrow> sbom_document \<Rightarrow> cdx_metadata" where
  "cycloneDXMetadata L E v d =
     \<lparr>MD_Timestamp = time_Format E (CreatedOrNow E d),
      MD_Lifecycles = (if cycloneDXLifecyclePhase L (SB_Lifecycle d) = [] then [] else [cycloneDXLifecyclePhase L (SB_Lifecycle d)]),
      MD_Tools = cycloneDXMetadataTools L d, MD_Component = map_option (primary_component L v d) (chooseRoot d),
      MD_Manufacturer = cycloneDXDocumentManufacturer d, MD_Authors = cycloneDXDocumentAuthors d,
      MD_Properties = cycloneDXMetadataProperties (SB_Provenance d)\<rparr>"

definition cycloneDXBOM :: "library \<Rightarrow> sbom_library \<Rightarrow> cdx_library \<Rightarrow> spec_version \<Rightarrow> sbom_document \<Rightarrow> cdx_bom" where
  "cycloneDXBOM L E X v d =
     \<lparr>BOM_SpecVersion = v, BOM_SerialNumber = SB_SerialNumber d, BOM_Version = SerialVersionOrDefault d,
      BOM_Metadata = Some (cycloneDXMetadata L E v d),
      BOM_Components = map (cycloneDXComponent L v) (filter (\<lambda>c. \<not> IsProjectRootComponent c) (SB_Components d)),
      BOM_Dependencies = SB_Dependencies d,
      BOM_Vulnerabilities = cycloneDXVulnerabilities L (advisory_json X) (SB_Components d),
      BOM_Compositions = (if cycloneDXAggregate L (SB_Aggregate d) = [] then []
         else [\<lparr>CO_Aggregate = cycloneDXAggregate L (SB_Aggregate d), CO_Assemblies = None, CO_Dependencies = None, CO_Vulnerabilities = None\<rparr>]),
      BOM_References = cycloneDXSourceLinks L E d\<rparr>"

definition cycloneDX_encodeJSON ::
    "library \<Rightarrow> sbom_library \<Rightarrow> cdx_library \<Rightarrow> string \<Rightarrow> bool \<Rightarrow> sbom_document \<Rightarrow> string option" where
  "cycloneDX_encodeJSON L E X target pretty d =
     bom_encode X (toCycloneDXVersion target) pretty (cycloneDXBOM L E X (toCycloneDXVersion target) d)"

section \<open>The keys of the components\<close>

text \<open>The references in use: every one the document states, before any key is derived.\<close>

definition newCycloneDXRefAllocator :: "cdx_component list \<Rightarrow> cdx_component option \<Rightarrow> string list" where
  "newCycloneDXRefAllocator inventory primary =
     filter (\<lambda>r. r \<noteq> []) (map (\<lambda>c. TrimSpace (BOMRef c)) (inventory @ (case primary of None \<Rightarrow> [] | Some p \<Rightarrow> [p])))"

definition derived_base :: "cdx_component \<Rightarrow> nat \<Rightarrow> string" where
  "derived_base c index =
     (let purl = TrimSpace (CX_PackageURL c); name = TrimSpace (CX_Name c); version = TrimSpace (CX_Version c);
          base = (if purl \<noteq> [] then purl else if name \<noteq> [] \<and> version \<noteq> [] then name @ ''@'' @ version else name)
      in if base = [] then ''component-'' @ Itoa index else base)"

text \<open>The loop that counts up from the position until the key is free; the fuel is the number of
  candidates it looks at.\<close>

fun free_key :: "nat \<Rightarrow> string list \<Rightarrow> string \<Rightarrow> string \<Rightarrow> nat \<Rightarrow> string option" where
  "free_key 0 used base candidate suffix = None"
| "free_key (Suc fuel) used base candidate suffix =
     (if candidate \<notin> set used then Some candidate
      else free_key fuel used base (base @ ''-'' @ Itoa suffix) (Suc suffix))"

definition allocate :: "string list \<Rightarrow> cdx_component \<Rightarrow> nat \<Rightarrow> (string \<times> string list) option" where
  "allocate used c index =
     (let ref = TrimSpace (BOMRef c); base = derived_base c index
      in if ref \<noteq> [] then Some (ref, ref # used)
         else map_option (\<lambda>k. (k, k # used)) (free_key (length used + 2) used base base index))"

section \<open>Reading\<close>

definition listed_by :: "(cdx_component \<Rightarrow> bool) \<Rightarrow> cdx_component list \<Rightarrow> string list \<Rightarrow> string list" where
  "listed_by P inventory ids = map snd (filter (\<lambda>(c, i). P c) (zip inventory ids))"

definition cycloneDXListedPrimary :: "cdx_component \<Rightarrow> cdx_component list \<Rightarrow> string list \<Rightarrow> string option" where
  "cycloneDXListedPrimary primary inventory ids =
     (let ref = TrimSpace (BOMRef primary); purl = TrimSpace (CX_PackageURL primary);
          name = TrimSpace (CX_Name primary); version = TrimSpace (CX_Version primary);
          first = (\<lambda>P. case listed_by P inventory ids of [] \<Rightarrow> None | i # _ \<Rightarrow> Some i);
          same = (\<lambda>c. TrimSpace (CX_PackageURL c) = [] \<and> TrimSpace (CX_Name c) = name \<and> TrimSpace (CX_Version c) = version)
      in if ref \<noteq> [] then first (\<lambda>c. TrimSpace (BOMRef c) = ref)
         else if purl \<noteq> [] then first (\<lambda>c. TrimSpace (CX_PackageURL c) = purl)
         else if name = [] then None
         else if version \<noteq> [] then first same
         else (case listed_by same inventory ids of [i] \<Rightarrow> Some i | _ \<Rightarrow> None))"

record decoding =
  DE_Components :: "(string, component) gomap"
  DE_Used :: "string list"
  DE_Unknown :: "string list"
  DE_IDs :: "string list"

definition decode_item :: "library \<Rightarrow> spec_version \<Rightarrow> cdx_component \<Rightarrow> nat \<Rightarrow> decoding \<Rightarrow> decoding option" where
  "decode_item L v c index s =
     (case allocate (DE_Used s) c index of
        None \<Rightarrow> None
      | Some (i, used) \<Rightarrow>
          Some \<lparr>DE_Components = mput i (decodeCycloneDXComponent L v i c) (DE_Components s), DE_Used = used,
                DE_Unknown = mergeUnknownScopeTokens (DE_Unknown s) (unknownScopeTokens (cycloneDXCarriedScopes (CX_Properties c))),
                DE_IDs = DE_IDs s @ [i]\<rparr>)"

fun decode_inventory :: "library \<Rightarrow> spec_version \<Rightarrow> nat \<Rightarrow> cdx_component list \<Rightarrow> decoding \<Rightarrow> decoding option" where
  "decode_inventory L v index [] s = Some s"
| "decode_inventory L v index (c # cs) s =
     (case decode_item L v c index s of None \<Rightarrow> None | Some s \<Rightarrow> decode_inventory L v (Suc index) cs s)"

definition decode_primary ::
    "library \<Rightarrow> spec_version \<Rightarrow> cdx_component option \<Rightarrow> cdx_component list \<Rightarrow> decoding \<Rightarrow> (decoding \<times> string list) option" where
  "decode_primary L v primary inventory s =
     (case primary of
        None \<Rightarrow> Some (s, [])
      | Some p \<Rightarrow>
          (case cycloneDXListedPrimary p inventory (DE_IDs s) of
             Some i \<Rightarrow> Some (s, [i])
           | None \<Rightarrow>
               if DE_Components s = [] \<or> \<not> isProjectRootID (TrimSpace (BOMRef p))
               then map_option (\<lambda>s'. (s', [last (DE_IDs s')])) (decode_item L v p (length inventory) s)
               else Some (s, [])))"

definition decoded_dependencies :: "(string, component) gomap \<Rightarrow> string \<Rightarrow> sbom_dependency list \<Rightarrow> sbom_dependency list" where
  "decoded_dependencies m primaryRef ds =
     map (\<lambda>d. \<lparr>Ref = Ref d, RefDependsOn = (if length (RefDependsOn d) > 1 then sort (RefDependsOn d) else RefDependsOn d)\<rparr>)
       (filter (\<lambda>d. \<not> (mget m (Ref d) = None \<and> (isProjectRootID (Ref d) \<or> Ref d = primaryRef))) ds)"

definition cycloneDXDecodedLifecycle :: "library \<Rightarrow> cdx_metadata option \<Rightarrow> string" where
  "cycloneDXDecodedLifecycle L md =
     (case md of
        None \<Rightarrow> []
      | Some md \<Rightarrow> (case MD_Lifecycles md of [p] \<Rightarrow> cycloneDXLifecyclePhase L p | _ \<Rightarrow> []))"

definition cycloneDXDecodedAggregate :: "library \<Rightarrow> cdx_composition list \<Rightarrow> string" where
  "cycloneDXDecodedAggregate L cs =
     (case cs of
        [c] \<Rightarrow> if CO_Assemblies c \<noteq> None \<or> CO_Dependencies c \<noteq> None \<or> CO_Vulnerabilities c \<noteq> None then []
               else cycloneDXAggregate L (CO_Aggregate c)
      | _ \<Rightarrow> [])"

definition cycloneDXToolNames :: "cdx_metadata option \<Rightarrow> string list" where
  "cycloneDXToolNames md =
     (case Option.bind md MD_Tools of
        None \<Rightarrow> []
      | Some t \<Rightarrow> filter (\<lambda>n. TrimSpace n \<noteq> []) (map CX_Name (TC_Components t) @ map CT_Name (TC_Tools t)))"

definition cycloneDXPrimaryToolName :: "cdx_metadata option \<Rightarrow> string" where
  "cycloneDXPrimaryToolName md = (case cycloneDXToolNames md of [] \<Rightarrow> defaultToolName | n # _ \<Rightarrow> n)"

fun reference_checksum :: "library \<Rightarrow> digest option \<Rightarrow> cdx_hash list \<Rightarrow> digest option" where
  "reference_checksum L found [] = found"
| "reference_checksum L found (h # hs) =
     (case Digest_Normalized L \<lparr>Algorithm = Hash_Algorithm h, Value = Hash_Value h, Subject = []\<rparr> of
        None \<Rightarrow> reference_checksum L found hs
      | Some c \<Rightarrow> if Algorithm c = ''sha1'' then Some c
                  else reference_checksum L (case found of None \<Rightarrow> Some c | Some f \<Rightarrow> Some f) hs)"

definition cycloneDXIngestedSources :: "library \<Rightarrow> cdx_reference list \<Rightarrow> document_source list" where
  "cycloneDXIngestedSources L refs =
     map (\<lambda>r. \<lparr>SourceIdentity = ER_URL r, SourceVersion = 0, SourceChecksum = reference_checksum L None (ER_Hashes r)\<rparr>)
       (filter (\<lambda>r. EqualFold_ascii (TrimSpace (ER_Type r)) (cdx_constant L ''ERTypeBOM'')) refs)"

definition cycloneDXIngestedTools :: "cdx_tools option \<Rightarrow> document_tool list" where
  "cycloneDXIngestedTools tools =
     (case tools of
        None \<Rightarrow> []
      | Some t \<Rightarrow>
          map (\<lambda>c. \<lparr>Vendor = (case CX_Manufacturer c of None \<Rightarrow> [] | Some m \<Rightarrow> OE_Name m), ToolName = CX_Name c, ToolVersion = CX_Version c\<rparr>) (TC_Components t)
          @ map (\<lambda>c. \<lparr>Vendor = CT_Vendor c, ToolName = CT_Name c, ToolVersion = CT_Version c\<rparr>) (TC_Tools t))"

definition credited_parties :: "library \<Rightarrow> cdx_metadata \<Rightarrow> contact list" where
  "credited_parties L md =
     (case MD_Manufacturer md of None \<Rightarrow> [] | Some e \<Rightarrow> (case entity_contact L e of None \<Rightarrow> [] | Some c \<Rightarrow> [c]))
     @ List.map_filter (\<lambda>a. Contact_Normalized L \<lparr>ContactKind = ContactKindPerson, ContactName = OC_Name a, ContactURL = []\<rparr>) (MD_Authors md)"

definition cycloneDXDocumentAssertions :: "library \<Rightarrow> cdx_library \<Rightarrow> cdx_bom \<Rightarrow> document_assertions" where
  "cycloneDXDocumentAssertions L X bom =
     (let a = Document_zero\<lparr>DocIdentity := (case bom_link X (BOM_SerialNumber bom) (if BOM_Version bom < 1 then 1 else BOM_Version bom) of None \<Rightarrow> [] | Some l \<Rightarrow> l),
                DocVersion := BOM_Version bom, DocSources := cycloneDXIngestedSources L (BOM_References bom)\<rparr>;
          a = (case BOM_Metadata bom of
                 None \<Rightarrow> a
               | Some md \<Rightarrow> a\<lparr>DocCreated := MD_Timestamp md, Creators := credited_parties L md, Tools := cycloneDXIngestedTools (MD_Tools md)\<rparr>);
          (normalized, ok) = Document_Normalized L a
      in if ok then normalized else Document_zero)"

text \<open>The version a document declares, and the target only where it names none.\<close>

definition declared_version :: "string \<Rightarrow> cdx_bom \<Rightarrow> spec_version" where
  "declared_version target bom = (if BOM_SpecVersion bom = 0 then toCycloneDXVersion target else BOM_SpecVersion bom)"

definition bom_primary :: "cdx_bom \<Rightarrow> cdx_component option" where
  "bom_primary bom = Option.bind (BOM_Metadata bom) MD_Component"

text \<open>The components of a BOM by their keys, the keys of the inventory, the primary component's, and
  the scope tokens this build does not know.\<close>

definition decode_components :: "library \<Rightarrow> string \<Rightarrow> cdx_bom \<Rightarrow> (decoding \<times> string list) option" where
  "decode_components L target bom =
     (case decode_inventory L (declared_version target bom) 0 (BOM_Components bom)
             \<lparr>DE_Components = [], DE_Used = newCycloneDXRefAllocator (BOM_Components bom) (bom_primary bom), DE_Unknown = [], DE_IDs = []\<rparr> of
        None \<Rightarrow> None
      | Some s \<Rightarrow> decode_primary L (declared_version target bom) (bom_primary bom) (BOM_Components bom) s)"

definition document_from ::
    "library \<Rightarrow> sbom_library \<Rightarrow> cdx_library \<Rightarrow> string \<Rightarrow> cdx_bom \<Rightarrow> decoding \<times> string list \<Rightarrow> sbom_document" where
  "document_from L E X target bom sd =
     (case sd of (s, described) \<Rightarrow>
       (let m = distributeCycloneDXVulnerabilities L (BOM_Vulnerabilities bom) (DE_Components s);
            primaryRef = (case bom_primary bom of None \<Rightarrow> [] | Some p \<Rightarrow> TrimSpace (BOMRef p));
            dependencies = decoded_dependencies m primaryRef (BOM_Dependencies bom);
            components = sort_key SC_ID (map snd m);
            linked = (if dependencies = [] then map (\<lambda>c. \<lparr>Ref = SC_ID c, RefDependsOn = []\<rparr>) components else dependencies);
            targets = concat (map RefDependsOn dependencies)
        in \<lparr>SB_Name = defaultDocumentName, SB_Namespace = [], SB_Tool = cycloneDXPrimaryToolName (BOM_Metadata bom),
            SB_Tools = cycloneDXToolNames (BOM_Metadata bom), SB_ToolVersion = [],
            SB_Created = (case BOM_Metadata bom of None \<Rightarrow> None | Some md \<Rightarrow> if MD_Timestamp md = [] then None else time_Parse E (MD_Timestamp md)),
            SB_SerialNumber = BOM_SerialNumber bom, SB_SerialVersion = BOM_Version bom,
            SB_Provenance = \<lparr>Manufacturer = [], SecurityContact = [], VulnerabilityDisclosureURL = [], SupportEnd = []\<rparr>,
            SB_Lifecycle = cycloneDXDecodedLifecycle L (BOM_Metadata bom),
            SB_Aggregate = cycloneDXDecodedAggregate L (BOM_Compositions bom),
            SB_Components = components, SB_Dependencies = sort_key Ref linked,
            SB_Roots = filter (\<lambda>i. i \<notin> set targets) (map SC_ID components), SB_Described = described,
            SB_Assertions = (cycloneDXDocumentAssertions L X bom)\<lparr>DocFormat := NormalizeDocumentFormat (cycloneDXTarget (declared_version target bom))\<rparr>,
            SB_UnknownScopeTokens = DE_Unknown s, SB_Sources = []\<rparr>))"

definition cycloneDXDocument :: "library \<Rightarrow> sbom_library \<Rightarrow> cdx_library \<Rightarrow> string \<Rightarrow> cdx_bom \<Rightarrow> sbom_document option" where
  "cycloneDXDocument L E X target bom = map_option (document_from L E X target bom) (decode_components L target bom)"

definition cycloneDX_decodeJSON ::
    "library \<Rightarrow> sbom_library \<Rightarrow> cdx_library \<Rightarrow> string \<Rightarrow> string \<Rightarrow> sbom_document option option" where
  "cycloneDX_decodeJSON L E X target data =
     (case bom_decode X data of None \<Rightarrow> Some None | Some bom \<Rightarrow> map_option Some (cycloneDXDocument L E X target bom))"

section \<open>The keys are free\<close>

lemma Itoa_snoc: "Itoa n = (if n < 10 then [] else Itoa (n div 10)) @ [char_of (48 + n mod 10)]"
  by (subst Itoa.simps) simp

lemma Itoa_ne [simp]: "Itoa n \<noteq> []"
  by (subst Itoa_snoc) simp

lemma digit_inj: "char_of (48 + n mod 10) = (char_of (48 + m mod 10) :: char) \<Longrightarrow> n mod 10 = (m mod 10 :: nat)"
proof -
  assume "char_of (48 + n mod 10) = (char_of (48 + m mod 10) :: char)"
  then have "of_char (char_of (48 + n mod 10) :: char) = (of_char (char_of (48 + m mod 10) :: char) :: nat)" by simp
  then show ?thesis by simp
qed

lemma Itoa_inj: "Itoa n = Itoa m \<Longrightarrow> n = m"
proof (induction n arbitrary: m rule: Itoa.induct)
  case (1 n)
  have e: "(if n < 10 then [] else Itoa (n div 10)) = (if m < 10 then [] else Itoa (m div 10)) \<and> n mod 10 = m mod 10"
    using 1(2) unfolding Itoa_snoc [of n] Itoa_snoc [of m] by (auto dest: digit_inj)
  show ?case
  proof (cases "n < 10")
    case True
    with e have "m < 10" by (metis Itoa_ne)
    with True e show ?thesis by simp
  next
    case False
    with e have "\<not> m < 10" "Itoa (n div 10) = Itoa (m div 10)" by (metis Itoa_ne)+
    with 1(1) False e show ?thesis by (metis div_mult_mod_eq)
  qed
qed

lemma free_key_find:
  "free_key (Suc n) used base candidate suffix =
     find (\<lambda>k. k \<notin> set used) (candidate # map (\<lambda>i. base @ ''-'' @ Itoa i) [suffix..<suffix + n])"
proof (induction n arbitrary: candidate suffix)
  case (Suc n)
  have "[suffix..<suffix + Suc n] = suffix # [Suc suffix..<Suc suffix + n]" by (subst upt_conv_Cons) simp_all
  then show ?case by (simp only: free_key.simps(2) [of "Suc n"] Suc.IH list.map find.simps)
qed simp

lemma free_key_ok:
  assumes "length used < fuel"
  shows "\<exists>k. free_key (Suc fuel) used base candidate suffix = Some k \<and> k \<notin> set used"
proof -
  let ?c = "map (\<lambda>i. base @ ''-'' @ Itoa i) [suffix..<suffix + fuel]"
  have "distinct ?c" by (auto simp: distinct_map inj_on_def dest: Itoa_inj)
  then have "card (set ?c) = fuel" by (simp add: distinct_card del: set_map)
  moreover have "card (set used) \<le> length used" by (rule card_length)
  ultimately have "\<not> set ?c \<subseteq> set used" using assms card_mono [of "set used" "set ?c"] by fastforce
  then obtain k where "find (\<lambda>k. k \<notin> set used) (candidate # ?c) = Some k"
    by (cases "find (\<lambda>k. k \<notin> set used) (candidate # ?c)") (auto simp: find_None_iff simp del: find.simps)
  then show ?thesis unfolding free_key_find by (auto simp: find_Some_iff simp del: find.simps)
qed

lemma allocate_ok:
  "\<exists>k. allocate used c index = Some (k, k # used) \<and> (TrimSpace (BOMRef c) \<noteq> [] \<longrightarrow> k = TrimSpace (BOMRef c))
     \<and> (TrimSpace (BOMRef c) = [] \<longrightarrow> k \<notin> set used)"
proof (cases "TrimSpace (BOMRef c) = []")
  case True
  obtain k where "free_key (Suc (Suc (length used))) used (derived_base c index) (derived_base c index) index = Some k" "k \<notin> set used"
    using free_key_ok [of used "Suc (length used)"] by blast
  then show ?thesis using True by (auto simp: allocate_def Let_def)
qed (simp add: allocate_def Let_def)

section \<open>The inventory is kept\<close>

abbreviation stated_ref :: "cdx_component \<Rightarrow> string" where
  "stated_ref c \<equiv> TrimSpace (BOMRef c)"

definition put_items :: "library \<Rightarrow> spec_version \<Rightarrow> (string, component) gomap \<Rightarrow> (string \<times> cdx_component) list \<Rightarrow> (string, component) gomap" where
  "put_items L v m kcs = foldl (\<lambda>m (k, c). mput k (decodeCycloneDXComponent L v k c) m) m kcs"

definition keys_ok :: "string list \<Rightarrow> cdx_component list \<Rightarrow> string list \<Rightarrow> bool" where
  "keys_ok used cs ks \<longleftrightarrow> (\<forall>i < length cs. (stated_ref (cs ! i) \<noteq> [] \<longrightarrow> ks ! i = stated_ref (cs ! i))
     \<and> (stated_ref (cs ! i) = [] \<longrightarrow> ks ! i \<notin> set used \<and> (\<forall>j < i. ks ! j \<noteq> ks ! i)))"

lemma decode_inventory_ok:
  "\<exists>s' ks. decode_inventory L v index cs s = Some s' \<and> length ks = length cs \<and> DE_IDs s' = DE_IDs s @ ks
     \<and> set (DE_Used s') = set (DE_Used s) \<union> set ks \<and> DE_Components s' = put_items L v (DE_Components s) (zip ks cs)
     \<and> keys_ok (DE_Used s) cs ks"
proof (induction cs arbitrary: index s)
  case (Cons c cs)
  obtain k where k: "allocate (DE_Used s) c index = Some (k, k # DE_Used s)" "stated_ref c \<noteq> [] \<longrightarrow> k = stated_ref c"
    "stated_ref c = [] \<longrightarrow> k \<notin> set (DE_Used s)" using allocate_ok by blast
  let ?s1 = "\<lparr>DE_Components = mput k (decodeCycloneDXComponent L v k c) (DE_Components s), DE_Used = k # DE_Used s,
     DE_Unknown = mergeUnknownScopeTokens (DE_Unknown s) (unknownScopeTokens (cycloneDXCarriedScopes (CX_Properties c))),
     DE_IDs = DE_IDs s @ [k]\<rparr>"
  have d: "decode_item L v c index s = Some ?s1" using k(1) by (simp add: decode_item_def)
  obtain s' ks where s': "decode_inventory L v (Suc index) cs ?s1 = Some s'" "length ks = length cs" "DE_IDs s' = DE_IDs ?s1 @ ks"
    "set (DE_Used s') = set (DE_Used ?s1) \<union> set ks" "DE_Components s' = put_items L v (DE_Components ?s1) (zip ks cs)"
    and each: "keys_ok (DE_Used ?s1) cs ks"
    using Cons.IH [of "Suc index" ?s1] by (elim exE conjE)
  have all: "keys_ok (DE_Used s) (c # cs) (k # ks)"
    unfolding keys_ok_def
  proof (intro allI impI)
    fix i assume i: "i < length (c # cs)"
    show "(stated_ref ((c # cs) ! i) \<noteq> [] \<longrightarrow> (k # ks) ! i = stated_ref ((c # cs) ! i))
          \<and> (stated_ref ((c # cs) ! i) = [] \<longrightarrow> (k # ks) ! i \<notin> set (DE_Used s) \<and> (\<forall>j < i. (k # ks) ! j \<noteq> (k # ks) ! i))"
    proof (cases i)
      case (Suc n)
      then have e: "(stated_ref (cs ! n) \<noteq> [] \<longrightarrow> ks ! n = stated_ref (cs ! n))
          \<and> (stated_ref (cs ! n) = [] \<longrightarrow> ks ! n \<notin> set (DE_Used ?s1) \<and> (\<forall>j < n. ks ! j \<noteq> ks ! n))" using each i by (simp add: keys_ok_def)
      then show ?thesis by (auto simp: Suc nth_Cons split: nat.split)
    qed (use k in simp)
  qed
  show ?case
  proof (intro exI [of _ s'] exI [of _ "k # ks"] conjI)
    show "decode_inventory L v index (c # cs) s = Some s'" using d s'(1) by simp
    show "DE_Components s' = put_items L v (DE_Components s) (zip (k # ks) (c # cs))" using s'(5) by (simp add: put_items_def)
  qed (use s' all in simp_all)
qed (simp add: put_items_def keys_ok_def)

lemma mget_put_items:
  "mget (put_items L v m kcs) x = (case map_of (rev kcs) x of None \<Rightarrow> mget m x | Some c \<Rightarrow> Some (decodeCycloneDXComponent L v x c))"
  by (induction kcs rule: rev_induct) (auto simp: put_items_def gomap_simps split: option.split)

lemma map_of_rev_unique:
  assumes "length ks = length cs" "i < length ks" "\<forall>j < length ks. j \<noteq> i \<longrightarrow> ks ! j \<noteq> ks ! i"
  shows "map_of (rev (zip ks cs)) (ks ! i) = Some (cs ! i)"
proof (cases "map_of (rev (zip ks cs)) (ks ! i)")
  case None
  then have "ks ! i \<notin> fst ` set (zip ks cs)" by (simp add: map_of_eq_None_iff)
  then show ?thesis using assms(1,2) by (metis in_set_zip nth_mem fst_conv snd_conv image_eqI length_zip min.idem set_zip_leftD map_fst_zip list.set_map)
next
  case (Some c)
  then have "(ks ! i, c) \<in> set (zip ks cs)" by (auto dest: map_of_SomeD)
  then obtain j where "j < length ks" "ks ! j = ks ! i" "cs ! j = c" using assms(1) by (auto simp: in_set_zip)
  then show ?thesis using assms(3) Some by metis
qed

definition table_ok :: "(string, component) gomap \<Rightarrow> bool" where
  "table_ok m \<longleftrightarrow> gomap_ok m \<and> (\<forall>k c. mget m k = Some c \<longrightarrow> SC_ID c = k)"

lemma decoded_ID [simp]: "SC_ID (decodeCycloneDXComponent L v i c) = i"
  by (simp add: decodeCycloneDXComponent_def applyCycloneDXAssertions_def Let_def)

lemma decoded_no_vulnerabilities [simp]: "SC_Vulnerabilities (decodeCycloneDXComponent L v i c) = []"
  by (simp add: decodeCycloneDXComponent_def applyCycloneDXAssertions_def Component_zero_def Let_def)

lemma table_mput: "table_ok m \<Longrightarrow> SC_ID c = k \<Longrightarrow> table_ok (mput k c m)"
  by (auto simp: table_ok_def gomap_simps)

lemma table_put_items: "table_ok m \<Longrightarrow> table_ok (put_items L v m kcs)"
  by (induction kcs rule: rev_induct) (auto simp: put_items_def table_mput)

lemma table_attach:
  "table_ok m \<Longrightarrow> table_ok (attach_vulnerability w m r) \<and> mkeys (attach_vulnerability w m r) = mkeys m
     \<and> (\<forall>k. mget (attach_vulnerability w m r) k = map_option (\<lambda>c. if k = r then c\<lparr>SC_Vulnerabilities := SC_Vulnerabilities c @ [w]\<rparr> else c) (mget m k))"
proof (cases "mget m r")
  case None
  then have "attach_vulnerability w m r = m" by (simp add: attach_vulnerability_def)
  moreover assume "table_ok m"
  ultimately show ?thesis using None by (auto simp: map_option_case simp del: not_None_eq split: option.split)
next
  case (Some c)
  then have e: "attach_vulnerability w m r = mput r (c\<lparr>SC_Vulnerabilities := SC_Vulnerabilities c @ [w]\<rparr>) m"
    by (simp add: attach_vulnerability_def)
  assume t: "table_ok m"
  then have "SC_ID c = r" using Some by (simp add: table_ok_def)
  then have "table_ok (attach_vulnerability w m r)" unfolding e using t by (intro table_mput) simp_all
  moreover have "mkeys (attach_vulnerability w m r) = mkeys m" unfolding e using Some mget_Some_mkeys [OF Some] by (simp add: update_keys)
  ultimately show ?thesis using Some unfolding e by (auto simp: gomap_simps option.map_ident)
qed

lemma table_attach_all:
  "table_ok m \<Longrightarrow> distinct rs \<Longrightarrow> table_ok (foldl (attach_vulnerability w) m rs) \<and> mkeys (foldl (attach_vulnerability w) m rs) = mkeys m
     \<and> (\<forall>k. mget (foldl (attach_vulnerability w) m rs) k =
          map_option (\<lambda>c. if k \<in> set rs then c\<lparr>SC_Vulnerabilities := SC_Vulnerabilities c @ [w]\<rparr> else c) (mget m k))"
proof (induction rs arbitrary: m)
  case Nil
  then show ?case by (simp add: option.map_ident)
next
  case (Cons r rs)
  note a = table_attach [OF Cons.prems(1), of w r]
  note b = Cons.IH [of "attach_vulnerability w m r"]
  show ?case using a b Cons.prems(2) by (auto simp: option.map_comp comp_def intro!: map_option_cong)
qed

definition received :: "library \<Rightarrow> cdx_vulnerability list \<Rightarrow> string \<Rightarrow> sbom_vulnerability list" where
  "received L vs k =
     map (decodeCycloneDXVulnerability L) (filter (\<lambda>s. TrimSpace (CV_ID s) \<noteq> [] \<and> k \<in> TrimSpace ` set (CV_Affects s)) vs)"

lemma dedup_all: "set (dedup_gated Some id [] xs) = set xs" "distinct (dedup_gated Some id [] xs)"
proof -
  have "set (dedup_gated Some id seen xs) = set xs - set seen" for seen :: "'a list"
    by (induction xs arbitrary: seen) auto
  then show "set (dedup_gated Some id [] xs) = set xs" by simp
  show "distinct (dedup_gated Some id [] xs)" using dedup_gated_distinct [of id Some "[]" xs] by simp
qed

lemma table_distribute_one:
  assumes "table_ok m"
  shows "table_ok (distribute_vulnerability L m s) \<and> mkeys (distribute_vulnerability L m s) = mkeys m
     \<and> (\<forall>k. mget (distribute_vulnerability L m s) k = map_option (\<lambda>c. c\<lparr>SC_Vulnerabilities := SC_Vulnerabilities c @ received L [s] k\<rparr>) (mget m k))"
proof (cases "TrimSpace (CV_ID s) = []")
  case True
  then show ?thesis using assms by (simp add: distribute_vulnerability_def received_def option.map_ident)
next
  case False
  note a = table_attach_all [OF assms dedup_all(2), of "decodeCycloneDXVulnerability L s" "map TrimSpace (CV_Affects s)"]
  show ?thesis using a False by (auto simp: distribute_vulnerability_def received_def dedup_all intro!: map_option_cong)
qed

lemma table_distribute:
  "table_ok m \<Longrightarrow> table_ok (distributeCycloneDXVulnerabilities L vs m) \<and> mkeys (distributeCycloneDXVulnerabilities L vs m) = mkeys m
     \<and> (\<forall>k. mget (distributeCycloneDXVulnerabilities L vs m) k = map_option (\<lambda>c. c\<lparr>SC_Vulnerabilities := SC_Vulnerabilities c @ received L vs k\<rparr>) (mget m k))"
proof (induction vs arbitrary: m)
  case Nil
  then show ?case by (simp add: distributeCycloneDXVulnerabilities_def received_def option.map_ident)
next
  case (Cons s vs)
  note a = table_distribute_one [OF Cons.prems, of L s]
  note b = Cons.IH [of "distribute_vulnerability L m s"]
  have e: "received L (s # vs) k = received L [s] k @ received L vs k" for k by (simp add: received_def)
  show ?case using a b by (simp add: distributeCycloneDXVulnerabilities_def option.map_comp comp_def e)
qed

text \<open>The components of a decoded table, in the order of their keys.\<close>

lemma table_components:
  assumes "table_ok m"
  shows "sorted_wrt (<) (map SC_ID (sort_key SC_ID (map snd m)))" "set (map SC_ID (sort_key SC_ID (map snd m))) = set (mkeys m)"
    "c \<in> set (sort_key SC_ID (map snd m)) \<longleftrightarrow> mget m (SC_ID c) = Some c"
proof -
  have ids: "map SC_ID (map snd m) = mkeys m"
  proof -
    have "\<forall>(k, c) \<in> set m. SC_ID c = k" using assms by (auto simp: table_ok_def mem_iff_mget)
    then show ?thesis by (induction m) auto
  qed
  have "map SC_ID (sort_key SC_ID (map snd m)) = sort (mkeys m)" unfolding map_sort_key_self ids ..
  then show "sorted_wrt (<) (map SC_ID (sort_key SC_ID (map snd m)))" "set (map SC_ID (sort_key SC_ID (map snd m))) = set (mkeys m)"
    using assms by (simp_all add: table_ok_def gomap_ok_def strict_sorted_iff del: set_map)
  have "c \<in> set (map snd m) \<longleftrightarrow> mget m (SC_ID c) = Some c"
  proof
    assume "c \<in> set (map snd m)"
    then obtain k where "(k, c) \<in> set m" by auto
    then show "mget m (SC_ID c) = Some c" using assms by (auto simp: table_ok_def mem_iff_mget)
  next
    assume "mget m (SC_ID c) = Some c"
    then show "c \<in> set (map snd m)" by (metis map_of_SomeD image_eqI list.set_map snd_conv)
  qed
  then show "c \<in> set (sort_key SC_ID (map snd m)) \<longleftrightarrow> mget m (SC_ID c) = Some c" by simp
qed

end
