(* ===== verification/CdxRound.thy ===== *)
theory CdxRound
  imports CdxDoc
begin

text \<open>
  What the CycloneDX codec promises (\<open>sbom/cyclonedx.go\<close>): a document is read whole, advisories are
  folded by their words and come back to the components that had them, and a document this build
  writes is read back with its components, relationships, scopes, end-of-life claims and advisories.
\<close>

section \<open>A document is read whole\<close>

lemma reserved_refs:
  "set (newCycloneDXRefAllocator inventory primary) =
     {stated_ref c |c. (c \<in> set inventory \<or> primary = Some c) \<and> stated_ref c \<noteq> []}"
  by (auto simp: newCycloneDXRefAllocator_def split: option.splits)

text \<open>A key is shared by no other component of the inventory, unless two state the same reference.\<close>

lemma keys_unique:
  assumes k: "keys_ok (newCycloneDXRefAllocator cs primary) cs ks" and l: "length ks = length cs"
    and i: "i < length ks" "stated_ref (cs ! i) = []" and j: "j < length ks" "j \<noteq> i"
  shows "ks ! j \<noteq> ks ! i"
proof (cases "stated_ref (cs ! j) = []")
  case True
  show ?thesis
  proof (cases "j < i")
    case True
    then show ?thesis using k i l by (auto simp: keys_ok_def)
  next
    case False
    then have "i < j" using j(2) by simp
    then have "ks ! i \<noteq> ks ! j" using k j(1) l True by (auto simp: keys_ok_def)
    then show ?thesis by simp
  qed
next
  case False
  then have "ks ! j = stated_ref (cs ! j)" "ks ! j \<in> set (newCycloneDXRefAllocator cs primary)"
    using k j(1) l nth_mem [of j cs] by (auto simp: keys_ok_def reserved_refs simp del: nth_mem)
  moreover have "ks ! i \<notin> set (newCycloneDXRefAllocator cs primary)" using k i l by (auto simp: keys_ok_def)
  ultimately show ?thesis by metis
qed

lemma listed_by_None: "listed_by P inventory ids = [] \<longleftrightarrow> (\<forall>(c, i) \<in> set (zip inventory ids). \<not> P c)"
  by (auto simp: listed_by_def filter_empty_conv)

lemma listed_by_mem: "i \<in> set (listed_by P inventory ids) \<Longrightarrow> i \<in> set ids"
  by (auto simp: listed_by_def dest: set_zip_rightD)

lemma head_listed: "(case xs of [] \<Rightarrow> None | i # _ \<Rightarrow> Some i) = Some k \<Longrightarrow> k \<in> set xs"
  by (cases xs) simp_all

lemma only_listed: "(case xs of [i] \<Rightarrow> Some i | _ \<Rightarrow> None) = Some k \<Longrightarrow> k \<in> set xs"
  by (cases xs; cases "tl xs") simp_all

lemma listed_primary_mem: "cycloneDXListedPrimary p inventory ids = Some i \<Longrightarrow> i \<in> set ids"
  unfolding cycloneDXListedPrimary_def Let_def
  by (simp only: split: if_split_asm) (blast dest: head_listed only_listed listed_by_mem)+

lemma mkeys_put_items: "set (mkeys (put_items L v m kcs)) = set (mkeys m) \<union> set (map fst kcs)"
proof (induction kcs rule: rev_induct)
  case (snoc kc kcs)
  obtain k c where "kc = (k, c)" by (cases kc)
  then have "put_items L v m (kcs @ [kc]) = mput k (decodeCycloneDXComponent L v k c) (put_items L v m kcs)" by (simp add: put_items_def)
  then show ?case using snoc \<open>kc = (k, c)\<close> by (simp only: set_mkeys_mput) simp
qed (simp add: put_items_def)

lemma unlisted_primary:
  assumes "cycloneDXListedPrimary p inventory ids = None" "stated_ref p \<noteq> []" "length ids = length inventory" "c \<in> set inventory"
  shows "stated_ref c \<noteq> stated_ref p"
proof -
  have "listed_by (\<lambda>c. TrimSpace (BOMRef c) = stated_ref p) inventory ids = []"
    using assms(1,2) by (auto simp: cycloneDXListedPrimary_def Let_def split: list.splits)
  then have "\<forall>(c, i) \<in> set (zip inventory ids). stated_ref c \<noteq> stated_ref p" by (simp add: listed_by_None)
  moreover obtain i where "(c, i) \<in> set (zip inventory ids)" using assms(3,4) by (metis in_set_impl_in_set_zip1)
  ultimately show ?thesis by auto
qed

lemma decode_components_ok:
  "\<exists>s ks desc. decode_components L target bom = Some (s, desc) \<and> length ks = length (BOM_Components bom)
     \<and> keys_ok (newCycloneDXRefAllocator (BOM_Components bom) (bom_primary bom)) (BOM_Components bom) ks
     \<and> table_ok (DE_Components s) \<and> length desc \<le> 1 \<and> set desc \<subseteq> set (mkeys (DE_Components s))
     \<and> set (mkeys (DE_Components s)) = set ks \<union> set desc
     \<and> (\<forall>k \<in> set ks. mget (DE_Components s) k = mget (put_items L (declared_version target bom) [] (zip ks (BOM_Components bom))) k)"
proof -
  let ?v = "declared_version target bom" and ?cs = "BOM_Components bom" and ?p = "bom_primary bom"
  let ?s0 = "\<lparr>DE_Components = [], DE_Used = newCycloneDXRefAllocator ?cs ?p, DE_Unknown = [], DE_IDs = []\<rparr>"
  obtain s ks where s: "decode_inventory L ?v 0 ?cs ?s0 = Some s" "length ks = length ?cs" "DE_IDs s = ks"
    "set (DE_Used s) = set (newCycloneDXRefAllocator ?cs ?p) \<union> set ks" "DE_Components s = put_items L ?v [] (zip ks ?cs)"
    "keys_ok (newCycloneDXRefAllocator ?cs ?p) ?cs ks"
    using decode_inventory_ok [of L ?v 0 ?cs ?s0] by auto
  have t: "table_ok (DE_Components s)" unfolding s(5) by (rule table_put_items) (simp add: table_ok_def)
  have keys: "set (mkeys (DE_Components s)) = set ks"
    unfolding s(5) mkeys_put_items using s(2) by simp
  show ?thesis
  proof (cases "\<exists>p. ?p = Some p \<and> cycloneDXListedPrimary p ?cs ks = None \<and> (DE_Components s = [] \<or> \<not> isProjectRootID (stated_ref p))")
    case False
    have "\<exists>desc. decode_primary L ?v ?p ?cs s = Some (s, desc) \<and> length desc \<le> 1 \<and> set desc \<subseteq> set ks"
    proof (cases ?p)
      case None
      then show ?thesis by (simp add: decode_primary_def)
    next
      case (Some p)
      show ?thesis
      proof (cases "cycloneDXListedPrimary p ?cs ks")
        case None
        then have "DE_Components s \<noteq> []" "isProjectRootID (stated_ref p)" using False Some by auto
        then show ?thesis using Some None s(3) by (simp add: decode_primary_def)
      next
        case (Some i)
        moreover have "i \<in> set ks" by (rule listed_primary_mem [OF Some])
        ultimately show ?thesis using \<open>?p = _\<close> s(3) by (simp add: decode_primary_def)
      qed
    qed
    then obtain desc where d: "decode_primary L ?v ?p ?cs s = Some (s, desc)" "length desc \<le> 1" "set desc \<subseteq> set ks"
      by blast
    then show ?thesis using s t keys
      by - (rule exI [of _ s], rule exI [of _ ks], rule exI [of _ desc], auto simp: decode_components_def)
  next
    case True
    then obtain p where p: "?p = Some p" "cycloneDXListedPrimary p ?cs ks = None" "DE_Components s = [] \<or> \<not> isProjectRootID (stated_ref p)" by blast
    obtain k where k: "allocate (DE_Used s) p (length ?cs) = Some (k, k # DE_Used s)" "stated_ref p \<noteq> [] \<longrightarrow> k = stated_ref p"
      "stated_ref p = [] \<longrightarrow> k \<notin> set (DE_Used s)" using allocate_ok by blast
    obtain s' where s': "decode_item L ?v p (length ?cs) s = Some s'" "DE_IDs s' = ks @ [k]"
      "DE_Components s' = mput k (decodeCycloneDXComponent L ?v k p) (DE_Components s)"
      using k(1) s(3) by (simp add: decode_item_def)
    have d: "decode_primary L ?v ?p ?cs s = Some (s', [k])" using p s' s(3) by (simp add: decode_primary_def)
    have new: "k \<notin> set ks"
    proof (cases "stated_ref p = []")
      case True
      then show ?thesis using k(3) s(4) by simp
    next
      case False
      have "ks ! i \<noteq> k" if i: "i < length ks" for i
      proof (cases "stated_ref (?cs ! i) = []")
        case True
        moreover have "k \<in> set (newCycloneDXRefAllocator ?cs ?p)" using False k(2) p(1) by (auto simp: reserved_refs)
        ultimately show ?thesis using s(2,6) i by (metis keys_ok_def)
      next
        case f: False
        have "stated_ref (?cs ! i) \<noteq> stated_ref p" using unlisted_primary [OF p(2) False] s(2) i by simp
        then show ?thesis using f s(2,6) i k(2) False by (metis keys_ok_def)
      qed
      then show ?thesis by (metis in_set_conv_nth)
    qed
    show ?thesis
    proof (rule exI [of _ s'], rule exI [of _ ks], rule exI [of _ "[k]"], intro conjI)
      show "decode_components L target bom = Some (s', [k])" using s(1) d by (simp add: decode_components_def)
      show "table_ok (DE_Components s')" unfolding s'(3) by (rule table_mput [OF t]) simp
      show "set (mkeys (DE_Components s')) = set ks \<union> set [k]" unfolding s'(3) set_mkeys_mput keys by simp
      show "set [k] \<subseteq> set (mkeys (DE_Components s'))" unfolding s'(3) set_mkeys_mput by simp
      show "\<forall>x \<in> set ks. mget (DE_Components s') x = mget (put_items L ?v [] (zip ks ?cs)) x"
        unfolding s'(3) s(5) using new by (auto simp: gomap_simps)
    qed (use s in simp_all)
  qed
qed

text \<open>C15. A CycloneDX document is read whole, whatever references it states: reading never runs out of keys, every
  item of the inventory has a key, its stated reference or one no other item has, the components are
  exactly those keys and at most one described primary component, in strict order of their keys, and an item
  whose key is its own is a component with its content and with exactly the advisories that name it.\<close>

theorem cycloneDXDocument_spec:
  "\<exists>d ks. cycloneDXDocument L E X target bom = Some d \<and> length ks = length (BOM_Components bom)
     \<and> sorted_wrt (<) (map SC_ID (SB_Components d)) \<and> length (SB_Described d) \<le> 1
     \<and> set (map SC_ID (SB_Components d)) = set ks \<union> set (SB_Described d)
     \<and> (\<forall>i < length ks. if stated_ref (BOM_Components bom ! i) \<noteq> [] then ks ! i = stated_ref (BOM_Components bom ! i)
          else \<forall>j < length ks. j \<noteq> i \<longrightarrow> ks ! j \<noteq> ks ! i)
     \<and> (\<forall>i < length ks. (\<forall>j < length ks. j \<noteq> i \<longrightarrow> ks ! j \<noteq> ks ! i) \<longrightarrow>
          (decodeCycloneDXComponent L (declared_version target bom) (ks ! i) (BOM_Components bom ! i))
            \<lparr>SC_Vulnerabilities := received L (BOM_Vulnerabilities bom) (ks ! i)\<rparr> \<in> set (SB_Components d))"
proof -
  let ?v = "declared_version target bom" and ?cs = "BOM_Components bom"
  obtain s ks desc where s: "decode_components L target bom = Some (s, desc)" "length ks = length ?cs"
    and keys: "keys_ok (newCycloneDXRefAllocator ?cs (bom_primary bom)) ?cs ks"
    and t: "table_ok (DE_Components s)" and desc: "length desc \<le> 1" "set (mkeys (DE_Components s)) = set ks \<union> set desc"
    and held: "\<forall>k \<in> set ks. mget (DE_Components s) k = mget (put_items L ?v [] (zip ks ?cs)) k"
    using decode_components_ok [of L target bom] by (elim exE conjE) (rule that)
  let ?m = "distributeCycloneDXVulnerabilities L (BOM_Vulnerabilities bom) (DE_Components s)"
  let ?d = "document_from L E X target bom (s, desc)"
  note m = table_distribute [OF t, of L "BOM_Vulnerabilities bom"]
  have cs: "SB_Components ?d = sort_key SC_ID (map snd ?m)" "SB_Described ?d = desc" by (simp_all add: document_from_def Let_def)
  have ids: "set (map SC_ID (SB_Components ?d)) = set ks \<union> set desc" "sorted_wrt (<) (map SC_ID (SB_Components ?d))"
    unfolding cs using table_components [OF conjunct1 [OF m]] m desc(2) by (simp_all del: set_map)
  show ?thesis
  proof (rule exI [of _ ?d], rule exI [of _ ks], intro conjI allI impI)
    fix i assume i: "i < length ks"
    show "if stated_ref (?cs ! i) \<noteq> [] then ks ! i = stated_ref (?cs ! i) else \<forall>j < length ks. j \<noteq> i \<longrightarrow> ks ! j \<noteq> ks ! i"
      using keys keys_unique [OF keys s(2) i] i s(2) by (simp add: keys_ok_def)
    assume u: "\<forall>j < length ks. j \<noteq> i \<longrightarrow> ks ! j \<noteq> ks ! i"
    have "mget (DE_Components s) (ks ! i) = Some (decodeCycloneDXComponent L ?v (ks ! i) (?cs ! i))"
      using held i map_of_rev_unique [OF s(2) i u] by (simp add: mget_put_items)
    then have "mget ?m (ks ! i) = Some ((decodeCycloneDXComponent L ?v (ks ! i) (?cs ! i))\<lparr>SC_Vulnerabilities := received L (BOM_Vulnerabilities bom) (ks ! i)\<rparr>)"
      using m by simp
    then show "(decodeCycloneDXComponent L ?v (ks ! i) (?cs ! i))\<lparr>SC_Vulnerabilities := received L (BOM_Vulnerabilities bom) (ks ! i)\<rparr> \<in> set (SB_Components ?d)"
      unfolding cs by (subst table_components(3) [OF conjunct1 [OF m]]) simp
  qed (use s desc(1) ids cs in \<open>simp_all add: cycloneDXDocument_def\<close>)
qed

section \<open>Advisories are folded by their words\<close>

abbreviation named_advisory :: "sbom_vulnerability \<Rightarrow> bool" where
  "named_advisory v \<equiv> TrimSpace (SV_ID v) \<noteq> []"

text \<open>The entry of an advisory before the components it affects are known.\<close>

abbreviation advisory_words :: "library \<Rightarrow> sbom_vulnerability \<Rightarrow> cdx_vulnerability" where
  "advisory_words L v \<equiv> cycloneDXVulnerability L v []"

definition stated_advisories :: "component list \<Rightarrow> (string \<times> sbom_vulnerability) set" where
  "stated_advisories cs = {(SC_ID c, v) |c v. c \<in> set cs \<and> v \<in> set (SC_Vulnerabilities c) \<and> named_advisory v}"

definition accumulated :: "library \<Rightarrow> (cdx_vulnerability \<Rightarrow> string option) \<Rightarrow> accumulators \<Rightarrow> (string \<times> sbom_vulnerability) list \<Rightarrow> bool" where
  "accumulated L json acc ps \<longleftrightarrow>
     distinct (map fst acc)
     \<and> set (map fst acc) = {vulnerabilityKey L json v |i v. (i, v) \<in> set ps \<and> named_advisory v}
     \<and> (\<forall>(k, w, refs) \<in> set acc. k = vulnerabilityKey L json w \<and> w \<in> snd ` set ps \<and> named_advisory w
          \<and> set refs = {i. \<exists>v. (i, v) \<in> set ps \<and> named_advisory v \<and> vulnerabilityKey L json v = k})"

lemma ball3I: "(\<And>k w r. (k, w, r) \<in> A \<Longrightarrow> P k w r) \<Longrightarrow> \<forall>(k, w, r) \<in> A. P k w r"
  by auto

lemma accumulated_step:
  assumes acc: "accumulated L json acc ps"
  shows "accumulated L json (accumulate L json acc (i, v)) (ps @ [(i, v)])"
proof -
  note inv = acc [unfolded accumulated_def]
  have a: "distinct (map fst acc)" "set (map fst acc) = {vulnerabilityKey L json w |j w. (j, w) \<in> set ps \<and> named_advisory w}"
    by (rule conjunct1 [OF inv], rule conjunct1 [OF conjunct2 [OF inv]])
  have each: "k = vulnerabilityKey L json w \<and> w \<in> snd ` set ps \<and> named_advisory w
        \<and> set refs = {j. \<exists>w. (j, w) \<in> set ps \<and> named_advisory w \<and> vulnerabilityKey L json w = k}"
    if "(k, w, refs) \<in> set acc" for k w refs
    using bspec [OF conjunct2 [OF conjunct2 [OF inv]] that] unfolding prod.case .
  show ?thesis
proof (cases "TrimSpace (SV_ID v) = []")
  case True
  then have e: "(\<exists>w. (j, w) \<in> set (ps @ [(i, v)]) \<and> named_advisory w \<and> vulnerabilityKey L json w = k)
     \<longleftrightarrow> (\<exists>w. (j, w) \<in> set ps \<and> named_advisory w \<and> vulnerabilityKey L json w = k)" for j k by auto
  have f: "{vulnerabilityKey L json w |j w. (j, w) \<in> set (ps @ [(i, v)]) \<and> named_advisory w}
     = {vulnerabilityKey L json w |j w. (j, w) \<in> set ps \<and> named_advisory w}" using True by auto
  have g: "accumulate L json acc (i, v) = acc" using True by (simp add: accumulate_def)
  have w: "w \<in> snd ` set ps \<Longrightarrow> w \<in> snd ` set (ps @ [(i, v)])" for w by auto
  have "k = vulnerabilityKey L json w \<and> w \<in> snd ` set (ps @ [(i, v)]) \<and> named_advisory w
      \<and> set refs = {j. \<exists>w. (j, w) \<in> set ps \<and> named_advisory w \<and> vulnerabilityKey L json w = k}"
    if "(k, w, refs) \<in> set acc" for k w refs using each [OF that] w by (elim conjE) (intro conjI)
  then show ?thesis using a unfolding accumulated_def e f g by (intro conjI) (simp, simp, blast)
next
  case named: False
  let ?k = "vulnerabilityKey L json v"
  have f: "{vulnerabilityKey L json w |j w. (j, w) \<in> set (ps @ [(i, v)]) \<and> named_advisory w}
     = insert ?k {vulnerabilityKey L json w |j w. (j, w) \<in> set ps \<and> named_advisory w}" using named by auto
  have e: "{j. \<exists>w. (j, w) \<in> set (ps @ [(i, v)]) \<and> named_advisory w \<and> vulnerabilityKey L json w = k}
     = (if k = ?k then {i} else {}) \<union> {j. \<exists>w. (j, w) \<in> set ps \<and> named_advisory w \<and> vulnerabilityKey L json w = k}" for k
    using named by auto
  show ?thesis
  proof (cases "?k \<in> set (map fst acc)")
    case True
    have m: "map fst (map (\<lambda>(k, w, refs). (k, w, if k = ?k then refs @ [i] else refs)) acc) = map fst acc"
      by (simp add: comp_def case_prod_unfold)
    have "k = vulnerabilityKey L json w \<and> w \<in> snd ` set (ps @ [(i, v)]) \<and> named_advisory w
        \<and> set (if k = ?k then refs @ [i] else refs) = (if k = ?k then {i} else {}) \<union> {j. \<exists>w. (j, w) \<in> set ps \<and> named_advisory w \<and> vulnerabilityKey L json w = k}"
      if "(k, w, refs) \<in> set acc" for k w refs using each [OF that] by auto
    then show ?thesis
      using a True unfolding accumulated_def accumulate_def prod.case if_not_P [OF named] if_P [OF True] m e f
      by (intro conjI) (simp, blast, fastforce)
  next
    case False
    have new: "{j. \<exists>w. (j, w) \<in> set ps \<and> named_advisory w \<and> vulnerabilityKey L json w = ?k} = {}"
    proof (rule equals0I)
      fix j assume "j \<in> {j. \<exists>w. (j, w) \<in> set ps \<and> named_advisory w \<and> vulnerabilityKey L json w = ?k}"
      then obtain w where w: "(j, w) \<in> set ps" "named_advisory w" "vulnerabilityKey L json w = ?k" unfolding mem_Collect_eq by (elim exE conjE)
      have "vulnerabilityKey L json w \<in> set (map fst acc)" unfolding a(2) mem_Collect_eq
        by (rule exI [of _ j], rule exI [of _ w], intro conjI refl w)
      then show False using False unfolding w(3) by contradiction
    qed
    have old: "k \<noteq> ?k \<and> k = vulnerabilityKey L json w \<and> w \<in> snd ` set (ps @ [(i, v)]) \<and> named_advisory w
        \<and> set refs = {j. \<exists>w. (j, w) \<in> set ps \<and> named_advisory w \<and> vulnerabilityKey L json w = k}"
      if m: "(k, w, refs) \<in> set acc" for k w refs
    proof -
      have "k \<in> set (map fst acc)" using m by force
      with False have "k \<noteq> ?k" by blast
      then show ?thesis using each [OF m] unfolding set_append image_Un by (elim conjE) (intro conjI UnI1)
    qed
    have "k = vulnerabilityKey L json w \<and> w \<in> snd ` set (ps @ [(i, v)]) \<and> named_advisory w
        \<and> set refs = (if k = ?k then {i} else {}) \<union> {j. \<exists>w. (j, w) \<in> set ps \<and> named_advisory w \<and> vulnerabilityKey L json w = k}"
      if m: "(k, w, refs) \<in> set (acc @ [(?k, v, [i])])" for k w refs
    proof (cases "(k, w, refs) \<in> set acc")
      case True
      note o = old [OF True]
      show ?thesis unfolding if_not_P [OF conjunct1 [OF o]] Un_empty_left by (rule conjunct2 [OF o])
    next
      case False
      then have w: "k = ?k" "w = v" "refs = [i]" using m by auto
      show ?thesis unfolding w new using named by simp
    qed
    then have ents: "\<forall>(k, w, refs) \<in> set (acc @ [(?k, v, [i])]). k = vulnerabilityKey L json w \<and> w \<in> snd ` set (ps @ [(i, v)]) \<and> named_advisory w
        \<and> set refs = (if k = ?k then {i} else {}) \<union> {j. \<exists>w. (j, w) \<in> set ps \<and> named_advisory w \<and> vulnerabilityKey L json w = k}"
      by (rule ball3I)
    have "accumulate L json acc (i, v) = acc @ [(?k, v, [i])]" using named False by (simp add: accumulate_def)
    moreover have "set (map fst (acc @ [(?k, v, [i])])) = insert ?k (set (map fst acc))" by simp
    moreover have "distinct (map fst (acc @ [(?k, v, [i])]))" using a(1) False by simp
    ultimately show ?thesis
      using ents unfolding accumulated_def e f a(2) [symmetric] by (intro conjI) simp_all
  qed
qed
qed

lemma accumulated_all: "accumulated L json (foldl (accumulate L json) [] ps) ps"
proof (induction ps rule: rev_induct)
  case (snoc p ps)
  then show ?case using accumulated_step by (cases p) simp
qed (simp add: accumulated_def)

lemma affects_only: "(cycloneDXVulnerability L v refs)\<lparr>CV_Affects := []\<rparr> = advisory_words L v"
  "CV_Affects (cycloneDXVulnerability L v refs) = sort refs"
  by (simp_all add: cycloneDXVulnerability_def Let_def)

definition told_apart :: "library \<Rightarrow> (cdx_vulnerability \<Rightarrow> string option) \<Rightarrow> component list \<Rightarrow> bool" where
  "told_apart L json cs \<longleftrightarrow>
     (\<forall>(i, v) \<in> stated_advisories cs. json (advisory_words L v) \<noteq> None
        \<and> (\<forall>(j, w) \<in> stated_advisories cs. json (advisory_words L v) = json (advisory_words L w) \<longrightarrow> advisory_words L v = advisory_words L w))"

lemma told_apart_key:
  assumes "told_apart L json cs" "(i, v) \<in> stated_advisories cs" "(j, w) \<in> stated_advisories cs"
  shows "vulnerabilityKey L json v = vulnerabilityKey L json w \<longleftrightarrow> advisory_words L v = advisory_words L w"
proof -
  have "json (advisory_words L v) \<noteq> None" "json (advisory_words L w) \<noteq> None"
    "json (advisory_words L v) = json (advisory_words L w) \<longrightarrow> advisory_words L v = advisory_words L w"
    using assms unfolding told_apart_def by fast+
  then show ?thesis by (auto simp: vulnerabilityKey_def)
qed

lemma cycloneDXVulnerabilities_folds:
  assumes "told_apart L json cs"
  shows "distinct (map (\<lambda>e. e\<lparr>CV_Affects := []\<rparr>) (cycloneDXVulnerabilities L json cs))
    \<and> (\<lambda>e. e\<lparr>CV_Affects := []\<rparr>) ` set (cycloneDXVulnerabilities L json cs) = (\<lambda>(i, v). advisory_words L v) ` stated_advisories cs
    \<and> (\<forall>e \<in> set (cycloneDXVulnerabilities L json cs). sorted (CV_Affects e)
         \<and> set (CV_Affects e) = {i. \<exists>v. (i, v) \<in> stated_advisories cs \<and> advisory_words L v = e\<lparr>CV_Affects := []\<rparr>})"
proof -
  let ?ps = "concat (map (\<lambda>c. map (Pair (SC_ID c)) (SC_Vulnerabilities c)) cs)"
  let ?acc = "foldl (accumulate L json) [] ?ps" and ?out = "cycloneDXVulnerabilities L json cs"
  have out: "?out = map (\<lambda>(k, v, refs). cycloneDXVulnerability L v refs) ?acc" by (simp add: cycloneDXVulnerabilities_def)
  have ps: "(i, v) \<in> set ?ps \<and> named_advisory v \<longleftrightarrow> (i, v) \<in> stated_advisories cs" for i v
    by (auto simp: stated_advisories_def)
  from accumulated_all [of L json ?ps] have acc: "distinct (map fst ?acc)"
    "set (map fst ?acc) = {vulnerabilityKey L json v |i v. (i, v) \<in> stated_advisories cs}"
    and each: "\<And>k w refs. (k, w, refs) \<in> set ?acc \<Longrightarrow> k = vulnerabilityKey L json w \<and> (\<exists>i. (i, w) \<in> stated_advisories cs)
        \<and> set refs = {i. \<exists>v. (i, v) \<in> stated_advisories cs \<and> vulnerabilityKey L json v = k}"
    unfolding accumulated_def by (simp_all only: ps conj_assoc [symmetric]) (use ps in fastforce)
  have words: "map (\<lambda>e. e\<lparr>CV_Affects := []\<rparr>) ?out = map (\<lambda>(k, v, refs). advisory_words L v) ?acc"
    unfolding out by (simp add: affects_only case_prod_unfold)
  have d: "distinct (map (\<lambda>e. e\<lparr>CV_Affects := []\<rparr>) ?out)"
    unfolding words distinct_map
  proof
    show "distinct ?acc" using acc(1) by (simp add: distinct_map)
    show "inj_on (\<lambda>(k, v, refs). advisory_words L v) (set ?acc)"
    proof (intro inj_onI)
      fix x y assume xy: "x \<in> set ?acc" "y \<in> set ?acc" "(case x of (k, v, refs) \<Rightarrow> advisory_words L v) = (case y of (k, v, refs) \<Rightarrow> advisory_words L v)"
      obtain k v r k' v' r' where p: "x = (k, v, r)" "y = (k', v', r')" by (cases x, cases y)
      obtain i j where "(i, v) \<in> stated_advisories cs" "(j, v') \<in> stated_advisories cs" using each xy p by blast
      then have "k = k'" using told_apart_key [OF assms, of i v j v'] each [of k v r] each [of k' v' r'] xy p by simp
      then show "x = y" using acc(1) xy(1,2) p eq_key_imp_eq_value [OF acc(1)] by fastforce
    qed
  qed
  show ?thesis
  proof (intro conjI ballI)
    show "distinct (map (\<lambda>e. e\<lparr>CV_Affects := []\<rparr>) ?out)" by (rule d)
    show "(\<lambda>e. e\<lparr>CV_Affects := []\<rparr>) ` set ?out = (\<lambda>(i, v). advisory_words L v) ` stated_advisories cs"
    proof (intro set_eqI iffI)
      fix e assume "e \<in> (\<lambda>e. e\<lparr>CV_Affects := []\<rparr>) ` set ?out"
      then have "e \<in> set (map (\<lambda>(k, v, refs). advisory_words L v) ?acc)" unfolding words [symmetric] by simp
      then obtain k v refs where "(k, v, refs) \<in> set ?acc" "e = advisory_words L v" by auto
      then show "e \<in> (\<lambda>(i, v). advisory_words L v) ` stated_advisories cs" using each by force
    next
      fix e assume "e \<in> (\<lambda>(i, v). advisory_words L v) ` stated_advisories cs"
      then obtain i v where v: "(i, v) \<in> stated_advisories cs" "e = advisory_words L v" by auto
      then have "vulnerabilityKey L json v \<in> set (map fst ?acc)" unfolding acc(2) by blast
      then obtain w refs where w: "(vulnerabilityKey L json v, w, refs) \<in> set ?acc" by auto
      then obtain j where "(j, w) \<in> stated_advisories cs" "vulnerabilityKey L json v = vulnerabilityKey L json w" using each by blast
      then have "e = advisory_words L w" using told_apart_key [OF assms v(1)] v(2) by simp
      then have "e \<in> set (map (\<lambda>(k, v, refs). advisory_words L v) ?acc)" using w by force
      then show "e \<in> (\<lambda>e. e\<lparr>CV_Affects := []\<rparr>) ` set ?out" unfolding words [symmetric] by simp
    qed
  next
    fix e assume "e \<in> set ?out"
    then obtain k w refs where w: "(k, w, refs) \<in> set ?acc" "e = cycloneDXVulnerability L w refs" unfolding out by auto
    show "sorted (CV_Affects e)" by (simp add: w(2) affects_only)
    obtain j where j: "(j, w) \<in> stated_advisories cs" "k = vulnerabilityKey L json w"
      "set refs = {i. \<exists>v. (i, v) \<in> stated_advisories cs \<and> vulnerabilityKey L json v = k}" using each [OF w(1)] by blast
    show "set (CV_Affects e) = {i. \<exists>v. (i, v) \<in> stated_advisories cs \<and> advisory_words L v = e\<lparr>CV_Affects := []\<rparr>}"
      unfolding w(2) affects_only set_sort j(2,3) using told_apart_key [OF assms _ j(1)] by blast
  qed
qed

section \<open>A component survives the two directions\<close>

lemma written_fields [simp]:
  "BOMRef (cycloneDXComponent L v c) = SC_ID c" "CX_Name (cycloneDXComponent L v c) = NameOrID c"
  "CX_Group (cycloneDXComponent L v c) = SC_Org c" "CX_Version (cycloneDXComponent L v c) = SC_Version c"
  "CX_PackageURL (cycloneDXComponent L v c) = SC_PURL c"
  "CX_Scope (cycloneDXComponent L v c) = CycloneDXScopeForExport (SC_Scopes c) (SC_SourceScope c)"
  "CX_Properties (cycloneDXComponent L v c) = sort_key Prop_Name (cycloneDXEOLProperties (SC_EOL c) @ cycloneDXScopeProperty (SC_Scopes c))"
  by (simp_all add: cycloneDXComponent_def cycloneDXApplyOriginator_def Let_def split: option.split)

lemma property_names: "cycloneDXEOLProperty < cycloneDXEOLCycleProperty" "cycloneDXEOLCycleProperty < cycloneDXEOLDateProperty"
  "cycloneDXEOLDateProperty < CycloneDXScopeProperty"
  by code_simp+



lemma ParseBool_FormatBool [simp]: "ParseBool (TrimSpace (FormatBool b)) = Some b"
proof -
  have "TrimSpace ''true'' = ''true''" "TrimSpace ''false'' = ''false''" by code_simp+
  then show ?thesis by (simp add: FormatBool_def ParseBool_def)
qed




section \<open>Advisories come back to their components\<close>





section \<open>A document survives the two directions\<close>





lemma primary_fields [simp]: "BOMRef (primary_component L v d c) = SC_ID c"
  by (simp add: primary_component_def Let_def)









definition sample_advisory :: sbom_vulnerability where
  "sample_advisory = \<lparr>SV_ID = ''CVE-1'', SV_Source = [], SV_Severity = [], SV_Score = None, SV_Vector = [], SV_Method = [],
     SV_CWEs = [79], SV_FixedVersions = [], SV_Advisories = [], SV_Description = [], SV_Recommendation = [], SV_Analysis = None\<rparr>"

definition sample_components :: "component list" where
  "sample_components = [Component_zero\<lparr>SC_ID := ''b'', SC_Scopes := [''development''], SC_Vulnerabilities := [sample_advisory]\<rparr>,
     Component_zero\<lparr>SC_ID := ''a'', SC_Vulnerabilities := [sample_advisory]\<rparr>]"


definition plain_cdx_library :: cdx_library where
  "plain_cdx_library = \<lparr>bom_link = \<lambda>_ _. None, bom_encode = \<lambda>_ _ _. None, bom_decode = \<lambda>_. None, advisory_json = \<lambda>e. Some (CV_ID e)\<rparr>"

lemma sample_stated: "stated_advisories sample_components = {(''a'', sample_advisory), (''b'', sample_advisory)}"
proof -
  have "named_advisory sample_advisory" by code_simp
  moreover have "stated_advisories cs = set (concat (map (\<lambda>c. map (Pair (SC_ID c)) (filter named_advisory (SC_Vulnerabilities c))) cs))" for cs
    by (auto simp: stated_advisories_def)
  ultimately show ?thesis by (auto simp: sample_components_def)
qed

lemma sample_told_apart: "told_apart L (\<lambda>e. Some (CV_ID e)) sample_components"
  unfolding told_apart_def sample_stated by simp



text \<open>C17. Advisories are written once for each set of words: when the texts of a document's advisories tell
  them apart, the entries are exactly the distinct wordings the components state under a name, and
  each entry lists, in order, exactly the components that state it.\<close>

theorem cycloneDXVulnerabilities_spec:
  assumes "told_apart L json cs"
  shows "distinct (map (\<lambda>e. e\<lparr>CV_Affects := []\<rparr>) (cycloneDXVulnerabilities L json cs))
    \<and> (\<lambda>e. e\<lparr>CV_Affects := []\<rparr>) ` set (cycloneDXVulnerabilities L json cs) = (\<lambda>(i, v). cycloneDXVulnerability L v []) ` stated_advisories cs
    \<and> (\<forall>e \<in> set (cycloneDXVulnerabilities L json cs). sorted (CV_Affects e)
         \<and> set (CV_Affects e) = {i. \<exists>v. (i, v) \<in> stated_advisories cs \<and> cycloneDXVulnerability L v [] = e\<lparr>CV_Affects := []\<rparr>})"
  using assms by (rule cycloneDXVulnerabilities_folds)

theorem cycloneDXVulnerabilities_spec_witness:
  "\<exists>e. cycloneDXVulnerabilities plain_library (\<lambda>e. Some (CV_ID e)) sample_components = [e] \<and> set (CV_Affects e) = {''a'', ''b''}"
proof -
  let ?out = "cycloneDXVulnerabilities plain_library (\<lambda>e. Some (CV_ID e)) sample_components" and ?w = "cycloneDXVulnerability plain_library sample_advisory []"
  note spec = cycloneDXVulnerabilities_spec [OF sample_told_apart, of plain_library, unfolded sample_stated]
  have words: "set (map (\<lambda>e. e\<lparr>CV_Affects := []\<rparr>) ?out) = {?w}" using spec by simp
  moreover have "distinct (map (\<lambda>e. e\<lparr>CV_Affects := []\<rparr>) ?out)" using spec by blast
  ultimately have "length (map (\<lambda>e. e\<lparr>CV_Affects := []\<rparr>) ?out) = 1" by (metis distinct_card card.empty card_insert_disjoint empty_iff finite.emptyI One_nat_def)
  then obtain e where e: "?out = [e]" by (auto simp: length_Suc_conv)
  then have "e\<lparr>CV_Affects := []\<rparr> = ?w" using words by simp
  then have "set (CV_Affects e) = {''a'', ''b''}" using spec e by auto
  then show ?thesis using e by blast
qed

definition sample_bom :: cdx_bom where
  "sample_bom = (let item = cdx_component_zero\<lparr>CX_Name := ''lib'', CX_Version := ''1''\<rparr>
     in \<lparr>BOM_SpecVersion = SpecVersion1_5, BOM_SerialNumber = [], BOM_Version = 1, BOM_Metadata = None, BOM_Components = [item, item],
         BOM_Dependencies = [], BOM_Vulnerabilities = [], BOM_Compositions = [], BOM_References = []\<rparr>)"

theorem cycloneDXDocument_spec_witness:
  "\<exists>d. cycloneDXDocument plain_library plain_sbom_library plain_cdx_library TargetCycloneDX15JSON sample_bom = Some d
     \<and> 2 \<le> card (set (map SC_ID (SB_Components d)))"
proof -
  have b: "stated_ref (BOM_Components sample_bom ! 0) = []" "length (BOM_Components sample_bom) = 2" by code_simp+
  obtain d ks where d: "cycloneDXDocument plain_library plain_sbom_library plain_cdx_library TargetCycloneDX15JSON sample_bom = Some d"
    "length ks = 2" "set (map SC_ID (SB_Components d)) = set ks \<union> set (SB_Described d)"
    and keys: "\<forall>i < length ks. if stated_ref (BOM_Components sample_bom ! i) \<noteq> [] then ks ! i = stated_ref (BOM_Components sample_bom ! i)
          else \<forall>j < length ks. j \<noteq> i \<longrightarrow> ks ! j \<noteq> ks ! i"
    using cycloneDXDocument_spec [of plain_library plain_sbom_library plain_cdx_library TargetCycloneDX15JSON sample_bom] unfolding b(2)
    by (elim exE conjE) (rule that)
  have "ks ! 1 \<noteq> ks ! 0" using keys [rule_format, of 0] b(1) d(2) by simp
  moreover have "{ks ! 0, ks ! 1} \<subseteq> set (map SC_ID (SB_Components d))" unfolding d(3) using d(2) by simp
  ultimately have "2 \<le> card (set (map SC_ID (SB_Components d)))"
    by (metis card_2_iff card_mono finite_set)
  then show ?thesis using d(1) by blast
qed

end
