(* ===== verification/SpdxDoc.thy ===== *)
theory SpdxDoc
  imports CdxDoc
begin

text \<open>
  A document in SPDX 2.3 (\<open>sbom/spdx23.go\<close>, \<open>sbom/spdx23_assertions.go\<close>), both ways: identifiers,
  packages with their comment carrier, licenses and extracted texts, checksums, references and
  parties, relationships, the creation information and the documents this one was built from. The
  records are the fields of spdx/tools-golang's structures the code reads or writes; a pointer in a
  list is an option.
\<close>

section \<open>The structures of the format\<close>

record spdx_checksum =
  CK_Algorithm :: string
  CK_Value :: string

record spdx_party =
  PA_Type :: string
  PA_Name :: string

record spdx_reference =
  XR_Category :: string
  XR_Type :: string
  XR_Locator :: string
  XR_Comment :: string

record spdx_package =
  PK_Name :: string
  PK_ID :: string
  PK_Version :: string
  PK_Download :: string
  PK_Comment :: string
  PK_Declared :: string
  PK_Concluded :: string
  PK_Copyright :: string
  PK_Checksums :: "spdx_checksum list"
  PK_SourceInfo :: string
  PK_References :: "spdx_reference option list"
  PK_Supplier :: "spdx_party option"
  PK_Originator :: "spdx_party option"
  PK_Description :: string
  PK_Summary :: string
  PK_Homepage :: string
  PK_Purpose :: string

record spdx_element =
  EL_Document :: string
  EL_Element :: string

record spdx_relationship =
  RL_A :: spdx_element
  RL_B :: spdx_element
  RL_Type :: string

record spdx_creation =
  CI_Creators :: "spdx_party list"
  CI_Created :: string
  CI_Comment :: string

record spdx_document_ref =
  DR_ID :: string
  DR_URI :: string
  DR_Checksum :: spdx_checksum

record spdx_other_license =
  OL_ID :: string
  OL_Text :: string

record spdx_document =
  SX_Version :: string
  SX_DataLicense :: string
  SX_ID :: string
  SX_Name :: string
  SX_Namespace :: string
  SX_References :: "spdx_document_ref list"
  SX_Creation :: "spdx_creation option"
  SX_Comment :: string
  SX_Packages :: "spdx_package option list"
  SX_Relationships :: "spdx_relationship option list"
  SX_Licenses :: "spdx_other_license option list"

text \<open>What the code calls of spdx/tools-golang and of the standard library at this level: constants by
  their name, the rendering of an element identifier and of one qualified by a document, the time
  layout of a creation date, the JSON text of a document.\<close>

record spdx_library =
  spdx_constant :: "string \<Rightarrow> string"
  RenderElementID :: "string \<Rightarrow> string"
  RenderDocElementID :: "spdx_element \<Rightarrow> string"
  spdx_time_Format :: "int \<Rightarrow> string"
  spdx_marshal :: "bool \<Rightarrow> spdx_document \<Rightarrow> string option"
  spdx_unmarshal :: "string \<Rightarrow> spdx_document option"

section \<open>Words\<close>

text \<open>\<^verbatim>\<open>strings.ToUpper\<close>, exact where its result is compared with an ASCII word: the two non-ASCII
  code points whose upper case is ASCII (U+0131 and U+017F) are mapped.\<close>

definition upper_rune :: "string \<Rightarrow> string" where
  "upper_rune c =
     (case c of
        [a] \<Rightarrow> if 97 \<le> byte a \<and> byte a \<le> 122 then [char_of (byte a - 32)] else WriteRune c
      | _ \<Rightarrow> if c = [CHR 0xC4, CHR 0xB1] then ''I'' else if c = [CHR 0xC5, CHR 0xBF] then ''S'' else WriteRune c)"

definition ToUpper :: "string \<Rightarrow> string" where
  "ToUpper s = concat (map upper_rune (chunks s))"

definition Cut :: "string \<Rightarrow> string \<Rightarrow> (string \<times> string) option" where
  "Cut s sep = map_option (\<lambda>i. (take i s, drop (i + length sep) s)) (Index s sep)"

section \<open>Identifiers\<close>

record id_allocator =
  Assigned :: "string list"
  NextSuffix :: "(string, nat) gomap"

definition newSPDXIDAllocator :: id_allocator where
  "newSPDXIDAllocator = \<lparr>Assigned = [], NextSuffix = []\<rparr>"

text \<open>The loop of \<open>allocate\<close>; the fuel is the number of candidates it looks at.\<close>

fun id_loop :: "nat \<Rightarrow> string list \<Rightarrow> string \<Rightarrow> nat \<Rightarrow> string \<Rightarrow> (string \<times> nat) option" where
  "id_loop 0 taken base n candidate = None"
| "id_loop (Suc fuel) taken base n candidate =
     (if candidate \<notin> set taken then Some (candidate, n)
      else id_loop fuel taken base (Suc n) (base @ ''-'' @ Itoa (Suc n)))"

definition spdx_allocate :: "id_allocator \<Rightarrow> string \<Rightarrow> (string \<times> id_allocator) option" where
  "spdx_allocate a raw =
     (let base = sanitizeSPDXID raw; n = (case mget (NextSuffix a) base of None \<Rightarrow> 0 | Some n \<Rightarrow> n)
      in map_option (\<lambda>(candidate, m). (candidate, \<lparr>Assigned = candidate # Assigned a,
             NextSuffix = (if m = n then NextSuffix a else mput base m (NextSuffix a))\<rparr>))
           (id_loop (length (Assigned a) + 2) (Assigned a) base n base))"

section \<open>The comment carriers\<close>

definition spdxPackageComment :: "component \<Rightarrow> string" where
  "spdxPackageComment c =
     (let scope = EncodeScopeSet (SC_Scopes c); typ = TrimSpace (SC_Type c);
          fields = (if scope \<noteq> [] then [''scope='' @ scope] else [])
            @ (if typ \<noteq> [] \<and> \<not> EqualFold_ascii typ ''package'' then [''type='' @ typ] else [])
            @ (case SC_EOL c of
                 None \<Rightarrow> []
               | Some e \<Rightarrow> [''eol='' @ FormatBool (SE_EOL e)] @ (if TrimSpace (SE_Date e) \<noteq> [] then [''eol_date='' @ TrimSpace (SE_Date e)] else []))
      in if fields = [] then [] else ''bomly:'' @ Join fields '';'')"

definition field_value :: "string \<Rightarrow> string \<Rightarrow> string option" where
  "field_value field part =
     (case Cut part ''='' of
        None \<Rightarrow> None
      | Some (key, v) \<Rightarrow> if EqualFold_ascii (TrimSpace key) field then Some (TrimSpace v) else None)"

definition parseSPDXCommentField :: "string \<Rightarrow> string \<Rightarrow> string" where
  "parseSPDXCommentField comment field =
     (let comment = TrimSpace comment
      in if \<not> HasPrefix comment ''bomly:'' then []
         else (case List.map_filter (field_value field) (split_on (CHR '';'') (TrimPrefix comment ''bomly:'')) of [] \<Rightarrow> [] | v # _ \<Rightarrow> v))"

definition spdxCommentScopes :: "string \<Rightarrow> scope list \<times> string list" where
  "spdxCommentScopes comment =
     (case DecodeScopeSetLenient (parseSPDXCommentField comment ''scope'') of
        Inl _ \<Rightarrow> ([], []) | Inr decoded \<Rightarrow> (Scopes decoded, Unknown decoded))"

definition spdxCommentEOL :: "string \<Rightarrow> sbom_eol option" where
  "spdxCommentEOL comment =
     (let v = TrimSpace (parseSPDXCommentField comment ''eol'')
      in if v = [] then None
         else (case ParseBool v of
                 None \<Rightarrow> None
               | Some flag \<Rightarrow> Some \<lparr>SE_EOL = flag, SE_Date = TrimSpace (parseSPDXCommentField comment ''eol_date''), SE_Cycle = [], SE_Latest = []\<rparr>))"

definition spdxPrimaryPackagePurpose :: "string \<Rightarrow> string" where
  "spdxPrimaryPackagePurpose componentType =
     (let purpose = ToUpper (TrimSpace componentType)
      in if purpose \<in> {[], ''PACKAGE'', ''LIBRARY''} then ''LIBRARY''
         else if purpose \<in> {''APPLICATION'', ''FRAMEWORK'', ''CONTAINER'', ''OPERATING-SYSTEM'', ''DEVICE'', ''FIRMWARE'',
                           ''SOURCE'', ''ARCHIVE'', ''FILE'', ''INSTALL''} then purpose
         else ''OTHER'')"

definition parseSPDXComponentType :: "spdx_package \<Rightarrow> string" where
  "parseSPDXComponentType p =
     (let v = parseSPDXCommentField (PK_Comment p) ''type'' in if v \<noteq> [] then v else ToLower (TrimSpace (PK_Purpose p)))"

abbreviation spdxCreatorLifecycleKey :: string where "spdxCreatorLifecycleKey \<equiv> ''lifecycle''"
abbreviation spdxCreatorDocumentVersionKey :: string where "spdxCreatorDocumentVersionKey \<equiv> ''document_version''"

definition spdxCreatorComment :: "library \<Rightarrow> sbom_document \<Rightarrow> string" where
  "spdxCreatorComment L d =
     (let p = SB_Provenance d; labelled = (\<lambda>label v. if TrimSpace v = [] then [] else [label @ TrimSpace v]);
          fields = labelled ''SecurityContact: '' (SecurityContact p)
            @ labelled ''VulnerabilityDisclosure: '' (VulnerabilityDisclosureURL p) @ labelled ''SupportEnd: '' (SupportEnd p);
          phase = cycloneDXLifecyclePhase L (SB_Lifecycle d);
          carrier = (if phase \<noteq> [] then [spdxCreatorLifecycleKey @ ''='' @ phase] else [])
            @ [spdxCreatorDocumentVersionKey @ ''='' @ Itoa (nat (SerialVersionOrDefault d))]
      in Join ((if fields = [] then [] else [Join fields ''; '']) @ [''bomly:'' @ Join carrier '';'']) [CHR 0x0A])"

definition parseSPDXCreatorField :: "spdx_creation option \<Rightarrow> string \<Rightarrow> string" where
  "parseSPDXCreatorField ci key =
     (case ci of
        None \<Rightarrow> []
      | Some ci \<Rightarrow>
          (case filter (\<lambda>v. v \<noteq> []) (map (\<lambda>line. parseSPDXCommentField line key) (split_on (CHR 0x0A) (CI_Comment ci))) of
             [] \<Rightarrow> [] | v # _ \<Rightarrow> v))"

definition parseSPDXCreatorLifecycle :: "library \<Rightarrow> spdx_creation option \<Rightarrow> string" where
  "parseSPDXCreatorLifecycle L ci = cycloneDXLifecyclePhase L (parseSPDXCreatorField ci spdxCreatorLifecycleKey)"

text \<open>\<^verbatim>\<open>strconv.Atoi\<close> of what is read: a sign is accepted, a negative value is below one, and a value
  beyond 64 bits is an error.\<close>

definition parseSPDXCreatorDocumentVersion :: "spdx_creation option \<Rightarrow> int" where
  "parseSPDXCreatorDocumentVersion ci =
     (let v = parseSPDXCreatorField ci spdxCreatorDocumentVersionKey;
          digits = (if HasPrefix v ''+'' then drop 1 v else v)
      in if digits = [] \<or> \<not> list_all digit_byte digits then 0
         else (let n = int (Atoi_digits digits) in if n \<ge> 2 ^ 63 then 0 else n))"

section \<open>Licenses\<close>

text \<open>One license field, with the extracted texts its references name.\<close>

definition license_element :: "library \<Rightarrow> string \<Rightarrow> string \<times> extracted_text list" where
  "license_element L v =
     (if Classify L v = ClassFreeText then (RefID (MintLicenseRef L v), [MintLicenseRef L v])
      else (CanonicalExpression L v, []))"

definition spdxLicenseValue :: "library \<Rightarrow> sbom_license list \<Rightarrow> string \<times> extracted_text list" where
  "spdxLicenseValue L ls =
     (let vs = componentLicenseValues ls; elements = map (license_element L) vs
      in if vs = [] then (''NOASSERTION'', [])
         else (if length elements = 1 then fst (hd elements) else Compose L (map fst elements), concat (map snd elements)))"

definition is_concluded :: "sbom_license \<Rightarrow> bool" where
  "is_concluded l \<longleftrightarrow> ParseLicenseType (SL_Type l) = Inr LicenseTypeConcluded"

definition spdxLicenseFields :: "library \<Rightarrow> sbom_license list \<Rightarrow> string \<times> string \<times> extracted_text list" where
  "spdxLicenseFields L ls =
     (let (declared, d) = spdxLicenseValue L (filter (\<lambda>l. \<not> is_concluded l) ls);
          (concluded, c) = spdxLicenseValue L (filter is_concluded ls)
      in (declared, concluded, d @ c))"

definition spdxOtherLicenses :: "extracted_text list \<Rightarrow> spdx_other_license option list" where
  "spdxOtherLicenses extracted =
     (let byRef = foldl (\<lambda>m e. mput (RefID e) (ExText e) m) [] (filter (\<lambda>e. RefID e \<noteq> []) extracted)
      in map (\<lambda>ref. Some \<lparr>OL_ID = ref, OL_Text = the (mget byRef ref)\<rparr>) (sort (mkeys byRef)))"

definition spdxExtractedTexts :: "spdx_other_license option list \<Rightarrow> (string, string) gomap" where
  "spdxExtractedTexts others =
     foldl (\<lambda>m o'. case o' of
         None \<Rightarrow> m
       | Some other \<Rightarrow> if TrimSpace (OL_ID other) = [] then m else mput (TrimSpace (OL_ID other)) (OL_Text other) m) [] others"

definition resolveSingleLicenseRef :: "library \<Rightarrow> (string, string) gomap \<Rightarrow> string \<Rightarrow> string option" where
  "resolveSingleLicenseRef L byRef expression =
     (if byRef = [] then None
      else (case LicenseRefsIn L expression of
              [r] \<Rightarrow> if r \<noteq> expression then None
                     else (case mget byRef expression of
                             None \<Rightarrow> None
                           | Some t \<Rightarrow> if TrimSpace t = [] then None else Some t)
            | _ \<Rightarrow> None))"

definition license_claim :: "library \<Rightarrow> (string, string) gomap \<Rightarrow> string \<times> string \<Rightarrow> sbom_license option" where
  "license_claim L byRef claim =
     (case claim of (field, licenseType) \<Rightarrow>
        (let v = TrimSpace field
         in if v \<in> {[], ''NOASSERTION'', ''NONE''} then None
            else Some \<lparr>SL_Value = (case resolveSingleLicenseRef L byRef v of None \<Rightarrow> v | Some t \<Rightarrow> t), SL_Expression = v, SL_Type = licenseType\<rparr>))"

definition parseSPDXLicenses :: "library \<Rightarrow> (string, string) gomap \<Rightarrow> string \<Rightarrow> string \<Rightarrow> sbom_license list" where
  "parseSPDXLicenses L byRef declared concluded =
     List.map_filter (license_claim L byRef) [(declared, LicenseTypeDeclared), (concluded, LicenseTypeConcluded)]"

definition spdxCopyrightValue :: "string \<Rightarrow> string" where
  "spdxCopyrightValue v = NormalizeCopyright v"

definition parseSPDXCopyright :: "string \<Rightarrow> string" where
  "parseSPDXCopyright v = (if TrimSpace v \<in> {[], ''NOASSERTION'', ''NONE''} then [] else NormalizeCopyright v)"

section \<open>Checksums and origins\<close>

definition spdxChecksumAlgorithm :: "library \<Rightarrow> string \<Rightarrow> string" where
  "spdxChecksumAlgorithm L a = (case ParseDigestAlgorithm L a of Inl _ \<Rightarrow> [] | Inr a \<Rightarrow> DigestAlgorithm_SPDXName L a)"

definition spdxChecksums :: "library \<Rightarrow> sbom_digest list \<Rightarrow> spdx_checksum list" where
  "spdxChecksums L ds =
     List.map_filter (\<lambda>d. case publishableDigest L d of
         None \<Rightarrow> None
       | Some (algorithm, v) \<Rightarrow>
           if spdxChecksumAlgorithm L algorithm = [] then None
           else Some \<lparr>CK_Algorithm = spdxChecksumAlgorithm L algorithm, CK_Value = v\<rparr>) ds"

definition spdxIngestedChecksums :: "spdx_checksum list \<Rightarrow> sbom_digest list" where
  "spdxIngestedChecksums cs = map (\<lambda>c. \<lparr>SD_Algorithm = CK_Algorithm c, SD_Value = CK_Value c\<rparr>) cs"

abbreviation spdxSourceInfoPrefix :: string where "spdxSourceInfoPrefix \<equiv> ''Source repository: ''"
abbreviation spdxOriginRefType :: string where "spdxOriginRefType \<equiv> ''bomly-package-origin''"

definition spdxVCSLocator :: "component \<Rightarrow> string" where
  "spdxVCSLocator c = vcsLocator (SC_VCSURL c) (SC_VCSRevision c)"

definition spdxDownloadLocation :: "component \<Rightarrow> string" where
  "spdxDownloadLocation c =
     (if TrimSpace (SC_ArtifactURL c) \<noteq> [] then TrimSpace (SC_ArtifactURL c)
      else if spdxVCSLocator c \<noteq> [] then spdxVCSLocator c else ''NOASSERTION'')"

definition spdxSourceInfo :: "component \<Rightarrow> string" where
  "spdxSourceInfo c =
     (if TrimSpace (SC_VCSURL c) = [] \<or> TrimSpace (SC_ArtifactURL c) = [] then []
      else spdxSourceInfoPrefix @ spdxVCSLocator c)"

section \<open>References\<close>

definition bare_reference :: "string \<Rightarrow> string \<Rightarrow> string \<Rightarrow> spdx_reference" where
  "bare_reference category reftype locator = \<lparr>XR_Category = category, XR_Type = reftype, XR_Locator = locator, XR_Comment = []\<rparr>"

definition security_reference :: "library \<Rightarrow> string \<Rightarrow> string \<Rightarrow> external_reference option" where
  "security_reference L reftype locator =
     ExternalReference_Normalized L (ExternalReference_zero\<lparr>Category := CategorySecurity, external_reference.RefType := reftype, Locator := locator\<rparr>)"

definition spdxCPEReferenceType :: "library \<Rightarrow> string \<Rightarrow> string" where
  "spdxCPEReferenceType L v =
     (case find (\<lambda>t. security_reference L t v \<noteq> None)
             [spdx_reference_type L ''TypeSecurityCPE23Type'', spdx_reference_type L ''TypeSecurityCPE22Type''] of
        None \<Rightarrow> [] | Some t \<Rightarrow> t)"

fun spdxVulnerabilityLocator :: "library \<Rightarrow> string list \<Rightarrow> string option" where
  "spdxVulnerabilityLocator L [] = None"
| "spdxVulnerabilityLocator L (advisory # rest) =
     (case security_reference L (spdx_reference_type L ''TypeSecurityAdvisory'') advisory of
        Some r \<Rightarrow> Some (Locator r) | None \<Rightarrow> spdxVulnerabilityLocator L rest)"

text \<open>The locators of the origins after the first, each once, and none the primary fields state.\<close>

fun origin_locators :: "string set \<Rightarrow> string list \<Rightarrow> string list" where
  "origin_locators seen [] = []"
| "origin_locators seen (v # vs) =
     (if TrimSpace v = [] \<or> TrimSpace v \<in> seen then origin_locators seen vs
      else TrimSpace v # origin_locators (insert (TrimSpace v) seen) vs)"

definition spdxAdditionalOriginReferences :: "library \<Rightarrow> component \<Rightarrow> spdx_reference list" where
  "spdxAdditionalOriginReferences L c =
     (if length (SC_Origins c) < 2 then []
      else map (bare_reference (spdx_category L ''CategoryOther'') spdxOriginRefType)
             (origin_locators {TrimSpace (SC_ArtifactURL c), spdxVCSLocator c}
                (concat (map (\<lambda>o'. [CO_ArtifactURL o', vcsLocator (CO_Repository o') (CO_Revision o')]) (tl (SC_Origins c))))))"

definition spdxExternalReferences :: "library \<Rightarrow> component \<Rightarrow> spdx_reference list" where
  "spdxExternalReferences L c =
     (if TrimSpace (SC_PURL c) = [] then []
      else [bare_reference (spdx_category L ''CategoryPackageManager'') (spdx_reference_type L ''TypePackageManagerPURL'') (TrimSpace (SC_PURL c))])
     @ List.map_filter (\<lambda>cpe. if TrimSpace cpe = [] \<or> spdxCPEReferenceType L (TrimSpace cpe) = [] then None
          else Some (bare_reference (spdx_category L ''CategorySecurity'') (spdxCPEReferenceType L (TrimSpace cpe)) (TrimSpace cpe))) (SC_CPEs c)
     @ List.map_filter (\<lambda>v. map_option (bare_reference (spdx_category L ''CategorySecurity'') (spdx_reference_type L ''TypeSecurityAdvisory''))
          (spdxVulnerabilityLocator L (SV_Advisories v))) (SC_Vulnerabilities c)
     @ spdxAdditionalOriginReferences L c"

definition emitted_reference :: "library \<Rightarrow> external_reference \<Rightarrow> spdx_reference option" where
  "emitted_reference L r =
     map_option (\<lambda>n. \<lparr>XR_Category = (if category_SPDXName L (Category n) = [] then spdx_category L ''CategoryOther'' else category_SPDXName L (Category n)),
                     XR_Type = external_reference.RefType n, XR_Locator = Locator n, XR_Comment = Comment n\<rparr>)
       (ExternalReference_Normalized L r)"

definition spdxEmittedReferences :: "library \<Rightarrow> external_reference list \<Rightarrow> spdx_reference list" where
  "spdxEmittedReferences L refs = List.map_filter (emitted_reference L) refs"

definition is_cpe_type :: "library \<Rightarrow> string \<Rightarrow> bool" where
  "is_cpe_type L t \<longleftrightarrow> ToLower (TrimSpace t) \<in> {ToLower (spdx_reference_type L ''TypeSecurityCPE23Type''), ToLower (spdx_reference_type L ''TypeSecurityCPE22Type'')}"

definition isBomlyProjectedReference :: "library \<Rightarrow> spdx_reference \<Rightarrow> bool" where
  "isBomlyProjectedReference L r \<longleftrightarrow>
     ToLower (TrimSpace (XR_Type r)) = ToLower (spdx_reference_type L ''TypePackageManagerPURL'') \<or> is_cpe_type L (XR_Type r)
     \<or> ToLower (TrimSpace (XR_Type r)) = spdxOriginRefType"

definition ingested_reference :: "library \<Rightarrow> spdx_reference option \<Rightarrow> external_reference option" where
  "ingested_reference L r =
     (case r of
        None \<Rightarrow> None
      | Some r \<Rightarrow>
          if isBomlyProjectedReference L r then None
          else (case ParseExternalReferenceCategory (XR_Category r) of
                  Inl _ \<Rightarrow> None
                | Inr category \<Rightarrow> Some (ExternalReference_zero\<lparr>Category := category, external_reference.RefType := XR_Type r,
                                       Locator := XR_Locator r, Comment := XR_Comment r\<rparr>)))"

definition spdxIngestedReferences :: "library \<Rightarrow> spdx_reference option list \<Rightarrow> external_reference list" where
  "spdxIngestedReferences L refs =
     (if refs = [] then [] else MergeExternalReferences L [] (List.map_filter (ingested_reference L) refs))"

definition spdxIngestedCPEs :: "library \<Rightarrow> spdx_reference option list \<Rightarrow> string list" where
  "spdxIngestedCPEs L refs =
     dedup_gated Some id []
       (List.map_filter (\<lambda>r. case r of
           None \<Rightarrow> None
         | Some r \<Rightarrow> if is_cpe_type L (XR_Type r) \<and> TrimSpace (XR_Locator r) \<noteq> [] then Some (TrimSpace (XR_Locator r)) else None) refs)"

definition parseSPDXPURL :: "spdx_reference option list \<Rightarrow> string" where
  "parseSPDXPURL refs =
     (case List.map_filter (\<lambda>r. case r of
          None \<Rightarrow> None
        | Some r \<Rightarrow> if EqualFold_ascii (TrimSpace (XR_Category r)) ''PACKAGE-MANAGER'' \<and> EqualFold_ascii (TrimSpace (XR_Type r)) ''purl''
                     then Some (TrimSpace (XR_Locator r)) else None) refs of
        [] \<Rightarrow> [] | l # _ \<Rightarrow> l)"

definition parseSPDXPackageManager :: "library \<Rightarrow> spdx_reference option list \<Rightarrow> string" where
  "parseSPDXPackageManager L refs = PackageManager_Name (packageManagerForPURL L (parseSPDXPURL refs) [] [])"

definition parseSPDXYcosystem :: "library \<Rightarrow> spdx_reference option list \<Rightarrow> string" where
  "parseSPDXYcosystem L refs = (case parsePURL L (parseSPDXPURL refs) of None \<Rightarrow> [] | Some p \<Rightarrow> ecosystemFromPURLType (PType p))"

section \<open>Parties\<close>

abbreviation spdxToolCreatorType :: string where "spdxToolCreatorType \<equiv> ''Tool''"
abbreviation spdxOrganizationCreatorType :: string where "spdxOrganizationCreatorType \<equiv> ''Organization''"

definition spdxContactFrom :: "library \<Rightarrow> string \<Rightarrow> string \<Rightarrow> contact option" where
  "spdxContactFrom L contactType v =
     (let v = TrimSpace v; t = TrimSpace contactType
      in if v = [] then None
         else Option.bind (ParseSPDXContact L (if t = [] then v else t @ '': '' @ v)) (Contact_Normalized L))"

definition spdxIngestedParty :: "library \<Rightarrow> spdx_party option \<Rightarrow> contact option" where
  "spdxIngestedParty L p = (case p of None \<Rightarrow> None | Some p \<Rightarrow> spdxContactFrom L (PA_Type p) (PA_Name p))"

definition spdxContactParts :: "library \<Rightarrow> contact \<Rightarrow> spdx_party option" where
  "spdxContactParts L c =
     (let line = Contact_SPDXString L c
      in if line = [] then None
         else (case Cut line '': '' of
                 None \<Rightarrow> Some \<lparr>PA_Type = [], PA_Name = line\<rparr>
               | Some (prefix, v) \<Rightarrow> Some \<lparr>PA_Type = prefix, PA_Name = v\<rparr>))"

definition spdxPartyFor :: "library \<Rightarrow> contact option \<Rightarrow> spdx_party option" where
  "spdxPartyFor L c = Option.bind c (spdxContactParts L)"

definition spdxToolCreator :: "document_tool \<Rightarrow> string" where
  "spdxToolCreator t =
     (let name = TrimSpace (ToolName t); version = TrimSpace (ToolVersion t)
      in if name \<noteq> [] \<and> version \<noteq> [] then name @ ''-'' @ version else name)"

definition add_creator :: "spdx_party list \<Rightarrow> string \<times> string \<Rightarrow> spdx_party list" where
  "add_creator creators tv =
     (case tv of (t, v) \<Rightarrow>
        (let v = TrimSpace v
         in if v = [] \<or> t @ '': '' @ v \<in> set (map (\<lambda>c. PA_Type c @ '': '' @ PA_Name c) creators) then creators
            else creators @ [\<lparr>PA_Type = t, PA_Name = v\<rparr>]))"

definition spdxDocumentCreators :: "library \<Rightarrow> sbom_document \<Rightarrow> spdx_party list" where
  "spdxDocumentCreators L d =
     foldl add_creator []
       (map (\<lambda>t. (spdxToolCreatorType, spdxToolCreator t)) (documentTools L d)
        @ (if Manufacturer (SB_Provenance d) \<noteq> [] then [(spdxOrganizationCreatorType, Manufacturer (SB_Provenance d))] else [])
        @ List.map_filter (\<lambda>c. Cut (Contact_SPDXString L c) '': '') (Creators (SB_Assertions d)))"

definition extractSPDXToolNames :: "spdx_creation option \<Rightarrow> string list" where
  "extractSPDXToolNames ci =
     (case ci of None \<Rightarrow> [] | Some ci \<Rightarrow> map PA_Name (filter (\<lambda>c. PA_Type c = spdxToolCreatorType) (CI_Creators ci)))"

definition extractSPDXToolName :: "spdx_creation option \<Rightarrow> string" where
  "extractSPDXToolName ci = (case extractSPDXToolNames ci of [] \<Rightarrow> [] | t # _ \<Rightarrow> t)"

definition parseSPDXCreated :: "sbom_library \<Rightarrow> spdx_creation option \<Rightarrow> int option" where
  "parseSPDXCreated E ci = (case ci of None \<Rightarrow> None | Some ci \<Rightarrow> if CI_Created ci = [] then None else time_Parse E (CI_Created ci))"

section \<open>A package\<close>

definition spdx_package_of :: "library \<Rightarrow> string \<Rightarrow> component \<Rightarrow> spdx_package" where
  "spdx_package_of L spdxID c =
     (case spdxLicenseFields L (SC_Licenses c) of (declared, concluded, extracted) \<Rightarrow>
       \<lparr>PK_Name = NameOrID c, PK_ID = spdxID, PK_Version = SC_Version c, PK_Download = spdxDownloadLocation c,
        PK_Comment = spdxPackageComment c, PK_Declared = declared, PK_Concluded = concluded,
        PK_Copyright = spdxCopyrightValue (SC_Copyright c), PK_Checksums = spdxChecksums L (SC_Digests c), PK_SourceInfo = spdxSourceInfo c,
        PK_References = map Some (spdxExternalReferences L c @ spdxEmittedReferences L (SC_References c)),
        PK_Supplier = spdxPartyFor L (SC_Supplier c), PK_Originator = spdxPartyFor L (SC_Originator c),
        PK_Description = NormalizeDescription (SC_Description c), PK_Summary = [], PK_Homepage = NormalizeHomepage L (SC_Homepage c),
        PK_Purpose = spdxPrimaryPackagePurpose (SC_Type c)\<rparr>)"

definition with_manufacturer :: "sbom_document \<Rightarrow> component \<Rightarrow> spdx_package \<Rightarrow> spdx_package" where
  "with_manufacturer d c p =
     (if (SC_ID c \<in> set (describedIDs d) \<or> IsProjectRootComponent c) \<and> Manufacturer (SB_Provenance d) \<noteq> [] \<and> PK_Supplier p = None
      then p\<lparr>PK_Supplier := Some \<lparr>PA_Type = spdxOrganizationCreatorType, PA_Name = Manufacturer (SB_Provenance d)\<rparr>\<rparr> else p)"

definition applySPDXAssertions :: "library \<Rightarrow> spdx_package \<Rightarrow> component \<Rightarrow> component" where
  "applySPDXAssertions L p c =
     (let cpes = spdxIngestedCPEs L (PK_References p); digests = spdxIngestedChecksums (PK_Checksums p)
      in c\<lparr>SC_EOL := spdxCommentEOL (PK_Comment p), SC_Supplier := spdxIngestedParty L (PK_Supplier p),
           SC_Originator := spdxIngestedParty L (PK_Originator p),
           SC_Description := NormalizeDescription (if TrimSpace (PK_Description p) = [] then PK_Summary p else PK_Description p),
           SC_Homepage := NormalizeHomepage L (PK_Homepage p), SC_References := spdxIngestedReferences L (PK_References p),
           SC_CPEs := (if cpes = [] then SC_CPEs c else cpes), SC_Digests := (if digests = [] then SC_Digests c else digests)\<rparr>)"

definition component_from :: "library \<Rightarrow> spdx_library \<Rightarrow> (string, string) gomap \<Rightarrow> spdx_package \<Rightarrow> component" where
  "component_from L S byRef p =
     applySPDXAssertions L p
       (Component_zero\<lparr>SC_ID := RenderElementID S (PK_ID p), SC_Name := PK_Name p, SC_Version := PK_Version p,
          SC_Scopes := fst (spdxCommentScopes (PK_Comment p)), SC_Type := parseSPDXComponentType p, SC_PURL := parseSPDXPURL (PK_References p),
          SC_Ecosystem := parseSPDXYcosystem L (PK_References p), SC_PackageManager := parseSPDXPackageManager L (PK_References p),
          SC_Copyright := parseSPDXCopyright (PK_Copyright p), SC_Licenses := parseSPDXLicenses L byRef (PK_Declared p) (PK_Concluded p)\<rparr>)"

section \<open>Sources\<close>

fun source_refs :: "library \<Rightarrow> id_allocator \<Rightarrow> document_source list \<Rightarrow> spdx_document_ref list option" where
  "source_refs L a [] = Some []"
| "source_refs L a (link # links) =
     (case Option.bind (SourceChecksum link) (Digest_Normalized L) of
        None \<Rightarrow> source_refs L a links
      | Some c \<Rightarrow>
          if Algorithm c \<noteq> ''sha1'' \<or> DigestAlgorithm_SPDXName L (Algorithm c) = [] then source_refs L a links
          else (case spdx_allocate a (SourceIdentity link) of
                  None \<Rightarrow> None
                | Some (i, a) \<Rightarrow>
                    map_option ((#) \<lparr>DR_ID = i, DR_URI = SourceIdentity link,
                        DR_Checksum = \<lparr>CK_Algorithm = DigestAlgorithm_SPDXName L (Algorithm c), CK_Value = Value c\<rparr>\<rparr>)
                      (source_refs L a links)))"

definition spdxSourceLinks :: "library \<Rightarrow> sbom_library \<Rightarrow> sbom_document \<Rightarrow> spdx_document_ref list option" where
  "spdxSourceLinks L E d =
     source_refs L newSPDXIDAllocator
       (documentSourceLinks L E d \<lparr>ID_Namespace = NamespaceOrDefault E d, ID_Serial = [], ID_SerialVersion = 0\<rparr>)"

definition spdxIngestedSources :: "library \<Rightarrow> spdx_document_ref list \<Rightarrow> document_source list" where
  "spdxIngestedSources L refs =
     map (\<lambda>r. \<lparr>SourceIdentity = DR_URI r, SourceVersion = 0,
               SourceChecksum = Digest_Normalized L \<lparr>Algorithm = CK_Algorithm (DR_Checksum r), Value = CK_Value (DR_Checksum r), Subject = []\<rparr>\<rparr>) refs"

text \<open>The tools and the parties a creation record credits.\<close>

definition credited_tools :: "spdx_party list \<Rightarrow> document_tool list" where
  "credited_tools cs =
     map (\<lambda>c. \<lparr>Vendor = [], ToolName = PA_Name c, ToolVersion = []\<rparr>)
       (filter (\<lambda>c. EqualFold_ascii (TrimSpace (PA_Type c)) spdxToolCreatorType) cs)"

definition credited_contacts :: "library \<Rightarrow> spdx_party list \<Rightarrow> contact list" where
  "credited_contacts L cs =
     List.map_filter (\<lambda>c. spdxContactFrom L (PA_Type c) (PA_Name c))
       (filter (\<lambda>c. \<not> EqualFold_ascii (TrimSpace (PA_Type c)) spdxToolCreatorType) cs)"

definition spdxDocumentAssertions :: "library \<Rightarrow> spdx_document \<Rightarrow> document_assertions" where
  "spdxDocumentAssertions L x =
     (let a = Document_zero\<lparr>DocIdentity := SX_Namespace x, DocName := SX_Name x, DataLicense := SX_DataLicense x,
                DocComment := SX_Comment x, DocSources := spdxIngestedSources L (SX_References x)\<rparr>;
          a = (case SX_Creation x of
                 None \<Rightarrow> a
               | Some ci \<Rightarrow> a\<lparr>DocCreated := CI_Created ci, DocVersion := parseSPDXCreatorDocumentVersion (Some ci),
                               Tools := credited_tools (CI_Creators ci), Creators := credited_contacts L (CI_Creators ci)\<rparr>);
          (normalized, ok) = Document_Normalized L a
      in if ok then normalized else Document_zero)"

section \<open>Writing\<close>

record spdx_encoding =
  EN_IDs :: id_allocator
  EN_ByComponent :: "(string, string) gomap"
  EN_Packages :: "spdx_package list"
  EN_Extracted :: "extracted_text list"

fun encode_packages :: "library \<Rightarrow> sbom_document \<Rightarrow> component list \<Rightarrow> spdx_encoding \<Rightarrow> spdx_encoding option" where
  "encode_packages L d [] s = Some s"
| "encode_packages L d (c # cs) s =
     (case spdx_allocate (EN_IDs s) (SC_ID c) of
        None \<Rightarrow> None
      | Some (i, a) \<Rightarrow>
          encode_packages L d cs
            \<lparr>EN_IDs = a, EN_ByComponent = mput (SC_ID c) i (EN_ByComponent s),
             EN_Packages = EN_Packages s @ [with_manufacturer d c (spdx_package_of L i c)],
             EN_Extracted = EN_Extracted s @ snd (snd (spdxLicenseFields L (SC_Licenses c)))\<rparr>)"

definition local_element :: "string \<Rightarrow> spdx_element" where
  "local_element i = \<lparr>EL_Document = [], EL_Element = i\<rparr>"

definition describe_relationships :: "spdx_library \<Rightarrow> (string, string) gomap \<Rightarrow> string list \<Rightarrow> spdx_relationship list" where
  "describe_relationships S m described =
     List.map_filter (\<lambda>r. map_option (\<lambda>i. \<lparr>RL_A = local_element ''DOCUMENT'', RL_B = local_element i,
         RL_Type = spdx_constant S ''TypeRelationshipDescribe''\<rparr>) (mget m r)) described"

definition depends_relationships :: "spdx_library \<Rightarrow> (string, string) gomap \<Rightarrow> sbom_dependency list \<Rightarrow> spdx_relationship list" where
  "depends_relationships S m ds =
     concat (map (\<lambda>d. case mget m (Ref d) of
         None \<Rightarrow> []
       | Some a \<Rightarrow> List.map_filter (\<lambda>t. map_option (\<lambda>b. \<lparr>RL_A = local_element a, RL_B = local_element b,
                       RL_Type = spdx_constant S ''TypeRelationshipDependsOn''\<rparr>) (mget m t)) (RefDependsOn d)) ds)"

definition spdxDocument :: "library \<Rightarrow> sbom_library \<Rightarrow> spdx_library \<Rightarrow> sbom_document \<Rightarrow> spdx_document option" where
  "spdxDocument L E S d =
     (case encode_packages L d (SB_Components d) \<lparr>EN_IDs = newSPDXIDAllocator, EN_ByComponent = [], EN_Packages = [], EN_Extracted = []\<rparr> of
        None \<Rightarrow> None
      | Some s \<Rightarrow>
          map_option (\<lambda>refs.
             \<lparr>SX_Version = spdx_constant S ''Version'', SX_DataLicense = spdx_constant S ''DataLicense'', SX_ID = ''DOCUMENT'',
              SX_Name = NameOrDefault d, SX_Namespace = NamespaceOrDefault E d, SX_References = refs,
              SX_Creation = Some \<lparr>CI_Creators = spdxDocumentCreators L d, CI_Created = spdx_time_Format S (CreatedOrNow E d), CI_Comment = spdxCreatorComment L d\<rparr>,
              SX_Comment = DocComment (SB_Assertions d), SX_Packages = map Some (EN_Packages s),
              SX_Relationships = map Some (describe_relationships S (EN_ByComponent s) (describedIDs d) @ depends_relationships S (EN_ByComponent s) (SB_Dependencies d)),
              SX_Licenses = spdxOtherLicenses (EN_Extracted s)\<rparr>) (spdxSourceLinks L E d))"

definition spdx_encodeJSON :: "library \<Rightarrow> sbom_library \<Rightarrow> spdx_library \<Rightarrow> bool \<Rightarrow> sbom_document \<Rightarrow> string option option" where
  "spdx_encodeJSON L E S pretty d = map_option (spdx_marshal S pretty) (spdxDocument L E S d)"

section \<open>Reading\<close>

definition reversed_dependencies :: "spdx_library \<Rightarrow> string set" where
  "reversed_dependencies S =
     spdx_constant S ` {''TypeRelationshipDependencyOf'', ''TypeRelationshipBuildDependencyOf'', ''TypeRelationshipDevDependencyOf'',
       ''TypeRelationshipOptionalDependencyOf'', ''TypeRelationshipProvidedDependencyOf'', ''TypeRelationshipRuntimeDependencyOf'',
       ''TypeRelationshipTestDependencyOf''}"

definition described_root :: "spdx_library \<Rightarrow> spdx_relationship \<Rightarrow> string option" where
  "described_root S r =
     (let a = RenderDocElementID S (RL_A r); b = RenderDocElementID S (RL_B r)
      in if RL_Type r = spdx_constant S ''TypeRelationshipDescribe'' then (if a = ''SPDXRef-DOCUMENT'' then Some b else None)
         else if RL_Type r = spdx_constant S ''TypeRelationshipDescribeBy'' then (if b = ''SPDXRef-DOCUMENT'' then Some a else None)
         else None)"

definition dependency_pair :: "spdx_library \<Rightarrow> spdx_relationship \<Rightarrow> (string \<times> string) option" where
  "dependency_pair S r =
     (let a = RenderDocElementID S (RL_A r); b = RenderDocElementID S (RL_B r)
      in if RL_Type r \<in> {spdx_constant S ''TypeRelationshipDescribe'', spdx_constant S ''TypeRelationshipDescribeBy''} then None
         else if RL_Type r = spdx_constant S ''TypeRelationshipDependsOn'' then Some (a, b)
         else if RL_Type r \<in> reversed_dependencies S then Some (b, a) else None)"

text \<open>The table \<open>depsByRef\<close>, read off the relationships in their order.\<close>

definition dependencies_below :: "(string \<times> string) list \<Rightarrow> string \<Rightarrow> string list" where
  "dependencies_below pairs i = sort (map snd (filter (\<lambda>(a, b). a = i) pairs))"

definition spdx_read :: "library \<Rightarrow> sbom_library \<Rightarrow> spdx_library \<Rightarrow> spdx_document \<Rightarrow> sbom_document" where
  "spdx_read L E S x =
     (let byRef = spdxExtractedTexts (SX_Licenses x); packages = List.map_filter id (SX_Packages x);
          relationships = List.map_filter id (SX_Relationships x);
          components = map (component_from L S byRef) packages;
          pairs = List.map_filter (dependency_pair S) relationships;
          roots = sort (List.map_filter (described_root S) relationships)
      in \<lparr>SB_Name = SX_Name x, SB_Namespace = SX_Namespace x, SB_Tool = extractSPDXToolName (SX_Creation x),
          SB_Tools = extractSPDXToolNames (SX_Creation x), SB_ToolVersion = [], SB_Created = parseSPDXCreated E (SX_Creation x),
          SB_SerialNumber = [], SB_SerialVersion = parseSPDXCreatorDocumentVersion (SX_Creation x),
          SB_Provenance = \<lparr>Manufacturer = [], SecurityContact = [], VulnerabilityDisclosureURL = [], SupportEnd = []\<rparr>,
          SB_Lifecycle = parseSPDXCreatorLifecycle L (SX_Creation x), SB_Aggregate = [],
          SB_Components = sort_key SC_ID components,
          SB_Dependencies = map (\<lambda>c. \<lparr>Ref = SC_ID c, RefDependsOn = dependencies_below pairs (SC_ID c)\<rparr>) components,
          SB_Roots = roots, SB_Described = roots, SB_Assertions = spdxDocumentAssertions L x,
          SB_UnknownScopeTokens = foldl (\<lambda>u p. mergeUnknownScopeTokens u (snd (spdxCommentScopes (PK_Comment p)))) [] packages,
          SB_Sources = []\<rparr>)"

definition spdx_decodeJSON :: "library \<Rightarrow> sbom_library \<Rightarrow> spdx_library \<Rightarrow> string \<Rightarrow> sbom_document option" where
  "spdx_decodeJSON L E S data = map_option (spdx_read L E S) (spdx_unmarshal S data)"

end
