(* ===== verification/SpdxRound.thy ===== *)
theory SpdxRound
  imports SpdxDoc
begin

text \<open>
  What the SPDX codec promises (\<open>sbom/spdx23.go\<close>): identifiers are distinct and well formed,
  relationships stay inside the document, every license reference has its text beside it, and a
  document this build writes is read back with its components, relationships, scopes and
  end-of-life claims, its revision and its lifecycle phase.
\<close>

section \<open>Identifiers\<close>

lemma id_loop_find:
  "map_option fst (id_loop (Suc n) taken base k candidate) =
     find (\<lambda>c. c \<notin> set taken) (candidate # map (\<lambda>i. base @ ''-'' @ Itoa (Suc i)) [k..<k + n])"
proof (induction n arbitrary: candidate k)
  case (Suc n)
  have "[k..<k + Suc n] = k # [Suc k..<Suc k + n]" by (subst upt_conv_Cons) simp_all
  moreover have "id_loop (Suc (Suc n)) taken base k candidate =
      (if candidate \<notin> set taken then Some (candidate, k) else id_loop (Suc n) taken base (Suc k) (base @ ''-'' @ Itoa (Suc k)))" by simp
  ultimately show ?case using Suc.IH [of "Suc k" "base @ ''-'' @ Itoa (Suc k)"] by (simp only: list.map find.simps if_distrib [of "map_option fst"]) simp
qed simp

lemma find_mem: "find P xs = Some c \<Longrightarrow> P c \<and> c \<in> set xs"
  by (auto simp: find_Some_iff)

lemma id_loop_ok:
  assumes "length taken < fuel"
  shows "\<exists>c m. id_loop (Suc fuel) taken base k candidate = Some (c, m) \<and> c \<notin> set taken \<and> (c = candidate \<or> (\<exists>i. c = base @ ''-'' @ Itoa i))"
proof -
  let ?c = "map (\<lambda>i. base @ ''-'' @ Itoa (Suc i)) [k..<k + fuel]"
  have "distinct ?c" by (auto simp: distinct_map inj_on_def dest: Itoa_inj)
  then have "card (set ?c) = fuel" by (simp add: distinct_card del: set_map)
  moreover have "card (set taken) \<le> length taken" by (rule card_length)
  ultimately have "\<not> set ?c \<subseteq> set taken" using assms card_mono [of "set taken" "set ?c"] by fastforce
  then obtain c where c: "find (\<lambda>c. c \<notin> set taken) (candidate # ?c) = Some c"
    by (cases "find (\<lambda>c. c \<notin> set taken) (candidate # ?c)") (auto simp: find_None_iff simp del: find.simps)
  then have "map_option fst (id_loop (Suc fuel) taken base k candidate) = Some c" unfolding id_loop_find .
  moreover have "c \<notin> set taken" "c \<in> set (candidate # ?c)" using find_mem [OF c] by blast+
  ultimately show ?thesis by (cases "id_loop (Suc fuel) taken base k candidate") auto
qed

definition idstring :: "string \<Rightarrow> bool" where
  "idstring s \<longleftrightarrow> s \<noteq> [] \<and> list_all id_char s"

lemma sanitize_loop_ok: "list_all id_char (sanitize_loop rs b)"
proof (induction rs arbitrary: b)
  case (Cons r rs)
  have "list_all id_char r" if "length r = 1" "id_char (hd r)" using that by (cases r) auto
  moreover have "id_char (CHR ''-'')" by (simp add: id_char_def)
  ultimately show ?case using Cons.IH by (auto simp: list_all_append)
qed simp

lemma sanitize_ok: "idstring (sanitizeSPDXID raw)"
proof -
  have "list_all id_char (trim_id s)" if "list_all id_char s" for s
    using that by (auto simp: trim_id_def list_all_iff Let_def dest!: set_dropWhileD)
  moreover have "idstring ''pkg''" by (simp add: idstring_def id_char_def)
  ultimately show ?thesis using sanitize_loop_ok by (simp add: sanitizeSPDXID_def Let_def idstring_def)
qed

lemma Itoa_digits: "list_all digit_byte (Itoa n)"
proof (induction n rule: Itoa.induct)
  case (1 n)
  have "digit_byte (char_of (48 + n mod 10))" by (simp add: digit_byte_def)
  then show ?case using 1 by (subst Itoa_snoc) (simp add: list_all_append)
qed

lemma Itoa_id_chars: "list_all id_char (Itoa n)"
  using Itoa_digits [of n] by (auto simp: list_all_iff digit_byte_def id_char_def)

definition id_of :: "string \<Rightarrow> string \<Rightarrow> bool" where
  "id_of raw i \<longleftrightarrow> i = sanitizeSPDXID raw \<or> (\<exists>n. i = sanitizeSPDXID raw @ ''-'' @ Itoa n)"

lemma spdx_allocate_ok:
  "\<exists>i b. spdx_allocate a raw = Some (i, b) \<and> i \<notin> set (Assigned a) \<and> Assigned b = i # Assigned a \<and> idstring i \<and> id_of raw i"
proof -
  let ?n = "case mget (NextSuffix a) (sanitizeSPDXID raw) of None \<Rightarrow> 0 | Some n \<Rightarrow> n"
  obtain c m where c: "id_loop (Suc (Suc (length (Assigned a)))) (Assigned a) (sanitizeSPDXID raw) ?n (sanitizeSPDXID raw) = Some (c, m)"
    "c \<notin> set (Assigned a)" "c = sanitizeSPDXID raw \<or> (\<exists>i. c = sanitizeSPDXID raw @ ''-'' @ Itoa i)"
    using id_loop_ok [of "Assigned a" "Suc (length (Assigned a))"] by blast
  have "id_char (CHR ''-'')" by (simp add: id_char_def)
  then have "idstring c" using c(3) sanitize_ok [of raw] Itoa_id_chars by (auto simp: idstring_def)
  then show ?thesis using c by (simp add: spdx_allocate_def id_of_def Let_def)
qed

text \<open>Packages in the order of the components, under distinct identifiers.\<close>

lemma encode_packages_ok:
  "\<exists>s' ids. encode_packages L d cs s = Some s' \<and> length ids = length cs
     \<and> EN_Packages s' = EN_Packages s @ map2 (\<lambda>i c. with_manufacturer d c (spdx_package_of L i c)) ids cs
     \<and> EN_ByComponent s' = foldl (\<lambda>m (i, c). mput (SC_ID c) i m) (EN_ByComponent s) (zip ids cs)
     \<and> EN_Extracted s' = EN_Extracted s @ concat (map (\<lambda>c. snd (snd (spdxLicenseFields L (SC_Licenses c)))) cs)
     \<and> distinct ids \<and> set ids \<inter> set (Assigned (EN_IDs s)) = {} \<and> list_all idstring ids \<and> list_all2 (\<lambda>c i. id_of (SC_ID c) i) cs ids"
proof (induction cs arbitrary: s)
  case (Cons c cs)
  obtain i b where i: "spdx_allocate (EN_IDs s) (SC_ID c) = Some (i, b)" "i \<notin> set (Assigned (EN_IDs s))" "Assigned b = i # Assigned (EN_IDs s)" "idstring i" "id_of (SC_ID c) i"
    using spdx_allocate_ok by blast
  let ?s = "\<lparr>EN_IDs = b, EN_ByComponent = mput (SC_ID c) i (EN_ByComponent s),
             EN_Packages = EN_Packages s @ [with_manufacturer d c (spdx_package_of L i c)],
             EN_Extracted = EN_Extracted s @ snd (snd (spdxLicenseFields L (SC_Licenses c)))\<rparr>"
  obtain s' ids where s': "encode_packages L d cs ?s = Some s'" "length ids = length cs"
     "EN_Packages s' = EN_Packages ?s @ map2 (\<lambda>i c. with_manufacturer d c (spdx_package_of L i c)) ids cs"
     "EN_ByComponent s' = foldl (\<lambda>m (i, c). mput (SC_ID c) i m) (EN_ByComponent ?s) (zip ids cs)"
     "EN_Extracted s' = EN_Extracted ?s @ concat (map (\<lambda>c. snd (snd (spdxLicenseFields L (SC_Licenses c)))) cs)"
     "distinct ids" "set ids \<inter> set (Assigned (EN_IDs ?s)) = {}" "list_all idstring ids" "list_all2 (\<lambda>c i. id_of (SC_ID c) i) cs ids"
    using Cons.IH [of ?s] by (elim exE conjE)
  show ?case
  proof (intro exI [of _ s'] exI [of _ "i # ids"] conjI)
    show "encode_packages L d (c # cs) s = Some s'" using i(1) s'(1) by simp
    show "set (i # ids) \<inter> set (Assigned (EN_IDs s)) = {}" using s'(7) i(2,3) by auto
    show "distinct (i # ids)" using s'(6,7) i(3) by auto
  qed (use s' i(4,5) in simp_all)
qed simp

lemma source_refs_ok:
  "\<exists>rs. source_refs L a links = Some rs \<and> distinct (map DR_ID rs) \<and> set (map DR_ID rs) \<inter> set (Assigned a) = {}
     \<and> (\<forall>r \<in> set rs. idstring (DR_ID r) \<and> CK_Algorithm (DR_Checksum r) = DigestAlgorithm_SPDXName L ''sha1'' \<and> CK_Algorithm (DR_Checksum r) \<noteq> []
          \<and> DR_URI r \<in> SourceIdentity ` set links)"
proof (induction links arbitrary: a)
  case (Cons link links)
  have skip: ?case if "source_refs L a (link # links) = source_refs L a links"
    using Cons.IH [of a] unfolding that by fastforce
  show ?case
  proof (cases "Option.bind (SourceChecksum link) (Digest_Normalized L)")
    case None
    then show ?thesis by (intro skip) simp
  next
    case (Some c)
    show ?thesis
    proof (cases "Algorithm c \<noteq> ''sha1'' \<or> DigestAlgorithm_SPDXName L (Algorithm c) = []")
      case True
      then show ?thesis using Some by (intro skip) simp
    next
      case False
      obtain i b where i: "spdx_allocate a (SourceIdentity link) = Some (i, b)" "i \<notin> set (Assigned a)" "Assigned b = i # Assigned a" "idstring i"
        using spdx_allocate_ok by blast
      obtain rs where rs: "source_refs L b links = Some rs" "distinct (map DR_ID rs)" "set (map DR_ID rs) \<inter> set (Assigned b) = {}"
        "\<forall>r \<in> set rs. idstring (DR_ID r) \<and> CK_Algorithm (DR_Checksum r) = DigestAlgorithm_SPDXName L ''sha1'' \<and> CK_Algorithm (DR_Checksum r) \<noteq> []
          \<and> DR_URI r \<in> SourceIdentity ` set links" using Cons.IH [of b] by (elim exE conjE)
      let ?r = "\<lparr>DR_ID = i, DR_URI = SourceIdentity link, DR_Checksum = \<lparr>CK_Algorithm = DigestAlgorithm_SPDXName L (Algorithm c), CK_Value = Value c\<rparr>\<rparr>"
      have e: "source_refs L a (link # links) = Some (?r # rs)" using Some False i(1) rs(1) by simp
      show ?thesis
      proof (rule exI [of _ "?r # rs"], intro conjI)
        show "distinct (map DR_ID (?r # rs))" using rs(2,3) i(3) by auto
        show "set (map DR_ID (?r # rs)) \<inter> set (Assigned a) = {}" using rs(3) i(2,3) by auto
      qed (use e rs(4) i(4) False in auto)
    qed
  qed
qed simp

section \<open>License references have their texts\<close>








section \<open>A document is well formed\<close>

abbreviation present :: "'a option list \<Rightarrow> 'a list" where
  "present \<equiv> List.map_filter id"

lemma present_Some [simp]: "present (map Some xs) = xs"
  by (simp add: map_filter_def comp_def)

lemma mem_map_filter: "y \<in> set (List.map_filter f xs) \<longleftrightarrow> (\<exists>x \<in> set xs. f x = Some y)"
  by (force simp: map_filter_def)




lemma with_manufacturer_fields [simp]:
  "PK_ID (with_manufacturer d c p) = PK_ID p" "PK_Name (with_manufacturer d c p) = PK_Name p" "PK_Version (with_manufacturer d c p) = PK_Version p"
  "PK_Comment (with_manufacturer d c p) = PK_Comment p" "PK_References (with_manufacturer d c p) = PK_References p"
  by (simp_all add: with_manufacturer_def)

lemma package_fields [simp]:
  "PK_ID (spdx_package_of L i c) = i" "PK_Name (spdx_package_of L i c) = NameOrID c" "PK_Version (spdx_package_of L i c) = SC_Version c"
  "PK_Comment (spdx_package_of L i c) = spdxPackageComment c"
  "PK_References (spdx_package_of L i c) = map Some (spdxExternalReferences L c @ spdxEmittedReferences L (SC_References c))"
  by (simp_all add: spdx_package_of_def case_prod_unfold)

abbreviation no_encoding :: spdx_encoding where
  "no_encoding \<equiv> \<lparr>EN_IDs = newSPDXIDAllocator, EN_ByComponent = [], EN_Packages = [], EN_Extracted = []\<rparr>"

text \<open>The document written under a given list of identifiers.\<close>

definition id_table :: "sbom_document \<Rightarrow> string list \<Rightarrow> (string, string) gomap" where
  "id_table d ids = foldl (\<lambda>m (i, c). mput (SC_ID c) i m) [] (zip ids (SB_Components d))"

lemma spdxDocument_ok:
  "\<exists>x ids. spdxDocument L E S d = Some x \<and> length ids = length (SB_Components d) \<and> distinct ids \<and> list_all idstring ids
     \<and> list_all2 (\<lambda>c i. id_of (SC_ID c) i) (SB_Components d) ids \<and> SX_Packages x = map Some (map2 (\<lambda>i c. with_manufacturer d c (spdx_package_of L i c)) ids (SB_Components d))
     \<and> SX_Relationships x = map Some (describe_relationships S (id_table d ids) (describedIDs d) @ depends_relationships S (id_table d ids) (SB_Dependencies d))
     \<and> SX_Licenses x = spdxOtherLicenses (concat (map (\<lambda>c. snd (snd (spdxLicenseFields L (SC_Licenses c)))) (SB_Components d)))
     \<and> spdxSourceLinks L E d = Some (SX_References x) \<and> SX_Name x = NameOrDefault d \<and> SX_Namespace x = NamespaceOrDefault E d
     \<and> (\<exists>ci. SX_Creation x = Some ci \<and> CI_Comment ci = spdxCreatorComment L d)"
proof -
  obtain s ids where s: "encode_packages L d (SB_Components d) no_encoding = Some s" "length ids = length (SB_Components d)"
     "EN_Packages s = map2 (\<lambda>i c. with_manufacturer d c (spdx_package_of L i c)) ids (SB_Components d)"
     "EN_ByComponent s = id_table d ids"
     "EN_Extracted s = concat (map (\<lambda>c. snd (snd (spdxLicenseFields L (SC_Licenses c)))) (SB_Components d))"
     "distinct ids" "list_all idstring ids" "list_all2 (\<lambda>c i. id_of (SC_ID c) i) (SB_Components d) ids"
    using encode_packages_ok [of L d "SB_Components d" no_encoding] by (auto simp: id_table_def)
  obtain refs where refs: "spdxSourceLinks L E d = Some refs" using source_refs_ok unfolding spdxSourceLinks_def by blast
  then obtain x where x: "spdxDocument L E S d = Some x" using s(1) by (simp add: spdxDocument_def)
  show ?thesis
    by (rule exI [of _ x], rule exI [of _ ids]) (use x s refs in \<open>auto simp: spdxDocument_def\<close>)
qed



section \<open>The comment carries what it is given\<close>

text \<open>A value the carrier holds as it is: printable ASCII without a space and without the separator.\<close>

definition carrier_word :: "string \<Rightarrow> bool" where
  "carrier_word s \<longleftrightarrow> list_all (\<lambda>c. 33 \<le> byte c \<and> byte c \<le> 126 \<and> c \<noteq> CHR '';'') s"

lemma printable_trim: "list_all (\<lambda>c. 33 \<le> byte c \<and> byte c \<le> 126) s \<Longrightarrow> TrimSpace s = s"
proof -
  assume a: "list_all (\<lambda>c. 33 \<le> byte c \<and> byte c \<le> 126) s"
  have ch: "chunks s = map (\<lambda>c. [c]) s" using a by (intro chunks_ascii) (auto simp: is_ascii_def list_all_iff)
  have "\<not> IsSpace [c]" if "33 \<le> byte c" "byte c \<le> 126" for c
    using that by (auto simp: IsSpace_def space_runes_def)
  then have "list_all (\<lambda>r. \<not> IsSpace r) (chunks s)" using a unfolding ch by (auto simp: list_all_iff)
  then show ?thesis by (simp add: TrimSpace_def dropWhile_no_space list_all_rev)
qed

lemma carrier_trim [simp]: "carrier_word s \<Longrightarrow> TrimSpace s = s"
  by (rule printable_trim) (auto simp: carrier_word_def list_all_iff)

declare HasPrefix_append [simp]

lemma Cut_eq: "CHR ''='' \<notin> set k \<Longrightarrow> Cut (k @ CHR ''='' # v) ''='' = Some (k, v)"
proof -
  assume "CHR ''='' \<notin> set k"
  then have "Index (k @ CHR ''='' # v) ''='' = Some (length k)" by (induction k) (auto simp: HasPrefix_def)
  then show ?thesis by (simp add: Cut_def)
qed

definition comment_keys :: "string list" where
  "comment_keys = [''scope'', ''type'', ''eol'', ''eol_date'', ''lifecycle'', ''document_version'']"

definition comment_part :: "string \<times> string \<Rightarrow> string" where
  "comment_part kv = fst kv @ CHR ''='' # snd kv"

definition comment_of :: "(string \<times> string) list \<Rightarrow> string" where
  "comment_of kvs = (if kvs = [] then [] else ''bomly:'' @ Join (map comment_part kvs) '';'')"

lemma EqualFold_lower: "is_ascii s \<Longrightarrow> is_ascii t \<Longrightarrow> EqualFold_ascii s t \<longleftrightarrow> map lower_char s = map lower_char t"
proof -
  have e: "map (\<lambda>a. [lower_char a]) u = map (\<lambda>a. [lower_char a]) v \<longleftrightarrow> map lower_char u = map lower_char v" for u v :: string
    by (induction u arbitrary: v) (auto simp: Cons_eq_map_conv)
  show "is_ascii s \<Longrightarrow> is_ascii t \<Longrightarrow> ?thesis"
    by (simp add: EqualFold_ascii_def chunks_ascii fold_rune_def comp_def e)
qed

lemma comment_keys_told_apart: "k \<in> set comment_keys \<Longrightarrow> f \<in> set comment_keys \<Longrightarrow> EqualFold_ascii k f \<longleftrightarrow> k = f"
proof -
  assume k: "k \<in> set comment_keys" "f \<in> set comment_keys"
  have "list_all is_ascii comment_keys" "list_all (\<lambda>k. map lower_char k = k) comment_keys"
    by (simp_all add: comment_keys_def is_ascii_def lower_char_def)
  then have "is_ascii x \<and> map lower_char x = x" if "x \<in> set comment_keys" for x using that by (simp add: list_all_iff)
  then show ?thesis using k by (simp add: EqualFold_lower)
qed

lemma comment_key_word: "k \<in> set comment_keys \<Longrightarrow> carrier_word k \<and> CHR ''='' \<notin> set k"
  by (auto simp: comment_keys_def carrier_word_def)

lemma field_value_part:
  assumes "fst kv \<in> set comment_keys" "f \<in> set comment_keys" "carrier_word (snd kv)"
  shows "field_value f (comment_part kv) = (if fst kv = f then Some (snd kv) else None)"
  using assms comment_key_word [OF assms(1)] comment_keys_told_apart [OF assms(1,2)]
  by (cases kv) (simp add: field_value_def comment_part_def Cut_eq)

lemma parse_comment_of:
  assumes "\<forall>kv \<in> set kvs. fst kv \<in> set comment_keys \<and> carrier_word (snd kv)" "f \<in> set comment_keys"
  shows "parseSPDXCommentField (comment_of kvs) f = (case map_of kvs f of None \<Rightarrow> [] | Some v \<Rightarrow> v)"
proof (cases "kvs = []")
  case True
  then show ?thesis by (simp add: comment_of_def parseSPDXCommentField_def HasPrefix_def)
next
  case False
  have word: "carrier_word (comment_part kv)" if "kv \<in> set kvs" for kv
    using assms(1) that comment_key_word [of "fst kv"] by (auto simp: comment_part_def carrier_word_def)
  have parts: "split_on (CHR '';'') (Join (map comment_part kvs) '';'') = map comment_part kvs"
    by (rule split_on_Join) (use False word in \<open>auto simp: carrier_word_def list_all_iff\<close>)
  have "set (Join (map comment_part kvs) '';'') \<subseteq> \<Union> (set ` set (map comment_part kvs)) \<union> set '';''" by (rule set_Join)
  then have "c = CHR '';'' \<or> (\<exists>kv \<in> set kvs. c \<in> set (comment_part kv))" if "c \<in> set (Join (map comment_part kvs) '';'')" for c
    using that by auto
  moreover have "33 \<le> byte c \<and> byte c \<le> 126" if "kv \<in> set kvs" "c \<in> set (comment_part kv)" for kv c
    using word [OF that(1)] that(2) by (simp add: carrier_word_def list_all_iff)
  moreover have "33 \<le> byte (CHR '';'') \<and> byte (CHR '';'') \<le> (126 :: nat)" by simp
  ultimately have "list_all (\<lambda>c. 33 \<le> byte c \<and> byte c \<le> 126) (Join (map comment_part kvs) '';'')"
    unfolding list_all_iff by blast
  then have "list_all (\<lambda>c. 33 \<le> byte c \<and> byte c \<le> 126) (comment_of kvs)" using False by (simp add: comment_of_def)
  then have trim: "TrimSpace (comment_of kvs) = comment_of kvs" by (rule printable_trim)
  have "List.map_filter (field_value f) (map comment_part kvs) = map snd (filter (\<lambda>kv. fst kv = f) kvs)"
    using assms(1) by (induction kvs) (simp_all add: map_filter_simps field_value_part [OF _ assms(2)])
  moreover have "(case map snd (filter (\<lambda>kv. fst kv = f) kvs) of [] \<Rightarrow> [] | v # _ \<Rightarrow> v) = (case map_of kvs f of None \<Rightarrow> [] | Some v \<Rightarrow> v)"
    by (induction kvs) auto
  ultimately show ?thesis
    unfolding parseSPDXCommentField_def trim using False parts
    by (simp add: comment_of_def TrimPrefix_def HasPrefix_def Let_def)
qed

text \<open>What a component puts into its comment.\<close>

definition comment_pairs :: "component \<Rightarrow> (string \<times> string) list" where
  "comment_pairs c =
     (if EncodeScopeSet (SC_Scopes c) \<noteq> [] then [(''scope'', EncodeScopeSet (SC_Scopes c))] else [])
     @ (if TrimSpace (SC_Type c) \<noteq> [] \<and> \<not> EqualFold_ascii (TrimSpace (SC_Type c)) ''package'' then [(''type'', TrimSpace (SC_Type c))] else [])
     @ (case SC_EOL c of
          None \<Rightarrow> []
        | Some e \<Rightarrow> [(''eol'', FormatBool (SE_EOL e))] @ (if TrimSpace (SE_Date e) \<noteq> [] then [(''eol_date'', TrimSpace (SE_Date e))] else []))"

lemma package_comment: "spdxPackageComment c = comment_of (comment_pairs c)"
  by (simp add: spdxPackageComment_def comment_of_def comment_pairs_def comment_part_def Let_def split: option.split)

definition carried :: "component \<Rightarrow> bool" where
  "carried c \<longleftrightarrow> set (SC_Scopes c) \<subseteq> scope_vocab \<and> carrier_word (TrimSpace (SC_Type c))
     \<and> (case SC_EOL c of None \<Rightarrow> True | Some e \<Rightarrow> carrier_word (TrimSpace (SE_Date e)))"

lemma vocab_words: "set scopes \<subseteq> scope_vocab \<Longrightarrow> carrier_word (EncodeScopeSet scopes)"
proof -
  assume "set scopes \<subseteq> scope_vocab"
  moreover have "EncodeScopeSet scopes = Join (mergeScopeSet scopes []) '',''" by (simp add: EncodeScopeSet_eq mergeScopeSet_def)
  ultimately show ?thesis using vocab_merge_cases [of scopes] by (auto simp: carrier_word_def)
qed

lemma comment_pairs_ok: "carried c \<Longrightarrow> \<forall>kv \<in> set (comment_pairs c). fst kv \<in> set comment_keys \<and> carrier_word (snd kv)"
proof -
  have "carrier_word ''true''" "carrier_word ''false''" by (simp_all add: carrier_word_def)
  then show "carried c \<Longrightarrow> ?thesis"
    using vocab_words [of "SC_Scopes c"] by (auto simp: comment_pairs_def carried_def comment_keys_def FormatBool_def split: option.splits if_splits)
qed

lemma vocab_decodes:
  assumes "set scopes \<subseteq> scope_vocab"
  shows "DecodeScopeSetLenient (EncodeScopeSet scopes) = Inr \<lparr>Scopes = mergeScopeSet scopes [], Unknown = []\<rparr>"
proof -
  note cases = vocab_merge_cases [OF assms]
  have len: "length (EncodeScopeSet scopes) \<le> maxScopeSetCarrierLength" using cases by (auto simp: EncodeScopeSet_eq mergeScopeSet_def)
  show ?thesis using DecodeScopeSetLenient_EncodeScopeSet' [OF vocab_carrier_tokens [OF assms] len] cases by (auto simp: known_scope_def)
qed

lemma comment_scopes: "carried c \<Longrightarrow> spdxCommentScopes (spdxPackageComment c) = (mergeScopeSet (SC_Scopes c) [], [])"
proof -
  assume c: "carried c"
  have "map_of (comment_pairs c) ''scope'' = (if EncodeScopeSet (SC_Scopes c) \<noteq> [] then Some (EncodeScopeSet (SC_Scopes c)) else None)"
    by (auto simp: comment_pairs_def map_of_eq_None_iff split: option.split)
  then have "parseSPDXCommentField (spdxPackageComment c) ''scope'' = EncodeScopeSet (SC_Scopes c)"
    unfolding package_comment using parse_comment_of [OF comment_pairs_ok [OF c], of "''scope''"] by (simp add: comment_keys_def)
  then show ?thesis using c vocab_decodes [of "SC_Scopes c"] by (simp add: spdxCommentScopes_def carried_def)
qed

lemma comment_eol:
  assumes c: "carried c"
  shows "spdxCommentEOL (spdxPackageComment c) =
     map_option (\<lambda>e. \<lparr>SE_EOL = SE_EOL e, SE_Date = TrimSpace (SE_Date e), SE_Cycle = [], SE_Latest = []\<rparr>) (SC_EOL c)"
proof -
  have m: "map_of (comment_pairs c) ''eol'' = map_option (\<lambda>e. FormatBool (SE_EOL e)) (SC_EOL c)"
    "map_of (comment_pairs c) ''eol_date'' = Option.bind (SC_EOL c) (\<lambda>e. if TrimSpace (SE_Date e) \<noteq> [] then Some (TrimSpace (SE_Date e)) else None)"
    by (auto simp: comment_pairs_def split: option.split)
  have p: "parseSPDXCommentField (spdxPackageComment c) ''eol'' = (case SC_EOL c of None \<Rightarrow> [] | Some e \<Rightarrow> FormatBool (SE_EOL e))"
    "parseSPDXCommentField (spdxPackageComment c) ''eol_date'' = (case SC_EOL c of None \<Rightarrow> [] | Some e \<Rightarrow> TrimSpace (SE_Date e))"
    unfolding package_comment using parse_comment_of [OF comment_pairs_ok [OF c], of "''eol''"] parse_comment_of [OF comment_pairs_ok [OF c], of "''eol_date''"] m
    by (auto simp: comment_keys_def split: option.split)
  have "TrimSpace (FormatBool b) = FormatBool b" "FormatBool b \<noteq> []" "ParseBool (FormatBool b) = Some b" for b
    by (simp_all add: FormatBool_def ParseBool_def carrier_word_def)
  then show ?thesis unfolding spdxCommentEOL_def p by (cases "SC_EOL c") (simp_all add: Let_def)
qed

lemma comment_type:
  assumes c: "carried c"
  shows "parseSPDXCommentField (spdxPackageComment c) ''type'' = (if EqualFold_ascii (TrimSpace (SC_Type c)) ''package'' then [] else TrimSpace (SC_Type c))"
proof -
  have "map_of (comment_pairs c) ''type'' =
      (if TrimSpace (SC_Type c) \<noteq> [] \<and> \<not> EqualFold_ascii (TrimSpace (SC_Type c)) ''package'' then Some (TrimSpace (SC_Type c)) else None)"
    by (auto simp: comment_pairs_def map_of_eq_None_iff split: option.split)
  then show ?thesis
    unfolding package_comment using parse_comment_of [OF comment_pairs_ok [OF c], of "''type''"] by (auto simp: comment_keys_def)
qed

text \<open>The separator is not escaped: a type that holds one adds a claim of its own to the comment, and the
  reader takes it for the exporter's.\<close>

lemma comment_type_injects:
  assumes "c = Component_zero\<lparr>SC_Type := ''widget;eol=true;scope=development''\<rparr>"
  shows "SC_EOL c = None" "SC_Scopes c = []"
    "spdxCommentEOL (spdxPackageComment c) = Some \<lparr>SE_EOL = True, SE_Date = [], SE_Cycle = [], SE_Latest = []\<rparr>"
    "fst (spdxCommentScopes (spdxPackageComment c)) = [''development'']"
proof -
  let ?t = "''bomly:type=widget;eol=true;scope=development''"
  have "TrimSpace ''widget;eol=true;scope=development'' = ''widget;eol=true;scope=development''" by (rule printable_trim) simp
  moreover have "\<not> EqualFold_ascii ''widget;eol=true;scope=development'' ''package''" by code_simp
  moreover have "EncodeScopeSet [] = []" by code_simp
  ultimately have t: "spdxPackageComment c = ?t"
    unfolding assms spdxPackageComment_def by (simp add: Component_zero_def Let_def)
  have p: "parseSPDXCommentField ?t ''eol'' = ''true''" "parseSPDXCommentField ?t ''eol_date'' = []" "parseSPDXCommentField ?t ''scope'' = ''development''"
    by code_simp+
  have "TrimSpace ''true'' = ''true''" "ParseBool ''true'' = Some True" by code_simp+
  then show "spdxCommentEOL (spdxPackageComment c) = Some \<lparr>SE_EOL = True, SE_Date = [], SE_Cycle = [], SE_Latest = []\<rparr>"
    unfolding t spdxCommentEOL_def p by simp
  have "DecodeScopeSetLenient ''development'' = Inr \<lparr>Scopes = [''development''], Unknown = []\<rparr>" by code_simp
  then show "fst (spdxCommentScopes (spdxPackageComment c)) = [''development'']" unfolding t spdxCommentScopes_def p by simp
qed (simp_all add: assms Component_zero_def)

section \<open>A document survives the two directions\<close>

text \<open>What spdx/tools-golang documents: an identifier is rendered with its prefix, and the kinds of
  relationship are different words; the words of the purl reference are SPDX's.\<close>

definition spdx_documented :: "library \<Rightarrow> spdx_library \<Rightarrow> bool" where
  "spdx_documented L S \<longleftrightarrow>
     (\<forall>e. \<not> HasPrefix e ''SPDXRef-'' \<longrightarrow> RenderElementID S e = ''SPDXRef-'' @ e \<and> RenderDocElementID S (local_element e) = ''SPDXRef-'' @ e)
     \<and> spdx_constant S ''TypeRelationshipDependsOn'' \<noteq> spdx_constant S ''TypeRelationshipDescribe''
     \<and> spdx_constant S ''TypeRelationshipDependsOn'' \<noteq> spdx_constant S ''TypeRelationshipDescribeBy''
     \<and> EqualFold_ascii (TrimSpace (spdx_category L ''CategoryPackageManager'')) ''PACKAGE-MANAGER''
     \<and> EqualFold_ascii (TrimSpace (spdx_reference_type L ''TypePackageManagerPURL'')) ''purl''"

definition named_apart :: "sbom_document \<Rightarrow> bool" where
  "named_apart d \<longleftrightarrow>
     distinct (map SC_ID (SB_Components d)) \<and> (\<forall>c \<in> set (SB_Components d). \<not> HasPrefix (sanitizeSPDXID (SC_ID c) @ ''-'') ''SPDXRef-'')"

lemma HasPrefix_ref: "HasPrefix s ''SPDXRef-'' \<longleftrightarrow> take 8 s = ''SPDXRef-''"
  by (simp add: HasPrefix_def eval_nat_numeral)

lemma prefix_short:
  assumes a: "\<not> HasPrefix (b @ ''-'') ''SPDXRef-''" and s: "s = [] \<or> hd s = CHR ''-''"
  shows "\<not> HasPrefix (b @ s) ''SPDXRef-''"
proof
  let ?p = "''SPDXRef-''"
  assume "HasPrefix (b @ s) ?p"
  then have h: "take 8 (b @ s) = ?p" unfolding HasPrefix_ref .
  have a8: "take 8 (b @ ''-'') \<noteq> ?p" using a unfolding HasPrefix_ref .
  show False
  proof (cases "8 \<le> length b")
    case True
    then show False using a8 h by simp
  next
    case False
    have "length (take 8 (b @ s)) = 8" unfolding h by simp
    then obtain r where r: "s = CHR ''-'' # r" using s False by (cases s) auto
    have "?p ! length b = take 8 (b @ s) ! length b" unfolding h ..
    also have "\<dots> = (b @ s) ! length b" using False by (intro nth_take) simp
    finally have "?p ! length b = CHR ''-''" unfolding r by (simp only: nth_append_length)
    moreover have "length b = 0 \<or> length b = 1 \<or> length b = 2 \<or> length b = 3 \<or> length b = 4 \<or> length b = 5 \<or> length b = 6 \<or> length b = 7"
      using False by arith
    ultimately have "length b = 7" by (elim disjE) simp_all
    then show False using a8 h r by simp
  qed
qed

lemma id_of_unprefixed: "\<not> HasPrefix (sanitizeSPDXID raw @ ''-'') ''SPDXRef-'' \<Longrightarrow> id_of raw i \<Longrightarrow> \<not> HasPrefix i ''SPDXRef-''"
  unfolding id_of_def using prefix_short [of "sanitizeSPDXID raw" "[]"] prefix_short [of "sanitizeSPDXID raw" "''-'' @ Itoa n" for n] by auto

text \<open>The identifier of each component, and the name it is read back under.\<close>

lemma id_table_eq:
  "mget (foldl (\<lambda>m (i, c). mput (SC_ID c) i m) m ics) k =
     (case map_of (rev (map (\<lambda>(i, c). (SC_ID c, i)) ics)) k of None \<Rightarrow> mget m k | Some i \<Rightarrow> Some i)"
  by (induction ics rule: rev_induct) (auto simp: gomap_simps split: option.split)

lemma id_table_at:
  assumes "length ids = length (SB_Components d)" "distinct (map SC_ID (SB_Components d))" "i < length ids"
  shows "mget (id_table d ids) (SC_ID (SB_Components d ! i)) = Some (ids ! i)"
proof -
  let ?ps = "map (\<lambda>(i, c). (SC_ID c, i)) (zip ids (SB_Components d))"
  have "map fst ?ps = map SC_ID (SB_Components d)" using assms(1) by (simp add: comp_def case_prod_unfold) (rule nth_equalityI, simp_all)
  then have "distinct (map fst (rev ?ps))" using assms(2) by (simp add: rev_map [symmetric])
  moreover have "(SC_ID (SB_Components d ! i), ids ! i) \<in> set (rev ?ps)" using assms(1,3) by (force simp: in_set_zip)
  ultimately have "map_of (rev ?ps) (SC_ID (SB_Components d ! i)) = Some (ids ! i)" by simp
  then show ?thesis by (simp add: id_table_def id_table_eq)
qed

lemma id_table_none:
  assumes "length ids = length (SB_Components d)" "k \<notin> SC_ID ` set (SB_Components d)"
  shows "mget (id_table d ids) k = None"
proof -
  have "map_of (rev (map (\<lambda>(i, c). (SC_ID c, i)) (zip ids (SB_Components d)))) k = None"
    using assms(2) by (auto simp: map_of_eq_None_iff dest: set_zip_rightD)
  then show ?thesis by (simp add: id_table_def id_table_eq)
qed

definition read_id :: "sbom_document \<Rightarrow> string list \<Rightarrow> string \<Rightarrow> string" where
  "read_id d ids k = ''SPDXRef-'' @ (case mget (id_table d ids) k of None \<Rightarrow> [] | Some i \<Rightarrow> i)"

lemma read_id_at:
  "length ids = length (SB_Components d) \<Longrightarrow> distinct (map SC_ID (SB_Components d)) \<Longrightarrow> i < length ids \<Longrightarrow>
     read_id d ids (SC_ID (SB_Components d ! i)) = ''SPDXRef-'' @ ids ! i"
  by (simp add: read_id_def id_table_at)

lemma read_id_inj:
  assumes "length ids = length (SB_Components d)" "distinct (map SC_ID (SB_Components d))" "distinct ids"
  shows "inj_on (read_id d ids) (SC_ID ` set (SB_Components d))"
proof (rule inj_onI)
  fix a b assume ab: "a \<in> SC_ID ` set (SB_Components d)" "b \<in> SC_ID ` set (SB_Components d)" "read_id d ids a = read_id d ids b"
  from ab(1) obtain i where i: "i < length ids" "a = SC_ID (SB_Components d ! i)" unfolding assms(1) by (auto simp: in_set_conv_nth)
  from ab(2) obtain j where j: "j < length ids" "b = SC_ID (SB_Components d ! j)" unfolding assms(1) by (auto simp: in_set_conv_nth)
  have "ids ! i = ids ! j" using ab(3) i j read_id_at [OF assms(1,2)] by simp
  then show "a = b" using i j nth_eq_iff_index_eq [OF assms(3)] by simp
qed

text \<open>The pairs the relationships of a written document are read as.\<close>

lemma map_filter_ids: "(\<And>x. x \<in> set xs \<Longrightarrow> f x = (if P x then Some (g x) else None)) \<Longrightarrow> List.map_filter f xs = map g (filter P xs)"
  by (induction xs) (auto simp: map_filter_simps)

definition written_ids :: "library \<Rightarrow> spdx_library \<Rightarrow> sbom_document \<Rightarrow> string list \<Rightarrow> bool" where
  "written_ids L S d ids \<longleftrightarrow>
     spdx_documented L S \<and> named_apart d \<and> length ids = length (SB_Components d) \<and> distinct ids
     \<and> list_all2 (\<lambda>c i. id_of (SC_ID c) i) (SB_Components d) ids"

abbreviation component_ids :: "sbom_document \<Rightarrow> string set" where
  "component_ids d \<equiv> SC_ID ` set (SB_Components d)"

lemma written_render:
  assumes w: "written_ids L S d ids" and i: "i < length ids"
  shows "RenderElementID S (ids ! i) = ''SPDXRef-'' @ ids ! i" "RenderDocElementID S (local_element (ids ! i)) = ''SPDXRef-'' @ ids ! i"
proof -
  from w have len: "length ids = length (SB_Components d)" and each: "list_all2 (\<lambda>c i. id_of (SC_ID c) i) (SB_Components d) ids"
    and apart: "\<forall>c \<in> set (SB_Components d). \<not> HasPrefix (sanitizeSPDXID (SC_ID c) @ ''-'') ''SPDXRef-''"
    unfolding written_ids_def named_apart_def by blast+
  have "id_of (SC_ID (SB_Components d ! i)) (ids ! i)" using list_all2_nthD2 [OF each i] .
  moreover have "SB_Components d ! i \<in> set (SB_Components d)" using i len by simp
  ultimately have "\<not> HasPrefix (ids ! i) ''SPDXRef-''" using apart id_of_unprefixed by blast
  then show "RenderElementID S (ids ! i) = ''SPDXRef-'' @ ids ! i" "RenderDocElementID S (local_element (ids ! i)) = ''SPDXRef-'' @ ids ! i"
    using w unfolding written_ids_def spdx_documented_def by blast+
qed

lemma written_at:
  assumes w: "written_ids L S d ids"
  shows "mget (id_table d ids) k = (if k \<in> component_ids d then Some (drop 8 (read_id d ids k)) else None)"
    "k \<in> component_ids d \<Longrightarrow> RenderDocElementID S (local_element (drop 8 (read_id d ids k))) = read_id d ids k"
proof -
  have len: "length ids = length (SB_Components d)" and dist: "distinct (map SC_ID (SB_Components d))" using w by (simp_all add: written_ids_def named_apart_def)
  have at: "\<exists>i < length ids. k = SC_ID (SB_Components d ! i)" if "k \<in> component_ids d" using that unfolding len by (auto simp: in_set_conv_nth)
  show "mget (id_table d ids) k = (if k \<in> component_ids d then Some (drop 8 (read_id d ids k)) else None)"
    using at id_table_at [OF len dist] id_table_none [OF len, of k] by (auto simp: read_id_def)
  show "RenderDocElementID S (local_element (drop 8 (read_id d ids k))) = read_id d ids k" if k: "k \<in> component_ids d"
  proof -
    obtain i where "i < length ids" "k = SC_ID (SB_Components d ! i)" using at [OF k] by blast
    then show ?thesis using read_id_at [OF len dist] written_render(2) [OF w] by simp
  qed
qed

lemma written_document: "written_ids L S d ids \<Longrightarrow> RenderDocElementID S (local_element ''DOCUMENT'') = ''SPDXRef-DOCUMENT''"
  by (simp add: written_ids_def spdx_documented_def HasPrefix_def)

lemma read_described:
  assumes w: "written_ids L S d ids"
  shows "List.map_filter (described_root S) (describe_relationships S (id_table d ids) rs) = map (read_id d ids) (filter (\<lambda>k. k \<in> component_ids d) rs)"
proof (induction rs)
  case (Cons r rs)
  have "described_root S \<lparr>RL_A = local_element ''DOCUMENT'', RL_B = local_element (drop 8 (read_id d ids r)), RL_Type = spdx_constant S ''TypeRelationshipDescribe''\<rparr>
      = Some (read_id d ids r)" if "r \<in> component_ids d"
    using written_document [OF w] written_at(2) [OF w that] by (simp add: described_root_def)
  then show ?case using Cons.IH written_at(1) [OF w, of r] by (simp add: describe_relationships_def map_filter_simps)
qed (simp add: describe_relationships_def map_filter_simps)

lemma describes_no_pair: "List.map_filter (dependency_pair S) (describe_relationships S m rs) = []"
  by (induction rs) (auto simp: describe_relationships_def map_filter_simps dependency_pair_def Let_def split: option.split)

lemma depends_kind: "r \<in> set (depends_relationships S m ds) \<Longrightarrow> RL_Type r = spdx_constant S ''TypeRelationshipDependsOn''"
  by (auto simp: depends_relationships_def mem_map_filter split: option.splits)

lemma map_filter_none: "(\<And>x. x \<in> set xs \<Longrightarrow> f x = None) \<Longrightarrow> List.map_filter f xs = []"
  by (induction xs) (simp_all add: map_filter_simps)

lemma depends_not_described:
  assumes "written_ids L S d ids"
  shows "List.map_filter (described_root S) (depends_relationships S m ds) = []"
  by (rule map_filter_none) (use assms depends_kind in \<open>simp add: described_root_def written_ids_def spdx_documented_def Let_def\<close>)

lemma read_pairs:
  assumes w: "written_ids L S d ids"
  shows "List.map_filter (dependency_pair S) (depends_relationships S (id_table d ids) ds) =
     concat (map (\<lambda>e. if Ref e \<in> component_ids d
        then map (\<lambda>t. (read_id d ids (Ref e), read_id d ids t)) (filter (\<lambda>t. t \<in> component_ids d) (RefDependsOn e)) else []) ds)"
proof (induction ds)
  case (Cons e ds)
  let ?edge = "\<lambda>a t. \<lparr>RL_A = local_element (drop 8 (read_id d ids a)), RL_B = local_element (drop 8 (read_id d ids t)), RL_Type = spdx_constant S ''TypeRelationshipDependsOn''\<rparr>"
  have edge: "dependency_pair S (?edge a t) = Some (read_id d ids a, read_id d ids t)" if "a \<in> component_ids d" "t \<in> component_ids d" for a t
    using w that written_at(2) [OF w] by (simp add: dependency_pair_def Let_def written_ids_def spdx_documented_def)
  have one: "List.map_filter (dependency_pair S) (List.map_filter (\<lambda>t. map_option (\<lambda>b. \<lparr>RL_A = local_element (drop 8 (read_id d ids a)), RL_B = local_element b,
        RL_Type = spdx_constant S ''TypeRelationshipDependsOn''\<rparr>) (mget (id_table d ids) t)) ts)
      = map (\<lambda>t. (read_id d ids a, read_id d ids t)) (filter (\<lambda>t. t \<in> component_ids d) ts)" if "a \<in> component_ids d" for a ts
    using edge [OF that] by (induction ts) (simp_all add: map_filter_simps written_at(1) [OF w])
  have "depends_relationships S (id_table d ids) (e # ds) =
      depends_relationships S (id_table d ids) [e] @ depends_relationships S (id_table d ids) ds" by (simp add: depends_relationships_def)
  then show ?case
    using Cons.IH one [of "Ref e" "RefDependsOn e"] by (simp add: map_filter_append) (simp add: depends_relationships_def written_at(1) [OF w] map_filter_simps)
qed (simp add: depends_relationships_def map_filter_simps)

lemma read_below:
  assumes w: "written_ids L S d ids" and k: "k \<in> component_ids d"
  shows "dependencies_below (List.map_filter (dependency_pair S) (depends_relationships S (id_table d ids) ds)) (read_id d ids k) =
     sort (map (read_id d ids) (filter (\<lambda>t. t \<in> component_ids d) (concat (map RefDependsOn (filter (\<lambda>e. Ref e = k) ds)))))"
proof -
  have inj: "inj_on (read_id d ids) (component_ids d)"
    using w read_id_inj by (simp add: written_ids_def named_apart_def)
  have same: "read_id d ids a = read_id d ids k \<longleftrightarrow> a = k" if "a \<in> component_ids d" for a using inj that k by (auto dest: inj_onD)
  have "map snd (filter (\<lambda>(a, b). a = read_id d ids k) (concat (map (\<lambda>e. if Ref e \<in> component_ids d
        then map (\<lambda>t. (read_id d ids (Ref e), read_id d ids t)) (filter (\<lambda>t. t \<in> component_ids d) (RefDependsOn e)) else []) ds)))
      = map (read_id d ids) (filter (\<lambda>t. t \<in> component_ids d) (concat (map RefDependsOn (filter (\<lambda>e. Ref e = k) ds))))"
  proof (induction ds)
    case (Cons e ds)
    show ?case
    proof (cases "Ref e = k")
      case True
      then show ?thesis using Cons.IH k by (simp add: filter_map comp_def)
    next
      case False
      have none: "filter (\<lambda>(a, b). a = read_id d ids k) (map (\<lambda>t. (read_id d ids (Ref e), read_id d ids t)) ts) = []" if "Ref e \<in> component_ids d" for ts
        using same [OF that] False by (auto simp: filter_empty_conv)
      show ?thesis using Cons.IH False none by simp
    qed
  qed simp
  then show ?thesis by (simp add: dependencies_below_def read_pairs [OF w])
qed

section \<open>The creation comment\<close>

lemma Itoa_value [simp]: "Atoi_digits (Itoa n) = n"
proof (induction n rule: Itoa.induct)
  case (1 n)
  have snoc: "Atoi_digits (s @ [c]) = 10 * Atoi_digits s + (byte c - 48)" for s c by (simp add: Atoi_digits_def)
  have c: "byte (char_of (48 + n mod 10)) - 48 = (n mod 10 :: nat)" by simp
  show ?case using 1 by (subst Itoa_snoc) (auto simp: snoc c Atoi_digits_def)
qed

lemma Itoa_word: "carrier_word (Itoa n)"
  using Itoa_digits [of n] by (auto simp: carrier_word_def list_all_iff digit_byte_def)

lemma trim_head:
  assumes "33 \<le> byte c" "byte c \<le> 126"
  shows "\<exists>t. TrimSpace (c # s) = c # t"
proof -
  have r: "rune_len (c # s) = 1" using assms by (simp add: rune_len_def lead_len_def Let_def)
  then have ch: "chunks (c # s) = [c] # chunks s" by (simp add: chunks_nonempty)
  have n: "\<not> IsSpace [c]" using assms by (auto simp: IsSpace_def space_runes_def)
  have "rev (dropWhile IsSpace (rev ([c] # xs))) = [c] # rev (dropWhile IsSpace (rev xs))" for xs
    using n by (simp add: dropWhile_append3 dropWhile_append2 dropWhile_append)
  then show ?thesis unfolding TrimSpace_def ch using n by simp
qed

lemma labelled_line: "HasPrefix (TrimSpace (c # s)) ''bomly:'' \<Longrightarrow> 33 \<le> byte c \<Longrightarrow> byte c \<le> 126 \<Longrightarrow> c = CHR ''b''"
  using trim_head [of c s] by (auto simp: HasPrefix_def)

lemma carrier_no_newline: "carrier_word s \<Longrightarrow> CHR 0x0A \<notin> set s"
proof
  assume "carrier_word s" "CHR 0x0A \<in> set s"
  then have "33 \<le> byte (CHR 0x0A)" unfolding carrier_word_def list_all_iff by blast
  then show False by simp
qed

definition creation_pairs :: "library \<Rightarrow> sbom_document \<Rightarrow> (string \<times> string) list" where
  "creation_pairs L d =
     (if cycloneDXLifecyclePhase L (SB_Lifecycle d) \<noteq> [] then [(''lifecycle'', cycloneDXLifecyclePhase L (SB_Lifecycle d))] else [])
     @ [(''document_version'', Itoa (nat (SerialVersionOrDefault d)))]"

definition provenance_fields :: "provenance \<Rightarrow> string list" where
  "provenance_fields p =
     (let labelled = (\<lambda>label v. if TrimSpace v = [] then [] else [label @ TrimSpace v])
      in labelled ''SecurityContact: '' (SecurityContact p)
         @ labelled ''VulnerabilityDisclosure: '' (VulnerabilityDisclosureURL p) @ labelled ''SupportEnd: '' (SupportEnd p))"

lemma creator_comment:
  "spdxCreatorComment L d =
     Join ((if provenance_fields (SB_Provenance d) = [] then [] else [Join (provenance_fields (SB_Provenance d)) ''; ''])
           @ [comment_of (creation_pairs L d)]) [CHR 0x0A]"
  by (simp add: spdxCreatorComment_def provenance_fields_def creation_pairs_def comment_of_def comment_part_def Let_def)

text \<open>Provenance of one line each, and words of the lifecycle vocabulary the carrier holds as they are.\<close>

definition one_line :: "string \<Rightarrow> bool" where
  "one_line v \<longleftrightarrow> CHR 0x0A \<notin> set (TrimSpace v)"

definition plain_provenance :: "provenance \<Rightarrow> bool" where
  "plain_provenance p \<longleftrightarrow> one_line (SecurityContact p) \<and> one_line (VulnerabilityDisclosureURL p) \<and> one_line (SupportEnd p)"

definition lifecycle_words :: "library \<Rightarrow> bool" where
  "lifecycle_words L \<longleftrightarrow> (\<forall>p \<in> set (lifecyclePhases L). carrier_word p \<and> ToLower p = p)"

lemma phase_word: "lifecycle_words L \<Longrightarrow> carrier_word (cycloneDXLifecyclePhase L v)"
  by (auto simp: lifecycle_words_def cycloneDXLifecyclePhase_def Let_def carrier_word_def)

lemma phase_again: "lifecycle_words L \<Longrightarrow> cycloneDXLifecyclePhase L (cycloneDXLifecyclePhase L v) = cycloneDXLifecyclePhase L v"
proof -
  assume w: "lifecycle_words L"
  let ?p = "cycloneDXLifecyclePhase L v"
  consider "?p = []" | "?p \<in> set (lifecyclePhases L)"
    by (cases "ToLower (TrimSpace v) \<in> set (lifecyclePhases L)") (simp_all add: cycloneDXLifecyclePhase_def Let_def)
  then show ?thesis
  proof cases
    case 1
    then show ?thesis by (simp only: 1) (simp add: cycloneDXLifecyclePhase_def Let_def)
  next
    case 2
    then have "ToLower (TrimSpace ?p) = ?p" using w phase_word [OF w] by (simp add: lifecycle_words_def)
    then show ?thesis using 2 by (simp add: cycloneDXLifecyclePhase_def [of L ?p] Let_def)
  qed
qed

lemma creation_pairs_ok: "lifecycle_words L \<Longrightarrow> \<forall>kv \<in> set (creation_pairs L d). fst kv \<in> set comment_keys \<and> carrier_word (snd kv)"
  using phase_word [of L] Itoa_word by (auto simp: creation_pairs_def comment_keys_def)

lemma provenance_line:
  assumes "provenance_fields p \<noteq> []"
  shows "parseSPDXCommentField (Join (provenance_fields p) ''; '') k = []"
proof -
  obtain x xs where x: "provenance_fields p = x # xs" using assms by (cases "provenance_fields p") auto
  then have "x \<in> set (provenance_fields p)" by simp
  then obtain c t where t: "x = c # t" "c \<in> {CHR ''S'', CHR ''V''}" by (auto simp: provenance_fields_def Let_def split: if_splits)
  obtain u where "Join (x # xs) ''; '' = x @ u" by (cases xs) auto
  then obtain s where c: "Join (provenance_fields p) ''; '' = c # s" "c \<in> {CHR ''S'', CHR ''V''}" using x t by simp
  then have "33 \<le> byte c" "byte c \<le> 126" "c \<noteq> CHR ''b''" by auto
  then have "\<not> HasPrefix (TrimSpace (c # s)) ''bomly:''" using labelled_line by blast
  then show ?thesis unfolding c(1) parseSPDXCommentField_def by (simp add: Let_def)
qed

lemma parse_creation:
  assumes ci: "CI_Comment ci = spdxCreatorComment L d" and p: "plain_provenance (SB_Provenance d)" and w: "lifecycle_words L"
    and k: "k \<in> set comment_keys"
  shows "parseSPDXCreatorField (Some ci) k = (case map_of (creation_pairs L d) k of None \<Rightarrow> [] | Some v \<Rightarrow> v)"
proof -
  let ?f = "provenance_fields (SB_Provenance d)" and ?c = "comment_of (creation_pairs L d)"
  let ?lines = "(if ?f = [] then [] else [Join ?f ''; '']) @ [?c]"
  have "CHR 0x0A \<notin> set x" if "x \<in> set ?f" for x
    using that p by (auto simp: provenance_fields_def plain_provenance_def one_line_def Let_def split: if_splits)
  then have f: "CHR 0x0A \<notin> set (Join ?f ''; '')" using set_Join [of ?f "''; ''"] by auto
  have parts: "CHR 0x0A \<notin> set (comment_part kv)" if "kv \<in> set (creation_pairs L d)" for kv
    using creation_pairs_ok [OF w] that comment_key_word [of "fst kv"] carrier_no_newline by (auto simp: comment_part_def)
  have c: "CHR 0x0A \<notin> set ?c"
    using set_Join [of "map comment_part (creation_pairs L d)" "'';''"] parts by (auto simp: comment_of_def)
  have "split_on (CHR 0x0A) (Join ?lines [CHR 0x0A]) = ?lines" by (rule split_on_Join) (use f c in auto)
  then have s: "split_on (CHR 0x0A) (CI_Comment ci) = ?lines" unfolding ci creator_comment .
  have v: "parseSPDXCommentField ?c k = (case map_of (creation_pairs L d) k of None \<Rightarrow> [] | Some v \<Rightarrow> v)"
    by (rule parse_comment_of [OF creation_pairs_ok [OF w] k])
  show ?thesis unfolding parseSPDXCreatorField_def option.case s by (simp add: provenance_line v)
qed

lemma read_version:
  assumes "CI_Comment ci = spdxCreatorComment L d" "plain_provenance (SB_Provenance d)" "lifecycle_words L" "SB_SerialVersion d < 2 ^ 63"
  shows "parseSPDXCreatorDocumentVersion (Some ci) = SerialVersionOrDefault d"
proof -
  let ?n = "nat (SerialVersionOrDefault d)"
  have v: "parseSPDXCreatorField (Some ci) ''document_version'' = Itoa ?n"
    using parse_creation [OF assms(1-3), of "''document_version''"] by (simp add: creation_pairs_def comment_keys_def)
  have d: "list_all digit_byte (Itoa ?n)" by (rule Itoa_digits)
  have ne: "Itoa ?n \<noteq> []" by simp
  have "\<not> HasPrefix (Itoa ?n) ''+''" using d ne by (cases "Itoa ?n") (auto simp: HasPrefix_def digit_byte_def)
  moreover have "0 < SerialVersionOrDefault d" "SerialVersionOrDefault d < 2 ^ 63" using assms(4) by (auto simp: SerialVersionOrDefault_def)
  ultimately show ?thesis unfolding parseSPDXCreatorDocumentVersion_def v using d ne by (simp add: Let_def)
qed

lemma read_lifecycle:
  assumes "CI_Comment ci = spdxCreatorComment L d" "plain_provenance (SB_Provenance d)" "lifecycle_words L"
  shows "parseSPDXCreatorLifecycle L (Some ci) = cycloneDXLifecyclePhase L (SB_Lifecycle d)"
proof -
  let ?p = "cycloneDXLifecyclePhase L (SB_Lifecycle d)"
  have v: "parseSPDXCreatorField (Some ci) ''lifecycle'' = ?p"
    using parse_creation [OF assms, of "''lifecycle''"] by (simp add: creation_pairs_def comment_keys_def)
  show ?thesis unfolding parseSPDXCreatorLifecycle_def v by (rule phase_again [OF assms(3)])
qed

section \<open>The round trip\<close>

lemma upper_lower: "upper_rune [lower_char a] = upper_rune [a]"
proof (cases "65 \<le> byte a \<and> byte a \<le> 90")
  case True
  then have "lower_char a = char_of (byte a + 32)" "byte (char_of (byte a + 32) :: char) = byte a + 32" by (simp_all add: lower_char_def)
  moreover have "WriteRune [a] = [a]" using True by (simp add: WriteRune_def rune_len_def lead_len_def Let_def)
  ultimately show ?thesis using True by (simp add: upper_rune_def)
qed (auto simp: lower_char_def)

lemma ToUpper_fold:
  assumes "is_ascii s" "is_ascii t" "EqualFold_ascii s t"
  shows "ToUpper s = ToUpper t"
proof -
  have e: "map lower_char s = map lower_char t" using assms by (simp add: EqualFold_lower)
  have u: "ToUpper x = concat (map (\<lambda>a. upper_rune [a]) (map lower_char x))" if "is_ascii x" for x
    using that by (simp add: ToUpper_def chunks_ascii comp_def upper_lower)
  show ?thesis unfolding u [OF assms(1)] u [OF assms(2)] e ..
qed

lemma carrier_ascii: "carrier_word s \<Longrightarrow> is_ascii s"
  unfolding carrier_word_def is_ascii_def by (erule list.pred_mono_strong) simp

text \<open>The type a component is read back with: an ordinary package is a library.\<close>

definition read_type :: "string \<Rightarrow> string" where
  "read_type t = (if TrimSpace t = [] \<or> EqualFold_ascii (TrimSpace t) ''package'' then ''library'' else TrimSpace t)"

lemma type_back:
  assumes c: "carried c"
  shows "parseSPDXComponentType (with_manufacturer d c (spdx_package_of L i c)) = read_type (SC_Type c)"
proof -
  let ?t = "TrimSpace (SC_Type c)" and ?p = "with_manufacturer d c (spdx_package_of L i c)"
  have purpose: "PK_Purpose ?p = spdxPrimaryPackagePurpose (SC_Type c)" by (simp add: with_manufacturer_def spdx_package_of_def case_prod_unfold)
  have word: "carrier_word ?t" using c by (simp add: carried_def)
  have lib: "spdxPrimaryPackagePurpose (SC_Type c) = ''LIBRARY''" if "?t = [] \<or> EqualFold_ascii ?t ''package''"
  proof -
    have "ToUpper ''package'' = ''PACKAGE''" "ToUpper [] = []" by code_simp+
    moreover have "is_ascii ''package''" by (simp add: is_ascii_def)
    ultimately have "ToUpper ?t \<in> {[], ''PACKAGE''}" using that ToUpper_fold [OF carrier_ascii [OF word], of "''package''"] by auto
    then show ?thesis by (auto simp: spdxPrimaryPackagePurpose_def Let_def)
  qed
  have l: "ToLower (TrimSpace ''LIBRARY'') = ''library''" by code_simp
  show ?thesis unfolding parseSPDXComponentType_def purpose using comment_type [OF c] lib l
    by (auto simp: read_type_def Let_def)
qed

lemma purl_back:
  assumes "spdx_documented L S" "TrimSpace (SC_PURL c) \<noteq> []"
  shows "parseSPDXPURL (PK_References (with_manufacturer d c (spdx_package_of L i c))) = TrimSpace (SC_PURL c)"
  using assms by (simp add: parseSPDXPURL_def spdxExternalReferences_def bare_reference_def spdx_documented_def map_filter_simps)

text \<open>What of a component is read back, under its new name.\<close>

definition component_back :: "component \<Rightarrow> string \<Rightarrow> component \<Rightarrow> bool" where
  "component_back c k c' \<longleftrightarrow>
     SC_ID c' = k \<and> SC_Name c' = NameOrID c \<and> SC_Version c' = SC_Version c \<and> SC_Scopes c' = mergeScopeSet (SC_Scopes c) []
     \<and> SC_Type c' = read_type (SC_Type c) \<and> (TrimSpace (SC_PURL c) = [] \<or> SC_PURL c' = TrimSpace (SC_PURL c))
     \<and> SC_EOL c' = map_option (\<lambda>e. \<lparr>SE_EOL = SE_EOL e, SE_Date = TrimSpace (SE_Date e), SE_Cycle = [], SE_Latest = []\<rparr>) (SC_EOL c)"

lemma component_from_fields [simp]:
  "SC_ID (component_from L S m p) = RenderElementID S (PK_ID p)" "SC_Name (component_from L S m p) = PK_Name p"
  "SC_Version (component_from L S m p) = PK_Version p" "SC_Scopes (component_from L S m p) = fst (spdxCommentScopes (PK_Comment p))"
  "SC_Type (component_from L S m p) = parseSPDXComponentType p" "SC_PURL (component_from L S m p) = parseSPDXPURL (PK_References p)"
  "SC_EOL (component_from L S m p) = spdxCommentEOL (PK_Comment p)"
  by (simp_all add: component_from_def applySPDXAssertions_def Let_def)

lemma component_back_ok:
  assumes "carried c" "spdx_documented L S" "RenderElementID S i = k"
  shows "component_back c k (component_from L S m (with_manufacturer d c (spdx_package_of L i c)))"
  using assms type_back [OF assms(1)] purl_back [OF assms(2), of c d i]
  by (auto simp: component_back_def comment_scopes comment_eol simp del: package_fields(5))

lemma unknown_none:
  "\<forall>p \<in> set ps. snd (spdxCommentScopes (PK_Comment p)) = [] \<Longrightarrow>
     foldl (\<lambda>u p. mergeUnknownScopeTokens u (snd (spdxCommentScopes (PK_Comment p)))) [] ps = []"
proof -
  have z: "mergeUnknownScopeTokens [] [] = []" by code_simp
  show "\<forall>p \<in> set ps. snd (spdxCommentScopes (PK_Comment p)) = [] \<Longrightarrow> ?thesis"
    by (induction ps) (simp_all add: z)
qed

lemma map_filter_Some_map: "List.map_filter id (map Some xs) = xs"
  by (simp add: map_filter_def comp_def)

text \<open>What a document must be for its text to hold all of it: components of distinct identifiers, none of
  which reads as one that carries the format's prefix already, with types and dates the comment
  carrier holds; provenance of one line each and a revision of 63 bits; and the words of the
  libraries as they are documented.\<close>

definition spdx_settled :: "library \<Rightarrow> spdx_library \<Rightarrow> sbom_document \<Rightarrow> bool" where
  "spdx_settled L S d \<longleftrightarrow>
     spdx_documented L S \<and> lifecycle_words L \<and> named_apart d \<and> (\<forall>c \<in> set (SB_Components d). carried c)
     \<and> plain_provenance (SB_Provenance d) \<and> SB_SerialVersion d < 2 ^ 63"

text \<open>What a component is connected to, in a document of components: the targets among the components of
  every relationship that starts at it.\<close>

abbreviation targets_of :: "sbom_document \<Rightarrow> string \<Rightarrow> string list" where
  "targets_of d k \<equiv> filter (\<lambda>t. t \<in> component_ids d) (concat (map RefDependsOn (filter (\<lambda>e. Ref e = k) (SB_Dependencies d))))"


text \<open>C20. A document this build writes as SPDX 2.3 is read back, when component identifiers are distinct and none
  of them reads as one that carries the format's prefix already, types and end-of-life dates are printable ASCII
  without space or semicolon, scopes are of the vocabulary, provenance values are of one line, the revision is below
  2 to the 63, and the format libraries have the words they document. Every component gets a new identifier, the prefix
  and its allocated one, different ones for different components; under it the name (its identifier when it has none),
  version, set of scopes and type come back, an ordinary package as a library, the package URL of a component that has
  one, and of an end-of-life claim the flag and the date; the described components and the
  relationships between components are the same under the renaming, in order, and what is no component is
  left out; the name, namespace, revision and lifecycle phase of the document come back.\<close>

theorem spdx_round_trip:
  assumes "spdx_settled L S d"
  shows "\<exists>x f. spdxDocument L E S d = Some x
    \<and> inj_on f (component_ids d) \<and> (\<forall>k \<in> component_ids d. \<exists>i. id_of k i \<and> f k = ''SPDXRef-'' @ i)
    \<and> (let d' = spdx_read L E S x in
         map SC_ID (SB_Components d') = sort (map (f \<circ> SC_ID) (SB_Components d))
         \<and> (\<forall>c \<in> set (SB_Components d). \<exists>c' \<in> set (SB_Components d'). component_back c (f (SC_ID c)) c')
         \<and> SB_Described d' = sort (map f (filter (\<lambda>k. k \<in> component_ids d) (describedIDs d)))
         \<and> SB_Dependencies d' = map (\<lambda>c. \<lparr>Ref = f (SC_ID c), RefDependsOn = sort (map f (targets_of d (SC_ID c)))\<rparr>) (SB_Components d)
         \<and> SB_Name d' = NameOrDefault d \<and> SB_Namespace d' = NamespaceOrDefault E d
         \<and> SB_SerialVersion d' = SerialVersionOrDefault d \<and> SB_Lifecycle d' = cycloneDXLifecyclePhase L (SB_Lifecycle d)
         \<and> SB_UnknownScopeTokens d' = [])"
proof -
  from assms have doc: "spdx_documented L S" and words: "lifecycle_words L" and apart: "named_apart d"
    and car: "\<forall>c \<in> set (SB_Components d). carried c" and prov: "plain_provenance (SB_Provenance d)" and ser: "SB_SerialVersion d < 2 ^ 63"
    unfolding spdx_settled_def by blast+
  obtain x ids ci where x: "spdxDocument L E S d = Some x" and len: "length ids = length (SB_Components d)" and dist: "distinct ids"
    and each: "list_all2 (\<lambda>c i. id_of (SC_ID c) i) (SB_Components d) ids"
    and p: "SX_Packages x = map Some (map2 (\<lambda>i c. with_manufacturer d c (spdx_package_of L i c)) ids (SB_Components d))"
    and rl: "SX_Relationships x = map Some (describe_relationships S (id_table d ids) (describedIDs d) @ depends_relationships S (id_table d ids) (SB_Dependencies d))"
    and nm: "SX_Name x = NameOrDefault d" "SX_Namespace x = NamespaceOrDefault E d"
    and ci: "SX_Creation x = Some ci" "CI_Comment ci = spdxCreatorComment L d"
    using spdxDocument_ok [of L E S d] by (elim exE conjE) (rule that)
  have w: "written_ids L S d ids" unfolding written_ids_def using doc apart len dist each by blast
  have dc: "distinct (map SC_ID (SB_Components d))" using apart by (simp add: named_apart_def)
  let ?f = "read_id d ids" and ?d = "spdx_read L E S x" and ?m = "spdxExtractedTexts (SX_Licenses x)"
  let ?pkg = "\<lambda>i. with_manufacturer d (SB_Components d ! i) (spdx_package_of L (ids ! i) (SB_Components d ! i))"
  have at0: "?f (SC_ID (SB_Components d ! i)) = ''SPDXRef-'' @ ids ! i" if "i < length ids" for i by (rule read_id_at [OF len dc that])
  have pk: "present (SX_Packages x) = map ?pkg [0..<length ids]"
    unfolding p present_Some by (rule nth_equalityI) (simp_all add: len)
  have cs: "map (component_from L S ?m) (present (SX_Packages x)) = map (\<lambda>i. component_from L S ?m (?pkg i)) [0..<length ids]"
    unfolding pk by simp
  have whole: "component_back (SB_Components d ! i) (?f (SC_ID (SB_Components d ! i))) (component_from L S ?m (?pkg i))" if i: "i < length ids" for i
  proof -
    have "carried (SB_Components d ! i)" using car i len by simp
    moreover have "RenderElementID S (ids ! i) = ?f (SC_ID (SB_Components d ! i))" using written_render(1) [OF w i] at0 [OF i] by simp
    ultimately show ?thesis by (rule component_back_ok [OF _ doc])
  qed
  have id: "SC_ID (component_from L S ?m (?pkg i)) = ?f (SC_ID (SB_Components d ! i))" if "i < length ids" for i
    using whole [OF that] by (simp add: component_back_def)
  have ids': "map SC_ID (map (component_from L S ?m) (present (SX_Packages x))) = map (?f \<circ> SC_ID) (SB_Components d)"
    unfolding cs by (rule nth_equalityI) (use id in \<open>simp_all add: len\<close>)
  have pairs: "List.map_filter (dependency_pair S) (present (SX_Relationships x)) = List.map_filter (dependency_pair S) (depends_relationships S (id_table d ids) (SB_Dependencies d))"
    unfolding rl present_Some by (simp add: map_filter_append describes_no_pair)
  have roots: "List.map_filter (described_root S) (present (SX_Relationships x)) = map ?f (filter (\<lambda>k. k \<in> component_ids d) (describedIDs d))"
    unfolding rl present_Some by (simp add: map_filter_append read_described [OF w] depends_not_described [OF w])
  have below: "dependencies_below (List.map_filter (dependency_pair S) (present (SX_Relationships x))) (?f k) = sort (map ?f (targets_of d k))"
    if "k \<in> component_ids d" for k
    unfolding pairs by (rule read_below [OF w that])
  have toks: "\<forall>p \<in> set (present (SX_Packages x)). snd (spdxCommentScopes (PK_Comment p)) = []"
    unfolding pk using car by (auto simp: comment_scopes len)
  have sorted_ids: "map SC_ID (sort_key SC_ID ys) = sort (map SC_ID ys)" for ys :: "component list"
    by (rule properties_for_sort [symmetric]) simp_all
  note read = spdx_read_def [of L E S x] Let_def
  show ?thesis
  proof (rule exI [of _ x], rule exI [of _ ?f], unfold Let_def, intro conjI ballI)
    show "inj_on ?f (component_ids d)" by (rule read_id_inj [OF len dc dist])
    show "\<exists>i. id_of k i \<and> ?f k = ''SPDXRef-'' @ i" if "k \<in> component_ids d" for k
    proof -
      from that obtain i where "i < length ids" "k = SC_ID (SB_Components d ! i)" unfolding len by (auto simp: in_set_conv_nth)
      then show ?thesis using at0 list_all2_nthD2 [OF each] by blast
    qed
    show "map SC_ID (SB_Components ?d) = sort (map (?f \<circ> SC_ID) (SB_Components d))"
      unfolding ids' [symmetric] by (simp add: read sorted_ids)
    show "\<exists>c' \<in> set (SB_Components ?d). component_back c (?f (SC_ID c)) c'" if "c \<in> set (SB_Components d)" for c
    proof -
      from that obtain i where i: "i < length ids" "c = SB_Components d ! i" unfolding len by (auto simp: in_set_conv_nth)
      have "component_from L S ?m (?pkg i) \<in> set (map (component_from L S ?m) (present (SX_Packages x)))" unfolding cs using i(1) by simp
      then have "component_from L S ?m (?pkg i) \<in> set (SB_Components ?d)" by (simp add: read)
      then show ?thesis using whole [OF i(1)] i(2) by blast
    qed
    show "SB_Described ?d = sort (map ?f (filter (\<lambda>k. k \<in> component_ids d) (describedIDs d)))" by (simp add: read roots)
    have "SB_Dependencies ?d = map (\<lambda>k. \<lparr>Ref = k, RefDependsOn = dependencies_below (List.map_filter (dependency_pair S) (present (SX_Relationships x))) k\<rparr>)
        (map SC_ID (map (component_from L S ?m) (present (SX_Packages x))))" by (simp add: read comp_def)
    also have "\<dots> = map (\<lambda>c. \<lparr>Ref = ?f (SC_ID c), RefDependsOn = sort (map ?f (targets_of d (SC_ID c)))\<rparr>) (SB_Components d)"
      unfolding ids' by (simp add: below)
    finally show "SB_Dependencies ?d = map (\<lambda>c. \<lparr>Ref = ?f (SC_ID c), RefDependsOn = sort (map ?f (targets_of d (SC_ID c)))\<rparr>) (SB_Components d)" .
    show "SB_SerialVersion ?d = SerialVersionOrDefault d" by (simp add: read ci(1) read_version [OF ci(2) prov words ser])
    show "SB_Lifecycle ?d = cycloneDXLifecyclePhase L (SB_Lifecycle d)" by (simp add: read ci(1) read_lifecycle [OF ci(2) prov words])
    show "SB_UnknownScopeTokens ?d = []" using unknown_none [OF toks] by (simp add: read)
  qed (simp_all add: x read nm)
qed

text \<open>The allocator does not hold back the identifier of the document itself: a component of that name
  takes it, and the document has two elements of one identifier.\<close>

lemma document_identifier_taken:
  assumes "SB_Components d = [c]" "SC_ID c = ''DOCUMENT''"
  shows "\<exists>x. spdxDocument L E S d = Some x \<and> map PK_ID (present (SX_Packages x)) = [SX_ID x]"
proof -
  have s: "sanitizeSPDXID ''DOCUMENT'' = ''DOCUMENT''" by code_simp
  have i: "spdx_allocate newSPDXIDAllocator ''DOCUMENT'' = Some (''DOCUMENT'', \<lparr>Assigned = [''DOCUMENT''], NextSuffix = []\<rparr>)"
    by (simp add: spdx_allocate_def s newSPDXIDAllocator_def Let_def)
  obtain refs where "spdxSourceLinks L E d = Some refs" using source_refs_ok unfolding spdxSourceLinks_def by blast
  then show ?thesis by (simp add: spdxDocument_def assms i)
qed

definition plain_spdx_library :: spdx_library where
  "plain_spdx_library = \<lparr>spdx_constant = id, RenderElementID = (\<lambda>e. ''SPDXRef-'' @ e), RenderDocElementID = (\<lambda>e. ''SPDXRef-'' @ EL_Element e),
     spdx_time_Format = \<lambda>_. [], spdx_marshal = \<lambda>_ _. None, spdx_unmarshal = \<lambda>_. None\<rparr>"

definition worded_library :: library where
  "worded_library = plain_library\<lparr>cdx_constant := ToLower, spdx_category := (\<lambda>_. ''PACKAGE-MANAGER''), spdx_reference_type := (\<lambda>_. ''purl'')\<rparr>"

definition spdx_sample :: sbom_document where
  "spdx_sample = \<lparr>SB_Name = ''demo'', SB_Namespace = ''https://h/d'', SB_Tool = [], SB_Tools = [], SB_ToolVersion = [], SB_Created = None,
     SB_SerialNumber = [], SB_SerialVersion = 7, SB_Provenance = \<lparr>Manufacturer = [], SecurityContact = ''sec'', VulnerabilityDisclosureURL = [], SupportEnd = []\<rparr>,
     SB_Lifecycle = [], SB_Aggregate = [],
     SB_Components = [Component_zero\<lparr>SC_ID := ''npm:a'', SC_Scopes := [''development''],
         SC_EOL := Some \<lparr>SE_EOL = True, SE_Date = ''2024-01-01'', SE_Cycle = [], SE_Latest = []\<rparr>,
         SC_Licenses := [\<lparr>SL_Value = ''see file'', SL_Expression = [], SL_Type = []\<rparr>]\<rparr>,
       Component_zero\<lparr>SC_ID := ''npm-a'', SC_Type := ''application''\<rparr>],
     SB_Dependencies = [\<lparr>Ref = ''npm-a'', RefDependsOn = [''npm:a'', ''gone'']\<rparr>],
     SB_Roots = [''npm-a''], SB_Described = [], SB_Assertions = Document_zero, SB_UnknownScopeTokens = [], SB_Sources = []\<rparr>"

lemma spdx_sample_settled: "spdx_settled worded_library plain_spdx_library spdx_sample"
proof -
  have docd: "spdx_documented worded_library plain_spdx_library"
    unfolding spdx_documented_def
    by (simp add: plain_spdx_library_def worded_library_def local_element_def printable_trim EqualFold_lower is_ascii_def)
  have words: "lifecycle_words worded_library"
  proof -
    have "list_all (\<lambda>p. carrier_word p \<and> ToLower p = p) (lifecyclePhases worded_library)" by code_simp
    then show ?thesis by (simp add: lifecycle_words_def list_all_iff)
  qed
  have apart: "named_apart spdx_sample" by code_simp
  have v: "set (SC_Scopes c) \<subseteq> scope_vocab" if "c \<in> set (SB_Components spdx_sample)" for c
    using that by (auto simp: spdx_sample_def Component_zero_def scope_vocab_def)
  have "\<forall>c \<in> set (SB_Components spdx_sample). carrier_word (TrimSpace (SC_Type c))
       \<and> (case SC_EOL c of None \<Rightarrow> True | Some e \<Rightarrow> carrier_word (TrimSpace (SE_Date e)))" by code_simp
  then have car: "\<forall>c \<in> set (SB_Components spdx_sample). carried c" using v by (simp add: carried_def)
  have prov: "plain_provenance (SB_Provenance spdx_sample)" by code_simp
  have "SB_SerialVersion spdx_sample < 2 ^ 63" by (simp add: spdx_sample_def)
  then show ?thesis using docd words apart car prov by (simp add: spdx_settled_def)
qed

theorem spdx_round_trip_witness:
  "\<exists>x f. spdxDocument worded_library plain_sbom_library plain_spdx_library spdx_sample = Some x
     \<and> f ''npm:a'' \<noteq> f ''npm-a''
     \<and> SB_Dependencies (spdx_read worded_library plain_sbom_library plain_spdx_library x)
        = [\<lparr>Ref = f ''npm:a'', RefDependsOn = []\<rparr>, \<lparr>Ref = f ''npm-a'', RefDependsOn = [f ''npm:a'']\<rparr>]
     \<and> SB_SerialVersion (spdx_read worded_library plain_sbom_library plain_spdx_library x) = 7"
proof -
  have t: "component_ids spdx_sample = {''npm:a'', ''npm-a''}" "map SC_ID (SB_Components spdx_sample) = [''npm:a'', ''npm-a'']"
    "SerialVersionOrDefault spdx_sample = 7"
    by (simp_all add: spdx_sample_def SerialVersionOrDefault_def)
  have g: "targets_of spdx_sample ''npm:a'' = []" "targets_of spdx_sample ''npm-a'' = [''npm:a'']" by code_simp+
  obtain x f where x: "spdxDocument worded_library plain_sbom_library plain_spdx_library spdx_sample = Some x" and f: "inj_on f (component_ids spdx_sample)"
    and d: "SB_Dependencies (spdx_read worded_library plain_sbom_library plain_spdx_library x)
       = map (\<lambda>c. \<lparr>Ref = f (SC_ID c), RefDependsOn = sort (map f (targets_of spdx_sample (SC_ID c)))\<rparr>) (SB_Components spdx_sample)"
    and s: "SB_SerialVersion (spdx_read worded_library plain_sbom_library plain_spdx_library x) = SerialVersionOrDefault spdx_sample"
    using spdx_round_trip [OF spdx_sample_settled, of plain_sbom_library] unfolding Let_def by (elim exE conjE) (rule that)
  have "map (\<lambda>c. \<lparr>Ref = f (SC_ID c), RefDependsOn = sort (map f (targets_of spdx_sample (SC_ID c)))\<rparr>) (SB_Components spdx_sample)
      = map (\<lambda>k. \<lparr>Ref = f k, RefDependsOn = sort (map f (targets_of spdx_sample k))\<rparr>) (map SC_ID (SB_Components spdx_sample))" by (simp add: comp_def)
  then have "SB_Dependencies (spdx_read worded_library plain_sbom_library plain_spdx_library x)
      = [\<lparr>Ref = f ''npm:a'', RefDependsOn = []\<rparr>, \<lparr>Ref = f ''npm-a'', RefDependsOn = [f ''npm:a'']\<rparr>]"
    unfolding d by (simp only: t(2) list.map g sort_key_simps insort_key.simps)
  moreover have "f ''npm:a'' \<noteq> f ''npm-a''" using f unfolding t(1) by (auto dest: inj_onD)
  ultimately show ?thesis using x s t(3) by auto
qed


end
