(* ===== verification/Strict.thy ===== *)
theory Strict
  imports GoStrings
begin

text \<open>
  The check that a document's JSON has one reading (\<open>sbom/strict.go\<close>): a streaming pass over
  the tokens of \<^verbatim>\<open>jsontext\<close>'s decoder that accounts for what the duplicate-name check
  holds, name by name, over every object open at once, and the classes of a refusal. The token
  stream and the decoder's own objections are the parameter \<open>J\<close>; the decoder's documented stack
  (\<^verbatim>\<open>StackDepth\<close>, \<^verbatim>\<open>StackIndex\<close>) is computed from the tokens.
\<close>

section \<open>Tokens and the decoder's stack\<close>

datatype json_token = BeginObject | EndObject | BeginArray | EndArray | StringToken string | ScalarToken string

fun token_String :: "json_token \<Rightarrow> string" where
  "token_String (StringToken s) = s"
| "token_String (ScalarToken s) = s"
| "token_String BeginObject = ''{''"
| "token_String EndObject = ''}''"
| "token_String BeginArray = ''[''"
| "token_String EndArray = '']''"

text \<open>The open containers, innermost first: whether each is an object, and how many tokens it has
  read, names and values alike.\<close>

type_synonym decoder_stack = "(bool \<times> nat) list"

fun count_value :: "decoder_stack \<Rightarrow> decoder_stack" where
  "count_value [] = []"
| "count_value ((k, n) # s) = (k, Suc n) # s"

fun read_token :: "json_token \<Rightarrow> decoder_stack \<Rightarrow> decoder_stack" where
  "read_token BeginObject s = (True, 0) # count_value s"
| "read_token BeginArray s = (False, 0) # count_value s"
| "read_token EndObject s = tl s"
| "read_token EndArray s = tl s"
| "read_token (StringToken _) s = count_value s"
| "read_token (ScalarToken _) s = count_value s"

section \<open>The accounting\<close>

abbreviation maxOpenObjectMembers :: int where "maxOpenObjectMembers \<equiv> 100000"
abbreviation maxOpenNameBytes :: int where "maxOpenNameBytes \<equiv> 16 * 2 ^ 20"

record openObjectCost =
  OC_members :: int
  OC_nameBytes :: int

definition openObjectCost_zero :: openObjectCost where
  "openObjectCost_zero = \<lparr>OC_members = 0, OC_nameBytes = 0\<rparr>"

record strict_scan =
  OpenObjects :: "openObjectCost list"
  TotalMembers :: int
  TotalNameBytes :: int

datatype unverifiable = NameTooLong | TooManyNames | NamesTooLarge
datatype ambiguity = RepeatedName | InvalidUTF8 | UnpairedSurrogate | OtherObjection
datatype strict_error = ErrUnverifiableJSON unverifiable | ErrMalformedJSON | ErrAmbiguousJSON ambiguity

text \<open>Objects that closed release their names.\<close>

function release_closed :: "nat \<Rightarrow> strict_scan \<Rightarrow> strict_scan" where
  "release_closed depth s =
     (if length (OpenObjects s) > depth
      then (let closed = last (OpenObjects s)
            in release_closed depth (s\<lparr>OpenObjects := butlast (OpenObjects s), TotalMembers := TotalMembers s - OC_members closed,
                 TotalNameBytes := TotalNameBytes s - OC_nameBytes closed\<rparr>))
      else s)"
  by pat_completeness auto

termination
  by (relation "measure (\<lambda>(depth, s). length (OpenObjects s))") auto

declare release_closed.simps [simp del]

definition open_to :: "nat \<Rightarrow> strict_scan \<Rightarrow> strict_scan" where
  "open_to depth s =
     (let s = release_closed depth s
      in s\<lparr>OpenObjects := OpenObjects s @ replicate (depth - length (OpenObjects s)) openObjectCost_zero\<rparr>)"

definition count_members :: "nat \<Rightarrow> nat \<Rightarrow> strict_scan \<Rightarrow> strict_scan" where
  "count_members depth n s =
     (let members = int (n div 2); cost = OpenObjects s ! (depth - 1)
      in s\<lparr>TotalMembers := TotalMembers s + (members - OC_members cost),
           OpenObjects := (OpenObjects s)[depth - 1 := cost\<lparr>OC_members := members\<rparr>]\<rparr>)"

definition hold_name :: "nat \<Rightarrow> int \<Rightarrow> strict_scan \<Rightarrow> strict_scan" where
  "hold_name depth n s =
     (let cost = OpenObjects s ! (depth - 1)
      in s\<lparr>TotalNameBytes := TotalNameBytes s + n,
           OpenObjects := (OpenObjects s)[depth - 1 := cost\<lparr>OC_nameBytes := OC_nameBytes cost + n\<rparr>]\<rparr>)"

definition check_bounds :: "strict_scan \<Rightarrow> strict_error + strict_scan" where
  "check_bounds s =
     (if TotalMembers s > maxOpenObjectMembers then Inl (ErrUnverifiableJSON TooManyNames)
      else if TotalNameBytes s > maxOpenNameBytes then Inl (ErrUnverifiableJSON NamesTooLarge)
      else Inr s)"

definition account_token :: "json_token \<Rightarrow> int \<Rightarrow> decoder_stack \<Rightarrow> strict_scan \<Rightarrow> strict_error + strict_scan" where
  "account_token token span stack s =
     (let s = open_to (length stack) s
      in case stack of
           [] \<Rightarrow> Inr s
         | (isObject, n) # _ \<Rightarrow>
             if \<not> isObject then Inr s
             else (let s = count_members (length stack) n s
                   in if odd n
                      then (if span > maxOpenNameBytes then Inl (ErrUnverifiableJSON NameTooLong)
                            else check_bounds (hold_name (length stack) (int (length (token_String token))) s))
                      else check_bounds s))"

fun scan_tokens :: "decoder_stack \<Rightarrow> strict_scan \<Rightarrow> (json_token \<times> int) list \<Rightarrow> strict_error + strict_scan" where
  "scan_tokens stack s [] = Inr s"
| "scan_tokens stack s ((token, span) # rest) =
     (case account_token token span (read_token token stack) s of
        Inl err \<Rightarrow> Inl err
      | Inr s \<Rightarrow> scan_tokens (read_token token stack) s rest)"

section \<open>The check\<close>

text \<open>What the decoder hands over for a text: its tokens with the bytes each spans, then the end of
  the input or an objection, which may be that a name is repeated. \<open>waived\<close> says whether the
  decoder reads to the end with both strict checks waived.\<close>

record json_decoder =
  json_tokens :: "string \<Rightarrow> (json_token \<times> int) list"
  json_objection :: "string \<Rightarrow> bool option"
  json_Valid :: "string \<Rightarrow> bool"
  json_waived :: "string \<Rightarrow> bool"

definition classifyStrictRefusal :: "json_decoder \<Rightarrow> string \<Rightarrow> bool \<Rightarrow> strict_error" where
  "classifyStrictRefusal J data repeated =
     (if \<not> json_Valid J data then ErrMalformedJSON
      else if repeated then ErrAmbiguousJSON RepeatedName
      else if \<not> json_waived J data then ErrAmbiguousJSON OtherObjection
      else if \<not> ValidString data then ErrAmbiguousJSON InvalidUTF8
      else ErrAmbiguousJSON UnpairedSurrogate)"

definition requireUnambiguousJSON :: "json_decoder \<Rightarrow> string \<Rightarrow> strict_error option" where
  "requireUnambiguousJSON J data =
     (case scan_tokens [] \<lparr>OpenObjects = [], TotalMembers = 0, TotalNameBytes = 0\<rparr> (json_tokens J data) of
        Inl err \<Rightarrow> Some err
      | Inr _ \<Rightarrow> map_option (classifyStrictRefusal J data) (json_objection J data))"

section \<open>What is held\<close>

text \<open>The reference: each open object with the names it has read and whether one of them waits for
  its value, each open array as \<open>None\<close>.\<close>

type_synonym held = "(string list \<times> bool) option list"

fun held_value :: "held \<Rightarrow> held" where
  "held_value (Some (ns, p) # h) = Some (ns, False) # h"
| "held_value h = h"

fun held_token :: "json_token \<Rightarrow> held \<Rightarrow> held" where
  "held_token BeginObject h = Some ([], False) # held_value h"
| "held_token BeginArray h = None # held_value h"
| "held_token EndObject h = tl h"
| "held_token EndArray h = tl h"
| "held_token (StringToken s) (Some (ns, False) # h) = Some (ns @ [s], True) # h"
| "held_token (StringToken s) h = held_value h"
| "held_token (ScalarToken s) h = held_value h"

text \<open>What the grammar lets a decoder hand over in that state.\<close>

fun token_allowed :: "json_token \<Rightarrow> held \<Rightarrow> bool" where
  "token_allowed EndObject h = (\<exists>ns h'. h = Some (ns, False) # h')"
| "token_allowed EndArray h = (\<exists>h'. h = None # h')"
| "token_allowed (StringToken _) h = True"
| "token_allowed _ h = (\<forall>ns h'. h \<noteq> Some (ns, False) # h')"

fun tokens_allowed :: "held \<Rightarrow> json_token list \<Rightarrow> bool" where
  "tokens_allowed h [] = True"
| "tokens_allowed h (t # ts) = (token_allowed t h \<and> tokens_allowed (held_token t h) ts)"

definition names_held :: "held \<Rightarrow> string list" where
  "names_held h = concat (map (\<lambda>e. case e of None \<Rightarrow> [] | Some (ns, p) \<Rightarrow> ns) h)"

definition objects_open :: "held \<Rightarrow> nat" where
  "objects_open h = length (filter (\<lambda>e. e \<noteq> None) h)"

section \<open>The accounting keeps what is held\<close>

fun frame_ok :: "(string list \<times> bool) option \<Rightarrow> bool \<times> nat \<Rightarrow> bool" where
  "frame_ok None (k, n) = (\<not> k)"
| "frame_ok (Some (ns, p)) (k, n) = (k \<and> n + (if p then 1 else 0) = 2 * length ns)"

definition bytes_of :: "string list \<Rightarrow> int" where
  "bytes_of ns = int (sum_list (map length ns))"

fun cost_ok :: "(string list \<times> bool) option \<Rightarrow> openObjectCost \<Rightarrow> bool" where
  "cost_ok None c = (c = openObjectCost_zero)"
| "cost_ok (Some (ns, p)) c = (OC_nameBytes c = bytes_of ns \<and> 0 \<le> OC_members c \<and> int (length ns) - 1 \<le> OC_members c \<and> OC_members c \<le> int (length ns))"

text \<open>The costs innermost first, as \<open>held\<close> lists the containers.\<close>

definition scan_ok :: "held \<Rightarrow> openObjectCost list \<Rightarrow> strict_scan \<Rightarrow> bool" where
  "scan_ok h cs s \<longleftrightarrow> OpenObjects s = rev cs \<and> list_all2 cost_ok h cs
     \<and> TotalMembers s = sum_list (map OC_members cs) \<and> TotalNameBytes s = sum_list (map OC_nameBytes cs)"

lemma frame_value:
  "\<lbrakk>\<forall>ns h'. h \<noteq> Some (ns, False) # h'; list_all2 frame_ok h stack\<rbrakk> \<Longrightarrow> list_all2 frame_ok (held_value h) (count_value stack)"
  by (cases h rule: held_value.cases; cases stack rule: count_value.cases) auto

lemma frames_step:
  "\<lbrakk>token_allowed t h; list_all2 frame_ok h stack\<rbrakk> \<Longrightarrow> list_all2 frame_ok (held_token t h) (read_token t stack)"
proof (induction t h rule: held_token.induct)
  case (5 s ns h)
  then show ?case by (cases stack; cases "hd stack") auto
next
  case (3 h)
  then show ?case by (cases h; cases stack) auto
next
  case (4 h)
  then show ?case by (cases h; cases stack) auto
qed (simp_all add: frame_value, (cases stack rule: count_value.cases; simp)+)

lemma cost_value: "list_all2 cost_ok h cs \<Longrightarrow> list_all2 cost_ok (held_value h) cs"
  by (cases h rule: held_value.cases) (auto simp: list_all2_Cons1)

lemma open_to_same: "length (OpenObjects s) = d \<Longrightarrow> open_to d s = s"
  by (simp add: open_to_def release_closed.simps)

lemma open_to_push: "length (OpenObjects s) = d \<Longrightarrow> open_to (Suc d) s = s\<lparr>OpenObjects := OpenObjects s @ [openObjectCost_zero]\<rparr>"
  by (simp add: open_to_def release_closed.simps)

lemma open_to_pop:
  "OpenObjects s = rev (c # cs) \<Longrightarrow> open_to (length cs) s =
     s\<lparr>OpenObjects := rev cs, TotalMembers := TotalMembers s - OC_members c, TotalNameBytes := TotalNameBytes s - OC_nameBytes c\<rparr>"
  by (simp add: open_to_def release_closed.simps [of _ s] Let_def) (simp add: release_closed.simps)

lemma names_held_Cons [simp]: "names_held (e # h) = (case e of None \<Rightarrow> [] | Some (ns, p) \<Rightarrow> ns) @ names_held h"
  by (simp add: names_held_def)

lemma names_held_Nil [simp]: "names_held [] = []"
  by (simp add: names_held_def)

lemma bytes_of_simps [simp]: "bytes_of [] = 0" "bytes_of (xs @ ys) = bytes_of xs + bytes_of ys" "bytes_of (x # xs) = int (length x) + bytes_of xs"
  by (simp_all add: bytes_of_def)

lemma cost_sums:
  "list_all2 cost_ok h cs \<Longrightarrow> sum_list (map OC_nameBytes cs) = bytes_of (names_held h) \<and> 0 \<le> sum_list (map OC_members cs)
     \<and> sum_list (map OC_members cs) \<le> int (length (names_held h)) \<and> int (length (names_held h)) \<le> sum_list (map OC_members cs) + int (objects_open h)"
  by (induction rule: list_all2_induct) (auto simp: objects_open_def openObjectCost_zero_def split: option.splits elim: cost_ok.elims)

lemma tl_held_value [simp]: "tl (held_value h) = tl h"
  by (cases h rule: held_value.cases) simp_all

text \<open>Only the innermost object can be waiting for a value.\<close>

definition settled :: "held \<Rightarrow> bool" where
  "settled h \<longleftrightarrow> list_all (\<lambda>e. case e of Some (ns, True) \<Rightarrow> False | _ \<Rightarrow> True) (tl h)"

lemma settled_value: "settled h \<Longrightarrow> list_all (\<lambda>e. case e of Some (ns, True) \<Rightarrow> False | _ \<Rightarrow> True) (held_value h)"
  by (cases h rule: held_value.cases) (auto simp: settled_def split: option.split)

lemma settled_step: "settled h \<Longrightarrow> settled (held_token t h)"
proof (induction t h rule: held_token.induct)
  case (3 h)
  then show ?case by (cases h; cases "tl h") (auto simp: settled_def)
next
  case (4 h)
  then show ?case by (cases h; cases "tl h") (auto simp: settled_def)
qed (auto simp: settled_def dest: settled_value [unfolded settled_def] elim: held_value.elims)

lemma frames_length: "list_all2 frame_ok h stack \<Longrightarrow> length stack = length h"
  by (simp add: list_all2_lengthD)

text \<open>After the containers that closed are released: the costs fit the containers open before the
  token's own name is counted.\<close>

definition before_name :: "json_token \<Rightarrow> held \<Rightarrow> held" where
  "before_name t h = (case (t, h) of (StringToken s, Some (ns, False) # r) \<Rightarrow> h | _ \<Rightarrow> held_token t h)"

lemma opened_ok:
  assumes a: "token_allowed t h" and c: "scan_ok h cs s"
  shows "\<exists>cs1. scan_ok (before_name t h) cs1 (open_to (length (held_token t h)) s)
    \<and> TotalMembers (open_to (length (held_token t h)) s) \<le> TotalMembers s \<and> TotalNameBytes (open_to (length (held_token t h)) s) \<le> TotalNameBytes s"
proof -
  let ?less = "\<lambda>s1. TotalMembers s1 \<le> TotalMembers s \<and> TotalNameBytes s1 \<le> TotalNameBytes s"
  have n: "length (OpenObjects s) = length h" and all: "list_all2 cost_ok h cs" and s: "OpenObjects s = rev cs"
    "TotalMembers s = sum_list (map OC_members cs)" "TotalNameBytes s = sum_list (map OC_nameBytes cs)"
    using c by (auto simp: scan_ok_def dest: list_all2_lengthD)
  have lv: "length (held_value h) = length h" by (cases h rule: held_value.cases) simp_all
  have push: "scan_ok (e # held_value h) (openObjectCost_zero # cs) (open_to (Suc (length h)) s) \<and> ?less (open_to (Suc (length h)) s)" if "cost_ok e openObjectCost_zero" for e
    using that s all cost_value [OF all] unfolding open_to_push [OF n] by (simp add: scan_ok_def openObjectCost_zero_def)
  have keep: "scan_ok h' cs (open_to (length h) s) \<and> ?less (open_to (length h) s)" if "list_all2 cost_ok h' cs" for h'
    using that s unfolding open_to_same [OF n] by (simp add: scan_ok_def)
  have pop: "\<exists>cs1. scan_ok (tl h) cs1 (open_to (length (tl h)) s) \<and> ?less (open_to (length (tl h)) s)" if "h \<noteq> []"
  proof -
    obtain e h' x cs' where h: "h = e # h'" "cs = x # cs'" using \<open>h \<noteq> []\<close> all by (cases h; cases cs) auto
    then have "length h' = length cs'" using all by (auto dest: list_all2_lengthD)
    moreover have "0 \<le> OC_members x" "0 \<le> OC_nameBytes x"
      using all unfolding h by (auto simp: openObjectCost_zero_def bytes_of_def elim: cost_ok.elims)
    ultimately show ?thesis using open_to_pop [of s x cs'] s all unfolding h
      by (intro exI [of _ cs']) (simp add: scan_ok_def)
  qed
  show ?thesis
  proof (cases t)
    case BeginObject
    have "cost_ok (Some ([], False)) openObjectCost_zero" by (simp add: openObjectCost_zero_def)
    from push [OF this] show ?thesis by (intro exI [of _ "openObjectCost_zero # cs"]) (simp add: BeginObject before_name_def lv)
  next
    case BeginArray
    show ?thesis using push [of None] by (intro exI [of _ "openObjectCost_zero # cs"]) (simp add: BeginArray before_name_def lv)
  next
    case EndObject
    then show ?thesis using pop a by (auto simp: before_name_def)
  next
    case EndArray
    then show ?thesis using pop a by (auto simp: before_name_def)
  next
    case (StringToken x)
    then show ?thesis using keep [OF all] keep [OF cost_value [OF all]] lv
      by (cases h rule: held_value.cases) (auto simp: before_name_def split: bool.splits)
  next
    case (ScalarToken x)
    then show ?thesis using keep [OF cost_value [OF all]] lv by (auto simp: before_name_def)
  qed
qed

lemma held_token_cases:
  assumes a: "token_allowed t h" and st: "settled h"
  shows "(\<exists>x ns r. t = StringToken x \<and> h = Some (ns, False) # r \<and> held_token t h = Some (ns @ [x], True) # r \<and> before_name t h = h)
    \<or> (before_name t h = held_token t h \<and> (\<forall>ns r. held_token t h \<noteq> Some (ns, True) # r))"
proof -
  have v: "held_value h \<noteq> Some (ns, True) # r" for ns r by (cases h rule: held_value.cases) auto
  have p: "tl h \<noteq> Some (ns, True) # r" for ns r using st by (auto simp: settled_def)
  show ?thesis
  proof (cases t)
    case (StringToken x)
    then show ?thesis by (cases h rule: held_value.cases) (auto simp: before_name_def split: bool.splits)
  qed (use v p in \<open>auto simp: before_name_def\<close>)
qed

lemma count_members_eq:
  "OpenObjects s = rev (c # cr) \<Longrightarrow> count_members (Suc (length cr)) n s =
     s\<lparr>TotalMembers := TotalMembers s + (int (n div 2) - OC_members c), OpenObjects := rev (c\<lparr>OC_members := int (n div 2)\<rparr> # cr)\<rparr>"
  by (simp add: count_members_def Let_def nth_append list_update_append)

lemma hold_name_eq:
  "OpenObjects s = rev (c # cr) \<Longrightarrow> hold_name (Suc (length cr)) b s =
     s\<lparr>TotalNameBytes := TotalNameBytes s + b, OpenObjects := rev (c\<lparr>OC_nameBytes := OC_nameBytes c + b\<rparr> # cr)\<rparr>"
  by (simp add: hold_name_def Let_def nth_append list_update_append)

definition within :: "strict_scan \<Rightarrow> bool" where
  "within s \<longleftrightarrow> TotalMembers s \<le> maxOpenObjectMembers \<and> TotalNameBytes s \<le> maxOpenNameBytes"

definition refused :: "json_token \<Rightarrow> int \<Rightarrow> held \<Rightarrow> strict_error \<Rightarrow> bool" where
  "refused t span h e \<longleftrightarrow>
     e = ErrUnverifiableJSON NameTooLong \<and> span > maxOpenNameBytes \<and> (\<exists>x ns r. t = StringToken x \<and> h = Some (ns, True) # r)
     \<or> e = ErrUnverifiableJSON TooManyNames \<and> int (length (names_held h)) > maxOpenObjectMembers
     \<or> e = ErrUnverifiableJSON NamesTooLarge \<and> bytes_of (names_held h) > maxOpenNameBytes"

lemma check_bounds_ok:
  assumes "scan_ok h cs s"
  shows "case check_bounds s of Inr s' \<Rightarrow> s' = s \<and> within s | Inl e \<Rightarrow> refused t span h e"
  using assms cost_sums [of h cs] by (auto simp: check_bounds_def within_def refused_def scan_ok_def)

lemma account_ok:
  assumes a: "token_allowed t h" and st: "settled h" and f: "list_all2 frame_ok h stack" and c: "scan_ok h cs s" and w: "within s"
  shows "case account_token t span (read_token t stack) s of
    Inr s' \<Rightarrow> (\<exists>cs'. scan_ok (held_token t h) cs' s') \<and> within s'
  | Inl e \<Rightarrow> refused t span (held_token t h) e"
proof -
  let ?h = "held_token t h" and ?st = "read_token t stack"
  have f1: "list_all2 frame_ok ?h ?st" by (rule frames_step [OF a f])
  have len: "length ?st = length ?h" by (rule frames_length [OF f1])
  obtain cs1 where c1: "scan_ok (before_name t h) cs1 (open_to (length ?h) s)" and within: "within (open_to (length ?h) s)"
    using opened_ok [OF a c] w unfolding within_def by (elim exE conjE) (rule that, assumption, simp add: within_def)
  let ?s = "open_to (length ?h) s"
  show ?thesis
  proof (cases "\<exists>ns p r. ?h = Some (ns, p) # r")
    case False
    then have b: "before_name t h = ?h" using held_token_cases [OF a st] by blast
    have "account_token t span ?st s = Inr ?s"
      using False f1 by (cases ?st; cases ?h; cases "hd ?h") (auto simp: account_token_def Let_def dest: list_all2_lengthD)
    then show ?thesis using c1 within unfolding b by auto
  next
    case True
    then obtain ns p r where h: "?h = Some (ns, p) # r" by blast
    then obtain n q where q: "?st = (True, n) # q" "n + (if p then 1 else 0) = 2 * length ns" "length q = length r"
      using f1 by (cases ?st) (auto simp: list_all2_lengthD)
    show ?thesis
    proof (cases p)
      case True
      then obtain x ns0 where x: "t = StringToken x" "h = Some (ns0, False) # r" "ns = ns0 @ [x]" "before_name t h = h"
        using held_token_cases [OF a st] h by auto
      obtain c cr where cc: "cs1 = c # cr" "cost_ok (Some (ns0, False)) c" "list_all2 cost_ok r cr"
      proof -
        have "list_all2 cost_ok (Some (ns0, False) # r) cs1" using c1 x(2,4) by (simp only: scan_ok_def)
        then show ?thesis using that by (auto simp: list_all2_Cons1 simp del: cost_ok.simps)
      qed
      have l: "length ?st = Suc (length cr)" using q cc(3) by (simp add: list_all2_lengthD)
      have n: "odd n" "n div 2 = length ns0" using q(2) True x(3) by simp_all
      let ?c = "c\<lparr>OC_members := int (length ns0), OC_nameBytes := OC_nameBytes c + int (length x)\<rparr>"
      let ?s2 = "hold_name (length ?st) (int (length x)) (count_members (length ?st) n ?s)"
      have rev: "OpenObjects ?s = rev (c # cr)" using c1 cc(1) by (simp add: scan_ok_def)
      have s2: "scan_ok ?h (?c # cr) ?s2"
      proof -
        note e = count_members_eq [OF rev, of n, unfolded n(2)]
        have "OpenObjects (count_members (Suc (length cr)) n ?s) = rev (c\<lparr>OC_members := int (length ns0)\<rparr> # cr)" unfolding e by simp
        note e2 = hold_name_eq [OF this, of "int (length x)"]
        have sums: "TotalMembers ?s = sum_list (map OC_members (c # cr))" "TotalNameBytes ?s = sum_list (map OC_nameBytes (c # cr))"
          using c1 cc(1) by (simp_all add: scan_ok_def)
        have all: "list_all2 cost_ok ?h (?c # cr)" unfolding h using cc x(3) True by simp
        then show ?thesis unfolding l e2 unfolding e scan_ok_def using sums by simp
      qed
      have "account_token t span ?st s = (if span > maxOpenNameBytes then Inl (ErrUnverifiableJSON NameTooLong) else check_bounds ?s2)"
        using n(1) q(1) x(1) len by (simp add: account_token_def Let_def)
      moreover have "refused t span ?h (ErrUnverifiableJSON NameTooLong)" if "span > maxOpenNameBytes"
        using that x(1) h True by (simp add: refused_def)
      ultimately show ?thesis using check_bounds_ok [OF s2, of t span] s2 by (auto split: sum.splits)
    next
      case False
      then have b: "before_name t h = ?h" using held_token_cases [OF a st] h by auto
      obtain c cr where cc: "cs1 = c # cr" "cost_ok (Some (ns, p)) c" "list_all2 cost_ok r cr"
      proof -
        have "list_all2 cost_ok (Some (ns, p) # r) cs1" using c1 b h by (simp only: scan_ok_def)
        then show ?thesis using that by (auto simp: list_all2_Cons1 simp del: cost_ok.simps)
      qed
      have l: "length ?st = Suc (length cr)" using q cc(3) by (simp add: list_all2_lengthD)
      have n: "even n" "n div 2 = length ns" using q(2) False by simp_all
      let ?c = "c\<lparr>OC_members := int (length ns)\<rparr>"
      let ?s2 = "count_members (length ?st) n ?s"
      have rev: "OpenObjects ?s = rev (c # cr)" using c1 cc(1) by (simp add: scan_ok_def)
      have s2: "scan_ok ?h (?c # cr) ?s2"
      proof -
        have sums: "TotalMembers ?s = sum_list (map OC_members (c # cr))" "TotalNameBytes ?s = sum_list (map OC_nameBytes (c # cr))"
          using c1 cc(1) by (simp_all add: scan_ok_def)
        have all: "list_all2 cost_ok ?h (?c # cr)" unfolding h using cc False by simp
        then show ?thesis unfolding l count_members_eq [OF rev, of n, unfolded n(2)] scan_ok_def using sums by simp
      qed
      have "account_token t span ?st s = check_bounds ?s2" using n(1) q(1) len by (simp add: account_token_def Let_def)
      then show ?thesis using check_bounds_ok [OF s2, of t span] s2 by (auto split: sum.splits)
    qed
  qed
qed

text \<open>What is held after each token read so far.\<close>

fun held_after :: "held \<Rightarrow> json_token list \<Rightarrow> held" where
  "held_after h [] = h"
| "held_after h (t # ts) = held_after (held_token t h) ts"

lemma scan_tokens_ok:
  "\<lbrakk>tokens_allowed h (map fst ts); settled h; list_all2 frame_ok h stack; scan_ok h cs s; within s\<rbrakk> \<Longrightarrow>
   case scan_tokens stack s ts of
     Inr s' \<Rightarrow> (\<forall>k \<in> {1..length ts}. int (length (names_held (held_after h (take k (map fst ts)))))
          \<le> maxOpenObjectMembers + int (objects_open (held_after h (take k (map fst ts))))
        \<and> bytes_of (names_held (held_after h (take k (map fst ts)))) \<le> maxOpenNameBytes)
   | Inl e \<Rightarrow> (\<exists>k < length ts. refused (fst (ts ! k)) (snd (ts ! k)) (held_after h (take (Suc k) (map fst ts))) e)"
proof (induction stack s ts arbitrary: h cs rule: scan_tokens.induct)
  case (2 stack s t span rest)
  let ?h = "held_token t h" and ?st = "read_token t stack"
  have a: "token_allowed t h" "tokens_allowed ?h (map fst rest)" using 2(2) by simp_all
  note st = settled_step [OF 2(3), of t] and f = frames_step [OF a(1) 2(4)]
  note step = account_ok [OF a(1) 2(3-6), of span]
  show ?case
  proof (cases "account_token t span ?st s")
    case (Inl e)
    then show ?thesis using step by (auto intro!: exI [of _ 0])
  next
    case (Inr s')
    then obtain cs' where c: "scan_ok ?h cs' s'" "within s'" using step by auto
    note ih = 2(1) [OF Inr a(2) st f c]
    have here: "int (length (names_held ?h)) \<le> maxOpenObjectMembers + int (objects_open ?h) \<and> bytes_of (names_held ?h) \<le> maxOpenNameBytes"
      using c cost_sums [of ?h cs'] by (auto simp: scan_ok_def within_def)
    show ?thesis
    proof (cases "scan_tokens ?st s' rest")
      case (Inl e)
      then obtain k where "k < length rest" "refused (fst (rest ! k)) (snd (rest ! k)) (held_after ?h (take (Suc k) (map fst rest))) e"
        using ih by auto
      then show ?thesis using Inl \<open>account_token t span ?st s = Inr s'\<close> by (auto intro!: exI [of _ "Suc k"])
    next
      case r: (Inr s'')
      have "int (length (names_held (held_after h (take k (map fst ((t, span) # rest))))))
          \<le> maxOpenObjectMembers + int (objects_open (held_after h (take k (map fst ((t, span) # rest)))))
        \<and> bytes_of (names_held (held_after h (take k (map fst ((t, span) # rest))))) \<le> maxOpenNameBytes"
        if "k \<in> {1..length ((t, span) # rest)}" for k
      proof (cases "k = 1")
        case False
        then have "k = Suc (k - 1)" "k - 1 \<in> {1..length rest}" using that by auto
        then obtain j where "k = Suc j" "j \<in> {1..length rest}" by blast
        then show ?thesis using ih unfolding r by simp
      qed (use here in simp)
      then show ?thesis using r \<open>account_token t span ?st s = Inr s'\<close> by (simp del: take_Suc_Cons)
    qed
  qed
qed simp

abbreviation scan_start :: strict_scan where
  "scan_start \<equiv> \<lparr>OpenObjects = [], TotalMembers = 0, TotalNameBytes = 0\<rparr>"

lemma scan_start_ok: "scan_ok [] [] scan_start" "within scan_start" "settled []"
  by (simp_all add: scan_ok_def within_def settled_def)

text \<open>C21. Accepting a text bounds what checking it holds: when no objection is returned, the decoder
  read to the end and after every token the names held by the objects then open weighed at most
  16 MiB and were at most a hundred thousand and one for each open object, whose last name waits for
  its value. A refusal for its size is for a name too long or for more than either bound held at that
  point, and any other refusal repeats the decoder's objection in the class its text belongs to.\<close>

theorem requireUnambiguousJSON_spec:
  assumes "tokens_allowed [] (map fst (json_tokens J data))"
  shows "case requireUnambiguousJSON J data of
    None \<Rightarrow> json_objection J data = None \<and> (\<forall>k \<in> {1..length (json_tokens J data)}.
        int (length (names_held (held_after [] (take k (map fst (json_tokens J data))))))
          \<le> maxOpenObjectMembers + int (objects_open (held_after [] (take k (map fst (json_tokens J data)))))
        \<and> bytes_of (names_held (held_after [] (take k (map fst (json_tokens J data))))) \<le> maxOpenNameBytes)
  | Some (ErrUnverifiableJSON u) \<Rightarrow> (\<exists>k < length (json_tokens J data). refused (fst (json_tokens J data ! k)) (snd (json_tokens J data ! k))
        (held_after [] (take (Suc k) (map fst (json_tokens J data)))) (ErrUnverifiableJSON u))
  | Some ErrMalformedJSON \<Rightarrow> json_objection J data \<noteq> None \<and> \<not> json_Valid J data
  | Some (ErrAmbiguousJSON a) \<Rightarrow> json_Valid J data \<and> json_objection J data = Some (a = RepeatedName)
        \<and> (a = InvalidUTF8 \<longrightarrow> json_waived J data \<and> \<not> ValidString data) \<and> (a = UnpairedSurrogate \<longrightarrow> json_waived J data \<and> ValidString data)"
proof -
  note scan = scan_tokens_ok [OF assms scan_start_ok(3) _ scan_start_ok(1,2), of "[]"]
  show ?thesis
  proof (cases "scan_tokens [] scan_start (json_tokens J data)")
    case (Inl e)
    then obtain u where "e = ErrUnverifiableJSON u" using scan by (auto simp: refused_def)
    then show ?thesis using scan Inl by (simp add: requireUnambiguousJSON_def)
  next
    case (Inr s)
    then show ?thesis using scan
      by (cases "json_objection J data") (auto simp: requireUnambiguousJSON_def classifyStrictRefusal_def)
  qed
qed

definition sample_decoder :: json_decoder where
  "sample_decoder = \<lparr>json_tokens = \<lambda>_. [(BeginObject, 1), (StringToken ''a'', 3), (ScalarToken ''1'', 2), (EndObject, 1)],
     json_objection = \<lambda>_. None, json_Valid = \<lambda>_. True, json_waived = \<lambda>_. True\<rparr>"

theorem requireUnambiguousJSON_spec_witness:
  "requireUnambiguousJSON sample_decoder ''x'' = None \<and> bytes_of (names_held (held_after [] [BeginObject, StringToken ''a''])) \<le> maxOpenNameBytes"
proof -
  have a: "tokens_allowed [] (map fst (json_tokens sample_decoder ''x''))" by (simp add: sample_decoder_def)
  have n: "requireUnambiguousJSON sample_decoder ''x'' = None" by code_simp
  from requireUnambiguousJSON_spec [OF a] n have "bytes_of (names_held (held_after [] (take 2 (map fst (json_tokens sample_decoder ''x''))))) \<le> maxOpenNameBytes"
    by (simp del: held_after.simps) (auto simp: sample_decoder_def)
  then show ?thesis using n by (simp add: sample_decoder_def)
qed

section \<open>Names that wait for their value\<close>

lemma nested_names_uncounted:
  "\<lbrakk>length (OpenObjects s) = length stack; within s; TotalNameBytes s + int d \<le> maxOpenNameBytes\<rbrakk> \<Longrightarrow>
   \<exists>s'. scan_tokens stack s (concat (replicate d [(BeginObject, 1), (StringToken ''a'', 3)])) = Inr s' \<and> TotalMembers s' = TotalMembers s"
proof (induction d arbitrary: stack s)
  case (Suc d)
  let ?st = "(True, Suc 0) # count_value stack"
  have l: "length (count_value stack) = length stack" by (cases stack rule: count_value.cases) simp_all
  let ?s1 = "s\<lparr>OpenObjects := OpenObjects s @ [openObjectCost_zero]\<rparr>"
  let ?s2 = "s\<lparr>OpenObjects := OpenObjects s @ [\<lparr>OC_members = 0, OC_nameBytes = 1\<rparr>], TotalNameBytes := TotalNameBytes s + 1\<rparr>"
  have o: "open_to (Suc (length stack)) s = ?s1" by (rule open_to_push [OF Suc.prems(1)])
  have c: "count_members (Suc (length stack)) n ?s1 = ?s1" if "n div 2 = 0" for n
    using that Suc.prems(1) by (simp add: count_members_def Let_def nth_append list_update_append openObjectCost_zero_def)
  have w: "check_bounds ?s1 = Inr ?s1" using Suc.prems(2) by (simp add: check_bounds_def within_def)
  have a1: "account_token BeginObject 1 ((True, 0) # count_value stack) s = Inr ?s1"
    using l o c [of 0] w by (simp add: account_token_def Let_def)
  have o2: "open_to (Suc (length stack)) ?s1 = ?s1" by (rule open_to_same) (simp add: Suc.prems(1))
  have h: "hold_name (Suc (length stack)) 1 ?s1 = ?s2"
    using Suc.prems(1) by (simp add: hold_name_def Let_def nth_append list_update_append openObjectCost_zero_def)
  have w2: "check_bounds ?s2 = Inr ?s2" using Suc.prems by (simp add: check_bounds_def within_def)
  have a2: "account_token (StringToken ''a'') 3 ?st ?s1 = Inr ?s2"
    using l o2 c [of "Suc 0"] h w2 by (simp add: account_token_def Let_def)
  have "\<exists>s'. scan_tokens ?st ?s2 (concat (replicate d [(BeginObject, 1), (StringToken ''a'', 3)])) = Inr s' \<and> TotalMembers s' = TotalMembers ?s2"
    by (rule Suc.IH) (use Suc.prems l in \<open>simp_all add: within_def\<close>)
  then show ?case using a1 a2 by simp
qed simp

text \<open>A hundred thousand and one names can be held without one of them counting.\<close>

lemma nested_names_accepted:
  "\<exists>s. scan_tokens [] scan_start (concat (replicate 100001 [(BeginObject, 1), (StringToken ''a'', 3)])) = Inr s \<and> TotalMembers s = 0"
  using nested_names_uncounted [of scan_start "[]" 100001] by (simp add: within_def)

end
