(* ===== verification/Codec.thy ===== *)
theory Codec
  imports CdxRound SpdxRound Strict
begin

text \<open>
  The entry points of the document codecs (\<open>sbom/codec.go\<close>): the bound on the input, the choice of a
  codec by target, the detection of a target, and what every ingestion stamps on a document.
\<close>

section \<open>Targets\<close>

abbreviation MaxDocumentBytes :: nat where "MaxDocumentBytes \<equiv> 256 * 1024 * 1024"
abbreviation syftSchemaURLMarker :: string where "syftSchemaURLMarker \<equiv> ''anchore/syft''"

text \<open>\<open>RefusedJSON\<close> holds an error of the strict check, \<^verbatim>\<open>ErrMalformedJSON\<close> of the detection among
  them; \<open>DecodeFailed\<close> and \<open>EncodeFailed\<close> are the errors of the format library, \<open>BuildFailed\<close>
  one of the document builder.\<close>

datatype codec_error = ErrNilDocument | ErrUnsupportedTarget string | ErrUnsupportedFormat | ErrDocumentTooLarge nat |
  ErrSyftJSONUnsupported | RefusedJSON strict_error | DecodeFailed | EncodeFailed | BuildFailed build_error

text \<open>What the detection reads of a document, and what it calls: \<open>sniff\<close> is \<^verbatim>\<open>json.Unmarshal\<close> into the
  discriminating fields, \<open>sha1_hex\<close> the SHA-1 in hexadecimal, \<open>None\<close> where computing it panics.\<close>

record sniffed =
  Sniff_SPDXVersion :: string
  Sniff_BOMFormat :: string
  Sniff_SpecVersion :: string
  Sniff_SchemaURL :: string

record codec_library =
  strict_json :: json_decoder
  sniff :: "string \<Rightarrow> sniffed option"
  sha1_hex :: "string \<Rightarrow> string option"

definition codecs :: "string set" where
  "codecs = {TargetSPDX23JSON, TargetCycloneDX14JSON, TargetCycloneDX15JSON, TargetCycloneDX16JSON, TargetCycloneDX17JSON}"

definition requireWithinSizeBound :: "string \<Rightarrow> codec_error option" where
  "requireWithinSizeBound data = (if length data > MaxDocumentBytes then Some (ErrDocumentTooLarge (length data)) else None)"

section \<open>Reading\<close>

definition sourceChecksum :: "library \<Rightarrow> codec_library \<Rightarrow> string \<Rightarrow> digest option" where
  "sourceChecksum L K data =
     Option.bind (sha1_hex K data) (\<lambda>h. Digest_Normalized L \<lparr>Algorithm = ''sha1'', Value = h, Subject = []\<rparr>)"

definition codec_decode ::
    "library \<Rightarrow> sbom_library \<Rightarrow> cdx_library \<Rightarrow> spdx_library \<Rightarrow> string \<Rightarrow> string \<Rightarrow> sbom_document option option" where
  "codec_decode L E X S target data =
     (if target = TargetSPDX23JSON then Some (spdx_decodeJSON L E S data) else cycloneDX_decodeJSON L E X target data)"

definition stamped :: "library \<Rightarrow> codec_library \<Rightarrow> string \<Rightarrow> string \<Rightarrow> sbom_document \<Rightarrow> sbom_document" where
  "stamped L K target data d =
     (let a = SB_Assertions d;
          a = (if DocFormat a = [] then a\<lparr>DocFormat := NormalizeDocumentFormat target\<rparr> else a);
          a = (case sourceChecksum L K data of None \<Rightarrow> a | Some c \<Rightarrow> a\<lparr>DocChecksum := Some c\<rparr>)
      in d\<lparr>SB_Assertions := a\<rparr>)"

text \<open>The outer option is the fuel of the codec, which never runs out.\<close>

definition decodeDocument ::
    "library \<Rightarrow> sbom_library \<Rightarrow> cdx_library \<Rightarrow> spdx_library \<Rightarrow> codec_library \<Rightarrow> string \<Rightarrow> string \<Rightarrow> (codec_error + sbom_document) option" where
  "decodeDocument L E X S K target data =
     map_option (\<lambda>r. case r of None \<Rightarrow> Inl DecodeFailed | Some d \<Rightarrow> Inr (stamped L K target data d)) (codec_decode L E X S target data)"

definition unmarshalValidated ::
    "library \<Rightarrow> sbom_library \<Rightarrow> cdx_library \<Rightarrow> spdx_library \<Rightarrow> codec_library \<Rightarrow> string \<Rightarrow> string \<Rightarrow> (codec_error + sbom_document) option" where
  "unmarshalValidated L E X S K data target =
     (if target \<notin> codecs then Some (Inl (ErrUnsupportedTarget target)) else decodeDocument L E X S K target data)"

definition sbom_UnmarshalJSON ::
    "library \<Rightarrow> sbom_library \<Rightarrow> cdx_library \<Rightarrow> spdx_library \<Rightarrow> codec_library \<Rightarrow> string \<Rightarrow> string \<Rightarrow> (codec_error + sbom_document) option" where
  "sbom_UnmarshalJSON L E X S K data target =
     (if target \<notin> codecs then Some (Inl (ErrUnsupportedTarget target))
      else (case requireWithinSizeBound data of
              Some err \<Rightarrow> Some (Inl err)
            | None \<Rightarrow> (case requireUnambiguousJSON (strict_json K) data of
                         Some err \<Rightarrow> Some (Inl (RefusedJSON err))
                       | None \<Rightarrow> decodeDocument L E X S K target data)))"

definition sniffed_target :: "sniffed \<Rightarrow> codec_error + string" where
  "sniffed_target f =
     (if Contains (Sniff_SchemaURL f) syftSchemaURLMarker then Inr TargetSyftJSON
      else if Sniff_SPDXVersion f = ''SPDX-2.3'' then Inr TargetSPDX23JSON
      else if Sniff_BOMFormat f = ''CycloneDX''
      then (if Sniff_SpecVersion f = ''1.4'' then Inr TargetCycloneDX14JSON
            else if Sniff_SpecVersion f = ''1.5'' then Inr TargetCycloneDX15JSON
            else if Sniff_SpecVersion f = ''1.6'' then Inr TargetCycloneDX16JSON
            else if Sniff_SpecVersion f = ''1.7'' then Inr TargetCycloneDX17JSON
            else Inl ErrUnsupportedFormat)
      else Inl ErrUnsupportedFormat)"

definition DetectJSONTarget :: "codec_library \<Rightarrow> string \<Rightarrow> codec_error + string" where
  "DetectJSONTarget K data =
     (case requireWithinSizeBound data of
        Some err \<Rightarrow> Inl err
      | None \<Rightarrow>
          (let trimmed = TrimSpace data
           in if trimmed = [] \<or> \<not> json_Valid (strict_json K) trimmed then Inl (RefusedJSON ErrMalformedJSON)
              else (case sniff K trimmed of None \<Rightarrow> Inl (RefusedJSON ErrMalformedJSON) | Some f \<Rightarrow> sniffed_target f)))"

definition UnmarshalAutoJSON ::
    "library \<Rightarrow> sbom_library \<Rightarrow> cdx_library \<Rightarrow> spdx_library \<Rightarrow> codec_library \<Rightarrow> string \<Rightarrow> (codec_error + sbom_document \<times> string) option" where
  "UnmarshalAutoJSON L E X S K data =
     (case requireWithinSizeBound data of
        Some err \<Rightarrow> Some (Inl err)
      | None \<Rightarrow>
          (case requireUnambiguousJSON (strict_json K) data of
             Some err \<Rightarrow> Some (Inl (RefusedJSON err))
           | None \<Rightarrow>
               (case DetectJSONTarget K data of
                  Inl err \<Rightarrow> Some (Inl err)
                | Inr target \<Rightarrow>
                    if target = TargetSyftJSON then Some (Inl ErrSyftJSONUnsupported)
                    else map_option (map_sum id (\<lambda>d. (d, target))) (unmarshalValidated L E X S K data target))))"

section \<open>Writing\<close>

definition sbom_MarshalJSON ::
    "library \<Rightarrow> sbom_library \<Rightarrow> cdx_library \<Rightarrow> spdx_library \<Rightarrow> sbom_document option \<Rightarrow> string \<Rightarrow> bool \<Rightarrow> (codec_error + string) option" where
  "sbom_MarshalJSON L E X S doc target pretty =
     (case doc of
        None \<Rightarrow> Some (Inl ErrNilDocument)
      | Some d \<Rightarrow>
          if target \<notin> codecs then Some (Inl (ErrUnsupportedTarget target))
          else map_option (\<lambda>r. case r of None \<Rightarrow> Inl EncodeFailed | Some t \<Rightarrow> Inr t)
                 (if target = TargetSPDX23JSON then spdx_encodeJSON L E S pretty d else Some (cycloneDX_encodeJSON L E X target pretty d)))"

definition MarshalGraphEntriesJSON ::
    "library \<Rightarrow> sbom_library \<Rightarrow> cdx_library \<Rightarrow> spdx_library \<Rightarrow> graph option \<Rightarrow> ('p, document_assertions) graph_entry list \<Rightarrow> string
     \<Rightarrow> build_options \<Rightarrow> bool \<Rightarrow> (codec_error + string) option" where
  "MarshalGraphEntriesJSON L E X S g entries target buildOpts pretty =
     (case sbom_FromGraphEntries L E g entries buildOpts of
        None \<Rightarrow> None
      | Some (Inl err) \<Rightarrow> Some (Inl (BuildFailed err))
      | Some (Inr d) \<Rightarrow> sbom_MarshalJSON L E X S (Some d) target pretty)"

definition MarshalDepGraphJSON ::
    "library \<Rightarrow> sbom_library \<Rightarrow> cdx_library \<Rightarrow> spdx_library \<Rightarrow> graph option \<Rightarrow> string \<Rightarrow> build_options \<Rightarrow> bool \<Rightarrow> (codec_error + string) option" where
  "MarshalDepGraphJSON L E X S g target buildOpts pretty =
     MarshalGraphEntriesJSON L E X S g ([] :: (unit, document_assertions) graph_entry list) target buildOpts pretty"

section \<open>The entry points agree\<close>

lemma decode_total: "decodeDocument L E X S K target data \<noteq> None"
proof -
  have "cycloneDX_decodeJSON L E X target data \<noteq> None"
    using decode_components_ok [of L target] by (fastforce simp: cycloneDX_decodeJSON_def cycloneDXDocument_def split: option.split)
  then show ?thesis by (simp add: decodeDocument_def codec_decode_def)
qed

lemma encode_total: "sbom_MarshalJSON L E X S doc target pretty \<noteq> None"
  using spdxDocument_ok [of L E S] by (fastforce simp: sbom_MarshalJSON_def spdx_encodeJSON_def split: option.split)

lemma sniffed_target_known: "sniffed_target f = Inr t \<Longrightarrow> t \<in> insert TargetSyftJSON codecs"
  by (auto simp: sniffed_target_def codecs_def split: if_splits)

lemma syft_no_codec: "TargetSyftJSON \<notin> codecs"
  by (simp add: codecs_def)

lemma detected_known: "DetectJSONTarget K data = Inr t \<Longrightarrow> t \<in> insert TargetSyftJSON codecs"
  by (auto simp: DetectJSONTarget_def Let_def dest: sniffed_target_known split: option.splits if_splits)

lemma detected_small: "DetectJSONTarget K data = Inr t \<Longrightarrow> length data \<le> MaxDocumentBytes"
  by (auto simp: DetectJSONTarget_def requireWithinSizeBound_def split: if_splits)

lemma paired: "map_sum id (\<lambda>d. (d, t)) z = Inr (d, target) \<longleftrightarrow> z = Inr d \<and> t = target"
  by (cases z) auto

lemma stamped_assertions:
  "DocFormat (SB_Assertions (stamped L K target data d)) =
     (if DocFormat (SB_Assertions d) = [] then NormalizeDocumentFormat target else DocFormat (SB_Assertions d))"
  "DocChecksum (SB_Assertions (stamped L K target data d)) =
     (case sourceChecksum L K data of None \<Rightarrow> DocChecksum (SB_Assertions d) | Some c \<Rightarrow> Some c)"
  by (simp_all add: stamped_def Let_def split: option.split)

text \<open>Reading with detection is reading as the detected target: it always answers; it yields a document and
  a target exactly when that target is the one detected and reading the text as it yields that document; no text
  over the size bound, no ambiguous one and no syft document is ever decoded; and the document carries a format,
  its own or the target's, and the checksum of the text when there is one.\<close>

lemma UnmarshalAutoJSON_spec:
  "UnmarshalAutoJSON L E X S K data \<noteq> None
   \<and> (UnmarshalAutoJSON L E X S K data = Some (Inr (d, target)) \<longleftrightarrow>
        DetectJSONTarget K data = Inr target \<and> sbom_UnmarshalJSON L E X S K data target = Some (Inr d))
   \<and> (UnmarshalAutoJSON L E X S K data = Some (Inr (d, target)) \<longrightarrow>
        length data \<le> MaxDocumentBytes \<and> requireUnambiguousJSON (strict_json K) data = None \<and> target \<in> codecs
        \<and> (\<exists>d0. codec_decode L E X S target data = Some (Some d0)
             \<and> DocFormat (SB_Assertions d) = (if DocFormat (SB_Assertions d0) = [] then NormalizeDocumentFormat target else DocFormat (SB_Assertions d0))
             \<and> (\<forall>c. sourceChecksum L K data = Some c \<longrightarrow> DocChecksum (SB_Assertions d) = Some c)))"
proof (intro conjI impI)
  show "UnmarshalAutoJSON L E X S K data \<noteq> None"
    using decode_total by (auto simp: UnmarshalAutoJSON_def unmarshalValidated_def split: option.splits sum.splits)
  show e: "UnmarshalAutoJSON L E X S K data = Some (Inr (d, target)) \<longleftrightarrow>
        DetectJSONTarget K data = Inr target \<and> sbom_UnmarshalJSON L E X S K data target = Some (Inr d)" for d target
  proof (cases "requireWithinSizeBound data \<noteq> None \<or> requireUnambiguousJSON (strict_json K) data \<noteq> None")
    case True
    then show ?thesis by (auto simp: UnmarshalAutoJSON_def sbom_UnmarshalJSON_def split: option.splits)
  next
    case False
    show ?thesis
    proof (cases "DetectJSONTarget K data")
      case (Inr t)
      then have "t = TargetSyftJSON \<or> t \<in> codecs" using detected_known by blast
      then show ?thesis using False Inr syft_no_codec
        by (auto simp: UnmarshalAutoJSON_def sbom_UnmarshalJSON_def unmarshalValidated_def paired)
    qed (use False in \<open>auto simp: UnmarshalAutoJSON_def\<close>)
  qed
  assume a: "UnmarshalAutoJSON L E X S K data = Some (Inr (d, target))"
  then have det: "DetectJSONTarget K data = Inr target" and u: "sbom_UnmarshalJSON L E X S K data target = Some (Inr d)" using e by blast+
  show "length data \<le> MaxDocumentBytes" by (rule detected_small [OF det])
  show "requireUnambiguousJSON (strict_json K) data = None" "target \<in> codecs" using u by (auto simp: sbom_UnmarshalJSON_def split: if_splits option.splits)
  have "decodeDocument L E X S K target data = Some (Inr d)" using u by (auto simp: sbom_UnmarshalJSON_def split: if_splits option.splits)
  then obtain d0 where "codec_decode L E X S target data = Some (Some d0)" "d = stamped L K target data d0"
    by (auto simp: decodeDocument_def split: option.splits)
  then show "\<exists>d0. codec_decode L E X S target data = Some (Some d0)
             \<and> DocFormat (SB_Assertions d) = (if DocFormat (SB_Assertions d0) = [] then NormalizeDocumentFormat target else DocFormat (SB_Assertions d0))
             \<and> (\<forall>c. sourceChecksum L K data = Some c \<longrightarrow> DocChecksum (SB_Assertions d) = Some c)"
    by (intro exI [of _ d0]) (simp add: stamped_assertions)
qed

end
