(* ===== verification/Spec2Isabelle.thy ===== *)
theory Spec2Isabelle
  imports GraphMerge References ScanCodec Lifetime Components Codec
begin

text \<open>
  The Bomly SDK (Go): the library the Bomly command line and its plugins share. Detectors resolve
  manifests into dependency graphs, matchers attach advisories and licenses to the packages of a
  registry, analyzers attach usages, and the result is compared, stored as a scan record or written
  as an SBOM. This development models the part of it that computes: the data model, the graph, the
  registry, the gates every published value clears, the transport codecs, the scan record and the
  translation between graphs and SBOM documents.

  \<^bold>\<open>How the program's parts meet.\<close> A detector builds nodes (\<open>Nodes\<close>) from coordinates (\<open>Coordinates\<close>,
  \<open>Purl\<close>) and repository paths (\<open>RepoPath\<close>) and stores them in a graph (\<open>Graph\<close>). A node met twice
  is folded by the rules of its fields (\<open>Merge\<close>, \<open>Scopes\<close>, \<open>Kinds\<close>, \<open>Locations\<close>, \<open>Digests\<close>, \<open>Origins\<close>,
  \<open>Contacts\<close>, \<open>References\<close>, \<open>Licenses\<close>, \<open>Assertions\<close>). Graphs of several manifests are consolidated
  and filtered by scope (\<open>GraphMerge\<close>, \<open>Components\<close>), walked (\<open>Traversal\<close>), projected (\<open>Views\<close>),
  compared (\<open>Compare\<close>), and matched against package records (\<open>Registry\<close>, \<open>Advisories\<close>, \<open>Usage\<close>). They
  cross process borders as JSON payloads (\<open>Wire\<close>), are written into scan records (\<open>Scan\<close>,
  \<open>ScanCodec\<close>), or become SBOM documents and are read back from them (\<open>Document\<close>, \<open>Sbom\<close>,
  \<open>SbomGraph\<close>, \<open>SbomBuild\<close>) whose text is checked (\<open>Strict\<close>) and written or read by the codec of a format
  (\<open>Cdx\<close>, \<open>CdxDoc\<close>, \<open>SpdxDoc\<close>) that the entry points choose (\<open>Codec\<close>). Plugins declare what they are and need (\<open>Declarations\<close>,
  \<open>Components\<close>) and live in a scope that runs their cleanups (\<open>Lifetime\<close>).

  \<^bold>\<open>Conventions.\<close> Go strings are byte lists (\<open>string\<close>), a Go map is an association list with distinct
  keys (\<open>gomap\<close>, from \<open>Prelude\<close>), a nil and an empty slice are \<open>[]\<close>, a pointer is an option, an error is the left side
  of a sum whose constructors are the error values the code returns. Structs are records under their
  Go field names (with a prefix where two structs share one), enumerated strings keep the program's
  strings. Cloning is the identity. Sizes and versions are \<open>int\<close> or \<open>nat\<close>; where the code bounds a
  number the bound is in the definition. Code the repository calls and does not contain (URL, package URL and
  license parsers, CycloneDX and SPDX vocabularies, hashes, clocks, JSON text) is a field of the records
  \<open>library\<close> (\<open>Library\<close>), \<open>sbom_library\<close> (\<open>Sbom\<close>), \<open>cdx_library\<close> (\<open>CdxDoc\<close>), \<open>spdx_library\<close> (\<open>SpdxDoc\<close>),
  \<open>codec_library\<close> (\<open>Codec\<close>) or \<open>json_decoder\<close> (\<open>Strict\<close>), passed first; a law such code
  must obey is a named hypothesis of the theorem that needs it.

  \<^bold>\<open>Theories and code\<close>
  \<^item> \<open>Prelude\<close>, \<open>GoStrings\<close>: maps, folds that stop at an error, sorting; the functions of
    \<^verbatim>\<open>strings\<close>, \<^verbatim>\<open>unicode\<close> and \<^verbatim>\<open>utf8\<close> on byte strings.
  \<^item> \<open>Merge\<close> (\<^verbatim>\<open>model/merge.go\<close>), \<open>Scopes\<close> (\<^verbatim>\<open>model/scope_cyclonedx.go\<close>, scopes of \<^verbatim>\<open>model/dependency.go\<close>),
    \<open>Kinds\<close> (\<^verbatim>\<open>model/edge.go\<close>, \<^verbatim>\<open>model/relationship.go\<close>), \<open>Locations\<close>, \<open>Digests\<close> (\<^verbatim>\<open>model/digest.go\<close>), \<open>Origins\<close>
    (\<^verbatim>\<open>model/origin.go\<close>), \<open>Contacts\<close> (\<^verbatim>\<open>model/contact.go\<close>), \<open>References\<close> (\<^verbatim>\<open>model/external_reference.go\<close>),
    \<open>Licenses\<close>, \<open>Assertions\<close> (\<^verbatim>\<open>model/package.go\<close>, \<^verbatim>\<open>model/assertions.go\<close>, \<^verbatim>\<open>model/metadata.go\<close>),
    \<open>RepoPath\<close> (\<^verbatim>\<open>model/node.go\<close>): one kind of value each, with its gate, its order and its merge.
    The lemmas show that a gated value is safe, that gates are idempotent and merges are unions.
  \<^item> \<open>Spdx\<close> (\<^verbatim>\<open>spdxkit\<close>), \<open>Purl\<close> (\<^verbatim>\<open>purlkit\<close>), \<open>Coordinates\<close> (\<^verbatim>\<open>model/coordinates.go\<close> and the vocabularies
    beside it): the policies around the third-party parsers.
  \<^item> \<open>Nodes\<close> (\<^verbatim>\<open>model/node.go\<close>, \<^verbatim>\<open>model/dependency.go\<close>, \<^verbatim>\<open>model/node_access.go\<close>): manifests, modules and
    dependencies as one datatype, the constructors that mint identities, and the fold of a second witness.
  \<^item> \<open>Graph\<close>, \<open>GraphStore\<close>, \<open>GraphMerge\<close>, \<open>Traversal\<close>, \<open>Compare\<close> (\<^verbatim>\<open>model/graph.go\<close>,
    \<^verbatim>\<open>model/container.go\<close>, \<^verbatim>\<open>model/scope_filter.go\<close>): the slot store with its index, edge tables and
    free list; the invariant \<open>graph_ok\<close> and the abstraction \<open>Node\<close>, \<open>edge_of\<close> that every operation is
    specified by; merging, consolidation and the scope filter; paths and topological order; the
    diff of two graphs.
  \<^item> \<open>Views\<close> (\<^verbatim>\<open>graphview/graphview.go\<close>, \<^verbatim>\<open>detectorkit/subgraph.go\<close>): children across structural nodes,
    subgraphs, text trees.
  \<^item> \<open>Advisories\<close> (\<^verbatim>\<open>model/vulnerability.go\<close>, \<^verbatim>\<open>model/vulnerability_analysis.go\<close>, \<^verbatim>\<open>model/policy.go\<close>), \<open>Usage\<close>
    (\<^verbatim>\<open>model/usage.go\<close>), \<open>Registry\<close> (\<^verbatim>\<open>model/package.go\<close>, \<^verbatim>\<open>model/registry.go\<close>, \<^verbatim>\<open>model/attestation.go\<close>):
    what matching adds to a package, and the registry keyed by package URL.
  \<^item> \<open>Wire\<close> (\<^verbatim>\<open>model/json.go\<close>): the flat payload of graphs and registries, decoded through the
    constructors; round trips, bounds and what a decoded graph guarantees.
  \<^item> \<open>Document\<close> (\<^verbatim>\<open>model/document.go\<close>): what a source document claims about itself, and the merge of claims.
  \<^item> \<open>Scan\<close>, \<open>ScanCodec\<close> (\<^verbatim>\<open>scan\<close>, \<^verbatim>\<open>plugin/scan.go\<close>): the record, its projection from graphs and
    back, the comparison of two records, canonical order, digests of sections, the bounded decoder.
  \<^item> \<open>Declarations\<close>, \<open>Components\<close>, \<open>Lifetime\<close> (\<^verbatim>\<open>plugin\<close>): requirements, access disclosures, descriptors and
    modules with their validation, the scope filter on a detection result, and the scope of a
    component as a step relation of the goroutines that register cleanups, close and wait.
  \<^item> \<open>Sbom\<close>, \<open>SbomGraph\<close>, \<open>SbomBuild\<close>, \<open>Strict\<close> (\<^verbatim>\<open>sbom/model.go\<close>, \<^verbatim>\<open>sbom/identity.go\<close>, \<^verbatim>\<open>sbom/graph.go\<close>,
    \<^verbatim>\<open>sbom/transform.go\<close>, \<^verbatim>\<open>sbom/document_assertions.go\<close>, \<^verbatim>\<open>sbom/strict.go\<close>): the neutral document, reading it into a
    graph, building it from one, its identity and sources, and the check that its text has one reading.
  \<^item> \<open>Cdx\<close>, \<open>CdxDoc\<close>, \<open>CdxRound\<close> (\<^verbatim>\<open>sbom/cyclonedx.go\<close>, \<^verbatim>\<open>sbom/cyclonedx_assertions.go\<close>): the CycloneDX codec,
    a component both ways, the document both ways, and what the two directions promise together. A round trip
    is stated on what comes back: \<open>read_advisory\<close> is the part of an advisory the format carries, and
    \<open>states_license\<close> says which entry of a list states which license claim.
  \<^item> \<open>SpdxDoc\<close>, \<open>SpdxRound\<close> (\<^verbatim>\<open>sbom/spdx23.go\<close>, \<^verbatim>\<open>sbom/spdx23_assertions.go\<close>): the SPDX 2.3 codec, its allocator of
    identifiers and its comment carriers. \<open>component_back\<close> is what of a component survives the two
    directions, \<open>spdx_settled\<close> the documents that do.
  \<^item> \<open>Codec\<close> (\<^verbatim>\<open>sbom/codec.go\<close>): the choice of a codec by target and of a target by content, the size bound, what
    every ingestion stamps on a document, and the entry points over both codecs.

  \<^bold>\<open>What the properties show.\<close> The graph: every reachable store is well formed and the lookups agree
  with its abstraction, each operation changes exactly what it says and reports exactly its errors,
  merging is the union of the graphs, the scope filter keeps exactly what it should, paths are exactly the
  simple paths, the order is topological and complete, the comparison pairs versions without loss. The
  codecs: a graph survives its payload, a decoded payload is a graph the operations build, within
  the bounds; a scan record is written independently of the order it was collected in and is read
  back. Gates: no published URL, path, identity or destination escapes its grammar. Documents: a graph
  exports to one component for each module and dependency, reaches in the document what it reaches in the graph, and
  always identifies itself; a document is read whole or refused by name; a document written as CycloneDX is read
  back with its components, relationships and advisories, one written as SPDX with its components and
  relationships under the identifiers it was given. Lifetimes: a cleanup runs at most once
  and none is lost, and closing ends. The locales state the contracts these rest on: \<open>graph_store\<close> (what a
  store promises its clients, interpreted on the slot graph), \<open>gated_union\<close> and \<open>witness_merge\<close> (what
  merging values promises, interpreted on scopes, edge kinds, relationships, CPEs and responses).

  \<^bold>\<open>Fuel.\<close> Loops whose end rests on the graph carry fuel and return \<open>None\<close> without it. They start
  with the number of nodes (\<open>children_walk\<close>, \<open>root_walk\<close>, \<open>sub_visit\<close>, \<open>writeTree\<close>: each level marks a node that
  was not marked), of slots (\<open>explore\<close>, \<open>own_loop\<close>, \<open>topological_loop\<close>: each slot enters the worklist at
  most once), or one more (\<open>collectPathsTo\<close>: a path has no slot twice); \<open>free_key\<close> looks at two
  candidates more than there are keys in use, and its candidates differ, as \<open>id_loop\<close> does with the SPDX
  identifiers assigned. The theorems show a result,
  never only a property of one if there is one. All other recursion is structural or has a measure.

  \<^bold>\<open>Not modelled.\<close> The text of JSON and of error messages; the structures of the
  CycloneDX and SPDX libraries are restated with the fields the code sets or reads; the plugin protocol and its server (network and process
  input and output); HTTP, caching, logging and file helpers, the test kits and the conformance
  suite, which check plugins from outside. Concurrency is modelled where state is shared (\<open>Lifetime\<close>).
  An unstable sort is read as a stable one; the two differ on equal keys only.
\<close>

end
